(* ===== verification/C_Prelude.thy ===== *)
theory C_Prelude
  imports Main "HOL-Library.Word"
begin

text \<open>
  Shared vocabulary of the development: the outcomes of C code (a value, or the undefined
  behaviour the code runs into), the C-locale character classes the parsers test, C strings
  held in fixed arrays, and the arithmetic of ring buffers.  Every component imports it.
\<close>

section \<open>Automation collections\<close>

named_theorems c_outcome \<open>unfolding rules of the outcome type\<close>
named_theorems c_char \<open>the character classes of the C locale\<close>
named_theorems ring_facts \<open>facts about the slices of a ring buffer\<close>

section \<open>Outcomes of C code\<close>

text \<open>
  A C function either yields a value or reaches behaviour the language leaves undefined.
  The constructors name the undefined behaviours the modelled code can reach.
\<close>

datatype ub =
    Buffer_overflow      \<comment> \<open>a write past the end of an array\<close>
  | Unterminated_string  \<comment> \<open>a string function reads an array that holds no NUL\<close>
  | Wild_pointer         \<comment> \<open>an integer is dereferenced as if it were a pointer\<close>
  | Null_pointer         \<comment> \<open>NULL is dereferenced\<close>
  | Freed_pointer        \<comment> \<open>freed storage is accessed\<close>
  | Read_past_end        \<comment> \<open>a read past the end of an array\<close>
  | Signed_overflow      \<comment> \<open>an \<open>int\<close> computation leaves the range of \<open>int\<close>\<close>

type_synonym 'a outcome = "ub + 'a"

definition cbind :: "'a outcome \<Rightarrow> ('a \<Rightarrow> 'b outcome) \<Rightarrow> 'b outcome" where
  "cbind m f = (case m of Inl u \<Rightarrow> Inl u | Inr x \<Rightarrow> f x)"

lemma cbind_simps [simp, c_outcome]:
  "cbind (Inl u) f = Inl u"
  "cbind (Inr x) f = f x"
  by (simp_all add: cbind_def)

lemma cbind_Inr_iff [c_outcome]: "cbind m f = Inr y \<longleftrightarrow> (\<exists>x. m = Inr x \<and> f x = Inr y)"
  by (cases m) auto

lemma cbind_Inl_iff [c_outcome]:
  "cbind m f = Inl u \<longleftrightarrow> m = Inl u \<or> (\<exists>x. m = Inr x \<and> f x = Inl u)"
  by (cases m) auto

lemma cbind_cong [fundef_cong]:
  "m = m' \<Longrightarrow> (\<And>x. m' = Inr x \<Longrightarrow> f x = f' x) \<Longrightarrow> cbind m f = cbind m' f'"
  by (cases m') auto

text \<open>\<open>holds P m\<close>: if the code returns, the value satisfies \<open>P\<close>.\<close>

definition holds :: "('a \<Rightarrow> bool) \<Rightarrow> 'a outcome \<Rightarrow> bool" where
  "holds P m \<longleftrightarrow> (case m of Inl u \<Rightarrow> True | Inr x \<Rightarrow> P x)"

lemma holds_simps [simp, c_outcome]:
  "holds P (Inl u)"
  "holds P (Inr x) \<longleftrightarrow> P x"
  by (simp_all add: holds_def)

lemma holds_cbind:
  "holds Q m \<Longrightarrow> (\<And>x. m = Inr x \<Longrightarrow> Q x \<Longrightarrow> holds P (f x)) \<Longrightarrow> holds P (cbind m f)"
  by (cases m) auto

lemma holdsD: "holds P m \<Longrightarrow> m = Inr x \<Longrightarrow> P x"
  by simp

section \<open>32-bit \<open>int\<close>\<close>

definition int_ok :: "int \<Rightarrow> bool" where
  "int_ok n \<longleftrightarrow> - (2 ^ 31) \<le> n \<and> n < 2 ^ 31"

section \<open>Characters of the C locale\<close>

definition code :: "char \<Rightarrow> nat" where
  "code c = of_char c"

definition isdigit :: "char \<Rightarrow> bool" where
  "isdigit c \<longleftrightarrow> 48 \<le> code c \<and> code c \<le> 57"

definition isupper :: "char \<Rightarrow> bool" where
  "isupper c \<longleftrightarrow> 65 \<le> code c \<and> code c \<le> 90"

definition islower :: "char \<Rightarrow> bool" where
  "islower c \<longleftrightarrow> 97 \<le> code c \<and> code c \<le> 122"

definition isalpha :: "char \<Rightarrow> bool" where
  "isalpha c \<longleftrightarrow> isupper c \<or> islower c"

definition isprint :: "char \<Rightarrow> bool" where
  "isprint c \<longleftrightarrow> 32 \<le> code c \<and> code c \<le> 126"

definition isspace :: "char \<Rightarrow> bool" where
  "isspace c \<longleftrightarrow> code c = 32 \<or> 9 \<le> code c \<and> code c \<le> 13"

definition isxdigit :: "char \<Rightarrow> bool" where
  "isxdigit c \<longleftrightarrow> isdigit c \<or> 65 \<le> code c \<and> code c \<le> 70 \<or> 97 \<le> code c \<and> code c \<le> 102"

text \<open>\<open>c - '0'\<close>\<close>

definition digit_val :: "char \<Rightarrow> int" where
  "digit_val c = int (code c) - 48"

lemmas char_class_defs [c_char] =
  isdigit_def isupper_def islower_def isalpha_def isprint_def isspace_def isxdigit_def
  digit_val_def code_def

abbreviation NUL :: char where "NUL \<equiv> CHR 0x00"
abbreviation LF :: char where "LF \<equiv> CHR 0x0A"
abbreviation CR :: char where "CR \<equiv> CHR 0x0D"
abbreviation DQUOTE :: char where "DQUOTE \<equiv> CHR 0x22"
abbreviation BACKSLASH :: char where "BACKSLASH \<equiv> CHR 0x5C"

lemma digit_val_bounds: "isdigit c \<Longrightarrow> 0 \<le> digit_val c \<and> digit_val c \<le> 9"
  by (simp add: isdigit_def digit_val_def)

lemma isdigit_not_special [simp]:
  assumes "isdigit c"
  shows "c \<noteq> NUL" "c \<noteq> LF" "c \<noteq> CR" "c \<noteq> DQUOTE" "c \<noteq> BACKSLASH"
    "c \<noteq> CHR '':''" "c \<noteq> CHR '',''" "c \<noteq> CHR ''.''" "c \<noteq> CHR ''+''" "c \<noteq> CHR ''>''"
    "\<not> isalpha c"
  using assms by (auto simp: c_char)

lemma isalpha_not_special [simp]:
  assumes "isalpha c"
  shows "c \<noteq> NUL" "c \<noteq> LF" "c \<noteq> CR" "c \<noteq> DQUOTE" "c \<noteq> BACKSLASH"
    "c \<noteq> CHR '':''" "c \<noteq> CHR '',''" "c \<noteq> CHR ''.''" "c \<noteq> CHR ''+''" "c \<noteq> CHR ''>''"
    "\<not> isdigit c"
  using assms by (auto simp: c_char)

section \<open>C strings in arrays\<close>

text \<open>
  The string an array holds is what precedes its first NUL; an array without a NUL is not a
  string, and a string function applied to it runs past its end.
\<close>

definition c_string :: "char list \<Rightarrow> string outcome" where
  "c_string buf = (if NUL \<in> set buf then Inr (takeWhile (\<lambda>c. c \<noteq> NUL) buf)
                   else Inl Unterminated_string)"

text \<open>\<open>strcpy\<close> into an array of \<open>n\<close> bytes: the text and its NUL have to fit.\<close>

definition strcpy_into :: "nat \<Rightarrow> string \<Rightarrow> string outcome" where
  "strcpy_into n s = (if length s < n then Inr s else Inl Buffer_overflow)"

lemma takeWhile_neq_append: "x \<notin> set xs \<Longrightarrow> takeWhile (\<lambda>c. c \<noteq> x) (xs @ x # ys) = xs"
  by (induction xs) auto

lemma c_string_terminated:
  "NUL \<notin> set s \<Longrightarrow> c_string (s @ NUL # rest) = Inr s"
  by (simp add: c_string_def takeWhile_neq_append)

lemma c_string_length: "c_string buf = Inr s \<Longrightarrow> length s < length buf"
proof -
  assume "c_string buf = Inr s"
  then have mem: "NUL \<in> set buf" and s: "s = takeWhile (\<lambda>c. c \<noteq> NUL) buf"
    by (auto simp: c_string_def split: if_splits)
  from mem have "takeWhile (\<lambda>c. c \<noteq> NUL) buf \<noteq> buf"
    by (metis set_takeWhileD)
  with s show ?thesis
    by (metis le_neq_implies_less length_takeWhile_le takeWhile_eq_take take_all order_refl)
qed

lemma c_string_no_NUL: "c_string buf = Inr s \<Longrightarrow> NUL \<notin> set s"
  by (auto simp: c_string_def split: if_splits dest: set_takeWhileD)

section \<open>Rings\<close>

text \<open>
  \<open>ring_slice N xs r n\<close>: the \<open>n\<close> elements of the array \<open>xs\<close> of size \<open>N\<close> from
  position \<open>r\<close> on, wrapping round at the end of the array.
\<close>

definition ring_slice :: "nat \<Rightarrow> 'a list \<Rightarrow> nat \<Rightarrow> nat \<Rightarrow> 'a list" where
  "ring_slice N xs r n = map (\<lambda>i. xs ! ((r + i) mod N)) [0..<n]"

lemma ring_slice_length [simp]: "length (ring_slice N xs r n) = n"
  by (simp add: ring_slice_def)

lemma ring_slice_0 [simp]: "ring_slice N xs r 0 = []"
  by (simp add: ring_slice_def)

lemma ring_slice_pop [ring_facts]:
  assumes "0 < n" "r < N"
  shows "ring_slice N xs r n = xs ! r # ring_slice N xs (Suc r mod N) (n - 1)"
proof -
  obtain m where n: "n = Suc m" using assms by (cases n) auto
  have "map (\<lambda>i. xs ! ((r + i) mod N)) [0..<Suc m]
      = xs ! (r mod N) # map (\<lambda>i. xs ! ((r + Suc i) mod N)) [0..<m]"
    by (simp add: upt_conv_Cons map_Suc_upt [symmetric] comp_def del: upt_Suc)
  moreover have "(r + Suc i) mod N = (Suc r mod N + i) mod N" for i
    by (simp add: mod_add_left_eq)
  ultimately show ?thesis
    using assms n by (simp add: ring_slice_def del: upt_Suc)
qed

lemma ring_slice_push [ring_facts]:
  assumes "n < N" "length xs = N" "r < N" "w = (r + n) mod N"
  shows "ring_slice N (xs[w := x]) r (Suc n) = ring_slice N xs r n @ [x]"
proof -
  have w: "w < N" using assms by simp
  have "(r + i) mod N \<noteq> w" if "i < n" for i
  proof
    assume "(r + i) mod N = w"
    then have "(r + i) mod N = (r + n) mod N" using assms by simp
    then have "N dvd (n - i)"
      using that mod_eq_dvd_iff_nat [of "r + i" "r + n" N] by simp
    with that assms(1) show False by (auto dest: dvd_imp_le)
  qed
  then have "map (\<lambda>i. xs[w := x] ! ((r + i) mod N)) [0..<n] = map (\<lambda>i. xs ! ((r + i) mod N)) [0..<n]"
    by (intro map_cong refl nth_list_update_neq) auto
  with assms w show ?thesis by (simp add: ring_slice_def)
qed

lemma wrap_eq_mod: "r < N \<Longrightarrow> (if Suc r \<ge> N then 0 else Suc r) = Suc r mod N"
  by (cases "Suc r = N") auto

end
