(* ===== verification/Rtc_Clock.thy ===== *)
theory Rtc_Clock
  imports C_Prelude
begin

text \<open>
  The board support of \<open>app_iothub_client/src/stub.c\<close>: the calendar-to-seconds conversion
  (\<open>__year_to_secs\<close>, \<open>__month_to_secs\<close>, \<open>__tm_to_secs\<close>), the binary-coded-decimal
  counters of the real-time clock (\<open>rtc_set_time\<close>, \<open>rtc_get_time\<close>), and the MAC address
  parser \<open>ether_aton_r\<close>.  The AT driver uses all three: it turns the SNTP answer of the
  modem into seconds, sets the clock with it, and parses the addresses the modem reports.
\<close>

unbundle bit_operations_syntax

section \<open>C division\<close>

text \<open>Division and remainder of C truncate towards zero.\<close>

definition c_div :: "int \<Rightarrow> int \<Rightarrow> int" where
  "c_div a b = sgn a * sgn b * (\<bar>a\<bar> div \<bar>b\<bar>)"

definition c_mod :: "int \<Rightarrow> int \<Rightarrow> int" where
  "c_mod a b = a - c_div a b * b"

lemma c_div_mod_pos:
  assumes "0 < b"
  shows "a = c_div a b * b + c_mod a b" "\<bar>c_mod a b\<bar> < b"
    "0 \<le> a \<Longrightarrow> 0 \<le> c_mod a b" "a < 0 \<Longrightarrow> c_mod a b \<le> 0"
proof -
  show "a = c_div a b * b + c_mod a b" by (simp add: c_mod_def)
  have nn: "c_div a b = a div b" if "0 \<le> a"
    using that assms by (cases "a = 0") (auto simp: c_div_def)
  have ng: "c_div a b = - ((- a) div b)" if "a < 0"
    using that assms by (simp add: c_div_def)
  have m1: "c_mod a b = a mod b" if "0 \<le> a"
    using nn [OF that] by (simp add: c_mod_def minus_div_mult_eq_mod)
  have m2: "c_mod a b = - ((- a) mod b)" if "a < 0"
    using ng [OF that] minus_div_mult_eq_mod [of "- a" b] unfolding c_mod_def by simp
  show "\<bar>c_mod a b\<bar> < b"
    using m1 m2 assms by (cases "0 \<le> a") auto
  show "0 \<le> a \<Longrightarrow> 0 \<le> c_mod a b" using m1 assms by simp
  show "a < 0 \<Longrightarrow> c_mod a b \<le> 0" using m2 assms by simp
qed

section \<open>Calendar time\<close>

record tm =
  tm_sec :: int
  tm_min :: int
  tm_hour :: int
  tm_mday :: int
  tm_mon :: int
  tm_year :: int

text \<open>
  \<open>__year_to_secs\<close>: seconds from the epoch to the start of the year \<open>1900 + year\<close>, and
  whether that year is a leap year.  The first branch is the one the unsigned comparison
  \<open>year-2ULL <= 136\<close> selects; \<open>>> 2\<close> and \<open>& 3\<close> are flooring division and remainder by 4.
\<close>

definition century_leaps :: "int \<Rightarrow> bool \<times> int \<times> int" where
  "century_leaps rem1 =
    (if rem1 = 0 then (True, 0, 0)
     else
       (let (centuries, rem2) =
              (if rem1 \<ge> 200 then
                 (if rem1 \<ge> 300 then (3, rem1 - 300) else (2, rem1 - 200))
               else (if rem1 \<ge> 100 then (1, rem1 - 100) else (0, rem1)))
        in if rem2 = 0 then (False, centuries, 0)
           else (rem2 mod 4 = 0, centuries, rem2 div 4)))"

definition year_to_secs :: "int \<Rightarrow> int \<times> bool" where
  "year_to_secs year =
    (if 2 \<le> year \<and> year - 2 \<le> 136 then
       (let leaps = (year - 68) div 4
        in if (year - 68) mod 4 = 0
           then (31536000 * (year - 70) + 86400 * (leaps - 1), True)
           else (31536000 * (year - 70) + 86400 * leaps, False))
     else
       (let cycles0 = c_div (year - 100) 400;
            rem0 = c_mod (year - 100) 400;
            cycles = (if rem0 < 0 then cycles0 - 1 else cycles0);
            rem1 = (if rem0 < 0 then rem0 + 400 else rem0);
            (is_leap, centuries, leaps) = century_leaps rem1;
            leaps' = leaps + 97 * cycles + 24 * centuries - (if is_leap then 1 else 0)
        in ((year - 100) * 31536000 + leaps' * 86400 + 946684800 + 86400, is_leap)))"

definition secs_through_month :: "int list" where
  "secs_through_month =
    [0, 31*86400, 59*86400, 90*86400,
     120*86400, 151*86400, 181*86400, 212*86400,
     243*86400, 273*86400, 304*86400, 334*86400]"

text \<open>An index outside the table is read past its end in C.\<close>

definition month_to_secs :: "int \<Rightarrow> bool \<Rightarrow> int outcome" where
  "month_to_secs month is_leap =
    (if 0 \<le> month \<and> month < 12
     then Inr (secs_through_month ! nat month + (if is_leap \<and> month \<ge> 2 then 86400 else 0))
     else Inl Buffer_overflow)"

definition month_in_year :: "int \<Rightarrow> int \<Rightarrow> int \<times> int" where
  "month_in_year month year =
    (if month \<ge> 12 \<or> month < 0 then
       (let adj = c_div month 12; m = c_mod month 12
        in if m < 0 then (m + 12, year + (adj - 1)) else (m, year + adj))
     else (month, year))"

definition tm_to_secs :: "tm \<Rightarrow> int outcome" where
  "tm_to_secs tm =
    (let (month, year) = month_in_year (tm_mon tm) (tm_year tm);
         (t, is_leap) = year_to_secs year
     in cbind (month_to_secs month is_leap) (\<lambda>ms.
          Inr (t + ms + 86400 * (tm_mday tm - 1) + 3600 * tm_hour tm + 60 * tm_min tm + tm_sec tm)))"

subsection \<open>The calendar it implements\<close>

definition leap_year :: "int \<Rightarrow> bool" where
  "leap_year Y \<longleftrightarrow> 4 dvd Y \<and> (\<not> 100 dvd Y \<or> 400 dvd Y)"

definition year_days :: "int \<Rightarrow> int" where
  "year_days Y = (if leap_year Y then 366 else 365)"

definition month_lengths :: "int \<Rightarrow> int list" where
  "month_lengths Y = [31, if leap_year Y then 29 else 28, 31, 30, 31, 30, 31, 31, 30, 31, 30, 31]"

text \<open>Days from 1 January 1970 to 1 January of the year \<open>Y\<close>.\<close>

definition days_to_year :: "int \<Rightarrow> int" where
  "days_to_year Y = 365 * (Y - 1970) + (Y - 1) div 4 - (Y - 1) div 100 + (Y - 1) div 400 - 477"

lemma days_to_year_epoch: "days_to_year 1970 = 0"
  by (simp add: days_to_year_def)

lemma div_step: "0 < k \<Longrightarrow> (Y::int) div k - (Y - 1) div k = (if k dvd Y then 1 else 0)"
proof (cases "k dvd Y")
  case True
  assume "0 < k"
  from True obtain q where "Y = k * q" by blast
  moreover have "(k * q - 1) div k = q - 1"
    using \<open>0 < k\<close> by (intro int_div_pos_eq [of _ _ _ "k - 1"]) (auto simp: algebra_simps)
  ultimately show ?thesis using True \<open>0 < k\<close> by simp
next
  case False
  assume "0 < k"
  from False have nz: "Y mod k \<noteq> 0" by (simp add: dvd_eq_mod_eq_0)
  have "0 \<le> Y mod k" "Y mod k < k" using \<open>0 < k\<close> by simp_all
  with nz have "(Y - 1) div k = Y div k"
    by (intro int_div_pos_eq [of _ _ _ "Y mod k - 1"]) (auto simp: algebra_simps)
  with False show ?thesis by simp
qed

lemma dvd_400: "(400::int) dvd Y \<Longrightarrow> 100 dvd Y"
  using dvd_trans [of 100 400 Y] by simp

lemma dvd_100: "(100::int) dvd Y \<Longrightarrow> 4 dvd Y"
  using dvd_trans [of 4 100 Y] by simp

lemma linear_diff:
  "(365 * (a + 1) + b - c + d - k) - (365 * a + b' - c' + d' - k)
   = 365 + (b - b') - (c - c') + (d - (d' :: int))"
  by simp

lemma days_to_year_diff:
  "days_to_year (Y + 1) - days_to_year Y
   = 365 + (Y div 4 - (Y - 1) div 4) - (Y div 100 - (Y - 1) div 100) + (Y div 400 - (Y - 1) div 400)"
proof -
  have e: "Y + 1 - 1 = Y" "Y + 1 - 1970 = (Y - 1970) + 1" by simp_all
  show ?thesis unfolding days_to_year_def e by (rule linear_diff)
qed

lemma leap_count:
  assumes "p400 \<Longrightarrow> p100" "p100 \<Longrightarrow> p4"
  shows "365 + (if p4 then 1 else 0) - (if p100 then 1 else 0) + (if p400 then 1 else 0)
   = (if p4 \<and> (\<not> p100 \<or> p400) then 366 else (365 :: int))"
  using assms by (cases p4; cases p100; cases p400) simp_all

lemma days_to_year_step: "days_to_year (Y + 1) = days_to_year Y + year_days Y"
proof -
  have "days_to_year (Y + 1) - days_to_year Y
      = 365 + (Y div 4 - (Y - 1) div 4) - (Y div 100 - (Y - 1) div 100) + (Y div 400 - (Y - 1) div 400)"
    by (rule days_to_year_diff)
  also have "\<dots> = 365 + (if 4 dvd Y then 1 else 0) - (if 100 dvd Y then 1 else 0) + (if 400 dvd Y then 1 else 0)"
    by (simp only: div_step [OF zero_less_numeral])
  also have "\<dots> = year_days Y"
    unfolding year_days_def leap_year_def by (rule leap_count [OF dvd_400 dvd_100])
  finally show ?thesis by linarith
qed

lemma div_shift: "0 < k \<Longrightarrow> (k * m + s) div k = m + s div (k :: int)"
  by simp

lemma cycle_sum:
  "365 * z + (100 * (c + 5) + A) - (4 * (c + 5) + B) + (c + 5 + C) - 477
   = 365 * z + 97 * c + A - B + C + (8 :: int)"
  by simp

text \<open>A year counted from the start of its 400-year cycle.\<close>

lemma days_to_year_cycle:
  assumes "y - 100 = 400 * c + r"
  shows "days_to_year (y + 1900)
    = 365 * (y - 70) + 97 * c + (r - 1) div 4 - (r - 1) div 100 + (r - 1) div 400 + 8"
proof -
  have e: "y + 1900 - 1 = 400 * (c + 5) + (r - 1)" "y + 1900 - 1970 = y - 70"
    using assms by simp_all
  have "(400 * (c + 5) + (r - 1)) div 4 = 100 * (c + 5) + (r - 1) div 4"
    using div_shift [of 4 "100 * (c + 5)" "r - 1"] by (simp only: mult.assoc [symmetric] mult_num_simps
      arith_simps zero_less_numeral simp_thms)
  moreover have "(400 * (c + 5) + (r - 1)) div 100 = 4 * (c + 5) + (r - 1) div 100"
    using div_shift [of 100 "4 * (c + 5)" "r - 1"] by (simp only: mult.assoc [symmetric] mult_num_simps
      arith_simps zero_less_numeral simp_thms)
  moreover have "(400 * (c + 5) + (r - 1)) div 400 = (c + 5) + (r - 1) div 400"
    by (rule div_shift) simp
  ultimately show ?thesis unfolding days_to_year_def e by (simp only: cycle_sum)
qed

text \<open>The part of the year within its 400-year cycle, as a century and a year of the century.\<close>

definition century_ok :: "int \<Rightarrow> bool" where
  "century_ok r = (case century_leaps r of (l, ce, le) \<Rightarrow>
     le + 24 * ce - (if l then 1 else 0) = (r - 1) div 4 - (r - 1) div 100 + (r - 1) div 400
     \<and> (l \<longleftrightarrow> 4 dvd r \<and> (\<not> 100 dvd r \<or> 400 dvd r)))"

lemma century_ok_start:
  "century_ok 0" "century_ok 100" "century_ok 200" "century_ok 300"
  by (simp_all add: century_ok_def century_leaps_def)

lemma century_ok_inner:
  assumes k: "k \<in> {0, 1, 2, 3}" and s: "0 < s" "s < 100"
  shows "century_ok (100 * k + s)"
proof -
  have cl: "century_leaps (100 * k + s) = (s mod 4 = 0, k, s div 4)"
    using k s by (auto simp: century_leaps_def)
  have e: "100 * k + s - 1 = 100 * k + (s - 1)" by simp
  have "(4 * (25 * k) + (s - 1)) div 4 = 25 * k + (s - 1) div 4" by (rule div_shift) simp
  then have q4: "(100 * k + s - 1) div 4 = 25 * k + (s - 1) div 4"
    unfolding e by (simp only: mult.assoc [symmetric] mult_num_simps arith_simps)
  have q100: "(100 * k + s - 1) div 100 = k"
    using div_shift [of 100 k "s - 1"] s unfolding e by (simp add: div_pos_pos_trivial)
  have q400: "(100 * k + s - 1) div 400 = 0"
    using k s by (intro div_pos_pos_trivial) auto
  have d100: "\<not> 100 dvd (100 * k + s)"
    using zdvd_not_zless [OF s] dvd_add_right_iff [of 100 "100 * k" s] by (metis dvd_triv_left)
  have "4 dvd 4 * (25 * k)" by simp
  then have "4 dvd 100 * k" by (simp only: mult.assoc [symmetric] mult_num_simps arith_simps)
  then have d4: "4 dvd (100 * k + s) \<longleftrightarrow> 4 dvd s" by (rule dvd_add_right_iff)
  show ?thesis
    using div_step [of 4 s] d100 d4 unfolding century_ok_def cl q4 q100 q400
    by (simp only: prod.case dvd_eq_mod_eq_0 [of 4 s] zero_less_numeral) (auto split: if_splits)
qed

lemma century_leaps_ok:
  assumes "0 \<le> r" "r < 400"
  shows "century_ok r"
proof -
  have r: "r = 100 * (r div 100) + r mod 100" by simp
  have k: "r div 100 \<in> {0, 1, 2, 3}"
    using assms by (simp, presburger)
  show ?thesis
  proof (cases "r mod 100 = 0")
    case True
    with r k have "r \<in> {0, 100, 200, 300}" by auto
    with century_ok_start show ?thesis by blast
  next
    case False
    then have "0 < r mod 100" "r mod 100 < 100" using pos_mod_bound [of 100 r]
      pos_mod_sign [of 100 r] by linarith+
    from century_ok_inner [OF k this] show ?thesis using r by simp
  qed
qed

lemma sum_cycle:
  assumes "le + 24 * ce - b = A - B + C"
  shows "(400 * c + r) * 31536000 + (le + 97 * c + 24 * ce - b) * 86400 + 946684800 + 86400
    = 86400 * (365 * (400 * c + r + 30) + 97 * c + A - B + C + (8 :: int))"
proof -
  have "le + 97 * c + 24 * ce - b = 97 * c + (A - B + C)" using assms by simp
  then show ?thesis by (simp add: algebra_simps)
qed

lemma short_leap:
  assumes "2 \<le> y" "y \<le> 138"
  shows "leap_year (y + 1900) \<longleftrightarrow> (y - 68) mod 4 = (0 :: int)"
proof -
  have four: "4 dvd (y + 1900) \<longleftrightarrow> (y - 68) mod 4 = 0" by presburger
  have "\<not> 100 dvd (y + 1900)" if "y \<noteq> 100"
  proof
    assume "100 dvd (y + 1900)"
    then obtain q where "y + 1900 = 100 * q" by blast
    with assms that show False by presburger
  qed
  then show ?thesis
    using four by (cases "y = 100") (auto simp: leap_year_def)
qed

lemma short_sum: "a - b = 15 \<Longrightarrow> 365 * z + q - a + b - 477 = 365 * z + q - (492 :: int)"
  by simp

lemma short_days:
  assumes "2 \<le> y" "y \<le> 138"
  shows "days_to_year (y + 1900) = 365 * (y - 70) + (y + 1899) div 4 - 492"
proof -
  have d: "(y + 1899) div 100 - (y + 1899) div 400 = 15"
  proof (cases "y \<le> 100")
    case True
    have "(y + 1899) div 100 = 19"
      by (rule int_div_pos_eq [where r = "y - 1"]) (use True assms in simp_all)
    moreover have "(y + 1899) div 400 = 4"
      by (rule int_div_pos_eq [where r = "y + 299"]) (use True assms in simp_all)
    ultimately show ?thesis by simp
  next
    case False
    have "(y + 1899) div 100 = 20"
      by (rule int_div_pos_eq [where r = "y - 101"]) (use False assms in simp_all)
    moreover have "(y + 1899) div 400 = 5"
      by (rule int_div_pos_eq [where r = "y - 101"]) (use False assms in simp_all)
    ultimately show ?thesis by simp
  qed
  have e: "y + 1900 - 1970 = y - 70" "y + 1900 - 1 = y + 1899" by simp_all
  show ?thesis unfolding days_to_year_def e by (rule short_sum [OF d])
qed

lemma short_div: "(y + 1899) div 4 = (y - 68) div 4 + 492 - (if (y - 68) mod 4 = (0 :: int) then 1 else 0)"
proof -
  have e: "4 * 492 + (y - 68) = y + 1900" "y + 1900 - 1 = y + 1899" by simp_all
  have "(4 * 492 + (y - 68)) div 4 = 492 + (y - 68) div 4" by (rule div_shift) simp
  then have "(y + 1900) div 4 = 492 + (y - 68) div 4" unfolding e .
  moreover have "4 dvd (y + 1900) \<longleftrightarrow> (y - 68) mod 4 = 0" by presburger
  moreover have "(y + 1900) div 4 - (y + 1899) div 4 = (if 4 dvd (y + 1900) then 1 else 0)"
    using div_step [of 4 "y + 1900", unfolded e] by simp
  ultimately show ?thesis by (simp split: if_splits)
qed

lemma short_year:
  assumes "2 \<le> y" "y \<le> 138"
  shows "year_to_secs y = (86400 * days_to_year (y + 1900), leap_year (y + 1900))"
proof -
  obtain q where q: "q = (y - 68) div 4" by simp
  have "y - 2 \<le> 136" using assms by simp
  with assms show ?thesis
    unfolding year_to_secs_def short_days [OF assms] short_div short_leap [OF assms] q [symmetric]
    by (cases "(y - 68) mod 4 = 0") (simp_all add: algebra_simps)
qed

lemma long_year:
  assumes "y < 2 \<or> 138 < y"
  shows "year_to_secs y = (86400 * days_to_year (y + 1900), leap_year (y + 1900))"
proof -
  define c where "c = (if c_mod (y - 100) 400 < 0 then c_div (y - 100) 400 - 1 else c_div (y - 100) 400)"
  define r where "r = (if c_mod (y - 100) 400 < 0 then c_mod (y - 100) 400 + 400 else c_mod (y - 100) 400)"
  have yr: "y - 100 = 400 * c + r" and r0: "0 \<le> r" and r4: "r < 400"
    using c_div_mod_pos [of 400 "y - 100"] by (auto simp: c_def r_def)
  obtain l ce le where cl: "century_leaps r = (l, ce, le)" by (metis prod_cases3)
  from century_leaps_ok [OF r0 r4, unfolded century_ok_def cl prod.case]
  have sum: "le + 24 * ce - (if l then 1 else 0) = (r - 1) div 4 - (r - 1) div 100 + (r - 1) div 400"
    and l: "l \<longleftrightarrow> 4 dvd r \<and> (\<not> 100 dvd r \<or> 400 dvd r)"
    by blast+
  have yy: "y + 1900 = 400 * (c + 5) + r" and y70: "y - 70 = 400 * c + r + 30"
    using yr by simp_all
  have "4 dvd 400 * (c + 5)" "100 dvd 400 * (c + 5)" "400 dvd 400 * (c + 5)"
    by (rule dvd_mult2, simp)+
  then have L: "leap_year (y + 1900) = l"
    unfolding leap_year_def yy l by (simp only: dvd_add_right_iff)
  have S: "(y - 100) * 31536000 + (le + 97 * c + 24 * ce - (if l then 1 else 0)) * 86400
      + 946684800 + 86400 = 86400 * days_to_year (y + 1900)"
    unfolding days_to_year_cycle [OF yr] y70 yr by (rule sum_cycle [OF sum])
  have n: "(2 \<le> y \<and> y - 2 \<le> 136) = False" using assms by auto
  show ?thesis
    unfolding year_to_secs_def Let_def c_def [symmetric] r_def [symmetric] cl
    by (simp only: n if_False prod.case S L)
qed

lemma year_to_secs_days:
  "year_to_secs y = (86400 * days_to_year (y + 1900), leap_year (y + 1900))"
proof (cases "2 \<le> y \<and> y \<le> 138")
  case True
  then show ?thesis using short_year by blast
next
  case False
  then have "y < 2 \<or> 138 < y" by linarith
  then show ?thesis by (rule long_year)
qed

subsection \<open>\<open>__tm_to_secs\<close> is the calendar\<close>

definition days_to_month :: "int \<Rightarrow> int \<Rightarrow> int" where
  "days_to_month Y m = sum_list (take (nat m) (month_lengths Y))"

lemma month_cases:
  assumes "0 \<le> m" "m < (12::int)"
  shows "m \<in> {0, 1, 2, 3, 4, 5, 6, 7, 8, 9, 10, 11}"
  using assms by (simp, presburger)

lemma month_to_secs_days:
  assumes "0 \<le> m" "m < 12"
  shows "month_to_secs m (leap_year Y) = Inr (86400 * days_to_month Y m)"
  using month_cases [OF assms]
  by (elim insertE) (simp_all add: month_to_secs_def secs_through_month_def days_to_month_def month_lengths_def)

lemma month_in_year_eq: "month_in_year m0 y = (m0 mod 12, y + m0 div 12)"
proof -
  have *: "m0 mod 12 = m \<and> m0 div 12 = q" if "m0 = q * 12 + m" "0 \<le> m" "m < 12" for q m
    using that by simp
  note cd = c_div_mod_pos [of 12 m0]
  show ?thesis
  proof (cases "m0 \<ge> 12 \<or> m0 < 0")
    case True
    show ?thesis
    proof (cases "c_mod m0 12 < 0")
      case neg: True
      have "m0 mod 12 = c_mod m0 12 + 12 \<and> m0 div 12 = c_div m0 12 - 1"
        using cd neg by (intro *) auto
      with True neg show ?thesis by (simp add: month_in_year_def Let_def)
    next
      case False
      have "m0 mod 12 = c_mod m0 12 \<and> m0 div 12 = c_div m0 12"
        using cd False by (intro *) auto
      with True False show ?thesis by (simp add: month_in_year_def Let_def)
    qed
  next
    case False
    then have "m0 mod 12 = m0 \<and> m0 div 12 = 0" by (intro *) auto
    with False show ?thesis by (simp add: month_in_year_def)
  qed
qed

text \<open>The specification: seconds of a broken-down time in the proleptic Gregorian calendar.\<close>

definition calendar_secs :: "tm \<Rightarrow> int" where
  "calendar_secs tm =
    (let Y = 1900 + tm_year tm + tm_mon tm div 12
     in 86400 * (days_to_year Y + days_to_month Y (tm_mon tm mod 12) + tm_mday tm - 1)
        + 3600 * tm_hour tm + 60 * tm_min tm + tm_sec tm)"

lemma tm_to_secs_eq: "tm_to_secs tm = Inr (calendar_secs tm)"
proof -
  let ?m = "tm_mon tm mod 12" and ?y = "tm_year tm + tm_mon tm div 12"
  have Y: "?y + 1900 = 1900 + tm_year tm + tm_mon tm div 12" by (simp only: ac_simps)
  have m: "0 \<le> ?m" "?m < 12" by simp_all
  show ?thesis
    unfolding tm_to_secs_def Let_def month_in_year_eq prod.case year_to_secs_days
      month_to_secs_days [OF m] cbind_simps calendar_secs_def Y
    by (simp add: algebra_simps)
qed

subsection \<open>Later dates are later seconds\<close>

definition valid_tm :: "tm \<Rightarrow> bool" where
  "valid_tm tm \<longleftrightarrow>
     0 \<le> tm_mon tm \<and> tm_mon tm < 12 \<and>
     1 \<le> tm_mday tm \<and> tm_mday tm \<le> month_lengths (1900 + tm_year tm) ! nat (tm_mon tm) \<and>
     0 \<le> tm_hour tm \<and> tm_hour tm < 24 \<and> 0 \<le> tm_min tm \<and> tm_min tm < 60 \<and>
     0 \<le> tm_sec tm \<and> tm_sec tm < 60"

definition date_before :: "tm \<Rightarrow> tm \<Rightarrow> bool" where
  "date_before a b \<longleftrightarrow>
     (tm_year a, tm_mon a, tm_mday a) \<noteq> (tm_year b, tm_mon b, tm_mday b) \<and>
     (tm_year a < tm_year b \<or> tm_year a = tm_year b \<and>
       (tm_mon a < tm_mon b \<or> tm_mon a = tm_mon b \<and> tm_mday a < tm_mday b))"

lemma month_end:
  assumes "0 \<le> m" "m < 12"
  shows "days_to_month Y m + month_lengths Y ! nat m = days_to_month Y (m + 1)"
  using month_cases [OF assms]
  by (elim insertE) (simp_all add: days_to_month_def month_lengths_def)

lemma month_mono:
  assumes "0 \<le> m" "m < m'" "m' \<le> 12"
  shows "days_to_month Y m + month_lengths Y ! nat m \<le> days_to_month Y m'"
proof -
  have nn: "\<forall>x\<in>set xs. 0 \<le> x \<Longrightarrow> a \<le> b \<Longrightarrow> sum_list (take a xs) \<le> sum_list (take b xs)"
    for xs :: "int list" and a b
  proof (induction xs arbitrary: a b)
    case (Cons x xs)
    then show ?case
      by (cases a; cases b) (auto intro!: add_nonneg_nonneg sum_list_nonneg dest: in_set_takeD)
  qed simp
  have "days_to_month Y (m + 1) \<le> days_to_month Y m'"
    unfolding days_to_month_def using assms
    by (intro nn) (auto simp: month_lengths_def)
  with month_end [of m Y] assms show ?thesis by simp
qed

lemma year_end: "days_to_month Y 12 = year_days Y"
  by (simp add: days_to_month_def month_lengths_def year_days_def)

lemma year_mono_aux: "days_to_year Y + year_days Y \<le> days_to_year (Y + 1 + int n)"
proof (induction n)
  case 0
  then show ?case by (simp add: days_to_year_step)
next
  case (Suc n)
  have "Y + 1 + int (Suc n) = (Y + 1 + int n) + 1" by simp
  moreover have "0 \<le> year_days (Y + 1 + int n)" by (simp add: year_days_def)
  ultimately show ?case using Suc days_to_year_step [of "Y + 1 + int n"] by simp
qed

lemma year_mono: "Y < Y' \<Longrightarrow> days_to_year Y + year_days Y \<le> days_to_year Y'"
  using year_mono_aux [of Y "nat (Y' - Y - 1)"] by simp

lemma day_of_year_bounds:
  assumes "valid_tm tm"
  shows "days_to_month (1900 + tm_year tm) (tm_mon tm) + tm_mday tm - 1 < year_days (1900 + tm_year tm)"
    "0 \<le> days_to_month (1900 + tm_year tm) (tm_mon tm)"
proof -
  from assms have m: "0 \<le> tm_mon tm" "tm_mon tm < 12"
    and d: "tm_mday tm \<le> month_lengths (1900 + tm_year tm) ! nat (tm_mon tm)"
    by (auto simp: valid_tm_def)
  from month_mono [OF m(1), of 12 "1900 + tm_year tm"] m d
  show "days_to_month (1900 + tm_year tm) (tm_mon tm) + tm_mday tm - 1 < year_days (1900 + tm_year tm)"
    by (simp add: year_end)
  show "0 \<le> days_to_month (1900 + tm_year tm) (tm_mon tm)"
    using month_cases [OF m] by (elim insertE) (simp_all add: days_to_month_def month_lengths_def)
qed

lemma month_then_day:
  assumes "valid_tm a" "tm_mon a < tm_mon b" "valid_tm b" "tm_year a = tm_year b"
  shows "days_to_month (1900 + tm_year a) (tm_mon a) + tm_mday a
    < days_to_month (1900 + tm_year b) (tm_mon b) + tm_mday b"
  using month_mono [of "tm_mon a" "tm_mon b" "1900 + tm_year a"] assms
  by (simp add: valid_tm_def)

lemma calendar_secs_valid:
  assumes "valid_tm tm"
  obtains t where "0 \<le> t" "t < 86400"
    "calendar_secs tm = 86400 * (days_to_year (1900 + tm_year tm)
       + days_to_month (1900 + tm_year tm) (tm_mon tm) + tm_mday tm - 1) + t"
proof
  let ?t = "3600 * tm_hour tm + 60 * tm_min tm + tm_sec tm"
  show "0 \<le> ?t" "?t < 86400" using assms by (auto simp: valid_tm_def)
  show "calendar_secs tm = 86400 * (days_to_year (1900 + tm_year tm)
       + days_to_month (1900 + tm_year tm) (tm_mon tm) + tm_mday tm - 1) + ?t"
    using assms by (simp add: calendar_secs_def valid_tm_def div_pos_pos_trivial mod_pos_pos_trivial Let_def)
qed

lemma calendar_secs_before:
  assumes "valid_tm a" "valid_tm b" "date_before a b"
  shows "calendar_secs a < calendar_secs b"
proof -
  obtain s where s: "0 \<le> s" "s < 86400" "calendar_secs a = 86400 * (days_to_year (1900 + tm_year a)
       + days_to_month (1900 + tm_year a) (tm_mon a) + tm_mday a - 1) + s"
    by (rule calendar_secs_valid [OF assms(1)])
  obtain t where t: "0 \<le> t" "t < 86400" "calendar_secs b = 86400 * (days_to_year (1900 + tm_year b)
       + days_to_month (1900 + tm_year b) (tm_mon b) + tm_mday b - 1) + t"
    by (rule calendar_secs_valid [OF assms(2)])
  have "days_to_year (1900 + tm_year a) + days_to_month (1900 + tm_year a) (tm_mon a) + tm_mday a
      < days_to_year (1900 + tm_year b) + days_to_month (1900 + tm_year b) (tm_mon b) + tm_mday b"
  proof (cases "tm_year a < tm_year b")
    case True
    then show ?thesis
      using year_mono [of "1900 + tm_year a" "1900 + tm_year b"] day_of_year_bounds [OF assms(1)]
        day_of_year_bounds(2) [OF assms(2)] assms(2) by (simp add: valid_tm_def)
  next
    case False
    with assms(3) have y: "tm_year a = tm_year b" by (auto simp: date_before_def)
    show ?thesis
    proof (cases "tm_mon a < tm_mon b")
      case True
      with month_then_day [OF assms(1) _ assms(2) y] y show ?thesis by simp
    next
      case False
      with assms(3) y have "tm_mon a = tm_mon b" "tm_mday a < tm_mday b" by (auto simp: date_before_def)
      with y show ?thesis by simp
    qed
  qed
  with s t show ?thesis by simp
qed

section \<open>The real-time clock\<close>

type_synonym u8 = "8 word"
type_synonym u16 = "16 word"

definition DecToBcd :: "u8 \<Rightarrow> u8" where
  "DecToBcd value = push_bit 4 (value div 10) OR (value mod 10)"

definition BcdToDec :: "u8 \<Rightarrow> u8" where
  "BcdToDec value = 10 * drop_bit 4 value + (value AND 0x0F)"

text \<open>
  The counter registers of the clock; \<open>rcr2_start\<close> is the START bit that runs it.  The code
  stops the clock, waits for the bit, resets, writes the counters and starts the clock again.
\<close>

record rtc_regs =
  rcr2_start :: bool
  ryrcnt :: u16
  rmoncnt :: u8
  rdaycnt :: u8
  rhrcnt :: u8
  rmincnt :: u8
  rseccnt :: u8
  r64cnt :: u8

definition rtc_set_time :: "tm \<Rightarrow> rtc_regs \<Rightarrow> rtc_regs" where
  "rtc_set_time time regs =
    regs\<lparr>ryrcnt := ucast (DecToBcd (word_of_int (tm_year time + 1900 - 2000))),
         rmoncnt := DecToBcd (word_of_int (tm_mon time + 1)),
         rdaycnt := DecToBcd (word_of_int (tm_mday time)),
         rhrcnt := DecToBcd (word_of_int (tm_hour time)),
         rmincnt := DecToBcd (word_of_int (tm_min time)),
         rseccnt := DecToBcd (word_of_int (tm_sec time)),
         r64cnt := 0,
         rcr2_start := True\<rparr>"

definition rtc_get_time :: "rtc_regs \<Rightarrow> tm \<Rightarrow> tm" where
  "rtc_get_time regs time =
    time\<lparr>tm_year := 2000 + uint (BcdToDec (ucast (ryrcnt regs))) - 1900,
         tm_mon := uint (BcdToDec (rmoncnt regs)) - 1,
         tm_mday := uint (BcdToDec (rdaycnt regs)),
         tm_hour := uint (BcdToDec (rhrcnt regs AND 0x3F)),
         tm_min := uint (BcdToDec (rmincnt regs)),
         tm_sec := uint (BcdToDec (rseccnt regs))\<rparr>"

lemma bcd_all: "list_all (\<lambda>n. BcdToDec (DecToBcd (word_of_int (int n))) = word_of_int (int n)) [0..<100]"
  by code_simp

lemma bcd_roundtrip:
  assumes "0 \<le> n" "n < 100"
  shows "uint (BcdToDec (DecToBcd (word_of_int n))) = n"
proof -
  obtain k where k: "n = int k" "k < 100" using assms by (metis nonneg_int_cases of_nat_less_numeral_iff)
  with bcd_all have "BcdToDec (DecToBcd (word_of_int (int k))) = word_of_int (int k)"
    by (simp only: list_all_iff set_upt) simp
  moreover have "uint (word_of_int (int k) :: u8) = int k"
    using k by (simp add: uint_word_of_int_eq take_bit_int_eq_self del: of_int_of_nat_eq)
  ultimately show ?thesis by (simp only: k)
qed

lemma bcd_hour_all:
  "list_all (\<lambda>n. DecToBcd (word_of_int (int n)) AND 0x3F = DecToBcd (word_of_int (int n))) [0..<24]"
  by code_simp

lemma bcd_hour: "0 \<le> n \<Longrightarrow> n < 24 \<Longrightarrow> DecToBcd (word_of_int n) AND 0x3F = DecToBcd (word_of_int n)"
proof -
  assume "0 \<le> n" "n < 24"
  then have "nat n \<in> set [0..<24]" by (simp add: nat_less_iff)
  with bcd_hour_all have "DecToBcd (word_of_int (int (nat n))) AND 0x3F = DecToBcd (word_of_int (int (nat n)))"
    unfolding list_all_iff by blast
  with \<open>0 \<le> n\<close> show ?thesis by (simp only: int_nat_eq if_True)
qed

text \<open>The century the two-digit year counter can hold.\<close>

definition rtc_range :: "tm \<Rightarrow> bool" where
  "rtc_range tm \<longleftrightarrow> valid_tm tm \<and> 100 \<le> tm_year tm \<and> tm_year tm < 200"

lemma valid_mday: "valid_tm tm \<Longrightarrow> tm_mday tm \<le> 31"
proof -
  assume v: "valid_tm tm"
  have "month_lengths Y ! nat m \<le> 31" if "0 \<le> m" "m < 12" for m Y
    using month_cases [OF that] by (elim insertE) (auto simp: month_lengths_def)
  from this [of "tm_mon tm" "1900 + tm_year tm"] v show ?thesis
    unfolding valid_tm_def by linarith
qed

lemma ucast_bcd: "(ucast (ucast (w :: u8) :: u16) :: u8) = w"
  by (simp add: unsigned_ucast_eq take_bit_word_eq_self)

lemma rtc_roundtrip_eq: "rtc_range tm \<Longrightarrow> rtc_get_time (rtc_set_time tm regs) tm0
    = tm0\<lparr>tm_year := tm_year tm, tm_mon := tm_mon tm, tm_mday := tm_mday tm,
          tm_hour := tm_hour tm, tm_min := tm_min tm, tm_sec := tm_sec tm\<rparr>"
  using valid_mday [of tm]
  by (simp add: rtc_get_time_def rtc_set_time_def ucast_bcd bcd_roundtrip bcd_hour rtc_range_def valid_tm_def
    del: of_int_add of_int_diff)

section \<open>MAC addresses\<close>

text \<open>
  \<open>strtoul(x, &y, 16)\<close> of the C library: white space, an optional sign, an optional \<open>0x\<close>
  before a hexadecimal digit, then the longest run of hexadecimal digits.  Without a digit
  the value is 0 and the end pointer is the start of the text.  \<open>unsigned long\<close> has 32 bits.
\<close>

definition xdigit_val :: "char \<Rightarrow> int" where
  "xdigit_val c =
    (if isdigit c then int (code c) - 48
     else if code c \<ge> 97 then int (code c) - 87 else int (code c) - 55)"

definition hex_value :: "string \<Rightarrow> int" where
  "hex_value ds = foldl (\<lambda>n d. 16 * n + xdigit_val d) 0 ds"

fun hex_prefix :: "string \<Rightarrow> string" where
  "hex_prefix (z # x # d # s) =
     (if z = CHR ''0'' \<and> (x = CHR ''x'' \<or> x = CHR ''X'') \<and> isxdigit d then d # s else z # x # d # s)"
| "hex_prefix s = s"

definition strtoul16 :: "string \<Rightarrow> int \<times> string" where
  "strtoul16 s =
    (let s1 = dropWhile isspace s;
         neg = (case s1 of c # _ \<Rightarrow> c = CHR ''-'' | [] \<Rightarrow> False);
         s2 = (case s1 of c # r \<Rightarrow> if c = CHR ''-'' \<or> c = CHR ''+'' then r else s1 | [] \<Rightarrow> []);
         s3 = hex_prefix s2;
         ds = takeWhile isxdigit s3;
         v = hex_value ds
     in if ds = [] then (0, s)
        else (if v > 2 ^ 32 - 1 then 2 ^ 32 - 1 else if neg then (- v) mod 2 ^ 32 else v,
              dropWhile isxdigit s3))"

text \<open>The loop of \<open>ether_aton_r\<close>: \<open>ii\<close> counts the octets read.\<close>

fun ether_aton_loop :: "nat \<Rightarrow> nat \<Rightarrow> string \<Rightarrow> int list \<Rightarrow> (int list \<times> string) option" where
  "ether_aton_loop ii 0 x a = Some (a, x)"
| "ether_aton_loop ii (Suc left) x a =
    (case (if ii \<noteq> 0 then (case x of c # r \<Rightarrow> if c = CHR '':'' then Some r else None | [] \<Rightarrow> None)
           else Some x) of
       None \<Rightarrow> None
     | Some x1 \<Rightarrow>
        (let (n, y) = strtoul16 x1
         in if n > 0xFF then None else ether_aton_loop (Suc ii) left y (a @ [n])))"

definition ether_aton_r :: "string \<Rightarrow> int list option" where
  "ether_aton_r x =
    (case ether_aton_loop 0 6 x [] of
       None \<Rightarrow> None
     | Some (a, rest) \<Rightarrow> (if rest = [] then Some a else None))"

subsection \<open>The addresses it reads back\<close>

definition hex_char :: "int \<Rightarrow> char" where
  "hex_char d = (if d < 10 then char_of (48 + nat d) else char_of (87 + nat d))"

definition octet_text :: "int \<Rightarrow> string" where
  "octet_text n = [hex_char (n div 16), hex_char (n mod 16)]"

definition ether_ntoa :: "int list \<Rightarrow> string" where
  "ether_ntoa a = concat (map2 (\<lambda>i n. (if i = 0 then [] else '':'') @ octet_text n) [0..<length a] a)"

lemma hex_char_code:
  assumes "0 \<le> d" "d < 16"
  shows "code (hex_char d) = (if d < 10 then 48 + nat d else 87 + nat d)"
  using assms by (simp add: hex_char_def code_def)

lemma hex_char_digit:
  assumes "0 \<le> d" "d < 16"
  shows "isxdigit (hex_char d)" "xdigit_val (hex_char d) = d"
  using assms by (auto simp: isxdigit_def isdigit_def xdigit_val_def hex_char_code)

lemma isxdigit_not_sign:
  "isxdigit c \<Longrightarrow> \<not> isspace c \<and> c \<noteq> CHR ''-'' \<and> c \<noteq> CHR ''+'' \<and> c \<noteq> CHR '':'' \<and> c \<noteq> CHR ''x'' \<and> c \<noteq> CHR ''X''"
  by (auto simp: c_char)

lemma strtoul16_octet:
  assumes "0 \<le> n" "n < 256" "rest = [] \<or> hd rest = CHR '':''"
  shows "strtoul16 (octet_text n @ rest) = (n, rest)"
proof -
  let ?a = "hex_char (n div 16)" and ?b = "hex_char (n mod 16)"
  have q: "0 \<le> n div 16" "n div 16 < 16" "0 \<le> n mod 16" "n mod 16 < 16" using assms by auto
  note d = hex_char_digit [OF q(1,2)] hex_char_digit [OF q(3,4)]
  have colon: "\<not> isxdigit (CHR '':'')" by (simp add: c_char)
  have ns: "\<not> isspace ?a" "?a \<noteq> CHR ''-''" "?a \<noteq> CHR ''+''" "?b \<noteq> CHR ''x''" "?b \<noteq> CHR ''X''"
    using isxdigit_not_sign [OF d(1)] isxdigit_not_sign [OF d(3)] by auto
  have pre: "hex_prefix (?a # ?b # rest) = ?a # ?b # rest"
    using ns by (cases rest) auto
  have tw: "takeWhile isxdigit (?a # ?b # rest) = [?a, ?b]" "dropWhile isxdigit (?a # ?b # rest) = rest"
    using d assms(3) colon by (cases rest; auto)+
  have "hex_value [?a, ?b] = n" using d by (simp add: hex_value_def)
  then show ?thesis
    unfolding strtoul16_def octet_text_def using ns pre tw assms(1,2)
    by (simp add: Let_def)
qed

lemma ether_aton_loop_ntoa:
  "\<forall>n\<in>set a. 0 \<le> n \<and> n < 256 \<Longrightarrow>
   ether_aton_loop ii (length a) (concat (map2 (\<lambda>i n. (if i = 0 then [] else '':'') @ octet_text n) [ii..<ii + length a] a)) acc
   = Some (acc @ a, [])"
proof (induction a arbitrary: ii acc)
  case Nil
  then show ?case by simp
next
  case (Cons n a)
  let ?f = "\<lambda>i n. (if i = 0 then [] else '':'') @ octet_text n"
  let ?rest = "concat (map2 ?f [Suc ii..<Suc ii + length a] a)"
  have up: "[ii..<ii + length (n # a)] = ii # [Suc ii..<Suc ii + length a]"
    by (simp add: upt_conv_Cons del: upt_Suc)
  have "?rest = [] \<or> hd ?rest = CHR '':''"
    by (cases a) (simp_all add: upt_conv_Cons del: upt_Suc)
  with Cons.prems have oct: "strtoul16 (octet_text n @ ?rest) = (n, ?rest)"
    by (intro strtoul16_octet) auto
  from Cons.IH [of "Suc ii" "acc @ [n]"] Cons.prems
  have "ether_aton_loop (Suc ii) (length a) ?rest (acc @ [n]) = Some (acc @ n # a, [])" by simp
  with oct Cons.prems show ?case
    unfolding up by (cases "ii = 0") simp_all
qed

lemma ether_roundtrip_eq:
  assumes "length a = 6" "\<forall>n\<in>set a. 0 \<le> n \<and> n < 256"
  shows "ether_aton_r (ether_ntoa a) = Some a"
  using ether_aton_loop_ntoa [OF assms(2), of 0 "[]"] assms(1)
  by (simp add: ether_aton_r_def ether_ntoa_def)

text \<open>Octets without a digit are read as zero.\<close>

lemma ether_aton_no_digits: "ether_aton_r '':::::'' = Some [0, 0, 0, 0, 0, 0]"
  by code_simp

section \<open>Properties\<close>

text \<open>
  Claim C40.  \<open>__tm_to_secs\<close> never indexes outside the month table and returns the seconds since
  1970-01-01 of the proleptic Gregorian calendar, for every year (the short computation for
  1902 to 2038 and the 400-year cycles agree) and for every month number, also outside 0 to 11.
\<close>

theorem tm_to_secs_calendar: "tm_to_secs tm = Inr (calendar_secs tm)"
  by (rule tm_to_secs_eq)

text \<open>
  Of two valid broken-down times, the one of the earlier date has strictly fewer
  seconds, so the comparisons the driver makes on seconds are comparisons of dates.
\<close>

theorem tm_to_secs_monotone:
  assumes "valid_tm a" "valid_tm b" "date_before a b"
  shows "\<exists>s t. tm_to_secs a = Inr s \<and> tm_to_secs b = Inr t \<and> s < t"
  using calendar_secs_before [OF assms] by (simp add: tm_to_secs_eq)

definition leap_day :: tm where
  "leap_day = \<lparr>tm_sec = 59, tm_min = 59, tm_hour = 23, tm_mday = 29, tm_mon = 1, tm_year = 120\<rparr>"

definition march_first :: tm where
  "march_first = \<lparr>tm_sec = 0, tm_min = 0, tm_hour = 0, tm_mday = 1, tm_mon = 2, tm_year = 120\<rparr>"

lemma leap_day_valid: "valid_tm leap_day" "valid_tm march_first" "date_before leap_day march_first"
  by (simp_all add: valid_tm_def date_before_def leap_day_def march_first_def month_lengths_def leap_year_def)

theorem tm_to_secs_monotone_witness:
  "\<exists>s t. tm_to_secs leap_day = Inr s \<and> tm_to_secs march_first = Inr t \<and> s < t"
  by (rule tm_to_secs_monotone [OF leap_day_valid])

text \<open>
  A time of the years 2000 to 2099 written to the clock counters reads back
  unchanged: year, month, day, hour, minute and second survive the BCD registers.
\<close>

theorem rtc_roundtrip:
  assumes "rtc_range tm"
  shows "rtc_get_time (rtc_set_time tm regs) tm0
    = tm0\<lparr>tm_year := tm_year tm, tm_mon := tm_mon tm, tm_mday := tm_mday tm,
          tm_hour := tm_hour tm, tm_min := tm_min tm, tm_sec := tm_sec tm\<rparr>"
  using assms by (rule rtc_roundtrip_eq)

definition clock_stopped :: rtc_regs where
  "clock_stopped = \<lparr>rcr2_start = False, ryrcnt = 0, rmoncnt = 0, rdaycnt = 0, rhrcnt = 0,
     rmincnt = 0, rseccnt = 0, r64cnt = 0\<rparr>"

lemma leap_day_range: "rtc_range leap_day"
  using leap_day_valid(1) by (simp add: rtc_range_def) (simp add: leap_day_def)

theorem rtc_roundtrip_witness:
  "tm_mday (rtc_get_time (rtc_set_time leap_day clock_stopped) march_first) = 29 \<and>
   tm_hour (rtc_get_time (rtc_set_time leap_day clock_stopped) march_first) = 23"
  using rtc_roundtrip [OF leap_day_range, of clock_stopped march_first] by (simp add: leap_day_def)

text \<open>
  A MAC address printed as six two-digit hexadecimal octets with colons is read
  back by \<open>ether_aton_r\<close> to the same octets.
\<close>

theorem ether_roundtrip:
  assumes "length a = 6" "\<forall>n\<in>set a. 0 \<le> n \<and> n < 256"
  shows "ether_aton_r (ether_ntoa a) = Some a"
  using assms by (rule ether_roundtrip_eq)

theorem ether_roundtrip_witness:
  "ether_aton_r (ether_ntoa [222, 173, 190, 239, 0, 1]) = Some [222, 173, 190, 239, 0, 1]"
  by (rule ether_roundtrip) simp_all

end
