(* ===== verification/Decimal_Text.thy ===== *)
theory Decimal_Text
  imports C_Prelude
begin

text \<open>
  Decimal numbers as the C library prints and the program's scanners read them:
  \<open>sprintf("%d")\<close> and the loop \<open>number = number * 10 + (c - '0')\<close> that undoes it.
\<close>

definition digit_char :: "nat \<Rightarrow> char" where
  "digit_char d = char_of (48 + d)"

fun dec_nat :: "nat \<Rightarrow> string" where
  "dec_nat n = (if n < 10 then [digit_char n] else dec_nat (n div 10) @ [digit_char (n mod 10)])"

declare dec_nat.simps [simp del]

definition dec_int :: "int \<Rightarrow> string" where
  "dec_int n = (if n < 0 then CHR ''-'' # dec_nat (nat (- n)) else dec_nat (nat n))"

definition scan_digits :: "int \<Rightarrow> string \<Rightarrow> int" where
  "scan_digits v ds = foldl (\<lambda>n c. n * 10 + digit_val c) v ds"

lemma scan_digits_simps [simp]:
  "scan_digits v [] = v"
  "scan_digits v (c # ds) = scan_digits (v * 10 + digit_val c) ds"
  "scan_digits v (ds @ ds') = scan_digits (scan_digits v ds) ds'"
  by (simp_all add: scan_digits_def)

lemma digit_char_facts [simp]:
  assumes "d < 10"
  shows "isdigit (digit_char d)" "digit_val (digit_char d) = int d" "code (digit_char d) = 48 + d"
  using assms by (simp_all add: digit_char_def isdigit_def digit_val_def code_def)

lemma dec_nat_digits: "\<forall>c\<in>set (dec_nat n). isdigit c"
proof (induction n rule: dec_nat.induct)
  case (1 n)
  then show ?case
    by (subst dec_nat.simps) auto
qed

lemma dec_nat_nonempty [simp]: "dec_nat n \<noteq> []"
  by (subst dec_nat.simps) simp

lemma scan_dec_nat: "scan_digits 0 (dec_nat n) = int n"
proof (induction n rule: dec_nat.induct)
  case (1 n)
  show ?case
  proof (cases "n < 10")
    case True
    then show ?thesis by (subst dec_nat.simps) simp
  next
    case False
    with 1 have ih: "scan_digits 0 (dec_nat (n div 10)) = int (n div 10)" by simp
    have "int n = int (n div 10) * 10 + int (n mod 10)"
      by (metis add.commute mult.commute mult_div_mod_eq of_nat_add of_nat_mult of_nat_numeral)
    with False ih show ?thesis by (subst dec_nat.simps) simp
  qed
qed

lemma dec_nat_length: "n < 10 ^ k \<Longrightarrow> 0 < k \<Longrightarrow> length (dec_nat n) \<le> k"
proof (induction k arbitrary: n)
  case 0
  then show ?case by simp
next
  case (Suc k)
  show ?case
  proof (cases "n < 10")
    case True
    then show ?thesis by (subst dec_nat.simps) simp
  next
    case False
    with Suc.prems have "0 < k" by (cases k) auto
    moreover have "n div 10 < 10 ^ k" using Suc.prems by (simp add: less_mult_imp_div_less mult.commute)
    ultimately show ?thesis using Suc.IH [of "n div 10"] False by (subst dec_nat.simps) simp
  qed
qed

text \<open>No leading zero except in \<open>0\<close> itself.\<close>

lemma dec_nat_hd: "0 < n \<Longrightarrow> hd (dec_nat n) \<noteq> CHR ''0''"
proof (induction n rule: dec_nat.induct)
  case (1 n)
  show ?case
  proof (cases "n < 10")
    case True
    have "code (CHR ''0'') = 48" by (simp add: code_def)
    moreover have "code (digit_char n) = 48 + n" using True by simp
    ultimately have "digit_char n \<noteq> CHR ''0''" using 1(2) by (metis add_cancel_right_right less_not_refl)
    then show ?thesis using True by (subst dec_nat.simps) simp
  next
    case False
    with 1 show ?thesis by (subst dec_nat.simps) simp
  qed
qed

lemma dec_nat_0: "dec_nat 0 = ''0''"
proof -
  have "digit_char 0 = CHR ''0''" unfolding digit_char_def by code_simp
  then show ?thesis by (subst dec_nat.simps) simp
qed

lemma scan_digits_mono: "\<forall>c\<in>set ds. isdigit c \<Longrightarrow> 0 \<le> v \<Longrightarrow> v \<le> scan_digits v ds"
proof (induction ds arbitrary: v)
  case (Cons c ds)
  from Cons.prems digit_val_bounds [of c] have d: "0 \<le> digit_val c" by simp
  with Cons.prems Cons.IH [of "v * 10 + digit_val c"] show ?case by simp
qed simp

lemma dec_int_number_length:
  assumes "0 \<le> n" "n < 2 ^ 31"
  shows "length (dec_int n) \<le> 10"
  using assms dec_nat_length [of "nat n" 10] by (simp add: dec_int_def)

end
