(* ===== verification/Ip4_Addr.thy ===== *)
theory Ip4_Addr
  imports Decimal_Text
begin

text \<open>
  The address parser \<open>ip4addr_aton\<close> of \<open>lwip-2.1.2/src/core/ipv4/ip4_addr.c\<close>, which the AT
  driver calls as \<open>inet_aton\<close>: the parts of the text, each hexadecimal, octal or decimal, and
  the address they form in network byte order.
\<close>

unbundle bit_operations_syntax

type_synonym u32 = "32 word"

definition peek :: "string \<Rightarrow> char" where
  "peek s = (case s of [] \<Rightarrow> NUL | c # _ \<Rightarrow> c)"

lemma peek_simps [simp]: "peek [] = NUL" "peek (c # s) = c"
  by (simp_all add: peek_def)

definition char_word :: "char \<Rightarrow> u32" where
  "char_word c = of_nat (code c)"

text \<open>The digits of one part; the value wraps round at 32 bits.\<close>

fun ip4_digits :: "u32 \<Rightarrow> u32 \<Rightarrow> string \<Rightarrow> u32 \<times> string" where
  "ip4_digits base val [] = (val, [])"
| "ip4_digits base val (c # cp) =
    (if isdigit c then ip4_digits base (val * base + (char_word c - 48)) cp
     else if base = 16 \<and> isxdigit c then
       ip4_digits base (push_bit 4 val OR (char_word c + 10 - (if islower c then 97 else 65))) cp
     else (val, c # cp))"

text \<open>The base of a part: \<open>0x\<close> for 16, a leading \<open>0\<close> for 8, otherwise 10.\<close>

definition ip4_base :: "string \<Rightarrow> u32 \<times> string" where
  "ip4_base cp =
    (if peek cp = CHR ''0'' then
       (if peek (tl cp) = CHR ''x'' \<or> peek (tl cp) = CHR ''X'' then (16, tl (tl cp)) else (8, tl cp))
     else (10, cp))"

lemma ip4_digits_length: "ip4_digits base val cp = (v, cp') \<Longrightarrow> length cp' \<le> length cp"
  by (induction base val cp rule: ip4_digits.induct) (fastforce split: if_splits)+

lemma ip4_base_length: "ip4_base cp = (b, cp') \<Longrightarrow> length cp' \<le> length cp"
  by (auto simp: ip4_base_def split: if_splits)

text \<open>The outer loop: the parts before the last, the last value and the rest of the text.\<close>

function ip4_parts :: "u32 list \<Rightarrow> string \<Rightarrow> (u32 list \<times> u32 \<times> string) option" where
  "ip4_parts parts cp =
    (if \<not> isdigit (peek cp) then None
     else (let (base, cp1) = ip4_base cp; (val, cp2) = ip4_digits base 0 cp1
           in if peek cp2 = CHR ''.'' then
                (if length parts \<ge> 3 then None else ip4_parts (parts @ [val]) (tl cp2))
              else Some (parts, val, cp2)))"
  by pat_completeness auto

termination
proof (relation "measure (\<lambda>(parts, cp). length cp)")
  show "wf (measure (\<lambda>(parts :: u32 list, cp :: string). length cp))" by simp
next
  fix parts :: "u32 list" and cp x base cp1 y val cp2
  assume "x = ip4_base cp" "(base, cp1) = x" "y = ip4_digits base 0 cp1" "(val, cp2) = y"
    and dot: "peek cp2 = CHR ''.''"
  then have "length cp2 \<le> length cp"
    using ip4_base_length [of cp base cp1] ip4_digits_length [of base 0 cp1 val cp2] by simp
  moreover from dot have "cp2 \<noteq> []" by auto
  ultimately show "((parts @ [val], tl cp2), (parts, cp)) \<in> measure (\<lambda>(parts, cp). length cp)"
    by (cases cp2) simp_all
qed

declare ip4_parts.simps [simp del]

definition lwip_htonl :: "u32 \<Rightarrow> u32" where
  "lwip_htonl x = push_bit 24 (x AND 0xFF) OR push_bit 8 (x AND 0xFF00)
     OR drop_bit 8 (x AND 0xFF0000) OR drop_bit 24 (x AND 0xFF000000)"

definition ip4_combine :: "u32 list \<Rightarrow> u32 \<Rightarrow> u32 option" where
  "ip4_combine parts val =
    (case parts of
       [] \<Rightarrow> Some val
     | [p0] \<Rightarrow> if val > 0xFFFFFF \<or> p0 > 0xFF then None else Some (val OR push_bit 24 p0)
     | [p0, p1] \<Rightarrow> if val > 0xFFFF \<or> p0 > 0xFF \<or> p1 > 0xFF then None
                   else Some (val OR (push_bit 24 p0 OR push_bit 16 p1))
     | [p0, p1, p2] \<Rightarrow> if val > 0xFF \<or> p0 > 0xFF \<or> p1 > 0xFF \<or> p2 > 0xFF then None
                       else Some (val OR (push_bit 24 p0 OR push_bit 16 p1 OR push_bit 8 p2))
     | _ \<Rightarrow> None)"

definition ip4addr_aton :: "string \<Rightarrow> u32 option" where
  "ip4addr_aton cp =
    (case ip4_parts [] cp of
       None \<Rightarrow> None
     | Some (parts, val, rest) \<Rightarrow>
         (if peek rest \<noteq> NUL \<and> \<not> isspace (peek rest) then None
          else map_option lwip_htonl (ip4_combine parts val)))"

section \<open>Dotted quads\<close>

definition dotted :: "8 word \<Rightarrow> 8 word \<Rightarrow> 8 word \<Rightarrow> 8 word \<Rightarrow> string" where
  "dotted a b c d = dec_nat (unat a) @ ''.'' @ dec_nat (unat b) @ ''.'' @ dec_nat (unat c) @ ''.'' @ dec_nat (unat d)"

text \<open>The address in memory order: the first octet is the lowest byte.\<close>

definition octets :: "8 word \<Rightarrow> 8 word \<Rightarrow> 8 word \<Rightarrow> 8 word \<Rightarrow> u32" where
  "octets a b c d = ucast a OR push_bit 8 (ucast b) OR push_bit 16 (ucast c) OR push_bit 24 (ucast d)"

lemma ip4_digits_decimal:
  "\<forall>c\<in>set ds. isdigit c \<Longrightarrow> \<not> isdigit (peek rest) \<Longrightarrow>
   ip4_digits 10 (of_int v) (ds @ rest) = (of_int (scan_digits v ds), rest)"
proof (induction ds arbitrary: v)
  case Nil
  then show ?case by (cases rest) simp_all
next
  case (Cons c ds)
  have "char_word c - 48 = of_int (digit_val c)"
    by (simp add: char_word_def digit_val_def)
  then have "of_int v * 10 + (char_word c - 48) = (of_int (v * 10 + digit_val c) :: u32)" by simp
  then show ?case using Cons.prems Cons.IH [of "v * 10 + digit_val c"] by (simp del: of_int_add of_int_mult)
qed

lemma peek_dec_nat: "isdigit (peek (dec_nat n @ rest))"
  using dec_nat_digits [of n] by (cases "dec_nat n") simp_all

lemma ip4_part_decimal:
  assumes "\<not> isdigit (peek rest)" "peek rest \<noteq> CHR ''x''" "peek rest \<noteq> CHR ''X''"
  shows "(let (base, cp1) = ip4_base (dec_nat n @ rest) in ip4_digits base 0 cp1) = (of_nat n, rest)"
proof (cases "n = 0")
  case True
  have "ip4_digits 8 0 rest = (0, rest)" using assms by (cases rest) simp_all
  with True assms show ?thesis by (simp add: dec_nat_0 ip4_base_def)
next
  case False
  with dec_nat_hd [of n] have "peek (dec_nat n @ rest) \<noteq> CHR ''0''" by (cases "dec_nat n") simp_all
  then show ?thesis
    using ip4_digits_decimal [OF dec_nat_digits assms(1), of 0 n]
    by (simp add: ip4_base_def scan_dec_nat)
qed

lemma ip4_parts_step:
  assumes "length parts < 3"
  shows "ip4_parts parts (dec_nat n @ CHR ''.'' # rest) = ip4_parts (parts @ [of_nat n]) rest"
proof -
  obtain b cp1 where b: "ip4_base (dec_nat n @ CHR ''.'' # rest) = (b, cp1)" by fastforce
  have "ip4_digits b 0 cp1 = (of_nat n, CHR ''.'' # rest)"
    using ip4_part_decimal [of "CHR ''.'' # rest" n] b by (simp add: c_char)
  with b assms show ?thesis
    by (subst ip4_parts.simps) (simp add: peek_dec_nat)
qed

lemma ip4_parts_last: "ip4_parts parts (dec_nat n) = Some (parts, of_nat n, [])"
proof -
  obtain b cp1 where b: "ip4_base (dec_nat n) = (b, cp1)" by fastforce
  have "ip4_digits b 0 cp1 = (of_nat n, [])"
    using ip4_part_decimal [of "[]" n] b by (simp add: c_char)
  with b show ?thesis
    using peek_dec_nat [of n "[]"] by (subst ip4_parts.simps) simp
qed

lemma octet_small: "\<not> ((ucast (a :: 8 word) :: u32) > 0xFF)"
proof -
  have \<open>unat a < 256\<close> using unsigned_less [of a, where ?'a = nat] by simp
  moreover have "unat (ucast a :: u32) = unat a" by (simp add: unsigned_ucast_eq take_bit_nat_eq_self order_less_le_trans [OF \<open>unat a < 256\<close>])
  ultimately have "unat (ucast a :: u32) \<le> unat (0xFF :: u32)" by simp
  then show ?thesis by (simp only: word_le_nat_alt [symmetric] not_less)
qed

lemma htonl_octets:
  fixes a b c d :: "8 word"
  shows "lwip_htonl (ucast d OR (push_bit 24 (ucast a) OR push_bit 16 (ucast b) OR push_bit 8 (ucast c)))
    = octets a b c d"
proof -
  have m: "(0xFF :: u32) = mask 8" "(0xFF00 :: u32) = push_bit 8 (mask 8)"
    "(0xFF0000 :: u32) = push_bit 16 (mask 8)" "(0xFF000000 :: u32) = push_bit 24 (mask 8)"
    by (simp_all add: mask_eq_exp_minus_1 push_bit_eq_mult)
  have z: "\<not> bit w n" if "8 \<le> n" for w :: "8 word" and n
    using that bit_imp_le_length [of w n] by auto
  show ?thesis
    unfolding lwip_htonl_def octets_def m
  proof (rule bit_word_eqI)
    fix n
    assume "n < LENGTH(32)"
    then consider "n < 8" | "8 \<le> n" "n < 16" | "16 \<le> n" "n < 24" | "24 \<le> n" "n < 32"
      by fastforce
    then show "bit (push_bit 24 ((ucast d OR (push_bit 24 (ucast a) OR push_bit 16 (ucast b) OR push_bit 8 (ucast c))) AND mask 8)
      OR push_bit 8 ((ucast d OR (push_bit 24 (ucast a) OR push_bit 16 (ucast b) OR push_bit 8 (ucast c))) AND push_bit 8 (mask 8))
      OR drop_bit 8 ((ucast d OR (push_bit 24 (ucast a) OR push_bit 16 (ucast b) OR push_bit 8 (ucast c))) AND push_bit 16 (mask 8))
      OR drop_bit 24 ((ucast d OR (push_bit 24 (ucast a) OR push_bit 16 (ucast b) OR push_bit 8 (ucast c))) AND push_bit 24 (mask 8)) :: u32) n
      = bit (ucast a OR push_bit 8 (ucast b) OR push_bit 16 (ucast c) OR push_bit 24 (ucast d) :: u32) n"
      by cases (auto simp: bit_simps z)
  qed
qed

lemma ip4_dotted: "ip4addr_aton (dotted a b c d) = Some (octets a b c d)"
  by (simp add: ip4addr_aton_def dotted_def ip4_parts_step ip4_parts_last ip4_combine_def octet_small
    htonl_octets [symmetric])

text \<open>
  The dotted-quad text of an address is parsed to that address in network order: the
  first octet is the first byte in memory, also when an octet is \<open>0\<close>, which the parser takes
  for the start of an octal number.
\<close>

theorem ip4addr_aton_dotted: "ip4addr_aton (dotted a b c d) = Some (octets a b c d)"
  by (rule ip4_dotted)

end
