(* ===== verification/Esp_Types.thy ===== *)
theory Esp_Types
  imports Rtc_Clock Ip4_Addr
begin

text \<open>
  The data of the AT driver \<open>app_iothub_client/src/esp_at_socket.c\<close>: its enumerations, the
  parameter block \<open>esp_socket_state_t\<close>, the parser state \<open>esp_serial_state_t\<close>, the
  connections, and the response table entries with the types of their two functions.
\<close>

section \<open>Enumerations\<close>

datatype at_param_type = at_param_number | at_param_string | at_param_symbol

datatype at_parse_state =
    at_none | at_informtion | at_response | at_link_id | at_parameter | at_number
  | at_string_str | at_string_esc | at_string_edq | at_symbol | at_ipaddr | at_line_text
  | at_cr | at_crlf | at_receive_data

datatype at_response_kind =
    kind_no_set | kind_ok | kind_send_ok | kind_busy | kind_ready | kind_progress
  | kind_connect | kind_closed | kind_error | kind_fail | kind_already_connect | kind_received

datatype at_connection_mode = at_single_connection_mode | at_multiple_connections_mode

datatype at_encryption_method =
    encryption_unknown | encryption_open | encryption_wep | encryption_wpa_psk
  | encryption_wpa2_psk | encryption_wpa_wpa2_psk | encryption_wpa2_enterprise

datatype at_wifi_mode = wifi_mode_unknown | wifi_mode_station | wifi_mode_soft_ap | wifi_mode_soft_ap_station

datatype at_wifi_state = wifi_disconnected | wifi_connected | wifi_got_ip | wifi_busy

datatype connection_state = conn_disconnected | conn_connecting | conn_connected | conn_disconnecting

datatype esp_state =
    esp_echo_off | esp_reset | esp_set_station_mode | esp_auto_connect_to_ap_off
  | esp_set_multiple_connections_mode | esp_show_remote_ip_and_port | esp_connect_ap
  | esp_update_time | esp_get_time | esp_done

text \<open>
  A symbol kind is stored by casting a parameter value to the enumeration, so it is kept as
  the number the field holds; these are its named values.
\<close>

definition symbol_kind_unknown :: int where "symbol_kind_unknown = 0"
definition symbol_kind_apip :: int where "symbol_kind_apip = 1"
definition symbol_kind_apmac :: int where "symbol_kind_apmac = 2"
definition symbol_kind_staip :: int where "symbol_kind_staip = 3"
definition symbol_kind_stamac :: int where "symbol_kind_stamac = 4"
definition symbol_kind_gateway :: int where "symbol_kind_gateway = 5"
definition symbol_kind_netmask :: int where "symbol_kind_netmask = 6"

lemmas symbol_kind_defs =
  symbol_kind_unknown_def symbol_kind_apip_def symbol_kind_apmac_def symbol_kind_staip_def
  symbol_kind_stamac_def symbol_kind_gateway_def symbol_kind_netmask_def

section \<open>The parameter block\<close>

type_synonym ether_addr = "int list"

text \<open>A text field of a structure is kept as the string it holds; \<open>ssid\<close> has 36 bytes, \<open>pwd\<close> 64.\<close>

record esp_ap_status =
  encryption_method :: at_encryption_method
  ap_ssid :: string
  ap_rssi :: int
  mac :: ether_addr
  ap_channel :: int
  freq_offset :: int
  freq_calibration :: int

record esp_ap_config =
  config_ssid :: string
  config_pwd :: string
  config_channel :: int
  config_encryption :: at_encryption_method
  max_connection :: int
  ssid_hidden :: int

record esp_socket_state =
  wifi_mode :: at_wifi_mode
  wifi_state :: at_wifi_state
  connection_mode :: at_connection_mode
  ap_mac :: ether_addr
  ap_ip :: u32
  ap_gateway :: u32
  ap_netmask :: u32
  sta_mac :: ether_addr
  sta_ip :: u32
  sta_gateway :: u32
  sta_netmask :: u32
  ssid :: string
  baseid :: ether_addr
  channel :: int
  rssi :: int
  symbol_kind :: int
  ap_status_count :: int
  ap_status :: "esp_ap_status list"
  config :: esp_ap_config
  link_id :: int
  data_length :: int
  remote_ip :: u32
  remote_port :: int
  received :: int
  lost :: int
  date_time :: int

definition zero_mac :: ether_addr where "zero_mac = [0, 0, 0, 0, 0, 0]"

definition zero_ap_status :: esp_ap_status where
  "zero_ap_status = \<lparr>encryption_method = encryption_unknown, ap_ssid = [], ap_rssi = 0,
     mac = zero_mac, ap_channel = 0, freq_offset = 0, freq_calibration = 0\<rparr>"

definition zero_ap_config :: esp_ap_config where
  "zero_ap_config = \<lparr>config_ssid = [], config_pwd = [], config_channel = 0,
     config_encryption = encryption_unknown, max_connection = 0, ssid_hidden = 0\<rparr>"

text \<open>What \<open>memset(&params, 0, sizeof params)\<close> leaves.\<close>

definition zero_params :: esp_socket_state where
  "zero_params = \<lparr>wifi_mode = wifi_mode_unknown, wifi_state = wifi_disconnected,
     connection_mode = at_single_connection_mode, ap_mac = zero_mac, ap_ip = 0, ap_gateway = 0,
     ap_netmask = 0, sta_mac = zero_mac, sta_ip = 0, sta_gateway = 0, sta_netmask = 0, ssid = [],
     baseid = zero_mac, channel = 0, rssi = 0, symbol_kind = symbol_kind_unknown,
     ap_status_count = 0, ap_status = replicate 10 zero_ap_status, config = zero_ap_config,
     link_id = 0, data_length = 0, remote_ip = 0, remote_port = 0, received = 0, lost = 0, date_time = 0\<rparr>"

section \<open>The driver's state\<close>

text \<open>
  \<open>response\<close> is the pointer into the response table, the index of the entry, or NULL.  The
  array \<open>string\<close> has 64 bytes.  The data queue id of the structure is fixed (\<open>DTQ_ESP_AT\<close>).
\<close>

record esp_serial_state =
  serial_state :: esp_state
  ap_name :: "string option"
  ap_pwd :: "string option"
  parse_state :: at_parse_state
  string_buf :: "char list"
  string_pos :: nat
  number :: int
  response :: "nat option"
  response_kind :: at_response_kind
  param_pos :: int
  params :: esp_socket_state
  current_state :: esp_socket_state

text \<open>
  The receive buffer of a connection: none yet, released with \<open>free\<close> (the pointer stays), or
  the array of 4096 bytes \<open>calloc\<close> returned.
\<close>

datatype rx_buffer = Rx_null | Rx_freed | Rx_alloc "char list"

record at_connection =
  conn_id :: int
  used :: bool
  conn_state :: connection_state
  ssl :: string
  blocking :: bool
  timeout :: int
  rx_buff :: rx_buffer
  rx_pos_w :: nat
  rx_pos_r :: nat

text \<open>
  Everything the driver changes: the parser, the connections, the clock registers, the data
  queue of response kinds, the commands written to the serial port (the last one first), and the
  flag \<open>use_wifi\<close> of the main program.
\<close>

record esp =
  serial :: esp_serial_state
  connections :: "at_connection list"
  rtc :: rtc_regs
  dtq :: "at_response_kind list"
  written :: "string list"
  use_wifi :: int

abbreviation string_size :: nat where "string_size \<equiv> 64"
abbreviation ssid_size :: nat where "ssid_size \<equiv> 36"
abbreviation pwd_size :: nat where "pwd_size \<equiv> 64"
abbreviation AT_CONNECTION_RX_BUFF_SIZE :: nat where "AT_CONNECTION_RX_BUFF_SIZE \<equiv> 4096"
abbreviation NUM_ESP_AT :: nat where "NUM_ESP_AT \<equiv> 4"

section \<open>The interface of the response table\<close>

text \<open>
  A parameter handed to \<open>next_parameter\<close> is an \<open>intptr_t\<close>: a number, or the address of the
  parser's string buffer.  Using a number as an address is a wild pointer.
\<close>

datatype at_value = VNum int | VStr

text \<open>
  What the driver takes from outside the repository: the address the linker gave the string
  buffer, and the C library's \<open>strptime\<close> for the format \<open>"%a %b %d %T %Y"\<close>
  (None when it returns NULL) and \<open>gmtime_r\<close>, whether its \<open>ctime\<close> survives the NULL the
  driver passes to it, and what the serial driver answers to a write (its result, from what was
  written before and the text).
\<close>

record esp_env =
  string_addr :: int
  strptime :: "string \<Rightarrow> tm option"
  gmtime :: "int \<Rightarrow> tm"
  ctime_null :: bool
  serial_wri :: "string list \<Rightarrow> string \<Rightarrow> int"

definition intptr :: "esp_env \<Rightarrow> at_value \<Rightarrow> int" where
  "intptr env v = (case v of VNum n \<Rightarrow> n | VStr \<Rightarrow> string_addr env)"

text \<open>\<open>(const char * )value\<close> read as a C string.\<close>

definition text_of :: "esp \<Rightarrow> at_value \<Rightarrow> string outcome" where
  "text_of w v = (case v of VNum n \<Rightarrow> Inl Wild_pointer | VStr \<Rightarrow> c_string (string_buf (serial w)))"

record at_response_entry =
  res_name :: string
  next_parameter :: "esp_env \<Rightarrow> esp \<Rightarrow> int \<Rightarrow> at_param_type \<Rightarrow> at_value \<Rightarrow> (bool \<times> esp) outcome"
  exec_response :: "esp_env \<Rightarrow> esp \<Rightarrow> int \<Rightarrow> (at_parse_state \<times> esp) outcome"

section \<open>Updating parts of the state\<close>

definition upd_serial :: "(esp_serial_state \<Rightarrow> esp_serial_state) \<Rightarrow> esp \<Rightarrow> esp" where
  "upd_serial f w = w\<lparr>serial := f (serial w)\<rparr>"

definition upd_params :: "(esp_socket_state \<Rightarrow> esp_socket_state) \<Rightarrow> esp \<Rightarrow> esp" where
  "upd_params f w = upd_serial (\<lambda>s. s\<lparr>params := f (params s)\<rparr>) w"

definition upd_current :: "(esp_socket_state \<Rightarrow> esp_socket_state) \<Rightarrow> esp \<Rightarrow> esp" where
  "upd_current f w = upd_serial (\<lambda>s. s\<lparr>current_state := f (current_state s)\<rparr>) w"

definition set_kind :: "at_response_kind \<Rightarrow> esp \<Rightarrow> esp" where
  "set_kind k w = upd_serial (\<lambda>s. s\<lparr>response_kind := k\<rparr>) w"

definition set_state :: "at_parse_state \<Rightarrow> esp \<Rightarrow> esp" where
  "set_state p w = upd_serial (\<lambda>s. s\<lparr>parse_state := p\<rparr>) w"

named_theorems esp_upd \<open>the field updates of the driver's state\<close>

lemmas esp_upd_defs [esp_upd] =
  upd_serial_def upd_params_def upd_current_def set_kind_def set_state_def

abbreviation cur :: "esp \<Rightarrow> esp_socket_state" where "cur w \<equiv> current_state (serial w)"
abbreviation par :: "esp \<Rightarrow> esp_socket_state" where "par w \<equiv> params (serial w)"

text \<open>An \<open>int\<close> addition.\<close>

definition int_add :: "int \<Rightarrow> int \<Rightarrow> int outcome" where
  "int_add a b = (if int_ok (a + b) then Inr (a + b) else Inl Signed_overflow)"

end
