(* ===== verification/Fifo_Interface.thy ===== *)
theory Fifo_Interface
  imports C_Prelude
begin

text \<open>
  The interface of a bounded first-in-first-out store: what a producer and a consumer that
  share a buffer rely on.  The program has several such buffers (the receive ring of an
  AT connection, the data area of a kernel data queue); each is an interpretation of the
  locale in the theory of the component that owns it, and the facts about runs of writes
  and reads are proved here once.
\<close>

section \<open>Runs of writes and reads\<close>

text \<open>Writing a list element by element; an element refused by a full store is lost.\<close>

fun push_all :: "('s \<Rightarrow> 'a \<Rightarrow> 's option) \<Rightarrow> 's \<Rightarrow> 'a list \<Rightarrow> 's" where
  "push_all push s [] = s"
| "push_all push s (x # xs) =
     (case push s x of None \<Rightarrow> push_all push s xs | Some s' \<Rightarrow> push_all push s' xs)"

text \<open>Reading up to \<open>n\<close> elements, stopping at the first failure.\<close>

fun pop_upto :: "('s \<Rightarrow> ('a \<times> 's) option) \<Rightarrow> nat \<Rightarrow> 's \<Rightarrow> 'a list \<times> 's" where
  "pop_upto pop 0 s = ([], s)"
| "pop_upto pop (Suc n) s =
     (case pop s of None \<Rightarrow> ([], s)
      | Some (x, s') \<Rightarrow> (let (xs, s'') = pop_upto pop n s' in (x # xs, s'')))"

section \<open>The interface\<close>

locale bounded_fifo =
  fixes invar :: "'s \<Rightarrow> bool"
    and contents :: "'s \<Rightarrow> 'a list"
    and capacity :: "'s \<Rightarrow> nat"
    and push :: "'s \<Rightarrow> 'a \<Rightarrow> 's option"
    and pop :: "'s \<Rightarrow> ('a \<times> 's) option"
  assumes bounded: "invar s \<Longrightarrow> length (contents s) \<le> capacity s"
    and push_full: "invar s \<Longrightarrow> length (contents s) = capacity s \<Longrightarrow> push s x = None"
    and push_room: "invar s \<Longrightarrow> length (contents s) < capacity s \<Longrightarrow>
      \<exists>s'. push s x = Some s' \<and> invar s' \<and> contents s' = contents s @ [x] \<and> capacity s' = capacity s"
    and pop_empty: "invar s \<Longrightarrow> contents s = [] \<Longrightarrow> pop s = None"
    and pop_first: "invar s \<Longrightarrow> contents s = x # xs \<Longrightarrow>
      \<exists>s'. pop s = Some (x, s') \<and> invar s' \<and> contents s' = xs \<and> capacity s' = capacity s"
begin

lemma push_all_full:
  "invar s \<Longrightarrow> length (contents s) = capacity s \<Longrightarrow> push_all push s xs = s"
  by (induction xs) (simp_all add: push_full)

lemma push_all_spec:
  "invar s \<Longrightarrow>
   invar (push_all push s xs) \<and> capacity (push_all push s xs) = capacity s \<and>
   contents (push_all push s xs) = contents s @ take (capacity s - length (contents s)) xs"
proof (induction xs arbitrary: s)
  case Nil
  then show ?case by simp
next
  case (Cons x xs)
  show ?case
  proof (cases "length (contents s) = capacity s")
    case True
    with Cons.prems show ?thesis by (simp add: push_all_full push_full)
  next
    case False
    with bounded [OF Cons.prems] have room: "length (contents s) < capacity s" by simp
    from push_room [OF Cons.prems this] obtain s' where s': "push s x = Some s'" "invar s'"
      "contents s' = contents s @ [x]" "capacity s' = capacity s" by blast
    from room have "take (capacity s - length (contents s)) (x # xs)
        = x # take (capacity s' - length (contents s')) xs"
      using s' by (simp add: take_Cons' Suc_diff_Suc)
    with Cons.IH [OF s'(2)] s' show ?thesis by simp
  qed
qed

lemma pop_upto_spec:
  "invar s \<Longrightarrow> pop_upto pop n s = (ys, s') \<Longrightarrow>
   ys = take n (contents s) \<and> invar s' \<and> contents s' = drop n (contents s) \<and> capacity s' = capacity s"
proof (induction n arbitrary: s ys s')
  case 0
  then show ?case by simp
next
  case (Suc n)
  show ?case
  proof (cases "contents s")
    case Nil
    with Suc.prems pop_empty show ?thesis by simp
  next
    case (Cons x xs)
    from pop_first [OF Suc.prems(1) Cons] obtain s1 where s1: "pop s = Some (x, s1)" "invar s1"
      "contents s1 = xs" "capacity s1 = capacity s" by blast
    obtain zs s2 where rest: "pop_upto pop n s1 = (zs, s2)" by fastforce
    from Suc.IH [OF s1(2) rest] Suc.prems(2) rest s1 Cons show ?thesis by auto
  qed
qed

text \<open>What was written comes out first, in the order it was written.\<close>

lemma push_then_pop:
  assumes "invar s" "contents s = []" "length xs \<le> capacity s"
    and "pop_upto pop (length xs) (push_all push s xs) = (ys, s')"
  shows "ys = xs \<and> contents s' = []"
  using push_all_spec [OF assms(1), of xs] pop_upto_spec [OF _ assms(4)] assms(2,3)
  by auto

end

end
