(* ===== verification/Esp_Connection.thy ===== *)
theory Esp_Connection
  imports Esp_Types Fifo_Interface
begin

text \<open>
  The connection table of the AT driver and the receive ring of a connection:
  \<open>new_connection\<close>, \<open>delete_connection\<close>, \<open>get_connection\<close>, the store of a payload byte
  (the state \<open>at_receive_data\<close> of \<open>proc_atc_res\<close>) and \<open>connection_read_data\<close>.  The ring is
  an interpretation of the bounded queue.
\<close>

section \<open>The table\<close>

definition initial_connection :: "int \<Rightarrow> at_connection" where
  "initial_connection i = \<lparr>conn_id = i, used = False, conn_state = conn_disconnected, ssl = [],
     blocking = False, timeout = 0, rx_buff = Rx_null, rx_pos_w = 0, rx_pos_r = 0\<rparr>"

definition initial_connections :: "at_connection list" where
  "initial_connections = map initial_connection [0, 1, 2, 3, 4]"

text \<open>\<open>calloc_ok\<close> tells whether \<open>calloc\<close> returns storage; the result is the index of the connection.\<close>

fun new_connection_from :: "bool \<Rightarrow> at_connection list \<Rightarrow> nat \<Rightarrow> nat option \<times> at_connection list" where
  "new_connection_from calloc_ok [] i = (None, [])"
| "new_connection_from calloc_ok (k # ks) i =
    (if used k then (let (r, ks') = new_connection_from calloc_ok ks (Suc i) in (r, k # ks'))
     else if calloc_ok then
       (Some i, (initial_connection (conn_id k))
          \<lparr>rx_buff := Rx_alloc (replicate AT_CONNECTION_RX_BUFF_SIZE NUL), used := True\<rparr> # ks)
     else (None, initial_connection (conn_id k) # ks))"

definition new_connection :: "bool \<Rightarrow> at_connection list \<Rightarrow> nat option \<times> at_connection list" where
  "new_connection calloc_ok ks = new_connection_from calloc_ok ks 0"

definition delete_connection :: "at_connection \<Rightarrow> at_connection outcome" where
  "delete_connection k =
    (case rx_buff k of
       Rx_null \<Rightarrow> Inr (k\<lparr>used := False\<rparr>)
     | Rx_freed \<Rightarrow> Inl Freed_pointer
     | Rx_alloc xs \<Rightarrow> Inr (k\<lparr>rx_buff := Rx_freed, used := False\<rparr>))"

fun find_connection :: "at_connection list \<Rightarrow> int \<Rightarrow> nat \<Rightarrow> nat option" where
  "find_connection [] lid i = None"
| "find_connection (k # ks) lid i = (if conn_id k = lid then Some i else find_connection ks lid (Suc i))"

definition get_connection :: "at_connection list \<Rightarrow> int \<Rightarrow> nat option" where
  "get_connection ks lid = find_connection ks lid 0"

section \<open>The ring\<close>

definition ring_put :: "at_connection \<Rightarrow> char \<Rightarrow> at_connection option outcome" where
  "ring_put k c =
    (let pos = (if Suc (rx_pos_w k) \<ge> AT_CONNECTION_RX_BUFF_SIZE then 0 else Suc (rx_pos_w k))
     in if pos \<noteq> rx_pos_r k then
          (case rx_buff k of
             Rx_null \<Rightarrow> Inl Null_pointer
           | Rx_freed \<Rightarrow> Inl Freed_pointer
           | Rx_alloc xs \<Rightarrow>
               if rx_pos_w k < length xs
               then Inr (Some (k\<lparr>rx_buff := Rx_alloc (xs[rx_pos_w k := c]), rx_pos_w := pos\<rparr>))
               else Inl Buffer_overflow)
        else Inr None)"

text \<open>One round of the read loop: the byte and the advanced position, None at the end of the data.\<close>

definition ring_get :: "at_connection \<Rightarrow> (char \<times> at_connection) option outcome" where
  "ring_get k =
    (if rx_pos_w k = rx_pos_r k then Inr None
     else case rx_buff k of
            Rx_null \<Rightarrow> Inl Null_pointer
          | Rx_freed \<Rightarrow> Inl Freed_pointer
          | Rx_alloc xs \<Rightarrow>
              if rx_pos_r k < length xs
              then Inr (Some (xs ! rx_pos_r k,
                 k\<lparr>rx_pos_r := (if Suc (rx_pos_r k) \<ge> AT_CONNECTION_RX_BUFF_SIZE then 0
                                else Suc (rx_pos_r k))\<rparr>))
              else Inl Buffer_overflow)"

fun read_loop :: "at_connection \<Rightarrow> nat \<Rightarrow> (char list \<times> at_connection) outcome" where
  "read_loop k 0 = Inr ([], k)"
| "read_loop k (Suc n) =
    cbind (ring_get k) (\<lambda>r. case r of
       None \<Rightarrow> Inr ([], k)
     | Some (c, k1) \<Rightarrow> cbind (read_loop k1 n) (\<lambda>(cs, k2). Inr (c # cs, k2)))"

definition connection_read_data :: "at_connection \<Rightarrow> int \<Rightarrow> (char list \<times> at_connection) outcome" where
  "connection_read_data k len = read_loop k (nat len)"

section \<open>Well-formed connections\<close>

definition ring_ok :: "at_connection \<Rightarrow> bool" where
  "ring_ok k \<longleftrightarrow> rx_pos_w k < AT_CONNECTION_RX_BUFF_SIZE \<and> rx_pos_r k < AT_CONNECTION_RX_BUFF_SIZE \<and>
     (case rx_buff k of Rx_alloc xs \<Rightarrow> length xs = AT_CONNECTION_RX_BUFF_SIZE | _ \<Rightarrow> True)"

definition live :: "at_connection \<Rightarrow> bool" where
  "live k \<longleftrightarrow> ring_ok k \<and> (\<exists>xs. rx_buff k = Rx_alloc xs)"

definition conns_ok :: "at_connection list \<Rightarrow> bool" where
  "conns_ok ks \<longleftrightarrow> map conn_id ks = [0, 1, 2, 3, 4] \<and> (\<forall>k\<in>set ks. ring_ok k \<and> (used k \<longrightarrow> live k))"

definition fill :: "at_connection \<Rightarrow> nat" where
  "fill k = (rx_pos_w k + AT_CONNECTION_RX_BUFF_SIZE - rx_pos_r k) mod AT_CONNECTION_RX_BUFF_SIZE"

definition rx_contents :: "at_connection \<Rightarrow> char list" where
  "rx_contents k = (case rx_buff k of
     Rx_alloc xs \<Rightarrow> ring_slice AT_CONNECTION_RX_BUFF_SIZE xs (rx_pos_r k) (fill k) | _ \<Rightarrow> [])"

abbreviation rx_capacity :: nat where "rx_capacity \<equiv> 4095"

subsection \<open>Arithmetic of the two positions\<close>

lemma fill_less: "fill k < AT_CONNECTION_RX_BUFF_SIZE"
  by (simp add: fill_def)

lemma fill_cases:
  assumes "ring_ok k"
  shows "fill k = (if rx_pos_r k \<le> rx_pos_w k then rx_pos_w k - rx_pos_r k
    else rx_pos_w k + AT_CONNECTION_RX_BUFF_SIZE - rx_pos_r k)"
proof (cases "rx_pos_r k \<le> rx_pos_w k")
  case True
  then have "rx_pos_w k + AT_CONNECTION_RX_BUFF_SIZE - rx_pos_r k
    = (rx_pos_w k - rx_pos_r k) + AT_CONNECTION_RX_BUFF_SIZE" by simp
  moreover have "rx_pos_w k - rx_pos_r k < AT_CONNECTION_RX_BUFF_SIZE"
    using assms by (simp add: ring_ok_def less_imp_diff_less)
  ultimately show ?thesis using True by (simp only: fill_def mod_add_self2 mod_less if_True)
next
  case False
  then show ?thesis using assms by (simp add: fill_def ring_ok_def)
qed

lemma fill_zero: "ring_ok k \<Longrightarrow> fill k = 0 \<longleftrightarrow> rx_pos_w k = rx_pos_r k"
  by (auto simp: fill_cases ring_ok_def)

lemma write_pos:
  assumes "ring_ok k"
  shows "rx_pos_w k = (rx_pos_r k + fill k) mod AT_CONNECTION_RX_BUFF_SIZE"
proof (cases "rx_pos_r k \<le> rx_pos_w k")
  case True
  then show ?thesis using assms by (simp add: fill_cases ring_ok_def)
next
  case False
  then have "rx_pos_r k + fill k = rx_pos_w k + AT_CONNECTION_RX_BUFF_SIZE"
    using assms by (simp add: fill_cases ring_ok_def)
  then show ?thesis using assms by (simp add: ring_ok_def)
qed

lemma full_iff:
  assumes "ring_ok k"
  shows "Suc (rx_pos_w k) mod AT_CONNECTION_RX_BUFF_SIZE = rx_pos_r k \<longleftrightarrow> fill k = rx_capacity"
proof (cases "Suc (rx_pos_w k) = AT_CONNECTION_RX_BUFF_SIZE")
  case True
  then show ?thesis using assms by (auto simp: fill_cases ring_ok_def)
next
  case False
  then show ?thesis using assms by (auto simp: fill_cases ring_ok_def)
qed

lemma next_pos:
  "ring_ok k \<Longrightarrow> (if Suc (rx_pos_w k) \<ge> AT_CONNECTION_RX_BUFF_SIZE then 0 else Suc (rx_pos_w k))
     = Suc (rx_pos_w k) mod AT_CONNECTION_RX_BUFF_SIZE"
  "ring_ok k \<Longrightarrow> (if Suc (rx_pos_r k) \<ge> AT_CONNECTION_RX_BUFF_SIZE then 0 else Suc (rx_pos_r k))
     = Suc (rx_pos_r k) mod AT_CONNECTION_RX_BUFF_SIZE"
  by (rule wrap_eq_mod, simp add: ring_ok_def)+

subsection \<open>Storing and reading one byte\<close>

lemma ring_put_room:
  assumes "live k" "fill k < rx_capacity"
  shows "\<exists>xs k'. rx_buff k = Rx_alloc xs \<and> ring_put k c = Inr (Some k') \<and>
    k' = k\<lparr>rx_buff := Rx_alloc (xs[rx_pos_w k := c]),
           rx_pos_w := Suc (rx_pos_w k) mod AT_CONNECTION_RX_BUFF_SIZE\<rparr> \<and>
    live k' \<and> rx_contents k' = rx_contents k @ [c]"
proof -
  from assms obtain xs where xs: "ring_ok k" "rx_buff k = Rx_alloc xs" "length xs = AT_CONNECTION_RX_BUFF_SIZE"
    by (auto simp: live_def ring_ok_def)
  let ?k = "k\<lparr>rx_buff := Rx_alloc (xs[rx_pos_w k := c]),
           rx_pos_w := Suc (rx_pos_w k) mod AT_CONNECTION_RX_BUFF_SIZE\<rparr>"
  from assms(2) have "Suc (rx_pos_w k) mod AT_CONNECTION_RX_BUFF_SIZE \<noteq> rx_pos_r k"
    using full_iff [OF xs(1)] by simp
  then have put: "ring_put k c = Inr (Some ?k)"
    using xs by (simp only: ring_put_def Let_def next_pos) (simp add: ring_ok_def)
  have live: "live ?k" using xs by (simp add: live_def ring_ok_def)
  have "fill ?k = Suc (fill k)"
  proof (cases "Suc (rx_pos_w k) = AT_CONNECTION_RX_BUFF_SIZE")
    case True
    then show ?thesis using xs assms(2) live by (auto simp: fill_cases ring_ok_def live_def split: if_splits)
  next
    case False
    then show ?thesis using xs assms(2) live by (auto simp: fill_cases ring_ok_def live_def split: if_splits)
  qed
  then have "rx_contents ?k = rx_contents k @ [c]"
    using xs assms(2) ring_slice_push [of "fill k" AT_CONNECTION_RX_BUFF_SIZE xs "rx_pos_r k" "rx_pos_w k" c]
      write_pos [OF xs(1)]
    by (simp add: rx_contents_def ring_ok_def)
  with put live xs show ?thesis by blast
qed

lemma ring_put_full:
  assumes "ring_ok k" "fill k = rx_capacity"
  shows "ring_put k c = Inr None"
  using full_iff [OF assms(1)] assms by (simp only: ring_put_def Let_def next_pos) simp

lemma ring_get_empty: "ring_ok k \<Longrightarrow> fill k = 0 \<Longrightarrow> ring_get k = Inr None"
  by (simp add: ring_get_def fill_zero)

lemma ring_get_first:
  assumes "live k" "rx_contents k = c # cs"
  shows "ring_get k = Inr (Some (c, k\<lparr>rx_pos_r := Suc (rx_pos_r k) mod AT_CONNECTION_RX_BUFF_SIZE\<rparr>)) \<and>
    live (k\<lparr>rx_pos_r := Suc (rx_pos_r k) mod AT_CONNECTION_RX_BUFF_SIZE\<rparr>) \<and>
    rx_contents (k\<lparr>rx_pos_r := Suc (rx_pos_r k) mod AT_CONNECTION_RX_BUFF_SIZE\<rparr>) = cs"
proof -
  from assms obtain xs where xs: "ring_ok k" "rx_buff k = Rx_alloc xs" "length xs = AT_CONNECTION_RX_BUFF_SIZE"
    by (auto simp: live_def ring_ok_def)
  let ?k = "k\<lparr>rx_pos_r := Suc (rx_pos_r k) mod AT_CONNECTION_RX_BUFF_SIZE\<rparr>"
  have pos: "0 < fill k" using assms xs by (cases "fill k") (simp_all add: rx_contents_def)
  have slice: "c # cs = xs ! rx_pos_r k
      # ring_slice AT_CONNECTION_RX_BUFF_SIZE xs (Suc (rx_pos_r k) mod AT_CONNECTION_RX_BUFF_SIZE) (fill k - 1)"
    using assms xs ring_slice_pop [OF pos, of "rx_pos_r k" AT_CONNECTION_RX_BUFF_SIZE xs]
    by (simp add: rx_contents_def ring_ok_def)
  have live: "live ?k" using xs by (simp add: live_def ring_ok_def)
  have "fill ?k = fill k - 1"
  proof (cases "Suc (rx_pos_r k) = AT_CONNECTION_RX_BUFF_SIZE")
    case True
    then show ?thesis using xs pos live by (auto simp: fill_cases ring_ok_def live_def split: if_splits)
  next
    case False
    then show ?thesis using xs pos live by (auto simp: fill_cases ring_ok_def live_def split: if_splits)
  qed
  with slice xs have "rx_contents ?k = cs" by (simp add: rx_contents_def)
  moreover have "ring_get k = Inr (Some (c, ?k))"
    using pos slice xs fill_zero [OF xs(1)]
    by (simp only: ring_get_def next_pos) (simp add: ring_ok_def)
  ultimately show ?thesis using live by blast
qed

lemma rx_contents_length: "live k \<Longrightarrow> length (rx_contents k) = fill k"
  by (auto simp: live_def rx_contents_def)

section \<open>The ring is a bounded queue\<close>

definition ring_push :: "at_connection \<Rightarrow> char \<Rightarrow> at_connection option" where
  "ring_push k c = (case ring_put k c of Inl u \<Rightarrow> None | Inr r \<Rightarrow> r)"

definition ring_pop :: "at_connection \<Rightarrow> (char \<times> at_connection) option" where
  "ring_pop k = (case ring_get k of Inl u \<Rightarrow> None | Inr r \<Rightarrow> r)"

interpretation rx: bounded_fifo live rx_contents "\<lambda>_. rx_capacity" ring_push ring_pop
proof unfold_locales
  show "live k \<Longrightarrow> length (rx_contents k) \<le> rx_capacity" for k
    using fill_less [of k] by (simp add: rx_contents_length)
  show "live k \<Longrightarrow> length (rx_contents k) = rx_capacity \<Longrightarrow> ring_push k c = None" for k c
    using ring_put_full [of k c] by (simp add: rx_contents_length ring_push_def live_def)
  show "live k \<Longrightarrow> length (rx_contents k) < rx_capacity \<Longrightarrow>
      \<exists>k'. ring_push k c = Some k' \<and> live k' \<and> rx_contents k' = rx_contents k @ [c] \<and> rx_capacity = rx_capacity" for k c
    using ring_put_room [of k c] by (auto simp: rx_contents_length ring_push_def)
  show "live k \<Longrightarrow> rx_contents k = [] \<Longrightarrow> ring_pop k = None" for k
    using ring_get_empty [of k] rx_contents_length [of k] by (simp add: ring_pop_def live_def)
  show "live k \<Longrightarrow> rx_contents k = c # cs \<Longrightarrow>
      \<exists>k'. ring_pop k = Some (c, k') \<and> live k' \<and> rx_contents k' = cs \<and> rx_capacity = rx_capacity" for k c cs
    using ring_get_first [of k c cs] by (simp add: ring_pop_def)
qed

text \<open>The read loop of the code is the run of reads of the interface.\<close>

lemma read_loop_pop: "live k \<Longrightarrow> read_loop k n = Inr (pop_upto ring_pop n k)"
proof (induction n arbitrary: k)
  case 0
  then show ?case by simp
next
  case (Suc n)
  show ?case
  proof (cases "rx_contents k")
    case Nil
    with Suc.prems have "ring_get k = Inr None"
      using ring_get_empty [of k] rx_contents_length [of k] by (simp add: live_def)
    then show ?thesis by (simp add: ring_pop_def)
  next
    case (Cons c cs)
    from ring_get_first [OF Suc.prems Cons] obtain k1 where
      "ring_get k = Inr (Some (c, k1))" "live k1" by blast
    with Suc.IH [of k1] show ?thesis
      by (simp add: ring_pop_def split: prod.splits)
  qed
qed

lemma read_data_contents:
  assumes "live k"
  obtains k' where "connection_read_data k len = Inr (take (nat len) (rx_contents k), k')"
    "live k'" "rx_contents k' = drop (nat len) (rx_contents k)"
proof -
  obtain ys k' where p: "pop_upto ring_pop (nat len) k = (ys, k')" by fastforce
  from rx.pop_upto_spec [OF assms p] p assms that [of k'] show thesis
    by (simp add: connection_read_data_def read_loop_pop)
qed

section \<open>Allocation\<close>

definition fresh_connection :: "int \<Rightarrow> at_connection" where
  "fresh_connection lid = (initial_connection lid)
     \<lparr>rx_buff := Rx_alloc (replicate AT_CONNECTION_RX_BUFF_SIZE NUL), used := True\<rparr>"

lemma fresh_connection_facts:
  "conn_id (fresh_connection lid) = lid" "used (fresh_connection lid)" "live (fresh_connection lid)"
  "rx_contents (fresh_connection lid) = []" "conn_state (fresh_connection lid) = conn_disconnected"
  by (simp_all add: fresh_connection_def initial_connection_def live_def ring_ok_def rx_contents_def fill_def)

lemma initial_connection_facts:
  "conn_id (initial_connection lid) = lid" "\<not> used (initial_connection lid)" "ring_ok (initial_connection lid)"
  by (simp_all add: initial_connection_def ring_ok_def)

lemma live_ring_ok: "live k \<Longrightarrow> ring_ok k"
  by (simp add: live_def)

lemma new_connection_from_Some:
  "new_connection_from ok ks j = (Some i, ks') \<Longrightarrow>
   ok \<and> j \<le> i \<and> i < j + length ks \<and> \<not> used (ks ! (i - j)) \<and> (\<forall>m<i - j. used (ks ! m)) \<and>
   ks' = ks[i - j := fresh_connection (conn_id (ks ! (i - j)))]"
proof (induction ok ks j arbitrary: i ks' rule: new_connection_from.induct)
  case (1 ok j)
  then show ?case by simp
next
  case (2 ok k ks j)
  show ?case
  proof (cases "used k")
    case True
    with "2.prems" obtain ks1 where r: "new_connection_from ok ks (Suc j) = (Some i, ks1)" "ks' = k # ks1"
      by (auto split: prod.splits)
    from "2.IH" [OF True r(1)] obtain d where "i - j = Suc d" "i - Suc j = d"
      by (metis Suc_diff_le diff_Suc_Suc)
    with "2.IH" [OF True r(1)] r True show ?thesis
      by (auto simp: less_Suc_eq_0_disj)
  next
    case False
    with "2.prems" show ?thesis by (auto simp: fresh_connection_def split: if_splits)
  qed
qed

lemma new_connection_from_None:
  "new_connection_from ok ks j = (None, ks') \<Longrightarrow>
   ((\<forall>k\<in>set ks. used k) \<and> ks' = ks) \<or>
   (\<not> ok \<and> (\<exists>i<length ks. \<not> used (ks ! i) \<and> ks' = ks[i := initial_connection (conn_id (ks ! i))]))"
proof (induction ok ks j arbitrary: ks' rule: new_connection_from.induct)
  case (1 ok j)
  then show ?case by simp
next
  case (2 ok k ks j)
  show ?case
  proof (cases "used k")
    case True
    with "2.prems" obtain ks1 where r: "new_connection_from ok ks (Suc j) = (None, ks1)" "ks' = k # ks1"
      by (auto split: prod.splits)
    from "2.IH" [OF True r(1)] r True show ?thesis by (auto intro: exI [of _ "Suc i" for i])
  next
    case False
    with "2.prems" show ?thesis by (auto split: if_splits)
  qed
qed

lemma map_conn_id_update: "i < length ks \<Longrightarrow> conn_id k = conn_id (ks ! i) \<Longrightarrow> map conn_id (ks[i := k]) = map conn_id ks"
  by (simp add: map_update) (metis list_update_id nth_map)

lemma conns_ok_update:
  assumes "conns_ok ks" "i < length ks" "conn_id k = conn_id (ks ! i)" "ring_ok k" "used k \<Longrightarrow> live k"
  shows "conns_ok (ks[i := k])"
proof -
  have "map conn_id (ks[i := k]) = [0, 1, 2, 3, 4]"
    using map_conn_id_update [OF assms(2,3)] assms(1) by (simp add: conns_ok_def)
  moreover have "ring_ok x \<and> (used x \<longrightarrow> live x)" if "x \<in> set (ks[i := k])" for x
    using that set_update_subset_insert [of ks i k] assms(1,4,5) unfolding conns_ok_def by blast
  ultimately show ?thesis by (simp add: conns_ok_def)
qed

lemma conns_ok_length: "conns_ok ks \<Longrightarrow> length ks = 5"
  by (auto simp: conns_ok_def dest: map_eq_imp_length_eq [of conn_id ks id "[0, 1, 2, 3, 4]", simplified])

lemma conns_ok_id: "conns_ok ks \<Longrightarrow> i < 5 \<Longrightarrow> conn_id (ks ! i) = int i"
proof -
  assume c: "conns_ok ks" and i: "i < 5"
  from c have "map conn_id ks ! i = [0, 1, 2, 3, 4] ! i" by (simp add: conns_ok_def)
  moreover from i have "i \<in> {0, 1, 2, 3, 4}" by auto
  ultimately show ?thesis using conns_ok_length [OF c] i by (auto simp: nth_Cons')
qed

lemma get_connection_ok:
  assumes "conns_ok ks"
  shows "get_connection ks lid = (if 0 \<le> lid \<and> lid \<le> 4 then Some (nat lid) else None)"
proof -
  obtain a b c d e where ks: "ks = [a, b, c, d, e]"
    using conns_ok_length [OF assms] by (auto simp: numeral_eq_Suc length_Suc_conv)
  with assms have "conn_id a = 0" "conn_id b = 1" "conn_id c = 2" "conn_id d = 3" "conn_id e = 4"
    by (auto simp: conns_ok_def)
  moreover have "lid \<in> {0, 1, 2, 3, 4} \<longleftrightarrow> 0 \<le> lid \<and> lid \<le> 4" by auto
  ultimately show ?thesis by (auto simp: get_connection_def ks numeral_eq_Suc)
qed

lemma initial_connections_ok: "conns_ok initial_connections"
  by (simp add: conns_ok_def initial_connections_def initial_connection_def ring_ok_def)

lemma new_connection_ok: "conns_ok ks \<Longrightarrow> conns_ok (snd (new_connection ok ks))"
proof -
  assume c: "conns_ok ks"
  obtain r ks' where n: "new_connection_from ok ks 0 = (r, ks')" by fastforce
  show ?thesis
  proof (cases r)
    case None
    with n new_connection_from_None [of ok ks 0 ks'] c show ?thesis
      by (auto simp: new_connection_def initial_connection_facts intro: conns_ok_update)
  next
    case (Some i)
    with n new_connection_from_Some [of ok ks 0 i ks'] c show ?thesis
      by (auto simp: new_connection_def fresh_connection_facts live_ring_ok intro!: conns_ok_update)
  qed
qed

section \<open>Properties\<close>

text \<open>
  \<open>new_connection\<close> hands out the first connection not in use, with an empty receive
  ring and everything else reset, leaves the other connections alone and keeps the table
  well formed; it fails only when all five are in use or there is no memory.
\<close>

theorem new_connection_spec:
  assumes "conns_ok ks"
  shows "conns_ok (snd (new_connection ok ks)) \<and>
    (case fst (new_connection ok ks) of
       Some i \<Rightarrow> i < 5 \<and> \<not> used (ks ! i) \<and> (\<forall>j<i. used (ks ! j)) \<and>
         snd (new_connection ok ks) = ks[i := fresh_connection (int i)] \<and>
         rx_contents (snd (new_connection ok ks) ! i) = []
     | None \<Rightarrow> (\<forall>k\<in>set ks. used k) \<or> \<not> ok)"
proof -
  obtain r ks' where n: "new_connection_from ok ks 0 = (r, ks')" by fastforce
  have keep: "conns_ok (snd (new_connection ok ks))" by (rule new_connection_ok [OF assms])
  show ?thesis
  proof (cases r)
    case None
    with n new_connection_from_None [of ok ks 0 ks'] keep show ?thesis
      by (auto simp: new_connection_def)
  next
    case (Some i)
    with n have "new_connection_from ok ks 0 = (Some i, ks')" by simp
    from new_connection_from_Some [OF this] n Some keep show ?thesis
      using conns_ok_length [OF assms] conns_ok_id [OF assms]
      by (simp add: new_connection_def fresh_connection_facts)
  qed
qed

theorem new_connection_spec_witness: "fst (new_connection True initial_connections) = Some 0 \<and>
    conns_ok (snd (new_connection True initial_connections))"
proof
  show "fst (new_connection True initial_connections) = Some 0"
    by (simp add: new_connection_def initial_connections_def initial_connection_def)
  show "conns_ok (snd (new_connection True initial_connections))"
    by (rule conjunct1 [OF new_connection_spec [OF initial_connections_ok]])
qed

text \<open>
  Reading from a live connection yields the oldest bytes of its ring, at most as many
  as asked for, in the order they were stored, never leaves the array, and keeps exactly the
  rest; a request of zero or fewer bytes reads nothing.
\<close>

theorem connection_read_data_spec:
  assumes "live k"
  shows "\<exists>k'. connection_read_data k len = Inr (take (nat len) (rx_contents k), k') \<and>
    live k' \<and> rx_contents k' = drop (nat len) (rx_contents k)"
  using read_data_contents [OF assms, of len] by blast

theorem connection_read_data_spec_witness:
  "\<exists>k'. connection_read_data (fresh_connection 3) 10 = Inr ([], k') \<and> live k' \<and> rx_contents k' = []"
  using connection_read_data_spec [OF fresh_connection_facts(3), of 3 10]
  by (simp add: fresh_connection_facts)

end
