(* ===== verification/Esp_Response.thy ===== *)
theory Esp_Response
  imports Esp_Connection
begin

text \<open>
  The responses the AT driver knows: for each entry of \<open>response_table\<close> in
  \<open>app_iothub_client/src/esp_at_socket.c\<close> the function that takes a parameter
  (\<open>at_*_set_param\<close>) and the function that carries the response out (\<open>at_*_exec\<close>), in the order
  of the source, and the table itself.
\<close>

section \<open>Modem settings\<close>

definition at_cipmux_set_param :: "esp_env \<Rightarrow> esp \<Rightarrow> int \<Rightarrow> at_param_type \<Rightarrow> at_value \<Rightarrow> (bool \<times> esp) outcome" where
  "at_cipmux_set_param env w pos type v =
    (if pos = 1 then
       (if intptr env v = 0 then Inr (True, upd_params (\<lambda>p. p\<lparr>connection_mode := at_single_connection_mode\<rparr>) w)
        else if intptr env v = 1 then Inr (True, upd_params (\<lambda>p. p\<lparr>connection_mode := at_multiple_connections_mode\<rparr>) w)
        else Inr (False, w))
     else Inr (False, w))"

definition at_cipmux_exec :: "esp_env \<Rightarrow> esp \<Rightarrow> int \<Rightarrow> (at_parse_state \<times> esp) outcome" where
  "at_cipmux_exec env w pos =
    Inr (at_none, if pos \<ge> 1 then upd_current (\<lambda>c. c\<lparr>connection_mode := connection_mode (par w)\<rparr>) w else w)"

text \<open>\<open>inet_aton\<close> and \<open>ether_aton_r\<close> on a parameter: the field is written when the text is an address.\<close>

definition set_ip :: "esp \<Rightarrow> at_value \<Rightarrow> (u32 \<Rightarrow> esp_socket_state \<Rightarrow> esp_socket_state) \<Rightarrow> (bool \<times> esp) outcome" where
  "set_ip w v put =
    cbind (text_of w v) (\<lambda>s. case ip4addr_aton s of
       Some a \<Rightarrow> Inr (True, upd_params (put a) w)
     | None \<Rightarrow> Inr (False, w))"

definition set_mac :: "esp \<Rightarrow> at_value \<Rightarrow> (ether_addr \<Rightarrow> esp_socket_state \<Rightarrow> esp_socket_state) \<Rightarrow> (bool \<times> esp) outcome" where
  "set_mac w v put =
    cbind (text_of w v) (\<lambda>s. case ether_aton_r s of
       Some a \<Rightarrow> Inr (True, upd_params (put a) w)
     | None \<Rightarrow> Inr (False, w))"

definition at_cifsr_set_param :: "esp_env \<Rightarrow> esp \<Rightarrow> int \<Rightarrow> at_param_type \<Rightarrow> at_value \<Rightarrow> (bool \<times> esp) outcome" where
  "at_cifsr_set_param env w pos type v =
    (if pos = 1 then Inr (True, upd_params (\<lambda>p. p\<lparr>symbol_kind := intptr env v\<rparr>) w)
     else if pos = 2 then
       (if symbol_kind (par w) = symbol_kind_apip then set_ip w v (\<lambda>a p. p\<lparr>ap_ip := a\<rparr>)
        else if symbol_kind (par w) = symbol_kind_apmac then set_mac w v (\<lambda>a p. p\<lparr>ap_mac := a\<rparr>)
        else if symbol_kind (par w) = symbol_kind_staip then set_ip w v (\<lambda>a p. p\<lparr>sta_ip := a\<rparr>)
        else if symbol_kind (par w) = symbol_kind_stamac then set_mac w v (\<lambda>a p. p\<lparr>sta_mac := a\<rparr>)
        else Inr (False, w))
     else Inr (False, w))"

definition at_cifsr_exec :: "esp_env \<Rightarrow> esp \<Rightarrow> int \<Rightarrow> (at_parse_state \<times> esp) outcome" where
  "at_cifsr_exec env w pos =
    Inr (at_none,
      if pos < 2 then w
      else if symbol_kind (par w) = symbol_kind_apip then upd_current (\<lambda>c. c\<lparr>ap_ip := ap_ip (par w)\<rparr>) w
      else if symbol_kind (par w) = symbol_kind_apmac then upd_current (\<lambda>c. c\<lparr>ap_mac := ap_mac (par w)\<rparr>) w
      else if symbol_kind (par w) = symbol_kind_staip then upd_current (\<lambda>c. c\<lparr>sta_ip := sta_ip (par w)\<rparr>) w
      else if symbol_kind (par w) = symbol_kind_stamac then upd_current (\<lambda>c. c\<lparr>sta_mac := sta_mac (par w)\<rparr>) w
      else w)"

definition at_cipap_set_param :: "esp_env \<Rightarrow> esp \<Rightarrow> int \<Rightarrow> at_param_type \<Rightarrow> at_value \<Rightarrow> (bool \<times> esp) outcome" where
  "at_cipap_set_param env w pos type v =
    (if pos = 1 then Inr (True, upd_params (\<lambda>p. p\<lparr>symbol_kind := intptr env v\<rparr>) w)
     else if pos = 2 then
       (if symbol_kind (par w) = symbol_kind_gateway then set_ip w v (\<lambda>a p. p\<lparr>ap_gateway := a\<rparr>)
        else if symbol_kind (par w) = symbol_kind_netmask then set_ip w v (\<lambda>a p. p\<lparr>ap_netmask := a\<rparr>)
        else Inr (False, w))
     else Inr (False, w))"

definition at_cipap_exec :: "esp_env \<Rightarrow> esp \<Rightarrow> int \<Rightarrow> (at_parse_state \<times> esp) outcome" where
  "at_cipap_exec env w pos =
    Inr (at_none,
      if pos < 2 then w
      else if symbol_kind (par w) = symbol_kind_gateway then upd_current (\<lambda>c. c\<lparr>ap_gateway := ap_gateway (par w)\<rparr>) w
      else if symbol_kind (par w) = symbol_kind_netmask then upd_current (\<lambda>c. c\<lparr>ap_netmask := ap_netmask (par w)\<rparr>) w
      else w)"

text \<open>The SNTP answer: the text of the date to seconds, and the clock set to it.\<close>

definition minimum_year_tm :: tm where
  "minimum_year_tm = \<lparr>tm_sec = 0, tm_min = 0, tm_hour = 0, tm_mday = 1, tm_mon = 0, tm_year = 2020 - 1900\<rparr>"

definition MINIMUM_YEAR :: "int outcome" where
  "MINIMUM_YEAR = tm_to_secs minimum_year_tm"

definition at_cipsntptime_set_param :: "esp_env \<Rightarrow> esp \<Rightarrow> int \<Rightarrow> at_param_type \<Rightarrow> at_value \<Rightarrow> (bool \<times> esp) outcome" where
  "at_cipsntptime_set_param env w pos type v =
    (if pos = 1 then
       cbind (text_of w v) (\<lambda>s. case strptime env s of
          Some tm \<Rightarrow> cbind (tm_to_secs tm) (\<lambda>secs. Inr (True, upd_params (\<lambda>p. p\<lparr>date_time := secs\<rparr>) w))
        | None \<Rightarrow> Inr (False, w))
     else Inr (False, w))"

definition at_cipsntptime_exec :: "esp_env \<Rightarrow> esp \<Rightarrow> int \<Rightarrow> (at_parse_state \<times> esp) outcome" where
  "at_cipsntptime_exec env w pos =
    cbind MINIMUM_YEAR (\<lambda>minimum.
      if date_time (par w) \<le> minimum then Inr (at_none, w)
      else (let w1 = upd_current (\<lambda>c. c\<lparr>date_time := date_time (par w)\<rparr>) w
            in Inr (at_none, w1\<lparr>rtc := rtc_set_time (gmtime env (date_time (par w))) (rtc w1)\<rparr>)))"

definition at_cipsta_set_param :: "esp_env \<Rightarrow> esp \<Rightarrow> int \<Rightarrow> at_param_type \<Rightarrow> at_value \<Rightarrow> (bool \<times> esp) outcome" where
  "at_cipsta_set_param env w pos type v =
    (if pos = 1 then Inr (True, upd_params (\<lambda>p. p\<lparr>symbol_kind := intptr env v\<rparr>) w)
     else if pos = 2 then
       (if symbol_kind (par w) = symbol_kind_gateway then set_ip w v (\<lambda>a p. p\<lparr>sta_gateway := a\<rparr>)
        else if symbol_kind (par w) = symbol_kind_netmask then set_ip w v (\<lambda>a p. p\<lparr>sta_netmask := a\<rparr>)
        else Inr (False, w))
     else Inr (False, w))"

definition at_cipsta_exec :: "esp_env \<Rightarrow> esp \<Rightarrow> int \<Rightarrow> (at_parse_state \<times> esp) outcome" where
  "at_cipsta_exec env w pos =
    Inr (at_none,
      if pos < 2 then w
      else if symbol_kind (par w) = symbol_kind_gateway then upd_current (\<lambda>c. c\<lparr>sta_gateway := sta_gateway (par w)\<rparr>) w
      else if symbol_kind (par w) = symbol_kind_netmask then upd_current (\<lambda>c. c\<lparr>sta_netmask := sta_netmask (par w)\<rparr>) w
      else w)"

definition at_cwjap_set_param :: "esp_env \<Rightarrow> esp \<Rightarrow> int \<Rightarrow> at_param_type \<Rightarrow> at_value \<Rightarrow> (bool \<times> esp) outcome" where
  "at_cwjap_set_param env w pos type v =
    (if pos = 1 then
       (if type = at_param_string then
          cbind (text_of w v) (\<lambda>s. cbind (strcpy_into ssid_size s) (\<lambda>s.
            Inr (True, upd_params (\<lambda>p. p\<lparr>ssid := s\<rparr>) w)))
        else Inr (False, w))
     else if pos = 2 then set_mac w v (\<lambda>a p. p\<lparr>baseid := a\<rparr>)
     else if pos = 3 then Inr (True, upd_params (\<lambda>p. p\<lparr>channel := intptr env v\<rparr>) w)
     else if pos = 4 then Inr (True, upd_params (\<lambda>p. p\<lparr>rssi := intptr env v\<rparr>) w)
     else Inr (False, w))"

definition at_cwjap_exec :: "esp_env \<Rightarrow> esp \<Rightarrow> int \<Rightarrow> (at_parse_state \<times> esp) outcome" where
  "at_cwjap_exec env w pos =
    cbind (if pos \<ge> 1 then strcpy_into ssid_size (ssid (par w)) else Inr (ssid (cur w))) (\<lambda>s.
      Inr (at_none, upd_current (\<lambda>c. c\<lparr>
        ssid := s,
        baseid := (if pos \<ge> 2 then baseid (par w) else baseid c),
        channel := (if pos \<ge> 3 then channel (par w) else channel c),
        rssi := (if pos \<ge> 4 then rssi (par w) else rssi c)\<rparr>) w))"

section \<open>Access points\<close>

definition encryption_of :: "int \<Rightarrow> at_encryption_method option" where
  "encryption_of n =
    (if n = 0 then Some encryption_open else if n = 1 then Some encryption_wep
     else if n = 2 then Some encryption_wpa_psk else if n = 3 then Some encryption_wpa2_psk
     else if n = 4 then Some encryption_wpa_wpa2_psk else if n = 5 then Some encryption_wpa2_enterprise
     else None)"

definition upd_ap :: "(esp_ap_status \<Rightarrow> esp_ap_status) \<Rightarrow> esp \<Rightarrow> esp" where
  "upd_ap f w = upd_params (\<lambda>p. let i = nat (ap_status_count p)
     in p\<lparr>ap_status := (ap_status p)[i := f (ap_status p ! i)]\<rparr>) w"

definition at_cwlap_set_param :: "esp_env \<Rightarrow> esp \<Rightarrow> int \<Rightarrow> at_param_type \<Rightarrow> at_value \<Rightarrow> (bool \<times> esp) outcome" where
  "at_cwlap_set_param env w pos type v =
    (if ap_status_count (par w) < 0 \<or> ap_status_count (par w) \<ge> 10 then Inr (False, w)
     else if pos = 1 then
       (case encryption_of (intptr env v) of
          Some m \<Rightarrow> Inr (True, upd_ap (\<lambda>a. a\<lparr>encryption_method := m\<rparr>) w)
        | None \<Rightarrow> Inr (False, w))
     else if pos = 2 then
       cbind (text_of w v) (\<lambda>s. cbind (strcpy_into ssid_size s) (\<lambda>s.
         Inr (True, upd_ap (\<lambda>a. a\<lparr>ap_ssid := s\<rparr>) w)))
     else if pos = 3 then Inr (True, upd_ap (\<lambda>a. a\<lparr>ap_rssi := intptr env v\<rparr>) w)
     else if pos = 4 then
       cbind (text_of w v) (\<lambda>s. case ether_aton_r s of
          Some m \<Rightarrow> Inr (True, upd_ap (\<lambda>a. a\<lparr>mac := m\<rparr>) w)
        | None \<Rightarrow> Inr (False, w))
     else if pos = 5 then Inr (True, upd_ap (\<lambda>a. a\<lparr>ap_channel := intptr env v\<rparr>) w)
     else if pos = 6 then Inr (True, upd_ap (\<lambda>a. a\<lparr>freq_offset := intptr env v\<rparr>) w)
     else if pos = 7 then Inr (True, upd_ap (\<lambda>a. a\<lparr>freq_calibration := intptr env v\<rparr>) w)
     else Inr (False, w))"

definition at_cwlap_exec :: "esp_env \<Rightarrow> esp \<Rightarrow> int \<Rightarrow> (at_parse_state \<times> esp) outcome" where
  "at_cwlap_exec env w pos =
    cbind (int_add (ap_status_count (par w)) 1) (\<lambda>n.
      Inr (at_none, upd_params (\<lambda>p. p\<lparr>ap_status_count := n\<rparr>) w))"

definition wifi_mode_of :: "int \<Rightarrow> at_wifi_mode option" where
  "wifi_mode_of n =
    (if n = 1 then Some wifi_mode_unknown else if n = 2 then Some wifi_mode_station
     else if n = 3 then Some wifi_mode_soft_ap else if n = 4 then Some wifi_mode_soft_ap_station
     else None)"

definition at_cwmode_set_param :: "esp_env \<Rightarrow> esp \<Rightarrow> int \<Rightarrow> at_param_type \<Rightarrow> at_value \<Rightarrow> (bool \<times> esp) outcome" where
  "at_cwmode_set_param env w pos type v =
    (if pos = 1 then
       (case wifi_mode_of (intptr env v) of
          Some m \<Rightarrow> Inr (True, upd_params (\<lambda>p. p\<lparr>wifi_mode := m\<rparr>) w)
        | None \<Rightarrow> Inr (False, w))
     else Inr (False, w))"

definition at_cwmode_exec :: "esp_env \<Rightarrow> esp \<Rightarrow> int \<Rightarrow> (at_parse_state \<times> esp) outcome" where
  "at_cwmode_exec env w pos =
    Inr (at_none, if pos \<ge> 1 then upd_current (\<lambda>c. c\<lparr>wifi_mode := wifi_mode (par w)\<rparr>) w else w)"

definition upd_config :: "(esp_ap_config \<Rightarrow> esp_ap_config) \<Rightarrow> esp \<Rightarrow> esp" where
  "upd_config f w = upd_params (\<lambda>p. p\<lparr>config := f (config p)\<rparr>) w"

text \<open>Position 5 stores its value and is then refused: the case ends in \<open>break\<close>.\<close>

definition at_cwsap_set_param :: "esp_env \<Rightarrow> esp \<Rightarrow> int \<Rightarrow> at_param_type \<Rightarrow> at_value \<Rightarrow> (bool \<times> esp) outcome" where
  "at_cwsap_set_param env w pos type v =
    (if pos = 1 then
       cbind (text_of w v) (\<lambda>s. cbind (strcpy_into ssid_size s) (\<lambda>s.
         Inr (True, upd_config (\<lambda>c. c\<lparr>config_ssid := s\<rparr>) w)))
     else if pos = 2 then
       cbind (text_of w v) (\<lambda>s. cbind (strcpy_into pwd_size s) (\<lambda>s.
         Inr (True, upd_config (\<lambda>c. c\<lparr>config_pwd := s\<rparr>) w)))
     else if pos = 3 then Inr (True, upd_config (\<lambda>c. c\<lparr>config_channel := intptr env v\<rparr>) w)
     else if pos = 4 then
       (case encryption_of (intptr env v) of
          Some m \<Rightarrow> Inr (True, upd_config (\<lambda>c. c\<lparr>config_encryption := m\<rparr>) w)
        | None \<Rightarrow> Inr (False, w))
     else if pos = 5 then Inr (False, upd_config (\<lambda>c. c\<lparr>max_connection := intptr env v\<rparr>) w)
     else if pos = 6 then
       (if intptr env v = 0 then Inr (True, upd_config (\<lambda>c. c\<lparr>ssid_hidden := 0\<rparr>) w)
        else if intptr env v = 1 then Inr (True, upd_config (\<lambda>c. c\<lparr>ssid_hidden := 1\<rparr>) w)
        else Inr (False, w))
     else Inr (False, w))"

definition at_cwsap_exec :: "esp_env \<Rightarrow> esp \<Rightarrow> int \<Rightarrow> (at_parse_state \<times> esp) outcome" where
  "at_cwsap_exec env w pos = Inr (at_none, w)"

section \<open>Received data\<close>

definition at_ipd_set_param :: "esp_env \<Rightarrow> esp \<Rightarrow> int \<Rightarrow> at_param_type \<Rightarrow> at_value \<Rightarrow> (bool \<times> esp) outcome" where
  "at_ipd_set_param env w pos type v =
    (if pos = 1 then
       (if 0 \<le> intptr env v \<and> intptr env v \<le> 4
        then Inr (True, upd_params (\<lambda>p. p\<lparr>link_id := intptr env v\<rparr>) w) else Inr (False, w))
     else if pos = 2 then
       (if 1 \<le> intptr env v \<and> intptr env v \<le> int AT_CONNECTION_RX_BUFF_SIZE
        then Inr (True, upd_params (\<lambda>p. p\<lparr>data_length := intptr env v\<rparr>) w) else Inr (False, w))
     else if pos = 3 then set_ip w v (\<lambda>a p. p\<lparr>remote_ip := a\<rparr>)
     else if pos = 4 then
       (if 0 \<le> intptr env v \<and> intptr env v < 65536
        then Inr (True, upd_params (\<lambda>p. p\<lparr>remote_port := intptr env v\<rparr>) w) else Inr (False, w))
     else Inr (False, w))"

definition at_ipd_exec :: "esp_env \<Rightarrow> esp \<Rightarrow> int \<Rightarrow> (at_parse_state \<times> esp) outcome" where
  "at_ipd_exec env w pos =
    Inr (at_receive_data, set_kind kind_no_set (upd_current (\<lambda>c. c\<lparr>
      link_id := (if pos \<ge> 1 then link_id (par w) else link_id c),
      data_length := (if pos \<ge> 2 then data_length (par w) else data_length c),
      remote_ip := (if pos \<ge> 3 then remote_ip (par w) else remote_ip c),
      remote_port := (if pos \<ge> 4 then remote_port (par w) else remote_port c),
      received := 0,
      lost := 0\<rparr>) w))"

section \<open>Responses without parameters\<close>

text \<open>The state of the connection the parameter block names.\<close>

definition set_conn_state :: "connection_state \<Rightarrow> esp \<Rightarrow> esp" where
  "set_conn_state st w =
    (case get_connection (connections w) (link_id (par w)) of
       None \<Rightarrow> w
     | Some i \<Rightarrow> w\<lparr>connections := (connections w)[i := (connections w ! i)\<lparr>conn_state := st\<rparr>]\<rparr>)"

definition at_already_connect_set_param :: "esp_env \<Rightarrow> esp \<Rightarrow> int \<Rightarrow> at_param_type \<Rightarrow> at_value \<Rightarrow> (bool \<times> esp) outcome" where
  "at_already_connect_set_param env w pos type v = Inr (False, w)"

definition at_already_connect_exec :: "esp_env \<Rightarrow> esp \<Rightarrow> int \<Rightarrow> (at_parse_state \<times> esp) outcome" where
  "at_already_connect_exec env w pos = Inr (at_none, set_kind kind_already_connect (set_conn_state conn_connected w))"

definition at_error_set_param :: "esp_env \<Rightarrow> esp \<Rightarrow> int \<Rightarrow> at_param_type \<Rightarrow> at_value \<Rightarrow> (bool \<times> esp) outcome" where
  "at_error_set_param env w pos type v = Inr (False, w)"

definition at_error_exec :: "esp_env \<Rightarrow> esp \<Rightarrow> int \<Rightarrow> (at_parse_state \<times> esp) outcome" where
  "at_error_exec env w pos = Inr (at_none, set_kind kind_error w)"

definition at_fail_set_param :: "esp_env \<Rightarrow> esp \<Rightarrow> int \<Rightarrow> at_param_type \<Rightarrow> at_value \<Rightarrow> (bool \<times> esp) outcome" where
  "at_fail_set_param env w pos type v = Inr (False, w)"

definition at_fail_exec :: "esp_env \<Rightarrow> esp \<Rightarrow> int \<Rightarrow> (at_parse_state \<times> esp) outcome" where
  "at_fail_exec env w pos = Inr (at_none, set_kind kind_fail w)"

definition at_ok_set_param :: "esp_env \<Rightarrow> esp \<Rightarrow> int \<Rightarrow> at_param_type \<Rightarrow> at_value \<Rightarrow> (bool \<times> esp) outcome" where
  "at_ok_set_param env w pos type v = Inr (False, w)"

definition at_ok_exec :: "esp_env \<Rightarrow> esp \<Rightarrow> int \<Rightarrow> (at_parse_state \<times> esp) outcome" where
  "at_ok_exec env w pos = Inr (at_none, set_kind kind_ok w)"

definition at_send_ok_set_param :: "esp_env \<Rightarrow> esp \<Rightarrow> int \<Rightarrow> at_param_type \<Rightarrow> at_value \<Rightarrow> (bool \<times> esp) outcome" where
  "at_send_ok_set_param env w pos type v = Inr (False, w)"

definition at_send_ok_exec :: "esp_env \<Rightarrow> esp \<Rightarrow> int \<Rightarrow> (at_parse_state \<times> esp) outcome" where
  "at_send_ok_exec env w pos = Inr (at_none, set_kind kind_send_ok w)"

definition at_wifi_connected_set_param :: "esp_env \<Rightarrow> esp \<Rightarrow> int \<Rightarrow> at_param_type \<Rightarrow> at_value \<Rightarrow> (bool \<times> esp) outcome" where
  "at_wifi_connected_set_param env w pos type v = Inr (False, w)"

definition at_wifi_connected_exec :: "esp_env \<Rightarrow> esp \<Rightarrow> int \<Rightarrow> (at_parse_state \<times> esp) outcome" where
  "at_wifi_connected_exec env w pos = Inr (at_none, upd_current (\<lambda>c. c\<lparr>wifi_state := wifi_connected\<rparr>) w)"

definition at_wifi_disconnect_set_param :: "esp_env \<Rightarrow> esp \<Rightarrow> int \<Rightarrow> at_param_type \<Rightarrow> at_value \<Rightarrow> (bool \<times> esp) outcome" where
  "at_wifi_disconnect_set_param env w pos type v = Inr (False, w)"

definition at_wifi_disconnect_exec :: "esp_env \<Rightarrow> esp \<Rightarrow> int \<Rightarrow> (at_parse_state \<times> esp) outcome" where
  "at_wifi_disconnect_exec env w pos = Inr (at_none, upd_current (\<lambda>c. c\<lparr>wifi_state := wifi_disconnected\<rparr>) w)"

definition at_wifi_got_ip_set_param :: "esp_env \<Rightarrow> esp \<Rightarrow> int \<Rightarrow> at_param_type \<Rightarrow> at_value \<Rightarrow> (bool \<times> esp) outcome" where
  "at_wifi_got_ip_set_param env w pos type v = Inr (False, w)"

definition at_wifi_got_ip_exec :: "esp_env \<Rightarrow> esp \<Rightarrow> int \<Rightarrow> (at_parse_state \<times> esp) outcome" where
  "at_wifi_got_ip_exec env w pos = Inr (at_none, upd_current (\<lambda>c. c\<lparr>wifi_state := wifi_got_ip\<rparr>) w)"

definition at_busy_set_param :: "esp_env \<Rightarrow> esp \<Rightarrow> int \<Rightarrow> at_param_type \<Rightarrow> at_value \<Rightarrow> (bool \<times> esp) outcome" where
  "at_busy_set_param env w pos type v = Inr (False, w)"

definition at_busy_exec :: "esp_env \<Rightarrow> esp \<Rightarrow> int \<Rightarrow> (at_parse_state \<times> esp) outcome" where
  "at_busy_exec env w pos = Inr (at_none, upd_current (\<lambda>c. c\<lparr>wifi_state := wifi_busy\<rparr>) (set_kind kind_busy w))"

definition at_ready_set_param :: "esp_env \<Rightarrow> esp \<Rightarrow> int \<Rightarrow> at_param_type \<Rightarrow> at_value \<Rightarrow> (bool \<times> esp) outcome" where
  "at_ready_set_param env w pos type v = Inr (False, w)"

definition at_ready_exec :: "esp_env \<Rightarrow> esp \<Rightarrow> int \<Rightarrow> (at_parse_state \<times> esp) outcome" where
  "at_ready_exec env w pos = Inr (at_none, upd_current (\<lambda>c. c\<lparr>wifi_state := wifi_disconnected\<rparr>) (set_kind kind_ready w))"

definition at_progress_set_param :: "esp_env \<Rightarrow> esp \<Rightarrow> int \<Rightarrow> at_param_type \<Rightarrow> at_value \<Rightarrow> (bool \<times> esp) outcome" where
  "at_progress_set_param env w pos type v = Inr (False, w)"

definition at_progress_exec :: "esp_env \<Rightarrow> esp \<Rightarrow> int \<Rightarrow> (at_parse_state \<times> esp) outcome" where
  "at_progress_exec env w pos = Inr (at_none, set_kind kind_progress w)"

definition at_connect_set_param :: "esp_env \<Rightarrow> esp \<Rightarrow> int \<Rightarrow> at_param_type \<Rightarrow> at_value \<Rightarrow> (bool \<times> esp) outcome" where
  "at_connect_set_param env w pos type v = Inr (False, w)"

definition at_connect_exec :: "esp_env \<Rightarrow> esp \<Rightarrow> int \<Rightarrow> (at_parse_state \<times> esp) outcome" where
  "at_connect_exec env w pos = Inr (at_none, set_kind kind_connect (set_conn_state conn_connected w))"

definition at_closed_set_param :: "esp_env \<Rightarrow> esp \<Rightarrow> int \<Rightarrow> at_param_type \<Rightarrow> at_value \<Rightarrow> (bool \<times> esp) outcome" where
  "at_closed_set_param env w pos type v = Inr (False, w)"

definition at_closed_exec :: "esp_env \<Rightarrow> esp \<Rightarrow> int \<Rightarrow> (at_parse_state \<times> esp) outcome" where
  "at_closed_exec env w pos = Inr (at_none, set_kind kind_closed (set_conn_state conn_disconnected w))"

section \<open>The table\<close>

definition entry :: "string \<Rightarrow> (esp_env \<Rightarrow> esp \<Rightarrow> int \<Rightarrow> at_param_type \<Rightarrow> at_value \<Rightarrow> (bool \<times> esp) outcome) \<Rightarrow> (esp_env \<Rightarrow> esp \<Rightarrow> int \<Rightarrow> (at_parse_state \<times> esp) outcome) \<Rightarrow> at_response_entry" where
  "entry name next exec = \<lparr>res_name = name, next_parameter = next, exec_response = exec\<rparr>"

definition response_table :: "at_response_entry list" where
  "response_table = [
    entry ''+CIPMUX'' at_cipmux_set_param at_cipmux_exec,
    entry ''+CIFSR'' at_cifsr_set_param at_cifsr_exec,
    entry ''+CIPAP'' at_cipap_set_param at_cipap_exec,
    entry ''+CIPSNTPTIME'' at_cipsntptime_set_param at_cipsntptime_exec,
    entry ''+CIPSTA'' at_cipsta_set_param at_cipsta_exec,
    entry ''+CWJAP'' at_cwjap_set_param at_cwjap_exec,
    entry ''+CWLAP'' at_cwlap_set_param at_cwlap_exec,
    entry ''+CWMODE'' at_cwmode_set_param at_cwmode_exec,
    entry ''+CWSAP'' at_cwsap_set_param at_cwsap_exec,
    entry ''+IPD'' at_ipd_set_param at_ipd_exec,
    entry ''ALREADY CONNECT'' at_already_connect_set_param at_already_connect_exec,
    entry ''ERROR'' at_error_set_param at_error_exec,
    entry ''FAIL'' at_fail_set_param at_fail_exec,
    entry ''OK'' at_ok_set_param at_ok_exec,
    entry ''SEND OK'' at_send_ok_set_param at_send_ok_exec,
    entry ''WIFI CONNECTED'' at_wifi_connected_set_param at_wifi_connected_exec,
    entry ''WIFI DISCONNECT'' at_wifi_disconnect_set_param at_wifi_disconnect_exec,
    entry ''WIFI GOT IP'' at_wifi_got_ip_set_param at_wifi_got_ip_exec,
    entry ''busy p'' at_busy_set_param at_busy_exec,
    entry ''ready'' at_ready_set_param at_ready_exec,
    entry ''>'' at_progress_set_param at_progress_exec,
    entry ''CONNECT'' at_connect_set_param at_connect_exec,
    entry ''CLOSED'' at_closed_set_param at_closed_exec]"

text \<open>\<open>get_response\<close>: the first entry of that name, a pointer into the table.\<close>

fun find_response :: "at_response_entry list \<Rightarrow> string \<Rightarrow> nat \<Rightarrow> nat option" where
  "find_response [] name i = None"
| "find_response (r # rs) name i = (if res_name r = name then Some i else find_response rs name (Suc i))"

definition get_response :: "at_response_entry list \<Rightarrow> string \<Rightarrow> nat option" where
  "get_response tbl name = find_response tbl name 0"

definition get_symbol :: "string \<Rightarrow> int" where
  "get_symbol name =
    (if name = ''APIP'' then symbol_kind_apip
     else if name = ''APMAC'' then symbol_kind_apmac
     else if name = ''STAIP'' then symbol_kind_staip
     else if name = ''STAMAC'' then symbol_kind_stamac
     else if name = ''gateway'' then symbol_kind_gateway
     else if name = ''netmask'' then symbol_kind_netmask
     else symbol_kind_unknown)"

lemma find_response_bound: "find_response tbl name i = Some j \<Longrightarrow> i \<le> j \<and> j < i + length tbl \<and> res_name (tbl ! (j - i)) = name"
proof (induction tbl arbitrary: i)
  case (Cons r rs)
  show ?case
  proof (cases "res_name r = name")
    case False
    with Cons.prems have "find_response rs name (Suc i) = Some j" by simp
    from Cons.IH [OF this] have "Suc i \<le> j" "j < Suc i + length rs" "res_name (rs ! (j - Suc i)) = name" by auto
    then show ?thesis by (simp add: nth_Cons split: nat.splits) (metis Suc_diff_le diff_Suc_Suc nat.inject)
  next
    case True
    with Cons.prems show ?thesis by simp
  qed
qed simp

lemma get_response_bound: "get_response tbl name = Some j \<Longrightarrow> j < length tbl \<and> res_name (tbl ! j) = name"
  using find_response_bound [of tbl name 0 j] by (simp add: get_response_def)

end
