(* ===== verification/Esp_Parser.thy ===== *)
theory Esp_Parser
  imports Esp_Response
begin

text \<open>
  The byte-at-a-time parser of the modem's answers, \<open>proc_atc_res\<close> of
  \<open>app_iothub_client/src/esp_at_socket.c\<close>: one definition per parse state, in the order of the
  switch.  The response table, which the C code declares \<open>extern\<close> before the parser, is an
  argument.  A step returns whether a response is complete, or the undefined behaviour met.
\<close>

section \<open>The text buffer\<close>

definition append_char :: "esp \<Rightarrow> char \<Rightarrow> bool \<times> esp" where
  "append_char w c =
    (if string_pos (serial w) \<ge> string_size
     then (False, upd_serial (\<lambda>s. s\<lparr>string_pos := string_size,
             string_buf := (string_buf s)[string_size - 1 := NUL]\<rparr>) w)
     else (True, upd_serial (\<lambda>s. s\<lparr>string_buf := (string_buf s)[string_pos s := c],
             string_pos := Suc (string_pos s)\<rparr>) w))"

abbreviation append :: "char \<Rightarrow> esp \<Rightarrow> esp" where
  "append c w \<equiv> snd (append_char w c)"

text \<open>\<open>string_pos = 0; string[string_pos++] = c\<close>\<close>

definition start_string :: "char \<Rightarrow> esp \<Rightarrow> esp" where
  "start_string c w = upd_serial (\<lambda>s. s\<lparr>string_buf := (string_buf s)[0 := c], string_pos := 1\<rparr>) w"

definition set_string_pos :: "nat \<Rightarrow> esp \<Rightarrow> esp" where
  "set_string_pos n w = upd_serial (\<lambda>s. s\<lparr>string_pos := n\<rparr>) w"

text \<open>\<open>string_pos = sprintf(string, ...)\<close> with the text printed.\<close>

definition print_string :: "string \<Rightarrow> esp \<Rightarrow> esp outcome" where
  "print_string text w =
    (if length text < string_size
     then Inr (upd_serial (\<lambda>s. s\<lparr>string_buf := text @ NUL # drop (Suc (length text)) (string_buf s),
                 string_pos := length text\<rparr>) w)
     else Inl Buffer_overflow)"

definition set_response :: "nat option \<Rightarrow> esp \<Rightarrow> esp" where
  "set_response r w = upd_serial (\<lambda>s. s\<lparr>response := r\<rparr>) w"

definition set_number :: "int \<Rightarrow> esp \<Rightarrow> esp" where
  "set_number n w = upd_serial (\<lambda>s. s\<lparr>number := n\<rparr>) w"

lemmas parser_upd_defs [esp_upd] =
  start_string_def set_string_pos_def set_response_def set_number_def

text \<open>\<open>param_pos = 0; memset(&params, 0, sizeof(params))\<close>\<close>

definition reset_params :: "esp \<Rightarrow> esp" where
  "reset_params w = upd_serial (\<lambda>s. s\<lparr>param_pos := 0, params := zero_params\<rparr>) w"

text \<open>\<open>response = get_response(string)\<close>\<close>

definition look_up :: "at_response_entry list \<Rightarrow> esp \<Rightarrow> esp outcome" where
  "look_up tbl w =
    cbind (c_string (string_buf (serial w))) (\<lambda>s. Inr (set_response (get_response tbl s) w))"

text \<open>\<open>number *= 10; number += c - '0'\<close>\<close>

definition add_digit :: "esp \<Rightarrow> char \<Rightarrow> esp outcome" where
  "add_digit w c =
    (let n10 = number (serial w) * 10
     in if int_ok n10 then cbind (int_add n10 (digit_val c)) (\<lambda>n. Inr (set_number n w))
        else Inl Signed_overflow)"

section \<open>Calls through the table\<close>

definition call_next :: "at_response_entry list \<Rightarrow> esp_env \<Rightarrow> esp \<Rightarrow> at_param_type \<Rightarrow> at_value \<Rightarrow> (bool \<times> esp) outcome" where
  "call_next tbl env w type v =
    cbind (int_add (param_pos (serial w)) 1) (\<lambda>n.
      let w1 = upd_serial (\<lambda>s. s\<lparr>param_pos := n\<rparr>) w
      in case response (serial w1) of
           None \<Rightarrow> Inl Null_pointer
         | Some i \<Rightarrow> if i < length tbl then next_parameter (tbl ! i) env w1 n type v else Inl Wild_pointer)"

definition call_exec :: "at_response_entry list \<Rightarrow> esp_env \<Rightarrow> esp \<Rightarrow> esp outcome" where
  "call_exec tbl env w =
    (case response (serial w) of
       None \<Rightarrow> Inl Null_pointer
     | Some i \<Rightarrow>
        if i < length tbl
        then cbind (exec_response (tbl ! i) env w (param_pos (serial w))) (\<lambda>(st, w1). Inr (set_state st w1))
        else Inl Wild_pointer)"

text \<open>The end of the function, reached when a state does not accept the character.\<close>

definition parse_error :: "esp \<Rightarrow> bool \<times> esp" where
  "parse_error w = (False, set_response None (set_state at_none w))"

section \<open>The states\<close>

definition proc_none :: "at_response_entry list \<Rightarrow> esp_env \<Rightarrow> esp \<Rightarrow> char \<Rightarrow> (bool \<times> esp) outcome" where
  "proc_none tbl env w c =
    (if c = CHR ''+'' then Inr (False, set_state at_informtion (start_string c w))
     else if isalpha c \<or> c = CHR ''>'' then
       (let w1 = set_state at_response (start_string c w)
        in if c = CHR ''>'' then
             cbind (look_up tbl (append NUL w1)) (\<lambda>w2.
               if response (serial w2) \<noteq> None
               then cbind (call_exec tbl env w2) (\<lambda>w3. Inr (True, set_response None w3))
               else Inr (False, w2))
           else Inr (False, w1))
     else if isdigit c then Inr (False, set_state at_link_id (set_number (digit_val c) w))
     else if c = CR then Inr (False, set_state at_crlf w)
     else Inr (False, w))"

definition proc_crlf :: "at_response_entry list \<Rightarrow> esp_env \<Rightarrow> esp \<Rightarrow> char \<Rightarrow> (bool \<times> esp) outcome" where
  "proc_crlf tbl env w c =
    (if c = LF then
       cbind (if response (serial w) \<noteq> None then call_exec tbl env w else Inr (set_state at_none w)) (\<lambda>w1.
         Inr (True, set_response None (set_string_pos 0 w1)))
     else if c = CR \<or> c = CHR ''.'' then Inr (False, set_state at_crlf w)
     else Inr (parse_error w))"

definition proc_informtion :: "at_response_entry list \<Rightarrow> esp_env \<Rightarrow> esp \<Rightarrow> char \<Rightarrow> (bool \<times> esp) outcome" where
  "proc_informtion tbl env w c =
    (if c = CHR '':'' \<or> c = CHR '','' then
       cbind (look_up tbl (append NUL w)) (\<lambda>w1.
         if response (serial w1) \<noteq> None
         then Inr (False, set_state at_parameter (reset_params w1))
         else Inr (parse_error w1))
     else if isalpha c \<or> isdigit c \<or> c = CHR '' '' then
       Inr (False, set_state at_informtion (append c w))
     else Inr (parse_error w))"

definition proc_response :: "at_response_entry list \<Rightarrow> esp_env \<Rightarrow> esp \<Rightarrow> char \<Rightarrow> (bool \<times> esp) outcome" where
  "proc_response tbl env w c =
    (if c = CR \<or> c = LF \<or> c = CHR ''.'' then
       cbind (look_up tbl (append NUL w)) (\<lambda>w1.
         let w2 = (if response (serial w1) \<noteq> None then reset_params w1 else w1)
         in if c = LF then proc_crlf tbl env w2 c else Inr (False, set_state at_crlf w2))
     else if isalpha c \<or> isdigit c \<or> c = CHR '' '' then
       Inr (False, set_state at_response (append c w))
     else Inr (parse_error w))"

definition proc_link_id :: "esp \<Rightarrow> char \<Rightarrow> (bool \<times> esp) outcome" where
  "proc_link_id w c =
    (if isdigit c then cbind (add_digit (set_state at_link_id w) c) (\<lambda>w1. Inr (False, w1))
     else if c = CHR '','' then
       Inr (False, set_state at_response (set_string_pos 0
         (upd_params (\<lambda>p. p\<lparr>link_id := number (serial w)\<rparr>) (reset_params w))))
     else Inr (parse_error w))"

definition proc_parameter :: "esp \<Rightarrow> char \<Rightarrow> (bool \<times> esp) outcome" where
  "proc_parameter w c =
    (if isdigit c then Inr (False, set_number (digit_val c) (set_state at_number w))
     else if c = DQUOTE then
       Inr (False, set_state at_string_str
         (upd_serial (\<lambda>s. s\<lparr>string_pos := 0, string_buf := (string_buf s)[0 := NUL]\<rparr>) w))
     else if isalpha c then Inr (False, set_state at_line_text (start_string c w))
     else Inr (parse_error w))"

text \<open>What a state does after \<open>next_parameter\<close>: on with the next state, or the parse error.\<close>

definition accept :: "(bool \<times> esp) outcome \<Rightarrow> (esp \<Rightarrow> (bool \<times> esp) outcome) \<Rightarrow> (bool \<times> esp) outcome" where
  "accept m k = cbind m (\<lambda>(ok, w1). if ok then k w1 else Inr (parse_error w1))"

definition goto :: "at_parse_state \<Rightarrow> esp \<Rightarrow> (bool \<times> esp) outcome" where
  "goto st w = Inr (False, set_state st w)"

definition proc_number :: "at_response_entry list \<Rightarrow> esp_env \<Rightarrow> esp \<Rightarrow> char \<Rightarrow> (bool \<times> esp) outcome" where
  "proc_number tbl env w c =
    (let n = number (serial w)
     in if isdigit c then cbind (add_digit (set_state at_number w) c) (\<lambda>w1. Inr (False, w1))
        else if c = CHR ''.'' then
          cbind (print_string (dec_int n @ ''.'') w) (\<lambda>w1. Inr (False, set_state at_ipaddr w1))
        else if c = CHR '','' then
          accept (call_next tbl env w at_param_number (VNum n)) (goto at_parameter)
        else if c = CHR '':'' then
          accept (call_next tbl env w at_param_number (VNum n)) (\<lambda>w1.
            cbind (call_exec tbl env w1) (\<lambda>w2. Inr (True, set_response None (set_string_pos 0 w2))))
        else if c = CR \<or> c = LF then
          accept (call_next tbl env w at_param_number (VNum n)) (\<lambda>w1.
            if c = LF then proc_crlf tbl env w1 c else goto at_crlf w1)
        else Inr (parse_error w))"

definition proc_string_str :: "esp \<Rightarrow> char \<Rightarrow> (bool \<times> esp) outcome" where
  "proc_string_str w c =
    (if c = DQUOTE then Inr (False, set_state at_string_edq w)
     else if c = BACKSLASH then Inr (False, set_state at_string_esc w)
     else Inr (False, set_state at_string_str (append c w)))"

definition proc_string_esc :: "esp \<Rightarrow> char \<Rightarrow> (bool \<times> esp) outcome" where
  "proc_string_esc w c = Inr (False, set_state at_string_str (append c w))"

definition proc_string_edq :: "at_response_entry list \<Rightarrow> esp_env \<Rightarrow> esp \<Rightarrow> char \<Rightarrow> (bool \<times> esp) outcome" where
  "proc_string_edq tbl env w c =
    (if c = CHR '','' then
       accept (call_next tbl env (append NUL w) at_param_string VStr) (goto at_parameter)
     else if c = CR then
       accept (call_next tbl env (append NUL w) at_param_string VStr) (goto at_crlf)
     else Inr (parse_error w))"

definition proc_symbol :: "at_response_entry list \<Rightarrow> esp_env \<Rightarrow> esp \<Rightarrow> char \<Rightarrow> (bool \<times> esp) outcome" where
  "proc_symbol tbl env w c =
    (let symbol = (\<lambda>w1. cbind (c_string (string_buf (serial w1)))
                      (\<lambda>s. call_next tbl env w1 at_param_symbol (VNum (get_symbol s))))
     in if c = CHR '','' \<or> c = CHR '':'' then accept (symbol (append NUL w)) (goto at_parameter)
        else if c = CR then accept (symbol (append NUL w)) (goto at_crlf)
        else if isalpha c \<or> isdigit c \<or> c = CHR '' '' then goto at_symbol (append c w)
        else Inr (parse_error w))"

definition proc_ipaddr :: "at_response_entry list \<Rightarrow> esp_env \<Rightarrow> esp \<Rightarrow> char \<Rightarrow> (bool \<times> esp) outcome" where
  "proc_ipaddr tbl env w c =
    (if isdigit c \<or> c = CHR ''.'' then goto at_ipaddr (append c w)
     else if c = CHR '','' then
       accept (call_next tbl env (append NUL w) at_param_string VStr) (goto at_parameter)
     else Inr (parse_error w))"

definition proc_line_text :: "at_response_entry list \<Rightarrow> esp_env \<Rightarrow> esp \<Rightarrow> char \<Rightarrow> (bool \<times> esp) outcome" where
  "proc_line_text tbl env w c =
    (if c = CR \<or> c = LF then
       accept (call_next tbl env (append NUL w) at_param_symbol VStr) (\<lambda>w1.
         if c = LF then proc_crlf tbl env w1 c else goto at_crlf w1)
     else if isprint c then goto at_line_text (append c w)
     else Inr (parse_error w))"

definition proc_cr :: "esp \<Rightarrow> char \<Rightarrow> (bool \<times> esp) outcome" where
  "proc_cr w c = (if c = CR then goto at_crlf w else Inr (parse_error w))"

text \<open>A payload byte goes to the ring of the connection the data is for, or is counted as lost.\<close>

definition store_byte :: "esp \<Rightarrow> char \<Rightarrow> esp outcome" where
  "store_byte w c =
    (let lose = cbind (int_add (lost (cur w)) 1) (\<lambda>n. Inr (upd_current (\<lambda>p. p\<lparr>lost := n\<rparr>) w))
     in case get_connection (connections w) (link_id (cur w)) of
          None \<Rightarrow> lose
        | Some i \<Rightarrow> cbind (ring_put (connections w ! i) c) (\<lambda>r. case r of
            None \<Rightarrow> lose
          | Some k \<Rightarrow> Inr (w\<lparr>connections := (connections w)[i := k]\<rparr>)))"

definition proc_receive_data :: "esp \<Rightarrow> char \<Rightarrow> (bool \<times> esp) outcome" where
  "proc_receive_data w c =
    cbind (int_add (received (cur w)) 1) (\<lambda>n.
    cbind (store_byte (upd_current (\<lambda>p. p\<lparr>received := n\<rparr>) w) c) (\<lambda>w1.
      if received (cur w1) \<ge> data_length (cur w1)
      then Inr (True, set_kind kind_received (set_state at_none w1))
      else Inr (False, w1)))"

definition proc_atc_res :: "at_response_entry list \<Rightarrow> esp_env \<Rightarrow> esp \<Rightarrow> char \<Rightarrow> (bool \<times> esp) outcome" where
  "proc_atc_res tbl env w c =
    (case parse_state (serial w) of
       at_none \<Rightarrow> proc_none tbl env w c
     | at_informtion \<Rightarrow> proc_informtion tbl env w c
     | at_response \<Rightarrow> proc_response tbl env w c
     | at_link_id \<Rightarrow> proc_link_id w c
     | at_parameter \<Rightarrow> proc_parameter w c
     | at_number \<Rightarrow> proc_number tbl env w c
     | at_string_str \<Rightarrow> proc_string_str w c
     | at_string_esc \<Rightarrow> proc_string_esc w c
     | at_string_edq \<Rightarrow> proc_string_edq tbl env w c
     | at_symbol \<Rightarrow> proc_symbol tbl env w c
     | at_ipaddr \<Rightarrow> proc_ipaddr tbl env w c
     | at_line_text \<Rightarrow> proc_line_text tbl env w c
     | at_cr \<Rightarrow> proc_cr w c
     | at_crlf \<Rightarrow> proc_crlf tbl env w c
     | at_receive_data \<Rightarrow> proc_receive_data w c)"

section \<open>The receive handler\<close>

text \<open>
  \<open>tsnd_dtq\<close> into the queue of \<open>NUM_ESP_AT\<close> kinds: the handler waits up to 20 s while it is full
  and then drops the kind, having only printed the error; a kind is dropped here when the
  queue is full.
\<close>

definition send_kind :: "esp \<Rightarrow> esp" where
  "send_kind w =
    (if response_kind (serial w) \<noteq> kind_no_set
     then set_kind kind_no_set
       (if length (dtq w) < NUM_ESP_AT then w\<lparr>dtq := dtq w @ [response_kind (serial w)]\<rparr> else w)
     else w)"

fun esp_at_rx_handler :: "at_response_entry list \<Rightarrow> esp_env \<Rightarrow> esp \<Rightarrow> string \<Rightarrow> esp outcome" where
  "esp_at_rx_handler tbl env w [] = Inr w"
| "esp_at_rx_handler tbl env w (c # cs) =
    cbind (proc_atc_res tbl env w c) (\<lambda>(complete, w1).
      esp_at_rx_handler tbl env (if complete then send_kind w1 else w1) cs)"

lemma rx_handler_append:
  "esp_at_rx_handler tbl env w (cs @ ds) =
   cbind (esp_at_rx_handler tbl env w cs) (\<lambda>w1. esp_at_rx_handler tbl env w1 ds)"
proof (induction cs arbitrary: w)
  case (Cons c cs)
  then show ?case by (cases "proc_atc_res tbl env w c") auto
qed simp

end
