(* ===== verification/Esp_Safety.thy ===== *)
theory Esp_Safety
  imports Esp_Parser
begin

text \<open>
  Memory safety of the AT parser.  The invariant of the parser state, the contract the parser
  relies on when it calls through the response table (a locale), the proof that every state of
  \<open>proc_atc_res\<close> keeps the invariant and runs into undefined behaviour only for the listed
  causes, and the proof that the driver's own table meets the contract.
\<close>

section \<open>The invariant\<close>

definition params_ok :: "esp_socket_state \<Rightarrow> bool" where
  "params_ok p \<longleftrightarrow> length (ap_status p) = 10 \<and> 0 \<le> ap_status_count p \<and> ap_status_count p \<le> 1 \<and>
     length (ssid p) < ssid_size \<and> 0 \<le> data_length p \<and> data_length p \<le> int AT_CONNECTION_RX_BUFF_SIZE"

definition parameter_state :: "at_parse_state \<Rightarrow> bool" where
  "parameter_state st \<longleftrightarrow> st \<in> {at_parameter, at_number, at_string_str, at_string_esc, at_string_edq,
     at_ipaddr, at_line_text}"

definition text_ok :: "esp_serial_state \<Rightarrow> bool" where
  "text_ok s \<longleftrightarrow> length (string_buf s) = string_size \<and> string_pos s \<le> string_size"

definition counters_ok :: "esp_socket_state \<Rightarrow> bool" where
  "counters_ok c \<longleftrightarrow> 0 \<le> lost c \<and> lost c \<le> received c \<and> received c < max 1 (data_length c)"

text \<open>What holds of the parts that do not depend on the parse state.\<close>

definition data_ok :: "esp \<Rightarrow> bool" where
  "data_ok w \<longleftrightarrow> text_ok (serial w) \<and> 0 \<le> number (serial w) \<and> number (serial w) < 2 ^ 31 \<and>
     0 \<le> param_pos (serial w) \<and> param_pos (serial w) \<le> 8 \<and>
     params_ok (par w) \<and> 0 \<le> data_length (cur w) \<and> data_length (cur w) \<le> int AT_CONNECTION_RX_BUFF_SIZE \<and>
     conns_ok (connections w)"

text \<open>The response pointer: set exactly where the parser goes through it.\<close>

definition response_ok :: "at_response_entry list \<Rightarrow> esp \<Rightarrow> bool" where
  "response_ok tbl w \<longleftrightarrow>
     (case response (serial w) of
        None \<Rightarrow> \<not> parameter_state (parse_state (serial w))
      | Some i \<Rightarrow> i < length tbl \<and> ap_status_count (par w) = 0 \<and> param_pos (serial w) \<le> 7 \<and>
          (parameter_state (parse_state (serial w)) \<or> parse_state (serial w) = at_crlf))"

definition state_ok :: "esp \<Rightarrow> bool" where
  "state_ok w \<longleftrightarrow> parse_state (serial w) \<noteq> at_symbol \<and> parse_state (serial w) \<noteq> at_cr \<and>
     (parse_state (serial w) = at_receive_data \<longrightarrow> counters_ok (cur w))"

definition parser_inv :: "at_response_entry list \<Rightarrow> esp \<Rightarrow> bool" where
  "parser_inv tbl w \<longleftrightarrow> data_ok w \<and> response_ok tbl w \<and> state_ok w"

definition initial_serial :: esp_serial_state where
  "initial_serial = \<lparr>serial_state = esp_echo_off, ap_name = None, ap_pwd = None, parse_state = at_none,
     string_buf = replicate string_size NUL, string_pos = 0, number = 0, response = None,
     response_kind = kind_no_set, param_pos = 0, params = zero_params,
     current_state = zero_params\<lparr>wifi_mode := wifi_mode_station\<rparr>\<rparr>"

text \<open>The state after \<open>init_esp_at\<close>.\<close>

definition init_esp_at :: "rtc_regs \<Rightarrow> esp" where
  "init_esp_at regs = \<lparr>serial = initial_serial, connections = initial_connections, rtc = regs,
     dtq = [], written = [], use_wifi = 0\<rparr>"

lemma zero_params_ok: "params_ok zero_params"
  by (simp add: params_ok_def zero_params_def)

lemma init_parser_inv: "parser_inv tbl (init_esp_at regs)"
  using zero_params_ok initial_connections_ok
  by (simp add: parser_inv_def data_ok_def response_ok_def state_ok_def init_esp_at_def initial_serial_def
      text_ok_def parameter_state_def zero_params_def)

section \<open>The causes of undefined behaviour\<close>

text \<open>
  A number too long for \<open>int\<close>; a number where a text is expected; a text of 36 or more
  characters for an \<open>ssid\<close>; and payload for a connection that has no receive buffer.
\<close>

inductive at_fault :: "esp \<Rightarrow> char \<Rightarrow> ub \<Rightarrow> bool" where
  long_number: "parse_state (serial w) \<in> {at_link_id, at_number} \<Longrightarrow> isdigit c \<Longrightarrow>
     2 ^ 31 \<le> number (serial w) * 10 + digit_val c \<Longrightarrow> at_fault w c Signed_overflow"
| number_as_text: "parse_state (serial w) = at_number \<Longrightarrow> \<not> isdigit c \<Longrightarrow> at_fault w c Wild_pointer"
| long_ssid: "parse_state (serial w) \<in> {at_string_edq, at_ipaddr, at_line_text} \<Longrightarrow>
     c_string (string_buf (serial (append NUL w))) = Inr s \<Longrightarrow> ssid_size \<le> length s \<Longrightarrow>
     at_fault w c Buffer_overflow"
| no_ring: "parse_state (serial w) = at_receive_data \<Longrightarrow>
     get_connection (connections w) (link_id (cur w)) = Some i \<Longrightarrow>
     \<not> live (connections w ! i) \<Longrightarrow> u \<in> {Null_pointer, Freed_pointer} \<Longrightarrow> at_fault w c u"

inductive_cases at_faultE: "at_fault w c u"

definition safe_step :: "at_response_entry list \<Rightarrow> (ub \<Rightarrow> bool) \<Rightarrow> (bool \<times> esp) outcome \<Rightarrow> bool" where
  "safe_step tbl F m = (case m of Inl u \<Rightarrow> F u | Inr (b, w) \<Rightarrow> parser_inv tbl w)"

lemma safe_step_simps [simp]:
  "safe_step tbl F (Inl u) = F u"
  "safe_step tbl F (Inr (b, w)) = parser_inv tbl w"
  by (simp_all add: safe_step_def)

section \<open>The text buffer\<close>

lemma append_facts [simp]:
  "text_ok (serial w) \<Longrightarrow> text_ok (serial (append c w))"
  "number (serial (append c w)) = number (serial w)"
  "param_pos (serial (append c w)) = param_pos (serial w)"
  "params (serial (append c w)) = params (serial w)"
  "current_state (serial (append c w)) = current_state (serial w)"
  "parse_state (serial (append c w)) = parse_state (serial w)"
  "response (serial (append c w)) = response (serial w)"
  "response_kind (serial (append c w)) = response_kind (serial w)"
  "connections (append c w) = connections w"
  by (auto simp: append_char_def esp_upd text_ok_def)

lemma append_NUL_string:
  assumes "text_ok (serial w)"
  obtains s where "c_string (string_buf (serial (append NUL w))) = Inr s" "length s < string_size"
proof -
  have "NUL \<in> set (string_buf (serial (append NUL w)))"
    using assms set_update_memI [of "string_pos (serial w)" "string_buf (serial w)" NUL]
      set_update_memI [of "string_size - 1" "string_buf (serial w)" NUL]
    by (auto simp: append_char_def esp_upd text_ok_def)
  then obtain s where s: "c_string (string_buf (serial (append NUL w))) = Inr s"
    by (simp add: c_string_def)
  moreover have "length (string_buf (serial (append NUL w))) = string_size"
    using append_facts(1) [OF assms, of NUL] by (simp add: text_ok_def)
  ultimately show thesis using c_string_length [OF s] that by simp
qed

text \<open>The text of a string shorter than the array.\<close>

definition holds_text :: "esp \<Rightarrow> string \<Rightarrow> bool" where
  "holds_text w t \<longleftrightarrow> string_pos (serial w) = length t \<and> length t < string_size \<and>
     length (string_buf (serial w)) = string_size \<and> take (length t) (string_buf (serial w)) = t"

lemma holds_text_append:
  assumes "holds_text w t" "Suc (length t) < string_size"
  shows "holds_text (append c w) (t @ [c])"
proof -
  have "take (Suc (length t)) ((string_buf (serial w))[length t := c]) = t @ [c]"
    using assms by (simp add: holds_text_def take_Suc_conv_app_nth)
  with assms show ?thesis by (simp add: holds_text_def append_char_def esp_upd)
qed

lemma holds_text_NUL:
  assumes "holds_text w t" "NUL \<notin> set t"
  shows "c_string (string_buf (serial (append NUL w))) = Inr t"
proof -
  have "string_buf (serial (append NUL w)) = t @ NUL # drop (Suc (length t)) (string_buf (serial w))"
    using assms upd_conv_take_nth_drop [of "length t" "string_buf (serial w)" NUL]
    by (simp add: holds_text_def append_char_def esp_upd)
  with assms show ?thesis by (simp add: c_string_terminated)
qed

lemma holds_text_start:
  "length (string_buf (serial w)) = string_size \<Longrightarrow> holds_text (start_string c w) [c]"
  by (cases "string_buf (serial w)") (simp_all add: holds_text_def start_string_def esp_upd)

section \<open>Frame facts\<close>

lemma data_ok_frame [simp]:
  "data_ok (set_state st w) = data_ok w"
  "data_ok (set_response r w) = data_ok w"
  "data_ok (set_kind k w) = data_ok w"
  "data_ok w \<Longrightarrow> data_ok (append c w)"
  "data_ok w \<Longrightarrow> data_ok (set_string_pos 0 w)"
  "data_ok w \<Longrightarrow> data_ok (start_string c w)"
  "data_ok w \<Longrightarrow> data_ok (reset_params w)"
  using zero_params_ok append_facts(1) [of w c]
  by (simp_all add: data_ok_def esp_upd reset_params_def) (simp_all add: text_ok_def)

lemma frame_fields [simp]:
  "parse_state (serial (set_state st w)) = st"
  "response (serial (set_state st w)) = response (serial w)"
  "params (serial (set_state st w)) = params (serial w)"
  "current_state (serial (set_state st w)) = current_state (serial w)"
  "param_pos (serial (set_state st w)) = param_pos (serial w)"
  "number (serial (set_state st w)) = number (serial w)"
  "connections (set_state st w) = connections w"
  "parse_state (serial (set_response r w)) = parse_state (serial w)"
  "response (serial (set_response r w)) = r"
  "params (serial (set_response r w)) = params (serial w)"
  "current_state (serial (set_response r w)) = current_state (serial w)"
  "param_pos (serial (set_response r w)) = param_pos (serial w)"
  "parse_state (serial (set_string_pos n w)) = parse_state (serial w)"
  "response (serial (set_string_pos n w)) = response (serial w)"
  "current_state (serial (set_string_pos n w)) = current_state (serial w)"
  "params (serial (set_string_pos n w)) = params (serial w)"
  "param_pos (serial (set_string_pos n w)) = param_pos (serial w)"
  "response (serial (start_string c w)) = response (serial w)"
  "params (serial (start_string c w)) = params (serial w)"
  "param_pos (serial (start_string c w)) = param_pos (serial w)"
  "current_state (serial (start_string c w)) = current_state (serial w)"
  "params (serial (reset_params w)) = zero_params"
  "param_pos (serial (reset_params w)) = 0"
  "parse_state (serial (reset_params w)) = parse_state (serial w)"
  "response (serial (reset_params w)) = response (serial w)"
  "ap_status_count zero_params = 0"
  by (simp_all add: esp_upd reset_params_def zero_params_def)

lemma parse_error_inv: "data_ok w \<Longrightarrow> safe_step tbl F (Inr (parse_error w))"
  by (simp add: parse_error_def parser_inv_def response_ok_def state_ok_def parameter_state_def)

lemma idle_inv:
  "data_ok w \<Longrightarrow> response (serial w) = None \<Longrightarrow>
   parse_state (serial w) \<in> {at_none, at_informtion, at_response, at_link_id, at_crlf} \<Longrightarrow> parser_inv tbl w"
  by (auto simp: parser_inv_def response_ok_def state_ok_def parameter_state_def)

lemma busy_inv:
  "data_ok w \<Longrightarrow> response (serial w) = Some i \<Longrightarrow> i < length tbl \<Longrightarrow> ap_status_count (par w) = 0 \<Longrightarrow>
   param_pos (serial w) \<le> 7 \<Longrightarrow> parameter_state (parse_state (serial w)) \<or> parse_state (serial w) = at_crlf \<Longrightarrow>
   parser_inv tbl w"
  by (auto simp: parser_inv_def response_ok_def state_ok_def parameter_state_def)

lemma parser_invD:
  assumes "parser_inv tbl w"
  shows "data_ok w" "text_ok (serial w)"
    "parameter_state (parse_state (serial w)) \<Longrightarrow> \<exists>i. response (serial w) = Some i \<and> i < length tbl \<and>
       ap_status_count (par w) = 0 \<and> param_pos (serial w) \<le> 7"
    "parse_state (serial w) \<in> {at_none, at_informtion, at_response, at_link_id, at_receive_data} \<Longrightarrow> response (serial w) = None"
    "response (serial w) = Some i \<Longrightarrow> i < length tbl \<and> ap_status_count (par w) = 0 \<and> param_pos (serial w) \<le> 7"
    "parse_state (serial w) = at_receive_data \<Longrightarrow> counters_ok (cur w)"
  using assms
  by (auto simp: parser_inv_def response_ok_def state_ok_def data_ok_def parameter_state_def split: option.splits)

section \<open>The contract of the table\<close>

locale response_handlers =
  fixes tbl :: "at_response_entry list" and env :: esp_env
  assumes next_ok: "i < length tbl \<Longrightarrow> data_ok w \<Longrightarrow>
      next_parameter (tbl ! i) env w n type v = Inr (b, w') \<Longrightarrow>
      \<exists>p. w' = upd_params (\<lambda>_. p) w \<and> params_ok p \<and> ap_status_count p = ap_status_count (par w) \<and> (b \<longrightarrow> n \<le> 7)"
    and next_fault: "i < length tbl \<Longrightarrow> data_ok w \<Longrightarrow>
      next_parameter (tbl ! i) env w n type v = Inl u \<Longrightarrow>
      u = Wild_pointer \<and> v \<noteq> VStr \<or>
      v = VStr \<and> (c_string (string_buf (serial w)) = Inl u \<or>
        u = Buffer_overflow \<and> (\<exists>s. c_string (string_buf (serial w)) = Inr s \<and> ssid_size \<le> length s))"
    and exec_ok: "i < length tbl \<Longrightarrow> data_ok w \<Longrightarrow>
      ap_status_count (par w) = 0 \<or> res_name (tbl ! i) = ''>'' \<Longrightarrow>
      \<exists>st w'. exec_response (tbl ! i) env w n = Inr (st, w') \<and> data_ok w' \<and>
        (st = at_none \<or> st = at_receive_data \<and> counters_ok (cur w'))"
begin

lemma call_next_safe:
  assumes "data_ok w" "response (serial w) = Some i" "i < length tbl" "ap_status_count (par w) = 0"
    "param_pos (serial w) \<le> 7"
    and fault: "\<And>u. u = Wild_pointer \<and> v \<noteq> VStr \<or>
      v = VStr \<and> (c_string (string_buf (serial w)) = Inl u \<or>
        u = Buffer_overflow \<and> (\<exists>s. c_string (string_buf (serial w)) = Inr s \<and> ssid_size \<le> length s)) \<Longrightarrow> F u"
    and cont: "\<And>w1. data_ok w1 \<Longrightarrow> response (serial w1) = Some i \<Longrightarrow> ap_status_count (par w1) = 0 \<Longrightarrow>
      param_pos (serial w1) \<le> 7 \<Longrightarrow> safe_step tbl F (k w1)"
  shows "safe_step tbl F (accept (call_next tbl env w type v) k)"
proof -
  let ?w = "upd_serial (\<lambda>s. s\<lparr>param_pos := param_pos (serial w) + 1\<rparr>) w"
  have ok: "int_ok (param_pos (serial w) + 1)" using assms(1,5) by (simp add: int_ok_def data_ok_def)
  have call: "call_next tbl env w type v = next_parameter (tbl ! i) env ?w (param_pos (serial w) + 1) type v"
    using assms ok by (simp add: call_next_def int_add_def esp_upd)
  have data: "data_ok ?w" using assms(1,5) by (simp add: data_ok_def esp_upd text_ok_def)
  have same: "string_buf (serial ?w) = string_buf (serial w)" by (simp add: esp_upd)
  show ?thesis
  proof (cases "next_parameter (tbl ! i) env ?w (param_pos (serial w) + 1) type v")
    case (Inl u)
    from next_fault [OF assms(3) data Inl] have "F u" unfolding same by (rule fault)
    with Inl call show ?thesis by (simp add: accept_def)
  next
    case (Inr r)
    obtain b w1 where r: "r = (b, w1)" by fastforce
    from next_ok [OF assms(3) data Inr [unfolded r]] obtain p where
      p: "w1 = upd_params (\<lambda>_. p) ?w" "params_ok p" "ap_status_count p = ap_status_count (par ?w)"
        "b \<longrightarrow> param_pos (serial w) + 1 \<le> 7" by blast
    have d1: "data_ok w1" using data p(1,2) by (simp add: data_ok_def esp_upd text_ok_def)
    show ?thesis
    proof (cases b)
      case True
      have "safe_step tbl F (k w1)"
        using True p assms(2,4) by (intro cont d1) (simp_all add: esp_upd)
      with Inr r call True show ?thesis by (simp add: accept_def)
    next
      case False
      with Inr r call parse_error_inv [OF d1] show ?thesis by (simp add: accept_def)
    qed
  qed
qed

lemma call_exec_safe:
  assumes "data_ok w" "response (serial w) = Some i" "i < length tbl"
    "ap_status_count (par w) = 0 \<or> res_name (tbl ! i) = ''>''"
  obtains w1 where "call_exec tbl env w = Inr w1" "data_ok w1"
    "parse_state (serial w1) = at_none \<or> parse_state (serial w1) = at_receive_data \<and> counters_ok (cur w1)"
proof -
  from exec_ok [OF assms(3,1,4)] obtain st w' where
    "exec_response (tbl ! i) env w (param_pos (serial w)) = Inr (st, w')" "data_ok w'"
    "st = at_none \<or> st = at_receive_data \<and> counters_ok (cur w')" by blast
  with assms that [of "set_state st w'"] show thesis by (auto simp: call_exec_def)
qed

lemma done_inv:
  assumes "data_ok w1"
    "parse_state (serial w1) = at_none \<or> parse_state (serial w1) = at_receive_data \<and> counters_ok (cur w1)"
  shows "parser_inv tbl (set_response None w1)" "parser_inv tbl (set_response None (set_string_pos 0 w1))"
  using assms by (auto simp: parser_inv_def response_ok_def state_ok_def parameter_state_def)

lemma look_up_safe:
  assumes "data_ok w"
  obtains r s where "look_up tbl (append NUL w) = Inr (set_response r (append NUL w))"
    "r = get_response tbl s" "c_string (string_buf (serial (append NUL w))) = Inr s"
proof -
  from assms have "text_ok (serial w)" by (simp add: data_ok_def)
  then obtain s where "c_string (string_buf (serial (append NUL w))) = Inr s" by (rule append_NUL_string)
  with that show thesis by (simp add: look_up_def)
qed

subsection \<open>The states\<close>

lemma crlf_safe:
  assumes d: "data_ok w"
    and r: "\<And>i. response (serial w) = Some i \<Longrightarrow> i < length tbl \<and> ap_status_count (par w) = 0 \<and> param_pos (serial w) \<le> 7"
  shows "safe_step tbl F (proc_crlf tbl env w c)"
proof (cases "c = LF")
  case True
  show ?thesis
  proof (cases "response (serial w)")
    case None
    with True d show ?thesis by (simp add: proc_crlf_def done_inv)
  next
    case (Some i)
    with r [OF Some] obtain w1 where "call_exec tbl env w = Inr w1" "data_ok w1"
      "parse_state (serial w1) = at_none \<or> parse_state (serial w1) = at_receive_data \<and> counters_ok (cur w1)"
      using call_exec_safe [OF d Some] by auto
    with True Some show ?thesis by (simp add: proc_crlf_def done_inv)
  qed
next
  case False
  then show ?thesis
  proof (cases "c = CR \<or> c = CHR ''.''")
    case True
    have "parser_inv tbl (set_state at_crlf w)"
    proof (cases "response (serial w)")
      case None
      then show ?thesis using d by (intro idle_inv) simp_all
    next
      case (Some i)
      with r [OF Some] d show ?thesis by (intro busy_inv [where i = i]) simp_all
    qed
    with True False show ?thesis by (auto simp: proc_crlf_def)
  next
    case other: False
    with False d parse_error_inv show ?thesis by (simp add: proc_crlf_def)
  qed
qed

lemma none_safe:
  assumes "parser_inv tbl w" "parse_state (serial w) = at_none"
    and prompt: "\<And>i. get_response tbl ''>'' = Some i \<Longrightarrow> res_name (tbl ! i) = ''>''"
  shows "safe_step tbl F (proc_none tbl env w c)"
proof -
  note d = parser_invD(1) [OF assms(1)]
  have n: "response (serial w) = None" using parser_invD(4) [OF assms(1)] assms(2) by simp
  let ?w1 = "set_state at_response (start_string (CHR ''>'') w)"
  have d1: "data_ok ?w1" using d by simp
  have t: "holds_text ?w1 [CHR ''>'']"
    using holds_text_start [of w "CHR ''>''"] d
    by (simp add: data_ok_def text_ok_def holds_text_def esp_upd)
  have lk: "look_up tbl (append NUL ?w1) = Inr (set_response (get_response tbl ''>'') (append NUL ?w1))"
    using holds_text_NUL [OF t] by (simp add: look_up_def)
  have gt: "safe_step tbl F (proc_none tbl env w (CHR ''>''))"
  proof (cases "get_response tbl ''>''")
    case None
    have "parser_inv tbl (set_response None (append NUL ?w1))"
      using d1 by (intro idle_inv) simp_all
    then show ?thesis by (simp add: proc_none_def lk None c_char)
  next
    case (Some i)
    let ?w2 = "set_response (Some i) (append NUL ?w1)"
    have "data_ok ?w2" "response (serial ?w2) = Some i" using d1 by simp_all
    from call_exec_safe [OF this] prompt [OF Some] get_response_bound [OF Some] obtain w3 where
      "call_exec tbl env ?w2 = Inr w3" "data_ok w3"
      "parse_state (serial w3) = at_none \<or> parse_state (serial w3) = at_receive_data \<and> counters_ok (cur w3)"
      by auto
    then show ?thesis by (simp add: proc_none_def lk Some done_inv c_char)
  qed
  have num: "data_ok (set_number (digit_val c) w)" if "isdigit c"
    using d digit_val_bounds [OF that] by (simp add: data_ok_def esp_upd text_ok_def)
  have "response (serial (set_number (digit_val c) w)) = None" using n by (simp add: esp_upd)
  then show ?thesis
    using gt d n assms(1) num
    by (cases "c = CHR ''>''") (auto simp: proc_none_def Let_def intro!: idle_inv)
qed

lemma informtion_safe:
  assumes "parser_inv tbl w" "parse_state (serial w) = at_informtion"
  shows "safe_step tbl F (proc_informtion tbl env w c)"
proof -
  note d = parser_invD(1) [OF assms(1)]
  have n: "response (serial w) = None" using parser_invD(4) [OF assms(1)] assms(2) by simp
  obtain r s where lk: "look_up tbl (append NUL w) = Inr (set_response r (append NUL w))"
    "r = get_response tbl s" by (rule look_up_safe [OF d])
  have found: "parser_inv tbl (set_state at_parameter (reset_params (set_response (Some i) (append NUL w))))"
    if "r = Some i" for i
    using d get_response_bound [of tbl s i] lk(2) that
    by (intro busy_inv [where i = i]) (simp_all add: parameter_state_def)
  have keep: "parser_inv tbl (set_state at_informtion (append c w))"
    using d n by (intro idle_inv) simp_all
  show ?thesis
    using d lk keep found parse_error_inv by (cases r) (auto simp: proc_informtion_def)
qed

lemma response_safe:
  assumes "parser_inv tbl w" "parse_state (serial w) = at_response"
  shows "safe_step tbl F (proc_response tbl env w c)"
proof -
  note d = parser_invD(1) [OF assms(1)]
  have n: "response (serial w) = None" using parser_invD(4) [OF assms(1)] assms(2) by simp
  obtain r s where lk: "look_up tbl (append NUL w) = Inr (set_response r (append NUL w))"
    "r = get_response tbl s" by (rule look_up_safe [OF d])
  let ?w1 = "set_response r (append NUL w)"
  let ?w2 = "if response (serial ?w1) \<noteq> None then reset_params ?w1 else ?w1"
  have d2: "data_ok ?w2" using d by simp
  have r2: "i < length tbl \<and> ap_status_count (par ?w2) = 0 \<and> param_pos (serial ?w2) \<le> 7"
    if "response (serial ?w2) = Some i" for i
    using that lk(2) get_response_bound [of tbl s i] by (auto split: if_splits)
  have lf: "safe_step tbl F (proc_crlf tbl env ?w2 c)"
    by (rule crlf_safe [OF d2 r2])
  have cr: "parser_inv tbl (set_state at_crlf ?w2)"
  proof (cases r)
    case None
    then show ?thesis using d by (intro idle_inv) simp_all
  next
    case (Some i)
    then show ?thesis using d2 r2 [of i] by (intro busy_inv [where i = i]) simp_all
  qed
  have keep: "parser_inv tbl (set_state at_response (append c w))"
    using d n by (intro idle_inv) simp_all
  show ?thesis
    using lf cr keep parse_error_inv [OF d] by (auto simp: proc_response_def lk(1) Let_def)
qed

lemma add_digit_safe:
  assumes "data_ok w" "isdigit c" "parse_state (serial w) \<in> {at_link_id, at_number}"
  shows "(\<exists>n. add_digit w c = Inr (set_number n w) \<and> 0 \<le> n \<and> n < 2 ^ 31) \<or>
    (add_digit w c = Inl Signed_overflow \<and> at_fault w c Signed_overflow)"
proof -
  have "0 \<le> number (serial w)" using assms(1) by (simp add: data_ok_def)
  with digit_val_bounds [OF assms(2)] long_number [OF assms(3,2)] show ?thesis
    by (cases "number (serial w) * 10 + digit_val c < 2 ^ 31")
      (auto simp: add_digit_def Let_def int_ok_def int_add_def intro: exI [of _ "number (serial w) * 10 + digit_val c"])
qed

lemma set_number_ok: "data_ok w \<Longrightarrow> 0 \<le> n \<Longrightarrow> n < 2 ^ 31 \<Longrightarrow> data_ok (set_number n w)"
  by (simp add: data_ok_def esp_upd text_ok_def)

lemma set_number_fields [simp]:
  "parse_state (serial (set_number n w)) = parse_state (serial w)"
  "response (serial (set_number n w)) = response (serial w)"
  "params (serial (set_number n w)) = params (serial w)"
  "param_pos (serial (set_number n w)) = param_pos (serial w)"
  by (simp_all add: esp_upd)

lemma set_state_same: "parse_state (serial w) = st \<Longrightarrow> set_state st w = w"
  by (simp add: esp_upd)

lemma link_id_safe:
  assumes "parser_inv tbl w" "parse_state (serial w) = at_link_id"
  shows "safe_step tbl (at_fault w c) (proc_link_id w c)"
proof -
  note d = parser_invD(1) [OF assms(1)]
  have n: "response (serial w) = None" using parser_invD(4) [OF assms(1)] assms(2) by simp
  have digit: "safe_step tbl (at_fault w c) (proc_link_id w c)" if "isdigit c"
  proof -
    have "parser_inv tbl (set_number m w)" if "0 \<le> m" "m < 2 ^ 31" for m
      using set_number_ok [OF d that] n assms(2) by (intro idle_inv) simp_all
    with that add_digit_safe [OF d that] assms(2) show ?thesis
      by (auto simp: proc_link_id_def set_state_same)
  qed
  let ?w1 = "set_state at_response (set_string_pos 0
         (upd_params (\<lambda>p. p\<lparr>link_id := number (serial w)\<rparr>) (reset_params w)))"
  have "data_ok (upd_params (\<lambda>p. p\<lparr>link_id := number (serial w)\<rparr>) (reset_params w))"
    using data_ok_frame(7) [OF d] by (simp add: data_ok_def esp_upd params_ok_def text_ok_def)
  moreover have "response (serial ?w1) = None" using n by (simp add: esp_upd reset_params_def)
  ultimately have "parser_inv tbl ?w1" by (intro idle_inv) simp_all
  with digit d parse_error_inv show ?thesis
    by (cases "isdigit c") (auto simp: proc_link_id_def)
qed

text \<open>The states that take a parameter hold a response.\<close>

lemma parameter_move:
  assumes "parser_inv tbl w" "parameter_state (parse_state (serial w))"
    and "data_ok w'" "response (serial w') = response (serial w)" "params (serial w') = params (serial w)"
    "param_pos (serial w') = param_pos (serial w)"
    "parameter_state (parse_state (serial w')) \<or> parse_state (serial w') = at_crlf"
  shows "parser_inv tbl w'"
proof -
  from parser_invD(3) [OF assms(1,2)] obtain i where "response (serial w) = Some i" "i < length tbl"
    "ap_status_count (par w) = 0" "param_pos (serial w) \<le> 7" by blast
  with assms(3-) show ?thesis by (intro busy_inv [where i = i]) simp_all
qed

lemma start_text_ok:
  "data_ok w \<Longrightarrow>
   data_ok (upd_serial (\<lambda>s. s\<lparr>string_pos := 0, string_buf := (string_buf s)[0 := NUL]\<rparr>) w)"
  by (simp add: data_ok_def esp_upd text_ok_def)

lemma parameter_safe:
  assumes "parser_inv tbl w" "parse_state (serial w) = at_parameter"
  shows "safe_step tbl F (proc_parameter w c)"
proof -
  note d = parser_invD(1) [OF assms(1)]
  have ps: "parameter_state (parse_state (serial w))" using assms(2) by (simp add: parameter_state_def)
  note move = parameter_move [OF assms(1) ps]
  have num: "parser_inv tbl (set_number (digit_val c) (set_state at_number w))" if "isdigit c"
    using d digit_val_bounds [OF that]
    by (intro move set_number_ok) (simp_all add: parameter_state_def)
  have str: "parser_inv tbl (set_state at_string_str
         (upd_serial (\<lambda>s. s\<lparr>string_pos := 0, string_buf := (string_buf s)[0 := NUL]\<rparr>) w))"
  proof (rule move)
    show "data_ok (set_state at_string_str
         (upd_serial (\<lambda>s. s\<lparr>string_pos := 0, string_buf := (string_buf s)[0 := NUL]\<rparr>) w))"
      by (simp only: data_ok_frame start_text_ok [OF d])
  qed (simp_all add: parameter_state_def esp_upd)
  have line: "parser_inv tbl (set_state at_line_text (start_string c w))"
    using d by (intro move) (simp_all add: parameter_state_def)
  show ?thesis
    using num str line parse_error_inv [OF d] by (auto simp: proc_parameter_def)
qed

lemma next_number_safe:
  assumes "parser_inv tbl w" "parse_state (serial w) = at_number" "\<not> isdigit c"
    and cont: "\<And>w1 i. data_ok w1 \<Longrightarrow> response (serial w1) = Some i \<Longrightarrow> i < length tbl \<Longrightarrow>
      ap_status_count (par w1) = 0 \<Longrightarrow> param_pos (serial w1) \<le> 7 \<Longrightarrow> safe_step tbl (at_fault w c) (k w1)"
  shows "safe_step tbl (at_fault w c) (accept (call_next tbl env w at_param_number (VNum n)) k)"
proof -
  have ps: "parameter_state (parse_state (serial w))" using assms(2) by (simp add: parameter_state_def)
  from parser_invD(3) [OF assms(1) ps] obtain i where i: "response (serial w) = Some i" "i < length tbl"
    "ap_status_count (par w) = 0" "param_pos (serial w) \<le> 7" by blast
  show ?thesis
    by (rule call_next_safe [OF parser_invD(1) [OF assms(1)] i])
      (use number_as_text [OF assms(2,3)] cont i(2) in auto)
qed

lemma next_text_safe:
  assumes "parser_inv tbl w" "parse_state (serial w) \<in> {at_string_edq, at_ipaddr, at_line_text}"
    and cont: "\<And>w1 i. data_ok w1 \<Longrightarrow> response (serial w1) = Some i \<Longrightarrow> i < length tbl \<Longrightarrow>
      ap_status_count (par w1) = 0 \<Longrightarrow> param_pos (serial w1) \<le> 7 \<Longrightarrow> safe_step tbl (at_fault w c) (k w1)"
  shows "safe_step tbl (at_fault w c) (accept (call_next tbl env (append NUL w) type VStr) k)"
proof -
  have ps: "parameter_state (parse_state (serial w))" using assms(2) by (auto simp: parameter_state_def)
  from parser_invD(3) [OF assms(1) ps] obtain i where i: "response (serial w) = Some i" "i < length tbl"
    "ap_status_count (par w) = 0" "param_pos (serial w) \<le> 7" by blast
  obtain s where s: "c_string (string_buf (serial (append NUL w))) = Inr s"
    using append_NUL_string [OF parser_invD(2) [OF assms(1)]] by blast
  have d: "data_ok (append NUL w)" using parser_invD(1) [OF assms(1)] by simp
  have fault: "at_fault w c u" if "u = Wild_pointer \<and> VStr \<noteq> VStr \<or>
      VStr = VStr \<and> (c_string (string_buf (serial (append NUL w))) = Inl u \<or>
        u = Buffer_overflow \<and> (\<exists>s. c_string (string_buf (serial (append NUL w))) = Inr s \<and> ssid_size \<le> length s))" for u
    using that s long_ssid [OF assms(2) s, of c] by auto
  show ?thesis
    by (rule call_next_safe [OF d, where i = i]) (use fault cont i in auto)
qed

lemma goto_parameter_safe:
  "data_ok w1 \<Longrightarrow> response (serial w1) = Some i \<Longrightarrow> i < length tbl \<Longrightarrow> ap_status_count (par w1) = 0 \<Longrightarrow>
   param_pos (serial w1) \<le> 7 \<Longrightarrow> st = at_crlf \<or> parameter_state st \<Longrightarrow> safe_step tbl F (goto st w1)"
  unfolding goto_def safe_step_simps by (rule busy_inv [where i = i]) auto

lemma next_crlf_safe:
  assumes "data_ok w1" "response (serial w1) = Some i" "i < length tbl" "ap_status_count (par w1) = 0"
    "param_pos (serial w1) \<le> 7"
  shows "safe_step tbl F (if c = LF then proc_crlf tbl env w1 c else goto at_crlf w1)"
  using crlf_safe [OF assms(1), of F c] goto_parameter_safe [OF assms, of at_crlf F] assms by auto

lemma number_safe:
  assumes "parser_inv tbl w" "parse_state (serial w) = at_number"
  shows "safe_step tbl (at_fault w c) (proc_number tbl env w c)"
proof (cases "isdigit c")
  case True
  note d = parser_invD(1) [OF assms(1)]
  have ps: "parameter_state (parse_state (serial w))" using assms(2) by (simp add: parameter_state_def)
  have "parser_inv tbl (set_number m w)" if "0 \<le> m" "m < 2 ^ 31" for m
    using set_number_ok [OF d that] ps by (intro parameter_move [OF assms(1) ps]) simp_all
  with True add_digit_safe [OF d True] assms(2) show ?thesis
    by (auto simp: proc_number_def set_state_same)
next
  case False
  note d = parser_invD(1) [OF assms(1)]
  have ps: "parameter_state (parse_state (serial w))" using assms(2) by (simp add: parameter_state_def)
  let ?n = "number (serial w)"
  have len: "length (dec_int ?n @ ''.'') \<le> 11"
    using dec_int_number_length [of ?n] d by (simp add: data_ok_def)
  have dot: "safe_step tbl (at_fault w c) (cbind (print_string (dec_int ?n @ ''.'') w) (\<lambda>w1. Inr (False, set_state at_ipaddr w1)))"
  proof -
    let ?w = "upd_serial (\<lambda>s. s\<lparr>string_buf := (dec_int ?n @ ''.'') @ NUL # drop (Suc (length (dec_int ?n @ ''.''))) (string_buf s),
                 string_pos := length (dec_int ?n @ ''.'')\<rparr>) w"
    have "data_ok ?w" using d len by (simp add: data_ok_def esp_upd text_ok_def)
    then have "data_ok (set_state at_ipaddr ?w)" by (simp only: data_ok_frame)
    then have "parser_inv tbl (set_state at_ipaddr ?w)"
      by (intro parameter_move [OF assms(1) ps]) (simp_all add: parameter_state_def esp_upd)
    then show ?thesis using len by (simp add: print_string_def)
  qed
  have comma: "safe_step tbl (at_fault w c) (accept (call_next tbl env w at_param_number (VNum ?n)) (goto at_parameter))"
    by (rule next_number_safe [OF assms False])
      (auto intro!: goto_parameter_safe simp: parameter_state_def)
  have colon: "safe_step tbl (at_fault w c) (accept (call_next tbl env w at_param_number (VNum ?n)) (\<lambda>w1.
      cbind (call_exec tbl env w1) (\<lambda>w2. Inr (True, set_response None (set_string_pos 0 w2)))))"
  proof (rule next_number_safe [OF assms False])
    fix w1 i
    assume w1: "data_ok w1" "response (serial w1) = Some i" "i < length tbl" "ap_status_count (par w1) = 0"
    from call_exec_safe [OF w1(1-3)] w1(4) obtain w2 where "call_exec tbl env w1 = Inr w2" "data_ok w2"
      "parse_state (serial w2) = at_none \<or> parse_state (serial w2) = at_receive_data \<and> counters_ok (cur w2)" by auto
    then show "safe_step tbl (at_fault w c) (cbind (call_exec tbl env w1) (\<lambda>w2. Inr (True, set_response None (set_string_pos 0 w2))))"
      by (simp add: done_inv)
  qed
  have crlf: "safe_step tbl (at_fault w c) (accept (call_next tbl env w at_param_number (VNum ?n)) (\<lambda>w1.
      if c = LF then proc_crlf tbl env w1 c else goto at_crlf w1))"
    by (rule next_number_safe [OF assms False]) (rule next_crlf_safe)
  show ?thesis
    using False dot comma colon crlf parse_error_inv [OF d]
    by (auto simp: proc_number_def Let_def)
qed

lemma text_states_safe:
  assumes "parser_inv tbl w"
  shows "parse_state (serial w) = at_string_str \<Longrightarrow> safe_step tbl F (proc_string_str w c)"
    "parse_state (serial w) = at_string_esc \<Longrightarrow> safe_step tbl F (proc_string_esc w c)"
  using parser_invD(1) [OF assms] parameter_move [OF assms]
  by (auto simp: proc_string_str_def proc_string_esc_def parameter_state_def)

lemma string_edq_safe:
  assumes "parser_inv tbl w" "parse_state (serial w) = at_string_edq"
  shows "safe_step tbl (at_fault w c) (proc_string_edq tbl env w c)"
proof -
  have st: "parse_state (serial w) \<in> {at_string_edq, at_ipaddr, at_line_text}" using assms(2) by simp
  have "safe_step tbl (at_fault w c) (accept (call_next tbl env (append NUL w) at_param_string VStr) (goto st'))"
    if "st' = at_crlf \<or> parameter_state st'" for st'
    by (rule next_text_safe [OF assms(1) st]) (rule goto_parameter_safe, use that in auto)
  from this [of at_parameter] this [of at_crlf] parse_error_inv [OF parser_invD(1) [OF assms(1)]]
  show ?thesis by (auto simp: proc_string_edq_def parameter_state_def)
qed

lemma ipaddr_safe:
  assumes "parser_inv tbl w" "parse_state (serial w) = at_ipaddr"
  shows "safe_step tbl (at_fault w c) (proc_ipaddr tbl env w c)"
proof -
  have st: "parse_state (serial w) \<in> {at_string_edq, at_ipaddr, at_line_text}" using assms(2) by simp
  have ps: "parameter_state (parse_state (serial w))" using assms(2) by (simp add: parameter_state_def)
  have "safe_step tbl (at_fault w c) (accept (call_next tbl env (append NUL w) at_param_string VStr) (goto at_parameter))"
    by (rule next_text_safe [OF assms(1) st]) (rule goto_parameter_safe, auto simp: parameter_state_def)
  moreover have "safe_step tbl (at_fault w c) (goto at_ipaddr (append c w))"
    unfolding goto_def safe_step_simps using parser_invD(1) [OF assms(1)]
    by (intro parameter_move [OF assms(1) ps]) (simp_all add: parameter_state_def)
  ultimately show ?thesis
    using parse_error_inv [OF parser_invD(1) [OF assms(1)]] by (auto simp: proc_ipaddr_def)
qed

lemma line_text_safe:
  assumes "parser_inv tbl w" "parse_state (serial w) = at_line_text"
  shows "safe_step tbl (at_fault w c) (proc_line_text tbl env w c)"
proof -
  have st: "parse_state (serial w) \<in> {at_string_edq, at_ipaddr, at_line_text}" using assms(2) by simp
  have ps: "parameter_state (parse_state (serial w))" using assms(2) by (simp add: parameter_state_def)
  have "safe_step tbl (at_fault w c) (accept (call_next tbl env (append NUL w) at_param_symbol VStr)
      (\<lambda>w1. if c = LF then proc_crlf tbl env w1 c else goto at_crlf w1))"
    by (rule next_text_safe [OF assms(1) st]) (rule next_crlf_safe)
  moreover have "safe_step tbl (at_fault w c) (goto at_line_text (append c w))"
    unfolding goto_def safe_step_simps using parser_invD(1) [OF assms(1)]
    by (intro parameter_move [OF assms(1) ps]) (simp_all add: parameter_state_def)
  ultimately show ?thesis
    using parse_error_inv [OF parser_invD(1) [OF assms(1)]] by (auto simp: proc_line_text_def)
qed

subsection \<open>Payload bytes\<close>

lemma ring_put_cases:
  assumes "ring_ok k"
  shows "(\<exists>k'. ring_put k c = Inr (Some k') \<and> live k \<and> live k' \<and> conn_id k' = conn_id k \<and> used k' = used k \<and>
      rx_contents k' = rx_contents k @ [c]) \<or>
    ring_put k c = Inr None \<or>
    (\<not> live k \<and> ring_put k c \<in> {Inl Null_pointer, Inl Freed_pointer})"
proof (cases "live k")
  case True
  show ?thesis
  proof (cases "fill k < rx_capacity")
    case room: True
    from ring_put_room [OF True room, of c] True show ?thesis by (elim exE conjE) auto
  next
    case False
    with fill_less [of k] have "fill k = rx_capacity" by simp
    with ring_put_full [OF assms] show ?thesis by simp
  qed
next
  case False
  with assms have "rx_buff k = Rx_null \<or> rx_buff k = Rx_freed" by (cases "rx_buff k") (auto simp: live_def)
  with False show ?thesis by (auto simp: ring_put_def Let_def)
qed

lemma store_byte_safe:
  assumes d: "data_ok w" and l: "0 \<le> lost (cur w)" "lost (cur w) \<le> 5000"
  shows "(\<exists>ks n. store_byte w c = Inr (w\<lparr>connections := ks, serial := (serial w)\<lparr>current_state := (cur w)\<lparr>lost := n\<rparr>\<rparr>\<rparr>) \<and>
      conns_ok ks \<and> n \<in> {lost (cur w), lost (cur w) + 1}) \<or>
    (\<exists>u i. store_byte w c = Inl u \<and> get_connection (connections w) (link_id (cur w)) = Some i \<and>
      \<not> live (connections w ! i) \<and> u \<in> {Null_pointer, Freed_pointer})"
proof -
  have cs: "conns_ok (connections w)" using d by (simp add: data_ok_def)
  have add: "int_add (lost (cur w)) 1 = Inr (lost (cur w) + 1)" using l by (simp add: int_add_def int_ok_def)
  have lose: "\<exists>ks n. upd_current (\<lambda>p. p\<lparr>lost := lost (cur w) + 1\<rparr>) w
      = w\<lparr>connections := ks, serial := (serial w)\<lparr>current_state := (cur w)\<lparr>lost := n\<rparr>\<rparr>\<rparr> \<and>
      conns_ok ks \<and> n \<in> {lost (cur w), lost (cur w) + 1}"
    using cs by (intro exI [of _ "connections w"] exI [of _ "lost (cur w) + 1"]) (simp add: esp_upd)
  show ?thesis
  proof (cases "get_connection (connections w) (link_id (cur w))")
    case None
    with lose show ?thesis by (simp add: store_byte_def add)
  next
    case (Some i)
    with get_connection_ok [OF cs, of "link_id (cur w)"] have "i < 5" by (auto split: if_splits)
    with conns_ok_length [OF cs] have i: "i < length (connections w)" by simp
    with cs have "ring_ok (connections w ! i)" by (simp add: conns_ok_def)
    from ring_put_cases [OF this, of c] consider
        (stored) k where "ring_put (connections w ! i) c = Inr (Some k)" "live k" "conn_id k = conn_id (connections w ! i)"
      | (full) "ring_put (connections w ! i) c = Inr None"
      | (none) u where "ring_put (connections w ! i) c = Inl u" "\<not> live (connections w ! i)" "u \<in> {Null_pointer, Freed_pointer}"
      by (elim disjE exE conjE) auto
    then show ?thesis
    proof cases
      case stored
      have "conns_ok ((connections w)[i := k])"
        by (rule conns_ok_update [OF cs i]) (use stored in \<open>simp_all add: live_ring_ok\<close>)
      moreover have "store_byte w c = Inr (w\<lparr>connections := (connections w)[i := k],
          serial := (serial w)\<lparr>current_state := (cur w)\<lparr>lost := lost (cur w)\<rparr>\<rparr>\<rparr>)"
        by (simp add: store_byte_def Some stored)
      ultimately show ?thesis by blast
    next
      case full
      with lose Some show ?thesis by (simp add: store_byte_def add)
    next
      case none
      with Some show ?thesis by (simp add: store_byte_def)
    qed
  qed
qed

lemma receive_data_safe:
  assumes "parser_inv tbl w" "parse_state (serial w) = at_receive_data"
  shows "safe_step tbl (at_fault w c) (proc_receive_data w c)"
proof -
  have d: "data_ok w" and ct: "counters_ok (cur w)" and n: "response (serial w) = None"
    using parser_invD(1,4,6) [OF assms(1)] assms(2) by simp_all
  let ?w = "upd_current (\<lambda>p. p\<lparr>received := received (cur w) + 1\<rparr>) w"
  have add: "int_add (received (cur w)) 1 = Inr (received (cur w) + 1)"
    and l: "0 \<le> lost (cur ?w)" "lost (cur ?w) \<le> 5000"
    using d ct by (auto simp: int_add_def int_ok_def counters_ok_def data_ok_def esp_upd)
  have d1: "data_ok ?w" using d by (simp add: data_ok_def esp_upd text_ok_def)
  from store_byte_safe [OF d1 l, of c] show ?thesis
  proof (elim disjE exE conjE)
    fix ks m
    assume s: "store_byte ?w c = Inr (?w\<lparr>connections := ks, serial := (serial ?w)\<lparr>current_state := (cur ?w)\<lparr>lost := m\<rparr>\<rparr>\<rparr>)"
      and ks: "conns_ok ks" and m: "m \<in> {lost (cur ?w), lost (cur ?w) + 1}"
    let ?w1 = "?w\<lparr>connections := ks, serial := (serial ?w)\<lparr>current_state := (cur ?w)\<lparr>lost := m\<rparr>\<rparr>\<rparr>"
    have d2: "data_ok ?w1" using d1 ks by (simp add: data_ok_def esp_upd text_ok_def)
    have fin: "parser_inv tbl (set_kind kind_received (set_state at_none ?w1))"
      using d2 n by (simp add: parser_inv_def response_ok_def state_ok_def parameter_state_def)
        (simp add: esp_upd parameter_state_def)
    have more: "parser_inv tbl ?w1" if "\<not> received (cur ?w1) \<ge> data_length (cur ?w1)"
    proof -
      have "counters_ok (cur ?w1)"
        using that ct m by (auto simp: counters_ok_def esp_upd)
      moreover have "parse_state (serial ?w1) = at_receive_data" "response (serial ?w1) = None"
        using assms(2) n by (simp_all add: esp_upd)
      ultimately show ?thesis
        using d2 by (simp add: parser_inv_def response_ok_def state_ok_def parameter_state_def)
    qed
    from fin more show ?thesis unfolding proc_receive_data_def add cbind_simps s by simp
  next
    fix u i
    assume s: "store_byte ?w c = Inl u" and "get_connection (connections ?w) (link_id (cur ?w)) = Some i"
      "\<not> live (connections ?w ! i)" "u \<in> {Null_pointer, Freed_pointer}"
    then have "at_fault w c u" using assms(2) by (intro no_ring [where i = i]) (simp_all add: esp_upd)
    with s show ?thesis by (simp add: proc_receive_data_def add)
  qed
qed

lemma step_safe:
  assumes "parser_inv tbl w" and "\<And>i. get_response tbl ''>'' = Some i \<Longrightarrow> res_name (tbl ! i) = ''>''"
  shows "safe_step tbl (at_fault w c) (proc_atc_res tbl env w c)"
proof -
  have "parse_state (serial w) \<noteq> at_symbol" "parse_state (serial w) \<noteq> at_cr"
    using assms(1) by (simp_all add: parser_inv_def state_ok_def)
  moreover have "safe_step tbl (at_fault w c) (proc_crlf tbl env w c)"
    by (rule crlf_safe [OF parser_invD(1,5) [OF assms(1)]])
  ultimately show ?thesis
    using none_safe [OF assms(1) _ assms(2)] informtion_safe [OF assms(1)] response_safe [OF assms(1)]
      link_id_safe [OF assms(1)] parameter_safe [OF assms(1)] number_safe [OF assms(1)]
      text_states_safe [OF assms(1)] string_edq_safe [OF assms(1)] ipaddr_safe [OF assms(1)]
      line_text_safe [OF assms(1)] receive_data_safe [OF assms(1)]
    by (cases "parse_state (serial w)") (simp_all add: proc_atc_res_def)
qed

end

end
