(* ===== verification/Esp_Table.thy ===== *)
theory Esp_Table
  imports Esp_Safety
begin

text \<open>
  The driver's own response table meets the contract of the parser: each \<open>at_*_set_param\<close>
  writes only the parameter block and fails only in the ways the contract allows, and each
  \<open>at_*_exec\<close> keeps the invariant.  With the interpretation, the safety of the parser is a
  property of the code's table.
\<close>

section \<open>Parameter functions\<close>

definition next_outcome :: "esp \<Rightarrow> int \<Rightarrow> at_value \<Rightarrow> (bool \<times> esp) outcome \<Rightarrow> bool" where
  "next_outcome w n v r \<longleftrightarrow>
    (case r of
       Inr (b, w') \<Rightarrow> \<exists>p. w' = upd_params (\<lambda>_. p) w \<and> params_ok p \<and>
         ap_status_count p = ap_status_count (par w) \<and> (b \<longrightarrow> n \<le> 7)
     | Inl u \<Rightarrow> u = Wild_pointer \<and> v \<noteq> VStr \<or>
         v = VStr \<and> (c_string (string_buf (serial w)) = Inl u \<or>
           u = Buffer_overflow \<and> (\<exists>s. c_string (string_buf (serial w)) = Inr s \<and> ssid_size \<le> length s)))"

lemma next_refuse: "data_ok w \<Longrightarrow> next_outcome w n v (Inr (False, w))"
  unfolding next_outcome_def
  by (simp, intro exI [of _ "par w"]) (simp add: data_ok_def esp_upd)

lemma next_store:
  "params_ok (f (par w)) \<Longrightarrow> ap_status_count (f (par w)) = ap_status_count (par w) \<Longrightarrow> b \<longrightarrow> n \<le> 7 \<Longrightarrow>
   next_outcome w n v (Inr (b, upd_params f w))"
  unfolding next_outcome_def
  by (simp, intro exI [of _ "f (par w)"]) (simp add: esp_upd)

lemma next_text:
  assumes "data_ok w" "\<And>s. v = VStr \<Longrightarrow> c_string (string_buf (serial w)) = Inr s \<Longrightarrow> length s < string_size \<Longrightarrow>
    next_outcome w n v (k s)"
  shows "next_outcome w n v (cbind (text_of w v) k)"
proof (cases v)
  case (VNum m)
  then show ?thesis by (simp add: text_of_def next_outcome_def)
next
  case VStr
  show ?thesis
  proof (cases "c_string (string_buf (serial w))")
    case (Inl u)
    with VStr show ?thesis by (simp add: text_of_def next_outcome_def)
  next
    case (Inr s)
    from c_string_length [OF Inr] assms(1) have "length s < string_size"
      by (simp add: data_ok_def text_ok_def)
    with assms(2) VStr Inr show ?thesis by (simp add: text_of_def)
  qed
qed

lemma next_copy:
  assumes "v = VStr" "c_string (string_buf (serial w)) = Inr s" "length s < string_size"
    "n = ssid_size \<or> n = string_size"
    "length s < n \<Longrightarrow> next_outcome w m v (k s)"
  shows "next_outcome w m v (cbind (strcpy_into n s) k)"
  using assms by (auto simp: strcpy_into_def next_outcome_def not_less)

lemma next_set_ip:
  assumes "data_ok w" "\<And>a. params_ok (put a (par w))" "\<And>a. ap_status_count (put a (par w)) = ap_status_count (par w)" "n \<le> 7"
  shows "next_outcome w n v (set_ip w v put)"
  unfolding set_ip_def using assms
  by (intro next_text) (auto split: option.splits intro: next_refuse next_store)

lemma next_set_mac:
  assumes "data_ok w" "\<And>a. params_ok (put a (par w))" "\<And>a. ap_status_count (put a (par w)) = ap_status_count (par w)" "n \<le> 7"
  shows "next_outcome w n v (set_mac w v put)"
  unfolding set_mac_def using assms
  by (intro next_text) (auto split: option.splits intro: next_refuse next_store)

lemmas next_rules = next_refuse next_store next_text next_set_ip next_set_mac next_copy

definition next_good :: "(esp_env \<Rightarrow> esp \<Rightarrow> int \<Rightarrow> at_param_type \<Rightarrow> at_value \<Rightarrow> (bool \<times> esp) outcome) \<Rightarrow> bool" where
  "next_good f \<longleftrightarrow> (\<forall>env w n type v. data_ok w \<longrightarrow> next_outcome w n v (f env w n type v))"

lemma params_ok_upd [simp]:
  "params_ok (p\<lparr>connection_mode := x_connection_mode\<rparr>) = params_ok p"
  "params_ok (p\<lparr>symbol_kind := x_symbol_kind\<rparr>) = params_ok p"
  "params_ok (p\<lparr>ap_ip := x_ap_ip\<rparr>) = params_ok p"
  "params_ok (p\<lparr>ap_mac := x_ap_mac\<rparr>) = params_ok p"
  "params_ok (p\<lparr>sta_ip := x_sta_ip\<rparr>) = params_ok p"
  "params_ok (p\<lparr>sta_mac := x_sta_mac\<rparr>) = params_ok p"
  "params_ok (p\<lparr>ap_gateway := x_ap_gateway\<rparr>) = params_ok p"
  "params_ok (p\<lparr>ap_netmask := x_ap_netmask\<rparr>) = params_ok p"
  "params_ok (p\<lparr>sta_gateway := x_sta_gateway\<rparr>) = params_ok p"
  "params_ok (p\<lparr>sta_netmask := x_sta_netmask\<rparr>) = params_ok p"
  "params_ok (p\<lparr>date_time := x_date_time\<rparr>) = params_ok p"
  "params_ok (p\<lparr>baseid := x_baseid\<rparr>) = params_ok p"
  "params_ok (p\<lparr>channel := x_channel\<rparr>) = params_ok p"
  "params_ok (p\<lparr>rssi := x_rssi\<rparr>) = params_ok p"
  "params_ok (p\<lparr>wifi_mode := x_wifi_mode\<rparr>) = params_ok p"
  "params_ok (p\<lparr>config := x_config\<rparr>) = params_ok p"
  "params_ok (p\<lparr>link_id := x_link_id\<rparr>) = params_ok p"
  "params_ok (p\<lparr>remote_ip := x_remote_ip\<rparr>) = params_ok p"
  "params_ok (p\<lparr>remote_port := x_remote_port\<rparr>) = params_ok p"
  by (simp_all add: params_ok_def)

lemma params_ok_bounded:
  "params_ok p \<Longrightarrow> length s < ssid_size \<Longrightarrow> params_ok (p\<lparr>ssid := s\<rparr>)"
  "params_ok p \<Longrightarrow> 0 \<le> n \<Longrightarrow> n \<le> int AT_CONNECTION_RX_BUFF_SIZE \<Longrightarrow> params_ok (p\<lparr>data_length := n\<rparr>)"
  by (simp_all add: params_ok_def)

lemma params_ok_par: "data_ok w \<Longrightarrow> params_ok (par w)"
  by (simp add: data_ok_def)

lemma next_good_addresses:
  "next_good at_cifsr_set_param" "next_good at_cipap_set_param" "next_good at_cipsta_set_param"
  unfolding next_good_def at_cifsr_set_param_def at_cipap_set_param_def at_cipsta_set_param_def
  by (auto intro!: next_refuse next_store next_set_ip next_set_mac intro: params_ok_par simp: symbol_kind_defs)

lemma next_good_modes: "next_good at_cipmux_set_param" "next_good at_cwmode_set_param"
  unfolding next_good_def at_cipmux_set_param_def at_cwmode_set_param_def
  by (auto intro!: next_refuse next_store intro: params_ok_par split: option.splits)

lemma next_good_sntp: "next_good at_cipsntptime_set_param"
  unfolding next_good_def at_cipsntptime_set_param_def tm_to_secs_eq
  by (auto intro!: next_refuse next_store next_text split: option.splits) (auto intro: params_ok_par)

lemma next_good_cwjap: "next_good at_cwjap_set_param"
  unfolding next_good_def at_cwjap_set_param_def
  by (auto intro!: next_refuse next_store next_text next_copy next_set_mac)
    (auto intro: params_ok_par params_ok_bounded)

lemma upd_ap_ok:
  "params_ok (let i = nat (ap_status_count p) in p\<lparr>ap_status := (ap_status p)[i := f (ap_status p ! i)]\<rparr>) = params_ok p"
  by (simp add: params_ok_def Let_def)

lemma next_upd_ap: "data_ok w \<Longrightarrow> n \<le> 7 \<Longrightarrow> next_outcome w n v (Inr (True, upd_ap f w))"
  unfolding upd_ap_def using params_ok_par [of w]
  by (intro next_store) (simp_all add: upd_ap_ok Let_def, simp add: params_ok_def)

lemma next_good_cwlap: "next_good at_cwlap_set_param"
  unfolding next_good_def at_cwlap_set_param_def
  by (auto intro!: next_refuse next_upd_ap next_text next_copy split: option.splits)

lemma next_upd_config: "data_ok w \<Longrightarrow> b \<longrightarrow> n \<le> 7 \<Longrightarrow> next_outcome w n v (Inr (b, upd_config f w))"
  unfolding upd_config_def using params_ok_par [of w]
  by (intro next_store) (simp_all add: params_ok_def)

lemma next_good_cwsap: "next_good at_cwsap_set_param"
  unfolding next_good_def at_cwsap_set_param_def
  by (auto intro!: next_refuse next_upd_config next_text next_copy split: option.splits)

lemma next_good_ipd: "next_good at_ipd_set_param"
  unfolding next_good_def at_ipd_set_param_def
  by (auto intro!: next_refuse next_store next_set_ip) (auto intro: params_ok_par params_ok_bounded)

lemma next_good_plain:
  "next_good at_already_connect_set_param" "next_good at_error_set_param" "next_good at_fail_set_param"
  "next_good at_ok_set_param" "next_good at_send_ok_set_param" "next_good at_wifi_connected_set_param"
  "next_good at_wifi_disconnect_set_param" "next_good at_wifi_got_ip_set_param" "next_good at_busy_set_param"
  "next_good at_ready_set_param" "next_good at_progress_set_param" "next_good at_connect_set_param"
  "next_good at_closed_set_param"
  by (simp_all add: next_good_def next_refuse at_already_connect_set_param_def at_error_set_param_def
    at_fail_set_param_def at_ok_set_param_def at_send_ok_set_param_def at_wifi_connected_set_param_def
    at_wifi_disconnect_set_param_def at_wifi_got_ip_set_param_def at_busy_set_param_def
    at_ready_set_param_def at_progress_set_param_def at_connect_set_param_def at_closed_set_param_def)

section \<open>Execution functions\<close>

definition exec_good :: "string \<Rightarrow> (esp_env \<Rightarrow> esp \<Rightarrow> int \<Rightarrow> (at_parse_state \<times> esp) outcome) \<Rightarrow> bool" where
  "exec_good name f \<longleftrightarrow> (\<forall>env w n. data_ok w \<longrightarrow> ap_status_count (par w) = 0 \<or> name = ''>'' \<longrightarrow>
     (\<exists>st w'. f env w n = Inr (st, w') \<and> data_ok w' \<and> (st = at_none \<or> st = at_receive_data \<and> counters_ok (cur w'))))"

lemma data_ok_upd_current:
  "data_ok w \<Longrightarrow> data_length (f (cur w)) = data_length (cur w) \<Longrightarrow> data_ok (upd_current f w)"
  by (simp add: data_ok_def esp_upd text_ok_def)

lemma exec_goodI: "(\<And>env w n. data_ok w \<Longrightarrow> \<exists>w'. f env w n = Inr (at_none, w') \<and> data_ok w') \<Longrightarrow> exec_good name f"
  unfolding exec_good_def by blast

lemma set_conn_state_ok:
  assumes "data_ok w"
  shows "data_ok (set_conn_state st w)"
proof -
  have cs: "conns_ok (connections w)" using assms by (simp add: data_ok_def)
  show ?thesis
  proof (cases "get_connection (connections w) (link_id (par w))")
    case None
    with assms show ?thesis by (simp add: set_conn_state_def)
  next
    case (Some i)
    with get_connection_ok [OF cs, of "link_id (par w)"] conns_ok_length [OF cs]
    have i: "i < length (connections w)" by (auto split: if_splits)
    with cs have k: "ring_ok (connections w ! i)" "used (connections w ! i) \<Longrightarrow> live (connections w ! i)"
      by (auto simp: conns_ok_def)
    have "conns_ok ((connections w)[i := (connections w ! i)\<lparr>conn_state := st\<rparr>])"
      by (rule conns_ok_update [OF cs i]) (use k in \<open>simp_all add: ring_ok_def live_def\<close>)
    with assms Some show ?thesis by (simp add: set_conn_state_def data_ok_def)
  qed
qed

lemma exec_good_values:
  "exec_good name at_cipmux_exec" "exec_good name at_cifsr_exec" "exec_good name at_cipap_exec"
  "exec_good name at_cipsta_exec" "exec_good name at_cwmode_exec" "exec_good name at_cwsap_exec"
  by (rule exec_goodI, simp add: at_cipmux_exec_def at_cifsr_exec_def at_cipap_exec_def at_cipsta_exec_def
    at_cwmode_exec_def at_cwsap_exec_def data_ok_upd_current)+

lemma exec_good_sntp: "exec_good name at_cipsntptime_exec"
proof (rule exec_goodI)
  fix env w n
  assume d: "data_ok w"
  have "data_ok (w'\<lparr>rtc := r\<rparr>) = data_ok w'" for w' r by (simp add: data_ok_def)
  with d show "\<exists>w'. at_cipsntptime_exec env w n = Inr (at_none, w') \<and> data_ok w'"
    by (simp add: at_cipsntptime_exec_def MINIMUM_YEAR_def tm_to_secs_eq data_ok_upd_current Let_def)
qed

lemma exec_good_cwjap: "exec_good name at_cwjap_exec"
proof (rule exec_goodI)
  fix env w n
  assume d: "data_ok w"
  then have "length (ssid (par w)) < ssid_size" by (simp add: data_ok_def params_ok_def)
  with d show "\<exists>w'. at_cwjap_exec env w n = Inr (at_none, w') \<and> data_ok w'"
    by (simp add: at_cwjap_exec_def strcpy_into_def data_ok_upd_current)
qed

lemma exec_good_cwlap: "exec_good ''+CWLAP'' at_cwlap_exec"
  by (simp add: exec_good_def at_cwlap_exec_def int_add_def int_ok_def)
    (simp add: data_ok_def esp_upd text_ok_def params_ok_def)

lemma exec_good_ipd: "exec_good name at_ipd_exec"
proof -
  have "data_ok w' \<and> counters_ok (cur w')"
    if "data_ok w" and "at_ipd_exec env w n = Inr (at_receive_data, w')" for env w n w'
    using that by (auto simp: at_ipd_exec_def data_ok_def esp_upd text_ok_def params_ok_def counters_ok_def)
  moreover have "\<exists>w'. at_ipd_exec env w n = Inr (at_receive_data, w')" for env w n
    by (simp add: at_ipd_exec_def)
  ultimately show ?thesis unfolding exec_good_def by blast
qed

lemma exec_good_plain:
  "exec_good name at_already_connect_exec" "exec_good name at_error_exec" "exec_good name at_fail_exec"
  "exec_good name at_ok_exec" "exec_good name at_send_ok_exec" "exec_good name at_wifi_connected_exec"
  "exec_good name at_wifi_disconnect_exec" "exec_good name at_wifi_got_ip_exec" "exec_good name at_busy_exec"
  "exec_good name at_ready_exec" "exec_good name at_progress_exec" "exec_good name at_connect_exec"
  "exec_good name at_closed_exec"
  by (rule exec_goodI, simp add: at_already_connect_exec_def at_error_exec_def at_fail_exec_def
    at_ok_exec_def at_send_ok_exec_def at_wifi_connected_exec_def at_wifi_disconnect_exec_def
    at_wifi_got_ip_exec_def at_busy_exec_def at_ready_exec_def at_progress_exec_def at_connect_exec_def
    at_closed_exec_def data_ok_upd_current set_conn_state_ok)+

section \<open>The table meets the contract\<close>

lemma table_good:
  "\<forall>r\<in>set response_table. next_good (next_parameter r) \<and> exec_good (res_name r) (exec_response r)"
  unfolding response_table_def entry_def
  by (simp add: next_good_addresses next_good_modes next_good_sntp next_good_cwjap next_good_cwlap
    next_good_cwsap next_good_ipd next_good_plain exec_good_values exec_good_sntp exec_good_cwjap
    exec_good_cwlap exec_good_ipd exec_good_plain)

interpretation at: response_handlers response_table env for env
proof unfold_locales
  fix i w n type v b w'
  assume i: "i < length response_table" and d: "data_ok w"
  from i table_good have "next_good (next_parameter (response_table ! i))" by simp
  with d have "next_outcome w n v (next_parameter (response_table ! i) env w n type v)"
    by (simp add: next_good_def)
  moreover assume "next_parameter (response_table ! i) env w n type v = Inr (b, w')"
  ultimately show "\<exists>p. w' = upd_params (\<lambda>_. p) w \<and> params_ok p \<and> ap_status_count p = ap_status_count (par w) \<and> (b \<longrightarrow> n \<le> 7)"
    by (simp add: next_outcome_def)
next
  fix i w n type v u
  assume i: "i < length response_table" and d: "data_ok w"
  from i table_good have "next_good (next_parameter (response_table ! i))" by simp
  with d have "next_outcome w n v (next_parameter (response_table ! i) env w n type v)"
    by (simp add: next_good_def)
  moreover assume "next_parameter (response_table ! i) env w n type v = Inl u"
  ultimately show "u = Wild_pointer \<and> v \<noteq> VStr \<or>
      v = VStr \<and> (c_string (string_buf (serial w)) = Inl u \<or>
        u = Buffer_overflow \<and> (\<exists>s. c_string (string_buf (serial w)) = Inr s \<and> ssid_size \<le> length s))"
    by (simp add: next_outcome_def)
next
  fix i w n
  assume i: "i < length response_table" and d: "data_ok w"
    and z: "ap_status_count (par w) = 0 \<or> res_name (response_table ! i) = ''>''"
  from i table_good have "exec_good (res_name (response_table ! i)) (exec_response (response_table ! i))" by simp
  with d z show "\<exists>st w'. exec_response (response_table ! i) env w n = Inr (st, w') \<and> data_ok w' \<and>
        (st = at_none \<or> st = at_receive_data \<and> counters_ok (cur w'))"
    unfolding exec_good_def by blast
qed

end
