(* ===== verification/Esp_Lines.thy ===== *)
theory Esp_Lines
  imports Esp_Table
begin

text \<open>
  Whole lines of the modem: what the receive handler has done after a name, a number, a quoted
  text, an address or a free text, each as a stage of the parser from which the next part goes
  on.  The stages compose to the answers the driver waits for.
\<close>

section \<open>Stages\<close>

abbreviation run :: "esp_env \<Rightarrow> esp \<Rightarrow> string \<Rightarrow> esp outcome" where
  "run env w cs \<equiv> esp_at_rx_handler response_table env w cs"

abbreviation step :: "esp_env \<Rightarrow> esp \<Rightarrow> char \<Rightarrow> (bool \<times> esp) outcome" where
  "step env w c \<equiv> proc_atc_res response_table env w c"

text \<open>
  \<open>stage w0 st r n P w\<close>: coming from \<open>w0\<close>, the parser is in state \<open>st\<close> with the response \<open>r\<close>,
  \<open>n\<close> parameters taken and the parameter block \<open>P\<close>; only text and number may differ besides.
\<close>

definition stage :: "esp \<Rightarrow> at_parse_state \<Rightarrow> nat option \<Rightarrow> int \<Rightarrow> esp_socket_state \<Rightarrow> esp \<Rightarrow> bool" where
  "stage w0 st r n P w \<longleftrightarrow> text_ok (serial w) \<and>
     w = w0\<lparr>serial := (serial w0)\<lparr>parse_state := st, response := r, param_pos := n, params := P,
        string_buf := string_buf (serial w), string_pos := string_pos (serial w), number := number (serial w)\<rparr>\<rparr>"

lemma stage_fields:
  assumes "stage w0 st r n P w"
  shows "text_ok (serial w)" "parse_state (serial w) = st" "response (serial w) = r"
    "param_pos (serial w) = n" "par w = P" "cur w = cur w0" "connections w = connections w0"
    "dtq w = dtq w0" "rtc w = rtc w0" "written w = written w0"
    "response_kind (serial w) = response_kind (serial w0)"
proof -
  from assms show "text_ok (serial w)" by (simp add: stage_def)
  from assms obtain b p m where w: "w = w0\<lparr>serial := (serial w0)\<lparr>parse_state := st, response := r,
        param_pos := n, params := P, string_buf := b, string_pos := p, number := m\<rparr>\<rparr>"
    unfolding stage_def by blast
  show "parse_state (serial w) = st" "response (serial w) = r"
    "param_pos (serial w) = n" "par w = P" "cur w = cur w0" "connections w = connections w0"
    "dtq w = dtq w0" "rtc w = rtc w0" "written w = written w0"
    "response_kind (serial w) = response_kind (serial w0)"
    by (simp_all add: w)
qed

text \<open>Only the fields a stage names, the text and the number, change.\<close>

lemma stage_move:
  assumes "stage w0 st r n P w" "text_ok (serial w')"
    "w' = w\<lparr>serial := (serial w)\<lparr>parse_state := st', response := r', param_pos := n', params := P',
        string_buf := buf, string_pos := pos, number := num\<rparr>\<rparr>"
  shows "stage w0 st' r' n' P' w'"
proof -
  from assms(1) obtain b p m where w: "w = w0\<lparr>serial := (serial w0)\<lparr>parse_state := st, response := r,
        param_pos := n, params := P, string_buf := b, string_pos := p, number := m\<rparr>\<rparr>"
    unfolding stage_def by blast
  show ?thesis using assms(2) unfolding stage_def assms(3) by (simp add: w)
qed

lemma stage_refl:
  assumes "text_ok (serial w)"
  shows "stage w (parse_state (serial w)) (response (serial w)) (param_pos (serial w)) (par w) w"
  using assms by (simp add: stage_def)

text \<open>A run of characters each of which leaves the response incomplete.\<close>

lemma run_Cons_False: "step env w c = Inr (False, w1) \<Longrightarrow> run env w (c # cs) = run env w1 cs"
  by simp

lemma run_trans: "run env w cs = Inr w1 \<Longrightarrow> run env w (cs @ ds) = run env w1 ds"
  by (simp add: rx_handler_append)

section \<open>Updates as stages\<close>

lemma stage_state:
  assumes "stage w0 st r n P w"
  shows "stage w0 st' r n P (set_state st' w)"
proof (rule stage_move [OF assms, where buf = "string_buf (serial (set_state st' w))" and pos = "string_pos (serial (set_state st' w))"
      and num = "number (serial (set_state st' w))"])
  show "text_ok (serial (set_state st' w))" using stage_fields(1) [OF assms] by (simp add: esp_upd text_ok_def)
qed (use stage_fields(2-5) [OF assms] in \<open>simp add: esp_upd\<close>)

lemma stage_append:
  assumes "stage w0 st r n P w"
  shows "stage w0 st r n P (append c w)"
proof (rule stage_move [OF assms, where buf = "string_buf (serial (append c w))"
      and pos = "string_pos (serial (append c w))" and num = "number (serial (append c w))"])
  show "text_ok (serial (append c w))" using stage_fields(1) [OF assms] by simp
qed (use stage_fields(2-5) [OF assms] in \<open>simp add: esp_upd append_char_def\<close>)

lemma stage_number:
  assumes "stage w0 st r n P w"
  shows "stage w0 st r n P (set_number m w)"
proof (rule stage_move [OF assms, where buf = "string_buf (serial (set_number m w))" and pos = "string_pos (serial (set_number m w))"
      and num = "number (serial (set_number m w))"])
  show "text_ok (serial (set_number m w))" using stage_fields(1) [OF assms] by (simp add: esp_upd text_ok_def)
qed (use stage_fields(2-5) [OF assms] in \<open>simp add: esp_upd\<close>)

lemma stage_start:
  assumes "stage w0 st r n P w"
  shows "stage w0 st r n P (start_string c w)"
proof (rule stage_move [OF assms, where buf = "string_buf (serial (start_string c w))" and pos = "string_pos (serial (start_string c w))"
      and num = "number (serial (start_string c w))"])
  show "text_ok (serial (start_string c w))" using stage_fields(1) [OF assms] by (simp add: esp_upd text_ok_def)
qed (use stage_fields(2-5) [OF assms] in \<open>simp add: esp_upd\<close>)

lemma stage_response:
  assumes "stage w0 st r n P w"
  shows "stage w0 st r' n P (set_response r' w)"
proof (rule stage_move [OF assms, where buf = "string_buf (serial (set_response r' w))" and pos = "string_pos (serial (set_response r' w))"
      and num = "number (serial (set_response r' w))"])
  show "text_ok (serial (set_response r' w))" using stage_fields(1) [OF assms] by (simp add: esp_upd text_ok_def)
qed (use stage_fields(2-5) [OF assms] in \<open>simp add: esp_upd\<close>)

lemma stage_reset:
  assumes "stage w0 st r n P w"
  shows "stage w0 st r 0 zero_params (reset_params w)"
proof (rule stage_move [OF assms, where buf = "string_buf (serial (reset_params w))" and pos = "string_pos (serial (reset_params w))"
      and num = "number (serial (reset_params w))"])
  show "text_ok (serial (reset_params w))" using stage_fields(1) [OF assms] by (simp add: esp_upd text_ok_def reset_params_def)
qed (use stage_fields(2-5) [OF assms] in \<open>simp add: esp_upd reset_params_def\<close>)

lemma stage_params:
  assumes "stage w0 st r n P w"
  shows "stage w0 st r n' P' (upd_serial (\<lambda>s. s\<lparr>param_pos := n', params := P'\<rparr>) w)"
proof (rule stage_move [OF assms, where buf = "string_buf (serial (upd_serial (\<lambda>s. s\<lparr>param_pos := n', params := P'\<rparr>) w))" and pos = "string_pos (serial (upd_serial (\<lambda>s. s\<lparr>param_pos := n', params := P'\<rparr>) w))"
      and num = "number (serial (upd_serial (\<lambda>s. s\<lparr>param_pos := n', params := P'\<rparr>) w))"])
  show "text_ok (serial (upd_serial (\<lambda>s. s\<lparr>param_pos := n', params := P'\<rparr>) w))" using stage_fields(1) [OF assms] by (simp add: esp_upd text_ok_def)
qed (use stage_fields(2-5) [OF assms] in \<open>simp add: esp_upd\<close>)

lemmas stage_upds = stage_state stage_append stage_number stage_start stage_response stage_reset

lemma holds_text_state [simp]:
  "holds_text (set_state st w) t = holds_text w t"
  "holds_text (set_response r w) t = holds_text w t"
  "holds_text (set_number m w) t = holds_text w t"
  by (simp_all add: holds_text_def esp_upd)

section \<open>Names\<close>

definition name_char :: "char \<Rightarrow> bool" where
  "name_char c \<longleftrightarrow> isalpha c \<or> isdigit c \<or> c = CHR '' ''"

lemma name_char_not:
  "name_char c \<Longrightarrow> c \<noteq> CHR '':'' \<and> c \<noteq> CHR '','' \<and> c \<noteq> CR \<and> c \<noteq> LF \<and> c \<noteq> CHR ''.'' \<and> c \<noteq> NUL"
  by (auto simp: name_char_def c_char)

lemma run_name:
  assumes "st = at_informtion \<or> st = at_response"
  shows "stage w0 st None n P w \<Longrightarrow> holds_text w t \<Longrightarrow> \<forall>c\<in>set cs. name_char c \<Longrightarrow>
   length t + length cs < string_size - 1 \<Longrightarrow>
   \<exists>w1. run env w cs = Inr w1 \<and> stage w0 st None n P w1 \<and> holds_text w1 (t @ cs)"
proof (induction cs arbitrary: w t)
  case Nil
  then show ?case by simp
next
  case (Cons c cs)
  let ?w = "set_state st (append c w)"
  have c: "name_char c" using Cons.prems by simp
  have s: "step env w c = Inr (False, ?w)"
    using assms stage_fields(2) [OF Cons.prems(1)] name_char_not [OF c] c
    by (auto simp: proc_atc_res_def proc_informtion_def proc_response_def name_char_def)
  have "stage w0 st None n P ?w" by (rule stage_state [OF stage_append [OF Cons.prems(1)]])
  moreover have "holds_text ?w (t @ [c])" using Cons.prems by (simp add: holds_text_append)
  ultimately obtain w1 where "run env ?w cs = Inr w1" "stage w0 st None n P w1" "holds_text w1 ((t @ [c]) @ cs)"
    using Cons.IH [of ?w "t @ [c]"] Cons.prems by auto
  with run_Cons_False [OF s] show ?case by auto
qed

text \<open>From the idle state: a name introduced by \<open>+\<close>, or a name by its first letter.\<close>

lemma run_information:
  assumes "stage w0 at_none None n P w" "\<forall>c\<in>set cs. name_char c" "length cs < string_size - 2"
  obtains w1 where "run env w (CHR ''+'' # cs) = Inr w1" "stage w0 at_informtion None n P w1"
    "holds_text w1 (CHR ''+'' # cs)"
proof -
  let ?w = "set_state at_informtion (start_string (CHR ''+'') w)"
  have s: "step env w (CHR ''+'') = Inr (False, ?w)"
    using stage_fields(2) [OF assms(1)] by (simp add: proc_atc_res_def proc_none_def)
  have st: "stage w0 at_informtion None n P ?w" by (rule stage_state [OF stage_start [OF assms(1)]])
  have t: "holds_text ?w [CHR ''+'']"
    using holds_text_start [of w "CHR ''+''"] stage_fields(1) [OF assms(1)] by (simp add: text_ok_def)
  from run_name [OF disjI1 [OF refl] st t assms(2), of env] assms(3) obtain w1 where
    "run env ?w cs = Inr w1" "stage w0 at_informtion None n P w1" "holds_text w1 (CHR ''+'' # cs)" by auto
  with run_Cons_False [OF s, of cs] that show thesis by simp
qed

lemma run_word:
  assumes "stage w0 at_none None n P w" "isalpha c" "\<forall>c\<in>set cs. name_char c" "length cs < string_size - 2"
  obtains w1 where "run env w (c # cs) = Inr w1" "stage w0 at_response None n P w1" "holds_text w1 (c # cs)"
proof -
  let ?w = "set_state at_response (start_string c w)"
  have s: "step env w c = Inr (False, ?w)"
    using stage_fields(2) [OF assms(1)] assms(2) by (simp add: proc_atc_res_def proc_none_def Let_def)
  have st: "stage w0 at_response None n P ?w" by (rule stage_state [OF stage_start [OF assms(1)]])
  have t: "holds_text ?w [c]"
    using holds_text_start [of w c] stage_fields(1) [OF assms(1)] by (simp add: text_ok_def)
  from run_name [OF disjI2 [OF refl] st t assms(3), of env] assms(4) obtain w1 where
    "run env ?w cs = Inr w1" "stage w0 at_response None n P w1" "holds_text w1 (c # cs)" by auto
  with run_Cons_False [OF s, of cs] that show thesis by simp
qed

lemma look_up_name:
  assumes "holds_text w t" "NUL \<notin> set t"
  shows "look_up tbl (append NUL w) = Inr (set_response (get_response tbl t) (append NUL w))"
  using holds_text_NUL [OF assms] by (simp add: look_up_def)

lemma step_separator:
  assumes "stage w0 at_informtion None n P w" "holds_text w t" "NUL \<notin> set t"
    "get_response response_table t = Some i" "c = CHR '':'' \<or> c = CHR '',''"
  obtains w1 where "step env w c = Inr (False, w1)" "stage w0 at_parameter (Some i) 0 zero_params w1"
proof -
  let ?w = "set_state at_parameter (reset_params (set_response (Some i) (append NUL w)))"
  have "step env w c = Inr (False, ?w)"
    using stage_fields(2) [OF assms(1)] look_up_name [OF assms(2,3)] assms(4,5)
    by (auto simp: proc_atc_res_def proc_informtion_def)
  moreover have "stage w0 at_parameter (Some i) 0 zero_params ?w"
    by (rule stage_state, rule stage_reset, rule stage_response, rule stage_append, rule assms(1))
  ultimately show thesis by (rule that)
qed

section \<open>Numbers\<close>

lemma run_digits:
  "stage w0 at_number r n P w \<Longrightarrow> number (serial w) = v \<Longrightarrow> 0 \<le> v \<Longrightarrow> \<forall>c\<in>set ds. isdigit c \<Longrightarrow>
   scan_digits v ds < 2 ^ 31 \<Longrightarrow>
   \<exists>w1. run env w ds = Inr w1 \<and> stage w0 at_number r n P w1 \<and> number (serial w1) = scan_digits v ds"
proof (induction ds arbitrary: w v)
  case Nil
  then show ?case by simp
next
  case (Cons c ds)
  let ?v = "v * 10 + digit_val c"
  have c: "isdigit c" "0 \<le> digit_val c" using Cons.prems digit_val_bounds [of c] by simp_all
  have "?v \<le> scan_digits ?v ds" using Cons.prems c by (intro scan_digits_mono) simp_all
  with Cons.prems c have v: "0 \<le> ?v" "?v < 2 ^ 31" "v * 10 < 2 ^ 31" by simp_all
  have same: "set_state at_number w = w"
    using stage_fields(2) [OF Cons.prems(1)] by (simp add: set_state_def upd_serial_def)
  have s: "step env w c = Inr (False, set_number ?v w)"
    using stage_fields(2) [OF Cons.prems(1)] c v Cons.prems(2,3) same
    by (simp add: proc_atc_res_def proc_number_def add_digit_def int_ok_def int_add_def Let_def)
  have "stage w0 at_number r n P (set_number ?v w)" by (rule stage_number [OF Cons.prems(1)])
  moreover have "number (serial (set_number ?v w)) = ?v" by (simp add: esp_upd)
  ultimately obtain w1 where "run env (set_number ?v w) ds = Inr w1" "stage w0 at_number r n P w1"
    "number (serial w1) = scan_digits ?v ds" using Cons.IH Cons.prems v by fastforce
  with run_Cons_False [OF s] show ?case by simp
qed

lemma run_number:
  assumes "stage w0 at_parameter r n P w" "int m < 2 ^ 31"
  obtains w1 where "run env w (dec_nat m) = Inr w1" "stage w0 at_number r n P w1" "number (serial w1) = int m"
proof -
  obtain c ds where m: "dec_nat m = c # ds" by (cases "dec_nat m") simp_all
  with dec_nat_digits [of m] scan_dec_nat [of m] have d: "isdigit c" "\<forall>c\<in>set ds. isdigit c"
    "scan_digits (digit_val c) ds = int m" by simp_all
  let ?w = "set_number (digit_val c) (set_state at_number w)"
  have s: "step env w c = Inr (False, ?w)"
    using stage_fields(2) [OF assms(1)] d by (simp add: proc_atc_res_def proc_parameter_def)
  have "stage w0 at_number r n P ?w" by (rule stage_number [OF stage_state [OF assms(1)]])
  moreover have "number (serial ?w) = digit_val c" by (simp add: esp_upd)
  ultimately obtain w1 where "run env ?w ds = Inr w1" "stage w0 at_number r n P w1" "number (serial w1) = int m"
    using run_digits [of w0 r n P ?w "digit_val c" ds env] digit_val_bounds [OF d(1)] d assms(2) by auto
  with run_Cons_False [OF s] m that show thesis by simp
qed

section \<open>Quoted texts and addresses\<close>

definition quotable :: "char \<Rightarrow> bool" where
  "quotable c \<longleftrightarrow> c \<noteq> DQUOTE \<and> c \<noteq> BACKSLASH"

lemma run_string_body:
  "stage w0 at_string_str r n P w \<Longrightarrow> holds_text w t \<Longrightarrow> \<forall>c\<in>set cs. quotable c \<Longrightarrow>
   length t + length cs < string_size \<Longrightarrow>
   \<exists>w1. run env w cs = Inr w1 \<and> stage w0 at_string_str r n P w1 \<and> holds_text w1 (t @ cs)"
proof (induction cs arbitrary: w t)
  case Nil
  then show ?case by simp
next
  case (Cons c cs)
  let ?w = "set_state at_string_str (append c w)"
  have s: "step env w c = Inr (False, ?w)"
    using stage_fields(2) [OF Cons.prems(1)] Cons.prems(3)
    by (simp add: proc_atc_res_def proc_string_str_def quotable_def)
  have "stage w0 at_string_str r n P ?w" by (rule stage_state [OF stage_append [OF Cons.prems(1)]])
  moreover have "holds_text ?w (t @ [c])" using Cons.prems by (simp add: holds_text_append)
  ultimately obtain w1 where "run env ?w cs = Inr w1" "stage w0 at_string_str r n P w1" "holds_text w1 ((t @ [c]) @ cs)"
    using Cons.IH [of ?w "t @ [c]"] Cons.prems by auto
  with run_Cons_False [OF s] show ?case by auto
qed

lemma run_quoted:
  assumes "stage w0 at_parameter r n P w" "\<forall>c\<in>set cs. quotable c" "length cs < string_size"
  obtains w1 where "run env w (DQUOTE # cs @ [DQUOTE]) = Inr w1" "stage w0 at_string_edq r n P w1" "holds_text w1 cs"
proof -
  let ?u = "upd_serial (\<lambda>s. s\<lparr>string_pos := 0, string_buf := (string_buf s)[0 := NUL]\<rparr>) w"
  have su: "stage w0 at_parameter r n P ?u"
  proof (rule stage_move [OF assms(1), where buf = "string_buf (serial ?u)" and pos = "string_pos (serial ?u)"
      and num = "number (serial ?u)"])
    show "text_ok (serial ?u)" using stage_fields(1) [OF assms(1)] by (simp add: esp_upd text_ok_def)
  qed (use stage_fields(2-5) [OF assms(1)] in \<open>simp add: esp_upd\<close>)
  have s: "step env w DQUOTE = Inr (False, set_state at_string_str ?u)"
    using stage_fields(2) [OF assms(1)] by (simp add: proc_atc_res_def proc_parameter_def c_char)
  have t: "holds_text (set_state at_string_str ?u) []"
    using stage_fields(1) [OF su] by (simp add: holds_text_def esp_upd text_ok_def)
  from run_string_body [OF stage_state [OF su] t assms(2), of env] assms(3) obtain w1 where
    w1: "run env (set_state at_string_str ?u) cs = Inr w1" "stage w0 at_string_str r n P w1" "holds_text w1 cs" by auto
  have s1: "step env w1 DQUOTE = Inr (False, set_state at_string_edq w1)"
    using stage_fields(2) [OF w1(2)] by (simp add: proc_atc_res_def proc_string_str_def)
  have "run env w (DQUOTE # cs @ [DQUOTE]) = Inr (set_state at_string_edq w1)"
    using run_Cons_False [OF s, of "cs @ [DQUOTE]"] run_trans [OF w1(1), of "[DQUOTE]"] s1 by simp
  moreover have "stage w0 at_string_edq r n P (set_state at_string_edq w1)" by (rule stage_state [OF w1(2)])
  moreover have "holds_text (set_state at_string_edq w1) cs" using w1(3) by simp
  ultimately show thesis by (rule that)
qed

text \<open>An address without quotes is first taken for a number, then printed back into the text.\<close>

lemma run_ipaddr_body:
  "stage w0 at_ipaddr r n P w \<Longrightarrow> holds_text w t \<Longrightarrow> \<forall>c\<in>set cs. isdigit c \<or> c = CHR ''.'' \<Longrightarrow>
   length t + length cs < string_size \<Longrightarrow>
   \<exists>w1. run env w cs = Inr w1 \<and> stage w0 at_ipaddr r n P w1 \<and> holds_text w1 (t @ cs)"
proof (induction cs arbitrary: w t)
  case Nil
  then show ?case by simp
next
  case (Cons c cs)
  let ?w = "set_state at_ipaddr (append c w)"
  have s: "step env w c = Inr (False, ?w)"
    using stage_fields(2) [OF Cons.prems(1)] Cons.prems(3)
    by (auto simp: proc_atc_res_def proc_ipaddr_def goto_def)
  have "stage w0 at_ipaddr r n P ?w" by (rule stage_state [OF stage_append [OF Cons.prems(1)]])
  moreover have "holds_text ?w (t @ [c])" using Cons.prems by (simp add: holds_text_append)
  ultimately obtain w1 where "run env ?w cs = Inr w1" "stage w0 at_ipaddr r n P w1" "holds_text w1 ((t @ [c]) @ cs)"
    using Cons.IH [of ?w "t @ [c]"] Cons.prems by auto
  with run_Cons_False [OF s] show ?case by auto
qed

lemma print_string_stage:
  assumes "stage w0 st r n P w" "length t < string_size"
  obtains w1 where "print_string t w = Inr w1" "stage w0 st r n P w1" "holds_text w1 t"
proof -
  let ?u = "upd_serial (\<lambda>s. s\<lparr>string_buf := t @ NUL # drop (Suc (length t)) (string_buf s),
                 string_pos := length t\<rparr>) w"
  have "stage w0 st r n P ?u"
  proof (rule stage_move [OF assms(1), where buf = "string_buf (serial ?u)" and pos = "string_pos (serial ?u)"
      and num = "number (serial ?u)"])
    show "text_ok (serial ?u)" using stage_fields(1) [OF assms(1)] assms(2) by (simp add: esp_upd text_ok_def)
  qed (use stage_fields(2-5) [OF assms(1)] in \<open>simp add: esp_upd\<close>)
  moreover have "holds_text ?u t"
    using stage_fields(1) [OF assms(1)] assms(2) by (simp add: holds_text_def esp_upd text_ok_def)
  moreover have "print_string t w = Inr ?u" using assms(2) by (simp add: print_string_def)
  ultimately show thesis using that by blast
qed

lemma run_address:
  assumes "stage w0 at_parameter r n P w" "m < 1000" "\<forall>c\<in>set cs. isdigit c \<or> c = CHR ''.''" "length cs < 50"
  obtains w1 where "run env w (dec_nat m @ CHR ''.'' # cs) = Inr w1" "stage w0 at_ipaddr r n P w1"
    "holds_text w1 (dec_nat m @ CHR ''.'' # cs)"
proof -
  have m: "int m < 2 ^ 31" using assms(2) by simp
  obtain w1 where w1: "run env w (dec_nat m) = Inr w1" "stage w0 at_number r n P w1" "number (serial w1) = int m"
    by (rule run_number [OF assms(1) m])
  have dm: "dec_int (int m) = dec_nat m" "length (dec_nat m) \<le> 3"
    using dec_nat_length [of m 3] assms(2) by (simp_all add: dec_int_def)
  then obtain w2 where w2: "print_string (dec_nat m @ ''.'') w1 = Inr w2" "stage w0 at_number r n P w2"
    "holds_text w2 (dec_nat m @ ''.'')"
    using print_string_stage [OF w1(2), of "dec_nat m @ ''.''"] by auto
  have s: "step env w1 (CHR ''.'') = Inr (False, set_state at_ipaddr w2)"
    using stage_fields(2) [OF w1(2)] w1(3) w2(1) dm(1)
    by (simp add: proc_atc_res_def proc_number_def Let_def c_char)
  have t2: "holds_text (set_state at_ipaddr w2) (dec_nat m @ ''.'')" using w2(3) by simp
  have "length (dec_nat m @ ''.'') + length cs < string_size" using dm assms(4) by simp
  from run_ipaddr_body [OF stage_state [OF w2(2)] t2 assms(3) this, of env] obtain w3 where
    "run env (set_state at_ipaddr w2) cs = Inr w3" "stage w0 at_ipaddr r n P w3"
    "holds_text w3 ((dec_nat m @ ''.'') @ cs)" by blast
  with run_trans [OF w1(1), of "CHR ''.'' # cs"] run_Cons_False [OF s, of cs] that show thesis by simp
qed

section \<open>Parameters\<close>

lemma call_next_stage:
  assumes "stage w0 st (Some i) n P w" "i < length response_table" "0 \<le> n" "n < 100"
    and "next_parameter (response_table ! i) env (upd_serial (\<lambda>s. s\<lparr>param_pos := n + 1\<rparr>) w) (n + 1) type v
      = Inr (True, upd_params (\<lambda>_. P') (upd_serial (\<lambda>s. s\<lparr>param_pos := n + 1\<rparr>) w))"
  shows "accept (call_next response_table env w type v) k
      = k (upd_serial (\<lambda>s. s\<lparr>param_pos := n + 1, params := P'\<rparr>) w)"
proof -
  have "call_next response_table env w type v
      = Inr (True, upd_params (\<lambda>_. P') (upd_serial (\<lambda>s. s\<lparr>param_pos := n + 1\<rparr>) w))"
    using stage_fields(3,4) [OF assms(1)] assms(2-)
    by (simp add: call_next_def int_add_def int_ok_def Let_def esp_upd)
  then show ?thesis by (simp add: accept_def esp_upd)
qed

lemma text_of_stage:
  assumes "holds_text w t" "NUL \<notin> set t"
  shows "text_of (upd_serial (\<lambda>s. s\<lparr>param_pos := n\<rparr>) (append NUL w)) VStr = Inr t"
  using holds_text_NUL [OF assms] by (simp add: text_of_def esp_upd)

end
