(* ===== verification/Esp_Ipd.thy ===== *)
theory Esp_Ipd
  imports Esp_Lines
begin

text \<open>
  Received data, end to end: the announcement \<open>+IPD,<id>,<length>,<address>,<port>:\<close> and the
  payload behind it, from the bytes of the serial port to the receive ring of the connection
  and the \<open>received\<close> notice in the data queue.
\<close>

section \<open>Positions in the table\<close>

definition ipd_index :: nat where "ipd_index = 9"

lemma ipd_entry:
  "get_response response_table ''+IPD'' = Some ipd_index" "ipd_index < length response_table"
  "next_parameter (response_table ! ipd_index) = at_ipd_set_param"
  "exec_response (response_table ! ipd_index) = at_ipd_exec"
  by (simp_all add: get_response_def response_table_def entry_def ipd_index_def)

section \<open>A number followed by a comma\<close>

lemma run_number_parameter:
  assumes "stage w0 at_parameter (Some i) n P w" "int m < 2 ^ 31" "i < length response_table" "0 \<le> n" "n < 100"
    and "\<And>w. par w = P \<Longrightarrow> next_parameter (response_table ! i) env w (n + 1) at_param_number (VNum (int m))
      = Inr (True, upd_params (\<lambda>_. P') w)"
  obtains w1 where "run env w (dec_nat m @ '','') = Inr w1" "stage w0 at_parameter (Some i) (n + 1) P' w1"
proof -
  obtain u where u: "run env w (dec_nat m) = Inr u" "stage w0 at_number (Some i) n P u" "number (serial u) = int m"
    by (rule run_number [OF assms(1,2)])
  let ?u = "upd_serial (\<lambda>s. s\<lparr>param_pos := n + 1\<rparr>) u"
  have "par ?u = P" using stage_fields(5) [OF u(2)] by (simp add: esp_upd)
  from call_next_stage [OF u(2) assms(3-5) assms(6) [OF this], of "goto at_parameter"]
  have "step env u (CHR '','') = Inr (False, set_state at_parameter (upd_serial (\<lambda>s. s\<lparr>param_pos := n + 1, params := P'\<rparr>) u))"
    using stage_fields(2) [OF u(2)] u(3)
    by (simp add: proc_atc_res_def proc_number_def Let_def c_char goto_def)
  moreover have "stage w0 at_parameter (Some i) (n + 1) P' (set_state at_parameter (upd_serial (\<lambda>s. s\<lparr>param_pos := n + 1, params := P'\<rparr>) u))"
    by (rule stage_state [OF stage_params [OF u(2)]])
  ultimately show thesis using that run_trans [OF u(1), of "'',''"] by simp
qed

text \<open>A text followed by a comma, quoted or as a bare address.\<close>

lemma comma_text_parameter:
  assumes "stage w0 st (Some i) n P w" "st = at_string_edq \<or> st = at_ipaddr" "holds_text w t" "NUL \<notin> set t"
    "i < length response_table" "0 \<le> n" "n < 100"
    and "\<And>w. par w = P \<Longrightarrow> text_of w VStr = Inr t \<Longrightarrow>
      next_parameter (response_table ! i) env w (n + 1) at_param_string VStr = Inr (True, upd_params (\<lambda>_. P') w)"
  obtains w1 where "run env w '','' = Inr w1" "stage w0 at_parameter (Some i) (n + 1) P' w1"
proof -
  let ?u = "append NUL w"
  have su: "stage w0 st (Some i) n P ?u" by (rule stage_append [OF assms(1)])
  let ?v = "upd_serial (\<lambda>s. s\<lparr>param_pos := n + 1\<rparr>) ?u"
  have "par ?v = P" using stage_fields(5) [OF su] by (simp add: esp_upd)
  moreover have "text_of ?v VStr = Inr t" by (rule text_of_stage [OF assms(3,4)])
  ultimately have "next_parameter (response_table ! i) env ?v (n + 1) at_param_string VStr = Inr (True, upd_params (\<lambda>_. P') ?v)"
    by (rule assms(8))
  from call_next_stage [OF su assms(5-7) this, of "goto at_parameter"]
  have "step env w (CHR '','') = Inr (False, set_state at_parameter (upd_serial (\<lambda>s. s\<lparr>param_pos := n + 1, params := P'\<rparr>) ?u))"
    using stage_fields(2) [OF assms(1)] assms(2)
    by (auto simp: proc_atc_res_def proc_string_edq_def proc_ipaddr_def c_char goto_def)
  moreover have "stage w0 at_parameter (Some i) (n + 1) P' (set_state at_parameter (upd_serial (\<lambda>s. s\<lparr>param_pos := n + 1, params := P'\<rparr>) ?u))"
    by (rule stage_state [OF stage_params [OF su]])
  ultimately show thesis using that by simp
qed

section \<open>The announcement\<close>

definition address_text :: "bool \<Rightarrow> 8 word \<Rightarrow> 8 word \<Rightarrow> 8 word \<Rightarrow> 8 word \<Rightarrow> string" where
  "address_text quoted a b c d = (if quoted then DQUOTE # dotted a b c d @ [DQUOTE] else dotted a b c d)"

definition ipd_header :: "nat \<Rightarrow> nat \<Rightarrow> string \<Rightarrow> nat \<Rightarrow> string" where
  "ipd_header lid n address port =
    ''+IPD'' @ '','' @ dec_nat lid @ '','' @ dec_nat n @ '','' @ address @ '','' @ dec_nat port @ '':''"

lemma dotted_chars: "\<forall>x\<in>set (dotted a b c d). isdigit x \<or> x = CHR ''.''"
  using dec_nat_digits by (auto simp: dotted_def)

lemma octet_digits: "length (dec_nat (unat (a :: 8 word))) \<le> 3"
  using unsigned_less [of a, where ?'a = nat] by (intro dec_nat_length) simp_all

lemma dotted_length: "length (dotted a b c d) \<le> 15"
  using octet_digits [of a] octet_digits [of b] octet_digits [of c] octet_digits [of d]
  by (simp add: dotted_def)

lemma dotted_quotable: "\<forall>x\<in>set (dotted a b c d). quotable x" "NUL \<notin> set (dotted a b c d)"
  using dotted_chars [of a b c d] by (auto simp: quotable_def c_char dest!: bspec)

lemma run_address_text:
  assumes "stage w0 at_parameter r n P w"
  obtains w1 st where "run env w (address_text quoted a b c d) = Inr w1" "stage w0 st r n P w1"
    "st = at_string_edq \<or> st = at_ipaddr" "holds_text w1 (dotted a b c d)"
proof (cases quoted)
  case True
  have len: "length (dotted a b c d) < string_size" using dotted_length [of a b c d] by simp
  obtain w1 where "run env w (DQUOTE # dotted a b c d @ [DQUOTE]) = Inr w1" "stage w0 at_string_edq r n P w1"
    "holds_text w1 (dotted a b c d)" by (rule run_quoted [OF assms dotted_quotable(1) len])
  with True that [of w1 at_string_edq] show thesis by (simp add: address_text_def)
next
  case False
  let ?cs = "dec_nat (unat b) @ ''.'' @ dec_nat (unat c) @ ''.'' @ dec_nat (unat d)"
  have eq: "dotted a b c d = dec_nat (unat a) @ CHR ''.'' # ?cs" by (simp add: dotted_def)
  have m: "unat a < 1000" using unsigned_less [of a, where ?'a = nat] by simp
  have cs: "\<forall>x\<in>set ?cs. isdigit x \<or> x = CHR ''.''" using dec_nat_digits by auto
  have len: "length ?cs < 50" using octet_digits [of b] octet_digits [of c] octet_digits [of d] by simp
  obtain w1 where "run env w (dec_nat (unat a) @ CHR ''.'' # ?cs) = Inr w1" "stage w0 at_ipaddr r n P w1"
    "holds_text w1 (dec_nat (unat a) @ CHR ''.'' # ?cs)"
    by (rule run_address [OF assms m cs len])
  with False that [of w1 at_ipaddr] eq show thesis by (simp add: address_text_def)
qed

text \<open>What the announcement leaves in the current state.\<close>

definition announced :: "nat \<Rightarrow> nat \<Rightarrow> u32 \<Rightarrow> nat \<Rightarrow> esp_socket_state \<Rightarrow> esp_socket_state" where
  "announced lid n address port c = c\<lparr>link_id := int lid, data_length := int n, remote_ip := address,
     remote_port := int port, received := 0, lost := 0\<rparr>"

lemma ipd_steps:
  fixes lid n port :: nat
  assumes "lid \<le> 4" "1 \<le> n" "n \<le> AT_CONNECTION_RX_BUFF_SIZE" "port < 65536"
  shows "at_ipd_set_param env w 1 type (VNum (int lid)) = Inr (True, upd_params (\<lambda>_. (par w)\<lparr>link_id := int lid\<rparr>) w)"
    "at_ipd_set_param env w 2 type (VNum (int n)) = Inr (True, upd_params (\<lambda>_. (par w)\<lparr>data_length := int n\<rparr>) w)"
    "text_of w VStr = Inr (dotted a b c d) \<Longrightarrow>
     at_ipd_set_param env w 3 type VStr = Inr (True, upd_params (\<lambda>_. (par w)\<lparr>remote_ip := octets a b c d\<rparr>) w)"
    "at_ipd_set_param env w 4 type (VNum (int port)) = Inr (True, upd_params (\<lambda>_. (par w)\<lparr>remote_port := int port\<rparr>) w)"
  using assms by (simp_all add: at_ipd_set_param_def intptr_def set_ip_def ip4_dotted esp_upd)

lemma run_ipd_header:
  assumes st: "stage w0 at_none None m P w" and b: "lid \<le> 4" "1 \<le> n" "n \<le> AT_CONNECTION_RX_BUFF_SIZE" "port < 65536"
  obtains w1 where "run env w (ipd_header lid n (address_text quoted a b c d) port) = Inr w1"
    "parse_state (serial w1) = at_receive_data" "response (serial w1) = None"
    "cur w1 = announced lid n (octets a b c d) port (cur w0)" "connections w1 = connections w0"
    "dtq w1 = dtq w0" "rtc w1 = rtc w0" "response_kind (serial w1) = kind_no_set" "text_ok (serial w1)"
proof -
  note steps = ipd_steps [OF b, where env = env]
  have ch: "\<forall>c\<in>set ''IPD''. name_char c" by (simp add: name_char_def c_char)
  obtain w1 where w1: "run env w (CHR ''+'' # ''IPD'') = Inr w1" "stage w0 at_informtion None m P w1"
    "holds_text w1 (CHR ''+'' # ''IPD'')" by (rule run_information [OF st ch]) simp_all
  obtain w2 where w2: "step env w1 (CHR '','') = Inr (False, w2)" "stage w0 at_parameter (Some ipd_index) 0 zero_params w2"
    by (rule step_separator [OF w1(2,3) _ ipd_entry(1) disjI2 [OF refl]]) simp
  let ?P1 = "zero_params\<lparr>link_id := int lid\<rparr>"
  have l31: "int lid < 2 ^ 31" "int n < 2 ^ 31" "int port < 2 ^ 31" using b by simp_all
  obtain w3 where w3: "run env w2 (dec_nat lid @ '','') = Inr w3" "stage w0 at_parameter (Some ipd_index) 1 ?P1 w3"
    by (rule run_number_parameter [OF w2(2) l31(1) ipd_entry(2), where P' = ?P1, where env = env])
      (simp_all add: ipd_entry steps(1))
  let ?P2 = "?P1\<lparr>data_length := int n\<rparr>"
  obtain w4 where w4: "run env w3 (dec_nat n @ '','') = Inr w4" "stage w0 at_parameter (Some ipd_index) 2 ?P2 w4"
    by (rule run_number_parameter [OF w3(2) l31(2) ipd_entry(2), where P' = ?P2, where env = env])
      (simp_all add: ipd_entry steps(2))
  obtain w5 st5 where w5: "run env w4 (address_text quoted a b c d) = Inr w5" "stage w0 st5 (Some ipd_index) 2 ?P2 w5"
    "st5 = at_string_edq \<or> st5 = at_ipaddr" "holds_text w5 (dotted a b c d)"
    by (rule run_address_text [OF w4(2)])
  let ?P3 = "?P2\<lparr>remote_ip := octets a b c d\<rparr>"
  obtain w6 where w6: "run env w5 '','' = Inr w6" "stage w0 at_parameter (Some ipd_index) 3 ?P3 w6"
    by (rule comma_text_parameter [OF w5(2,3,4) dotted_quotable(2) ipd_entry(2), where P' = ?P3, where env = env])
      (simp_all add: ipd_entry steps(3))
  obtain w7 where w7: "run env w6 (dec_nat port) = Inr w7" "stage w0 at_number (Some ipd_index) 3 ?P3 w7"
    "number (serial w7) = int port" by (rule run_number [OF w6(2) l31(3)])
  let ?P4 = "?P3\<lparr>remote_port := int port\<rparr>"
  let ?u = "upd_serial (\<lambda>s. s\<lparr>param_pos := 4, params := ?P4\<rparr>) w7"
  let ?v = "set_response None (set_string_pos 0 (set_state at_receive_data (set_kind kind_no_set
      (upd_current (announced lid n (octets a b c d) port) ?u))))"
  have u: "accept (call_next response_table env w7 at_param_number (VNum (int port))) k = k ?u" for k
    using call_next_stage [OF w7(2) ipd_entry(2), of env at_param_number "VNum (int port)" ?P4 k]
      stage_fields(5) [OF w7(2)] by (simp add: ipd_entry steps(4) esp_upd)
  have su: "stage w0 at_number (Some ipd_index) 4 ?P4 ?u" by (rule stage_params [OF w7(2)])
  have "at_ipd_exec env ?u 4 = Inr (at_receive_data, set_kind kind_no_set
      (upd_current (announced lid n (octets a b c d) port) ?u))"
    using stage_fields(5) [OF su] by (simp add: at_ipd_exec_def announced_def [abs_def] esp_upd)
  then have "call_exec response_table env ?u = Inr (set_state at_receive_data (set_kind kind_no_set
      (upd_current (announced lid n (octets a b c d) port) ?u)))"
    using stage_fields(3,4) [OF su] ipd_entry by (simp add: call_exec_def)
  then have "step env w7 (CHR '':'') = Inr (True, ?v)"
    using stage_fields(2) [OF w7(2)] w7(3) u by (simp add: proc_atc_res_def proc_number_def Let_def c_char)
  moreover have kind: "response_kind (serial ?v) = kind_no_set" by (simp add: esp_upd)
  ultimately have w8: "run env w7 '':'' = Inr ?v" by (simp add: send_kind_def)
  have "run env w (ipd_header lid n (address_text quoted a b c d) port)
    = cbind (run env w ''+IPD'') (\<lambda>w1. cbind (run env w1 '','') (\<lambda>w2. cbind (run env w2 (dec_nat lid @ '',''))
       (\<lambda>w3. cbind (run env w3 (dec_nat n @ '','')) (\<lambda>w4. cbind (run env w4 (address_text quoted a b c d))
       (\<lambda>w5. cbind (run env w5 '','') (\<lambda>w6. cbind (run env w6 (dec_nat port)) (\<lambda>w7. run env w7 '':'')))))))"
    unfolding ipd_header_def rx_handler_append [symmetric] by (simp only: rx_handler_append append_assoc)
  also have "\<dots> = Inr ?v" using w1(1) w2(1) w3(1) w4(1) w5(1) w6(1) w7(1) w8 by simp
  finally have r: "run env w (ipd_header lid n (address_text quoted a b c d) port) = Inr ?v" .
  show thesis
    by (rule that [OF r]) (use stage_fields [OF su] in \<open>simp_all add: esp_upd text_ok_def\<close>)
qed

section \<open>The payload\<close>

lemma push_all_append: "push_all push s (xs @ ys) = push_all push (push_all push s xs) ys"
  by (induction xs arbitrary: s) (simp_all split: option.splits)

text \<open>The state after \<open>cs\<close> has been stored for connection \<open>i\<close>.\<close>

definition with_counts :: "nat \<Rightarrow> at_connection \<Rightarrow> int \<Rightarrow> int \<Rightarrow> esp \<Rightarrow> esp" where
  "with_counts i k r l w = w\<lparr>connections := (connections w)[i := k],
     serial := (serial w)\<lparr>current_state := (cur w)\<lparr>received := r, lost := l\<rparr>\<rparr>\<rparr>"

definition overflow_count :: "at_connection \<Rightarrow> nat \<Rightarrow> nat" where
  "overflow_count k n = n - (rx_capacity - length (rx_contents k))"

definition stored :: "nat \<Rightarrow> esp \<Rightarrow> string \<Rightarrow> esp" where
  "stored i w cs = with_counts i (push_all ring_push (connections w ! i) cs)
     (received (cur w) + int (length cs)) (lost (cur w) + int (overflow_count (connections w ! i) (length cs))) w"

lemma with_counts_fields [simp]:
  "connections (with_counts i k r l w) = (connections w)[i := k]"
  "received (cur (with_counts i k r l w)) = r"
  "lost (cur (with_counts i k r l w)) = l"
  "with_counts i k' r' l' (with_counts i k r l w) = with_counts i k' r' l' w"
  by (simp_all add: with_counts_def)

lemma push_keeps_id: "ring_push k c = Some k' \<Longrightarrow> conn_id k' = conn_id k"
  by (auto simp: ring_push_def ring_put_def Let_def split: sum.splits if_splits rx_buffer.splits)

lemma push_all_keeps_id: "conn_id (push_all ring_push k cs) = conn_id k"
  by (induction cs arbitrary: k) (auto split: option.splits simp: push_keeps_id)

lemma push_keeps_state: "ring_push k c = Some k' \<Longrightarrow> conn_state k' = conn_state k"
  by (auto simp: ring_push_def ring_put_def Let_def split: sum.splits if_splits rx_buffer.splits)

lemma push_all_keeps_state: "conn_state (push_all ring_push k cs) = conn_state k"
  by (induction cs arbitrary: k) (auto split: option.splits simp: push_keeps_state)

lemma ring_put_push: "live k \<Longrightarrow> ring_put k c = Inr (ring_push k c)"
  using ring_put_room [of k c] ring_put_full [of k c] fill_less [of k] live_ring_ok [of k]
  by (cases "fill k < rx_capacity") (auto simp: ring_push_def not_less)

lemma store_one:
  assumes "get_connection (connections w) (link_id (cur w)) = Some i" "i < length (connections w)"
    "live (connections w ! i)" "0 \<le> lost (cur w)" "lost (cur w) < 2 ^ 30" "0 \<le> received (cur w)" "received (cur w) < 2 ^ 30"
  shows "cbind (int_add (received (cur w)) 1) (\<lambda>n.
    store_byte (upd_current (\<lambda>p. p\<lparr>received := n\<rparr>) w) c) = Inr (stored i w [c])"
proof -
  let ?k = "connections w ! i"
  have cap: "length (rx_contents ?k) \<le> rx_capacity" by (rule rx.bounded [OF assms(3)])
  have add: "int_add (received (cur w)) 1 = Inr (received (cur w) + 1)" "int_add (lost (cur w)) 1 = Inr (lost (cur w) + 1)"
    using assms(4-7) by (simp_all add: int_add_def int_ok_def)
  show ?thesis
  proof (cases "length (rx_contents ?k) = rx_capacity")
    case True
    then have "ring_push ?k c = None" by (rule rx.push_full [OF assms(3)])
    moreover have "(connections w)[i := ?k] = connections w" by simp
    ultimately show ?thesis using assms(1) True add
      by (simp add: store_byte_def esp_upd stored_def with_counts_def overflow_count_def ring_put_push [OF assms(3)])
  next
    case False
    with cap have "length (rx_contents ?k) < rx_capacity" by simp
    from rx.push_room [OF assms(3) this, of c] obtain k' where "ring_push ?k c = Some k'" by blast
    moreover have "1 - (rx_capacity - length (rx_contents ?k)) = 0" using False cap by simp
    ultimately show ?thesis using assms(1) add
      by (simp add: store_byte_def esp_upd stored_def with_counts_def overflow_count_def ring_put_push [OF assms(3)])
  qed
qed

lemma stored_fields [simp]:
  "length (connections (stored i w cs)) = length (connections w)"
  "parse_state (serial (stored i w cs)) = parse_state (serial w)"
  "link_id (cur (stored i w cs)) = link_id (cur w)"
  "data_length (cur (stored i w cs)) = data_length (cur w)"
  "received (cur (stored i w cs)) = received (cur w) + int (length cs)"
  by (simp_all add: stored_def with_counts_def)

lemma stored_conns_ok:
  assumes "conns_ok (connections w)" "i < length (connections w)" "live (connections w ! i)"
  shows "conns_ok (connections (stored i w cs))" "live (connections (stored i w cs) ! i)"
    "rx_contents (connections (stored i w cs) ! i) = rx_contents (connections w ! i) @
       take (rx_capacity - length (rx_contents (connections w ! i))) cs"
  using rx.push_all_spec [OF assms(3), of cs] assms(2)
    conns_ok_update [OF assms(1,2), of "push_all ring_push (connections w ! i) cs"] push_all_keeps_id
  by (simp_all add: stored_def live_ring_ok)

lemma lost_sum:
  assumes "L \<le> cap"
  shows "int (n - (cap - L)) + int (1 - (cap - (L + min n (cap - L)))) = int (Suc n - (cap - L))"
proof (cases "n < cap - L")
  case True
  then show ?thesis by simp
next
  case False
  then have "min n (cap - L) = cap - L" "L + (cap - L) = cap" using assms by simp_all
  with False show ?thesis by simp
qed

lemma stored_snoc:
  assumes "i < length (connections w)" "live (connections w ! i)"
  shows "stored i (stored i w cs) [c] = stored i w (cs @ [c])"
proof -
  let ?k = "connections w ! i"
  have cap: "length (rx_contents ?k) \<le> rx_capacity" by (rule rx.bounded [OF assms(2)])
  have len: "length (rx_contents (push_all ring_push ?k cs))
      = length (rx_contents ?k) + min (length cs) (rx_capacity - length (rx_contents ?k))"
    using rx.push_all_spec [OF assms(2), of cs] by simp
  have "int (overflow_count ?k (length cs)) + int (overflow_count (push_all ring_push ?k cs) 1)
      = int (overflow_count ?k (Suc (length cs)))"
    unfolding overflow_count_def len by (rule lost_sum [OF cap])
  then have l: "x + int (overflow_count ?k (length cs)) + int (overflow_count (push_all ring_push ?k cs) 1)
      = x + int (overflow_count ?k (Suc (length cs)))" for x
    by (simp only: add.assoc)
  have "stored i (stored i w cs) [c] = with_counts i (push_all ring_push (push_all ring_push ?k cs) [c])
      (received (cur w) + int (length cs) + 1) (lost (cur w) + int (overflow_count ?k (length cs))
        + int (overflow_count (push_all ring_push ?k cs) 1)) w"
    using assms(1) by (simp add: stored_def)
  also have "\<dots> = stored i w (cs @ [c])"
    unfolding l stored_def push_all_append by (simp add: ac_simps)
  finally show ?thesis .
qed

lemma run_payload_part:
  assumes "conns_ok (connections w)" "get_connection (connections w) (link_id (cur w)) = Some i"
    "live (connections w ! i)" "parse_state (serial w) = at_receive_data" "received (cur w) = 0" "lost (cur w) = 0"
    "data_length (cur w) \<le> int AT_CONNECTION_RX_BUFF_SIZE"
  shows "int (length cs) < data_length (cur w) \<Longrightarrow> run env w cs = Inr (stored i w cs)"
proof (induction cs rule: rev_induct)
  case Nil
  have "connections w = (connections w)[i := connections w ! i]" by simp
  with assms(5,6) show ?case by (simp add: stored_def with_counts_def overflow_count_def)
next
  case (snoc c cs)
  have i: "i < length (connections w)"
    using assms(2) get_connection_ok [OF assms(1), of "link_id (cur w)"] conns_ok_length [OF assms(1)]
    by (auto split: if_splits)
  let ?w = "stored i w cs"
  note ok = stored_conns_ok [OF assms(1) i assms(3), of cs]
  have "get_connection (connections ?w) (link_id (cur ?w)) = Some i"
    using assms(2) get_connection_ok [OF assms(1), of "link_id (cur w)"]
      get_connection_ok [OF ok(1), of "link_id (cur w)"] by simp
  moreover have "0 \<le> lost (cur ?w)" "lost (cur ?w) < 2 ^ 30"
    using assms(6,7) snoc.prems by (simp_all add: stored_def overflow_count_def)
  moreover have "0 \<le> received (cur ?w)" "received (cur ?w) < 2 ^ 30" using assms(5,7) snoc.prems by simp_all
  ultimately have one: "cbind (int_add (received (cur ?w)) 1) (\<lambda>n.
      store_byte (upd_current (\<lambda>p. p\<lparr>received := n\<rparr>) ?w) c) = Inr (stored i w (cs @ [c]))"
    using store_one [of ?w i c] ok(2) i stored_snoc [OF i assms(3), of cs c] by simp
  have "step env ?w c = cbind (cbind (int_add (received (cur ?w)) 1) (\<lambda>n.
      store_byte (upd_current (\<lambda>p. p\<lparr>received := n\<rparr>) ?w) c)) (\<lambda>w1.
      if received (cur w1) \<ge> data_length (cur w1)
      then Inr (True, set_kind kind_received (set_state at_none w1)) else Inr (False, w1))"
    using assms(4) by (cases "int_add (received (cur ?w)) 1")
      (simp_all add: proc_atc_res_def proc_receive_data_def)
  also have "\<dots> = Inr (False, stored i w (cs @ [c]))"
    unfolding one using assms(5) snoc.prems by simp
  finally have s: "step env ?w c = Inr (False, stored i w (cs @ [c]))" .
  from snoc have "run env w cs = Inr ?w" by simp
  with s show ?case by (simp add: rx_handler_append)
qed

lemma run_payload:
  assumes "conns_ok (connections w)" "get_connection (connections w) (link_id (cur w)) = Some i"
    "live (connections w ! i)" "parse_state (serial w) = at_receive_data" "received (cur w) = 0" "lost (cur w) = 0"
    "data_length (cur w) \<le> int AT_CONNECTION_RX_BUFF_SIZE" "int (length cs) = data_length (cur w)" "cs \<noteq> []"
  shows "run env w cs = Inr (send_kind (set_kind kind_received (set_state at_none (stored i w cs))))"
proof -
  from assms(9) obtain ds c where cs: "cs = ds @ [c]" by (cases cs rule: rev_cases) auto
  have i: "i < length (connections w)"
    using assms(2) get_connection_ok [OF assms(1), of "link_id (cur w)"] conns_ok_length [OF assms(1)]
    by (auto split: if_splits)
  let ?w = "stored i w ds"
  note ok = stored_conns_ok [OF assms(1) i assms(3), of ds]
  have part: "run env w ds = Inr ?w"
    using run_payload_part [OF assms(1-7), of ds env] assms(8) cs by simp
  have "get_connection (connections ?w) (link_id (cur ?w)) = Some i"
    using assms(2) get_connection_ok [OF assms(1), of "link_id (cur w)"]
      get_connection_ok [OF ok(1), of "link_id (cur w)"] by simp
  moreover have "0 \<le> lost (cur ?w)" "lost (cur ?w) < 2 ^ 30" "0 \<le> received (cur ?w)" "received (cur ?w) < 2 ^ 30"
    using assms(5-8) cs by (simp_all add: stored_def overflow_count_def)
  ultimately have one: "cbind (int_add (received (cur ?w)) 1) (\<lambda>n.
      store_byte (upd_current (\<lambda>p. p\<lparr>received := n\<rparr>) ?w) c) = Inr (stored i w cs)"
    using store_one [of ?w i c] ok(2) i stored_snoc [OF i assms(3), of ds c] cs by simp
  have "step env ?w c = cbind (cbind (int_add (received (cur ?w)) 1) (\<lambda>n.
      store_byte (upd_current (\<lambda>p. p\<lparr>received := n\<rparr>) ?w) c)) (\<lambda>w1.
      if received (cur w1) \<ge> data_length (cur w1)
      then Inr (True, set_kind kind_received (set_state at_none w1)) else Inr (False, w1))"
    using assms(4) by (cases "int_add (received (cur ?w)) 1")
      (simp_all add: proc_atc_res_def proc_receive_data_def)
  also have "\<dots> = Inr (True, set_kind kind_received (set_state at_none (stored i w cs)))"
    unfolding one using assms(5,8) cs by simp
  finally have "run env ?w [c] = Inr (send_kind (set_kind kind_received (set_state at_none (stored i w cs))))" by simp
  with part cs show ?thesis by (simp add: rx_handler_append)
qed

section \<open>Delivery\<close>

lemma payload_delivered:
  assumes "parser_inv response_table w" "parse_state (serial w) = at_none" "lid \<le> 4" "live (connections w ! lid)"
    "payload \<noteq> []" "length payload \<le> AT_CONNECTION_RX_BUFF_SIZE" "port < 65536"
  shows "\<exists>w'. esp_at_rx_handler response_table env w
      (ipd_header lid (length payload) (address_text quoted a b c d) port @ payload) = Inr w' \<and>
    parse_state (serial w') = at_none \<and>
    rx_contents (connections w' ! lid) = rx_contents (connections w ! lid) @
      take (rx_capacity - length (rx_contents (connections w ! lid))) payload \<and>
    (\<forall>j. j \<noteq> lid \<longrightarrow> connections w' ! j = connections w ! j) \<and>
    received (cur w') = int (length payload) \<and>
    lost (cur w') = int (length payload - (rx_capacity - length (rx_contents (connections w ! lid)))) \<and>
    remote_ip (cur w') = octets a b c d \<and> remote_port (cur w') = int port \<and>
    dtq w' = (if length (dtq w) < NUM_ESP_AT then dtq w @ [kind_received] else dtq w) \<and>
    live (connections w' ! lid) \<and> conn_state (connections w' ! lid) = conn_state (connections w ! lid) \<and>
    response_kind (serial w') = kind_no_set"
proof -
  have d: "text_ok (serial w)" "conns_ok (connections w)" "response (serial w) = None"
    using parser_invD(1,2,4) [OF assms(1)] assms(2) by (simp_all add: data_ok_def)
  have st: "stage w at_none None (param_pos (serial w)) (par w) w"
    using stage_refl [OF d(1)] assms(2) d(3) by simp
  have n: "1 \<le> length payload" using assms(5) by (cases payload) simp_all
  obtain w1 where w1: "run env w (ipd_header lid (length payload) (address_text quoted a b c d) port) = Inr w1"
    "parse_state (serial w1) = at_receive_data"
    "cur w1 = announced lid (length payload) (octets a b c d) port (cur w)" "connections w1 = connections w"
    "dtq w1 = dtq w" by (rule run_ipd_header [OF st assms(3) n assms(6,7)])
  have g: "get_connection (connections w1) (link_id (cur w1)) = Some lid"
    using get_connection_ok [OF d(2)] assms(3) w1(3,4) by (simp add: announced_def)
  have i: "lid < length (connections w1)" using conns_ok_length [OF d(2)] assms(3) w1(4) by simp
  have "run env w1 payload = Inr (send_kind (set_kind kind_received (set_state at_none (stored lid w1 payload))))"
    by (rule run_payload) (use d(2) g assms(4-6) w1 in \<open>simp_all add: announced_def\<close>)
  with run_trans [OF w1(1), of payload] have r: "run env w (ipd_header lid (length payload) (address_text quoted a b c d) port @ payload)
      = Inr (send_kind (set_kind kind_received (set_state at_none (stored lid w1 payload))))" by simp
  have c: "rx_contents (connections (stored lid w1 payload) ! lid) = rx_contents (connections w ! lid) @
      take (rx_capacity - length (rx_contents (connections w ! lid))) payload"
    using stored_conns_ok(3) [of w1 lid payload] d(2) i assms(4) w1(4) by simp
  have k: "live (connections (stored lid w1 payload) ! lid)"
    "conn_state (connections (stored lid w1 payload) ! lid) = conn_state (connections w ! lid)"
    using stored_conns_ok(2) [of w1 lid payload] d(2) i assms(4) w1(4)
    by (simp_all add: stored_def with_counts_def push_all_keeps_state)
  show ?thesis
    by (rule exI, rule conjI [OF r])
      (use c k w1 in \<open>simp add: send_kind_def esp_upd stored_def with_counts_def overflow_count_def announced_def\<close>)
qed

section \<open>Property\<close>

text \<open>
  Claim C3.  From the idle parser, an announcement for a live connection (address quoted or not)
  followed by exactly the announced number of bytes appends these bytes, whatever they are, to
  the receive ring in order; the bytes that do not fit into 4095 are dropped at the end and
  counted; the other rings, and what was buffered before, are untouched; the sender's address
  and port are recorded; the parser is idle again and one \<open>received\<close> notice is queued.
\<close>

theorem ipd_delivers:
  assumes "parser_inv response_table w" "parse_state (serial w) = at_none" "lid \<le> 4" "live (connections w ! lid)"
    "payload \<noteq> []" "length payload \<le> AT_CONNECTION_RX_BUFF_SIZE" "port < 65536"
  shows "\<exists>w'. esp_at_rx_handler response_table env w
      (ipd_header lid (length payload) (address_text quoted a b c d) port @ payload) = Inr w' \<and>
    parse_state (serial w') = at_none \<and>
    rx_contents (connections w' ! lid) = rx_contents (connections w ! lid) @
      take (rx_capacity - length (rx_contents (connections w ! lid))) payload \<and>
    (\<forall>j. j \<noteq> lid \<longrightarrow> connections w' ! j = connections w ! j) \<and>
    received (cur w') = int (length payload) \<and>
    lost (cur w') = int (length payload - (rx_capacity - length (rx_contents (connections w ! lid)))) \<and>
    remote_ip (cur w') = octets a b c d \<and> remote_port (cur w') = int port \<and>
    dtq w' = (if length (dtq w) < NUM_ESP_AT then dtq w @ [kind_received] else dtq w)"
  using payload_delivered [OF assms] by blast

definition one_open :: esp where
  "one_open = (init_esp_at clock_stopped)\<lparr>connections := initial_connections[1 := fresh_connection 1]\<rparr>"

lemma one_open_ok:
  "parser_inv response_table one_open" "parse_state (serial one_open) = at_none" "live (connections one_open ! 1)"
proof -
  have "conns_ok (initial_connections[1 := fresh_connection 1])"
    by (rule conns_ok_update [OF initial_connections_ok])
      (simp_all add: initial_connections_def fresh_connection_facts initial_connection_facts live_ring_ok)
  then have "data_ok one_open"
    using parser_invD(1) [OF init_parser_inv [of response_table clock_stopped]]
    by (simp add: one_open_def data_ok_def)
  then show "parser_inv response_table one_open"
    by (rule idle_inv) (simp_all add: one_open_def init_esp_at_def initial_serial_def)
  show "parse_state (serial one_open) = at_none"
    by (simp add: one_open_def init_esp_at_def initial_serial_def)
  show "live (connections one_open ! 1)"
    by (simp add: one_open_def initial_connections_def fresh_connection_facts)
qed

definition plain_env :: esp_env where
  "plain_env = \<lparr>string_addr = 4096, strptime = \<lambda>_. None, gmtime = \<lambda>_. leap_day, ctime_null = True, serial_wri = \<lambda>_ _. 0\<rparr>"

definition odd_bytes :: string where
  "odd_bytes = [CR, LF, NUL, DQUOTE]"

lemma odd_bytes_facts: "odd_bytes \<noteq> []" "length odd_bytes \<le> AT_CONNECTION_RX_BUFF_SIZE"
  by (simp_all add: odd_bytes_def)

lemma one_open_empty: "rx_contents (connections one_open ! 1) = []"
  by (simp add: one_open_def initial_connections_def fresh_connection_facts)

theorem ipd_delivers_witness:
  "\<exists>w'. esp_at_rx_handler response_table plain_env one_open
      (ipd_header 1 (length odd_bytes) (address_text True 192 168 0 7) 8883 @ odd_bytes) = Inr w' \<and>
    rx_contents (connections w' ! 1) = odd_bytes"
proof -
  have p: "(1 :: nat) \<le> 4" "(8883 :: nat) < 65536" by simp_all
  have t: "take (rx_capacity - length (rx_contents (connections one_open ! 1))) odd_bytes = odd_bytes"
    unfolding one_open_empty by (simp add: odd_bytes_def)
  from ipd_delivers [OF one_open_ok(1,2) p(1) one_open_ok(3) odd_bytes_facts p(2), of plain_env True 192 168 0 7]
  obtain w' where "esp_at_rx_handler response_table plain_env one_open
      (ipd_header 1 (length odd_bytes) (address_text True 192 168 0 7) 8883 @ odd_bytes) = Inr w'"
    "rx_contents (connections w' ! 1) = rx_contents (connections one_open ! 1) @
      take (rx_capacity - length (rx_contents (connections one_open ! 1))) odd_bytes" by (elim exE conjE)
  then show ?thesis unfolding t one_open_empty [symmetric] by (intro exI conjI) (simp_all only: one_open_empty append_Nil)
qed

end
