(* ===== verification/Esp_Answers.thy ===== *)
theory Esp_Answers
  imports Esp_Ipd
begin

text \<open>
  What the driver makes of whole answers of the modem: the result words it waits for, the state
  of the wireless link, the time of day, and two answers the parser does not take as meant.
  The safety of the parser over every byte stream is stated here too.
\<close>

section \<open>Safety over byte streams\<close>

lemma prompt_entry: "get_response response_table ''>'' = Some i \<Longrightarrow> res_name (response_table ! i) = ''>''"
  using get_response_bound by blast

lemma step_safe_table: "parser_inv response_table w \<Longrightarrow> safe_step response_table (at_fault w c) (step env w c)"
  using at.step_safe prompt_entry by blast

lemma send_kind_inv: "parser_inv tbl w \<Longrightarrow> parser_inv tbl (send_kind w)"
  by (cases "response (serial w)")
    (auto simp: parser_inv_def send_kind_def data_ok_def response_ok_def state_ok_def esp_upd text_ok_def)

lemma run_safe:
  "parser_inv response_table w \<Longrightarrow>
   (case run env w cs of
      Inr w' \<Rightarrow> parser_inv response_table w'
    | Inl u \<Rightarrow> \<exists>ds c es w1. cs = ds @ c # es \<and> run env w ds = Inr w1 \<and> parser_inv response_table w1 \<and> at_fault w1 c u)"
proof (induction cs arbitrary: w)
  case Nil
  then show ?case by simp
next
  case (Cons c cs)
  note safe = step_safe_table [OF Cons.prems, of c env]
  show ?case
  proof (cases "step env w c")
    case (Inl u)
    with safe Cons.prems show ?thesis
      by (simp, intro exI [of _ "[]"] exI [of _ c] exI [of _ cs] exI [of _ w]) simp
  next
    case (Inr r)
    obtain b w1 where r: "r = (b, w1)" by fastforce
    let ?w = "if b then send_kind w1 else w1"
    have inv: "parser_inv response_table ?w" using safe Inr r send_kind_inv by simp
    have go: "run env w (c # ds) = run env ?w ds" for ds using Inr r by simp
    show ?thesis
    proof (cases "run env ?w cs")
      case (Inr w')
      with Cons.IH [OF inv] go [of cs] show ?thesis by simp
    next
      case (Inl u)
      with Cons.IH [OF inv] obtain ds d es w2 where
        "cs = ds @ d # es" "run env ?w ds = Inr w2" "parser_inv response_table w2" "at_fault w2 d u" by auto
      with go Inl show ?thesis
        by (simp only: go sum.case, intro exI [of _ "c # ds"] exI [of _ d] exI [of _ es] exI [of _ w2]) simp
    qed
  qed
qed

section \<open>Words\<close>

lemma answer_end:
  assumes "stage w0 at_response None n P u" "holds_text u t" "NUL \<notin> set t" "get_response response_table t = Some i"
  obtains w1 where "stage w0 at_crlf (Some i) 0 zero_params w1"
    "run env u [CR, LF] = cbind (call_exec response_table env w1)
       (\<lambda>w2. Inr (send_kind (set_response None (set_string_pos 0 w2))))"
proof -
  let ?w = "set_state at_crlf (reset_params (set_response (Some i) (append NUL u)))"
  have s: "step env u CR = Inr (False, ?w)"
    using stage_fields(2) [OF assms(1)] look_up_name [OF assms(2,3)] assms(4)
    by (simp add: proc_atc_res_def proc_response_def)
  have st: "stage w0 at_crlf (Some i) 0 zero_params ?w"
    by (rule stage_state, rule stage_reset, rule stage_response, rule stage_append, rule assms(1))
  have "step env ?w LF = cbind (call_exec response_table env ?w) (\<lambda>w1. Inr (True, set_response None (set_string_pos 0 w1)))"
    using stage_fields(2,3) [OF st] by (simp add: proc_atc_res_def proc_crlf_def)
  then have "run env ?w [LF] = cbind (call_exec response_table env ?w)
       (\<lambda>w2. Inr (send_kind (set_response None (set_string_pos 0 w2))))"
    by (cases "call_exec response_table env ?w") simp_all
  with run_Cons_False [OF s, of "[LF]"] that [OF st] show thesis by simp
qed

text \<open>The words the driver waits for, and the kind each is reported as.\<close>

definition answer_words :: "(string \<times> at_response_kind) list" where
  "answer_words = [(''OK'', kind_ok), (''ERROR'', kind_error), (''FAIL'', kind_fail), (''SEND OK'', kind_send_ok),
     (''busy p'', kind_busy), (''ready'', kind_ready), (''CONNECT'', kind_connect), (''CLOSED'', kind_closed),
     (''ALREADY CONNECT'', kind_already_connect)]"

definition same_rings :: "esp \<Rightarrow> esp \<Rightarrow> bool" where
  "same_rings w w' \<longleftrightarrow> length (connections w') = length (connections w) \<and>
     (\<forall>j. rx_contents (connections w' ! j) = rx_contents (connections w ! j))"

lemma same_rings_conn_state: "same_rings w (set_conn_state st w)"
proof -
  have "rx_contents (k\<lparr>conn_state := st\<rparr>) = rx_contents k" for k :: at_connection
    by (simp add: rx_contents_def fill_def split: rx_buffer.split)
  then have "rx_contents (ks[i := (ks ! i)\<lparr>conn_state := st\<rparr>] ! j) = rx_contents (ks ! j)" for ks i j
    by (cases "i = j"; cases "j < length ks") (simp_all add: not_less list_update_beyond)
  then show ?thesis by (simp add: same_rings_def set_conn_state_def split: option.splits)
qed

lemma set_conn_state_fields [simp]:
  "serial (set_conn_state st w) = serial w" "dtq (set_conn_state st w) = dtq w"
  by (simp_all add: set_conn_state_def split: option.splits)

definition reports :: "at_response_kind \<Rightarrow> (esp_env \<Rightarrow> esp \<Rightarrow> int \<Rightarrow> (at_parse_state \<times> esp) outcome) \<Rightarrow> bool" where
  "reports k f \<longleftrightarrow> (\<forall>env w n. \<exists>w'. f env w n = Inr (at_none, w') \<and> response_kind (serial w') = k \<and>
     dtq w' = dtq w \<and> same_rings w w')"

text \<open>Where a word stands in the table.\<close>

definition word_entry :: "string \<Rightarrow> nat \<Rightarrow> bool" where
  "word_entry t i \<longleftrightarrow> t \<noteq> [] \<and> isalpha (hd t) \<and> list_all name_char (tl t) \<and> length t < 60 \<and>
     get_response response_table t = Some i \<and> i < length response_table"

lemma word_entries:
  "word_entry ''ALREADY CONNECT'' 10" "word_entry ''ERROR'' 11" "word_entry ''FAIL'' 12"
  "word_entry ''OK'' 13" "word_entry ''SEND OK'' 14" "word_entry ''WIFI CONNECTED'' 15"
  "word_entry ''WIFI DISCONNECT'' 16" "word_entry ''WIFI GOT IP'' 17" "word_entry ''busy p'' 18"
  "word_entry ''ready'' 19" "word_entry ''CONNECT'' 21" "word_entry ''CLOSED'' 22"
  by (simp_all add: word_entry_def get_response_def response_table_def entry_def name_char_def c_char)

lemma word_exec:
  "exec_response (response_table ! 10) = at_already_connect_exec" "exec_response (response_table ! 11) = at_error_exec"
  "exec_response (response_table ! 12) = at_fail_exec" "exec_response (response_table ! 13) = at_ok_exec"
  "exec_response (response_table ! 14) = at_send_ok_exec" "exec_response (response_table ! 15) = at_wifi_connected_exec"
  "exec_response (response_table ! 16) = at_wifi_disconnect_exec" "exec_response (response_table ! 17) = at_wifi_got_ip_exec"
  "exec_response (response_table ! 18) = at_busy_exec" "exec_response (response_table ! 19) = at_ready_exec"
  "exec_response (response_table ! 21) = at_connect_exec" "exec_response (response_table ! 22) = at_closed_exec"
  by (simp_all add: response_table_def entry_def)

lemma word_no_NUL: "word_entry t i \<Longrightarrow> NUL \<notin> set t"
proof -
  assume "word_entry t i"
  then obtain c cs where t: "t = c # cs" "isalpha c" "\<forall>x\<in>set cs. name_char x"
    by (cases t) (simp_all add: word_entry_def list_all_iff)
  have "NUL \<noteq> x" if "x \<in> set cs" for x using name_char_not [of x] t(3) that by auto
  with isalpha_not_special(1) [OF t(2)] t(1) show ?thesis by auto
qed

lemma run_word_entry:
  assumes "stage w0 at_none None n P w" "word_entry t i"
  obtains w1 where "stage w0 at_crlf (Some i) 0 zero_params w1"
    "run env w (t @ [CR, LF]) = cbind (call_exec response_table env w1)
       (\<lambda>w2. Inr (send_kind (set_response None (set_string_pos 0 w2))))"
proof -
  from assms(2) obtain c cs where t: "t = c # cs" by (cases t) (simp_all add: word_entry_def)
  with assms(2) have w: "isalpha c" "\<forall>x\<in>set cs. name_char x" "length cs < string_size - 2"
    and g: "get_response response_table t = Some i" by (simp_all add: word_entry_def list_all_iff)
  obtain u where u: "run env w (c # cs) = Inr u" "stage w0 at_response None n P u" "holds_text u (c # cs)"
    by (rule run_word [OF assms(1) w])
  obtain w1 where "stage w0 at_crlf (Some i) 0 zero_params w1"
    "run env u [CR, LF] = cbind (call_exec response_table env w1)
       (\<lambda>w2. Inr (send_kind (set_response None (set_string_pos 0 w2))))"
    by (rule answer_end [OF u(2) u(3) [folded t] word_no_NUL [OF assms(2)] g])
  with run_trans [OF u(1), of "[CR, LF]"] t that show thesis by simp
qed

text \<open>A word behind a link id: the id goes into the parameter block.\<close>

lemma run_link_digits:
  "stage w0 at_link_id r n P w \<Longrightarrow> number (serial w) = v \<Longrightarrow> 0 \<le> v \<Longrightarrow> \<forall>c\<in>set ds. isdigit c \<Longrightarrow>
   scan_digits v ds < 2 ^ 31 \<Longrightarrow>
   \<exists>w1. run env w ds = Inr w1 \<and> stage w0 at_link_id r n P w1 \<and> number (serial w1) = scan_digits v ds"
proof (induction ds arbitrary: w v)
  case Nil
  then show ?case by simp
next
  case (Cons c ds)
  let ?v = "v * 10 + digit_val c"
  have c: "isdigit c" "0 \<le> digit_val c" using Cons.prems digit_val_bounds [of c] by simp_all
  have "?v \<le> scan_digits ?v ds" using Cons.prems c by (intro scan_digits_mono) simp_all
  with Cons.prems c have v: "0 \<le> ?v" "?v < 2 ^ 31" "v * 10 < 2 ^ 31" by simp_all
  have same: "set_state at_link_id w = w"
    using stage_fields(2) [OF Cons.prems(1)] by (simp add: set_state_def upd_serial_def)
  have s: "step env w c = Inr (False, set_number ?v w)"
    using stage_fields(2) [OF Cons.prems(1)] c v Cons.prems(2,3) same
    by (simp add: proc_atc_res_def proc_link_id_def add_digit_def int_ok_def int_add_def Let_def)
  have "stage w0 at_link_id r n P (set_number ?v w)" by (rule stage_number [OF Cons.prems(1)])
  moreover have "number (serial (set_number ?v w)) = ?v" by (simp add: esp_upd)
  ultimately obtain w1 where "run env (set_number ?v w) ds = Inr w1" "stage w0 at_link_id r n P w1"
    "number (serial w1) = scan_digits ?v ds" using Cons.IH Cons.prems v by fastforce
  with run_Cons_False [OF s] show ?case by simp
qed

lemma run_link_id:
  assumes "stage w0 at_none None n P w" "int m < 2 ^ 31"
  obtains w1 where "run env w (dec_nat m @ '','') = Inr w1"
    "stage w0 at_response None 0 (zero_params\<lparr>link_id := int m\<rparr>) w1" "holds_text w1 []"
proof -
  obtain c ds where m: "dec_nat m = c # ds" by (cases "dec_nat m") simp_all
  with dec_nat_digits [of m] scan_dec_nat [of m] have d: "isdigit c" "\<forall>c\<in>set ds. isdigit c"
    "scan_digits (digit_val c) ds = int m" by simp_all
  let ?w = "set_state at_link_id (set_number (digit_val c) w)"
  have s: "step env w c = Inr (False, ?w)"
    using stage_fields(2) [OF assms(1)] d isdigit_not_special [OF d(1)] by (simp add: proc_atc_res_def proc_none_def)
  have "stage w0 at_link_id None n P ?w" by (rule stage_state [OF stage_number [OF assms(1)]])
  moreover have "number (serial ?w) = digit_val c" by (simp add: esp_upd)
  ultimately obtain u where u: "run env ?w ds = Inr u" "stage w0 at_link_id None n P u" "number (serial u) = int m"
    using run_link_digits [of w0 None n P ?w "digit_val c" ds env] digit_val_bounds [OF d(1)] d assms(2) by auto
  let ?v = "set_state at_response (set_string_pos 0
         (upd_params (\<lambda>p. p\<lparr>link_id := number (serial u)\<rparr>) (reset_params u)))"
  have e: "step env u (CHR '','') = Inr (False, ?v)"
    using stage_fields(2) [OF u(2)] by (simp add: proc_atc_res_def proc_link_id_def c_char)
  have sv: "stage w0 at_response None 0 (zero_params\<lparr>link_id := int m\<rparr>) ?v"
  proof (rule stage_move [OF u(2), where buf = "string_buf (serial ?v)" and pos = "string_pos (serial ?v)"
      and num = "number (serial ?v)"])
    show "text_ok (serial ?v)" using stage_fields(1) [OF u(2)] by (simp add: esp_upd text_ok_def reset_params_def)
  qed (use stage_fields(2-5) [OF u(2)] u(3) in \<open>simp add: esp_upd reset_params_def\<close>)
  have "holds_text ?v []" using stage_fields(1) [OF sv] by (simp add: holds_text_def text_ok_def esp_upd)
  moreover have "run env w (dec_nat m @ '','') = Inr ?v"
    using run_Cons_False [OF s, of "ds @ '',''"] run_trans [OF u(1), of "'',''"] e m by simp
  ultimately show thesis using that sv by blast
qed

lemma reports_exec:
  "reports kind_ok at_ok_exec" "reports kind_error at_error_exec" "reports kind_fail at_fail_exec"
  "reports kind_send_ok at_send_ok_exec" "reports kind_busy at_busy_exec" "reports kind_ready at_ready_exec"
  "reports kind_connect at_connect_exec" "reports kind_closed at_closed_exec"
  "reports kind_already_connect at_already_connect_exec"
proof -
  have same: "same_rings w (upd_serial f w)" "same_rings w (upd_serial f (set_conn_state st w))" for w f st
    using same_rings_conn_state [of w st] by (simp_all add: same_rings_def upd_serial_def)
  have same2: "same_rings w (upd_serial f (upd_serial g w))" for w f g
    by (simp add: same_rings_def upd_serial_def)
  note defs = at_ok_exec_def at_error_exec_def at_fail_exec_def at_send_ok_exec_def at_busy_exec_def
      at_ready_exec_def at_connect_exec_def at_closed_exec_def at_already_connect_exec_def set_kind_def upd_current_def
  have fields: "dtq (upd_serial f w) = dtq w" "serial (upd_serial f w) = f (serial w)" for f w
    by (simp_all add: upd_serial_def)
  show "reports kind_ok at_ok_exec" "reports kind_error at_error_exec" "reports kind_fail at_fail_exec"
    "reports kind_send_ok at_send_ok_exec" "reports kind_busy at_busy_exec" "reports kind_ready at_ready_exec"
    "reports kind_connect at_connect_exec" "reports kind_closed at_closed_exec"
    "reports kind_already_connect at_already_connect_exec"
    by (simp_all add: reports_def defs same same2 fields)
qed

definition reported :: "string \<Rightarrow> at_response_kind \<Rightarrow> bool" where
  "reported t k \<longleftrightarrow> (\<exists>i. word_entry t i \<and> reports k (exec_response (response_table ! i)))"

lemma reportedI:
  "word_entry t i \<Longrightarrow> exec_response (response_table ! i) = f \<Longrightarrow> reports k f \<Longrightarrow> reported t k"
  unfolding reported_def by blast

lemma answer_words_reported:
  "reported ''OK'' kind_ok"
  "reported ''ERROR'' kind_error"
  "reported ''FAIL'' kind_fail"
  "reported ''SEND OK'' kind_send_ok"
  "reported ''busy p'' kind_busy"
  "reported ''ready'' kind_ready"
  "reported ''CONNECT'' kind_connect"
  "reported ''CLOSED'' kind_closed"
  "reported ''ALREADY CONNECT'' kind_already_connect"
  apply (rule reportedI [OF word_entries(4) word_exec(4) reports_exec(1)])
  apply (rule reportedI [OF word_entries(2) word_exec(2) reports_exec(2)])
  apply (rule reportedI [OF word_entries(3) word_exec(3) reports_exec(3)])
  apply (rule reportedI [OF word_entries(5) word_exec(5) reports_exec(4)])
  apply (rule reportedI [OF word_entries(9) word_exec(9) reports_exec(5)])
  apply (rule reportedI [OF word_entries(10) word_exec(10) reports_exec(6)])
  apply (rule reportedI [OF word_entries(11) word_exec(11) reports_exec(7)])
  apply (rule reportedI [OF word_entries(12) word_exec(12) reports_exec(8)])
  apply (rule reportedI [OF word_entries(1) word_exec(1) reports_exec(9)])
  done

lemma reports_word:
  assumes "(t, k) \<in> set answer_words"
  obtains i where "word_entry t i" "reports k (exec_response (response_table ! i))"
proof -
  from assms answer_words_reported have "reported t k" by (auto simp: answer_words_def)
  with that show thesis by (auto simp: reported_def)
qed

lemma idle_stage:
  assumes "parser_inv response_table w" "parse_state (serial w) = at_none"
  shows "stage w at_none None (param_pos (serial w)) (par w) w"
  using stage_refl [OF parser_invD(2) [OF assms(1)]] assms(2) parser_invD(4) [OF assms(1)] by simp

lemma finish_fields [simp]:
  "parse_state (serial (send_kind w)) = parse_state (serial w)"
  "response_kind (serial (send_kind w)) = kind_no_set"
  "connections (send_kind w) = connections w"
  "cur (send_kind w) = cur w" "rtc (send_kind w) = rtc w"
  "dtq (send_kind w) = (if response_kind (serial w) \<noteq> kind_no_set \<and> length (dtq w) < NUM_ESP_AT
     then dtq w @ [response_kind (serial w)] else dtq w)"
  "connections (set_response r w) = connections w" "connections (set_string_pos n w) = connections w"
  "dtq (set_response r w) = dtq w" "dtq (set_string_pos n w) = dtq w" "dtq (set_state st w) = dtq w"
  "rtc (set_response r w) = rtc w" "rtc (set_string_pos n w) = rtc w" "rtc (set_state st w) = rtc w"
  "response_kind (serial (set_response r w)) = response_kind (serial w)"
  "response_kind (serial (set_string_pos n w)) = response_kind (serial w)"
  "response_kind (serial (set_state st w)) = response_kind (serial w)"
  by (simp_all add: send_kind_def esp_upd)

section \<open>Free text\<close>

text \<open>A parameter that starts with a letter is one text up to the end of the line.\<close>

lemma run_line_body:
  "stage w0 at_line_text r n P w \<Longrightarrow> holds_text w t \<Longrightarrow> \<forall>c\<in>set cs. isprint c \<Longrightarrow>
   length t + length cs < string_size \<Longrightarrow>
   \<exists>w1. run env w cs = Inr w1 \<and> stage w0 at_line_text r n P w1 \<and> holds_text w1 (t @ cs)"
proof (induction cs arbitrary: w t)
  case Nil
  then show ?case by simp
next
  case (Cons c cs)
  let ?w = "set_state at_line_text (append c w)"
  have "c \<noteq> CR" "c \<noteq> LF" using Cons.prems(3) by (auto simp: isprint_def code_def)
  then have s: "step env w c = Inr (False, ?w)"
    using stage_fields(2) [OF Cons.prems(1)] Cons.prems(3)
    by (simp add: proc_atc_res_def proc_line_text_def goto_def)
  have "stage w0 at_line_text r n P ?w" by (rule stage_state [OF stage_append [OF Cons.prems(1)]])
  moreover have "holds_text ?w (t @ [c])" using Cons.prems by (simp add: holds_text_append)
  ultimately obtain w1 where "run env ?w cs = Inr w1" "stage w0 at_line_text r n P w1" "holds_text w1 ((t @ [c]) @ cs)"
    using Cons.IH [of ?w "t @ [c]"] Cons.prems by auto
  with run_Cons_False [OF s] show ?case by auto
qed

lemma run_line:
  assumes "stage w0 at_parameter r n P w" "isalpha c" "\<forall>x\<in>set cs. isprint x" "length cs < string_size - 1"
  obtains w1 where "run env w (c # cs) = Inr w1" "stage w0 at_line_text r n P w1" "holds_text w1 (c # cs)"
proof -
  let ?w = "set_state at_line_text (start_string c w)"
  have s: "step env w c = Inr (False, ?w)"
    using stage_fields(2) [OF assms(1)] assms(2) by (simp add: proc_atc_res_def proc_parameter_def)
  have st: "stage w0 at_line_text r n P ?w" by (rule stage_state [OF stage_start [OF assms(1)]])
  have t: "holds_text ?w [c]"
    using holds_text_start [of w c] stage_fields(1) [OF assms(1)] by (simp add: text_ok_def)
  from run_line_body [OF st t assms(3), of env] assms(4) obtain w1 where
    "run env ?w cs = Inr w1" "stage w0 at_line_text r n P w1" "holds_text w1 (c # cs)" by auto
  with run_Cons_False [OF s, of cs] that show thesis by simp
qed

lemma run_free_text:
  assumes "stage w0 at_parameter (Some i) 0 P w" "isalpha c" "\<forall>x\<in>set cs. isprint x" "length cs < string_size - 1"
    "i < length response_table"
    and "\<And>w. par w = P \<Longrightarrow> text_of w VStr = Inr (c # cs) \<Longrightarrow>
      next_parameter (response_table ! i) env w 1 at_param_symbol VStr = Inr (True, upd_params (\<lambda>_. P') w)"
  obtains w1 where "stage w0 at_crlf (Some i) 1 P' w1"
    "run env w (c # cs @ [CR, LF]) = cbind (call_exec response_table env w1)
       (\<lambda>w2. Inr (send_kind (set_response None (set_string_pos 0 w2))))"
proof -
  obtain u where u: "run env w (c # cs) = Inr u" "stage w0 at_line_text (Some i) 0 P u" "holds_text u (c # cs)"
    by (rule run_line [OF assms(1-4)])
  have "isprint c" using assms(2) by (auto simp: c_char)
  with assms(3) have no: "NUL \<notin> set (c # cs)" by (auto simp: isprint_def code_def)
  let ?u = "append NUL u"
  have su: "stage w0 at_line_text (Some i) 0 P ?u" by (rule stage_append [OF u(2)])
  let ?v = "upd_serial (\<lambda>s. s\<lparr>param_pos := 0 + 1\<rparr>) ?u"
  have "par ?v = P" using stage_fields(5) [OF su] by (simp add: esp_upd)
  moreover have "text_of ?v VStr = Inr (c # cs)" by (rule text_of_stage [OF u(3) no])
  ultimately have "next_parameter (response_table ! i) env ?v 1 at_param_symbol VStr = Inr (True, upd_params (\<lambda>_. P') ?v)"
    by (rule assms(6))
  then have nx: "next_parameter (response_table ! i) env ?v (0 + 1) at_param_symbol VStr = Inr (True, upd_params (\<lambda>_. P') ?v)"
    by simp
  have small: "(0 :: int) \<le> 0" "(0 :: int) < 100" by simp_all
  let ?x = "set_state at_crlf (upd_serial (\<lambda>s. s\<lparr>param_pos := 0 + 1, params := P'\<rparr>) ?u)"
  have s: "step env u CR = Inr (False, ?x)"
    using stage_fields(2) [OF u(2)]
      call_next_stage [OF su assms(5) small nx, of "\<lambda>w1. if CR = LF then proc_crlf response_table env w1 CR else goto at_crlf w1"]
    by (simp add: proc_atc_res_def proc_line_text_def goto_def)
  have st: "stage w0 at_crlf (Some i) 1 P' ?x" using stage_state [OF stage_params [OF su], of at_crlf 1] by simp
  have "step env ?x LF = cbind (call_exec response_table env ?x) (\<lambda>w1. Inr (True, set_response None (set_string_pos 0 w1)))"
    using stage_fields(2,3) [OF st] by (simp add: proc_atc_res_def proc_crlf_def)
  then have "run env ?x [LF] = cbind (call_exec response_table env ?x)
       (\<lambda>w2. Inr (send_kind (set_response None (set_string_pos 0 w2))))"
    by (cases "call_exec response_table env ?x") simp_all
  with run_trans [OF u(1), of "[CR, LF]"] run_Cons_False [OF s, of "[LF]"] that [OF st] show thesis by simp
qed

lemma word_reported:
  assumes "parser_inv response_table w" "parse_state (serial w) = at_none" "(t, k) \<in> set answer_words"
  shows "\<exists>w'. esp_at_rx_handler response_table env w (t @ [CR, LF]) = Inr w' \<and>
    parse_state (serial w') = at_none \<and> response_kind (serial w') = kind_no_set \<and> same_rings w w' \<and>
    dtq w' = (if length (dtq w) < NUM_ESP_AT then dtq w @ [k] else dtq w)"
proof -
  obtain i where i: "word_entry t i" "reports k (exec_response (response_table ! i))" by (rule reports_word [OF assms(3)])
  have il: "i < length response_table" using i(1) by (simp add: word_entry_def)
  have k: "k \<noteq> kind_no_set" using assms(3) by (auto simp: answer_words_def)
  obtain w1 where w1: "stage w at_crlf (Some i) 0 zero_params w1"
    "run env w (t @ [CR, LF]) = cbind (call_exec response_table env w1)
       (\<lambda>w2. Inr (send_kind (set_response None (set_string_pos 0 w2))))"
    by (rule run_word_entry [OF idle_stage [OF assms(1,2)] i(1)])
  from i(2) obtain w2 where w2: "exec_response (response_table ! i) env w1 0 = Inr (at_none, w2)"
    "response_kind (serial w2) = k" "dtq w2 = dtq w1" "same_rings w1 w2" unfolding reports_def by blast
  with stage_fields(3,4) [OF w1(1)] il have "call_exec response_table env w1 = Inr (set_state at_none w2)"
    by (simp add: call_exec_def)
  with w1(2) have r: "run env w (t @ [CR, LF]) = Inr (send_kind (set_response None (set_string_pos 0 (set_state at_none w2))))"
    by simp
  show ?thesis
    by (rule exI, rule conjI [OF r])
      (use w2 stage_fields(7,8) [OF w1(1)] k in \<open>simp add: same_rings_def\<close>)
qed

lemma connect_marks_zero:
  assumes "parser_inv response_table w" "parse_state (serial w) = at_none" "n < 2 ^ 31"
  shows "\<exists>w'. esp_at_rx_handler response_table env w (dec_nat n @ '',CONNECT'' @ [CR, LF]) = Inr w' \<and>
    parse_state (serial w') = at_none \<and>
    dtq w' = (if length (dtq w) < NUM_ESP_AT then dtq w @ [kind_connect] else dtq w) \<and>
    conn_state (connections w' ! 0) = conn_connected \<and>
    (\<forall>j. j \<noteq> 0 \<longrightarrow> connections w' ! j = connections w ! j) \<and> response_kind (serial w') = kind_no_set"
proof -
  have n: "int n < 2 ^ 31" using assms(3) by simp
  obtain u where u: "run env w (dec_nat n @ '','') = Inr u"
    "stage w at_response None 0 (zero_params\<lparr>link_id := int n\<rparr>) u" "holds_text u []"
    by (rule run_link_id [OF idle_stage [OF assms(1,2)] n])
  have nc: "\<forall>c\<in>set ''CONNECT''. name_char c" by (simp add: name_char_def c_char)
  from run_name [OF disjI2 [OF refl] u(2,3) nc, of env] obtain v where
    v: "run env u ''CONNECT'' = Inr v" "stage w at_response None 0 (zero_params\<lparr>link_id := int n\<rparr>) v"
    "holds_text v ''CONNECT''" by auto
  have i: "get_response response_table ''CONNECT'' = Some 21" "21 < length response_table"
    using word_entries(11) by (simp_all add: word_entry_def)
  obtain w1 where w1: "stage w at_crlf (Some 21) 0 zero_params w1"
    "run env v [CR, LF] = cbind (call_exec response_table env w1)
       (\<lambda>w2. Inr (send_kind (set_response None (set_string_pos 0 w2))))"
    by (rule answer_end [OF v(2,3) _ i(1)]) simp
  have c: "conns_ok (connections w)" using parser_invD(1) [OF assms(1)] by (simp add: data_ok_def)
  have zero: "link_id zero_params = 0" by (simp add: zero_params_def)
  have "set_conn_state conn_connected w1
      = w1\<lparr>connections := (connections w)[0 := (connections w ! 0)\<lparr>conn_state := conn_connected\<rparr>]\<rparr>"
    using stage_fields(5,7) [OF w1(1)] get_connection_ok [OF c, of 0] by (simp add: set_conn_state_def zero)
  with stage_fields(3,4) [OF w1(1)] i(2) word_exec(11) have
    "call_exec response_table env w1 = Inr (set_state at_none (set_kind kind_connect
      (w1\<lparr>connections := (connections w)[0 := (connections w ! 0)\<lparr>conn_state := conn_connected\<rparr>]\<rparr>)))"
    by (simp add: call_exec_def at_connect_exec_def)
  moreover have "run env w (dec_nat n @ '',CONNECT'' @ [CR, LF]) = run env v [CR, LF]"
    using run_trans [OF u(1), of "''CONNECT'' @ [CR, LF]"] run_trans [OF v(1), of "[CR, LF]"] by simp
  ultimately have r: "run env w (dec_nat n @ '',CONNECT'' @ [CR, LF])
      = Inr (send_kind (set_response None (set_string_pos 0 (set_state at_none (set_kind kind_connect
      (w1\<lparr>connections := (connections w)[0 := (connections w ! 0)\<lparr>conn_state := conn_connected\<rparr>]\<rparr>))))))"
    using w1(2) by simp
  have sk: "connections (set_kind k w') = connections w'" for k w' by (simp add: esp_upd)
  have kf: "response_kind (serial (set_kind k w')) = k" "dtq (set_kind k w') = dtq w'" for k w'
    by (simp_all add: esp_upd)
  have ss: "connections (set_state k w') = connections w'" for k w' by (simp add: esp_upd)
  show ?thesis
    by (rule exI, rule conjI [OF r]) (use conns_ok_length [OF c] stage_fields(8) [OF w1(1)] in \<open>simp add: sk ss kf\<close>)
qed

section \<open>Properties\<close>

text \<open>
  One byte keeps the parser's invariant (text buffer within its 64 bytes, response
  pointer non-NULL and inside the table wherever it is dereferenced, counters in range,
  connection table well formed) or runs into one of four causes of undefined behaviour: a
  number too long for \<open>int\<close>, a number where a text is expected, a text of 36 or more
  characters for an \<open>ssid\<close>, or payload for a connection without a receive buffer.  No other
  undefined behaviour is reachable: no NULL response, no overflow of the text buffer, no
  unterminated string.
\<close>

theorem proc_atc_res_safe:
  assumes "parser_inv response_table w"
  shows "case proc_atc_res response_table env w c of
      Inr (b, w') \<Rightarrow> parser_inv response_table w' | Inl u \<Rightarrow> at_fault w c u"
  using step_safe_table [OF assms, of c env] by (simp add: safe_step_def)

theorem proc_atc_res_safe_witness:
  "case proc_atc_res response_table plain_env (init_esp_at clock_stopped) (CHR ''+'') of
      Inr (b, w') \<Rightarrow> parser_inv response_table w' | Inl u \<Rightarrow> at_fault (init_esp_at clock_stopped) (CHR ''+'') u"
  by (rule proc_atc_res_safe [OF init_parser_inv])

text \<open>
  Claim C34.  Whatever bytes the modem sends after start-up, the receive handler either ends in a
  state that satisfies the invariant or stops at a byte with one of the four causes; in
  particular the parse states \<open>at_symbol\<close> and \<open>at_cr\<close> are never entered.
\<close>

theorem rx_handler_safe:
  "case esp_at_rx_handler response_table env (init_esp_at regs) cs of
     Inr w \<Rightarrow> parser_inv response_table w \<and> parse_state (serial w) \<notin> {at_symbol, at_cr}
   | Inl u \<Rightarrow> \<exists>ds c es w. cs = ds @ c # es \<and>
       esp_at_rx_handler response_table env (init_esp_at regs) ds = Inr w \<and>
       parser_inv response_table w \<and> at_fault w c u"
  using run_safe [OF init_parser_inv [of response_table regs], of cs env]
  by (cases "run env (init_esp_at regs) cs") (simp_all add: parser_inv_def state_ok_def)

text \<open>
  From the idle parser, each result word the driver waits for, ended by CR LF, is
  reported as its own kind exactly once (unless the queue of four is full), leaves the parser
  idle and the data in all receive rings unchanged.
\<close>

theorem answer_word_reported:
  assumes "parser_inv response_table w" "parse_state (serial w) = at_none" "(t, k) \<in> set answer_words"
  shows "\<exists>w'. esp_at_rx_handler response_table env w (t @ [CR, LF]) = Inr w' \<and>
    parse_state (serial w') = at_none \<and> response_kind (serial w') = kind_no_set \<and> same_rings w w' \<and>
    dtq w' = (if length (dtq w) < NUM_ESP_AT then dtq w @ [k] else dtq w)"
  by (rule word_reported [OF assms])

theorem answer_word_reported_witness:
  "\<exists>w'. esp_at_rx_handler response_table plain_env one_open (''SEND OK'' @ [CR, LF]) = Inr w' \<and>
    parse_state (serial w') = at_none \<and> response_kind (serial w') = kind_no_set \<and> same_rings one_open w' \<and>
    dtq w' = (if length (dtq one_open) < NUM_ESP_AT then dtq one_open @ [kind_send_ok] else dtq one_open)"
  by (rule answer_word_reported [OF one_open_ok(1,2)]) (simp_all add: answer_words_def)

text \<open>
  The link id in front of \<open>CONNECT\<close> is lost: the parameter block it was put in is
  cleared at the end of the word, so \<open><n>,CONNECT\<close> marks connection 0 as connected, whatever \<open>n\<close>
  is, and every other connection, \<open>n\<close> included, keeps its state.
\<close>

theorem link_id_of_connect_lost:
  assumes "parser_inv response_table w" "parse_state (serial w) = at_none" "n < 2 ^ 31"
  shows "\<exists>w'. esp_at_rx_handler response_table env w (dec_nat n @ '',CONNECT'' @ [CR, LF]) = Inr w' \<and>
    conn_state (connections w' ! 0) = conn_connected \<and>
    (\<forall>j. j \<noteq> 0 \<longrightarrow> connections w' ! j = connections w ! j)"
  using connect_marks_zero [OF assms, of env] by blast

theorem link_id_of_connect_lost_witness:
  "\<exists>w'. esp_at_rx_handler response_table plain_env one_open (dec_nat 1 @ '',CONNECT'' @ [CR, LF]) = Inr w' \<and>
    conn_state (connections w' ! 0) = conn_connected \<and>
    (\<forall>j. j \<noteq> 0 \<longrightarrow> connections w' ! j = connections one_open ! j)"
  by (rule link_id_of_connect_lost [OF one_open_ok(1,2)]) simp

text \<open>The words of the wireless link, and the state each announces.\<close>

definition wifi_words :: "(string \<times> at_wifi_state) list" where
  "wifi_words = [(''WIFI CONNECTED'', wifi_connected), (''WIFI DISCONNECT'', wifi_disconnected),
     (''WIFI GOT IP'', wifi_got_ip)]"

lemma wifi_word_exec:
  assumes "(t, st) \<in> set wifi_words"
  obtains i where "word_entry t i"
    "\<forall>env w n. exec_response (response_table ! i) env w n = Inr (at_none, upd_current (\<lambda>c. c\<lparr>wifi_state := st\<rparr>) w)"
proof -
  have "exec_response (response_table ! 15) env w n = Inr (at_none, upd_current (\<lambda>c. c\<lparr>wifi_state := wifi_connected\<rparr>) w)"
    "exec_response (response_table ! 16) env w n = Inr (at_none, upd_current (\<lambda>c. c\<lparr>wifi_state := wifi_disconnected\<rparr>) w)"
    "exec_response (response_table ! 17) env w n = Inr (at_none, upd_current (\<lambda>c. c\<lparr>wifi_state := wifi_got_ip\<rparr>) w)" for env w n
    unfolding word_exec by (simp_all add: at_wifi_connected_exec_def at_wifi_disconnect_exec_def at_wifi_got_ip_exec_def)
  then have "\<exists>i. word_entry t i \<and> (\<forall>env w n. exec_response (response_table ! i) env w n
      = Inr (at_none, upd_current (\<lambda>c. c\<lparr>wifi_state := st\<rparr>) w))"
    using assms word_entries(6,7,8) unfolding wifi_words_def by auto
  then obtain i where "word_entry t i" "\<forall>env w n. exec_response (response_table ! i) env w n
      = Inr (at_none, upd_current (\<lambda>c. c\<lparr>wifi_state := st\<rparr>) w)" by blast
  from that [OF this] show thesis .
qed

text \<open>
  The words \<open>WIFI CONNECTED\<close>, \<open>WIFI DISCONNECT\<close> and \<open>WIFI GOT IP\<close> set the state of
  the link that \<open>prepare_esp_at\<close> tests, change nothing else of the current state, and are not
  reported to a waiting caller.
\<close>

theorem wifi_word_tracked:
  assumes "parser_inv response_table w" "parse_state (serial w) = at_none" "(t, st) \<in> set wifi_words"
    "response_kind (serial w) = kind_no_set"
  shows "\<exists>w'. esp_at_rx_handler response_table env w (t @ [CR, LF]) = Inr w' \<and>
    parse_state (serial w') = at_none \<and> cur w' = (cur w)\<lparr>wifi_state := st\<rparr> \<and>
    connections w' = connections w \<and> dtq w' = dtq w"
proof -
  obtain i where i: "word_entry t i"
    "\<forall>env w n. exec_response (response_table ! i) env w n = Inr (at_none, upd_current (\<lambda>c. c\<lparr>wifi_state := st\<rparr>) w)"
    by (rule wifi_word_exec [OF assms(3)])
  have il: "i < length response_table" using i(1) by (simp add: word_entry_def)
  obtain w1 where w1: "stage w at_crlf (Some i) 0 zero_params w1"
    "run env w (t @ [CR, LF]) = cbind (call_exec response_table env w1)
       (\<lambda>w2. Inr (send_kind (set_response None (set_string_pos 0 w2))))"
    by (rule run_word_entry [OF idle_stage [OF assms(1,2)] i(1)])
  let ?w2 = "upd_current (\<lambda>c. c\<lparr>wifi_state := st\<rparr>) w1"
  have r: "run env w (t @ [CR, LF]) = Inr (send_kind (set_response None (set_string_pos 0 (set_state at_none ?w2))))"
    using w1(2) stage_fields(3,4) [OF w1(1)] il i(2) by (simp add: call_exec_def)
  have f: "cur ?w2 = (cur w1)\<lparr>wifi_state := st\<rparr>" "connections ?w2 = connections w1" "dtq ?w2 = dtq w1"
    "response_kind (serial ?w2) = response_kind (serial w1)" "\<And>st. connections (set_state st ?w2) = connections ?w2"
    by (simp_all add: esp_upd)
  show ?thesis
    by (rule exI, rule conjI [OF r]) (use stage_fields(6-8,11) [OF w1(1)] f assms(4) in simp)
qed

theorem wifi_word_tracked_witness:
  "\<exists>w'. esp_at_rx_handler response_table plain_env one_open (''WIFI GOT IP'' @ [CR, LF]) = Inr w' \<and>
    parse_state (serial w') = at_none \<and> cur w' = (cur one_open)\<lparr>wifi_state := wifi_got_ip\<rparr> \<and>
    connections w' = connections one_open \<and> dtq w' = dtq one_open"
  by (rule wifi_word_tracked [OF one_open_ok(1,2)])
    (simp_all add: wifi_words_def one_open_def init_esp_at_def initial_serial_def)

text \<open>
  The modem's answer to \<open>AT+CIPSNTPTIME?\<close> sets the time: when the C library reads the
  text as the date \<open>tm\<close> and it lies after 2020-01-01, the current time becomes the seconds of
  the calendar and the clock is set to the broken-down time of these seconds; an earlier date
  changes neither.
\<close>

theorem sntp_answer_sets_clock:
  assumes "parser_inv response_table w" "parse_state (serial w) = at_none" "response_kind (serial w) = kind_no_set"
    "isalpha c" "\<forall>x\<in>set cs. isprint x" "length cs < string_size - 1"
    "strptime env (c # cs) = Some tm"
  shows "\<exists>w'. esp_at_rx_handler response_table env w (''+CIPSNTPTIME:'' @ c # cs @ [CR, LF]) = Inr w' \<and>
    parse_state (serial w') = at_none \<and> dtq w' = dtq w \<and>
    (if calendar_secs tm > calendar_secs minimum_year_tm
     then date_time (cur w') = calendar_secs tm \<and> rtc w' = rtc_set_time (gmtime env (calendar_secs tm)) (rtc w)
     else date_time (cur w') = date_time (cur w) \<and> rtc w' = rtc w)"
proof -
  have ch: "\<forall>c\<in>set ''CIPSNTPTIME''. name_char c" by (simp add: name_char_def c_char)
  have e: "get_response response_table ''+CIPSNTPTIME'' = Some 3" "3 < length response_table"
    "next_parameter (response_table ! 3) = at_cipsntptime_set_param" "exec_response (response_table ! 3) = at_cipsntptime_exec"
    by (simp_all add: get_response_def response_table_def entry_def)
  obtain w1 where w1: "run env w (CHR ''+'' # ''CIPSNTPTIME'') = Inr w1"
    "stage w at_informtion None (param_pos (serial w)) (par w) w1" "holds_text w1 (CHR ''+'' # ''CIPSNTPTIME'')"
    by (rule run_information [OF idle_stage [OF assms(1,2)] ch]) simp_all
  obtain w2 where w2: "step env w1 (CHR '':'') = Inr (False, w2)" "stage w at_parameter (Some 3) 0 zero_params w2"
    by (rule step_separator [OF w1(2,3) _ e(1) disjI1 [OF refl]]) simp
  let ?P = "zero_params\<lparr>date_time := calendar_secs tm\<rparr>"
  obtain w3 where w3: "stage w at_crlf (Some 3) 1 ?P w3"
    "run env w2 (c # cs @ [CR, LF]) = cbind (call_exec response_table env w3)
       (\<lambda>w2. Inr (send_kind (set_response None (set_string_pos 0 w2))))"
  proof (rule run_free_text [OF w2(2) assms(4-6) e(2), where P' = ?P and env = env])
    show "next_parameter (response_table ! 3) env w 1 at_param_symbol VStr = Inr (True, upd_params (\<lambda>_. ?P) w)"
      if "par w = zero_params" "text_of w VStr = Inr (c # cs)" for w
      using that assms(7) by (simp add: e(3) at_cipsntptime_set_param_def tm_to_secs_eq esp_upd)
  qed
  have go: "run env w (''+CIPSNTPTIME:'' @ c # cs @ [CR, LF]) = run env w2 (c # cs @ [CR, LF])"
    using run_trans [OF w1(1), of "CHR '':'' # c # cs @ [CR, LF]"] w2(1) by simp
  obtain w4 where w4: "w4 = (if calendar_secs tm \<le> calendar_secs minimum_year_tm then w3
    else (upd_current (\<lambda>c. c\<lparr>date_time := calendar_secs tm\<rparr>) w3)\<lparr>rtc := rtc_set_time (gmtime env (calendar_secs tm)) (rtc w3)\<rparr>)"
    by blast
  have "at_cipsntptime_exec env w3 1 = Inr (at_none, w4)"
    using stage_fields(5) [OF w3(1)] unfolding w4 by (simp add: at_cipsntptime_exec_def MINIMUM_YEAR_def tm_to_secs_eq upd_current_def upd_serial_def)
  then have x: "call_exec response_table env w3 = Inr (set_state at_none w4)"
    using stage_fields(3,4) [OF w3(1)] e(2,4) by (simp add: call_exec_def)
  have r: "run env w (''+CIPSNTPTIME:'' @ c # cs @ [CR, LF])
      = Inr (send_kind (set_response None (set_string_pos 0 (set_state at_none w4))))"
    using go w3(2) x by simp
  have f: "dtq w4 = dtq w3" "response_kind (serial w4) = response_kind (serial w3)"
    "rtc w4 = (if calendar_secs tm \<le> calendar_secs minimum_year_tm then rtc w3 else rtc_set_time (gmtime env (calendar_secs tm)) (rtc w3))"
    "date_time (cur w4) = (if calendar_secs tm \<le> calendar_secs minimum_year_tm then date_time (cur w3) else calendar_secs tm)"
    by (simp_all add: w4 esp_upd)
  show ?thesis
    by (rule exI, rule conjI [OF r])
      (use f stage_fields(6,8,9,11) [OF w3(1)] assms(3) in simp)
qed

definition dated_env :: esp_env where
  "dated_env = plain_env\<lparr>strptime := \<lambda>_. Some leap_day\<rparr>"

theorem sntp_answer_sets_clock_witness:
  "\<exists>w'. esp_at_rx_handler response_table dated_env one_open
      (''+CIPSNTPTIME:'' @ CHR ''S'' # ''at Feb 29 23:59:59 2020'' @ [CR, LF]) = Inr w' \<and>
    parse_state (serial w') = at_none \<and> dtq w' = dtq one_open \<and>
    (if calendar_secs leap_day > calendar_secs minimum_year_tm
     then date_time (cur w') = calendar_secs leap_day \<and>
       rtc w' = rtc_set_time (gmtime dated_env (calendar_secs leap_day)) (rtc one_open)
     else date_time (cur w') = date_time (cur one_open) \<and> rtc w' = rtc one_open)"
  by (rule sntp_answer_sets_clock [OF one_open_ok(1,2)])
    (simp_all add: dated_env_def one_open_def init_esp_at_def initial_serial_def c_char)

text \<open>
  The answer to \<open>AT+CIFSR\<close> has the form \<open>+CIFSR:APIP,"192.168.4.1"\<close>: the parser takes
  everything after the colon as one text, so for every such line no address is updated and the
  current state stays as it was.
\<close>

theorem cifsr_answer_ignored:
  assumes "parser_inv response_table w" "parse_state (serial w) = at_none"
    "isalpha c" "\<forall>x\<in>set cs. isprint x" "length cs < string_size - 1"
  shows "\<exists>w'. esp_at_rx_handler response_table env w (''+CIFSR:'' @ c # cs @ [CR, LF]) = Inr w' \<and>
    parse_state (serial w') = at_none \<and> cur w' = cur w"
proof -
  have ch: "\<forall>c\<in>set ''CIFSR''. name_char c" by (simp add: name_char_def c_char)
  have e: "get_response response_table ''+CIFSR'' = Some 1" "1 < length response_table"
    "next_parameter (response_table ! 1) = at_cifsr_set_param" "exec_response (response_table ! 1) = at_cifsr_exec"
    by (simp_all add: get_response_def response_table_def entry_def)
  obtain w1 where w1: "run env w (CHR ''+'' # ''CIFSR'') = Inr w1"
    "stage w at_informtion None (param_pos (serial w)) (par w) w1" "holds_text w1 (CHR ''+'' # ''CIFSR'')"
    by (rule run_information [OF idle_stage [OF assms(1,2)] ch]) simp_all
  obtain w2 where w2: "step env w1 (CHR '':'') = Inr (False, w2)" "stage w at_parameter (Some 1) 0 zero_params w2"
    by (rule step_separator [OF w1(2,3) _ e(1) disjI1 [OF refl]]) simp
  let ?P = "zero_params\<lparr>symbol_kind := string_addr env\<rparr>"
  obtain w3 where w3: "stage w at_crlf (Some 1) 1 ?P w3"
    "run env w2 (c # cs @ [CR, LF]) = cbind (call_exec response_table env w3)
       (\<lambda>w2. Inr (send_kind (set_response None (set_string_pos 0 w2))))"
  proof (rule run_free_text [OF w2(2) assms(3-5) e(2), where P' = ?P and env = env])
    show "next_parameter (response_table ! 1) env w 1 at_param_symbol VStr = Inr (True, upd_params (\<lambda>_. ?P) w)"
      if "par w = zero_params" for w
      using that unfolding e(3) by (simp add: at_cifsr_set_param_def intptr_def esp_upd)
  qed
  have go: "run env w (''+CIFSR:'' @ c # cs @ [CR, LF]) = run env w2 (c # cs @ [CR, LF])"
    using run_trans [OF w1(1), of "CHR '':'' # c # cs @ [CR, LF]"] w2(1) by simp
  have "at_cifsr_exec env w3 1 = Inr (at_none, w3)" by (simp add: at_cifsr_exec_def)
  then have x: "call_exec response_table env w3 = Inr (set_state at_none w3)"
    using stage_fields(3,4) [OF w3(1)] e(2,4) by (simp add: call_exec_def)
  have r: "run env w (''+CIFSR:'' @ c # cs @ [CR, LF])
      = Inr (send_kind (set_response None (set_string_pos 0 (set_state at_none w3))))"
    using go w3(2) x by simp
  show ?thesis
    by (rule exI, rule conjI [OF r]) (use stage_fields(6) [OF w3(1)] in simp)
qed

theorem cifsr_answer_ignored_witness:
  "\<exists>w'. esp_at_rx_handler response_table plain_env one_open
      (''+CIFSR:'' @ CHR ''S'' # (''TAIP,'' @ [DQUOTE] @ ''192.168.0.5'' @ [DQUOTE]) @ [CR, LF]) = Inr w' \<and>
    parse_state (serial w') = at_none \<and> cur w' = cur one_open"
  by (rule cifsr_answer_ignored [OF one_open_ok(1,2)]) (simp_all add: c_char)

end
