(* ===== verification/Esp_Socket.thy ===== *)
theory Esp_Socket
  imports Esp_Answers
begin

text \<open>
  The socket operations of the AT driver (\<open>esp_at_socket.c\<close>, from \<open>esp_serial_clear\<close> to
  \<open>esp_at_socket_receive\<close>) on top of the parser.  A caller sends a command and waits for the
  kind of the answer in the data queue; what the modem sends while a caller waits is a list of
  chunks of bytes, which the receive handler takes as they come.
\<close>

section \<open>Waiting for the modem\<close>

datatype er = E_OK | E_TMOUT | E_WRI

text \<open>The driver's state and the chunks still to come.\<close>

type_synonym link = "esp \<times> string list"

text \<open>\<open>ini_dtq\<close>: the queue is emptied; the queue exists, so the call returns \<open>E_OK\<close>.\<close>

definition esp_serial_clear :: "link \<Rightarrow> link" where
  "esp_serial_clear l = ((fst l)\<lparr>dtq := []\<rparr>, snd l)"

text \<open>
  \<open>trcv_dtq\<close>: the oldest kind if there is one; otherwise the next chunk arrives and is handled,
  and the caller gets its first kind, or a timeout and \<open>no_set\<close> when it brought none.
\<close>

definition take_kind :: "link \<Rightarrow> er \<times> at_response_kind \<times> link" where
  "take_kind l =
    (case dtq (fst l) of
       [] \<Rightarrow> (E_TMOUT, kind_no_set, l)
     | k # ks \<Rightarrow> (E_OK, k, ((fst l)\<lparr>dtq := ks\<rparr>, snd l)))"

definition esp_serial_read :: "esp_env \<Rightarrow> link \<Rightarrow> (er \<times> at_response_kind \<times> link) outcome" where
  "esp_serial_read env l =
    (if dtq (fst l) \<noteq> [] then Inr (take_kind l)
     else case snd l of
            [] \<Rightarrow> Inr (E_TMOUT, kind_no_set, l)
          | chunk # chunks \<Rightarrow>
              cbind (esp_at_rx_handler response_table env (fst l) chunk) (\<lambda>w. Inr (take_kind (w, chunks))))"

definition serial_wri_dat :: "esp_env \<Rightarrow> link \<Rightarrow> string \<Rightarrow> int \<times> link" where
  "serial_wri_dat env l text =
    (let r = serial_wri env (written (fst l)) text
     in (r, if r < 0 then l else ((fst l)\<lparr>written := text # written (fst l)\<rparr>, snd l)))"

text \<open>A failed write leaves the caller's kind as it was.\<close>

definition esp_serial_write :: "esp_env \<Rightarrow> string \<Rightarrow> at_response_kind \<Rightarrow> link \<Rightarrow> (er \<times> at_response_kind \<times> link) outcome" where
  "esp_serial_write env text kind l =
    (let (r, l1) = serial_wri_dat env (esp_serial_clear l) text
     in if r < 0 then Inr (E_WRI, kind, l1) else esp_serial_read env l1)"

section \<open>Bringing the modem up\<close>

definition set_ssid_pwd :: "string option \<Rightarrow> string option \<Rightarrow> esp \<Rightarrow> esp" where
  "set_ssid_pwd ssid_dup pwd_dup w = upd_serial (\<lambda>s. s\<lparr>ap_name := ssid_dup, ap_pwd := pwd_dup\<rparr>) w"

definition set_esp_state :: "esp_state \<Rightarrow> link \<Rightarrow> link" where
  "set_esp_state st l = (upd_serial (\<lambda>s. s\<lparr>serial_state := st\<rparr>) (fst l), snd l)"

text \<open>\<open>sprintf\<close> into an array of \<open>n\<close> bytes.\<close>

definition sprintf_into :: "nat \<Rightarrow> string \<Rightarrow> string outcome" where
  "sprintf_into n text = strcpy_into n text"

definition zero_tm :: tm where
  "zero_tm = \<lparr>tm_sec = 0, tm_min = 0, tm_hour = 0, tm_mday = 0, tm_mon = 0, tm_year = 0\<rparr>"

text \<open>\<open>time(NULL)\<close>, by way of \<open>gettimeofday\<close>: the clock's counters in seconds.\<close>

definition time_now :: "esp \<Rightarrow> int outcome" where
  "time_now w = tm_to_secs (rtc_get_time (rtc w) zero_tm)"

text \<open>
  How a round of the switch in \<open>prepare_esp_at\<close> ends: \<open>goto retry\<close> with the retry count, a
  \<open>break\<close>, or a \<open>return\<close>.
\<close>

datatype prep = Retry int at_response_kind link | Break at_response_kind link | Return bool link

type_synonym prep_case = "esp_env \<Rightarrow> int \<Rightarrow> at_response_kind \<Rightarrow> link \<Rightarrow> prep outcome"

text \<open>A command that has to be answered by \<open>OK\<close>; then the next state and its case.\<close>

definition expect_ok :: "esp_env \<Rightarrow> string \<Rightarrow> esp_state \<Rightarrow> at_response_kind \<Rightarrow> link \<Rightarrow>
    (at_response_kind \<Rightarrow> link \<Rightarrow> prep outcome) \<Rightarrow> prep outcome" where
  "expect_ok env text st kind l k =
    cbind (esp_serial_write env text kind l) (\<lambda>(ret, kind1, l1).
      if ret \<noteq> E_OK \<or> kind1 \<noteq> kind_ok then Inr (Break kind1 l1)
      else k kind1 (set_esp_state st l1))"

abbreviation CRLF :: string where "CRLF \<equiv> [CR, LF]"

definition quote :: "string \<Rightarrow> string" where
  "quote t = DQUOTE # t @ [DQUOTE]"

definition case_done :: prep_case where
  "case_done env tmo kind l =
    cbind (time_now (fst l)) (\<lambda>local.
      let ntp = date_time (cur (fst l))
      in if local > ntp \<and> local - ntp > 60 * 60
         then Inr (Retry tmo kind (set_esp_state esp_get_time l))
         else Inr (Return True l))"

definition case_get_time :: prep_case where
  "case_get_time env tmo kind l =
    cbind (esp_serial_write env (''AT+CIPSNTPTIME?'' @ CRLF) kind l) (\<lambda>(ret, kind1, l1).
      if ret \<noteq> E_OK \<or> kind1 \<noteq> kind_ok then Inr (Break kind1 l1)
      else cbind MINIMUM_YEAR (\<lambda>minimum.
        if date_time (cur (fst l1)) \<le> minimum then
          (if tmo + 1 \<le> 10 then
             (if ctime_null env then Inr (Retry (tmo + 1) kind1 (set_esp_state esp_get_time l1))
              else Inl Null_pointer)
           else Inr (Break kind1 l1))
        else case_done env tmo kind1 (set_esp_state esp_done l1)))"

definition case_update_time :: prep_case where
  "case_update_time env tmo kind l =
    cbind (sprintf_into 64 (''AT+CIPSNTPCFG='' @ dec_int 1 @ '','' @ dec_int 0 @ '','' @ quote ''ntp.nict.jp'' @ CRLF)) (\<lambda>temp.
      expect_ok env temp esp_get_time kind l (case_get_time env tmo))"

definition case_connect_ap :: prep_case where
  "case_connect_ap env tmo kind l =
    (case (ap_name (serial (fst l)), ap_pwd (serial (fst l))) of
       (Some name, Some pwd) \<Rightarrow>
         cbind (sprintf_into 64 (''AT+CWJAP='' @ quote name @ '','' @ quote pwd @ CRLF)) (\<lambda>temp.
           expect_ok env temp esp_update_time kind l (case_update_time env tmo))
     | _ \<Rightarrow> Inr (Break kind l))"

definition case_show_remote :: prep_case where
  "case_show_remote env tmo kind l =
    expect_ok env (''AT+CIPDINFO=1'' @ CRLF) esp_connect_ap kind l (case_connect_ap env tmo)"

definition case_multiple :: prep_case where
  "case_multiple env tmo kind l =
    expect_ok env (''AT+CIPMUX=1'' @ CRLF) esp_show_remote_ip_and_port kind l (case_show_remote env tmo)"

definition case_auto_connect_off :: prep_case where
  "case_auto_connect_off env tmo kind l =
    expect_ok env (''AT+CWAUTOCONN=0'' @ CRLF) esp_set_multiple_connections_mode kind l (case_multiple env tmo)"

definition case_station_mode :: prep_case where
  "case_station_mode env tmo kind l =
    expect_ok env (''AT+CWMODE=1'' @ CRLF) esp_auto_connect_to_ap_off kind l (case_auto_connect_off env tmo)"

definition case_echo_off :: prep_case where
  "case_echo_off env tmo kind l =
    expect_ok env (''ATE0'' @ CRLF) esp_set_station_mode kind l (case_station_mode env tmo)"

definition case_reset :: prep_case where
  "case_reset env tmo kind l =
    cbind (esp_serial_write env (''AT+RST'' @ CRLF) kind l) (\<lambda>(ret, kind1, l1).
      if ret \<noteq> E_OK \<or> kind1 \<noteq> kind_ok then Inr (Return False l1)
      else cbind (esp_serial_read env l1) (\<lambda>(ret, kind2, l2).
        if ret \<noteq> E_OK \<or> kind2 \<noteq> kind_ready then Inr (Return False l2)
        else case_echo_off env tmo kind2 (set_esp_state esp_echo_off l2)))"

definition prepare_case :: prep_case where
  "prepare_case env tmo kind l =
    (case serial_state (serial (fst l)) of
       esp_reset \<Rightarrow> case_reset env tmo kind l
     | esp_echo_off \<Rightarrow> case_echo_off env tmo kind l
     | esp_set_station_mode \<Rightarrow> case_station_mode env tmo kind l
     | esp_auto_connect_to_ap_off \<Rightarrow> case_auto_connect_off env tmo kind l
     | esp_set_multiple_connections_mode \<Rightarrow> case_multiple env tmo kind l
     | esp_show_remote_ip_and_port \<Rightarrow> case_show_remote env tmo kind l
     | esp_connect_ap \<Rightarrow> case_connect_ap env tmo kind l
     | esp_update_time \<Rightarrow> case_update_time env tmo kind l
     | esp_get_time \<Rightarrow> case_get_time env tmo kind l
     | esp_done \<Rightarrow> case_done env tmo kind l)"

text \<open>One round from the label \<open>retry\<close> to the end of the function.\<close>

definition prepare_round :: prep_case where
  "prepare_round env tmo kind l =
    cbind (prepare_case env tmo kind (esp_serial_clear l)) (\<lambda>r. case r of
       Break kind1 l1 \<Rightarrow>
         if kind1 = kind_busy then Inr (Retry tmo kind1 (set_esp_state esp_reset l1))
         else Inr (Return False (set_esp_state esp_echo_off l1))
     | _ \<Rightarrow> Inr r)"

partial_function (option) prepare_loop :: "esp_env \<Rightarrow> int \<Rightarrow> at_response_kind \<Rightarrow> link \<Rightarrow> (bool \<times> link) outcome option" where
  "prepare_loop env tmo kind l =
    (case prepare_round env tmo kind l of
       Inl u \<Rightarrow> Some (Inl u)
     | Inr r \<Rightarrow> (case r of
         Retry tmo1 kind1 l1 \<Rightarrow> prepare_loop env tmo1 kind1 l1
       | Break kind1 l1 \<Rightarrow> Some (Inr (False, l1))
       | Return b l1 \<Rightarrow> Some (Inr (b, l1))))"

definition prepare_esp_at :: "esp_env \<Rightarrow> link \<Rightarrow> (bool \<times> link) outcome option" where
  "prepare_esp_at env l =
    prepare_loop env 0 kind_no_set
      (if wifi_state (cur (fst l)) \<noteq> wifi_got_ip then set_esp_state esp_echo_off l else l)"

section \<open>Sockets\<close>

text \<open>
  A handle is the index of its connection.  \<open>-MU_FAILURE\<close>, a negative number, is None.
\<close>

definition upd_conn :: "nat \<Rightarrow> (at_connection \<Rightarrow> at_connection) \<Rightarrow> link \<Rightarrow> link" where
  "upd_conn h f l = ((fst l)\<lparr>connections := (connections (fst l))[h := f (connections (fst l) ! h)]\<rparr>, snd l)"

abbreviation conn :: "nat \<Rightarrow> link \<Rightarrow> at_connection" where
  "conn h l \<equiv> connections (fst l) ! h"

definition esp_at_socket_create :: "bool \<Rightarrow> bool \<Rightarrow> link \<Rightarrow> nat option \<times> link" where
  "esp_at_socket_create calloc_ok use_ssl l =
    (let (r, ks) = new_connection calloc_ok (connections (fst l));
         l1 = ((fst l)\<lparr>connections := ks\<rparr>, snd l)
     in case r of
          None \<Rightarrow> (None, l1)
        | Some h \<Rightarrow> (Some h, upd_conn h (\<lambda>k. k\<lparr>ssl := (if use_ssl then ''SSL'' else ''TCP'')\<rparr>) l1))"

definition esp_at_socket_set_blocking :: "nat \<Rightarrow> bool \<Rightarrow> int \<Rightarrow> link \<Rightarrow> link" where
  "esp_at_socket_set_blocking h b t l = upd_conn h (\<lambda>k. k\<lparr>blocking := b, timeout := t\<rparr>) l"

definition esp_at_socket_destroy :: "nat \<Rightarrow> link \<Rightarrow> link outcome" where
  "esp_at_socket_destroy h l = cbind (delete_connection (conn h l)) (\<lambda>k. Inr (upd_conn h (\<lambda>_. k) l))"

definition set_use_wifi :: "int \<Rightarrow> link \<Rightarrow> link" where
  "set_use_wifi n l = ((fst l)\<lparr>use_wifi := n\<rparr>, snd l)"

definition connect_command :: "at_connection \<Rightarrow> string \<Rightarrow> int \<Rightarrow> string" where
  "connect_command k host port =
    ''AT+CIPSTART='' @ dec_int (conn_id k) @ '','' @ quote (ssl k) @ '','' @ quote host @ '','' @ dec_int port @ CRLF"

text \<open>What \<open>esp_at_socket_connect\<close> does once the modem is up.\<close>

definition open_connection :: "esp_env \<Rightarrow> nat \<Rightarrow> string \<Rightarrow> int \<Rightarrow> link \<Rightarrow> (int option \<times> link) outcome" where
  "open_connection env h host port l =
    (let l1 = upd_conn h (\<lambda>k. k\<lparr>conn_state := conn_connecting\<rparr>) (set_use_wifi 1 l)
     in cbind (sprintf_into 128 (connect_command (conn h l1) host port)) (\<lambda>temp.
        cbind (esp_serial_write env temp kind_no_set l1) (\<lambda>(ret, kind, l2).
          if ret \<noteq> E_OK \<or> kind \<noteq> kind_connect then Inr (None, l2)
          else cbind (esp_serial_read env l2) (\<lambda>(ret, kind, l3).
            if ret \<noteq> E_OK \<or> kind \<noteq> kind_ok then Inr (None, l3) else Inr (Some 0, l3)))))"

definition esp_at_socket_connect :: "esp_env \<Rightarrow> nat \<Rightarrow> string \<Rightarrow> int \<Rightarrow> link \<Rightarrow> (int option \<times> link) outcome option" where
  "esp_at_socket_connect env h host port l =
    (if conn_state (conn h l) = conn_connected then Some (Inr (Some 0, l))
     else case prepare_esp_at env l of
            None \<Rightarrow> None
          | Some (Inl u) \<Rightarrow> Some (Inl u)
          | Some (Inr (ok, l1)) \<Rightarrow>
              if \<not> ok then Some (Inr (None, set_use_wifi 0 l1))
              else Some (open_connection env h host port l1))"

definition esp_at_socket_is_connected :: "nat \<Rightarrow> link \<Rightarrow> bool" where
  "esp_at_socket_is_connected h l \<longleftrightarrow> conn_state (conn h l) = conn_connected"

definition esp_at_socket_close :: "esp_env \<Rightarrow> nat \<Rightarrow> link \<Rightarrow> link outcome" where
  "esp_at_socket_close env h l =
    (if conn_state (conn h l) = conn_disconnected then Inr l
     else
       (let l1 = upd_conn h (\<lambda>k. k\<lparr>conn_state := conn_disconnecting\<rparr>) l
        in cbind (sprintf_into 64 (''AT+CIPCLOSE='' @ dec_int (conn_id (conn h l1)) @ CRLF)) (\<lambda>temp.
           cbind (esp_serial_write env temp kind_no_set l1) (\<lambda>(ret, kind, l2).
             if ret = E_OK \<and> kind = kind_closed
             then cbind (esp_serial_read env l2) (\<lambda>(ret, kind, l3). Inr l3)
             else Inr l2))))"

text \<open>The two waiting loops of \<open>esp_at_socket_send\<close>: for the prompt, and for the end of the transfer.\<close>

partial_function (option) wait_prompt :: "esp_env \<Rightarrow> link \<Rightarrow> (bool \<times> link) outcome option" where
  "wait_prompt env l =
    (case esp_serial_read env l of
       Inl u \<Rightarrow> Some (Inl u)
     | Inr (ret, kind, l1) \<Rightarrow>
         if ret \<noteq> E_OK \<or> kind \<noteq> kind_ok \<and> kind \<noteq> kind_progress then Some (Inr (False, l1))
         else if kind = kind_ok then wait_prompt env l1
         else Some (Inr (True, l1)))"

partial_function (option) wait_sent :: "esp_env \<Rightarrow> link \<Rightarrow> (bool \<times> link) outcome option" where
  "wait_sent env l =
    (case esp_serial_read env l of
       Inl u \<Rightarrow> Some (Inl u)
     | Inr (ret, kind, l1) \<Rightarrow>
         if ret \<noteq> E_OK then Some (Inr (False, l1))
         else if kind = kind_send_ok then Some (Inr (True, l1))
         else if kind = kind_no_set \<or> kind = kind_ok then wait_sent env l1
         else Some (Inr (False, l1)))"

definition send_command :: "at_connection \<Rightarrow> int \<Rightarrow> string" where
  "send_command k n = ''AT+CIPSEND='' @ dec_int (conn_id k) @ '','' @ dec_int n @ CRLF"

text \<open>What follows the prompt: the data, then the wait for \<open>SEND OK\<close>.\<close>

definition send_data :: "esp_env \<Rightarrow> string \<Rightarrow> link \<Rightarrow> (int option \<times> link) outcome option" where
  "send_data env text l =
    (let (r, l1) = serial_wri_dat env l text
     in if r < 0 then Some (Inr (None, l1))
        else case wait_sent env l1 of
               None \<Rightarrow> None
             | Some (Inl u) \<Rightarrow> Some (Inl u)
             | Some (Inr (ok, l2)) \<Rightarrow> Some (Inr (if ok then Some (int (length text)) else None, l2)))"

definition esp_at_socket_send :: "esp_env \<Rightarrow> nat \<Rightarrow> string \<Rightarrow> link \<Rightarrow> (int option \<times> link) outcome option" where
  "esp_at_socket_send env h text l =
    (if conn_state (conn h l) \<noteq> conn_connected then Some (Inr (None, l))
     else case cbind (sprintf_into 64 (send_command (conn h l) (int (length text))))
                 (\<lambda>temp. esp_serial_write env temp kind_no_set l) of
            Inl u \<Rightarrow> Some (Inl u)
          | Inr (ret, kind, l1) \<Rightarrow>
              if ret \<noteq> E_OK \<or> kind \<noteq> kind_ok then Some (Inr (None, l1))
              else case wait_prompt env l1 of
                     None \<Rightarrow> None
                   | Some (Inl u) \<Rightarrow> Some (Inl u)
                   | Some (Inr (ok, l2)) \<Rightarrow> if ok then send_data env text l2 else Some (Inr (None, l2)))"

definition esp_at_socket_receive :: "nat \<Rightarrow> int \<Rightarrow> link \<Rightarrow> ((char list) option \<times> link) outcome" where
  "esp_at_socket_receive h len l =
    (if conn_state (conn h l) \<noteq> conn_connected then Inr (None, l)
     else cbind (connection_read_data (conn h l) len) (\<lambda>(cs, k).
       Inr (Some cs, upd_conn h (\<lambda>_. k) l)))"

end
