(* ===== verification/Esp_Session.thy ===== *)
theory Esp_Session
  imports Esp_Socket
begin

text \<open>
  Sessions with the modem: every wait uses up what the modem has sent, so the retry loop and the
  two waiting loops end; and the course of \<open>prepare_esp_at\<close> under the answers of a modem that
  works.  The properties of the calls are in \<open>Esp_Calls\<close>.
\<close>

section \<open>Every wait uses up what the modem sent\<close>

lemma take_kind_facts:
  assumes "take_kind l = (ret, kind, l1)"
  shows "snd l1 = snd l" "ret \<noteq> E_OK \<Longrightarrow> kind = kind_no_set"
    "dtq (fst l) \<noteq> [] \<Longrightarrow> length (dtq (fst l1)) < length (dtq (fst l))"
  using assms by (auto simp: take_kind_def split: list.splits)

lemma read_progress:
  assumes "esp_serial_read env l = Inr (ret, kind, l1)"
  shows "length (snd l1) \<le> length (snd l)"
    "dtq (fst l) = [] \<Longrightarrow> ret = E_OK \<Longrightarrow> length (snd l1) < length (snd l)"
    "ret \<noteq> E_OK \<Longrightarrow> kind = kind_no_set"
    "dtq (fst l) \<noteq> [] \<Longrightarrow> snd l1 = snd l \<and> length (dtq (fst l1)) < length (dtq (fst l))"
proof -
  show "length (snd l1) \<le> length (snd l)"
    using assms by (auto simp: esp_serial_read_def cbind_Inr_iff dest: take_kind_facts(1) split: if_splits list.splits)
  show "length (snd l1) < length (snd l)" if "dtq (fst l) = []" "ret = E_OK"
    using assms that by (auto simp: esp_serial_read_def cbind_Inr_iff dest: take_kind_facts(1) split: list.splits)
  show "kind = kind_no_set" if "ret \<noteq> E_OK"
    using assms that by (auto simp: esp_serial_read_def cbind_Inr_iff dest: take_kind_facts(2) split: if_splits list.splits)
  show "snd l1 = snd l \<and> length (dtq (fst l1)) < length (dtq (fst l))" if "dtq (fst l) \<noteq> []"
    using assms that by (auto simp: esp_serial_read_def dest: take_kind_facts(1,3))
qed

lemma write_progress:
  assumes "esp_serial_write env text kind l = Inr (ret, kind1, l1)"
  shows "length (snd l1) \<le> length (snd l)" "ret = E_OK \<Longrightarrow> length (snd l1) < length (snd l)"
    "ret \<noteq> E_OK \<Longrightarrow> kind1 = kind \<or> kind1 = kind_no_set"
  using assms read_progress [of env _ ret kind1 l1]
  by (auto simp: esp_serial_write_def serial_wri_dat_def esp_serial_clear_def Let_def split: if_splits)

text \<open>What is pending: the chunks to come, then the kinds in the queue.\<close>

abbreviation pending :: "(link \<times> link) set" where
  "pending \<equiv> measures [\<lambda>l. length (snd l), \<lambda>l. length (dtq (fst l))]"

lemma read_less: "esp_serial_read env l = Inr (E_OK, kind, l1) \<Longrightarrow> (l1, l) \<in> pending"
  using read_progress [of env l E_OK kind l1] by (cases "dtq (fst l) = []") auto

lemma pending_induct: "(\<And>l. (\<And>l1. (l1, l) \<in> pending \<Longrightarrow> P l1) \<Longrightarrow> P l) \<Longrightarrow> P (l :: link)"
  by (rule wf_induct_rule [OF wf_measures [of "[\<lambda>l. length (snd l), \<lambda>l. length (dtq (fst l))]"]]) blast

lemma wait_prompt_returns: "\<exists>r. wait_prompt env l = Some r"
proof (induction l rule: pending_induct)
  case (1 l)
  from read_less [of env l] 1 show ?case
    by (subst wait_prompt.simps) (auto split: sum.split)
qed

lemma wait_sent_returns: "\<exists>r. wait_sent env l = Some r"
proof (induction l rule: pending_induct)
  case (1 l)
  from read_less [of env l] 1 show ?case
    by (subst wait_sent.simps) (auto split: sum.split)
qed

section \<open>Bringing the modem up ends\<close>

text \<open>A round that goes back to \<open>retry\<close> has used up a chunk.\<close>

definition uses_chunk :: "nat \<Rightarrow> prep outcome \<Rightarrow> bool" where
  "uses_chunk n m \<longleftrightarrow> (case m of Inl u \<Rightarrow> True | Inr r \<Rightarrow> (case r of
     Retry t k l \<Rightarrow> k \<noteq> kind_busy \<and> serial_state (serial (fst l)) = esp_get_time \<and> length (snd l) < n
   | Break k l \<Rightarrow> k = kind_busy \<longrightarrow> length (snd l) < n
   | Return b l \<Rightarrow> True))"

lemma uses_chunk_simps [simp]:
  "uses_chunk n (Inl u)"
  "uses_chunk n (Inr (Retry t k l)) \<longleftrightarrow> k \<noteq> kind_busy \<and> serial_state (serial (fst l)) = esp_get_time \<and> length (snd l) < n"
  "uses_chunk n (Inr (Break k l)) \<longleftrightarrow> (k = kind_busy \<longrightarrow> length (snd l) < n)"
  "uses_chunk n (Inr (Return b l))"
  by (simp_all add: uses_chunk_def)

lemma set_esp_state_simps [simp]:
  "snd (set_esp_state st l) = snd l"
  "serial_state (serial (fst (set_esp_state st l))) = st"
  "dtq (fst (set_esp_state st l)) = dtq (fst l)"
  "cur (fst (set_esp_state st l)) = cur (fst l)"
  by (simp_all add: set_esp_state_def upd_serial_def)

lemma expect_ok_uses:
  assumes "kind \<noteq> kind_busy" "length (snd l) \<le> n"
    "\<And>l1. length (snd l1) < length (snd l) \<Longrightarrow> uses_chunk n (k kind_ok (set_esp_state st l1))"
  shows "uses_chunk n (expect_ok env text st kind l k)"
proof (cases "esp_serial_write env text kind l")
  case (Inl u)
  then show ?thesis by (simp add: expect_ok_def)
next
  case (Inr r)
  obtain ret kind1 l1 where r: "r = (ret, kind1, l1)" by (metis prod_cases3)
  note p = write_progress [OF Inr [unfolded r]]
  show ?thesis
  proof (cases "ret = E_OK \<and> kind1 = kind_ok")
    case True
    with p(2) assms(3) [of l1] Inr r show ?thesis by (simp add: expect_ok_def)
  next
    case False
    have "kind1 = kind_busy \<longrightarrow> length (snd l1) < n"
      using p assms(1,2) by (cases "ret = E_OK") auto
    with False Inr r show ?thesis by (auto simp: expect_ok_def)
  qed
qed

lemma case_done_uses: "kind \<noteq> kind_busy \<Longrightarrow> length (snd l) < n \<Longrightarrow> uses_chunk n (case_done env tmo kind l)"
  by (simp add: case_done_def time_now_def tm_to_secs_eq Let_def)

lemma case_get_time_uses:
  assumes "kind \<noteq> kind_busy" "length (snd l) \<le> n"
  shows "uses_chunk n (case_get_time env tmo kind l)"
proof (cases "esp_serial_write env (''AT+CIPSNTPTIME?'' @ CRLF) kind l")
  case (Inl u)
  then show ?thesis by (simp add: case_get_time_def)
next
  case (Inr r)
  obtain ret kind1 l1 where r: "r = (ret, kind1, l1)" by (metis prod_cases3)
  note p = write_progress [OF Inr [unfolded r]]
  show ?thesis
  proof (cases "ret = E_OK \<and> kind1 = kind_ok")
    case True
    with p(2) assms(2) have "length (snd l1) < n" by simp
    then have "uses_chunk n (case_done env tmo kind_ok (set_esp_state esp_done l1))"
      by (intro case_done_uses) simp_all
    with True \<open>length (snd l1) < n\<close> Inr r show ?thesis
      by (simp add: case_get_time_def MINIMUM_YEAR_def tm_to_secs_eq)
  next
    case False
    have "kind1 = kind_busy \<longrightarrow> length (snd l1) < n"
      using p assms by (cases "ret = E_OK") auto
    with False Inr r show ?thesis by (auto simp: case_get_time_def)
  qed
qed

lemma case_update_time_uses:
  "kind \<noteq> kind_busy \<Longrightarrow> length (snd l) \<le> n \<Longrightarrow> uses_chunk n (case_update_time env tmo kind l)"
  unfolding case_update_time_def sprintf_into_def strcpy_into_def
  by (simp, intro impI expect_ok_uses case_get_time_uses) simp_all

lemma case_connect_ap_uses:
  assumes "kind \<noteq> kind_busy" "length (snd l) \<le> n"
  shows "uses_chunk n (case_connect_ap env tmo kind l)"
proof -
  have "uses_chunk n (expect_ok env temp esp_update_time kind l (case_update_time env tmo))" for temp
    using assms by (intro expect_ok_uses case_update_time_uses) simp_all
  then show ?thesis
    using assms by (auto simp: case_connect_ap_def sprintf_into_def strcpy_into_def split: option.splits)
qed

lemma case_uses:
  assumes "kind \<noteq> kind_busy" "length (snd l) \<le> n"
  shows "uses_chunk n (case_show_remote env tmo kind l)" "uses_chunk n (case_multiple env tmo kind l)"
    "uses_chunk n (case_auto_connect_off env tmo kind l)" "uses_chunk n (case_station_mode env tmo kind l)"
    "uses_chunk n (case_echo_off env tmo kind l)"
proof -
  have c1: "uses_chunk n (case_show_remote env tmo k l')" if "k \<noteq> kind_busy" "length (snd l') \<le> n" for k l'
    unfolding case_show_remote_def using that by (intro expect_ok_uses case_connect_ap_uses) simp_all
  have c2: "uses_chunk n (case_multiple env tmo k l')" if "k \<noteq> kind_busy" "length (snd l') \<le> n" for k l'
    unfolding case_multiple_def using that by (intro expect_ok_uses c1) simp_all
  have c3: "uses_chunk n (case_auto_connect_off env tmo k l')" if "k \<noteq> kind_busy" "length (snd l') \<le> n" for k l'
    unfolding case_auto_connect_off_def using that by (intro expect_ok_uses c2) simp_all
  have c4: "uses_chunk n (case_station_mode env tmo k l')" if "k \<noteq> kind_busy" "length (snd l') \<le> n" for k l'
    unfolding case_station_mode_def using that by (intro expect_ok_uses c3) simp_all
  have c5: "uses_chunk n (case_echo_off env tmo k l')" if "k \<noteq> kind_busy" "length (snd l') \<le> n" for k l'
    unfolding case_echo_off_def using that by (intro expect_ok_uses c4) simp_all
  from assms show "uses_chunk n (case_show_remote env tmo kind l)" "uses_chunk n (case_multiple env tmo kind l)"
    "uses_chunk n (case_auto_connect_off env tmo kind l)" "uses_chunk n (case_station_mode env tmo kind l)"
    "uses_chunk n (case_echo_off env tmo kind l)" by (rule c1 c2 c3 c4 c5)+
qed

lemma case_reset_uses:
  assumes "length (snd l) \<le> n"
  shows "uses_chunk n (case_reset env tmo kind l)"
proof (cases "esp_serial_write env (''AT+RST'' @ CRLF) kind l")
  case (Inl u)
  then show ?thesis by (simp add: case_reset_def)
next
  case (Inr r)
  obtain ret kind1 l1 where r: "r = (ret, kind1, l1)" by (metis prod_cases3)
  note p = write_progress [OF Inr [unfolded r]]
  show ?thesis
  proof (cases "esp_serial_read env l1")
    case (Inl u)
    with Inr r show ?thesis unfolding case_reset_def by auto
  next
    case (Inr q)
    obtain ret2 kind2 l2 where q: "q = (ret2, kind2, l2)" by (metis prod_cases3)
    have "length (snd l2) \<le> n" using read_progress(1) [OF Inr [unfolded q]] p(1) assms by simp
    then have "uses_chunk n (case_echo_off env tmo kind_ready (set_esp_state esp_echo_off l2))"
      by (intro case_uses) simp_all
    with Inr q \<open>esp_serial_write env (''AT+RST'' @ CRLF) kind l = Inr r\<close> r show ?thesis
      unfolding case_reset_def by auto
  qed
qed

definition prepare_measure :: "link \<Rightarrow> nat" where
  "prepare_measure l = 2 * length (snd l) + (if serial_state (serial (fst l)) = esp_done then 1 else 0)"

lemma clear_simps [simp]:
  "snd (esp_serial_clear l) = snd l" "serial (fst (esp_serial_clear l)) = serial (fst l)"
  "dtq (fst (esp_serial_clear l)) = []" "rtc (fst (esp_serial_clear l)) = rtc (fst l)"
  by (simp_all add: esp_serial_clear_def)

lemma prepare_case_uses:
  assumes "kind = kind_busy \<longrightarrow> serial_state (serial (fst l)) = esp_reset" "serial_state (serial (fst l)) \<noteq> esp_done"
  shows "uses_chunk (length (snd l)) (prepare_case env tmo kind l)"
proof (cases "serial_state (serial (fst l)) = esp_reset")
  case True
  then show ?thesis by (simp add: prepare_case_def case_reset_uses)
next
  case False
  with assms have k: "kind \<noteq> kind_busy" by simp
  from False assms(2) show ?thesis
    by (cases "serial_state (serial (fst l))")
      (simp_all add: prepare_case_def case_uses [OF k] case_connect_ap_uses [OF k] case_update_time_uses [OF k]
        case_get_time_uses [OF k])
qed

lemma prepare_round_progress:
  assumes "kind = kind_busy \<longrightarrow> serial_state (serial (fst l)) = esp_reset"
    and r: "prepare_round env tmo kind l = Inr (Retry tmo1 kind1 l1)"
  shows "prepare_measure l1 < prepare_measure l \<and> (kind1 = kind_busy \<longrightarrow> serial_state (serial (fst l1)) = esp_reset)"
proof (cases "serial_state (serial (fst l)) = esp_done")
  case True
  with assms have "kind \<noteq> kind_busy" by auto
  with True r show ?thesis
    by (auto simp: prepare_round_def prepare_case_def case_done_def time_now_def tm_to_secs_eq Let_def
        prepare_measure_def split: if_splits)
next
  case False
  let ?l = "esp_serial_clear l"
  have u: "uses_chunk (length (snd l)) (prepare_case env tmo kind ?l)"
    using prepare_case_uses [of kind ?l env tmo] assms(1) False by simp
  from r obtain q where q: "prepare_case env tmo kind ?l = Inr q"
    unfolding prepare_round_def by (cases "prepare_case env tmo kind ?l") auto
  with u r show ?thesis
    unfolding prepare_round_def by (cases q) (auto simp: prepare_measure_def split: if_splits)
qed

lemma prepare_loop_returns:
  "kind = kind_busy \<longrightarrow> serial_state (serial (fst l)) = esp_reset \<Longrightarrow> \<exists>r. prepare_loop env tmo kind l = Some r"
proof (induction "prepare_measure l" arbitrary: tmo kind l rule: less_induct)
  case less
  show ?case
  proof (cases "prepare_round env tmo kind l")
    case (Inl u)
    then show ?thesis by (subst prepare_loop.simps) simp
  next
    case (Inr r)
    show ?thesis
    proof (cases r)
      case (Retry tmo1 kind1 l1)
      note p = prepare_round_progress [OF less.prems Inr [unfolded Retry]]
      from less.hyps [of l1 kind1 tmo1] p obtain q where "prepare_loop env tmo1 kind1 l1 = Some q" by blast
      with Inr Retry show ?thesis by (subst prepare_loop.simps) simp
    qed (use Inr in \<open>subst prepare_loop.simps, simp\<close>)+
  qed
qed

lemma prepare_returns: "\<exists>r. prepare_esp_at env l = Some r"
  unfolding prepare_esp_at_def by (rule prepare_loop_returns) simp

section \<open>Answers between calls\<close>

text \<open>The parser between two answers, and what an answer leaves alone.\<close>

definition idle :: "esp \<Rightarrow> bool" where
  "idle w \<longleftrightarrow> parser_inv response_table w \<and> parse_state (serial w) = at_none \<and> response_kind (serial w) = kind_no_set"

definition kept :: "esp \<Rightarrow> esp \<Rightarrow> bool" where
  "kept w w' \<longleftrightarrow> connections w' = connections w \<and> written w' = written w \<and> use_wifi w' = use_wifi w \<and>
     serial_state (serial w') = serial_state (serial w) \<and> ap_name (serial w') = ap_name (serial w) \<and>
     ap_pwd (serial w') = ap_pwd (serial w)"

lemma kept_refl: "kept w w"
  by (simp add: kept_def)

lemma kept_trans: "kept u v \<Longrightarrow> kept v w \<Longrightarrow> kept u w"
  by (simp add: kept_def)

lemma stage_kept:
  assumes "stage w0 st r n P w"
  shows "kept w0 w"
proof -
  from assms obtain b p m where w: "w = w0\<lparr>serial := (serial w0)\<lparr>parse_state := st, response := r,
        param_pos := n, params := P, string_buf := b, string_pos := p, number := m\<rparr>\<rparr>"
    unfolding stage_def by blast
  show ?thesis by (simp add: w kept_def)
qed

lemma kept_upds:
  "kept u w \<Longrightarrow> kept u (set_response r w)" "kept u w \<Longrightarrow> kept u (set_string_pos n w)"
  "kept u w \<Longrightarrow> kept u (set_state st w)" "kept u w \<Longrightarrow> kept u (set_kind k w)"
  "kept u w \<Longrightarrow> kept u (upd_current f w)" "kept u w \<Longrightarrow> kept u (send_kind w)" "kept u w \<Longrightarrow> kept u (w\<lparr>rtc := x\<rparr>)"
  by (auto simp: kept_def esp_upd send_kind_def)

lemma run_inv: "parser_inv response_table w \<Longrightarrow> run env w cs = Inr w' \<Longrightarrow> parser_inv response_table w'"
  using run_safe [of w cs env] by simp

lemma idle_stage': "idle w \<Longrightarrow> stage w at_none None (param_pos (serial w)) (par w) w"
  by (simp add: idle_def idle_stage)

lemma run_plain_word:
  assumes "idle w" "length (dtq w) < NUM_ESP_AT" "word_entry t i" "k \<noteq> kind_no_set"
    "\<forall>env w n. exec_response (response_table ! i) env w n = Inr (at_none, set_kind k w)"
  obtains w' where "run env w (t @ CRLF) = Inr w'" "idle w'" "kept w w'" "cur w' = cur w" "rtc w' = rtc w"
    "dtq w' = dtq w @ [k]"
proof -
  obtain w1 where w1: "stage w at_crlf (Some i) 0 zero_params w1"
    "run env w (t @ [CR, LF]) = cbind (call_exec response_table env w1)
       (\<lambda>w2. Inr (send_kind (set_response None (set_string_pos 0 w2))))"
    by (rule run_word_entry [OF idle_stage' [OF assms(1)] assms(3)])
  let ?w = "send_kind (set_response None (set_string_pos 0 (set_state at_none (set_kind k w1))))"
  have r: "run env w (t @ CRLF) = Inr ?w"
    using w1(2) stage_fields(3,4) [OF w1(1)] assms(3,5) by (simp add: call_exec_def word_entry_def)
  have sk: "response_kind (serial (set_kind k w')) = k" "dtq (set_kind k w') = dtq w'" "cur (set_kind k w') = cur w'"
    "rtc (set_kind k w') = rtc w'" for k w' by (simp_all add: esp_upd)
  have "idle ?w"
    using run_inv [OF _ r] assms(1,4) by (simp add: idle_def)
  moreover have "kept w ?w" by (intro kept_upds stage_kept [OF w1(1)])
  moreover have "cur ?w = cur w" "rtc ?w = rtc w" "dtq ?w = dtq w @ [k]"
    using stage_fields(6,8,9) [OF w1(1)] assms(2,4) by (simp_all add: sk)
  ultimately show thesis using that [OF r] by blast
qed

lemma run_ok:
  assumes "idle w" "length (dtq w) < NUM_ESP_AT"
  obtains w' where "run env w (''OK'' @ CRLF) = Inr w'" "idle w'" "kept w w'" "cur w' = cur w" "rtc w' = rtc w"
    "dtq w' = dtq w @ [kind_ok]"
  by (rule run_plain_word [OF assms word_entries(4), where k = kind_ok]) (simp_all add: word_exec at_ok_exec_def)

lemma run_send_ok:
  assumes "idle w" "length (dtq w) < NUM_ESP_AT"
  obtains w' where "run env w (''SEND OK'' @ CRLF) = Inr w'" "idle w'" "kept w w'" "cur w' = cur w" "rtc w' = rtc w"
    "dtq w' = dtq w @ [kind_send_ok]"
  by (rule run_plain_word [OF assms word_entries(5), where k = kind_send_ok]) (simp_all add: word_exec at_send_ok_exec_def)

text \<open>The prompt, which is a response without an end of line.\<close>

lemma run_prompt:
  assumes "idle w" "length (dtq w) < NUM_ESP_AT"
  obtains w' where "run env w ''>'' = Inr w'" "idle w'" "kept w w'" "cur w' = cur w" "rtc w' = rtc w"
    "dtq w' = dtq w @ [kind_progress]"
proof -
  let ?v = "set_state at_response (start_string CHR ''>'' w)"
  have t: "text_ok (serial w)" using assms(1) by (simp add: idle_def parser_inv_def data_ok_def)
  have "holds_text ?v ''>''"
    using holds_text_start [of w "CHR ''>''"] t by (simp add: text_ok_def holds_text_def esp_upd)
  from holds_text_NUL [OF this] have s: "c_string (string_buf (serial (append NUL ?v))) = Inr ''>''" by simp
  have g: "get_response response_table ''>'' = Some 20" "20 < length response_table"
    "exec_response (response_table ! 20) = at_progress_exec"
    by (simp_all add: get_response_def response_table_def entry_def)
  let ?u = "set_response None (set_state at_none (set_kind kind_progress (set_response (Some 20) (append NUL ?v))))"
  have "step env w CHR ''>'' = Inr (True, ?u)"
    using s g assms(1) by (simp add: idle_def proc_atc_res_def proc_none_def c_char Let_def look_up_def call_exec_def
        at_progress_exec_def)
  then have r: "run env w ''>'' = Inr (send_kind ?u)" by simp
  have f: "response_kind (serial ?u) = kind_progress" "dtq ?u = dtq w" "cur ?u = cur w" "rtc ?u = rtc w"
    by (simp_all add: esp_upd append_char_def)
  have "idle (send_kind ?u)" using run_inv [OF _ r] assms(1) f(1) by (simp add: idle_def)
  moreover have "kept w (send_kind ?u)"
    by (intro kept_upds) (simp add: kept_def append_char_def start_string_def esp_upd)
  moreover have "cur (send_kind ?u) = cur w" "rtc (send_kind ?u) = rtc w" "dtq (send_kind ?u) = dtq w @ [kind_progress]"
    using f assms(2) by (simp_all add: send_kind_def) (simp_all add: esp_upd append_char_def)
  ultimately show thesis using that [OF r] by blast
qed

lemma run_wifi:
  assumes "idle w" "(t, st) \<in> set wifi_words"
  obtains w' where "run env w (t @ CRLF) = Inr w'" "idle w'" "kept w w'" "cur w' = (cur w)\<lparr>wifi_state := st\<rparr>"
    "rtc w' = rtc w" "dtq w' = dtq w"
proof -
  obtain i where i: "word_entry t i"
    "\<forall>env w n. exec_response (response_table ! i) env w n = Inr (at_none, upd_current (\<lambda>c. c\<lparr>wifi_state := st\<rparr>) w)"
    by (rule wifi_word_exec [OF assms(2)])
  obtain w1 where w1: "stage w at_crlf (Some i) 0 zero_params w1"
    "run env w (t @ [CR, LF]) = cbind (call_exec response_table env w1)
       (\<lambda>w2. Inr (send_kind (set_response None (set_string_pos 0 w2))))"
    by (rule run_word_entry [OF idle_stage' [OF assms(1)] i(1)])
  let ?w2 = "upd_current (\<lambda>c. c\<lparr>wifi_state := st\<rparr>) w1"
  let ?w = "send_kind (set_response None (set_string_pos 0 (set_state at_none ?w2)))"
  have r: "run env w (t @ CRLF) = Inr ?w"
    using w1(2) stage_fields(3,4) [OF w1(1)] i by (simp add: call_exec_def word_entry_def)
  have f: "cur ?w2 = (cur w1)\<lparr>wifi_state := st\<rparr>" "dtq ?w2 = dtq w1" "rtc ?w2 = rtc w1"
    "response_kind (serial ?w2) = response_kind (serial w1)" by (simp_all add: esp_upd)
  have "idle ?w" using run_inv [OF _ r] assms(1) by (simp add: idle_def)
  moreover have "kept w ?w" by (intro kept_upds stage_kept [OF w1(1)])
  moreover have "cur ?w = (cur w)\<lparr>wifi_state := st\<rparr>" "rtc ?w = rtc w" "dtq ?w = dtq w"
    using stage_fields(6,8,9,11) [OF w1(1)] assms(1) f by (simp_all add: idle_def)
  ultimately show thesis using that [OF r] by blast
qed

lemma run_blank:
  assumes "idle w"
  obtains w' where "run env w CRLF = Inr w'" "idle w'" "kept w w'" "cur w' = cur w" "rtc w' = rtc w" "dtq w' = dtq w"
proof -
  have n: "parse_state (serial w) = at_none" "response (serial w) = None"
    using assms parser_invD(4) by (auto simp: idle_def)
  let ?w = "send_kind (set_response None (set_string_pos 0 (set_state at_none (set_state at_crlf w))))"
  have "step env w CR = Inr (False, set_state at_crlf w)"
    using n by (simp add: proc_atc_res_def proc_none_def c_char)
  moreover have "step env (set_state at_crlf w) LF = Inr (True, set_response None (set_string_pos 0 (set_state at_none (set_state at_crlf w))))"
    using n by (simp add: proc_atc_res_def proc_crlf_def)
  ultimately have r: "run env w CRLF = Inr ?w" by simp
  have "idle ?w" using run_inv [OF _ r] assms by (simp add: idle_def)
  moreover have "kept w ?w" by (intro kept_upds kept_refl)
  moreover have "cur ?w = cur w" "rtc ?w = rtc w" "dtq ?w = dtq w" using assms by (simp_all add: idle_def)
  ultimately show thesis using that [OF r] by blast
qed

text \<open>The time line, for a date after the start of 2020.\<close>

definition sntp_line :: "string \<Rightarrow> string" where
  "sntp_line t = ''+CIPSNTPTIME:'' @ t @ CRLF"

definition date_text :: "esp_env \<Rightarrow> string \<Rightarrow> tm \<Rightarrow> bool" where
  "date_text env t tm \<longleftrightarrow> t \<noteq> [] \<and> isalpha (hd t) \<and> list_all isprint t \<and> length t < string_size \<and>
     strptime env t = Some tm \<and> calendar_secs minimum_year_tm < calendar_secs tm"

lemma run_sntp:
  assumes "idle w" "date_text env t tm"
  obtains w' where "run env w (sntp_line t) = Inr w'" "idle w'" "kept w w'"
    "cur w' = (cur w)\<lparr>date_time := calendar_secs tm\<rparr>"
    "rtc w' = rtc_set_time (gmtime env (calendar_secs tm)) (rtc w)" "dtq w' = dtq w"
proof -
  from assms(2) obtain c cs where t: "t = c # cs" "isalpha c" "\<forall>x\<in>set cs. isprint x" "length cs < string_size - 1"
    "strptime env (c # cs) = Some tm" and late: "calendar_secs minimum_year_tm < calendar_secs tm"
    by (cases t) (auto simp: date_text_def list_all_iff)
  have ch: "\<forall>c\<in>set ''CIPSNTPTIME''. name_char c" by (simp add: name_char_def c_char)
  have e: "get_response response_table ''+CIPSNTPTIME'' = Some 3" "3 < length response_table"
    "next_parameter (response_table ! 3) = at_cipsntptime_set_param" "exec_response (response_table ! 3) = at_cipsntptime_exec"
    by (simp_all add: get_response_def response_table_def entry_def)
  obtain w1 where w1: "run env w (CHR ''+'' # ''CIPSNTPTIME'') = Inr w1"
    "stage w at_informtion None (param_pos (serial w)) (par w) w1" "holds_text w1 (CHR ''+'' # ''CIPSNTPTIME'')"
    by (rule run_information [OF idle_stage' [OF assms(1)] ch]) simp_all
  obtain w2 where w2: "step env w1 (CHR '':'') = Inr (False, w2)" "stage w at_parameter (Some 3) 0 zero_params w2"
    by (rule step_separator [OF w1(2,3) _ e(1) disjI1 [OF refl]]) simp
  let ?P = "zero_params\<lparr>date_time := calendar_secs tm\<rparr>"
  obtain w3 where w3: "stage w at_crlf (Some 3) 1 ?P w3"
    "run env w2 (c # cs @ [CR, LF]) = cbind (call_exec response_table env w3)
       (\<lambda>w2. Inr (send_kind (set_response None (set_string_pos 0 w2))))"
  proof (rule run_free_text [OF w2(2) t(2-4) e(2), where P' = ?P and env = env])
    show "next_parameter (response_table ! 3) env w 1 at_param_symbol VStr = Inr (True, upd_params (\<lambda>_. ?P) w)"
      if "par w = zero_params" "text_of w VStr = Inr (c # cs)" for w
      using that t(5) by (simp add: e(3) at_cipsntptime_set_param_def tm_to_secs_eq esp_upd)
  qed
  let ?w4 = "(upd_current (\<lambda>c. c\<lparr>date_time := calendar_secs tm\<rparr>) w3)\<lparr>rtc := rtc_set_time (gmtime env (calendar_secs tm)) (rtc w3)\<rparr>"
  let ?w = "send_kind (set_response None (set_string_pos 0 (set_state at_none ?w4)))"
  have "at_cipsntptime_exec env w3 1 = Inr (at_none, ?w4)"
    using stage_fields(5) [OF w3(1)] late
    by (simp add: at_cipsntptime_exec_def MINIMUM_YEAR_def tm_to_secs_eq upd_current_def upd_serial_def)
  then have "call_exec response_table env w3 = Inr (set_state at_none ?w4)"
    using stage_fields(3,4) [OF w3(1)] e(2,4) by (simp add: call_exec_def)
  then have r: "run env w (sntp_line t) = Inr ?w"
    using run_trans [OF w1(1), of "CHR '':'' # c # cs @ [CR, LF]"] w2(1) w3(2) t(1) by (simp add: sntp_line_def)
  have f: "cur ?w4 = (cur w3)\<lparr>date_time := calendar_secs tm\<rparr>" "dtq ?w4 = dtq w3"
    "rtc ?w4 = rtc_set_time (gmtime env (calendar_secs tm)) (rtc w3)"
    "response_kind (serial ?w4) = response_kind (serial w3)" by (simp_all add: esp_upd)
  have "idle ?w" using run_inv [OF _ r] assms(1) by (simp add: idle_def)
  moreover have "kept w ?w" by (intro kept_upds stage_kept [OF w3(1)])
  moreover have "cur ?w = (cur w)\<lparr>date_time := calendar_secs tm\<rparr>" "dtq ?w = dtq w"
    "rtc ?w = rtc_set_time (gmtime env (calendar_secs tm)) (rtc w)"
    using stage_fields(6,8,9,11) [OF w3(1)] assms(1) f by (simp_all add: idle_def)
  ultimately show thesis using that [OF r] by blast
qed

section \<open>Bringing the modem up\<close>

text \<open>A chunk that, from an idle parser, amounts to one \<open>OK\<close>, with its effect on state and clock.\<close>

definition ok_chunk :: "esp_env \<Rightarrow> string \<Rightarrow> (esp_socket_state \<Rightarrow> esp_socket_state) \<Rightarrow> (rtc_regs \<Rightarrow> rtc_regs) \<Rightarrow> bool" where
  "ok_chunk env c g h \<longleftrightarrow> (\<forall>w. idle w \<and> dtq w = [] \<longrightarrow>
     (\<exists>w'. run env w c = Inr w' \<and> idle w' \<and> kept w w' \<and> cur w' = g (cur w) \<and> rtc w' = h (rtc w) \<and> dtq w' = [kind_ok]))"

definition ok_text :: string where "ok_text = ''OK'' @ CRLF"

definition join_text :: string where
  "join_text = (''WIFI CONNECTED'' @ CRLF) @ (''WIFI GOT IP'' @ CRLF) @ CRLF @ ok_text"

definition time_text :: "string \<Rightarrow> string" where
  "time_text t = sntp_line t @ ok_text"

lemma ok_chunk_ok: "ok_chunk env ok_text (\<lambda>c. c) (\<lambda>r. r)"
proof -
  have "\<exists>w'. run env w ok_text = Inr w' \<and> idle w' \<and> kept w w' \<and> cur w' = cur w \<and> rtc w' = rtc w \<and> dtq w' = [kind_ok]"
    if "idle w" "dtq w = []" for w
  proof -
    note w = that
    have room: "length (dtq w) < NUM_ESP_AT" using w(2) by simp
    obtain w' where "run env w (''OK'' @ CRLF) = Inr w'" "idle w'" "kept w w'" "cur w' = cur w" "rtc w' = rtc w"
      "dtq w' = dtq w @ [kind_ok]" by (rule run_ok [OF w(1) room])
    then show ?thesis unfolding ok_text_def using w(2) by (intro exI [of _ w']) simp
  qed
  then show ?thesis by (simp add: ok_chunk_def)
qed

lemma ok_chunk_after:
  assumes "ok_chunk env d g h"
    and "\<And>w. idle w \<Longrightarrow> dtq w = [] \<Longrightarrow> \<exists>w'. run env w c = Inr w' \<and> idle w' \<and> kept w w' \<and> cur w' = g' (cur w) \<and>
      rtc w' = h' (rtc w) \<and> dtq w' = []"
  shows "ok_chunk env (c @ d) (\<lambda>s. g (g' s)) (\<lambda>r. h (h' r))"
  unfolding ok_chunk_def
proof (intro allI impI)
  fix w
  assume w: "idle w \<and> dtq w = []"
  with assms(2) obtain u where u: "run env w c = Inr u" "idle u" "kept w u" "cur u = g' (cur w)"
    "rtc u = h' (rtc w)" "dtq u = []" by blast
  with assms(1) obtain v where v: "run env u d = Inr v" "idle v" "kept u v" "cur v = g (cur u)"
    "rtc v = h (rtc u)" "dtq v = [kind_ok]" unfolding ok_chunk_def by blast
  have "run env w (c @ d) = Inr v" using run_trans [OF u(1)] v(1) by simp
  moreover have "kept w v" by (rule kept_trans [OF u(3) v(3)])
  ultimately show "\<exists>w'. run env w (c @ d) = Inr w' \<and> idle w' \<and> kept w w' \<and> cur w' = g (g' (cur w)) \<and>
      rtc w' = h (h' (rtc w)) \<and> dtq w' = [kind_ok]" using u v by (intro exI [of _ v]) simp
qed

lemma ok_chunk_join: "ok_chunk env join_text (\<lambda>c. c\<lparr>wifi_state := wifi_got_ip\<rparr>) (\<lambda>r. r)"
proof -
  have wifi: "\<exists>w'. run env w (t @ CRLF) = Inr w' \<and> idle w' \<and> kept w w' \<and> cur w' = (cur w)\<lparr>wifi_state := st\<rparr> \<and>
      rtc w' = rtc w \<and> dtq w' = []" if "idle w" "dtq w = []" "(t, st) \<in> set wifi_words" for w t st
    by (rule run_wifi [OF that(1,3), of env]) (use that(2) in auto)
  have blank: "\<exists>w'. run env w CRLF = Inr w' \<and> idle w' \<and> kept w w' \<and> cur w' = cur w \<and> rtc w' = rtc w \<and> dtq w' = []"
    if "idle w" "dtq w = []" for w
    by (rule run_blank [OF that(1), of env]) (use that(2) in auto)
  have 1: "ok_chunk env (CRLF @ ok_text) (\<lambda>c. c) (\<lambda>r. r)"
    by (rule ok_chunk_after [OF ok_chunk_ok]) (rule blank)
  have 2: "ok_chunk env ((''WIFI GOT IP'' @ CRLF) @ CRLF @ ok_text) (\<lambda>c. c\<lparr>wifi_state := wifi_got_ip\<rparr>) (\<lambda>r. r)"
    by (rule ok_chunk_after [OF 1]) (rule wifi, simp_all add: wifi_words_def)
  have "ok_chunk env ((''WIFI CONNECTED'' @ CRLF) @ (''WIFI GOT IP'' @ CRLF) @ CRLF @ ok_text)
      (\<lambda>c. c\<lparr>wifi_state := wifi_connected\<rparr>\<lparr>wifi_state := wifi_got_ip\<rparr>) (\<lambda>r. r)"
    by (rule ok_chunk_after [OF 2]) (rule wifi, simp_all add: wifi_words_def)
  moreover have "(\<lambda>c. c\<lparr>wifi_state := wifi_connected\<rparr>\<lparr>wifi_state := wifi_got_ip\<rparr>) = (\<lambda>c :: esp_socket_state. c\<lparr>wifi_state := wifi_got_ip\<rparr>)"
    by (rule ext) simp
  ultimately show ?thesis by (simp only: join_text_def)
qed

lemma ok_chunk_time:
  assumes "date_text env t tm"
  shows "ok_chunk env (time_text t) (\<lambda>c. c\<lparr>date_time := calendar_secs tm\<rparr>) (rtc_set_time (gmtime env (calendar_secs tm)))"
  unfolding time_text_def
proof (rule ok_chunk_after [OF ok_chunk_ok])
  fix w
  assume w: "idle w" "dtq w = []"
  show "\<exists>w'. run env w (sntp_line t) = Inr w' \<and> idle w' \<and> kept w w' \<and> cur w' = (cur w)\<lparr>date_time := calendar_secs tm\<rparr> \<and>
      rtc w' = rtc_set_time (gmtime env (calendar_secs tm)) (rtc w) \<and> dtq w' = []"
    by (rule run_sntp [OF w(1) assms]) (use w(2) in auto)
qed

text \<open>A command answered by such a chunk.\<close>

lemma idle_cong: "serial w' = serial w \<Longrightarrow> connections w' = connections w \<Longrightarrow> idle w' = idle w"
  by (cases "response (serial w)") (simp_all add: idle_def parser_inv_def data_ok_def response_ok_def state_ok_def)

definition answered :: "string list \<Rightarrow> (esp_socket_state \<Rightarrow> esp_socket_state) \<Rightarrow> (rtc_regs \<Rightarrow> rtc_regs) \<Rightarrow> esp_state \<Rightarrow> esp \<Rightarrow> esp \<Rightarrow> bool" where
  "answered texts g h st w w' \<longleftrightarrow> idle w' \<and> connections w' = connections w \<and> written w' = texts @ written w \<and>
     serial_state (serial w') = st \<and> ap_name (serial w') = ap_name (serial w) \<and> ap_pwd (serial w') = ap_pwd (serial w) \<and>
     cur w' = g (cur w) \<and> rtc w' = h (rtc w) \<and> dtq w' = []"

lemma write_ok:
  assumes c: "ok_chunk env c g h" and w: "idle w" and s: "\<forall>ws t. 0 \<le> serial_wri env ws t"
  obtains w' where "esp_serial_write env text kind (w, c # cs) = Inr (E_OK, kind_ok, (w', cs))"
    "answered [text] g h (serial_state (serial w)) w w'"
proof -
  let ?u = "w\<lparr>dtq := [], written := text # written w\<rparr>"
  have "idle ?u" using w by (subst idle_cong [of _ w]) simp_all
  with c obtain v where v: "run env ?u c = Inr v" "idle v" "kept ?u v" "cur v = g (cur ?u)" "rtc v = h (rtc ?u)"
    "dtq v = [kind_ok]" unfolding ok_chunk_def by force
  have nn: "\<not> serial_wri env (written w) text < 0" using s by (simp add: not_less)
  have "esp_serial_write env text kind (w, c # cs) = Inr (E_OK, kind_ok, (v\<lparr>dtq := []\<rparr>, cs))"
    using nn v by (simp add: esp_serial_write_def serial_wri_dat_def esp_serial_clear_def esp_serial_read_def take_kind_def)
  moreover have "idle (v\<lparr>dtq := []\<rparr>)" using v(2) by (subst idle_cong [of _ v]) simp_all
  ultimately show thesis
    using that v by (simp add: answered_def kept_def)
qed

lemma expect_ok_step:
  assumes c: "ok_chunk env c g h" and w: "idle w" and s: "\<forall>ws t. 0 \<le> serial_wri env ws t"
  obtains w' where "expect_ok env text st kind (w, c # cs) k = k kind_ok (w', cs)" "answered [text] g h st w w'"
proof -
  obtain v where v: "esp_serial_write env text kind (w, c # cs) = Inr (E_OK, kind_ok, (v, cs))"
    "answered [text] g h (serial_state (serial w)) w v" by (rule write_ok [OF c w s])
  let ?v = "fst (set_esp_state st (v, cs))"
  have "expect_ok env text st kind (w, c # cs) k = k kind_ok (?v, cs)"
    using v(1) by (simp add: expect_ok_def set_esp_state_def)
  moreover have "idle ?v = idle v"
    by (simp add: idle_def parser_inv_def data_ok_def response_ok_def state_ok_def set_esp_state_def esp_upd text_ok_def
        split: option.split)
  then have "answered [text] g h st w ?v"
    using v(2) by (simp add: answered_def set_esp_state_def esp_upd)
  ultimately show thesis by (rule that)
qed

lemma answered_trans:
  assumes "answered a g h s u v" "answered b g' h' s' v w"
  shows "answered (b @ a) (\<lambda>c. g' (g c)) (\<lambda>r. h' (h r)) s' u w"
  using assms by (simp add: answered_def)

lemma answered_idle: "answered a g h s u v \<Longrightarrow> idle v"
  by (simp add: answered_def)

text \<open>The commands in the order they are sent.\<close>

definition join_command :: "string \<Rightarrow> string \<Rightarrow> string" where
  "join_command n p = ''AT+CWJAP='' @ quote n @ '','' @ quote p @ CRLF"

definition sntp_config_command :: string where
  "sntp_config_command = ''AT+CIPSNTPCFG='' @ dec_int 1 @ '','' @ dec_int 0 @ '','' @ quote ''ntp.nict.jp'' @ CRLF"

definition start_commands :: "string \<Rightarrow> string \<Rightarrow> string list" where
  "start_commands n p = [''ATE0'' @ CRLF, ''AT+CWMODE=1'' @ CRLF, ''AT+CWAUTOCONN=0'' @ CRLF, ''AT+CIPMUX=1'' @ CRLF,
     ''AT+CIPDINFO=1'' @ CRLF, join_command n p, sntp_config_command, ''AT+CIPSNTPTIME?'' @ CRLF]"

lemma sntp_config_length: "length sntp_config_command < 64"
  using dec_nat_length [of 1 1] dec_nat_length [of 0 1] by (simp add: sntp_config_command_def quote_def dec_int_def)

lemma time_now_set:
  assumes "rtc_range g" "calendar_secs g = s"
  shows "time_now (w\<lparr>rtc := rtc_set_time g r\<rparr>) = Inr s"
proof -
  have "calendar_secs (rtc_get_time (rtc_set_time g r) zero_tm) = calendar_secs g"
    using rtc_roundtrip_eq [OF assms(1), of r zero_tm] by (simp add: calendar_secs_def)
  with assms(2) show ?thesis by (simp add: time_now_def tm_to_secs_eq)
qed

lemma idle_restate: "idle (fst (set_esp_state st l)) = idle (fst l)" "idle (w\<lparr>dtq := q\<rparr>) = idle w"
  by (simp_all add: idle_def parser_inv_def data_ok_def response_ok_def state_ok_def set_esp_state_def esp_upd text_ok_def
      split: option.split)

lemma set_esp_state_pair: "set_esp_state st (x, ys) = (fst (set_esp_state st (x, [])), ys)"
  by (simp add: set_esp_state_def)

text \<open>The five settings, each answered by \<open>OK\<close>.\<close>

lemma settings_step:
  assumes u: "idle u" and s: "\<forall>ws t. 0 \<le> serial_wri env ws t"
  obtains w where "case_echo_off env 0 kind_no_set (u, ok_text # ok_text # ok_text # ok_text # ok_text # cs)
      = case_connect_ap env 0 kind_ok (w, cs)"
    "answered (rev (take 5 (start_commands n p))) (\<lambda>c. c) (\<lambda>r. r) esp_connect_ap u w"
proof -
  note step = expect_ok_step [OF ok_chunk_ok _ s]
  obtain w1 where w1: "case_echo_off env 0 kind_no_set (u, ok_text # ok_text # ok_text # ok_text # ok_text # cs)
      = case_station_mode env 0 kind_ok (w1, ok_text # ok_text # ok_text # ok_text # cs)"
    "answered [''ATE0'' @ CRLF] (\<lambda>c. c) (\<lambda>r. r) esp_set_station_mode u w1"
    unfolding case_echo_off_def by (rule step [OF u])
  obtain w2 where w2: "case_station_mode env 0 kind_ok (w1, ok_text # ok_text # ok_text # ok_text # cs)
      = case_auto_connect_off env 0 kind_ok (w2, ok_text # ok_text # ok_text # cs)"
    "answered [''AT+CWMODE=1'' @ CRLF] (\<lambda>c. c) (\<lambda>r. r) esp_auto_connect_to_ap_off w1 w2"
    unfolding case_station_mode_def by (rule step [OF answered_idle [OF w1(2)]])
  obtain w3 where w3: "case_auto_connect_off env 0 kind_ok (w2, ok_text # ok_text # ok_text # cs)
      = case_multiple env 0 kind_ok (w3, ok_text # ok_text # cs)"
    "answered [''AT+CWAUTOCONN=0'' @ CRLF] (\<lambda>c. c) (\<lambda>r. r) esp_set_multiple_connections_mode w2 w3"
    unfolding case_auto_connect_off_def by (rule step [OF answered_idle [OF w2(2)]])
  obtain w4 where w4: "case_multiple env 0 kind_ok (w3, ok_text # ok_text # cs)
      = case_show_remote env 0 kind_ok (w4, ok_text # cs)"
    "answered [''AT+CIPMUX=1'' @ CRLF] (\<lambda>c. c) (\<lambda>r. r) esp_show_remote_ip_and_port w3 w4"
    unfolding case_multiple_def by (rule step [OF answered_idle [OF w3(2)]])
  obtain w5 where w5: "case_show_remote env 0 kind_ok (w4, ok_text # cs) = case_connect_ap env 0 kind_ok (w5, cs)"
    "answered [''AT+CIPDINFO=1'' @ CRLF] (\<lambda>c. c) (\<lambda>r. r) esp_connect_ap w4 w5"
    unfolding case_show_remote_def by (rule step [OF answered_idle [OF w4(2)]])
  have "answered (rev (take 5 (start_commands n p))) (\<lambda>c. c) (\<lambda>r. r) esp_connect_ap u w5"
    using w1(2) w2(2) w3(2) w4(2) w5(2) by (simp add: answered_def start_commands_def)
  with w1(1) w2(1) w3(1) w4(1) w5(1) show thesis by (intro that) simp_all
qed

text \<open>Joining the access point, which the modem reports on the way, and setting up SNTP.\<close>

lemma join_step:
  assumes u: "idle u" and s: "\<forall>ws t. 0 \<le> serial_wri env ws t"
    and names: "ap_name (serial u) = Some n" "ap_pwd (serial u) = Some p" "length n + length p \<le> 47"
  obtains w where "case_connect_ap env 0 kind_ok (u, join_text # ok_text # cs) = case_get_time env 0 kind_ok (w, cs)"
    "answered [sntp_config_command, join_command n p] (\<lambda>c. c\<lparr>wifi_state := wifi_got_ip\<rparr>) (\<lambda>r. r) esp_get_time u w"
proof -
  obtain w6 where w6: "expect_ok env (join_command n p) esp_update_time kind_ok (u, join_text # ok_text # cs)
      (case_update_time env 0) = case_update_time env 0 kind_ok (w6, ok_text # cs)"
    "answered [join_command n p] (\<lambda>c. c\<lparr>wifi_state := wifi_got_ip\<rparr>) (\<lambda>r. r) esp_update_time u w6"
    by (rule expect_ok_step [OF ok_chunk_join u s])
  obtain w7 where w7: "expect_ok env sntp_config_command esp_get_time kind_ok (w6, ok_text # cs) (case_get_time env 0)
      = case_get_time env 0 kind_ok (w7, cs)"
    "answered [sntp_config_command] (\<lambda>c. c) (\<lambda>r. r) esp_get_time w6 w7"
    by (rule expect_ok_step [OF ok_chunk_ok answered_idle [OF w6(2)] s])
  have fit: "length (join_command n p) < 64" using names(3) by (simp add: join_command_def quote_def)
  have "case_connect_ap env 0 kind_ok (u, join_text # ok_text # cs) = case_update_time env 0 kind_ok (w6, ok_text # cs)"
    using w6(1) names fit by (simp add: case_connect_ap_def sprintf_into_def strcpy_into_def join_command_def)
  also have "\<dots> = case_get_time env 0 kind_ok (w7, cs)"
    using w7(1) sntp_config_length
    by (simp add: case_update_time_def sprintf_into_def strcpy_into_def sntp_config_command_def)
  finally show thesis by (rule that) (use w6(2) w7(2) in \<open>simp add: answered_def\<close>)
qed

text \<open>The time the modem tells.\<close>

lemma time_step:
  assumes u: "idle u" and s: "\<forall>ws t. 0 \<le> serial_wri env ws t"
    and date: "date_text env t tm" "rtc_range (gmtime env (calendar_secs tm))"
      "calendar_secs (gmtime env (calendar_secs tm)) = calendar_secs tm"
  obtains w where "case_get_time env 0 kind_ok (u, [time_text t]) = Inr (Return True (w, []))"
    "answered [''AT+CIPSNTPTIME?'' @ CRLF] (\<lambda>c. c\<lparr>date_time := calendar_secs tm\<rparr>)
       (rtc_set_time (gmtime env (calendar_secs tm))) esp_done u w"
proof -
  obtain v where v: "esp_serial_write env (''AT+CIPSNTPTIME?'' @ CRLF) kind_ok (u, time_text t # []) = Inr (E_OK, kind_ok, (v, []))"
    "answered [''AT+CIPSNTPTIME?'' @ CRLF] (\<lambda>c. c\<lparr>date_time := calendar_secs tm\<rparr>)
       (rtc_set_time (gmtime env (calendar_secs tm))) (serial_state (serial u)) u v"
    by (rule write_ok [OF ok_chunk_time [OF date(1)] u s])
  let ?w = "fst (set_esp_state esp_done (v, []))"
  have d: "date_time (cur v) = calendar_secs tm" "rtc v = rtc_set_time (gmtime env (calendar_secs tm)) (rtc u)"
    using v(2) by (simp_all add: answered_def)
  have now: "time_now ?w = Inr (calendar_secs tm)"
    using time_now_set [OF date(2,3), of "rtc u" v] d(2) by (simp add: time_now_def set_esp_state_def esp_upd)
  have "case_done env 0 kind_ok (?w, []) = Inr (Return True (?w, []))"
    using now d(1) by (simp add: case_done_def Let_def set_esp_state_def esp_upd)
  then have "case_get_time env 0 kind_ok (u, [time_text t]) = Inr (Return True (?w, []))"
    using v(1) d(1) date(1)
    by (simp add: case_get_time_def MINIMUM_YEAR_def tm_to_secs_eq set_esp_state_def date_text_def)
  moreover have "answered [''AT+CIPSNTPTIME?'' @ CRLF] (\<lambda>c. c\<lparr>date_time := calendar_secs tm\<rparr>)
       (rtc_set_time (gmtime env (calendar_secs tm))) esp_done u ?w"
    using v(2) by (simp add: answered_def idle_restate) (simp add: set_esp_state_def esp_upd)
  ultimately show thesis by (rule that)
qed

definition start_answers :: "string \<Rightarrow> string list" where
  "start_answers t = [ok_text, ok_text, ok_text, ok_text, ok_text, join_text, ok_text, time_text t]"

lemma prepare_start:
  assumes w: "idle w" and wifi: "wifi_state (cur w) \<noteq> wifi_got_ip"
    and names: "ap_name (serial w) = Some n" "ap_pwd (serial w) = Some p" "length n + length p \<le> 47"
    and s: "\<forall>ws t. 0 \<le> serial_wri env ws t"
    and date: "date_text env t tm" "rtc_range (gmtime env (calendar_secs tm))"
      "calendar_secs (gmtime env (calendar_secs tm)) = calendar_secs tm"
  obtains w' where "prepare_esp_at env (w, start_answers t) = Some (Inr (True, (w', [])))"
    "answered (rev (start_commands n p)) (\<lambda>c. c\<lparr>wifi_state := wifi_got_ip, date_time := calendar_secs tm\<rparr>)
       (rtc_set_time (gmtime env (calendar_secs tm))) esp_done w w'"
proof -
  let ?u = "(fst (set_esp_state esp_echo_off (w, [])))\<lparr>dtq := []\<rparr>"
  have u: "idle ?u" using w by (simp add: idle_restate)
  have same: "connections ?u = connections w" "written ?u = written w" "cur ?u = cur w" "rtc ?u = rtc w"
    "ap_name (serial ?u) = ap_name (serial w)" "ap_pwd (serial ?u) = ap_pwd (serial w)"
    by (simp_all add: set_esp_state_def esp_upd)
  obtain w5 where w5: "case_echo_off env 0 kind_no_set (?u, start_answers t)
      = case_connect_ap env 0 kind_ok (w5, [join_text, ok_text, time_text t])"
    "answered (rev (take 5 (start_commands n p))) (\<lambda>c. c) (\<lambda>r. r) esp_connect_ap ?u w5"
    unfolding start_answers_def by (rule settings_step [OF u s])
  have n5: "ap_name (serial w5) = Some n" "ap_pwd (serial w5) = Some p"
    using w5(2) same names by (simp_all add: answered_def)
  obtain w7 where w7: "case_connect_ap env 0 kind_ok (w5, [join_text, ok_text, time_text t])
      = case_get_time env 0 kind_ok (w7, [time_text t])"
    "answered [sntp_config_command, join_command n p] (\<lambda>c. c\<lparr>wifi_state := wifi_got_ip\<rparr>) (\<lambda>r. r) esp_get_time w5 w7"
    by (rule join_step [OF answered_idle [OF w5(2)] s n5 names(3)])
  obtain w9 where w9: "case_get_time env 0 kind_ok (w7, [time_text t]) = Inr (Return True (w9, []))"
    "answered [''AT+CIPSNTPTIME?'' @ CRLF] (\<lambda>c. c\<lparr>date_time := calendar_secs tm\<rparr>)
       (rtc_set_time (gmtime env (calendar_secs tm))) esp_done w7 w9"
    by (rule time_step [OF answered_idle [OF w7(2)] s date])
  have "prepare_round env 0 kind_no_set (set_esp_state esp_echo_off (w, start_answers t)) = Inr (Return True (w9, []))"
    using w5(1) w7(1) w9(1) by (simp add: prepare_round_def prepare_case_def esp_serial_clear_def set_esp_state_def esp_upd)
  then have "prepare_esp_at env (w, start_answers t) = Some (Inr (True, (w9, [])))"
    using wifi by (simp add: prepare_esp_at_def prepare_loop.simps)
  moreover have "answered (rev (start_commands n p)) (\<lambda>c. c\<lparr>wifi_state := wifi_got_ip, date_time := calendar_secs tm\<rparr>)
       (rtc_set_time (gmtime env (calendar_secs tm))) esp_done w w9"
    using w5(2) w7(2) w9(2) same unfolding answered_def by (simp add: start_commands_def)
  ultimately show thesis by (rule that)
qed

end
