(* ===== verification/Esp_Calls.thy ===== *)
theory Esp_Calls
  imports Esp_Session Esp_Ipd
begin

text \<open>
  The properties of the socket calls: they return, whatever the modem sends; the modem is brought
  up by the answers of a working modem, and the join command that does not fit its array; what a
  successful send has put on the line; the data path from an announcement to
  \<open>esp_at_socket_receive\<close>; and a second socket that the modem connects and the driver never
  sees as connected.
\<close>

section \<open>The parser writes nothing\<close>

definition quiet :: "esp \<Rightarrow> ('a \<times> esp) outcome \<Rightarrow> bool" where
  "quiet w m \<longleftrightarrow> holds (\<lambda>r. written (snd r) = written w) m"

lemma quiet_simps [simp]:
  "quiet w (Inl u)" "quiet w (Inr r) \<longleftrightarrow> written (snd r) = written w"
  "quiet w (cbind m f) \<longleftrightarrow> (\<forall>x. m = Inr x \<longrightarrow> quiet w (f x))"
  "quiet w (if b then m1 else m2) \<longleftrightarrow> (b \<longrightarrow> quiet w m1) \<and> (\<not> b \<longrightarrow> quiet w m2)"
  by (cases m; simp add: quiet_def)+

lemma quietD: "quiet w m \<Longrightarrow> m = Inr (r, w') \<Longrightarrow> written w' = written w"
  by simp

text \<open>Handlers of a response table that leave the serial output alone.\<close>

locale quiet_handlers =
  fixes tbl :: "at_response_entry list" and env :: esp_env
  assumes next_quiet: "r \<in> set tbl \<Longrightarrow> quiet w (next_parameter r env w n type v)"
    and exec_quiet: "r \<in> set tbl \<Longrightarrow> quiet w (exec_response r env w n)"
begin

lemma call_next_quiet:
  assumes "call_next tbl env w type v = Inr (b, w')"
  shows "written w' = written w"
proof -
  from assms obtain n i where "i < length tbl"
    "next_parameter (tbl ! i) env (upd_serial (\<lambda>s. s\<lparr>param_pos := n\<rparr>) w) n type v = Inr (b, w')"
    by (auto simp: call_next_def cbind_Inr_iff Let_def split: option.splits if_splits)
  from quietD [OF next_quiet [OF nth_mem [OF this(1)]] this(2)] show ?thesis by (simp add: esp_upd)
qed

lemma call_exec_quiet:
  assumes "call_exec tbl env w = Inr w'"
  shows "written w' = written w"
proof -
  from assms obtain i st u where "i < length tbl"
    "exec_response (tbl ! i) env w (param_pos (serial w)) = Inr (st, u)" "w' = set_state st u"
    by (auto simp: call_exec_def cbind_Inr_iff split: option.splits if_splits)
  from quietD [OF exec_quiet [OF nth_mem [OF this(1)]] this(2)] this(3) show ?thesis by (simp add: esp_upd)
qed

lemma look_up_quiet: "look_up tbl w = Inr w' \<Longrightarrow> written w' = written w"
  by (auto simp: look_up_def cbind_Inr_iff esp_upd)

lemma upd_quiet [simp]:
  "written (snd (append_char w c)) = written w" "written (set_state st w) = written w"
  "written (set_response r w) = written w" "written (set_string_pos k w) = written w"
  "written (start_string c w) = written w" "written (reset_params w) = written w"
  "written (set_number n w) = written w" "written (upd_params f w) = written w"
  "written (upd_serial g w) = written w" "written (upd_current f w) = written w" "written (set_kind kd w) = written w"
  by (simp_all add: esp_upd append_char_def reset_params_def)

lemma store_quiet: "store_byte w c = Inr w' \<Longrightarrow> written w' = written w"
  by (auto simp: store_byte_def cbind_Inr_iff Let_def split: option.splits)

lemma crlf_quiet: "proc_crlf tbl env w c = Inr (b, w') \<Longrightarrow> written w' = written w"
  by (auto simp: proc_crlf_def cbind_Inr_iff parse_error_def dest!: call_exec_quiet split: if_splits)

lemma digit_quiet: "add_digit w c = Inr w' \<Longrightarrow> written w' = written w"
  by (auto simp: add_digit_def cbind_Inr_iff Let_def split: if_splits)

lemma print_quiet: "print_string t w = Inr w' \<Longrightarrow> written w' = written w"
  by (auto simp: print_string_def split: if_splits)

lemma proc_quiet:
  assumes "proc_atc_res tbl env w c = Inr (b, w')"
  shows "written w' = written w"
  using assms
  by (auto simp: proc_atc_res_def proc_none_def proc_informtion_def proc_response_def proc_link_id_def proc_parameter_def
      proc_number_def proc_string_str_def proc_string_esc_def proc_string_edq_def proc_symbol_def proc_ipaddr_def
      proc_line_text_def proc_cr_def proc_receive_data_def accept_def goto_def parse_error_def cbind_Inr_iff Let_def
      dest!: call_next_quiet call_exec_quiet look_up_quiet store_quiet crlf_quiet digit_quiet print_quiet
      split: at_parse_state.splits if_splits)

lemma handler_quiet: "esp_at_rx_handler tbl env w cs = Inr w' \<Longrightarrow> written w' = written w"
proof (induction cs arbitrary: w)
  case (Cons c cs)
  then obtain b u where u: "proc_atc_res tbl env w c = Inr (b, u)"
    "esp_at_rx_handler tbl env (if b then send_kind u else u) cs = Inr w'"
    by (auto simp: cbind_Inr_iff)
  from Cons.IH [OF u(2)] proc_quiet [OF u(1)] show ?case by (auto simp: send_kind_def esp_upd split: if_splits)
qed simp

end

lemmas set_param_defs =
  at_cipmux_set_param_def at_cifsr_set_param_def at_cipap_set_param_def at_cipsntptime_set_param_def
  at_cipsta_set_param_def at_cwjap_set_param_def at_cwlap_set_param_def at_cwmode_set_param_def at_cwsap_set_param_def
  at_ipd_set_param_def at_already_connect_set_param_def at_error_set_param_def at_fail_set_param_def at_ok_set_param_def
  at_send_ok_set_param_def at_wifi_connected_set_param_def at_wifi_disconnect_set_param_def at_wifi_got_ip_set_param_def
  at_busy_set_param_def at_ready_set_param_def at_progress_set_param_def at_connect_set_param_def at_closed_set_param_def

lemmas exec_defs =
  at_cipmux_exec_def at_cifsr_exec_def at_cipap_exec_def at_cipsntptime_exec_def at_cipsta_exec_def at_cwjap_exec_def
  at_cwlap_exec_def at_cwmode_exec_def at_cwsap_exec_def at_ipd_exec_def at_already_connect_exec_def at_error_exec_def
  at_fail_exec_def at_ok_exec_def at_send_ok_exec_def at_wifi_connected_exec_def at_wifi_disconnect_exec_def
  at_wifi_got_ip_exec_def at_busy_exec_def at_ready_exec_def at_progress_exec_def at_connect_exec_def at_closed_exec_def

lemma table_quiet:
  "\<forall>r\<in>set response_table. quiet w (next_parameter r env w n type v)"
  "\<forall>r\<in>set response_table. quiet w (exec_response r env w n)"
  unfolding response_table_def entry_def
  by (simp_all add: set_param_defs exec_defs set_ip_def set_mac_def upd_ap_def upd_config_def set_conn_state_def Let_def
      esp_upd split: option.split)

interpretation quiet: quiet_handlers response_table env for env
  by unfold_locales (simp_all add: table_quiet [rule_format])

lemma take_kind_written: "take_kind l = (ret, kind, l1) \<Longrightarrow> written (fst l1) = written (fst l)"
  by (auto simp: take_kind_def split: list.splits)

lemma read_quiet:
  assumes "esp_serial_read env l = Inr (ret, kind, l1)"
  shows "written (fst l1) = written (fst l)"
  using assms
  by (auto simp: esp_serial_read_def cbind_Inr_iff split: if_splits list.splits dest!: quiet.handler_quiet take_kind_written)

lemma write_text:
  assumes "esp_serial_write env t kind l = Inr (E_OK, kind1, l1)"
  shows "written (fst l1) = t # written (fst l)"
  using assms by (auto simp: esp_serial_write_def serial_wri_dat_def Let_def esp_serial_clear_def split: if_splits dest!: read_quiet)

section \<open>What the calls do\<close>

lemma send_returns: "\<exists>r. esp_at_socket_send env h t l = Some r"
proof -
  have d: "\<exists>r. send_data env t l' = Some r" for l'
    using wait_sent_returns [of env] by (auto simp: send_data_def Let_def split: prod.splits sum.splits option.splits)
      (metis option.distinct(1))+
  show ?thesis
    using d wait_prompt_returns [of env]
    by (auto simp: esp_at_socket_send_def split: sum.splits option.splits prod.splits) (metis option.distinct(1))+
qed

lemma connect_returns: "\<exists>r. esp_at_socket_connect env h host port l = Some r"
  using prepare_returns [of env l] by (auto simp: esp_at_socket_connect_def split: option.splits sum.splits prod.splits)

lemma wait_prompt_written:
  "wait_prompt env l = Some (Inr (b, l1)) \<Longrightarrow> written (fst l1) = written (fst l)"
proof (induction l rule: pending_induct)
  case (1 l)
  then obtain ret kind l2 where r: "esp_serial_read env l = Inr (ret, kind, l2)"
    by (subst (asm) (2) wait_prompt.simps) (auto split: sum.splits)
  from 1 read_less [of env l kind l2] read_quiet [OF r] show ?case
    by (subst (asm) (2) wait_prompt.simps) (auto simp: r split: if_splits)
qed

lemma wait_sent_written:
  "wait_sent env l = Some (Inr (b, l1)) \<Longrightarrow> written (fst l1) = written (fst l)"
proof (induction l rule: pending_induct)
  case (1 l)
  then obtain ret kind l2 where r: "esp_serial_read env l = Inr (ret, kind, l2)"
    by (subst (asm) (2) wait_sent.simps) (auto split: sum.splits)
  from 1 read_less [of env l kind l2] read_quiet [OF r] show ?case
    by (subst (asm) (2) wait_sent.simps) (auto simp: r split: if_splits)
qed

lemma send_success:
  assumes "esp_at_socket_send env h t l = Some (Inr (Some n, l'))"
  shows "conn_state (conn h l) = conn_connected" "n = int (length t)"
    "written (fst l') = t # send_command (conn h l) (int (length t)) # written (fst l)"
proof -
  show "conn_state (conn h l) = conn_connected" using assms by (auto simp: esp_at_socket_send_def split: if_splits)
  with assms obtain ret kind l1 where w: "cbind (sprintf_into 64 (send_command (conn h l) (int (length t))))
      (\<lambda>temp. esp_serial_write env temp kind_no_set l) = Inr (ret, kind, l1)"
    by (auto simp: esp_at_socket_send_def split: sum.splits)
  with assms \<open>conn_state (conn h l) = conn_connected\<close> have ok: "ret = E_OK" by (auto simp: esp_at_socket_send_def split: if_splits)
  with w have w1: "written (fst l1) = send_command (conn h l) (int (length t)) # written (fst l)"
    by (auto simp: cbind_Inr_iff sprintf_into_def strcpy_into_def split: if_splits dest: write_text)
  from assms w \<open>conn_state (conn h l) = conn_connected\<close> obtain l2 where l2: "wait_prompt env l1 = Some (Inr (True, l2))"
    "send_data env t l2 = Some (Inr (Some n, l'))"
    by (auto simp: esp_at_socket_send_def split: if_splits option.splits sum.splits)
  from l2(2) obtain r l3 l4 where s: "serial_wri_dat env l2 t = (r, l3)" "\<not> r < 0" "wait_sent env l3 = Some (Inr (True, l'))"
    and n: "n = int (length t)"
    by (auto simp: send_data_def Let_def split: if_splits option.splits sum.splits prod.splits)
  show "n = int (length t)" by (rule n)
  have "written (fst l3) = t # written (fst l2)" using s(1,2) by (auto simp: serial_wri_dat_def Let_def split: if_splits)
  with wait_sent_written [OF s(3)] wait_prompt_written [OF l2(1)] w1
  show "written (fst l') = t # send_command (conn h l) (int (length t)) # written (fst l)" by simp
qed

lemma get_keeps_state: "ring_get k = Inr (Some (c, k')) \<Longrightarrow> conn_state k' = conn_state k"
  by (auto simp: ring_get_def split: if_splits rx_buffer.splits)

lemma read_loop_keeps_state: "read_loop k n = Inr (cs, k') \<Longrightarrow> conn_state k' = conn_state k"
  by (induction k n arbitrary: cs k' rule: read_loop.induct)
    (auto simp: cbind_Inr_iff get_keeps_state split: option.splits prod.splits)

lemma read_keeps_state: "connection_read_data k n = Inr (cs, k') \<Longrightarrow> conn_state k' = conn_state k"
  unfolding connection_read_data_def by (rule read_loop_keeps_state)

section \<open>Properties\<close>


text \<open>
  Claim C29.  With an idle parser, a name and password of at most 47 characters together, and a modem
  that answers each command (\<open>OK\<close>; for the join also the reports of the wireless link; for the
  time a date after 2020), \<open>prepare_esp_at\<close> succeeds: it sends the eight commands in order,
  the link is up, the clock is set to the time told, the driver is in its final state, and no
  connection is touched.
\<close>

theorem prepare_brings_up:
  assumes "idle w" "wifi_state (cur w) \<noteq> wifi_got_ip"
    "ap_name (serial w) = Some n" "ap_pwd (serial w) = Some p" "length n + length p \<le> 47"
    "\<forall>ws t. 0 \<le> serial_wri env ws t"
    "date_text env t tm" "rtc_range (gmtime env (calendar_secs tm))"
    "calendar_secs (gmtime env (calendar_secs tm)) = calendar_secs tm"
  shows "\<exists>w'. prepare_esp_at env (w, start_answers t) = Some (Inr (True, (w', []))) \<and>
    written w' = rev (start_commands n p) @ written w \<and> wifi_state (cur w') = wifi_got_ip \<and>
    date_time (cur w') = calendar_secs tm \<and> time_now w' = Inr (calendar_secs tm) \<and>
    serial_state (serial w') = esp_done \<and> connections w' = connections w \<and> idle w'"
proof -
  obtain w' where w': "prepare_esp_at env (w, start_answers t) = Some (Inr (True, (w', [])))"
    "answered (rev (start_commands n p)) (\<lambda>c. c\<lparr>wifi_state := wifi_got_ip, date_time := calendar_secs tm\<rparr>)
       (rtc_set_time (gmtime env (calendar_secs tm))) esp_done w w'"
    by (rule prepare_start [OF assms])
  from w'(2) time_now_set [OF assms(8,9), of "rtc w" w'] have "time_now w' = Inr (calendar_secs tm)"
    by (simp add: answered_def time_now_def)
  with w' show ?thesis by (auto simp: answered_def)
qed

lemma idle_one_open: "idle one_open"
  using one_open_ok by (simp add: idle_def) (simp add: one_open_def init_esp_at_def initial_serial_def)

lemma idle_names: "idle (set_ssid_pwd n p w) = idle w"
  by (simp add: idle_def parser_inv_def data_ok_def response_ok_def state_ok_def set_ssid_pwd_def esp_upd text_ok_def
      split: option.split)

definition named_modem :: esp where
  "named_modem = set_ssid_pwd (Some ''home'') (Some ''secret'') one_open"

lemma named_modem_facts:
  "idle named_modem" "wifi_state (cur named_modem) \<noteq> wifi_got_ip"
  "ap_name (serial named_modem) = Some ''home''" "ap_pwd (serial named_modem) = Some ''secret''"
  by (simp_all add: named_modem_def idle_names idle_one_open)
    (simp_all add: set_ssid_pwd_def esp_upd one_open_def init_esp_at_def initial_serial_def zero_params_def)

lemma leap_day_late: "calendar_secs minimum_year_tm < calendar_secs leap_day"
  by (rule calendar_secs_before)
    (simp_all add: valid_tm_def date_before_def leap_day_def minimum_year_tm_def month_lengths_def leap_year_def)

lemma dated_env_facts:
  "\<forall>ws t. 0 \<le> serial_wri dated_env ws t" "gmtime dated_env s = leap_day"
  "date_text dated_env ''Sat Feb 29 23:59:59 2020'' leap_day"
  using leap_day_late by (simp_all add: dated_env_def plain_env_def date_text_def c_char)

theorem prepare_brings_up_witness:
  "\<exists>w'. prepare_esp_at dated_env (named_modem, start_answers ''Sat Feb 29 23:59:59 2020'') = Some (Inr (True, (w', []))) \<and>
    written w' = rev (start_commands ''home'' ''secret'') @ written named_modem \<and> wifi_state (cur w') = wifi_got_ip \<and>
    date_time (cur w') = calendar_secs leap_day \<and> time_now w' = Inr (calendar_secs leap_day) \<and>
    serial_state (serial w') = esp_done \<and> connections w' = connections named_modem \<and> idle w'"
  by (rule prepare_brings_up [OF named_modem_facts _ dated_env_facts(1,3)])
    (simp_all add: dated_env_facts(2) leap_day_range)

text \<open>
  The join command is printed into an array of 64 bytes: with a name and password of 48 or
  more characters together, as soon as the modem has answered the five settings, bringing it up
  writes past the end of the array.
\<close>

theorem join_overflow:
  assumes "idle w" "wifi_state (cur w) \<noteq> wifi_got_ip"
    "ap_name (serial w) = Some n" "ap_pwd (serial w) = Some p" "48 \<le> length n + length p"
    "\<forall>ws t. 0 \<le> serial_wri env ws t"
  shows "prepare_esp_at env (w, ok_text # ok_text # ok_text # ok_text # ok_text # cs) = Some (Inl Buffer_overflow)"
proof -
  let ?u = "(fst (set_esp_state esp_echo_off (w, [])))\<lparr>dtq := []\<rparr>"
  have u: "idle ?u" using assms(1) by (simp add: idle_restate)
  have same: "ap_name (serial ?u) = ap_name (serial w)" "ap_pwd (serial ?u) = ap_pwd (serial w)"
    by (simp_all add: set_esp_state_def esp_upd)
  obtain w5 where w5: "case_echo_off env 0 kind_no_set (?u, ok_text # ok_text # ok_text # ok_text # ok_text # cs)
      = case_connect_ap env 0 kind_ok (w5, cs)"
    "answered (rev (take 5 (start_commands n p))) (\<lambda>c. c) (\<lambda>r. r) esp_connect_ap ?u w5"
    by (rule settings_step [OF u assms(6)])
  have "ap_name (serial w5) = Some n" "ap_pwd (serial w5) = Some p"
    using w5(2) same assms(3,4) by (simp_all add: answered_def)
  then have "case_connect_ap env 0 kind_ok (w5, cs) = Inl Buffer_overflow"
    using assms(5) by (simp add: case_connect_ap_def sprintf_into_def strcpy_into_def quote_def)
  with w5(1) have "prepare_round env 0 kind_no_set
      (set_esp_state esp_echo_off (w, ok_text # ok_text # ok_text # ok_text # ok_text # cs)) = Inl Buffer_overflow"
    by (simp add: prepare_round_def prepare_case_def esp_serial_clear_def set_esp_state_def esp_upd)
  then show ?thesis using assms(2) by (simp add: prepare_esp_at_def prepare_loop.simps)
qed

definition long_named_modem :: esp where
  "long_named_modem = set_ssid_pwd (Some ''home'') (Some (replicate 63 CHR ''x'')) one_open"

theorem join_overflow_witness:
  "prepare_esp_at dated_env (long_named_modem, [ok_text, ok_text, ok_text, ok_text, ok_text]) = Some (Inl Buffer_overflow)"
proof (rule join_overflow [where n = "''home''" and p = "replicate 63 CHR ''x''"])
  show "idle long_named_modem" by (simp add: long_named_modem_def idle_names idle_one_open)
qed (simp_all add: long_named_modem_def set_ssid_pwd_def esp_upd one_open_def init_esp_at_def initial_serial_def
    zero_params_def dated_env_facts(1))

text \<open>
  With a modem that does not answer, bringing it up sends the echo command once and fails,
  and connecting a socket that is not connected fails after that one command; no connection changes.
\<close>

theorem silent_modem:
  assumes "wifi_state (cur w) \<noteq> wifi_got_ip" "conn_state (conn h (w, [])) \<noteq> conn_connected"
    "\<forall>ws t. 0 \<le> serial_wri env ws t"
  shows "\<exists>w'. esp_at_socket_connect env h host port (w, []) = Some (Inr (None, (w', []))) \<and>
    written w' = (''ATE0'' @ CRLF) # written w \<and> connections w' = connections w \<and> use_wifi w' = 0 \<and>
    serial_state (serial w') = esp_echo_off \<and> cur w' = cur w"
proof -
  have nn: "\<not> serial_wri env ws t < 0" for ws t using assms(3) by (simp add: not_less)
  show ?thesis
    using assms(1,2) nn
    by (simp add: esp_at_socket_connect_def prepare_esp_at_def prepare_loop.simps prepare_round_def prepare_case_def
        case_echo_off_def expect_ok_def esp_serial_write_def serial_wri_dat_def esp_serial_read_def esp_serial_clear_def
        set_esp_state_def set_use_wifi_def esp_upd Let_def)
qed

theorem silent_modem_witness:
  "\<exists>w'. esp_at_socket_connect plain_env 1 ''host'' 8883 (one_open, []) = Some (Inr (None, (w', []))) \<and>
    written w' = (''ATE0'' @ CRLF) # written one_open \<and> connections w' = connections one_open \<and> use_wifi w' = 0 \<and>
    serial_state (serial w') = esp_echo_off \<and> cur w' = cur one_open"
  by (rule silent_modem)
    (simp_all add: one_open_def init_esp_at_def initial_serial_def zero_params_def initial_connections_def
      fresh_connection_facts plain_env_def)

text \<open>
  A send that reports success was made on a connected socket, reports the length of the
  data, and has put two things on the line after all that was there: the \<open>AT+CIPSEND\<close> command
  with the connection's id and that length, and then the data itself.
\<close>

theorem send_writes_data:
  assumes "esp_at_socket_send env h t l = Some (Inr (Some n, l'))"
  shows "conn_state (conn h l) = conn_connected \<and> n = int (length t) \<and>
    written (fst l') = t # send_command (conn h l) (int (length t)) # written (fst l)"
  using send_success [OF assms] by blast

text \<open>A connected socket and a modem that takes the data.\<close>

abbreviation send_answers :: "string list" where
  "send_answers \<equiv> [ok_text, ''>'', ''SEND OK'' @ CRLF]"

lemma send_command_fits:
  assumes "0 \<le> conn_id k" "conn_id k \<le> 4" "length t < 2 ^ 31"
  shows "length (send_command k (int (length t))) < 64"
  using dec_int_number_length [of "conn_id k"] dec_int_number_length [of "int (length t)"] assms
  by (simp add: send_command_def)

lemma read_chunk:
  assumes "dtq w = []" "run env w c = Inr w'" "dtq w' = [k]"
  shows "esp_serial_read env (w, c # cs) = Inr (E_OK, k, (w'\<lparr>dtq := []\<rparr>, cs))"
  using assms by (simp add: esp_serial_read_def take_kind_def)

lemma send_goes_through:
  assumes w: "idle w" and c: "conn_state (connections w ! h) = conn_connected"
    and k: "0 \<le> conn_id (connections w ! h)" "conn_id (connections w ! h) \<le> 4" and t: "length t < 2 ^ 31"
    and s: "\<forall>ws t. 0 \<le> serial_wri env ws t"
  shows "\<exists>w'. esp_at_socket_send env h t (w, send_answers @ cs) = Some (Inr (Some (int (length t)), (w', cs))) \<and> idle w' \<and>
    connections w' = connections w"
proof -
  have nn: "\<not> serial_wri env ws t < 0" for ws t using s by (simp add: not_less)
  obtain u where u: "esp_serial_write env (send_command (connections w ! h) (int (length t))) kind_no_set
      (w, ok_text # (''>'' # (''SEND OK'' @ CRLF) # cs)) = Inr (E_OK, kind_ok, (u, ''>'' # (''SEND OK'' @ CRLF) # cs))"
    "answered [send_command (connections w ! h) (int (length t))] (\<lambda>c. c) (\<lambda>r. r) (serial_state (serial w)) w u"
    by (rule write_ok [OF ok_chunk_ok w s])
  from u(2) have ui: "idle u" "dtq u = []" "connections u = connections w" by (simp_all add: answered_def)
  from ui(2) have room: "length (dtq u) < NUM_ESP_AT" by simp
  obtain v where v: "run env u ''>'' = Inr v" "idle v" "kept u v" "dtq v = dtq u @ [kind_progress]"
    by (rule run_prompt [OF ui(1) room])
  have rv: "esp_serial_read env (u, ''>'' # (''SEND OK'' @ CRLF) # cs) = Inr (E_OK, kind_progress, (v\<lparr>dtq := []\<rparr>, (''SEND OK'' @ CRLF) # cs))"
    by (rule read_chunk [OF ui(2) v(1)]) (simp add: v(4) ui(2))
  let ?x = "v\<lparr>dtq := [], written := t # written v\<rparr>"
  have xi: "idle ?x" using v(2) by (subst idle_cong [of _ v]) simp_all
  obtain y where y: "run env ?x (''SEND OK'' @ CRLF) = Inr y" "idle y" "kept ?x y" "dtq y = dtq ?x @ [kind_send_ok]"
    by (rule run_send_ok [OF xi]) simp_all
  have ry: "esp_serial_read env (?x, (''SEND OK'' @ CRLF) # cs) = Inr (E_OK, kind_send_ok, (y\<lparr>dtq := []\<rparr>, cs))"
    by (rule read_chunk [OF _ y(1)]) (simp_all add: y(4))
  have "idle (y\<lparr>dtq := []\<rparr>)" using y(2) by (simp add: idle_restate)
  moreover have "connections (y\<lparr>dtq := []\<rparr>) = connections w" using y(3) v(3) ui(3) by (simp add: kept_def)
  moreover have "esp_at_socket_send env h t (w, send_answers @ cs) = Some (Inr (Some (int (length t)), (y\<lparr>dtq := []\<rparr>, cs)))"
    using c u(1) rv ry nn send_command_fits [OF k t]
    by (simp add: esp_at_socket_send_def sprintf_into_def strcpy_into_def wait_prompt.simps wait_sent.simps send_data_def
        serial_wri_dat_def Let_def)
  ultimately show ?thesis by blast
qed

text \<open>
  Claim C33.  On a connected socket, a send that the modem answers with \<open>OK\<close>, the prompt and
  \<open>SEND OK\<close> succeeds for data of any length below 2147483648 bytes and reports the whole length; the parser
  is idle again and no connection has changed.
\<close>

theorem send_completes:
  assumes "idle w" "conn_state (connections w ! h) = conn_connected"
    "0 \<le> conn_id (connections w ! h)" "conn_id (connections w ! h) \<le> 4" "length t < 2 ^ 31"
    "\<forall>ws t. 0 \<le> serial_wri env ws t"
  shows "\<exists>w'. esp_at_socket_send env h t (w, send_answers) = Some (Inr (Some (int (length t)), (w', []))) \<and> idle w' \<and>
    connections w' = connections w"
  using send_goes_through [OF assms, of "[]"] by simp

definition one_connected :: esp where
  "one_connected = one_open\<lparr>connections := initial_connections[1 := (fresh_connection 1)\<lparr>conn_state := conn_connected\<rparr>]\<rparr>"

lemma one_connected_conns: "conns_ok (connections one_connected)"
proof -
  have "conns_ok (initial_connections[1 := (fresh_connection 1)\<lparr>conn_state := conn_connected\<rparr>])"
    by (rule conns_ok_update [OF initial_connections_ok])
      (simp_all add: initial_connections_def initial_connection_facts fresh_connection_def initial_connection_def ring_ok_def live_def)
  then show ?thesis by (simp add: one_connected_def)
qed

lemma idle_connections:
  assumes "idle w" "conns_ok ks"
  shows "idle (w\<lparr>connections := ks\<rparr>)"
proof -
  have "conns_ok (connections w)" using assms(1) parser_invD(1) by (auto simp: idle_def data_ok_def)
  then have "idle (w\<lparr>connections := ks\<rparr>) = idle w"
    using assms(2) by (simp add: idle_def parser_inv_def data_ok_def response_ok_def state_ok_def split: option.split)
  with assms(1) show ?thesis by simp
qed

lemma one_connected_facts:
  "idle one_connected" "conn_state (connections one_connected ! 1) = conn_connected"
  "0 \<le> conn_id (connections one_connected ! 1)" "conn_id (connections one_connected ! 1) \<le> 4"
  "live (connections one_connected ! 1)" "rx_contents (connections one_connected ! 1) = []"
proof -
  show "idle one_connected"
    using idle_connections [OF idle_one_open, of "connections one_connected"] one_connected_conns
    by (simp add: one_connected_def)
qed (simp_all add: one_connected_def initial_connections_def fresh_connection_def initial_connection_def live_def
    ring_ok_def rx_contents_def fill_def)

lemma plain_env_writes: "\<forall>ws t. 0 \<le> serial_wri plain_env ws t"
  by (simp add: plain_env_def)

theorem send_completes_witness:
  "\<exists>w'. esp_at_socket_send plain_env 1 ''hello'' (one_connected, send_answers) = Some (Inr (Some 5, (w', []))) \<and> idle w' \<and>
    connections w' = connections one_connected"
  using send_completes [OF one_connected_facts(1-4) _ plain_env_writes, of "''hello''"] by simp

theorem send_writes_data_witness:
  "\<exists>l'. esp_at_socket_send plain_env 1 ''hello'' (one_connected, send_answers) = Some (Inr (Some 5, l')) \<and>
    written (fst l') = ''hello'' # send_command (conn 1 (one_connected, send_answers)) 5 # written one_connected"
proof -
  from send_goes_through [OF one_connected_facts(1-4) _ plain_env_writes, of "''hello''" "[]"] obtain w' where
    w': "esp_at_socket_send plain_env 1 ''hello'' (one_connected, send_answers) = Some (Inr (Some 5, (w', [])))" by auto
  from send_writes_data [OF this] w' show ?thesis by (intro exI [of _ "(w', [])"]) simp
qed

text \<open>
  The data path through the whole driver: when a connected, empty socket's announcement
  and at most 4095 bytes of payload have come in, \<open>esp_at_socket_receive\<close> hands out the first
  bytes of exactly this payload, as many as asked for, and a second call the rest.
\<close>

theorem received_data_reaches_caller:
  assumes "idle w" "lid \<le> 4" "live (connections w ! lid)" "conn_state (connections w ! lid) = conn_connected"
    "rx_contents (connections w ! lid) = []" "payload \<noteq> []" "length payload \<le> rx_capacity" "port < 65536"
  shows "\<exists>w' l1 l2. esp_at_rx_handler response_table env w
      (ipd_header lid (length payload) (address_text quoted a b c d) port @ payload) = Inr w' \<and>
    esp_at_socket_receive lid n (w', cs) = Inr (Some (take (nat n) payload), l1) \<and>
    esp_at_socket_receive lid (int (length payload)) l1 = Inr (Some (drop (nat n) payload), l2) \<and> snd l2 = cs"
proof -
  have w: "parser_inv response_table w" "parse_state (serial w) = at_none" "length payload \<le> AT_CONNECTION_RX_BUFF_SIZE"
    using assms(1,7) by (simp_all add: idle_def)
  from payload_delivered [OF w(1,2) assms(2,3,6) w(3) assms(8), of env quoted a b c d] obtain w' where
    r: "esp_at_rx_handler response_table env w
      (ipd_header lid (length payload) (address_text quoted a b c d) port @ payload) = Inr w'" and
    f: "rx_contents (connections w' ! lid) = payload" "live (connections w' ! lid)"
      "conn_state (connections w' ! lid) = conn_connected"
    by (elim exE conjE) (use assms(4,5,7) in simp)
  have "conns_ok (connections w')" using parser_invD(1) [OF run_inv [OF w(1) r]] by (simp add: data_ok_def)
  then have i: "lid < length (connections w')" using assms(2) by (simp add: conns_ok_length)
  let ?k = "connections w' ! lid"
  have st: "conn_state k' = conn_state k" if "connection_read_data k m = Inr (xs, k')" for k m xs k'
    using that read_keeps_state by blast
  obtain k1 where k1: "connection_read_data ?k n = Inr (take (nat n) payload, k1)" "live k1"
    "rx_contents k1 = drop (nat n) payload" using read_data_contents [OF f(2), of n] f(1) by auto
  obtain k2 where k2: "connection_read_data k1 (int (length payload)) = Inr (drop (nat n) payload, k2)"
    using read_data_contents [OF k1(2), of "int (length payload)"] k1(3) by auto
  let ?l1 = "upd_conn lid (\<lambda>_. k1) (w', cs)"
  have "esp_at_socket_receive lid n (w', cs) = Inr (Some (take (nat n) payload), ?l1)"
    using f(3) k1(1) by (simp add: esp_at_socket_receive_def)
  moreover have "esp_at_socket_receive lid (int (length payload)) ?l1 = Inr (Some (drop (nat n) payload), upd_conn lid (\<lambda>_. k2) ?l1)"
    using f(3) k2 st [OF k1(1)] i by (simp add: esp_at_socket_receive_def upd_conn_def)
  ultimately show ?thesis using r by (intro exI conjI) (auto simp: upd_conn_def)
qed

theorem received_data_reaches_caller_witness:
  "\<exists>w' l1 l2. esp_at_rx_handler response_table plain_env one_connected
      (ipd_header 1 (length odd_bytes) (address_text False 192 168 0 7) 8883 @ odd_bytes) = Inr w' \<and>
    esp_at_socket_receive 1 3 (w', []) = Inr (Some (take (nat 3) odd_bytes), l1) \<and>
    esp_at_socket_receive 1 (int (length odd_bytes)) l1 = Inr (Some (drop (nat 3) odd_bytes), l2) \<and> snd l2 = []"
  by (rule received_data_reaches_caller [OF one_connected_facts(1) _ one_connected_facts(5,2,6)])
    (simp_all add: odd_bytes_def)

text \<open>
  A second socket (handle 1 to 4) on a modem that is up: the modem answers the connect
  command with \<open><n>,CONNECT\<close> and \<open>OK\<close>, the call returns 0 for success, and yet the socket is not
  connected: the answer has marked connection 0, so \<open>esp_at_socket_is_connected\<close> says no, and
  sending and receiving on the socket are refused.
\<close>

theorem second_socket_lost:
  assumes "idle w" "wifi_state (cur w) = wifi_got_ip" "serial_state (serial w) = esp_done"
    "time_now w = Inr s" "s - date_time (cur w) \<le> 60 * 60"
    "1 \<le> h" "h \<le> 4" "conn_state (connections w ! h) \<noteq> conn_connected" "length (ssl (connections w ! h)) = 3"
    "length host \<le> 60" "0 \<le> port" "port < 65536" "\<forall>ws t. 0 \<le> serial_wri env ws t"
  shows "\<exists>l1. esp_at_socket_connect env h host port (w, [dec_nat h @ '',CONNECT'' @ CRLF, ok_text])
      = Some (Inr (Some 0, l1)) \<and>
    esp_at_socket_is_connected 0 l1 \<and> \<not> esp_at_socket_is_connected h l1 \<and>
    esp_at_socket_send env h t l1 = Some (Inr (None, l1)) \<and> esp_at_socket_receive h n l1 = Inr (None, l1)"
proof -
  let ?cs = "[dec_nat h @ '',CONNECT'' @ CRLF, ok_text]"
  have nn: "\<not> serial_wri env ws t < 0" for ws t using assms(13) by (simp add: not_less)
  have ks: "conns_ok (connections w)" using assms(1) parser_invD(1) by (auto simp: idle_def data_ok_def)
  have id: "conn_id (connections w ! h) = int h" by (rule conns_ok_id [OF ks]) (use assms(7) in simp)
  have i: "h < length (connections w)" "0 < length (connections w)" using conns_ok_length [OF ks] assms(7) by simp_all
  have late: "\<not> 3600 < s - date_time (cur w)" using assms(5) by simp
  have p: "prepare_esp_at env (w, ?cs) = Some (Inr (True, (w\<lparr>dtq := []\<rparr>, ?cs)))"
    using assms(2-4) late
    by (simp add: prepare_esp_at_def prepare_loop.simps prepare_round_def prepare_case_def case_done_def
        esp_serial_clear_def time_now_def Let_def)
  let ?k = "(connections w ! h)\<lparr>conn_state := conn_connecting\<rparr>"
  let ?u = "w\<lparr>dtq := [], use_wifi := 1, connections := (connections w)[h := ?k]\<rparr>"
  let ?cmd = "connect_command ?k host port"
  let ?x = "w\<lparr>use_wifi := 1, connections := (connections w)[h := ?k], dtq := [], written := ?cmd # written w\<rparr>"
  have fit: "length ?cmd < 128"
    using dec_int_number_length [of port] dec_int_number_length [of "int h"] assms(7,9-12) id
    by (simp add: connect_command_def quote_def)
  have kk: "ring_ok (connections w ! h)" "used (connections w ! h) \<longrightarrow> live (connections w ! h)"
    using ks i(1) by (simp_all add: conns_ok_def)
  have "conns_ok ((connections w)[h := ?k])"
    using kk by (intro conns_ok_update [OF ks i(1)]) (simp_all add: ring_ok_def live_def)
  from idle_connections [OF assms(1) this] have ui: "idle ?x"
    by (subst idle_cong [of _ "w\<lparr>connections := (connections w)[h := ?k]\<rparr>"]) simp_all
  have hb: "h < 2 ^ 31" using assms(7) by simp
  from connect_marks_zero [OF _ _ hb, of ?x env] ui
  obtain v where v: "run env ?x (dec_nat h @ '',CONNECT'' @ CRLF) = Inr v"
    "parse_state (serial v) = at_none" "dtq v = [kind_connect]" "conn_state (connections v ! 0) = conn_connected"
    "connections v ! h = ?k" "response_kind (serial v) = kind_no_set"
    using assms(6) i by (auto simp: idle_def)
  have "idle v" using run_inv [OF _ v(1)] ui v(2,6) by (simp add: idle_def)
  then have vi: "idle (v\<lparr>dtq := []\<rparr>)" by (simp add: idle_restate)
  obtain y where y: "run env (v\<lparr>dtq := []\<rparr>) (''OK'' @ CRLF) = Inr y" "kept (v\<lparr>dtq := []\<rparr>) y" "dtq y = dtq (v\<lparr>dtq := []\<rparr>) @ [kind_ok]"
    by (rule run_ok [OF vi]) simp_all
  let ?l1 = "(y\<lparr>dtq := []\<rparr>, [])"
  have wr: "esp_serial_write env ?cmd kind_no_set (?u, ?cs) = Inr (E_OK, kind_connect, (v\<lparr>dtq := []\<rparr>, [ok_text]))"
    using nn v(1,3) by (simp add: esp_serial_write_def serial_wri_dat_def esp_serial_clear_def esp_serial_read_def take_kind_def)
  have rd: "esp_serial_read env (v\<lparr>dtq := []\<rparr>, ok_text # []) = Inr (E_OK, kind_ok, ?l1)"
    by (rule read_chunk [OF _ y(1) [folded ok_text_def]]) (simp_all add: y(3))
  have "open_connection env h host port (w\<lparr>dtq := []\<rparr>, ?cs) = Inr (Some 0, ?l1)"
    using wr rd fit i(1)
    by (simp add: open_connection_def Let_def upd_conn_def set_use_wifi_def sprintf_into_def strcpy_into_def)
  then have c: "esp_at_socket_connect env h host port (w, ?cs) = Some (Inr (Some 0, ?l1))"
    using p assms(8) by (simp add: esp_at_socket_connect_def)
  have "connections y = connections v" using y(2) by (simp add: kept_def)
  with v(4,5) c show ?thesis
    by (intro exI [of _ ?l1])
      (simp add: esp_at_socket_is_connected_def esp_at_socket_send_def esp_at_socket_receive_def)
qed

definition modem_up :: esp where
  "modem_up = upd_serial (\<lambda>s. s\<lparr>serial_state := esp_done\<rparr>) (upd_current (\<lambda>c. c\<lparr>wifi_state := wifi_got_ip,
     date_time := calendar_secs (rtc_get_time clock_stopped zero_tm)\<rparr>)
     (one_open\<lparr>connections := initial_connections[1 := (fresh_connection 1)\<lparr>ssl := ''TCP''\<rparr>]\<rparr>))"

lemma idle_modem_up: "idle modem_up"
proof -
  let ?ks = "initial_connections[1 := (fresh_connection 1)\<lparr>ssl := ''TCP''\<rparr>]"
  have "conns_ok ?ks"
    by (rule conns_ok_update [OF initial_connections_ok])
      (simp_all add: initial_connections_def initial_connection_facts fresh_connection_def initial_connection_def ring_ok_def live_def)
  from idle_connections [OF idle_one_open this] have i: "idle (one_open\<lparr>connections := ?ks\<rparr>)" .
  have "idle modem_up = idle (one_open\<lparr>connections := ?ks\<rparr>)"
    by (simp add: modem_up_def idle_def parser_inv_def data_ok_def response_ok_def state_ok_def text_ok_def counters_ok_def
        esp_upd split: option.split)
  with i show ?thesis by simp
qed

theorem second_socket_lost_witness:
  "\<exists>l1. esp_at_socket_connect plain_env 1 ''example.net'' 8883 (modem_up, [dec_nat 1 @ '',CONNECT'' @ CRLF, ok_text])
      = Some (Inr (Some 0, l1)) \<and>
    esp_at_socket_is_connected 0 l1 \<and> \<not> esp_at_socket_is_connected 1 l1 \<and>
    esp_at_socket_send plain_env 1 ''hello'' l1 = Some (Inr (None, l1)) \<and> esp_at_socket_receive 1 10 l1 = Inr (None, l1)"
  by (rule second_socket_lost [OF idle_modem_up, where s = "calendar_secs (rtc_get_time clock_stopped zero_tm)"])
    (simp_all add: modem_up_def esp_upd one_open_def init_esp_at_def time_now_def tm_to_secs_eq initial_connections_def
      fresh_connection_facts plain_env_def)

end
