(* ===== verification/Kernel_Queue.thy ===== *)
theory Kernel_Queue
  imports C_Prelude
begin

text \<open>
  The kernel's doubly linked queues (\<open>hrp3_wo_tecs/include/queue.h\<close>): the ready queues and all
  waiting queues are rings of links through a header, and an entry is taken out without naming
  the queue it is in.  The operations are modelled on a store of the two pointers of every link,
  assignment by assignment, and shown to implement the operations on lists that the other kernel
  theories use.
\<close>

section \<open>The store and the operations\<close>

text \<open>A pointer is the number of a link.\<close>

record links =
  p_next :: "nat \<Rightarrow> nat"
  p_prev :: "nat \<Rightarrow> nat"

definition set_next :: "nat \<Rightarrow> nat \<Rightarrow> links \<Rightarrow> links" where
  "set_next p v s = s\<lparr>p_next := (p_next s)(p := v)\<rparr>"

definition set_prev :: "nat \<Rightarrow> nat \<Rightarrow> links \<Rightarrow> links" where
  "set_prev p v s = s\<lparr>p_prev := (p_prev s)(p := v)\<rparr>"

definition queue_initialize :: "nat \<Rightarrow> links \<Rightarrow> links" where
  "queue_initialize q s = set_next q q (set_prev q q s)"

definition queue_insert_prev :: "nat \<Rightarrow> nat \<Rightarrow> links \<Rightarrow> links" where
  "queue_insert_prev q e s =
    (let s1 = set_prev e (p_prev s q) s;
         s2 = set_next e q s1;
         s3 = set_next (p_prev s2 q) e s2
     in set_prev q e s3)"

definition queue_insert_next :: "nat \<Rightarrow> nat \<Rightarrow> links \<Rightarrow> links" where
  "queue_insert_next q e s =
    (let s1 = set_prev e q s;
         s2 = set_next e (p_next s1 q) s1;
         s3 = set_prev (p_next s2 q) e s2
     in set_next q e s3)"

definition queue_delete :: "nat \<Rightarrow> links \<Rightarrow> links" where
  "queue_delete e s =
    (let s1 = set_next (p_prev s e) (p_next s e) s
     in set_prev (p_next s1 e) (p_prev s1 e) s1)"

text \<open>A failed assertion is None.\<close>

definition queue_delete_next :: "nat \<Rightarrow> links \<Rightarrow> (nat \<times> links) option" where
  "queue_delete_next q s =
    (if p_next s q = q then None
     else (let e = p_next s q;
               s1 = set_next q (p_next s e) s
           in Some (e, set_prev (p_next s1 e) q s1)))"

definition queue_empty :: "nat \<Rightarrow> links \<Rightarrow> bool option" where
  "queue_empty q s =
    (if p_next s q = q then (if p_prev s q = q then Some True else None) else Some False)"

section \<open>Queues as lists\<close>

text \<open>\<open>linked s a xs b\<close>: from \<open>a\<close>, the links go through \<open>xs\<close> to \<open>b\<close>, and back.\<close>

fun linked :: "links \<Rightarrow> nat \<Rightarrow> nat list \<Rightarrow> nat \<Rightarrow> bool" where
  "linked s a [] b \<longleftrightarrow> p_next s a = b \<and> p_prev s b = a"
| "linked s a (x # xs) b \<longleftrightarrow> p_next s a = x \<and> p_prev s x = a \<and> linked s x xs b"

definition queue :: "links \<Rightarrow> nat \<Rightarrow> nat list \<Rightarrow> bool" where
  "queue s h xs \<longleftrightarrow> distinct (h # xs) \<and> linked s h xs h"

lemma set_simps [simp]:
  "p_next (set_next p v s) = (p_next s)(p := v)" "p_prev (set_next p v s) = p_prev s"
  "p_prev (set_prev p v s) = (p_prev s)(p := v)" "p_next (set_prev p v s) = p_next s"
  by (simp_all add: set_next_def set_prev_def)

lemma linked_append: "linked s a (xs @ y # ys) b \<longleftrightarrow> linked s a xs y \<and> linked s y ys b"
  by (induction xs arbitrary: a) auto

lemma linked_last: "linked s a xs b \<Longrightarrow> p_prev s b = last (a # xs)"
  by (induction xs arbitrary: a) auto

lemma linked_hd: "linked s a xs b \<Longrightarrow> p_next s a = hd (xs @ [b])"
  by (cases xs) auto

lemma linked_cong:
  "(\<And>x. x \<in> set (a # xs) \<Longrightarrow> p_next s' x = p_next s x) \<Longrightarrow> (\<And>x. x \<in> set (xs @ [b]) \<Longrightarrow> p_prev s' x = p_prev s x) \<Longrightarrow>
   linked s' a xs b = linked s a xs b"
  by (induction xs arbitrary: a) auto

text \<open>The last step of a chain turned to another end.\<close>

lemma linked_redirect:
  assumes "linked s a xs b" "distinct (a # xs)" "e \<notin> set xs"
    "\<And>x. x \<in> set (a # xs) \<Longrightarrow> x \<noteq> last (a # xs) \<Longrightarrow> p_next s' x = p_next s x"
    "\<And>x. x \<in> set xs \<Longrightarrow> p_prev s' x = p_prev s x"
    "p_next s' (last (a # xs)) = e" "p_prev s' e = last (a # xs)"
  shows "linked s' a xs e"
  using assms
proof (induction xs arbitrary: a)
  case (Cons x xs)
  have l: "last (x # xs) = last (a # x # xs)" by simp
  have "p_next s' a = p_next s a" using Cons.prems(2) by (intro Cons.prems(4)) auto
  moreover have "linked s' x xs e"
    by (rule Cons.IH) (use Cons.prems in auto)
  ultimately show ?case using Cons.prems(1,5) by simp
qed simp

text \<open>The first step of a chain turned to another start.\<close>

lemma linked_restart:
  assumes "linked s a xs b" "distinct (xs @ [b])" "e \<notin> set xs"
    "\<And>x. x \<in> set xs \<Longrightarrow> p_next s' x = p_next s x"
    "\<And>x. x \<in> set (xs @ [b]) \<Longrightarrow> x \<noteq> hd (xs @ [b]) \<Longrightarrow> p_prev s' x = p_prev s x"
    "p_next s' e = hd (xs @ [b])" "p_prev s' (hd (xs @ [b])) = e"
  shows "linked s' e xs b"
proof (cases xs)
  case Nil
  then show ?thesis using assms by simp
next
  case (Cons x ys)
  have "linked s' x ys b = linked s x ys b" by (rule linked_cong) (use Cons assms in auto)
  then show ?thesis using Cons assms by simp
qed

section \<open>The operations are the list operations\<close>

lemma insert_prev_fields:
  assumes "e \<noteq> q"
  shows "p_prev (queue_insert_prev q e s) = (p_prev s)(e := p_prev s q, q := e)"
    "p_next (queue_insert_prev q e s) = (p_next s)(e := q, p_prev s q := e)"
  using assms by (simp_all add: queue_insert_prev_def Let_def)

lemma insert_next_fields:
  assumes "e \<noteq> q"
  shows "p_next (queue_insert_next q e s) = (p_next s)(e := p_next s q, q := e)"
    "p_prev (queue_insert_next q e s) = (p_prev s)(e := q, p_next s q := e)"
  using assms by (simp_all add: queue_insert_next_def Let_def)

lemma insert_prev_middle:
  assumes "queue s h (xs @ y # ys)" "e \<notin> set (h # xs @ y # ys)"
  shows "queue (queue_insert_prev y e s) h (xs @ e # y # ys)"
proof -
  let ?s = "queue_insert_prev y e s"
  from assms have d: "distinct (h # xs @ y # ys)" and l: "linked s h xs y" "linked s y ys h"
    by (auto simp: queue_def linked_append)
  have ey: "e \<noteq> y" using assms(2) by auto
  note f = insert_prev_fields [OF ey, of s] and p = linked_last [OF l(1)]
  have mem: "last (h # xs) \<in> set (h # xs)" by (rule last_in_set) simp
  have 1: "linked ?s h xs e"
    by (rule linked_redirect [OF l(1)]) (use assms(2) d p f mem in \<open>auto split: if_splits\<close>)
  have np: "last (h # xs) \<notin> set (y # ys)" using d by (cases xs rule: rev_cases) auto
  have "linked ?s y ys h = linked s y ys h"
    by (rule linked_cong) (use assms(2) d p f mem np in \<open>auto split: if_splits\<close>)
  with 1 l f ey have "linked ?s h (xs @ e # y # ys) h"
    using assms(2) d mem p by (auto simp: linked_append)
  with d assms(2) show ?thesis by (auto simp: queue_def)
qed

lemma insert_prev_end:
  assumes "queue s h xs" "e \<notin> set (h # xs)"
  shows "queue (queue_insert_prev h e s) h (xs @ [e])"
proof -
  let ?s = "queue_insert_prev h e s"
  from assms have d: "distinct (h # xs)" and l: "linked s h xs h" by (auto simp: queue_def)
  have eh: "e \<noteq> h" using assms(2) by auto
  note f = insert_prev_fields [OF eh, of s] and p = linked_last [OF l]
  have 1: "linked ?s h xs e"
    by (rule linked_redirect [OF l]) (use assms(2) d p f in \<open>auto split: if_splits\<close>)
  have "p_next ?s e = h" "p_prev ?s h = e"
    using f eh p assms(2) last_in_set [of "h # xs"] by auto
  with 1 have "linked ?s h (xs @ [e]) h" by (simp add: linked_append)
  with d assms(2) show ?thesis by (auto simp: queue_def)
qed

lemma insert_next_start:
  assumes "queue s h xs" "e \<notin> set (h # xs)"
  shows "queue (queue_insert_next h e s) h (e # xs)"
proof -
  let ?s = "queue_insert_next h e s"
  from assms have d: "distinct (h # xs)" and l: "linked s h xs h" by (auto simp: queue_def)
  have eh: "e \<noteq> h" using assms(2) by auto
  note f = insert_next_fields [OF eh, of s] and p = linked_hd [OF l]
  have m: "hd (xs @ [h]) \<in> set (h # xs)" by (cases xs) auto
  have 1: "linked ?s e xs h"
    by (rule linked_restart [OF l]) (use assms(2) d p f m in \<open>auto split: if_splits\<close>)
  have "p_next ?s h = e" "p_prev ?s e = h" using f eh p assms(2) m by auto
  with 1 d assms(2) show ?thesis by (auto simp: queue_def)
qed

lemma delete_queue:
  assumes "queue s h (xs @ e # ys)"
  shows "queue (queue_delete e s) h (xs @ ys)"
proof -
  let ?s = "queue_delete e s"
  from assms have d: "distinct (h # xs @ e # ys)" and l: "linked s h xs e" "linked s e ys h"
    by (auto simp: queue_def linked_append)
  note p = linked_last [OF l(1)] and n = linked_hd [OF l(2)]
  have mp: "last (h # xs) \<in> set (h # xs)" by (rule last_in_set) simp
  have mn: "hd (ys @ [h]) \<in> set (h # ys)" by (cases ys) auto
  have ep: "last (h # xs) \<noteq> e" using mp d by auto
  have f: "p_next ?s = (p_next s)(last (h # xs) := hd (ys @ [h]))" "p_prev ?s = (p_prev s)(hd (ys @ [h]) := last (h # xs))"
    using p n ep by (simp_all add: queue_delete_def Let_def)
  show ?thesis
  proof (cases ys)
    case Nil
    have "linked ?s h xs h"
      by (rule linked_redirect [OF l(1)]) (use d f Nil in \<open>auto split: if_splits\<close>)
    with d Nil show ?thesis by (simp add: queue_def)
  next
    case (Cons y zs)
    have 1: "linked ?s h xs y"
      by (rule linked_redirect [OF l(1)]) (use d f Cons in \<open>auto split: if_splits\<close>)
    have np: "last (h # xs) \<notin> set (y # zs)" using d Cons by (cases xs rule: rev_cases) auto
    have "linked ?s y zs h = linked s y zs h"
      by (rule linked_cong) (use d f Cons mp np in \<open>auto split: if_splits\<close>)
    with 1 l(2) d Cons show ?thesis by (auto simp: queue_def linked_append)
  qed
qed

lemma delete_next_queue:
  assumes "queue s h (e # xs)"
  shows "queue_delete_next h s = Some (e, queue_delete e s)"
proof -
  from assms have "p_next s h = e" "p_prev s e = h" "e \<noteq> h" by (auto simp: queue_def)
  then show ?thesis by (simp add: queue_delete_next_def queue_delete_def Let_def)
qed

lemma queue_empty_iff: "queue s h xs \<Longrightarrow> queue_empty h s = Some (xs = [])"
  by (cases xs) (auto simp: queue_def queue_empty_def)

text \<open>Every other queue is left alone.\<close>

lemma queue_members: "queue s h xs \<Longrightarrow> x \<in> set (h # xs) \<Longrightarrow> p_next s x \<in> set (h # xs) \<and> p_prev s x \<in> set (h # xs)"
proof -
  assume q: "queue s h xs" and x: "x \<in> set (h # xs)"
  have n: "linked s a ys b \<Longrightarrow> x \<in> set (a # ys) \<Longrightarrow> p_next s x \<in> set (ys @ [b])" for a ys b x
    by (induction ys arbitrary: a) auto
  have p: "linked s a ys b \<Longrightarrow> x \<in> set (ys @ [b]) \<Longrightarrow> p_prev s x \<in> set (a # ys)" for a ys b x
    by (induction ys arbitrary: a) auto
  from n [of h xs h x] p [of h xs h x] q x show ?thesis by (auto simp: queue_def)
qed

lemma queue_frame:
  assumes "queue s h' zs" "\<And>x. x \<in> set (h' # zs) \<Longrightarrow> p_next s' x = p_next s x \<and> p_prev s' x = p_prev s x"
  shows "queue s' h' zs"
proof -
  have "linked s' h' zs h' = linked s h' zs h'" by (rule linked_cong) (use assms(2) in auto)
  with assms(1) show ?thesis by (simp add: queue_def)
qed

lemma insert_prev_frame:
  assumes "queue s h xs" "q \<in> set (h # xs)" "queue s h' zs" "set (h # xs) \<inter> set (h' # zs) = {}" "e \<notin> set (h' # zs)"
    "e \<noteq> q"
  shows "queue (queue_insert_prev q e s) h' zs"
proof (rule queue_frame [OF assms(3)])
  fix x assume "x \<in> set (h' # zs)"
  with queue_members [OF assms(1,2)] assms(2,4,5) show "p_next (queue_insert_prev q e s) x = p_next s x \<and>
      p_prev (queue_insert_prev q e s) x = p_prev s x"
    by (auto simp: insert_prev_fields [OF assms(6)])
qed

lemma delete_frame:
  assumes "queue s h xs" "e \<in> set xs" "queue s h' zs" "set (h # xs) \<inter> set (h' # zs) = {}"
  shows "queue (queue_delete e s) h' zs"
proof (rule queue_frame [OF assms(3)])
  fix x assume "x \<in> set (h' # zs)"
  then have x: "x \<notin> set (h # xs)" using assms(4) by blast
  have e: "e \<in> set (h # xs)" using assms(2) by simp
  have nx: "p_prev s e \<noteq> x" "p_next s e \<noteq> x" using queue_members [OF assms(1) e] x by auto
  have "p_next (set_next (p_prev s e) (p_next s e) s) e \<noteq> x" using nx by simp
  then show "p_next (queue_delete e s) x = p_next s x \<and> p_prev (queue_delete e s) x = p_prev s x"
    using nx by (simp add: queue_delete_def Let_def)
qed

section \<open>Properties\<close>

text \<open>
  Claim C38.  On well-formed rings the pointer operations are the list operations: inserting before
  the header appends, before an entry puts the new entry in front of it, after the header puts it
  first; deleting an entry, which is given without its queue, removes exactly it; taking the next
  entry of the header removes the first, and the emptiness test is exact.
\<close>

theorem queue_operations_refine_lists:
  "(queue s h xs \<and> e \<notin> set (h # xs) \<longrightarrow> queue (queue_insert_prev h e s) h (xs @ [e]) \<and>
      queue (queue_insert_next h e s) h (e # xs)) \<and>
   (queue s h (ys @ y # zs) \<and> e \<notin> set (h # ys @ y # zs) \<longrightarrow> queue (queue_insert_prev y e s) h (ys @ e # y # zs)) \<and>
   (queue s h (ys @ y # zs) \<longrightarrow> queue (queue_delete y s) h (ys @ zs)) \<and>
   (queue s h (y # zs) \<longrightarrow> (\<exists>s'. queue_delete_next h s = Some (y, s') \<and> queue s' h zs)) \<and>
   (queue s h xs \<longrightarrow> queue_empty h s = Some (xs = [])) \<and> queue (queue_initialize h s) h []"
proof (intro conjI impI, goal_cases)
  case 1
  then show ?case by (elim conjE) (rule insert_prev_end)
next
  case 2
  then show ?case by (elim conjE) (rule insert_next_start)
next
  case 3
  then show ?case by (elim conjE) (rule insert_prev_middle)
next
  case 4
  then show ?case by (rule delete_queue)
next
  case 5
  with delete_next_queue [of s h y zs] delete_queue [of s h "[]" y zs] show ?case by simp
next
  case 6
  then show ?case by (rule queue_empty_iff)
next
  case 7
  show ?case by (simp add: queue_def queue_initialize_def)
qed

definition two_entries :: links where
  "two_entries = queue_insert_prev 0 2 (queue_insert_prev 0 1 (queue_initialize 0 \<lparr>p_next = \<lambda>_. 0, p_prev = \<lambda>_. 0\<rparr>))"

lemma two_entries_queue: "queue two_entries 0 [1, 2]"
proof -
  have "queue (queue_initialize 0 \<lparr>p_next = \<lambda>_. 0, p_prev = \<lambda>_. 0\<rparr>) 0 []" by (simp add: queue_def queue_initialize_def)
  then have "queue (queue_insert_prev 0 1 (queue_initialize 0 \<lparr>p_next = \<lambda>_. 0, p_prev = \<lambda>_. 0\<rparr>)) 0 ([] @ [1])"
    by (rule insert_prev_end) simp
  then have "queue two_entries 0 (([] @ [1]) @ [2])" unfolding two_entries_def by (rule insert_prev_end) simp
  then show ?thesis by simp
qed

theorem queue_operations_refine_lists_witness:
  "queue (queue_insert_prev 0 3 two_entries) 0 [1, 2, 3] \<and> queue (queue_delete 1 two_entries) 0 [2]"
  using queue_operations_refine_lists [of two_entries 0 "[1, 2]" 3 "[]" 1 "[2]"] two_entries_queue by simp

end
