(* ===== verification/Kernel_Time.thy ===== *)
theory Kernel_Time
  imports C_Prelude
begin

text \<open>
  Time events of the kernel (\<open>hrp3_wo_tecs/kernel/time_event.c\<close>, \<open>time_event.h\<close>): the current
  event time, which follows a cyclic hardware counter and wraps at 32 bits, and the heaps of time
  event blocks, in which every block knows its node.  A heap is shown to stay ordered, to hold
  exactly the registered blocks, and to give out the earliest.
\<close>

section \<open>State\<close>

type_synonym evttim_t = "32 word"

datatype hrt_request = Hrt_none | Hrt_set "32 word" | Hrt_raise

text \<open>
  The fields of the time event blocks by block number (\<open>evttim\<close>, \<open>tmevtn\<close>: the node the block is
  at); the heaps by heap number, with the last used node; node 0, which holds \<open>p_last\<close>, is not a
  node of the tree.  \<open>hrt\<close> is what the hardware counter shows at each reading, \<open>hrt_reads\<close> the
  number of readings so far, \<open>hrt_event\<close> the last request to the timer.
\<close>

record time =
  evttim :: "nat \<Rightarrow> evttim_t"
  tmevtn :: "nat \<Rightarrow> nat"
  node :: "nat \<Rightarrow> nat \<Rightarrow> nat"
  p_last :: "nat \<Rightarrow> nat"
  boundary_evttim :: evttim_t
  current_evttim :: evttim_t
  monotonic_evttim :: evttim_t
  current_hrtcnt :: "32 word"
  systim_offset :: "64 word"
  in_signal_time :: bool
  hrt :: "nat \<Rightarrow> 32 word"
  hrt_reads :: nat
  hrt_event :: hrt_request

definition BOUNDARY_MARGIN :: evttim_t where "BOUNDARY_MARGIN = 200000000"
definition TCYC_HRTCNT :: "32 word" where "TCYC_HRTCNT = 572662306"
definition HRTCNT_BOUND :: "32 word" where "HRTCNT_BOUND = TCYC_HRTCNT - 2000000"
definition TSTEP_HRTCNT :: "32 word" where "TSTEP_HRTCNT = 1"
definition TMAX_RELTIM :: "32 word" where "TMAX_RELTIM = 4000000000"

definition tmevt_heap_kernel :: nat where "tmevt_heap_kernel = 0"

text \<open>Event times are compared by their distance from the boundary.\<close>

definition EVTTIM_ADVANCE :: "time \<Rightarrow> evttim_t \<Rightarrow> evttim_t" where
  "EVTTIM_ADVANCE t e = e - boundary_evttim t"

definition EVTTIM_LT :: "time \<Rightarrow> evttim_t \<Rightarrow> evttim_t \<Rightarrow> bool" where
  "EVTTIM_LT t a b \<longleftrightarrow> EVTTIM_ADVANCE t a < EVTTIM_ADVANCE t b"

definition EVTTIM_LE :: "time \<Rightarrow> evttim_t \<Rightarrow> evttim_t \<Rightarrow> bool" where
  "EVTTIM_LE t a b \<longleftrightarrow> EVTTIM_ADVANCE t a \<le> EVTTIM_ADVANCE t b"

text \<open>
  The heaps that are \<open>used\<close> are emptied: the kernel's, the idle domain's when there is a system
  cycle, and those of the user domains.
\<close>

definition initialize_tmevt :: "(nat \<Rightarrow> bool) \<Rightarrow> time \<Rightarrow> time" where
  "initialize_tmevt used t = t\<lparr>current_evttim := 0, boundary_evttim := 0 - BOUNDARY_MARGIN, monotonic_evttim := 0,
     systim_offset := 0, in_signal_time := False, p_last := \<lambda>h. if used h then 0 else p_last t h\<rparr>"

section \<open>The heap\<close>

text \<open>Block \<open>x\<close> is put at node \<open>i\<close> of heap \<open>h\<close>, and told so.\<close>

definition put_node :: "nat \<Rightarrow> nat \<Rightarrow> nat \<Rightarrow> time \<Rightarrow> time" where
  "put_node x i h t = t\<lparr>node := (node t)(h := (node t h)(i := x)), tmevtn := (tmevtn t)(x := i)\<rparr>"

function tmevt_up :: "nat \<Rightarrow> evttim_t \<Rightarrow> nat \<Rightarrow> time \<Rightarrow> nat \<times> time" where
  "tmevt_up i e h t =
    (if 1 < i then
       (let p = i div 2
        in if EVTTIM_LE t (evttim t (node t h p)) e then (i, t)
           else tmevt_up p e h (put_node (node t h p) i h t))
     else (i, t))"
  by pat_completeness auto
termination by (relation "measure (\<lambda>(i, e, h, t). i)") auto

text \<open>The left child, or the right one if there is one and it is earlier.\<close>

definition early_child :: "nat \<Rightarrow> nat \<Rightarrow> time \<Rightarrow> nat" where
  "early_child i h t =
    (let c = 2 * i
     in if c + 1 \<le> p_last t h \<and> EVTTIM_LT t (evttim t (node t h (c + 1))) (evttim t (node t h c)) then c + 1 else c)"

text \<open>The search never starts at node 0, where it would not move.\<close>

function tmevt_down :: "nat \<Rightarrow> evttim_t \<Rightarrow> nat \<Rightarrow> time \<Rightarrow> nat \<times> time" where
  "tmevt_down i e h t =
    (if 2 * i \<le> p_last t h \<and> i \<noteq> 0 then
       (let c = early_child i h t
        in if EVTTIM_LE t e (evttim t (node t h c)) then (i, t)
           else tmevt_down c e h (put_node (node t h c) i h t))
     else (i, t))"
  by pat_completeness auto
termination
  by (relation "measure (\<lambda>(i, e, h, t). Suc (p_last t h) - i)") (auto simp: early_child_def put_node_def Let_def)

declare tmevt_up.simps [simp del] tmevt_down.simps [simp del]

definition tmevtb_insert :: "nat \<Rightarrow> nat \<Rightarrow> time \<Rightarrow> time" where
  "tmevtb_insert x h t =
    (let t1 = t\<lparr>p_last := (p_last t)(h := Suc (p_last t h))\<rparr>;
         (i, t2) = tmevt_up (p_last t1 h) (evttim t1 x) h t1
     in put_node x i h t2)"

definition tmevtb_delete :: "nat \<Rightarrow> nat \<Rightarrow> time \<Rightarrow> time" where
  "tmevtb_delete x h t =
    (let d = tmevtn t x;
         t1 = t\<lparr>p_last := (p_last t)(h := p_last t h - 1)\<rparr>
     in if p_last t1 h < 1 then t1
        else (let e = evttim t1 (node t1 h (Suc (p_last t1 h)));
                  p = d div 2;
                  (i, t2) = (if 1 < d \<and> EVTTIM_LT t1 e (evttim t1 (node t1 h p))
                             then tmevt_up p e h (put_node (node t1 h p) d h t1)
                             else tmevt_down d e h t1)
              in put_node (node t2 h (Suc (p_last t2 h))) i h t2))"

definition tmevtb_delete_top :: "nat \<Rightarrow> time \<Rightarrow> nat \<times> time" where
  "tmevtb_delete_top h t =
    (let top = node t h 1;
         t1 = t\<lparr>p_last := (p_last t)(h := p_last t h - 1)\<rparr>
     in if p_last t1 h \<ge> 1 then
          (let e = evttim t1 (node t1 h (Suc (p_last t1 h)));
               (i, t2) = tmevt_down 1 e h t1
           in (top, put_node (node t2 h (Suc (p_last t2 h))) i h t2))
        else (top, t1))"

section \<open>The current time\<close>

text \<open>\<open>target_hrt_get_current\<close>, one reading of the counter.\<close>

definition hrt_get_current :: "time \<Rightarrow> 32 word \<times> time" where
  "hrt_get_current t = (hrt t (hrt_reads t), t\<lparr>hrt_reads := Suc (hrt_reads t)\<rparr>)"

definition update_current_evttim :: "time \<Rightarrow> time" where
  "update_current_evttim t =
    (let (new_hrtcnt, t1) = hrt_get_current t;
         advance = new_hrtcnt - current_hrtcnt t1 + (if new_hrtcnt < current_hrtcnt t1 then TCYC_HRTCNT else 0);
         previous = current_evttim t1;
         cur = previous + advance;
         t2 = t1\<lparr>current_hrtcnt := new_hrtcnt, current_evttim := cur, boundary_evttim := cur - BOUNDARY_MARGIN\<rparr>
     in if monotonic_evttim t2 - previous < advance then
          t2\<lparr>systim_offset := systim_offset t2 + (if cur < monotonic_evttim t2 then 2 ^ 32 else 0),
             monotonic_evttim := cur\<rparr>
        else t2)"

definition calc_current_evttim_ub :: "time \<Rightarrow> evttim_t" where
  "calc_current_evttim_ub t = current_evttim t + TSTEP_HRTCNT"

definition top_evttim :: "nat \<Rightarrow> time \<Rightarrow> evttim_t" where
  "top_evttim h t = evttim t (node t h 1)"

definition set_hrt_event :: "time \<Rightarrow> time" where
  "set_hrt_event t =
    (if p_last t tmevt_heap_kernel < 1 then t\<lparr>hrt_event := Hrt_set HRTCNT_BOUND\<rparr>
     else if EVTTIM_LE t (top_evttim tmevt_heap_kernel t) (current_evttim t) then t\<lparr>hrt_event := Hrt_raise\<rparr>
     else (let hrtcnt = top_evttim tmevt_heap_kernel t - current_evttim t
           in t\<lparr>hrt_event := Hrt_set (if hrtcnt > HRTCNT_BOUND then HRTCNT_BOUND else hrtcnt)\<rparr>))"

section \<open>Registering and withdrawing events\<close>

definition tmevtb_register :: "nat \<Rightarrow> nat \<Rightarrow> time \<Rightarrow> time" where
  "tmevtb_register x h t = tmevtb_insert x h t"

definition tmevtb_enqueue :: "nat \<Rightarrow> nat \<Rightarrow> time \<Rightarrow> time" where
  "tmevtb_enqueue x h t =
    (let t1 = tmevtb_insert x h t
     in if h = tmevt_heap_kernel \<and> \<not> in_signal_time t1 \<and> tmevtn t1 x = 1 then set_hrt_event t1 else t1)"

definition tmevtb_enqueue_reltim :: "nat \<Rightarrow> 32 word \<Rightarrow> nat \<Rightarrow> time \<Rightarrow> time" where
  "tmevtb_enqueue_reltim x tim h t =
    (let t1 = update_current_evttim t;
         t2 = t1\<lparr>evttim := (evttim t1)(x := calc_current_evttim_ub t1 + tim)\<rparr>;
         t3 = tmevtb_insert x h t2
     in if h = tmevt_heap_kernel \<and> \<not> in_signal_time t3 \<and> tmevtn t3 x = 1 then set_hrt_event t3 else t3)"

definition tmevtb_dequeue :: "nat \<Rightarrow> nat \<Rightarrow> time \<Rightarrow> time" where
  "tmevtb_dequeue x h t =
    (let d = tmevtn t x;
         t1 = tmevtb_delete x h t
     in if h = tmevt_heap_kernel \<and> \<not> in_signal_time t1 \<and> d = 1 then set_hrt_event (update_current_evttim t1) else t1)"

definition tmevt_lefttim :: "nat \<Rightarrow> time \<Rightarrow> 32 word \<times> time" where
  "tmevt_lefttim x t =
    (let t1 = update_current_evttim t;
         ub = calc_current_evttim_ub t1
     in (if EVTTIM_LE t1 (evttim t1 x) ub then 0 else evttim t1 x - ub, t1))"

text \<open>The first event, if it is due: the block whose callback is to be called.\<close>

definition tmevt_proc_top :: "nat \<Rightarrow> time \<Rightarrow> nat option \<times> time" where
  "tmevt_proc_top h t =
    (let t1 = update_current_evttim t
     in if p_last t1 h \<ge> 1 \<and> EVTTIM_LE t1 (top_evttim h t1) (current_evttim t1)
        then (let (x, t2) = tmevtb_delete_top h t1 in (Some x, t2))
        else (None, t1))"

section \<open>Ordered heaps\<close>

abbreviation evt_key :: "time \<Rightarrow> nat \<Rightarrow> nat \<Rightarrow> evttim_t" where
  "evt_key t h i \<equiv> EVTTIM_ADVANCE t (evttim t (node t h i))"

text \<open>Heap \<open>h\<close> is ordered and its blocks know their nodes.\<close>

definition heap_ok :: "time \<Rightarrow> nat \<Rightarrow> bool" where
  "heap_ok t h \<longleftrightarrow> (\<forall>j. 1 < j \<and> j \<le> p_last t h \<longrightarrow> evt_key t h (j div 2) \<le> evt_key t h j) \<and>
     (\<forall>j. 1 \<le> j \<and> j \<le> p_last t h \<longrightarrow> tmevtn t (node t h j) = j)"

definition registered :: "time \<Rightarrow> nat \<Rightarrow> nat set" where
  "registered t h = node t h ` {1..p_last t h}"

text \<open>The same with an empty node \<open>i\<close>; the other nodes hold the blocks \<open>S\<close>.\<close>

definition hole :: "time \<Rightarrow> nat \<Rightarrow> nat \<Rightarrow> nat set \<Rightarrow> bool" where
  "hole t h i S \<longleftrightarrow> 1 \<le> i \<and> i \<le> p_last t h \<and>
     (\<forall>j. 1 < j \<and> j \<le> p_last t h \<and> j \<noteq> i \<and> j div 2 \<noteq> i \<longrightarrow> evt_key t h (j div 2) \<le> evt_key t h j) \<and>
     (\<forall>j. j \<le> p_last t h \<and> j div 2 = i \<and> 1 < i \<longrightarrow> evt_key t h (i div 2) \<le> evt_key t h j) \<and>
     (\<forall>j. 1 \<le> j \<and> j \<le> p_last t h \<and> j \<noteq> i \<longrightarrow> tmevtn t (node t h j) = j) \<and>
     node t h ` ({1..p_last t h} - {i}) = S"

definition heap_frame :: "time \<Rightarrow> nat \<Rightarrow> nat set \<Rightarrow> time \<Rightarrow> bool" where
  "heap_frame t h S t' \<longleftrightarrow> (\<exists>nd tn. t' = t\<lparr>node := nd, tmevtn := tn\<rparr> \<and>
     (\<forall>h'. h' \<noteq> h \<longrightarrow> nd h' = node t h') \<and> (\<forall>j. p_last t h < j \<longrightarrow> nd h j = node t h j) \<and>
     (\<forall>x. x \<notin> S \<longrightarrow> tn x = tmevtn t x))"

lemma put_node_simps [simp]:
  "evttim (put_node x i h t) = evttim t" "p_last (put_node x i h t) = p_last t"
  "boundary_evttim (put_node x i h t) = boundary_evttim t"
  "EVTTIM_ADVANCE (put_node x i h t) = EVTTIM_ADVANCE t"
  "node (put_node x i h t) h' j = (if h' = h \<and> j = i then x else node t h' j)"
  "tmevtn (put_node x i h t) y = (if y = x then i else tmevtn t y)"
  by (simp_all add: put_node_def EVTTIM_ADVANCE_def fun_eq_iff)

lemma advance_p_last [simp]: "EVTTIM_ADVANCE (t\<lparr>p_last := f\<rparr>) = EVTTIM_ADVANCE t"
  by (simp add: EVTTIM_ADVANCE_def fun_eq_iff)

lemma heap_frame_refl: "heap_frame t h S t"
  unfolding heap_frame_def by (rule exI [of _ "node t"], rule exI [of _ "tmevtn t"]) simp

lemma heap_frame_trans:
  assumes "heap_frame t h S u" "heap_frame u h S v"
  shows "heap_frame t h S v"
proof -
  from assms obtain a b c d where "u = t\<lparr>node := a, tmevtn := b\<rparr>" "\<forall>h'. h' \<noteq> h \<longrightarrow> a h' = node t h'"
    "\<forall>j. p_last t h < j \<longrightarrow> a h j = node t h j" "\<forall>j. p_last u h < j \<longrightarrow> c h j = node u h j"
    "\<forall>x. x \<notin> S \<longrightarrow> b x = tmevtn t x" "v = u\<lparr>node := c, tmevtn := d\<rparr>" "\<forall>h'. h' \<noteq> h \<longrightarrow> c h' = node u h'"
    "\<forall>x. x \<notin> S \<longrightarrow> d x = tmevtn u x" unfolding heap_frame_def by blast
  then show ?thesis unfolding heap_frame_def by (intro exI [of _ c] exI [of _ d]) simp
qed

lemma heap_frame_put: "x \<in> S \<Longrightarrow> i \<le> p_last t h \<Longrightarrow> heap_frame t h S (put_node x i h t)"
  unfolding heap_frame_def put_node_def
  by (rule exI [of _ "(node t)(h := (node t h)(i := x))"], rule exI [of _ "(tmevtn t)(x := i)"]) auto

lemma heap_frame_fields:
  assumes "heap_frame t h S t'"
  shows "evttim t' = evttim t" "p_last t' = p_last t" "boundary_evttim t' = boundary_evttim t"
    "EVTTIM_ADVANCE t' = EVTTIM_ADVANCE t" "current_evttim t' = current_evttim t"
    "in_signal_time t' = in_signal_time t" "h' \<noteq> h \<Longrightarrow> node t' h' = node t h'"
    "p_last t h < j \<Longrightarrow> node t' h j = node t h j" "x \<notin> S \<Longrightarrow> tmevtn t' x = tmevtn t x"
  using assms unfolding heap_frame_def by (auto simp: EVTTIM_ADVANCE_def fun_eq_iff)

lemma hole_inj:
  assumes "hole t h i S" "1 \<le> j" "j \<le> p_last t h" "j \<noteq> i" "1 \<le> k" "k \<le> p_last t h" "k \<noteq> i" "node t h j = node t h k"
  shows "j = k"
  using assms unfolding hole_def by metis

lemma hole_image_move:
  assumes "1 \<le> i" "i \<le> n" "1 \<le> p" "p \<le> n" "p \<noteq> i"
  shows "(\<lambda>j. if j = i then f p else f j) ` ({1..n} - {p}) = f ` ({1..n :: nat} - {i})"
proof -
  have "{1..n} - {p} = insert i ({1..n} - {p, i})" "{1..n} - {i} = insert p ({1..n} - {p, i})" using assms by auto
  then show ?thesis by auto
qed

text \<open>Moving a neighbour \<open>p\<close> of the empty node into it.\<close>

lemma hole_move:
  assumes "hole t h i S" "1 \<le> p" "p \<le> p_last t h" "p \<noteq> i"
    and edges: "\<forall>j. 1 < j \<and> j \<le> p_last t h \<and> j \<noteq> p \<and> j div 2 \<noteq> p \<longrightarrow>
      evt_key (put_node (node t h p) i h t) h (j div 2) \<le> evt_key (put_node (node t h p) i h t) h j"
    and span: "\<forall>j. j \<le> p_last t h \<and> j div 2 = p \<and> 1 < p \<longrightarrow>
      evt_key (put_node (node t h p) i h t) h (p div 2) \<le> evt_key (put_node (node t h p) i h t) h j"
  shows "hole (put_node (node t h p) i h t) h p S" "heap_frame t h S (put_node (node t h p) i h t)"
proof -
  let ?t = "put_node (node t h p) i h t"
  have i: "1 \<le> i" "i \<le> p_last t h" using assms(1) by (simp_all add: hole_def)
  have mem: "node t h p \<in> S" using assms(1-4) unfolding hole_def by auto
  then show "heap_frame t h S ?t" by (rule heap_frame_put) (rule i(2))
  have bp: "tmevtn ?t (node ?t h j) = j" if "1 \<le> j" "j \<le> p_last t h" "j \<noteq> p" for j
  proof (cases "j = i")
    case False
    then have "node t h j \<noteq> node t h p" using hole_inj [OF assms(1) that(1,2) False assms(2-4)] that(3) by blast
    with False that assms(1) show ?thesis unfolding hole_def by simp
  qed simp
  have "node ?t h = (\<lambda>j. if j = i then node t h p else node t h j)" by (simp add: fun_eq_iff)
  then have "node ?t h ` ({1..p_last t h} - {p}) = S"
    using hole_image_move [OF i assms(2,3,4), of "node t h"] assms(1) by (simp add: hole_def)
  with assms(2,3) bp edges span show "hole ?t h p S" unfolding hole_def by simp
qed

lemma half_facts: "(1 :: nat) < i \<Longrightarrow> 1 \<le> i div 2 \<and> i div 2 < i"
  by simp

lemma hole_edge:
  "hole t h i S \<Longrightarrow> 1 < j \<Longrightarrow> j \<le> p_last t h \<Longrightarrow> j \<noteq> i \<Longrightarrow> j div 2 \<noteq> i \<Longrightarrow> evt_key t h (j div 2) \<le> evt_key t h j"
  "hole t h i S \<Longrightarrow> j \<le> p_last t h \<Longrightarrow> j div 2 = i \<Longrightarrow> 1 < i \<Longrightarrow> evt_key t h (i div 2) \<le> evt_key t h j"
  by (simp_all add: hole_def)

lemma child_gt: "j div 2 = i \<Longrightarrow> 1 \<le> i \<Longrightarrow> i < j \<and> 1 < (j :: nat)"
  by presburger

lemma hole_move_up:
  assumes "hole t h i S" "1 < i"
  shows "hole (put_node (node t h (i div 2)) i h t) h (i div 2) S"
    "heap_frame t h S (put_node (node t h (i div 2)) i h t)"
proof -
  let ?p = "i div 2"
  let ?t = "put_node (node t h ?p) i h t"
  have p: "1 \<le> ?p" "?p < i" using half_facts [OF assms(2)] by simp_all
  have i: "i \<le> p_last t h" using assms(1) by (simp add: hole_def)
  have pl: "?p \<le> p_last t h" "?p \<noteq> i" using p i by simp_all
  have edges: "evt_key ?t h (j div 2) \<le> evt_key ?t h j" if "1 < j" "j \<le> p_last t h" "j \<noteq> ?p" "j div 2 \<noteq> ?p" for j
  proof (cases "j div 2 = i")
    case True
    with hole_edge(2) [OF assms(1) that(2) True assms(2)] child_gt [OF True] assms(2) show ?thesis by simp
  next
    case False
    with hole_edge(1) [OF assms(1) that(1,2) _ False] that(4) show ?thesis by (cases "j = i") auto
  qed
  have span: "evt_key ?t h (?p div 2) \<le> evt_key ?t h j" if "j \<le> p_last t h" "j div 2 = ?p" "1 < ?p" for j
  proof -
    have q: "?p div 2 < ?p" "?p div 2 \<noteq> i" "?p div 2 \<noteq> ?p" using half_facts [OF that(3)] p by simp_all
    have top: "evt_key t h (?p div 2) \<le> evt_key t h ?p"
      by (rule hole_edge(1) [OF assms(1) that(3) pl]) (use q in simp)
    show ?thesis
    proof (cases "j = i")
      case False
      have "evt_key t h ?p \<le> evt_key t h j"
        using hole_edge(1) [OF assms(1) _ that(1) False] that(2) pl(2) child_gt [OF that(2) p(1)] by simp
      with top have "evt_key t h (?p div 2) \<le> evt_key t h j" by (rule order_trans)
      with q False show ?thesis by simp
    qed (use top q in simp)
  qed
  show "hole ?t h ?p S" "heap_frame t h S ?t"
    by (rule hole_move [OF assms(1) p(1) pl]; use edges span in blast)+
qed

lemma hole_move_down:
  assumes "hole t h i S" "c \<le> p_last t h" "c div 2 = i"
    and least: "\<And>j. j \<le> p_last t h \<Longrightarrow> j div 2 = i \<Longrightarrow> evt_key t h c \<le> evt_key t h j"
  shows "hole (put_node (node t h c) i h t) h c S" "heap_frame t h S (put_node (node t h c) i h t)"
proof -
  let ?t = "put_node (node t h c) i h t"
  have i: "1 \<le> i" using assms(1) by (simp add: hole_def)
  from child_gt [OF assms(3) i] have c: "i < c" "1 < c" "1 \<le> c" "c \<noteq> i" by simp_all
  have edges: "evt_key ?t h (j div 2) \<le> evt_key ?t h j" if "1 < j" "j \<le> p_last t h" "j \<noteq> c" "j div 2 \<noteq> c" for j
  proof -
    consider (i) "j = i" | (child) "j \<noteq> i" "j div 2 = i" | (other) "j \<noteq> i" "j div 2 \<noteq> i" by blast
    then show ?thesis
    proof cases
      case i
      have "i div 2 \<noteq> i" using half_facts [of i] that(1) i by simp
      with hole_edge(2) [OF assms(1,2,3)] that(1) i show ?thesis by simp
    next
      case child
      with least [OF that(2)] show ?thesis by simp
    next
      case other
      with hole_edge(1) [OF assms(1) that(1,2)] show ?thesis by simp
    qed
  qed
  have span: "evt_key ?t h (c div 2) \<le> evt_key ?t h j" if "j \<le> p_last t h" "j div 2 = c" "1 < c" for j
    using hole_edge(1) [OF assms(1) _ that(1)] child_gt [OF that(2) c(3)] c that(2) assms(3) by simp
  show "hole ?t h c S" "heap_frame t h S ?t"
    by (rule hole_move [OF assms(1) c(3) assms(2) c(4)]; use edges span in blast)+
qed

section \<open>The searches\<close>

text \<open>What a search delivers: an empty node at which a block of time \<open>e\<close> fits.\<close>

definition fits :: "time \<Rightarrow> nat \<Rightarrow> nat \<Rightarrow> evttim_t \<Rightarrow> bool" where
  "fits t h i e \<longleftrightarrow> (1 < i \<longrightarrow> evt_key t h (i div 2) \<le> EVTTIM_ADVANCE t e) \<and>
     (\<forall>j. j \<le> p_last t h \<and> j div 2 = i \<longrightarrow> EVTTIM_ADVANCE t e \<le> evt_key t h j)"

lemma tmevt_up_spec:
  "hole t h i S \<Longrightarrow> \<forall>j. j \<le> p_last t h \<and> j div 2 = i \<longrightarrow> EVTTIM_ADVANCE t e \<le> evt_key t h j \<Longrightarrow>
   tmevt_up i e h t = (i', t') \<Longrightarrow> hole t' h i' S \<and> fits t' h i' e \<and> heap_frame t h S t'"
proof (induction i e h t arbitrary: i' t' rule: tmevt_up.induct)
  case (1 i e h t)
  show ?case
  proof (cases "1 < i \<and> \<not> EVTTIM_LE t (evttim t (node t h (i div 2))) e")
    case False
    then have "tmevt_up i e h t = (i, t)" by (subst tmevt_up.simps) (auto simp: Let_def)
    with 1 False show ?thesis by (auto simp: fits_def EVTTIM_LE_def heap_frame_refl)
  next
    case True
    let ?u = "put_node (node t h (i div 2)) i h t"
    note m = hole_move_up [OF "1.prems"(1) conjunct1 [OF True]]
    have i: "1 \<le> i" using True by simp
    have eq: "tmevt_up i e h t = tmevt_up (i div 2) e h ?u" using True by (subst tmevt_up.simps) (simp add: Let_def)
    have lt: "EVTTIM_ADVANCE t e < evt_key t h (i div 2)" using True by (simp add: EVTTIM_LE_def not_le)
    have "EVTTIM_ADVANCE t e \<le> evt_key ?u h j" if "j \<le> p_last t h" "j div 2 = i div 2" for j
    proof (cases "j = i")
      case False
      have h1: "1 \<le> i div 2" "i div 2 \<noteq> i" using half_facts [of i] True by auto
      from child_gt [OF that(2) h1(1)] have "1 < j" by simp
      from hole_edge(1) [OF "1.prems"(1) this that(1) False] that(2) h1(2) lt False show ?thesis by simp
    qed (use lt in simp)
    with "1.IH" [OF conjunct1 [OF True] refl conjunct2 [OF True] m(1), of i' t'] "1.prems"(3) eq m(2)
    show ?thesis by (auto intro: heap_frame_trans)
  qed
qed

lemma early_child_least:
  assumes "2 * i \<le> p_last t h" "i \<noteq> 0"
  shows "early_child i h t \<le> p_last t h" "early_child i h t div 2 = i" "i < early_child i h t"
    "j \<le> p_last t h \<Longrightarrow> j div 2 = i \<Longrightarrow> evt_key t h (early_child i h t) \<le> evt_key t h j"
proof -
  show "early_child i h t \<le> p_last t h" "early_child i h t div 2 = i" "i < early_child i h t"
    using assms by (auto simp: early_child_def Let_def)
  assume j: "j \<le> p_last t h" "j div 2 = i"
  then have "j = 2 * i \<or> j = 2 * i + 1" by presburger
  then show "evt_key t h (early_child i h t) \<le> evt_key t h j"
    using j(1) by (auto simp: early_child_def Let_def EVTTIM_LT_def not_less)
qed

lemma tmevt_down_spec:
  "hole t h i S \<Longrightarrow> (1 < i \<longrightarrow> evt_key t h (i div 2) \<le> EVTTIM_ADVANCE t e) \<Longrightarrow>
   tmevt_down i e h t = (i', t') \<Longrightarrow> hole t' h i' S \<and> fits t' h i' e \<and> heap_frame t h S t'"
proof (induction i e h t arbitrary: i' t' rule: tmevt_down.induct)
  case (1 i e h t)
  let ?c = "early_child i h t"
  have i: "i \<noteq> 0" using "1.prems"(1) by (simp add: hole_def)
  show ?case
  proof (cases "2 * i \<le> p_last t h")
    case False
    then have "tmevt_down i e h t = (i, t)" by (subst tmevt_down.simps) simp
    moreover have "\<not> j \<le> p_last t h" if "j div 2 = i" for j using False that by presburger
    ultimately show ?thesis using 1 by (auto simp: fits_def heap_frame_refl)
  next
    case True
    note c = early_child_least [OF True i]
    show ?thesis
    proof (cases "EVTTIM_LE t e (evttim t (node t h ?c))")
      case le: True
      then have "tmevt_down i e h t = (i, t)" using True by (subst tmevt_down.simps) (simp add: Let_def)
      moreover have "EVTTIM_ADVANCE t e \<le> evt_key t h j" if "j \<le> p_last t h" "j div 2 = i" for j
        using le c(4) [OF that] by (simp add: EVTTIM_LE_def)
      ultimately show ?thesis using 1 by (auto simp: fits_def heap_frame_refl)
    next
      case gt: False
      let ?u = "put_node (node t h ?c) i h t"
      note m = hole_move_down [OF "1.prems"(1) c(1,2,4)]
      have eq: "tmevt_down i e h t = tmevt_down ?c e h ?u"
        using True i gt by (subst tmevt_down.simps) (simp add: Let_def)
      have "evt_key ?u h (?c div 2) \<le> EVTTIM_ADVANCE ?u e" using gt c(2,3) by (simp add: EVTTIM_LE_def)
      with "1.IH" [OF conjI [OF True i] refl gt m(1), of i' t'] "1.prems"(3) eq m(2)
      show ?thesis by (auto intro: heap_frame_trans)
    qed
  qed
qed

section \<open>Filling the empty node\<close>

lemma hole_fill:
  assumes "hole t h i S" "fits t h i (evttim t x)" "x \<notin> S"
  shows "heap_ok (put_node x i h t) h" "registered (put_node x i h t) h = insert x S"
    "heap_frame t h (insert x S) (put_node x i h t)"
proof -
  let ?t = "put_node x i h t"
  have i: "1 \<le> i" "i \<le> p_last t h" using assms(1) by (simp_all add: hole_def)
  have "evt_key ?t h (j div 2) \<le> evt_key ?t h j" if j: "1 < j" "j \<le> p_last t h" for j
  proof -
    have jj: "j div 2 \<noteq> j" using half_facts [OF j(1)] by simp
    consider "j = i" | "j \<noteq> i" "j div 2 = i" | "j \<noteq> i" "j div 2 \<noteq> i" by blast
    then show ?thesis
    proof cases
      case 1
      then show ?thesis using assms(2) j jj by (simp add: fits_def)
    next
      case 2
      then show ?thesis using assms(2) j by (simp add: fits_def)
    next
      case 3
      with hole_edge(1) [OF assms(1) j] show ?thesis by simp
    qed
  qed
  moreover have "tmevtn ?t (node ?t h j) = j" if "1 \<le> j" "j \<le> p_last t h" for j
  proof (cases "j = i")
    case False
    then have "node t h j \<in> S" using assms(1) that unfolding hole_def by auto
    with assms(1,3) that False show ?thesis unfolding hole_def by auto
  qed simp
  ultimately show "heap_ok ?t h" by (simp add: heap_ok_def)
  have "{1..p_last t h} = insert i ({1..p_last t h} - {i})" using i by auto
  then have "node ?t h ` {1..p_last t h} = insert x (node t h ` ({1..p_last t h} - {i}))"
    by (auto simp: image_iff)
  then show "registered ?t h = insert x S" using assms(1) by (simp add: registered_def hole_def)
  show "heap_frame t h (insert x S) ?t" by (rule heap_frame_put) (simp_all add: i(2))
qed

lemma heap_frame_mono: "heap_frame t h S t' \<Longrightarrow> S \<subseteq> S' \<Longrightarrow> heap_frame t h S' t'"
  unfolding heap_frame_def by blast

lemma tmevtb_insert_spec:
  assumes "heap_ok t h" "x \<notin> registered t h"
  shows "heap_ok (tmevtb_insert x h t) h" "registered (tmevtb_insert x h t) h = insert x (registered t h)"
    "heap_frame (t\<lparr>p_last := (p_last t)(h := Suc (p_last t h))\<rparr>) h (insert x (registered t h)) (tmevtb_insert x h t)"
proof -
  let ?t = "t\<lparr>p_last := (p_last t)(h := Suc (p_last t h))\<rparr>" and ?n = "Suc (p_last t h)" and ?S = "registered t h"
  obtain i u where u: "tmevt_up ?n (evttim t x) h ?t = (i, u)" by fastforce
  have far: "\<not> (1 \<le> j \<and> j \<le> ?n \<and> j div 2 = ?n)" for j
  proof
    assume "1 \<le> j \<and> j \<le> ?n \<and> j div 2 = ?n"
    then show False by presburger
  qed
  have far': "\<not> (j \<le> ?n \<and> j div 2 = ?n)" for j by presburger
  have img: "node t h ` ({1..?n} - {?n}) = ?S" unfolding registered_def
    by (rule arg_cong [of _ _ "image (node t h)"]) auto
  have hole: "hole ?t h ?n ?S"
    using assms(1) img far far' unfolding hole_def heap_ok_def by auto
  have "\<forall>j. j \<le> p_last ?t h \<and> j div 2 = ?n \<longrightarrow> EVTTIM_ADVANCE ?t (evttim t x) \<le> evt_key ?t h j"
    using far' by auto
  from tmevt_up_spec [OF hole this u] have r: "hole u h i ?S" "fits u h i (evttim t x)" "heap_frame ?t h ?S u" by simp_all
  have e: "evttim u = evttim t" using heap_frame_fields(1) [OF r(3)] by simp
  have ins: "tmevtb_insert x h t = put_node x i h u" using u by (simp add: tmevtb_insert_def Let_def)
  note f = hole_fill [OF r(1), of x] r(2) assms(2) e
  show "heap_ok (tmevtb_insert x h t) h" "registered (tmevtb_insert x h t) h = insert x ?S" using f ins by simp_all
  have "heap_frame ?t h (insert x ?S) u" by (rule heap_frame_mono [OF r(3)]) blast
  moreover have "heap_frame u h (insert x ?S) (put_node x i h u)" using f by simp
  ultimately show "heap_frame ?t h (insert x ?S) (tmevtb_insert x h t)" unfolding ins by (rule heap_frame_trans)
qed

section \<open>Taking a block out\<close>

lemma registered_node:
  assumes "heap_ok t h" "x \<in> registered t h"
  shows "1 \<le> tmevtn t x" "tmevtn t x \<le> p_last t h" "node t h (tmevtn t x) = x"
proof -
  from assms(2) obtain j where "1 \<le> j" "j \<le> p_last t h" "x = node t h j" by (auto simp: registered_def)
  with assms(1) show "1 \<le> tmevtn t x" "tmevtn t x \<le> p_last t h" "node t h (tmevtn t x) = x"
    by (auto simp: heap_ok_def)
qed

lemma node_inj:
  assumes "heap_ok t h" "1 \<le> j" "j \<le> p_last t h" "1 \<le> k" "k \<le> p_last t h" "node t h j = node t h k"
  shows "j = k"
  using assms unfolding heap_ok_def by metis

text \<open>The heap one node shorter, and the empty node left by the deleted block.\<close>

lemma shrink_hole:
  assumes "heap_ok t h" "1 \<le> d" "d < p_last t h"
  shows "hole (t\<lparr>p_last := (p_last t)(h := p_last t h - 1)\<rparr>) h d (registered t h - {node t h d, node t h (p_last t h)})"
proof -
  let ?t = "t\<lparr>p_last := (p_last t)(h := p_last t h - 1)\<rparr>" and ?L = "p_last t h"
  have ord: "evt_key t h (j div 2) \<le> evt_key t h j" if "1 < j" "j \<le> ?L" for j
    using assms(1) that by (simp add: heap_ok_def)
  have span: "evt_key t h (d div 2) \<le> evt_key t h j" if "j \<le> ?L - 1" "j div 2 = d" "1 < d" for j
  proof -
    have "evt_key t h (d div 2) \<le> evt_key t h d" by (rule ord) (use that assms(3) in simp_all)
    also have "\<dots> \<le> evt_key t h j" using ord [of j] that child_gt [OF that(2) assms(2)] by simp
    finally show ?thesis .
  qed
  have "node t h ` ({1..?L - 1} - {d}) = registered t h - {node t h d, node t h ?L}"
  proof -
    have "inj_on (node t h) {1..?L}" using node_inj [OF assms(1)] by (auto simp: inj_on_def)
    moreover have "{1..?L - 1} - {d} = {1..?L} - {d, ?L}" using assms(2,3) by auto
    moreover have "{d, ?L} \<subseteq> {1..?L}" using assms(2,3) by auto
    moreover have "inj_on f A \<Longrightarrow> B \<subseteq> A \<Longrightarrow> f ` (A - B) = f ` A - f ` B" for f :: "nat \<Rightarrow> nat" and A B
      by (rule inj_on_image_set_diff [of f A]) auto
    ultimately have "node t h ` ({1..?L - 1} - {d}) = node t h ` {1..?L} - node t h ` {d, ?L}" by simp
    then show ?thesis by (simp add: registered_def)
  qed
  with assms ord span show ?thesis unfolding hole_def heap_ok_def by auto
qed

text \<open>The last block goes to the place found for it.\<close>

lemma refill_last:
  assumes "heap_ok t h" "1 \<le> d" "d < p_last t h"
    and r: "hole u h i (registered t h - {node t h d, node t h (p_last t h)})"
      "fits u h i (evttim t (node t h (p_last t h)))"
      "heap_frame (t\<lparr>p_last := (p_last t)(h := p_last t h - 1)\<rparr>) h (registered t h) u"
  shows "heap_ok (put_node (node u h (Suc (p_last u h))) i h u) h"
    "registered (put_node (node u h (Suc (p_last u h))) i h u) h = registered t h - {node t h d}"
    "heap_frame (t\<lparr>p_last := (p_last t)(h := p_last t h - 1)\<rparr>) h (registered t h) (put_node (node u h (Suc (p_last u h))) i h u)"
proof -
  let ?S = "registered t h - {node t h d, node t h (p_last t h)}" and ?y = "node t h (p_last t h)"
  have L: "Suc (p_last u h) = p_last t h" using heap_frame_fields(2) [OF r(3)] assms(2,3) by simp
  have y: "node u h (Suc (p_last u h)) = ?y" using heap_frame_fields(8) [OF r(3), of "p_last t h"] assms(2,3) L by simp
  have e: "evttim u = evttim t" using heap_frame_fields(1) [OF r(3)] by simp
  have yd: "?y \<noteq> node t h d" using node_inj [OF assms(1), of "p_last t h" d] assms(2,3) by auto
  have ym: "?y \<in> registered t h" using assms(2,3) by (auto simp: registered_def)
  have f: "heap_ok (put_node ?y i h u) h" "registered (put_node ?y i h u) h = insert ?y ?S"
    "heap_frame u h (insert ?y ?S) (put_node ?y i h u)" by (rule hole_fill [OF r(1)]; use r(2) e in simp)+
  from f(1) show "heap_ok (put_node (node u h (Suc (p_last u h))) i h u) h" unfolding y .
  have "insert ?y ?S = registered t h - {node t h d}" using ym yd by auto
  with f(2) show "registered (put_node (node u h (Suc (p_last u h))) i h u) h = registered t h - {node t h d}"
    unfolding y by simp
  have "heap_frame u h (registered t h) (put_node ?y i h u)" by (rule heap_frame_mono [OF f(3)]) (use ym in auto)
  with r(3) show "heap_frame (t\<lparr>p_last := (p_last t)(h := p_last t h - 1)\<rparr>) h (registered t h) (put_node (node u h (Suc (p_last u h))) i h u)"
    unfolding y by (rule heap_frame_trans)
qed

text \<open>Dropping the last node.\<close>

lemma drop_last:
  assumes "heap_ok t h" "1 \<le> p_last t h"
  shows "heap_ok (t\<lparr>p_last := (p_last t)(h := p_last t h - 1)\<rparr>) h"
    "registered (t\<lparr>p_last := (p_last t)(h := p_last t h - 1)\<rparr>) h = registered t h - {node t h (p_last t h)}"
proof -
  let ?L = "p_last t h"
  show "heap_ok (t\<lparr>p_last := (p_last t)(h := ?L - 1)\<rparr>) h" using assms by (auto simp: heap_ok_def)
  have "inj_on (node t h) {1..?L}" using node_inj [OF assms(1)] by (auto simp: inj_on_def)
  moreover have "{1..?L - 1} = {1..?L} - {?L}" "{?L} \<subseteq> {1..?L}" using assms(2) by auto
  moreover have "inj_on f A \<Longrightarrow> B \<subseteq> A \<Longrightarrow> f ` (A - B) = f ` A - f ` B" for f :: "nat \<Rightarrow> nat" and A B
    by (rule inj_on_image_set_diff [of f A]) auto
  ultimately have "node t h ` {1..?L - 1} = node t h ` {1..?L} - node t h ` {?L}" by simp
  then show "registered (t\<lparr>p_last := (p_last t)(h := ?L - 1)\<rparr>) h = registered t h - {node t h ?L}"
    by (simp add: registered_def)
qed

lemma tmevtb_delete_spec:
  assumes "heap_ok t h" "x \<in> registered t h"
  shows "heap_ok (tmevtb_delete x h t) h" "registered (tmevtb_delete x h t) h = registered t h - {x}"
    "heap_frame (t\<lparr>p_last := (p_last t)(h := p_last t h - 1)\<rparr>) h (registered t h) (tmevtb_delete x h t)"
proof -
  let ?L = "p_last t h" and ?d = "tmevtn t x" and ?t = "t\<lparr>p_last := (p_last t)(h := p_last t h - 1)\<rparr>"
  let ?y = "node t h ?L" and ?p = "tmevtn t x div 2"
  note d = registered_node [OF assms]
  have "heap_ok (tmevtb_delete x h t) h \<and> registered (tmevtb_delete x h t) h = registered t h - {x} \<and>
    heap_frame ?t h (registered t h) (tmevtb_delete x h t)"
  proof (cases "?d = ?L")
    case True
    have "put_node ?y ?L h ?t = ?t" using d True by (simp add: put_node_def fun_upd_idem)
    moreover have "1 < ?L \<longrightarrow> evt_key t h (?L div 2) \<le> evt_key t h ?L" using assms(1) by (simp add: heap_ok_def)
    then have "\<not> (1 < ?d \<and> EVTTIM_LT ?t (evttim ?t ?y) (evttim ?t (node ?t h ?p)))"
      using True by (auto simp: EVTTIM_LT_def not_less)
    moreover have "tmevt_down ?L e h ?t = (?L, ?t)" for e using d(1,2) by (subst tmevt_down.simps) auto
    ultimately have "tmevtb_delete x h t = ?t" using d True by (simp add: tmevtb_delete_def Let_def)
    with drop_last [OF assms(1)] d True heap_frame_refl show ?thesis by simp
  next
    case False
    then have dl: "?d < ?L" using d(2) by simp
    let ?S = "registered t h - {node t h ?d, ?y}"
    note hole = shrink_hole [OF assms(1) d(1) dl]
    let ?r = "if 1 < ?d \<and> EVTTIM_LT ?t (evttim t ?y) (evttim t (node t h ?p))
      then tmevt_up ?p (evttim t ?y) h (put_node (node t h ?p) ?d h ?t) else tmevt_down ?d (evttim t ?y) h ?t"
    obtain i u where u: "?r = (i, u)" by fastforce
    have del: "tmevtb_delete x h t = put_node (node u h (Suc (p_last u h))) i h u"
    proof -
      have "tmevtb_delete x h t = (case ?r of (i, t2) \<Rightarrow> put_node (node t2 h (Suc (p_last t2 h))) i h t2)"
        using dl d(1) by (simp add: tmevtb_delete_def Let_def)
      then show ?thesis unfolding u by simp
    qed
    have "hole u h i ?S \<and> fits u h i (evttim t ?y) \<and> heap_frame ?t h ?S u"
    proof (cases "1 < ?d \<and> EVTTIM_LT ?t (evttim t ?y) (evttim t (node t h ?p))")
      case up: True
      then have "tmevt_up ?d (evttim t ?y) h ?t = (i, u)"
        using u by (subst tmevt_up.simps) (simp add: Let_def EVTTIM_LE_def EVTTIM_LT_def not_le [symmetric])
      moreover have "EVTTIM_ADVANCE ?t (evttim t ?y) \<le> evt_key ?t h j" if "j \<le> p_last ?t h" "j div 2 = ?d" for j
        using hole_edge(2) [OF hole that] up by (auto simp: EVTTIM_LT_def)
      ultimately show ?thesis using tmevt_up_spec [OF hole] by blast
    next
      case down: False
      then have "tmevt_down ?d (evttim t ?y) h ?t = (i, u)" using u unfolding if_not_P [OF down] by simp
      with tmevt_down_spec [OF hole] down show ?thesis by (auto simp: EVTTIM_LT_def not_less)
    qed
    then have "hole u h i ?S" "fits u h i (evttim t ?y)" "heap_frame ?t h (registered t h) u"
      by (auto intro: heap_frame_mono)
    from refill_last [OF assms(1) d(1) dl this] d(3) show ?thesis unfolding del by simp
  qed
  then show "heap_ok (tmevtb_delete x h t) h" "registered (tmevtb_delete x h t) h = registered t h - {x}"
    "heap_frame ?t h (registered t h) (tmevtb_delete x h t)" by simp_all
qed

text \<open>Taking the top is deleting the block at node 1.\<close>

lemma tmevtb_delete_top_eq:
  assumes "heap_ok t h" "1 \<le> p_last t h"
  shows "tmevtb_delete_top h t = (node t h 1, tmevtb_delete (node t h 1) h t)"
proof -
  have "tmevtn t (node t h 1) = 1" using assms by (simp add: heap_ok_def)
  then show ?thesis by (simp add: tmevtb_delete_top_def tmevtb_delete_def Let_def split: prod.splits)
qed

lemma top_in: "1 \<le> p_last t h \<Longrightarrow> node t h 1 \<in> registered t h"
  by (auto simp: registered_def)

lemma top_least:
  assumes "heap_ok t h" "1 \<le> j" "j \<le> p_last t h"
  shows "evt_key t h 1 \<le> evt_key t h j"
  using assms(2,3)
proof (induction j rule: less_induct)
  case (less j)
  show ?case
  proof (cases "j = 1")
    case False
    with less.prems have j: "1 < j" by simp
    note hf = half_facts [OF j]
    have "evt_key t h 1 \<le> evt_key t h (j div 2)" by (rule less.IH) (use hf less.prems in simp_all)
    also have "\<dots> \<le> evt_key t h j" using assms(1) j less.prems(2) by (simp add: heap_ok_def)
    finally show ?thesis .
  qed simp
qed

lemma other_heap:
  assumes "heap_frame (t\<lparr>p_last := (p_last t)(h := n)\<rparr>) h S t'" "h' \<noteq> h" "heap_ok t h'" "S \<inter> registered t h' = {}"
  shows "heap_ok t' h'" "registered t' h' = registered t h'"
proof -
  let ?t = "t\<lparr>p_last := (p_last t)(h := n)\<rparr>"
  note f = heap_frame_fields [OF assms(1)]
  have n: "node t' h' = node t h'" using f(7) [OF assms(2)] by simp
  have l: "p_last t' h' = p_last t h'" using f(2) assms(2) by simp
  show "registered t' h' = registered t h'" by (simp add: registered_def n l)
  have "tmevtn t' (node t h' j) = tmevtn t (node t h' j)" if "1 \<le> j" "j \<le> p_last t h'" for j
  proof -
    from that have "node t h' j \<in> registered t h'" by (auto simp: registered_def)
    with assms(4) f(9) show ?thesis by auto
  qed
  with assms(3) show "heap_ok t' h'" by (simp add: heap_ok_def n l f(1,4))
qed

lemma tmevt_up_keeps:
  "systim_offset (snd (tmevt_up i e h t)) = systim_offset t" "evttim (snd (tmevt_up i e h t)) = evttim t"
  "current_evttim (snd (tmevt_up i e h t)) = current_evttim t" "boundary_evttim (snd (tmevt_up i e h t)) = boundary_evttim t"
proof (induction i e h t rule: tmevt_up.induct)
  case (1 i e h t)
  {
    case 1
    then show ?case using "1.IH" by (subst tmevt_up.simps) (simp add: Let_def put_node_def)
  next
    case 2
    then show ?case using "1.IH" by (subst tmevt_up.simps) (simp add: Let_def put_node_def)
  next
    case 3
    then show ?case using "1.IH" by (subst tmevt_up.simps) (simp add: Let_def put_node_def)
  next
    case 4
    then show ?case using "1.IH" by (subst tmevt_up.simps) (simp add: Let_def put_node_def)
  }
qed

lemma insert_keeps:
  "systim_offset (tmevtb_insert x h t) = systim_offset t" "evttim (tmevtb_insert x h t) = evttim t"
  "current_evttim (tmevtb_insert x h t) = current_evttim t" "boundary_evttim (tmevtb_insert x h t) = boundary_evttim t"
  using tmevt_up_keeps [of "Suc (p_last t h)" "evttim t x" h "t\<lparr>p_last := (p_last t)(h := Suc (p_last t h))\<rparr>"]
  by (simp_all add: tmevtb_insert_def Let_def put_node_def case_prod_unfold)

section \<open>The current time\<close>

text \<open>What the counter has moved on since the last reading.\<close>

definition elapsed :: "time \<Rightarrow> 32 word" where
  "elapsed t = hrt t (hrt_reads t) - current_hrtcnt t + (if hrt t (hrt_reads t) < current_hrtcnt t then TCYC_HRTCNT else 0)"

text \<open>The system time as \<open>get_tim\<close> tells it, unbounded.\<close>

definition system_time :: "time \<Rightarrow> nat" where
  "system_time t = unat (systim_offset t) + unat (monotonic_evttim t)"

lemma update_fields:
  "current_evttim (update_current_evttim t) = current_evttim t + elapsed t"
  "boundary_evttim (update_current_evttim t) = current_evttim t + elapsed t - BOUNDARY_MARGIN"
  "evttim (update_current_evttim t) = evttim t" "node (update_current_evttim t) = node t"
  "tmevtn (update_current_evttim t) = tmevtn t" "p_last (update_current_evttim t) = p_last t"
  "in_signal_time (update_current_evttim t) = in_signal_time t"
  by (simp_all add: update_current_evttim_def hrt_get_current_def elapsed_def Let_def add.assoc add.commute)

lemma registered_update [simp]: "registered (update_current_evttim t) h = registered t h"
  by (simp add: registered_def update_fields)

lemma word_diff_mono: "(d :: evttim_t) \<le> a \<Longrightarrow> a \<le> b \<Longrightarrow> a - d \<le> b - d"
  by (simp add: word_le_nat_alt unat_sub)

lemma heap_ok_later:
  assumes "heap_ok t h" "boundary_evttim t = current_evttim t - BOUNDARY_MARGIN"
    "\<forall>y\<in>registered t h. elapsed t \<le> EVTTIM_ADVANCE t (evttim t y)"
  shows "heap_ok (update_current_evttim t) h"
proof -
  let ?u = "update_current_evttim t"
  have k: "evt_key ?u h j = evt_key t h j - elapsed t" for j
    using assms(2) by (simp add: EVTTIM_ADVANCE_def update_fields algebra_simps)
  have "evt_key ?u h (j div 2) \<le> evt_key ?u h j" if "1 < j" "j \<le> p_last t h" for j
  proof -
    have "node t h (j div 2) \<in> registered t h" using half_facts [OF that(1)] that by (auto simp: registered_def)
    with assms(1,3) that show ?thesis unfolding k by (intro word_diff_mono) (auto simp: heap_ok_def)
  qed
  with assms(1) show ?thesis by (simp add: heap_ok_def update_fields)
qed

section \<open>Properties\<close>

text \<open>
  Claim C35.  The time event heap keeps its order and its back pointers: registering a new block adds
  exactly it, withdrawing a registered block, from wherever it is in the heap, removes exactly it,
  neither changes the time of any block, and the other heaps, as far as they hold other blocks,
  are untouched.
\<close>

theorem time_heap_kept:
  assumes "heap_ok t h"
  shows "(x \<notin> registered t h \<longrightarrow> heap_ok (tmevtb_insert x h t) h \<and>
      registered (tmevtb_insert x h t) h = insert x (registered t h) \<and> evttim (tmevtb_insert x h t) = evttim t \<and>
      (\<forall>h'. h' \<noteq> h \<and> heap_ok t h' \<and> insert x (registered t h) \<inter> registered t h' = {} \<longrightarrow>
        heap_ok (tmevtb_insert x h t) h' \<and> registered (tmevtb_insert x h t) h' = registered t h')) \<and>
    (x \<in> registered t h \<longrightarrow> heap_ok (tmevtb_delete x h t) h \<and>
      registered (tmevtb_delete x h t) h = registered t h - {x} \<and> evttim (tmevtb_delete x h t) = evttim t \<and>
      (\<forall>h'. h' \<noteq> h \<and> heap_ok t h' \<and> registered t h \<inter> registered t h' = {} \<longrightarrow>
        heap_ok (tmevtb_delete x h t) h' \<and> registered (tmevtb_delete x h t) h' = registered t h'))"
proof (intro conjI impI allI; (elim conjE)?)
  assume x: "x \<notin> registered t h"
  note s = tmevtb_insert_spec [OF assms x]
  show "heap_ok (tmevtb_insert x h t) h" "registered (tmevtb_insert x h t) h = insert x (registered t h)"
    "evttim (tmevtb_insert x h t) = evttim t" using s(1,2) heap_frame_fields(1) [OF s(3)] by simp_all
  show "heap_ok (tmevtb_insert x h t) h'" "registered (tmevtb_insert x h t) h' = registered t h'"
    if "h' \<noteq> h" "heap_ok t h'" "insert x (registered t h) \<inter> registered t h' = {}" for h'
    by (rule other_heap [OF s(3) that])+
next
  assume x: "x \<in> registered t h"
  note s = tmevtb_delete_spec [OF assms x]
  show "heap_ok (tmevtb_delete x h t) h" "registered (tmevtb_delete x h t) h = registered t h - {x}"
    "evttim (tmevtb_delete x h t) = evttim t" using s(1,2) heap_frame_fields(1) [OF s(3)] by simp_all
  show "heap_ok (tmevtb_delete x h t) h'" "registered (tmevtb_delete x h t) h' = registered t h'"
    if "h' \<noteq> h" "heap_ok t h'" "registered t h \<inter> registered t h' = {}" for h'
    by (rule other_heap [OF s(3) that])+
qed

definition three_events :: time where
  "three_events = tmevtb_insert 2 0 (tmevtb_insert 1 0 (tmevtb_insert 0 0 (initialize_tmevt (\<lambda>_. True)
     \<lparr>evttim = \<lambda>x. if x = 0 then 30 else if x = 1 then 10 else 20, tmevtn = \<lambda>_. 0, node = \<lambda>_ _. 0, p_last = \<lambda>_. 0,
      boundary_evttim = 0, current_evttim = 0, monotonic_evttim = 0, current_hrtcnt = 0, systim_offset = 0,
      in_signal_time = False, hrt = \<lambda>n. 5, hrt_reads = 0, hrt_event = Hrt_none\<rparr>)))"

lemma three_events_ok: "heap_ok three_events 0" "registered three_events 0 = {0, 1, 2}"
proof -
  let ?t = "initialize_tmevt (\<lambda>_. True) \<lparr>evttim = \<lambda>x. if x = 0 then 30 else if x = 1 then 10 else 20, tmevtn = \<lambda>_. 0,
      node = \<lambda>_ _. 0, p_last = \<lambda>_. 0, boundary_evttim = 0, current_evttim = 0, monotonic_evttim = 0, current_hrtcnt = 0,
      systim_offset = 0, in_signal_time = False, hrt = \<lambda>n. 5, hrt_reads = 0, hrt_event = Hrt_none\<rparr>"
  have 0: "heap_ok ?t 0" "registered ?t 0 = {}" by (auto simp: heap_ok_def registered_def initialize_tmevt_def)
  have 1: "heap_ok (tmevtb_insert 0 0 ?t) 0" "registered (tmevtb_insert 0 0 ?t) 0 = {0}"
    using tmevtb_insert_spec(1,2) [OF 0(1), of 0] 0(2) by simp_all
  have 2: "heap_ok (tmevtb_insert 1 0 (tmevtb_insert 0 0 ?t)) 0" "registered (tmevtb_insert 1 0 (tmevtb_insert 0 0 ?t)) 0 = {1, 0}"
    using tmevtb_insert_spec(1,2) [OF 1(1), of 1] 1(2) by simp_all
  show "heap_ok three_events 0" "registered three_events 0 = {0, 1, 2}"
    using tmevtb_insert_spec(1,2) [OF 2(1), of 2] 2(2) unfolding three_events_def by auto
qed

theorem time_heap_kept_witness:
  "heap_ok (tmevtb_delete 1 0 three_events) 0 \<and> registered (tmevtb_delete 1 0 three_events) 0 = {0, 2} \<and>
   registered (tmevtb_insert 7 0 three_events) 0 = {7, 0, 1, 2}"
  using time_heap_kept [OF three_events_ok(1), of 1] time_heap_kept [OF three_events_ok(1), of 7]
  by (auto simp: three_events_ok(2))

text \<open>
  Taking the top of a heap that is not empty yields a registered block that no other
  registered block precedes in event time, and leaves a well-formed heap with the others.
\<close>

theorem earliest_event_first:
  assumes "heap_ok t h" "1 \<le> p_last t h" "tmevtb_delete_top h t = (x, t')"
  shows "x \<in> registered t h \<and> (\<forall>y\<in>registered t h. EVTTIM_LE t (evttim t x) (evttim t y)) \<and>
    heap_ok t' h \<and> registered t' h = registered t h - {x} \<and> evttim t' = evttim t"
proof -
  from assms(3) tmevtb_delete_top_eq [OF assms(1,2)] have x: "x = node t h 1" "t' = tmevtb_delete x h t" by auto
  note s = tmevtb_delete_spec [OF assms(1) top_in [OF assms(2)]]
  have "\<forall>y\<in>registered t h. EVTTIM_LE t (evttim t x) (evttim t y)"
    using top_least [OF assms(1)] x(1) by (auto simp: registered_def EVTTIM_LE_def)
  with s x top_in [OF assms(2)] heap_frame_fields(1) [OF s(3)] show ?thesis by simp
qed

lemma three_events_last: "p_last three_events 0 = 3"
  by (simp add: three_events_def tmevtb_insert_def tmevt_up.simps initialize_tmevt_def Let_def split: prod.split)

theorem earliest_event_first_witness:
  "\<exists>x t'. tmevtb_delete_top 0 three_events = (x, t') \<and> x \<in> {0, 1, 2} \<and> registered t' 0 = {0, 1, 2} - {x}"
proof -
  obtain x t' where r: "tmevtb_delete_top 0 three_events = (x, t')" by fastforce
  with earliest_event_first [OF three_events_ok(1) _ r] three_events_ok(2) three_events_last show ?thesis by auto
qed

text \<open>
  The system time, the 32-bit monotonic event time with its 64-bit offset, follows the
  counter through every wrap: it never goes back, and it advances by exactly what the current
  event time has moved beyond the most advanced time so far.
\<close>

theorem system_time_advances:
  assumes "unat (systim_offset t) < 2 ^ 63"
  shows "system_time (update_current_evttim t) = system_time t +
    (unat (elapsed t) - unat (monotonic_evttim t - current_evttim t))"
proof -
  let ?m = "monotonic_evttim t" and ?p = "current_evttim t" and ?a = "elapsed t"
  have u: "systim_offset (update_current_evttim t) = systim_offset t +
        (if ?m - ?p < ?a \<and> ?p + ?a < ?m then 2 ^ 32 else 0)"
    "monotonic_evttim (update_current_evttim t) = (if ?m - ?p < ?a then ?p + ?a else ?m)"
    by (simp_all add: update_current_evttim_def hrt_get_current_def elapsed_def Let_def)
  show ?thesis
  proof (cases "?m - ?p < ?a")
    case False
    then have "unat ?a - unat (?m - ?p) = 0" by (simp add: word_less_nat_alt not_less)
    with False u show ?thesis by (simp add: system_time_def)
  next
    case True
    let ?d = "?p + ?a - ?m"
    have "?d = ?a - (?m - ?p)" by simp
    then have d: "unat ?d = unat ?a - unat (?m - ?p)" using True by (metis unat_sub less_imp_le)
    have off: "unat (systim_offset t + 2 ^ 32) = unat (systim_offset t) + 2 ^ 32"
      using assms by (subst unat_add_lem [THEN iffD1]) simp_all
    show ?thesis
    proof (cases "?p + ?a < ?m")
      case wrap: True
      have "unat ?d + unat ?m = unat (?p + ?a) + 2 ^ 32"
      proof -
        have "unat ?m < 2 ^ 32" by (rule order_less_le_trans [OF unsigned_less]) simp
        then show ?thesis using wrap unat_sub_if_size [of "?p + ?a" ?m] by (simp add: word_less_nat_alt word_size)
      qed
      with True wrap u off d show ?thesis by (simp add: system_time_def)
    next
      case le: False
      then have "unat ?d = unat (?p + ?a) - unat ?m" "unat ?m \<le> unat (?p + ?a)"
        by (simp_all add: unat_sub not_less word_le_nat_alt)
      with True le u d show ?thesis by (simp add: system_time_def)
    qed
  qed
qed

theorem system_time_advances_witness:
  "system_time (update_current_evttim three_events) = system_time three_events +
    (unat (elapsed three_events) - unat (monotonic_evttim three_events - current_evttim three_events))"
  by (rule system_time_advances) (simp add: three_events_def insert_keeps initialize_tmevt_def)

text \<open>
  An event registered for a relative time up to \<open>TMAX_RELTIM\<close>, 4000 seconds, is placed
  exactly that much (and one step of the counter) behind the current time: its distance from the
  boundary does not wrap at 32 bits, and it is later than the current time.
\<close>

theorem relative_time_fits:
  assumes "tim \<le> TMAX_RELTIM"
  shows "unat (EVTTIM_ADVANCE (tmevtb_enqueue_reltim x tim h t) (evttim (tmevtb_enqueue_reltim x tim h t) x))
      = unat BOUNDARY_MARGIN + 1 + unat tim \<and>
    EVTTIM_LT (tmevtb_enqueue_reltim x tim h t) (current_evttim (tmevtb_enqueue_reltim x tim h t))
      (evttim (tmevtb_enqueue_reltim x tim h t) x)"
proof -
  let ?r = "tmevtb_enqueue_reltim x tim h t" and ?u = "update_current_evttim t"
  have f: "evttim ?r x = current_evttim ?u + 1 + tim" "current_evttim ?r = current_evttim ?u"
    "boundary_evttim ?r = current_evttim ?u - BOUNDARY_MARGIN"
    by (simp_all add: tmevtb_enqueue_reltim_def Let_def insert_keeps set_hrt_event_def calc_current_evttim_ub_def
        TSTEP_HRTCNT_def update_fields)
  have n: "unat tim \<le> 4000000000" using assms by (simp add: word_le_nat_alt TMAX_RELTIM_def)
  have m: "unat BOUNDARY_MARGIN = 200000000" by (simp add: BOUNDARY_MARGIN_def)
  have k: "EVTTIM_ADVANCE ?r (evttim ?r x) = BOUNDARY_MARGIN + 1 + tim"
    by (simp add: EVTTIM_ADVANCE_def f)
  have "unat (BOUNDARY_MARGIN + 1) = unat BOUNDARY_MARGIN + 1" by (simp add: BOUNDARY_MARGIN_def)
  then have a: "unat (BOUNDARY_MARGIN + 1 + tim) = unat BOUNDARY_MARGIN + 1 + unat tim"
    using n m by (subst unat_add_lem [THEN iffD1]) simp_all
  have "EVTTIM_ADVANCE ?r (current_evttim ?r) = BOUNDARY_MARGIN" by (simp add: EVTTIM_ADVANCE_def f)
  with a k show ?thesis by (simp add: EVTTIM_LT_def word_less_nat_alt)
qed

theorem relative_time_fits_witness:
  "unat (EVTTIM_ADVANCE (tmevtb_enqueue_reltim 7 4000000000 0 three_events)
      (evttim (tmevtb_enqueue_reltim 7 4000000000 0 three_events) 7)) = 4200000001"
  using relative_time_fits [of 4000000000 7 0 three_events] by (simp add: TMAX_RELTIM_def BOUNDARY_MARGIN_def)

text \<open>
  The order of a heap survives the passing of time: the comparison is relative to a
  boundary 200 seconds behind the current time, so as long as no registered event is overdue by
  more than the margin after the step, moving the current time keeps the heap well formed with
  the same blocks.
\<close>

theorem heap_survives_time:
  assumes "heap_ok t h" "boundary_evttim t = current_evttim t - BOUNDARY_MARGIN"
    "\<forall>y\<in>registered t h. elapsed t \<le> EVTTIM_ADVANCE t (evttim t y)"
  shows "heap_ok (update_current_evttim t) h \<and> registered (update_current_evttim t) h = registered t h \<and>
    boundary_evttim (update_current_evttim t) = current_evttim (update_current_evttim t) - BOUNDARY_MARGIN"
  using heap_ok_later [OF assms] by (simp add: update_fields)

lemma three_events_fields:
  "boundary_evttim three_events = - BOUNDARY_MARGIN" "current_evttim three_events = 0"
  "evttim three_events = (\<lambda>x. if x = 0 then 30 else if x = 1 then 10 else 20)"
  by (simp_all add: three_events_def insert_keeps initialize_tmevt_def)

theorem heap_survives_time_witness:
  "heap_ok (update_current_evttim three_events) 0 \<and> registered (update_current_evttim three_events) 0 = {0, 1, 2}"
proof -
  have up: "hrt (snd (tmevt_up i e h t)) = hrt t \<and> hrt_reads (snd (tmevt_up i e h t)) = hrt_reads t \<and>
      current_hrtcnt (snd (tmevt_up i e h t)) = current_hrtcnt t" for i e h t
    by (induction i e h t rule: tmevt_up.induct) (subst (1 2 3) tmevt_up.simps, simp add: Let_def put_node_def)
  have "hrt (tmevtb_insert x h t) = hrt t" "hrt_reads (tmevtb_insert x h t) = hrt_reads t"
    "current_hrtcnt (tmevtb_insert x h t) = current_hrtcnt t" for x h t
    using up [of "Suc (p_last t h)" "evttim t x" h "t\<lparr>p_last := (p_last t)(h := Suc (p_last t h))\<rparr>"]
    by (simp_all add: tmevtb_insert_def Let_def put_node_def case_prod_unfold)
  then have "elapsed three_events = 5" by (simp add: elapsed_def three_events_def initialize_tmevt_def)
  then have "\<forall>y\<in>registered three_events 0. elapsed three_events \<le> EVTTIM_ADVANCE three_events (evttim three_events y)"
    by (simp add: three_events_ok(2) EVTTIM_ADVANCE_def three_events_fields BOUNDARY_MARGIN_def)
  with heap_survives_time [OF three_events_ok(1)] three_events_ok(2) show ?thesis
    by (simp add: three_events_fields)
qed

end
