(* ===== verification/Kernel_Task.thy ===== *)
theory Kernel_Task
  imports Kernel_Queue Kernel_Time
begin

text \<open>
  Tasks and the scheduler (\<open>hrp3_wo_tecs/kernel/task.c\<close>, \<open>task.h\<close>, \<open>domain.h\<close>): task control
  blocks, the ready queues of a scheduling unit with their priority bitmap, and the task each unit
  and the system are to run.  The links of the queues are those of \<open>Kernel_Queue\<close>; here a queue is
  the list of its tasks.
\<close>

unbundle bit_operations_syntax

section \<open>State\<close>

datatype ER =
    E_OK | E_SYS | E_NOSPT | E_RSFN | E_RSATR | E_PAR | E_ID | E_CTX | E_MACV | E_OACV | E_ILUSE | E_NOMEM | E_NOID
  | E_NORES | E_OBJ | E_NOEXS | E_QOVR | E_RLWAI | E_TMOUT | E_DLT | E_CLS | E_RASTER | E_WBLK | E_BOVR | E_COMM

text \<open>Task states, as the byte \<open>tstat\<close> holds them.\<close>

type_synonym tstat_t = "8 word"

definition TS_DORMANT :: tstat_t where "TS_DORMANT = 0"
definition TS_RUNNABLE :: tstat_t where "TS_RUNNABLE = 1"
definition TS_SUSPENDED :: tstat_t where "TS_SUSPENDED = 2"
definition TS_WAITING_SLP :: tstat_t where "TS_WAITING_SLP = push_bit 2 0x01"
definition TS_WAITING_DLY :: tstat_t where "TS_WAITING_DLY = push_bit 2 0x02"
definition TS_WAITING_RDTQ :: tstat_t where "TS_WAITING_RDTQ = push_bit 2 0x08"
definition TS_WAITING_SEM :: tstat_t where "TS_WAITING_SEM = push_bit 2 0x10"
definition TS_WAITING_FLG :: tstat_t where "TS_WAITING_FLG = push_bit 2 0x11"
definition TS_WAITING_SDTQ :: tstat_t where "TS_WAITING_SDTQ = push_bit 2 0x12"
definition TS_WAITING_SMBF :: tstat_t where "TS_WAITING_SMBF = push_bit 2 0x15"
definition TS_WAITING_MASK :: tstat_t where "TS_WAITING_MASK = push_bit 2 0x1f"

lemmas TS_defs = TS_DORMANT_def TS_RUNNABLE_def TS_SUSPENDED_def TS_WAITING_SLP_def TS_WAITING_DLY_def
  TS_WAITING_RDTQ_def TS_WAITING_SEM_def TS_WAITING_FLG_def TS_WAITING_SDTQ_def TS_WAITING_SMBF_def TS_WAITING_MASK_def

definition TSTAT_DORMANT :: "tstat_t \<Rightarrow> bool" where "TSTAT_DORMANT s \<longleftrightarrow> s = TS_DORMANT"
definition TSTAT_RUNNABLE :: "tstat_t \<Rightarrow> bool" where "TSTAT_RUNNABLE s \<longleftrightarrow> s AND TS_RUNNABLE \<noteq> 0"
definition TSTAT_WAITING :: "tstat_t \<Rightarrow> bool" where "TSTAT_WAITING s \<longleftrightarrow> s AND TS_WAITING_MASK \<noteq> 0"
definition TSTAT_SUSPENDED :: "tstat_t \<Rightarrow> bool" where "TSTAT_SUSPENDED s \<longleftrightarrow> s AND TS_SUSPENDED \<noteq> 0"
definition TSTAT_WAIT_SLP :: "tstat_t \<Rightarrow> bool" where "TSTAT_WAIT_SLP s \<longleftrightarrow> s AND NOT TS_SUSPENDED = TS_WAITING_SLP"
definition TSTAT_WAIT_SMBF :: "tstat_t \<Rightarrow> bool" where "TSTAT_WAIT_SMBF s \<longleftrightarrow> s AND NOT TS_SUSPENDED = TS_WAITING_SMBF"
definition TSTAT_WAIT_WOBJ :: "tstat_t \<Rightarrow> bool" where "TSTAT_WAIT_WOBJ s \<longleftrightarrow> s AND push_bit 2 0x18 \<noteq> 0"
definition TSTAT_WAIT_WOBJCB :: "tstat_t \<Rightarrow> bool" where "TSTAT_WAIT_WOBJCB s \<longleftrightarrow> s AND push_bit 2 0x10 \<noteq> 0"

lemmas TSTAT_defs = TSTAT_DORMANT_def TSTAT_RUNNABLE_def TSTAT_WAITING_def TSTAT_SUSPENDED_def TSTAT_WAIT_SLP_def
  TSTAT_WAIT_SMBF_def TSTAT_WAIT_WOBJ_def TSTAT_WAIT_WOBJCB_def

text \<open>
  The queues a task can be in: the ready queue of a scheduling unit and a priority, or the waiting
  queue of an object.
\<close>

datatype qid =
    Ready nat nat
  | Sem_wait nat
  | Flg_wait nat
  | Dtq_swait nat
  | Dtq_rwait nat

text \<open>
  A waiting information block.  Its first word is a union: the time event block while the task
  waits (or NULL), the error code once it has been released.  The other fields are those of the
  kinds of waiting: the queue waited in, the data of a data queue, pattern and mode of an event flag.
\<close>

datatype winfo_union = P_tmevtb "nat option" | Wercd ER

record winfo =
  wi_union :: winfo_union
  wi_wobj :: "qid option"
  wi_data :: int
  wi_waiptn :: "32 word"
  wi_wfmode :: "32 word"

text \<open>
  A task control block with the fields of its initialisation block (\<open>ipriority\<close>, the attribute
  \<open>TA_NOACTQUE\<close>) and domain (\<open>tmevt_heap\<close>); \<open>winfo\<close> is the block \<open>p_winfo\<close> points to, a local
  variable of the call the task waits in.
\<close>

record tcb =
  tstat :: tstat_t
  svclevel :: nat
  bpriority :: nat
  priority :: nat
  actque :: bool
  wupque :: bool
  raster :: bool
  enater :: bool
  schedcb :: nat
  winfo :: winfo
  ipriority :: nat
  noactque :: bool
  tmevt_heap :: nat

text \<open>
  The kernel: tasks, queues, scheduling units (unit 0 is the kernel domain's), the running and the
  scheduled task, the dispatch flag, the context of the caller (\<open>sense_context\<close>: not a task;
  \<open>sense_lock\<close>; the domain), the time events, and the objects: the counts of semaphores, the patterns of event flags, the data queues.
\<close>

record dtqcb =
  dtqmb :: "int list"
  dtq_count :: nat
  dtq_head :: nat
  dtq_tail :: nat

record kernel =
  tcbs :: "nat \<Rightarrow> tcb"
  queues :: "qid \<Rightarrow> nat list"
  ready_primap :: "nat \<Rightarrow> 16 word"
  predtsk :: "nat \<Rightarrow> nat option"
  twdsched :: nat
  idlesched :: nat
  runtsk :: "nat option"
  schedtsk :: "nat option"
  dspflg :: bool
  sense_context :: bool
  sense_lock :: bool
  rundom :: "32 word"
  tm :: time
  semcnt :: "nat \<Rightarrow> nat"
  flgptn :: "nat \<Rightarrow> 32 word"
  dtqs :: "nat \<Rightarrow> dtqcb"

definition schedcb_kernel :: nat where "schedcb_kernel = 0"

definition upd_tcb :: "nat \<Rightarrow> (tcb \<Rightarrow> tcb) \<Rightarrow> kernel \<Rightarrow> kernel" where
  "upd_tcb t f k = k\<lparr>tcbs := (tcbs k)(t := f (tcbs k t))\<rparr>"

definition set_queue :: "qid \<Rightarrow> nat list \<Rightarrow> kernel \<Rightarrow> kernel" where
  "set_queue q ts k = k\<lparr>queues := (queues k)(q := ts)\<rparr>"

text \<open>\<open>queue_delete(&(p_tcb->task_queue))\<close>: out of the queue the task is in, whichever that is.\<close>

definition delete_task :: "nat \<Rightarrow> kernel \<Rightarrow> kernel" where
  "delete_task t k = k\<lparr>queues := \<lambda>q. removeAll t (queues k q)\<rparr>"

section \<open>The priority bitmap\<close>

definition PRIMAP_BIT :: "nat \<Rightarrow> 16 word" where
  "PRIMAP_BIT pri = push_bit pri 1"

definition bitmap_search_table :: "nat list" where
  "bitmap_search_table = [0, 1, 0, 2, 0, 1, 0, 3, 0, 1, 0, 2, 0, 1, 0]"

definition bitmap_search :: "16 word \<Rightarrow> nat" where
  "bitmap_search b =
    (let (b1, n1) = (if b AND 0x00ff = 0 then (drop_bit 8 b, 8) else (b, 0));
         (b2, n2) = (if b1 AND 0x0f = 0 then (drop_bit 4 b1, n1 + 4) else (b1, n1))
     in n2 + bitmap_search_table ! (unat (b2 AND 0x0f) - 1))"

definition primap_empty :: "nat \<Rightarrow> kernel \<Rightarrow> bool" where
  "primap_empty s k \<longleftrightarrow> ready_primap k s = 0"

definition primap_search :: "nat \<Rightarrow> kernel \<Rightarrow> nat" where
  "primap_search s k = bitmap_search (ready_primap k s)"

definition primap_set :: "nat \<Rightarrow> nat \<Rightarrow> kernel \<Rightarrow> kernel" where
  "primap_set pri s k = k\<lparr>ready_primap := (ready_primap k)(s := ready_primap k s OR PRIMAP_BIT pri)\<rparr>"

definition primap_clear :: "nat \<Rightarrow> nat \<Rightarrow> kernel \<Rightarrow> kernel" where
  "primap_clear pri s k = k\<lparr>ready_primap := (ready_primap k)(s := ready_primap k s AND NOT (PRIMAP_BIT pri))\<rparr>"

section \<open>The task to run\<close>

text \<open>The first entry of a queue; of an empty one, which is not searched, None.\<close>

definition first_of :: "nat list \<Rightarrow> nat option" where
  "first_of ts = (case ts of [] \<Rightarrow> None | t # _ \<Rightarrow> Some t)"

definition search_predtsk :: "nat \<Rightarrow> kernel \<Rightarrow> nat option" where
  "search_predtsk s k = first_of (queues k (Ready s (primap_search s k)))"

definition choose_schedtsk :: "kernel \<Rightarrow> nat option" where
  "choose_schedtsk k =
    (case predtsk k schedcb_kernel of
       Some t \<Rightarrow> (case predtsk k (twdsched k) of
           Some u \<Rightarrow> if priority (tcbs k u) < priority (tcbs k t) then Some u else Some t
         | None \<Rightarrow> Some t)
     | None \<Rightarrow> (case predtsk k (twdsched k) of
           Some u \<Rightarrow> Some u
         | None \<Rightarrow> predtsk k (idlesched k)))"

definition update_schedtsk :: "kernel \<Rightarrow> kernel" where
  "update_schedtsk k = k\<lparr>schedtsk := choose_schedtsk k\<rparr>"

definition set_predtsk :: "nat \<Rightarrow> nat option \<Rightarrow> kernel \<Rightarrow> kernel" where
  "set_predtsk s p k = k\<lparr>predtsk := (predtsk k)(s := p)\<rparr>"

definition update_if_dsp :: "kernel \<Rightarrow> kernel" where
  "update_if_dsp k = (if dspflg k then update_schedtsk k else k)"

definition make_runnable :: "nat \<Rightarrow> kernel \<Rightarrow> kernel" where
  "make_runnable t k =
    (let s = schedcb (tcbs k t);
         pri = priority (tcbs k t);
         k1 = primap_set pri s (set_queue (Ready s pri) (queues k (Ready s pri) @ [t]) k)
     in if (case predtsk k1 s of None \<Rightarrow> True | Some u \<Rightarrow> pri < priority (tcbs k1 u))
        then update_if_dsp (set_predtsk s (Some t) k1) else k1)"

definition make_non_runnable :: "nat \<Rightarrow> kernel \<Rightarrow> kernel" where
  "make_non_runnable t k =
    (let s = schedcb (tcbs k t);
         pri = priority (tcbs k t);
         k1 = delete_task t k
     in if queues k1 (Ready s pri) = [] then
          (let k2 = primap_clear pri s k1
           in if predtsk k2 s = Some t
              then update_if_dsp (set_predtsk s (if primap_empty s k2 then None else search_predtsk s k2) k2)
              else k2)
        else if predtsk k1 s = Some t
             then update_if_dsp (set_predtsk s (first_of (queues k1 (Ready s pri))) k1)
             else k1)"

definition make_dormant :: "nat \<Rightarrow> kernel \<Rightarrow> kernel" where
  "make_dormant t k = upd_tcb t (\<lambda>p. p\<lparr>tstat := TS_DORMANT, svclevel := 0, bpriority := ipriority p,
     priority := ipriority p, wupque := False, raster := False, enater := True\<rparr>) k"

text \<open>\<open>activate_context\<close>, which sets up the stack of the task, is part of the processor's code.\<close>

definition make_active :: "nat \<Rightarrow> kernel \<Rightarrow> kernel" where
  "make_active t k = make_runnable t (upd_tcb t (\<lambda>p. p\<lparr>tstat := TS_RUNNABLE\<rparr>) k)"

definition rotate_ready_queue :: "nat \<Rightarrow> nat \<Rightarrow> kernel \<Rightarrow> kernel" where
  "rotate_ready_queue pri s k =
    (case queues k (Ready s pri) of
       t # u # ts \<Rightarrow>
         (let k1 = set_queue (Ready s pri) (u # ts @ [t]) k
          in if predtsk k1 s = Some t then update_if_dsp (set_predtsk s (Some u) k1) else k1)
     | _ \<Rightarrow> k)"

text \<open>Insertion by priority behind the tasks of the same priority (\<open>wait.h\<close>).\<close>

definition queue_insert_tpri :: "nat list \<Rightarrow> nat \<Rightarrow> kernel \<Rightarrow> nat list" where
  "queue_insert_tpri ts t k =
    (let before = \<lambda>u. \<not> priority (tcbs k t) < priority (tcbs k u)
     in takeWhile before ts @ t # dropWhile before ts)"

text \<open>\<open>tpri q\<close>: the object of queue \<open>q\<close> has the attribute \<open>TA_TPRI\<close>.\<close>

definition wobj_change_priority :: "(qid \<Rightarrow> bool) \<Rightarrow> qid \<Rightarrow> nat \<Rightarrow> kernel \<Rightarrow> kernel" where
  "wobj_change_priority tpri q t k =
    (if tpri q then (let k1 = delete_task t k in set_queue q (queue_insert_tpri (queues k1 q) t k1) k1) else k)"

text \<open>A task that can run goes from its ready queue to the one of its new priority.\<close>

definition requeue_ready :: "nat \<Rightarrow> nat \<Rightarrow> nat \<Rightarrow> bool \<Rightarrow> kernel \<Rightarrow> kernel" where
  "requeue_ready t oldpri newpri mtxmode k =
    (let s = schedcb (tcbs k t);
         k1 = delete_task t k;
         k2 = (if queues k1 (Ready s oldpri) = [] then primap_clear oldpri s k1 else k1);
         ts = queues k2 (Ready s newpri)
     in primap_set newpri s (set_queue (Ready s newpri) (if mtxmode then t # ts else ts @ [t]) k2))"

definition change_priority :: "(qid \<Rightarrow> bool) \<Rightarrow> nat \<Rightarrow> nat \<Rightarrow> bool \<Rightarrow> kernel \<Rightarrow> kernel" where
  "change_priority tpri t newpri mtxmode k =
    (let s = schedcb (tcbs k t);
         oldpri = priority (tcbs k t);
         k1 = upd_tcb t (\<lambda>p. p\<lparr>priority := newpri\<rparr>) k
     in if TSTAT_RUNNABLE (tstat (tcbs k1 t)) then
          (let k4 = requeue_ready t oldpri newpri mtxmode k1
           in if predtsk k4 s = Some t then
                update_if_dsp (if newpri \<ge> oldpri then set_predtsk s (search_predtsk s k4) k4 else k4)
              else if (case predtsk k4 s of None \<Rightarrow> False | Some u \<Rightarrow>
                        if mtxmode then newpri \<le> priority (tcbs k4 u) else newpri < priority (tcbs k4 u))
                   then update_if_dsp (set_predtsk s (Some t) k4)
                   else k4)
        else if TSTAT_WAIT_WOBJCB (tstat (tcbs k1 t)) then
          (case wi_wobj (winfo (tcbs k1 t)) of None \<Rightarrow> k1 | Some q \<Rightarrow> wobj_change_priority tpri q t k1)
        else k1)"

section \<open>The bitmap search\<close>

definition low_bit :: "nat \<Rightarrow> nat \<Rightarrow> bool" where
  "low_bit v n \<longleftrightarrow> n < 4 \<and> odd (v div 2 ^ n) \<and> list_all (\<lambda>m. even (v div 2 ^ m)) [0..<n]"

lemma table_low_bit: "list_all (\<lambda>v. low_bit v (bitmap_search_table ! (v - 1))) [1..<16]"
  by code_simp

lemma and_mask_zero: "x AND mask k = 0 \<longleftrightarrow> (\<forall>n<k. \<not> bit x n)" for x :: "16 word"
proof -
  have e: "x AND mask k = take_bit k x" by (simp add: take_bit_eq_mask)
  show ?thesis unfolding e
  proof
    assume "take_bit k x = 0"
    then have "\<not> bit (take_bit k x) n" for n by simp
    then show "\<forall>n<k. \<not> bit x n" by (auto simp: bit_take_bit_iff)
  next
    assume "\<forall>n<k. \<not> bit x n"
    then show "take_bit k x = 0" by (intro bit_eqI) (simp add: bit_take_bit_iff)
  qed
qed

lemma nibble_bits:
  fixes x :: "16 word"
  assumes "\<not> (\<forall>n<4. \<not> bit x n)"
  defines "i \<equiv> bitmap_search_table ! (unat (x AND 15) - 1)"
  shows "i < 4" "bit x i" "m < i \<Longrightarrow> \<not> bit x m"
proof -
  have e: "x AND 15 = take_bit 4 x" by (simp add: take_bit_eq_mask mask_eq_exp_minus_1)
  then have u: "unat (x AND 15) = take_bit 4 (unat x)" by (simp add: unsigned_take_bit_eq)
  have "x AND 15 \<noteq> 0" using and_mask_zero [of x 4] assms(1) by (simp add: mask_eq_exp_minus_1)
  then have "unat (x AND 15) \<noteq> 0" by (simp add: unat_eq_zero)
  moreover have "unat (x AND 15) < 16" unfolding u by (simp add: take_bit_eq_mod)
  ultimately have "unat (x AND 15) \<in> set [1..<16]" by simp
  with table_low_bit have low: "low_bit (unat (x AND 15)) i" unfolding i_def by (simp only: list_all_iff)
  have b: "bit x n \<longleftrightarrow> odd (unat (x AND 15) div 2 ^ n)" if "n < 4" for n
  proof -
    have "bit (unat (x AND 15)) n = bit x n" unfolding u using that by (simp add: bit_take_bit_iff bit_unsigned_iff)
    then show ?thesis by (simp add: bit_iff_odd)
  qed
  from low show i: "i < 4" by (simp add: low_bit_def)
  from low b [OF i] show "bit x i" by (simp add: low_bit_def)
  show "\<not> bit x m" if "m < i"
    using low b [of m] i that by (simp add: low_bit_def list_all_iff)
qed

lemma bitmap_search_lowest:
  assumes "b \<noteq> 0"
  shows "bitmap_search b < 16" "bit b (bitmap_search b)" "m < bitmap_search b \<Longrightarrow> \<not> bit b m"
proof -
  obtain n where n: "bit b n" using assms by (auto simp: bit_eq_iff)
  then have n16: "n < 16" using bit_imp_le_length [of b n] by simp
  obtain b1 k where b1: "(if b AND 0x00ff = 0 then (drop_bit 8 b, 8) else (b, 0 :: nat)) = (b1, k)" by fastforce
  have m8: "b AND 0x00ff = 0 \<longleftrightarrow> (\<forall>n<8. \<not> bit b n)" using and_mask_zero [of b 8] by (simp add: mask_eq_exp_minus_1)
  have s1: "k \<le> 8" "\<And>j. bit b1 j = bit b (k + j)" "\<And>j. j < k \<Longrightarrow> \<not> bit b j"
    using b1 m8 by (auto simp: bit_drop_bit_eq split: if_splits)
  have e1: "\<exists>j<8. bit b1 j"
  proof (cases "b AND 0x00ff = 0")
    case True
    with m8 n have "8 \<le> n" by (meson not_less)
    with s1(2) [of "n - 8"] n n16 b1 True show ?thesis by (intro exI [of _ "n - 8"]) auto
  next
    case False
    then have "b1 = b" using b1 by simp
    with m8 False show ?thesis by blast
  qed
  obtain b2 l where b2: "(if b1 AND 0x0f = 0 then (drop_bit 4 b1, k + 4) else (b1, k)) = (b2, l)" by fastforce
  have m4: "b1 AND 0x0f = 0 \<longleftrightarrow> (\<forall>n<4. \<not> bit b1 n)" using and_mask_zero [of b1 4] by (simp add: mask_eq_exp_minus_1)
  have s2: "l \<le> 12" "\<And>j. bit b2 j = bit b (l + j)" "\<And>j. j < l \<Longrightarrow> \<not> bit b j"
  proof -
    show "l \<le> 12" using b2 s1(1) by (auto split: if_splits)
    show "bit b2 j = bit b (l + j)" for j using b2 s1(2) by (auto simp: bit_drop_bit_eq add.assoc split: if_splits)
    show "\<not> bit b j" if "j < l" for j
    proof (cases "j < k")
      case False
      then have "\<not> bit b1 (j - k)" "k + (j - k) = j" using b2 m4 that by (auto split: if_splits)
      with s1(2) [of "j - k"] show ?thesis by simp
    qed (rule s1(3))
  qed
  have "\<not> (\<forall>j<4. \<not> bit b2 j)"
  proof (cases "b1 AND 0x0f = 0")
    case True
    obtain j where j: "j < 8" "bit b1 j" using e1 by blast
    with True m4 have "4 \<le> j" by (meson not_less)
    with j b2 True have "bit b2 (j - 4)" "j - 4 < 4" by (auto simp: bit_drop_bit_eq)
    then show ?thesis by blast
  next
    case False
    then have "b2 = b1" using b2 by simp
    with m4 False show ?thesis by blast
  qed
  note nb = nibble_bits [OF this]
  have r: "bitmap_search b = l + bitmap_search_table ! (unat (b2 AND 15) - 1)"
    unfolding bitmap_search_def b1 Let_def prod.case b2 by simp
  show "bitmap_search b < 16" using nb(1) s2(1) r by simp
  show "bit b (bitmap_search b)" using nb(2) s2(2) r by simp
  show "\<not> bit b m" if "m < bitmap_search b"
  proof (cases "m < l")
    case False
    then have "\<not> bit b2 (m - l)" "l + (m - l) = m" using nb(3) [of "m - l"] that r by auto
    with s2(2) [of "m - l"] show ?thesis by simp
  qed (rule s2(3))
qed

end
