(* ===== verification/Kernel_Sched.thy ===== *)
theory Kernel_Sched
  imports Kernel_Task
begin

text \<open>
  The invariant of the scheduler: every task is in exactly the queue its state calls for, the
  bitmap of a scheduling unit shows which ready queues hold tasks, the unit's task to run is the
  first of its most urgent queue, and the task the system is to run is the one the units give.
\<close>

section \<open>The first task of a scheduling unit\<close>

definition is_first :: "(nat \<Rightarrow> nat list) \<Rightarrow> nat option \<Rightarrow> bool" where
  "is_first Q x \<longleftrightarrow> (case x of
     None \<Rightarrow> \<forall>p<16. Q p = []
   | Some t \<Rightarrow> \<exists>p<16. \<exists>ts. Q p = t # ts \<and> (\<forall>r<p. Q r = []))"

lemma is_first_simps [simp]:
  "is_first Q None \<longleftrightarrow> (\<forall>p<16. Q p = [])"
  "is_first Q (Some t) \<longleftrightarrow> (\<exists>p<16. \<exists>ts. Q p = t # ts \<and> (\<forall>r<p. Q r = []))"
  by (simp_all add: is_first_def)

lemma first_append:
  assumes "is_first Q x" "pri < 16" "\<And>u p. x = Some u \<Longrightarrow> u \<in> set (Q p) \<Longrightarrow> p = pr u"
  shows "is_first (Q(pri := Q pri @ [t])) (if (case x of None \<Rightarrow> True | Some u \<Rightarrow> pri < pr u) then Some t else x)"
proof (cases x)
  case None
  with assms show ?thesis by (auto intro!: exI [of _ pri])
next
  case (Some u)
  with assms(1) obtain p ts where p: "p < 16" "Q p = u # ts" "\<forall>r<p. Q r = []" by auto
  with assms(3) [OF Some, of p] have pu: "p = pr u" by simp
  show ?thesis
  proof (cases "pri < pr u")
    case True
    then have "\<forall>r<pri. (Q(pri := Q pri @ [t])) r = []" "Q pri = []" using p pu by auto
    with True Some assms(2) show ?thesis by (auto intro!: exI [of _ pri])
  next
    case False
    with p pu Some show ?thesis by (auto intro!: exI [of _ p])
  qed
qed

lemma first_cons:
  assumes "is_first Q x" "pri < 16" "\<And>u p. x = Some u \<Longrightarrow> u \<in> set (Q p) \<Longrightarrow> p = pr u"
  shows "is_first (Q(pri := t # Q pri)) (if (case x of None \<Rightarrow> True | Some u \<Rightarrow> pri \<le> pr u) then Some t else x)"
proof (cases x)
  case None
  with assms show ?thesis by (auto intro!: exI [of _ pri])
next
  case (Some u)
  with assms(1) obtain p ts where p: "p < 16" "Q p = u # ts" "\<forall>r<p. Q r = []" by auto
  with assms(3) [OF Some, of p] have pu: "p = pr u" by simp
  show ?thesis
  proof (cases "pri \<le> pr u")
    case True
    then have "\<forall>r<pri. (Q(pri := t # Q pri)) r = []" using p pu by auto
    with True Some assms(2) show ?thesis by (auto intro!: exI [of _ pri])
  next
    case False
    with p pu Some show ?thesis by (auto intro!: exI [of _ p])
  qed
qed

lemma first_remove:
  assumes "is_first Q x" "x \<noteq> Some t"
  shows "is_first (\<lambda>p. removeAll t (Q p)) x"
proof (cases x)
  case (Some u)
  with assms(1) obtain p ts where p: "p < 16" "Q p = u # ts" "\<forall>r<p. Q r = []" by auto
  with Some assms(2) show ?thesis by (auto intro!: exI [of _ p])
qed (use assms in auto)

lemma first_successor:
  assumes "is_first Q (Some t)" "t \<in> set (Q pri)" "\<And>p. t \<in> set (Q p) \<Longrightarrow> p = pri" "removeAll t (Q pri) \<noteq> []"
  shows "is_first (\<lambda>p. removeAll t (Q p)) (first_of (removeAll t (Q pri)))"
proof -
  from assms(1) obtain p ts where p: "p < 16" "Q p = t # ts" "\<forall>r<p. Q r = []" by auto
  with assms(3) [of p] have "p = pri" by simp
  with p assms(4) show ?thesis by (auto simp: first_of_def neq_Nil_conv intro!: exI [of _ p])
qed

lemma first_search:
  assumes "\<forall>p<16. bit b p \<longleftrightarrow> Q p \<noteq> []"
  shows "is_first Q (if b = 0 then None else first_of (Q (bitmap_search b)))"
proof (cases "b = 0")
  case True
  with assms show ?thesis by auto
next
  case False
  note s = bitmap_search_lowest [OF False]
  from s(1,2) assms have "Q (bitmap_search b) \<noteq> []" by blast
  then obtain t ts where q: "Q (bitmap_search b) = t # ts" by (cases "Q (bitmap_search b)") auto
  have "Q r = []" if "r < bitmap_search b" for r using s(1) s(3) [OF that] assms that by auto
  with False q s(1) show ?thesis by (auto simp: first_of_def)
qed

section \<open>The invariant\<close>

definition unit_ok :: "kernel \<Rightarrow> nat \<Rightarrow> bool" where
  "unit_ok k s \<longleftrightarrow> (\<forall>p<16. bit (ready_primap k s) p \<longleftrightarrow> queues k (Ready s p) \<noteq> []) \<and>
     is_first (\<lambda>p. queues k (Ready s p)) (predtsk k s)"

text \<open>The queue a task belongs in.\<close>

definition place :: "tcb \<Rightarrow> qid option" where
  "place p = (if TSTAT_RUNNABLE (tstat p) then Some (Ready (schedcb p) (priority p))
     else if TSTAT_WAIT_WOBJ (tstat p) then wi_wobj (winfo p) else None)"

definition wait_state :: "qid \<Rightarrow> tstat_t" where
  "wait_state q = (case q of Ready s p \<Rightarrow> TS_RUNNABLE | Sem_wait i \<Rightarrow> TS_WAITING_SEM | Flg_wait i \<Rightarrow> TS_WAITING_FLG
     | Dtq_swait i \<Rightarrow> TS_WAITING_SDTQ | Dtq_rwait i \<Rightarrow> TS_WAITING_RDTQ)"

definition is_ready :: "qid \<Rightarrow> bool" where
  "is_ready q \<longleftrightarrow> (case q of Ready s p \<Rightarrow> True | _ \<Rightarrow> False)"

lemma is_ready_simps [simp]:
  "is_ready (Ready s p)" "\<not> is_ready (Sem_wait i)" "\<not> is_ready (Flg_wait i)" "\<not> is_ready (Dtq_swait i)" "\<not> is_ready (Dtq_rwait i)"
  by (simp_all add: is_ready_def)

text \<open>
  A task that waits for an object is in the state of the queue it waits in, suspended or not, and
  its information block holds no error code yet.
\<close>

definition legal_tstat :: "tstat_t \<Rightarrow> bool" where
  "legal_tstat s \<longleftrightarrow> s \<in> {TS_DORMANT, TS_RUNNABLE, TS_SUSPENDED} \<or>
     s AND NOT TS_SUSPENDED \<in> {TS_WAITING_SLP, TS_WAITING_DLY, TS_WAITING_RDTQ, TS_WAITING_SEM, TS_WAITING_FLG, TS_WAITING_SDTQ}"

definition tcb_ok :: "tcb \<Rightarrow> bool" where
  "tcb_ok p \<longleftrightarrow> priority p < 16 \<and> ipriority p < 16 \<and> legal_tstat (tstat p) \<and>
     (\<not> TSTAT_RUNNABLE (tstat p) \<and> TSTAT_WAIT_WOBJ (tstat p) \<longrightarrow>
       (\<exists>q. wi_wobj (winfo p) = Some q \<and> \<not> is_ready q \<and> tstat p AND NOT TS_SUSPENDED = wait_state q \<and>
         (\<exists>e. wi_union (winfo p) = P_tmevtb e)))"

text \<open>All of it but for task \<open>t\<close>, which is in the queue \<open>x\<close>, or in none.\<close>

definition base_ok :: "kernel \<Rightarrow> nat \<Rightarrow> qid option \<Rightarrow> bool" where
  "base_ok k t x \<longleftrightarrow> (\<forall>s. unit_ok k s) \<and> (\<forall>q. distinct (queues k q)) \<and>
     (\<forall>u q. u \<noteq> t \<longrightarrow> (u \<in> set (queues k q) \<longleftrightarrow> place (tcbs k u) = Some q)) \<and>
     (\<forall>u. u \<noteq> t \<longrightarrow> tcb_ok (tcbs k u)) \<and>
     (\<forall>q. t \<in> set (queues k q) \<longleftrightarrow> x = Some q) \<and>
     priority (tcbs k t) < 16 \<and> (dspflg k \<longrightarrow> schedtsk k = choose_schedtsk k)"

definition kernel_ok :: "kernel \<Rightarrow> bool" where
  "kernel_ok k \<longleftrightarrow> (\<forall>s. unit_ok k s) \<and> (\<forall>q. distinct (queues k q)) \<and>
     (\<forall>u q. u \<in> set (queues k q) \<longleftrightarrow> place (tcbs k u) = Some q) \<and> (\<forall>u. tcb_ok (tcbs k u)) \<and>
     (dspflg k \<longrightarrow> schedtsk k = choose_schedtsk k)"

lemma tcb_ok_priority: "tcb_ok p \<Longrightarrow> priority p < 16"
  by (simp add: tcb_ok_def)

lemma kernel_ok_base: "kernel_ok k \<longleftrightarrow> base_ok k t (place (tcbs k t)) \<and> tcb_ok (tcbs k t)"
  unfolding kernel_ok_def base_ok_def by (intro iffI; metis tcb_ok_priority)

lemma base_unit: "base_ok k t x \<Longrightarrow> unit_ok k s"
  by (simp add: base_ok_def)

lemma unit_cong:
  "(\<And>p. queues k' (Ready s p) = queues k (Ready s p)) \<Longrightarrow> ready_primap k' s = ready_primap k s \<Longrightarrow> predtsk k' s = predtsk k s \<Longrightarrow>
   unit_ok k' s = unit_ok k s"
  by (simp add: unit_ok_def)

text \<open>The task to run of a unit has the priority of its queue.\<close>

lemma member_priority:
  assumes "base_ok k t x" "u \<noteq> t" "u \<in> set (queues k (Ready s p))"
  shows "p = priority (tcbs k u)" "schedcb (tcbs k u) = s"
  using assms unfolding base_ok_def by (auto simp: place_def tcb_ok_def split: if_splits)

lemma choose_cong:
  assumes "\<And>s u. predtsk k s = Some u \<Longrightarrow> priority (tcbs k' u) = priority (tcbs k u)" "predtsk k' = predtsk k"
    "twdsched k' = twdsched k" "idlesched k' = idlesched k"
  shows "choose_schedtsk k' = choose_schedtsk k"
  using assms(1) [of schedcb_kernel] assms(1) [of "twdsched k"]
  by (simp add: choose_schedtsk_def assms(2-4) split: option.split)

section \<open>The operations keep it\<close>

lemma sched_upd_simps [simp]:
  "queues (primap_set p s k) = queues k" "tcbs (primap_set p s k) = tcbs k" "predtsk (primap_set p s k) = predtsk k"
  "queues (primap_clear p s k) = queues k" "tcbs (primap_clear p s k) = tcbs k" "predtsk (primap_clear p s k) = predtsk k"
  "queues (set_queue q ts k) = (queues k)(q := ts)" "tcbs (set_queue q ts k) = tcbs k" "predtsk (set_queue q ts k) = predtsk k"
  "ready_primap (set_queue q ts k) = ready_primap k" "dspflg (set_queue q ts k) = dspflg k"
  "queues (delete_task t k) = (\<lambda>q. removeAll t (queues k q))" "tcbs (delete_task t k) = tcbs k"
  "predtsk (delete_task t k) = predtsk k" "ready_primap (delete_task t k) = ready_primap k" "dspflg (delete_task t k) = dspflg k"
  "queues (set_predtsk s x k) = queues k" "tcbs (set_predtsk s x k) = tcbs k" "ready_primap (set_predtsk s x k) = ready_primap k"
  "predtsk (set_predtsk s x k) = (predtsk k)(s := x)" "dspflg (set_predtsk s x k) = dspflg k"
  "dspflg (primap_set p s k) = dspflg k" "dspflg (primap_clear p s k) = dspflg k"
  "schedtsk (set_queue q ts k) = schedtsk k" "schedtsk (delete_task t k) = schedtsk k"
  "schedtsk (primap_set p s k) = schedtsk k" "schedtsk (primap_clear p s k) = schedtsk k"
  "twdsched (set_queue q ts k) = twdsched k" "twdsched (delete_task t k) = twdsched k"
  "twdsched (primap_set p s k) = twdsched k" "twdsched (primap_clear p s k) = twdsched k"
  "idlesched (set_queue q ts k) = idlesched k" "idlesched (delete_task t k) = idlesched k"
  "idlesched (primap_set p s k) = idlesched k" "idlesched (primap_clear p s k) = idlesched k"
  "twdsched (set_predtsk s x k) = twdsched k" "idlesched (set_predtsk s x k) = idlesched k"
  "queues (upd_tcb t f k) = queues k" "ready_primap (upd_tcb t f k) = ready_primap k" "predtsk (upd_tcb t f k) = predtsk k"
  "dspflg (upd_tcb t f k) = dspflg k" "schedtsk (upd_tcb t f k) = schedtsk k"
  "twdsched (upd_tcb t f k) = twdsched k" "idlesched (upd_tcb t f k) = idlesched k"
  "tcbs (upd_tcb t f k) = (tcbs k)(t := f (tcbs k t))"
  "queues (update_if_dsp k) = queues k" "tcbs (update_if_dsp k) = tcbs k" "predtsk (update_if_dsp k) = predtsk k"
  "ready_primap (update_if_dsp k) = ready_primap k" "dspflg (update_if_dsp k) = dspflg k"
  "twdsched (update_if_dsp k) = twdsched k" "idlesched (update_if_dsp k) = idlesched k"
  by (simp_all add: primap_set_def primap_clear_def set_queue_def delete_task_def set_predtsk_def upd_tcb_def
      update_if_dsp_def update_schedtsk_def)

lemma primap_fields [simp]:
  "ready_primap (primap_set p s k) = (ready_primap k)(s := ready_primap k s OR PRIMAP_BIT p)"
  "ready_primap (primap_clear p s k) = (ready_primap k)(s := ready_primap k s AND NOT (PRIMAP_BIT p))"
  by (simp_all add: primap_set_def primap_clear_def)

lemma bit_primap: "r < 16 \<Longrightarrow> bit (PRIMAP_BIT p) r \<longleftrightarrow> r = p"
  by (auto simp: PRIMAP_BIT_def bit_simps)

lemma update_if_dsp_sched: "dspflg k \<Longrightarrow> schedtsk (update_if_dsp k) = choose_schedtsk (update_if_dsp k)"
proof -
  have "choose_schedtsk (update_schedtsk k) = choose_schedtsk k"
    by (rule choose_cong) (simp_all add: update_schedtsk_def)
  moreover assume "dspflg k"
  ultimately show ?thesis by (simp add: update_if_dsp_def) (simp add: update_schedtsk_def)
qed

lemma update_if_sched:
  assumes "\<not> c \<Longrightarrow> dspflg k \<Longrightarrow> schedtsk k = choose_schedtsk k"
  shows "dspflg (if c then update_if_dsp k else k) \<longrightarrow>
    schedtsk (if c then update_if_dsp k else k) = choose_schedtsk (if c then update_if_dsp k else k)"
  using assms update_if_dsp_sched [of k] by simp

lemma unit_update_if_dsp [simp]: "unit_ok (update_if_dsp k) s = unit_ok k s"
  by (rule unit_cong) simp_all

lemma unit_update_if: "unit_ok (if c then update_if_dsp k else k) s = unit_ok k s"
  by simp

lemma base_upd_same:
  assumes "base_ok k t x" "priority (f (tcbs k t)) = priority (tcbs k t)"
  shows "base_ok (upd_tcb t f k) t x"
proof -
  have "unit_ok (upd_tcb t f k) s = unit_ok k s" for s by (rule unit_cong) simp_all
  moreover have "choose_schedtsk (upd_tcb t f k) = choose_schedtsk k" by (rule choose_cong) (simp_all add: assms(2))
  ultimately show ?thesis using assms unfolding base_ok_def by auto
qed

lemma base_make_runnable:
  assumes b: "base_ok k t None"
  shows "base_ok (make_runnable t k) t (Some (Ready (schedcb (tcbs k t)) (priority (tcbs k t))))"
    "tcbs (make_runnable t k) = tcbs k"
proof -
  let ?s = "schedcb (tcbs k t)" and ?p = "priority (tcbs k t)"
  let ?k1 = "primap_set ?p ?s (set_queue (Ready ?s ?p) (queues k (Ready ?s ?p) @ [t]) k)"
  let ?c = "case predtsk k ?s of None \<Rightarrow> True | Some u \<Rightarrow> ?p < priority (tcbs k u)"
  let ?k2 = "if ?c then set_predtsk ?s (Some t) ?k1 else ?k1"
  have k': "make_runnable t k = (if ?c then update_if_dsp ?k2 else ?k2)"
    by (simp add: make_runnable_def Let_def split: option.split)
  show "tcbs (make_runnable t k) = tcbs k" unfolding k' by simp
  have p: "?p < 16" and nt: "t \<notin> set (queues k q)" for q using b by (simp_all add: base_ok_def)
  have un: "unit_ok ?k2 s" for s
  proof (cases "s = ?s")
    case False
    have "unit_ok ?k2 s = unit_ok k s" by (rule unit_cong) (use False in auto)
    with base_unit [OF b] show ?thesis by simp
  next
    case True
    have u: "unit_ok k s" by (rule base_unit [OF b])
    have pr: "r = priority (tcbs k u)" if "predtsk k s = Some u" "u \<in> set (queues k (Ready s r))" for u r
      using member_priority(1) [OF b _ that(2)] nt that(2) by metis
    have fst: "is_first ((\<lambda>r. queues k (Ready s r))(?p := queues k (Ready s ?p) @ [t]))
        (if (case predtsk k s of None \<Rightarrow> True | Some u \<Rightarrow> ?p < priority (tcbs k u)) then Some t else predtsk k s)"
      by (rule first_append [OF _ p]) (use u pr in \<open>auto simp: unit_ok_def\<close>)
    have "(\<lambda>r. queues ?k2 (Ready s r)) = (\<lambda>r. queues k (Ready s r))(?p := queues k (Ready s ?p) @ [t])"
      using True by (auto simp: fun_eq_iff)
    moreover have "predtsk ?k2 s = (if (case predtsk k s of None \<Rightarrow> True | Some u \<Rightarrow> ?p < priority (tcbs k u)) then Some t else predtsk k s)"
      using True by simp
    moreover have "\<forall>r<16. bit (ready_primap ?k2 s) r \<longleftrightarrow> queues ?k2 (Ready s r) \<noteq> []"
      using u True by (auto simp: unit_ok_def bit_or_iff bit_primap)
    ultimately show ?thesis using fst unfolding unit_ok_def by simp
  qed
  have q: "queues (make_runnable t k) = (queues k)(Ready ?s ?p := queues k (Ready ?s ?p) @ [t])"
    unfolding k' by simp
  have "unit_ok (make_runnable t k) s" for s
    unfolding k' unit_update_if by (rule un)
  moreover have "distinct (queues (make_runnable t k) r)" for r
    unfolding q using b nt by (simp add: base_ok_def)
  moreover have "dspflg (make_runnable t k) \<longrightarrow> schedtsk (make_runnable t k) = choose_schedtsk (make_runnable t k)"
  proof (cases ?c)
    case True
    then show ?thesis unfolding k' using update_if_dsp_sched [of ?k2] by auto
  next
    case False
    have "choose_schedtsk ?k1 = choose_schedtsk k" by (rule choose_cong) simp_all
    with False b show ?thesis unfolding k' by (auto simp: base_ok_def)
  qed
  moreover have "tcbs (make_runnable t k) = tcbs k" unfolding k' by simp
  ultimately show "base_ok (make_runnable t k) t (Some (Ready ?s ?p))"
    using b nt unfolding base_ok_def q by auto
qed

lemma delete_set: "t \<notin> set (queues k q) \<Longrightarrow> queues (delete_task t k) q = queues k q"
  by simp

lemma base_make_non_runnable:
  assumes b: "base_ok k t (Some (Ready (schedcb (tcbs k t)) (priority (tcbs k t))))"
  shows "base_ok (make_non_runnable t k) t None" "tcbs (make_non_runnable t k) = tcbs k"
    "queues (make_non_runnable t k) = (\<lambda>q. removeAll t (queues k q))"
proof -
  let ?s = "schedcb (tcbs k t)" and ?p = "priority (tcbs k t)"
  let ?k1 = "delete_task t k"
  let ?e = "queues ?k1 (Ready ?s ?p) = []"
  let ?k2 = "if ?e then primap_clear ?p ?s ?k1 else ?k1"
  let ?n = "if ?e then (if primap_empty ?s ?k2 then None else search_predtsk ?s ?k2) else first_of (queues ?k1 (Ready ?s ?p))"
  let ?c = "predtsk k ?s = Some t"
  let ?k3 = "if ?c then set_predtsk ?s ?n ?k2 else ?k2"
  have k': "make_non_runnable t k = (if ?c then update_if_dsp ?k3 else ?k3)"
    by (simp add: make_non_runnable_def Let_def)
  have tin: "t \<in> set (queues k q) \<longleftrightarrow> q = Ready ?s ?p" for q using b by (auto simp: base_ok_def)
  show tc: "tcbs (make_non_runnable t k) = tcbs k" and q: "queues (make_non_runnable t k) = (\<lambda>q. removeAll t (queues k q))"
    unfolding k' by simp_all
  have p: "?p < 16" using b by (simp add: base_ok_def)
  have u: "unit_ok k s" for s by (rule base_unit [OF b])
  have other: "removeAll t (queues k (Ready ?s r)) = queues k (Ready ?s r)" if "r \<noteq> ?p" for r
    using tin [of "Ready ?s r"] that by (simp add: removeAll_id)
  have bits: "\<forall>r<16. bit (ready_primap ?k2 ?s) r \<longleftrightarrow> removeAll t (queues k (Ready ?s r)) \<noteq> []"
  proof (intro allI impI)
    fix r :: nat assume r: "r < 16"
    have ur: "bit (ready_primap k ?s) r \<longleftrightarrow> queues k (Ready ?s r) \<noteq> []" using u [of ?s] r by (simp add: unit_ok_def)
    show "bit (ready_primap ?k2 ?s) r \<longleftrightarrow> removeAll t (queues k (Ready ?s r)) \<noteq> []"
    proof (cases "r = ?p")
      case True
      have "queues k (Ready ?s ?p) \<noteq> []" using tin [of "Ready ?s ?p"] by auto
      with True ur r show ?thesis by (simp add: bit_and_iff bit_not_iff bit_primap)
    next
      case False
      with ur r other [OF False] show ?thesis by (simp add: bit_and_iff bit_not_iff bit_primap bit_imp_le_length)
    qed
  qed
  have fst: "is_first (\<lambda>r. removeAll t (queues k (Ready ?s r))) (if ?c then ?n else predtsk k ?s)"
  proof (cases ?c)
    case False
    then show ?thesis using first_remove [of "\<lambda>r. queues k (Ready ?s r)" "predtsk k ?s" t] u [of ?s] by (simp add: unit_ok_def)
  next
    case c: True
    show ?thesis
    proof (cases ?e)
      case True
      have "?n = (if ready_primap ?k2 ?s = 0 then None
          else first_of (removeAll t (queues k (Ready ?s (bitmap_search (ready_primap ?k2 ?s))))))"
        using True by (simp add: primap_empty_def search_predtsk_def primap_search_def)
      with first_search [OF bits] c show ?thesis by simp
    next
      case False
      have "is_first (\<lambda>r. queues k (Ready ?s r)) (Some t)" using u [of ?s] c by (simp add: unit_ok_def)
      then have "is_first (\<lambda>r. removeAll t (queues k (Ready ?s r))) (first_of (removeAll t (queues k (Ready ?s ?p))))"
      proof (rule first_successor)
        show "t \<in> set (queues k (Ready ?s ?p))" using tin [of "Ready ?s ?p"] by blast
        show "removeAll t (queues k (Ready ?s ?p)) \<noteq> []" using False by simp
        show "r = ?p" if "t \<in> set (queues k (Ready ?s r))" for r using tin [of "Ready ?s r"] that by blast
      qed
      moreover have "?n = first_of (removeAll t (queues k (Ready ?s ?p)))" using False by simp
      ultimately show ?thesis using c by simp
    qed
  qed
  have un: "unit_ok ?k3 s" for s
  proof (cases "s = ?s")
    case False
    then have "t \<notin> set (queues k (Ready s r))" for r using tin by auto
    then have "unit_ok ?k3 s = unit_ok k s" by (intro unit_cong) (use False in auto)
    with u show ?thesis by simp
  next
    case True
    have qs: "queues ?k3 (Ready s r) = removeAll t (queues k (Ready ?s r))" for r using True by simp
    have rp: "ready_primap ?k3 s = ready_primap ?k2 ?s" using True by simp
    have pt: "predtsk ?k3 s = (if ?c then ?n else predtsk k ?s)" using True by simp
    show ?thesis unfolding unit_ok_def qs rp pt by (rule conjI [OF bits fst])
  qed
  have "unit_ok (make_non_runnable t k) s" for s
    unfolding k' unit_update_if by (rule un)
  moreover have "dspflg (make_non_runnable t k) \<longrightarrow> schedtsk (make_non_runnable t k) = choose_schedtsk (make_non_runnable t k)"
  proof (cases ?c)
    case True
    then show ?thesis unfolding k' using update_if_dsp_sched [of ?k3] by auto
  next
    case False
    have "choose_schedtsk ?k2 = choose_schedtsk k" by (rule choose_cong) simp_all
    with False b show ?thesis unfolding k' by (auto simp: base_ok_def)
  qed
  moreover have "distinct (queues (make_non_runnable t k) r)" for r
    unfolding q using b by (simp add: base_ok_def distinct_removeAll)
  ultimately show "base_ok (make_non_runnable t k) t None"
    using b unfolding base_ok_def q tc by auto
qed

section \<open>Waiting queues\<close>

lemma base_delete_wait:
  assumes "base_ok k t x" "\<forall>q. x = Some q \<longrightarrow> \<not> is_ready q"
  shows "base_ok (delete_task t k) t None"
proof -
  have nr: "t \<notin> set (queues k (Ready s p))" for s p using assms by (auto simp: base_ok_def)
  have "unit_ok (delete_task t k) s = unit_ok k s" for s by (rule unit_cong) (use nr in \<open>simp_all add: removeAll_id\<close>)
  moreover have "choose_schedtsk (delete_task t k) = choose_schedtsk k" by (rule choose_cong) simp_all
  ultimately show ?thesis using assms unfolding base_ok_def by (auto simp: distinct_removeAll)
qed

lemma base_insert_wait:
  assumes "base_ok k t None" "\<not> is_ready q" "set ts = insert t (set (queues k q))" "distinct ts"
  shows "base_ok (set_queue q ts k) t (Some q)"
proof -
  have "unit_ok (set_queue q ts k) s = unit_ok k s" for s by (rule unit_cong) (use assms(2) in auto)
  moreover have "choose_schedtsk (set_queue q ts k) = choose_schedtsk k" by (rule choose_cong) simp_all
  ultimately show ?thesis using assms unfolding base_ok_def by auto
qed

lemma insert_tpri_set:
  "set (queue_insert_tpri ts t k) = insert t (set ts)"
  "t \<notin> set ts \<Longrightarrow> distinct ts \<Longrightarrow> distinct (queue_insert_tpri ts t k)"
proof -
  let ?P = "\<lambda>u. \<not> priority (tcbs k t) < priority (tcbs k u)"
  have e: "queue_insert_tpri ts t k = takeWhile ?P ts @ t # dropWhile ?P ts" by (simp add: queue_insert_tpri_def Let_def)
  have s: "set ts = set (takeWhile ?P ts) \<union> set (dropWhile ?P ts)"
    by (metis set_append takeWhile_dropWhile_id)
  show "set (queue_insert_tpri ts t k) = insert t (set ts)" unfolding e by (subst s) auto
  show "distinct (queue_insert_tpri ts t k)" if "t \<notin> set ts" "distinct ts"
  proof -
    have "distinct (takeWhile ?P ts @ dropWhile ?P ts)" using that(2) by simp
    then have "set (takeWhile ?P ts) \<inter> set (dropWhile ?P ts) = {}" by (simp only: distinct_append)
    then show ?thesis unfolding e using that s by (auto simp: distinct_takeWhile distinct_dropWhile)
  qed
qed

section \<open>Rotation and change of priority\<close>

lemma pred_member:
  assumes "unit_ok k s" "predtsk k s = Some u"
  obtains r where "r < 16" "u \<in> set (queues k (Ready s r))"
  using assms by (auto simp: unit_ok_def)

lemma rotate_kernel_ok:
  assumes k: "kernel_ok k"
  shows "kernel_ok (rotate_ready_queue pri s k)"
proof (cases "\<exists>t u ts. queues k (Ready s pri) = t # u # ts")
  case False
  then have "rotate_ready_queue pri s k = k" by (auto simp: rotate_ready_queue_def split: list.split)
  with k show ?thesis by simp
next
  case True
  then obtain t u ts where q: "queues k (Ready s pri) = t # u # ts" by blast
  let ?k1 = "set_queue (Ready s pri) (u # ts @ [t]) k"
  let ?c = "predtsk k s = Some t"
  let ?k2 = "if ?c then set_predtsk s (Some u) ?k1 else ?k1"
  have k': "rotate_ready_queue pri s k = (if ?c then update_if_dsp ?k2 else ?k2)"
    using q by (simp add: rotate_ready_queue_def Let_def)
  have uo: "unit_ok k r" for r using k by (simp add: kernel_ok_def)
  have un: "unit_ok ?k2 r" for r
  proof (cases "r = s")
    case False
    have "unit_ok ?k2 r = unit_ok k r" by (rule unit_cong) (use False in auto)
    with uo show ?thesis by simp
  next
    case True
    have bits: "\<forall>p<16. bit (ready_primap ?k2 r) p \<longleftrightarrow> queues ?k2 (Ready r p) \<noteq> []"
      using uo [of s] q True by (auto simp: unit_ok_def)
    have f: "is_first (\<lambda>p. queues k (Ready s p)) (predtsk k s)" using uo [of s] by (simp add: unit_ok_def)
    have "is_first (\<lambda>p. queues ?k2 (Ready r p)) (predtsk ?k2 r)"
    proof (cases "predtsk k s")
      case None
      with f q have "\<not> pri < 16" by auto
      moreover have "pri < 16"
      proof -
        have "t \<in> set (queues k (Ready s pri))" using q by simp
        then have "place (tcbs k t) = Some (Ready s pri)" "tcb_ok (tcbs k t)" using k unfolding kernel_ok_def by blast+
        then show ?thesis by (auto simp: place_def tcb_ok_def split: if_splits)
      qed
      ultimately show ?thesis by blast
    next
      case (Some v)
      with f obtain p vs where p: "p < 16" "queues k (Ready s p) = v # vs" "\<forall>j<p. queues k (Ready s j) = []" by auto
      have "\<not> pri < p" using p(3) q by auto
      show ?thesis
      proof (cases "p = pri")
        case True
        with p q Some \<open>r = s\<close> show ?thesis by (auto intro!: exI [of _ pri])
      next
        case False
        have "v \<noteq> t"
        proof
          assume "v = t"
          with p(2) q have "t \<in> set (queues k (Ready s p))" "t \<in> set (queues k (Ready s pri))" by simp_all
          with k False show False by (auto simp: kernel_ok_def)
        qed
        with p False Some \<open>r = s\<close> \<open>\<not> pri < p\<close> show ?thesis by (auto intro!: exI [of _ p])
      qed
    qed
    with bits show ?thesis by (simp add: unit_ok_def)
  qed
  have qs: "set (queues (rotate_ready_queue pri s k) q') = set (queues k q')"
    "distinct (queues (rotate_ready_queue pri s k) q') = distinct (queues k q')" for q'
    unfolding k' using q by auto
  have tc: "tcbs (rotate_ready_queue pri s k) = tcbs k" unfolding k' by simp
  have "unit_ok (rotate_ready_queue pri s k) r" for r unfolding k' unit_update_if by (rule un)
  moreover have "dspflg (rotate_ready_queue pri s k) \<longrightarrow> schedtsk (rotate_ready_queue pri s k) = choose_schedtsk (rotate_ready_queue pri s k)"
  proof (cases ?c)
    case True
    then show ?thesis unfolding k' using update_if_dsp_sched [of ?k2] by auto
  next
    case False
    have "choose_schedtsk ?k1 = choose_schedtsk k" by (rule choose_cong) simp_all
    with False k show ?thesis unfolding k' by (auto simp: kernel_ok_def)
  qed
  ultimately show ?thesis using k unfolding kernel_ok_def qs tc by blast
qed

text \<open>The two cases of a change of priority: a task that can run, and a task that waits.\<close>

lemma change_ready_unit:
  fixes mtx :: bool
  assumes k: "kernel_ok k" and r: "TSTAT_RUNNABLE (tstat (tcbs k t))" and n: "newpri < 16"
  defines "s \<equiv> schedcb (tcbs k t)" and "old \<equiv> priority (tcbs k t)"
  defines "k4 \<equiv> requeue_ready t old newpri mtx (upd_tcb t (\<lambda>p. p\<lparr>priority := newpri\<rparr>) k)"
  shows "\<forall>p<16. bit (ready_primap k4 s) p \<longleftrightarrow> queues k4 (Ready s p) \<noteq> []"
    "predtsk k s = Some t \<Longrightarrow> newpri < old \<Longrightarrow> is_first (\<lambda>p. queues k4 (Ready s p)) (Some t)"
    "predtsk k s = Some u \<Longrightarrow> u \<noteq> t \<Longrightarrow> is_first (\<lambda>p. queues k4 (Ready s p))
       (if (if mtx then newpri \<le> priority (tcbs k u) else newpri < priority (tcbs k u)) then Some t else Some u)"
    "queues k4 = (\<lambda>q. if q = Ready s newpri then (if mtx then t # removeAll t (queues k q) else removeAll t (queues k q) @ [t])
       else removeAll t (queues k q))"
    "ready_primap k4 s = (if removeAll t (queues k (Ready s old)) = [] then ready_primap k s AND NOT (PRIMAP_BIT old)
       else ready_primap k s) OR PRIMAP_BIT newpri"
    "\<And>s'. s' \<noteq> s \<Longrightarrow> ready_primap k4 s' = ready_primap k s'"
    "tcbs k4 = tcbs (upd_tcb t (\<lambda>p. p\<lparr>priority := newpri\<rparr>) k)" "predtsk k4 = predtsk k" "dspflg k4 = dspflg k"
    "twdsched k4 = twdsched k" "idlesched k4 = idlesched k" "schedtsk k4 = schedtsk k"
proof -
  have place: "place (tcbs k t) = Some (Ready s old)" using r by (simp add: place_def s_def old_def)
  have tin: "t \<in> set (queues k q) \<longleftrightarrow> q = Ready s old" for q using k place unfolding kernel_ok_def by auto
  have uo: "unit_ok k s" using k by (simp add: kernel_ok_def)
  show q4: "queues k4 = (\<lambda>q. if q = Ready s newpri then (if mtx then t # removeAll t (queues k q) else removeAll t (queues k q) @ [t])
       else removeAll t (queues k q))"
    by (auto simp: k4_def requeue_ready_def Let_def s_def old_def fun_eq_iff)
  show rp: "ready_primap k4 s = (if removeAll t (queues k (Ready s old)) = [] then ready_primap k s AND NOT (PRIMAP_BIT old)
       else ready_primap k s) OR PRIMAP_BIT newpri"
    by (simp add: k4_def requeue_ready_def Let_def s_def old_def)
  show "ready_primap k4 s' = ready_primap k s'" if "s' \<noteq> s" for s'
    using that by (simp add: k4_def requeue_ready_def Let_def s_def old_def)
  show "tcbs k4 = tcbs (upd_tcb t (\<lambda>p. p\<lparr>priority := newpri\<rparr>) k)" "predtsk k4 = predtsk k" "dspflg k4 = dspflg k"
    "twdsched k4 = twdsched k" "idlesched k4 = idlesched k" "schedtsk k4 = schedtsk k"
    by (simp_all add: k4_def requeue_ready_def Let_def)
  have other: "removeAll t (queues k (Ready s p)) = queues k (Ready s p)" if "p \<noteq> old" for p
    using tin [of "Ready s p"] that by (simp add: removeAll_id)
  show "\<forall>p<16. bit (ready_primap k4 s) p \<longleftrightarrow> queues k4 (Ready s p) \<noteq> []"
  proof (intro allI impI)
    fix p :: nat assume p: "p < 16"
    have up: "bit (ready_primap k s) p \<longleftrightarrow> queues k (Ready s p) \<noteq> []" using uo p by (simp add: unit_ok_def)
    let ?m = "if removeAll t (queues k (Ready s old)) = [] then ready_primap k s AND NOT (PRIMAP_BIT old) else ready_primap k s"
    have "bit (ready_primap k4 s) p \<longleftrightarrow> p = newpri \<or> bit ?m p" unfolding rp using p by (auto simp: bit_or_iff bit_primap)
    moreover have "bit ?m p \<longleftrightarrow> removeAll t (queues k (Ready s p)) \<noteq> []"
    proof (cases "p = old")
      case True
      have "queues k (Ready s old) \<noteq> []" using tin [of "Ready s old"] by auto
      with True up p show ?thesis by (simp add: bit_and_iff bit_not_iff bit_primap)
    next
      case False
      with up p other [OF False] show ?thesis by (simp add: bit_and_iff bit_not_iff bit_primap bit_imp_le_length)
    qed
    ultimately show "bit (ready_primap k4 s) p \<longleftrightarrow> queues k4 (Ready s p) \<noteq> []" unfolding q4 by auto
  qed
  show "is_first (\<lambda>p. queues k4 (Ready s p)) (Some t)" if "predtsk k s = Some t" "newpri < old"
  proof -
    from uo that(1) obtain p vs where p: "p < 16" "queues k (Ready s p) = t # vs" "\<forall>j<p. queues k (Ready s j) = []"
      by (auto simp: unit_ok_def)
    with tin [of "Ready s p"] have "p = old" by simp
    with p that(2) n show ?thesis unfolding q4 by (auto intro!: exI [of _ newpri])
  qed
  show "is_first (\<lambda>p. queues k4 (Ready s p))
       (if (if mtx then newpri \<le> priority (tcbs k u) else newpri < priority (tcbs k u)) then Some t else Some u)"
    if "predtsk k s = Some u" "u \<noteq> t"
  proof -
    let ?Q = "\<lambda>p. removeAll t (queues k (Ready s p))"
    have f: "is_first ?Q (Some u)"
      using first_remove [of "\<lambda>p. queues k (Ready s p)" "Some u" t] uo that by (simp add: unit_ok_def)
    have pr: "p = priority (tcbs k v)" if "Some u = Some v" "v \<in> set (?Q p)" for v p
    proof -
      have "v \<in> set (queues k (Ready s p))" using that(2) by simp
      then have "place (tcbs k v) = Some (Ready s p)" "tcb_ok (tcbs k v)" using k unfolding kernel_ok_def by blast+
      then show ?thesis by (auto simp: place_def tcb_ok_def split: if_splits)
    qed
    have e: "(\<lambda>p. queues k4 (Ready s p)) = ?Q(newpri := (if mtx then t # ?Q newpri else ?Q newpri @ [t]))"
      unfolding q4 by auto
    have "is_first (?Q(newpri := t # ?Q newpri)) (if newpri \<le> priority (tcbs k u) then Some t else Some u)"
      using first_cons [where t = t and pr = "\<lambda>v. priority (tcbs k v)", OF f n pr] by (simp only: option.case)
    moreover have "is_first (?Q(newpri := ?Q newpri @ [t])) (if newpri < priority (tcbs k u) then Some t else Some u)"
      using first_append [where t = t and pr = "\<lambda>v. priority (tcbs k v)", OF f n pr] by (simp only: option.case)
    ultimately show ?thesis unfolding e by (cases mtx) (simp_all del: is_first_simps)
  qed
qed

lemma change_priority_ready:
  assumes k: "kernel_ok k" and r: "TSTAT_RUNNABLE (tstat (tcbs k t))" and n: "newpri < 16"
  shows "kernel_ok (change_priority tpri t newpri mtx k)"
proof -
  let ?s = "schedcb (tcbs k t)" and ?old = "priority (tcbs k t)"
  let ?k4 = "requeue_ready t ?old newpri mtx (upd_tcb t (\<lambda>p. p\<lparr>priority := newpri\<rparr>) k)"
  note c = change_ready_unit [OF k r n, where mtx = mtx]
  have uo: "unit_ok k s" for s using k by (simp add: kernel_ok_def)
  have tin: "t \<in> set (queues k q) \<longleftrightarrow> q = Ready ?s ?old" for q
    using k r unfolding kernel_ok_def by (auto simp: place_def)
  obtain x where x: "predtsk k ?s = Some x"
  proof (cases "predtsk k ?s")
    case None
    have "?old < 16" using k by (simp add: kernel_ok_def tcb_ok_def)
    with None uo [of ?s] have "queues k (Ready ?s ?old) = []" by (simp add: unit_ok_def)
    with tin [of "Ready ?s ?old"] show ?thesis by simp
  qed (rule that)
  let ?up = "x = t \<or> (if mtx then newpri \<le> priority (tcbs k x) else newpri < priority (tcbs k x))"
  let ?y = "if x = t then (if newpri \<ge> ?old then search_predtsk ?s ?k4 else Some t) else if ?up then Some t else Some x"
  let ?k5 = "set_predtsk ?s ?y ?k4"
  have k5: "?k4 = set_predtsk ?s (Some x) ?k4" using x c(8) by (simp add: set_predtsk_def fun_upd_idem)
  have k': "change_priority tpri t newpri mtx k = (if ?up then update_if_dsp ?k5 else ?k5)"
  proof -
    obtain m where m: "m = mtx" by blast
    define k4 where "k4 = requeue_ready t ?old newpri m (upd_tcb t (\<lambda>p. p\<lparr>priority := newpri\<rparr>) k)"
    have p4: "predtsk k4 ?s = Some x" "k4 = set_predtsk ?s (Some x) k4" "\<And>u. u \<noteq> t \<Longrightarrow> priority (tcbs k4 u) = priority (tcbs k u)"
      using c(7,8) x k5 by (simp_all add: k4_def m)
    have e4: "requeue_ready t ?old newpri mtx (upd_tcb t (\<lambda>p. p\<lparr>priority := newpri\<rparr>) k) = k4" by (simp add: k4_def m)
    have r1: "TSTAT_RUNNABLE (tstat (tcbs (upd_tcb t (\<lambda>p. p\<lparr>priority := newpri\<rparr>) k) t))" using r by simp
    show ?thesis
      unfolding change_priority_def Let_def if_P [OF r1] e4
    proof (cases "x = t")
      case True
      then show "(if predtsk k4 ?s = Some t then update_if_dsp (if ?old \<le> newpri then set_predtsk ?s (search_predtsk ?s k4) k4 else k4)
          else if case predtsk k4 ?s of None \<Rightarrow> False | Some u \<Rightarrow> if mtx then newpri \<le> priority (tcbs k4 u) else newpri < priority (tcbs k4 u)
            then update_if_dsp (set_predtsk ?s (Some t) k4) else k4) =
          (if x = t \<or> (if mtx then newpri \<le> priority (tcbs k x) else newpri < priority (tcbs k x))
           then update_if_dsp (set_predtsk ?s (if x = t then if ?old \<le> newpri then search_predtsk ?s k4 else Some t
             else if x = t \<or> (if mtx then newpri \<le> priority (tcbs k x) else newpri < priority (tcbs k x)) then Some t else Some x) k4)
           else set_predtsk ?s (if x = t then if ?old \<le> newpri then search_predtsk ?s k4 else Some t
             else if x = t \<or> (if mtx then newpri \<le> priority (tcbs k x) else newpri < priority (tcbs k x)) then Some t else Some x) k4)"
        using p4(1,2) by simp
    next
      case False
      then show "(if predtsk k4 ?s = Some t then update_if_dsp (if ?old \<le> newpri then set_predtsk ?s (search_predtsk ?s k4) k4 else k4)
          else if case predtsk k4 ?s of None \<Rightarrow> False | Some u \<Rightarrow> if mtx then newpri \<le> priority (tcbs k4 u) else newpri < priority (tcbs k4 u)
            then update_if_dsp (set_predtsk ?s (Some t) k4) else k4) =
          (if x = t \<or> (if mtx then newpri \<le> priority (tcbs k x) else newpri < priority (tcbs k x))
           then update_if_dsp (set_predtsk ?s (if x = t then if ?old \<le> newpri then search_predtsk ?s k4 else Some t
             else if x = t \<or> (if mtx then newpri \<le> priority (tcbs k x) else newpri < priority (tcbs k x)) then Some t else Some x) k4)
           else set_predtsk ?s (if x = t then if ?old \<le> newpri then search_predtsk ?s k4 else Some t
             else if x = t \<or> (if mtx then newpri \<le> priority (tcbs k x) else newpri < priority (tcbs k x)) then Some t else Some x) k4)"
        using p4 by simp
    qed
  qed
  have first: "is_first (\<lambda>p. queues ?k4 (Ready ?s p)) ?y"
  proof (cases "x = t")
    case True
    have "is_first (\<lambda>p. queues ?k4 (Ready ?s p)) (search_predtsk ?s ?k4)"
    proof -
      have "bit (ready_primap ?k4 ?s) newpri" using c(5) n by (simp add: bit_or_iff bit_primap)
      then have "ready_primap ?k4 ?s \<noteq> 0" by auto
      with first_search [OF c(1)] show ?thesis by (simp add: search_predtsk_def primap_search_def)
    qed
    with c(2) True x show ?thesis by simp
  next
    case False
    with c(3) [OF x False] show ?thesis by simp
  qed
  have un: "unit_ok ?k5 s" for s
  proof (cases "s = ?s")
    case False
    have "t \<notin> set (queues k (Ready s p))" for p using tin False by simp
    then have "unit_ok ?k5 s = unit_ok k s"
      by (intro unit_cong) (use False c(4,6,8) in \<open>simp_all add: removeAll_id\<close>)
    with uo show ?thesis by simp
  next
    case True
    show ?thesis unfolding unit_ok_def using c(1) first True by simp
  qed
  have qt: "queues (change_priority tpri t newpri mtx k) = queues ?k4" "tcbs (change_priority tpri t newpri mtx k) = tcbs ?k4"
    unfolding k' by simp_all
  have "unit_ok (change_priority tpri t newpri mtx k) s" for s unfolding k' unit_update_if by (rule un)
  moreover have "dspflg (change_priority tpri t newpri mtx k) \<longrightarrow>
      schedtsk (change_priority tpri t newpri mtx k) = choose_schedtsk (change_priority tpri t newpri mtx k)"
    unfolding k'
  proof (rule update_if_sched)
    assume up: "\<not> ?up" and d: "dspflg ?k5"
    have "u \<noteq> t" if "predtsk k s = Some u" for s u
    proof
      assume "u = t"
      from pred_member [OF uo that] obtain p where "u \<in> set (queues k (Ready s p))" by blast
      with tin \<open>u = t\<close> have "s = ?s" by simp
      with that x \<open>u = t\<close> up show False by simp
    qed
    then have "choose_schedtsk ?k5 = choose_schedtsk k"
      by (intro choose_cong) (use up x c(7,8,10,11) k5 in \<open>simp_all add: fun_upd_idem\<close>)
    with k d show "schedtsk ?k5 = choose_schedtsk ?k5" using c(9,12) by (simp add: kernel_ok_def set_predtsk_def)
  qed
  moreover have "distinct (queues ?k4 q)" for q using k unfolding c(4) kernel_ok_def by (auto simp: distinct_removeAll)
  moreover have "u \<in> set (queues ?k4 q) \<longleftrightarrow> place (tcbs ?k4 u) = Some q" for u q
    using k r unfolding c(4,7) kernel_ok_def by (auto simp: place_def)
  moreover have "tcb_ok (tcbs ?k4 u)" for u using k r n unfolding c(7) kernel_ok_def by (auto simp: tcb_ok_def)
  ultimately show ?thesis unfolding kernel_ok_def qt by blast
qed

lemma wobjcb_wobj: "TSTAT_WAIT_WOBJCB s \<Longrightarrow> TSTAT_WAIT_WOBJ s"
proof -
  have "(0x60 :: tstat_t) AND 0x40 = 0x40" by simp
  then have e: "s AND 0x40 = (s AND 0x60) AND 0x40" by (simp only: and.assoc)
  show "TSTAT_WAIT_WOBJCB s \<Longrightarrow> TSTAT_WAIT_WOBJ s"
    unfolding TSTAT_WAIT_WOBJCB_def TSTAT_WAIT_WOBJ_def using e by auto
qed

text \<open>A task in no ready queue changes its fields; its queue stays the same.\<close>

lemma upd_waiting_ok:
  assumes k: "kernel_ok k" and nr: "\<not> TSTAT_RUNNABLE (tstat (tcbs k t))"
    and p: "place (f (tcbs k t)) = place (tcbs k t)" "tcb_ok (f (tcbs k t))"
  shows "kernel_ok (upd_tcb t f k)"
proof -
  have "place (tcbs k t) \<noteq> Some (Ready s r)" for s r
    using k nr by (auto simp: place_def kernel_ok_def tcb_ok_def split: if_splits)
  then have out: "t \<notin> set (queues k (Ready s r))" for s r using k unfolding kernel_ok_def by blast
  have uo: "unit_ok k s" for s using k by (simp add: kernel_ok_def)
  have "u \<noteq> t" if "predtsk k s = Some u" for s u
    using pred_member [OF uo that] out by metis
  then have "choose_schedtsk (upd_tcb t f k) = choose_schedtsk k" by (intro choose_cong) auto
  moreover have "unit_ok (upd_tcb t f k) s = unit_ok k s" for s by (rule unit_cong) simp_all
  ultimately show ?thesis using k p unfolding kernel_ok_def by auto
qed

lemma change_priority_waiting:
  assumes k: "kernel_ok k" and r: "\<not> TSTAT_RUNNABLE (tstat (tcbs k t))" and n: "newpri < 16"
  shows "kernel_ok (change_priority tpri t newpri mtx k)"
proof -
  let ?k1 = "upd_tcb t (\<lambda>p. p\<lparr>priority := newpri\<rparr>) k"
  have k1: "kernel_ok ?k1"
    by (rule upd_waiting_ok [OF k r]) (use k r n in \<open>auto simp: place_def kernel_ok_def tcb_ok_def\<close>)
  show ?thesis
  proof (cases "TSTAT_WAIT_WOBJCB (tstat (tcbs k t))")
    case False
    with k1 r show ?thesis by (simp add: change_priority_def Let_def)
  next
    case True
    have "tcb_ok (tcbs k t)" using k by (simp add: kernel_ok_def)
    with r obtain q where q: "wi_wobj (winfo (tcbs k t)) = Some q" "\<not> is_ready q"
      using wobjcb_wobj [OF True] by (auto simp: tcb_ok_def)
    have e: "change_priority tpri t newpri mtx k = wobj_change_priority tpri q t ?k1"
      using r True q by (simp add: change_priority_def Let_def)
    have pl: "place (tcbs ?k1 t) = Some q" using r wobjcb_wobj [OF True] q by (simp add: place_def)
    from k1 have b: "base_ok ?k1 t (Some q)" and tk: "tcb_ok (tcbs ?k1 t)"
      using kernel_ok_base [of ?k1 t] pl by simp_all
    have d: "base_ok (delete_task t ?k1) t None" by (rule base_delete_wait [OF b]) (simp add: q)
    let ?ts = "queue_insert_tpri (queues (delete_task t ?k1) q) t (delete_task t ?k1)"
    have "base_ok (set_queue q ?ts (delete_task t ?k1)) t (Some q)"
      by (rule base_insert_wait [OF d q(2) insert_tpri_set(1)])
        (use d in \<open>auto intro!: insert_tpri_set(2) simp: base_ok_def\<close>)
    moreover have "tcbs (set_queue q ?ts (delete_task t ?k1)) = tcbs ?k1" by simp
    ultimately have "kernel_ok (set_queue q ?ts (delete_task t ?k1))"
      using kernel_ok_base [of "set_queue q ?ts (delete_task t ?k1)" t] pl tk by simp
    with k1 show ?thesis unfolding e wobj_change_priority_def Let_def by simp
  qed
qed

lemma make_active_ok:
  assumes k: "kernel_ok k" and d: "TSTAT_DORMANT (tstat (tcbs k t))"
  shows "kernel_ok (make_active t k)"
proof -
  let ?k1 = "upd_tcb t (\<lambda>p. p\<lparr>tstat := TS_RUNNABLE\<rparr>) k"
  have "place (tcbs k t) = None" using d by (simp add: place_def TSTAT_defs TS_defs)
  with k have "base_ok k t None" using kernel_ok_base [of k t] by simp
  then have b: "base_ok ?k1 t None" by (rule base_upd_same) simp
  have "tcb_ok (tcbs k t)" using k by (simp add: kernel_ok_def)
  then have tk: "tcb_ok (tcbs ?k1 t)" by (simp add: tcb_ok_def legal_tstat_def TSTAT_defs TS_defs)
  have "place (tcbs ?k1 t) = Some (Ready (schedcb (tcbs ?k1 t)) (priority (tcbs ?k1 t)))"
    by (simp add: place_def TSTAT_defs TS_defs)
  with base_make_runnable [OF b] tk show ?thesis
    unfolding make_active_def by (subst kernel_ok_base [of _ t]) simp
qed

lemma legal_runnable: "legal_tstat s \<Longrightarrow> TSTAT_RUNNABLE s \<longleftrightarrow> s = TS_RUNNABLE"
proof -
  have e: "(s AND NOT TS_SUSPENDED) AND TS_RUNNABLE = s AND TS_RUNNABLE"
  proof -
    have "NOT TS_SUSPENDED AND TS_RUNNABLE = TS_RUNNABLE" by (simp add: TS_defs)
    then show ?thesis by (simp only: and.assoc)
  qed
  assume "legal_tstat s"
  then consider "s \<in> {TS_DORMANT, TS_RUNNABLE, TS_SUSPENDED}"
    | "s AND NOT TS_SUSPENDED \<in> {TS_WAITING_SLP, TS_WAITING_DLY, TS_WAITING_RDTQ, TS_WAITING_SEM, TS_WAITING_FLG, TS_WAITING_SDTQ}"
    by (auto simp: legal_tstat_def)
  then show "TSTAT_RUNNABLE s \<longleftrightarrow> s = TS_RUNNABLE"
  proof cases
    case 2
    then have "(s AND NOT TS_SUSPENDED) AND TS_RUNNABLE = 0" "s \<noteq> TS_RUNNABLE" by (auto simp: TS_defs)
    with e show ?thesis by (auto simp: TSTAT_defs)
  qed (auto simp: TSTAT_defs TS_defs)
qed

section \<open>What the scheduler gives\<close>

lemma pred_runnable:
  assumes k: "kernel_ok k" and p: "predtsk k s = Some t"
  shows "TSTAT_RUNNABLE (tstat (tcbs k t))" "schedcb (tcbs k t) = s" "t \<in> set (queues k (Ready s (priority (tcbs k t))))"
proof -
  have "unit_ok k s" using k by (simp add: kernel_ok_def)
  from pred_member [OF this p] obtain r where r: "t \<in> set (queues k (Ready s r))" by blast
  with k have "place (tcbs k t) = Some (Ready s r)" "tcb_ok (tcbs k t)" unfolding kernel_ok_def by blast+
  then show "TSTAT_RUNNABLE (tstat (tcbs k t))" "schedcb (tcbs k t) = s"
    and "t \<in> set (queues k (Ready s (priority (tcbs k t))))"
    using r by (auto simp: place_def tcb_ok_def split: if_splits)
qed

lemma pred_most_urgent:
  assumes k: "kernel_ok k" and u: "TSTAT_RUNNABLE (tstat (tcbs k u))"
  obtains t where "predtsk k (schedcb (tcbs k u)) = Some t" "priority (tcbs k t) \<le> priority (tcbs k u)"
proof -
  let ?s = "schedcb (tcbs k u)"
  have uo: "unit_ok k ?s" and pu: "priority (tcbs k u) < 16" using k by (simp_all add: kernel_ok_def tcb_ok_def)
  have uin: "u \<in> set (queues k (Ready ?s (priority (tcbs k u))))"
    using k u unfolding kernel_ok_def by (simp add: place_def)
  show ?thesis
  proof (cases "predtsk k ?s")
    case None
    with uo pu uin show ?thesis by (auto simp: unit_ok_def)
  next
    case (Some t)
    with uo obtain p ts where p: "queues k (Ready ?s p) = t # ts" "\<forall>r<p. queues k (Ready ?s r) = []"
      by (auto simp: unit_ok_def)
    have "t \<in> set (queues k (Ready ?s p))" using p(1) by simp
    with k have "place (tcbs k t) = Some (Ready ?s p)" "tcb_ok (tcbs k t)" unfolding kernel_ok_def by blast+
    then have "p = priority (tcbs k t)" by (auto simp: place_def tcb_ok_def split: if_splits)
    moreover have "\<not> priority (tcbs k u) < p" using p(2) uin by auto
    ultimately show ?thesis using Some that by simp
  qed
qed

lemma sched_runnable:
  assumes k: "kernel_ok k" "dspflg k" "schedtsk k = Some t"
  shows "TSTAT_RUNNABLE (tstat (tcbs k t))"
proof -
  have "choose_schedtsk k = Some t" using k by (simp add: kernel_ok_def)
  then obtain s where "predtsk k s = Some t"
    by (auto simp: choose_schedtsk_def split: option.splits if_splits)
  then show ?thesis by (rule pred_runnable [OF k(1)])
qed

text \<open>The bitmap search, which halves the map twice and looks a nibble up in a table,
  finds the lowest bit that is set, for every map that is not empty.\<close>

lemma bitmap_search_least: "b \<noteq> 0 \<Longrightarrow> bitmap_search b = (LEAST n. bit b n)"
  using bitmap_search_lowest [of b] by (metis (no_types, lifting) Least_equality not_le)

lemma bitmap_search_least_witness: "bitmap_search 0x0500 = (LEAST n. bit (0x0500 :: 16 word) n) \<and> bitmap_search 0x0500 = 8"
proof -
  have "bitmap_search 0x0500 = 8" by code_simp
  moreover have "bitmap_search 0x0500 = (LEAST n. bit (0x0500 :: 16 word) n)" by (rule bitmap_search_least) simp
  ultimately show ?thesis by simp
qed

text \<open>Claim C30.  While dispatching is allowed the task to run is one that can run, and no task that
  can run, of the kernel domain or of the domain whose time window is open, is more urgent.\<close>

lemma most_urgent_runs:
  assumes k: "kernel_ok k" "dspflg k" and u: "TSTAT_RUNNABLE (tstat (tcbs k u))"
    and s: "schedcb (tcbs k u) \<in> {schedcb_kernel, twdsched k}"
  shows "\<exists>t. schedtsk k = Some t \<and> TSTAT_RUNNABLE (tstat (tcbs k t)) \<and> priority (tcbs k t) \<le> priority (tcbs k u)"
proof -
  from pred_most_urgent [OF k(1) u] obtain v where v: "predtsk k (schedcb (tcbs k u)) = Some v"
    "priority (tcbs k v) \<le> priority (tcbs k u)" by blast
  have sch: "schedtsk k = choose_schedtsk k" using k by (simp add: kernel_ok_def)
  have "\<exists>t. choose_schedtsk k = Some t \<and> priority (tcbs k t) \<le> priority (tcbs k v)"
    using v(1) s by (cases "predtsk k schedcb_kernel"; cases "predtsk k (twdsched k)") (auto simp: choose_schedtsk_def)
  then obtain t where t: "choose_schedtsk k = Some t" "priority (tcbs k t) \<le> priority (tcbs k v)" by blast
  with sched_runnable [OF k] sch v(2) show ?thesis by auto
qed

text \<open>A kernel with every task dormant, and one with two tasks activated.\<close>

definition idle_kernel :: kernel where
  "idle_kernel = \<lparr>tcbs = \<lambda>t. \<lparr>tstat = TS_DORMANT, svclevel = 0, bpriority = 10 - t, priority = 10 - t, actque = False,
       wupque = False, raster = False, enater = True, schedcb = 0,
       winfo = \<lparr>wi_union = P_tmevtb None, wi_wobj = None, wi_data = 0, wi_waiptn = 0, wi_wfmode = 0\<rparr>,
       ipriority = 10 - t, noactque = False, tmevt_heap = 0\<rparr>,
     queues = \<lambda>_. [], ready_primap = \<lambda>_. 0, predtsk = \<lambda>_. None, twdsched = 1, idlesched = 2, runtsk = None, schedtsk = None,
     dspflg = True, sense_context = False, sense_lock = False, rundom = 0, tm = three_events,
     semcnt = \<lambda>_. 0, flgptn = \<lambda>_. 0, dtqs = \<lambda>_. \<lparr>dtqmb = [0, 0], dtq_count = 0, dtq_head = 0, dtq_tail = 0\<rparr>\<rparr>"

lemma idle_kernel_ok: "kernel_ok idle_kernel"
  by (simp add: idle_kernel_def kernel_ok_def unit_ok_def tcb_ok_def legal_tstat_def place_def choose_schedtsk_def
      TSTAT_defs TS_defs less_imp_diff_less)

lemma make_runnable_keeps: "tcbs (make_runnable t k) = tcbs k"
  by (simp add: make_runnable_def Let_def split: option.split)

lemma make_active_tcbs: "tcbs (make_active t k) = (tcbs k)(t := (tcbs k t)\<lparr>tstat := TS_RUNNABLE\<rparr>)"
  by (simp add: make_active_def make_runnable_keeps)

lemma two_active_ok: "kernel_ok (make_active 2 (make_active 1 idle_kernel))"
  by (intro make_active_ok idle_kernel_ok) (simp_all add: make_active_tcbs idle_kernel_def TSTAT_defs)

lemma most_urgent_runs_witness:
  "let k = make_active 2 (make_active 1 idle_kernel)
   in \<exists>t. schedtsk k = Some t \<and> TSTAT_RUNNABLE (tstat (tcbs k t)) \<and> priority (tcbs k t) \<le> priority (tcbs k 1)"
proof -
  let ?k = "make_active 2 (make_active 1 idle_kernel)"
  have "twdsched ?k = 1" "dspflg ?k"
    by (simp_all add: make_active_def make_runnable_def Let_def idle_kernel_def split: option.split)
  moreover have "TSTAT_RUNNABLE (tstat (tcbs ?k 1))" "schedcb (tcbs ?k 1) = 0"
    by (simp_all add: make_active_tcbs idle_kernel_def TSTAT_defs TS_defs)
  ultimately show ?thesis using most_urgent_runs [OF two_active_ok, of 1] by (simp add: schedcb_kernel_def Let_def)
qed

end
