(* ===== verification/Kernel_Wait.thy ===== *)
theory Kernel_Wait
  imports Kernel_Sched
begin

text \<open>
  Waiting (\<open>hrp3_wo_tecs/kernel/wait.c\<close>, \<open>wait.h\<close>) and the checks at the head of the service calls
  (\<open>check.h\<close>).  A service call gives its error code at once, or its task waits; then the call goes
  on when the task runs again, with the error code left in the waiting information block.
\<close>

section \<open>Configuration and checks\<close>

datatype objid = Tsk nat | Tskdom nat | Sem nat | Flg nat | Dtq nat

text \<open>
  What the configurator generates: the largest object numbers, the attributes, initial values and
  access patterns of the objects; and the parts of the kernel that are not modelled: the removal of
  a task from a message buffer and the hooks of the mutexes.
\<close>

record kconf =
  tmax_tskid :: int
  tmax_semid :: int
  tmax_flgid :: int
  tmax_dtqid :: int
  wobj_tpri :: "qid \<Rightarrow> bool"
  acptn :: "objid \<Rightarrow> nat \<Rightarrow> 32 word"
  isemcnt :: "nat \<Rightarrow> nat"
  maxsem :: "nat \<Rightarrow> nat"
  iflgptn :: "nat \<Rightarrow> 32 word"
  flg_clr :: "nat \<Rightarrow> bool"
  flg_wmul :: "nat \<Rightarrow> bool"
  dtqcnt :: "nat \<Rightarrow> nat"
  mbfhook_dequeue_wobj :: "nat \<Rightarrow> kernel \<Rightarrow> kernel"
  holds_mtx :: "nat \<Rightarrow> bool"
  mtxhook_check_ceilpri :: "nat \<Rightarrow> nat \<Rightarrow> bool"
  mtxhook_scan_ceilmtx :: "nat \<Rightarrow> bool"

definition TMO_POL :: "32 word" where "TMO_POL = 0"
definition TMO_FEVR :: "32 word" where "TMO_FEVR = 0xffffffff"
definition TACP_KERNEL :: "32 word" where "TACP_KERNEL = 0"
definition TSK_SELF :: int where "TSK_SELF = 0"
definition TSK_NONE :: int where "TSK_NONE = 0"

definition VALID_OBJID :: "int \<Rightarrow> int \<Rightarrow> bool" where
  "VALID_OBJID tmax i \<longleftrightarrow> 1 \<le> i \<and> i \<le> tmax"

definition INDEX_OBJ :: "int \<Rightarrow> nat" where "INDEX_OBJ i = nat (i - 1)"
definition TSKID :: "nat \<Rightarrow> int" where "TSKID t = int t + 1"

definition VALID_TPRI :: "int \<Rightarrow> bool" where
  "VALID_TPRI p \<longleftrightarrow> 1 \<le> p \<and> p \<le> 16"

definition INT_PRIORITY :: "int \<Rightarrow> nat" where "INT_PRIORITY p = nat (p - 1)"

definition VALID_RELTIM :: "32 word \<Rightarrow> bool" where
  "VALID_RELTIM r \<longleftrightarrow> r \<le> TMAX_RELTIM"

definition VALID_TMOUT :: "32 word \<Rightarrow> bool" where
  "VALID_TMOUT r \<longleftrightarrow> r \<le> TMAX_RELTIM \<or> r = TMO_FEVR"

definition VIOLATE_ACPTN :: "32 word \<Rightarrow> kernel \<Rightarrow> bool" where
  "VIOLATE_ACPTN a k \<longleftrightarrow> rundom k \<noteq> TACP_KERNEL \<and> rundom k AND a = 0"

definition CHECK_UNL :: "kernel \<Rightarrow> bool" where "CHECK_UNL k \<longleftrightarrow> \<not> sense_lock k"
definition CHECK_TSKCTX_UNL :: "kernel \<Rightarrow> bool" where
  "CHECK_TSKCTX_UNL k \<longleftrightarrow> \<not> (sense_context k \<or> sense_lock k)"
definition CHECK_DISPATCH :: "kernel \<Rightarrow> bool" where
  "CHECK_DISPATCH k \<longleftrightarrow> \<not> (sense_context k \<or> sense_lock k \<or> \<not> dspflg k)"

lemmas CHECK_defs = CHECK_UNL_def CHECK_TSKCTX_UNL_def CHECK_DISPATCH_def

text \<open>The outcome of a call; a call of the kind \<open>ER_UINT\<close> returns a number instead of \<open>E_OK\<close>.\<close>

datatype reply = Returns ER | Returns_uint nat | Blocks

section \<open>Dispatching\<close>

text \<open>
  The dispatcher runs the task to run; at the end of an interrupt it does so by itself, and on this
  processor \<open>request_dispatch_retint\<close> is an empty macro.
\<close>

definition dispatch :: "kernel \<Rightarrow> kernel" where
  "dispatch k = k\<lparr>runtsk := schedtsk k\<rparr>"

definition request_dispatch_retint :: "kernel \<Rightarrow> kernel" where
  "request_dispatch_retint k = k"

definition dispatch_task :: "kernel \<Rightarrow> kernel" where
  "dispatch_task k = (if runtsk k \<noteq> schedtsk k then dispatch k else k)"

definition dispatch_any :: "kernel \<Rightarrow> kernel" where
  "dispatch_any k = (if runtsk k \<noteq> schedtsk k then
       (if \<not> sense_context k then dispatch k else request_dispatch_retint k) else k)"

definition self :: "kernel \<Rightarrow> nat" where "self k = the (runtsk k)"

section \<open>Waiting\<close>

definition make_wait :: "tstat_t \<Rightarrow> winfo \<Rightarrow> kernel \<Rightarrow> kernel" where
  "make_wait st w k =
    (let t = self k;
         k1 = make_non_runnable t (upd_tcb t (\<lambda>p. p\<lparr>tstat := st\<rparr>) k)
     in upd_tcb t (\<lambda>p. p\<lparr>winfo := w\<lparr>wi_union := P_tmevtb None\<rparr>\<rparr>) k1)"

text \<open>The time event block is a local variable of the call; it has the number of the waiting task.\<close>

definition make_wait_tmout :: "tstat_t \<Rightarrow> winfo \<Rightarrow> 32 word \<Rightarrow> kernel \<Rightarrow> kernel" where
  "make_wait_tmout st w tmout k =
    (let t = self k;
         k1 = make_non_runnable t (upd_tcb t (\<lambda>p. p\<lparr>tstat := st\<rparr>) k)
     in if tmout = TMO_FEVR then upd_tcb t (\<lambda>p. p\<lparr>winfo := w\<lparr>wi_union := P_tmevtb None\<rparr>\<rparr>) k1
        else (let k2 = upd_tcb t (\<lambda>p. p\<lparr>winfo := w\<lparr>wi_union := P_tmevtb (Some t)\<rparr>\<rparr>) k1
              in k2\<lparr>tm := tmevtb_enqueue_reltim t tmout (tmevt_heap (tcbs k2 t)) (tm k2)\<rparr>))"

definition make_non_wait :: "nat \<Rightarrow> kernel \<Rightarrow> kernel" where
  "make_non_wait t k =
    (if \<not> TSTAT_SUSPENDED (tstat (tcbs k t)) then make_runnable t (upd_tcb t (\<lambda>p. p\<lparr>tstat := TS_RUNNABLE\<rparr>) k)
     else upd_tcb t (\<lambda>p. p\<lparr>tstat := TS_SUSPENDED\<rparr>) k)"

definition wait_dequeue_wobj :: "kconf \<Rightarrow> nat \<Rightarrow> kernel \<Rightarrow> kernel" where
  "wait_dequeue_wobj c t k =
    (if TSTAT_WAIT_WOBJ (tstat (tcbs k t)) then
       (let k1 = delete_task t k
        in if TSTAT_WAIT_SMBF (tstat (tcbs k1 t)) then mbfhook_dequeue_wobj c t k1 else k1)
     else k)"

text \<open>Only the block of a waiting task is looked at, which holds no error code yet.\<close>

definition wait_dequeue_tmevtb :: "nat \<Rightarrow> kernel \<Rightarrow> kernel" where
  "wait_dequeue_tmevtb t k =
    (case wi_union (winfo (tcbs k t)) of
       P_tmevtb (Some e) \<Rightarrow> k\<lparr>tm := tmevtb_dequeue e (tmevt_heap (tcbs k t)) (tm k)\<rparr>
     | _ \<Rightarrow> k)"

definition set_wercd :: "nat \<Rightarrow> ER \<Rightarrow> kernel \<Rightarrow> kernel" where
  "set_wercd t e k = upd_tcb t (\<lambda>p. p\<lparr>winfo := (winfo p)\<lparr>wi_union := Wercd e\<rparr>\<rparr>) k"

definition wait_complete :: "nat \<Rightarrow> kernel \<Rightarrow> kernel" where
  "wait_complete t k = make_non_wait t (set_wercd t E_OK (wait_dequeue_tmevtb t k))"

text \<open>At their end these two let interrupts of higher priority in.\<close>

definition wait_tmout :: "kconf \<Rightarrow> nat \<Rightarrow> kernel \<Rightarrow> kernel" where
  "wait_tmout c t k =
    (let k1 = make_non_wait t (set_wercd t E_TMOUT (wait_dequeue_wobj c t k))
     in if runtsk k1 \<noteq> schedtsk k1 \<and> sense_context k1 then request_dispatch_retint k1 else k1)"

definition wait_tmout_ok :: "nat \<Rightarrow> kernel \<Rightarrow> kernel" where
  "wait_tmout_ok t k =
    (let k1 = make_non_wait t (set_wercd t E_OK k)
     in if runtsk k1 \<noteq> schedtsk k1 \<and> sense_context k1 then request_dispatch_retint k1 else k1)"

definition wobj_queue_insert :: "kconf \<Rightarrow> qid \<Rightarrow> kernel \<Rightarrow> kernel" where
  "wobj_queue_insert c q k =
    (if wobj_tpri c q then set_queue q (queue_insert_tpri (queues k q) (self k) k) k
     else set_queue q (queues k q @ [self k]) k)"

definition set_wobj :: "nat \<Rightarrow> qid \<Rightarrow> kernel \<Rightarrow> kernel" where
  "set_wobj t q k = upd_tcb t (\<lambda>p. p\<lparr>winfo := (winfo p)\<lparr>wi_wobj := Some q\<rparr>\<rparr>) k"

definition wobj_make_wait :: "kconf \<Rightarrow> qid \<Rightarrow> tstat_t \<Rightarrow> winfo \<Rightarrow> kernel \<Rightarrow> kernel" where
  "wobj_make_wait c q st w k = (let k1 = wobj_queue_insert c q (make_wait st w k) in set_wobj (self k1) q k1)"

definition wobj_make_wait_tmout :: "kconf \<Rightarrow> qid \<Rightarrow> tstat_t \<Rightarrow> winfo \<Rightarrow> 32 word \<Rightarrow> kernel \<Rightarrow> kernel" where
  "wobj_make_wait_tmout c q st w tmout k =
    (let k1 = wobj_queue_insert c q (make_wait_tmout st w tmout k) in set_wobj (self k1) q k1)"

definition wait_tskid :: "nat list \<Rightarrow> int" where
  "wait_tskid ts = (case ts of [] \<Rightarrow> TSK_NONE | t # _ \<Rightarrow> TSKID t)"

text \<open>What a call that has waited returns: the error code in the block of its task.\<close>

definition wercd :: "nat \<Rightarrow> kernel \<Rightarrow> ER option" where
  "wercd t k = (case wi_union (winfo (tcbs k t)) of Wercd e \<Rightarrow> Some e | P_tmevtb _ \<Rightarrow> None)"

section \<open>What the operations leave alone\<close>

lemma basic_fields [simp]:
  "semcnt (primap_set p s k) = semcnt k" "flgptn (primap_set p s k) = flgptn k" "dtqs (primap_set p s k) = dtqs k"
  "runtsk (primap_set p s k) = runtsk k" "sense_context (primap_set p s k) = sense_context k"
  "sense_lock (primap_set p s k) = sense_lock k" "rundom (primap_set p s k) = rundom k" "tm (primap_set p s k) = tm k"
  "semcnt (primap_clear p s k) = semcnt k" "flgptn (primap_clear p s k) = flgptn k"
  "dtqs (primap_clear p s k) = dtqs k" "runtsk (primap_clear p s k) = runtsk k"
  "sense_context (primap_clear p s k) = sense_context k" "sense_lock (primap_clear p s k) = sense_lock k"
  "rundom (primap_clear p s k) = rundom k" "tm (primap_clear p s k) = tm k"
  "semcnt (set_queue q ts k) = semcnt k" "flgptn (set_queue q ts k) = flgptn k" "dtqs (set_queue q ts k) = dtqs k"
  "runtsk (set_queue q ts k) = runtsk k" "sense_context (set_queue q ts k) = sense_context k"
  "sense_lock (set_queue q ts k) = sense_lock k" "rundom (set_queue q ts k) = rundom k" "tm (set_queue q ts k) = tm k"
  "semcnt (delete_task t k) = semcnt k" "flgptn (delete_task t k) = flgptn k" "dtqs (delete_task t k) = dtqs k"
  "runtsk (delete_task t k) = runtsk k" "sense_context (delete_task t k) = sense_context k"
  "sense_lock (delete_task t k) = sense_lock k" "rundom (delete_task t k) = rundom k" "tm (delete_task t k) = tm k"
  "semcnt (set_predtsk s x k) = semcnt k" "flgptn (set_predtsk s x k) = flgptn k" "dtqs (set_predtsk s x k) = dtqs k"
  "runtsk (set_predtsk s x k) = runtsk k" "sense_context (set_predtsk s x k) = sense_context k"
  "sense_lock (set_predtsk s x k) = sense_lock k" "rundom (set_predtsk s x k) = rundom k"
  "tm (set_predtsk s x k) = tm k"
  "semcnt (upd_tcb t f k) = semcnt k" "flgptn (upd_tcb t f k) = flgptn k" "dtqs (upd_tcb t f k) = dtqs k"
  "runtsk (upd_tcb t f k) = runtsk k" "sense_context (upd_tcb t f k) = sense_context k"
  "sense_lock (upd_tcb t f k) = sense_lock k" "rundom (upd_tcb t f k) = rundom k" "tm (upd_tcb t f k) = tm k"
  "semcnt (update_if_dsp k) = semcnt k" "flgptn (update_if_dsp k) = flgptn k" "dtqs (update_if_dsp k) = dtqs k"
  "runtsk (update_if_dsp k) = runtsk k" "sense_context (update_if_dsp k) = sense_context k"
  "sense_lock (update_if_dsp k) = sense_lock k" "rundom (update_if_dsp k) = rundom k" "tm (update_if_dsp k) = tm k"
  by (simp_all add: primap_set_def primap_clear_def set_queue_def delete_task_def set_predtsk_def upd_tcb_def
      update_if_dsp_def update_schedtsk_def)

lemma make_runnable_fields [simp]:
  "semcnt (make_runnable t k) = semcnt k" "flgptn (make_runnable t k) = flgptn k" "dtqs (make_runnable t k) = dtqs k"
  "runtsk (make_runnable t k) = runtsk k" "sense_context (make_runnable t k) = sense_context k"
  "sense_lock (make_runnable t k) = sense_lock k" "rundom (make_runnable t k) = rundom k"
  "dspflg (make_runnable t k) = dspflg k" "twdsched (make_runnable t k) = twdsched k"
  "idlesched (make_runnable t k) = idlesched k"
  by (simp_all add: make_runnable_def Let_def split: option.split)

lemma make_non_runnable_fields [simp]:
  "semcnt (make_non_runnable t k) = semcnt k" "flgptn (make_non_runnable t k) = flgptn k"
  "dtqs (make_non_runnable t k) = dtqs k" "runtsk (make_non_runnable t k) = runtsk k"
  "sense_context (make_non_runnable t k) = sense_context k"
  "sense_lock (make_non_runnable t k) = sense_lock k" "rundom (make_non_runnable t k) = rundom k"
  "dspflg (make_non_runnable t k) = dspflg k" "twdsched (make_non_runnable t k) = twdsched k"
  "idlesched (make_non_runnable t k) = idlesched k"
  by (simp_all add: make_non_runnable_def Let_def)

lemma make_non_wait_fields [simp]:
  "semcnt (make_non_wait t k) = semcnt k" "flgptn (make_non_wait t k) = flgptn k" "dtqs (make_non_wait t k) = dtqs k"
  "runtsk (make_non_wait t k) = runtsk k" "sense_context (make_non_wait t k) = sense_context k"
  "sense_lock (make_non_wait t k) = sense_lock k" "rundom (make_non_wait t k) = rundom k"
  "dspflg (make_non_wait t k) = dspflg k" "twdsched (make_non_wait t k) = twdsched k"
  "idlesched (make_non_wait t k) = idlesched k"
  by (simp_all add: make_non_wait_def)

lemma set_wercd_fields [simp]:
  "semcnt (set_wercd t e k) = semcnt k" "flgptn (set_wercd t e k) = flgptn k" "dtqs (set_wercd t e k) = dtqs k"
  "runtsk (set_wercd t e k) = runtsk k" "sense_context (set_wercd t e k) = sense_context k"
  "sense_lock (set_wercd t e k) = sense_lock k" "rundom (set_wercd t e k) = rundom k"
  "dspflg (set_wercd t e k) = dspflg k" "twdsched (set_wercd t e k) = twdsched k"
  "idlesched (set_wercd t e k) = idlesched k"
  by (simp_all add: set_wercd_def)

lemma set_wobj_fields [simp]:
  "semcnt (set_wobj t q k) = semcnt k" "flgptn (set_wobj t q k) = flgptn k" "dtqs (set_wobj t q k) = dtqs k"
  "runtsk (set_wobj t q k) = runtsk k" "sense_context (set_wobj t q k) = sense_context k"
  "sense_lock (set_wobj t q k) = sense_lock k" "rundom (set_wobj t q k) = rundom k"
  "dspflg (set_wobj t q k) = dspflg k" "twdsched (set_wobj t q k) = twdsched k"
  "idlesched (set_wobj t q k) = idlesched k"
  by (simp_all add: set_wobj_def)

lemma wait_dequeue_tmevtb_fields [simp]:
  "semcnt (wait_dequeue_tmevtb t k) = semcnt k" "flgptn (wait_dequeue_tmevtb t k) = flgptn k"
  "dtqs (wait_dequeue_tmevtb t k) = dtqs k" "runtsk (wait_dequeue_tmevtb t k) = runtsk k"
  "sense_context (wait_dequeue_tmevtb t k) = sense_context k"
  "sense_lock (wait_dequeue_tmevtb t k) = sense_lock k" "rundom (wait_dequeue_tmevtb t k) = rundom k"
  "dspflg (wait_dequeue_tmevtb t k) = dspflg k" "twdsched (wait_dequeue_tmevtb t k) = twdsched k"
  "idlesched (wait_dequeue_tmevtb t k) = idlesched k"
  by (simp_all add: wait_dequeue_tmevtb_def split: winfo_union.split option.split)

lemma wait_complete_fields [simp]:
  "semcnt (wait_complete t k) = semcnt k" "flgptn (wait_complete t k) = flgptn k" "dtqs (wait_complete t k) = dtqs k"
  "runtsk (wait_complete t k) = runtsk k" "sense_context (wait_complete t k) = sense_context k"
  "sense_lock (wait_complete t k) = sense_lock k" "rundom (wait_complete t k) = rundom k"
  "dspflg (wait_complete t k) = dspflg k" "twdsched (wait_complete t k) = twdsched k"
  "idlesched (wait_complete t k) = idlesched k"
  by (simp_all add: wait_complete_def)

lemma make_wait_fields [simp]:
  "semcnt (make_wait st w k) = semcnt k" "flgptn (make_wait st w k) = flgptn k" "dtqs (make_wait st w k) = dtqs k"
  "runtsk (make_wait st w k) = runtsk k" "sense_context (make_wait st w k) = sense_context k"
  "sense_lock (make_wait st w k) = sense_lock k" "rundom (make_wait st w k) = rundom k"
  "dspflg (make_wait st w k) = dspflg k" "twdsched (make_wait st w k) = twdsched k"
  "idlesched (make_wait st w k) = idlesched k"
  by (simp_all add: make_wait_def Let_def)

lemma make_wait_tmout_fields [simp]:
  "semcnt (make_wait_tmout st w tmo k) = semcnt k" "flgptn (make_wait_tmout st w tmo k) = flgptn k"
  "dtqs (make_wait_tmout st w tmo k) = dtqs k" "runtsk (make_wait_tmout st w tmo k) = runtsk k"
  "sense_context (make_wait_tmout st w tmo k) = sense_context k"
  "sense_lock (make_wait_tmout st w tmo k) = sense_lock k" "rundom (make_wait_tmout st w tmo k) = rundom k"
  "dspflg (make_wait_tmout st w tmo k) = dspflg k" "twdsched (make_wait_tmout st w tmo k) = twdsched k"
  "idlesched (make_wait_tmout st w tmo k) = idlesched k"
  by (simp_all add: make_wait_tmout_def Let_def)

lemma wobj_queue_insert_fields [simp]:
  "semcnt (wobj_queue_insert c q k) = semcnt k" "flgptn (wobj_queue_insert c q k) = flgptn k"
  "dtqs (wobj_queue_insert c q k) = dtqs k" "runtsk (wobj_queue_insert c q k) = runtsk k"
  "sense_context (wobj_queue_insert c q k) = sense_context k"
  "sense_lock (wobj_queue_insert c q k) = sense_lock k" "rundom (wobj_queue_insert c q k) = rundom k"
  "dspflg (wobj_queue_insert c q k) = dspflg k" "twdsched (wobj_queue_insert c q k) = twdsched k"
  "idlesched (wobj_queue_insert c q k) = idlesched k"
  by (simp_all add: wobj_queue_insert_def)

lemma wobj_make_wait_fields [simp]:
  "semcnt (wobj_make_wait c q st w k) = semcnt k" "flgptn (wobj_make_wait c q st w k) = flgptn k"
  "dtqs (wobj_make_wait c q st w k) = dtqs k" "runtsk (wobj_make_wait c q st w k) = runtsk k"
  "sense_context (wobj_make_wait c q st w k) = sense_context k"
  "sense_lock (wobj_make_wait c q st w k) = sense_lock k" "rundom (wobj_make_wait c q st w k) = rundom k"
  "dspflg (wobj_make_wait c q st w k) = dspflg k" "twdsched (wobj_make_wait c q st w k) = twdsched k"
  "idlesched (wobj_make_wait c q st w k) = idlesched k"
  by (simp_all add: wobj_make_wait_def Let_def)

lemma wobj_make_wait_tmout_fields [simp]:
  "semcnt (wobj_make_wait_tmout c q st w tmo k) = semcnt k" "flgptn (wobj_make_wait_tmout c q st w tmo k) = flgptn k"
  "dtqs (wobj_make_wait_tmout c q st w tmo k) = dtqs k" "runtsk (wobj_make_wait_tmout c q st w tmo k) = runtsk k"
  "sense_context (wobj_make_wait_tmout c q st w tmo k) = sense_context k"
  "sense_lock (wobj_make_wait_tmout c q st w tmo k) = sense_lock k"
  "rundom (wobj_make_wait_tmout c q st w tmo k) = rundom k" "dspflg (wobj_make_wait_tmout c q st w tmo k) = dspflg k"
  "twdsched (wobj_make_wait_tmout c q st w tmo k) = twdsched k"
  "idlesched (wobj_make_wait_tmout c q st w tmo k) = idlesched k"
  by (simp_all add: wobj_make_wait_tmout_def Let_def)

section \<open>The invariant of the scheduler\<close>

lemma ok_unscheduled [simp]:
  "base_ok (k\<lparr>tm := a\<rparr>) t x = base_ok k t x" "kernel_ok (k\<lparr>tm := a\<rparr>) = kernel_ok k"
  "kernel_ok (k\<lparr>semcnt := b\<rparr>) = kernel_ok k" "kernel_ok (k\<lparr>flgptn := d\<rparr>) = kernel_ok k"
  "kernel_ok (k\<lparr>dtqs := e\<rparr>) = kernel_ok k" "kernel_ok (k\<lparr>runtsk := r\<rparr>) = kernel_ok k"
  by (simp_all add: base_ok_def kernel_ok_def unit_ok_def choose_schedtsk_def cong: option.case_cong)

lemma dispatch_ok [simp]:
  "kernel_ok (dispatch k) = kernel_ok k" "kernel_ok (dispatch_task k) = kernel_ok k" "kernel_ok (dispatch_any k) = kernel_ok k"
  by (simp_all add: dispatch_def dispatch_task_def dispatch_any_def request_dispatch_retint_def)

lemma legal_members [simp]: "legal_tstat TS_RUNNABLE" "legal_tstat TS_SUSPENDED" "legal_tstat TS_DORMANT"
  by (simp_all add: legal_tstat_def)

lemma member_facts [simp]:
  "TSTAT_RUNNABLE TS_RUNNABLE" "\<not> TSTAT_RUNNABLE TS_SUSPENDED" "\<not> TSTAT_WAIT_WOBJ TS_SUSPENDED"
  "\<not> TSTAT_RUNNABLE TS_DORMANT" "\<not> TSTAT_WAIT_WOBJ TS_DORMANT"
  by (simp_all add: TSTAT_defs TS_defs)

lemma kernel_ok_delete:
  assumes k: "kernel_ok k" and r: "\<not> TSTAT_RUNNABLE (tstat (tcbs k t))"
  shows "base_ok (delete_task t k) t None"
proof -
  have b: "base_ok k t (place (tcbs k t))" using k kernel_ok_base by blast
  have "tcb_ok (tcbs k t)" using k by (simp add: kernel_ok_def)
  then have "\<forall>q. place (tcbs k t) = Some q \<longrightarrow> \<not> is_ready q" using r by (auto simp: place_def tcb_ok_def split: if_splits)
  with base_delete_wait [OF b] show ?thesis by blast
qed

text \<open>In a kernel in order the first task of a queue is nowhere else.\<close>

lemma delete_next:
  assumes k: "kernel_ok k" and q: "queues k q = t # ts"
  shows "set_queue q ts k = delete_task t k"
proof -
  have dist: "distinct (queues k r)" and place: "t \<in> set (queues k r) \<longleftrightarrow> place (tcbs k t) = Some r" for r
    using k unfolding kernel_ok_def by blast+
  have "t \<in> set (queues k q)" using q by simp
  with place have "t \<notin> set (queues k r)" if "r \<noteq> q" for r using that by auto
  then have "(queues k)(q := ts) = (\<lambda>r. removeAll t (queues k r))"
    using dist [of q] q by (auto simp: fun_eq_iff removeAll_id)
  then show ?thesis by (simp add: set_queue_def delete_task_def)
qed

lemma queued_not_runnable:
  assumes "kernel_ok k" "t \<in> set (queues k q)" "\<not> is_ready q"
  shows "\<not> TSTAT_RUNNABLE (tstat (tcbs k t))" "TSTAT_WAIT_WOBJ (tstat (tcbs k t))"
    "wi_wobj (winfo (tcbs k t)) = Some q" "tstat (tcbs k t) AND NOT TS_SUSPENDED = wait_state q"
    "\<exists>e. wi_union (winfo (tcbs k t)) = P_tmevtb e"
proof -
  have pl: "place (tcbs k t) = Some q" and "tcb_ok (tcbs k t)" using assms unfolding kernel_ok_def by blast+
  from pl assms(3) show r: "\<not> TSTAT_RUNNABLE (tstat (tcbs k t))" and w: "TSTAT_WAIT_WOBJ (tstat (tcbs k t))"
    and o: "wi_wobj (winfo (tcbs k t)) = Some q" by (auto simp: place_def split: if_splits)
  with \<open>tcb_ok (tcbs k t)\<close> show "tstat (tcbs k t) AND NOT TS_SUSPENDED = wait_state q"
    "\<exists>e. wi_union (winfo (tcbs k t)) = P_tmevtb e" by (auto simp: tcb_ok_def)
qed

lemma make_non_wait_ok:
  assumes b: "base_ok k t None" and p: "ipriority (tcbs k t) < 16"
  shows "kernel_ok (make_non_wait t k)"
proof (cases "TSTAT_SUSPENDED (tstat (tcbs k t))")
  case True
  let ?k1 = "upd_tcb t (\<lambda>p. p\<lparr>tstat := TS_SUSPENDED\<rparr>) k"
  have "base_ok ?k1 t None" by (rule base_upd_same [OF b]) simp
  moreover have "place (tcbs ?k1 t) = None" "tcb_ok (tcbs ?k1 t)"
    using b p by (simp_all add: place_def tcb_ok_def base_ok_def)
  ultimately show ?thesis using True kernel_ok_base [of ?k1 t] by (simp add: make_non_wait_def)
next
  case False
  let ?k1 = "upd_tcb t (\<lambda>p. p\<lparr>tstat := TS_RUNNABLE\<rparr>) k"
  have b1: "base_ok ?k1 t None" by (rule base_upd_same [OF b]) simp
  have "place (tcbs ?k1 t) = Some (Ready (schedcb (tcbs ?k1 t)) (priority (tcbs ?k1 t)))" "tcb_ok (tcbs ?k1 t)"
    using b p by (simp_all add: place_def tcb_ok_def base_ok_def)
  with base_make_runnable [OF b1] False show ?thesis
    using kernel_ok_base [of "make_runnable t ?k1" t] by (simp add: make_non_wait_def)
qed

lemma base_set_wercd [simp]: "base_ok k t x \<Longrightarrow> base_ok (set_wercd t e k) t x"
  unfolding set_wercd_def by (rule base_upd_same) simp_all

lemma base_dequeue [simp]: "base_ok (wait_dequeue_tmevtb u k) t x = base_ok k t x"
  by (simp add: wait_dequeue_tmevtb_def split: winfo_union.split option.split)

lemma dequeue_sched [simp]:
  "tcbs (wait_dequeue_tmevtb t k) = tcbs k" "queues (wait_dequeue_tmevtb t k) = queues k"
  "schedtsk (wait_dequeue_tmevtb t k) = schedtsk k"
  by (simp_all add: wait_dequeue_tmevtb_def split: winfo_union.split option.split)

lemma ipriority_set_wercd [simp]: "ipriority (tcbs (set_wercd t e k) u) = ipriority (tcbs k u)"
  by (simp add: set_wercd_def)

lemma ok_ipriority: "kernel_ok k \<Longrightarrow> ipriority (tcbs k t) < 16"
  by (simp add: kernel_ok_def tcb_ok_def)

text \<open>A task is released: taken out of its queue, its block told why, and made ready.\<close>

lemma release_ok:
  assumes k: "kernel_ok k" and r: "\<not> TSTAT_RUNNABLE (tstat (tcbs k t))"
  shows "kernel_ok (make_non_wait t (set_wercd t e (delete_task t k)))"
    "kernel_ok (make_non_wait t (set_wercd t e (wait_dequeue_tmevtb t (delete_task t k))))"
  by (intro make_non_wait_ok; simp add: kernel_ok_delete [OF k r] ok_ipriority [OF k])+

lemma wait_complete_ok:
  assumes "kernel_ok k" "queues k q = t # ts" "\<not> is_ready q"
  shows "kernel_ok (wait_complete t (set_queue q ts k))"
  unfolding wait_complete_def delete_next [OF assms(1,2)]
  by (rule release_ok(2) [OF assms(1)]) (use queued_not_runnable [OF assms(1) _ assms(3), of t] assms(2) in simp)

text \<open>A task that waits for no object is in no queue.\<close>

lemma not_queued:
  assumes "kernel_ok k" "place (tcbs k t) = None"
  shows "delete_task t k = k"
proof -
  have "t \<notin> set (queues k q)" for q using assms unfolding kernel_ok_def by simp
  then show ?thesis by (simp add: delete_task_def removeAll_id)
qed

section \<open>Going to wait\<close>

lemma self_fields [simp]:
  "self (make_runnable t k) = self k" "self (make_non_runnable t k) = self k" "self (make_non_wait t k) = self k"
  "self (make_wait st w k) = self k" "self (make_wait_tmout st w tmo k) = self k" "self (wobj_queue_insert c q k) = self k"
  "self (upd_tcb t f k) = self k" "self (k\<lparr>tm := a\<rparr>) = self k" "self (set_queue q ts k) = self k"
  by (simp_all add: self_def)

lemma wait_block:
  fixes w st
  assumes k: "kernel_ok k" and r: "TSTAT_RUNNABLE (tstat (tcbs k (self k)))"
  defines "k1 \<equiv> make_non_runnable (self k) (upd_tcb (self k) (\<lambda>p. p\<lparr>tstat := st\<rparr>) k)"
  shows "base_ok (upd_tcb (self k) (\<lambda>p. p\<lparr>winfo := w\<rparr>) k1) (self k) None"
    "tcbs k1 = (tcbs k)(self k := (tcbs k (self k))\<lparr>tstat := st\<rparr>)"
    "queues k1 = (\<lambda>q. removeAll (self k) (queues k q))"
proof -
  let ?t = "self k"
  let ?k0 = "upd_tcb ?t (\<lambda>p. p\<lparr>tstat := st\<rparr>) k"
  have "base_ok k ?t (Some (Ready (schedcb (tcbs k ?t)) (priority (tcbs k ?t))))"
    using k r kernel_ok_base [of k ?t] by (simp add: place_def)
  then have "base_ok ?k0 ?t (Some (Ready (schedcb (tcbs ?k0 ?t)) (priority (tcbs ?k0 ?t))))"
    using base_upd_same [of k ?t _ "\<lambda>p. p\<lparr>tstat := st\<rparr>"] by simp
  note b = base_make_non_runnable [OF this]
  show "base_ok (upd_tcb ?t (\<lambda>p. p\<lparr>winfo := w\<rparr>) k1) ?t None"
    unfolding k1_def by (rule base_upd_same [OF b(1)]) simp
  show "tcbs k1 = (tcbs k)(?t := (tcbs k ?t)\<lparr>tstat := st\<rparr>)" "queues k1 = (\<lambda>q. removeAll ?t (queues k q))"
    unfolding k1_def using b(2,3) by simp_all
qed

text \<open>The block as the two forms of waiting leave it.\<close>

definition tmo_block :: "32 word \<Rightarrow> nat \<Rightarrow> nat option" where
  "tmo_block tmo t = (if tmo = TMO_FEVR then None else Some t)"

lemma make_wait_effect:
  assumes k: "kernel_ok k" and r: "TSTAT_RUNNABLE (tstat (tcbs k (self k)))"
  shows "base_ok (make_wait st w k) (self k) None" "base_ok (make_wait_tmout st w tmo k) (self k) None"
    "tcbs (make_wait st w k) = (tcbs k)(self k := (tcbs k (self k))\<lparr>tstat := st, winfo := w\<lparr>wi_union := P_tmevtb None\<rparr>\<rparr>)"
    "tcbs (make_wait_tmout st w tmo k) = (tcbs k)(self k :=
       (tcbs k (self k))\<lparr>tstat := st, winfo := w\<lparr>wi_union := P_tmevtb (tmo_block tmo (self k))\<rparr>\<rparr>)"
    "queues (make_wait st w k) = (\<lambda>q. removeAll (self k) (queues k q))"
    "queues (make_wait_tmout st w tmo k) = (\<lambda>q. removeAll (self k) (queues k q))"
  using wait_block [OF k r] by (simp_all add: make_wait_def make_wait_tmout_def tmo_block_def Let_def)

lemma waits_plain_ok:
  assumes b: "base_ok k1 t None" and p: "tcb_ok p" and t: "tcbs k1 t = p\<lparr>tstat := st, winfo := w\<rparr>"
    and st: "legal_tstat st" "\<not> TSTAT_RUNNABLE st" "\<not> TSTAT_WAIT_WOBJ st"
  shows "kernel_ok k1"
  using b p st kernel_ok_base [of k1 t] by (simp add: t place_def tcb_ok_def)

lemma slp_dly_states:
  "legal_tstat TS_WAITING_SLP" "\<not> TSTAT_RUNNABLE TS_WAITING_SLP" "\<not> TSTAT_WAIT_WOBJ TS_WAITING_SLP"
  "legal_tstat TS_WAITING_DLY" "\<not> TSTAT_RUNNABLE TS_WAITING_DLY" "\<not> TSTAT_WAIT_WOBJ TS_WAITING_DLY"
  by (simp_all add: legal_tstat_def TSTAT_defs TS_defs)

lemma wobj_states:
  assumes "\<not> is_ready q"
  shows "legal_tstat (wait_state q)" "\<not> TSTAT_RUNNABLE (wait_state q)" "TSTAT_WAIT_WOBJ (wait_state q)"
    "wait_state q AND NOT TS_SUSPENDED = wait_state q"
  using assms by (cases q; simp add: wait_state_def legal_tstat_def TSTAT_defs TS_defs)+

lemma waits_wobj_ok:
  assumes b: "base_ok k1 t None" and p: "tcb_ok p" and t: "tcbs k1 t = p\<lparr>tstat := wait_state q, winfo := w\<rparr>"
    and e: "\<exists>e. wi_union w = P_tmevtb e" and q: "\<not> is_ready q"
    and ts: "set ts = insert t (set (queues k1 q))" "distinct ts"
  shows "kernel_ok (set_wobj t q (set_queue q ts k1))"
proof -
  let ?k2 = "set_wobj t q (set_queue q ts k1)"
  have b2: "base_ok ?k2 t (Some q)"
    unfolding set_wobj_def by (rule base_upd_same [OF base_insert_wait [OF b q ts]]) simp
  have "place (tcbs ?k2 t) = Some q" "tcb_ok (tcbs ?k2 t)"
    using p wobj_states [OF q] e q by (simp_all add: set_wobj_def t place_def tcb_ok_def)
  with b2 show ?thesis using kernel_ok_base [of ?k2 t] by simp
qed

definition insert_self :: "kconf \<Rightarrow> qid \<Rightarrow> kernel \<Rightarrow> nat list" where
  "insert_self c q k = (if wobj_tpri c q then queue_insert_tpri (queues k q) (self k) k else queues k q @ [self k])"

lemma insert_self_set:
  "set (insert_self c q k) = insert (self k) (set (queues k q))"
  "self k \<notin> set (queues k q) \<Longrightarrow> distinct (queues k q) \<Longrightarrow> distinct (insert_self c q k)"
  by (simp_all add: insert_self_def insert_tpri_set)

lemma wobj_queue_insert_eq: "wobj_queue_insert c q k = set_queue q (insert_self c q k) k"
  by (simp add: wobj_queue_insert_def insert_self_def)

lemma base_distinct: "base_ok k t None \<Longrightarrow> t \<notin> set (queues k q) \<and> distinct (queues k q)"
  by (simp add: base_ok_def)

lemma wobj_make_wait_ok:
  assumes k: "kernel_ok k" and r: "TSTAT_RUNNABLE (tstat (tcbs k (self k)))" and q: "\<not> is_ready q"
  shows "kernel_ok (wobj_make_wait c q (wait_state q) w k)" "kernel_ok (wobj_make_wait_tmout c q (wait_state q) w tmo k)"
proof -
  note m = make_wait_effect [OF k r]
  have p: "tcb_ok (tcbs k (self k))" using k by (simp add: kernel_ok_def)
  show "kernel_ok (wobj_make_wait c q (wait_state q) w k)"
    unfolding wobj_make_wait_def Let_def wobj_queue_insert_eq
    by (simp, rule waits_wobj_ok [where w = "w\<lparr>wi_union := P_tmevtb None\<rparr>", OF m(1) p _ _ q])
      (use m(3) insert_self_set [where c = c and q = q and k = "make_wait (wait_state q) w k"] base_distinct [OF m(1)] in simp_all)
  show "kernel_ok (wobj_make_wait_tmout c q (wait_state q) w tmo k)"
    unfolding wobj_make_wait_tmout_def Let_def wobj_queue_insert_eq
    by (simp, rule waits_wobj_ok [where w = "w\<lparr>wi_union := P_tmevtb (tmo_block tmo (self k))\<rparr>", OF m(2) p _ _ q])
      (use m(4) insert_self_set [where c = c and q = q and k = "make_wait_tmout (wait_state q) w tmo k"] base_distinct [OF m(2)] in simp_all)
qed

section \<open>Being released\<close>

definition released :: "tstat_t \<Rightarrow> tstat_t" where
  "released s = (if TSTAT_SUSPENDED s then TS_SUSPENDED else TS_RUNNABLE)"

lemma make_runnable_queues: "\<not> is_ready q \<Longrightarrow> queues (make_runnable t k) q = queues k q"
  by (auto simp: make_runnable_def Let_def split: option.split)

lemma make_non_wait_effect [simp]:
  "tcbs (make_non_wait t k) = (tcbs k)(t := (tcbs k t)\<lparr>tstat := released (tstat (tcbs k t))\<rparr>)"
  "\<not> is_ready q \<Longrightarrow> queues (make_non_wait t k) q = queues k q"
  by (simp_all add: make_non_wait_def released_def make_runnable_keeps make_runnable_queues)

lemma set_wercd_effect [simp]:
  "tcbs (set_wercd t e k) = (tcbs k)(t := (tcbs k t)\<lparr>winfo := (winfo (tcbs k t))\<lparr>wi_union := Wercd e\<rparr>\<rparr>)"
  "queues (set_wercd t e k) = queues k"
  by (simp_all add: set_wercd_def)

lemma wait_complete_effect [simp]:
  "tcbs (wait_complete t k) = (tcbs k)(t := (tcbs k t)\<lparr>winfo := (winfo (tcbs k t))\<lparr>wi_union := Wercd E_OK\<rparr>,
     tstat := released (tstat (tcbs k t))\<rparr>)"
  "\<not> is_ready q \<Longrightarrow> queues (wait_complete t k) q = queues k q"
  by (simp_all add: wait_complete_def)

lemma waiting_not_runnable: "legal_tstat s \<Longrightarrow> TSTAT_WAITING s \<Longrightarrow> \<not> TSTAT_RUNNABLE s"
  using legal_runnable [of s] by (auto simp: TSTAT_defs TS_defs)

lemma ok_legal: "kernel_ok k \<Longrightarrow> legal_tstat (tstat (tcbs k t))"
  by (simp add: kernel_ok_def tcb_ok_def)

lemma legal_not_smbf: "legal_tstat s \<Longrightarrow> \<not> TSTAT_WAIT_SMBF s"
  by (auto simp: legal_tstat_def TSTAT_defs TS_defs)

lemma wait_dequeue_wobj_eq:
  assumes k: "kernel_ok k" and r: "\<not> TSTAT_RUNNABLE (tstat (tcbs k t))"
  shows "wait_dequeue_wobj c t k = delete_task t k"
proof (cases "TSTAT_WAIT_WOBJ (tstat (tcbs k t))")
  case True
  then show ?thesis using legal_not_smbf [OF ok_legal [OF k]] by (simp add: wait_dequeue_wobj_def Let_def)
next
  case False
  with r have "place (tcbs k t) = None" by (simp add: place_def)
  from not_queued [OF k this] False show ?thesis by (simp add: wait_dequeue_wobj_def)
qed

text \<open>The loop that empties a waiting queue; a ready queue is never given to it.\<close>

function init_wait_queue :: "qid \<Rightarrow> kernel \<Rightarrow> kernel" where
  "init_wait_queue q k =
    (case queues k q of
       [] \<Rightarrow> k
     | t # ts \<Rightarrow> if is_ready q then k
         else init_wait_queue q (make_non_wait t (set_wercd t E_DLT (wait_dequeue_tmevtb t (set_queue q ts k)))))"
  by pat_completeness auto
termination
  by (relation "measure (\<lambda>(q, k). length (queues k q))") auto

declare init_wait_queue.simps [simp del]

lemma init_wait_queue_step:
  "queues k q = [] \<Longrightarrow> init_wait_queue q k = k"
  "queues k q = t # ts \<Longrightarrow> \<not> is_ready q \<Longrightarrow>
   init_wait_queue q k = init_wait_queue q (make_non_wait t (set_wercd t E_DLT (wait_dequeue_tmevtb t (set_queue q ts k))))"
  by (subst init_wait_queue.simps; simp)+

lemma init_wait_queue_fields [simp]:
  "semcnt (init_wait_queue q k) = semcnt k" "flgptn (init_wait_queue q k) = flgptn k" "dtqs (init_wait_queue q k) = dtqs k"
  "runtsk (init_wait_queue q k) = runtsk k" "sense_context (init_wait_queue q k) = sense_context k"
  "sense_lock (init_wait_queue q k) = sense_lock k" "dspflg (init_wait_queue q k) = dspflg k"
proof (induction q k rule: init_wait_queue.induct)
  case (1 q k)
  { case 1 show ?case using "1.IH"(1) by (subst init_wait_queue.simps) (simp split: list.split) }
  { case 2 show ?case using "1.IH"(2) by (subst init_wait_queue.simps) (simp split: list.split) }
  { case 3 show ?case using "1.IH"(3) by (subst init_wait_queue.simps) (simp split: list.split) }
  { case 4 show ?case using "1.IH"(4) by (subst init_wait_queue.simps) (simp split: list.split) }
  { case 5 show ?case using "1.IH"(5) by (subst init_wait_queue.simps) (simp split: list.split) }
  { case 6 show ?case using "1.IH"(6) by (subst init_wait_queue.simps) (simp split: list.split) }
  { case 7 show ?case using "1.IH"(7) by (subst init_wait_queue.simps) (simp split: list.split) }
qed

text \<open>Every task of the queue is released with \<open>E_DLT\<close>; the other waiting queues stay.\<close>

lemma init_wait_queue_spec:
  "kernel_ok k \<Longrightarrow> \<not> is_ready q \<Longrightarrow> kernel_ok (init_wait_queue q k) \<and>
   (\<forall>q'. \<not> is_ready q' \<longrightarrow> queues (init_wait_queue q k) q' = (if q' = q then [] else queues k q')) \<and>
   (\<forall>u. tcbs (init_wait_queue q k) u = (if u \<in> set (queues k q) then (tcbs k u)\<lparr>winfo := (winfo (tcbs k u))\<lparr>wi_union := Wercd E_DLT\<rparr>,
      tstat := released (tstat (tcbs k u))\<rparr> else tcbs k u))"
proof (induction "queues k q" arbitrary: k)
  case Nil
  from Nil(1) [symmetric] Nil(2) show ?case by (simp add: init_wait_queue_step(1))
next
  case (Cons t ts)
  note q = Cons(2) [symmetric]
  let ?k1 = "make_non_wait t (set_wercd t E_DLT (wait_dequeue_tmevtb t (set_queue q ts k)))"
  have nr: "\<not> TSTAT_RUNNABLE (tstat (tcbs k t))"
    using queued_not_runnable [OF Cons(3) _ Cons(4), of t] q by simp
  have ok: "kernel_ok ?k1" unfolding delete_next [OF Cons(3) q] by (rule release_ok(2) [OF Cons(3) nr])
  have q1: "queues ?k1 q' = (if q' = q then ts else queues k q')" if "\<not> is_ready q'" for q' using that by simp
  have "distinct (queues k q)" using Cons(3) by (simp add: kernel_ok_def)
  then have nt: "t \<notin> set ts" using q by simp
  have t1: "tcbs ?k1 u = (if u = t then (tcbs k t)\<lparr>winfo := (winfo (tcbs k t))\<lparr>wi_union := Wercd E_DLT\<rparr>,
      tstat := released (tstat (tcbs k t))\<rparr> else tcbs k u)" for u by simp
  have IH: "kernel_ok (init_wait_queue q ?k1) \<and>
    (\<forall>q'. \<not> is_ready q' \<longrightarrow> queues (init_wait_queue q ?k1) q' = (if q' = q then [] else queues ?k1 q')) \<and>
    (\<forall>u. tcbs (init_wait_queue q ?k1) u = (if u \<in> set (queues ?k1 q) then (tcbs ?k1 u)\<lparr>winfo := (winfo (tcbs ?k1 u))\<lparr>wi_union := Wercd E_DLT\<rparr>,
      tstat := released (tstat (tcbs ?k1 u))\<rparr> else tcbs ?k1 u))"
    by (rule Cons(1)) (use q1 [OF Cons(4)] ok Cons(4) in simp_all)
  show ?case unfolding init_wait_queue_step(2) [where q = q, OF q Cons(4)]
    using IH nt q q1 t1 Cons(4) by auto
qed

section \<open>The running task\<close>

text \<open>
  The running task can run, and while dispatching is forbidden it is the task to run.  A state is
  good when this holds and the scheduler is in order.
\<close>

definition run_ok :: "kernel \<Rightarrow> bool" where
  "run_ok k \<longleftrightarrow> (\<forall>t. runtsk k = Some t \<longrightarrow> TSTAT_RUNNABLE (tstat (tcbs k t))) \<and>
     (\<not> dspflg k \<longrightarrow> schedtsk k = runtsk k)"

definition good :: "kernel \<Rightarrow> bool" where
  "good k \<longleftrightarrow> kernel_ok k \<and> run_ok k"

lemma goodD [dest]: "good k \<Longrightarrow> kernel_ok k"
  by (simp add: good_def)

lemma update_if_dsp_off: "\<not> dspflg k \<Longrightarrow> update_if_dsp k = k"
  by (simp add: update_if_dsp_def)

lemma set_predtsk_sched [simp]: "schedtsk (set_predtsk s x k) = schedtsk k"
  by (simp add: set_predtsk_def)

lemma undispatched [simp]:
  "\<not> dspflg k \<Longrightarrow> schedtsk (make_runnable t k) = schedtsk k"
  "\<not> dspflg k \<Longrightarrow> schedtsk (make_non_runnable t k) = schedtsk k"
  "\<not> dspflg k \<Longrightarrow> schedtsk (make_non_wait t k) = schedtsk k"
  "\<not> dspflg k \<Longrightarrow> schedtsk (wait_complete t k) = schedtsk k"
  "\<not> dspflg k \<Longrightarrow> schedtsk (rotate_ready_queue p s k) = schedtsk k"
  by (simp_all add: make_runnable_def make_non_runnable_def make_non_wait_def wait_complete_def rotate_ready_queue_def
      set_wercd_def Let_def update_if_dsp_off split: option.split list.split)

text \<open>An operation after which every task that could run still can.\<close>

lemma run_keep:
  assumes "run_ok k" "runtsk k' = runtsk k" "dspflg k' = dspflg k" "\<not> dspflg k \<Longrightarrow> schedtsk k' = schedtsk k"
    "\<And>t. TSTAT_RUNNABLE (tstat (tcbs k t)) \<Longrightarrow> TSTAT_RUNNABLE (tstat (tcbs k' t))"
  shows "run_ok k'"
  using assms by (auto simp: run_ok_def)

lemma good_dispatch:
  assumes "kernel_ok k" "dspflg k"
  shows "good (dispatch k)"
  using assms sched_runnable [OF assms] by (auto simp: good_def run_ok_def dispatch_def)

lemma good_dispatch_any:
  assumes g: "good k"
  shows "good (dispatch_any k)" "good (dispatch_task k)"
proof -
  have "dspflg k" if "runtsk k \<noteq> schedtsk k" using g that by (auto simp: good_def run_ok_def)
  then show "good (dispatch_any k)" "good (dispatch_task k)"
    using g good_dispatch [of k]
    by (auto simp: dispatch_any_def dispatch_task_def request_dispatch_retint_def good_def)
qed

text \<open>A task that cannot run is released: any code, the time event block removed or not.\<close>

lemma good_release:
  assumes g: "good k" and r: "\<not> TSTAT_RUNNABLE (tstat (tcbs k t))"
  shows "good (make_non_wait t (set_wercd t e (delete_task t k)))"
    "good (make_non_wait t (set_wercd t e (wait_dequeue_tmevtb t (delete_task t k))))"
proof -
  have k: "kernel_ok k" and ru: "run_ok k" using g by (simp_all add: good_def)
  have "run_ok (make_non_wait t (set_wercd t e (delete_task t k)))"
    by (rule run_keep [OF ru]) (use r in \<open>auto simp: set_wercd_def\<close>)
  with release_ok(1) [OF k r] show "good (make_non_wait t (set_wercd t e (delete_task t k)))" by (simp add: good_def)
  have "run_ok (make_non_wait t (set_wercd t e (wait_dequeue_tmevtb t (delete_task t k))))"
    by (rule run_keep [OF ru]) (use r in \<open>auto simp: set_wercd_def\<close>)
  with release_ok(2) [OF k r] show "good (make_non_wait t (set_wercd t e (wait_dequeue_tmevtb t (delete_task t k))))"
    by (simp add: good_def)
qed

lemma good_complete:
  assumes g: "good k" and q: "queues k q = t # ts" "\<not> is_ready q"
  shows "good (wait_complete t (set_queue q ts k))"
proof -
  have k: "kernel_ok k" using g by blast
  have "\<not> TSTAT_RUNNABLE (tstat (tcbs k t))" using queued_not_runnable(1) [OF k _ q(2), of t] q(1) by simp
  from good_release(2) [OF g this] show ?thesis unfolding wait_complete_def delete_next [OF k q(1)] .
qed

lemma good_init_wait_queue:
  assumes g: "good k" and q: "\<not> is_ready q"
  shows "good (init_wait_queue q k)"
  using g
proof (induction q k rule: init_wait_queue.induct)
  case (1 q k)
  show ?case
  proof (cases "queues k q = [] \<or> is_ready q")
    case True
    then have "init_wait_queue q k = k" by (subst init_wait_queue.simps) (auto split: list.split)
    with 1(2) show ?thesis by simp
  next
    case False
    then obtain t ts where q: "queues k q = t # ts" by (cases "queues k q") auto
    have k: "kernel_ok k" using 1(2) by blast
    have "\<not> TSTAT_RUNNABLE (tstat (tcbs k t))" using queued_not_runnable(1) [OF k, of t q] q False by simp
    note r = good_release(2) [OF 1(2) this, of E_DLT, folded delete_next [OF k q]]
    from 1(1) [OF q _ r] False show ?thesis by (simp add: init_wait_queue_step(2) [OF q])
  qed
qed

lemma self_eq: "runtsk k = Some t \<Longrightarrow> self k = t"
  by (simp add: self_def)

lemma good_self: "good k \<Longrightarrow> runtsk k \<noteq> None \<Longrightarrow> TSTAT_RUNNABLE (tstat (tcbs k (self k)))"
  by (auto simp: good_def run_ok_def self_def)

lemma good_wait:
  assumes g: "good k" and d: "dspflg k" "runtsk k \<noteq> None" and q: "\<not> is_ready q"
  shows "good (dispatch (wobj_make_wait c q (wait_state q) w k))"
    "good (dispatch (wobj_make_wait_tmout c q (wait_state q) w tmo k))"
  by (rule good_dispatch; use wobj_make_wait_ok [OF goodD [OF g] good_self [OF g d(2)] q] d in simp)+

lemma dispatch_fields [simp]:
  "tcbs (dispatch k) = tcbs k" "queues (dispatch k) = queues k" "semcnt (dispatch k) = semcnt k" "flgptn (dispatch k) = flgptn k"
  "dtqs (dispatch k) = dtqs k" "dspflg (dispatch k) = dspflg k"
  "tcbs (dispatch_task k) = tcbs k" "queues (dispatch_task k) = queues k" "semcnt (dispatch_task k) = semcnt k"
  "flgptn (dispatch_task k) = flgptn k" "dtqs (dispatch_task k) = dtqs k" "dspflg (dispatch_task k) = dspflg k"
  "tcbs (dispatch_any k) = tcbs k" "queues (dispatch_any k) = queues k" "semcnt (dispatch_any k) = semcnt k"
  "flgptn (dispatch_any k) = flgptn k" "dtqs (dispatch_any k) = dtqs k" "dspflg (dispatch_any k) = dspflg k"
  by (simp_all add: dispatch_def dispatch_task_def dispatch_any_def request_dispatch_retint_def)

lemma good_fields [simp]:
  "good (k\<lparr>tm := a\<rparr>) = good k" "good (k\<lparr>semcnt := b\<rparr>) = good k" "good (k\<lparr>flgptn := d\<rparr>) = good k"
  "good (k\<lparr>dtqs := e\<rparr>) = good k"
  by (simp_all add: good_def run_ok_def)

section \<open>Waiting queues between two states\<close>

text \<open>
  \<open>wait_frame k k' X\<close>: no task has come into a waiting queue outside \<open>X\<close>, and those still there
  have the data they wait with.
\<close>

definition wdata :: "kernel \<Rightarrow> nat \<Rightarrow> int \<times> 32 word \<times> 32 word" where
  "wdata k t = (let w = winfo (tcbs k t) in (wi_data w, wi_waiptn w, wi_wfmode w))"

definition wait_frame :: "kernel \<Rightarrow> kernel \<Rightarrow> qid set \<Rightarrow> bool" where
  "wait_frame k k' X \<longleftrightarrow> (\<forall>q. \<not> is_ready q \<and> q \<notin> X \<longrightarrow> set (queues k' q) \<subseteq> set (queues k q) \<and>
     (\<forall>u\<in>set (queues k' q). wdata k' u = wdata k u))"

lemma wdata_wait_complete [simp]: "wdata (wait_complete t k) u = wdata k u"
  by (simp add: wdata_def Let_def)

lemma wdata_dispatch [simp]:
  "wdata (dispatch k) = wdata k" "wdata (dispatch_any k) = wdata k" "wdata (dispatch_task k) = wdata k"
  by (simp_all add: wdata_def fun_eq_iff)

lemma wdata_set_queue [simp]: "wdata (set_queue q ts k) = wdata k"
  by (simp add: wdata_def fun_eq_iff)

lemma frame_complete:
  assumes "queues k q = t # ts" "\<not> is_ready q"
  shows "wait_frame k (wait_complete t (set_queue q ts k)) {}"
  using assms by (auto simp: wait_frame_def)

lemma frame_init:
  assumes "kernel_ok k" "\<not> is_ready q"
  shows "wait_frame k (init_wait_queue q k) {}"
  using init_wait_queue_spec [OF assms] by (auto simp: wait_frame_def wdata_def Let_def)

lemma frame_dispatch [simp]:
  "wait_frame k (dispatch k') X = wait_frame k k' X" "wait_frame k (dispatch_any k') X = wait_frame k k' X"
  "wait_frame k (dispatch_task k') X = wait_frame k k' X"
  by (simp_all add: wait_frame_def)

lemma frame_refl [simp]: "wait_frame k k X"
  by (simp add: wait_frame_def)

text \<open>Going to wait for an object adds the running task to its queue only.\<close>

lemma wait_queues:
  assumes k: "kernel_ok k" and r: "TSTAT_RUNNABLE (tstat (tcbs k (self k)))" and q: "\<not> is_ready q"
  shows "\<not> is_ready q' \<Longrightarrow> queues (wobj_make_wait c q st w k) q' = (if q' = q then insert_self c q (make_wait st w k) else queues k q')"
    "\<not> is_ready q' \<Longrightarrow> queues (wobj_make_wait_tmout c q st w tmo k) q' =
       (if q' = q then insert_self c q (make_wait_tmout st w tmo k) else queues k q')"
    "u \<noteq> self k \<Longrightarrow> tcbs (wobj_make_wait c q st w k) u = tcbs k u"
    "u \<noteq> self k \<Longrightarrow> tcbs (wobj_make_wait_tmout c q st w tmo k) u = tcbs k u"
    "wdata (wobj_make_wait c q st w k) (self k) = (wi_data w, wi_waiptn w, wi_wfmode w)"
    "wdata (wobj_make_wait_tmout c q st w tmo k) (self k) = (wi_data w, wi_waiptn w, wi_wfmode w)"
proof -
  note m = make_wait_effect [OF k r]
  have out: "self k \<notin> set (queues k q')" if "\<not> is_ready q'" for q'
    using queued_not_runnable(1) [OF k _ that, of "self k"] r by blast
  show "queues (wobj_make_wait c q st w k) q' = (if q' = q then insert_self c q (make_wait st w k) else queues k q')"
    if "\<not> is_ready q'"
    using out [OF that] by (simp add: wobj_make_wait_def wobj_queue_insert_eq set_wobj_def m(5) removeAll_id)
  show "queues (wobj_make_wait_tmout c q st w tmo k) q' =
       (if q' = q then insert_self c q (make_wait_tmout st w tmo k) else queues k q')" if "\<not> is_ready q'"
    using out [OF that] by (simp add: wobj_make_wait_tmout_def wobj_queue_insert_eq set_wobj_def m(6) removeAll_id)
  show "u \<noteq> self k \<Longrightarrow> tcbs (wobj_make_wait c q st w k) u = tcbs k u"
    by (simp add: wobj_make_wait_def wobj_queue_insert_eq set_wobj_def m(3))
  show "u \<noteq> self k \<Longrightarrow> tcbs (wobj_make_wait_tmout c q st w tmo k) u = tcbs k u"
    by (simp add: wobj_make_wait_tmout_def wobj_queue_insert_eq set_wobj_def m(4))
  show "wdata (wobj_make_wait c q st w k) (self k) = (wi_data w, wi_waiptn w, wi_wfmode w)"
    by (simp add: wdata_def wobj_make_wait_def wobj_queue_insert_eq set_wobj_def m(3))
  show "wdata (wobj_make_wait_tmout c q st w tmo k) (self k) = (wi_data w, wi_waiptn w, wi_wfmode w)"
    by (simp add: wdata_def wobj_make_wait_tmout_def wobj_queue_insert_eq set_wobj_def m(4))
qed

lemma wait_set:
  assumes k: "kernel_ok k" and r: "TSTAT_RUNNABLE (tstat (tcbs k (self k)))" and q: "\<not> is_ready q"
  shows "set (queues (wobj_make_wait c q st w k) q) = insert (self k) (set (queues k q))"
    "set (queues (wobj_make_wait_tmout c q st w tmo k) q) = insert (self k) (set (queues k q))"
    "self k \<notin> set (queues k q)"
proof -
  note m = make_wait_effect [OF k r]
  show out: "self k \<notin> set (queues k q)" using queued_not_runnable(1) [OF k _ q, of "self k"] r by blast
  show "set (queues (wobj_make_wait c q st w k) q) = insert (self k) (set (queues k q))"
    "set (queues (wobj_make_wait_tmout c q st w tmo k) q) = insert (self k) (set (queues k q))"
    using out by (simp_all add: wait_queues [OF k r q] q insert_self_set m(5,6))
qed

lemma frame_wait:
  assumes k: "kernel_ok k" and r: "TSTAT_RUNNABLE (tstat (tcbs k (self k)))" and q: "\<not> is_ready q"
  shows "wait_frame k (wobj_make_wait c q st w k) {q}" "wait_frame k (wobj_make_wait_tmout c q st w tmo k) {q}"
proof -
  have "u \<noteq> self k" if "u \<in> set (queues k q')" "\<not> is_ready q'" for u q'
    using queued_not_runnable(1) [OF k that] r by blast
  then show "wait_frame k (wobj_make_wait c q st w k) {q}" "wait_frame k (wobj_make_wait_tmout c q st w tmo k) {q}"
    by (auto simp: wait_frame_def wait_queues [OF k r q] wdata_def)
qed

end
