(* ===== verification/Kernel_Sem.thy ===== *)
theory Kernel_Sem
  imports Kernel_Wait
begin

text \<open>
  Semaphores (\<open>hrp3_wo_tecs/kernel/semaphore.c\<close>).  The waiting queue of semaphore \<open>i\<close> is
  \<open>Sem_wait i\<close>; its count is \<open>semcnt k i\<close>.
\<close>

section \<open>The service calls\<close>

text \<open>The block of a call before it waits: what it does not set is never read.\<close>

definition fresh_winfo :: winfo where
  "fresh_winfo = \<lparr>wi_union = P_tmevtb None, wi_wobj = None, wi_data = 0, wi_waiptn = 0, wi_wfmode = 0\<rparr>"

definition initialize_semaphore :: "kconf \<Rightarrow> kernel \<Rightarrow> kernel" where
  "initialize_semaphore c k =
    (let n = nat (tmax_semid c)
     in k\<lparr>queues := \<lambda>q. (case q of Sem_wait i \<Rightarrow> if i < n then [] else queues k q | _ \<Rightarrow> queues k q),
          semcnt := \<lambda>i. if i < n then isemcnt c i else semcnt k i\<rparr>)"

definition sig_sem :: "kconf \<Rightarrow> int \<Rightarrow> kernel \<Rightarrow> reply \<times> kernel" where
  "sig_sem c semid k =
    (if \<not> CHECK_UNL k then (Returns E_CTX, k)
     else if \<not> VALID_OBJID (tmax_semid c) semid then (Returns E_ID, k)
     else let i = INDEX_OBJ semid
          in if VIOLATE_ACPTN (acptn c (Sem i) 1) k then (Returns E_OACV, k)
             else case queues k (Sem_wait i) of
                 t # ts \<Rightarrow> (Returns E_OK, dispatch_any (wait_complete t (set_queue (Sem_wait i) ts k)))
               | [] \<Rightarrow> if semcnt k i < maxsem c i then (Returns E_OK, k\<lparr>semcnt := (semcnt k)(i := semcnt k i + 1)\<rparr>)
                       else (Returns E_QOVR, k))"

definition wai_sem :: "kconf \<Rightarrow> int \<Rightarrow> kernel \<Rightarrow> reply \<times> kernel" where
  "wai_sem c semid k =
    (if \<not> CHECK_DISPATCH k then (Returns E_CTX, k)
     else if \<not> VALID_OBJID (tmax_semid c) semid then (Returns E_ID, k)
     else let i = INDEX_OBJ semid
          in if VIOLATE_ACPTN (acptn c (Sem i) 2) k then (Returns E_OACV, k)
             else if raster (tcbs k (self k)) then (Returns E_RASTER, k)
             else if semcnt k i \<ge> 1 then (Returns E_OK, k\<lparr>semcnt := (semcnt k)(i := semcnt k i - 1)\<rparr>)
             else (Blocks, dispatch (wobj_make_wait c (Sem_wait i) TS_WAITING_SEM fresh_winfo k)))"

definition pol_sem :: "kconf \<Rightarrow> int \<Rightarrow> kernel \<Rightarrow> reply \<times> kernel" where
  "pol_sem c semid k =
    (if \<not> CHECK_TSKCTX_UNL k then (Returns E_CTX, k)
     else if \<not> VALID_OBJID (tmax_semid c) semid then (Returns E_ID, k)
     else let i = INDEX_OBJ semid
          in if VIOLATE_ACPTN (acptn c (Sem i) 2) k then (Returns E_OACV, k)
             else if semcnt k i \<ge> 1 then (Returns E_OK, k\<lparr>semcnt := (semcnt k)(i := semcnt k i - 1)\<rparr>)
             else (Returns E_TMOUT, k))"

definition twai_sem :: "kconf \<Rightarrow> int \<Rightarrow> 32 word \<Rightarrow> kernel \<Rightarrow> reply \<times> kernel" where
  "twai_sem c semid tmout k =
    (if \<not> CHECK_DISPATCH k then (Returns E_CTX, k)
     else if \<not> VALID_OBJID (tmax_semid c) semid then (Returns E_ID, k)
     else if \<not> VALID_TMOUT tmout then (Returns E_PAR, k)
     else let i = INDEX_OBJ semid
          in if VIOLATE_ACPTN (acptn c (Sem i) 2) k then (Returns E_OACV, k)
             else if raster (tcbs k (self k)) then (Returns E_RASTER, k)
             else if semcnt k i \<ge> 1 then (Returns E_OK, k\<lparr>semcnt := (semcnt k)(i := semcnt k i - 1)\<rparr>)
             else if tmout = TMO_POL then (Returns E_TMOUT, k)
             else (Blocks, dispatch (wobj_make_wait_tmout c (Sem_wait i) TS_WAITING_SEM fresh_winfo tmout k)))"

definition ini_sem :: "kconf \<Rightarrow> int \<Rightarrow> kernel \<Rightarrow> reply \<times> kernel" where
  "ini_sem c semid k =
    (if \<not> CHECK_TSKCTX_UNL k then (Returns E_CTX, k)
     else if \<not> VALID_OBJID (tmax_semid c) semid then (Returns E_ID, k)
     else let i = INDEX_OBJ semid
          in if VIOLATE_ACPTN (acptn c (Sem i) 3) k then (Returns E_OACV, k)
             else let k1 = init_wait_queue (Sem_wait i) k
                  in (Returns E_OK, dispatch_task (k1\<lparr>semcnt := (semcnt k1)(i := isemcnt c i)\<rparr>)))"

text \<open>\<open>wr\<close>: the caller may write the packet; then it holds the first waiting task and the count.\<close>

definition ref_sem :: "kconf \<Rightarrow> int \<Rightarrow> bool \<Rightarrow> kernel \<Rightarrow> reply \<times> (int \<times> nat) option" where
  "ref_sem c semid wr k =
    (if \<not> CHECK_TSKCTX_UNL k then (Returns E_CTX, None)
     else if \<not> VALID_OBJID (tmax_semid c) semid then (Returns E_ID, None)
     else if \<not> wr then (Returns E_MACV, None)
     else let i = INDEX_OBJ semid
          in if VIOLATE_ACPTN (acptn c (Sem i) 4) k then (Returns E_OACV, None)
             else (Returns E_OK, Some (wait_tskid (queues k (Sem_wait i)), semcnt k i)))"

section \<open>The count of a semaphore\<close>

text \<open>The count stays within its bound, and tasks wait only while it is zero.\<close>

definition sem_inv :: "kconf \<Rightarrow> kernel \<Rightarrow> nat \<Rightarrow> bool" where
  "sem_inv c k i \<longleftrightarrow> semcnt k i \<le> maxsem c i \<and> (queues k (Sem_wait i) \<noteq> [] \<longrightarrow> semcnt k i = 0)"

lemma sem_inv_frame:
  assumes "sem_inv c k i" "wait_frame k k' X" "Sem_wait i \<notin> X" "semcnt k' i = semcnt k i"
  shows "sem_inv c k' i"
proof -
  have "set (queues k' (Sem_wait i)) \<subseteq> set (queues k (Sem_wait i))" using assms(2,3) by (simp add: wait_frame_def)
  with assms(1,4) show ?thesis by (auto simp: sem_inv_def)
qed

lemma sem_wait_state: "TS_WAITING_SEM = wait_state (Sem_wait i)"
  by (simp add: wait_state_def)

text \<open>What each call does to the scheduler, the waiting queues and the counts.\<close>

definition sem_change :: "kconf \<Rightarrow> kernel \<Rightarrow> kernel \<Rightarrow> bool" where
  "sem_change c k k' \<longleftrightarrow> good k' \<and> dspflg k' = dspflg k \<and> flgptn k' = flgptn k \<and> dtqs k' = dtqs k \<and>
     wait_frame k k' (range Sem_wait) \<and> ((\<forall>i. sem_inv c k i) \<longrightarrow> (\<forall>i. sem_inv c k' i))"

lemma sem_change_refl: "good k \<Longrightarrow> sem_change c k k"
  by (simp add: sem_change_def)

lemma frame_mono: "wait_frame k k' X \<Longrightarrow> X \<subseteq> Y \<Longrightarrow> wait_frame k k' Y"
  by (auto simp: wait_frame_def)

lemma wait_frame_upd [simp]:
  "wait_frame k (k'\<lparr>semcnt := a\<rparr>) X = wait_frame k k' X" "wait_frame k (k'\<lparr>flgptn := b\<rparr>) X = wait_frame k k' X"
  "wait_frame k (k'\<lparr>dtqs := d\<rparr>) X = wait_frame k k' X"
  by (simp_all add: wait_frame_def wdata_def)

lemma sem_change_release:
  assumes g: "good k" and q: "queues k (Sem_wait i) = t # ts"
  shows "sem_change c k (dispatch_any (wait_complete t (set_queue (Sem_wait i) ts k)))"
proof -
  have f: "wait_frame k (wait_complete t (set_queue (Sem_wait i) ts k)) {}" by (rule frame_complete [OF q]) simp
  have "good (wait_complete t (set_queue (Sem_wait i) ts k))" by (rule good_complete [OF g q]) simp
  moreover have "sem_inv c k j \<Longrightarrow> sem_inv c (wait_complete t (set_queue (Sem_wait i) ts k)) j" for j
    by (rule sem_inv_frame [OF _ f]) simp_all
  ultimately show ?thesis using frame_mono [OF f, of "range Sem_wait"] good_dispatch_any
    by (auto simp: sem_change_def sem_inv_def)
qed

lemma sem_change_count:
  assumes g: "good k" and n: "semcnt k i \<le> maxsem c i \<Longrightarrow> n \<le> maxsem c i"
    and z: "queues k (Sem_wait i) \<noteq> [] \<Longrightarrow> semcnt k i = 0 \<Longrightarrow> n = 0"
  shows "sem_change c k (k\<lparr>semcnt := (semcnt k)(i := n)\<rparr>)"
  using assms by (auto simp: sem_change_def sem_inv_def)

lemma sem_change_wait:
  assumes g: "good k" and d: "dspflg k" "runtsk k \<noteq> None" and z: "semcnt k i = 0"
  shows "sem_change c k (dispatch (wobj_make_wait c (Sem_wait i) TS_WAITING_SEM w k))"
    "sem_change c k (dispatch (wobj_make_wait_tmout c (Sem_wait i) TS_WAITING_SEM w tmo k))"
proof -
  note f = frame_wait [OF goodD [OF g] good_self [OF g d(2)], of "Sem_wait i", simplified]
  have i: "sem_inv c k j \<Longrightarrow> sem_inv c (wobj_make_wait c (Sem_wait i) st w k) j"
    "sem_inv c k j \<Longrightarrow> sem_inv c (wobj_make_wait_tmout c (Sem_wait i) st w tmo k) j" for j st
    using sem_inv_frame [OF _ f(1), of c j c st w] sem_inv_frame [OF _ f(2), of c j c st w tmo] z
    by (cases "j = i"; simp add: sem_inv_def)+
  show "sem_change c k (dispatch (wobj_make_wait c (Sem_wait i) TS_WAITING_SEM w k))"
    using good_wait(1) [OF g d, of "Sem_wait i"] i(1) frame_mono [OF f(1)]
    by (simp add: sem_change_def sem_wait_state [of i] sem_inv_def)
  show "sem_change c k (dispatch (wobj_make_wait_tmout c (Sem_wait i) TS_WAITING_SEM w tmo k))"
    using good_wait(2) [OF g d, of "Sem_wait i"] i(2) frame_mono [OF f(2)]
    by (simp add: sem_change_def sem_wait_state [of i] sem_inv_def)
qed

text \<open>Only a task that runs makes a call from task context.\<close>

definition caller :: "kernel \<Rightarrow> bool" where
  "caller k \<longleftrightarrow> sense_context k \<or> runtsk k \<noteq> None"

definition sem_conf_ok :: "kconf \<Rightarrow> bool" where
  "sem_conf_ok c \<longleftrightarrow> (\<forall>i. isemcnt c i \<le> maxsem c i)"

lemma sig_sem_change: "good k \<Longrightarrow> sem_change c k (snd (sig_sem c semid k))"
  by (auto simp: sig_sem_def Let_def sem_change_refl sem_change_release split: list.split intro!: sem_change_count)

lemma wai_sem_change: "good k \<Longrightarrow> caller k \<Longrightarrow> sem_change c k (snd (wai_sem c semid k))"
  by (auto simp: wai_sem_def Let_def sem_change_refl sem_change_wait CHECK_defs caller_def intro!: sem_change_count)

lemma pol_sem_change: "good k \<Longrightarrow> sem_change c k (snd (pol_sem c semid k))"
  by (auto simp: pol_sem_def Let_def sem_change_refl intro!: sem_change_count)

lemma twai_sem_change: "good k \<Longrightarrow> caller k \<Longrightarrow> sem_change c k (snd (twai_sem c semid tmout k))"
  by (auto simp: twai_sem_def Let_def sem_change_refl sem_change_wait CHECK_defs caller_def intro!: sem_change_count)

lemma ini_sem_change:
  assumes g: "good k" and c: "sem_conf_ok c"
  shows "sem_change c k (snd (ini_sem c semid k))"
proof -
  let ?i = "INDEX_OBJ semid"
  let ?k1 = "init_wait_queue (Sem_wait ?i) k"
  note s = init_wait_queue_spec [OF goodD [OF g], of "Sem_wait ?i", simplified]
  have f: "wait_frame k ?k1 {}" by (rule frame_init [OF goodD [OF g]]) simp
  have "good ?k1" by (rule good_init_wait_queue [OF g]) simp
  then have "good (?k1\<lparr>semcnt := n\<rparr>)" for n by simp
  note good_dispatch_any(2) [OF this]
  moreover have "sem_inv c k j \<Longrightarrow> sem_inv c (?k1\<lparr>semcnt := (semcnt k)(?i := isemcnt c ?i)\<rparr>) j" for j
    using sem_inv_frame [OF _ f, of c j] s c by (auto simp: sem_inv_def sem_conf_ok_def)
  ultimately have "sem_change c k (dispatch_task (?k1\<lparr>semcnt := (semcnt ?k1)(?i := isemcnt c ?i)\<rparr>))"
    using frame_mono [OF f, of "range Sem_wait"] by (simp add: sem_change_def sem_inv_def)
  then show ?thesis by (simp add: ini_sem_def Let_def sem_change_refl [OF g])
qed

section \<open>A resource handed over\<close>

text \<open>The checks at the head of the calls on semaphore \<open>semid\<close> let the caller pass.\<close>

definition sem_access :: "kconf \<Rightarrow> int \<Rightarrow> nat \<Rightarrow> kernel \<Rightarrow> bool" where
  "sem_access c semid n k \<longleftrightarrow> VALID_OBJID (tmax_semid c) semid \<and> \<not> VIOLATE_ACPTN (acptn c (Sem (INDEX_OBJ semid)) n) k"

lemma sig_sem_release:
  assumes g: "good k" and a: "CHECK_UNL k" "sem_access c semid 1 k" and q: "queues k (Sem_wait (INDEX_OBJ semid)) = t # ts"
  shows "fst (sig_sem c semid k) = Returns E_OK" "wercd t (snd (sig_sem c semid k)) = Some E_OK"
    "tstat (tcbs (snd (sig_sem c semid k)) t) = released (tstat (tcbs k t))"
    "queues (snd (sig_sem c semid k)) (Sem_wait (INDEX_OBJ semid)) = ts" "semcnt (snd (sig_sem c semid k)) = semcnt k"
  using a q by (simp_all add: sig_sem_def sem_access_def Let_def wercd_def)

lemma wai_sem_blocks:
  assumes g: "good k" and t: "runtsk k = Some t" and a: "CHECK_DISPATCH k" "sem_access c semid 2 k" "\<not> raster (tcbs k t)"
    and z: "semcnt k (INDEX_OBJ semid) = 0"
  defines "k' \<equiv> snd (wai_sem c semid k)"
  shows "fst (wai_sem c semid k) = Blocks" "tstat (tcbs k' t) = TS_WAITING_SEM"
    "queues k' (Sem_wait (INDEX_OBJ semid)) = insert_self c (Sem_wait (INDEX_OBJ semid)) (make_wait TS_WAITING_SEM fresh_winfo k)"
    "semcnt k' = semcnt k"
proof -
  let ?q = "Sem_wait (INDEX_OBJ semid)"
  have s: "self k = t" using t by (simp add: self_def)
  have r: "TSTAT_RUNNABLE (tstat (tcbs k (self k)))" using good_self [OF g] t by simp
  have e: "wai_sem c semid k = (Blocks, dispatch (wobj_make_wait c ?q TS_WAITING_SEM fresh_winfo k))"
    using a z s by (simp add: wai_sem_def sem_access_def Let_def)
  show "fst (wai_sem c semid k) = Blocks" "semcnt k' = semcnt k" unfolding k'_def e by simp_all
  show "tstat (tcbs k' t) = TS_WAITING_SEM"
    using make_wait_effect(3) [OF goodD [OF g] r] s
    by (simp add: k'_def e wobj_make_wait_def wobj_queue_insert_eq set_wobj_def)
  show "queues k' ?q = insert_self c ?q (make_wait TS_WAITING_SEM fresh_winfo k)"
    using wait_queues(1) [OF goodD [OF g] r, of ?q ?q] by (simp add: k'_def e)
qed

lemma waiting_not_suspended: "\<not> TSTAT_SUSPENDED TS_WAITING_SEM" "released TS_WAITING_SEM = TS_RUNNABLE"
  by (simp_all add: released_def TSTAT_defs TS_defs)

lemma sig_sem_fields [simp]:
  "sense_lock (snd (sig_sem c semid k)) = sense_lock k" "rundom (snd (sig_sem c semid k)) = rundom k"
  by (auto simp: sig_sem_def Let_def dispatch_any_def dispatch_def request_dispatch_retint_def split: list.split)

fun signals :: "kconf \<Rightarrow> int \<Rightarrow> nat \<Rightarrow> kernel \<Rightarrow> kernel" where
  "signals c semid 0 k = k"
| "signals c semid (Suc n) k = signals c semid n (snd (sig_sem c semid k))"

lemma signals_spec:
  "good k \<Longrightarrow> \<forall>i. sem_inv c k i \<Longrightarrow> CHECK_UNL k \<Longrightarrow> sem_access c semid 1 k \<Longrightarrow> queues k (Sem_wait (INDEX_OBJ semid)) = ts \<Longrightarrow>
   good (signals c semid n k) \<and> queues (signals c semid n k) (Sem_wait (INDEX_OBJ semid)) = drop n ts \<and>
   semcnt (signals c semid n k) (INDEX_OBJ semid) =
     min (maxsem c (INDEX_OBJ semid)) (semcnt k (INDEX_OBJ semid) + (n - length ts)) \<and>
   (\<forall>t\<in>set (take n ts). wercd t (signals c semid n k) = Some E_OK \<and>
      tstat (tcbs (signals c semid n k) t) = released (tstat (tcbs k t))) \<and>
   (\<forall>t. t \<notin> set (take n ts) \<longrightarrow> tcbs (signals c semid n k) t = tcbs k t)"
proof (induction n arbitrary: k ts)
  case 0
  then have "sem_inv c k (INDEX_OBJ semid)" by blast
  with 0 show ?case by (auto simp: sem_inv_def)
next
  case (Suc n)
  let ?q = "Sem_wait (INDEX_OBJ semid)" and ?k1 = "snd (sig_sem c semid k)"
  have ch: "sem_change c k ?k1" by (rule sig_sem_change [OF Suc.prems(1)])
  have pre: "good ?k1" "\<forall>i. sem_inv c ?k1 i" "CHECK_UNL ?k1" "sem_access c semid 1 ?k1"
    using ch Suc.prems by (auto simp: sem_change_def CHECK_UNL_def sem_access_def VIOLATE_ACPTN_def)
  note IH = Suc.IH [OF pre refl]
  show ?case
  proof (cases ts)
    case Nil
    have le: "semcnt k (INDEX_OBJ semid) \<le> maxsem c (INDEX_OBJ semid)" using Suc.prems(2) by (simp add: sem_inv_def)
    from Nil Suc.prems(1,3-5) le have q1: "queues ?k1 ?q = []" "tcbs ?k1 = tcbs k"
      and c1: "semcnt ?k1 (INDEX_OBJ semid) = min (maxsem c (INDEX_OBJ semid)) (semcnt k (INDEX_OBJ semid) + 1)"
      by (auto simp: sig_sem_def sem_access_def Let_def)
    with IH Nil show ?thesis by simp
  next
    case (Cons t us)
    have "distinct (queues k ?q)" using Suc.prems(1) unfolding good_def kernel_ok_def by blast
    with Cons Suc.prems(5) have d: "t \<notin> set us" by simp
    note r = sig_sem_release [OF Suc.prems(1,3,4) Suc.prems(5) [unfolded Cons]]
    have fr: "tcbs ?k1 u = tcbs k u" if "u \<noteq> t" for u
      using that Suc.prems Cons by (simp add: sig_sem_def sem_access_def Let_def)
    have nt: "t \<notin> set (take n us)" using d by (auto dest: in_set_takeD)
    have "tcbs (signals c semid n ?k1) t = tcbs ?k1 t" using IH r(4) nt by simp
    then have rel: "wercd t (signals c semid n ?k1) = Some E_OK" "tstat (tcbs (signals c semid n ?k1) t) = released (tstat (tcbs k t))"
      using r(2,3) by (simp_all add: wercd_def)
    have oth: "u \<noteq> t" if "u \<in> set (take n us)" for u using that nt by blast
    show ?thesis using IH r(4,5) Cons fr rel oth by auto
  qed
qed

text \<open>A small system: four objects of each kind, semaphores that count to two.\<close>

definition demo_conf :: kconf where
  "demo_conf = \<lparr>tmax_tskid = 4, tmax_semid = 4, tmax_flgid = 4, tmax_dtqid = 4, wobj_tpri = \<lambda>_. False, acptn = \<lambda>_ _. 0,
     isemcnt = \<lambda>_. 0, maxsem = \<lambda>_. 2, iflgptn = \<lambda>_. 0, flg_clr = \<lambda>_. False, flg_wmul = \<lambda>_. True, dtqcnt = \<lambda>_. 2,
     mbfhook_dequeue_wobj = \<lambda>_ k. k, holds_mtx = \<lambda>_. False, mtxhook_check_ceilpri = \<lambda>_ _. True, mtxhook_scan_ceilmtx = \<lambda>_. False\<rparr>"

definition demo :: kernel where
  "demo = dispatch (make_active 2 (make_active 1 idle_kernel))"

lemma demo_good: "good demo"
  unfolding demo_def by (rule good_dispatch [OF two_active_ok])
    (simp add: make_active_def idle_kernel_def)

lemma demo_facts:
  "runtsk demo = Some 2" "sense_context demo = False" "sense_lock demo = False" "dspflg demo = True" "rundom demo = 0"
  "semcnt demo = (\<lambda>_. 0)" "queues demo (Sem_wait i) = []" "raster (tcbs demo t) = False"
  "flgptn demo = (\<lambda>_. 0)" "queues demo (Flg_wait i) = []" "queues demo (Dtq_swait i) = []" "queues demo (Dtq_rwait i) = []"
  "dtqs demo = (\<lambda>_. \<lparr>dtqmb = [0, 0], dtq_count = 0, dtq_head = 0, dtq_tail = 0\<rparr>)"
proof -
  show "runtsk demo = Some 2"
    by (simp add: demo_def dispatch_def make_active_def make_runnable_def Let_def idle_kernel_def upd_tcb_def set_queue_def
        primap_set_def set_predtsk_def update_if_dsp_def update_schedtsk_def choose_schedtsk_def schedcb_kernel_def)
qed (simp_all add: demo_def dispatch_def make_active_def make_runnable_queues make_runnable_keeps idle_kernel_def)

text \<open>No resource of a semaphore is lost and none is made up: after any number of signals
  the tasks that waited have been released in the order of the queue, each with \<open>E_OK\<close>, and the
  signals left over are in the count, up to its maximum.\<close>

lemma signals_accounted:
  assumes "good k" "\<forall>i. sem_inv c k i" "CHECK_UNL k" "sem_access c semid 1 k" "queues k (Sem_wait (INDEX_OBJ semid)) = ts"
  shows "let k' = signals c semid n k; i = INDEX_OBJ semid in
     queues k' (Sem_wait i) = drop n ts \<and> semcnt k' i = min (maxsem c i) (semcnt k i + (n - length ts)) \<and>
     (\<forall>t\<in>set (take n ts). wercd t k' = Some E_OK \<and> tstat (tcbs k' t) = released (tstat (tcbs k t)))"
  using signals_spec [OF assms, of n] by (simp add: Let_def)

lemma demo_waits:
  defines "k \<equiv> snd (wai_sem demo_conf 1 demo)"
  shows "good k" "\<forall>i. sem_inv demo_conf k i" "CHECK_UNL k" "sem_access demo_conf 1 1 k" "queues k (Sem_wait 0) = [2]"
    "semcnt k 0 = 0" "tstat (tcbs k 2) = TS_WAITING_SEM"
proof -
  have acc: "CHECK_DISPATCH demo" "sem_access demo_conf 1 2 demo" "\<not> raster (tcbs demo 2)" "semcnt demo (INDEX_OBJ 1) = 0"
    by (simp_all add: CHECK_defs demo_facts sem_access_def demo_conf_def VALID_OBJID_def VIOLATE_ACPTN_def TACP_KERNEL_def)
  note b = wai_sem_blocks [OF demo_good demo_facts(1) acc, folded k_def]
  have ch: "sem_change demo_conf demo k"
    unfolding k_def by (rule wai_sem_change [OF demo_good]) (simp add: caller_def demo_facts)
  then show "good k" by (simp add: sem_change_def)
  have "\<forall>i. sem_inv demo_conf demo i" by (simp add: sem_inv_def demo_facts)
  with ch show "\<forall>i. sem_inv demo_conf k i" by (simp add: sem_change_def)
  have e: "k = dispatch (wobj_make_wait demo_conf (Sem_wait 0) TS_WAITING_SEM fresh_winfo demo)"
    using acc by (simp add: k_def wai_sem_def sem_access_def Let_def self_def demo_facts INDEX_OBJ_def)
  show "CHECK_UNL k" "sem_access demo_conf 1 1 k"
    by (simp_all add: e CHECK_UNL_def dispatch_def demo_facts sem_access_def demo_conf_def VALID_OBJID_def VIOLATE_ACPTN_def TACP_KERNEL_def)
  have r: "TSTAT_RUNNABLE (tstat (tcbs demo (self demo)))" using good_self [OF demo_good] by (simp add: demo_facts)
  show "queues k (Sem_wait 0) = [2]"
    using b(3) make_wait_effect(5) [OF goodD [OF demo_good] r]
    by (simp add: INDEX_OBJ_def insert_self_def demo_conf_def demo_facts self_def)
  show "semcnt k 0 = 0" "tstat (tcbs k 2) = TS_WAITING_SEM" using b by (simp_all add: demo_facts)
qed

lemma signals_accounted_witness:
  "let k' = signals demo_conf 1 2 (snd (wai_sem demo_conf 1 demo)) in
     queues k' (Sem_wait 0) = [] \<and> semcnt k' 0 = 1 \<and> wercd 2 k' = Some E_OK \<and> tstat (tcbs k' 2) = TS_RUNNABLE"
  using signals_accounted [OF demo_waits(1-4) refl, of 2] demo_waits(5-7)
  by (simp add: Let_def INDEX_OBJ_def demo_conf_def waiting_not_suspended)

end
