(* ===== verification/Kernel_Sync.thy ===== *)
theory Kernel_Sync
  imports Kernel_Sem
begin

text \<open>
  The calls on tasks (\<open>hrp3_wo_tecs/kernel/task_sync.c\<close>, \<open>task_manage.c\<close>, and \<open>rot_rdq\<close> of
  \<open>sys_manage.c\<close>): sleeping and waking up, delay, suspension, activation, priorities.
\<close>

section \<open>Sleeping and waking up\<close>

definition slp_tsk :: "kernel \<Rightarrow> reply \<times> kernel" where
  "slp_tsk k =
    (if \<not> CHECK_DISPATCH k then (Returns E_CTX, k)
     else if raster (tcbs k (self k)) then (Returns E_RASTER, k)
     else if wupque (tcbs k (self k)) then (Returns E_OK, upd_tcb (self k) (\<lambda>p. p\<lparr>wupque := False\<rparr>) k)
     else (Blocks, dispatch (make_wait TS_WAITING_SLP fresh_winfo k)))"

definition tslp_tsk :: "32 word \<Rightarrow> kernel \<Rightarrow> reply \<times> kernel" where
  "tslp_tsk tmout k =
    (if \<not> CHECK_DISPATCH k then (Returns E_CTX, k)
     else if \<not> VALID_TMOUT tmout then (Returns E_PAR, k)
     else if raster (tcbs k (self k)) then (Returns E_RASTER, k)
     else if wupque (tcbs k (self k)) then (Returns E_OK, upd_tcb (self k) (\<lambda>p. p\<lparr>wupque := False\<rparr>) k)
     else if tmout = TMO_POL then (Returns E_TMOUT, k)
     else (Blocks, dispatch (make_wait_tmout TS_WAITING_SLP fresh_winfo tmout k)))"

text \<open>The task a number names, \<open>TSK_SELF\<close> being the caller: a task, or the error code.\<close>

definition task_of :: "kconf \<Rightarrow> int \<Rightarrow> bool \<Rightarrow> kernel \<Rightarrow> nat option" where
  "task_of c tskid may_self k =
    (if tskid = TSK_SELF \<and> may_self then Some (self k)
     else if VALID_OBJID (tmax_tskid c) tskid then Some (INDEX_OBJ tskid) else None)"

definition wup_tsk :: "kconf \<Rightarrow> int \<Rightarrow> kernel \<Rightarrow> reply \<times> kernel" where
  "wup_tsk c tskid k =
    (if \<not> CHECK_UNL k then (Returns E_CTX, k)
     else case task_of c tskid (\<not> sense_context k) k of
         None \<Rightarrow> (Returns E_ID, k)
       | Some t \<Rightarrow>
           if VIOLATE_ACPTN (acptn c (Tsk t) 1) k then (Returns E_OACV, k)
           else if TSTAT_DORMANT (tstat (tcbs k t)) then (Returns E_OBJ, k)
           else if TSTAT_WAIT_SLP (tstat (tcbs k t)) then (Returns E_OK, dispatch_any (wait_complete t k))
           else if \<not> wupque (tcbs k t) then (Returns E_OK, upd_tcb t (\<lambda>p. p\<lparr>wupque := True\<rparr>) k)
           else (Returns E_QOVR, k))"

definition can_wup :: "kconf \<Rightarrow> int \<Rightarrow> kernel \<Rightarrow> reply \<times> kernel" where
  "can_wup c tskid k =
    (if \<not> CHECK_TSKCTX_UNL k then (Returns E_CTX, k)
     else case task_of c tskid True k of
         None \<Rightarrow> (Returns E_ID, k)
       | Some t \<Rightarrow>
           if VIOLATE_ACPTN (acptn c (Tsk t) 1) k then (Returns E_OACV, k)
           else if TSTAT_DORMANT (tstat (tcbs k t)) then (Returns E_OBJ, k)
           else (Returns_uint (if wupque (tcbs k t) then 1 else 0), upd_tcb t (\<lambda>p. p\<lparr>wupque := False\<rparr>) k))"

definition rel_wai :: "kconf \<Rightarrow> int \<Rightarrow> kernel \<Rightarrow> reply \<times> kernel" where
  "rel_wai c tskid k =
    (if \<not> CHECK_UNL k then (Returns E_CTX, k)
     else if \<not> VALID_OBJID (tmax_tskid c) tskid then (Returns E_ID, k)
     else let t = INDEX_OBJ tskid
          in if VIOLATE_ACPTN (acptn c (Tsk t) 2) k then (Returns E_OACV, k)
             else if \<not> TSTAT_WAITING (tstat (tcbs k t)) then (Returns E_OBJ, k)
             else (Returns E_OK, dispatch_any (make_non_wait t (set_wercd t E_RLWAI
                 (wait_dequeue_tmevtb t (wait_dequeue_wobj c t k))))))"

section \<open>Suspension and delay\<close>

definition sus_tsk :: "kconf \<Rightarrow> int \<Rightarrow> kernel \<Rightarrow> reply \<times> kernel" where
  "sus_tsk c tskid k =
    (if \<not> CHECK_TSKCTX_UNL k then (Returns E_CTX, k)
     else case task_of c tskid True k of
         None \<Rightarrow> (Returns E_ID, k)
       | Some t \<Rightarrow>
           if VIOLATE_ACPTN (acptn c (Tsk t) 2) k then (Returns E_OACV, k)
           else if Some t = runtsk k \<and> \<not> dspflg k then (Returns E_CTX, k)
           else if TSTAT_DORMANT (tstat (tcbs k t)) then (Returns E_OBJ, k)
           else if raster (tcbs k t) then (Returns E_RASTER, k)
           else if TSTAT_RUNNABLE (tstat (tcbs k t)) then
             (Returns E_OK, dispatch_task (make_non_runnable t (upd_tcb t (\<lambda>p. p\<lparr>tstat := TS_SUSPENDED\<rparr>) k)))
           else if TSTAT_SUSPENDED (tstat (tcbs k t)) then (Returns E_QOVR, k)
           else (Returns E_OK, upd_tcb t (\<lambda>p. p\<lparr>tstat := tstat p OR TS_SUSPENDED\<rparr>) k))"

definition rsm_tsk :: "kconf \<Rightarrow> int \<Rightarrow> kernel \<Rightarrow> reply \<times> kernel" where
  "rsm_tsk c tskid k =
    (if \<not> CHECK_TSKCTX_UNL k then (Returns E_CTX, k)
     else if \<not> VALID_OBJID (tmax_tskid c) tskid then (Returns E_ID, k)
     else let t = INDEX_OBJ tskid
          in if VIOLATE_ACPTN (acptn c (Tsk t) 2) k then (Returns E_OACV, k)
             else if \<not> TSTAT_SUSPENDED (tstat (tcbs k t)) then (Returns E_OBJ, k)
             else if \<not> TSTAT_WAITING (tstat (tcbs k t)) then
               (Returns E_OK, dispatch_task (make_runnable t (upd_tcb t (\<lambda>p. p\<lparr>tstat := TS_RUNNABLE\<rparr>) k)))
             else (Returns E_OK, upd_tcb t (\<lambda>p. p\<lparr>tstat := tstat p AND NOT TS_SUSPENDED\<rparr>) k))"

definition dly_tsk :: "32 word \<Rightarrow> kernel \<Rightarrow> reply \<times> kernel" where
  "dly_tsk dlytim k =
    (if \<not> CHECK_DISPATCH k then (Returns E_CTX, k)
     else if \<not> VALID_RELTIM dlytim then (Returns E_PAR, k)
     else if raster (tcbs k (self k)) then (Returns E_RASTER, k)
     else let t = self k;
              k1 = make_non_runnable t (upd_tcb t (\<lambda>p. p\<lparr>tstat := TS_WAITING_DLY\<rparr>) k);
              k2 = upd_tcb t (\<lambda>p. p\<lparr>winfo := fresh_winfo\<lparr>wi_union := P_tmevtb (Some t)\<rparr>\<rparr>) k1
          in (Blocks, dispatch (k2\<lparr>tm := tmevtb_enqueue_reltim t dlytim (tmevt_heap (tcbs k2 t)) (tm k2)\<rparr>)))"

section \<open>Activation, states and priorities\<close>

definition act_tsk :: "kconf \<Rightarrow> int \<Rightarrow> kernel \<Rightarrow> reply \<times> kernel" where
  "act_tsk c tskid k =
    (if \<not> CHECK_UNL k then (Returns E_CTX, k)
     else case task_of c tskid (\<not> sense_context k) k of
         None \<Rightarrow> (Returns E_ID, k)
       | Some t \<Rightarrow>
           if VIOLATE_ACPTN (acptn c (Tsk t) 1) k then (Returns E_OACV, k)
           else if TSTAT_DORMANT (tstat (tcbs k t)) then (Returns E_OK, dispatch_any (make_active t k))
           else if noactque (tcbs k t) \<or> actque (tcbs k t) then (Returns E_QOVR, k)
           else (Returns E_OK, upd_tcb t (\<lambda>p. p\<lparr>actque := True\<rparr>) k))"

definition can_act :: "kconf \<Rightarrow> int \<Rightarrow> kernel \<Rightarrow> reply \<times> kernel" where
  "can_act c tskid k =
    (if \<not> CHECK_TSKCTX_UNL k then (Returns E_CTX, k)
     else case task_of c tskid True k of
         None \<Rightarrow> (Returns E_ID, k)
       | Some t \<Rightarrow>
           if VIOLATE_ACPTN (acptn c (Tsk t) 1) k then (Returns E_OACV, k)
           else (Returns_uint (if actque (tcbs k t) then 1 else 0), upd_tcb t (\<lambda>p. p\<lparr>actque := False\<rparr>) k))"

datatype tskstat = TTS_RUN | TTS_RDY | TTS_WAI | TTS_SUS | TTS_WAS | TTS_DMT

definition get_tst :: "kconf \<Rightarrow> int \<Rightarrow> bool \<Rightarrow> kernel \<Rightarrow> reply \<times> tskstat option" where
  "get_tst c tskid wr k =
    (if \<not> CHECK_TSKCTX_UNL k then (Returns E_CTX, None)
     else case task_of c tskid True k of
         None \<Rightarrow> (Returns E_ID, None)
       | Some t \<Rightarrow>
           if \<not> wr then (Returns E_MACV, None)
           else if VIOLATE_ACPTN (acptn c (Tsk t) 4) k then (Returns E_OACV, None)
           else (Returns E_OK, Some
             (let s = tstat (tcbs k t)
              in if TSTAT_DORMANT s then TTS_DMT
                 else if TSTAT_SUSPENDED s then (if TSTAT_WAITING s then TTS_WAS else TTS_SUS)
                 else if TSTAT_WAITING s then TTS_WAI
                 else if Some t = runtsk k then TTS_RUN else TTS_RDY)))"

text \<open>The hooks of the mutexes, and whether a task holds one, are parameters.\<close>

definition TSTAT_WAIT_MTX :: "tstat_t \<Rightarrow> bool" where
  "TSTAT_WAIT_MTX s \<longleftrightarrow> s AND NOT TS_SUSPENDED = push_bit 2 0x14"

definition chg_pri :: "kconf \<Rightarrow> int \<Rightarrow> int \<Rightarrow> kernel \<Rightarrow> reply \<times> kernel" where
  "chg_pri c tskid tskpri k =
    (if \<not> CHECK_TSKCTX_UNL k then (Returns E_CTX, k)
     else case task_of c tskid True k of
         None \<Rightarrow> (Returns E_ID, k)
       | Some t \<Rightarrow>
           if VIOLATE_ACPTN (acptn c (Tsk t) 2) k then (Returns E_OACV, k)
           else if tskpri \<noteq> 0 \<and> \<not> VALID_TPRI tskpri then (Returns E_PAR, k)
           else let newbpri = (if tskpri = 0 then ipriority (tcbs k t) else INT_PRIORITY tskpri)
                in if TSTAT_DORMANT (tstat (tcbs k t)) then (Returns E_OBJ, k)
                   else if (holds_mtx c t \<or> TSTAT_WAIT_MTX (tstat (tcbs k t))) \<and> \<not> mtxhook_check_ceilpri c t newbpri then (Returns E_ILUSE, k)
                   else let k1 = upd_tcb t (\<lambda>p. p\<lparr>bpriority := newbpri\<rparr>) k
                        in (Returns E_OK,
                            if \<not> holds_mtx c t \<or> \<not> mtxhook_scan_ceilmtx c t
                            then dispatch_task (change_priority (wobj_tpri c) t newbpri False k1) else k1))"

definition get_pri :: "kconf \<Rightarrow> int \<Rightarrow> bool \<Rightarrow> kernel \<Rightarrow> reply \<times> int option" where
  "get_pri c tskid wr k =
    (if \<not> CHECK_TSKCTX_UNL k then (Returns E_CTX, None)
     else case task_of c tskid True k of
         None \<Rightarrow> (Returns E_ID, None)
       | Some t \<Rightarrow>
           if \<not> wr then (Returns E_MACV, None)
           else if VIOLATE_ACPTN (acptn c (Tsk t) 4) k then (Returns E_OACV, None)
           else if TSTAT_DORMANT (tstat (tcbs k t)) then (Returns E_OBJ, None)
           else (Returns E_OK, Some (int (priority (tcbs k t)) + 1)))"

definition rot_rdq :: "kconf \<Rightarrow> int \<Rightarrow> kernel \<Rightarrow> reply \<times> kernel" where
  "rot_rdq c tskpri k =
    (if \<not> CHECK_UNL k then (Returns E_CTX, k)
     else let ctx = sense_context k; own = (tskpri = 0 \<and> \<not> ctx)
          in if \<not> own \<and> \<not> VALID_TPRI tskpri then (Returns E_PAR, k)
             else let pri = (if own then bpriority (tcbs k (self k)) else INT_PRIORITY tskpri)
                  in if \<not> ctx \<and> VIOLATE_ACPTN (acptn c (Tskdom (self k)) 1) k then (Returns E_OACV, k)
                     else (Returns E_OK, dispatch_any (rotate_ready_queue pri
                         (if ctx then schedcb_kernel else schedcb (tcbs k (self k))) k)))"

section \<open>The scheduler stays in order\<close>

text \<open>What a call on tasks leaves: the objects, and every waiting queue but for tasks that leave it.\<close>

definition task_change :: "kernel \<Rightarrow> kernel \<Rightarrow> bool" where
  "task_change k k' \<longleftrightarrow> good k' \<and> dspflg k' = dspflg k \<and> semcnt k' = semcnt k \<and> flgptn k' = flgptn k \<and> dtqs k' = dtqs k \<and>
     wait_frame k k' {}"

lemma task_change_refl: "good k \<Longrightarrow> task_change k k"
  by (simp add: task_change_def)

lemma task_change_dispatch:
  assumes "task_change k k'"
  shows "task_change k (dispatch_any k')" "task_change k (dispatch_task k')"
  using assms good_dispatch_any by (simp_all add: task_change_def)

text \<open>Fields the scheduler does not look at.\<close>

lemma kernel_ok_fields:
  assumes k: "kernel_ok k" and f: "priority (f (tcbs k t)) = priority (tcbs k t)" "ipriority (f (tcbs k t)) = ipriority (tcbs k t)"
    "schedcb (f (tcbs k t)) = schedcb (tcbs k t)" "tstat (f (tcbs k t)) = tstat (tcbs k t)" "winfo (f (tcbs k t)) = winfo (tcbs k t)"
  shows "kernel_ok (upd_tcb t f k)"
proof -
  have b: "base_ok k t (place (tcbs k t))" and o: "tcb_ok (tcbs k t)" using k kernel_ok_base [of k t] by simp_all
  have "base_ok (upd_tcb t f k) t (place (tcbs k t))" by (rule base_upd_same [OF b]) (rule f(1))
  moreover have "place (tcbs (upd_tcb t f k) t) = place (tcbs k t)" "tcb_ok (tcbs (upd_tcb t f k) t)"
    using o f by (simp_all add: place_def tcb_ok_def)
  ultimately show ?thesis using kernel_ok_base [of "upd_tcb t f k" t] by simp
qed

lemma task_change_fields:
  assumes g: "good k" and f: "priority (f (tcbs k t)) = priority (tcbs k t)" "ipriority (f (tcbs k t)) = ipriority (tcbs k t)"
    "schedcb (f (tcbs k t)) = schedcb (tcbs k t)" "tstat (f (tcbs k t)) = tstat (tcbs k t)" "winfo (f (tcbs k t)) = winfo (tcbs k t)"
  shows "task_change k (upd_tcb t f k)"
  using kernel_ok_fields [OF goodD [OF g], of f t] f g
  by (auto simp: task_change_def good_def run_ok_def wait_frame_def wdata_def Let_def)

lemma plain_wait_change:
  assumes g: "good k" and d: "dspflg k" "runtsk k \<noteq> None"
  shows "task_change k (dispatch (make_wait TS_WAITING_SLP w k))" "task_change k (dispatch (make_wait_tmout TS_WAITING_SLP w tmo k))"
proof -
  have k: "kernel_ok k" and r: "TSTAT_RUNNABLE (tstat (tcbs k (self k)))" using g good_self [OF g d(2)] by blast+
  note m = make_wait_effect [OF k r]
  have p: "tcb_ok (tcbs k (self k))" using k by (simp add: kernel_ok_def)
  have "kernel_ok (make_wait TS_WAITING_SLP w k)"
    by (rule waits_plain_ok [where st = TS_WAITING_SLP and w = "w\<lparr>wi_union := P_tmevtb None\<rparr>", OF m(1) p]) (simp_all add: m(3) slp_dly_states)
  moreover have "kernel_ok (make_wait_tmout TS_WAITING_SLP w tmo k)"
    by (rule waits_plain_ok [where st = TS_WAITING_SLP and w = "w\<lparr>wi_union := P_tmevtb (tmo_block tmo (self k))\<rparr>", OF m(2) p]) (simp_all add: m(4) slp_dly_states)
  ultimately have "good (dispatch (make_wait TS_WAITING_SLP w k))" "good (dispatch (make_wait_tmout TS_WAITING_SLP w tmo k))"
    using d by (auto intro: good_dispatch)
  moreover have "u \<noteq> self k" if "u \<in> set (queues k q)" "\<not> is_ready q" for u q
    using queued_not_runnable(1) [OF k that] r by blast
  ultimately show "task_change k (dispatch (make_wait TS_WAITING_SLP w k))"
    "task_change k (dispatch (make_wait_tmout TS_WAITING_SLP w tmo k))"
    using m(3-6) by (auto simp: task_change_def wait_frame_def wdata_def)
qed

lemma dly_change:
  assumes g: "good k" and d: "dspflg k" "runtsk k \<noteq> None"
  shows "task_change k (dispatch ((upd_tcb (self k) (\<lambda>p. p\<lparr>winfo := w\<rparr>)
     (make_non_runnable (self k) (upd_tcb (self k) (\<lambda>p. p\<lparr>tstat := TS_WAITING_DLY\<rparr>) k)))\<lparr>tm := a\<rparr>))"
proof -
  have k: "kernel_ok k" and r: "TSTAT_RUNNABLE (tstat (tcbs k (self k)))" using g good_self [OF g d(2)] by blast+
  note b1 = wait_block(1) [OF k r, where st = TS_WAITING_DLY and w = w] and b = wait_block(2,3) [OF k r, where st = TS_WAITING_DLY]
  let ?k1 = "make_non_runnable (self k) (upd_tcb (self k) (\<lambda>p. p\<lparr>tstat := TS_WAITING_DLY\<rparr>) k)"
  let ?k2 = "upd_tcb (self k) (\<lambda>p. p\<lparr>winfo := w\<rparr>) ?k1"
  have p: "tcb_ok (tcbs k (self k))" using k by (simp add: kernel_ok_def)
  have "kernel_ok ?k2" by (rule waits_plain_ok [where st = TS_WAITING_DLY and w = w, OF b1 p]) (simp_all add: b(1) slp_dly_states)
  then have "good (dispatch (?k2\<lparr>tm := a\<rparr>))" using d by (intro good_dispatch) simp_all
  moreover have "u \<noteq> self k" if "u \<in> set (queues k q)" "\<not> is_ready q" for u q
    using queued_not_runnable(1) [OF k that] r by blast
  ultimately show ?thesis using b by (auto simp: task_change_def wait_frame_def wdata_def)
qed

text \<open>A task is released while it waits for no object, or taken from the queue of its object.\<close>

lemma release_change:
  assumes g: "good k" and r: "\<not> TSTAT_RUNNABLE (tstat (tcbs k t))"
  shows "task_change k (make_non_wait t (set_wercd t e (delete_task t k)))"
    "task_change k (make_non_wait t (set_wercd t e (wait_dequeue_tmevtb t (delete_task t k))))"
  using good_release [OF g r, of e] by (auto simp: task_change_def wait_frame_def wdata_def Let_def)

lemma wait_slp_facts:
  assumes "TSTAT_WAIT_SLP s"
  shows "\<not> TSTAT_RUNNABLE s" "\<not> TSTAT_WAIT_WOBJ s"
proof -
  have s: "s AND NOT TS_SUSPENDED = TS_WAITING_SLP" using assms by (simp add: TSTAT_WAIT_SLP_def)
  have "s AND 1 = (s AND NOT TS_SUSPENDED) AND 1" "s AND 0x60 = (s AND NOT TS_SUSPENDED) AND 0x60"
    by (simp_all add: and.assoc TS_SUSPENDED_def)
  then show "\<not> TSTAT_RUNNABLE s" "\<not> TSTAT_WAIT_WOBJ s" unfolding s by (simp_all add: TSTAT_defs TS_defs)
qed

lemma slp_delete:
  assumes k: "kernel_ok k" and s: "TSTAT_WAIT_SLP (tstat (tcbs k t))"
  shows "delete_task t k = k"
  by (rule not_queued [OF k]) (use wait_slp_facts [OF s] in \<open>simp add: place_def\<close>)

lemma wup_release:
  assumes g: "good k" and s: "TSTAT_WAIT_SLP (tstat (tcbs k t))"
  shows "task_change k (wait_complete t k)"
  using release_change(2) [OF g wait_slp_facts(1) [OF s], of E_OK] slp_delete [OF goodD [OF g] s]
  by (simp add: wait_complete_def)

lemma good_after:
  assumes k: "kernel_ok k" and r: "\<not> dspflg k \<Longrightarrow> run_ok k"
  shows "good (dispatch_task k)"
proof (cases "dspflg k")
  case True
  show ?thesis
  proof (cases "runtsk k = schedtsk k")
    case False
    then show ?thesis using good_dispatch [OF k True] by (simp add: dispatch_task_def)
  next
    case same: True
    then show ?thesis using k True sched_runnable [OF k True] by (auto simp: dispatch_task_def good_def run_ok_def)
  qed
next
  case False
  with k r good_dispatch_any(2) show ?thesis by (simp add: good_def)
qed

lemma leave_ready:
  assumes k: "kernel_ok k" and r: "TSTAT_RUNNABLE (tstat (tcbs k t))"
  defines "k1 \<equiv> make_non_runnable t (upd_tcb t (\<lambda>p. p\<lparr>tstat := TS_SUSPENDED\<rparr>) k)"
  shows "kernel_ok k1" "tcbs k1 = (tcbs k)(t := (tcbs k t)\<lparr>tstat := TS_SUSPENDED\<rparr>)" "queues k1 = (\<lambda>q. removeAll t (queues k q))"
proof -
  let ?k0 = "upd_tcb t (\<lambda>p. p\<lparr>tstat := TS_SUSPENDED\<rparr>) k"
  have "base_ok k t (Some (Ready (schedcb (tcbs k t)) (priority (tcbs k t))))"
    using k r kernel_ok_base [of k t] by (simp add: place_def)
  then have "base_ok ?k0 t (Some (Ready (schedcb (tcbs ?k0 t)) (priority (tcbs ?k0 t))))"
    using base_upd_same [of k t _ "\<lambda>p. p\<lparr>tstat := TS_SUSPENDED\<rparr>"] by simp
  note b = base_make_non_runnable [OF this]
  show t: "tcbs k1 = (tcbs k)(t := (tcbs k t)\<lparr>tstat := TS_SUSPENDED\<rparr>)" and "queues k1 = (\<lambda>q. removeAll t (queues k q))"
    using b(2,3) by (simp_all add: k1_def)
  have "tcb_ok (tcbs k t)" using k by (simp add: kernel_ok_def)
  then have "place (tcbs k1 t) = None" "tcb_ok (tcbs k1 t)" by (simp_all add: t place_def tcb_ok_def)
  with b(1) show "kernel_ok k1" using kernel_ok_base [of k1 t] by (simp add: k1_def)
qed

lemma sus_ready_change:
  assumes g: "good k" and r: "TSTAT_RUNNABLE (tstat (tcbs k t))" and d: "\<not> (Some t = runtsk k \<and> \<not> dspflg k)"
  shows "task_change k (dispatch_task (make_non_runnable t (upd_tcb t (\<lambda>p. p\<lparr>tstat := TS_SUSPENDED\<rparr>) k)))"
proof -
  let ?k1 = "make_non_runnable t (upd_tcb t (\<lambda>p. p\<lparr>tstat := TS_SUSPENDED\<rparr>) k)"
  note l = leave_ready [OF goodD [OF g] r]
  have "run_ok ?k1" if off: "\<not> dspflg ?k1"
  proof -
    have "run_ok k" "\<not> dspflg k" using g off by (simp_all add: good_def)
    with d show ?thesis using l(2) by (auto simp: run_ok_def)
  qed
  with good_after [OF l(1)] have "good (dispatch_task ?k1)" by blast
  then show ?thesis using l by (auto simp: task_change_def wait_frame_def wdata_def)
qed

text \<open>A task that waits is suspended too, or only waits again.\<close>

lemma suspend_bits:
  "(s OR TS_SUSPENDED) AND NOT TS_SUSPENDED = s AND NOT TS_SUSPENDED"
  "(s AND NOT TS_SUSPENDED) AND NOT TS_SUSPENDED = s AND NOT TS_SUSPENDED" for s :: tstat_t
  by (simp_all add: bit.conj_disj_distrib2 and.assoc)

lemma same_bits:
  assumes e: "s' AND NOT TS_SUSPENDED = s AND NOT TS_SUSPENDED"
  shows "TSTAT_RUNNABLE s' = TSTAT_RUNNABLE s" "TSTAT_WAIT_WOBJ s' = TSTAT_WAIT_WOBJ s" "TSTAT_WAITING s' = TSTAT_WAITING s"
proof -
  have "x AND m = (x AND NOT TS_SUSPENDED) AND m" if "NOT TS_SUSPENDED AND m = m" for x m :: tstat_t
    using that by (simp add: and.assoc)
  note a = this
  have "s' AND m = s AND m" if "NOT TS_SUSPENDED AND m = m" for m
    using a [OF that, of s'] a [OF that, of s] e by simp
  then have "s' AND 1 = s AND 1" "s' AND 0x60 = s AND 0x60" "s' AND 0x7c = s AND 0x7c" by (simp_all add: TS_SUSPENDED_def)
  then show "TSTAT_RUNNABLE s' = TSTAT_RUNNABLE s" "TSTAT_WAIT_WOBJ s' = TSTAT_WAIT_WOBJ s" "TSTAT_WAITING s' = TSTAT_WAITING s"
    by (simp_all add: TSTAT_defs TS_defs)
qed

lemma legal_waiting:
  assumes "legal_tstat s" "TSTAT_WAITING s"
  shows "s AND NOT TS_SUSPENDED \<in> {TS_WAITING_SLP, TS_WAITING_DLY, TS_WAITING_RDTQ, TS_WAITING_SEM, TS_WAITING_FLG, TS_WAITING_SDTQ}"
  using assms by (auto simp: legal_tstat_def TSTAT_defs TS_defs)

lemma waiting_tstat_change:
  assumes g: "good k" and w: "TSTAT_WAITING (tstat (tcbs k t))"
    and e: "f (tcbs k t) = (tcbs k t)\<lparr>tstat := s\<rparr>" "s AND NOT TS_SUSPENDED = tstat (tcbs k t) AND NOT TS_SUSPENDED"
  shows "task_change k (upd_tcb t f k)"
proof -
  have o: "tcb_ok (tcbs k t)" and l: "legal_tstat (tstat (tcbs k t))" using goodD [OF g] by (simp_all add: kernel_ok_def tcb_ok_def)
  have nr: "\<not> TSTAT_RUNNABLE (tstat (tcbs k t))" by (rule waiting_not_runnable [OF l w])
  have "legal_tstat s" using legal_waiting [OF l w] e(2) by (simp add: legal_tstat_def)
  then have "place (f (tcbs k t)) = place (tcbs k t)" "tcb_ok (f (tcbs k t))"
    using o same_bits [OF e(2)] e by (simp_all add: place_def tcb_ok_def)
  from upd_waiting_ok [where f = f, OF goodD [OF g] nr this] have "good (upd_tcb t f k)"
    using g nr by (auto simp: good_def run_ok_def)
  then show ?thesis using e(1) by (auto simp: task_change_def wait_frame_def wdata_def)
qed

lemma legal_suspended_only:
  assumes "legal_tstat s" "\<not> TSTAT_WAITING s" "TSTAT_SUSPENDED s"
  shows "s = TS_SUSPENDED"
proof -
  have e: "s AND TS_WAITING_MASK = (s AND NOT TS_SUSPENDED) AND TS_WAITING_MASK"
  proof -
    have "NOT TS_SUSPENDED AND TS_WAITING_MASK = TS_WAITING_MASK" by (simp add: TS_defs)
    then show ?thesis by (simp only: and.assoc)
  qed
  have "s AND NOT TS_SUSPENDED \<notin> {TS_WAITING_SLP, TS_WAITING_DLY, TS_WAITING_RDTQ, TS_WAITING_SEM, TS_WAITING_FLG, TS_WAITING_SDTQ}"
    using assms(2) unfolding TSTAT_WAITING_def e by (auto simp: TS_defs)
  with assms show ?thesis by (auto simp: legal_tstat_def TSTAT_defs TS_defs)
qed

lemma resume_change:
  assumes g: "good k" and w: "\<not> TSTAT_WAITING (tstat (tcbs k t))" "TSTAT_SUSPENDED (tstat (tcbs k t))"
  shows "task_change k (make_runnable t (upd_tcb t (\<lambda>p. p\<lparr>tstat := TS_RUNNABLE\<rparr>) k))"
proof -
  let ?k1 = "upd_tcb t (\<lambda>p. p\<lparr>tstat := TS_RUNNABLE\<rparr>) k"
  have k: "kernel_ok k" using g by blast
  have o: "tcb_ok (tcbs k t)" using k by (simp add: kernel_ok_def)
  have "tstat (tcbs k t) = TS_SUSPENDED"
    using o w legal_suspended_only by (simp add: tcb_ok_def)
  then have pl: "place (tcbs k t) = None" by (simp add: place_def)
  have "base_ok k t None" using k kernel_ok_base [of k t] pl by simp
  then have b: "base_ok ?k1 t None" by (rule base_upd_same) simp
  have "place (tcbs ?k1 t) = Some (Ready (schedcb (tcbs ?k1 t)) (priority (tcbs ?k1 t)))" "tcb_ok (tcbs ?k1 t)"
    using o by (simp_all add: place_def tcb_ok_def)
  with base_make_runnable [OF b] have "kernel_ok (make_runnable t ?k1)" using kernel_ok_base [of "make_runnable t ?k1" t] by simp
  moreover have "run_ok (make_runnable t ?k1)"
    by (rule run_keep [of k]) (use g in \<open>auto simp: good_def make_runnable_keeps\<close>)
  ultimately show ?thesis by (simp add: task_change_def good_def wait_frame_def wdata_def make_runnable_keeps make_runnable_queues)
qed

lemma active_change:
  assumes g: "good k" and d: "TSTAT_DORMANT (tstat (tcbs k t))"
  shows "task_change k (make_active t k)"
proof -
  have "run_ok (make_active t k)"
    by (rule run_keep [of k]) (use g in \<open>auto simp: good_def make_active_def make_runnable_keeps\<close>)
  with make_active_ok [OF goodD [OF g] d] show ?thesis
    by (simp add: task_change_def good_def wait_frame_def wdata_def make_active_def make_runnable_keeps make_runnable_queues)
qed

lemma requeue_fields [simp]:
  "tcbs (requeue_ready t o' n m k) = tcbs k" "dspflg (requeue_ready t o' n m k) = dspflg k"
  "semcnt (requeue_ready t o' n m k) = semcnt k" "flgptn (requeue_ready t o' n m k) = flgptn k"
  "dtqs (requeue_ready t o' n m k) = dtqs k" "runtsk (requeue_ready t o' n m k) = runtsk k"
  "schedtsk (requeue_ready t o' n m k) = schedtsk k"
  "\<not> is_ready q \<Longrightarrow> queues (requeue_ready t o' n m k) q = removeAll t (queues k q)"
  by (auto simp: requeue_ready_def Let_def)

lemma change_priority_fields [simp]:
  "tcbs (change_priority tpri t n m k) = (tcbs k)(t := (tcbs k t)\<lparr>priority := n\<rparr>)"
  "dspflg (change_priority tpri t n m k) = dspflg k" "semcnt (change_priority tpri t n m k) = semcnt k"
  "flgptn (change_priority tpri t n m k) = flgptn k" "dtqs (change_priority tpri t n m k) = dtqs k"
  "runtsk (change_priority tpri t n m k) = runtsk k"
  "\<not> dspflg k \<Longrightarrow> schedtsk (change_priority tpri t n m k) = schedtsk k"
  by (simp_all add: change_priority_def wobj_change_priority_def Let_def update_if_dsp_off split: option.split)

lemma change_priority_queues:
  assumes k: "kernel_ok k" and q: "\<not> is_ready q"
  shows "set (queues (change_priority tpri t n m k) q) \<subseteq> set (queues k q)"
proof (cases "TSTAT_RUNNABLE (tstat (tcbs k t))")
  case True
  with q show ?thesis by (auto simp: change_priority_def Let_def split: option.split)
next
  case False
  show ?thesis
  proof (cases "TSTAT_WAIT_WOBJCB (tstat (tcbs k t)) \<and> wi_wobj (winfo (tcbs k t)) = Some q")
    case True
    with False have "place (tcbs k t) = Some q" using wobjcb_wobj by (simp add: place_def)
    with k have "t \<in> set (queues k q)" by (simp add: kernel_ok_def)
    with False True show ?thesis
      by (auto simp: change_priority_def wobj_change_priority_def Let_def insert_tpri_set)
  next
    case False
    with \<open>\<not> TSTAT_RUNNABLE (tstat (tcbs k t))\<close> show ?thesis
      by (auto simp: change_priority_def wobj_change_priority_def Let_def split: option.split)
  qed
qed

lemma priority_change:
  assumes g: "good k" and n: "n < 16"
  shows "task_change k (change_priority tpri t n m k)"
proof -
  have "kernel_ok (change_priority tpri t n m k)"
    using change_priority_ready [OF goodD [OF g] _ n] change_priority_waiting [OF goodD [OF g] _ n] by blast
  moreover have "run_ok (change_priority tpri t n m k)" by (rule run_keep [of k]) (use g in \<open>auto simp: good_def\<close>)
  ultimately show ?thesis
    using change_priority_queues [OF goodD [OF g]] by (auto simp: task_change_def good_def wait_frame_def wdata_def Let_def)
qed

lemma rotate_fields [simp]:
  "tcbs (rotate_ready_queue p s k) = tcbs k" "dspflg (rotate_ready_queue p s k) = dspflg k"
  "semcnt (rotate_ready_queue p s k) = semcnt k" "flgptn (rotate_ready_queue p s k) = flgptn k"
  "dtqs (rotate_ready_queue p s k) = dtqs k" "runtsk (rotate_ready_queue p s k) = runtsk k"
  "sense_context (rotate_ready_queue p s k) = sense_context k"
  "\<not> is_ready q \<Longrightarrow> queues (rotate_ready_queue p s k) q = queues k q"
  by (auto simp: rotate_ready_queue_def Let_def split: list.split)

lemma rotate_change: "good k \<Longrightarrow> task_change k (rotate_ready_queue p s k)"
proof -
  assume g: "good k"
  have "run_ok (rotate_ready_queue p s k)" by (rule run_keep [of k]) (use g in \<open>auto simp: good_def\<close>)
  with rotate_kernel_ok [OF goodD [OF g]] show ?thesis by (simp add: task_change_def good_def wait_frame_def wdata_def)
qed

lemma task_change_trans:
  "task_change k k1 \<Longrightarrow> task_change k1 k2 \<Longrightarrow> task_change k k2"
  by (auto simp: task_change_def wait_frame_def subset_iff)

text \<open>All the calls on tasks.\<close>

lemma slp_changes:
  assumes "good k" "caller k"
  shows "task_change k (snd (slp_tsk k))" "task_change k (snd (tslp_tsk tmo k))" "task_change k (snd (dly_tsk d k))"
  using assms by (auto simp: slp_tsk_def tslp_tsk_def dly_tsk_def Let_def CHECK_defs caller_def task_change_refl
      intro: plain_wait_change dly_change task_change_fields)

lemma wup_changes:
  assumes "good k"
  shows "task_change k (snd (wup_tsk c i k))" "task_change k (snd (can_wup c i k))" "task_change k (snd (act_tsk c i k))"
    "task_change k (snd (can_act c i k))"
  using assms by (auto simp: wup_tsk_def can_wup_def act_tsk_def can_act_def task_change_refl split: option.split
      intro: task_change_dispatch wup_release task_change_fields active_change)

lemma rel_wai_change:
  assumes g: "good k"
  shows "task_change k (snd (rel_wai c i k))"
proof -
  have "task_change k (make_non_wait t (set_wercd t E_RLWAI (wait_dequeue_tmevtb t (wait_dequeue_wobj c t k))))"
    if "TSTAT_WAITING (tstat (tcbs k t))" for t
  proof -
    have nr: "\<not> TSTAT_RUNNABLE (tstat (tcbs k t))" by (rule waiting_not_runnable [OF ok_legal [OF goodD [OF g]] that])
    show ?thesis unfolding wait_dequeue_wobj_eq [OF goodD [OF g] nr] by (rule release_change(2) [OF g nr])
  qed
  then show ?thesis by (auto simp: rel_wai_def Let_def task_change_refl [OF g] intro: task_change_dispatch)
qed

lemma sus_changes:
  assumes g: "good k"
  shows "task_change k (snd (sus_tsk c i k))" "task_change k (snd (rsm_tsk c i k))"
proof -
  have w: "TSTAT_WAITING (tstat (tcbs k t))" if "\<not> TSTAT_DORMANT (tstat (tcbs k t))" "\<not> TSTAT_RUNNABLE (tstat (tcbs k t))"
    "\<not> TSTAT_SUSPENDED (tstat (tcbs k t))" for t
  proof (rule ccontr)
    let ?s = "tstat (tcbs k t)"
    assume nw: "\<not> TSTAT_WAITING ?s"
    have "?s = ?s AND (TS_SUSPENDED OR NOT TS_SUSPENDED)" by (simp add: bit.disj_cancel_right)
    also have "\<dots> = ?s AND NOT TS_SUSPENDED" 
      unfolding bit.conj_disj_distrib using that(3) by (simp add: TSTAT_SUSPENDED_def)
    finally have "?s AND NOT TS_SUSPENDED = ?s" by simp
    with ok_legal [OF goodD [OF g], of t] that nw show False by (auto simp: legal_tstat_def TSTAT_defs TS_defs)
  qed
  show "task_change k (snd (sus_tsk c i k))"
    by (auto simp: sus_tsk_def task_change_refl [OF g] split: option.split
        intro: sus_ready_change [OF g] waiting_tstat_change [OF g w] suspend_bits)
  show "task_change k (snd (rsm_tsk c i k))"
    by (auto simp: rsm_tsk_def Let_def task_change_refl [OF g]
        intro: task_change_dispatch resume_change [OF g] waiting_tstat_change [OF g] suspend_bits)
qed

lemma ipriority_ok: "good k \<Longrightarrow> ipriority (tcbs k t) < 16"
  by (auto simp: good_def kernel_ok_def tcb_ok_def)

lemma chg_pri_change:
  assumes g: "good k"
  shows "task_change k (snd (chg_pri c i p k))"
proof -
  have f: "task_change k (upd_tcb t (\<lambda>q. q\<lparr>bpriority := n\<rparr>) k)" for t n by (rule task_change_fields [OF g]) simp_all
  then have g1: "good (upd_tcb t (\<lambda>q. q\<lparr>bpriority := n\<rparr>) k)" for t n by (simp add: task_change_def)
  have "task_change k (dispatch_task (change_priority tp t n False (upd_tcb t (\<lambda>q. q\<lparr>bpriority := n\<rparr>) k)))" if "n < 16" for t n tp
    by (rule task_change_dispatch(2) [OF task_change_trans [OF f priority_change [OF g1 that]]])
  moreover have "VALID_TPRI p \<Longrightarrow> INT_PRIORITY p < 16" by (auto simp: VALID_TPRI_def INT_PRIORITY_def)
  ultimately show ?thesis using f ipriority_ok [OF g]
    by (simp add: chg_pri_def Let_def task_change_refl [OF g] split: option.split)
qed

lemma rot_rdq_change:
  assumes g: "good k"
  shows "task_change k (snd (rot_rdq c p k))"
proof -
  have "task_change k (dispatch_any (rotate_ready_queue q s k))" for q s by (rule task_change_dispatch [OF rotate_change [OF g]])
  then show ?thesis by (simp add: rot_rdq_def Let_def task_change_refl [OF g])
qed

lemma timeout_change:
  assumes g: "good k" and w: "TSTAT_WAITING (tstat (tcbs k t))"
  shows "task_change k (wait_tmout c t k)"
proof -
  have nr: "\<not> TSTAT_RUNNABLE (tstat (tcbs k t))" by (rule waiting_not_runnable [OF ok_legal [OF goodD [OF g]] w])
  show ?thesis using release_change(1) [OF g nr, of E_TMOUT]
    by (simp add: wait_tmout_def Let_def request_dispatch_retint_def wait_dequeue_wobj_eq [OF goodD [OF g] nr])
qed

lemma timeout_ok_change:
  assumes g: "good k" and w: "TSTAT_WAITING (tstat (tcbs k t))" "\<not> TSTAT_WAIT_WOBJ (tstat (tcbs k t))"
  shows "task_change k (wait_tmout_ok t k)"
proof -
  have nr: "\<not> TSTAT_RUNNABLE (tstat (tcbs k t))" by (rule waiting_not_runnable [OF ok_legal [OF goodD [OF g]] w(1)])
  have "place (tcbs k t) = None" using nr w by (simp add: place_def)
  from release_change(1) [OF g nr, of E_OK] not_queued [OF goodD [OF g] this] show ?thesis
    by (simp add: wait_tmout_ok_def Let_def request_dispatch_retint_def)
qed

section \<open>No wake-up is lost\<close>

definition tsk_access :: "kconf \<Rightarrow> nat \<Rightarrow> nat \<Rightarrow> kernel \<Rightarrow> bool" where
  "tsk_access c t n k \<longleftrightarrow> VALID_OBJID (tmax_tskid c) (TSKID t) \<and> \<not> VIOLATE_ACPTN (acptn c (Tsk t) n) k"

lemma task_of_TSKID:
  assumes "tsk_access c t n k"
  shows "task_of c (TSKID t) b k' = Some t"
  using assms by (simp add: task_of_def tsk_access_def TSKID_def TSK_SELF_def INDEX_OBJ_def)

lemma slp_state: "TSTAT_WAIT_SLP TS_WAITING_SLP" "\<not> TSTAT_DORMANT TS_WAITING_SLP" "released TS_WAITING_SLP = TS_RUNNABLE"
  by (simp_all add: released_def TSTAT_defs TS_defs)

lemma slp_tsk_blocks:
  assumes g: "good k" and t: "runtsk k = Some t" and a: "CHECK_DISPATCH k" "\<not> raster (tcbs k t)" "\<not> wupque (tcbs k t)"
  defines "k' \<equiv> snd (slp_tsk k)"
  shows "fst (slp_tsk k) = Blocks" "tcbs k' t = (tcbs k t)\<lparr>tstat := TS_WAITING_SLP, winfo := fresh_winfo\<lparr>wi_union := P_tmevtb None\<rparr>\<rparr>"
    "sense_lock k' = sense_lock k" "rundom k' = rundom k"
proof -
  have s: "self k = t" using t by (simp add: self_def)
  have r: "TSTAT_RUNNABLE (tstat (tcbs k (self k)))" using good_self [OF g] t by simp
  have e: "slp_tsk k = (Blocks, dispatch (make_wait TS_WAITING_SLP fresh_winfo k))" using a s by (simp add: slp_tsk_def)
  show "fst (slp_tsk k) = Blocks" "sense_lock k' = sense_lock k" "rundom k' = rundom k"
    unfolding k'_def e by (simp_all add: dispatch_def)
  show "tcbs k' t = (tcbs k t)\<lparr>tstat := TS_WAITING_SLP, winfo := fresh_winfo\<lparr>wi_union := P_tmevtb None\<rparr>\<rparr>"
    unfolding k'_def e using make_wait_effect(3) [OF goodD [OF g] r] s by simp
qed

text \<open>A wake-up is not lost, whichever of the two comes first: a task that sleeps is
  released by it with \<open>E_OK\<close>, and a task woken up before it sleeps does not wait at all.\<close>

lemma wakeup_not_lost:
  assumes g: "good k" and t: "runtsk k = Some t" and a: "CHECK_DISPATCH k" "\<not> raster (tcbs k t)" "\<not> wupque (tcbs k t)"
    and w: "tsk_access c t 1 k"
  shows "(let (r1, k1) = slp_tsk k; (r2, k2) = wup_tsk c (TSKID t) k1
      in r1 = Blocks \<and> r2 = Returns E_OK \<and> wercd t k2 = Some E_OK \<and> tstat (tcbs k2 t) = TS_RUNNABLE) \<and>
    (let (r1, k1) = wup_tsk c (TSKID t) k; (r2, k2) = slp_tsk k1
      in r1 = Returns E_OK \<and> r2 = Returns E_OK \<and> \<not> wupque (tcbs k2 t) \<and> tstat (tcbs k2 t) = tstat (tcbs k t))"
proof -
  note b = slp_tsk_blocks [OF g t a]
  note of = task_of_TSKID [OF w]
  have ac: "CHECK_UNL k" "\<not> VIOLATE_ACPTN (acptn c (Tsk t) 1) k" using a w by (simp_all add: CHECK_defs tsk_access_def)
  define k1 where "k1 = snd (slp_tsk k)"
  have "wup_tsk c (TSKID t) k1 = (Returns E_OK, dispatch_any (wait_complete t k1))"
    using b ac of by (simp add: wup_tsk_def k1_def [symmetric] CHECK_UNL_def VIOLATE_ACPTN_def slp_state)
  moreover have "wercd t (dispatch_any (wait_complete t k1)) = Some E_OK" by (simp add: wercd_def)
  moreover have "tstat (tcbs (dispatch_any (wait_complete t k1)) t) = TS_RUNNABLE"
    using b by (simp add: k1_def [symmetric] slp_state)
  ultimately have first: "let (r1, k1) = slp_tsk k; (r2, k2) = wup_tsk c (TSKID t) k1
      in r1 = Blocks \<and> r2 = Returns E_OK \<and> wercd t k2 = Some E_OK \<and> tstat (tcbs k2 t) = TS_RUNNABLE"
    using b(1) by (simp add: k1_def case_prod_beta)
  have r: "tstat (tcbs k t) = TS_RUNNABLE"
    using good_self [OF g] t legal_runnable [OF ok_legal [OF goodD [OF g]]] by (simp add: self_def)
  define k2 where "k2 = upd_tcb t (\<lambda>p. p\<lparr>wupque := True\<rparr>) k"
  have "wup_tsk c (TSKID t) k = (Returns E_OK, k2)"
    using of ac a(3) r by (simp add: wup_tsk_def k2_def TSTAT_defs TS_defs)
  moreover have "slp_tsk k2 = (Returns E_OK, upd_tcb t (\<lambda>p. p\<lparr>wupque := False\<rparr>) k2)"
    using a t by (simp add: slp_tsk_def k2_def CHECK_defs self_def)
  ultimately have "let (r1, k1) = wup_tsk c (TSKID t) k; (r2, k2) = slp_tsk k1
      in r1 = Returns E_OK \<and> r2 = Returns E_OK \<and> \<not> wupque (tcbs k2 t) \<and> tstat (tcbs k2 t) = tstat (tcbs k t)"
    by (simp add: k2_def)
  with first show ?thesis by blast
qed

lemma wakeup_not_lost_witness:
  "let (r1, k1) = slp_tsk demo; (r2, k2) = wup_tsk demo_conf 3 k1 in r1 = Blocks \<and> r2 = Returns E_OK \<and> wercd 2 k2 = Some E_OK"
proof -
  have "\<not> wupque (tcbs demo 2)"
    by (simp add: demo_def make_active_def make_runnable_keeps idle_kernel_def)
  moreover have "tsk_access demo_conf 2 1 demo"
    by (simp add: tsk_access_def VALID_OBJID_def TSKID_def demo_conf_def VIOLATE_ACPTN_def demo_facts TACP_KERNEL_def)
  moreover have "CHECK_DISPATCH demo" "\<not> raster (tcbs demo 2)" by (simp_all add: CHECK_defs demo_facts)
  ultimately have "let (r1, k1) = slp_tsk demo; (r2, k2) = wup_tsk demo_conf (TSKID 2) k1
      in r1 = Blocks \<and> r2 = Returns E_OK \<and> wercd 2 k2 = Some E_OK \<and> tstat (tcbs k2 2) = TS_RUNNABLE"
    using wakeup_not_lost [OF demo_good demo_facts(1)] by blast
  then show ?thesis by (simp add: TSKID_def case_prod_beta Let_def)
qed

end
