(* ===== verification/Kernel_Flag.thy ===== *)
theory Kernel_Flag
  imports Kernel_Sem
begin

text \<open>
  Event flags (\<open>hrp3_wo_tecs/kernel/eventflag.c\<close>): the pattern of flag \<open>i\<close> is \<open>flgptn k i\<close>, its
  waiting queue \<open>Flg_wait i\<close>; a waiting task has the bits it waits for and the mode in its block, and
  finds there the pattern it was released with.
\<close>

section \<open>The service calls\<close>

definition TWF_ORW :: "32 word" where "TWF_ORW = 1"
definition TWF_ANDW :: "32 word" where "TWF_ANDW = 2"

definition flg_cond :: "32 word \<Rightarrow> 32 word \<Rightarrow> 32 word \<Rightarrow> bool" where
  "flg_cond ptn waiptn wfmode \<longleftrightarrow> (if wfmode AND TWF_ORW \<noteq> 0 then ptn AND waiptn \<noteq> 0 else ptn AND waiptn = waiptn)"

definition set_flgptn :: "nat \<Rightarrow> 32 word \<Rightarrow> kernel \<Rightarrow> kernel" where
  "set_flgptn i p k = k\<lparr>flgptn := (flgptn k)(i := p)\<rparr>"

definition initialize_eventflag :: "kconf \<Rightarrow> kernel \<Rightarrow> kernel" where
  "initialize_eventflag c k =
    (let n = nat (tmax_flgid c)
     in k\<lparr>queues := \<lambda>q. (case q of Flg_wait i \<Rightarrow> if i < n then [] else queues k q | _ \<Rightarrow> queues k q),
          flgptn := \<lambda>i. if i < n then iflgptn c i else flgptn k i\<rparr>)"

definition check_flg_cond :: "kconf \<Rightarrow> nat \<Rightarrow> 32 word \<Rightarrow> 32 word \<Rightarrow> kernel \<Rightarrow> 32 word option \<times> kernel" where
  "check_flg_cond c i waiptn wfmode k =
    (if flg_cond (flgptn k i) waiptn wfmode
     then (Some (flgptn k i), if flg_clr c i then set_flgptn i 0 k else k)
     else (None, k))"

definition set_waiptn :: "nat \<Rightarrow> 32 word \<Rightarrow> kernel \<Rightarrow> kernel" where
  "set_waiptn t p k = upd_tcb t (\<lambda>q. q\<lparr>winfo := (winfo q)\<lparr>wi_waiptn := p\<rparr>\<rparr>) k"

text \<open>The walk along the waiting queue: a released task is taken out behind it.\<close>

fun set_flg_loop :: "kconf \<Rightarrow> nat \<Rightarrow> nat list \<Rightarrow> kernel \<Rightarrow> kernel" where
  "set_flg_loop c i [] k = k"
| "set_flg_loop c i (t # ts) k =
     (let w = winfo (tcbs k t)
      in case check_flg_cond c i (wi_waiptn w) (wi_wfmode w) k of
           (None, k1) \<Rightarrow> set_flg_loop c i ts k1
         | (Some p, k1) \<Rightarrow> (let k2 = wait_complete t (delete_task t (set_waiptn t p k1))
             in if flg_clr c i then k2 else set_flg_loop c i ts k2))"

definition set_flg :: "kconf \<Rightarrow> int \<Rightarrow> 32 word \<Rightarrow> kernel \<Rightarrow> reply \<times> kernel" where
  "set_flg c flgid setptn k =
    (if \<not> CHECK_UNL k then (Returns E_CTX, k)
     else if \<not> VALID_OBJID (tmax_flgid c) flgid then (Returns E_ID, k)
     else let i = INDEX_OBJ flgid
          in if VIOLATE_ACPTN (acptn c (Flg i) 1) k then (Returns E_OACV, k)
             else let k1 = set_flgptn i (flgptn k i OR setptn) k
                  in (Returns E_OK, dispatch_any (set_flg_loop c i (queues k1 (Flg_wait i)) k1)))"

definition clr_flg :: "kconf \<Rightarrow> int \<Rightarrow> 32 word \<Rightarrow> kernel \<Rightarrow> reply \<times> kernel" where
  "clr_flg c flgid clrptn k =
    (if \<not> CHECK_TSKCTX_UNL k then (Returns E_CTX, k)
     else if \<not> VALID_OBJID (tmax_flgid c) flgid then (Returns E_ID, k)
     else let i = INDEX_OBJ flgid
          in if VIOLATE_ACPTN (acptn c (Flg i) 1) k then (Returns E_OACV, k)
             else (Returns E_OK, set_flgptn i (flgptn k i AND clrptn) k))"

definition flg_winfo :: "32 word \<Rightarrow> 32 word \<Rightarrow> winfo" where
  "flg_winfo waiptn wfmode = fresh_winfo\<lparr>wi_waiptn := waiptn, wi_wfmode := wfmode\<rparr>"

text \<open>\<open>wr\<close>: the caller may write where the pattern is to go.\<close>

definition wai_flg :: "kconf \<Rightarrow> int \<Rightarrow> 32 word \<Rightarrow> 32 word \<Rightarrow> bool \<Rightarrow> kernel \<Rightarrow> reply \<times> 32 word option \<times> kernel" where
  "wai_flg c flgid waiptn wfmode wr k =
    (if \<not> CHECK_DISPATCH k then (Returns E_CTX, None, k)
     else if \<not> VALID_OBJID (tmax_flgid c) flgid then (Returns E_ID, None, k)
     else if waiptn = 0 then (Returns E_PAR, None, k)
     else if \<not> (wfmode = TWF_ORW \<or> wfmode = TWF_ANDW) then (Returns E_PAR, None, k)
     else if \<not> wr then (Returns E_MACV, None, k)
     else let i = INDEX_OBJ flgid
          in if VIOLATE_ACPTN (acptn c (Flg i) 2) k then (Returns E_OACV, None, k)
             else if raster (tcbs k (self k)) then (Returns E_RASTER, None, k)
             else if \<not> flg_wmul c i \<and> queues k (Flg_wait i) \<noteq> [] then (Returns E_ILUSE, None, k)
             else let (p, k1) = check_flg_cond c i waiptn wfmode k
                  in if p \<noteq> None then (Returns E_OK, p, k1)
                     else (Blocks, None, dispatch (wobj_make_wait c (Flg_wait i) TS_WAITING_FLG (flg_winfo waiptn wfmode) k1)))"

definition pol_flg :: "kconf \<Rightarrow> int \<Rightarrow> 32 word \<Rightarrow> 32 word \<Rightarrow> bool \<Rightarrow> kernel \<Rightarrow> reply \<times> 32 word option \<times> kernel" where
  "pol_flg c flgid waiptn wfmode wr k =
    (if \<not> CHECK_TSKCTX_UNL k then (Returns E_CTX, None, k)
     else if \<not> VALID_OBJID (tmax_flgid c) flgid then (Returns E_ID, None, k)
     else if waiptn = 0 then (Returns E_PAR, None, k)
     else if \<not> (wfmode = TWF_ORW \<or> wfmode = TWF_ANDW) then (Returns E_PAR, None, k)
     else if \<not> wr then (Returns E_MACV, None, k)
     else let i = INDEX_OBJ flgid
          in if VIOLATE_ACPTN (acptn c (Flg i) 2) k then (Returns E_OACV, None, k)
             else if \<not> flg_wmul c i \<and> queues k (Flg_wait i) \<noteq> [] then (Returns E_ILUSE, None, k)
             else let (p, k1) = check_flg_cond c i waiptn wfmode k
                  in if p \<noteq> None then (Returns E_OK, p, k1) else (Returns E_TMOUT, None, k1))"

definition twai_flg :: "kconf \<Rightarrow> int \<Rightarrow> 32 word \<Rightarrow> 32 word \<Rightarrow> bool \<Rightarrow> 32 word \<Rightarrow> kernel \<Rightarrow> reply \<times> 32 word option \<times> kernel" where
  "twai_flg c flgid waiptn wfmode wr tmout k =
    (if \<not> CHECK_DISPATCH k then (Returns E_CTX, None, k)
     else if \<not> VALID_OBJID (tmax_flgid c) flgid then (Returns E_ID, None, k)
     else if waiptn = 0 then (Returns E_PAR, None, k)
     else if \<not> (wfmode = TWF_ORW \<or> wfmode = TWF_ANDW) then (Returns E_PAR, None, k)
     else if \<not> wr then (Returns E_MACV, None, k)
     else if \<not> VALID_TMOUT tmout then (Returns E_PAR, None, k)
     else let i = INDEX_OBJ flgid
          in if VIOLATE_ACPTN (acptn c (Flg i) 2) k then (Returns E_OACV, None, k)
             else if raster (tcbs k (self k)) then (Returns E_RASTER, None, k)
             else if \<not> flg_wmul c i \<and> queues k (Flg_wait i) \<noteq> [] then (Returns E_ILUSE, None, k)
             else let (p, k1) = check_flg_cond c i waiptn wfmode k
                  in if p \<noteq> None then (Returns E_OK, p, k1)
                     else if tmout = TMO_POL then (Returns E_TMOUT, None, k1)
                     else (Blocks, None, dispatch (wobj_make_wait_tmout c (Flg_wait i) TS_WAITING_FLG
                         (flg_winfo waiptn wfmode) tmout k1)))"

text \<open>What a caller that has waited takes back.\<close>

definition resume_flg :: "nat \<Rightarrow> kernel \<Rightarrow> ER option \<times> 32 word option" where
  "resume_flg t k = (wercd t k, if wercd t k = Some E_OK then Some (wi_waiptn (winfo (tcbs k t))) else None)"

definition ini_flg :: "kconf \<Rightarrow> int \<Rightarrow> kernel \<Rightarrow> reply \<times> kernel" where
  "ini_flg c flgid k =
    (if \<not> CHECK_TSKCTX_UNL k then (Returns E_CTX, k)
     else if \<not> VALID_OBJID (tmax_flgid c) flgid then (Returns E_ID, k)
     else let i = INDEX_OBJ flgid
          in if VIOLATE_ACPTN (acptn c (Flg i) 3) k then (Returns E_OACV, k)
             else (Returns E_OK, dispatch_task (set_flgptn i (iflgptn c i) (init_wait_queue (Flg_wait i) k))))"

definition ref_flg :: "kconf \<Rightarrow> int \<Rightarrow> bool \<Rightarrow> kernel \<Rightarrow> reply \<times> (int \<times> 32 word) option" where
  "ref_flg c flgid wr k =
    (if \<not> CHECK_TSKCTX_UNL k then (Returns E_CTX, None)
     else if \<not> VALID_OBJID (tmax_flgid c) flgid then (Returns E_ID, None)
     else if \<not> wr then (Returns E_MACV, None)
     else let i = INDEX_OBJ flgid
          in if VIOLATE_ACPTN (acptn c (Flg i) 4) k then (Returns E_OACV, None)
             else (Returns E_OK, Some (wait_tskid (queues k (Flg_wait i)), flgptn k i)))"

section \<open>The state of an event flag\<close>

text \<open>No task waits for bits that are set, and without \<open>TA_WMUL\<close> at most one task waits.\<close>

definition unmet :: "kernel \<Rightarrow> nat \<Rightarrow> 32 word \<Rightarrow> bool" where
  "unmet k t p \<longleftrightarrow> wi_waiptn (winfo (tcbs k t)) \<noteq> 0 \<and> \<not> flg_cond p (wi_waiptn (winfo (tcbs k t))) (wi_wfmode (winfo (tcbs k t)))"

definition flg_inv :: "kconf \<Rightarrow> kernel \<Rightarrow> nat \<Rightarrow> bool" where
  "flg_inv c k i \<longleftrightarrow> (\<forall>t\<in>set (queues k (Flg_wait i)). unmet k t (flgptn k i)) \<and>
     (\<not> flg_wmul c i \<longrightarrow> card (set (queues k (Flg_wait i))) \<le> 1)"

lemma unmet_wdata: "wdata k' t = wdata k t \<Longrightarrow> unmet k' t p = unmet k t p"
  by (simp add: unmet_def wdata_def Let_def)

lemma flg_inv_shrink:
  assumes "flg_inv c k i" "set (queues k' (Flg_wait i)) \<subseteq> set (queues k (Flg_wait i))"
    "\<And>t. t \<in> set (queues k' (Flg_wait i)) \<Longrightarrow> wdata k' t = wdata k t" "flgptn k' i = flgptn k i"
  shows "flg_inv c k' i"
proof -
  have "card (set (queues k' (Flg_wait i))) \<le> card (set (queues k (Flg_wait i)))" using assms(2) by (simp add: card_mono)
  with assms unmet_wdata [OF assms(3)] show ?thesis by (auto simp: flg_inv_def)
qed

lemma flg_inv_frame:
  assumes "flg_inv c k i" "wait_frame k k' X" "Flg_wait i \<notin> X" "flgptn k' i = flgptn k i"
  shows "flg_inv c k' i"
proof -
  have "set (queues k' (Flg_wait i)) \<subseteq> set (queues k (Flg_wait i))"
    "\<And>t. t \<in> set (queues k' (Flg_wait i)) \<Longrightarrow> wdata k' t = wdata k t"
    using assms(2) [unfolded wait_frame_def, rule_format, of "Flg_wait i"] assms(3) by simp_all
  from flg_inv_shrink [OF assms(1) this assms(4)] show ?thesis .
qed

definition flg_change :: "kconf \<Rightarrow> kernel \<Rightarrow> kernel \<Rightarrow> bool" where
  "flg_change c k k' \<longleftrightarrow> good k' \<and> dspflg k' = dspflg k \<and> semcnt k' = semcnt k \<and> dtqs k' = dtqs k \<and>
     wait_frame k k' (range Flg_wait) \<and> (\<forall>i. flg_inv c k' i)"

lemma flg_changeI:
  assumes "good k'" "dspflg k' = dspflg k" "semcnt k' = semcnt k" "dtqs k' = dtqs k" "wait_frame k k' {Flg_wait i}"
    "\<forall>j. flg_inv c k j" "\<And>j. j \<noteq> i \<Longrightarrow> flgptn k' j = flgptn k j" "flg_inv c k' i"
  shows "flg_change c k k'"
proof -
  have "flg_inv c k' j" for j
    using assms(6,8) flg_inv_frame [OF _ assms(5), of c j] assms(7) [of j] by (cases "j = i") auto
  with assms frame_mono [OF assms(5), of "range Flg_wait"] show ?thesis by (simp add: flg_change_def)
qed

lemma flg_change_refl: "good k \<Longrightarrow> \<forall>i. flg_inv c k i \<Longrightarrow> flg_change c k k"
  by (simp add: flg_change_def)

lemma flg_change_dispatch:
  assumes "flg_change c k k'"
  shows "flg_change c k (dispatch_any k')" "flg_change c k (dispatch_task k')"
  using assms good_dispatch_any by (simp_all add: flg_change_def flg_inv_def unmet_def)

lemma flg_cond_0: "w \<noteq> 0 \<Longrightarrow> \<not> flg_cond 0 w m"
  by (simp add: flg_cond_def)

lemma flg_cond_less: "flg_cond (p AND c) w m \<Longrightarrow> flg_cond p w m"
proof -
  have e: "(p AND c) AND w = (p AND w) AND c" by (simp only: and.commute and.left_commute)
  have "p AND w = w" if "(p AND c) AND w = w"
  proof -
    have "p AND w = p AND ((p AND c) AND w)" using that by simp
    also have "\<dots> = (p AND c) AND w" by (simp only: and.assoc [symmetric] and.idem)
    finally show ?thesis using that by simp
  qed
  then show "flg_cond (p AND c) w m \<Longrightarrow> flg_cond p w m"
    using e by (auto simp: flg_cond_def split: if_splits)
qed

section \<open>Setting bits\<close>

lemma set_flgptn_effect [simp]:
  "queues (set_flgptn i p k) = queues k" "tcbs (set_flgptn i p k) = tcbs k" "flgptn (set_flgptn i p k) = (flgptn k)(i := p)"
  "dspflg (set_flgptn i p k) = dspflg k" "semcnt (set_flgptn i p k) = semcnt k" "dtqs (set_flgptn i p k) = dtqs k"
  "good (set_flgptn i p k) = good k" "wait_frame k0 (set_flgptn i p k) X = wait_frame k0 k X"
  "sense_context (set_flgptn i p k) = sense_context k"
  by (simp_all add: set_flgptn_def)

lemma set_waiptn_effect [simp]:
  "queues (set_waiptn t p k) = queues k" "dspflg (set_waiptn t p k) = dspflg k" "semcnt (set_waiptn t p k) = semcnt k"
  "tcbs (set_waiptn t p k) = (tcbs k)(t := (tcbs k t)\<lparr>winfo := (winfo (tcbs k t))\<lparr>wi_waiptn := p\<rparr>\<rparr>)"
  "flgptn (set_waiptn t p k) = flgptn k" "dtqs (set_waiptn t p k) = dtqs k" "runtsk (set_waiptn t p k) = runtsk k"
  "schedtsk (set_waiptn t p k) = schedtsk k"
  by (simp_all add: set_waiptn_def)

definition sat :: "kernel \<Rightarrow> 32 word \<Rightarrow> nat \<Rightarrow> bool" where
  "sat k p t \<longleftrightarrow> flg_cond p (wi_waiptn (winfo (tcbs k t))) (wi_wfmode (winfo (tcbs k t)))"

text \<open>A task released with the pattern \<open>p\<close>.\<close>

definition given :: "32 word \<Rightarrow> tcb \<Rightarrow> tcb" where
  "given p q = q\<lparr>winfo := (winfo q)\<lparr>wi_waiptn := p, wi_union := Wercd E_OK\<rparr>, tstat := released (tstat q)\<rparr>"

definition give :: "nat \<Rightarrow> 32 word \<Rightarrow> kernel \<Rightarrow> kernel" where
  "give t p k = wait_complete t (delete_task t (set_waiptn t p k))"

lemma give_effect [simp]:
  "tcbs (give t p k) = (tcbs k)(t := given p (tcbs k t))"
  "\<not> is_ready q \<Longrightarrow> queues (give t p k) q = removeAll t (queues k q)"
  "dspflg (give t p k) = dspflg k" "semcnt (give t p k) = semcnt k" "flgptn (give t p k) = flgptn k" "dtqs (give t p k) = dtqs k"
  by (simp_all add: give_def given_def)

lemma give_good:
  assumes g: "good k" and r: "\<not> TSTAT_RUNNABLE (tstat (tcbs k t))"
  shows "good (give t p k)"
proof -
  have "kernel_ok (set_waiptn t p k)" unfolding set_waiptn_def
    by (rule upd_waiting_ok [OF goodD [OF g] r]) (use g in \<open>auto simp: good_def kernel_ok_def place_def tcb_ok_def\<close>)
  then have "good (set_waiptn t p k)" using g by (auto simp: good_def run_ok_def)
  from good_release(2) [OF this, of t E_OK] r show ?thesis by (simp add: give_def wait_complete_def)
qed

text \<open>The tasks the walk along \<open>ts\<close> releases.\<close>

definition flg_released :: "bool \<Rightarrow> kernel \<Rightarrow> 32 word \<Rightarrow> nat list \<Rightarrow> nat list" where
  "flg_released clr k p ts = (if clr then take 1 (filter (sat k p) ts) else filter (sat k p) ts)"

lemma flg_released_subset: "set (flg_released clr k p ts) \<subseteq> set (filter (sat k p) ts)"
  by (auto simp: flg_released_def dest: in_set_takeD)

lemma set_flg_loop_spec:
  "good k \<Longrightarrow> queues k (Flg_wait i) = ps @ ts \<Longrightarrow> flgptn k i = p \<Longrightarrow> rel = flg_released (flg_clr c i) k p ts \<Longrightarrow>
   good (set_flg_loop c i ts k) \<and>
   queues (set_flg_loop c i ts k) (Flg_wait i) = ps @ filter (\<lambda>t. t \<notin> set rel) ts \<and>
   (\<forall>q. \<not> is_ready q \<and> q \<noteq> Flg_wait i \<longrightarrow> queues (set_flg_loop c i ts k) q = queues k q) \<and>
   tcbs (set_flg_loop c i ts k) = (\<lambda>t. if t \<in> set rel then given p (tcbs k t) else tcbs k t) \<and>
   flgptn (set_flg_loop c i ts k) = (flgptn k)(i := (if flg_clr c i \<and> rel \<noteq> [] then 0 else p)) \<and>
   dspflg (set_flg_loop c i ts k) = dspflg k \<and> semcnt (set_flg_loop c i ts k) = semcnt k \<and> dtqs (set_flg_loop c i ts k) = dtqs k"
proof (induction ts arbitrary: k ps rel)
  case Nil
  then show ?case by (auto simp: flg_released_def)
next
  case (Cons t ts)
  have k: "kernel_ok k" using Cons.prems(1) by blast
  have dist: "distinct (ps @ t # ts)" using k unfolding Cons.prems(2) [symmetric] by (simp add: kernel_ok_def)
  have tin: "t \<in> set (queues k (Flg_wait i))" using Cons.prems(2) by simp
  have only: "t \<notin> set (queues k q)" if "q \<noteq> Flg_wait i" for q
  proof
    assume "t \<in> set (queues k q)"
    with tin k have "Some q = Some (Flg_wait i)" unfolding kernel_ok_def by metis
    with that show False by simp
  qed
  show ?case
  proof (cases "sat k p t")
    case False
    have l: "set_flg_loop c i (t # ts) k = set_flg_loop c i ts k"
      using False Cons.prems(3) by (simp add: check_flg_cond_def sat_def Let_def)
    have rel: "rel = flg_released (flg_clr c i) k p ts" using False Cons.prems(4) by (simp add: flg_released_def)
    have nt: "t \<notin> set rel" using flg_released_subset [of "flg_clr c i" k p ts] dist rel by auto
    from Cons.IH [OF Cons.prems(1) _ Cons.prems(3) rel, of "ps @ [t]"] Cons.prems(2) nt show ?thesis unfolding l by simp
  next
    case True
    have nr: "\<not> TSTAT_RUNNABLE (tstat (tcbs k t))" by (rule queued_not_runnable(1) [OF k tin]) simp
    let ?z = "if flg_clr c i then set_flgptn i 0 k else k"
    let ?k2 = "give t p ?z"
    have g2: "good ?k2" by (rule give_good) (use Cons.prems(1) nr in auto)
    have l: "set_flg_loop c i (t # ts) k = (if flg_clr c i then ?k2 else set_flg_loop c i ts ?k2)"
      using True Cons.prems(3) by (simp add: check_flg_cond_def sat_def Let_def give_def)
    have q2: "queues ?k2 (Flg_wait i) = ps @ ts" "\<not> is_ready q \<Longrightarrow> q \<noteq> Flg_wait i \<Longrightarrow> queues ?k2 q = queues k q" for q
      using Cons.prems(2) dist only by (simp_all add: removeAll_id)
    show ?thesis
    proof (cases "flg_clr c i")
      case clr: True
      have rel: "rel = [t]" using True clr Cons.prems(4) by (simp add: flg_released_def)
      have f: "filter (\<lambda>u. u \<notin> set rel) (t # ts) = ts" using dist rel by (auto simp: filter_id_conv)
      have tc: "tcbs ?k2 = (\<lambda>u. if u \<in> set rel then given p (tcbs k u) else tcbs k u)" using clr rel by (auto simp: fun_eq_iff)
      have fl: "flgptn ?k2 = (flgptn k)(i := 0)" "dspflg ?k2 = dspflg k" "semcnt ?k2 = semcnt k" "dtqs ?k2 = dtqs k"
        using clr by simp_all
      show ?thesis unfolding l if_P [OF clr] f using g2 q2 tc fl clr rel by simp
    next
      case False
      have tc: "tcbs ?k2 = (tcbs k)(t := given p (tcbs k t))" and fl: "flgptn ?k2 = flgptn k" "dspflg ?k2 = dspflg k"
        "semcnt ?k2 = semcnt k" "dtqs ?k2 = dtqs k" using False by simp_all
      have same: "filter (sat ?k2 p) ts = filter (sat k p) ts"
        by (rule filter_cong [OF refl]) (use dist tc in \<open>auto simp: sat_def\<close>)
      define rel2 where "rel2 = flg_released False ?k2 p ts"
      have rel: "rel = t # rel2" using True False Cons.prems(4) same by (simp add: rel2_def flg_released_def)
      have nt: "t \<notin> set rel2" using dist same by (simp add: rel2_def flg_released_def)
      have f: "filter (\<lambda>u. u \<notin> set rel) (t # ts) = filter (\<lambda>u. u \<notin> set rel2) ts"
        using dist by (auto simp: rel intro!: filter_cong)
      have p2: "flgptn ?k2 i = p" using fl Cons.prems(3) by simp
      have r2: "rel2 = flg_released (flg_clr c i) ?k2 p ts" using False by (simp add: rel2_def)
      note IH = Cons.IH [OF g2 q2(1) p2 r2]
      have tcb: "(\<lambda>u. if u \<in> set rel2 then given p (tcbs ?k2 u) else tcbs ?k2 u) =
          (\<lambda>u. if u \<in> set rel then given p (tcbs k u) else tcbs k u)"
        unfolding tc rel using nt by auto
      show ?thesis unfolding l if_not_P [OF False] f using IH q2(2) fl False unfolding tcb by simp
    qed
  qed
qed

lemma set_flg_change:
  assumes g: "good k" and v: "\<forall>j. flg_inv c k j"
  shows "flg_change c k (snd (set_flg c flgid setptn k))"
proof -
  let ?i = "INDEX_OBJ flgid"
  let ?p = "flgptn k ?i OR setptn"
  let ?k1 = "set_flgptn ?i ?p k" and ?q = "queues k (Flg_wait (INDEX_OBJ flgid))"
  define rel where "rel = flg_released (flg_clr c ?i) ?k1 ?p ?q"
  define k2 where "k2 = set_flg_loop c ?i ?q ?k1"
  have g1: "good ?k1" using g by simp
  note sp = set_flg_loop_spec [where ps = "[]", OF g1 _ _ rel_def, simplified, folded k2_def]
  have vi: "flg_inv c k ?i" using v by blast
  have relin: "t \<in> set rel \<Longrightarrow> t \<in> set ?q" for t using flg_released_subset [of "flg_clr c ?i" ?k1 ?p ?q] by (auto simp: rel_def)
  have same: "tcbs k2 t = tcbs k t" if "t \<notin> set rel" for t using sp that by simp
  have "flg_change c k k2"
  proof (rule flg_changeI [OF _ _ _ _ _ v, where i = ?i])
    have "t \<notin> set rel" if "t \<in> set (queues k q)" "q \<noteq> Flg_wait ?i" for t q
    proof
      assume "t \<in> set rel"
      then have "t \<in> set ?q" by (rule relin)
      with that goodD [OF g] have "Some q = Some (Flg_wait ?i)" unfolding kernel_ok_def by metis
      with that(2) show False by simp
    qed
    with sp same show "wait_frame k k2 {Flg_wait ?i}" by (auto simp: wait_frame_def wdata_def)
    have un: "unmet k2 t (flgptn k2 ?i)" if t: "t \<in> set (queues k2 (Flg_wait ?i))" for t
    proof -
      have tr: "t \<in> set ?q" "t \<notin> set rel" using t sp by auto
      have w: "wi_waiptn (winfo (tcbs k t)) \<noteq> 0" using vi tr(1) by (auto simp: flg_inv_def unmet_def)
      show ?thesis
      proof (cases "flg_clr c ?i \<and> rel \<noteq> []")
        case True
        then show ?thesis using sp same [OF tr(2)] w flg_cond_0 [OF w] by (simp add: unmet_def)
      next
        case False
        have "\<not> sat ?k1 ?p t"
        proof (cases "flg_clr c ?i")
          case True
          with False have "filter (sat ?k1 ?p) ?q = []" by (simp add: rel_def flg_released_def)
          with tr(1) show ?thesis by (simp add: filter_empty_conv)
        next
          case False
          with tr show ?thesis by (simp add: rel_def flg_released_def)
        qed
        moreover have pk2: "flgptn k2 ?i = ?p" using sp False by auto
        ultimately show ?thesis unfolding unmet_def pk2 same [OF tr(2)] using w by (simp add: sat_def)
      qed
    qed
    have "card (set (queues k2 (Flg_wait ?i))) \<le> card (set ?q)" using sp by (auto intro: card_mono)
    with un vi show "flg_inv c k2 ?i" by (auto simp: flg_inv_def)
  qed (use sp in auto)
  from flg_change_dispatch(1) [OF this] show ?thesis
    by (simp add: set_flg_def Let_def flg_change_refl [OF g v] k2_def)
qed

lemma clr_flg_change:
  assumes g: "good k" and v: "\<forall>j. flg_inv c k j"
  shows "flg_change c k (snd (clr_flg c flgid clrptn k))"
proof -
  let ?i = "INDEX_OBJ flgid"
  have vi: "flg_inv c k ?i" using v by blast
  have "flg_change c k (set_flgptn ?i (flgptn k ?i AND clrptn) k)"
    by (rule flg_changeI [OF _ _ _ _ _ v, where i = ?i])
      (use g vi in \<open>auto simp: flg_inv_def unmet_def dest: flg_cond_less\<close>)
  then show ?thesis by (simp add: clr_flg_def Let_def flg_change_refl [OF g v])
qed

lemma check_flg_change:
  assumes g: "good k" and v: "\<forall>j. flg_inv c k j"
  shows "flg_change c k (snd (check_flg_cond c i w m k))"
proof -
  have vi: "flg_inv c k i" using v by blast
  have "flg_change c k (set_flgptn i 0 k)"
    by (rule flg_changeI [OF _ _ _ _ _ v, where i = i])
      (use g vi in \<open>auto simp: flg_inv_def unmet_def dest: flg_cond_0\<close>)
  then show ?thesis by (simp add: check_flg_cond_def flg_change_refl [OF g v])
qed

lemma check_refused: "fst (check_flg_cond c i w m k) = None \<Longrightarrow>
  snd (check_flg_cond c i w m k) = k \<and> \<not> flg_cond (flgptn k i) w m"
  by (auto simp: check_flg_cond_def split: if_splits)

lemma flg_wait_change:
  assumes g: "good k" and v: "\<forall>j. flg_inv c k j" and d: "dspflg k" "runtsk k \<noteq> None"
    and w: "w \<noteq> 0" "fst (check_flg_cond c i w m k) = None" "flg_wmul c i \<or> queues k (Flg_wait i) = []"
  shows "flg_change c k (dispatch (wobj_make_wait c (Flg_wait i) TS_WAITING_FLG (flg_winfo w m) (snd (check_flg_cond c i w m k))))"
    "flg_change c k (dispatch (wobj_make_wait_tmout c (Flg_wait i) TS_WAITING_FLG (flg_winfo w m) tmo (snd (check_flg_cond c i w m k))))"
proof -
  have nr: "\<not> is_ready (Flg_wait i)" by simp
  have vi: "flg_inv c k i" using v by blast
  have e: "snd (check_flg_cond c i w m k) = k" and nc: "\<not> flg_cond (flgptn k i) w m" using check_refused [OF w(2)] by simp_all
  have r: "TSTAT_RUNNABLE (tstat (tcbs k (self k)))" by (rule good_self [OF g d(2)])
  note f = frame_wait [OF goodD [OF g] r nr] and st = wait_set [OF goodD [OF g] r nr]
    and wt = wait_queues(3-6) [OF goodD [OF g] r nr]
  have ts: "TS_WAITING_FLG = wait_state (Flg_wait i)" by (simp add: wait_state_def)
  have inv: "flg_inv c k' i" if s: "set (queues k' (Flg_wait i)) = insert (self k) (set (queues k (Flg_wait i)))"
    and t: "\<And>u. u \<noteq> self k \<Longrightarrow> tcbs k' u = tcbs k u" and d: "wdata k' (self k) = (wi_data (flg_winfo w m), w, m)"
    and p: "flgptn k' = flgptn k" for k'
  proof -
    have "unmet k' (self k) (flgptn k i)" using d nc w(1) by (auto simp: unmet_def wdata_def Let_def)
    moreover have "unmet k' u (flgptn k i)" if "u \<in> set (queues k (Flg_wait i))" for u
    proof -
      have "u \<noteq> self k" using that st(3) by blast
      with vi that show ?thesis by (simp add: flg_inv_def unmet_def t)
    qed
    ultimately show ?thesis using vi w(3) s p by (auto simp: flg_inv_def)
  qed
  have fw: "wi_waiptn (flg_winfo w m) = w" "wi_wfmode (flg_winfo w m) = m" by (simp_all add: flg_winfo_def)
  show "flg_change c k (dispatch (wobj_make_wait c (Flg_wait i) TS_WAITING_FLG (flg_winfo w m) (snd (check_flg_cond c i w m k))))"
    unfolding e ts
  proof (rule flg_changeI [OF good_wait(1) [OF g d nr] _ _ _ _ v, where i = i])
    show "flg_inv c (dispatch (wobj_make_wait c (Flg_wait i) (wait_state (Flg_wait i)) (flg_winfo w m) k)) i"
      by (rule inv) (use st wt fw in simp_all)
  qed (use f in simp_all)
  show "flg_change c k (dispatch (wobj_make_wait_tmout c (Flg_wait i) TS_WAITING_FLG (flg_winfo w m) tmo (snd (check_flg_cond c i w m k))))"
    unfolding e ts
  proof (rule flg_changeI [OF good_wait(2) [OF g d nr] _ _ _ _ v, where i = i])
    show "flg_inv c (dispatch (wobj_make_wait_tmout c (Flg_wait i) (wait_state (Flg_wait i)) (flg_winfo w m) tmo k)) i"
      by (rule inv) (use st wt fw in simp_all)
  qed (use f in simp_all)
qed

lemma wai_flg_change:
  assumes "good k" "\<forall>j. flg_inv c k j" "caller k"
  shows "flg_change c k (snd (snd (wai_flg c flgid w m wr k)))" "flg_change c k (snd (snd (twai_flg c flgid w m wr tmo k)))"
    "flg_change c k (snd (snd (pol_flg c flgid w m wr k)))"
  using assms
  by (auto simp: wai_flg_def twai_flg_def pol_flg_def Let_def case_prod_beta flg_change_refl CHECK_defs caller_def
      intro: check_flg_change flg_wait_change)

lemma ini_flg_change:
  assumes g: "good k" and v: "\<forall>j. flg_inv c k j"
  shows "flg_change c k (snd (ini_flg c flgid k))"
proof -
  let ?i = "INDEX_OBJ flgid"
  let ?k1 = "init_wait_queue (Flg_wait ?i) k"
  note s = init_wait_queue_spec [OF goodD [OF g], of "Flg_wait ?i", simplified]
  have "flg_change c k (set_flgptn ?i (iflgptn c ?i) ?k1)"
  proof (rule flg_changeI [OF _ _ _ _ _ v, where i = ?i])
    show "good (set_flgptn ?i (iflgptn c ?i) ?k1)" using good_init_wait_queue [OF g, of "Flg_wait ?i"] by simp
    show "wait_frame k (set_flgptn ?i (iflgptn c ?i) ?k1) {Flg_wait ?i}"
      using frame_mono [OF frame_init [OF goodD [OF g], of "Flg_wait ?i"]] by simp
    show "flg_inv c (set_flgptn ?i (iflgptn c ?i) ?k1) ?i" using s by (simp add: flg_inv_def)
  qed simp_all
  from flg_change_dispatch(2) [OF this] show ?thesis by (simp add: ini_flg_def Let_def flg_change_refl [OF g v])
qed

text \<open>Setting bits of an event flag releases, of the tasks that wait, those whose
  condition the new pattern meets, all of them in the order of the queue or, when the flag is
  cleared at a release, only the first; each takes the pattern back with \<open>E_OK\<close>, the others stay
  where they are, and the pattern is then zero in the second case and the new one otherwise.\<close>

lemma set_flg_releases:
  fixes setptn :: "32 word"
  assumes g: "good k" and a: "CHECK_UNL k" "VALID_OBJID (tmax_flgid c) flgid" "\<not> VIOLATE_ACPTN (acptn c (Flg (INDEX_OBJ flgid)) 1) k"
  defines "i \<equiv> INDEX_OBJ flgid" and "k' \<equiv> snd (set_flg c flgid setptn k)"
  defines "met \<equiv> filter (sat k (flgptn k i OR setptn)) (queues k (Flg_wait i))"
  defines "rel \<equiv> (if flg_clr c i then take 1 met else met)"
  shows "queues k' (Flg_wait i) = filter (\<lambda>t. t \<notin> set rel) (queues k (Flg_wait i)) \<and>
     (\<forall>t\<in>set rel. resume_flg t k' = (Some E_OK, Some (flgptn k i OR setptn)) \<and>
        tstat (tcbs k' t) = released (tstat (tcbs k t))) \<and>
     flgptn k' i = (if flg_clr c i \<and> rel \<noteq> [] then 0 else flgptn k i OR setptn)"
proof -
  let ?k1 = "set_flgptn i (flgptn k i OR setptn) k"
  have g1: "good ?k1" using g by simp
  have rel: "rel = flg_released (flg_clr c i) ?k1 (flgptn k i OR setptn) (queues k (Flg_wait i))"
    by (simp add: rel_def met_def flg_released_def sat_def [abs_def])
  note sp = set_flg_loop_spec [where ps = "[]", OF g1 _ _ rel, simplified]
  have k': "k' = dispatch_any (set_flg_loop c i (queues k (Flg_wait i)) ?k1)"
    using a by (simp add: k'_def set_flg_def Let_def i_def)
  show ?thesis using sp by (simp add: k' resume_flg_def wercd_def given_def)
qed

lemma demo_flg_waits:
  defines "k \<equiv> snd (snd (wai_flg demo_conf 1 5 TWF_ORW True demo))"
  shows "good k" "CHECK_UNL k" "VALID_OBJID (tmax_flgid demo_conf) 1" "\<not> VIOLATE_ACPTN (acptn demo_conf (Flg (INDEX_OBJ 1)) 1) k"
    "queues k (Flg_wait 0) = [2]" "flgptn k 0 = 0" "sat k 4 2"
proof -
  have inv: "\<forall>j. flg_inv demo_conf demo j" by (simp add: flg_inv_def demo_facts)
  show "good k" using wai_flg_change(1) [OF demo_good inv, of 1 5 TWF_ORW True]
    by (simp add: k_def caller_def demo_facts flg_change_def)
  have r: "TSTAT_RUNNABLE (tstat (tcbs demo (self demo)))" using good_self [OF demo_good] by (simp add: demo_facts)
  have nr: "\<not> is_ready (Flg_wait 0)" by simp
  have s: "self demo = 2" by (simp add: self_def demo_facts)
  have k: "k = dispatch (wobj_make_wait demo_conf (Flg_wait 0) TS_WAITING_FLG (flg_winfo 5 TWF_ORW) demo)"
    by (simp add: k_def wai_flg_def demo_facts CHECK_defs VALID_OBJID_def VIOLATE_ACPTN_def demo_conf_def TACP_KERNEL_def
        check_flg_cond_def flg_cond_def TWF_ORW_def INDEX_OBJ_def)
  show "CHECK_UNL k" "VALID_OBJID (tmax_flgid demo_conf) 1" "\<not> VIOLATE_ACPTN (acptn demo_conf (Flg (INDEX_OBJ 1)) 1) k"
    by (simp_all add: k CHECK_UNL_def VALID_OBJID_def VIOLATE_ACPTN_def demo_conf_def TACP_KERNEL_def demo_facts dispatch_def)
  show "queues k (Flg_wait 0) = [2]"
    using wait_queues(1) [OF goodD [OF demo_good] r nr nr, of demo_conf] make_wait_effect(5) [OF goodD [OF demo_good] r] s
    by (simp add: k insert_self_def demo_conf_def demo_facts)
  show "flgptn k 0 = 0" by (simp add: k demo_facts)
  have "wdata (wobj_make_wait demo_conf (Flg_wait 0) TS_WAITING_FLG (flg_winfo 5 TWF_ORW) demo) 2 = (0, 5, TWF_ORW)"
    using wait_queues(5) [OF goodD [OF demo_good] r nr, of demo_conf TS_WAITING_FLG "flg_winfo 5 TWF_ORW"] s
    by (simp add: flg_winfo_def fresh_winfo_def)
  then show "sat k 4 2" by (simp add: k wdata_def Let_def sat_def flg_cond_def TWF_ORW_def)
qed

lemma set_flg_releases_witness:
  "let k' = snd (set_flg demo_conf 1 4 (snd (snd (wai_flg demo_conf 1 5 TWF_ORW True demo))))
   in queues k' (Flg_wait 0) = [] \<and> resume_flg 2 k' = (Some E_OK, Some 4) \<and> flgptn k' 0 = 4"
  using set_flg_releases [OF demo_flg_waits(1-4), of 4] demo_flg_waits(5-7)
  by (simp add: INDEX_OBJ_def demo_conf_def Let_def)

end
