(* ===== verification/Kernel_Dtq.thy ===== *)
theory Kernel_Dtq
  imports Kernel_Sem Fifo_Interface
begin

text \<open>
  Data queues (\<open>hrp3_wo_tecs/kernel/dataqueue.c\<close>): a ring of \<open>dtqcnt\<close> words, the queue of the
  senders that wait for room in it, with the word each is to send, and the queue of the receivers
  that wait for a word.
\<close>

section \<open>The ring\<close>

definition enqueue_data :: "nat \<Rightarrow> int \<Rightarrow> dtqcb \<Rightarrow> dtqcb" where
  "enqueue_data n x d =
    (let tail = Suc (dtq_tail d)
     in d\<lparr>dtqmb := (dtqmb d)[dtq_tail d := x], dtq_count := Suc (dtq_count d), dtq_tail := (if tail \<ge> n then 0 else tail)\<rparr>)"

definition force_enqueue_data :: "nat \<Rightarrow> int \<Rightarrow> dtqcb \<Rightarrow> dtqcb" where
  "force_enqueue_data n x d =
    (let tail = (if Suc (dtq_tail d) \<ge> n then 0 else Suc (dtq_tail d));
         d1 = d\<lparr>dtqmb := (dtqmb d)[dtq_tail d := x], dtq_tail := tail\<rparr>
     in if dtq_count d1 < n then d1\<lparr>dtq_count := Suc (dtq_count d1)\<rparr> else d1\<lparr>dtq_head := tail\<rparr>)"

definition dequeue_data :: "nat \<Rightarrow> dtqcb \<Rightarrow> int \<times> dtqcb" where
  "dequeue_data n d =
    (let head = Suc (dtq_head d)
     in (dtqmb d ! dtq_head d, d\<lparr>dtq_count := dtq_count d - 1, dtq_head := (if head \<ge> n then 0 else head)\<rparr>))"

definition set_dtq :: "nat \<Rightarrow> dtqcb \<Rightarrow> kernel \<Rightarrow> kernel" where
  "set_dtq i d k = k\<lparr>dtqs := (dtqs k)(i := d)\<rparr>"

definition set_wdata :: "nat \<Rightarrow> int \<Rightarrow> kernel \<Rightarrow> kernel" where
  "set_wdata t x k = upd_tcb t (\<lambda>p. p\<lparr>winfo := (winfo p)\<lparr>wi_data := x\<rparr>\<rparr>) k"

definition wait_data :: "kernel \<Rightarrow> nat \<Rightarrow> int" where
  "wait_data k t = wi_data (winfo (tcbs k t))"

definition initialize_dataqueue :: "kconf \<Rightarrow> kernel \<Rightarrow> kernel" where
  "initialize_dataqueue c k =
    (let n = nat (tmax_dtqid c)
     in k\<lparr>queues := \<lambda>q. (case q of Dtq_swait i \<Rightarrow> if i < n then [] else queues k q
            | Dtq_rwait i \<Rightarrow> if i < n then [] else queues k q | _ \<Rightarrow> queues k q),
          dtqs := \<lambda>i. if i < n then (dtqs k i)\<lparr>dtq_count := 0, dtq_head := 0, dtq_tail := 0\<rparr> else dtqs k i\<rparr>)"

section \<open>Sending and receiving\<close>

definition dtq_send_data :: "kconf \<Rightarrow> nat \<Rightarrow> int \<Rightarrow> kernel \<Rightarrow> bool \<times> kernel" where
  "dtq_send_data c i x k =
    (case queues k (Dtq_rwait i) of
       t # ts \<Rightarrow> (True, wait_complete t (set_wdata t x (set_queue (Dtq_rwait i) ts k)))
     | [] \<Rightarrow> if dtq_count (dtqs k i) < dtqcnt c i then (True, set_dtq i (enqueue_data (dtqcnt c i) x (dtqs k i)) k)
             else (False, k))"

definition force_send_data :: "kconf \<Rightarrow> nat \<Rightarrow> int \<Rightarrow> kernel \<Rightarrow> kernel" where
  "force_send_data c i x k =
    (case queues k (Dtq_rwait i) of
       t # ts \<Rightarrow> wait_complete t (set_wdata t x (set_queue (Dtq_rwait i) ts k))
     | [] \<Rightarrow> set_dtq i (force_enqueue_data (dtqcnt c i) x (dtqs k i)) k)"

definition receive_data :: "kconf \<Rightarrow> nat \<Rightarrow> kernel \<Rightarrow> int option \<times> kernel" where
  "receive_data c i k =
    (if dtq_count (dtqs k i) > 0 then
       (let (x, d) = dequeue_data (dtqcnt c i) (dtqs k i);
            k1 = set_dtq i d k
        in (Some x,
            case queues k1 (Dtq_swait i) of
              [] \<Rightarrow> k1
            | t # ts \<Rightarrow> (let k2 = set_queue (Dtq_swait i) ts k1
                in wait_complete t (set_dtq i (enqueue_data (dtqcnt c i) (wait_data k2 t) (dtqs k2 i)) k2))))
     else case queues k (Dtq_swait i) of
         t # ts \<Rightarrow> (let k1 = set_queue (Dtq_swait i) ts k in (Some (wait_data k1 t), wait_complete t k1))
       | [] \<Rightarrow> (None, k))"

text \<open>A receiver waits at the end of its queue, whatever the attribute of the data queue.\<close>

definition rcv_wait :: "nat \<Rightarrow> kernel \<Rightarrow> kernel" where
  "rcv_wait i k =
    (let k1 = make_wait TS_WAITING_RDTQ fresh_winfo k
     in set_wobj (self k1) (Dtq_rwait i) (set_queue (Dtq_rwait i) (queues k1 (Dtq_rwait i) @ [self k1]) k1))"

definition rcv_wait_tmout :: "nat \<Rightarrow> 32 word \<Rightarrow> kernel \<Rightarrow> kernel" where
  "rcv_wait_tmout i tmout k =
    (let k1 = make_wait_tmout TS_WAITING_RDTQ fresh_winfo tmout k
     in set_wobj (self k1) (Dtq_rwait i) (set_queue (Dtq_rwait i) (queues k1 (Dtq_rwait i) @ [self k1]) k1))"

text \<open>What a receiver that has waited takes back: the code, and the word when it is \<open>E_OK\<close>.\<close>

definition resume_rcv :: "nat \<Rightarrow> kernel \<Rightarrow> ER option \<times> int option" where
  "resume_rcv t k = (wercd t k, if wercd t k = Some E_OK then Some (wait_data k t) else None)"

section \<open>The service calls\<close>

definition snd_dtq :: "kconf \<Rightarrow> int \<Rightarrow> int \<Rightarrow> kernel \<Rightarrow> reply \<times> kernel" where
  "snd_dtq c dtqid x k =
    (if \<not> CHECK_DISPATCH k then (Returns E_CTX, k)
     else if \<not> VALID_OBJID (tmax_dtqid c) dtqid then (Returns E_ID, k)
     else let i = INDEX_OBJ dtqid
          in if VIOLATE_ACPTN (acptn c (Dtq i) 1) k then (Returns E_OACV, k)
             else if raster (tcbs k (self k)) then (Returns E_RASTER, k)
             else let (sent, k1) = dtq_send_data c i x k
                  in if sent then (Returns E_OK, dispatch_task k1)
                     else (Blocks, dispatch (wobj_make_wait c (Dtq_swait i) TS_WAITING_SDTQ (fresh_winfo\<lparr>wi_data := x\<rparr>) k1)))"

definition psnd_dtq :: "kconf \<Rightarrow> int \<Rightarrow> int \<Rightarrow> kernel \<Rightarrow> reply \<times> kernel" where
  "psnd_dtq c dtqid x k =
    (if \<not> CHECK_UNL k then (Returns E_CTX, k)
     else if \<not> VALID_OBJID (tmax_dtqid c) dtqid then (Returns E_ID, k)
     else let i = INDEX_OBJ dtqid
          in if VIOLATE_ACPTN (acptn c (Dtq i) 1) k then (Returns E_OACV, k)
             else let (sent, k1) = dtq_send_data c i x k
                  in if sent then (Returns E_OK, dispatch_any k1) else (Returns E_TMOUT, k1))"

definition tsnd_dtq :: "kconf \<Rightarrow> int \<Rightarrow> int \<Rightarrow> 32 word \<Rightarrow> kernel \<Rightarrow> reply \<times> kernel" where
  "tsnd_dtq c dtqid x tmout k =
    (if \<not> CHECK_DISPATCH k then (Returns E_CTX, k)
     else if \<not> VALID_OBJID (tmax_dtqid c) dtqid then (Returns E_ID, k)
     else if \<not> VALID_TMOUT tmout then (Returns E_PAR, k)
     else let i = INDEX_OBJ dtqid
          in if VIOLATE_ACPTN (acptn c (Dtq i) 1) k then (Returns E_OACV, k)
             else if raster (tcbs k (self k)) then (Returns E_RASTER, k)
             else let (sent, k1) = dtq_send_data c i x k
                  in if sent then (Returns E_OK, dispatch_task k1)
                     else if tmout = TMO_POL then (Returns E_TMOUT, k1)
                     else (Blocks, dispatch (wobj_make_wait_tmout c (Dtq_swait i) TS_WAITING_SDTQ
                         (fresh_winfo\<lparr>wi_data := x\<rparr>) tmout k1)))"

definition fsnd_dtq :: "kconf \<Rightarrow> int \<Rightarrow> int \<Rightarrow> kernel \<Rightarrow> reply \<times> kernel" where
  "fsnd_dtq c dtqid x k =
    (if \<not> CHECK_UNL k then (Returns E_CTX, k)
     else if \<not> VALID_OBJID (tmax_dtqid c) dtqid then (Returns E_ID, k)
     else let i = INDEX_OBJ dtqid
          in if VIOLATE_ACPTN (acptn c (Dtq i) 1) k then (Returns E_OACV, k)
             else if \<not> dtqcnt c i > 0 then (Returns E_ILUSE, k)
             else (Returns E_OK, dispatch_any (force_send_data c i x k)))"

text \<open>\<open>wr\<close>: the caller may write where the word is to go.\<close>

definition rcv_dtq :: "kconf \<Rightarrow> int \<Rightarrow> bool \<Rightarrow> kernel \<Rightarrow> reply \<times> int option \<times> kernel" where
  "rcv_dtq c dtqid wr k =
    (if \<not> CHECK_DISPATCH k then (Returns E_CTX, None, k)
     else if \<not> VALID_OBJID (tmax_dtqid c) dtqid then (Returns E_ID, None, k)
     else if \<not> wr then (Returns E_MACV, None, k)
     else let i = INDEX_OBJ dtqid
          in if VIOLATE_ACPTN (acptn c (Dtq i) 2) k then (Returns E_OACV, None, k)
             else if raster (tcbs k (self k)) then (Returns E_RASTER, None, k)
             else let (x, k1) = receive_data c i k
                  in if x \<noteq> None then (Returns E_OK, x, dispatch_task k1)
                     else (Blocks, None, dispatch (rcv_wait i k1)))"

definition prcv_dtq :: "kconf \<Rightarrow> int \<Rightarrow> bool \<Rightarrow> kernel \<Rightarrow> reply \<times> int option \<times> kernel" where
  "prcv_dtq c dtqid wr k =
    (if \<not> CHECK_TSKCTX_UNL k then (Returns E_CTX, None, k)
     else if \<not> VALID_OBJID (tmax_dtqid c) dtqid then (Returns E_ID, None, k)
     else if \<not> wr then (Returns E_MACV, None, k)
     else let i = INDEX_OBJ dtqid
          in if VIOLATE_ACPTN (acptn c (Dtq i) 2) k then (Returns E_OACV, None, k)
             else let (x, k1) = receive_data c i k
                  in if x \<noteq> None then (Returns E_OK, x, dispatch_task k1) else (Returns E_TMOUT, None, k1))"

definition trcv_dtq :: "kconf \<Rightarrow> int \<Rightarrow> bool \<Rightarrow> 32 word \<Rightarrow> kernel \<Rightarrow> reply \<times> int option \<times> kernel" where
  "trcv_dtq c dtqid wr tmout k =
    (if \<not> CHECK_DISPATCH k then (Returns E_CTX, None, k)
     else if \<not> VALID_OBJID (tmax_dtqid c) dtqid then (Returns E_ID, None, k)
     else if \<not> wr then (Returns E_MACV, None, k)
     else if \<not> VALID_TMOUT tmout then (Returns E_PAR, None, k)
     else let i = INDEX_OBJ dtqid
          in if VIOLATE_ACPTN (acptn c (Dtq i) 2) k then (Returns E_OACV, None, k)
             else if raster (tcbs k (self k)) then (Returns E_RASTER, None, k)
             else let (x, k1) = receive_data c i k
                  in if x \<noteq> None then (Returns E_OK, x, dispatch_task k1)
                     else if tmout = TMO_POL then (Returns E_TMOUT, None, k1)
                     else (Blocks, None, dispatch (rcv_wait_tmout i tmout k1)))"

definition ini_dtq :: "kconf \<Rightarrow> int \<Rightarrow> kernel \<Rightarrow> reply \<times> kernel" where
  "ini_dtq c dtqid k =
    (if \<not> CHECK_TSKCTX_UNL k then (Returns E_CTX, k)
     else if \<not> VALID_OBJID (tmax_dtqid c) dtqid then (Returns E_ID, k)
     else let i = INDEX_OBJ dtqid
          in if VIOLATE_ACPTN (acptn c (Dtq i) 3) k then (Returns E_OACV, k)
             else let k1 = init_wait_queue (Dtq_rwait i) (init_wait_queue (Dtq_swait i) k)
                  in (Returns E_OK, dispatch_task (set_dtq i ((dtqs k1 i)\<lparr>dtq_count := 0, dtq_head := 0, dtq_tail := 0\<rparr>) k1)))"

definition ref_dtq :: "kconf \<Rightarrow> int \<Rightarrow> bool \<Rightarrow> kernel \<Rightarrow> reply \<times> (int \<times> int \<times> nat) option" where
  "ref_dtq c dtqid wr k =
    (if \<not> CHECK_TSKCTX_UNL k then (Returns E_CTX, None)
     else if \<not> VALID_OBJID (tmax_dtqid c) dtqid then (Returns E_ID, None)
     else if \<not> wr then (Returns E_MACV, None)
     else let i = INDEX_OBJ dtqid
          in if VIOLATE_ACPTN (acptn c (Dtq i) 4) k then (Returns E_OACV, None)
             else (Returns E_OK, Some (wait_tskid (queues k (Dtq_swait i)), wait_tskid (queues k (Dtq_rwait i)),
                 dtq_count (dtqs k i))))"

section \<open>The ring is a bounded queue\<close>

definition dtq_ring :: "nat \<Rightarrow> dtqcb \<Rightarrow> bool" where
  "dtq_ring n d \<longleftrightarrow> length (dtqmb d) = n \<and> dtq_count d \<le> n \<and>
     (if n = 0 then dtq_head d = 0 \<and> dtq_tail d = 0 else dtq_head d < n \<and> dtq_tail d = (dtq_head d + dtq_count d) mod n)"

definition stored :: "nat \<Rightarrow> dtqcb \<Rightarrow> int list" where
  "stored n d = ring_slice n (dtqmb d) (dtq_head d) (dtq_count d)"

lemma length_stored [simp]: "length (stored n d) = dtq_count d"
  by (simp add: stored_def)

lemma enqueue_ring:
  assumes r: "dtq_ring n d" and c: "dtq_count d < n"
  shows "dtq_ring n (enqueue_data n x d)" "stored n (enqueue_data n x d) = stored n d @ [x]"
    "dtq_count (enqueue_data n x d) = Suc (dtq_count d)"
proof -
  have h: "length (dtqmb d) = n" "dtq_head d < n" "dtq_tail d = (dtq_head d + dtq_count d) mod n" "0 < n"
    using r c by (auto simp: dtq_ring_def)
  have tl: "dtq_tail d < n" using h by simp
  have w: "(if Suc (dtq_tail d) \<ge> n then 0 else Suc (dtq_tail d)) = (dtq_head d + Suc (dtq_count d)) mod n"
    using wrap_eq_mod [OF tl] h(3) by (simp add: mod_Suc_eq)
  have t: "dtq_tail (enqueue_data n x d) = (dtq_head d + Suc (dtq_count d)) mod n"
    unfolding w [symmetric] by (simp add: enqueue_data_def Let_def)
  have o: "length (dtqmb (enqueue_data n x d)) = n" "dtq_head (enqueue_data n x d) = dtq_head d"
    "dtq_count (enqueue_data n x d) = Suc (dtq_count d)" using h by (simp_all add: enqueue_data_def Let_def)
  show "dtq_ring n (enqueue_data n x d)" using h c by (simp add: dtq_ring_def t o)
  show "stored n (enqueue_data n x d) = stored n d @ [x]"
    using ring_slice_push [where xs = "dtqmb d" and N = n and r = "dtq_head d" and n = "dtq_count d" and w = "dtq_tail d" and x = x] h c
    by (simp add: stored_def enqueue_data_def Let_def)
  show "dtq_count (enqueue_data n x d) = Suc (dtq_count d)" by (simp add: enqueue_data_def Let_def)
qed

lemma dequeue_ring:
  assumes r: "dtq_ring n d" and c: "0 < dtq_count d"
  shows "dtq_ring n (snd (dequeue_data n d))" "stored n d = fst (dequeue_data n d) # stored n (snd (dequeue_data n d))"
    "dtq_count (snd (dequeue_data n d)) = dtq_count d - 1"
proof -
  have h: "length (dtqmb d) = n" "dtq_head d < n" "dtq_tail d = (dtq_head d + dtq_count d) mod n" "dtq_count d \<le> n" "0 < n"
    using r c by (auto simp: dtq_ring_def split: if_splits)
  let ?d = "snd (dequeue_data n d)"
  have hd: "dtq_head ?d = Suc (dtq_head d) mod n"
    unfolding wrap_eq_mod [OF h(2), symmetric] by (simp add: dequeue_data_def Let_def)
  have o: "dtqmb ?d = dtqmb d" "dtq_count ?d = dtq_count d - 1" "dtq_tail ?d = dtq_tail d" "fst (dequeue_data n d) = dtqmb d ! dtq_head d"
    by (simp_all add: dequeue_data_def Let_def)
  have "(Suc (dtq_head d) mod n + (dtq_count d - 1)) mod n = (Suc (dtq_head d) + (dtq_count d - 1)) mod n"
    by (simp only: mod_add_left_eq)
  then have "dtq_tail d = (Suc (dtq_head d) mod n + (dtq_count d - 1)) mod n" using h(3) c by simp
  then show "dtq_ring n ?d" using h by (simp add: dtq_ring_def hd o)
  show "stored n d = fst (dequeue_data n d) # stored n ?d"
    using ring_slice_pop [where xs = "dtqmb d", OF c h(2)] by (simp add: stored_def hd o)
  show "dtq_count ?d = dtq_count d - 1" by (rule o(2))
qed

lemma force_enqueue_room: "dtq_count d < n \<Longrightarrow> force_enqueue_data n x d = enqueue_data n x d"
  by (simp add: force_enqueue_data_def enqueue_data_def Let_def)

text \<open>Into a full ring the word goes in the place of the oldest one.\<close>

lemma force_enqueue_full:
  assumes r: "dtq_ring n d" and f: "dtq_count d = n" "0 < n"
  shows "dtq_ring n (force_enqueue_data n x d)" "stored n (force_enqueue_data n x d) = tl (stored n d) @ [x]"
    "dtq_count (force_enqueue_data n x d) = n"
proof -
  have h: "length (dtqmb d) = n" "dtq_head d < n" "dtq_tail d = dtq_head d" using r f by (auto simp: dtq_ring_def)
  let ?d = "force_enqueue_data n x d" and ?e = "snd (dequeue_data n d)"
  have w: "(if Suc (dtq_head d) \<ge> n then 0 else Suc (dtq_head d)) = Suc (dtq_head d) mod n" by (rule wrap_eq_mod [OF h(2)])
  have o: "dtqmb ?d = (dtqmb d)[dtq_head d := x]" "dtq_count ?d = n" "dtq_tail ?d = Suc (dtq_head d) mod n" "dtq_head ?d = Suc (dtq_head d) mod n"
    unfolding w [symmetric] using h(3) f by (simp_all add: force_enqueue_data_def Let_def)
  show "dtq_ring n ?d" using h f by (simp add: dtq_ring_def o)
  show "dtq_count ?d = n" by (rule o(2))
  note dq = dequeue_ring [OF r, unfolded f(1), OF f(2)]
  have "dtq_head ?e = Suc (dtq_head d) mod n" "dtqmb ?e = dtqmb d" "dtq_count ?e = n - 1"
    unfolding w [symmetric] using f by (simp_all add: dequeue_data_def Let_def)
  moreover have "dtq_head d = (Suc (dtq_head d) mod n + (n - 1)) mod n"
  proof -
    have "(Suc (dtq_head d) mod n + (n - 1)) mod n = (Suc (dtq_head d) + (n - 1)) mod n" by (simp only: mod_add_left_eq)
    also have "Suc (dtq_head d) + (n - 1) = dtq_head d + n" using f(2) by simp
    finally show ?thesis using h(2) by simp
  qed
  ultimately have "stored n ?d = stored n ?e @ [x]"
    using ring_slice_push [where n = "n - 1" and N = n and xs = "dtqmb d" and r = "Suc (dtq_head d) mod n" and w = "dtq_head d" and x = x] h f by (simp add: stored_def o)
  with dq(2) show "stored n ?d = tl (stored n d) @ [x]" by simp
qed

text \<open>With the conditions the calls test before, it is a bounded first-in-first-out store.\<close>

definition dtq_put :: "nat \<times> dtqcb \<Rightarrow> int \<Rightarrow> (nat \<times> dtqcb) option" where
  "dtq_put s x = (case s of (n, d) \<Rightarrow> if dtq_count d < n then Some (n, enqueue_data n x d) else None)"

definition dtq_get :: "nat \<times> dtqcb \<Rightarrow> (int \<times> nat \<times> dtqcb) option" where
  "dtq_get s = (case s of (n, d) \<Rightarrow> if dtq_count d > 0 then (let (x, d') = dequeue_data n d in Some (x, n, d')) else None)"

interpretation dtq: bounded_fifo "\<lambda>(n, d). dtq_ring n d" "\<lambda>(n, d). stored n d" fst dtq_put dtq_get
proof unfold_locales
  fix s :: "nat \<times> dtqcb" and x
  obtain n d where s: "s = (n, d)" by fastforce
  assume i: "case s of (n, d) \<Rightarrow> dtq_ring n d"
  then show "length (case s of (n, d) \<Rightarrow> stored n d) \<le> fst s" by (simp add: s dtq_ring_def)
  show "dtq_put s x = None" if "length (case s of (n, d) \<Rightarrow> stored n d) = fst s" using that by (simp add: s dtq_put_def)
  show "\<exists>s'. dtq_put s x = Some s' \<and> (case s' of (n, d) \<Rightarrow> dtq_ring n d) \<and>
      (case s' of (n, d) \<Rightarrow> stored n d) = (case s of (n, d) \<Rightarrow> stored n d) @ [x] \<and> fst s' = fst s"
    if "length (case s of (n, d) \<Rightarrow> stored n d) < fst s"
    using that i enqueue_ring [of n d x] by (simp add: s dtq_put_def)
  show "dtq_get s = None" if "(case s of (n, d) \<Rightarrow> stored n d) = []"
  proof -
    have "length (stored n d) = 0" using that by (simp add: s)
    then show ?thesis by (simp add: s dtq_get_def)
  qed
  show "\<exists>s'. dtq_get s = Some (x, s') \<and> (case s' of (n, d) \<Rightarrow> dtq_ring n d) \<and>
      (case s' of (n, d) \<Rightarrow> stored n d) = xs \<and> fst s' = fst s"
    if e: "(case s of (n, d) \<Rightarrow> stored n d) = x # xs" for xs
  proof -
    have "length (stored n d) = Suc (length xs)" using e by (simp add: s)
    then have c: "0 < dtq_count d" by simp
    with dequeue_ring [of n d] i e show ?thesis by (simp add: s dtq_get_def case_prod_beta)
  qed
qed

section \<open>The state of a data queue\<close>

text \<open>
  Receivers wait only while there is nothing to receive, senders only while the ring is full.
\<close>

definition dtq_inv :: "kconf \<Rightarrow> kernel \<Rightarrow> nat \<Rightarrow> bool" where
  "dtq_inv c k i \<longleftrightarrow> dtq_ring (dtqcnt c i) (dtqs k i) \<and>
     (queues k (Dtq_rwait i) \<noteq> [] \<longrightarrow> dtq_count (dtqs k i) = 0 \<and> queues k (Dtq_swait i) = []) \<and>
     (queues k (Dtq_swait i) \<noteq> [] \<longrightarrow> dtq_count (dtqs k i) = dtqcnt c i)"

lemma dtq_inv_frame:
  assumes "dtq_inv c k i" "wait_frame k k' X" "Dtq_swait i \<notin> X" "Dtq_rwait i \<notin> X" "dtqs k' i = dtqs k i"
  shows "dtq_inv c k' i"
proof -
  have "set (queues k' (Dtq_swait i)) \<subseteq> set (queues k (Dtq_swait i))" "set (queues k' (Dtq_rwait i)) \<subseteq> set (queues k (Dtq_rwait i))"
    using assms(2-4) by (simp_all add: wait_frame_def)
  with assms(1,5) show ?thesis by (auto simp: dtq_inv_def)
qed

definition dtq_waits :: "qid set" where
  "dtq_waits = range Dtq_swait \<union> range Dtq_rwait"

lemma dtq_waits_iff [simp]:
  "Dtq_swait i \<in> dtq_waits" "Dtq_rwait i \<in> dtq_waits" "Sem_wait i \<notin> dtq_waits" "Flg_wait i \<notin> dtq_waits"
  by (auto simp: dtq_waits_def)

definition dtq_change :: "kconf \<Rightarrow> kernel \<Rightarrow> kernel \<Rightarrow> bool" where
  "dtq_change c k k' \<longleftrightarrow> good k' \<and> dspflg k' = dspflg k \<and> semcnt k' = semcnt k \<and> flgptn k' = flgptn k \<and>
     wait_frame k k' dtq_waits \<and> (\<forall>i. dtq_inv c k' i)"

lemma dtq_change_refl: "good k \<Longrightarrow> \<forall>i. dtq_inv c k i \<Longrightarrow> dtq_change c k k"
  by (simp add: dtq_change_def)

text \<open>Only data queue \<open>i\<close> changes.\<close>

lemma dtq_changeI:
  assumes "good k'" "dspflg k' = dspflg k" "semcnt k' = semcnt k" "flgptn k' = flgptn k"
    "wait_frame k k' {Dtq_swait i, Dtq_rwait i}" "\<forall>j. dtq_inv c k j" "\<And>j. j \<noteq> i \<Longrightarrow> dtqs k' j = dtqs k j" "dtq_inv c k' i"
  shows "dtq_change c k k'"
proof -
  have "dtq_inv c k' j" for j
    using assms(6,8) dtq_inv_frame [OF _ assms(5), of c j] assms(7) [of j] by (cases "j = i") auto
  with assms frame_mono [OF assms(5), of dtq_waits] show ?thesis by (simp add: dtq_change_def)
qed

lemma dtq_change_dispatch:
  assumes "dtq_change c k k'"
  shows "dtq_change c k (dispatch_any k')" "dtq_change c k (dispatch_task k')"
  using assms good_dispatch_any by (simp_all add: dtq_change_def dtq_inv_def)

lemma set_wdata_effect [simp]:
  "queues (set_wdata t x k) = queues k" "tcbs (set_wdata t x k) = (tcbs k)(t := (tcbs k t)\<lparr>winfo := (winfo (tcbs k t))\<lparr>wi_data := x\<rparr>\<rparr>)"
  "dspflg (set_wdata t x k) = dspflg k" "semcnt (set_wdata t x k) = semcnt k" "flgptn (set_wdata t x k) = flgptn k"
  "dtqs (set_wdata t x k) = dtqs k" "runtsk (set_wdata t x k) = runtsk k" "schedtsk (set_wdata t x k) = schedtsk k"
  by (simp_all add: set_wdata_def)

lemma set_dtq_effect [simp]:
  "queues (set_dtq i d k) = queues k" "tcbs (set_dtq i d k) = tcbs k" "dtqs (set_dtq i d k) = (dtqs k)(i := d)"
  "dspflg (set_dtq i d k) = dspflg k" "semcnt (set_dtq i d k) = semcnt k" "flgptn (set_dtq i d k) = flgptn k"
  "good (set_dtq i d k) = good k" "wait_frame k0 (set_dtq i d k) X = wait_frame k0 k X" "runtsk (set_dtq i d k) = runtsk k"
  "self (set_dtq i d k) = self k"
  by (simp_all add: set_dtq_def self_def)

lemma good_set_wdata:
  assumes g: "good k" and r: "\<not> TSTAT_RUNNABLE (tstat (tcbs k t))"
  shows "good (set_wdata t x k)"
proof -
  have "kernel_ok (set_wdata t x k)" unfolding set_wdata_def
    by (rule upd_waiting_ok [OF goodD [OF g] r]) (use g in \<open>auto simp: good_def kernel_ok_def place_def tcb_ok_def\<close>)
  then show ?thesis using g by (auto simp: good_def run_ok_def)
qed

text \<open>A word is handed to the first receiver.\<close>

definition hand_over :: "nat \<Rightarrow> int \<Rightarrow> nat \<Rightarrow> nat list \<Rightarrow> kernel \<Rightarrow> kernel" where
  "hand_over i x t ts k = wait_complete t (set_wdata t x (set_queue (Dtq_rwait i) ts k))"

lemma hand_over_change:
  assumes g: "good k" and v: "\<forall>j. dtq_inv c k j" and q: "queues k (Dtq_rwait i) = t # ts"
  shows "dtq_change c k (hand_over i x t ts k)"
proof (rule dtq_changeI [OF _ _ _ _ _ v])
  have t: "t \<in> set (queues k (Dtq_rwait i))" using q by simp
  have r: "\<not> TSTAT_RUNNABLE (tstat (tcbs k t))" by (rule queued_not_runnable(1) [OF goodD [OF g] t]) simp
  have e: "set_wdata t x (set_queue (Dtq_rwait i) ts k) = set_queue (Dtq_rwait i) ts (set_wdata t x k)"
    by (simp add: set_wdata_def set_queue_def upd_tcb_def)
  show "good (hand_over i x t ts k)"
    unfolding hand_over_def e by (rule good_complete [OF good_set_wdata [OF g r]]) (use q in simp_all)
  have dist: "distinct (queues k q)" "t \<in> set (queues k q) \<Longrightarrow> q = Dtq_rwait i" for q
    using g t unfolding good_def kernel_ok_def by force+
  show "wait_frame k (hand_over i x t ts k) {Dtq_swait i, Dtq_rwait i}"
    using dist by (auto simp: wait_frame_def hand_over_def wdata_def)
  have "dtq_inv c k i" using v by blast
  with q show "dtq_inv c (hand_over i x t ts k) i" by (simp add: dtq_inv_def hand_over_def)
qed (simp_all add: hand_over_def)

lemma send_change:
  assumes g: "good k" and v: "\<forall>j. dtq_inv c k j"
  shows "dtq_change c k (snd (dtq_send_data c i x k))"
proof (cases "queues k (Dtq_rwait i)")
  case (Cons t ts)
  then show ?thesis using hand_over_change [OF g v Cons] by (simp add: dtq_send_data_def hand_over_def)
next
  case Nil
  have vi: "dtq_inv c k i" using v by blast
  show ?thesis
  proof (cases "dtq_count (dtqs k i) < dtqcnt c i")
    case True
    have "dtq_change c k (set_dtq i (enqueue_data (dtqcnt c i) x (dtqs k i)) k)"
      by (rule dtq_changeI [OF _ _ _ _ _ v, where i = i])
        (use g vi True Nil enqueue_ring [of "dtqcnt c i" "dtqs k i" x] in \<open>auto simp: dtq_inv_def\<close>)
    with True Nil show ?thesis by (simp add: dtq_send_data_def)
  next
    case False
    with Nil show ?thesis by (simp add: dtq_send_data_def dtq_change_refl [OF g v])
  qed
qed

lemma force_change:
  assumes g: "good k" and v: "\<forall>j. dtq_inv c k j" and n: "0 < dtqcnt c i"
  shows "dtq_change c k (force_send_data c i x k)"
proof (cases "queues k (Dtq_rwait i)")
  case (Cons t ts)
  then show ?thesis using hand_over_change [OF g v Cons] by (simp add: force_send_data_def hand_over_def)
next
  case Nil
  have vi: "dtq_inv c k i" using v by blast
  let ?d = "force_enqueue_data (dtqcnt c i) x (dtqs k i)"
  have "dtq_ring (dtqcnt c i) ?d \<and> (queues k (Dtq_swait i) \<noteq> [] \<longrightarrow> dtq_count ?d = dtqcnt c i)"
  proof (cases "dtq_count (dtqs k i) < dtqcnt c i")
    case True
    with vi enqueue_ring [of "dtqcnt c i" "dtqs k i" x] show ?thesis by (auto simp: dtq_inv_def force_enqueue_room)
  next
    case False
    with vi have "dtq_ring (dtqcnt c i) (dtqs k i)" "dtq_count (dtqs k i) = dtqcnt c i" by (auto simp: dtq_inv_def dtq_ring_def)
    from force_enqueue_full [OF this n] show ?thesis by simp
  qed
  then have "dtq_change c k (set_dtq i ?d k)"
    by (intro dtq_changeI [OF _ _ _ _ _ v, where i = i]) (use g Nil in \<open>auto simp: dtq_inv_def\<close>)
  with Nil show ?thesis by (simp add: force_send_data_def)
qed

lemma receive_change:
  assumes g: "good k" and v: "\<forall>j. dtq_inv c k j"
  shows "dtq_change c k (snd (receive_data c i k))"
proof -
  let ?n = "dtqcnt c i" and ?d = "dtqs k i"
  have vi: "dtq_inv c k i" using v by blast
  then have ring: "dtq_ring ?n ?d" by (simp add: dtq_inv_def)
  show ?thesis
  proof (cases "0 < dtq_count ?d")
    case True
    note dq = dequeue_ring [OF ring True]
    obtain x d where xd: "dequeue_data ?n ?d = (x, d)" by fastforce
    have norcv: "queues k (Dtq_rwait i) = []" using vi True by (auto simp: dtq_inv_def)
    show ?thesis
    proof (cases "queues k (Dtq_swait i)")
      case Nil
      have "dtq_change c k (set_dtq i d k)"
        by (rule dtq_changeI [OF _ _ _ _ _ v, where i = i]) (use g dq xd Nil norcv in \<open>auto simp: dtq_inv_def\<close>)
      with True Nil xd show ?thesis by (simp add: receive_data_def)
    next
      case (Cons t ts)
      have full: "dtq_count d < ?n" using vi Cons True dq(3) xd by (auto simp: dtq_inv_def)
      have rd: "dtq_ring ?n d" using dq(1) xd by simp
      let ?y = "wait_data (set_queue (Dtq_swait i) ts (set_dtq i d k)) t"
      let ?k2 = "set_queue (Dtq_swait i) ts (set_dtq i (enqueue_data ?n ?y d) (set_dtq i d k))"
      have e: "set_dtq i (enqueue_data ?n ?y d) (set_queue (Dtq_swait i) ts (set_dtq i d k)) = ?k2"
        by (simp add: set_dtq_def set_queue_def)
      have "dtq_change c k (wait_complete t ?k2)"
      proof (rule dtq_changeI [OF _ _ _ _ _ v, where i = i])
        show "good (wait_complete t ?k2)" by (rule good_complete) (use g Cons in simp_all)
        show "wait_frame k (wait_complete t ?k2) {Dtq_swait i, Dtq_rwait i}"
          by (auto simp: wait_frame_def wdata_def Let_def)
        have "dtq_count ?d = ?n" using vi Cons by (simp add: dtq_inv_def)
        then show "dtq_inv c (wait_complete t ?k2) i"
          using enqueue_ring [OF rd full, of ?y] norcv True dq(3) xd by (simp add: dtq_inv_def)
      qed simp_all
      with True Cons xd e show ?thesis by (simp add: receive_data_def Let_def)
    qed
  next
    case False
    show ?thesis
    proof (cases "queues k (Dtq_swait i)")
      case Nil
      with False show ?thesis by (simp add: receive_data_def dtq_change_refl [OF g v])
    next
      case (Cons t ts)
      have "dtq_change c k (wait_complete t (set_queue (Dtq_swait i) ts k))"
      proof (rule dtq_changeI [OF _ _ _ _ _ v, where i = i])
        show "good (wait_complete t (set_queue (Dtq_swait i) ts k))" by (rule good_complete [OF g Cons]) simp
        show "wait_frame k (wait_complete t (set_queue (Dtq_swait i) ts k)) {Dtq_swait i, Dtq_rwait i}"
          by (rule frame_mono [OF frame_complete [OF Cons]]) simp_all
        show "dtq_inv c (wait_complete t (set_queue (Dtq_swait i) ts k)) i" using vi Cons by (simp add: dtq_inv_def)
      qed simp_all
      with False Cons show ?thesis by (simp add: receive_data_def Let_def)
    qed
  qed
qed

text \<open>Nothing changes when there is no room, or nothing to receive.\<close>

lemma refused:
  "fst (dtq_send_data c i x k) = False \<Longrightarrow> snd (dtq_send_data c i x k) = k \<and> queues k (Dtq_rwait i) = [] \<and> dtqcnt c i \<le> dtq_count (dtqs k i)"
  "fst (receive_data c i k) = None \<Longrightarrow> snd (receive_data c i k) = k \<and> queues k (Dtq_swait i) = [] \<and> dtq_count (dtqs k i) = 0"
  by (auto simp: dtq_send_data_def receive_data_def Let_def case_prod_beta split: list.splits if_splits)

text \<open>A receiver waits as for an object whose queue is first-in-first-out.\<close>

lemma rcv_wait_eq:
  "rcv_wait i k = wobj_make_wait (c\<lparr>wobj_tpri := \<lambda>_. False\<rparr>) (Dtq_rwait i) TS_WAITING_RDTQ fresh_winfo k"
  "rcv_wait_tmout i tmo k = wobj_make_wait_tmout (c\<lparr>wobj_tpri := \<lambda>_. False\<rparr>) (Dtq_rwait i) TS_WAITING_RDTQ fresh_winfo tmo k"
  by (simp_all add: rcv_wait_def rcv_wait_tmout_def wobj_make_wait_def wobj_make_wait_tmout_def wobj_queue_insert_def Let_def)

lemma wait_change:
  assumes g: "good k" and v: "\<forall>j. dtq_inv c k j" and d: "dspflg k" "runtsk k \<noteq> None"
    and q: "q = Dtq_swait i \<and> queues k (Dtq_rwait i) = [] \<and> dtqcnt c i \<le> dtq_count (dtqs k i) \<or>
      q = Dtq_rwait i \<and> queues k (Dtq_swait i) = [] \<and> dtq_count (dtqs k i) = 0"
  shows "dtq_change c k (dispatch (wobj_make_wait c' q (wait_state q) w k))"
    "dtq_change c k (dispatch (wobj_make_wait_tmout c' q (wait_state q) w tmo k))"
proof -
  have nr: "\<not> is_ready q" using q by auto
  have vi: "dtq_inv c k i" using v by blast
  have cnt: "dtq_count (dtqs k i) \<le> dtqcnt c i" using vi by (simp add: dtq_inv_def dtq_ring_def)
  note f = frame_wait [OF goodD [OF g] good_self [OF g d(2)] nr]
  note w = wait_queues(1,2) [OF goodD [OF g] good_self [OF g d(2)] nr]
  have m: "{q} \<subseteq> {Dtq_swait i, Dtq_rwait i}" using q by auto
  show "dtq_change c k (dispatch (wobj_make_wait c' q (wait_state q) w k))"
  proof (rule dtq_changeI [OF good_wait(1) [OF g d nr] _ _ _ _ v, where i = i])
    show "wait_frame k (dispatch (wobj_make_wait c' q (wait_state q) w k)) {Dtq_swait i, Dtq_rwait i}"
      using frame_mono [OF f(1) m] by simp
    show "dtq_inv c (dispatch (wobj_make_wait c' q (wait_state q) w k)) i"
      using vi q cnt w(1) by (auto simp: dtq_inv_def)
  qed simp_all
  show "dtq_change c k (dispatch (wobj_make_wait_tmout c' q (wait_state q) w tmo k))"
  proof (rule dtq_changeI [OF good_wait(2) [OF g d nr] _ _ _ _ v, where i = i])
    show "wait_frame k (dispatch (wobj_make_wait_tmout c' q (wait_state q) w tmo k)) {Dtq_swait i, Dtq_rwait i}"
      using frame_mono [OF f(2) m] by simp
    show "dtq_inv c (dispatch (wobj_make_wait_tmout c' q (wait_state q) w tmo k)) i"
      using vi q cnt w(2) by (auto simp: dtq_inv_def)
  qed simp_all
qed

lemma snd_wait_change:
  assumes "good k" "\<forall>j. dtq_inv c k j" "dspflg k" "runtsk k \<noteq> None" "fst (dtq_send_data c i x k) = False"
  shows "dtq_change c k (dispatch (wobj_make_wait c (Dtq_swait i) TS_WAITING_SDTQ w (snd (dtq_send_data c i x k))))"
    "dtq_change c k (dispatch (wobj_make_wait_tmout c (Dtq_swait i) TS_WAITING_SDTQ w tmo (snd (dtq_send_data c i x k))))"
  using wait_change [OF assms(1-4), of "Dtq_swait i" i] refused(1) [OF assms(5)]
  by (simp_all add: wait_state_def)

lemma rcv_wait_change:
  assumes "good k" "\<forall>j. dtq_inv c k j" "dspflg k" "runtsk k \<noteq> None" "fst (receive_data c i k) = None"
  shows "dtq_change c k (dispatch (rcv_wait i (snd (receive_data c i k))))"
    "dtq_change c k (dispatch (rcv_wait_tmout i tmo (snd (receive_data c i k))))"
  using wait_change [OF assms(1-4), of "Dtq_rwait i" i] refused(2) [OF assms(5)]
  by (simp_all add: wait_state_def rcv_wait_eq [where c = c])

lemma snd_dtq_change:
  assumes "good k" "\<forall>j. dtq_inv c k j" "caller k"
  shows "dtq_change c k (snd (snd_dtq c dtqid x k))" "dtq_change c k (snd (tsnd_dtq c dtqid x tmo k))"
    "dtq_change c k (snd (psnd_dtq c dtqid x k))" "dtq_change c k (snd (fsnd_dtq c dtqid x k))"
  using assms
  by (auto simp: snd_dtq_def tsnd_dtq_def psnd_dtq_def fsnd_dtq_def Let_def case_prod_beta dtq_change_refl CHECK_defs caller_def
      intro: dtq_change_dispatch send_change snd_wait_change force_change)

lemma rcv_dtq_change:
  assumes "good k" "\<forall>j. dtq_inv c k j" "caller k"
  shows "dtq_change c k (snd (snd (rcv_dtq c dtqid wr k)))" "dtq_change c k (snd (snd (trcv_dtq c dtqid wr tmo k)))"
    "dtq_change c k (snd (snd (prcv_dtq c dtqid wr k)))"
  using assms
  by (auto simp: rcv_dtq_def trcv_dtq_def prcv_dtq_def Let_def case_prod_beta dtq_change_refl CHECK_defs caller_def
      intro: dtq_change_dispatch receive_change rcv_wait_change)

lemma ini_dtq_change:
  assumes g: "good k" and v: "\<forall>j. dtq_inv c k j"
  shows "dtq_change c k (snd (ini_dtq c dtqid k))"
proof -
  let ?i = "INDEX_OBJ dtqid"
  let ?k0 = "init_wait_queue (Dtq_swait ?i) k" and ?k1 = "init_wait_queue (Dtq_rwait ?i) (init_wait_queue (Dtq_swait ?i) k)"
  have g0: "good ?k0" by (rule good_init_wait_queue [OF g]) simp
  have g1: "good ?k1" by (rule good_init_wait_queue [OF g0]) simp
  note s0 = init_wait_queue_spec [OF goodD [OF g], of "Dtq_swait ?i", simplified]
  note s1 = init_wait_queue_spec [OF goodD [OF g0], of "Dtq_rwait ?i", simplified]
  have "wait_frame k ?k0 {}" "wait_frame ?k0 ?k1 {}" by (rule frame_init; use g g0 in \<open>simp add: goodD\<close>)+
  then have f: "wait_frame k ?k1 {Dtq_swait ?i, Dtq_rwait ?i}" by (auto simp: wait_frame_def subset_iff)
  have vi: "dtq_inv c k ?i" using v by blast
  let ?d = "(dtqs ?k1 ?i)\<lparr>dtq_count := 0, dtq_head := 0, dtq_tail := 0\<rparr>"
  have "dtq_change c k (set_dtq ?i ?d ?k1)"
  proof (rule dtq_changeI [OF _ _ _ _ _ v, where i = ?i])
    show "dtq_inv c (set_dtq ?i ?d ?k1) ?i" using vi s0 s1 by (auto simp: dtq_inv_def dtq_ring_def)
  qed (use g1 f in simp_all)
  from dtq_change_dispatch(2) [OF this] show ?thesis
    by (simp add: ini_dtq_def Let_def dtq_change_refl [OF g v])
qed

section \<open>A data queue is a queue\<close>

text \<open>The words on their way: those in the ring, then those of the waiting senders.\<close>

definition pending :: "kconf \<Rightarrow> kernel \<Rightarrow> nat \<Rightarrow> int list" where
  "pending c k i = stored (dtqcnt c i) (dtqs k i) @ map (wait_data k) (queues k (Dtq_swait i))"

definition dtq_access :: "kconf \<Rightarrow> int \<Rightarrow> nat \<Rightarrow> kernel \<Rightarrow> bool" where
  "dtq_access c dtqid n k \<longleftrightarrow> VALID_OBJID (tmax_dtqid c) dtqid \<and> \<not> VIOLATE_ACPTN (acptn c (Dtq (INDEX_OBJ dtqid)) n) k"

lemma stored_Nil: "dtq_count d = 0 \<Longrightarrow> stored n d = []"
  by (simp add: stored_def)

lemma stored_Nil_iff: "stored n d = [] \<longleftrightarrow> dtq_count d = 0"
  by (metis length_0_conv length_stored)

lemma pending_dispatch [simp]:
  "pending c (dispatch k) i = pending c k i" "pending c (dispatch_task k) i = pending c k i" "pending c (dispatch_any k) i = pending c k i"
  by (simp_all add: pending_def wait_data_def [abs_def])

lemma wait_data_kept [simp]:
  "wait_data (wait_complete t k) u = wait_data k u" "wait_data (set_queue q ts k) u = wait_data k u" "wait_data (set_dtq i d k) u = wait_data k u"
  by (simp_all add: wait_data_def)

lemma send_pending:
  assumes v: "dtq_inv c k i" and n: "queues k (Dtq_rwait i) = []"
  shows "fst (dtq_send_data c i x k) \<Longrightarrow> pending c (snd (dtq_send_data c i x k)) i = pending c k i @ [x]"
proof -
  assume "fst (dtq_send_data c i x k)"
  then have room: "dtq_count (dtqs k i) < dtqcnt c i" using n by (auto simp: dtq_send_data_def split: if_splits)
  then have "queues k (Dtq_swait i) = []" using v by (auto simp: dtq_inv_def)
  then show "pending c (snd (dtq_send_data c i x k)) i = pending c k i @ [x]"
    using n room v enqueue_ring(2) [of "dtqcnt c i" "dtqs k i" x] by (simp add: dtq_send_data_def pending_def dtq_inv_def)
qed

lemma receive_pending:
  assumes v: "dtq_inv c k i" and g: "good k"
  shows "receive_data c i k = (Some x, k') \<Longrightarrow> pending c k i = x # pending c k' i"
    "fst (receive_data c i k) = None \<longleftrightarrow> pending c k i = []"
proof -
  have ring: "dtq_ring (dtqcnt c i) (dtqs k i)" using v by (simp add: dtq_inv_def)
  have dist: "distinct (queues k (Dtq_swait i))" using g by (simp add: good_def kernel_ok_def)
  show "pending c k i = x # pending c k' i" if e: "receive_data c i k = (Some x, k')"
  proof (cases "0 < dtq_count (dtqs k i)")
    case True
    note dq = dequeue_ring [OF ring True]
    obtain y d where yd: "dequeue_data (dtqcnt c i) (dtqs k i) = (y, d)" by fastforce
    show ?thesis
    proof (cases "queues k (Dtq_swait i)")
      case Nil
      with e True yd dq show ?thesis by (auto simp: receive_data_def pending_def)
    next
      case (Cons t ts)
      then have "dtq_count d < dtqcnt c i" "dtq_ring (dtqcnt c i) d" using v True dq yd by (auto simp: dtq_inv_def)
      note en = enqueue_ring(2) [OF this(2,1)]
      from e True yd Cons have k': "k' = wait_complete t (set_dtq i (enqueue_data (dtqcnt c i) (wait_data k t) d)
          (set_queue (Dtq_swait i) ts (set_dtq i d k)))" and x: "x = y"
        by (auto simp: receive_data_def Let_def)
      show ?thesis using Cons dq yd en by (simp add: k' x pending_def)
    qed
  next
    case False
    then have "stored (dtqcnt c i) (dtqs k i) = []" by (simp add: stored_Nil)
    with e False show ?thesis by (auto simp: receive_data_def pending_def Let_def split: list.splits)
  qed
  show "fst (receive_data c i k) = None \<longleftrightarrow> pending c k i = []"
    by (auto simp: receive_data_def pending_def stored_Nil_iff Let_def case_prod_beta split: list.splits)
qed

lemma hand_over_resume:
  assumes "queues k (Dtq_rwait i) = t # ts"
  shows "resume_rcv t (hand_over i x t ts k) = (Some E_OK, Some x)"
  by (simp add: resume_rcv_def hand_over_def wercd_def wait_data_def)

lemma wait_data_wait:
  assumes k: "kernel_ok k" and r: "TSTAT_RUNNABLE (tstat (tcbs k (self k)))" and q: "\<not> is_ready q"
  shows "u \<noteq> self k \<Longrightarrow> wait_data (wobj_make_wait c q st w k) u = wait_data k u"
    "wait_data (wobj_make_wait c q st w k) (self k) = wi_data w"
  using wait_queues(3,5) [OF k r q] by (simp_all add: wait_data_def wdata_def Let_def)

text \<open>Sending to a data queue appends to the words on their way, whether the word finds
  room in the ring or the sender waits with it; when receivers wait, which is only when no word is
  on its way, the first of them takes the word back with \<open>E_OK\<close>.\<close>

lemma send_appends:
  fixes x :: int
  assumes g: "good k" and v: "\<forall>j. dtq_inv c k j" and t: "runtsk k = Some t" "\<not> raster (tcbs k t)"
    and a: "CHECK_DISPATCH k" "dtq_access c dtqid 1 k" and f: "\<not> wobj_tpri c (Dtq_swait (INDEX_OBJ dtqid))"
  defines "i \<equiv> INDEX_OBJ dtqid" and "k' \<equiv> snd (snd_dtq c dtqid x k)"
  shows "case queues k (Dtq_rwait i) of
      [] \<Rightarrow> pending c k' i = pending c k i @ [x]
    | u # us \<Rightarrow> pending c k i = [] \<and> pending c k' i = [] \<and> resume_rcv u k' = (Some E_OK, Some x)"
proof -
  have s: "self k = t" using t by (simp add: self_def)
  have e: "snd_dtq c dtqid x k = (let (sent, k1) = dtq_send_data c i x k
      in if sent then (Returns E_OK, dispatch_task k1)
         else (Blocks, dispatch (wobj_make_wait c (Dtq_swait i) TS_WAITING_SDTQ (fresh_winfo\<lparr>wi_data := x\<rparr>) k1)))"
    unfolding snd_dtq_def Let_def i_def using a t(2) s by (simp add: dtq_access_def)
  have vi: "dtq_inv c k i" using v by blast
  show ?thesis
  proof (cases "queues k (Dtq_rwait i)")
    case (Cons u us)
    have k': "k' = dispatch_task (hand_over i x u us k)"
      by (simp add: k'_def e dtq_send_data_def Cons hand_over_def)
    have no: "dtq_count (dtqs k i) = 0" "queues k (Dtq_swait i) = []" using vi Cons by (auto simp: dtq_inv_def)
    have "resume_rcv u k' = resume_rcv u (hand_over i x u us k)"
      by (simp add: k' resume_rcv_def wercd_def wait_data_def)
    moreover have "pending c (hand_over i x u us k) i = []" using no by (simp add: pending_def hand_over_def stored_Nil)
    ultimately show ?thesis using Cons hand_over_resume [OF Cons] no by (simp add: k' pending_def stored_Nil)
  next
    case Nil
    show ?thesis
    proof (cases "fst (dtq_send_data c i x k)")
      case True
      then have "k' = dispatch_task (snd (dtq_send_data c i x k))" by (simp add: k'_def e case_prod_beta)
      with Nil send_pending [OF vi Nil True] show ?thesis by simp
    next
      case False
      have rf: "snd (dtq_send_data c i x k) = k" using refused(1) [of c i x k] False by simp
      have k': "k' = dispatch (wobj_make_wait c (Dtq_swait i) TS_WAITING_SDTQ (fresh_winfo\<lparr>wi_data := x\<rparr>) k)"
        using False rf by (simp add: k'_def e case_prod_beta)
      have r: "TSTAT_RUNNABLE (tstat (tcbs k (self k)))" using good_self [OF g] t by simp
      have nr: "\<not> is_ready (Dtq_swait i)" by simp
      note wq = wait_queues(1) [OF goodD [OF g] r nr, of "Dtq_swait i"] and wd = wait_data_wait [OF goodD [OF g] r nr]
        and ws = wait_set(3) [OF goodD [OF g] r nr] and mq = make_wait_effect(5) [OF goodD [OF g] r]
      have q: "queues k' (Dtq_swait i) = queues k (Dtq_swait i) @ [self k]"
        using wq ws f by (simp add: k' insert_self_def mq i_def removeAll_id)
      have "wait_data k' u = wait_data k u" if "u \<in> set (queues k (Dtq_swait i))" for u
      proof -
        have "u \<noteq> self k" using that ws by blast
        from wd(1) [OF this] show ?thesis by (simp add: k' wait_data_def)
      qed
      then have "map (wait_data k') (queues k (Dtq_swait i)) = map (wait_data k) (queues k (Dtq_swait i))" by simp
      moreover have "wait_data k' (self k) = x" using wd(2) by (simp add: k' wait_data_def)
      moreover have "dtqs k' = dtqs k" by (simp add: k')
      ultimately show ?thesis using Nil by (simp add: pending_def q)
    qed
  qed
qed

lemma demo_dtq: "\<forall>j. dtq_inv demo_conf demo j"
  by (simp add: dtq_inv_def dtq_ring_def demo_facts demo_conf_def)

lemma demo_access:
  "CHECK_DISPATCH demo" "rundom k = 0 \<Longrightarrow> dtq_access demo_conf 1 n k" "\<not> raster (tcbs demo 2)" "\<not> wobj_tpri demo_conf q"
  by (simp_all add: CHECK_defs demo_facts dtq_access_def VALID_OBJID_def VIOLATE_ACPTN_def demo_conf_def TACP_KERNEL_def)

lemma send_appends_witness: "pending demo_conf (snd (snd_dtq demo_conf 1 7 demo)) 0 = [7]"
  using send_appends [OF demo_good demo_dtq demo_facts(1) demo_access(3) demo_access(1) demo_access(2) demo_access(4), of 7]
    demo_facts(5)
  by (simp add: demo_facts INDEX_OBJ_def pending_def stored_Nil)

text \<open>Claim C28.  Receiving takes the first of the words on their way, whether it is in the ring or
  with a waiting sender, and the caller waits behind the other receivers exactly when there is none.\<close>

lemma receive_takes_first:
  assumes g: "good k" and v: "\<forall>j. dtq_inv c k j" and t: "runtsk k = Some t" "\<not> raster (tcbs k t)"
    and a: "CHECK_DISPATCH k" "dtq_access c dtqid 2 k"
  defines "i \<equiv> INDEX_OBJ dtqid"
  shows "case rcv_dtq c dtqid True k of (r, y, k') \<Rightarrow> (case pending c k i of
      [] \<Rightarrow> r = Blocks \<and> queues k' (Dtq_rwait i) = queues k (Dtq_rwait i) @ [t]
    | x # xs \<Rightarrow> r = Returns E_OK \<and> y = Some x \<and> pending c k' i = xs)"
proof -
  have s: "self k = t" using t by (simp add: self_def)
  have e: "rcv_dtq c dtqid True k = (let (x, k1) = receive_data c i k
      in if x \<noteq> None then (Returns E_OK, x, dispatch_task k1) else (Blocks, None, dispatch (rcv_wait i k1)))"
    unfolding rcv_dtq_def Let_def i_def using a t(2) s by (simp add: dtq_access_def)
  have vi: "dtq_inv c k i" using v by blast
  note rp = receive_pending [OF vi g]
  obtain y k1 where yk: "receive_data c i k = (y, k1)" by fastforce
  show ?thesis
  proof (cases y)
    case (Some x)
    with rp(1) [of x k1] yk show ?thesis by (simp add: e)
  next
    case None
    have r: "TSTAT_RUNNABLE (tstat (tcbs k (self k)))" using good_self [OF g] t by simp
    have nr: "\<not> is_ready (Dtq_rwait i)" by simp
    have "k1 = k" using refused(2) [of c i k] yk None by simp
    moreover have "queues (rcv_wait i k) (Dtq_rwait i) = queues k (Dtq_rwait i) @ [t]"
      using wait_queues(1) [OF goodD [OF g] r nr, of "Dtq_rwait i" "c\<lparr>wobj_tpri := \<lambda>_. False\<rparr>"]
        wait_set(3) [OF goodD [OF g] r nr] make_wait_effect(5) [OF goodD [OF g] r] s
      by (simp add: rcv_wait_eq [where c = c] insert_self_def removeAll_id)
    ultimately show ?thesis using rp(2) yk None by (simp add: e)
  qed
qed

lemma demo_sent:
  defines "k \<equiv> snd (snd_dtq demo_conf 1 7 demo)"
  shows "good k" "\<forall>j. dtq_inv demo_conf k j" "runtsk k = Some 2" "\<not> raster (tcbs k 2)" "CHECK_DISPATCH k" "rundom k = 0"
    "pending demo_conf k 0 = [7]"
proof -
  have "dtq_change demo_conf demo k"
    unfolding k_def by (rule snd_dtq_change [OF demo_good demo_dtq]) (simp add: caller_def demo_facts)
  then show "good k" "\<forall>j. dtq_inv demo_conf k j" by (simp_all add: dtq_change_def)
  have k: "k = dispatch_task (set_dtq 0 (enqueue_data 2 7 (dtqs demo 0)) demo)"
    using demo_access(1) demo_access(2) [of demo 1]
    by (simp add: k_def snd_dtq_def dtq_access_def Let_def self_def demo_facts INDEX_OBJ_def dtq_send_data_def demo_conf_def)
  have sch: "schedtsk demo = runtsk demo" by (simp add: demo_def dispatch_def)
  show "runtsk k = Some 2" "\<not> raster (tcbs k 2)" "CHECK_DISPATCH k" "rundom k = 0"
    using sch by (simp_all add: k dispatch_task_def set_dtq_def demo_facts CHECK_defs)
  have "enqueue_data 2 7 (dtqs demo 0) = \<lparr>dtqmb = [7, 0], dtq_count = 1, dtq_head = 0, dtq_tail = 1\<rparr>"
    by (simp add: demo_facts enqueue_data_def)
  then show "pending demo_conf k 0 = [7]"
    by (simp add: k pending_def demo_facts stored_def ring_slice_def demo_conf_def)
qed

lemma receive_takes_first_witness:
  "case rcv_dtq demo_conf 1 True (snd (snd_dtq demo_conf 1 7 demo)) of (r, y, k') \<Rightarrow>
     r = Returns E_OK \<and> y = Some 7 \<and> pending demo_conf k' 0 = []"
  using receive_takes_first [OF demo_sent(1-5) demo_access(2) [OF demo_sent(6)]] demo_sent(7)
  by (simp add: INDEX_OBJ_def)

end
