(* ===== verification/Kernel_Run.thy ===== *)
theory Kernel_Run
  imports Kernel_Sync Kernel_Flag Kernel_Dtq
begin

text \<open>
  The kernel as a whole: the service calls, time-outs and the changes of context between them as
  the steps of one machine, and what holds in every state it reaches.
\<close>

section \<open>The machine\<close>

datatype svc =
    Svc_sig_sem int | Svc_wai_sem int | Svc_pol_sem int | Svc_twai_sem int "32 word" | Svc_ini_sem int
  | Svc_set_flg int "32 word" | Svc_clr_flg int "32 word" | Svc_wai_flg int "32 word" "32 word" bool
  | Svc_pol_flg int "32 word" "32 word" bool | Svc_twai_flg int "32 word" "32 word" bool "32 word" | Svc_ini_flg int
  | Svc_snd_dtq int int | Svc_psnd_dtq int int | Svc_tsnd_dtq int int "32 word" | Svc_fsnd_dtq int int
  | Svc_rcv_dtq int bool | Svc_prcv_dtq int bool | Svc_trcv_dtq int bool "32 word" | Svc_ini_dtq int
  | Svc_slp_tsk | Svc_tslp_tsk "32 word" | Svc_wup_tsk int | Svc_can_wup int | Svc_rel_wai int | Svc_sus_tsk int
  | Svc_rsm_tsk int | Svc_dly_tsk "32 word" | Svc_act_tsk int | Svc_can_act int | Svc_chg_pri int int | Svc_rot_rdq int

fun service :: "kconf \<Rightarrow> svc \<Rightarrow> kernel \<Rightarrow> reply \<times> kernel" where
  "service c (Svc_sig_sem i) k = sig_sem c i k"
| "service c (Svc_wai_sem i) k = wai_sem c i k"
| "service c (Svc_pol_sem i) k = pol_sem c i k"
| "service c (Svc_twai_sem i tmo) k = twai_sem c i tmo k"
| "service c (Svc_ini_sem i) k = ini_sem c i k"
| "service c (Svc_set_flg i p) k = set_flg c i p k"
| "service c (Svc_clr_flg i p) k = clr_flg c i p k"
| "service c (Svc_wai_flg i w m wr) k = (case wai_flg c i w m wr k of (r, _, k') \<Rightarrow> (r, k'))"
| "service c (Svc_pol_flg i w m wr) k = (case pol_flg c i w m wr k of (r, _, k') \<Rightarrow> (r, k'))"
| "service c (Svc_twai_flg i w m wr tmo) k = (case twai_flg c i w m wr tmo k of (r, _, k') \<Rightarrow> (r, k'))"
| "service c (Svc_ini_flg i) k = ini_flg c i k"
| "service c (Svc_snd_dtq i x) k = snd_dtq c i x k"
| "service c (Svc_psnd_dtq i x) k = psnd_dtq c i x k"
| "service c (Svc_tsnd_dtq i x tmo) k = tsnd_dtq c i x tmo k"
| "service c (Svc_fsnd_dtq i x) k = fsnd_dtq c i x k"
| "service c (Svc_rcv_dtq i wr) k = (case rcv_dtq c i wr k of (r, _, k') \<Rightarrow> (r, k'))"
| "service c (Svc_prcv_dtq i wr) k = (case prcv_dtq c i wr k of (r, _, k') \<Rightarrow> (r, k'))"
| "service c (Svc_trcv_dtq i wr tmo) k = (case trcv_dtq c i wr tmo k of (r, _, k') \<Rightarrow> (r, k'))"
| "service c (Svc_ini_dtq i) k = ini_dtq c i k"
| "service c Svc_slp_tsk k = slp_tsk k"
| "service c (Svc_tslp_tsk tmo) k = tslp_tsk tmo k"
| "service c (Svc_wup_tsk i) k = wup_tsk c i k"
| "service c (Svc_can_wup i) k = can_wup c i k"
| "service c (Svc_rel_wai i) k = rel_wai c i k"
| "service c (Svc_sus_tsk i) k = sus_tsk c i k"
| "service c (Svc_rsm_tsk i) k = rsm_tsk c i k"
| "service c (Svc_dly_tsk d) k = dly_tsk d k"
| "service c (Svc_act_tsk i) k = act_tsk c i k"
| "service c (Svc_can_act i) k = can_act c i k"
| "service c (Svc_chg_pri i p) k = chg_pri c i p k"
| "service c (Svc_rot_rdq p) k = rot_rdq c p k"

text \<open>At the start no task is active, no task waits, and the objects have their initial values.\<close>

definition initial :: "kconf \<Rightarrow> kernel \<Rightarrow> bool" where
  "initial c k \<longleftrightarrow> (\<forall>t. tstat (tcbs k t) = TS_DORMANT \<and> priority (tcbs k t) < 16 \<and> ipriority (tcbs k t) < 16) \<and>
     (\<forall>q. queues k q = []) \<and> (\<forall>s. ready_primap k s = 0 \<and> predtsk k s = None) \<and> schedtsk k = None \<and> runtsk k = None \<and>
     (\<forall>i. semcnt k i = isemcnt c i) \<and>
     (\<forall>i. length (dtqmb (dtqs k i)) = dtqcnt c i \<and> dtq_count (dtqs k i) = 0 \<and> dtq_head (dtqs k i) = 0 \<and> dtq_tail (dtqs k i) = 0)"

text \<open>
  The steps: a call, from a task that runs or from an interrupt; a time-out, when the first event
  due is that of a task that waits; and what happens between calls, in which dispatching is only
  forbidden while the right task runs.
\<close>

inductive step :: "kconf \<Rightarrow> kernel \<Rightarrow> kernel \<Rightarrow> bool" for c where
  call: "caller k \<Longrightarrow> service c s k = (r, k') \<Longrightarrow> step c k k'"
| timeout: "tmevt_proc_top h (tm k) = (Some t, tm') \<Longrightarrow> TSTAT_WAITING (tstat (tcbs k t)) \<Longrightarrow>
    k' = (if tstat (tcbs k t) AND NOT TS_SUSPENDED = TS_WAITING_DLY then wait_tmout_ok t (k\<lparr>tm := tm'\<rparr>)
      else wait_tmout c t (k\<lparr>tm := tm'\<rparr>)) \<Longrightarrow> step c k k'"
| no_event: "tmevt_proc_top h (tm k) = (None, tm') \<Longrightarrow> step c k (k\<lparr>tm := tm'\<rparr>)"
| context_change: "\<forall>t. r = Some t \<longrightarrow> TSTAT_RUNNABLE (tstat (tcbs k t)) \<Longrightarrow> \<not> dspflg k \<longrightarrow> r = runtsk k \<Longrightarrow>
    step c k (k\<lparr>runtsk := r, sense_context := ctx, sense_lock := l, rundom := d\<rparr>)"
| dispatch_off: "runtsk k = schedtsk k \<Longrightarrow> step c k (k\<lparr>dspflg := False\<rparr>)"
| dispatch_on: "step c k (update_schedtsk (k\<lparr>dspflg := True\<rparr>))"

inductive reachable :: "kconf \<Rightarrow> kernel \<Rightarrow> bool" for c where
  start: "initial c k \<Longrightarrow> reachable c k"
| next_step: "reachable c k \<Longrightarrow> step c k k' \<Longrightarrow> reachable c k'"

inductive_cases step_cases: "step c k k'"

section \<open>The invariant\<close>

definition all_ok :: "kconf \<Rightarrow> kernel \<Rightarrow> bool" where
  "all_ok c k \<longleftrightarrow> good k \<and> (\<forall>i. sem_inv c k i) \<and> (\<forall>i. flg_inv c k i) \<and> (\<forall>i. dtq_inv c k i)"

lemma sem_change_ok: "all_ok c k \<Longrightarrow> sem_change c k k' \<Longrightarrow> all_ok c k'"
  by (auto simp: all_ok_def sem_change_def intro: flg_inv_frame dtq_inv_frame)

lemma flg_change_ok: "all_ok c k \<Longrightarrow> flg_change c k k' \<Longrightarrow> all_ok c k'"
  by (auto simp: all_ok_def flg_change_def intro: sem_inv_frame dtq_inv_frame)

lemma dtq_change_ok: "all_ok c k \<Longrightarrow> dtq_change c k k' \<Longrightarrow> all_ok c k'"
  by (auto simp: all_ok_def dtq_change_def intro: sem_inv_frame flg_inv_frame)

lemma task_change_ok: "all_ok c k \<Longrightarrow> task_change k k' \<Longrightarrow> all_ok c k'"
  by (auto simp: all_ok_def task_change_def intro: sem_inv_frame flg_inv_frame dtq_inv_frame)

lemma all_okD:
  assumes "all_ok c k"
  shows "good k" "\<forall>i. sem_inv c k i" "\<forall>i. flg_inv c k i" "\<forall>i. dtq_inv c k i"
  using assms by (simp_all add: all_ok_def)

lemma initial_ok:
  assumes i: "initial c k" and c: "sem_conf_ok c"
  shows "all_ok c k"
proof -
  have "choose_schedtsk k = None" using i by (simp add: initial_def choose_schedtsk_def)
  moreover have "tcb_ok (tcbs k t)" "place (tcbs k t) = None" for t
    using i by (simp_all add: initial_def tcb_ok_def place_def)
  ultimately have "kernel_ok k" using i by (simp add: kernel_ok_def unit_ok_def initial_def)
  then have "good k" using i by (simp add: good_def run_ok_def initial_def)
  then show ?thesis using i c
    by (auto simp: all_ok_def initial_def sem_inv_def sem_conf_ok_def flg_inv_def dtq_inv_def dtq_ring_def)
qed

lemma service_ok:
  assumes a: "all_ok c k" and c: "sem_conf_ok c" and l: "caller k"
  shows "all_ok c (snd (service c s k))"
proof -
  note s = sem_change_ok [OF a] and f = flg_change_ok [OF a] and d = dtq_change_ok [OF a] and t = task_change_ok [OF a]
  note g = all_okD(1) [OF a] and fi = all_okD(3) [OF a] and di = all_okD(4) [OF a]
  show ?thesis
    by (cases s)
      (simp_all add: case_prod_beta s f d t g fi di l c sig_sem_change wai_sem_change pol_sem_change twai_sem_change ini_sem_change
        set_flg_change clr_flg_change wai_flg_change ini_flg_change snd_dtq_change rcv_dtq_change ini_dtq_change
        slp_changes wup_changes rel_wai_change sus_changes chg_pri_change rot_rdq_change)
qed

lemma all_ok_same:
  assumes a: "all_ok c k" and g: "good k'" and e: "queues k' = queues k" "tcbs k' = tcbs k" "semcnt k' = semcnt k"
    "flgptn k' = flgptn k" "dtqs k' = dtqs k"
  shows "all_ok c k'"
  using a g e by (simp add: all_ok_def sem_inv_def flg_inv_def unmet_def dtq_inv_def)

lemma dly_no_wobj:
  assumes "s AND NOT TS_SUSPENDED = TS_WAITING_DLY"
  shows "\<not> TSTAT_WAIT_WOBJ s"
proof -
  have "s AND 0x60 = (s AND NOT TS_SUSPENDED) AND 0x60" by (simp add: and.assoc TS_SUSPENDED_def)
  then show ?thesis unfolding assms by (simp add: TSTAT_defs TS_defs)
qed

lemma step_ok:
  assumes st: "step c k k'" and a: "all_ok c k" and c: "sem_conf_ok c"
  shows "all_ok c k'"
  using st
proof cases
  case (call s r)
  with service_ok [OF a c, of s] show ?thesis by simp
next
  case (timeout h t tm')
  let ?k = "k\<lparr>tm := tm'\<rparr>"
  have g: "good ?k" using a by (simp add: all_ok_def)
  have a1: "all_ok c ?k" by (rule all_ok_same [OF a g]) simp_all
  have w: "TSTAT_WAITING (tstat (tcbs ?k t))" using timeout by simp
  show ?thesis
  proof (cases "tstat (tcbs k t) AND NOT TS_SUSPENDED = TS_WAITING_DLY")
    case True
    then have "\<not> TSTAT_WAIT_WOBJ (tstat (tcbs ?k t))" using dly_no_wobj by simp
    from task_change_ok [OF a1 timeout_ok_change [OF g w this]] timeout True show ?thesis by simp
  next
    case False
    with task_change_ok [OF a1 timeout_change [OF g w]] timeout show ?thesis by simp
  qed
next
  case (no_event h tm')
  then show ?thesis using all_ok_same [OF a] a by (simp add: all_ok_def)
next
  case (context_change r ctx l d)
  have "kernel_ok k'" using a unfolding context_change(1)
    by (simp add: all_ok_def good_def kernel_ok_def unit_ok_def choose_schedtsk_def cong: option.case_cong)
  moreover have "run_ok k'" using a context_change by (auto simp: all_ok_def good_def run_ok_def)
  ultimately have "good k'" by (simp add: good_def)
  with all_ok_same [OF a this] context_change(1) show ?thesis by simp
next
  case dispatch_off
  have "kernel_ok k'" using a unfolding dispatch_off(1)
    by (simp add: all_ok_def good_def kernel_ok_def unit_ok_def)
  moreover have "run_ok k'" using a dispatch_off by (auto simp: all_ok_def good_def run_ok_def)
  ultimately have "good k'" by (simp add: good_def)
  with all_ok_same [OF a this] dispatch_off(1) show ?thesis by simp
next
  case dispatch_on
  let ?k = "k\<lparr>dspflg := True\<rparr>"
  have ch: "choose_schedtsk (update_schedtsk ?k) = choose_schedtsk ?k" by (rule choose_cong) (simp_all add: update_schedtsk_def)
  have "unit_ok k' s = unit_ok k s" for s by (rule unit_cong) (simp_all add: dispatch_on update_schedtsk_def)
  then have "kernel_ok k'" using a ch unfolding all_ok_def good_def kernel_ok_def dispatch_on
    by (auto simp: update_schedtsk_def)
  moreover have "run_ok k'" using a by (simp add: dispatch_on all_ok_def good_def run_ok_def update_schedtsk_def)
  ultimately have "good k'" by (simp add: good_def)
  with all_ok_same [OF a this] dispatch_on show ?thesis by (simp add: update_schedtsk_def)
qed

lemma reachable_ok:
  assumes "reachable c k" "sem_conf_ok c"
  shows "all_ok c k"
  using assms by induction (auto intro: initial_ok step_ok)

section \<open>Errors\<close>

definition clean :: "reply \<times> kernel \<Rightarrow> kernel \<Rightarrow> bool" where
  "clean r k \<longleftrightarrow> (\<forall>e. fst r = Returns e \<and> e \<noteq> E_OK \<longrightarrow> snd r = k)"

lemma clean_simps [simp]:
  "clean (Returns e, k) k" "clean (Returns E_OK, k') k" "clean (Blocks, k') k" "clean (Returns_uint n, k') k"
  by (simp_all add: clean_def)

lemma clean_if: "clean (if b then x else y) k \<longleftrightarrow> (b \<longrightarrow> clean x k) \<and> (\<not> b \<longrightarrow> clean y k)"
  by simp

lemma sem_clean: "clean (sig_sem c i k) k" "clean (wai_sem c i k) k" "clean (pol_sem c i k) k" "clean (twai_sem c i tmo k) k" "clean (ini_sem c i k) k"
  by (simp_all add: sig_sem_def wai_sem_def pol_sem_def twai_sem_def ini_sem_def Let_def split: list.split)

lemma sent_clean: "\<not> fst (dtq_send_data c i x k) \<Longrightarrow> clean (Returns e, snd (dtq_send_data c i x k)) k"
  using refused(1) [of c i x k] by simp

lemma received_clean: "fst (receive_data c i k) = None \<Longrightarrow> clean (Returns e, snd (receive_data c i k)) k"
  using refused(2) [of c i k] by simp

lemma dtq_clean:
  "clean (snd_dtq c i x k) k" "clean (psnd_dtq c i x k) k" "clean (tsnd_dtq c i x tmo k) k" "clean (fsnd_dtq c i x k) k" "clean (ini_dtq c i k) k"
  by (simp_all add: snd_dtq_def psnd_dtq_def tsnd_dtq_def fsnd_dtq_def ini_dtq_def Let_def case_prod_beta sent_clean)

lemma rcv_clean:
  "clean (service c (Svc_rcv_dtq i wr) k) k" "clean (service c (Svc_prcv_dtq i wr) k) k" "clean (service c (Svc_trcv_dtq i wr tmo) k) k"
  by (auto simp: rcv_dtq_def prcv_dtq_def trcv_dtq_def Let_def case_prod_beta received_clean)

lemma checked_clean: "fst (check_flg_cond c i w m k) = None \<Longrightarrow> clean (Returns e, snd (check_flg_cond c i w m k)) k"
  using check_refused [of c i w m k] by simp

lemma flg_clean:
  "clean (set_flg c i p k) k" "clean (clr_flg c i p k) k" "clean (ini_flg c i k) k"
  "clean (service c (Svc_wai_flg i w m wr) k) k" "clean (service c (Svc_pol_flg i w m wr) k) k"
  "clean (service c (Svc_twai_flg i w m wr tmo) k) k"
  by (auto simp: set_flg_def clr_flg_def ini_flg_def wai_flg_def pol_flg_def twai_flg_def Let_def case_prod_beta checked_clean)

lemma task_clean:
  "clean (slp_tsk k) k" "clean (tslp_tsk tmo k) k" "clean (wup_tsk c i k) k" "clean (can_wup c i k) k" "clean (rel_wai c i k) k"
  "clean (sus_tsk c i k) k" "clean (rsm_tsk c i k) k" "clean (dly_tsk d k) k" "clean (act_tsk c i k) k" "clean (can_act c i k) k"
  "clean (chg_pri c i p k) k" "clean (rot_rdq c p k) k"
  by (simp_all add: slp_tsk_def tslp_tsk_def wup_tsk_def can_wup_def rel_wai_def sus_tsk_def rsm_tsk_def dly_tsk_def act_tsk_def
      can_act_def chg_pri_def rot_rdq_def Let_def split: option.split)

lemma service_clean: "clean (service c s k) k"
  by (cases s) (simp_all only: service.simps sem_clean dtq_clean task_clean flg_clean [unfolded service.simps]
      rcv_clean [unfolded service.simps])

section \<open>What holds of the machine\<close>


lemma initial_idle: "initial demo_conf idle_kernel"
  by (simp add: initial_def idle_kernel_def demo_conf_def less_imp_diff_less)

lemma demo_conf_ok: "sem_conf_ok demo_conf"
  by (simp add: sem_conf_ok_def demo_conf_def)

lemma reachable_idle: "reachable demo_conf idle_kernel"
  by (rule reachable.start [OF initial_idle])

text \<open>From the start an interrupt activates task 1.\<close>

lemma reachable_active:
  "reachable demo_conf (snd (act_tsk demo_conf 2 (idle_kernel\<lparr>sense_context := True\<rparr>)))"
proof -
  have "step demo_conf idle_kernel (idle_kernel\<lparr>runtsk := None, sense_context := True, sense_lock := False, rundom := 0\<rparr>)"
    by (rule step.context_change) (simp_all add: idle_kernel_def)
  moreover have "idle_kernel\<lparr>runtsk := None, sense_context := True, sense_lock := False, rundom := 0\<rparr> = idle_kernel\<lparr>sense_context := True\<rparr>"
    by (simp add: idle_kernel_def)
  ultimately have r: "reachable demo_conf (idle_kernel\<lparr>sense_context := True\<rparr>)"
    using reachable.next_step [OF reachable_idle] by simp
  have "service demo_conf (Svc_act_tsk 2) (idle_kernel\<lparr>sense_context := True\<rparr>) =
      (fst (act_tsk demo_conf 2 (idle_kernel\<lparr>sense_context := True\<rparr>)), snd (act_tsk demo_conf 2 (idle_kernel\<lparr>sense_context := True\<rparr>)))"
    by simp
  from step.call [OF _ this] have "step demo_conf (idle_kernel\<lparr>sense_context := True\<rparr>)
      (snd (act_tsk demo_conf 2 (idle_kernel\<lparr>sense_context := True\<rparr>)))" by (simp add: caller_def)
  with reachable.next_step [OF r] show ?thesis .
qed




text \<open>A service call that returns an error has changed nothing.\<close>

lemma error_changes_nothing:
  assumes "service c s k = (Returns e, k')" "e \<noteq> E_OK"
  shows "k' = k"
  using service_clean [of c s k] assms by (simp add: clean_def)

lemma error_changes_nothing_witness: "snd (service demo_conf (Svc_psnd_dtq 9 1) demo) = demo"
proof -
  have "service demo_conf (Svc_psnd_dtq 9 1) demo = (Returns E_ID, snd (service demo_conf (Svc_psnd_dtq 9 1) demo))"
    by (simp add: psnd_dtq_def CHECK_defs demo_facts VALID_OBJID_def demo_conf_def)
  from error_changes_nothing [OF this] show ?thesis by simp
qed

section \<open>Time-outs\<close>

lemma removeAll_insert_tpri: "t \<notin> set ts \<Longrightarrow> removeAll t (queue_insert_tpri ts t k) = ts"
proof -
  assume "t \<notin> set ts"
  then have "t \<notin> set (takeWhile P ts)" "t \<notin> set (dropWhile P ts)" for P
    by (auto dest: set_takeWhileD set_dropWhileD)
  then show ?thesis by (simp add: queue_insert_tpri_def Let_def removeAll_id)
qed

lemma removeAll_insert_self: "self k \<notin> set (queues k q) \<Longrightarrow> removeAll (self k) (insert_self c q k) = queues k q"
  by (simp add: insert_self_def removeAll_insert_tpri removeAll_id)

text \<open>A wait that times out leaves no trace: when the time of a call of \<open>twai_sem\<close> is
  over, its task is back in the state of one that can run, the call gives \<open>E_TMOUT\<close>, and the
  waiting queue and the count of the semaphore are what they were before the call.\<close>

lemma timeout_leaves_no_trace:
  assumes g: "good k" and t: "runtsk k = Some t" and a: "CHECK_DISPATCH k" "sem_access c semid 2 k" "\<not> raster (tcbs k t)"
    and z: "semcnt k (INDEX_OBJ semid) = 0" and m: "VALID_TMOUT tmo" "tmo \<noteq> TMO_POL"
  shows "let (r, k1) = twai_sem c semid tmo k; k2 = wait_tmout c t k1
    in r = Blocks \<and> TSTAT_WAITING (tstat (tcbs k1 t)) \<and> wercd t k2 = Some E_TMOUT \<and> tstat (tcbs k2 t) = tstat (tcbs k t) \<and>
       queues k2 (Sem_wait (INDEX_OBJ semid)) = queues k (Sem_wait (INDEX_OBJ semid)) \<and> semcnt k2 = semcnt k"
proof -
  let ?q = "Sem_wait (INDEX_OBJ semid)"
  have s: "self k = t" using t by (simp add: self_def)
  have k: "kernel_ok k" and r: "TSTAT_RUNNABLE (tstat (tcbs k (self k)))" using g good_self [OF g] t by auto
  have nr: "\<not> is_ready ?q" by simp
  define k1 where "k1 = dispatch (wobj_make_wait_tmout c ?q TS_WAITING_SEM fresh_winfo tmo k)"
  have e: "twai_sem c semid tmo k = (Blocks, k1)"
    using a z m s by (simp add: twai_sem_def sem_access_def Let_def k1_def)
  have g1: "good k1" using good_wait(2) [OF g _ _ nr, of c fresh_winfo tmo] a t
    by (simp add: k1_def sem_wait_state [of "INDEX_OBJ semid"] CHECK_defs)
  have st: "tstat (tcbs k1 t) = TS_WAITING_SEM"
    using make_wait_effect(4) [OF k r] s by (simp add: k1_def wobj_make_wait_tmout_def wobj_queue_insert_eq set_wobj_def)
  have w: "TSTAT_WAITING (tstat (tcbs k1 t))" unfolding st by (simp add: TSTAT_defs TS_defs)
  have "\<not> TSTAT_RUNNABLE (tstat (tcbs k1 t))" unfolding st by (simp add: TSTAT_defs TS_defs)
  note dq = wait_dequeue_wobj_eq [OF goodD [OF g1] this, of c]
  have k2: "wait_tmout c t k1 = make_non_wait t (set_wercd t E_TMOUT (delete_task t k1))"
    by (simp add: wait_tmout_def dq Let_def request_dispatch_retint_def)
  have out: "self k \<notin> set (queues k ?q)" by (rule wait_set(3) [OF k r nr])
  have qm: "queues (make_wait_tmout TS_WAITING_SEM fresh_winfo tmo k) ?q = queues k ?q"
    using make_wait_effect(6) [OF k r] out by (simp add: removeAll_id)
  have "queues k1 ?q = insert_self c ?q (make_wait_tmout TS_WAITING_SEM fresh_winfo tmo k)"
    using wait_queues(2) [OF k r nr nr] by (simp add: k1_def)
  then have "removeAll t (queues k1 ?q) = queues k ?q"
    using removeAll_insert_self [of "make_wait_tmout TS_WAITING_SEM fresh_winfo tmo k" ?q c] out qm s by simp
  then have "queues (wait_tmout c t k1) ?q = queues k ?q" by (simp add: k2)
  moreover have "tstat (tcbs (wait_tmout c t k1) t) = TS_RUNNABLE" using st by (simp add: k2 waiting_not_suspended)
  moreover have "tstat (tcbs k t) = TS_RUNNABLE" using r s legal_runnable [OF ok_legal [OF k]] by simp
  moreover have "wercd t (wait_tmout c t k1) = Some E_TMOUT" by (simp add: k2 wercd_def)
  moreover have "semcnt (wait_tmout c t k1) = semcnt k" unfolding k2 by (simp add: k1_def)
  ultimately show ?thesis using w by (simp add: e Let_def)
qed

lemma timeout_leaves_no_trace_witness:
  "let (r, k1) = twai_sem demo_conf 1 100 demo; k2 = wait_tmout demo_conf 2 k1
   in r = Blocks \<and> wercd 2 k2 = Some E_TMOUT \<and> queues k2 (Sem_wait 0) = []"
proof -
  have "CHECK_DISPATCH demo" "sem_access demo_conf 1 2 demo" "\<not> raster (tcbs demo 2)" "semcnt demo (INDEX_OBJ 1) = 0"
    "VALID_TMOUT 100" "(100 :: 32 word) \<noteq> TMO_POL"
    by (simp_all add: CHECK_defs demo_facts sem_access_def demo_conf_def VALID_OBJID_def VIOLATE_ACPTN_def TACP_KERNEL_def
        VALID_TMOUT_def TMAX_RELTIM_def TMO_POL_def)
  from timeout_leaves_no_trace [OF demo_good demo_facts(1) this] show ?thesis
    by (simp add: Let_def case_prod_beta INDEX_OBJ_def demo_facts)
qed

end
