(* ===== verification/Azure_Buffer.thy ===== *)
theory Azure_Buffer
  imports C_Prelude
begin

text \<open>
  The byte buffers of the Azure SDK (\<open>azure_iot_sdk/c-utility/src/buffer.c\<close>), in which MQTT packets
  are built and received.  Storage comes from an allocator whose answers are the first component
  of every run: each request fails or gives bytes with any contents.
\<close>

section \<open>Storage\<close>

type_synonym byte = "8 word"

text \<open>
  What \<open>malloc\<close> answers to the requests to come: NULL, or storage with the given contents.  No
  object is larger than half the address space, so that larger requests fail.
\<close>

type_synonym mem = "nat \<Rightarrow> (nat \<Rightarrow> byte) option"

definition malloc :: "nat \<Rightarrow> mem \<Rightarrow> byte list option \<times> mem" where
  "malloc n h = (if n < 2 ^ 31 then map_option (\<lambda>g. map g [0..<n]) (h 0) else None, \<lambda>i. h (Suc i))"

definition realloc :: "byte list option \<Rightarrow> nat \<Rightarrow> mem \<Rightarrow> byte list option \<times> mem" where
  "realloc p n h =
    (let (q, h1) = malloc n h
     in (map_option (\<lambda>xs. take n (case p of None \<Rightarrow> [] | Some old \<Rightarrow> old) @
           drop (length (case p of None \<Rightarrow> [] | Some old \<Rightarrow> old)) xs) q, h1))"

definition size_add :: "nat \<Rightarrow> nat \<Rightarrow> nat" where
  "size_add a b = (a + b) mod 2 ^ 32"

text \<open>\<open>memcpy\<close>: the bytes read from \<open>n\<close> bytes at a pointer, and their store at an offset.\<close>

definition read_from :: "byte list option \<Rightarrow> nat \<Rightarrow> byte list outcome" where
  "read_from p n =
    (if n = 0 then Inr []
     else case p of None \<Rightarrow> Inl Null_pointer
          | Some xs \<Rightarrow> if n \<le> length xs then Inr (take n xs) else Inl Read_past_end)"

definition write_at :: "'a list \<Rightarrow> nat \<Rightarrow> 'a list \<Rightarrow> 'a list outcome" where
  "write_at xs p bs =
    (if p + length bs \<le> length xs then Inr (take p xs @ bs @ drop (p + length bs) xs) else Inl Buffer_overflow)"

text \<open>The bytes of the SDK and characters.\<close>

definition byte_of :: "char \<Rightarrow> byte" where
  "byte_of c = of_nat (of_char c)"

definition char_of_byte :: "byte \<Rightarrow> char" where
  "char_of_byte b = char_of (unat b)"

lemma char_byte [simp]: "char_of_byte (byte_of c) = c" "byte_of (char_of_byte b) = b"
proof -
  have "(of_char c :: nat) < 256" using of_char_mod_256 [of c, where 'a = nat] by (metis mod_less_divisor zero_less_numeral)
  then have "unat (of_nat (of_char c) :: byte) = of_char c" by (simp add: unat_of_nat take_bit_nat_eq_self)
  then show "char_of_byte (byte_of c) = c" by (simp add: char_of_byte_def byte_of_def)
  have "unat b < 256" using unsigned_less [of b] by simp
  then show "byte_of (char_of_byte b) = b" by (simp add: char_of_byte_def byte_of_def)
qed

lemma byte_char [simp]: "map byte_of (map char_of_byte bs) = bs"
  by (simp add: map_idI)

section \<open>Buffers\<close>

text \<open>The result \<open>int\<close> of the SDK: 0, or the line number that \<open>MU_FAILURE\<close> stands for.\<close>

datatype mu = MU_OK | MU_FAILURE

text \<open>
  \<open>bsize\<close> is what the buffer says it holds; an empty buffer may still own storage.  A handle is
  NULL or a buffer; two handles are never the same one unless an argument says so.
\<close>

record BUFFER =
  buffer :: "byte list option"
  bsize :: nat

type_synonym BUFFER_HANDLE = "BUFFER option"

definition BUFFER_new :: "mem \<Rightarrow> BUFFER_HANDLE \<times> mem" where
  "BUFFER_new h = (if h 0 = None then None else Some \<lparr>buffer = None, bsize = 0\<rparr>, \<lambda>i. h (Suc i))"

definition BUFFER_safemalloc :: "BUFFER \<Rightarrow> nat \<Rightarrow> mem \<Rightarrow> mu \<times> BUFFER \<times> mem" where
  "BUFFER_safemalloc b n h =
    (let (q, h1) = malloc (if n = 0 then 1 else n) h
     in case q of None \<Rightarrow> (MU_FAILURE, b\<lparr>buffer := None\<rparr>, h1)
        | Some xs \<Rightarrow> (MU_OK, b\<lparr>buffer := Some xs, bsize := n\<rparr>, h1))"

text \<open>A copy to the start of the storage of a buffer.\<close>

definition store_in :: "BUFFER \<Rightarrow> nat \<Rightarrow> byte list \<Rightarrow> BUFFER outcome" where
  "store_in b p bs =
    (case buffer b of None \<Rightarrow> if bs = [] then Inr b else Inl Null_pointer
     | Some xs \<Rightarrow> cbind (write_at xs p bs) (\<lambda>ys. Inr (b\<lparr>buffer := Some ys\<rparr>)))"

definition BUFFER_create :: "byte list option \<Rightarrow> nat \<Rightarrow> mem \<Rightarrow> (BUFFER_HANDLE \<times> mem) outcome" where
  "BUFFER_create source n h =
    (if source = None then Inr (None, h)
     else case BUFFER_new h of (None, h1) \<Rightarrow> Inr (None, h1)
     | (Some b, h1) \<Rightarrow>
         (case BUFFER_safemalloc b n h1 of
            (MU_FAILURE, _, h2) \<Rightarrow> Inr (None, h2)
          | (MU_OK, b1, h2) \<Rightarrow>
              cbind (read_from source n) (\<lambda>bs. cbind (store_in b1 0 bs) (\<lambda>b2. Inr (Some b2, h2)))))"

definition BUFFER_create_with_size :: "nat \<Rightarrow> mem \<Rightarrow> BUFFER_HANDLE \<times> mem" where
  "BUFFER_create_with_size n h =
    (case BUFFER_new h of (None, h1) \<Rightarrow> (None, h1)
     | (Some b, h1) \<Rightarrow>
         if n = 0 then (Some (b\<lparr>bsize := 0, buffer := None\<rparr>), h1)
         else (case malloc n h1 of
                 (None, h2) \<Rightarrow> (None, h2)
               | (Some xs, h2) \<Rightarrow> (Some (b\<lparr>bsize := n, buffer := Some xs\<rparr>), h2)))"

definition BUFFER_build :: "BUFFER_HANDLE \<Rightarrow> byte list option \<Rightarrow> nat \<Rightarrow> mem \<Rightarrow> (mu \<times> BUFFER_HANDLE \<times> mem) outcome" where
  "BUFFER_build handle source n h =
    (case handle of None \<Rightarrow> Inr (MU_FAILURE, handle, h)
     | Some b \<Rightarrow>
         if n = 0 then Inr (MU_OK, Some (b\<lparr>buffer := None, bsize := 0\<rparr>), h)
         else if source = None then Inr (MU_FAILURE, handle, h)
         else (case realloc (buffer b) n h of
                 (None, h1) \<Rightarrow> Inr (MU_FAILURE, handle, h1)
               | (Some xs, h1) \<Rightarrow>
                   cbind (read_from source n) (\<lambda>bs.
                     cbind (store_in (b\<lparr>buffer := Some xs, bsize := n\<rparr>) 0 bs) (\<lambda>b1. Inr (MU_OK, Some b1, h1)))))"

definition BUFFER_append_build :: "BUFFER_HANDLE \<Rightarrow> byte list option \<Rightarrow> nat \<Rightarrow> mem \<Rightarrow> (mu \<times> BUFFER_HANDLE \<times> mem) outcome" where
  "BUFFER_append_build handle source n h =
    (case handle of None \<Rightarrow> Inr (MU_FAILURE, handle, h)
     | Some b \<Rightarrow>
         if source = None \<or> n = 0 then Inr (MU_FAILURE, handle, h)
         else if buffer b = None then
           (case BUFFER_safemalloc b n h of
              (MU_FAILURE, b1, h1) \<Rightarrow> Inr (MU_FAILURE, Some b1, h1)
            | (MU_OK, b1, h1) \<Rightarrow>
                cbind (read_from source n) (\<lambda>bs. cbind (store_in b1 0 bs) (\<lambda>b2. Inr (MU_OK, Some b2, h1))))
         else
           (case realloc (buffer b) (size_add (bsize b) n) h of
              (None, h1) \<Rightarrow> Inr (MU_FAILURE, handle, h1)
            | (Some xs, h1) \<Rightarrow>
                cbind (read_from source n) (\<lambda>bs.
                  cbind (store_in (b\<lparr>buffer := Some xs\<rparr>) (bsize b) bs) (\<lambda>b1.
                    Inr (MU_OK, Some (b1\<lparr>bsize := size_add (bsize b) n\<rparr>), h1)))))"

definition BUFFER_pre_build :: "BUFFER_HANDLE \<Rightarrow> nat \<Rightarrow> mem \<Rightarrow> mu \<times> BUFFER_HANDLE \<times> mem" where
  "BUFFER_pre_build handle n h =
    (case handle of None \<Rightarrow> (MU_FAILURE, handle, h)
     | Some b \<Rightarrow>
         if n = 0 then (MU_FAILURE, handle, h)
         else if buffer b \<noteq> None then (MU_FAILURE, handle, h)
         else (case malloc n h of
                 (None, h1) \<Rightarrow> (MU_FAILURE, Some (b\<lparr>buffer := None\<rparr>), h1)
               | (Some xs, h1) \<Rightarrow> (MU_OK, Some (b\<lparr>buffer := Some xs, bsize := n\<rparr>), h1)))"

definition BUFFER_unbuild :: "BUFFER_HANDLE \<Rightarrow> mu \<times> BUFFER_HANDLE" where
  "BUFFER_unbuild handle =
    (case handle of None \<Rightarrow> (MU_FAILURE, handle)
     | Some b \<Rightarrow> (MU_OK, Some (if buffer b \<noteq> None then b\<lparr>buffer := None, bsize := 0\<rparr> else b)))"

definition BUFFER_enlarge :: "BUFFER_HANDLE \<Rightarrow> nat \<Rightarrow> mem \<Rightarrow> mu \<times> BUFFER_HANDLE \<times> mem" where
  "BUFFER_enlarge handle n h =
    (case handle of None \<Rightarrow> (MU_FAILURE, handle, h)
     | Some b \<Rightarrow>
         if n = 0 then (MU_FAILURE, handle, h)
         else (case realloc (buffer b) (size_add (bsize b) n) h of
                 (None, h1) \<Rightarrow> (MU_FAILURE, handle, h1)
               | (Some xs, h1) \<Rightarrow> (MU_OK, Some (b\<lparr>buffer := Some xs, bsize := size_add (bsize b) n\<rparr>), h1)))"

definition BUFFER_shrink :: "BUFFER_HANDLE \<Rightarrow> nat \<Rightarrow> bool \<Rightarrow> mem \<Rightarrow> (mu \<times> BUFFER_HANDLE \<times> mem) outcome" where
  "BUFFER_shrink handle n fromEnd h =
    (case handle of None \<Rightarrow> Inr (MU_FAILURE, handle, h)
     | Some b \<Rightarrow>
         if n = 0 \<or> n > bsize b then Inr (MU_FAILURE, handle, h)
         else if bsize b - n = 0 then Inr (MU_OK, Some (b\<lparr>buffer := None, bsize := 0\<rparr>), h)
         else (case malloc (bsize b - n) h of
                 (None, h1) \<Rightarrow> Inr (MU_FAILURE, handle, h1)
               | (Some tmp, h1) \<Rightarrow>
                   cbind (read_from (if fromEnd then buffer b else map_option (drop n) (buffer b)) (bsize b - n)) (\<lambda>bs.
                     cbind (write_at tmp 0 bs) (\<lambda>ys.
                       Inr (MU_OK, Some (b\<lparr>buffer := Some ys, bsize := bsize b - n\<rparr>), h1)))))"

text \<open>\<open>same\<close>: the two handles are one.\<close>

definition BUFFER_append :: "bool \<Rightarrow> BUFFER_HANDLE \<Rightarrow> BUFFER_HANDLE \<Rightarrow> mem \<Rightarrow> (mu \<times> BUFFER_HANDLE \<times> mem) outcome" where
  "BUFFER_append same handle1 handle2 h =
    (case (handle1, handle2) of
       (Some b1, Some b2) \<Rightarrow>
         if same \<or> buffer b1 = None \<or> buffer b2 = None then Inr (MU_FAILURE, handle1, h)
         else if bsize b2 = 0 then Inr (MU_OK, handle1, h)
         else (case realloc (buffer b1) (size_add (bsize b1) (bsize b2)) h of
                 (None, h1) \<Rightarrow> Inr (MU_FAILURE, handle1, h1)
               | (Some xs, h1) \<Rightarrow>
                   cbind (read_from (buffer b2) (bsize b2)) (\<lambda>bs.
                     cbind (write_at xs (bsize b1) bs) (\<lambda>ys.
                       Inr (MU_OK, Some (b1\<lparr>buffer := Some ys, bsize := size_add (bsize b1) (bsize b2)\<rparr>), h1))))
     | _ \<Rightarrow> Inr (MU_FAILURE, handle1, h))"

definition BUFFER_prepend :: "bool \<Rightarrow> BUFFER_HANDLE \<Rightarrow> BUFFER_HANDLE \<Rightarrow> mem \<Rightarrow> (mu \<times> BUFFER_HANDLE \<times> mem) outcome" where
  "BUFFER_prepend same handle1 handle2 h =
    (case (handle1, handle2) of
       (Some b1, Some b2) \<Rightarrow>
         if same \<or> buffer b1 = None \<or> buffer b2 = None then Inr (MU_FAILURE, handle1, h)
         else if bsize b2 = 0 then Inr (MU_OK, handle1, h)
         else if size_add (bsize b1) (bsize b2) < bsize b2 then Inr (MU_FAILURE, handle1, h)
         else (case malloc (size_add (bsize b1) (bsize b2)) h of
                 (None, h1) \<Rightarrow> Inr (MU_FAILURE, handle1, h1)
               | (Some temp, h1) \<Rightarrow>
                   cbind (read_from (buffer b2) (bsize b2)) (\<lambda>front.
                   cbind (read_from (buffer b1) (bsize b1)) (\<lambda>back.
                   cbind (write_at temp 0 front) (\<lambda>xs.
                   cbind (write_at xs (bsize b2) back) (\<lambda>ys.
                     Inr (MU_OK, Some (b1\<lparr>buffer := Some ys, bsize := size_add (bsize b1) (bsize b2)\<rparr>), h1))))))
     | _ \<Rightarrow> Inr (MU_FAILURE, handle1, h))"

definition BUFFER_fill :: "BUFFER_HANDLE \<Rightarrow> byte \<Rightarrow> (mu \<times> BUFFER_HANDLE) outcome" where
  "BUFFER_fill handle c =
    (case handle of None \<Rightarrow> Inr (MU_FAILURE, handle)
     | Some b \<Rightarrow> cbind (store_in b 0 (replicate (bsize b) c)) (\<lambda>b1. Inr (MU_OK, Some b1)))"

text \<open>The content of a handle whose storage can be written to: an offset into it, or NULL.\<close>

definition BUFFER_u_char :: "BUFFER_HANDLE \<Rightarrow> nat option" where
  "BUFFER_u_char handle =
    (case handle of None \<Rightarrow> None | Some b \<Rightarrow> if bsize b = 0 \<or> buffer b = None then None else Some 0)"

definition BUFFER_content :: "BUFFER_HANDLE \<Rightarrow> mu \<times> byte list option" where
  "BUFFER_content handle = (case handle of None \<Rightarrow> (MU_FAILURE, None) | Some b \<Rightarrow> (MU_OK, buffer b))"

definition BUFFER_size :: "BUFFER_HANDLE \<Rightarrow> mu \<times> nat option" where
  "BUFFER_size handle = (case handle of None \<Rightarrow> (MU_FAILURE, None) | Some b \<Rightarrow> (MU_OK, Some (bsize b)))"

definition BUFFER_length :: "BUFFER_HANDLE \<Rightarrow> nat" where
  "BUFFER_length handle = (case handle of None \<Rightarrow> 0 | Some b \<Rightarrow> bsize b)"

definition BUFFER_clone :: "BUFFER_HANDLE \<Rightarrow> mem \<Rightarrow> (BUFFER_HANDLE \<times> mem) outcome" where
  "BUFFER_clone handle h =
    (case handle of None \<Rightarrow> Inr (None, h)
     | Some s \<Rightarrow>
         (case BUFFER_new h of (None, h1) \<Rightarrow> Inr (None, h1)
          | (Some b, h1) \<Rightarrow>
              (case BUFFER_safemalloc b (bsize s) h1 of
                 (MU_FAILURE, _, h2) \<Rightarrow> Inr (None, h2)
               | (MU_OK, b1, h2) \<Rightarrow>
                   cbind (read_from (buffer s) (bsize s)) (\<lambda>bs.
                     cbind (store_in b1 0 bs) (\<lambda>b2. Inr (Some (b2\<lparr>bsize := bsize s\<rparr>), h2))))))"

section \<open>Contents of a buffer\<close>

definition contains :: "BUFFER_HANDLE \<Rightarrow> byte list \<Rightarrow> bool" where
  "contains pkt xs \<longleftrightarrow> (\<exists>b. pkt = Some b \<and> bsize b = length xs \<and> (buffer b = Some xs \<or> xs = [] \<and> buffer b = None))"

text \<open>No request for storage fails.\<close>

definition plenty :: "mem \<Rightarrow> bool" where
  "plenty h \<longleftrightarrow> (\<forall>i. h i \<noteq> None)"

definition junk_mem :: mem where "junk_mem = (\<lambda>_. Some (\<lambda>_. 0xAA))"

lemma plenty_next [simp]: "plenty h \<Longrightarrow> plenty (\<lambda>i. h (Suc i))"
  by (simp add: plenty_def)

lemma plenty_junk [simp]: "plenty junk_mem"
  by (simp add: plenty_def junk_mem_def)

lemma contains_length: "contains pkt xs \<Longrightarrow> BUFFER_length pkt = length xs"
  by (auto simp: contains_def BUFFER_length_def)

lemma u_char_contains: "contains pkt xs \<Longrightarrow> xs \<noteq> [] \<Longrightarrow> BUFFER_u_char pkt = Some 0"
  by (auto simp: contains_def BUFFER_u_char_def)

lemma malloc_cases:
  assumes "n < 2 ^ 31"
  obtains (none) "malloc n h = (None, \<lambda>i. h (Suc i))" "\<not> plenty h"
  | (some) xs where "malloc n h = (Some xs, \<lambda>i. h (Suc i))" "length xs = n"
  using assms by (cases "h 0") (auto simp: malloc_def plenty_def)

lemma new_cases:
  obtains (none) "BUFFER_new h = (None, \<lambda>i. h (Suc i))" "\<not> plenty h"
  | (some) b where "BUFFER_new h = (Some b, \<lambda>i. h (Suc i))" "contains (Some b) []" "buffer b = None"
  by (cases "h 0") (auto simp: BUFFER_new_def plenty_def contains_def intro: that(2) [of "\<lparr>buffer = None, bsize = 0\<rparr>"])

text \<open>A run that makes a buffer gives NULL or the bytes, and the bytes unless storage is short.\<close>

definition gives :: "mem \<Rightarrow> (BUFFER_HANDLE \<times> mem) outcome \<Rightarrow> byte list \<Rightarrow> bool" where
  "gives h m xs \<longleftrightarrow> (\<exists>pkt h'. m = Inr (pkt, h') \<and> (pkt = None \<or> contains pkt xs) \<and>
     (plenty h \<longrightarrow> pkt \<noteq> None \<and> plenty h'))"

lemma gives_null: "\<not> plenty h \<Longrightarrow> gives h (Inr (None, h')) xs"
  by (simp add: gives_def)

lemma gives_done: "contains pkt xs \<Longrightarrow> (plenty h \<Longrightarrow> plenty h') \<Longrightarrow> gives h (Inr (pkt, h')) xs"
  by (auto simp: gives_def contains_def)

lemma gives_weaken: "gives h' m xs \<Longrightarrow> (plenty h \<Longrightarrow> plenty h') \<Longrightarrow> gives h m xs"
  by (auto simp: gives_def)

end
