(* ===== verification/Mqtt_Codec.thy ===== *)
theory Mqtt_Codec
  imports Azure_Buffer
begin

text \<open>
  The construction of MQTT packets (\<open>azure_iot_sdk/umqtt/src/mqtt_codec.c\<close>), with the constants of
  \<open>mqttconst.h\<close>.  Every construction asks for storage and may give NULL; a pointer into the packet
  that leaves its storage is undefined behaviour.  A \<open>char\<close> pointer is NULL or the bytes before the
  NUL.  The trace logs are left out.
\<close>

unbundle bit_operations_syntax

section \<open>Constants\<close>

datatype CONTROL_PACKET_TYPE =
    CONNECT_TYPE | CONNACK_TYPE | PUBLISH_TYPE | PUBACK_TYPE | PUBREC_TYPE | PUBREL_TYPE | PUBCOMP_TYPE
  | SUBSCRIBE_TYPE | SUBACK_TYPE | UNSUBSCRIBE_TYPE | UNSUBACK_TYPE | PINGREQ_TYPE | PINGRESP_TYPE
  | DISCONNECT_TYPE | PACKET_TYPE_ERROR | UNKNOWN_TYPE | PACKET_INVALID1_TYPE | PACKET_INVALID2_TYPE

definition packet_type_values :: "(CONTROL_PACKET_TYPE \<times> byte) list" where
  "packet_type_values =
    [(CONNECT_TYPE, 0x10), (CONNACK_TYPE, 0x20), (PUBLISH_TYPE, 0x30), (PUBACK_TYPE, 0x40), (PUBREC_TYPE, 0x50),
     (PUBREL_TYPE, 0x60), (PUBCOMP_TYPE, 0x70), (SUBSCRIBE_TYPE, 0x80), (SUBACK_TYPE, 0x90),
     (UNSUBSCRIBE_TYPE, 0xA0), (UNSUBACK_TYPE, 0xB0), (PINGREQ_TYPE, 0xC0), (PINGRESP_TYPE, 0xD0),
     (DISCONNECT_TYPE, 0xE0), (PACKET_TYPE_ERROR, 0xE1), (UNKNOWN_TYPE, 0xE2), (PACKET_INVALID1_TYPE, 0x00),
     (PACKET_INVALID2_TYPE, 0xF0)]"

definition type_byte :: "CONTROL_PACKET_TYPE \<Rightarrow> byte" where
  "type_byte t = the (map_of packet_type_values t)"

datatype QOS_VALUE = DELIVER_AT_MOST_ONCE | DELIVER_AT_LEAST_ONCE | DELIVER_EXACTLY_ONCE | DELIVER_FAILURE

definition qos_byte :: "QOS_VALUE \<Rightarrow> byte" where
  "qos_byte q = (case q of DELIVER_AT_MOST_ONCE \<Rightarrow> 0 | DELIVER_AT_LEAST_ONCE \<Rightarrow> 1 | DELIVER_EXACTLY_ONCE \<Rightarrow> 2
     | DELIVER_FAILURE \<Rightarrow> 0x80)"

definition USERNAME_FLAG :: byte where "USERNAME_FLAG = 0x80"
definition PASSWORD_FLAG :: byte where "PASSWORD_FLAG = 0x40"
definition WILL_RETAIN_FLAG :: byte where "WILL_RETAIN_FLAG = 0x20"
definition WILL_FLAG_FLAG :: byte where "WILL_FLAG_FLAG = 0x04"
definition CLEAN_SESSION_FLAG :: byte where "CLEAN_SESSION_FLAG = 0x02"
definition NEXT_128_CHUNK :: byte where "NEXT_128_CHUNK = 0x80"
definition PUBLISH_DUP_FLAG :: byte where "PUBLISH_DUP_FLAG = 0x8"
definition PUBLISH_QOS_EXACTLY_ONCE :: byte where "PUBLISH_QOS_EXACTLY_ONCE = 0x4"
definition PUBLISH_QOS_AT_LEAST_ONCE :: byte where "PUBLISH_QOS_AT_LEAST_ONCE = 0x2"
definition PUBLISH_QOS_RETAIN :: byte where "PUBLISH_QOS_RETAIN = 0x1"
definition PROTOCOL_NUMBER :: byte where "PROTOCOL_NUMBER = 4"
definition CONN_FLAG_BYTE_OFFSET :: nat where "CONN_FLAG_BYTE_OFFSET = 7"
definition CONNECT_VARIABLE_HEADER_SIZE :: nat where "CONNECT_VARIABLE_HEADER_SIZE = 10"
definition SUBSCRIBE_FIXED_HEADER_FLAG :: byte where "SUBSCRIBE_FIXED_HEADER_FLAG = 0x2"
definition UNSUBSCRIBE_FIXED_HEADER_FLAG :: byte where "UNSUBSCRIBE_FIXED_HEADER_FLAG = 0x2"
definition MAX_SEND_SIZE :: nat where "MAX_SEND_SIZE = 0xFFFFFF7F"
definition USHRT_MAX :: nat where "USHRT_MAX = 0xFFFF"

text \<open>\<open>SUBSCRIBE_PAYLOAD\<close> and \<open>MQTT_CLIENT_OPTIONS\<close>.\<close>

type_synonym cstr = "byte list"

record MQTT_CLIENT_OPTIONS =
  clientId :: "cstr option"
  willTopic :: "cstr option"
  willMessage :: "cstr option"
  username :: "cstr option"
  password :: "cstr option"
  keepAliveInterval :: "16 word"
  messageRetain :: bool
  useCleanSession :: bool
  qualityOfServiceValue :: QOS_VALUE

definition opt_len :: "cstr option \<Rightarrow> nat" where
  "opt_len s = (case s of None \<Rightarrow> 0 | Some t \<Rightarrow> length t)"

section \<open>Writing into a packet\<close>

text \<open>A packet that is being written, and the pointer to write at.\<close>

type_synonym writer = "BUFFER_HANDLE \<times> nat option"

definition write_bytes :: "byte list \<Rightarrow> writer \<Rightarrow> writer outcome" where
  "write_bytes bs w =
    (case w of
       (Some b, Some p) \<Rightarrow> cbind (store_in b p bs) (\<lambda>b1. Inr (Some b1, Some (p + length bs)))
     | _ \<Rightarrow> if bs = [] then Inr w else Inl Null_pointer)"

definition byteutil_writeByte :: "byte \<Rightarrow> writer \<Rightarrow> writer outcome" where
  "byteutil_writeByte v w = write_bytes [v] w"

definition byteutil_writeInt :: "16 word \<Rightarrow> writer \<Rightarrow> writer outcome" where
  "byteutil_writeInt v w = cbind (write_bytes [ucast (v div 256)] w) (write_bytes [ucast (v mod 256)])"

text \<open>The two bytes of the length, then as many bytes of the text.\<close>

definition byteutil_writeUTF :: "cstr option \<Rightarrow> 16 word \<Rightarrow> writer \<Rightarrow> writer outcome" where
  "byteutil_writeUTF s len w =
    cbind (byteutil_writeInt len w) (\<lambda>w1. cbind (read_from s (unat len)) (\<lambda>bs. write_bytes bs w1))"

definition advance :: "nat \<Rightarrow> nat option \<Rightarrow> nat option" where
  "advance n p = map_option (\<lambda>i. i + n) p"

section \<open>Parts of a packet\<close>

text \<open>A step of a construction: the outcome, the packet so far, the allocator.\<close>

type_synonym building = "(mu \<times> BUFFER_HANDLE \<times> mem) outcome"

fun addListItemsToUnsubscribePacket :: "BUFFER_HANDLE \<Rightarrow> cstr list \<Rightarrow> mem \<Rightarrow> building" where
  "addListItemsToUnsubscribePacket pkt [] h = Inr (MU_OK, pkt, h)"
| "addListItemsToUnsubscribePacket pkt (t # ts) h =
    (let offsetLen = BUFFER_length pkt; topicLen = length t
     in if topicLen > USHRT_MAX then Inr (MU_FAILURE, pkt, h)
        else (case BUFFER_enlarge pkt (size_add topicLen 2) h of
                (MU_FAILURE, pkt1, h1) \<Rightarrow> Inr (MU_FAILURE, pkt1, h1)
              | (MU_OK, pkt1, h1) \<Rightarrow>
                  cbind (byteutil_writeUTF (Some t) (of_nat topicLen) (pkt1, advance offsetLen (BUFFER_u_char pkt1)))
                    (\<lambda>(pkt2, _). addListItemsToUnsubscribePacket pkt2 ts h1)))"

fun addListItemsToSubscribePacket :: "BUFFER_HANDLE \<Rightarrow> (cstr \<times> QOS_VALUE) list \<Rightarrow> mem \<Rightarrow> building" where
  "addListItemsToSubscribePacket pkt [] h = Inr (MU_OK, pkt, h)"
| "addListItemsToSubscribePacket pkt ((t, q) # ts) h =
    (let offsetLen = BUFFER_length pkt; topicLen = length t
     in if topicLen > USHRT_MAX then Inr (MU_FAILURE, pkt, h)
        else (case BUFFER_enlarge pkt (size_add topicLen (2 + 1)) h of
                (MU_FAILURE, pkt1, h1) \<Rightarrow> Inr (MU_FAILURE, pkt1, h1)
              | (MU_OK, pkt1, h1) \<Rightarrow>
                  cbind (byteutil_writeUTF (Some t) (of_nat topicLen) (pkt1, advance offsetLen (BUFFER_u_char pkt1)))
                    (\<lambda>w. cbind (write_bytes [qos_byte q] w)
                      (\<lambda>(pkt2, _). addListItemsToSubscribePacket pkt2 ts h1))))"

definition mqtt_name :: cstr where "mqtt_name = [0x4D, 0x51, 0x54, 0x54]"

definition constructConnectVariableHeader :: "BUFFER_HANDLE \<Rightarrow> MQTT_CLIENT_OPTIONS \<Rightarrow> mem \<Rightarrow> building" where
  "constructConnectVariableHeader pkt opts h =
    (case BUFFER_enlarge pkt CONNECT_VARIABLE_HEADER_SIZE h of
       (MU_FAILURE, pkt1, h1) \<Rightarrow> Inr (MU_FAILURE, pkt1, h1)
     | (MU_OK, pkt1, h1) \<Rightarrow>
         if BUFFER_u_char pkt1 = None then Inr (MU_FAILURE, pkt1, h1)
         else cbind (byteutil_writeUTF (Some mqtt_name) 4 (pkt1, BUFFER_u_char pkt1)) (\<lambda>w1.
              cbind (byteutil_writeByte PROTOCOL_NUMBER w1) (\<lambda>w2.
              cbind (byteutil_writeByte 0 w2) (\<lambda>w3.
              cbind (byteutil_writeInt (keepAliveInterval opts) w3) (\<lambda>(pkt2, _). Inr (MU_OK, pkt2, h1))))))"

definition constructPublishVariableHeader :: "BUFFER_HANDLE \<Rightarrow> cstr \<Rightarrow> 16 word \<Rightarrow> QOS_VALUE \<Rightarrow> mem \<Rightarrow> building" where
  "constructPublishVariableHeader pkt topicName packetId qos h =
    (let currLen = BUFFER_length pkt; topicLen = length topicName; spaceLen = 2;
         idLen = (if qos \<noteq> DELIVER_AT_MOST_ONCE then 2 else 0)
     in if topicLen > USHRT_MAX then Inr (MU_FAILURE, pkt, h)
        else (case BUFFER_enlarge pkt (topicLen + idLen + spaceLen) h of
                (MU_FAILURE, pkt1, h1) \<Rightarrow> Inr (MU_FAILURE, pkt1, h1)
              | (MU_OK, pkt1, h1) \<Rightarrow>
                  if BUFFER_u_char pkt1 = None then Inr (MU_FAILURE, pkt1, h1)
                  else cbind (byteutil_writeUTF (Some topicName) (of_nat topicLen)
                                (pkt1, advance currLen (BUFFER_u_char pkt1))) (\<lambda>w1.
                       cbind (if idLen > 0 then byteutil_writeInt packetId w1 else Inr w1) (\<lambda>(pkt2, _).
                         Inr (MU_OK, pkt2, h1)))))"

definition constructSubscibeTypeVariableHeader :: "BUFFER_HANDLE \<Rightarrow> 16 word \<Rightarrow> mem \<Rightarrow> building" where
  "constructSubscibeTypeVariableHeader pkt packetId h =
    (case BUFFER_enlarge pkt 2 h of
       (MU_FAILURE, pkt1, h1) \<Rightarrow> Inr (MU_FAILURE, pkt1, h1)
     | (MU_OK, pkt1, h1) \<Rightarrow>
         if BUFFER_u_char pkt1 = None then Inr (MU_FAILURE, pkt1, h1)
         else cbind (byteutil_writeInt packetId (pkt1, BUFFER_u_char pkt1)) (\<lambda>(pkt2, _). Inr (MU_OK, pkt2, h1)))"

type_synonym packet = "(BUFFER_HANDLE \<times> mem) outcome"

definition constructPublishReply :: "CONTROL_PACKET_TYPE \<Rightarrow> byte \<Rightarrow> 16 word \<Rightarrow> mem \<Rightarrow> packet" where
  "constructPublishReply type flags packetId h =
    (case BUFFER_new h of (None, h1) \<Rightarrow> Inr (None, h1)
     | (result, h1) \<Rightarrow>
         (case BUFFER_pre_build result 4 h1 of
            (MU_FAILURE, _, h2) \<Rightarrow> Inr (None, h2)
          | (MU_OK, result1, h2) \<Rightarrow>
              if BUFFER_u_char result1 = None then Inr (None, h2)
              else cbind (write_bytes [type_byte type OR flags] (result1, BUFFER_u_char result1)) (\<lambda>w1.
                   cbind (write_bytes [0x2] w1) (\<lambda>w2.
                   cbind (byteutil_writeInt packetId w2) (\<lambda>(result2, _). Inr (result2, h2))))))"

text \<open>The length of the packet in digits of 7 bits, written into an array of four bytes.\<close>

function remain_size :: "nat \<Rightarrow> byte list \<Rightarrow> byte list outcome" where
  "remain_size packetLen done =
    (let encode = (of_nat (packetLen mod 128) :: byte);
         packetLen1 = packetLen div 128;
         encode1 = (if packetLen1 > 0 then encode OR NEXT_128_CHUNK else encode)
     in if length done \<ge> 4 then Inl Buffer_overflow
        else if packetLen1 > 0 then remain_size packetLen1 (done @ [encode1])
        else Inr (done @ [encode1]))"
  by pat_completeness auto
termination
  by (relation "measure fst") auto

definition constructFixedHeader :: "BUFFER_HANDLE \<Rightarrow> CONTROL_PACKET_TYPE \<Rightarrow> byte \<Rightarrow> mem \<Rightarrow> building" where
  "constructFixedHeader pkt packetType flags h =
    cbind (remain_size (BUFFER_length pkt) []) (\<lambda>remainSize.
      case BUFFER_new h of
        (None, h1) \<Rightarrow> Inr (MU_FAILURE, pkt, h1)
      | (fixedHeader, h1) \<Rightarrow>
          (case BUFFER_pre_build fixedHeader (length remainSize + 1) h1 of
             (MU_FAILURE, _, h2) \<Rightarrow> Inr (MU_FAILURE, pkt, h2)
           | (MU_OK, fixedHeader1, h2) \<Rightarrow>
               cbind (write_bytes [type_byte packetType OR flags] (fixedHeader1, BUFFER_u_char fixedHeader1)) (\<lambda>w1.
               cbind (write_bytes remainSize w1) (\<lambda>(fixedHeader2, _).
                 BUFFER_prepend False pkt fixedHeader2 h2))))"

section \<open>The payload of a CONNECT packet\<close>

text \<open>\<open>packet[CONN_FLAG_BYTE_OFFSET] |= flag\<close>.\<close>

definition or_flag :: "byte \<Rightarrow> BUFFER_HANDLE \<Rightarrow> BUFFER_HANDLE outcome" where
  "or_flag flag pkt =
    (case pkt of None \<Rightarrow> Inl Null_pointer
     | Some b \<Rightarrow>
         cbind (read_from (map_option (drop CONN_FLAG_BYTE_OFFSET) (buffer b)) 1) (\<lambda>old.
         cbind (store_in b CONN_FLAG_BYTE_OFFSET (map ((OR) flag) old)) (\<lambda>b1. Inr (Some b1))))"

definition flag_then :: "byte \<Rightarrow> writer \<Rightarrow> writer outcome" where
  "flag_then flag w = cbind (or_flag flag (fst w)) (\<lambda>pkt. Inr (pkt, snd w))"

definition opt_space :: "cstr option \<Rightarrow> nat" where
  "opt_space s = (if s \<noteq> None then 2 else 0)"

definition conn_total_len :: "MQTT_CLIENT_OPTIONS \<Rightarrow> nat" where
  "conn_total_len opts =
    (opt_len (clientId opts) + opt_len (username opts) + opt_len (password opts) + opt_len (willMessage opts) +
     opt_len (willTopic opts) +
     (opt_space (clientId opts) + opt_space (username opts) + opt_space (password opts) +
      opt_space (willMessage opts) + opt_space (willTopic opts))) mod 2 ^ 32"

text \<open>The fields after the client id, with the flags of each.\<close>

definition conn_fields :: "MQTT_CLIENT_OPTIONS \<Rightarrow> writer \<Rightarrow> writer outcome" where
  "conn_fields opts w0 =
    cbind (if opt_len (willMessage opts) > 0 \<and> opt_len (willTopic opts) > 0 then
             cbind (flag_then WILL_FLAG_FLAG w0) (\<lambda>w.
             cbind (byteutil_writeUTF (willTopic opts) (of_nat (opt_len (willTopic opts))) w) (\<lambda>w.
             cbind (flag_then (push_bit 3 (qos_byte (qualityOfServiceValue opts))) w) (\<lambda>w.
             cbind (if messageRetain opts then flag_then WILL_RETAIN_FLAG w else Inr w) (\<lambda>w.
               byteutil_writeUTF (willMessage opts) (of_nat (opt_len (willMessage opts))) w))))
           else Inr w0) (\<lambda>w1.
    cbind (if opt_len (username opts) > 0 then
             cbind (flag_then USERNAME_FLAG w1)
               (byteutil_writeUTF (username opts) (of_nat (opt_len (username opts))))
           else Inr w1) (\<lambda>w2.
    cbind (if opt_len (password opts) > 0 then
             cbind (flag_then PASSWORD_FLAG w2)
               (byteutil_writeUTF (password opts) (of_nat (opt_len (password opts))))
           else Inr w2) (\<lambda>w3.
    if useCleanSession opts then flag_then CLEAN_SESSION_FLAG w3 else Inr w3)))"

definition constructConnPayload :: "BUFFER_HANDLE \<Rightarrow> MQTT_CLIENT_OPTIONS \<Rightarrow> mem \<Rightarrow> building" where
  "constructConnPayload pkt opts h =
    (let currLen = BUFFER_length pkt
     in if opt_len (clientId opts) > USHRT_MAX then Inr (MU_FAILURE, pkt, h)
        else if opt_len (username opts) = 0 \<and> opt_len (password opts) > 0 then Inr (MU_FAILURE, pkt, h)
        else if opt_len (willMessage opts) > 0 \<and> opt_len (willTopic opts) = 0 \<or>
                opt_len (willTopic opts) > 0 \<and> opt_len (willMessage opts) = 0 then Inr (MU_FAILURE, pkt, h)
        else (case BUFFER_enlarge pkt (conn_total_len opts) h of
                (MU_FAILURE, pkt1, h1) \<Rightarrow> Inr (MU_FAILURE, pkt1, h1)
              | (MU_OK, pkt1, h1) \<Rightarrow>
                  cbind (byteutil_writeUTF (clientId opts) (of_nat (opt_len (clientId opts)))
                           (pkt1, advance currLen (BUFFER_u_char pkt1))) (\<lambda>w.
                  if opt_len (willMessage opts) > USHRT_MAX \<or> opt_len (willTopic opts) > USHRT_MAX \<or>
                     opt_len (username opts) > USHRT_MAX \<or> opt_len (password opts) > USHRT_MAX
                  then Inr (MU_FAILURE, fst w, h1)
                  else cbind (conn_fields opts w) (\<lambda>(pkt2, _). Inr (MU_OK, pkt2, h1)))))"

section \<open>The packets\<close>

text \<open>The packet is given when a part of it is done, and NULL when the part fails.\<close>

definition then_part :: "building \<Rightarrow> (BUFFER_HANDLE \<Rightarrow> mem \<Rightarrow> packet) \<Rightarrow> packet" where
  "then_part m f = cbind m (\<lambda>(r, pkt, h). if r = MU_OK then f pkt h else Inr (None, h))"

abbreviation packet_done :: "BUFFER_HANDLE \<Rightarrow> mem \<Rightarrow> packet" where
  "packet_done pkt h \<equiv> Inr (pkt, h)"

definition mqtt_codec_connect :: "MQTT_CLIENT_OPTIONS option \<Rightarrow> mem \<Rightarrow> packet" where
  "mqtt_codec_connect mqttOptions h =
    (case mqttOptions of None \<Rightarrow> Inr (None, h)
     | Some opts \<Rightarrow>
         (case BUFFER_new h of (None, h1) \<Rightarrow> Inr (None, h1)
          | (result, h1) \<Rightarrow>
              then_part (constructConnectVariableHeader result opts h1) (\<lambda>pkt h2.
              then_part (constructConnPayload pkt opts h2) (\<lambda>pkt h3.
              then_part (constructFixedHeader pkt CONNECT_TYPE 0 h3) packet_done))))"

text \<open>DISCONNECT and PINGREQ: two bytes.\<close>

definition two_bytes :: "byte \<Rightarrow> byte \<Rightarrow> mem \<Rightarrow> packet" where
  "two_bytes b0 b1 h =
    (case BUFFER_new h of (None, h1) \<Rightarrow> Inr (None, h1)
     | (result, h1) \<Rightarrow>
         (case BUFFER_enlarge result 2 h1 of
            (MU_FAILURE, _, h2) \<Rightarrow> Inr (None, h2)
          | (MU_OK, result1, h2) \<Rightarrow>
              if BUFFER_u_char result1 = None then Inr (None, h2)
              else cbind (write_bytes [b0, b1] (result1, BUFFER_u_char result1)) (\<lambda>(result2, _). Inr (result2, h2))))"

definition mqtt_codec_disconnect :: "mem \<Rightarrow> packet" where
  "mqtt_codec_disconnect = two_bytes (type_byte DISCONNECT_TYPE) 0"

definition mqtt_codec_ping :: "mem \<Rightarrow> packet" where
  "mqtt_codec_ping = two_bytes (type_byte PINGREQ_TYPE) 0"

definition publish_flags :: "QOS_VALUE \<Rightarrow> bool \<Rightarrow> bool \<Rightarrow> byte" where
  "publish_flags qosValue duplicateMsg serverRetain =
    (let f0 = 0;
         f1 = (if duplicateMsg then f0 OR PUBLISH_DUP_FLAG else f0);
         f2 = (if serverRetain then f1 OR PUBLISH_QOS_RETAIN else f1)
     in if qosValue \<noteq> DELIVER_AT_MOST_ONCE then
          (if qosValue = DELIVER_AT_LEAST_ONCE then f2 OR PUBLISH_QOS_AT_LEAST_ONCE else f2 OR PUBLISH_QOS_EXACTLY_ONCE)
        else f2)"

definition publish_payload :: "BUFFER_HANDLE \<Rightarrow> byte list option \<Rightarrow> nat \<Rightarrow> mem \<Rightarrow> building" where
  "publish_payload pkt msgBuffer buffLen h =
    (let payloadOffset = BUFFER_length pkt
     in if buffLen > 0 then
          (case BUFFER_enlarge pkt buffLen h of
             (MU_FAILURE, pkt1, h1) \<Rightarrow> Inr (MU_FAILURE, pkt1, h1)
           | (MU_OK, pkt1, h1) \<Rightarrow>
               if BUFFER_u_char pkt1 = None then Inr (MU_FAILURE, pkt1, h1)
               else cbind (read_from msgBuffer buffLen) (\<lambda>bs.
                    cbind (write_bytes bs (pkt1, advance payloadOffset (BUFFER_u_char pkt1))) (\<lambda>(pkt2, _).
                      Inr (MU_OK, pkt2, h1))))
        else Inr (MU_OK, pkt, h))"

definition mqtt_codec_publish :: "QOS_VALUE \<Rightarrow> bool \<Rightarrow> bool \<Rightarrow> 16 word \<Rightarrow> cstr option \<Rightarrow> byte list option \<Rightarrow> nat \<Rightarrow> mem \<Rightarrow> packet" where
  "mqtt_codec_publish qosValue duplicateMsg serverRetain packetId topicName msgBuffer buffLen h =
    (case topicName of None \<Rightarrow> Inr (None, h)
     | Some topic \<Rightarrow>
         if buffLen > MAX_SEND_SIZE then Inr (None, h)
         else (case BUFFER_new h of (None, h1) \<Rightarrow> Inr (None, h1)
               | (result, h1) \<Rightarrow>
                   then_part (constructPublishVariableHeader result topic packetId qosValue h1) (\<lambda>pkt h2.
                   then_part (publish_payload pkt msgBuffer buffLen h2) (\<lambda>pkt h3.
                   then_part (constructFixedHeader pkt PUBLISH_TYPE (publish_flags qosValue duplicateMsg serverRetain) h3)
                     packet_done))))"

definition mqtt_codec_publishAck :: "16 word \<Rightarrow> mem \<Rightarrow> packet" where
  "mqtt_codec_publishAck packetId = constructPublishReply PUBACK_TYPE 0 packetId"

definition mqtt_codec_publishReceived :: "16 word \<Rightarrow> mem \<Rightarrow> packet" where
  "mqtt_codec_publishReceived packetId = constructPublishReply PUBREC_TYPE 0 packetId"

definition mqtt_codec_publishRelease :: "16 word \<Rightarrow> mem \<Rightarrow> packet" where
  "mqtt_codec_publishRelease packetId = constructPublishReply PUBREL_TYPE 2 packetId"

definition mqtt_codec_publishComplete :: "16 word \<Rightarrow> mem \<Rightarrow> packet" where
  "mqtt_codec_publishComplete packetId = constructPublishReply PUBCOMP_TYPE 0 packetId"

definition mqtt_codec_subscribe :: "16 word \<Rightarrow> (cstr \<times> QOS_VALUE) list option \<Rightarrow> mem \<Rightarrow> packet" where
  "mqtt_codec_subscribe packetId subscribeList h =
    (if subscribeList = None \<or> subscribeList = Some [] then Inr (None, h)
     else case BUFFER_new h of (None, h1) \<Rightarrow> Inr (None, h1)
     | (result, h1) \<Rightarrow>
         then_part (constructSubscibeTypeVariableHeader result packetId h1) (\<lambda>pkt h2.
         then_part (addListItemsToSubscribePacket pkt (the subscribeList) h2) (\<lambda>pkt h3.
         then_part (constructFixedHeader pkt SUBSCRIBE_TYPE SUBSCRIBE_FIXED_HEADER_FLAG h3) packet_done)))"

definition mqtt_codec_unsubscribe :: "16 word \<Rightarrow> cstr list option \<Rightarrow> mem \<Rightarrow> packet" where
  "mqtt_codec_unsubscribe packetId unsubscribeList h =
    (if unsubscribeList = None \<or> unsubscribeList = Some [] then Inr (None, h)
     else case BUFFER_new h of (None, h1) \<Rightarrow> Inr (None, h1)
     | (result, h1) \<Rightarrow>
         then_part (constructSubscibeTypeVariableHeader result packetId h1) (\<lambda>pkt h2.
         then_part (addListItemsToUnsubscribePacket pkt (the unsubscribeList) h2) (\<lambda>pkt h3.
         then_part (constructFixedHeader pkt UNSUBSCRIBE_TYPE UNSUBSCRIBE_FIXED_HEADER_FLAG h3) packet_done)))"

end
