(* ===== verification/Mqtt_Packets.thy ===== *)
theory Mqtt_Packets
  imports Mqtt_Codec
begin

text \<open>
  The packets the constructions of \<open>Mqtt_Codec\<close> give, as lists of bytes: whatever the allocator
  answers, the result is NULL or exactly the packet, and it is the packet when no request fails;
  and the inputs for which the code leaves its storage.
\<close>

section \<open>Room for writing\<close>

text \<open>
  Room for writing: the packet \<open>w\<close> points into holds \<open>xs\<close> before the pointer and \<open>n\<close> bytes of any
  contents behind it.
\<close>

definition room :: "writer \<Rightarrow> byte list \<Rightarrow> nat \<Rightarrow> bool" where
  "room w xs n \<longleftrightarrow> (\<exists>b zs. w = (Some b, Some (length xs)) \<and> buffer b = Some (xs @ zs) \<and> length zs = n \<and>
     bsize b = length xs + n)"

lemma room_done: "room w xs 0 \<Longrightarrow> contains (fst w) xs"
  by (auto simp: room_def contains_def)

lemma room_writeD:
  assumes "room w xs n" "length bs \<le> n"
  obtains w' where "write_bytes bs w = Inr w'" "room w' (xs @ bs) (n - length bs)"
proof -
  from assms obtain b zs where w: "w = (Some b, Some (length xs))" "buffer b = Some (xs @ zs)" "length zs = n"
    "bsize b = length xs + n" by (auto simp: room_def)
  have "write_bytes bs w = Inr (Some (b\<lparr>buffer := Some (xs @ bs @ drop (length bs) zs)\<rparr>), Some (length (xs @ bs)))"
    using assms w by (simp add: write_bytes_def store_in_def write_at_def)
  moreover have "room (Some (b\<lparr>buffer := Some (xs @ bs @ drop (length bs) zs)\<rparr>), Some (length (xs @ bs))) (xs @ bs) (n - length bs)"
    using assms w by (auto simp: room_def)
  ultimately show ?thesis by (rule that)
qed

lemma room_write:
  assumes "room w xs n" "length bs \<le> n" "\<And>w'. room w' (xs @ bs) (n - length bs) \<Longrightarrow> Q (f w')"
  shows "Q (cbind (write_bytes bs w) f)"
  by (rule room_writeD [OF assms(1,2)]) (simp add: assms(3))

lemma room_overflow: "room w xs n \<Longrightarrow> n < length bs \<Longrightarrow> write_bytes bs w = Inl Buffer_overflow"
  by (auto simp: room_def write_bytes_def store_in_def write_at_def)

text \<open>The numbers and texts of a packet.\<close>

definition be16 :: "16 word \<Rightarrow> byte list" where
  "be16 v = [ucast (v div 256), ucast (v mod 256)]"

definition utf :: "cstr \<Rightarrow> byte list" where
  "utf s = be16 (of_nat (length s)) @ s"

lemma be16_length [simp]: "length (be16 v) = 2"
  by (simp add: be16_def)

lemma utf_length [simp]: "length (utf s) = length s + 2"
  by (simp add: utf_def)

lemma write_int_bytes:
  "byteutil_writeInt v w = cbind (write_bytes [ucast (v div 256)] w) (write_bytes [ucast (v mod 256)])"
  by (simp add: byteutil_writeInt_def)

lemma room_writeIntD:
  assumes "room w xs n" "2 \<le> n"
  obtains w' where "byteutil_writeInt v w = Inr w'" "room w' (xs @ be16 v) (n - 2)"
proof -
  obtain w1 where w1: "write_bytes [ucast (v div 256)] w = Inr w1" "room w1 (xs @ [ucast (v div 256)]) (n - 1)"
    by (rule room_writeD [OF assms(1), of "[ucast (v div 256)]"]) (use assms(2) in simp_all)
  obtain w2 where w2: "write_bytes [ucast (v mod 256)] w1 = Inr w2"
    "room w2 ((xs @ [ucast (v div 256)]) @ [ucast (v mod 256)]) (n - 1 - 1)"
    by (rule room_writeD [OF w1(2), of "[ucast (v mod 256)]"]) (use assms(2) in simp_all)
  show ?thesis by (rule that [of w2]) (use w1 w2 in \<open>simp_all add: byteutil_writeInt_def be16_def numeral_2_eq_2\<close>)
qed

lemma room_writeInt:
  assumes "room w xs n" "2 \<le> n" "\<And>w'. room w' (xs @ be16 v) (n - 2) \<Longrightarrow> Q (f w')"
  shows "Q (cbind (byteutil_writeInt v w) f)"
  by (rule room_writeIntD [OF assms(1,2), where v = v]) (simp add: assms(3))

lemma room_writeUTF:
  assumes "room w xs n" "length s \<le> USHRT_MAX" "length s + 2 \<le> n"
    and "\<And>w'. room w' (xs @ utf s) (n - (length s + 2)) \<Longrightarrow> Q (f w')"
  shows "Q (cbind (byteutil_writeUTF (Some s) (of_nat (length s)) w) f)"
proof -
  have len: "unat (of_nat (length s) :: 16 word) = length s"
    using assms(2) by (simp add: unsigned_of_nat take_bit_nat_eq_self USHRT_MAX_def)
  have rd: "read_from (Some s) (length s) = Inr s" by (simp add: read_from_def)
  obtain w1 where w1: "byteutil_writeInt (of_nat (length s)) w = Inr w1" "room w1 (xs @ be16 (of_nat (length s))) (n - 2)"
    by (rule room_writeIntD [OF assms(1), of "of_nat (length s)"]) (use assms(3) in simp_all)
  obtain w2 where w2: "write_bytes s w1 = Inr w2" "room w2 ((xs @ be16 (of_nat (length s))) @ s) (n - 2 - length s)"
    by (rule room_writeD [OF w1(2), of s]) (use assms(3) in simp_all)
  from w2(2) have "room w2 (xs @ utf s) (n - (length s + 2))" by (simp add: utf_def)
  from assms(4) [OF this] w1 w2 len rd show ?thesis by (simp add: byteutil_writeUTF_def)
qed

section \<open>Parts that succeed unless storage is short\<close>

definition builds :: "mem \<Rightarrow> building \<Rightarrow> byte list \<Rightarrow> bool" where
  "builds h m xs \<longleftrightarrow> (\<exists>r pkt h'. m = Inr (r, pkt, h') \<and> (r = MU_OK \<longrightarrow> contains pkt xs) \<and>
     (plenty h \<longrightarrow> r = MU_OK \<and> plenty h'))"

lemma builds_failure: "\<not> plenty h \<Longrightarrow> builds h (Inr (MU_FAILURE, pkt, h')) xs"
  by (simp add: builds_def)

lemma builds_ok: "contains pkt xs \<Longrightarrow> (plenty h \<Longrightarrow> plenty h') \<Longrightarrow> builds h (Inr (MU_OK, pkt, h')) xs"
  by (simp add: builds_def)

lemma builds_weaken: "builds h' m xs \<Longrightarrow> (plenty h \<Longrightarrow> plenty h') \<Longrightarrow> builds h m xs"
  by (auto simp: builds_def)

lemma then_part_gives:
  assumes "builds h m xs" and "\<And>pkt h'. contains pkt xs \<Longrightarrow> gives h' (f pkt h') ys"
  shows "gives h (then_part m f) ys"
proof -
  from assms(1) obtain r pkt h' where m: "m = Inr (r, pkt, h')" "r = MU_OK \<Longrightarrow> contains pkt xs"
    "plenty h \<Longrightarrow> r = MU_OK \<and> plenty h'" by (auto simp: builds_def)
  show ?thesis
  proof (cases "r = MU_OK")
    case True
    with m assms(2) [OF m(2)] show ?thesis by (auto simp: then_part_def intro: gives_weaken)
  next
    case False
    with m show ?thesis by (auto simp: then_part_def intro: gives_null)
  qed
qed

lemma last_part_gives:
  assumes "builds h m xs"
  shows "gives h (then_part m packet_done) xs"
proof (rule then_part_gives [OF assms])
  fix pkt h' assume "contains pkt xs"
  then show "gives h' (Inr (pkt, h')) xs" by (rule gives_done) simp
qed

text \<open>An enlarged packet: what it held, then room.\<close>

lemma enlarge_cases:
  assumes "contains pkt xs" "0 < n" "length xs + n < 2 ^ 31"
  obtains (fails) pkt' h' where "BUFFER_enlarge pkt n h = (MU_FAILURE, pkt', h')" "\<not> plenty h"
  | (ok) pkt' h' where "BUFFER_enlarge pkt n h = (MU_OK, pkt', h')" "BUFFER_u_char pkt' = Some 0"
      "room (pkt', Some (length xs)) xs n" "plenty h \<Longrightarrow> plenty h'"
proof -
  from assms(1) obtain b where b: "pkt = Some b" "bsize b = length xs" "buffer b = Some xs \<or> xs = [] \<and> buffer b = None"
    by (auto simp: contains_def)
  have size: "size_add (bsize b) n = length xs + n" using assms(3) b by (simp add: size_add_def)
  from assms(3) show ?thesis
  proof (cases rule: malloc_cases [where h = h])
    case none
    with assms(2) b size have "BUFFER_enlarge pkt n h = (MU_FAILURE, pkt, \<lambda>i. h (Suc i))"
      by (simp add: BUFFER_enlarge_def realloc_def)
    with none that(1) show ?thesis by blast
  next
    case (some ys)
    let ?b = "b\<lparr>buffer := Some (xs @ drop (length xs) ys), bsize := length xs + n\<rparr>"
    from assms(2) b size some have "BUFFER_enlarge pkt n h = (MU_OK, Some ?b, \<lambda>i. h (Suc i))"
      by (auto simp: BUFFER_enlarge_def realloc_def)
    moreover have "BUFFER_u_char (Some ?b) = Some 0" using assms(2) by (simp add: BUFFER_u_char_def)
    moreover have "room (Some ?b, Some (length xs)) xs n" using some by (auto simp: room_def)
    ultimately show ?thesis using that(2) by auto
  qed
qed

lemma pre_build_cases:
  assumes "buffer b = None" "0 < n" "n < 2 ^ 31"
  obtains (fails) pkt' h' where "BUFFER_pre_build (Some b) n h = (MU_FAILURE, pkt', h')" "\<not> plenty h"
  | (ok) pkt' h' where "BUFFER_pre_build (Some b) n h = (MU_OK, pkt', h')" "BUFFER_u_char pkt' = Some 0"
      "room (pkt', Some 0) [] n" "plenty h \<Longrightarrow> plenty h'"
  using assms(3)
proof (cases rule: malloc_cases [where h = h])
  case none
  with assms that(1) show ?thesis by (simp add: BUFFER_pre_build_def)
next
  case (some ys)
  with assms that(2) [of "Some (b\<lparr>buffer := Some ys, bsize := n\<rparr>)" "\<lambda>i. h (Suc i)"] show ?thesis
    by (simp add: BUFFER_pre_build_def BUFFER_u_char_def room_def)
qed

section \<open>The fixed header\<close>

text \<open>A length in digits of 7 bits, the least significant first.\<close>

fun digits :: "nat \<Rightarrow> byte list" where
  "digits n = (if n < 128 then [of_nat n] else (of_nat (n mod 128) OR NEXT_128_CHUNK) # digits (n div 128))"

declare digits.simps [simp del]

lemma digits_length_pos: "1 \<le> length (digits n)"
  by (subst digits.simps) simp

lemma digits_length: "n < 128 ^ Suc k \<longleftrightarrow> length (digits n) \<le> Suc k"
proof (induction k arbitrary: n)
  case 0
  show ?case using digits_length_pos [of "n div 128"] by (subst digits.simps) auto
next
  case (Suc k)
  have "n < 128 ^ Suc (Suc k) \<longleftrightarrow> n div 128 < 128 ^ Suc k" by (simp add: div_less_iff_less_mult mult.commute)
  also have "\<dots> \<longleftrightarrow> length (digits (n div 128)) \<le> Suc k" by (rule Suc.IH)
  also have "\<dots> \<longleftrightarrow> length (digits n) \<le> Suc (Suc k)"
    using digits_length_pos [of "n div 128"] by (subst (2) digits.simps) (auto simp: digits.simps [of "n div 128"])
  finally show ?case .
qed

declare remain_size.simps [simp del]

lemma remain_size_digits:
  "remain_size n acc =
    (if length acc + length (digits n) \<le> 4 then Inr (acc @ digits n) else Inl Buffer_overflow)"
proof (induction n acc rule: remain_size.induct)
  case (1 n acc)
  show ?case
  proof (cases "n < 128")
    case True
    then show ?thesis by (subst remain_size.simps, subst (1 2) digits.simps) (simp add: Let_def)
  next
    case False
    then have d: "0 < n div 128" by (simp add: div_greater_zero_iff)
    have dig: "digits n = (of_nat (n mod 128) OR NEXT_128_CHUNK) # digits (n div 128)"
      using False by (subst digits.simps) simp
    show ?thesis
    proof (cases "4 \<le> length acc")
      case True
      then show ?thesis using digits_length_pos [of n] by (subst remain_size.simps) (simp add: Let_def)
    next
      case short: False
      from 1 [OF refl refl refl short d] d short
      have "remain_size (n div 128) (acc @ [of_nat (n mod 128) OR NEXT_128_CHUNK]) =
        (if length (acc @ [of_nat (n mod 128) OR NEXT_128_CHUNK]) + length (digits (n div 128)) \<le> 4
         then Inr ((acc @ [of_nat (n mod 128) OR NEXT_128_CHUNK]) @ digits (n div 128)) else Inl Buffer_overflow)"
        by simp
      then show ?thesis using d short by (subst remain_size.simps) (simp add: Let_def dig)
    qed
  qed
qed

definition frame :: "CONTROL_PACKET_TYPE \<Rightarrow> byte \<Rightarrow> byte list \<Rightarrow> byte list" where
  "frame t flags body = (type_byte t OR flags) # digits (length body) @ body"

definition MAX_REMAINING :: nat where "MAX_REMAINING = 268435455"

lemma remain_size_fits: "n \<le> MAX_REMAINING \<Longrightarrow> remain_size n [] = Inr (digits n) \<and> length (digits n) \<le> 4"
  using digits_length [of n 3] by (simp add: remain_size_digits MAX_REMAINING_def)

lemma remain_size_overflow: "MAX_REMAINING < n \<Longrightarrow> remain_size n [] = Inl Buffer_overflow"
  using digits_length [of n 3] by (simp add: remain_size_digits MAX_REMAINING_def)

lemma prepend_builds:
  assumes "contains pkt xs" "xs \<noteq> []" "contains front ys" "ys \<noteq> []" "length xs + length ys < 2 ^ 31"
  shows "builds h (BUFFER_prepend False pkt front h) (ys @ xs)"
proof -
  from assms(1,2) obtain b1 where b1: "pkt = Some b1" "bsize b1 = length xs" "buffer b1 = Some xs"
    by (auto simp: contains_def)
  from assms(3,4) obtain b2 where b2: "front = Some b2" "bsize b2 = length ys" "buffer b2 = Some ys"
    by (auto simp: contains_def)
  have size: "size_add (length xs) (length ys) = length xs + length ys" using assms(5) by (simp add: size_add_def)
  from assms(5) show ?thesis
  proof (cases rule: malloc_cases [where h = h])
    case none
    then show ?thesis using b1 b2 size assms(4) by (simp add: BUFFER_prepend_def builds_failure)
  next
    case (some zs)
    have w1: "write_at zs 0 ys = Inr (ys @ drop (length ys) zs)" using some by (simp add: write_at_def)
    have w2: "write_at (ys @ drop (length ys) zs) (length ys) xs = Inr (ys @ xs)"
      using some by (simp add: write_at_def)
    have "BUFFER_prepend False pkt front h =
      Inr (MU_OK, Some (b1\<lparr>buffer := Some (ys @ xs), bsize := length xs + length ys\<rparr>), \<lambda>i. h (Suc i))"
      using b1 b2 size assms(2,4) some w1 w2 by (simp add: BUFFER_prepend_def read_from_def)
    then show ?thesis by (auto simp: builds_def contains_def)
  qed
qed

lemma fixed_header_builds:
  assumes "contains pkt body" "body \<noteq> []" "length body \<le> MAX_REMAINING"
  shows "builds h (constructFixedHeader pkt t flags h) (frame t flags body)"
proof -
  let ?d = "digits (length body)"
  from remain_size_fits [OF assms(3)] have rs: "remain_size (length body) [] = Inr ?d" "length ?d \<le> 4" by auto
  note len = contains_length [OF assms(1)]
  show ?thesis
  proof (cases rule: new_cases [of h])
    case none
    then show ?thesis by (simp add: constructFixedHeader_def len rs builds_failure)
  next
    case (some b)
    show ?thesis
    proof (rule pre_build_cases [OF some(3), of "length ?d + 1" "\<lambda>i. h (Suc i)"])
      fix pkt' h'
      assume "BUFFER_pre_build (Some b) (length ?d + 1) (\<lambda>i. h (Suc i)) = (MU_FAILURE, pkt', h')"
        "\<not> plenty (\<lambda>i. h (Suc i))"
      then show ?thesis using some
        by (auto simp: constructFixedHeader_def len rs intro: builds_failure)
    next
      fix pkt' h'
      assume ok: "BUFFER_pre_build (Some b) (length ?d + 1) (\<lambda>i. h (Suc i)) = (MU_OK, pkt', h')"
        "BUFFER_u_char pkt' = Some 0" "room (pkt', Some 0) [] (length ?d + 1)"
        "plenty (\<lambda>i. h (Suc i)) \<Longrightarrow> plenty h'"
      have pre: "contains front (((type_byte t OR flags) # ?d)) \<Longrightarrow>
        builds h (BUFFER_prepend False pkt front h') (frame t flags body)" for front
        using prepend_builds [OF assms(1,2), of front "(type_byte t OR flags) # ?d" h'] assms(3) rs(2) ok(4)
        by (auto simp: frame_def MAX_REMAINING_def intro: builds_weaken)
      have "builds h (cbind (write_bytes [type_byte t OR flags] (pkt', Some 0)) (\<lambda>w1.
          cbind (write_bytes ?d w1) (\<lambda>(f, _). BUFFER_prepend False pkt f h'))) (frame t flags body)"
        by (rule room_write [OF ok(3)], simp, rule room_write, assumption, simp)
          (auto dest!: room_done intro: pre)
      then show ?thesis using some ok(1,2) by (simp add: constructFixedHeader_def len rs)
    qed (use rs in auto)
  qed
qed

section \<open>The packets\<close>

text \<open>The content of each kind of packet.\<close>

definition packet_id :: "QOS_VALUE \<Rightarrow> 16 word \<Rightarrow> byte list" where
  "packet_id q i = (if q = DELIVER_AT_MOST_ONCE then [] else be16 i)"

definition publish_body :: "QOS_VALUE \<Rightarrow> 16 word \<Rightarrow> cstr \<Rightarrow> byte list \<Rightarrow> byte list" where
  "publish_body q i topic data = utf topic @ packet_id q i @ data"

definition subscribe_body :: "16 word \<Rightarrow> (cstr \<times> QOS_VALUE) list \<Rightarrow> byte list" where
  "subscribe_body i ts = be16 i @ concat (map (\<lambda>(t, q). utf t @ [qos_byte q]) ts)"

definition unsubscribe_body :: "16 word \<Rightarrow> cstr list \<Rightarrow> byte list" where
  "unsubscribe_body i ts = be16 i @ concat (map utf ts)"

lemma new_packet_gives:
  assumes "\<And>b h'. contains (Some b) [] \<Longrightarrow> buffer b = None \<Longrightarrow> gives h' (f (Some b) h') xs"
  shows "gives h (case BUFFER_new h of (None, h1) \<Rightarrow> Inr (None, h1) | (Some b, h1) \<Rightarrow> f (Some b) h1) xs"
proof (cases rule: new_cases [of h])
  case none
  then show ?thesis by (simp add: gives_null)
next
  case (some b)
  from assms [OF some(2,3), of "\<lambda>i. h (Suc i)"] have "gives h (f (Some b) (\<lambda>i. h (Suc i))) xs"
    by (rule gives_weaken) simp
  with some(1) show ?thesis by simp
qed

lemma publish_header_builds:
  assumes "contains pkt []" "length topic \<le> USHRT_MAX"
  shows "builds h (constructPublishVariableHeader pkt topic i q h) (utf topic @ packet_id q i)"
proof -
  let ?n = "length topic + (if q \<noteq> DELIVER_AT_MOST_ONCE then 2 else 0) + 2"
  have "0 < ?n" "length ([] :: byte list) + ?n < 2 ^ 31" using assms(2) by (simp_all add: USHRT_MAX_def)
  with assms(1) show ?thesis
  proof (cases rule: enlarge_cases [where h = h])
    case (fails pkt' h')
    then show ?thesis using assms(2) by (simp add: constructPublishVariableHeader_def builds_failure)
  next
    case (ok pkt' h')
    then have r0: "room (pkt', Some 0) [] ?n" by simp
    have "builds h (cbind (byteutil_writeUTF (Some topic) (of_nat (length topic)) (pkt', Some 0)) (\<lambda>w1.
        cbind (if (if q \<noteq> DELIVER_AT_MOST_ONCE then 2 else 0 :: nat) > 0 then byteutil_writeInt i w1 else Inr w1)
          (\<lambda>(pkt2, _). Inr (MU_OK, pkt2, h')))) (utf topic @ packet_id q i)"
    proof (rule room_writeUTF [OF r0 assms(2), where Q = "\<lambda>m. builds h m (utf topic @ packet_id q i)"])
      fix w' assume w': "room w' ([] @ utf topic) (?n - (length topic + 2))"
      show "builds h (cbind (if (if q \<noteq> DELIVER_AT_MOST_ONCE then 2 else 0 :: nat) > 0 then byteutil_writeInt i w' else Inr w')
          (\<lambda>(pkt2, _). Inr (MU_OK, pkt2, h'))) (utf topic @ packet_id q i)"
      proof (cases "q = DELIVER_AT_MOST_ONCE")
        case True
        with w' room_done [of w' "utf topic"] ok(4) show ?thesis
          by (cases w') (auto simp: packet_id_def intro: builds_ok)
      next
        case False
        have "builds h (cbind (byteutil_writeInt i w') (\<lambda>(pkt2, _). Inr (MU_OK, pkt2, h'))) (utf topic @ packet_id q i)"
          by (rule room_writeInt [OF w']) (use False ok(4) in \<open>auto simp: packet_id_def dest!: room_done intro: builds_ok\<close>)
        with False show ?thesis by simp
      qed
    qed simp
    then show ?thesis using assms contains_length [OF assms(1)] ok(1,2)
      by (simp add: constructPublishVariableHeader_def advance_def)
  qed
qed

lemma publish_payload_builds:
  assumes "contains pkt xs" "data \<noteq> [] \<Longrightarrow> msg = Some data" "length xs + length data < 2 ^ 31"
  shows "builds h (publish_payload pkt msg (length data) h) (xs @ data)"
proof (cases "data = []")
  case True
  with assms(1) show ?thesis by (simp add: publish_payload_def builds_ok)
next
  case False
  then have "0 < length data" by simp
  with assms(1) show ?thesis using assms(3)
  proof (cases rule: enlarge_cases [where h = h])
    case (fails pkt' h')
    with False show ?thesis by (simp add: publish_payload_def builds_failure)
  next
    case (ok pkt' h')
    have "builds h (cbind (write_bytes data (pkt', Some (length xs))) (\<lambda>(pkt2, _). Inr (MU_OK, pkt2, h'))) (xs @ data)"
      by (rule room_write [OF ok(3)]) (use ok(4) in \<open>auto dest!: room_done intro: builds_ok\<close>)
    then show ?thesis using False assms(2) ok(1,2)
      by (simp add: publish_payload_def read_from_def contains_length [OF assms(1)] advance_def)
  qed
qed

lemma utf_not_empty [simp]: "utf t \<noteq> []"
  by (simp add: utf_def be16_def)

lemma publish_gives:
  assumes "length topic \<le> USHRT_MAX" "length (publish_body q i topic data) \<le> MAX_REMAINING"
    "data \<noteq> [] \<Longrightarrow> msg = Some data"
  shows "gives h (mqtt_codec_publish q dup retain i (Some topic) msg (length data) h)
    (frame PUBLISH_TYPE (publish_flags q dup retain) (publish_body q i topic data))"
proof -
  have "length data \<le> MAX_SEND_SIZE" "length (utf topic @ packet_id q i) + length data < 2 ^ 31"
    using assms(2) by (simp_all add: publish_body_def MAX_REMAINING_def MAX_SEND_SIZE_def)
  then show ?thesis
    unfolding mqtt_codec_publish_def option.case
    apply (simp only: not_less [symmetric] if_False)
    apply (rule new_packet_gives [where f = "\<lambda>r h1. then_part (constructPublishVariableHeader r topic i q h1) (\<lambda>pkt h2.
        then_part (publish_payload pkt msg (length data) h2) (\<lambda>pkt h3.
        then_part (constructFixedHeader pkt PUBLISH_TYPE (publish_flags q dup retain) h3) packet_done))"])
    apply (rule then_part_gives [OF publish_header_builds], assumption, rule assms(1))
    apply (rule then_part_gives [OF publish_payload_builds], assumption, erule assms(3), assumption)
    apply (rule last_part_gives, rule fixed_header_builds)
    using assms(2) by (auto simp: publish_body_def)
qed

lemma reply_gives:
  "gives h (constructPublishReply t flags i h) ([type_byte t OR flags, 2] @ be16 i)"
proof -
  have "gives h (case BUFFER_new h of (None, h1) \<Rightarrow> Inr (None, h1) | (Some b, h1) \<Rightarrow>
      (case BUFFER_pre_build (Some b) 4 h1 of (MU_FAILURE, _, h2) \<Rightarrow> Inr (None, h2)
       | (MU_OK, result1, h2) \<Rightarrow>
           if BUFFER_u_char result1 = None then Inr (None, h2)
           else cbind (write_bytes [type_byte t OR flags] (result1, BUFFER_u_char result1)) (\<lambda>w1.
                cbind (write_bytes [0x2] w1) (\<lambda>w2.
                cbind (byteutil_writeInt i w2) (\<lambda>(result2, _). Inr (result2, h2)))))) ([type_byte t OR flags, 2] @ be16 i)"
  proof (rule new_packet_gives [where f = "\<lambda>r h1. case BUFFER_pre_build r 4 h1 of (MU_FAILURE, _, h2) \<Rightarrow> Inr (None, h2)
       | (MU_OK, result1, h2) \<Rightarrow>
           if BUFFER_u_char result1 = None then Inr (None, h2)
           else cbind (write_bytes [type_byte t OR flags] (result1, BUFFER_u_char result1)) (\<lambda>w1.
                cbind (write_bytes [0x2] w1) (\<lambda>w2.
                cbind (byteutil_writeInt i w2) (\<lambda>(result2, _). Inr (result2, h2))))"])
    fix b h' assume b: "contains (Some b) []" "buffer b = None"
    show "gives h' (case BUFFER_pre_build (Some b) 4 h' of (MU_FAILURE, _, h2) \<Rightarrow> Inr (None, h2)
       | (MU_OK, result1, h2) \<Rightarrow>
           if BUFFER_u_char result1 = None then Inr (None, h2)
           else cbind (write_bytes [type_byte t OR flags] (result1, BUFFER_u_char result1)) (\<lambda>w1.
                cbind (write_bytes [0x2] w1) (\<lambda>w2.
                cbind (byteutil_writeInt i w2) (\<lambda>(result2, _). Inr (result2, h2))))) ([type_byte t OR flags, 2] @ be16 i)"
    proof (rule pre_build_cases [OF b(2), of 4 h'])
      fix pkt' h2
      assume ok: "BUFFER_pre_build (Some b) 4 h' = (MU_OK, pkt', h2)" "BUFFER_u_char pkt' = Some 0"
        "room (pkt', Some 0) [] 4" "plenty h' \<Longrightarrow> plenty h2"
      have "gives h' (cbind (write_bytes [type_byte t OR flags] (pkt', Some 0)) (\<lambda>w1.
          cbind (write_bytes [0x2] w1) (\<lambda>w2. cbind (byteutil_writeInt i w2) (\<lambda>(result2, _). Inr (result2, h2)))))
        ([type_byte t OR flags, 2] @ be16 i)"
        by (rule room_write [OF ok(3)], simp, rule room_write, assumption, simp, rule room_writeInt, assumption, simp)
          (auto dest!: room_done intro: gives_done ok(4))
      with ok(1,2) show ?thesis by simp
    qed (simp_all add: gives_null)
  qed
  then show ?thesis by (simp add: constructPublishReply_def split: prod.split option.split)
qed

lemma two_bytes_gives: "gives h (two_bytes b0 b1 h) [b0, b1]"
proof (cases rule: new_cases [of h])
  case none
  then show ?thesis by (simp add: two_bytes_def gives_null)
next
  case (some b)
  have "0 < (2::nat)" "length ([] :: byte list) + 2 < 2 ^ 31" by simp_all
  with some(2) show ?thesis
  proof (cases rule: enlarge_cases [where h = "\<lambda>i. h (Suc i)"])
    case (fails pkt' h')
    with some(1) show ?thesis by (auto simp: two_bytes_def intro: gives_null)
  next
    case (ok pkt' h')
    then have r0: "room (pkt', Some 0) [] 2" "plenty h \<Longrightarrow> plenty h'" by simp_all
    have "gives h (cbind (write_bytes [b0, b1] (pkt', Some 0)) (\<lambda>(result2, _). Inr (result2, h'))) [b0, b1]"
      by (rule room_write [OF r0(1)], simp) (auto dest!: room_done intro: gives_done r0(2))
    with some(1) ok(1,2) show ?thesis by (simp add: two_bytes_def)
  qed
qed

lemma subscribe_header_builds:
  assumes "contains pkt []"
  shows "builds h (constructSubscibeTypeVariableHeader pkt i h) (be16 i)"
proof -
  have "0 < (2::nat)" "length ([] :: byte list) + 2 < 2 ^ 31" by simp_all
  with assms show ?thesis
  proof (cases rule: enlarge_cases [where h = h])
    case (fails pkt' h')
    then show ?thesis by (simp add: constructSubscibeTypeVariableHeader_def builds_failure)
  next
    case (ok pkt' h')
    then have r0: "room (pkt', Some 0) [] 2" by simp
    have "builds h (cbind (byteutil_writeInt i (pkt', Some 0)) (\<lambda>(pkt2, _). Inr (MU_OK, pkt2, h'))) (be16 i)"
      by (rule room_writeInt [OF r0], simp) (auto dest!: room_done intro: builds_ok ok(4))
    with ok(1,2) show ?thesis by (simp add: constructSubscibeTypeVariableHeader_def)
  qed
qed

lemma subscribe_items_builds:
  assumes "contains pkt xs" "\<forall>(t, q) \<in> set ts. length t \<le> USHRT_MAX"
    "length (xs @ concat (map (\<lambda>(t, q). utf t @ [qos_byte q]) ts)) < 2 ^ 31"
  shows "builds h (addListItemsToSubscribePacket pkt ts h) (xs @ concat (map (\<lambda>(t, q). utf t @ [qos_byte q]) ts))"
  using assms
proof (induction ts arbitrary: pkt xs h)
  case Nil
  then show ?case by (simp add: builds_ok)
next
  case (Cons tq ts)
  obtain t q where tq: "tq = (t, q)" by (cases tq)
  have t: "length t \<le> USHRT_MAX" using Cons.prems(2) tq by simp
  have size: "size_add (length t) (2 + 1) = length t + 3" using t by (simp add: size_add_def USHRT_MAX_def)
  have "0 < length t + 3" "length xs + (length t + 3) < 2 ^ 31" using Cons.prems(3) tq by simp_all
  with Cons.prems(1) show ?case
  proof (cases rule: enlarge_cases [where h = h])
    case (fails pkt' h')
    with t size tq show ?thesis by (simp add: Let_def builds_failure)
  next
    case (ok pkt' h')
    have next_item: "builds h (addListItemsToSubscribePacket pkt2 ts h')
        (xs @ concat (map (\<lambda>(t, q). utf t @ [qos_byte q]) (tq # ts)))"
      if "contains pkt2 ((xs @ utf t) @ [qos_byte q])" for pkt2
      using Cons.IH [OF that, of h'] Cons.prems(2,3) tq ok(4) by (auto intro: builds_weaken)
    have "builds h (cbind (byteutil_writeUTF (Some t) (of_nat (length t)) (pkt', Some (length xs))) (\<lambda>w.
        cbind (write_bytes [qos_byte q] w) (\<lambda>(pkt2, _). addListItemsToSubscribePacket pkt2 ts h')))
        (xs @ concat (map (\<lambda>(t, q). utf t @ [qos_byte q]) (tq # ts)))"
      by (rule room_writeUTF [OF ok(3) t], simp, rule room_write, assumption, simp)
        (auto dest!: room_done dest: next_item simp: tq simp del: append_assoc)
    with t size tq ok(1,2) contains_length [OF Cons.prems(1)] show ?thesis
      by (simp add: Let_def advance_def)
  qed
qed

lemma unsubscribe_items_builds:
  assumes "contains pkt xs" "\<forall>t \<in> set ts. length t \<le> USHRT_MAX" "length (xs @ concat (map utf ts)) < 2 ^ 31"
  shows "builds h (addListItemsToUnsubscribePacket pkt ts h) (xs @ concat (map utf ts))"
  using assms
proof (induction ts arbitrary: pkt xs h)
  case Nil
  then show ?case by (simp add: builds_ok)
next
  case (Cons t ts)
  have t: "length t \<le> USHRT_MAX" using Cons.prems(2) by simp
  have size: "size_add (length t) 2 = length t + 2" using t by (simp add: size_add_def USHRT_MAX_def)
  have "0 < length t + 2" "length xs + (length t + 2) < 2 ^ 31" using Cons.prems(3) by simp_all
  with Cons.prems(1) show ?case
  proof (cases rule: enlarge_cases [where h = h])
    case (fails pkt' h')
    with t size show ?thesis by (simp add: Let_def builds_failure)
  next
    case (ok pkt' h')
    have next_item: "builds h (addListItemsToUnsubscribePacket pkt2 ts h') (xs @ concat (map utf (t # ts)))"
      if "contains pkt2 (xs @ utf t)" for pkt2
      using Cons.IH [OF that, of h'] Cons.prems(2,3) ok(4) by (auto intro: builds_weaken)
    have "builds h (cbind (byteutil_writeUTF (Some t) (of_nat (length t)) (pkt', Some (length xs)))
        (\<lambda>(pkt2, _). addListItemsToUnsubscribePacket pkt2 ts h')) (xs @ concat (map utf (t # ts)))"
      by (rule room_writeUTF [OF ok(3) t], simp) (auto dest!: room_done dest: next_item simp del: append_assoc)
    with t size ok(1,2) contains_length [OF Cons.prems(1)] show ?thesis
      by (simp add: Let_def advance_def)
  qed
qed

lemma be16_not_empty [simp]: "be16 v \<noteq> []"
  by (simp add: be16_def)

lemma subscribe_gives:
  assumes "ts \<noteq> []" "\<forall>(t, q) \<in> set ts. length t \<le> USHRT_MAX" "length (subscribe_body i ts) \<le> MAX_REMAINING"
  shows "gives h (mqtt_codec_subscribe i (Some ts) h) (frame SUBSCRIBE_TYPE 2 (subscribe_body i ts))"
  unfolding mqtt_codec_subscribe_def
  apply (simp only: option.inject option.distinct option.sel assms(1) simp_thms if_False)
  apply (rule new_packet_gives [where f = "\<lambda>r h1. then_part (constructSubscibeTypeVariableHeader r i h1) (\<lambda>pkt h2.
         then_part (addListItemsToSubscribePacket pkt ts h2) (\<lambda>pkt h3.
         then_part (constructFixedHeader pkt SUBSCRIBE_TYPE SUBSCRIBE_FIXED_HEADER_FLAG h3) packet_done))"])
  apply (rule then_part_gives [OF subscribe_header_builds], assumption)
  apply (rule then_part_gives [OF subscribe_items_builds], assumption, rule assms(2))
  using assms(3) apply (simp add: subscribe_body_def MAX_REMAINING_def)
  apply (rule last_part_gives, simp only: SUBSCRIBE_FIXED_HEADER_FLAG_def, rule fixed_header_builds)
  using assms(3) by (auto simp: subscribe_body_def)

lemma unsubscribe_gives:
  assumes "ts \<noteq> []" "\<forall>t \<in> set ts. length t \<le> USHRT_MAX" "length (unsubscribe_body i ts) \<le> MAX_REMAINING"
  shows "gives h (mqtt_codec_unsubscribe i (Some ts) h) (frame UNSUBSCRIBE_TYPE 2 (unsubscribe_body i ts))"
  unfolding mqtt_codec_unsubscribe_def
  apply (simp only: option.inject option.distinct option.sel assms(1) simp_thms if_False)
  apply (rule new_packet_gives [where f = "\<lambda>r h1. then_part (constructSubscibeTypeVariableHeader r i h1) (\<lambda>pkt h2.
         then_part (addListItemsToUnsubscribePacket pkt ts h2) (\<lambda>pkt h3.
         then_part (constructFixedHeader pkt UNSUBSCRIBE_TYPE UNSUBSCRIBE_FIXED_HEADER_FLAG h3) packet_done))"])
  apply (rule then_part_gives [OF subscribe_header_builds], assumption)
  apply (rule then_part_gives [OF unsubscribe_items_builds], assumption, rule assms(2))
  using assms(3) apply (simp add: unsubscribe_body_def MAX_REMAINING_def)
  apply (rule last_part_gives, simp only: UNSUBSCRIBE_FIXED_HEADER_FLAG_def, rule fixed_header_builds)
  using assms(3) by (auto simp: unsubscribe_body_def)

section \<open>The CONNECT packet\<close>

definition connect_head :: "byte list" where
  "connect_head = utf mqtt_name @ [PROTOCOL_NUMBER]"

text \<open>The options the code takes: a client id, no empty texts, no text that is too long.\<close>

definition field_ok :: "cstr option \<Rightarrow> bool" where
  "field_ok s \<longleftrightarrow> (case s of None \<Rightarrow> True | Some t \<Rightarrow> t \<noteq> [] \<and> length t \<le> USHRT_MAX)"

definition fields_ok :: "MQTT_CLIENT_OPTIONS \<Rightarrow> bool" where
  "fields_ok opts \<longleftrightarrow> field_ok (willTopic opts) \<and> field_ok (willMessage opts) \<and> field_ok (username opts) \<and>
     field_ok (password opts) \<and> (willTopic opts = None \<longleftrightarrow> willMessage opts = None) \<and>
     (username opts = None \<longrightarrow> password opts = None)"

definition field :: "cstr option \<Rightarrow> byte list" where
  "field s = (case s of None \<Rightarrow> [] | Some t \<Rightarrow> utf t)"

definition connect_fields :: "MQTT_CLIENT_OPTIONS \<Rightarrow> byte list" where
  "connect_fields opts = field (willTopic opts) @ field (willMessage opts) @ field (username opts) @ field (password opts)"

definition connect_flags :: "MQTT_CLIENT_OPTIONS \<Rightarrow> byte" where
  "connect_flags opts =
    (if useCleanSession opts then CLEAN_SESSION_FLAG else 0) OR
    (if password opts \<noteq> None then PASSWORD_FLAG else 0) OR
    (if username opts \<noteq> None then USERNAME_FLAG else 0) OR
    (if willTopic opts \<noteq> None then
       (if messageRetain opts then WILL_RETAIN_FLAG else 0) OR push_bit 3 (qos_byte (qualityOfServiceValue opts)) OR
       WILL_FLAG_FLAG
     else 0)"

definition connect_body :: "MQTT_CLIENT_OPTIONS \<Rightarrow> byte list" where
  "connect_body opts = connect_head @ connect_flags opts # be16 (keepAliveInterval opts) @
     field (clientId opts) @ connect_fields opts"

text \<open>A CONNECT packet in the making: flags \<open>f\<close>, then \<open>post\<close>, and \<open>n\<close> bytes of room.\<close>

definition conn :: "writer \<Rightarrow> byte \<Rightarrow> byte list \<Rightarrow> nat \<Rightarrow> bool" where
  "conn w f post n \<longleftrightarrow> room w (connect_head @ f # post) n"

lemma connect_head_length: "length connect_head = CONN_FLAG_BYTE_OFFSET"
  by (simp add: connect_head_def mqtt_name_def CONN_FLAG_BYTE_OFFSET_def)

lemma conn_flag:
  assumes "conn w f post n"
  obtains w' where "flag_then g w = Inr w'" "conn w' (g OR f) post n"
proof -
  let ?xs = "connect_head @ f # post" and ?ys = "connect_head @ (g OR f) # post"
  from assms obtain b zs where w: "w = (Some b, Some (length ?xs))" "buffer b = Some (?xs @ zs)" "length zs = n"
    "bsize b = length ?xs + n" unfolding conn_def room_def by blast
  note len = connect_head_length [symmetric]
  have "flag_then g w = Inr (Some (b\<lparr>buffer := Some (?ys @ zs)\<rparr>), Some (length ?ys))"
    using w by (simp add: flag_then_def or_flag_def read_from_def store_in_def write_at_def len)
  moreover have "conn (Some (b\<lparr>buffer := Some (?ys @ zs)\<rparr>), Some (length ?ys)) (g OR f) post n"
    using w by (simp add: conn_def room_def)
  ultimately show ?thesis by (rule that)
qed

lemma conn_field:
  assumes "conn w f post n" "field_ok (Some t)" "length t + 2 \<le> n"
  obtains w' where "byteutil_writeUTF (Some t) (of_nat (length t)) w = Inr w'"
    "conn w' f (post @ utf t) (n - (length t + 2))"
proof -
  from assms have "\<exists>w'. byteutil_writeUTF (Some t) (of_nat (length t)) w = Inr w' \<and>
      conn w' f (post @ utf t) (n - (length t + 2))"
    using room_writeUTF [of w "connect_head @ f # post" n t "\<lambda>m. \<exists>w'. m = Inr w' \<and>
      conn w' f (post @ utf t) (n - (length t + 2))" Inr]
    by (auto simp: conn_def field_ok_def cbind_def split: sum.splits)
  then show ?thesis using that by blast
qed

text \<open>An optional field with its flag.\<close>

lemma flagged_field:
  assumes "conn w f post n" "field_ok s" "length (field s) \<le> n"
  obtains w' where
    "(if opt_len s > 0 then cbind (flag_then g w) (byteutil_writeUTF s (of_nat (opt_len s))) else Inr w) = Inr w'"
    "conn w' ((if s \<noteq> None then g else 0) OR f) (post @ field s) (n - length (field s))"
proof (cases s)
  case None
  with assms(1) that [of w] show ?thesis by (simp add: opt_len_def field_def)
next
  case (Some t)
  from conn_flag [OF assms(1), of g] obtain w1 where w1: "flag_then g w = Inr w1" "conn w1 (g OR f) post n" .
  from conn_field [OF w1(2), of t] assms(2,3) Some obtain w2 where
    "byteutil_writeUTF (Some t) (of_nat (length t)) w1 = Inr w2"
    "conn w2 (g OR f) (post @ utf t) (n - (length t + 2))" by (auto simp: field_def)
  with w1 that [of w2] Some assms(2) show ?thesis by (auto simp: opt_len_def field_def field_ok_def)
qed

lemma will_fields:
  assumes "conn w f post n" "fields_ok opts" "length (field (willTopic opts) @ field (willMessage opts)) \<le> n"
  obtains w' where
    "(if opt_len (willMessage opts) > 0 \<and> opt_len (willTopic opts) > 0 then
             cbind (flag_then WILL_FLAG_FLAG w) (\<lambda>w.
             cbind (byteutil_writeUTF (willTopic opts) (of_nat (opt_len (willTopic opts))) w) (\<lambda>w.
             cbind (flag_then (push_bit 3 (qos_byte (qualityOfServiceValue opts))) w) (\<lambda>w.
             cbind (if messageRetain opts then flag_then WILL_RETAIN_FLAG w else Inr w) (\<lambda>w.
               byteutil_writeUTF (willMessage opts) (of_nat (opt_len (willMessage opts))) w))))
           else Inr w) = Inr w'"
    "conn w' ((if willTopic opts \<noteq> None then
        (if messageRetain opts then WILL_RETAIN_FLAG else 0) OR push_bit 3 (qos_byte (qualityOfServiceValue opts)) OR
        WILL_FLAG_FLAG else 0) OR f) (post @ field (willTopic opts) @ field (willMessage opts))
      (n - length (field (willTopic opts) @ field (willMessage opts)))"
proof (cases "willTopic opts")
  case None
  with assms(1,2) that [of w] show ?thesis by (simp add: opt_len_def field_def fields_ok_def)
next
  case (Some t)
  with assms(2) obtain m where m: "willMessage opts = Some m" by (auto simp: fields_ok_def)
  have ok: "field_ok (Some t)" "field_ok (Some m)" "length t + 2 + (length m + 2) \<le> n"
    using assms(2,3) Some m by (auto simp: fields_ok_def field_def)
  from conn_flag [OF assms(1), of WILL_FLAG_FLAG] obtain w1 where
    w1: "flag_then WILL_FLAG_FLAG w = Inr w1" "conn w1 (WILL_FLAG_FLAG OR f) post n" .
  from conn_field [OF w1(2) ok(1)] ok(3) obtain w2 where
    w2: "byteutil_writeUTF (Some t) (of_nat (length t)) w1 = Inr w2"
      "conn w2 (WILL_FLAG_FLAG OR f) (post @ utf t) (n - (length t + 2))" by auto
  let ?q = "push_bit 3 (qos_byte (qualityOfServiceValue opts))"
  from conn_flag [OF w2(2), of ?q] obtain w3 where
    w3: "flag_then ?q w2 = Inr w3" "conn w3 (?q OR WILL_FLAG_FLAG OR f) (post @ utf t) (n - (length t + 2))"
    by (auto simp: or.assoc)
  obtain w4 where w4: "(if messageRetain opts then flag_then WILL_RETAIN_FLAG w3 else Inr w3) = Inr w4"
    "conn w4 ((if messageRetain opts then WILL_RETAIN_FLAG else 0) OR ?q OR WILL_FLAG_FLAG OR f) (post @ utf t) (n - (length t + 2))"
    using w3(2) conn_flag [OF w3(2), of WILL_RETAIN_FLAG] by (cases "messageRetain opts") auto
  have "length m + 2 \<le> n - (length t + 2)" using ok(3) by simp
  from conn_field [OF w4(2) ok(2) this] obtain w5 where
    w5: "byteutil_writeUTF (Some m) (of_nat (length m)) w4 = Inr w5"
      "conn w5 ((if messageRetain opts then WILL_RETAIN_FLAG else 0) OR ?q OR WILL_FLAG_FLAG OR f)
        ((post @ utf t) @ utf m) (n - (length t + 2) - (length m + 2))" .
  have pos: "0 < length t" "0 < length m" using ok by (auto simp: field_ok_def)
  show ?thesis
    by (rule that [of w5]) (use Some m pos w1(1) w2(1) w3(1) w4(1) w5 in
        \<open>simp_all add: opt_len_def field_def or.assoc diff_diff_left add.commute add.left_commute\<close>)
qed

lemma conn_fields_spec:
  assumes "conn w 0 post n" "fields_ok opts" "n = length (connect_fields opts)"
  obtains w' where "conn_fields opts w = Inr w'" "conn w' (connect_flags opts) (post @ connect_fields opts) 0"
proof -
  have ok: "field_ok (username opts)" "field_ok (password opts)" using assms(2) by (auto simp: fields_ok_def)
  have "length (field (willTopic opts) @ field (willMessage opts)) \<le> n" using assms(3) by (simp add: connect_fields_def)
  from will_fields [OF assms(1,2) this] obtain w1 where w1:
    "(if opt_len (willMessage opts) > 0 \<and> opt_len (willTopic opts) > 0 then
             cbind (flag_then WILL_FLAG_FLAG w) (\<lambda>w.
             cbind (byteutil_writeUTF (willTopic opts) (of_nat (opt_len (willTopic opts))) w) (\<lambda>w.
             cbind (flag_then (push_bit 3 (qos_byte (qualityOfServiceValue opts))) w) (\<lambda>w.
             cbind (if messageRetain opts then flag_then WILL_RETAIN_FLAG w else Inr w) (\<lambda>w.
               byteutil_writeUTF (willMessage opts) (of_nat (opt_len (willMessage opts))) w))))
           else Inr w) = Inr w1"
    "conn w1 ((if willTopic opts \<noteq> None then
        (if messageRetain opts then WILL_RETAIN_FLAG else 0) OR push_bit 3 (qos_byte (qualityOfServiceValue opts)) OR
        WILL_FLAG_FLAG else 0) OR 0) (post @ field (willTopic opts) @ field (willMessage opts))
      (n - length (field (willTopic opts) @ field (willMessage opts)))" .
  have "length (field (username opts)) \<le> n - length (field (willTopic opts) @ field (willMessage opts))"
    using assms(3) by (simp add: connect_fields_def)
  note w2s = flagged_field [OF w1(2) ok(1) this, of USERNAME_FLAG]
  obtain w2 f2 post2 n2 where w2: "(if opt_len (username opts) > 0 then cbind (flag_then USERNAME_FLAG w1)
      (byteutil_writeUTF (username opts) (of_nat (opt_len (username opts)))) else Inr w1) = Inr w2"
    "conn w2 f2 post2 n2" "f2 = (if username opts \<noteq> None then USERNAME_FLAG else 0) OR
      ((if willTopic opts \<noteq> None then
        (if messageRetain opts then WILL_RETAIN_FLAG else 0) OR push_bit 3 (qos_byte (qualityOfServiceValue opts)) OR
        WILL_FLAG_FLAG else 0) OR 0)"
    "post2 = (post @ field (willTopic opts) @ field (willMessage opts)) @ field (username opts)"
    "n2 = n - length (field (willTopic opts) @ field (willMessage opts)) - length (field (username opts))"
    by (rule w2s) blast
  have n2: "length (field (password opts)) \<le> n2" "n2 - length (field (password opts)) = 0"
    using assms(3) by (simp_all add: connect_fields_def w2(5))
  obtain w3 where w3: "(if opt_len (password opts) > 0 then cbind (flag_then PASSWORD_FLAG w2)
      (byteutil_writeUTF (password opts) (of_nat (opt_len (password opts)))) else Inr w2) = Inr w3"
    "conn w3 ((if password opts \<noteq> None then PASSWORD_FLAG else 0) OR f2) (post2 @ field (password opts)) 0"
    using flagged_field [OF w2(2) ok(2) n2(1), of PASSWORD_FLAG] n2(2) by auto
  obtain w4 where w4: "(if useCleanSession opts then flag_then CLEAN_SESSION_FLAG w3 else Inr w3) = Inr w4"
    "conn w4 ((if useCleanSession opts then CLEAN_SESSION_FLAG else 0) OR (if password opts \<noteq> None then PASSWORD_FLAG else 0) OR f2)
      (post2 @ field (password opts)) 0"
    using w3(2) conn_flag [OF w3(2), of CLEAN_SESSION_FLAG] by (cases "useCleanSession opts") auto
  show ?thesis
    by (rule that [of w4]) (use w1(1) w2(1) w3(1) w4 in
        \<open>simp_all add: conn_fields_def connect_flags_def connect_fields_def w2(3,4)\<close>)
qed

lemma connect_header_builds:
  assumes "contains pkt []"
  shows "builds h (constructConnectVariableHeader pkt opts h) (connect_head @ 0 # be16 (keepAliveInterval opts))"
proof -
  have "0 < CONNECT_VARIABLE_HEADER_SIZE" "length ([] :: byte list) + CONNECT_VARIABLE_HEADER_SIZE < 2 ^ 31"
    by (simp_all add: CONNECT_VARIABLE_HEADER_SIZE_def)
  with assms show ?thesis
  proof (cases rule: enlarge_cases [where h = h])
    case (fails pkt' h')
    then show ?thesis by (simp add: constructConnectVariableHeader_def builds_failure)
  next
    case (ok pkt' h')
    then have r0: "room (pkt', Some 0) [] 10" by (simp add: CONNECT_VARIABLE_HEADER_SIZE_def)
    have name: "(4 :: 16 word) = of_nat (length mqtt_name)" "length mqtt_name \<le> USHRT_MAX" "length mqtt_name = 4"
      by (simp_all add: mqtt_name_def USHRT_MAX_def)
    have "builds h (cbind (byteutil_writeUTF (Some mqtt_name) 4 (pkt', Some 0)) (\<lambda>w1.
              cbind (byteutil_writeByte PROTOCOL_NUMBER w1) (\<lambda>w2.
              cbind (byteutil_writeByte 0 w2) (\<lambda>w3.
              cbind (byteutil_writeInt (keepAliveInterval opts) w3) (\<lambda>(pkt2, _). Inr (MU_OK, pkt2, h'))))))
        (connect_head @ 0 # be16 (keepAliveInterval opts))"
      unfolding byteutil_writeByte_def name(1)
      by (rule room_writeUTF [OF r0 name(2)], simp add: name(3), rule room_write, assumption, simp add: name(3),
          rule room_write, assumption, simp add: name(3), rule room_writeInt, assumption, simp add: name(3))
        (auto simp: name(3) connect_head_def dest!: room_done intro: builds_ok ok(4))
    with ok(1,2) show ?thesis by (simp add: constructConnectVariableHeader_def)
  qed
qed

lemma opt_len_field: "field_ok s \<Longrightarrow> opt_len s + opt_space s = length (field s)"
  by (cases s) (auto simp: opt_len_def opt_space_def field_def)

lemma conn_total_len_fields:
  assumes "fields_ok opts" "length (field (clientId opts) @ connect_fields opts) < 2 ^ 32"
    "clientId opts = None \<or> clientId opts = Some c"
  shows "conn_total_len opts = length (field (clientId opts) @ connect_fields opts)"
proof -
  have "opt_len (clientId opts) + opt_space (clientId opts) = length (field (clientId opts))"
    by (cases "clientId opts") (auto simp: opt_len_def opt_space_def field_def)
  moreover note opt_len_field [of "willTopic opts"] opt_len_field [of "willMessage opts"]
    opt_len_field [of "username opts"] opt_len_field [of "password opts"]
  ultimately show ?thesis using assms(1,2) by (simp add: conn_total_len_def fields_ok_def connect_fields_def)
qed

lemma fields_ok_checks:
  assumes "fields_ok opts"
  shows "\<not> (opt_len (username opts) = 0 \<and> opt_len (password opts) > 0)"
    "\<not> (opt_len (willMessage opts) > 0 \<and> opt_len (willTopic opts) = 0 \<or>
        opt_len (willTopic opts) > 0 \<and> opt_len (willMessage opts) = 0)"
    "\<not> (opt_len (willMessage opts) > USHRT_MAX \<or> opt_len (willTopic opts) > USHRT_MAX \<or>
        opt_len (username opts) > USHRT_MAX \<or> opt_len (password opts) > USHRT_MAX)"
  using assms by (auto simp: fields_ok_def field_ok_def opt_len_def split: option.splits)

lemma connPayload_unfold:
  assumes "fields_ok opts" "opt_len (clientId opts) \<le> USHRT_MAX"
  shows "constructConnPayload pkt opts h =
    (case BUFFER_enlarge pkt (conn_total_len opts) h of
       (MU_FAILURE, pkt1, h1) \<Rightarrow> Inr (MU_FAILURE, pkt1, h1)
     | (MU_OK, pkt1, h1) \<Rightarrow>
         cbind (byteutil_writeUTF (clientId opts) (of_nat (opt_len (clientId opts)))
                  (pkt1, advance (BUFFER_length pkt) (BUFFER_u_char pkt1))) (\<lambda>w.
           cbind (conn_fields opts w) (\<lambda>(pkt2, _). Inr (MU_OK, pkt2, h1))))"
proof -
  note checks = fields_ok_checks [OF assms(1)]
  from assms(2) have c: "\<not> opt_len (clientId opts) > USHRT_MAX" by simp
  show ?thesis
    unfolding constructConnPayload_def Let_def if_not_P [OF c] if_not_P [OF checks(1)] if_not_P [OF checks(2)]
      if_not_P [OF checks(3)] ..
qed

lemma connect_payload_builds:
  assumes pkt: "contains pkt (connect_head @ 0 # be16 (keepAliveInterval opts))" and ok: "fields_ok opts"
    and c: "clientId opts = Some c" "length c \<le> USHRT_MAX" and fits: "length (connect_body opts) \<le> MAX_REMAINING"
  shows "builds h (constructConnPayload pkt opts h) (connect_body opts)"
proof -
  let ?post = "be16 (keepAliveInterval opts)"
  let ?xs = "connect_head @ 0 # ?post"
  let ?n = "length (field (clientId opts) @ connect_fields opts)"
  have total: "conn_total_len opts = ?n"
    by (rule conn_total_len_fields [OF ok, of c]) (use fits c in \<open>simp_all add: connect_body_def MAX_REMAINING_def\<close>)
  have cl: "field (clientId opts) = utf c" "opt_len (clientId opts) = length c" using c by (simp_all add: field_def opt_len_def)
  have "0 < ?n" "length ?xs + ?n < 2 ^ 31"
    using fits cl by (simp_all add: connect_body_def MAX_REMAINING_def)
  with pkt show ?thesis
  proof (cases rule: enlarge_cases [where h = h])
    case (fails pkt' h')
    with c(2) total cl show ?thesis by (simp add: connPayload_unfold [OF ok] builds_failure)
  next
    case (ok pkt' h')
    have "builds h (cbind (byteutil_writeUTF (Some c) (of_nat (length c)) (pkt', Some (length ?xs))) (\<lambda>w.
        cbind (conn_fields opts w) (\<lambda>(pkt2, _). Inr (MU_OK, pkt2, h')))) (connect_body opts)"
    proof (rule room_writeUTF [OF ok(3) c(2), where Q = "\<lambda>m. builds h m (connect_body opts)"])
      fix w assume "room w (?xs @ utf c) (?n - (length c + 2))"
      then have w: "conn w 0 (?post @ utf c) (?n - (length c + 2))" by (simp add: conn_def)
      have "?n - (length c + 2) = length (connect_fields opts)" by (simp add: cl)
      from conn_fields_spec [OF w assms(2) this] obtain w' where
        w': "conn_fields opts w = Inr w'" "conn w' (connect_flags opts) ((?post @ utf c) @ connect_fields opts) 0" .
      from room_done [OF w'(2) [unfolded conn_def]] have "contains (fst w') (connect_body opts)"
        by (simp add: connect_body_def cl)
      with w'(1) ok(4) show "builds h (cbind (conn_fields opts w) (\<lambda>(pkt2, _). Inr (MU_OK, pkt2, h'))) (connect_body opts)"
        by (cases w') (auto intro: builds_ok)
    qed (simp add: cl)
    with c total cl contains_length [OF pkt] ok(1,2) show ?thesis
      by (simp add: connPayload_unfold [OF assms(2)] advance_def)
  qed
qed

lemma connect_gives:
  assumes "fields_ok opts" "clientId opts = Some c" "length c \<le> USHRT_MAX" "length (connect_body opts) \<le> MAX_REMAINING"
  shows "gives h (mqtt_codec_connect (Some opts) h) (frame CONNECT_TYPE 0 (connect_body opts))"
  unfolding mqtt_codec_connect_def option.case
  apply (rule new_packet_gives [where f = "\<lambda>r h1. then_part (constructConnectVariableHeader r opts h1) (\<lambda>pkt h2.
              then_part (constructConnPayload pkt opts h2) (\<lambda>pkt h3.
              then_part (constructFixedHeader pkt CONNECT_TYPE 0 h3) packet_done))"])
  apply (rule then_part_gives [OF connect_header_builds], assumption)
  apply (rule then_part_gives [OF connect_payload_builds], assumption, rule assms(1), rule assms(2), rule assms(3), rule assms(4))
  apply (rule last_part_gives, rule fixed_header_builds)
  using assms(4) by (auto simp: connect_body_def)

section \<open>Where the code leaves its storage\<close>

lemma builds_runs:
  assumes "builds h m xs" "plenty h"
  obtains pkt h' where "m = Inr (MU_OK, pkt, h')" "contains pkt xs" "plenty h'"
  using assms by (auto simp: builds_def)

lemma plenty_new:
  assumes "plenty h"
  obtains b where "BUFFER_new h = (Some b, \<lambda>i. h (Suc i))" "contains (Some b) []"
  using assms by (cases rule: new_cases [of h]) auto

text \<open>
  A PUBLISH packet of 256 megabytes or more passes the check of its size, and the digits of its
  length overrun their array.
\<close>

lemma publish_too_long:
  assumes "length topic \<le> USHRT_MAX" "MAX_REMAINING < length (publish_body q i topic data)"
    "length (publish_body q i topic data) < 2 ^ 31" "plenty h"
  shows "mqtt_codec_publish q dup retain i (Some topic) (Some data) (length data) h = Inl Buffer_overflow"
proof -
  from plenty_new [OF assms(4)] obtain b where b: "BUFFER_new h = (Some b, \<lambda>i. h (Suc i))" "contains (Some b) []" .
  let ?xs = "utf topic @ packet_id q i"
  from builds_runs [OF publish_header_builds [OF b(2) assms(1)] plenty_next [OF assms(4)]] obtain p1 h1 where
    p1: "constructPublishVariableHeader (Some b) topic i q (\<lambda>i. h (Suc i)) = Inr (MU_OK, p1, h1)" "contains p1 ?xs" "plenty h1" .
  have len: "length ?xs + length data < 2 ^ 31" using assms(3) by (simp add: publish_body_def)
  from builds_runs [OF publish_payload_builds [OF p1(2) refl len] p1(3)] obtain p2 h2 where
    p2: "publish_payload p1 (Some data) (length data) h1 = Inr (MU_OK, p2, h2)" "contains p2 (?xs @ data)" .
  have "length data \<le> MAX_SEND_SIZE" using len by (simp add: MAX_SEND_SIZE_def)
  moreover have "remain_size (BUFFER_length p2) [] = Inl Buffer_overflow"
    using contains_length [OF p2(2)] assms(2) by (simp add: remain_size_overflow publish_body_def)
  ultimately show ?thesis
    by (simp add: mqtt_codec_publish_def b p1 p2 then_part_def constructFixedHeader_def)
qed

text \<open>Without a client id its two bytes are written but not counted.\<close>

lemma room_writeUTF_overflow:
  assumes "room w xs n" "length s \<le> USHRT_MAX" "n < length s + 2" "2 \<le> n"
  shows "byteutil_writeUTF (Some s) (of_nat (length s)) w = Inl Buffer_overflow"
proof -
  obtain w1 where w1: "byteutil_writeInt (of_nat (length s)) w = Inr w1" "room w1 (xs @ be16 (of_nat (length s))) (n - 2)"
    by (rule room_writeIntD [OF assms(1,4), where v = "of_nat (length s)"])
  have len: "unat (of_nat (length s) :: 16 word) = length s"
    using assms(2) by (simp add: unsigned_of_nat take_bit_nat_eq_self USHRT_MAX_def)
  have rd: "read_from (Some s) (length s) = Inr s" by (simp add: read_from_def)
  have "n - 2 < length s" using assms(3,4) by simp
  then show ?thesis using w1(1) room_overflow [OF w1(2), of s] len rd by (simp add: byteutil_writeUTF_def)
qed

lemma connect_no_client_id:
  assumes "clientId opts = None" "willTopic opts = None" "willMessage opts = None" "username opts = Some u"
    "2 \<le> length u" "length u \<le> USHRT_MAX" "password opts = None" "plenty h"
  shows "mqtt_codec_connect (Some opts) h = Inl Buffer_overflow"
proof -
  from plenty_new [OF assms(8)] obtain b where b: "BUFFER_new h = (Some b, \<lambda>i. h (Suc i))" "contains (Some b) []" .
  let ?post = "be16 (keepAliveInterval opts)"
  let ?xs = "connect_head @ 0 # ?post"
  from builds_runs [OF connect_header_builds [OF b(2)] plenty_next [OF assms(8)]] obtain p1 h1 where
    p1: "constructConnectVariableHeader (Some b) opts (\<lambda>i. h (Suc i)) = Inr (MU_OK, p1, h1)" "contains p1 ?xs" "plenty h1" .
  have ok: "fields_ok opts" using assms(2-7) by (auto simp: fields_ok_def field_ok_def)
  have cf: "field (clientId opts) @ connect_fields opts = utf u" using assms by (simp add: connect_fields_def field_def)
  have total: "conn_total_len opts = length u + 2"
    using conn_total_len_fields [OF ok, unfolded cf] assms(1,6) by (simp add: USHRT_MAX_def)
  have "0 < length u + 2" "length ?xs + (length u + 2) < 2 ^ 31"
    using assms(6) connect_head_length by (simp_all add: USHRT_MAX_def CONN_FLAG_BYTE_OFFSET_def)
  with p1(2) show ?thesis
  proof (cases rule: enlarge_cases [where h = h1])
    case (fails pkt' h')
    with p1(3) show ?thesis by simp
  next
    case (ok pkt' h')
    from room_writeIntD [OF ok(3), where v = 0] obtain w0 where
      w0: "byteutil_writeInt 0 (pkt', Some (length ?xs)) = Inr w0" "room w0 (?xs @ be16 0) (length u)" by auto
    from room_writeD [OF w0(2), of "[]"] obtain w1 where
      w1: "write_bytes [] w0 = Inr w1" "room w1 (?xs @ be16 0) (length u)" by auto
    then have cw: "conn w1 0 (?post @ be16 0) (length u)" by (simp add: conn_def)
    have first: "byteutil_writeUTF None 0 (pkt', Some (length ?xs)) = Inr w1"
      using w0(1) w1(1) by (simp add: byteutil_writeUTF_def read_from_def)
    from conn_flag [OF cw, of USERNAME_FLAG] obtain w2 where
      w2: "flag_then USERNAME_FLAG w1 = Inr w2" "conn w2 (USERNAME_FLAG OR 0) (?post @ be16 0) (length u)" .
    have "byteutil_writeUTF (Some u) (of_nat (length u)) w2 = Inl Buffer_overflow"
      by (rule room_writeUTF_overflow [OF w2(2) [unfolded conn_def] assms(6)]) (use assms(5) in simp_all)
    then have "conn_fields opts w1 = Inl Buffer_overflow"
      using w2(1) assms by (simp add: conn_fields_def opt_len_def flip: length_greater_0_conv)
    moreover have "opt_len (clientId opts) = 0" "opt_len (password opts) = 0" "opt_len (willTopic opts) = 0"
      "opt_len (willMessage opts) = 0" "opt_len (username opts) = length u"
      using assms by (simp_all add: opt_len_def)
    ultimately have "constructConnPayload p1 opts h1 = Inl Buffer_overflow"
      using ok(1,2) total first contains_length [OF p1(2)] assms(1,6) by (simp add: constructConnPayload_def Let_def advance_def)
    then show ?thesis by (simp add: mqtt_codec_connect_def b p1 then_part_def)
  qed
qed

end
