(* ===== verification/Mqtt_Receive.thy ===== *)
theory Mqtt_Receive
  imports Mqtt_Packets
begin

text \<open>
  The reception of MQTT packets (\<open>mqtt_codec_bytesReceived\<close> and what it calls in
  \<open>azure_iot_sdk/umqtt/src/mqtt_codec.c\<close>): a machine over the bytes of the stream that hands every
  complete packet to a callback.  What the packets built by \<open>Mqtt_Codec\<close> become, that the chunks
  the stream comes in do not matter, and that the machine stays inside its storage.
\<close>

section \<open>State\<close>

datatype CODEC_STATE_RESULT = CODEC_STATE_FIXED_HEADER | CODEC_STATE_VAR_HEADER | CODEC_STATE_PAYLOAD

record MQTTCODEC_INSTANCE =
  currPacket :: CONTROL_PACKET_TYPE
  codecState :: CODEC_STATE_RESULT
  bufferOffset :: nat
  headerFlags :: byte
  headerData :: BUFFER_HANDLE
  storeRemainLen :: "byte list"
  remainLenIndex :: nat

text \<open>
  The callback for a complete packet, with its context as a state \<open>'s\<close>; it may allocate.
\<close>

type_synonym 's callback = "CONTROL_PACKET_TYPE \<Rightarrow> byte \<Rightarrow> BUFFER_HANDLE \<Rightarrow> mem \<Rightarrow> 's \<Rightarrow> (mem \<times> 's) outcome"

type_synonym 's receiving = "(mu \<times> MQTTCODEC_INSTANCE \<times> mem \<times> 's) outcome"

definition clear_codec_data :: "MQTTCODEC_INSTANCE \<Rightarrow> MQTTCODEC_INSTANCE" where
  "clear_codec_data c = c\<lparr>currPacket := UNKNOWN_TYPE, codecState := CODEC_STATE_FIXED_HEADER, headerFlags := 0,
     bufferOffset := 0, headerData := None, storeRemainLen := replicate 4 0, remainLenIndex := 0\<rparr>"

definition mqtt_codec_reset :: "MQTTCODEC_INSTANCE option \<Rightarrow> MQTTCODEC_INSTANCE option" where
  "mqtt_codec_reset handle = map_option clear_codec_data handle"

definition mqtt_codec_create :: "mem \<Rightarrow> MQTTCODEC_INSTANCE option \<times> mem" where
  "mqtt_codec_create h =
    (if h 0 = None then None
     else Some \<lparr>currPacket = UNKNOWN_TYPE, codecState = CODEC_STATE_FIXED_HEADER, bufferOffset = 0, headerFlags = 0,
       headerData = None, storeRemainLen = replicate 4 0, remainLenIndex = 0\<rparr>, \<lambda>i. h (Suc i))"

section \<open>The fixed header\<close>

definition MAX_3_DIGIT_PACKET_SIZE :: nat where "MAX_3_DIGIT_PACKET_SIZE = 2097152"

text \<open>The type of the packet in the upper four bits, the flags in the lower four.\<close>

definition processControlPacketType :: "byte \<Rightarrow> CONTROL_PACKET_TYPE \<times> byte" where
  "processControlPacketType pktByte =
    (the (map_of (map (\<lambda>(t, v). (v, t)) packet_type_values) (pktByte AND 0xf0)), pktByte AND 0xf)"

definition valid_header :: "CONTROL_PACKET_TYPE \<Rightarrow> byte \<Rightarrow> bool" where
  "valid_header t flags =
    (if t \<in> {PACKET_INVALID1_TYPE, PACKET_INVALID2_TYPE} then False
     else if t \<in> {CONNECT_TYPE, CONNACK_TYPE, PUBACK_TYPE, PUBREC_TYPE, PUBCOMP_TYPE, SUBACK_TYPE, UNSUBACK_TYPE,
                  PINGREQ_TYPE, PINGRESP_TYPE, DISCONNECT_TYPE} then flags AND 0x0F = 0
     else if t \<in> {PUBREL_TYPE, SUBSCRIBE_TYPE, UNSUBSCRIBE_TYPE} then flags AND 0x0F = 0x02
     else True)"

text \<open>The length from its digits; None: the loop gives up.\<close>

fun total_len :: "byte list \<Rightarrow> nat \<Rightarrow> nat \<Rightarrow> nat option outcome" where
  "total_len [] multiplier acc = Inl Read_past_end"
| "total_len (encodeByte # es) multiplier acc =
    (let total1 = acc + unat (encodeByte AND 127) * multiplier;
         multiplier1 = multiplier * 128
     in if multiplier1 > MAX_3_DIGIT_PACKET_SIZE then Inr None
        else if encodeByte AND NEXT_128_CHUNK \<noteq> 0 then total_len es multiplier1 total1
        else Inr (Some total1))"

definition prepareheaderDataInfo :: "MQTTCODEC_INSTANCE \<Rightarrow> byte \<Rightarrow> mem \<Rightarrow> (mu \<times> MQTTCODEC_INSTANCE \<times> mem) outcome" where
  "prepareheaderDataInfo c remainLen h =
    cbind (write_at (storeRemainLen c) (remainLenIndex c) [remainLen]) (\<lambda>stored.
      let c1 = c\<lparr>storeRemainLen := stored, remainLenIndex := remainLenIndex c + 1\<rparr>
      in if remainLen \<le> 0x7f then
           cbind (total_len stored 1 0) (\<lambda>total.
             case total of
               None \<Rightarrow> Inr (MU_FAILURE, c1, h)
             | Some totalLen \<Rightarrow>
                 if totalLen > MAX_SEND_SIZE then Inr (MU_FAILURE, c1, h)
                 else (let c2 = c1\<lparr>codecState := CODEC_STATE_VAR_HEADER, remainLenIndex := 0,
                                   storeRemainLen := replicate 4 0\<rparr>
                       in if totalLen > 0 then
                            (case BUFFER_new h of
                               (None, h1) \<Rightarrow> Inr (MU_FAILURE, c2\<lparr>bufferOffset := 0, headerData := None\<rparr>, h1)
                             | (data, h1) \<Rightarrow>
                                 (case BUFFER_pre_build data totalLen h1 of (r, data1, h2) \<Rightarrow>
                                    Inr (r, c2\<lparr>bufferOffset := 0, headerData := data1\<rparr>, h2)))
                          else Inr (MU_OK, c2, h)))
         else if remainLenIndex c1 = 4 then Inr (MU_FAILURE, c1, h)
         else Inr (MU_OK, c1, h))"

section \<open>The machine\<close>

definition completePacketData :: "'s callback option \<Rightarrow> MQTTCODEC_INSTANCE \<Rightarrow> mem \<Rightarrow> 's \<Rightarrow>
    (MQTTCODEC_INSTANCE \<times> mem \<times> 's) outcome" where
  "completePacketData packetComplete c h s =
    cbind (case packetComplete of None \<Rightarrow> Inr (h, s)
           | Some cb \<Rightarrow> cb (currPacket c) (headerFlags c) (headerData c) h s) (\<lambda>(h1, s1).
      Inr (c\<lparr>currPacket := UNKNOWN_TYPE, codecState := CODEC_STATE_FIXED_HEADER, headerFlags := 0,
        headerData := None\<rparr>, h1, s1))"

definition completed :: "(MQTTCODEC_INSTANCE \<times> mem \<times> 's) outcome \<Rightarrow> 's receiving" where
  "completed m = cbind m (\<lambda>(c, h, s). Inr (MU_OK, c, h, s))"

definition packet_error :: "MQTTCODEC_INSTANCE \<Rightarrow> mem \<Rightarrow> 's \<Rightarrow> 's receiving" where
  "packet_error c h s = Inr (MU_FAILURE, c\<lparr>currPacket := PACKET_TYPE_ERROR\<rparr>, h, s)"

text \<open>A round of the loop: one byte, by the state the codec is in.\<close>

definition receive_fixed_header :: "'s callback option \<Rightarrow> MQTTCODEC_INSTANCE \<Rightarrow> byte \<Rightarrow> mem \<Rightarrow> 's \<Rightarrow> 's receiving" where
  "receive_fixed_header cb c b h s =
    (if currPacket c = UNKNOWN_TYPE then
       (let (t, flags) = processControlPacketType b;
            c1 = c\<lparr>currPacket := t, headerFlags := flags\<rparr>
        in if valid_header t flags then Inr (MU_OK, c1, h, s) else packet_error c1 h s)
     else
       cbind (prepareheaderDataInfo c b h) (\<lambda>(r, c1, h1).
         if r \<noteq> MU_OK then packet_error c1 h1 s
         else if currPacket c1 = PINGRESP_TYPE then
           (if b = 0 then completed (completePacketData cb c1 h1 s) else packet_error c1 h1 s)
         else Inr (MU_OK, c1, h1, s)))"

definition receive_var_header :: "'s callback option \<Rightarrow> MQTTCODEC_INSTANCE \<Rightarrow> byte \<Rightarrow> mem \<Rightarrow> 's \<Rightarrow> 's receiving" where
  "receive_var_header cb c b h s =
    (case headerData c of
       None \<Rightarrow> Inr (MU_OK, c\<lparr>codecState := CODEC_STATE_PAYLOAD\<rparr>, h, s)
     | Some d \<Rightarrow>
         if BUFFER_u_char (headerData c) = None then packet_error c h s
         else cbind (store_in d (bufferOffset c) [b]) (\<lambda>d1.
              let c1 = c\<lparr>headerData := Some d1, bufferOffset := bufferOffset c + 1\<rparr>
              in if bufferOffset c1 \<ge> BUFFER_length (headerData c1) then completed (completePacketData cb c1 h s)
                 else Inr (MU_OK, c1, h, s)))"

definition receive_byte :: "'s callback option \<Rightarrow> MQTTCODEC_INSTANCE \<Rightarrow> byte \<Rightarrow> mem \<Rightarrow> 's \<Rightarrow> 's receiving" where
  "receive_byte cb c b h s =
    (case codecState c of
       CODEC_STATE_FIXED_HEADER \<Rightarrow> receive_fixed_header cb c b h s
     | CODEC_STATE_VAR_HEADER \<Rightarrow> receive_var_header cb c b h s
     | CODEC_STATE_PAYLOAD \<Rightarrow> packet_error c h s)"

fun receive_loop :: "'s callback option \<Rightarrow> byte list \<Rightarrow> MQTTCODEC_INSTANCE \<Rightarrow> mem \<Rightarrow> 's \<Rightarrow> 's receiving" where
  "receive_loop cb [] c h s = Inr (MU_OK, c, h, s)"
| "receive_loop cb (b # bs) c h s =
    cbind (receive_byte cb c b h s) (\<lambda>(r, c1, h1, s1).
      if r = MU_OK then receive_loop cb bs c1 h1 s1 else Inr (r, c1, h1, s1))"

definition mqtt_codec_bytesReceived :: "'s callback option \<Rightarrow> MQTTCODEC_INSTANCE option \<Rightarrow> byte list option \<Rightarrow>
    mem \<Rightarrow> 's \<Rightarrow> (mu \<times> MQTTCODEC_INSTANCE option \<times> mem \<times> 's) outcome" where
  "mqtt_codec_bytesReceived cb handle data h s =
    (case handle of None \<Rightarrow> Inr (MU_FAILURE, None, h, s)
     | Some c \<Rightarrow>
         if data = None \<or> data = Some [] then Inr (MU_FAILURE, Some (c\<lparr>currPacket := PACKET_TYPE_ERROR\<rparr>), h, s)
         else cbind (receive_loop cb (the data) c h s) (\<lambda>(r, c1, h1, s1). Inr (r, Some c1, h1, s1)))"

section \<open>Digits of the length\<close>

lemma byte_digits:
  assumes "m < 128"
  shows "unat (of_nat m :: byte) = m" "(of_nat m :: byte) \<le> 0x7f" "unat (of_nat m AND 127 :: byte) = m"
    "unat ((of_nat m OR NEXT_128_CHUNK) AND 127 :: byte) = m" "of_nat m AND NEXT_128_CHUNK = (0 :: byte)"
    "(of_nat m OR NEXT_128_CHUNK) AND NEXT_128_CHUNK \<noteq> (0 :: byte)" "\<not> (of_nat m OR NEXT_128_CHUNK) \<le> (0x7f :: byte)"
proof -
  have "list_all (\<lambda>m. unat (of_nat m :: byte) = m \<and> (of_nat m :: byte) \<le> 0x7f \<and> unat (of_nat m AND 127 :: byte) = m \<and>
    unat ((of_nat m OR 0x80) AND 127 :: byte) = m \<and> of_nat m AND 0x80 = (0 :: byte) \<and>
    (of_nat m OR 0x80) AND 0x80 \<noteq> (0 :: byte) \<and> \<not> (of_nat m OR 0x80) \<le> (0x7f :: byte)) [0..<128]"
    by code_simp
  then have "\<forall>m < 128. unat (of_nat m :: byte) = m \<and> (of_nat m :: byte) \<le> 0x7f \<and> unat (of_nat m AND 127 :: byte) = m \<and>
    unat ((of_nat m OR 0x80) AND 127 :: byte) = m \<and> of_nat m AND 0x80 = (0 :: byte) \<and>
    (of_nat m OR 0x80) AND 0x80 \<noteq> (0 :: byte) \<and> \<not> (of_nat m OR 0x80) \<le> (0x7f :: byte)"
    unfolding list_all_iff by auto
  with assms show "unat (of_nat m :: byte) = m" "(of_nat m :: byte) \<le> 0x7f" "unat (of_nat m AND 127 :: byte) = m"
    "unat ((of_nat m OR NEXT_128_CHUNK) AND 127 :: byte) = m" "of_nat m AND NEXT_128_CHUNK = (0 :: byte)"
    "(of_nat m OR NEXT_128_CHUNK) AND NEXT_128_CHUNK \<noteq> (0 :: byte)" "\<not> (of_nat m OR NEXT_128_CHUNK) \<le> (0x7f :: byte)"
    unfolding NEXT_128_CHUNK_def by blast+
qed

lemma small_flags:
  fixes f :: byte
  assumes "f < 16"
  shows "f AND 0xF = f" "f AND 0xF0 = 0"
proof -
  have "list_all (\<lambda>m. (of_nat m :: byte) AND 0xF = of_nat m \<and> (of_nat m :: byte) AND 0xF0 = 0) [0..<16]" by code_simp
  then have all: "\<forall>m < 16. (of_nat m :: byte) AND 0xF = of_nat m \<and> (of_nat m :: byte) AND 0xF0 = 0"
    unfolding list_all_iff by auto
  have "unat f < 16" using assms by (simp add: word_less_nat_alt)
  with all have "(of_nat (unat f) :: byte) AND 0xF = of_nat (unat f) \<and> (of_nat (unat f) :: byte) AND 0xF0 = 0" by blast
  then show "f AND 0xF = f" "f AND 0xF0 = 0" by simp_all
qed

definition real_type :: "CONTROL_PACKET_TYPE \<Rightarrow> bool" where
  "real_type t \<longleftrightarrow> t \<notin> {PACKET_TYPE_ERROR, UNKNOWN_TYPE, PACKET_INVALID1_TYPE, PACKET_INVALID2_TYPE}"

lemma processControlPacketType_byte:
  assumes "real_type t" "f < 16"
  shows "processControlPacketType (type_byte t OR f) = (t, f)"
proof -
  have "(type_byte t OR f) AND 0xF0 = type_byte t AND 0xF0" "(type_byte t OR f) AND 0xF = type_byte t AND 0xF OR f"
    using small_flags [OF assms(2)] by (simp_all add: bit.conj_disj_distrib2)
  then show ?thesis using assms(1)
    by (cases t) (simp_all add: processControlPacketType_def packet_type_values_def type_byte_def real_type_def)
qed

lemma digits_1: "n < 128 \<Longrightarrow> digits n = [of_nat n]"
  by (simp add: digits.simps [of n])

lemma digits_more: "128 \<le> n \<Longrightarrow> digits n = (of_nat (n mod 128) OR NEXT_128_CHUNK) # digits (n div 128)"
  by (subst digits.simps) simp

lemma three_digits:
  assumes "n < MAX_3_DIGIT_PACKET_SIZE"
  obtains (one) "n < 128" "digits n = [of_nat n]"
  | (two) a b where "a < 128" "b < 128" "n = a + b * 128" "digits n = [of_nat a OR NEXT_128_CHUNK, of_nat b]"
  | (three) a b c where "a < 128" "b < 128" "c < 128" "n = a + b * 128 + c * 16384"
      "digits n = [of_nat a OR NEXT_128_CHUNK, of_nat b OR NEXT_128_CHUNK, of_nat c]"
proof -
  consider "n < 128" | "128 \<le> n" "n < 16384" | "16384 \<le> n" by linarith
  then show ?thesis
  proof cases
    case 1
    with one digits_1 show ?thesis by blast
  next
    case 2
    then have "n div 128 < 128" by simp
    with two [of "n mod 128" "n div 128"] 2 show ?thesis by (simp add: digits_more digits_1)
  next
    case 3
    then have d: "128 \<le> n div 128" "n div 128 div 128 < 128"
      using assms by (simp_all add: MAX_3_DIGIT_PACKET_SIZE_def)
    have "n = n mod 128 + n div 128 * 128" "n div 128 = n div 128 mod 128 + n div 128 div 128 * 128" by simp_all
    then have "n = n mod 128 + (n div 128 mod 128) * 128 + (n div 128 div 128) * 16384" by linarith
    with three [of "n mod 128" "n div 128 mod 128" "n div 128 div 128"] 3 d show ?thesis
      by (simp add: digits_more [of n] digits_more [of "n div 128"] digits_1)
  qed
qed

section \<open>One packet\<close>

definition codec_idle :: "MQTTCODEC_INSTANCE \<Rightarrow> bool" where
  "codec_idle c \<longleftrightarrow> currPacket c = UNKNOWN_TYPE \<and> codecState c = CODEC_STATE_FIXED_HEADER \<and> headerData c = None \<and>
     storeRemainLen c = replicate 4 0 \<and> remainLenIndex c = 0"

text \<open>The buffer that holds a complete content.\<close>

definition full :: "byte list \<Rightarrow> BUFFER_HANDLE" where
  "full body = Some \<lparr>buffer = Some body, bsize = length body\<rparr>"

lemma receive_loop_append:
  "receive_loop cb (xs @ ys) c h s =
    cbind (receive_loop cb xs c h s) (\<lambda>(r, c1, h1, s1).
      if r = MU_OK then receive_loop cb ys c1 h1 s1 else Inr (r, c1, h1, s1))"
proof (induction xs arbitrary: c h s)
  case (Cons x xs)
  show ?case
    by (cases "receive_byte cb c x h s") (auto simp: Cons.IH split: prod.splits)
qed simp

lemma high_digit:
  assumes "codecState c = CODEC_STATE_FIXED_HEADER" "currPacket c \<noteq> UNKNOWN_TYPE" "currPacket c \<noteq> PINGRESP_TYPE"
    "m < 128" "remainLenIndex c < 3" "length (storeRemainLen c) = 4"
  shows "receive_byte cb c (of_nat m OR NEXT_128_CHUNK) h s =
    Inr (MU_OK, c\<lparr>storeRemainLen := (storeRemainLen c)[remainLenIndex c := of_nat m OR NEXT_128_CHUNK],
      remainLenIndex := remainLenIndex c + 1\<rparr>, h, s)"
proof -
  have "write_at (storeRemainLen c) (remainLenIndex c) [of_nat m OR NEXT_128_CHUNK] =
      Inr ((storeRemainLen c)[remainLenIndex c := of_nat m OR NEXT_128_CHUNK])"
    using assms(5,6) by (simp add: write_at_def upd_conv_take_nth_drop)
  then show ?thesis using assms byte_digits(7) [OF assms(4)]
    by (simp add: receive_byte_def receive_fixed_header_def prepareheaderDataInfo_def)
qed

lemma last_digit:
  assumes "codecState c = CODEC_STATE_FIXED_HEADER" "currPacket c \<noteq> UNKNOWN_TYPE" "currPacket c \<noteq> PINGRESP_TYPE"
    "m < 128" "remainLenIndex c < 4" "length (storeRemainLen c) = 4" "0 < n" "n \<le> MAX_SEND_SIZE" "n < 2 ^ 31"
    "total_len ((storeRemainLen c)[remainLenIndex c := of_nat m]) 1 0 = Inr (Some n)"
    "h 0 \<noteq> None" "h 1 = Some g"
  shows "receive_byte cb c (of_nat m) h s =
    Inr (MU_OK, c\<lparr>codecState := CODEC_STATE_VAR_HEADER, bufferOffset := 0, storeRemainLen := replicate 4 0,
      remainLenIndex := 0, headerData := full (map g [0..<n])\<rparr>, \<lambda>i. h (Suc (Suc i)), s)"
proof -
  from assms(11) obtain g0 where "h 0 = Some g0" by auto
  moreover have "write_at (storeRemainLen c) (remainLenIndex c) [of_nat m] = Inr ((storeRemainLen c)[remainLenIndex c := of_nat m])"
    using assms(5,6) by (simp add: write_at_def upd_conv_take_nth_drop)
  ultimately show ?thesis using assms byte_digits(2) [OF assms(4)]
    by (simp add: receive_byte_def receive_fixed_header_def prepareheaderDataInfo_def Let_def BUFFER_new_def
        BUFFER_pre_build_def malloc_def full_def)
qed

lemma length_received:
  assumes "codecState c = CODEC_STATE_FIXED_HEADER" "currPacket c \<noteq> UNKNOWN_TYPE" "currPacket c \<noteq> PINGRESP_TYPE"
    "storeRemainLen c = replicate 4 0" "remainLenIndex c = 0" "0 < n" "n < MAX_3_DIGIT_PACKET_SIZE"
    "h 0 \<noteq> None" "h 1 = Some g"
  shows "receive_loop cb (digits n) c h s =
    Inr (MU_OK, c\<lparr>codecState := CODEC_STATE_VAR_HEADER, bufferOffset := 0, headerData := full (map g [0..<n])\<rparr>,
      \<lambda>i. h (Suc (Suc i)), s)"
proof -
  have n: "n \<le> MAX_SEND_SIZE" "n < 2 ^ 31" using assms(7) by (simp_all add: MAX_SEND_SIZE_def MAX_3_DIGIT_PACKET_SIZE_def)
  have r4: "replicate 4 (0 :: byte) = [0, 0, 0, 0]" by (simp add: numeral_eq_Suc)
  from assms(7) show ?thesis
  proof (cases rule: three_digits)
    case one
    have "total_len ([0, 0, 0, 0][0 := of_nat n]) 1 0 = Inr (Some n)"
      using byte_digits [OF one(1)] by (simp add: MAX_3_DIGIT_PACKET_SIZE_def Let_def)
    with one last_digit [of c n n h g cb s] assms n show ?thesis by (simp add: r4)
  next
    case (two a b)
    let ?c = "c\<lparr>storeRemainLen := [of_nat a OR NEXT_128_CHUNK, 0, 0, 0], remainLenIndex := 1\<rparr>"
    have "receive_byte cb c (of_nat a OR NEXT_128_CHUNK) h s = Inr (MU_OK, ?c, h, s)"
      using high_digit [of c a cb h s] two assms by (simp add: r4)
    moreover have "total_len ([of_nat a OR NEXT_128_CHUNK, 0, 0, 0][1 := of_nat b]) 1 0 = Inr (Some n)"
      using byte_digits [OF two(1)] byte_digits [OF two(2)] two(3) by (simp add: MAX_3_DIGIT_PACKET_SIZE_def Let_def)
    ultimately show ?thesis using last_digit [of ?c b n h g cb s] assms n two by (simp add: r4)
  next
    case (three a b d)
    let ?c = "c\<lparr>storeRemainLen := [of_nat a OR NEXT_128_CHUNK, 0, 0, 0], remainLenIndex := 1\<rparr>"
    let ?c2 = "c\<lparr>storeRemainLen := [of_nat a OR NEXT_128_CHUNK, of_nat b OR NEXT_128_CHUNK, 0, 0], remainLenIndex := 2\<rparr>"
    have "receive_byte cb c (of_nat a OR NEXT_128_CHUNK) h s = Inr (MU_OK, ?c, h, s)"
      using high_digit [of c a cb h s] three assms by (simp add: r4)
    moreover have "receive_byte cb ?c (of_nat b OR NEXT_128_CHUNK) h s = Inr (MU_OK, ?c2, h, s)"
      using high_digit [of ?c b cb h s] three assms by (simp add: numeral_2_eq_2)
    moreover have "total_len ([of_nat a OR NEXT_128_CHUNK, of_nat b OR NEXT_128_CHUNK, 0, 0][2 := of_nat d]) 1 0 = Inr (Some n)"
      using byte_digits [OF three(1)] byte_digits [OF three(2)] byte_digits [OF three(3)] three(4)
      by (simp add: MAX_3_DIGIT_PACKET_SIZE_def Let_def)
    ultimately show ?thesis using last_digit [of ?c2 d n h g cb s] assms n three by (simp add: r4)
  qed
qed

lemma content_received:
  assumes "codecState c = CODEC_STATE_VAR_HEADER" "headerData c = full (xs @ zs)" "bufferOffset c = length xs"
    "length ys = length zs" "ys \<noteq> []"
  shows "receive_loop cb ys c h s =
    completed (completePacketData cb (c\<lparr>headerData := full (xs @ ys), bufferOffset := length (xs @ ys)\<rparr>) h s)"
  using assms
proof (induction ys arbitrary: c xs zs)
  case (Cons y ys)
  obtain z zs' where zs: "zs = z # zs'" using Cons.prems(4) by (cases zs) auto
  let ?c = "c\<lparr>headerData := full ((xs @ [y]) @ zs'), bufferOffset := length (xs @ [y])\<rparr>"
  have d: "store_in \<lparr>buffer = Some (xs @ z # zs'), bsize = length (xs @ z # zs')\<rparr> (length xs) [y] =
      Inr \<lparr>buffer = Some ((xs @ [y]) @ zs'), bsize = length (xs @ z # zs')\<rparr>"
    by (simp add: store_in_def write_at_def)
  show ?case
  proof (cases "ys = []")
    case True
    with Cons.prems zs d show ?thesis
      by (cases "completePacketData cb ?c h s")
        (auto simp: receive_byte_def receive_var_header_def full_def BUFFER_u_char_def BUFFER_length_def Let_def
          completed_def)
  next
    case False
    then have "receive_byte cb c y h s = Inr (MU_OK, ?c, h, s)"
      using Cons.prems zs d
      by (auto simp: receive_byte_def receive_var_header_def full_def BUFFER_u_char_def BUFFER_length_def Let_def)
    moreover have "receive_loop cb ys ?c h s = completed (completePacketData cb
        (?c\<lparr>headerData := full ((xs @ [y]) @ ys), bufferOffset := length ((xs @ [y]) @ ys)\<rparr>) h s)"
      by (rule Cons.IH) (use Cons.prems zs False in auto)
    ultimately show ?thesis by simp
  qed
qed simp

definition packet_ok :: "CONTROL_PACKET_TYPE \<Rightarrow> byte \<Rightarrow> byte list \<Rightarrow> bool" where
  "packet_ok t flags body \<longleftrightarrow> real_type t \<and> t \<noteq> PINGRESP_TYPE \<and> flags < 16 \<and> valid_header t flags \<and> body \<noteq> [] \<and>
     length body < MAX_3_DIGIT_PACKET_SIZE"

lemma frame_received:
  assumes "codec_idle c" "packet_ok t flags body" "h 0 \<noteq> None" "h 1 \<noteq> None"
  shows "receive_loop cb (frame t flags body) c h s =
    completed (completePacketData cb (c\<lparr>currPacket := t, headerFlags := flags, codecState := CODEC_STATE_VAR_HEADER,
      headerData := full body, bufferOffset := length body\<rparr>) (\<lambda>i. h (Suc (Suc i))) s)"
proof -
  from assms(4) obtain g where g: "h 1 = Some g" by auto
  note ok = assms(2) [unfolded packet_ok_def]
  let ?c1 = "c\<lparr>currPacket := t, headerFlags := flags\<rparr>"
  have t: "t \<noteq> UNKNOWN_TYPE" using ok by (auto simp: real_type_def)
  have first: "receive_byte cb c (type_byte t OR flags) h s = Inr (MU_OK, ?c1, h, s)"
    using assms(1) ok processControlPacketType_byte [of t flags]
    by (simp add: receive_byte_def receive_fixed_header_def codec_idle_def)
  let ?c2 = "?c1\<lparr>codecState := CODEC_STATE_VAR_HEADER, bufferOffset := 0, headerData := full (map g [0..<length body])\<rparr>"
  have "receive_loop cb (digits (length body)) ?c1 h s = Inr (MU_OK, ?c2, \<lambda>i. h (Suc (Suc i)), s)"
    by (rule length_received) (use assms(1,3) ok t g in \<open>auto simp: codec_idle_def\<close>)
  moreover have "receive_loop cb body ?c2 (\<lambda>i. h (Suc (Suc i))) s = completed (completePacketData cb
      (?c2\<lparr>headerData := full ([] @ body), bufferOffset := length ([] @ body)\<rparr>) (\<lambda>i. h (Suc (Suc i))) s)"
    by (rule content_received [where zs = "map g [0..<length body]"]) (use ok in \<open>simp_all add: full_def\<close>)
  ultimately show ?thesis using first by (simp add: frame_def receive_loop_append)
qed

end
