(* ===== verification/Mqtt_Message.thy ===== *)
theory Mqtt_Message
  imports Mqtt_Codec
begin

text \<open>
  Messages (\<open>azure_iot_sdk/umqtt/src/mqtt_message.c\<close>): created with copies of topic and content, or
  in place, with pointers to those of the caller.
\<close>

record APP_PAYLOAD =
  message :: "byte list option"
  plength :: nat

record MQTT_MESSAGE =
  packetId :: "16 word"
  qosInfo :: QOS_VALUE
  topicName :: "cstr option"
  appPayload :: APP_PAYLOAD
  const_topic_name :: "cstr option"
  const_payload :: APP_PAYLOAD
  isDuplicateMsg :: bool
  isMessageRetained :: bool

definition no_payload :: APP_PAYLOAD where
  "no_payload = \<lparr>message = None, plength = 0\<rparr>"

definition create_msg_object :: "16 word \<Rightarrow> QOS_VALUE \<Rightarrow> mem \<Rightarrow> MQTT_MESSAGE option \<times> mem" where
  "create_msg_object pid qosValue h =
    (if h 0 = None then None
     else Some \<lparr>packetId = pid, qosInfo = qosValue, topicName = None, appPayload = no_payload,
       const_topic_name = None, const_payload = no_payload, isDuplicateMsg = False, isMessageRetained = False\<rparr>,
     \<lambda>i. h (Suc i))"

definition mqttmessage_create_in_place :: "16 word \<Rightarrow> cstr option \<Rightarrow> QOS_VALUE \<Rightarrow> byte list option \<Rightarrow> nat \<Rightarrow> mem \<Rightarrow>
    MQTT_MESSAGE option \<times> mem" where
  "mqttmessage_create_in_place pid topic qosValue appMsg appMsgLength h =
    (if topic = None then (None, h)
     else case create_msg_object pid qosValue h of
       (None, h1) \<Rightarrow> (None, h1)
     | (Some m, h1) \<Rightarrow>
         (Some (m\<lparr>const_topic_name := topic,
            const_payload := \<lparr>message = if appMsgLength > 0 then appMsg else None, plength = appMsgLength\<rparr>\<rparr>), h1))"

text \<open>\<open>mallocAndStrcpy_s\<close> of \<open>crt_abstractions.c\<close>, for a source that is not NULL: the copy.\<close>

definition mallocAndStrcpy_s :: "cstr \<Rightarrow> mem \<Rightarrow> cstr option \<times> mem" where
  "mallocAndStrcpy_s source h = (case malloc (length source + 1) h of (q, h1) \<Rightarrow> (map_option (\<lambda>_. source) q, h1))"

definition mqttmessage_create :: "16 word \<Rightarrow> cstr option \<Rightarrow> QOS_VALUE \<Rightarrow> byte list option \<Rightarrow> nat \<Rightarrow> mem \<Rightarrow>
    (MQTT_MESSAGE option \<times> mem) outcome" where
  "mqttmessage_create pid topic qosValue appMsg appMsgLength h =
    (case topic of None \<Rightarrow> Inr (None, h)
     | Some t \<Rightarrow>
         (case create_msg_object pid qosValue h of
            (None, h1) \<Rightarrow> Inr (None, h1)
          | (Some m, h1) \<Rightarrow>
              (case mallocAndStrcpy_s t h1 of
                 (None, h2) \<Rightarrow> Inr (None, h2)
               | (Some copy, h2) \<Rightarrow>
                   if appMsgLength > 0 then
                     (case malloc appMsgLength h2 of
                        (None, h3) \<Rightarrow> Inr (None, h3)
                      | (Some _, h3) \<Rightarrow>
                          cbind (read_from appMsg appMsgLength) (\<lambda>bs.
                            Inr (Some (m\<lparr>topicName := Some copy,
                              appPayload := \<lparr>message = Some bs, plength = appMsgLength\<rparr>\<rparr>), h3)))
                   else Inr (Some (m\<lparr>topicName := Some copy, appPayload := no_payload\<rparr>), h2))))"

definition mqttmessage_clone :: "MQTT_MESSAGE option \<Rightarrow> mem \<Rightarrow> (MQTT_MESSAGE option \<times> mem) outcome" where
  "mqttmessage_clone handle h =
    (case handle of None \<Rightarrow> Inr (None, h)
     | Some m \<Rightarrow>
         cbind (mqttmessage_create (packetId m) (topicName m) (qosInfo m) (message (appPayload m))
                  (plength (appPayload m)) h) (\<lambda>(result, h1).
           Inr (map_option (\<lambda>r. r\<lparr>isDuplicateMsg := isDuplicateMsg m, isMessageRetained := isMessageRetained m\<rparr>) result,
                h1)))"

definition mqttmessage_getPacketId :: "MQTT_MESSAGE option \<Rightarrow> 16 word" where
  "mqttmessage_getPacketId handle = (case handle of None \<Rightarrow> 0 | Some m \<Rightarrow> packetId m)"

definition mqttmessage_getTopicName :: "MQTT_MESSAGE option \<Rightarrow> cstr option" where
  "mqttmessage_getTopicName handle =
    (case handle of None \<Rightarrow> None
     | Some m \<Rightarrow> if topicName m = None then const_topic_name m else topicName m)"

definition mqttmessage_getQosType :: "MQTT_MESSAGE option \<Rightarrow> QOS_VALUE" where
  "mqttmessage_getQosType handle = (case handle of None \<Rightarrow> DELIVER_AT_MOST_ONCE | Some m \<Rightarrow> qosInfo m)"

definition mqttmessage_getIsDuplicateMsg :: "MQTT_MESSAGE option \<Rightarrow> bool" where
  "mqttmessage_getIsDuplicateMsg handle = (case handle of None \<Rightarrow> False | Some m \<Rightarrow> isDuplicateMsg m)"

definition mqttmessage_getIsRetained :: "MQTT_MESSAGE option \<Rightarrow> bool" where
  "mqttmessage_getIsRetained handle = (case handle of None \<Rightarrow> False | Some m \<Rightarrow> isMessageRetained m)"

definition mqttmessage_setIsDuplicateMsg :: "MQTT_MESSAGE option \<Rightarrow> bool \<Rightarrow> mu \<times> MQTT_MESSAGE option" where
  "mqttmessage_setIsDuplicateMsg handle duplicateMsg =
    (case handle of None \<Rightarrow> (MU_FAILURE, None) | Some m \<Rightarrow> (MU_OK, Some (m\<lparr>isDuplicateMsg := duplicateMsg\<rparr>)))"

definition mqttmessage_setIsRetained :: "MQTT_MESSAGE option \<Rightarrow> bool \<Rightarrow> mu \<times> MQTT_MESSAGE option" where
  "mqttmessage_setIsRetained handle retainMsg =
    (case handle of None \<Rightarrow> (MU_FAILURE, None) | Some m \<Rightarrow> (MU_OK, Some (m\<lparr>isMessageRetained := retainMsg\<rparr>)))"

definition mqttmessage_getApplicationMsg :: "MQTT_MESSAGE option \<Rightarrow> APP_PAYLOAD option" where
  "mqttmessage_getApplicationMsg handle =
    (case handle of None \<Rightarrow> None
     | Some m \<Rightarrow> Some (if plength (const_payload m) > 0 then const_payload m else appPayload m))"

end
