(* ===== verification/Mqtt_Client.thy ===== *)
theory Mqtt_Client
  imports Mqtt_Receive Mqtt_Message
begin

text \<open>
  The MQTT client (\<open>azure_iot_sdk/umqtt/src/mqtt_client.c\<close>): it builds packets with the codec, sends
  them through an \<open>xio\<close>, and turns what the codec receives into calls of its user's callbacks.
\<close>

section \<open>State\<close>

definition MQTT_STATUS_CLIENT_CONNECTED :: "16 word" where "MQTT_STATUS_CLIENT_CONNECTED = 0x0001"
definition MQTT_STATUS_SOCKET_CONNECTED :: "16 word" where "MQTT_STATUS_SOCKET_CONNECTED = 0x0002"
definition MQTT_STATUS_PENDING_CLOSE :: "16 word" where "MQTT_STATUS_PENDING_CLOSE = 0x0004"

definition RETAIN_FLAG_MASK :: byte where "RETAIN_FLAG_MASK = 0x1"
definition QOS_LEAST_ONCE_FLAG_MASK :: byte where "QOS_LEAST_ONCE_FLAG_MASK = 0x2"
definition DUPLICATE_FLAG_MASK :: byte where "DUPLICATE_FLAG_MASK = 0x8"
definition DEFAULT_MAX_PING_RESPONSE_TIME :: "16 word" where "DEFAULT_MAX_PING_RESPONSE_TIME = 80"
definition MAX_CLOSE_RETRIES :: nat where "MAX_CLOSE_RETRIES = 20"

datatype CONNECT_RETURN_CODE =
    CONNECTION_ACCEPTED | CONN_REFUSED_UNACCEPTABLE_VERSION | CONN_REFUSED_ID_REJECTED | CONN_REFUSED_SERVER_UNAVAIL
  | CONN_REFUSED_BAD_USERNAME_PASSWORD | CONN_REFUSED_NOT_AUTHORIZED | CONN_REFUSED_UNKNOWN

datatype MQTT_CLIENT_EVENT_ERROR =
    MQTT_CLIENT_CONNECTION_ERROR | MQTT_CLIENT_PARSE_ERROR | MQTT_CLIENT_MEMORY_ERROR
  | MQTT_CLIENT_COMMUNICATION_ERROR | MQTT_CLIENT_NO_PING_RESPONSE | MQTT_CLIENT_UNKNOWN_ERROR

text \<open>\<open>MQTT_CLIENT_EVENT_RESULT\<close>, each with the structure its \<open>msgInfo\<close> points to.\<close>

datatype MQTT_CLIENT_EVENT =
    MQTT_CLIENT_ON_CONNACK bool CONNECT_RETURN_CODE
  | MQTT_CLIENT_ON_PUBLISH_ACK "16 word"
  | MQTT_CLIENT_ON_PUBLISH_RECV "16 word"
  | MQTT_CLIENT_ON_PUBLISH_REL "16 word"
  | MQTT_CLIENT_ON_PUBLISH_COMP "16 word"
  | MQTT_CLIENT_ON_SUBSCRIBE_ACK "16 word" "QOS_VALUE list"
  | MQTT_CLIENT_ON_UNSUBSCRIBE_ACK "16 word"
  | MQTT_CLIENT_ON_PING_RESPONSE
  | MQTT_CLIENT_ON_DISCONNECT

text \<open>A call of a callback of the user.\<close>

datatype notice =
    Message MQTT_MESSAGE
  | Operation MQTT_CLIENT_EVENT
  | Failed MQTT_CLIENT_EVENT_ERROR
  | Disconnected

text \<open>
  The client without its codec.  \<open>xioHandle\<close>, \<open>fnOnErrorCallBack\<close> and \<open>disconnect_cb\<close> tell whether the
  pointers are set.  The last fields are the world: the readings of the tick counter to come (None:
  it fails), whether the sends to come succeed, after how many polls an \<open>xio\<close> that is being closed
  reports it (None: not at all), the packets sent and the callbacks called, latest first.
\<close>

record MQTT_CLIENT =
  xioHandle :: bool
  packetState :: CONTROL_PACKET_TYPE
  packetSendTimeMs :: "64 word"
  fnOnErrorCallBack :: bool
  disconnect_cb :: bool
  qosValue :: QOS_VALUE
  keepAlive :: "16 word"
  mqttOptions :: MQTT_CLIENT_OPTIONS
  mqtt_status :: "16 word"
  timeSincePing :: "64 word"
  maxPingRespTime :: "16 word"
  ticks :: "nat \<Rightarrow> 64 word option"
  sends :: "nat \<Rightarrow> bool"
  closes :: "nat \<Rightarrow> nat option"
  sent :: "byte list list"
  told :: "notice list"

definition tell :: "notice \<Rightarrow> MQTT_CLIENT \<Rightarrow> MQTT_CLIENT" where
  "tell n m = m\<lparr>told := n # told m\<rparr>"

definition has_status :: "16 word \<Rightarrow> MQTT_CLIENT \<Rightarrow> bool" where
  "has_status f m \<longleftrightarrow> mqtt_status m AND f \<noteq> 0"

definition set_status :: "16 word \<Rightarrow> MQTT_CLIENT \<Rightarrow> MQTT_CLIENT" where
  "set_status f m = m\<lparr>mqtt_status := mqtt_status m OR f\<rparr>"

definition clear_status :: "16 word \<Rightarrow> MQTT_CLIENT \<Rightarrow> MQTT_CLIENT" where
  "clear_status f m = m\<lparr>mqtt_status := mqtt_status m AND NOT f\<rparr>"

section \<open>Closing and errors\<close>

definition on_connection_closed :: "MQTT_CLIENT \<Rightarrow> MQTT_CLIENT" where
  "on_connection_closed m =
    (let m1 = clear_status MQTT_STATUS_SOCKET_CONNECTED m
     in if disconnect_cb m1 then tell Disconnected m1 else m1)"

text \<open>The concrete transport behind an \<open>xio\<close> is what the streams say; without one, nothing is done.\<close>

definition xio_close :: "MQTT_CLIENT \<Rightarrow> nat option \<times> MQTT_CLIENT" where
  "xio_close m = (if xioHandle m then (closes m 0, m\<lparr>closes := \<lambda>i. closes m (Suc i)\<rparr>) else (None, m))"

definition xio_send :: "byte list \<Rightarrow> MQTT_CLIENT \<Rightarrow> mu \<times> MQTT_CLIENT" where
  "xio_send data m =
    (if xioHandle m then
       (let m1 = m\<lparr>sends := \<lambda>i. sends m (Suc i)\<rparr>
        in if sends m 0 then (MU_OK, m1\<lparr>sent := data # sent m1\<rparr>) else (MU_FAILURE, m1))
     else (MU_FAILURE, m))"

text \<open>
  \<open>xio_close\<close> may call back at once; without a callback of its own to wait for, the client polls
  the \<open>xio\<close> up to \<open>MAX_CLOSE_RETRIES\<close> times.
\<close>

definition close_connection :: "MQTT_CLIENT \<Rightarrow> MQTT_CLIENT" where
  "close_connection m =
    (if has_status MQTT_STATUS_SOCKET_CONNECTED m then
       (let (polls, m1) = xio_close m;
            m2 = (if polls = Some 0 then on_connection_closed m1 else m1);
            m3 = (if \<not> disconnect_cb m2 then
                    (case polls of Some (Suc n) \<Rightarrow> if Suc n \<le> MAX_CLOSE_RETRIES then on_connection_closed m2 else m2
                     | _ \<Rightarrow> m2)
                  else m2)
        in m3\<lparr>xioHandle := False\<rparr>)
     else
       (let m1 = clear_status MQTT_STATUS_SOCKET_CONNECTED m
        in if disconnect_cb m1 then tell Disconnected m1 else m1))"

definition set_error_callback :: "MQTT_CLIENT_EVENT_ERROR \<Rightarrow> MQTT_CLIENT \<Rightarrow> MQTT_CLIENT" where
  "set_error_callback e m = close_connection (if fnOnErrorCallBack m then tell (Failed e) m else m)"

section \<open>Sending\<close>

definition tickcounter_get_current_ms :: "MQTT_CLIENT \<Rightarrow> 64 word option \<times> MQTT_CLIENT" where
  "tickcounter_get_current_ms m = (ticks m 0, m\<lparr>ticks := \<lambda>i. ticks m (Suc i)\<rparr>)"

definition sendPacketItem :: "byte list \<Rightarrow> MQTT_CLIENT \<Rightarrow> mu \<times> MQTT_CLIENT" where
  "sendPacketItem data m =
    (case tickcounter_get_current_ms m of
       (None, m1) \<Rightarrow> (MU_FAILURE, m1)
     | (Some t, m1) \<Rightarrow> xio_send data (m1\<lparr>packetSendTimeMs := t\<rparr>))"

text \<open>The bytes of a packet that \<open>xio_send\<close> gets: as many as the buffer says it has.\<close>

definition packet_bytes :: "BUFFER_HANDLE \<Rightarrow> byte list outcome" where
  "packet_bytes pkt = (case pkt of None \<Rightarrow> Inr [] | Some b \<Rightarrow> read_from (buffer b) (BUFFER_length pkt))"

definition send_packet :: "BUFFER_HANDLE \<Rightarrow> MQTT_CLIENT \<Rightarrow> (mu \<times> MQTT_CLIENT) outcome" where
  "send_packet pkt m = cbind (packet_bytes pkt) (\<lambda>bs. Inr (sendPacketItem bs m))"

section \<open>Reading from a packet\<close>

text \<open>A pointer into a packet is what follows it.\<close>

definition byteutil_read_uint16 :: "byte list \<Rightarrow> nat \<Rightarrow> (16 word \<times> byte list) outcome" where
  "byteutil_read_uint16 it byteLen =
    (if byteLen \<ge> 2 then
       (case it of b0 # b1 # rest \<Rightarrow> Inr (256 * ucast b0 + ucast b1, rest) | _ \<Rightarrow> Inl Read_past_end)
     else Inr (0, it))"

definition byteutil_readByte :: "byte list \<Rightarrow> (byte \<times> byte list) outcome" where
  "byteutil_readByte it = (case it of [] \<Rightarrow> Inl Read_past_end | b # rest \<Rightarrow> Inr (b, rest))"

definition byteutil_readUTF :: "byte list \<Rightarrow> nat \<Rightarrow> mem \<Rightarrow> (cstr option \<times> byte list \<times> nat \<times> mem) outcome" where
  "byteutil_readUTF it byteLen h =
    cbind (byteutil_read_uint16 it byteLen) (\<lambda>(stringLen, it1).
      if stringLen > 0 \<and> unat stringLen + (length it - length it1) \<le> byteLen then
        (case malloc (unat stringLen + 1) h of
           (None, h1) \<Rightarrow> Inr (None, it1, byteLen, h1)
         | (Some _, h1) \<Rightarrow>
             cbind (read_from (Some it1) (unat stringLen)) (\<lambda>text.
               Inr (Some text, drop (unat stringLen) it1, unat stringLen, h1)))
      else Inr (None, it1, byteLen, h))"

section \<open>What is done with a packet\<close>

type_synonym handled = "(mem \<times> MQTT_CLIENT) outcome"

text \<open>A reply is sent unless it could not be built, which is an error, as is a send that fails.\<close>

definition reply_with :: "(mem \<Rightarrow> packet) \<Rightarrow> mem \<Rightarrow> MQTT_CLIENT \<Rightarrow> handled" where
  "reply_with build h m =
    cbind (build h) (\<lambda>(pubRel, h1).
      if pubRel = None then Inr (h1, set_error_callback MQTT_CLIENT_MEMORY_ERROR m)
      else cbind (send_packet pubRel m) (\<lambda>(r, m1).
        Inr (h1, if r \<noteq> MU_OK then set_error_callback MQTT_CLIENT_COMMUNICATION_ERROR m1 else m1)))"

definition publish_qos :: "byte \<Rightarrow> QOS_VALUE" where
  "publish_qos flags =
    (if flags = 0 then DELIVER_AT_MOST_ONCE
     else if flags AND QOS_LEAST_ONCE_FLAG_MASK \<noteq> 0 then DELIVER_AT_LEAST_ONCE else DELIVER_EXACTLY_ONCE)"

text \<open>The message, the copy of its topic and its content are the callback's only while it runs.\<close>

definition ProcessPublishMessage :: "byte list \<Rightarrow> nat \<Rightarrow> byte \<Rightarrow> mem \<Rightarrow> MQTT_CLIENT \<Rightarrow> handled" where
  "ProcessPublishMessage initialPos packetLength flags h m =
    (let isDuplicate = (flags AND DUPLICATE_FLAG_MASK \<noteq> 0);
         isRetain = (flags AND RETAIN_FLAG_MASK \<noteq> 0);
         qos = publish_qos flags
     in cbind (byteutil_readUTF initialPos packetLength h) (\<lambda>(topic, it1, _, h1).
        if topic = None then Inr (h1, set_error_callback MQTT_CLIENT_PARSE_ERROR m)
        else
          cbind (if qos \<noteq> DELIVER_AT_MOST_ONCE
                 then byteutil_read_uint16 it1 (packetLength - (length initialPos - length it1))
                 else Inr (0, it1)) (\<lambda>(pid, it2).
          if qos \<noteq> DELIVER_AT_MOST_ONCE \<and> pid = 0 then Inr (h1, set_error_callback MQTT_CLIENT_PARSE_ERROR m)
          else
            (case mqttmessage_create_in_place pid topic qos (Some it2) (packetLength - (length initialPos - length it2)) h1 of
               (None, h2) \<Rightarrow> Inr (h2, set_error_callback MQTT_CLIENT_MEMORY_ERROR m)
             | (msg, h2) \<Rightarrow>
                 (case mqttmessage_setIsDuplicateMsg msg isDuplicate of (r1, msg1) \<Rightarrow>
                  case mqttmessage_setIsRetained msg1 isRetain of (r2, msg2) \<Rightarrow>
                    if r1 \<noteq> MU_OK \<or> r2 \<noteq> MU_OK then Inr (h2, set_error_callback MQTT_CLIENT_MEMORY_ERROR m)
                    else
                      (let m1 = tell (Message (the msg2)) m
                       in if qos = DELIVER_EXACTLY_ONCE then reply_with (mqtt_codec_publishReceived pid) h2 m1
                          else if qos = DELIVER_AT_LEAST_ONCE then reply_with (mqtt_codec_publishAck pid) h2 m1
                          else Inr (h2, m1)))))))"

definition connack_code :: "byte \<Rightarrow> CONNECT_RETURN_CODE" where
  "connack_code rc =
    (if rc < 6 then
       [CONNECTION_ACCEPTED, CONN_REFUSED_UNACCEPTABLE_VERSION, CONN_REFUSED_ID_REJECTED, CONN_REFUSED_SERVER_UNAVAIL,
        CONN_REFUSED_BAD_USERNAME_PASSWORD, CONN_REFUSED_NOT_AUTHORIZED] ! unat rc
     else CONN_REFUSED_UNKNOWN)"

definition recv_connack :: "byte list \<Rightarrow> nat \<Rightarrow> mem \<Rightarrow> MQTT_CLIENT \<Rightarrow> handled" where
  "recv_connack it packetLength h m =
    (if packetLength \<noteq> 2 then Inr (h, set_error_callback MQTT_CLIENT_COMMUNICATION_ERROR m)
     else cbind (byteutil_readByte it) (\<lambda>(flags, it1).
       if flags AND 0xFE \<noteq> 0 then Inr (h, set_error_callback MQTT_CLIENT_COMMUNICATION_ERROR m)
       else cbind (byteutil_readByte it1) (\<lambda>(rc, _).
         let m1 = tell (Operation (MQTT_CLIENT_ON_CONNACK (flags = 0x1) (connack_code rc))) m
         in Inr (h, if connack_code rc = CONNECTION_ACCEPTED then set_status MQTT_STATUS_CLIENT_CONNECTED m1 else m1))))"

definition recv_puback :: "CONTROL_PACKET_TYPE \<Rightarrow> byte list \<Rightarrow> nat \<Rightarrow> mem \<Rightarrow> MQTT_CLIENT \<Rightarrow> handled" where
  "recv_puback packet it packetLength h m =
    (if packetLength \<noteq> 2 then Inr (h, set_error_callback MQTT_CLIENT_COMMUNICATION_ERROR m)
     else cbind (byteutil_read_uint16 it packetLength) (\<lambda>(pid, _).
       let action = (if packet = PUBACK_TYPE then MQTT_CLIENT_ON_PUBLISH_ACK pid
                     else if packet = PUBREC_TYPE then MQTT_CLIENT_ON_PUBLISH_RECV pid
                     else if packet = PUBREL_TYPE then MQTT_CLIENT_ON_PUBLISH_REL pid
                     else MQTT_CLIENT_ON_PUBLISH_COMP pid);
           m1 = tell (Operation action) m
       in if packet = PUBREC_TYPE then reply_with (mqtt_codec_publishRelease pid) h m1
          else if packet = PUBREL_TYPE then reply_with (mqtt_codec_publishComplete pid) h m1
          else Inr (h, m1)))"

text \<open>
  The return codes of a SUBACK, up to one with reserved bits, into an array of \<open>cap\<close> entries; then
  whether such a code was met.
\<close>

fun suback_codes :: "nat \<Rightarrow> nat \<Rightarrow> byte list \<Rightarrow> QOS_VALUE list \<Rightarrow> (QOS_VALUE list \<times> bool) outcome" where
  "suback_codes cap 0 it done = Inr (done, False)"
| "suback_codes cap (Suc remainLen) it done =
    cbind (byteutil_readByte it) (\<lambda>(qosRet, it1).
      if qosRet AND 0x7C \<noteq> 0 then Inr (done, True)
      else if length done \<ge> cap then Inl Buffer_overflow
      else suback_codes cap remainLen it1
             (done @ [if qosRet = 0 then DELIVER_AT_MOST_ONCE else if qosRet = 1 then DELIVER_AT_LEAST_ONCE
                      else if qosRet = 2 then DELIVER_EXACTLY_ONCE else DELIVER_FAILURE]))"

text \<open>\<open>remainLen\<close> is unsigned: from a packet of one byte, 2 cannot be taken.\<close>

definition recv_suback :: "byte list \<Rightarrow> nat \<Rightarrow> mem \<Rightarrow> MQTT_CLIENT \<Rightarrow> handled" where
  "recv_suback it packetLength h m =
    cbind (byteutil_read_uint16 it packetLength) (\<lambda>(pid, it1).
      let remainLen = (packetLength + (2 ^ 32 - 2)) mod 2 ^ 32;
          size = (4 * remainLen) mod 2 ^ 32
      in case malloc size h of
           (None, h1) \<Rightarrow> Inr (h1, set_error_callback MQTT_CLIENT_MEMORY_ERROR m)
         | (Some _, h1) \<Rightarrow>
             cbind (suback_codes (size div 4) remainLen it1 []) (\<lambda>(codes, bad).
               let m1 = (if bad then set_error_callback MQTT_CLIENT_COMMUNICATION_ERROR m else m)
               in Inr (h1, tell (Operation (MQTT_CLIENT_ON_SUBSCRIBE_ACK pid codes)) m1)))"

definition recv_unsuback :: "byte list \<Rightarrow> nat \<Rightarrow> mem \<Rightarrow> MQTT_CLIENT \<Rightarrow> handled" where
  "recv_unsuback it packetLength h m =
    (if packetLength \<noteq> 2 then Inr (h, set_error_callback MQTT_CLIENT_COMMUNICATION_ERROR m)
     else cbind (byteutil_read_uint16 it packetLength) (\<lambda>(pid, _).
       Inr (h, tell (Operation (MQTT_CLIENT_ON_UNSUBSCRIBE_ACK pid)) m)))"

definition recvCompleteCallback :: "CONTROL_PACKET_TYPE \<Rightarrow> byte \<Rightarrow> BUFFER_HANDLE \<Rightarrow> mem \<Rightarrow> MQTT_CLIENT \<Rightarrow> handled" where
  "recvCompleteCallback packet flags data h m =
    (let packetLength = BUFFER_length data;
         iterator = (if BUFFER_u_char data = None then None else Option.bind data buffer)
     in if iterator \<noteq> None \<and> packetLength > 0 \<or> packet = PINGRESP_TYPE then
          (let it = (case iterator of None \<Rightarrow> [] | Some xs \<Rightarrow> xs)
           in if packet = CONNACK_TYPE then recv_connack it packetLength h m
              else if packet = PUBLISH_TYPE then ProcessPublishMessage it packetLength flags h m
              else if packet \<in> {PUBACK_TYPE, PUBREC_TYPE, PUBREL_TYPE, PUBCOMP_TYPE} then recv_puback packet it packetLength h m
              else if packet = SUBACK_TYPE then recv_suback it packetLength h m
              else if packet = UNSUBACK_TYPE then recv_unsuback it packetLength h m
              else if packet = PINGRESP_TYPE then
                Inr (h, tell (Operation MQTT_CLIENT_ON_PING_RESPONSE) (m\<lparr>timeSincePing := 0\<rparr>))
              else Inr (h, m))
        else Inr (h, m))"

section \<open>What the transport reports\<close>

text \<open>The client with its codec.\<close>

type_synonym mqtt = "MQTTCODEC_INSTANCE option \<times> MQTT_CLIENT"

datatype IO_OPEN_RESULT = IO_OPEN_OK | IO_OPEN_ERROR | IO_OPEN_CANCELLED
datatype IO_SEND_RESULT = IO_SEND_OK | IO_SEND_ERROR | IO_SEND_CANCELLED

definition sendComplete :: "IO_SEND_RESULT \<Rightarrow> MQTT_CLIENT \<Rightarrow> MQTT_CLIENT" where
  "sendComplete send_result m =
    (if send_result = IO_SEND_OK then
       (if packetState m = DISCONNECT_TYPE
        then set_status MQTT_STATUS_PENDING_CLOSE (tell (Operation MQTT_CLIENT_ON_DISCONNECT) m) else m)
     else if send_result = IO_SEND_ERROR then set_error_callback MQTT_CLIENT_COMMUNICATION_ERROR m
     else m)"

definition onOpenComplete :: "IO_OPEN_RESULT \<Rightarrow> mem \<Rightarrow> MQTT_CLIENT \<Rightarrow> handled" where
  "onOpenComplete open_result h m =
    (if open_result = IO_OPEN_OK \<and> \<not> has_status MQTT_STATUS_SOCKET_CONNECTED m then
       (let m1 = set_status MQTT_STATUS_SOCKET_CONNECTED (m\<lparr>packetState := CONNECT_TYPE\<rparr>)
        in cbind (mqtt_codec_connect (Some (mqttOptions m1)) h) (\<lambda>(connPacket, h1).
           if connPacket = None then Inr (h1, m1)
           else cbind (send_packet connPacket m1) (\<lambda>(r, m2).
             Inr (h1,
               if r \<noteq> MU_OK then
                 set_status MQTT_STATUS_PENDING_CLOSE
                   (if fnOnErrorCallBack m2 then tell (Failed MQTT_CLIENT_CONNECTION_ERROR) m2 else m2)
               else m2))))
     else
       Inr (h, set_status MQTT_STATUS_PENDING_CLOSE
         (if \<not> has_status MQTT_STATUS_SOCKET_CONNECTED m \<and> fnOnErrorCallBack m
          then tell (Failed MQTT_CLIENT_CONNECTION_ERROR) m else m)))"

definition onBytesReceived :: "byte list \<Rightarrow> mem \<Rightarrow> mqtt \<Rightarrow> (mem \<times> mqtt) outcome" where
  "onBytesReceived data h cm =
    cbind (mqtt_codec_bytesReceived (Some recvCompleteCallback) (fst cm) (Some data) h (snd cm)) (\<lambda>(r, codec, h1, m).
      Inr (h1, if r \<noteq> MU_OK then (mqtt_codec_reset codec, set_error_callback MQTT_CLIENT_PARSE_ERROR m) else (codec, m)))"

definition onIoError :: "MQTT_CLIENT \<Rightarrow> MQTT_CLIENT" where
  "onIoError m = set_error_callback MQTT_CLIENT_CONNECTION_ERROR m"

text \<open>An \<open>xio\<close> calls back while it is worked on, never while it is in a call of the client.\<close>

datatype io_event =
    Open_complete IO_OPEN_RESULT
  | Bytes_received "byte list"
  | Send_complete IO_SEND_RESULT
  | Io_error
  | Connection_closed

fun handle_event :: "io_event \<Rightarrow> mem \<Rightarrow> mqtt \<Rightarrow> (mem \<times> mqtt) outcome" where
  "handle_event (Open_complete r) h cm = cbind (onOpenComplete r h (snd cm)) (\<lambda>(h1, m). Inr (h1, fst cm, m))"
| "handle_event (Bytes_received bs) h cm = onBytesReceived bs h cm"
| "handle_event (Send_complete r) h cm = Inr (h, fst cm, sendComplete r (snd cm))"
| "handle_event Io_error h cm = Inr (h, fst cm, onIoError (snd cm))"
| "handle_event Connection_closed h cm = Inr (h, fst cm, on_connection_closed (snd cm))"

fun xio_dowork :: "io_event list \<Rightarrow> mem \<Rightarrow> mqtt \<Rightarrow> (mem \<times> mqtt) outcome" where
  "xio_dowork [] h cm = Inr (h, cm)"
| "xio_dowork (e # es) h cm = cbind (handle_event e h cm) (\<lambda>(h1, cm1). xio_dowork es h1 cm1)"

section \<open>The calls of the user\<close>

definition no_options :: MQTT_CLIENT_OPTIONS where
  "no_options = \<lparr>clientId = None, willTopic = None, willMessage = None, username = None, password = None,
     keepAliveInterval = 0, messageRetain = False, useCleanSession = False, qualityOfServiceValue = DELIVER_AT_MOST_ONCE\<rparr>"

text \<open>
  The streams of the world are those of the new client; \<open>callbacks\<close>: the two callbacks that must be
  given are; \<open>counter\<close>: \<open>tickcounter_create\<close> succeeds.
\<close>

definition mqtt_client_init :: "bool \<Rightarrow> bool \<Rightarrow> bool \<Rightarrow> (nat \<Rightarrow> 64 word option) \<Rightarrow> (nat \<Rightarrow> bool) \<Rightarrow> (nat \<Rightarrow> nat option) \<Rightarrow> mem \<Rightarrow>
    mqtt option \<times> mem" where
  "mqtt_client_init callbacks onErrorCallBack counter ticks0 sends0 closes0 h =
    (if \<not> callbacks then (None, h)
     else if h 0 = None then (None, \<lambda>i. h (Suc i))
     else if \<not> counter then (None, \<lambda>i. h (Suc i))
     else (case mqtt_codec_create (\<lambda>i. h (Suc i)) of
             (None, h1) \<Rightarrow> (None, h1)
           | (codec, h1) \<Rightarrow>
               (Some (codec, \<lparr>xioHandle = False, packetState = UNKNOWN_TYPE, packetSendTimeMs = 0,
                  fnOnErrorCallBack = onErrorCallBack, disconnect_cb = False, qosValue = DELIVER_AT_MOST_ONCE,
                  keepAlive = 0, mqttOptions = no_options, mqtt_status = 0, timeSincePing = 0,
                  maxPingRespTime = DEFAULT_MAX_PING_RESPONSE_TIME, ticks = ticks0, sends = sends0, closes = closes0,
                  sent = [], told = []\<rparr>), h1)))"

definition mqtt_client_clear_xio :: "MQTT_CLIENT \<Rightarrow> MQTT_CLIENT" where
  "mqtt_client_clear_xio m = m\<lparr>xioHandle := False\<rparr>"

definition clear_mqtt_options :: "MQTT_CLIENT \<Rightarrow> MQTT_CLIENT" where
  "clear_mqtt_options m = m\<lparr>mqttOptions := (mqttOptions m)\<lparr>clientId := None, willTopic := None, willMessage := None,
     username := None, password := None\<rparr>\<rparr>"

text \<open>One text of the options: a copy replaces the old one.\<close>

definition clone_field :: "cstr option \<Rightarrow> cstr option \<Rightarrow> mem \<Rightarrow> mu \<times> cstr option \<times> mem" where
  "clone_field new old h =
    (case new of None \<Rightarrow> (MU_OK, old, h)
     | Some t \<Rightarrow> (case mallocAndStrcpy_s t h of (None, h1) \<Rightarrow> (MU_FAILURE, old, h1) | (Some c, h1) \<Rightarrow> (MU_OK, Some c, h1)))"

definition cloneMqttOptions :: "MQTT_CLIENT_OPTIONS \<Rightarrow> mem \<Rightarrow> MQTT_CLIENT \<Rightarrow> mu \<times> mem \<times> MQTT_CLIENT" where
  "cloneMqttOptions opts h m =
    (let old = mqttOptions m;
         (r1, c, h1) = clone_field (clientId opts) (clientId old) h;
         (r2, wt, h2) = (if r1 = MU_OK then clone_field (willTopic opts) (willTopic old) h1 else (r1, willTopic old, h1));
         (r3, wm, h3) = (if r2 = MU_OK then clone_field (willMessage opts) (willMessage old) h2 else (r2, willMessage old, h2));
         (r4, u, h4) = (if r3 = MU_OK then clone_field (username opts) (username old) h3 else (r3, username old, h3));
         (r5, p, h5) = (if r4 = MU_OK then clone_field (password opts) (password old) h4 else (r4, password old, h4));
         copied = old\<lparr>clientId := c, willTopic := wt, willMessage := wm, username := u, password := p\<rparr>
     in if r5 = MU_OK then
          (MU_OK, h5, m\<lparr>mqttOptions := copied\<lparr>keepAliveInterval := keepAliveInterval opts,
             messageRetain := messageRetain opts, useCleanSession := useCleanSession opts,
             qualityOfServiceValue := qualityOfServiceValue opts\<rparr>\<rparr>)
        else (MU_FAILURE, h5, clear_mqtt_options (m\<lparr>mqttOptions := copied\<rparr>)))"

text \<open>\<open>xio\<close>: the transport is given; \<open>opens\<close>: what \<open>xio_open\<close> answers.\<close>

definition mqtt_client_connect :: "bool \<Rightarrow> MQTT_CLIENT_OPTIONS option \<Rightarrow> bool \<Rightarrow> mem \<Rightarrow> MQTT_CLIENT \<Rightarrow> mu \<times> mem \<times> MQTT_CLIENT" where
  "mqtt_client_connect xio options opens h m =
    (case options of None \<Rightarrow> (MU_FAILURE, h, m)
     | Some opts \<Rightarrow>
         if \<not> xio then (MU_FAILURE, h, m)
         else
           (let half = keepAliveInterval opts div 2;
                m1 = m\<lparr>xioHandle := True, packetState := UNKNOWN_TYPE, qosValue := qualityOfServiceValue opts,
                  keepAlive := keepAliveInterval opts,
                  maxPingRespTime := (if DEFAULT_MAX_PING_RESPONSE_TIME < half then DEFAULT_MAX_PING_RESPONSE_TIME else half)\<rparr>
            in case cloneMqttOptions opts h m1 of
                 (MU_FAILURE, h1, m2) \<Rightarrow> (MU_FAILURE, h1, m2)
               | (MU_OK, h1, m2) \<Rightarrow>
                   if \<not> opens then (MU_FAILURE, h1, clear_mqtt_options (m2\<lparr>xioHandle := False\<rparr>))
                   else (MU_OK, h1, m2)))"

text \<open>A packet is sent, after the state has become that of its type.\<close>

definition send_built :: "CONTROL_PACKET_TYPE \<Rightarrow> packet \<Rightarrow> MQTT_CLIENT \<Rightarrow> (mu \<times> mem \<times> MQTT_CLIENT) outcome" where
  "send_built t built m =
    cbind built (\<lambda>(pkt, h1).
      if pkt = None then Inr (MU_FAILURE, h1, m)
      else cbind (send_packet pkt (m\<lparr>packetState := t\<rparr>)) (\<lambda>(r, m1). Inr (r, h1, m1)))"

definition mqtt_client_publish :: "MQTT_MESSAGE option \<Rightarrow> mem \<Rightarrow> MQTT_CLIENT \<Rightarrow> (mu \<times> mem \<times> MQTT_CLIENT) outcome" where
  "mqtt_client_publish msgHandle h m =
    (if msgHandle = None then Inr (MU_FAILURE, h, m)
     else (case mqttmessage_getApplicationMsg msgHandle of
             None \<Rightarrow> Inr (MU_FAILURE, h, m)
           | Some payload \<Rightarrow>
               send_built PUBLISH_TYPE
                 (mqtt_codec_publish (mqttmessage_getQosType msgHandle) (mqttmessage_getIsDuplicateMsg msgHandle)
                    (mqttmessage_getIsRetained msgHandle) (mqttmessage_getPacketId msgHandle)
                    (mqttmessage_getTopicName msgHandle) (message payload) (plength payload) h) m))"

definition mqtt_client_subscribe :: "16 word \<Rightarrow> (cstr \<times> QOS_VALUE) list option \<Rightarrow> mem \<Rightarrow> MQTT_CLIENT \<Rightarrow>
    (mu \<times> mem \<times> MQTT_CLIENT) outcome" where
  "mqtt_client_subscribe pid subscribeList h m =
    (if subscribeList = None \<or> subscribeList = Some [] \<or> pid = 0 then Inr (MU_FAILURE, h, m)
     else send_built SUBSCRIBE_TYPE (mqtt_codec_subscribe pid subscribeList h) m)"

definition mqtt_client_unsubscribe :: "16 word \<Rightarrow> cstr list option \<Rightarrow> mem \<Rightarrow> MQTT_CLIENT \<Rightarrow>
    (mu \<times> mem \<times> MQTT_CLIENT) outcome" where
  "mqtt_client_unsubscribe pid unsubscribeList h m =
    (if unsubscribeList = None \<or> unsubscribeList = Some [] \<or> pid = 0 then Inr (MU_FAILURE, h, m)
     else send_built UNSUBSCRIBE_TYPE (mqtt_codec_unsubscribe pid unsubscribeList h) m)"

definition mqtt_client_disconnect :: "bool \<Rightarrow> mem \<Rightarrow> MQTT_CLIENT \<Rightarrow> (mu \<times> mem \<times> MQTT_CLIENT) outcome" where
  "mqtt_client_disconnect callback h m =
    (if has_status MQTT_STATUS_CLIENT_CONNECTED m then
       cbind (mqtt_codec_disconnect h) (\<lambda>(pkt, h1).
         if pkt = None then Inr (MU_FAILURE, h1, clear_mqtt_options (m\<lparr>packetState := PACKET_TYPE_ERROR\<rparr>))
         else cbind (send_packet pkt (m\<lparr>disconnect_cb := callback, packetState := DISCONNECT_TYPE\<rparr>)) (\<lambda>(r, m1).
           Inr (r, h1, clear_mqtt_options m1)))
     else Inr (MU_OK, h, clear_mqtt_options (close_connection (m\<lparr>disconnect_cb := callback\<rparr>))))"

text \<open>The keep-alive part of \<open>mqtt_client_dowork\<close>.\<close>

definition keep_alive :: "mem \<Rightarrow> MQTT_CLIENT \<Rightarrow> handled" where
  "keep_alive h m =
    (case tickcounter_get_current_ms m of
       (None, m1) \<Rightarrow> Inr (h, m1)
     | (Some current_ms, m1) \<Rightarrow>
         if timeSincePing m1 > 0 \<and> (current_ms - timeSincePing m1) div 1000 > ucast (maxPingRespTime m1) then
           Inr (h, (set_error_callback MQTT_CLIENT_NO_PING_RESPONSE m1)
             \<lparr>timeSincePing := 0, packetSendTimeMs := 0, packetState := UNKNOWN_TYPE\<rparr>)
         else if (current_ms - packetSendTimeMs m1) div 1000 \<ge> ucast (keepAlive m1) then
           cbind (mqtt_codec_ping h) (\<lambda>(pingPacket, h1).
             if pingPacket = None then Inr (h1, m1)
             else cbind (send_packet pingPacket m1) (\<lambda>(_, m2).
               (case tickcounter_get_current_ms m2 of
                  (None, m3) \<Rightarrow> Inr (h1, m3)
                | (Some t, m3) \<Rightarrow> Inr (h1, m3\<lparr>timeSincePing := t\<rparr>))))
         else Inr (h, m1))"

definition mqtt_client_dowork :: "io_event list \<Rightarrow> mem \<Rightarrow> mqtt \<Rightarrow> (mem \<times> mqtt) outcome" where
  "mqtt_client_dowork events h cm =
    (if \<not> xioHandle (snd cm) then Inr (h, cm)
     else if has_status MQTT_STATUS_PENDING_CLOSE (snd cm) then
       Inr (h, fst cm, clear_status MQTT_STATUS_PENDING_CLOSE (close_connection (snd cm)))
     else
       cbind (xio_dowork events h cm) (\<lambda>(h1, cm1).
         let m = snd cm1
         in if has_status MQTT_STATUS_SOCKET_CONNECTED m \<and> has_status MQTT_STATUS_CLIENT_CONNECTED m \<and> keepAlive m > 0
            then cbind (keep_alive h1 m) (\<lambda>(h2, m1). Inr (h2, fst cm1, m1))
            else Inr (h1, cm1)))"

end
