(* ===== verification/Azure_List.thy ===== *)
theory Azure_List
  imports Azure_Buffer
begin

text \<open>
  The singly linked lists of the Azure SDK (\<open>azure_iot_sdk/c-utility/src/singlylinkedlist.c\<close>): the
  operations on nodes and pointers, and that they are the operations on lists.
\<close>

section \<open>Nodes\<close>

text \<open>A pointer to a node is its number, NULL is None; a node that is freed is no longer in the store.\<close>

record 'a list_item =
  item :: "'a option"
  next_item :: "nat option"

record 'a slist =
  head :: "nat option"
  tail :: "nat option"
  store :: "nat \<Rightarrow> 'a list_item option"

definition list_node :: "'a slist \<Rightarrow> nat \<Rightarrow> 'a list_item outcome" where
  "list_node s p = (case store s p of None \<Rightarrow> Inl Freed_pointer | Some n \<Rightarrow> Inr n)"

definition link_to :: "nat \<Rightarrow> nat option \<Rightarrow> 'a slist \<Rightarrow> 'a slist outcome" where
  "link_to p q s = cbind (list_node s p) (\<lambda>n. Inr (s\<lparr>store := (store s)(p \<mapsto> n\<lparr>next_item := q\<rparr>)\<rparr>))"

definition free_node :: "nat \<Rightarrow> 'a slist \<Rightarrow> 'a slist" where
  "free_node p s = s\<lparr>store := (store s)(p := None)\<rparr>"

section \<open>The operations\<close>

text \<open>\<open>ok\<close>: \<open>malloc\<close> succeeds; \<open>a\<close>: the node it gives, None for NULL.\<close>

definition singlylinkedlist_create :: "bool \<Rightarrow> 'a slist option" where
  "singlylinkedlist_create ok = (if ok then Some \<lparr>head = None, tail = None, store = \<lambda>_. None\<rparr> else None)"

definition singlylinkedlist_add :: "'a slist option \<Rightarrow> 'a option \<Rightarrow> nat option \<Rightarrow> (nat option \<times> 'a slist option) outcome" where
  "singlylinkedlist_add list x a =
    (case list of None \<Rightarrow> Inr (None, None)
     | Some s \<Rightarrow>
         if x = None then Inr (None, list)
         else case a of None \<Rightarrow> Inr (None, list)
         | Some p \<Rightarrow>
             (let s1 = s\<lparr>store := (store s)(p \<mapsto> \<lparr>item = x, next_item = None\<rparr>)\<rparr>
              in if head s1 = None then Inr (a, Some (s1\<lparr>head := a, tail := a\<rparr>))
                 else case tail s1 of None \<Rightarrow> Inl Null_pointer
                 | Some t \<Rightarrow> cbind (link_to t a s1) (\<lambda>s2. Inr (a, Some (s2\<lparr>tail := a\<rparr>)))))"

definition singlylinkedlist_add_head :: "'a slist option \<Rightarrow> 'a option \<Rightarrow> nat option \<Rightarrow> nat option \<times> 'a slist option" where
  "singlylinkedlist_add_head list x a =
    (case list of None \<Rightarrow> (None, None)
     | Some s \<Rightarrow>
         case a of None \<Rightarrow> (None, list)
         | Some p \<Rightarrow>
             if head s = None then
               (a, Some (s\<lparr>store := (store s)(p \<mapsto> \<lparr>item = x, next_item = None\<rparr>), head := a, tail := a\<rparr>))
             else (a, Some (s\<lparr>store := (store s)(p \<mapsto> \<lparr>item = x, next_item = head s\<rparr>), head := a\<rparr>)))"

text \<open>A node is taken out: the previous one or the head points past it, and the tail falls back.\<close>

definition unlink :: "nat \<Rightarrow> nat option \<Rightarrow> nat option \<Rightarrow> 'a slist \<Rightarrow> 'a slist outcome" where
  "unlink current previous nxt s =
    cbind (case previous of Some q \<Rightarrow> link_to q nxt s | None \<Rightarrow> Inr (s\<lparr>head := nxt\<rparr>)) (\<lambda>s1.
      let s2 = (if tail s1 = Some current then s1\<lparr>tail := previous\<rparr> else s1)
      in Inr (free_node current s2))"

partial_function (option) remove_loop :: "nat \<Rightarrow> nat option \<Rightarrow> nat option \<Rightarrow> 'a slist \<Rightarrow> (mu \<times> 'a slist) outcome option" where
  "remove_loop p current previous s =
    (case current of None \<Rightarrow> Some (Inr (MU_FAILURE, s))
     | Some c \<Rightarrow>
         (case list_node s c of Inl u \<Rightarrow> Some (Inl u)
          | Inr n \<Rightarrow>
              if c = p then Some (cbind (unlink c previous (next_item n) s) (\<lambda>s1. Inr (MU_OK, s1)))
              else remove_loop p (next_item n) current s))"

definition singlylinkedlist_remove :: "'a slist option \<Rightarrow> nat option \<Rightarrow> (mu \<times> 'a slist option) outcome option" where
  "singlylinkedlist_remove list p =
    (case list of None \<Rightarrow> Some (Inr (MU_FAILURE, None))
     | Some s \<Rightarrow>
         case p of None \<Rightarrow> Some (Inr (MU_FAILURE, list))
         | Some a \<Rightarrow> map_option (\<lambda>m. cbind m (\<lambda>(r, s1). Inr (r, Some s1))) (remove_loop a (head s) None s))"

definition singlylinkedlist_get_head_item :: "'a slist option \<Rightarrow> nat option" where
  "singlylinkedlist_get_head_item list = Option.bind list head"

definition singlylinkedlist_get_next_item :: "'a slist \<Rightarrow> nat option \<Rightarrow> nat option outcome" where
  "singlylinkedlist_get_next_item s p = (case p of None \<Rightarrow> Inr None | Some a \<Rightarrow> cbind (list_node s a) (\<lambda>n. Inr (next_item n)))"

definition singlylinkedlist_item_get_value :: "'a slist \<Rightarrow> nat option \<Rightarrow> 'a option outcome" where
  "singlylinkedlist_item_get_value s p = (case p of None \<Rightarrow> Inr None | Some a \<Rightarrow> cbind (list_node s a) (\<lambda>n. Inr (item n)))"

partial_function (option) find_loop :: "('a slist \<Rightarrow> nat \<Rightarrow> bool) \<Rightarrow> nat option \<Rightarrow> 'a slist \<Rightarrow> nat option outcome option" where
  "find_loop match_function current s =
    (case current of None \<Rightarrow> Some (Inr None)
     | Some c \<Rightarrow>
         if match_function s c then Some (Inr current)
         else (case list_node s c of Inl u \<Rightarrow> Some (Inl u) | Inr n \<Rightarrow> find_loop match_function (next_item n) s))"

definition singlylinkedlist_find :: "'a slist option \<Rightarrow> ('a slist \<Rightarrow> nat \<Rightarrow> bool) option \<Rightarrow> nat option outcome option" where
  "singlylinkedlist_find list match_function =
    (case list of None \<Rightarrow> Some (Inr None)
     | Some s \<Rightarrow> (case match_function of None \<Rightarrow> Some (Inr None) | Some f \<Rightarrow> find_loop f (head s) s))"

text \<open>The condition says whether to remove the item and whether to go on.\<close>

partial_function (option) remove_if_loop :: "('a option \<Rightarrow> bool \<times> bool) \<Rightarrow> nat option \<Rightarrow> nat option \<Rightarrow> 'a slist \<Rightarrow>
    'a slist outcome option" where
  "remove_if_loop condition current previous s =
    (case current of None \<Rightarrow> Some (Inr s)
     | Some c \<Rightarrow>
         (case list_node s c of Inl u \<Rightarrow> Some (Inl u)
          | Inr n \<Rightarrow>
              (case condition (item n) of (matches, continue_processing) \<Rightarrow>
                (case (if matches then unlink c previous (next_item n) s else Inr s) of Inl u \<Rightarrow> Some (Inl u)
                 | Inr s1 \<Rightarrow>
                     if continue_processing then remove_if_loop condition (next_item n) (if matches then previous else current) s1
                     else Some (Inr s1)))))"

definition singlylinkedlist_remove_if :: "'a slist option \<Rightarrow> ('a option \<Rightarrow> bool \<times> bool) option \<Rightarrow>
    (mu \<times> 'a slist option) outcome option" where
  "singlylinkedlist_remove_if list condition =
    (case list of None \<Rightarrow> Some (Inr (MU_FAILURE, None))
     | Some s \<Rightarrow>
         (case condition of None \<Rightarrow> Some (Inr (MU_FAILURE, list))
          | Some f \<Rightarrow> map_option (\<lambda>m. cbind m (\<lambda>s1. Inr (MU_OK, Some s1))) (remove_if_loop f (head s) None s)))"

text \<open>The action works on its context, and says whether to go on.\<close>

partial_function (option) foreach_loop :: "('a option \<Rightarrow> 'c \<Rightarrow> 'c \<times> bool) \<Rightarrow> nat option \<Rightarrow> 'c \<Rightarrow> 'a slist \<Rightarrow> 'c outcome option" where
  "foreach_loop action current x s =
    (case current of None \<Rightarrow> Some (Inr x)
     | Some c \<Rightarrow>
         (case list_node s c of Inl u \<Rightarrow> Some (Inl u)
          | Inr n \<Rightarrow>
              (case action (item n) x of (x1, continue_processing) \<Rightarrow>
                 if continue_processing then foreach_loop action (next_item n) x1 s else Some (Inr x1))))"

definition singlylinkedlist_foreach :: "'a slist option \<Rightarrow> ('a option \<Rightarrow> 'c \<Rightarrow> 'c \<times> bool) option \<Rightarrow> 'c \<Rightarrow> (mu \<times> 'c) outcome option" where
  "singlylinkedlist_foreach list action x =
    (case list of None \<Rightarrow> Some (Inr (MU_FAILURE, x))
     | Some s \<Rightarrow>
         (case action of None \<Rightarrow> Some (Inr (MU_FAILURE, x))
          | Some f \<Rightarrow> map_option (\<lambda>m. cbind m (\<lambda>x1. Inr (MU_OK, x1))) (foreach_loop f (head s) x s)))"

text \<open>The nodes are freed; so is the list itself, which is then gone.\<close>

partial_function (option) destroy_loop :: "'a slist \<Rightarrow> 'a slist outcome option" where
  "destroy_loop s =
    (case head s of None \<Rightarrow> Some (Inr s)
     | Some c \<Rightarrow>
         (case list_node s c of Inl u \<Rightarrow> Some (Inl u)
          | Inr n \<Rightarrow> destroy_loop (free_node c (s\<lparr>head := next_item n\<rparr>))))"

definition singlylinkedlist_destroy :: "'a slist option \<Rightarrow> 'a slist option outcome option" where
  "singlylinkedlist_destroy list =
    (case list of None \<Rightarrow> Some (Inr None) | Some s \<Rightarrow> map_option (\<lambda>m. cbind m (\<lambda>s1. Inr (Some s1))) (destroy_loop s))"

section \<open>Lists\<close>

text \<open>\<open>seg st p xs q\<close>: from \<open>p\<close> the nodes go through \<open>xs\<close>, node and item, to \<open>q\<close>.\<close>

fun seg :: "(nat \<Rightarrow> 'a list_item option) \<Rightarrow> nat option \<Rightarrow> (nat \<times> 'a option) list \<Rightarrow> nat option \<Rightarrow> bool" where
  "seg st p [] q \<longleftrightarrow> p = q"
| "seg st p ((a, x) # xs) q \<longleftrightarrow> p = Some a \<and> (\<exists>n. st a = Some n \<and> item n = x \<and> seg st (next_item n) xs q)"

definition last_node :: "(nat \<times> 'a option) list \<Rightarrow> nat option" where
  "last_node xs = (if xs = [] then None else Some (fst (last xs)))"

definition is_list :: "'a slist \<Rightarrow> (nat \<times> 'a option) list \<Rightarrow> bool" where
  "is_list s xs \<longleftrightarrow> seg (store s) (head s) xs None \<and> tail s = last_node xs \<and> distinct (map fst xs) \<and>
     dom (store s) = fst ` set xs"

lemma seg_append: "seg st p (xs @ ys) q \<longleftrightarrow> (\<exists>r. seg st p xs r \<and> seg st r ys q)"
  by (induction xs arbitrary: p) force+

lemma seg_cong: "(\<And>a. a \<in> fst ` set xs \<Longrightarrow> st' a = st a) \<Longrightarrow> seg st' p xs q = seg st p xs q"
  by (induction xs arbitrary: p) force+

lemma seg_other [simp]: "a \<notin> fst ` set xs \<Longrightarrow> seg (st(a := v)) p xs q = seg st p xs q"
  by (rule seg_cong) auto

lemma seg_dom: "seg st p xs q \<Longrightarrow> fst ` set xs \<subseteq> dom st"
  by (induction xs arbitrary: p) force+

lemma last_node_append [simp]: "last_node (xs @ [(a, x)]) = Some a"
  by (simp add: last_node_def)

lemma last_node_single [simp]: "last_node [(a, x)] = Some a"
  by (simp add: last_node_def)

lemma last_node_Nil [simp]: "last_node [] = None"
  by (simp add: last_node_def)

text \<open>The last node turned to another end.\<close>

lemma seg_redirect:
  assumes "seg st p (ys @ [(a, x)]) q" "distinct (map fst (ys @ [(a, x)]))"
  obtains n where "st a = Some n" "item n = x" "next_item n = q" "seg (st(a \<mapsto> n\<lparr>next_item := r\<rparr>)) p (ys @ [(a, x)]) r"
proof -
  from assms(1) obtain m where m: "seg st p ys (Some a)" "st a = Some m" "item m = x" "next_item m = q" by (auto simp: seg_append)
  have "seg (st(a \<mapsto> m\<lparr>next_item := r\<rparr>)) p ys (Some a)"
    using m(1) assms(2) by (simp add: image_iff)
  with m that [of m] show ?thesis by (auto simp: seg_append)
qed

lemma last_split:
  assumes "ys \<noteq> []"
  obtains zs a x where "ys = zs @ [(a, x)]" "last_node ys = Some a"
  using assms by (cases ys rule: rev_cases) (auto simp: last_node_def)

lemma add_spec:
  assumes "is_list s xs" "p \<notin> fst ` set xs"
  obtains s' where "singlylinkedlist_add (Some s) (Some v) (Some p) = Inr (Some p, Some s')" "is_list s' (xs @ [(p, Some v)])"
proof (cases "xs = []")
  case True
  with assms that show ?thesis by (auto simp: is_list_def singlylinkedlist_add_def Let_def)
next
  case False
  from last_split [OF False] obtain zs a x where xs: "xs = zs @ [(a, x)]" "last_node xs = Some a" .
  let ?st = "(store s)(p \<mapsto> \<lparr>item = Some v, next_item = None\<rparr>)"
  from assms have st: "seg ?st (head s) xs None" "distinct (map fst xs)"
    by (auto simp: is_list_def)
  from seg_redirect [OF st [unfolded xs], of "Some p"] obtain n where
    n: "?st a = Some n" "item n = x" "seg (?st(a \<mapsto> n\<lparr>next_item := Some p\<rparr>)) (head s) (zs @ [(a, x)]) (Some p)" by blast
  have "a \<noteq> p" using assms(2) xs by auto
  let ?S = "?st(a \<mapsto> n\<lparr>next_item := Some p\<rparr>)"
  have "seg ?S (head s) (xs @ [(p, Some v)]) None"
    unfolding seg_append by (rule exI [of _ "Some p"]) (use n(3) xs \<open>a \<noteq> p\<close> in simp)
  moreover have "dom ?S = fst ` set (xs @ [(p, Some v)])" using assms(1) xs(1) by (auto simp: is_list_def)
  moreover have "distinct (map fst (xs @ [(p, Some v)]))" using assms by (auto simp: is_list_def)
  ultimately have "is_list (s\<lparr>store := ?S, tail := Some p\<rparr>) (xs @ [(p, Some v)])" by (simp add: is_list_def)
  moreover have "tail s = Some a" using assms(1) xs by (simp add: is_list_def)
  moreover have "head s \<noteq> None" using st(1) xs(1) by (cases zs) auto
  ultimately show ?thesis using n(1) that
    by (auto simp: singlylinkedlist_add_def Let_def link_to_def list_node_def)
qed

lemma add_head_spec:
  assumes "is_list s xs" "p \<notin> fst ` set xs"
  obtains s' where "singlylinkedlist_add_head (Some s) v (Some p) = (Some p, Some s')" "is_list s' ((p, v) # xs)"
proof (cases "xs = []")
  case True
  with assms that show ?thesis by (auto simp: is_list_def singlylinkedlist_add_head_def last_node_def)
next
  case False
  then have "head s \<noteq> None" using assms(1) by (cases xs) (auto simp: is_list_def)
  moreover have "seg ((store s)(p \<mapsto> \<lparr>item = v, next_item = head s\<rparr>)) (head s) xs None"
    using assms by (auto simp: is_list_def)
  ultimately show ?thesis using that assms False
    by (auto simp: is_list_def singlylinkedlist_add_head_def last_node_def)
qed

text \<open>A node taken out of the middle.\<close>

lemma unlink_spec:
  assumes "is_list s (ys @ (c, x) # zs)"
  obtains n s' where "list_node s c = Inr n" "item n = x" "seg (store s) (next_item n) zs None"
    "unlink c (last_node ys) (next_item n) s = Inr s'" "is_list s' (ys @ zs)" "seg (store s') (next_item n) zs None"
proof -
  from assms obtain n where ys: "seg (store s) (head s) ys (Some c)" and n: "store s c = Some n" "item n = x"
    and zs: "seg (store s) (next_item n) zs None" and d: "distinct (map fst (ys @ (c, x) # zs))"
    and t: "tail s = last_node (ys @ (c, x) # zs)" and dom: "dom (store s) = fst ` set (ys @ (c, x) # zs)"
    by (auto simp: is_list_def seg_append)
  have tail: "tail s = Some c \<longleftrightarrow> zs = []" using t d by (cases zs rule: rev_cases) (auto simp: last_node_def)
  have lastn: "last_node (ys @ zs) = (if zs = [] then last_node ys else tail s)" using t by (auto simp: last_node_def)
  show ?thesis
  proof (cases "ys = []")
    case True
    let ?s = "free_node c ((if tail s = Some c then (s\<lparr>head := next_item n\<rparr>)\<lparr>tail := None\<rparr> else s\<lparr>head := next_item n\<rparr>))"
    have "seg ((store s)(c := None)) (next_item n) zs None" using zs d by (subst seg_cong) auto
    moreover have "is_list ?s (ys @ zs)" using calculation True d dom tail lastn
      by (auto simp: is_list_def free_node_def)
    ultimately show ?thesis using that [of n ?s] n zs True
      by (auto simp: list_node_def unlink_def free_node_def Let_def)
  next
    case False
    from last_split [OF False] obtain ws a w where ws: "ys = ws @ [(a, w)]" "last_node ys = Some a" .
    from d have dy: "distinct (map fst (ws @ [(a, w)]))" by (auto simp: ws)
    from seg_redirect [OF ys [unfolded ws(1)] dy, of "next_item n"] obtain m where
      m: "store s a = Some m" "seg ((store s)(a \<mapsto> m\<lparr>next_item := next_item n\<rparr>)) (head s) (ws @ [(a, w)]) (next_item n)" by blast
    have ne: "a \<noteq> c" "a \<notin> fst ` set zs" "c \<notin> fst ` set ys" "c \<notin> fst ` set zs" using d ws(1) by auto
    let ?st = "((store s)(a \<mapsto> m\<lparr>next_item := next_item n\<rparr>))(c := None)"
    let ?s = "s\<lparr>store := ?st, tail := (if tail s = Some c then Some a else tail s)\<rparr>"
    have "seg ?st (next_item n) zs None" using zs ne by (subst seg_cong) auto
    moreover have "seg ?st (head s) ys (next_item n)" using m(2) ne(3) ws(1) by (subst seg_cong) auto
    moreover have "is_list ?s (ys @ zs)"
      using calculation d dom tail lastn ne ws m(1) by (auto simp: is_list_def seg_append)
    moreover have "unlink c (Some a) (next_item n) s = Inr ?s"
      using m(1) by (simp add: unlink_def link_to_def list_node_def free_node_def Let_def)
    ultimately show ?thesis using that [of n ?s] n zs ws(2) by (simp add: list_node_def)
  qed
qed

section \<open>The walks\<close>

definition without :: "nat \<Rightarrow> (nat \<times> 'a) list \<Rightarrow> (nat \<times> 'a) list" where
  "without a xs = filter (\<lambda>(b, _). b \<noteq> a) xs"

lemma without_other: "a \<notin> fst ` set xs \<Longrightarrow> without a xs = xs"
  by (induction xs) (auto simp: without_def)

lemma without_Nil [simp]: "without a [] = []"
  by (simp add: without_def)

lemma without_append [simp]: "without a (xs @ ys) = without a xs @ without a ys"
  by (simp add: without_def)

lemma without_Cons [simp]: "without a ((b, x) # xs) = (if b = a then without a xs else (b, x) # without a xs)"
  by (simp add: without_def)

lemma first_node:
  assumes "is_list s (ys @ (c, x) # zs)" "seg (store s) p ((c, x) # zs) None"
  obtains n where "p = Some c" "list_node s c = Inr n" "item n = x" "seg (store s) (next_item n) zs None"
  using assms by (auto simp: list_node_def)

lemma remove_loop_spec:
  assumes "is_list s (ys @ zs)" "seg (store s) cur zs None" "a \<notin> fst ` set ys"
  shows "\<exists>s'. remove_loop a cur (last_node ys) s = Some (Inr (if a \<in> fst ` set zs then MU_OK else MU_FAILURE, s')) \<and>
    is_list s' (without a (ys @ zs))"
  using assms
proof (induction zs arbitrary: ys cur)
  case Nil
  then show ?case by (simp add: remove_loop.simps without_other)
next
  case (Cons z zs)
  obtain c x where z: "z = (c, x)" by (cases z)
  from first_node [OF Cons.prems(1,2) [unfolded z]] obtain n where n: "cur = Some c" "list_node s c = Inr n" "item n = x"
    "seg (store s) (next_item n) zs None" .
  have d: "c \<notin> fst ` set (ys @ zs)" using Cons.prems(1) by (auto simp: is_list_def z)
  show ?case
  proof (cases "c = a")
    case True
    obtain n' s' where u: "list_node s c = Inr n'" "unlink c (last_node ys) (next_item n') s = Inr s'" "is_list s' (ys @ zs)"
      by (rule unlink_spec [OF Cons.prems(1) [unfolded z]])
    moreover have "without a (ys @ zs) = ys @ zs" by (rule without_other) (use d True in simp)
    ultimately show ?thesis using n True by (simp add: remove_loop.simps [of a "Some a"] z)
  next
    case False
    have "\<exists>s'. remove_loop a (next_item n) (last_node (ys @ [(c, x)])) s = Some (Inr (if a \<in> fst ` set zs then MU_OK else MU_FAILURE, s')) \<and>
        is_list s' (without a ((ys @ [(c, x)]) @ zs))"
      by (rule Cons.IH) (use Cons.prems n False z in auto)
    with n False show ?thesis by (simp add: remove_loop.simps [of a "Some c"] z)
  qed
qed

lemma find_loop_spec:
  assumes "is_list s (ys @ zs)" "seg (store s) cur zs None"
  shows "find_loop f cur s = Some (Inr (map_option fst (find (\<lambda>(a, _). f s a) zs)))"
  using assms
proof (induction zs arbitrary: ys cur)
  case Nil
  then show ?case by (simp add: find_loop.simps)
next
  case (Cons z zs)
  obtain c x where z: "z = (c, x)" by (cases z)
  from first_node [OF Cons.prems(1,2) [unfolded z]] obtain n where n: "cur = Some c" "list_node s c = Inr n" "item n = x"
    "seg (store s) (next_item n) zs None" .
  have "find_loop f (next_item n) s = Some (Inr (map_option fst (find (\<lambda>(a, _). f s a) zs)))"
    by (rule Cons.IH [of "ys @ [z]"]) (use Cons.prems n in auto)
  with n show ?case by (simp add: find_loop.simps [of f "Some c"] z)
qed

text \<open>What \<open>remove_if\<close> leaves, and what \<open>foreach\<close> makes of its context.\<close>

fun left_over :: "('a option \<Rightarrow> bool \<times> bool) \<Rightarrow> (nat \<times> 'a option) list \<Rightarrow> (nat \<times> 'a option) list" where
  "left_over f [] = []"
| "left_over f ((a, x) # xs) =
    (case f x of (matches, go_on) \<Rightarrow> (if matches then [] else [(a, x)]) @ (if go_on then left_over f xs else xs))"

fun acted :: "('a option \<Rightarrow> 'c \<Rightarrow> 'c \<times> bool) \<Rightarrow> 'a option list \<Rightarrow> 'c \<Rightarrow> 'c" where
  "acted f [] c = c"
| "acted f (x # xs) c = (case f x c of (c1, go_on) \<Rightarrow> if go_on then acted f xs c1 else c1)"

lemma remove_if_loop_spec:
  assumes "is_list s (ys @ zs)" "seg (store s) cur zs None"
  shows "\<exists>s'. remove_if_loop f cur (last_node ys) s = Some (Inr s') \<and> is_list s' (ys @ left_over f zs)"
  using assms
proof (induction zs arbitrary: ys cur s)
  case Nil
  then show ?case by (simp add: remove_if_loop.simps)
next
  case (Cons z zs)
  obtain c x where z: "z = (c, x)" by (cases z)
  from first_node [OF Cons.prems(1,2) [unfolded z]] obtain n where n: "cur = Some c" "list_node s c = Inr n" "item n = x"
    "seg (store s) (next_item n) zs None" .
  obtain m k where f: "f x = (m, k)" by (cases "f x")
  show ?case
  proof (cases m)
    case True
    obtain n' s' where u: "list_node s c = Inr n'" "unlink c (last_node ys) (next_item n') s = Inr s'" "is_list s' (ys @ zs)"
      "seg (store s') (next_item n') zs None" by (rule unlink_spec [OF Cons.prems(1) [unfolded z]])
    from Cons.IH [OF u(3,4)] u n f True show ?thesis by (auto simp: remove_if_loop.simps [of f "Some c"] z)
  next
    case False
    have "\<exists>s'. remove_if_loop f (next_item n) (last_node (ys @ [(c, x)])) s = Some (Inr s') \<and> is_list s' ((ys @ [(c, x)]) @ left_over f zs)"
      by (rule Cons.IH) (use Cons.prems n z in auto)
    with Cons.prems(1) n f False show ?thesis by (auto simp: remove_if_loop.simps [of f "Some c"] z)
  qed
qed

lemma foreach_loop_spec:
  assumes "is_list s (ys @ zs)" "seg (store s) cur zs None"
  shows "foreach_loop f cur c s = Some (Inr (acted f (map snd zs) c))"
  using assms
proof (induction zs arbitrary: ys cur c)
  case Nil
  then show ?case by (simp add: foreach_loop.simps)
next
  case (Cons z zs)
  obtain b x where z: "z = (b, x)" by (cases z)
  from first_node [OF Cons.prems(1,2) [unfolded z]] obtain n where n: "cur = Some b" "list_node s b = Inr n" "item n = x"
    "seg (store s) (next_item n) zs None" .
  have "foreach_loop f (next_item n) c' s = Some (Inr (acted f (map snd zs) c'))" for c'
    by (rule Cons.IH [of "ys @ [z]"]) (use Cons.prems n in auto)
  with n show ?case by (auto simp: foreach_loop.simps [of f "Some b"] z split: prod.split)
qed

lemma destroy_loop_spec:
  assumes "seg (store s) (head s) xs None" "distinct (map fst xs)" "dom (store s) = fst ` set xs"
  shows "\<exists>s'. destroy_loop s = Some (Inr s') \<and> store s' = (\<lambda>_. None)"
  using assms
proof (induction xs arbitrary: s)
  case Nil
  then show ?case by (simp add: destroy_loop.simps)
next
  case (Cons z xs)
  obtain c x where z: "z = (c, x)" by (cases z)
  from Cons.prems(1) z obtain n where n: "head s = Some c" "store s c = Some n" "seg (store s) (next_item n) xs None" by auto
  let ?s = "free_node c (s\<lparr>head := next_item n\<rparr>)"
  have c: "c \<notin> fst ` set xs" using Cons.prems(2) z by auto
  have st: "store ?s = (store s)(c := None)" "head ?s = next_item n" by (simp_all add: free_node_def)
  have "dom (store ?s) = fst ` set xs" unfolding st using Cons.prems(3) c z by (simp del: fun_upd_apply)
  moreover have "seg (store ?s) (head ?s) xs None" unfolding st using n(3) c by (simp del: fun_upd_apply)
  ultimately have "\<exists>s'. destroy_loop ?s = Some (Inr s') \<and> store s' = (\<lambda>_. None)"
    using Cons.IH [of ?s] Cons.prems(2) by simp
  with n show ?case by (simp add: destroy_loop.simps [of s] list_node_def)
qed

section \<open>Properties\<close>

lemma is_list_head: "is_list s xs \<Longrightarrow> seg (store s) (head s) xs None"
  by (simp add: is_list_def)

text \<open>
  Claim C39. The pointer operations of the singly linked list are the operations on lists: on a list
  of nodes \<open>xs\<close>, \<open>add\<close> appends the new item and \<open>add_head\<close> puts it in front, \<open>get_head_item\<close> gives the
  first node, \<open>find\<close> the first that matches, \<open>remove\<close> takes out exactly the node named (and fails, with
  the list as it was, if it is not there), \<open>remove_if\<close> and \<open>foreach\<close> go through the items in order
  as long as they are told to, and \<open>destroy\<close> frees every node.  No walk runs on forever or touches a
  node that was freed.
\<close>

theorem list_operations_refine:
  assumes "is_list s xs" "p \<notin> fst ` set xs"
  shows "(\<exists>s1. singlylinkedlist_add (Some s) (Some v) (Some p) = Inr (Some p, Some s1) \<and> is_list s1 (xs @ [(p, Some v)])) \<and>
    (\<exists>s1. singlylinkedlist_add_head (Some s) x (Some p) = (Some p, Some s1) \<and> is_list s1 ((p, x) # xs)) \<and>
    (singlylinkedlist_get_head_item (Some s) = (case xs of [] \<Rightarrow> None | (a, _) # _ \<Rightarrow> Some a)) \<and>
    (singlylinkedlist_find (Some s) (Some f) = Some (Inr (map_option fst (find (\<lambda>(a, _). f s a) xs)))) \<and>
    (\<exists>s1. singlylinkedlist_remove (Some s) (Some a) = Some (Inr (if a \<in> fst ` set xs then MU_OK else MU_FAILURE, Some s1)) \<and>
      is_list s1 (without a xs)) \<and>
    (\<exists>s1. singlylinkedlist_remove_if (Some s) (Some g) = Some (Inr (MU_OK, Some s1)) \<and> is_list s1 (left_over g xs)) \<and>
    (singlylinkedlist_foreach (Some s) (Some act) c = Some (Inr (MU_OK, acted act (map snd xs) c))) \<and>
    (\<exists>s1. singlylinkedlist_destroy (Some s) = Some (Inr (Some s1)) \<and> store s1 = (\<lambda>_. None))"
proof (intro conjI)
  note seg = is_list_head [OF assms(1)]
  show "\<exists>s1. singlylinkedlist_add (Some s) (Some v) (Some p) = Inr (Some p, Some s1) \<and> is_list s1 (xs @ [(p, Some v)])"
    by (rule add_spec [OF assms, of v]) blast
  show "\<exists>s1. singlylinkedlist_add_head (Some s) x (Some p) = (Some p, Some s1) \<and> is_list s1 ((p, x) # xs)"
    by (rule add_head_spec [OF assms, of x]) blast
  show "singlylinkedlist_get_head_item (Some s) = (case xs of [] \<Rightarrow> None | (a, _) # _ \<Rightarrow> Some a)"
    using seg by (auto simp: singlylinkedlist_get_head_item_def split: list.split)
  show "singlylinkedlist_find (Some s) (Some f) = Some (Inr (map_option fst (find (\<lambda>(a, _). f s a) xs)))"
    using find_loop_spec [of s "[]" xs "head s" f] assms(1) seg by (simp add: singlylinkedlist_find_def)
  show "\<exists>s1. singlylinkedlist_remove (Some s) (Some a) = Some (Inr (if a \<in> fst ` set xs then MU_OK else MU_FAILURE, Some s1)) \<and>
      is_list s1 (without a xs)"
  proof -
    from remove_loop_spec [of s "[]" xs "head s" a] assms(1) seg obtain s1 where
      "remove_loop a (head s) None s = Some (Inr (if a \<in> fst ` set xs then MU_OK else MU_FAILURE, s1))" "is_list s1 (without a xs)"
      by (auto simp del: if_split split del: if_split)
    then show ?thesis by (simp add: singlylinkedlist_remove_def)
  qed
  show "\<exists>s1. singlylinkedlist_remove_if (Some s) (Some g) = Some (Inr (MU_OK, Some s1)) \<and> is_list s1 (left_over g xs)"
    using remove_if_loop_spec [of s "[]" xs "head s" g] assms(1) seg by (auto simp: singlylinkedlist_remove_if_def)
  show "singlylinkedlist_foreach (Some s) (Some act) c = Some (Inr (MU_OK, acted act (map snd xs) c))"
    using foreach_loop_spec [of s "[]" xs "head s" act c] assms(1) seg by (simp add: singlylinkedlist_foreach_def)
  show "\<exists>s1. singlylinkedlist_destroy (Some s) = Some (Inr (Some s1)) \<and> store s1 = (\<lambda>_. None)"
    using destroy_loop_spec [OF seg] assms(1) by (auto simp: singlylinkedlist_destroy_def is_list_def)
qed

definition three_items :: "nat slist" where
  "three_items = \<lparr>head = Some 1, tail = Some 3,
     store = [1 \<mapsto> \<lparr>item = Some 10, next_item = Some 2\<rparr>, 2 \<mapsto> \<lparr>item = Some 20, next_item = Some 3\<rparr>, 3 \<mapsto> \<lparr>item = Some 30, next_item = None\<rparr>]\<rparr>"

lemma three_items_list: "is_list three_items [(1, Some 10), (2, Some 20), (3, Some 30)]"
  by (auto simp: is_list_def three_items_def last_node_def split: if_splits)

lemma list_operations_refine_witness:
  "\<exists>s1. singlylinkedlist_remove (Some three_items) (Some 3) = Some (Inr (MU_OK, Some s1)) \<and> is_list s1 [(1, Some 10), (2, Some 20)]"
  using list_operations_refine [OF three_items_list, of 4 0 None "\<lambda>_ _. True" 3 "\<lambda>_. (True, True)" "\<lambda>_ c. (c, True)" "()"] by simp

end
