(* ===== verification/Socket_Io.thy ===== *)
theory Socket_Io
  imports Mqtt_Client Esp_Socket Azure_List
begin

text \<open>
  The transports over the AT driver: \<open>socketio_esp_at.c\<close> and \<open>tlsio_esp_at.c\<close> of
  \<open>azure_iot_sdk/c-utility/adapters\<close>, the same code twice but for the kind of socket.  They queue what
  is to be sent, and move bytes between the sockets of the driver and the callbacks of their user
  when they are worked on.
\<close>

section \<open>State\<close>

datatype IO_STATE = IO_STATE_CLOSED | IO_STATE_OPENING | IO_STATE_OPEN | IO_STATE_CLOSING | IO_STATE_ERROR

text \<open>Of a pending send: its bytes, its size, and whether its end is to be reported.\<close>

record PENDING_SOCKET_IO =
  bytes :: "byte list"
  psize :: nat
  on_send_complete :: bool

text \<open>
  The pending sends are the items of a singly linked list, whose operations \<open>Azure_List\<close> shows to be
  those on lists.  The flags say which callbacks have been set.
\<close>

record SOCKET_IO_INSTANCE =
  tcp_socket_connection :: "nat option"
  on_bytes_received :: bool
  on_io_error :: bool
  hostname :: string
  port :: int
  io_state :: IO_STATE
  pending_io_list :: "PENDING_SOCKET_IO list"

text \<open>
  The instance, the driver below it, the answers of the allocator to its requests, and the context
  of the callbacks; those may call the instance again.
\<close>

type_synonym 'c io = "SOCKET_IO_INSTANCE \<times> link \<times> mem \<times> 'c"

record 'c io_user =
  bytes_received :: "byte list \<Rightarrow> 'c io \<Rightarrow> 'c io outcome"
  io_error :: "'c io \<Rightarrow> 'c io outcome"
  send_complete :: "IO_SEND_RESULT \<Rightarrow> 'c io \<Rightarrow> 'c io outcome"

definition ESP_AT_XIO_RECEIVE_BUFFER_SIZE :: nat where "ESP_AT_XIO_RECEIVE_BUFFER_SIZE = 128"

section \<open>Errors and the queue\<close>

definition indicate_error :: "'c io_user \<Rightarrow> 'c io \<Rightarrow> 'c io outcome" where
  "indicate_error u w =
    (case w of (s, rest) \<Rightarrow>
       if io_state s = IO_STATE_CLOSED \<or> io_state s = IO_STATE_ERROR then Inr w
       else (let w1 = (s\<lparr>io_state := IO_STATE_ERROR\<rparr>, rest)
             in if on_io_error s then io_error u w1 else Inr w1))"

definition add_pending_io :: "byte list \<Rightarrow> nat \<Rightarrow> bool \<Rightarrow> 'c io \<Rightarrow> (mu \<times> 'c io) outcome" where
  "add_pending_io buf n notify w =
    (case w of (s, l, h, c) \<Rightarrow>
       if h 0 = None then Inr (MU_FAILURE, s, l, \<lambda>i. h (Suc i), c)
       else (case malloc n (\<lambda>i. h (Suc i)) of
               (None, h1) \<Rightarrow> Inr (MU_FAILURE, s, l, h1, c)
             | (Some _, h1) \<Rightarrow>
                 cbind (read_from (Some buf) n) (\<lambda>bs.
                   if h1 0 = None then Inr (MU_FAILURE, s, l, \<lambda>i. h1 (Suc i), c)
                   else Inr (MU_OK, s\<lparr>pending_io_list := pending_io_list s @ [\<lparr>bytes = bs, psize = n, on_send_complete = notify\<rparr>]\<rparr>,
                          l, \<lambda>i. h1 (Suc i), c))))"

section \<open>Receiving\<close>

partial_function (option) retrieve_loop :: "'c io_user \<Rightarrow> int \<Rightarrow> 'c io \<Rightarrow> (int \<times> 'c io) outcome option" where
  "retrieve_loop u total_received w =
    (case w of (s, l, h, c) \<Rightarrow>
       case tcp_socket_connection s of None \<Rightarrow> Some (Inl Null_pointer)
       | Some sock \<Rightarrow>
           (case esp_at_socket_receive sock (int ESP_AT_XIO_RECEIVE_BUFFER_SIZE) l of
              Inl e \<Rightarrow> Some (Inl e)
            | Inr (None, l1) \<Rightarrow> Some (cbind (indicate_error u (s, l1, h, c)) (\<lambda>w1. Inr (-1, w1)))
            | Inr (Some cs, l1) \<Rightarrow>
                if cs = [] then Some (Inr (total_received, s, l1, h, c))
                else (case (if on_bytes_received s then bytes_received u (map byte_of cs) (s, l1, h, c) else Inr (s, l1, h, c)) of
                        Inl e \<Rightarrow> Some (Inl e)
                      | Inr w1 \<Rightarrow> retrieve_loop u (total_received + int (length cs)) w1)))"

definition retrieve_data :: "'c io_user \<Rightarrow> 'c io \<Rightarrow> (int \<times> 'c io) outcome option" where
  "retrieve_data u w =
    (case w of (s, l, h, c) \<Rightarrow>
       case malloc ESP_AT_XIO_RECEIVE_BUFFER_SIZE h of
         (None, h1) \<Rightarrow> Some (cbind (indicate_error u (s, l, h1, c)) (\<lambda>w1. Inr (-1, w1)))
       | (Some _, h1) \<Rightarrow> retrieve_loop u 0 (s, l, h1, c))"

section \<open>Sending\<close>

text \<open>
  After a partial send the rest is moved to the front, but the size stays: the bytes behind it are
  those that were there.
\<close>

partial_function (option) send_queued :: "esp_env \<Rightarrow> 'c io_user \<Rightarrow> nat \<Rightarrow> int \<Rightarrow> 'c io \<Rightarrow> (int \<times> 'c io) outcome option" where
  "send_queued env u errors sent_bytes w =
    (case w of (s, l, h, c) \<Rightarrow>
       case pending_io_list s of [] \<Rightarrow> Some (Inr (sent_bytes, w))
       | p # ps \<Rightarrow>
           (case tcp_socket_connection s of None \<Rightarrow> Some (Inl Null_pointer)
            | Some sock \<Rightarrow>
                (case esp_at_socket_send env sock (map char_of_byte (take (psize p) (bytes p))) l of
                   None \<Rightarrow> None
                 | Some (Inl e) \<Rightarrow> Some (Inl e)
                 | Some (Inr (r, l1)) \<Rightarrow>
                     let send_result = (case r of None \<Rightarrow> -1 | Some n \<Rightarrow> n) in
                     if send_result \<noteq> int (psize p) then
                       (if send_result = 0 then
                          (if errors \<ge> 10 then Some (cbind (indicate_error u (s, l1, h, c)) (\<lambda>w1. Inr (-1, w1)))
                           else send_queued env u (errors + 1) sent_bytes (s, l1, h, c))
                        else if send_result < 0 then Some (cbind (indicate_error u (s, l1, h, c)) (\<lambda>w1. Inr (-1, w1)))
                        else
                          (let k = nat send_result;
                               moved = drop k (take (psize p) (bytes p)) @ drop (psize p - k) (bytes p)
                           in send_queued env u errors (sent_bytes + send_result)
                                (s\<lparr>pending_io_list := p\<lparr>bytes := moved\<rparr> # ps\<rparr>, l1, h, c)))
                     else
                       (case (if on_send_complete p then send_complete u IO_SEND_OK (s, l1, h, c) else Inr (s, l1, h, c)) of
                          Inl e \<Rightarrow> Some (Inl e)
                        | Inr (s2, rest) \<Rightarrow>
                            send_queued env u 0 (sent_bytes + send_result)
                              (s2\<lparr>pending_io_list := tl (pending_io_list s2)\<rparr>, rest)))))"

section \<open>The operations\<close>

text \<open>Their arguments are instances that exist: a NULL handle is refused, or nothing happens.\<close>

definition close_tcp_connection :: "esp_env \<Rightarrow> 'c io \<Rightarrow> 'c io outcome" where
  "close_tcp_connection env w =
    (case w of (s, l, h, c) \<Rightarrow>
       if io_state s \<noteq> IO_STATE_CLOSED then
         cbind (case tcp_socket_connection s of None \<Rightarrow> Inr (s, l)
                | Some sock \<Rightarrow>
                    cbind (esp_at_socket_close env sock l) (\<lambda>l1.
                    cbind (esp_at_socket_destroy sock l1) (\<lambda>l2. Inr (s\<lparr>tcp_socket_connection := None\<rparr>, l2))))
           (\<lambda>(s1, l1). Inr (s1\<lparr>io_state := IO_STATE_CLOSED\<rparr>, l1, h, c))
       else Inr w)"

text \<open>The host name is copied by \<open>strdup\<close>; a configuration is the host name and the port.\<close>

definition esp_at_io_create :: "(string \<times> int) option \<Rightarrow> mem \<Rightarrow> SOCKET_IO_INSTANCE option \<times> mem" where
  "esp_at_io_create cfg h =
    (case cfg of None \<Rightarrow> (None, h)
     | Some (host, p) \<Rightarrow>
         if h 0 = None then (None, \<lambda>i. h (Suc i))
         else if h 1 = None then (None, \<lambda>i. h (i + 2))
         else if h 2 = None then (None, \<lambda>i. h (i + 3))
         else (Some \<lparr>tcp_socket_connection = None, on_bytes_received = False, on_io_error = False, hostname = host, port = p,
                 io_state = IO_STATE_CLOSED, pending_io_list = []\<rparr>, \<lambda>i. h (i + 3)))"

text \<open>The pending sends are dropped without a report.\<close>

definition esp_at_io_destroy :: "esp_env \<Rightarrow> 'c io option \<Rightarrow> (link \<times> mem \<times> 'c) option outcome" where
  "esp_at_io_destroy env w = (case w of None \<Rightarrow> Inr None | Some w \<Rightarrow> cbind (close_tcp_connection env w) (\<lambda>w1. Inr (Some (snd w1))))"

text \<open>\<open>calloc_ok\<close>: the driver finds storage for the receive ring; \<open>opened\<close>: the callback, if it is given.\<close>

definition esp_at_io_open :: "bool \<Rightarrow> esp_env \<Rightarrow> bool \<Rightarrow> (IO_OPEN_RESULT \<Rightarrow> 'c io \<Rightarrow> 'c io outcome) option \<Rightarrow> bool \<Rightarrow> bool \<Rightarrow> 'c io \<Rightarrow>
    (mu \<times> 'c io) outcome option" where
  "esp_at_io_open use_ssl env calloc_ok opened bytes_given error_given w =
    (case w of (s, l, h, c) \<Rightarrow>
       case (if io_state s \<noteq> IO_STATE_CLOSED then Some (Inr (MU_FAILURE, w))
             else (case esp_at_socket_create calloc_ok use_ssl l of
                     (None, l1) \<Rightarrow> Some (Inr (MU_FAILURE, s\<lparr>tcp_socket_connection := None\<rparr>, l1, h, c))
                   | (Some sock, l1) \<Rightarrow>
                       (case esp_at_socket_connect env sock (hostname s) (port s) l1 of
                          None \<Rightarrow> None
                        | Some (Inl e) \<Rightarrow> Some (Inl e)
                        | Some (Inr (r, l2)) \<Rightarrow>
                            if r \<noteq> Some 0 then
                              Some (cbind (esp_at_socket_destroy sock l2) (\<lambda>l3.
                                Inr (MU_FAILURE, s\<lparr>tcp_socket_connection := None\<rparr>, l3, h, c)))
                            else
                              Some (Inr (MU_OK, s\<lparr>tcp_socket_connection := Some sock, on_bytes_received := bytes_given,
                                    on_io_error := error_given, io_state := IO_STATE_OPEN\<rparr>,
                                  esp_at_socket_set_blocking sock False 0 l2, h, c))))) of
         None \<Rightarrow> None
       | Some (Inl e) \<Rightarrow> Some (Inl e)
       | Some (Inr (r, w1)) \<Rightarrow>
           Some (case opened of None \<Rightarrow> Inr (r, w1)
                 | Some f \<Rightarrow> cbind (f (if r = MU_OK then IO_OPEN_OK else IO_OPEN_ERROR) w1) (\<lambda>w2. Inr (r, w2))))"

definition esp_at_io_close :: "esp_env \<Rightarrow> ('c io \<Rightarrow> 'c io outcome) option \<Rightarrow> 'c io \<Rightarrow> (mu \<times> 'c io) outcome" where
  "esp_at_io_close env closed w =
    (if io_state (fst w) = IO_STATE_CLOSED \<or> io_state (fst w) = IO_STATE_ERROR then Inr (MU_FAILURE, w)
     else cbind (close_tcp_connection env w) (\<lambda>w1.
          cbind (case closed of None \<Rightarrow> Inr w1 | Some f \<Rightarrow> f w1) (\<lambda>w2. Inr (MU_OK, w2))))"

definition esp_at_io_send :: "byte list option \<Rightarrow> nat \<Rightarrow> bool \<Rightarrow> 'c io \<Rightarrow> (mu \<times> 'c io) outcome" where
  "esp_at_io_send buf n notify w =
    (if buf = None \<or> n = 0 then Inr (MU_FAILURE, w)
     else if io_state (fst w) \<noteq> IO_STATE_OPEN then Inr (MU_FAILURE, w)
     else add_pending_io (the buf) n notify w)"

definition esp_at_io_dowork :: "esp_env \<Rightarrow> 'c io_user \<Rightarrow> 'c io \<Rightarrow> 'c io outcome option" where
  "esp_at_io_dowork env u w =
    (if io_state (fst w) = IO_STATE_OPEN then
       (case retrieve_data u w of
          None \<Rightarrow> None
        | Some (Inl e) \<Rightarrow> Some (Inl e)
        | Some (Inr (r, w1)) \<Rightarrow>
            if r < 0 then Some (Inr w1)
            else map_option (\<lambda>m. cbind m (\<lambda>(_, w2). Inr w2)) (send_queued env u 0 0 w1))
     else Some (Inr w))"

section \<open>The two transports\<close>

definition socketio_esp_at_create :: "(string \<times> int) option \<Rightarrow> mem \<Rightarrow> SOCKET_IO_INSTANCE option \<times> mem" where
  "socketio_esp_at_create = esp_at_io_create"
definition socketio_esp_at_destroy :: "esp_env \<Rightarrow> 'c io option \<Rightarrow> (link \<times> mem \<times> 'c) option outcome" where
  "socketio_esp_at_destroy = esp_at_io_destroy"
definition socketio_esp_at_open :: "esp_env \<Rightarrow> bool \<Rightarrow> (IO_OPEN_RESULT \<Rightarrow> 'c io \<Rightarrow> 'c io outcome) option \<Rightarrow> bool \<Rightarrow> bool \<Rightarrow> 'c io \<Rightarrow>
    (mu \<times> 'c io) outcome option" where
  "socketio_esp_at_open = esp_at_io_open False"
definition socketio_esp_at_close :: "esp_env \<Rightarrow> ('c io \<Rightarrow> 'c io outcome) option \<Rightarrow> 'c io \<Rightarrow> (mu \<times> 'c io) outcome" where
  "socketio_esp_at_close = esp_at_io_close"
definition socketio_esp_at_send :: "byte list option \<Rightarrow> nat \<Rightarrow> bool \<Rightarrow> 'c io \<Rightarrow> (mu \<times> 'c io) outcome" where
  "socketio_esp_at_send = esp_at_io_send"
definition socketio_esp_at_dowork :: "esp_env \<Rightarrow> 'c io_user \<Rightarrow> 'c io \<Rightarrow> 'c io outcome option" where
  "socketio_esp_at_dowork = esp_at_io_dowork"

definition tlsio_esp_at_create :: "(string \<times> int) option \<Rightarrow> mem \<Rightarrow> SOCKET_IO_INSTANCE option \<times> mem" where
  "tlsio_esp_at_create = esp_at_io_create"
definition tlsio_esp_at_destroy :: "esp_env \<Rightarrow> 'c io option \<Rightarrow> (link \<times> mem \<times> 'c) option outcome" where
  "tlsio_esp_at_destroy = esp_at_io_destroy"
definition tlsio_esp_at_open :: "esp_env \<Rightarrow> bool \<Rightarrow> (IO_OPEN_RESULT \<Rightarrow> 'c io \<Rightarrow> 'c io outcome) option \<Rightarrow> bool \<Rightarrow> bool \<Rightarrow> 'c io \<Rightarrow>
    (mu \<times> 'c io) outcome option" where
  "tlsio_esp_at_open = esp_at_io_open True"
definition tlsio_esp_at_close :: "esp_env \<Rightarrow> ('c io \<Rightarrow> 'c io outcome) option \<Rightarrow> 'c io \<Rightarrow> (mu \<times> 'c io) outcome" where
  "tlsio_esp_at_close = esp_at_io_close"
definition tlsio_esp_at_send :: "byte list option \<Rightarrow> nat \<Rightarrow> bool \<Rightarrow> 'c io \<Rightarrow> (mu \<times> 'c io) outcome" where
  "tlsio_esp_at_send = esp_at_io_send"
definition tlsio_esp_at_dowork :: "esp_env \<Rightarrow> 'c io_user \<Rightarrow> 'c io \<Rightarrow> 'c io outcome option" where
  "tlsio_esp_at_dowork = esp_at_io_dowork"

end
