(* ===== verification/Mqtt_Stream.thy ===== *)
theory Mqtt_Stream
  imports Mqtt_Receive
begin

text \<open>
  Streams of packets: in whatever chunks they arrive, each packet is handed to the callback once
  and in order; the receiving machine never leaves its storage; and where it does not take what
  the encoder or the protocol allows.
\<close>

section \<open>Chunks\<close>

text \<open>The calls of \<open>mqtt_codec_bytesReceived\<close> as the chunks arrive, up to the first that fails.\<close>

fun receive_chunks :: "'s callback option \<Rightarrow> byte list list \<Rightarrow> MQTTCODEC_INSTANCE option \<Rightarrow> mem \<Rightarrow> 's \<Rightarrow>
    (mu \<times> MQTTCODEC_INSTANCE option \<times> mem \<times> 's) outcome" where
  "receive_chunks cb [] handle h s = Inr (MU_OK, handle, h, s)"
| "receive_chunks cb (x # xs) handle h s =
    cbind (mqtt_codec_bytesReceived cb handle (Some x) h s) (\<lambda>(r, handle1, h1, s1).
      if r = MU_OK then receive_chunks cb xs handle1 h1 s1 else Inr (r, handle1, h1, s1))"

lemma receive_chunks_loop:
  "[] \<notin> set xs \<Longrightarrow> receive_chunks cb xs (Some c) h s =
    cbind (receive_loop cb (concat xs) c h s) (\<lambda>(r, c1, h1, s1). Inr (r, Some c1, h1, s1))"
proof (induction xs arbitrary: c h s)
  case (Cons x xs)
  then have x: "x \<noteq> []" and xs: "[] \<notin> set xs" by auto
  show ?case
    by (cases "receive_loop cb x c h s")
      (auto simp: mqtt_codec_bytesReceived_def x receive_loop_append Cons.IH [OF xs] split: prod.splits)
qed simp

section \<open>Packets on the wire\<close>

definition wire_ok :: "CONTROL_PACKET_TYPE \<Rightarrow> byte \<Rightarrow> byte list \<Rightarrow> bool" where
  "wire_ok t flags body \<longleftrightarrow> packet_ok t flags body \<or> t = PINGRESP_TYPE \<and> flags = 0 \<and> body = []"

definition content :: "byte list \<Rightarrow> BUFFER_HANDLE" where
  "content body = (if body = [] then None else full body)"

text \<open>A callback that returns, and of which \<open>g\<close> is the effect on its context.\<close>

definition delivers :: "'s callback \<Rightarrow> (CONTROL_PACKET_TYPE \<Rightarrow> byte \<Rightarrow> byte list \<Rightarrow> 's \<Rightarrow> 's) \<Rightarrow> bool" where
  "delivers cb g \<longleftrightarrow> (\<forall>t flags body h s. plenty h \<longrightarrow> wire_ok t flags body \<longrightarrow>
     (\<exists>h'. cb t flags (content body) h s = Inr (h', g t flags body s) \<and> plenty h'))"

lemma pingresp_received:
  assumes "codec_idle c"
  shows "receive_loop cb (frame PINGRESP_TYPE 0 []) c h s =
    completed (completePacketData cb (c\<lparr>currPacket := PINGRESP_TYPE, headerFlags := 0,
      codecState := CODEC_STATE_VAR_HEADER, remainLenIndex := 0, storeRemainLen := replicate 4 0\<rparr>) h s)"
proof -
  have r4: "replicate 4 (0 :: byte) = [0, 0, 0, 0]" by (simp add: numeral_eq_Suc)
  have "digits 0 = [0]" by (simp add: digits_1)
  then show ?thesis using assms processControlPacketType_byte [of PINGRESP_TYPE 0]
    by (cases "completePacketData cb (c\<lparr>currPacket := PINGRESP_TYPE, headerFlags := 0, codecState := CODEC_STATE_VAR_HEADER,
        remainLenIndex := 0, storeRemainLen := replicate 4 0\<rparr>) h s")
      (auto simp: frame_def receive_byte_def receive_fixed_header_def codec_idle_def real_type_def valid_header_def
        prepareheaderDataInfo_def write_at_def r4 Let_def MAX_3_DIGIT_PACKET_SIZE_def completed_def)
qed

lemma completed_idle:
  assumes "storeRemainLen c = replicate 4 0" "remainLenIndex c = 0"
    "cb (currPacket c) (headerFlags c) (headerData c) h s = Inr (h', s')"
  shows "\<exists>c'. completed (completePacketData (Some cb) c h s) = Inr (MU_OK, c', h', s') \<and> codec_idle c'"
  using assms by (simp add: completed_def completePacketData_def codec_idle_def)

lemma wire_received:
  assumes "codec_idle c" "plenty h" "wire_ok t flags body" "delivers cb g"
  shows "\<exists>c' h'. receive_loop (Some cb) (frame t flags body) c h s = Inr (MU_OK, c', h', g t flags body s) \<and>
    codec_idle c' \<and> plenty h'"
proof (cases "packet_ok t flags body")
  case True
  let ?h = "\<lambda>i. h (Suc (Suc i))"
  from assms(2) have p: "plenty ?h" "h 0 \<noteq> None" "h 1 \<noteq> None" by (auto simp: plenty_def)
  from assms(4) [unfolded delivers_def, rule_format, OF p(1) assms(3), of s] obtain h' where cb: "cb t flags (content body) ?h s = Inr (h', g t flags body s)" "plenty h'"
    by blast
  let ?c = "c\<lparr>currPacket := t, headerFlags := flags, codecState := CODEC_STATE_VAR_HEADER,
      headerData := full body, bufferOffset := length body\<rparr>"
  have "\<exists>c'. completed (completePacketData (Some cb) ?c ?h s) = Inr (MU_OK, c', h', g t flags body s) \<and> codec_idle c'"
    by (rule completed_idle) (use assms(1) cb(1) True in \<open>auto simp: codec_idle_def content_def packet_ok_def\<close>)
  with frame_received [OF assms(1) True p(2,3), of "Some cb" s] cb(2) show ?thesis by auto
next
  case False
  with assms(3) have ping: "t = PINGRESP_TYPE" "flags = 0" "body = []" by (auto simp: wire_ok_def)
  from assms(4) [unfolded delivers_def, rule_format, OF assms(2,3), of s] obtain h' where cb: "cb t flags (content body) h s = Inr (h', g t flags body s)" "plenty h'"
    by blast
  let ?c = "c\<lparr>currPacket := PINGRESP_TYPE, headerFlags := 0, codecState := CODEC_STATE_VAR_HEADER, remainLenIndex := 0,
      storeRemainLen := replicate 4 0\<rparr>"
  have "\<exists>c'. completed (completePacketData (Some cb) ?c h s) = Inr (MU_OK, c', h', g t flags body s) \<and> codec_idle c'"
    by (rule completed_idle) (use assms(1) cb(1) ping in \<open>auto simp: codec_idle_def content_def\<close>)
  with pingresp_received [OF assms(1), of "Some cb" h s] ping cb(2) show ?thesis by auto
qed

lemma stream_received:
  assumes "codec_idle c" "plenty h" "\<forall>(t, flags, body) \<in> set ps. wire_ok t flags body" "delivers cb g"
  shows "\<exists>c' h'. receive_loop (Some cb) (concat (map (\<lambda>(t, flags, body). frame t flags body) ps)) c h s =
      Inr (MU_OK, c', h', fold (\<lambda>(t, flags, body). g t flags body) ps s) \<and> codec_idle c' \<and> plenty h'"
  using assms(1-3)
proof (induction ps arbitrary: c h s)
  case (Cons p ps)
  obtain t flags body where p: "p = (t, flags, body)" by (cases p)
  from Cons.prems p have "wire_ok t flags body" by simp
  from wire_received [OF Cons.prems(1,2) this assms(4), of s] obtain c1 h1 where
    c1: "receive_loop (Some cb) (frame t flags body) c h s = Inr (MU_OK, c1, h1, g t flags body s)" "codec_idle c1" "plenty h1"
    by blast
  from Cons.IH [OF c1(2,3), of "g t flags body s"] Cons.prems(3) c1(1) p show ?case
    by (simp add: receive_loop_append)
qed simp

section \<open>Staying inside the storage\<close>

definition data_fits :: "BUFFER_HANDLE \<Rightarrow> bool" where
  "data_fits d \<longleftrightarrow> d = None \<or> (\<exists>xs. d = full xs \<and> length xs < MAX_3_DIGIT_PACKET_SIZE)"

definition codec_ok :: "MQTTCODEC_INSTANCE \<Rightarrow> bool" where
  "codec_ok c \<longleftrightarrow> length (storeRemainLen c) = 4 \<and> remainLenIndex c < 4 \<and> data_fits (headerData c) \<and>
     (codecState c = CODEC_STATE_VAR_HEADER \<longrightarrow> headerData c \<noteq> None \<longrightarrow>
        bufferOffset c < BUFFER_length (headerData c)) \<and>
     (codecState c = CODEC_STATE_FIXED_HEADER \<longrightarrow> headerData c = None)"

text \<open>A callback that returns for whatever fits, and keeps its context as \<open>P\<close> says.\<close>

definition callback_safe :: "('s \<Rightarrow> bool) \<Rightarrow> 's callback \<Rightarrow> bool" where
  "callback_safe P cb \<longleftrightarrow> (\<forall>t flags d h s. data_fits d \<longrightarrow> P s \<longrightarrow> (\<exists>h' s'. cb t flags d h s = Inr (h', s') \<and> P s'))"

definition stays :: "('s \<Rightarrow> bool) \<Rightarrow> 's receiving \<Rightarrow> bool" where
  "stays P m \<longleftrightarrow> (\<exists>r c h s. m = Inr (r, c, h, s) \<and> P s \<and> (r = MU_OK \<longrightarrow> codec_ok c))"

lemma stays_error [simp]: "stays P (packet_error c h s) \<longleftrightarrow> P s"
  by (simp add: stays_def packet_error_def)

lemma stays_ok [simp]: "stays P (Inr (MU_OK, c, h, s)) \<longleftrightarrow> codec_ok c \<and> P s"
  by (auto simp: stays_def)

lemma low_bit_clear: "(b :: byte) \<le> 0x7f \<Longrightarrow> b AND NEXT_128_CHUNK = 0"
  using byte_digits(5) [of "unat b"] by (simp add: word_le_nat_alt)

lemma total_len_returns:
  "\<exists>i < length es. es ! i AND NEXT_128_CHUNK = 0 \<Longrightarrow> \<exists>r. total_len es multiplier acc = Inr r"
proof (induction es arbitrary: multiplier acc)
  case (Cons e es)
  show ?case
  proof (cases "e AND NEXT_128_CHUNK = 0")
    case True
    then show ?thesis by (simp add: Let_def)
  next
    case False
    from Cons.prems obtain i where i: "i < length (e # es)" "(e # es) ! i AND NEXT_128_CHUNK = 0" by blast
    with False obtain j where "i = Suc j" by (cases i) auto
    with i have "\<exists>i < length es. es ! i AND NEXT_128_CHUNK = 0" by auto
    from Cons.IH [OF this] show ?thesis by (simp add: Let_def)
  qed
qed simp

lemma total_len_bound:
  "total_len es multiplier acc = Inr (Some n) \<Longrightarrow> acc < multiplier \<Longrightarrow> n < MAX_3_DIGIT_PACKET_SIZE"
proof (induction es arbitrary: multiplier acc)
  case (Cons e es)
  have "e AND 127 \<le> 127" by (rule word_and_le1)
  then have "unat (e AND 127) \<le> 127" by (simp add: word_le_nat_alt)
  then have "unat (e AND 127) * multiplier \<le> 127 * multiplier" by simp
  with Cons.prems(2) have less: "acc + unat (e AND 127) * multiplier < multiplier * 128" by linarith
  with Cons.prems Cons.IH [OF _ less] show ?case
    by (auto simp: Let_def split: if_splits)
qed simp

lemma header_stays:
  assumes "codec_ok c" "codecState c = CODEC_STATE_FIXED_HEADER"
  shows "\<exists>r c' h'. prepareheaderDataInfo c b h = Inr (r, c', h') \<and> currPacket c' = currPacket c \<and>
    (r = MU_OK \<longrightarrow> length (storeRemainLen c') = 4 \<and> remainLenIndex c' < 4 \<and> data_fits (headerData c') \<and>
       (codecState c' = CODEC_STATE_VAR_HEADER \<longrightarrow> headerData c' \<noteq> None \<longrightarrow> bufferOffset c' < BUFFER_length (headerData c')) \<and>
       (codecState c' = CODEC_STATE_FIXED_HEADER \<longrightarrow> headerData c' = None))"
proof -
  let ?es = "(storeRemainLen c)[remainLenIndex c := b]"
  from assms have len: "length (storeRemainLen c) = 4" "remainLenIndex c < 4" "headerData c = None"
    by (auto simp: codec_ok_def)
  have wr: "write_at (storeRemainLen c) (remainLenIndex c) [b] = Inr ?es"
    using len by (simp add: write_at_def upd_conv_take_nth_drop)
  show ?thesis
  proof (cases "b \<le> 0x7f")
    case False
    with wr len assms(2) show ?thesis
      by (cases "remainLenIndex c = 3") (auto simp: prepareheaderDataInfo_def data_fits_def Let_def)
  next
    case True
    have "\<exists>i < length ?es. ?es ! i AND NEXT_128_CHUNK = 0"
      using low_bit_clear [OF True] len by (intro exI [of _ "remainLenIndex c"]) simp
    from total_len_returns [OF this, of 1 0] obtain t where t: "total_len ?es 1 0 = Inr t" by blast
    show ?thesis
    proof (cases t)
      case None
      with wr t True show ?thesis by (simp add: prepareheaderDataInfo_def)
    next
      case (Some n)
      with total_len_bound [OF t [unfolded Some]] have n: "n < MAX_3_DIGIT_PACKET_SIZE" by simp
      then have n': "\<not> n > MAX_SEND_SIZE" "n < 2 ^ 31" by (simp_all add: MAX_3_DIGIT_PACKET_SIZE_def MAX_SEND_SIZE_def)
      show ?thesis
      proof (cases "h 0")
        case None
        with wr t Some True n' len show ?thesis
          by (auto simp: prepareheaderDataInfo_def Let_def BUFFER_new_def data_fits_def)
      next
        case h0: (Some g0)
        show ?thesis
        proof (cases "h 1")
          case None
          with h0 wr t Some True n' len show ?thesis
            by (auto simp: prepareheaderDataInfo_def Let_def BUFFER_new_def BUFFER_pre_build_def malloc_def data_fits_def)
        next
          case h1: (Some g)
          have "data_fits (Some \<lparr>buffer = Some (map g [0..<n]), bsize = n\<rparr>)"
            using n by (auto simp: data_fits_def full_def intro!: exI [of _ "map g [0..<n]"])
          with h0 h1 wr t Some True n' len show ?thesis
            by (auto simp: prepareheaderDataInfo_def Let_def BUFFER_new_def BUFFER_pre_build_def malloc_def
                data_fits_def BUFFER_length_def)
        qed
      qed
    qed
  qed
qed

lemma completed_stays:
  assumes "callback_safe P cb" "data_fits (headerData c)" "length (storeRemainLen c) = 4" "remainLenIndex c < 4" "P s"
  shows "stays P (completed (completePacketData (Some cb) c h s))"
proof -
  from assms(1,2,5) obtain h1 s1 where "cb (currPacket c) (headerFlags c) (headerData c) h s = Inr (h1, s1)" "P s1"
    by (force simp: callback_safe_def)
  with assms(3,4) show ?thesis
    by (simp add: completed_def completePacketData_def codec_ok_def data_fits_def)
qed

lemma receive_byte_stays:
  assumes "callback_safe P cb" "codec_ok c" "P s"
  shows "stays P (receive_byte (Some cb) c b h s)"
proof (cases "codecState c")
  case CODEC_STATE_FIXED_HEADER
  show ?thesis
  proof (cases "currPacket c = UNKNOWN_TYPE")
    case True
    with CODEC_STATE_FIXED_HEADER assms(2,3) show ?thesis
      by (auto simp: receive_byte_def receive_fixed_header_def codec_ok_def Let_def split: prod.split)
  next
    case False
    from header_stays [OF assms(2) CODEC_STATE_FIXED_HEADER, of b h] obtain r c' h' where
      p: "prepareheaderDataInfo c b h = Inr (r, c', h')" "r = MU_OK \<Longrightarrow> codec_ok c'"
      by (auto simp: codec_ok_def)
    from completed_stays [OF assms(1), where c = c' and h = h' and s = s] p(2) assms(3) have "r = MU_OK \<Longrightarrow>
      stays P (completed (completePacketData (Some cb) c' h' s))" by (auto simp: codec_ok_def)
    with p CODEC_STATE_FIXED_HEADER False assms(3) show ?thesis by (simp add: receive_byte_def receive_fixed_header_def)
  qed
next
  case CODEC_STATE_VAR_HEADER
  show ?thesis
  proof (cases "headerData c")
    case None
    with CODEC_STATE_VAR_HEADER assms(2,3) show ?thesis
      by (simp add: receive_byte_def receive_var_header_def codec_ok_def)
  next
    case (Some d)
    with assms(2) CODEC_STATE_VAR_HEADER obtain xs where d: "d = \<lparr>buffer = Some xs, bsize = length xs\<rparr>"
      "length xs < MAX_3_DIGIT_PACKET_SIZE" "bufferOffset c < length xs"
      by (auto simp: codec_ok_def data_fits_def full_def BUFFER_length_def)
    let ?xs = "xs[bufferOffset c := b]"
    let ?c = "c\<lparr>headerData := full ?xs, bufferOffset := bufferOffset c + 1\<rparr>"
    have st: "store_in d (bufferOffset c) [b] = Inr \<lparr>buffer = Some ?xs, bsize = length ?xs\<rparr>"
      using d by (simp add: store_in_def write_at_def upd_conv_take_nth_drop)
    have fits: "data_fits (full ?xs)" using d(2) by (auto simp: data_fits_def full_def)
    have fin: "stays P (completed (completePacketData (Some cb) ?c h s))"
      by (rule completed_stays [OF assms(1)]) (use fits assms(2,3) in \<open>simp_all add: codec_ok_def\<close>)
    have more: "bufferOffset c + 1 < length xs \<Longrightarrow> codec_ok ?c"
      using fits assms(2) CODEC_STATE_VAR_HEADER by (simp add: codec_ok_def full_def BUFFER_length_def)
    have "BUFFER_u_char (headerData c) = Some 0" using Some d by (auto simp: BUFFER_u_char_def)
    with Some st fin more assms(3) CODEC_STATE_VAR_HEADER show ?thesis
      by (auto simp: receive_byte_def receive_var_header_def full_def BUFFER_length_def Let_def not_le)
  qed
next
  case CODEC_STATE_PAYLOAD
  with assms(3) show ?thesis by (simp add: receive_byte_def)
qed

lemma receive_loop_stays:
  assumes "callback_safe P cb" "codec_ok c" "P s"
  shows "stays P (receive_loop (Some cb) bs c h s)"
  using assms(2,3)
proof (induction bs arbitrary: c h s)
  case (Cons b bs)
  from receive_byte_stays [OF assms(1) Cons.prems, of b h] obtain r c1 h1 s1 where
    "receive_byte (Some cb) c b h s = Inr (r, c1, h1, s1)" "P s1" "r = MU_OK \<Longrightarrow> codec_ok c1" by (auto simp: stays_def)
  with Cons.IH show ?case by (auto simp: stays_def)
qed simp

lemma idle_ok: "codec_idle c \<Longrightarrow> codec_ok c"
  by (simp add: codec_idle_def codec_ok_def data_fits_def)

section \<open>Lengths of four digits\<close>

lemma four_digits:
  assumes "MAX_3_DIGIT_PACKET_SIZE \<le> n" "n \<le> MAX_REMAINING"
  obtains a b c d where "a < 128" "b < 128" "c < 128" "d < 128"
    "digits n = [of_nat a OR NEXT_128_CHUNK, of_nat b OR NEXT_128_CHUNK, of_nat c OR NEXT_128_CHUNK, of_nat d]"
proof -
  let ?m = "n div 128" let ?k = "?m div 128" let ?j = "?k div 128"
  have big: "128 \<le> n" "128 \<le> ?m" "128 \<le> ?k" "?j < 128"
    using assms by (simp_all add: MAX_3_DIGIT_PACKET_SIZE_def MAX_REMAINING_def)
  then have "digits n = [of_nat (n mod 128) OR NEXT_128_CHUNK, of_nat (?m mod 128) OR NEXT_128_CHUNK,
      of_nat (?k mod 128) OR NEXT_128_CHUNK, of_nat ?j]"
    by (simp add: digits_more [of n] digits_more [of ?m] digits_more [of ?k] digits_1)
  then show ?thesis using that [of "n mod 128" "?m mod 128" "?k mod 128" ?j] big(4) by simp
qed

lemma four_digits_received:
  assumes "codecState c = CODEC_STATE_FIXED_HEADER" "currPacket c \<noteq> UNKNOWN_TYPE" "currPacket c \<noteq> PINGRESP_TYPE"
    "storeRemainLen c = replicate 4 0" "remainLenIndex c = 0"
    "MAX_3_DIGIT_PACKET_SIZE \<le> n" "n \<le> MAX_REMAINING"
  shows "\<exists>c'. receive_loop cb (digits n @ bs) c h s = Inr (MU_FAILURE, c', h, s) \<and> currPacket c' = PACKET_TYPE_ERROR"
proof -
  from four_digits [OF assms(6,7)] obtain i j k l where m: "i < 128" "j < 128" "k < 128" "l < 128"
    "digits n = [of_nat i OR NEXT_128_CHUNK, of_nat j OR NEXT_128_CHUNK, of_nat k OR NEXT_128_CHUNK, of_nat l]" .
  have r4: "replicate 4 (0 :: byte) = [0, 0, 0, 0]" by (simp add: numeral_eq_Suc)
  let ?c = "c\<lparr>storeRemainLen := [of_nat i OR NEXT_128_CHUNK, 0, 0, 0], remainLenIndex := 1\<rparr>"
  let ?c2 = "c\<lparr>storeRemainLen := [of_nat i OR NEXT_128_CHUNK, of_nat j OR NEXT_128_CHUNK, 0, 0], remainLenIndex := 2\<rparr>"
  let ?c3 = "c\<lparr>storeRemainLen := [of_nat i OR NEXT_128_CHUNK, of_nat j OR NEXT_128_CHUNK, of_nat k OR NEXT_128_CHUNK, 0],
    remainLenIndex := 3\<rparr>"
  have "receive_byte cb c (of_nat i OR NEXT_128_CHUNK) h s = Inr (MU_OK, ?c, h, s)"
    using high_digit [of c i cb h s] m assms by (simp add: r4)
  moreover have "receive_byte cb ?c (of_nat j OR NEXT_128_CHUNK) h s = Inr (MU_OK, ?c2, h, s)"
    using high_digit [of ?c j cb h s] m assms by (simp add: numeral_2_eq_2)
  moreover have "receive_byte cb ?c2 (of_nat k OR NEXT_128_CHUNK) h s = Inr (MU_OK, ?c3, h, s)"
    using high_digit [of ?c2 k cb h s] m assms by (simp add: numeral_2_eq_2 numeral_3_eq_3)
  moreover have "\<exists>c'. receive_byte cb ?c3 (of_nat l) h s = Inr (MU_FAILURE, c', h, s) \<and> currPacket c' = PACKET_TYPE_ERROR"
  proof -
    let ?es = "[of_nat i OR NEXT_128_CHUNK, of_nat j OR NEXT_128_CHUNK, of_nat k OR NEXT_128_CHUNK, of_nat l :: byte]"
    have "write_at (storeRemainLen ?c3) (remainLenIndex ?c3) [of_nat l] = Inr ?es"
      by (simp add: write_at_def numeral_3_eq_3)
    moreover have "total_len ?es 1 0 = Inr None"
      using byte_digits [OF m(1)] byte_digits [OF m(2)] byte_digits [OF m(3)] byte_digits [OF m(4)]
      by (simp add: MAX_3_DIGIT_PACKET_SIZE_def Let_def)
    ultimately show ?thesis using assms(1,2) byte_digits(2) [OF m(4)]
      by (simp add: receive_byte_def receive_fixed_header_def prepareheaderDataInfo_def Let_def packet_error_def)
  qed
  ultimately show ?thesis using m(5) by auto
qed

section \<open>Properties\<close>

text \<open>
  Claim C31. A stream of packets, cut into chunks in any way, is received as the packets: if no
  request for storage fails and the callback returns, each of the packets (of a type and with
  flags that MQTT has, with contents of up to 2097151 bytes) reaches the callback of the codec once,
  with its type, its flags and its content, in the order of the stream; after the last chunk the
  codec waits for the next packet.
\<close>

theorem packets_delivered:
  assumes "codec_idle c" "plenty h" "\<forall>(t, flags, body) \<in> set ps. wire_ok t flags body" "delivers cb g"
    "concat chunks = concat (map (\<lambda>(t, flags, body). frame t flags body) ps)" "[] \<notin> set chunks"
  shows "\<exists>c' h'. receive_chunks (Some cb) chunks (Some c) h s =
    Inr (MU_OK, Some c', h', fold (\<lambda>(t, flags, body). g t flags body) ps s) \<and> codec_idle c'"
  using stream_received [OF assms(1-4), of s] receive_chunks_loop [OF assms(6), of "Some cb" c h s] assms(5) by auto

text \<open>A context that keeps what it is given.\<close>

definition recorder :: "(CONTROL_PACKET_TYPE \<times> byte \<times> BUFFER_HANDLE) list callback" where
  "recorder t flags d h s = Inr (h, s @ [(t, flags, d)])"

definition new_codec :: MQTTCODEC_INSTANCE where
  "new_codec = \<lparr>currPacket = UNKNOWN_TYPE, codecState = CODEC_STATE_FIXED_HEADER, bufferOffset = 0, headerFlags = 0,
     headerData = None, storeRemainLen = replicate 4 0, remainLenIndex = 0\<rparr>"

lemma new_codec_idle: "codec_idle new_codec"
  by (simp add: new_codec_def codec_idle_def)

lemma recorder_delivers: "delivers recorder (\<lambda>t flags body s. s @ [(t, flags, content body)])"
  by (simp add: delivers_def recorder_def)

lemma packets_delivered_witness:
  "\<exists>c' h'. receive_chunks (Some recorder) [[0x40], [0x02, 0x12], [0x34, 0xD0], [0x00]] (Some new_codec) junk_mem [] =
    Inr (MU_OK, Some c', h', [(PUBACK_TYPE, 0, full [0x12, 0x34]), (PINGRESP_TYPE, 0, None)]) \<and> codec_idle c'"
proof -
  let ?ps = "[(PUBACK_TYPE, 0, [0x12, 0x34]), (PINGRESP_TYPE, 0, [])]"
  have ok: "\<forall>(t, flags, body) \<in> set ?ps. wire_ok t flags body"
    by (simp add: wire_ok_def packet_ok_def real_type_def valid_header_def MAX_3_DIGIT_PACKET_SIZE_def)
  have wire: "concat [[0x40], [0x02, 0x12], [0x34, 0xD0], [0x00]] = concat (map (\<lambda>(t, flags, body). frame t flags body) ?ps)"
    by (simp add: frame_def type_byte_def packet_type_values_def digits_1)
  have "[] \<notin> set [[0x40], [0x02, 0x12], [0x34, 0xD0], [0x00 :: byte]]" by simp
  from packets_delivered [OF new_codec_idle plenty_junk ok recorder_delivers wire this, of "[]"]
  show ?thesis by (simp add: content_def)
qed

text \<open>
  The encoder and the decoder disagree on long packets: a packet with a content from
  2097152 to 268435455 bytes, which the constructions build with a length of four digits as MQTT has
  it, is refused by the codec that receives it as soon as the last digit of the length has arrived.
\<close>

theorem four_digits_refused:
  assumes "codec_idle c" "real_type t" "t \<noteq> PINGRESP_TYPE" "flags < 16" "valid_header t flags"
    "MAX_3_DIGIT_PACKET_SIZE \<le> length body" "length body \<le> MAX_REMAINING"
  shows "\<exists>c'. receive_loop cb (frame t flags body) c h s = Inr (MU_FAILURE, c', h, s) \<and> currPacket c' = PACKET_TYPE_ERROR"
proof -
  let ?c = "c\<lparr>currPacket := t, headerFlags := flags\<rparr>"
  have "receive_byte cb c (type_byte t OR flags) h s = Inr (MU_OK, ?c, h, s)"
    using assms(1,5) processControlPacketType_byte [OF assms(2,4)]
    by (simp add: receive_byte_def receive_fixed_header_def codec_idle_def)
  moreover have "\<exists>c'. receive_loop cb (digits (length body) @ body) ?c h s = Inr (MU_FAILURE, c', h, s) \<and>
      currPacket c' = PACKET_TYPE_ERROR"
    by (rule four_digits_received) (use assms in \<open>auto simp: codec_idle_def real_type_def\<close>)
  ultimately show ?thesis by (auto simp: frame_def)
qed

lemma four_digits_refused_witness:
  "\<exists>c'. receive_loop (Some recorder) (frame PUBLISH_TYPE 0 (replicate 2097152 0)) new_codec junk_mem [] =
    Inr (MU_FAILURE, c', junk_mem, []) \<and> currPacket c' = PACKET_TYPE_ERROR"
  by (rule four_digits_refused [OF new_codec_idle])
    (simp_all add: real_type_def valid_header_def MAX_3_DIGIT_PACKET_SIZE_def MAX_REMAINING_def)

end
