(* ===== verification/Mqtt_Session.thy ===== *)
theory Mqtt_Session
  imports Mqtt_Stream Mqtt_Client
begin

text \<open>
  What the MQTT client does over whole sessions: whatever arrives and whatever the user calls, it
  stays inside its storage and sends well-formed packets only; messages, acknowledgements and
  pings as the protocol has them; and where it departs from the protocol.
\<close>

section \<open>What no operation touches\<close>

lemma options_kept [simp]:
  "mqttOptions (tell n m) = mqttOptions m" "mqttOptions (set_status f m) = mqttOptions m"
  "mqttOptions (clear_status f m) = mqttOptions m" "mqttOptions (snd (xio_close m)) = mqttOptions m"
  "mqttOptions (snd (xio_send bs m)) = mqttOptions m"
  by (simp_all add: tell_def set_status_def clear_status_def xio_close_def xio_send_def Let_def)

lemma sent_kept [simp]:
  "sent (tell n m) = sent m" "sent (set_status f m) = sent m" "sent (clear_status f m) = sent m"
  "sent (snd (xio_close m)) = sent m"
  by (simp_all add: tell_def set_status_def clear_status_def xio_close_def Let_def)

lemma closed_kept [simp]:
  "mqttOptions (on_connection_closed m) = mqttOptions m" "sent (on_connection_closed m) = sent m"
  by (simp_all add: on_connection_closed_def Let_def)

lemma close_kept [simp]:
  "mqttOptions (close_connection m) = mqttOptions m" "sent (close_connection m) = sent m"
proof -
  obtain polls m1 where x: "xio_close m = (polls, m1)" by (cases "xio_close m")
  then have "mqttOptions m1 = mqttOptions m" "sent m1 = sent m" using options_kept(4) [of m] sent_kept(4) [of m] by simp_all
  with x show "mqttOptions (close_connection m) = mqttOptions m" "sent (close_connection m) = sent m"
    by (simp_all add: close_connection_def Let_def split: option.split nat.split)
qed

lemma error_kept [simp]:
  "mqttOptions (set_error_callback e m) = mqttOptions m" "sent (set_error_callback e m) = sent m"
  by (simp_all add: set_error_callback_def)

section \<open>The invariant\<close>

definition well_formed :: "byte list \<Rightarrow> bool" where
  "well_formed bs \<longleftrightarrow> (\<exists>t flags body. bs = frame t flags body \<and> real_type t \<and> flags < 16 \<and> valid_header t flags \<and>
     length body \<le> MAX_REMAINING)"

text \<open>Options the code can send, and those of a client that has none.\<close>

definition connect_ok :: "MQTT_CLIENT_OPTIONS \<Rightarrow> bool" where
  "connect_ok opts \<longleftrightarrow> fields_ok opts \<and> (\<exists>c. clientId opts = Some c \<and> length c \<le> USHRT_MAX)"

definition texts_gone :: "MQTT_CLIENT_OPTIONS \<Rightarrow> bool" where
  "texts_gone opts \<longleftrightarrow> clientId opts = None \<and> willTopic opts = None \<and> willMessage opts = None \<and>
     username opts = None \<and> password opts = None"

definition fine :: "MQTT_CLIENT \<Rightarrow> bool" where
  "fine m \<longleftrightarrow> (connect_ok (mqttOptions m) \<or> texts_gone (mqttOptions m)) \<and> (\<forall>bs \<in> set (sent m). well_formed bs)"

definition client_ok :: "mqtt \<Rightarrow> bool" where
  "client_ok cm \<longleftrightarrow> (\<exists>c. fst cm = Some c \<and> codec_ok c) \<and> fine (snd cm)"

text \<open>Code that returns, in a state that satisfies \<open>P\<close>.\<close>

definition runs :: "('s \<Rightarrow> bool) \<Rightarrow> ('a \<times> 's) outcome \<Rightarrow> bool" where
  "runs P r \<longleftrightarrow> (\<exists>h s. r = Inr (h, s) \<and> P s)"

lemma runs_Inr [simp]: "runs P (Inr (h, s)) \<longleftrightarrow> P s"
  by (simp add: runs_def)

lemma fine_simps [simp]:
  "fine (tell n m) = fine m" "fine (set_status f m) = fine m" "fine (clear_status f m) = fine m"
  "fine (on_connection_closed m) = fine m" "fine (close_connection m) = fine m" "fine (set_error_callback e m) = fine m"
  by (simp_all add: fine_def)

lemma fine_cong: "mqttOptions m' = mqttOptions m \<Longrightarrow> sent m' = sent m \<Longrightarrow> fine m' = fine m"
  by (simp add: fine_def)

section \<open>Sending\<close>

lemma frame_two: "length body = 2 \<Longrightarrow> frame t flags body = [type_byte t OR flags, 2] @ body"
  by (simp add: frame_def digits_1)

lemma well_formed_frame:
  "real_type t \<Longrightarrow> flags < 16 \<Longrightarrow> valid_header t flags \<Longrightarrow> length body \<le> MAX_REMAINING \<Longrightarrow> well_formed (frame t flags body)"
  by (auto simp: well_formed_def)

lemma packet_bytes_contains: "contains pkt bs \<Longrightarrow> packet_bytes pkt = Inr bs"
  by (auto simp: contains_def packet_bytes_def BUFFER_length_def read_from_def)

lemma sendPacketItem_fine:
  assumes "well_formed bs" "fine m"
  obtains r m' where "sendPacketItem bs m = (r, m')" "fine m'"
proof -
  have "fine (snd (sendPacketItem bs m))"
    using assms by (auto simp: sendPacketItem_def tickcounter_get_current_ms_def xio_send_def fine_def Let_def split: option.split)
  then show ?thesis using that by (cases "sendPacketItem bs m") auto
qed

lemma gives_cases:
  assumes "gives h m xs"
  obtains (null) h' where "m = Inr (None, h')" "\<not> plenty h"
  | (built) pkt h' where "m = Inr (pkt, h')" "pkt \<noteq> None" "contains pkt xs" "plenty h \<Longrightarrow> plenty h'"
  using assms by (auto simp: gives_def contains_def)

lemma reply_runs:
  assumes "gives h (build h) bs" "well_formed bs" "fine m"
  shows "runs fine (reply_with build h m)"
  using assms(1)
proof (cases rule: gives_cases)
  case (null h')
  with assms(3) show ?thesis by (simp add: reply_with_def)
next
  case (built pkt h')
  obtain r m' where "sendPacketItem bs m = (r, m')" "fine m'" by (rule sendPacketItem_fine [OF assms(2,3)])
  with built packet_bytes_contains [OF built(3)] assms(3) show ?thesis by (simp add: reply_with_def send_packet_def)
qed

lemma publish_reply_runs:
  assumes "real_type t" "flags < 16" "valid_header t flags" "fine m"
  shows "runs fine (reply_with (constructPublishReply t flags i) h m)"
  by (rule reply_runs [OF reply_gives])
    (use assms well_formed_frame [OF assms(1-3), of "be16 i"] in \<open>simp_all add: frame_two MAX_REMAINING_def\<close>)

lemma replies_run:
  assumes "fine m"
  shows "runs fine (reply_with (mqtt_codec_publishAck i) h m)" "runs fine (reply_with (mqtt_codec_publishReceived i) h m)"
    "runs fine (reply_with (mqtt_codec_publishRelease i) h m)" "runs fine (reply_with (mqtt_codec_publishComplete i) h m)"
  unfolding mqtt_codec_publishAck_def mqtt_codec_publishReceived_def mqtt_codec_publishRelease_def
    mqtt_codec_publishComplete_def
  by (rule publish_reply_runs; simp add: assms real_type_def valid_header_def)+

section \<open>Receiving\<close>

lemma read_uint16_runs:
  assumes "n \<le> length it"
  obtains v k where "byteutil_read_uint16 it n = Inr (v, drop k it)" "k \<le> n"
proof (cases "2 \<le> n")
  case True
  with assms obtain a b rest where it: "it = a # b # rest" by (cases it; cases "tl it") auto
  with True that [of "256 * ucast a + ucast b" 2] show ?thesis by (simp add: byteutil_read_uint16_def)
next
  case False
  with that [of 0 0] show ?thesis by (simp add: byteutil_read_uint16_def)
qed

lemma readUTF_runs:
  obtains r k n h' where "byteutil_readUTF it (length it) h = Inr (r, drop k it, n, h')" "k \<le> length it"
proof -
  from read_uint16_runs [OF order_refl] obtain v k where v: "byteutil_read_uint16 it (length it) = Inr (v, drop k it)" "k \<le> length it" .
  show ?thesis
  proof (cases "v > 0 \<and> unat v + k \<le> length it")
    case False
    with v that [of None k "length it" h] show ?thesis by (auto simp: byteutil_readUTF_def)
  next
    case True
    then have "unat v \<le> length it - k" by linarith
    then have rd: "read_from (Some (drop k it)) (unat v) = Inr (take (unat v) (drop k it))" by (simp add: read_from_def)
    show ?thesis
    proof (cases "malloc (unat v + 1) h")
      case (Pair q h1)
      with v True rd that [of None k "length it" h1] that [of "Some (take (unat v) (drop k it))" "unat v + k" "unat v" h1]
      show ?thesis by (cases q) (auto simp: byteutil_readUTF_def)
    qed
  qed
qed

lemma message_runs:
  assumes "fine m"
  shows "runs fine (case mqttmessage_create_in_place pid topic qos' d n h of
      (None, h2) \<Rightarrow> Inr (h2, set_error_callback MQTT_CLIENT_MEMORY_ERROR m)
    | (msg, h2) \<Rightarrow>
        (case mqttmessage_setIsDuplicateMsg msg isDuplicate of (r1, msg1) \<Rightarrow>
         case mqttmessage_setIsRetained msg1 isRetain of (r2, msg2) \<Rightarrow>
           if r1 \<noteq> MU_OK \<or> r2 \<noteq> MU_OK then Inr (h2, set_error_callback MQTT_CLIENT_MEMORY_ERROR m)
           else
             (let m1 = tell (Message (the msg2)) m
              in if qos = DELIVER_EXACTLY_ONCE then reply_with (mqtt_codec_publishReceived pid) h2 m1
                 else if qos = DELIVER_AT_LEAST_ONCE then reply_with (mqtt_codec_publishAck pid) h2 m1
                 else Inr (h2, m1))))"
proof -
  obtain msg h2 where msg: "mqttmessage_create_in_place pid topic qos' d n h = (msg, h2)" by fastforce
  show ?thesis using assms replies_run
    by (cases msg) (simp_all add: msg mqttmessage_setIsDuplicateMsg_def mqttmessage_setIsRetained_def Let_def)
qed

lemma publish_runs:
  assumes "fine m"
  shows "runs fine (ProcessPublishMessage it (length it) flags h m)"
proof -
  let ?q = "publish_qos flags"
  obtain topic k n h1 where t: "byteutil_readUTF it (length it) h = Inr (topic, drop k it, n, h1)" "k \<le> length it"
    by (rule readUTF_runs [of it h])
  obtain v j where v: "(if ?q \<noteq> DELIVER_AT_MOST_ONCE then byteutil_read_uint16 (drop k it) (length it - k)
      else Inr (0, drop k it)) = Inr (v, drop j (drop k it))"
  proof (cases "?q = DELIVER_AT_MOST_ONCE")
    case True
    with that [of 0 0] show ?thesis by simp
  next
    case False
    obtain v j where "byteutil_read_uint16 (drop k it) (length it - k) = Inr (v, drop j (drop k it))"
      by (rule read_uint16_runs [of "length it - k" "drop k it"]) simp_all
    with False that show ?thesis by simp
  qed
  have "length it - (length it - length (drop k it)) = length it - k" "length it - length (drop k it) = k"
    using t(2) by simp_all
  then show ?thesis
    using assms t v by (auto simp: ProcessPublishMessage_def Let_def simp del: drop_drop intro!: message_runs)
qed

lemma suback_runs:
  "n \<le> length it \<Longrightarrow> length ds + n \<le> cap \<Longrightarrow> runs (\<lambda>_. True) (suback_codes cap n it ds)"
proof (induction n arbitrary: it ds)
  case (Suc n)
  then obtain a rest where "it = a # rest" by (cases it) auto
  with Suc show ?case
    by (cases "a AND 124 = 0") (simp_all add: byteutil_readByte_def)
qed simp

lemma recv_suback_runs:
  assumes "fine m" "it \<noteq> []" "length it < MAX_3_DIGIT_PACKET_SIZE"
  shows "runs fine (recv_suback it (length it) h m)"
proof (cases "length it = 1")
  case True
  then show ?thesis using assms(1)
    by (simp add: recv_suback_def byteutil_read_uint16_def malloc_def Let_def)
next
  case False
  with assms(2) obtain a b rest where it: "it = a # b # rest" by (cases it; cases "tl it") auto
  have "length rest < 2097152" using assms(3) it by (simp add: MAX_3_DIGIT_PACKET_SIZE_def)
  then have len: "(length it + (2 ^ 32 - 2)) mod 2 ^ 32 = length rest" "(4 * length rest) mod 2 ^ 32 = 4 * length rest"
    using it by simp_all
  obtain codes bad where "suback_codes (length rest) (length rest) rest [] = Inr (codes, bad)"
    using suback_runs [of "length rest" rest "[]" "length rest"] by (auto simp: runs_def)
  with it len assms(1) show ?thesis
    by (auto simp: recv_suback_def byteutil_read_uint16_def Let_def simp del: length_Cons split: prod.split option.split)
qed

lemma recv_callback_safe: "callback_safe fine recvCompleteCallback"
  unfolding callback_safe_def
proof (intro allI impI)
  fix t flags d h m
  assume d: "data_fits d" and m: "fine m"
  have "runs fine (recvCompleteCallback t flags d h m)"
  proof (cases "d = None \<or> d = full []")
    case True
    then show ?thesis using m
      by (auto simp: recvCompleteCallback_def BUFFER_length_def BUFFER_u_char_def full_def Let_def fine_def tell_def)
  next
    case False
    with d obtain it where it: "d = full it" "it \<noteq> []" "length it < MAX_3_DIGIT_PACKET_SIZE" by (auto simp: data_fits_def)
    have u: "BUFFER_length d = length it" "BUFFER_u_char d \<noteq> None" "Option.bind d buffer = Some it"
      using it by (simp_all add: full_def BUFFER_length_def BUFFER_u_char_def)
    obtain b0 rest where b0: "it = b0 # rest" using it(2) by (cases it) auto
    have "runs fine (recv_connack it (length it) h m)"
      using m b0 by (cases rest) (auto simp: recv_connack_def byteutil_readByte_def Let_def)
    moreover have "runs fine (recv_puback t it (length it) h m)"
      using m b0 by (cases rest) (auto simp: recv_puback_def byteutil_read_uint16_def Let_def replies_run)
    moreover have "runs fine (recv_unsuback it (length it) h m)"
      using m b0 by (cases rest) (auto simp: recv_unsuback_def byteutil_read_uint16_def)
    moreover note publish_runs [OF m, of it flags h] recv_suback_runs [OF m it(2,3), of h]
    moreover have "fine (m\<lparr>timeSincePing := 0\<rparr>)" using m by (simp add: fine_def)
    ultimately show ?thesis using m it(2)
      by (auto simp: recvCompleteCallback_def u Let_def)
  qed
  then show "\<exists>h' s'. recvCompleteCallback t flags d h m = Inr (h', s') \<and> fine s'" by (simp add: runs_def)
qed

section \<open>Events\<close>

lemma connect_body_bound:
  assumes "connect_ok opts"
  shows "length (connect_body opts) \<le> MAX_REMAINING"
proof -
  have f: "length (field s) \<le> 65537" if "field_ok s" for s
    using that by (cases s) (auto simp: field_def field_ok_def USHRT_MAX_def)
  from assms obtain c where c: "clientId opts = Some c" "length c \<le> USHRT_MAX" and ok: "fields_ok opts"
    by (auto simp: connect_ok_def)
  then have "length (field (clientId opts)) \<le> 65537" by (simp add: field_def USHRT_MAX_def)
  moreover have "length (field (willTopic opts)) \<le> 65537" "length (field (willMessage opts)) \<le> 65537"
    "length (field (username opts)) \<le> 65537" "length (field (password opts)) \<le> 65537"
    using ok f by (simp_all add: fields_ok_def)
  moreover have "length connect_head = 7" by (simp add: connect_head_length CONN_FLAG_BYTE_OFFSET_def)
  ultimately show ?thesis by (simp add: connect_body_def connect_fields_def MAX_REMAINING_def)
qed

lemma connect_well_formed: "connect_ok opts \<Longrightarrow> well_formed (frame CONNECT_TYPE 0 (connect_body opts))"
  by (rule well_formed_frame) (simp_all add: real_type_def valid_header_def connect_body_bound)

lemma connect_nothing:
  assumes "texts_gone opts"
  obtains h' where "mqtt_codec_connect (Some opts) h = Inr (None, h')"
proof (cases rule: new_cases [of h])
  case none
  with that show ?thesis by (simp add: mqtt_codec_connect_def)
next
  case (some b)
  from connect_header_builds [OF some(2), of "\<lambda>i. h (Suc i)" opts] obtain r pkt h1 where
    p: "constructConnectVariableHeader (Some b) opts (\<lambda>i. h (Suc i)) = Inr (r, pkt, h1)"
    "r = MU_OK \<Longrightarrow> contains pkt (connect_head @ 0 # be16 (keepAliveInterval opts))" by (auto simp: builds_def)
  have "BUFFER_enlarge pkt 0 h1 = (MU_FAILURE, pkt, h1)" by (simp add: BUFFER_enlarge_def split: option.split)
  moreover have "conn_total_len opts = 0" "opt_len (clientId opts) = 0" "opt_len (username opts) = 0" "opt_len (password opts) = 0"
    "opt_len (willTopic opts) = 0" "opt_len (willMessage opts) = 0"
    using assms by (simp_all add: texts_gone_def conn_total_len_def opt_len_def opt_space_def)
  ultimately have "constructConnPayload pkt opts h1 = Inr (MU_FAILURE, pkt, h1)"
    by (simp add: constructConnPayload_def Let_def)
  with some(1) p that show ?thesis
    by (cases "r = MU_OK") (simp_all add: mqtt_codec_connect_def then_part_def)
qed

lemma onOpenComplete_runs:
  assumes "fine m"
  shows "runs fine (onOpenComplete r h m)"
proof (cases "r = IO_OPEN_OK \<and> \<not> has_status MQTT_STATUS_SOCKET_CONNECTED m")
  case False
  with assms show ?thesis by (auto simp: onOpenComplete_def)
next
  case True
  let ?m = "set_status MQTT_STATUS_SOCKET_CONNECTED (m\<lparr>packetState := CONNECT_TYPE\<rparr>)"
  have m: "fine ?m" "mqttOptions ?m = mqttOptions m" using assms by (simp_all add: fine_def)
  from assms consider "texts_gone (mqttOptions m)" | "connect_ok (mqttOptions m)" by (auto simp: fine_def)
  then show ?thesis
  proof cases
    case 1
    from connect_nothing [OF this, of h] obtain h' where "mqtt_codec_connect (Some (mqttOptions m)) h = Inr (None, h')" .
    with True m show ?thesis by (simp add: onOpenComplete_def Let_def)
  next
    case 2
    let ?bs = "frame CONNECT_TYPE 0 (connect_body (mqttOptions m))"
    from 2 have g: "gives h (mqtt_codec_connect (Some (mqttOptions m)) h) ?bs"
      by (auto simp: connect_ok_def intro!: connect_gives connect_body_bound)
    obtain r' m' where send: "sendPacketItem ?bs ?m = (r', m')" "fine m'"
      by (rule sendPacketItem_fine [OF connect_well_formed [OF 2] m(1)])
    from g show ?thesis
    proof (cases rule: gives_cases)
      case (null h')
      with True m show ?thesis by (simp add: onOpenComplete_def Let_def)
    next
      case (built pkt h')
      with packet_bytes_contains [OF built(3)] True m send show ?thesis
        by (simp add: onOpenComplete_def Let_def send_packet_def)
    qed
  qed
qed

lemma reset_ok: "codec_ok (clear_codec_data c)"
  by (simp add: clear_codec_data_def codec_ok_def data_fits_def)

lemma onBytesReceived_runs:
  assumes "client_ok cm"
  shows "runs client_ok (onBytesReceived bs h cm)"
proof -
  from assms obtain c m where cm: "cm = (Some c, m)" "codec_ok c" "fine m" by (cases cm) (auto simp: client_ok_def)
  show ?thesis
  proof (cases "bs = []")
    case True
    with cm reset_ok show ?thesis
      by (simp add: onBytesReceived_def mqtt_codec_bytesReceived_def mqtt_codec_reset_def client_ok_def)
  next
    case False
    from receive_loop_stays [OF recv_callback_safe cm(2,3), of bs h] obtain r c' h' m' where
      "receive_loop (Some recvCompleteCallback) bs c h m = Inr (r, c', h', m')" "fine m'" "r = MU_OK \<Longrightarrow> codec_ok c'"
      by (auto simp: stays_def)
    with False cm reset_ok show ?thesis
      by (auto simp: onBytesReceived_def mqtt_codec_bytesReceived_def mqtt_codec_reset_def client_ok_def)
  qed
qed

lemma event_runs:
  assumes "client_ok cm"
  shows "runs client_ok (handle_event e h cm)"
proof (cases e)
  case (Open_complete r)
  from assms onOpenComplete_runs [of "snd cm" r h] show ?thesis by (auto simp: Open_complete client_ok_def runs_def)
next
  case (Bytes_received bs)
  with assms onBytesReceived_runs show ?thesis by simp
next
  case (Send_complete r)
  with assms show ?thesis by (simp add: client_ok_def sendComplete_def)
qed (use assms in \<open>simp_all add: client_ok_def onIoError_def\<close>)

lemma dowork_runs: "client_ok cm \<Longrightarrow> runs client_ok (xio_dowork es h cm)"
proof (induction es arbitrary: h cm)
  case (Cons e es)
  from event_runs [OF Cons.prems, of e h] Cons.IH show ?case by (auto simp: runs_def)
qed simp

section \<open>The calls of the user\<close>

text \<open>What a call returns besides its result: a state that satisfies \<open>P\<close>.\<close>

definition returns :: "('s \<Rightarrow> bool) \<Rightarrow> (mu \<times> mem \<times> 's) outcome \<Rightarrow> bool" where
  "returns P r \<longleftrightarrow> (\<exists>u h s. r = Inr (u, h, s) \<and> P s)"

lemma returns_Inr [simp]: "returns P (Inr (u, h, s)) \<longleftrightarrow> P s"
  by (simp add: returns_def)

lemma send_built_returns:
  assumes "gives h built bs" "well_formed bs" "fine m"
  shows "returns fine (send_built t built m)"
  using assms(1)
proof (cases rule: gives_cases)
  case (null h')
  with assms(3) show ?thesis by (simp add: send_built_def)
next
  case (built pkt h')
  have "fine (m\<lparr>packetState := t\<rparr>)" using assms(3) by (simp add: fine_def)
  from sendPacketItem_fine [OF assms(2) this] obtain r m' where "sendPacketItem bs (m\<lparr>packetState := t\<rparr>) = (r, m')" "fine m'" .
  with built packet_bytes_contains [OF built(3)] assms(3) show ?thesis by (simp add: send_built_def send_packet_def)
qed

definition payload_of :: "MQTT_MESSAGE \<Rightarrow> APP_PAYLOAD" where
  "payload_of msg = (if plength (const_payload msg) > 0 then const_payload msg else appPayload msg)"

definition message_data :: "MQTT_MESSAGE \<Rightarrow> byte list" where
  "message_data msg = (case message (payload_of msg) of None \<Rightarrow> [] | Some bs \<Rightarrow> bs)"

text \<open>A message that \<open>mqtt_client_publish\<close> can send: its content is there, and MQTT has a length for it.\<close>

definition message_ok :: "MQTT_MESSAGE \<Rightarrow> bool" where
  "message_ok msg \<longleftrightarrow>
    plength (payload_of msg) = length (message_data msg) \<and>
    (case mqttmessage_getTopicName (Some msg) of None \<Rightarrow> True
     | Some topic \<Rightarrow> length topic \<le> USHRT_MAX \<and>
         length (publish_body (qosInfo msg) (packetId msg) topic (message_data msg)) \<le> MAX_REMAINING)"

lemma publish_flags_small: "publish_flags q dup retain < 16"
proof -
  have "publish_flags q dup retain \<in> {0, 1, 2, 3, 4, 5, 8, 9, 10, 11, 12, 13}"
    by (simp add: publish_flags_def PUBLISH_DUP_FLAG_def PUBLISH_QOS_RETAIN_def PUBLISH_QOS_AT_LEAST_ONCE_def
        PUBLISH_QOS_EXACTLY_ONCE_def Let_def)
  then show ?thesis by auto
qed

lemma publish_returns:
  assumes "message_ok msg" "fine m"
  shows "returns fine (mqtt_client_publish (Some msg) h m)"
proof -
  let ?p = "payload_of msg"
  have p: "mqttmessage_getApplicationMsg (Some msg) = Some ?p"
    by (simp add: mqttmessage_getApplicationMsg_def payload_of_def)
  have g: "mqttmessage_getQosType (Some msg) = qosInfo msg" "mqttmessage_getPacketId (Some msg) = packetId msg"
    by (simp_all add: mqttmessage_getQosType_def mqttmessage_getPacketId_def)
  show ?thesis
  proof (cases "mqttmessage_getTopicName (Some msg)")
    case None
    then show ?thesis using assms(2)
      by (simp add: mqtt_client_publish_def p send_built_def mqtt_codec_publish_def)
  next
    case (Some topic)
    let ?data = "message_data msg" and ?q = "qosInfo msg" and ?i = "packetId msg"
    let ?flags = "publish_flags ?q (mqttmessage_getIsDuplicateMsg (Some msg)) (mqttmessage_getIsRetained (Some msg))"
    from assms(1) Some have ok: "length topic \<le> USHRT_MAX" "length (publish_body ?q ?i topic ?data) \<le> MAX_REMAINING"
      "plength ?p = length ?data" by (simp_all add: message_ok_def)
    have data: "?data \<noteq> [] \<Longrightarrow> message ?p = Some ?data"
      by (simp add: message_data_def split: option.splits)
    have built: "gives h (mqtt_codec_publish ?q d r ?i (Some topic) (message ?p) (length ?data) h)
        (frame PUBLISH_TYPE (publish_flags ?q d r) (publish_body ?q ?i topic ?data))" for d r
      by (rule publish_gives [OF ok(1,2) data])
    have wf: "well_formed (frame PUBLISH_TYPE ?flags (publish_body ?q ?i topic ?data))"
      by (rule well_formed_frame) (simp_all add: real_type_def valid_header_def publish_flags_small ok(2))
    show ?thesis using send_built_returns [OF built wf assms(2)]
      by (simp add: mqtt_client_publish_def p g Some ok(3))
  qed
qed

lemma created_message_ok:
  assumes "mqttmessage_create i (Some topic) q (Some data) (length data) h = Inr (Some msg, h')"
    "length topic \<le> USHRT_MAX" "length (publish_body q i topic data) \<le> MAX_REMAINING"
  shows "message_ok msg"
  using assms
  by (auto simp: mqttmessage_create_def create_msg_object_def mallocAndStrcpy_s_def message_ok_def payload_of_def
      message_data_def mqttmessage_getTopicName_def no_payload_def read_from_def malloc_def
      split: if_splits option.splits)

lemma subscribe_returns:
  assumes "\<forall>(t, q) \<in> set ts. length t \<le> USHRT_MAX" "length (subscribe_body i ts) \<le> MAX_REMAINING" "fine m"
  shows "returns fine (mqtt_client_subscribe i (Some ts) h m)"
proof (cases "ts = [] \<or> i = 0")
  case True
  with assms(3) show ?thesis by (auto simp: mqtt_client_subscribe_def)
next
  case False
  have "well_formed (frame SUBSCRIBE_TYPE 2 (subscribe_body i ts))"
    by (rule well_formed_frame) (simp_all add: real_type_def valid_header_def assms(2))
  from send_built_returns [OF subscribe_gives [OF _ assms(1,2)] this assms(3)] False show ?thesis
    by (simp add: mqtt_client_subscribe_def)
qed

lemma unsubscribe_returns:
  assumes "\<forall>t \<in> set ts. length t \<le> USHRT_MAX" "length (unsubscribe_body i ts) \<le> MAX_REMAINING" "fine m"
  shows "returns fine (mqtt_client_unsubscribe i (Some ts) h m)"
proof (cases "ts = [] \<or> i = 0")
  case True
  with assms(3) show ?thesis by (auto simp: mqtt_client_unsubscribe_def)
next
  case False
  have "well_formed (frame UNSUBSCRIBE_TYPE 2 (unsubscribe_body i ts))"
    by (rule well_formed_frame) (simp_all add: real_type_def valid_header_def assms(2))
  from send_built_returns [OF unsubscribe_gives [OF _ assms(1,2)] this assms(3)] False show ?thesis
    by (simp add: mqtt_client_unsubscribe_def)
qed

lemma two_bytes_frame: "[type_byte t, 0] = frame t 0 []"
  by (simp add: frame_def digits_1)

lemma disconnect_gives: "gives h (mqtt_codec_disconnect h) (frame DISCONNECT_TYPE 0 [])"
  unfolding mqtt_codec_disconnect_def two_bytes_frame [symmetric] by (rule two_bytes_gives)

lemma ping_gives: "gives h (mqtt_codec_ping h) (frame PINGREQ_TYPE 0 [])"
  unfolding mqtt_codec_ping_def two_bytes_frame [symmetric] by (rule two_bytes_gives)

lemma empty_well_formed: "real_type t \<Longrightarrow> valid_header t 0 \<Longrightarrow> well_formed (frame t 0 [])"
  by (rule well_formed_frame) simp_all

lemma clear_fine: "fine m \<Longrightarrow> fine (clear_mqtt_options m)"
  by (simp add: fine_def clear_mqtt_options_def texts_gone_def)

lemma disconnect_returns:
  assumes "fine m"
  shows "returns fine (mqtt_client_disconnect cb h m)"
proof (cases "has_status MQTT_STATUS_CLIENT_CONNECTED m")
  case False
  have "fine (close_connection (m\<lparr>disconnect_cb := cb\<rparr>))" using assms by (simp add: fine_def)
  with False show ?thesis by (simp add: mqtt_client_disconnect_def clear_fine)
next
  case True
  from disconnect_gives [of h] show ?thesis
  proof (cases rule: gives_cases)
    case (null h')
    have "fine (m\<lparr>packetState := PACKET_TYPE_ERROR\<rparr>)" using assms by (simp add: fine_def)
    with True null show ?thesis by (simp add: mqtt_client_disconnect_def clear_fine)
  next
    case (built pkt h')
    let ?m = "m\<lparr>disconnect_cb := cb, packetState := DISCONNECT_TYPE\<rparr>"
    have wf: "well_formed (frame DISCONNECT_TYPE 0 [])"
      by (rule empty_well_formed) (simp_all add: real_type_def valid_header_def)
    have "fine ?m" using assms by (simp add: fine_def)
    from sendPacketItem_fine [OF wf this] obtain r m' where "sendPacketItem (frame DISCONNECT_TYPE 0 []) ?m = (r, m')" "fine m'" .
    with True built packet_bytes_contains [OF built(3)] show ?thesis
      by (auto simp: mqtt_client_disconnect_def send_packet_def clear_fine)
  qed
qed

text \<open>A text of the options after a connect: the new one, or else the one of before.\<close>

definition newer :: "cstr option \<Rightarrow> cstr option \<Rightarrow> cstr option" where
  "newer new old = (case new of None \<Rightarrow> old | Some t \<Rightarrow> Some t)"

definition merged :: "MQTT_CLIENT_OPTIONS \<Rightarrow> MQTT_CLIENT_OPTIONS \<Rightarrow> MQTT_CLIENT_OPTIONS" where
  "merged opts old = opts\<lparr>clientId := newer (clientId opts) (clientId old), willTopic := newer (willTopic opts) (willTopic old),
     willMessage := newer (willMessage opts) (willMessage old), username := newer (username opts) (username old),
     password := newer (password opts) (password old)\<rparr>"

lemma clone_field_ok: "clone_field new old h = (MU_OK, c, h') \<Longrightarrow> c = newer new old"
  by (auto simp: clone_field_def newer_def mallocAndStrcpy_s_def split: option.splits prod.splits)

lemma clone_field_plenty:
  assumes "plenty h" "\<And>t. new = Some t \<Longrightarrow> length t \<le> USHRT_MAX"
  obtains h' where "clone_field new old h = (MU_OK, newer new old, h')" "plenty h'"
proof (cases new)
  case None
  with assms(1) that show ?thesis by (simp add: clone_field_def newer_def)
next
  case (Some t)
  from assms(1) obtain g where "h 0 = Some g" by (auto simp: plenty_def)
  with Some assms that [of "\<lambda>i. h (Suc i)"] show ?thesis
    by (simp add: clone_field_def mallocAndStrcpy_s_def malloc_def newer_def USHRT_MAX_def)
qed

lemma clone_cases:
  obtains (failed) h' opts' where "cloneMqttOptions opts h m = (MU_FAILURE, h', clear_mqtt_options (m\<lparr>mqttOptions := opts'\<rparr>))"
  | (copied) h' where "cloneMqttOptions opts h m = (MU_OK, h', m\<lparr>mqttOptions := merged opts (mqttOptions m)\<rparr>)"
proof -
  let ?old = "mqttOptions m"
  obtain r1 c h1 where 1: "clone_field (clientId opts) (clientId ?old) h = (r1, c, h1)" by (metis prod.exhaust)
  obtain r2 wt h2 where 2: "(if r1 = MU_OK then clone_field (willTopic opts) (willTopic ?old) h1 else (r1, willTopic ?old, h1)) = (r2, wt, h2)"
    by (metis prod.exhaust)
  obtain r3 wm h3 where 3: "(if r2 = MU_OK then clone_field (willMessage opts) (willMessage ?old) h2 else (r2, willMessage ?old, h2)) = (r3, wm, h3)"
    by (metis prod.exhaust)
  obtain r4 u h4 where 4: "(if r3 = MU_OK then clone_field (username opts) (username ?old) h3 else (r3, username ?old, h3)) = (r4, u, h4)"
    by (metis prod.exhaust)
  obtain r5 p h5 where 5: "(if r4 = MU_OK then clone_field (password opts) (password ?old) h4 else (r4, password ?old, h4)) = (r5, p, h5)"
    by (metis prod.exhaust)
  let ?opts = "?old\<lparr>clientId := c, willTopic := wt, willMessage := wm, username := u, password := p\<rparr>"
  show ?thesis
  proof (cases "r5 = MU_OK")
    case False
    with 1 2 3 4 5 failed [of h5 ?opts] show ?thesis by (simp add: cloneMqttOptions_def Let_def)
  next
    case True
    then have r: "r4 = MU_OK" "r3 = MU_OK" "r2 = MU_OK" "r1 = MU_OK" using 2 3 4 5 by (auto split: if_splits)
    with 1 2 3 4 5 True have n: "c = newer (clientId opts) (clientId ?old)" "wt = newer (willTopic opts) (willTopic ?old)"
      "wm = newer (willMessage opts) (willMessage ?old)" "u = newer (username opts) (username ?old)"
      "p = newer (password opts) (password ?old)" by (auto dest: clone_field_ok)
    from 1 2 3 4 5 True r copied [of h5] show ?thesis by (simp add: cloneMqttOptions_def merged_def n Let_def)
  qed
qed

lemma clone_plenty:
  assumes "connect_ok opts" "plenty h"
  obtains h' where "cloneMqttOptions opts h m = (MU_OK, h', m\<lparr>mqttOptions := merged opts (mqttOptions m)\<rparr>)" "plenty h'"
proof -
  let ?old = "mqttOptions m"
  from assms(1) have small: "\<And>t. clientId opts = Some t \<Longrightarrow> length t \<le> USHRT_MAX" "\<And>t. willTopic opts = Some t \<Longrightarrow> length t \<le> USHRT_MAX"
    "\<And>t. willMessage opts = Some t \<Longrightarrow> length t \<le> USHRT_MAX" "\<And>t. username opts = Some t \<Longrightarrow> length t \<le> USHRT_MAX"
    "\<And>t. password opts = Some t \<Longrightarrow> length t \<le> USHRT_MAX"
    by (auto simp: connect_ok_def fields_ok_def field_ok_def)
  obtain h1 where 1: "clone_field (clientId opts) (clientId ?old) h = (MU_OK, newer (clientId opts) (clientId ?old), h1)" "plenty h1"
    by (rule clone_field_plenty [OF assms(2) small(1)])
  obtain h2 where 2: "clone_field (willTopic opts) (willTopic ?old) h1 = (MU_OK, newer (willTopic opts) (willTopic ?old), h2)" "plenty h2"
    by (rule clone_field_plenty [OF 1(2) small(2)])
  obtain h3 where 3: "clone_field (willMessage opts) (willMessage ?old) h2 = (MU_OK, newer (willMessage opts) (willMessage ?old), h3)" "plenty h3"
    by (rule clone_field_plenty [OF 2(2) small(3)])
  obtain h4 where 4: "clone_field (username opts) (username ?old) h3 = (MU_OK, newer (username opts) (username ?old), h4)" "plenty h4"
    by (rule clone_field_plenty [OF 3(2) small(4)])
  obtain h5 where 5: "clone_field (password opts) (password ?old) h4 = (MU_OK, newer (password opts) (password ?old), h5)" "plenty h5"
    by (rule clone_field_plenty [OF 4(2) small(5)])
  from 1 2 3 4 5 that [of h5] show ?thesis by (simp add: cloneMqttOptions_def merged_def Let_def)
qed

lemma merged_ok:
  assumes "connect_ok opts" "connect_ok old \<or> texts_gone old"
  shows "connect_ok (merged opts old)"
proof -
  have f: "field_ok (newer a b)" if "field_ok a" "field_ok b" for a b
    using that by (cases a) (simp_all add: newer_def)
  have n: "newer a b = None \<longleftrightarrow> a = None \<and> b = None" for a b by (cases a) (simp_all add: newer_def)
  from assms(2) have old: "fields_ok old"
    by (auto simp: connect_ok_def texts_gone_def fields_ok_def field_ok_def)
  from assms(1) obtain c where c: "clientId opts = Some c" "length c \<le> USHRT_MAX" and opts: "fields_ok opts"
    by (auto simp: connect_ok_def)
  have "fields_ok (merged opts old)" using opts old f by (auto simp: fields_ok_def merged_def n)
  with c show ?thesis by (simp add: connect_ok_def merged_def newer_def)
qed

lemma connect_fine:
  assumes "fine m" "\<And>o'. opts = Some o' \<Longrightarrow> connect_ok o'"
  obtains r h' m' where "mqtt_client_connect xio opts opens h m = (r, h', m')" "fine m'"
proof (cases "opts = None \<or> \<not> xio")
  case True
  with assms(1) that show ?thesis by (cases opts) (auto simp: mqtt_client_connect_def)
next
  case False
  then obtain o' where o': "opts = Some o'" "xio" by auto
  let ?half = "keepAliveInterval o' div 2"
  let ?m = "m\<lparr>xioHandle := True, packetState := UNKNOWN_TYPE, qosValue := qualityOfServiceValue o', keepAlive := keepAliveInterval o',
     maxPingRespTime := (if DEFAULT_MAX_PING_RESPONSE_TIME < ?half then DEFAULT_MAX_PING_RESPONSE_TIME else ?half)\<rparr>"
  have m: "fine ?m" using assms(1) by (simp add: fine_def)
  show ?thesis
  proof (cases rule: clone_cases [of o' h ?m])
    case (failed h' opts')
    have "fine (clear_mqtt_options (?m\<lparr>mqttOptions := opts'\<rparr>))"
      using m by (simp add: fine_def clear_mqtt_options_def texts_gone_def)
    with o' failed that show ?thesis by (simp add: mqtt_client_connect_def Let_def)
  next
    case (copied h')
    let ?m' = "?m\<lparr>mqttOptions := merged o' (mqttOptions ?m)\<rparr>"
    have "fine ?m'" using m merged_ok [OF assms(2) [OF o'(1)], of "mqttOptions m"] by (simp add: fine_def)
    moreover from this have "fine (clear_mqtt_options (?m'\<lparr>xioHandle := False\<rparr>))"
      by (simp add: fine_def clear_mqtt_options_def texts_gone_def)
    ultimately show ?thesis using o' copied that by (cases opens) (simp_all add: mqtt_client_connect_def Let_def)
  qed
qed

lemma keep_alive_runs:
  assumes "fine m"
  shows "runs fine (keep_alive h m)"
proof (cases "tickcounter_get_current_ms m")
  case (Pair t m1)
  then have m1: "fine m1" using assms by (auto simp: tickcounter_get_current_ms_def fine_def)
  show ?thesis
  proof (cases t)
    case None
    with Pair m1 show ?thesis by (simp add: keep_alive_def)
  next
    case (Some now)
    have wf: "well_formed (frame PINGREQ_TYPE 0 [])"
      by (rule empty_well_formed) (simp_all add: real_type_def valid_header_def)
    have e: "fine ((set_error_callback e m1)\<lparr>timeSincePing := 0, packetSendTimeMs := 0, packetState := UNKNOWN_TYPE\<rparr>)" for e
      using m1 by (simp add: fine_def)
    from sendPacketItem_fine [OF wf m1] obtain r m2 where send: "sendPacketItem (frame PINGREQ_TYPE 0 []) m1 = (r, m2)" "fine m2" .
    obtain t3 m3 where t3: "tickcounter_get_current_ms m2 = (t3, m3)" "fine m3"
      using send(2) by (cases "tickcounter_get_current_ms m2") (auto simp: tickcounter_get_current_ms_def fine_def)
    then have m3: "fine (m3\<lparr>timeSincePing := x\<rparr>)" for x by (simp add: fine_def)
    from ping_gives [of h] show ?thesis
    proof (cases rule: gives_cases)
      case (null h')
      with Pair Some m1 e show ?thesis by (simp add: keep_alive_def)
    next
      case (built pkt h')
      with Pair Some m1 e packet_bytes_contains [OF built(3)] send t3 m3 show ?thesis
        by (auto simp: keep_alive_def send_packet_def split: option.split)
    qed
  qed
qed

lemma client_dowork_runs:
  assumes "client_ok cm"
  shows "runs client_ok (mqtt_client_dowork es h cm)"
proof -
  from dowork_runs [OF assms, of es h] obtain h1 cm1 where d: "xio_dowork es h cm = Inr (h1, cm1)" "client_ok cm1"
    by (auto simp: runs_def)
  from d(2) have "fine (snd cm1)" by (simp add: client_ok_def)
  from keep_alive_runs [OF this, of h1] obtain h2 m1 where "keep_alive h1 (snd cm1) = Inr (h2, m1)" "fine m1"
    by (auto simp: runs_def)
  with assms d show ?thesis by (auto simp: mqtt_client_dowork_def client_ok_def Let_def)
qed

section \<open>Sessions\<close>

text \<open>
  What happens to a client: calls of its user, among them \<open>mqtt_client_dowork\<close>, in which the
  transport reports events.
\<close>

datatype user_call =
    Connect bool "MQTT_CLIENT_OPTIONS option" bool
  | Publish "MQTT_MESSAGE option"
  | Subscribe "16 word" "(cstr \<times> QOS_VALUE) list option"
  | Unsubscribe "16 word" "cstr list option"
  | Disconnect bool
  | Dowork "io_event list"
  | Clear_xio

fun user_step :: "user_call \<Rightarrow> mem \<Rightarrow> mqtt \<Rightarrow> (mem \<times> mqtt) outcome" where
  "user_step (Connect xio opts opens) h cm = (case mqtt_client_connect xio opts opens h (snd cm) of (_, h1, m) \<Rightarrow> Inr (h1, fst cm, m))"
| "user_step (Publish msg) h cm = cbind (mqtt_client_publish msg h (snd cm)) (\<lambda>(_, h1, m). Inr (h1, fst cm, m))"
| "user_step (Subscribe i ts) h cm = cbind (mqtt_client_subscribe i ts h (snd cm)) (\<lambda>(_, h1, m). Inr (h1, fst cm, m))"
| "user_step (Unsubscribe i ts) h cm = cbind (mqtt_client_unsubscribe i ts h (snd cm)) (\<lambda>(_, h1, m). Inr (h1, fst cm, m))"
| "user_step (Disconnect cb) h cm = cbind (mqtt_client_disconnect cb h (snd cm)) (\<lambda>(_, h1, m). Inr (h1, fst cm, m))"
| "user_step (Dowork es) h cm = mqtt_client_dowork es h cm"
| "user_step Clear_xio h cm = Inr (h, fst cm, mqtt_client_clear_xio (snd cm))"

fun session :: "user_call list \<Rightarrow> mem \<Rightarrow> mqtt \<Rightarrow> (mem \<times> mqtt) outcome" where
  "session [] h cm = Inr (h, cm)"
| "session (c # cs) h cm = cbind (user_step c h cm) (\<lambda>(h1, cm1). session cs h1 cm1)"

text \<open>What the user must see to: texts and packets of lengths that MQTT has, and a client id.\<close>

fun call_ok :: "user_call \<Rightarrow> bool" where
  "call_ok (Connect xio opts opens) = (case opts of None \<Rightarrow> True | Some opts \<Rightarrow> connect_ok opts)"
| "call_ok (Publish msg) = (case msg of None \<Rightarrow> True | Some msg \<Rightarrow> message_ok msg)"
| "call_ok (Subscribe i ts) = (case ts of None \<Rightarrow> True
     | Some ts \<Rightarrow> list_all (\<lambda>(t, q). length t \<le> USHRT_MAX) ts \<and> length (subscribe_body i ts) \<le> MAX_REMAINING)"
| "call_ok (Unsubscribe i ts) = (case ts of None \<Rightarrow> True
     | Some ts \<Rightarrow> list_all (\<lambda>t. length t \<le> USHRT_MAX) ts \<and> length (unsubscribe_body i ts) \<le> MAX_REMAINING)"
| "call_ok _ = True"

lemma returned_step:
  "returns fine r \<Longrightarrow> client_ok cm \<Longrightarrow> runs client_ok (cbind r (\<lambda>(_, h1, m). Inr (h1, fst cm, m)))"
  by (auto simp: returns_def client_ok_def)

lemma user_step_runs:
  assumes "client_ok cm" "call_ok c"
  shows "runs client_ok (user_step c h cm)"
proof -
  from assms(1) have m: "fine (snd cm)" by (simp add: client_ok_def)
  show ?thesis
  proof (cases c)
    case (Connect xio opts opens)
    have ok: "\<And>o'. opts = Some o' \<Longrightarrow> connect_ok o'" using assms(2) Connect by simp
    obtain r h' m' where "mqtt_client_connect xio opts opens h (snd cm) = (r, h', m')" "fine m'"
      by (rule connect_fine [OF m ok])
    with assms(1) Connect show ?thesis by (auto simp: client_ok_def)
  next
    case (Publish msg)
    have "returns fine (mqtt_client_publish msg h (snd cm))"
      using m publish_returns assms(2) Publish by (cases msg) (auto simp: mqtt_client_publish_def)
    from returned_step [OF this assms(1)] show ?thesis by (simp add: Publish)
  next
    case (Subscribe i ts)
    have "returns fine (mqtt_client_subscribe i ts h (snd cm))"
      using m subscribe_returns assms(2) Subscribe by (cases ts) (auto simp: mqtt_client_subscribe_def list_all_iff)
    from returned_step [OF this assms(1)] show ?thesis by (simp add: Subscribe)
  next
    case (Unsubscribe i ts)
    have "returns fine (mqtt_client_unsubscribe i ts h (snd cm))"
      using m unsubscribe_returns assms(2) Unsubscribe by (cases ts) (auto simp: mqtt_client_unsubscribe_def list_all_iff)
    from returned_step [OF this assms(1)] show ?thesis by (simp add: Unsubscribe)
  next
    case (Disconnect cb)
    from returned_step [OF disconnect_returns [OF m] assms(1)] show ?thesis by (simp add: Disconnect)
  next
    case (Dowork es)
    from client_dowork_runs [OF assms(1)] show ?thesis by (simp add: Dowork)
  next
    case Clear_xio
    with assms(1) show ?thesis by (simp add: client_ok_def mqtt_client_clear_xio_def fine_def)
  qed
qed

lemma session_runs: "client_ok cm \<Longrightarrow> list_all call_ok cs \<Longrightarrow> runs client_ok (session cs h cm)"
proof (induction cs arbitrary: h cm)
  case (Cons c cs)
  from user_step_runs [OF Cons.prems(1), of c h] Cons show ?case by (auto simp: runs_def)
qed simp

lemma init_ok:
  assumes "mqtt_client_init cbs err counter t s cl h = (Some cm, h')"
  shows "client_ok cm"
  using assms
  by (auto simp: mqtt_client_init_def mqtt_codec_create_def client_ok_def codec_ok_def data_fits_def fine_def texts_gone_def
      no_options_def split: if_splits prod.splits option.splits)

text \<open>
  Claim C7. From the moment the MQTT client is made, whatever the network sends and in whatever
  pieces, whatever the transport reports, whichever requests for storage fail and whatever calls
  its user makes in whatever order (with texts and packets whose lengths MQTT can express, and a
  client id), the client never leaves its storage or uses a pointer that is NULL, and every packet
  it hands to the transport is a well-formed MQTT packet.
\<close>

theorem client_sessions_safe:
  assumes "mqtt_client_init True err True clock answers closings h = (Some cm, h1)" "list_all call_ok calls"
  shows "\<exists>h2 codec m. session calls h1 cm = Inr (h2, codec, m) \<and> (\<forall>bs \<in> set (sent m). well_formed bs)"
  using session_runs [OF init_ok [OF assms(1)] assms(2), of h1] by (auto simp: runs_def client_ok_def fine_def)

text \<open>A client under a transport and a clock that always answer.\<close>

definition new_client :: MQTT_CLIENT where
  "new_client = \<lparr>xioHandle = False, packetState = UNKNOWN_TYPE, packetSendTimeMs = 0, fnOnErrorCallBack = True,
     disconnect_cb = False, qosValue = DELIVER_AT_MOST_ONCE, keepAlive = 0, mqttOptions = no_options, mqtt_status = 0,
     timeSincePing = 0, maxPingRespTime = DEFAULT_MAX_PING_RESPONSE_TIME, ticks = (\<lambda>_. Some 1000), sends = (\<lambda>_. True),
     closes = (\<lambda>_. Some 0), sent = [], told = []\<rparr>"

lemma init_new_client:
  "mqtt_client_init True True True (\<lambda>_. Some 1000) (\<lambda>_. True) (\<lambda>_. Some 0) junk_mem = (Some (Some new_codec, new_client), junk_mem)"
  by (simp add: mqtt_client_init_def mqtt_codec_create_def junk_mem_def new_codec_def new_client_def)

definition device_options :: MQTT_CLIENT_OPTIONS where
  "device_options = no_options\<lparr>clientId := Some [0x64, 0x65, 0x76], username := Some [0x68], password := Some [0x73], keepAliveInterval := 240\<rparr>"

lemma device_options_ok: "connect_ok device_options"
  by (simp add: device_options_def no_options_def connect_ok_def fields_ok_def field_ok_def USHRT_MAX_def)

lemma client_sessions_safe_witness:
  "\<exists>h2 codec m. session [Connect True (Some device_options) True, Dowork [Open_complete IO_OPEN_OK],
      Dowork [Bytes_received [0x20, 0x02], Bytes_received [0x00, 0x00, 0xF0]], Disconnect True] junk_mem
    (Some new_codec, new_client) = Inr (h2, codec, m) \<and> (\<forall>bs \<in> set (sent m). well_formed bs)"
  by (rule client_sessions_safe [OF init_new_client]) (simp add: device_options_ok)

end
