(* ===== verification/Mqtt_Exchange.thy ===== *)
theory Mqtt_Exchange
  imports Mqtt_Session
begin

text \<open>
  What two MQTT clients say to each other: published messages and their acknowledgements, in
  whatever chunks they arrive; connecting, keeping alive, disconnecting; and the messages that are
  misread.
\<close>

section \<open>Reading what was written\<close>

lemma be16_value: "256 * ucast (ucast (v div 256) :: byte) + ucast (ucast (v mod 256) :: byte) = (v :: 16 word)"
proof -
  have bytes: "ucast (ucast x :: byte) = take_bit 8 x" for x :: "16 word"
    by (simp add: unsigned_ucast_eq)
  have small: "take_bit 8 x = x" if "unat x < 256" for x :: "16 word"
  proof -
    have "unat (take_bit 8 x) = unat x" using that by (simp add: unsigned_take_bit_eq take_bit_nat_eq_self)
    then show ?thesis by (rule unsigned_word_eqI)
  qed
  have "unat v < 65536" using unsigned_less [of v] by simp
  then have "unat (v div 256) < 256" "unat (v mod 256) < 256" by (simp_all add: unat_div_distrib unat_mod_distrib)
  then show ?thesis unfolding bytes by (simp only: small mult_div_mod_eq)
qed

lemma read_be16: "2 \<le> n \<Longrightarrow> byteutil_read_uint16 (be16 v @ rest) n = Inr (v, rest)"
  by (simp add: byteutil_read_uint16_def be16_def be16_value)

lemma read_utf:
  assumes "topic \<noteq> []" "length topic \<le> USHRT_MAX" "plenty h"
  obtains n where "byteutil_readUTF (utf topic @ rest) (length (utf topic @ rest)) h = Inr (Some topic, rest, n, \<lambda>i. h (Suc i))"
proof -
  have len: "unat (of_nat (length topic) :: 16 word) = length topic"
    using assms(2) by (simp add: unsigned_of_nat take_bit_nat_eq_self USHRT_MAX_def)
  have pos: "(of_nat (length topic) :: 16 word) > 0" using assms(1) len by (simp add: word_less_nat_alt)
  have small: "length topic + 1 < 2 ^ 31" using assms(2) by (simp add: USHRT_MAX_def)
  from assms(3) obtain g where "h 0 = Some g" by (auto simp: plenty_def)
  with small have "malloc (length topic + 1) h = (Some (map g [0..<length topic + 1]), \<lambda>i. h (Suc i))" by (simp add: malloc_def)
  then show ?thesis using that [of "length topic"] len pos read_be16 [of "length (utf topic @ rest)" _ "topic @ rest"]
    by (simp add: byteutil_readUTF_def utf_def read_from_def)
qed

section \<open>Packets in chunks\<close>

text \<open>A transport that sends what it is given, and a clock that works.\<close>

definition responsive :: "MQTT_CLIENT \<Rightarrow> bool" where
  "responsive m \<longleftrightarrow> xioHandle m \<and> (\<forall>i. ticks m i \<noteq> None) \<and> (\<forall>i. sends m i)"

lemma responsive_tell [simp]: "responsive (tell n m) = responsive m"
  by (simp add: responsive_def tell_def)

lemma responsive_send:
  assumes "responsive m"
  obtains m' where "sendPacketItem bs m = (MU_OK, m')" "responsive m'" "sent m' = bs # sent m" "told m' = told m"
    "mqtt_status m' = mqtt_status m" "packetState m' = packetState m"
proof -
  from assms obtain t where "ticks m 0 = Some t" by (auto simp: responsive_def)
  with assms that show ?thesis
    by (auto simp: sendPacketItem_def tickcounter_get_current_ms_def xio_send_def responsive_def Let_def)
qed

lemma responsive_reply:
  assumes "gives h (build h) bs" "plenty h" "responsive m"
  obtains h' m' where "reply_with build h m = Inr (h', m')" "plenty h'" "responsive m'" "sent m' = bs # sent m" "told m' = told m"
  using assms(1)
proof (cases rule: gives_cases)
  case (null h')
  with assms(2) show ?thesis by simp
next
  case (built pkt h')
  obtain m' where "sendPacketItem bs m = (MU_OK, m')" "responsive m'" "sent m' = bs # sent m" "told m' = told m"
    by (rule responsive_send [OF assms(3)])
  with built packet_bytes_contains [OF built(3)] assms(2) that show ?thesis by (auto simp: reply_with_def send_packet_def)
qed

lemma dowork_chunks:
  assumes "[] \<notin> set chunks" "receive_loop (Some recvCompleteCallback) (concat chunks) c h m = Inr (MU_OK, c', h', m')"
  shows "xio_dowork (map Bytes_received chunks) h (Some c, m) = Inr (h', Some c', m')"
  using assms
proof (induction chunks arbitrary: c h m)
  case (Cons x xs)
  from Cons.prems(2) obtain r c1 h1 m1 where x: "receive_loop (Some recvCompleteCallback) x c h m = Inr (r, c1, h1, m1)"
    "r = MU_OK" "receive_loop (Some recvCompleteCallback) (concat xs) c1 h1 m1 = Inr (MU_OK, c', h', m')"
    by (auto simp: receive_loop_append cbind_Inr_iff split: if_splits)
  from Cons.prems(1) have "x \<noteq> []" "[] \<notin> set xs" by auto
  with Cons.IH [OF _ x(3)] x(1,2) show ?case
    by (simp add: onBytesReceived_def mqtt_codec_bytesReceived_def)
qed simp

text \<open>
  The packet \<open>bs\<close>, in any chunks, makes the client send \<open>rs\<close> and call back \<open>ns\<close> (both latest first).
\<close>

definition answers :: "byte list \<Rightarrow> byte list list \<Rightarrow> notice list \<Rightarrow> bool" where
  "answers bs rs ns \<longleftrightarrow> (\<forall>chunks c h m. concat chunks = bs \<longrightarrow> [] \<notin> set chunks \<longrightarrow> codec_idle c \<longrightarrow> plenty h \<longrightarrow> responsive m \<longrightarrow>
     (\<exists>h' c' m'. xio_dowork (map Bytes_received chunks) h (Some c, m) = Inr (h', Some c', m') \<and>
        codec_idle c' \<and> plenty h' \<and> responsive m' \<and> sent m' = rs @ sent m \<and> told m' = ns @ told m))"

lemma answersI:
  assumes "packet_ok t flags body"
    and "\<And>h m. plenty h \<Longrightarrow> responsive m \<Longrightarrow> \<exists>h' m'. recvCompleteCallback t flags (full body) h m = Inr (h', m') \<and> plenty h' \<and>
      responsive m' \<and> sent m' = rs @ sent m \<and> told m' = ns @ told m"
  shows "answers (frame t flags body) rs ns"
  unfolding answers_def
proof (intro allI impI)
  fix chunks :: "byte list list" and c h m
  assume ch: "concat chunks = frame t flags body" "[] \<notin> set chunks" and c: "codec_idle c" and h: "plenty h" and m: "responsive m"
  let ?h = "\<lambda>i. h (Suc (Suc i))"
  from h have p: "plenty ?h" "h 0 \<noteq> None" "h 1 \<noteq> None" by (auto simp: plenty_def)
  from assms(2) [OF p(1) m] obtain h' m' where cb: "recvCompleteCallback t flags (full body) ?h m = Inr (h', m')" "plenty h'"
    "responsive m'" "sent m' = rs @ sent m" "told m' = ns @ told m" by blast
  let ?c = "c\<lparr>currPacket := t, headerFlags := flags, codecState := CODEC_STATE_VAR_HEADER, headerData := full body,
     bufferOffset := length body\<rparr>"
  have "\<exists>c'. completed (completePacketData (Some recvCompleteCallback) ?c ?h m) = Inr (MU_OK, c', h', m') \<and> codec_idle c'"
    by (rule completed_idle) (use c cb(1) in \<open>auto simp: codec_idle_def\<close>)
  then obtain c' where "receive_loop (Some recvCompleteCallback) (concat chunks) c h m = Inr (MU_OK, c', h', m')" "codec_idle c'"
    using frame_received [OF c assms(1) p(2,3), of "Some recvCompleteCallback" m] ch(1) by auto
  with dowork_chunks [OF ch(2)] cb show "\<exists>h' c' m'. xio_dowork (map Bytes_received chunks) h (Some c, m) = Inr (h', Some c', m') \<and>
        codec_idle c' \<and> plenty h' \<and> responsive m' \<and> sent m' = rs @ sent m \<and> told m' = ns @ told m" by blast
qed

section \<open>Messages and their acknowledgements\<close>

text \<open>The message a client hands to its user: in place, the packet id only where the packet has one.\<close>

definition received_message :: "QOS_VALUE \<Rightarrow> 16 word \<Rightarrow> cstr \<Rightarrow> byte list \<Rightarrow> bool \<Rightarrow> bool \<Rightarrow> MQTT_MESSAGE" where
  "received_message q i topic data dup retain =
    \<lparr>packetId = (if q = DELIVER_AT_MOST_ONCE then 0 else i), qosInfo = q, topicName = None, appPayload = no_payload,
     const_topic_name = Some topic, const_payload = \<lparr>message = (if data = [] then None else Some data), plength = length data\<rparr>,
     isDuplicateMsg = dup, isMessageRetained = retain\<rparr>"

definition acknowledgement :: "QOS_VALUE \<Rightarrow> 16 word \<Rightarrow> byte list list" where
  "acknowledgement q i =
    (if q = DELIVER_EXACTLY_ONCE then [frame PUBREC_TYPE 0 (be16 i)]
     else if q = DELIVER_AT_LEAST_ONCE then [frame PUBACK_TYPE 0 (be16 i)] else [])"

lemma reply_frames:
  "gives h (mqtt_codec_publishAck i h) (frame PUBACK_TYPE 0 (be16 i))"
  "gives h (mqtt_codec_publishReceived i h) (frame PUBREC_TYPE 0 (be16 i))"
  "gives h (mqtt_codec_publishRelease i h) (frame PUBREL_TYPE 2 (be16 i))"
  "gives h (mqtt_codec_publishComplete i h) (frame PUBCOMP_TYPE 0 (be16 i))"
  using reply_gives [where t = PUBACK_TYPE and flags = 0] reply_gives [where t = PUBREC_TYPE and flags = 0]
    reply_gives [where t = PUBREL_TYPE and flags = 2] reply_gives [where t = PUBCOMP_TYPE and flags = 0]
  by (simp_all add: frame_two mqtt_codec_publishAck_def mqtt_codec_publishReceived_def mqtt_codec_publishRelease_def
      mqtt_codec_publishComplete_def)

lemma publish_read:
  assumes "topic \<noteq> []" "length topic \<le> USHRT_MAX" "q = publish_qos flags" "q \<noteq> DELIVER_AT_MOST_ONCE \<Longrightarrow> i \<noteq> 0"
    and "plenty h" "responsive m"
  shows "\<exists>h' m'. ProcessPublishMessage (publish_body q i topic data) (length (publish_body q i topic data)) flags h m = Inr (h', m') \<and>
    plenty h' \<and> responsive m' \<and> sent m' = acknowledgement q i @ sent m \<and>
    told m' = [Message (received_message q i topic data (flags AND DUPLICATE_FLAG_MASK \<noteq> 0) (flags AND RETAIN_FLAG_MASK \<noteq> 0))] @ told m"
proof -
  define rest where "rest = packet_id q i @ data"
  let ?i = "if q = DELIVER_AT_MOST_ONCE then 0 else i"
  let ?msg = "received_message q i topic data (flags AND DUPLICATE_FLAG_MASK \<noteq> 0) (flags AND RETAIN_FLAG_MASK \<noteq> 0)"
  let ?m = "tell (Message ?msg) m" and ?h1 = "\<lambda>k. h (Suc k)" and ?h2 = "\<lambda>k. h (Suc (Suc k))"
  have body: "publish_body q i topic data = utf topic @ rest" by (simp add: publish_body_def rest_def)
  obtain n where utf: "byteutil_readUTF (utf topic @ rest) (length (utf topic @ rest)) h = Inr (Some topic, rest, n, ?h1)"
    by (rule read_utf [OF assms(1,2,5)])
  have none: "q = DELIVER_AT_MOST_ONCE \<Longrightarrow> rest = data" by (simp add: rest_def packet_id_def)
  have pid: "byteutil_read_uint16 rest (length rest) = Inr (i, data)" "length data \<le> length rest" if "q \<noteq> DELIVER_AT_MOST_ONCE"
    using that by (simp_all add: rest_def packet_id_def read_be16)
  from assms(5) have "h 1 \<noteq> None" and h: "plenty ?h2" by (simp_all add: plenty_def)
  then have create: "mqttmessage_create_in_place ?i (Some topic) q (Some data) (length data) ?h1 =
      (Some (?msg\<lparr>isDuplicateMsg := False, isMessageRetained := False\<rparr>), ?h2)"
    by (auto simp: mqttmessage_create_in_place_def create_msg_object_def received_message_def no_payload_def)
  have m: "responsive ?m" "told ?m = [Message ?msg] @ told m" using assms(6) by (simp_all add: tell_def responsive_def)
  have len: "length (utf topic @ rest) - (length (utf topic @ rest) - length xs) = length xs" if "length xs \<le> length rest" for xs :: "byte list"
    using that by simp
  have complete: "received_message q' i topic data d r\<lparr>isDuplicateMsg := d, isMessageRetained := r\<rparr> = received_message q' i topic data d r"
    for q' d r by (simp add: received_message_def)
  have code: "ProcessPublishMessage (publish_body q i topic data) (length (publish_body q i topic data)) flags h m =
     (if q = DELIVER_EXACTLY_ONCE then reply_with (mqtt_codec_publishReceived ?i) ?h2 ?m
      else if q = DELIVER_AT_LEAST_ONCE then reply_with (mqtt_codec_publishAck ?i) ?h2 ?m else Inr (?h2, ?m))"
  proof (cases "q = DELIVER_AT_MOST_ONCE")
    case True
    with none create show ?thesis
      unfolding ProcessPublishMessage_def Let_def assms(3) [symmetric] body utf
      by (simp add: mqttmessage_setIsDuplicateMsg_def mqttmessage_setIsRetained_def complete len)
  next
    case False
    with pid create assms(4) show ?thesis
      unfolding ProcessPublishMessage_def Let_def assms(3) [symmetric] body utf
      by (simp add: mqttmessage_setIsDuplicateMsg_def mqttmessage_setIsRetained_def complete len)
  qed
  show ?thesis
  proof (cases "q = DELIVER_EXACTLY_ONCE \<or> q = DELIVER_AT_LEAST_ONCE")
    case False
    with code h m show ?thesis by (simp add: acknowledgement_def)
  next
    case True
    then show ?thesis
    proof
      assume q: "q = DELIVER_EXACTLY_ONCE"
      obtain h' m' where "reply_with (mqtt_codec_publishReceived i) ?h2 ?m = Inr (h', m')" "plenty h'" "responsive m'"
        "sent m' = frame PUBREC_TYPE 0 (be16 i) # sent ?m" "told m' = told ?m" by (rule responsive_reply [where build = "mqtt_codec_publishReceived i", OF reply_frames(2) h m(1)])
      with q code m show ?thesis by (simp add: acknowledgement_def)
    next
      assume q: "q = DELIVER_AT_LEAST_ONCE"
      obtain h' m' where "reply_with (mqtt_codec_publishAck i) ?h2 ?m = Inr (h', m')" "plenty h'" "responsive m'"
        "sent m' = frame PUBACK_TYPE 0 (be16 i) # sent ?m" "told m' = told ?m" by (rule responsive_reply [where build = "mqtt_codec_publishAck i", OF reply_frames(1) h m(1)])
      with q code m show ?thesis by (simp add: acknowledgement_def)
    qed
  qed
qed

lemma recv_publish:
  assumes "body \<noteq> []"
  shows "recvCompleteCallback PUBLISH_TYPE flags (full body) h m = ProcessPublishMessage body (length body) flags h m"
  using assms by (simp add: recvCompleteCallback_def full_def BUFFER_length_def BUFFER_u_char_def Let_def)

lemma recv_ack:
  assumes "t \<in> {PUBACK_TYPE, PUBREC_TYPE, PUBREL_TYPE, PUBCOMP_TYPE}"
  shows "recvCompleteCallback t flags (full (be16 i)) h m = recv_puback t (be16 i) 2 h m"
  using assms by (auto simp: recvCompleteCallback_def full_def BUFFER_length_def BUFFER_u_char_def Let_def)

lemma publish_flags_read:
  assumes "q \<noteq> DELIVER_FAILURE" "q = DELIVER_AT_MOST_ONCE \<Longrightarrow> \<not> dup \<and> \<not> retain"
  shows "publish_qos (publish_flags q dup retain) = q" "publish_flags q dup retain AND DUPLICATE_FLAG_MASK \<noteq> 0 \<longleftrightarrow> dup"
    "publish_flags q dup retain AND RETAIN_FLAG_MASK \<noteq> 0 \<longleftrightarrow> retain"
  using assms
  by (cases q; cases dup; cases retain; simp add: publish_qos_def publish_flags_def PUBLISH_DUP_FLAG_def PUBLISH_QOS_RETAIN_def
      PUBLISH_QOS_AT_LEAST_ONCE_def PUBLISH_QOS_EXACTLY_ONCE_def QOS_LEAST_ONCE_FLAG_MASK_def DUPLICATE_FLAG_MASK_def
      RETAIN_FLAG_MASK_def Let_def)+

lemma publish_body_not_empty [simp]: "publish_body q i topic data \<noteq> []"
  by (simp add: publish_body_def)

lemma publish_answers:
  assumes "topic \<noteq> []" "length topic \<le> USHRT_MAX" "q \<noteq> DELIVER_FAILURE" "q = DELIVER_AT_MOST_ONCE \<Longrightarrow> \<not> dup \<and> \<not> retain"
    "q \<noteq> DELIVER_AT_MOST_ONCE \<Longrightarrow> i \<noteq> 0" "length (publish_body q i topic data) < MAX_3_DIGIT_PACKET_SIZE"
  shows "answers (frame PUBLISH_TYPE (publish_flags q dup retain) (publish_body q i topic data))
    (acknowledgement q i) [Message (received_message q i topic data dup retain)]"
proof (rule answersI)
  show "packet_ok PUBLISH_TYPE (publish_flags q dup retain) (publish_body q i topic data)"
    using assms(6) by (simp add: packet_ok_def real_type_def publish_flags_small valid_header_def)
next
  fix h m assume h: "plenty h" "responsive m"
  note flags = publish_flags_read [OF assms(3,4)]
  from publish_read [OF assms(1,2) flags(1) [symmetric] assms(5) h] show
    "\<exists>h' m'. recvCompleteCallback PUBLISH_TYPE (publish_flags q dup retain) (full (publish_body q i topic data)) h m = Inr (h', m') \<and>
      plenty h' \<and> responsive m' \<and> sent m' = acknowledgement q i @ sent m \<and>
      told m' = [Message (received_message q i topic data dup retain)] @ told m"
    by (simp add: recv_publish flags(2,3))
qed

lemma ack_packet_ok:
  "packet_ok PUBACK_TYPE 0 (be16 i)" "packet_ok PUBREC_TYPE 0 (be16 i)" "packet_ok PUBREL_TYPE 2 (be16 i)" "packet_ok PUBCOMP_TYPE 0 (be16 i)"
  by (simp_all add: packet_ok_def real_type_def valid_header_def MAX_3_DIGIT_PACKET_SIZE_def)

lemma recv_puback_be16:
  "recv_puback t (be16 i) 2 h m =
    (let m1 = tell (Operation (if t = PUBACK_TYPE then MQTT_CLIENT_ON_PUBLISH_ACK i else if t = PUBREC_TYPE then MQTT_CLIENT_ON_PUBLISH_RECV i
                     else if t = PUBREL_TYPE then MQTT_CLIENT_ON_PUBLISH_REL i else MQTT_CLIENT_ON_PUBLISH_COMP i)) m
     in if t = PUBREC_TYPE then reply_with (mqtt_codec_publishRelease i) h m1
        else if t = PUBREL_TYPE then reply_with (mqtt_codec_publishComplete i) h m1 else Inr (h, m1))"
  using read_be16 [of 2 i "[]"] by (simp add: recv_puback_def Let_def)

lemma ack_answers:
  "answers (frame PUBACK_TYPE 0 (be16 i)) [] [Operation (MQTT_CLIENT_ON_PUBLISH_ACK i)]"
  "answers (frame PUBCOMP_TYPE 0 (be16 i)) [] [Operation (MQTT_CLIENT_ON_PUBLISH_COMP i)]"
  by (rule answersI [OF ack_packet_ok(1)] answersI [OF ack_packet_ok(4)];
      force simp: recv_ack recv_puback_be16 Let_def tell_def responsive_def)+

lemma handshake_answers:
  "answers (frame PUBREC_TYPE 0 (be16 i)) [frame PUBREL_TYPE 2 (be16 i)] [Operation (MQTT_CLIENT_ON_PUBLISH_RECV i)]"
  "answers (frame PUBREL_TYPE 2 (be16 i)) [frame PUBCOMP_TYPE 0 (be16 i)] [Operation (MQTT_CLIENT_ON_PUBLISH_REL i)]"
proof -
  have told: "told (tell n m) = n # told m" "sent (tell n m) = sent m" for n m by (simp_all add: tell_def)
  show "answers (frame PUBREC_TYPE 0 (be16 i)) [frame PUBREL_TYPE 2 (be16 i)] [Operation (MQTT_CLIENT_ON_PUBLISH_RECV i)]"
  proof (rule answersI [OF ack_packet_ok(2)])
    fix h m assume h: "plenty h" and m: "responsive m"
    let ?m = "tell (Operation (MQTT_CLIENT_ON_PUBLISH_RECV i)) m"
    have m': "responsive ?m" using m by simp
    obtain h' m' where "reply_with (mqtt_codec_publishRelease i) h ?m = Inr (h', m')" "plenty h'" "responsive m'"
      "sent m' = frame PUBREL_TYPE 2 (be16 i) # sent ?m" "told m' = told ?m"
      by (rule responsive_reply [where build = "mqtt_codec_publishRelease i", OF reply_frames(3) h m'])
    then show "\<exists>h' m'. recvCompleteCallback PUBREC_TYPE 0 (full (be16 i)) h m = Inr (h', m') \<and> plenty h' \<and> responsive m' \<and>
        sent m' = [frame PUBREL_TYPE 2 (be16 i)] @ sent m \<and> told m' = [Operation (MQTT_CLIENT_ON_PUBLISH_RECV i)] @ told m"
      by (simp add: recv_ack recv_puback_be16 Let_def told)
  qed
  show "answers (frame PUBREL_TYPE 2 (be16 i)) [frame PUBCOMP_TYPE 0 (be16 i)] [Operation (MQTT_CLIENT_ON_PUBLISH_REL i)]"
  proof (rule answersI [OF ack_packet_ok(3)])
    fix h m assume h: "plenty h" and m: "responsive m"
    let ?m = "tell (Operation (MQTT_CLIENT_ON_PUBLISH_REL i)) m"
    have m': "responsive ?m" using m by simp
    obtain h' m' where "reply_with (mqtt_codec_publishComplete i) h ?m = Inr (h', m')" "plenty h'" "responsive m'"
      "sent m' = frame PUBCOMP_TYPE 0 (be16 i) # sent ?m" "told m' = told ?m"
      by (rule responsive_reply [where build = "mqtt_codec_publishComplete i", OF reply_frames(4) h m'])
    then show "\<exists>h' m'. recvCompleteCallback PUBREL_TYPE 2 (full (be16 i)) h m = Inr (h', m') \<and> plenty h' \<and> responsive m' \<and>
        sent m' = [frame PUBCOMP_TYPE 0 (be16 i)] @ sent m \<and> told m' = [Operation (MQTT_CLIENT_ON_PUBLISH_REL i)] @ told m"
      by (simp add: recv_ack recv_puback_be16 Let_def told)
  qed
qed

section \<open>Publishing\<close>

text \<open>The message a user makes and publishes.\<close>

definition own_message :: "16 word \<Rightarrow> cstr \<Rightarrow> QOS_VALUE \<Rightarrow> byte list \<Rightarrow> bool \<Rightarrow> bool \<Rightarrow> MQTT_MESSAGE" where
  "own_message i topic q data dup retain =
    \<lparr>packetId = i, qosInfo = q, topicName = Some topic,
     appPayload = \<lparr>message = (if data = [] then None else Some data), plength = length data\<rparr>,
     const_topic_name = None, const_payload = no_payload, isDuplicateMsg = dup, isMessageRetained = retain\<rparr>"

lemma own_message_created:
  assumes "plenty h" "length topic \<le> USHRT_MAX" "length data < 2 ^ 31"
  shows "\<exists>h' msg. mqttmessage_create i (Some topic) q (Some data) (length data) h = Inr (Some msg, h') \<and>
    mqttmessage_setIsRetained (snd (mqttmessage_setIsDuplicateMsg (Some msg) dup)) retain =
      (MU_OK, Some (own_message i topic q data dup retain))"
proof -
  from assms(1) obtain g0 g1 g2 where "h 0 = Some g0" "h (Suc 0) = Some g1" "h (Suc (Suc 0)) = Some g2" unfolding plenty_def by blast
  with assms(2,3) show ?thesis
    by (auto simp: mqttmessage_create_def create_msg_object_def mallocAndStrcpy_s_def malloc_def read_from_def own_message_def
        mqttmessage_setIsRetained_def mqttmessage_setIsDuplicateMsg_def no_payload_def USHRT_MAX_def)
qed

lemma publish_sends:
  assumes "length topic \<le> USHRT_MAX" "length (publish_body q i topic data) \<le> MAX_REMAINING" "plenty h" "responsive m"
  obtains h' m' where "mqtt_client_publish (Some (own_message i topic q data dup retain)) h m = Inr (MU_OK, h', m')" "plenty h'"
    "responsive m'" "sent m' = frame PUBLISH_TYPE (publish_flags q dup retain) (publish_body q i topic data) # sent m" "told m' = told m"
proof -
  let ?msg = "Some (own_message i topic q data dup retain)" and ?m = "m\<lparr>packetState := PUBLISH_TYPE\<rparr>"
  let ?p = "appPayload (own_message i topic q data dup retain)"
  have get: "mqttmessage_getApplicationMsg ?msg = Some ?p" "mqttmessage_getQosType ?msg = q" "mqttmessage_getIsDuplicateMsg ?msg = dup"
    "mqttmessage_getIsRetained ?msg = retain" "mqttmessage_getPacketId ?msg = i" "mqttmessage_getTopicName ?msg = Some topic"
    "plength ?p = length data" "data \<noteq> [] \<Longrightarrow> message ?p = Some data"
    by (simp_all add: own_message_def mqttmessage_getApplicationMsg_def mqttmessage_getQosType_def mqttmessage_getIsDuplicateMsg_def
        mqttmessage_getIsRetained_def mqttmessage_getPacketId_def mqttmessage_getTopicName_def no_payload_def)
  have "gives h (mqtt_codec_publish q dup retain i (Some topic) (message ?p) (length data) h)
      (frame PUBLISH_TYPE (publish_flags q dup retain) (publish_body q i topic data))"
    by (rule publish_gives [OF assms(1,2) get(8)])
  then show ?thesis
  proof (cases rule: gives_cases)
    case (null h')
    with assms(3) show ?thesis by simp
  next
    case (built pkt h')
    have "responsive ?m" using assms(4) by (simp add: responsive_def)
    then obtain m' where "sendPacketItem (frame PUBLISH_TYPE (publish_flags q dup retain) (publish_body q i topic data)) ?m = (MU_OK, m')"
      "responsive m'" "sent m' = frame PUBLISH_TYPE (publish_flags q dup retain) (publish_body q i topic data) # sent ?m" "told m' = told ?m"
      by (rule responsive_send)
    with built packet_bytes_contains [OF built(3)] assms(3) that get(1-7) show ?thesis
      by (auto simp: mqtt_client_publish_def send_built_def send_packet_def)
  qed
qed

lemma be16_of_bytes: "be16 (256 * ucast x + ucast y) = [x, y]"
proof -
  have x: "unat x < 256" "unat y < 256" using unsigned_less [of x] unsigned_less [of y] by simp_all
  have u: "unat (256 * ucast x + ucast y :: 16 word) = 256 * unat x + unat y"
    using x by (simp add: unat_word_ariths unsigned_ucast_eq take_bit_nat_eq_self)
  have "unat ((256 * ucast x + ucast y :: 16 word) div 256) = unat x" "unat ((256 * ucast x + ucast y :: 16 word) mod 256) = unat y"
    using x by (simp_all add: unat_div_distrib unat_mod_distrib u)
  moreover have "ucast w = b" if "unat w = unat b" for w :: "16 word" and b :: byte
  proof -
    have "unat b < 256" using unsigned_less [of b] by simp
    with that have "unat (ucast w :: byte) = unat b" by (simp add: unsigned_ucast_eq unsigned_take_bit_eq take_bit_nat_eq_self)
    then show ?thesis by (rule unsigned_word_eqI)
  qed
  ultimately show ?thesis by (simp add: be16_def)
qed

section \<open>Connections\<close>

lemma status_simps [simp]:
  "mqtt_status (tell n m) = mqtt_status m" "has_status f (tell n m) = has_status f m"
  by (simp_all add: tell_def has_status_def)

lemma merged_gone: "texts_gone old \<Longrightarrow> merged opts old = opts"
  by (simp add: merged_def texts_gone_def newer_def split: option.split)

lemma connect_copies:
  assumes "connect_ok opts" "plenty h"
  obtains h' m' where "mqtt_client_connect True (Some opts) True h m = (MU_OK, h', m')" "plenty h'"
    "mqttOptions m' = merged opts (mqttOptions m)" "xioHandle m'" "ticks m' = ticks m" "sends m' = sends m"
    "sent m' = sent m" "told m' = told m" "mqtt_status m' = mqtt_status m" "keepAlive m' = keepAliveInterval opts"
proof -
  let ?half = "keepAliveInterval opts div 2"
  let ?m = "m\<lparr>xioHandle := True, packetState := UNKNOWN_TYPE, qosValue := qualityOfServiceValue opts, keepAlive := keepAliveInterval opts,
     maxPingRespTime := (if DEFAULT_MAX_PING_RESPONSE_TIME < ?half then DEFAULT_MAX_PING_RESPONSE_TIME else ?half)\<rparr>"
  obtain h' where "cloneMqttOptions opts h ?m = (MU_OK, h', ?m\<lparr>mqttOptions := merged opts (mqttOptions ?m)\<rparr>)" "plenty h'"
    by (rule clone_plenty [OF assms])
  with that show ?thesis by (simp add: mqtt_client_connect_def Let_def)
qed

lemma open_sends:
  assumes "connect_ok (mqttOptions m)" "plenty h" "responsive m" "\<not> has_status MQTT_STATUS_SOCKET_CONNECTED m"
  obtains h' m' where "onOpenComplete IO_OPEN_OK h m = Inr (h', m')" "plenty h'" "responsive m'"
    "sent m' = frame CONNECT_TYPE 0 (connect_body (mqttOptions m)) # sent m" "told m' = told m"
    "has_status MQTT_STATUS_SOCKET_CONNECTED m'"
proof -
  let ?m = "set_status MQTT_STATUS_SOCKET_CONNECTED (m\<lparr>packetState := CONNECT_TYPE\<rparr>)"
  let ?bs = "frame CONNECT_TYPE 0 (connect_body (mqttOptions m))"
  have "gives h (mqtt_codec_connect (Some (mqttOptions m)) h) ?bs"
    using assms(1) by (auto simp: connect_ok_def intro!: connect_gives connect_body_bound)
  then show ?thesis
  proof (cases rule: gives_cases)
    case (null h')
    with assms(2) show ?thesis by simp
  next
    case (built pkt h')
    have "responsive ?m" using assms(3) by (simp add: responsive_def set_status_def)
    then obtain m' where "sendPacketItem ?bs ?m = (MU_OK, m')" "responsive m'" "sent m' = ?bs # sent ?m" "told m' = told ?m"
      "mqtt_status m' = mqtt_status ?m" by (rule responsive_send)
    moreover have "has_status MQTT_STATUS_SOCKET_CONNECTED m'"
      using calculation(5) by (simp add: has_status_def set_status_def MQTT_STATUS_SOCKET_CONNECTED_def)
    ultimately show ?thesis using built packet_bytes_contains [OF built(3)] assms(2,4) that
      by (auto simp: onOpenComplete_def send_packet_def Let_def set_status_def)
  qed
qed

text \<open>Keeping alive.\<close>

definition connected :: "MQTT_CLIENT \<Rightarrow> bool" where
  "connected m \<longleftrightarrow> xioHandle m \<and> has_status MQTT_STATUS_SOCKET_CONNECTED m \<and> has_status MQTT_STATUS_CLIENT_CONNECTED m \<and>
     \<not> has_status MQTT_STATUS_PENDING_CLOSE m"

lemma has_status_cong: "mqtt_status m' = mqtt_status m \<Longrightarrow> has_status f m' = has_status f m"
  by (simp add: has_status_def)

lemma keep_alive_pings:
  assumes "timeSincePing m = 0" "ticks m 0 = Some t" "(t - packetSendTimeMs m) div 1000 \<ge> ucast (keepAlive m)"
    "ticks m 1 = Some t1" "ticks m 2 = Some t2" "sends m 0" "xioHandle m" "plenty h"
  obtains h' where "keep_alive h m = Inr (h', m\<lparr>ticks := \<lambda>i. ticks m (i + 3), packetSendTimeMs := t1, sends := \<lambda>i. sends m (Suc i),
     sent := frame PINGREQ_TYPE 0 [] # sent m, timeSincePing := t2\<rparr>)" "plenty h'"
proof -
  from ping_gives [of h] show ?thesis
  proof (cases rule: gives_cases)
    case (null h')
    with assms(8) show ?thesis by simp
  next
    case (built pkt h')
    have three: "(\<lambda>i. ticks m (Suc (Suc (Suc i)))) = (\<lambda>i. ticks m (i + 3))" by (simp add: numeral_3_eq_3)
    let ?m = "m\<lparr>ticks := \<lambda>i. ticks m (Suc i)\<rparr>"
    obtain b where pkt: "pkt = Some b" using built(2) by blast
    have "send_packet pkt ?m = Inr (MU_OK, m\<lparr>ticks := \<lambda>i. ticks m (Suc (Suc i)), packetSendTimeMs := t1,
        sends := \<lambda>i. sends m (Suc i), sent := frame PINGREQ_TYPE 0 [] # sent m\<rparr>)"
      using packet_bytes_contains [OF built(3)] assms(4,6,7)
      by (simp add: send_packet_def sendPacketItem_def tickcounter_get_current_ms_def xio_send_def Let_def)
    then have "keep_alive h m = Inr (h', m\<lparr>ticks := \<lambda>i. ticks m (i + 3), packetSendTimeMs := t1, sends := \<lambda>i. sends m (Suc i),
        sent := frame PINGREQ_TYPE 0 [] # sent m, timeSincePing := t2\<rparr>)"
      using built(1) assms(1-3,5) pkt
      by (simp add: keep_alive_def tickcounter_get_current_ms_def numeral_2_eq_2 three [symmetric])
    then show ?thesis by (rule that) (rule built(4) [OF assms(8)])
  qed
qed

lemma close_handle: "has_status MQTT_STATUS_SOCKET_CONNECTED m \<Longrightarrow> \<not> xioHandle (close_connection m)"
  by (simp add: close_connection_def Let_def split: prod.split)

lemma told_grows [simp]: "n \<in> set (told m) \<Longrightarrow> n \<in> set (told (close_connection m))"
proof -
  assume n: "n \<in> set (told m)"
  obtain polls m1 where x: "xio_close m = (polls, m1)" by (cases "xio_close m")
  then have "told m1 = told m" by (auto simp: xio_close_def split: if_splits)
  with x n show "n \<in> set (told (close_connection m))"
    by (auto simp: close_connection_def Let_def on_connection_closed_def tell_def clear_status_def split: option.split nat.split)
qed

lemma keep_alive_gives_up:
  assumes "timeSincePing m > 0" "ticks m 0 = Some t" "(t - timeSincePing m) div 1000 > ucast (maxPingRespTime m)"
    "fnOnErrorCallBack m" "has_status MQTT_STATUS_SOCKET_CONNECTED m"
  obtains m' where "keep_alive h m = Inr (h, m')" "Failed MQTT_CLIENT_NO_PING_RESPONSE \<in> set (told m')" "\<not> xioHandle m'"
proof -
  let ?m = "m\<lparr>ticks := \<lambda>i. ticks m (Suc i)\<rparr>"
  let ?m' = "(set_error_callback MQTT_CLIENT_NO_PING_RESPONSE ?m)\<lparr>timeSincePing := 0, packetSendTimeMs := 0, packetState := UNKNOWN_TYPE\<rparr>"
  have "keep_alive h m = Inr (h, ?m')" using assms(1-3) by (simp add: keep_alive_def tickcounter_get_current_ms_def)
  moreover have "Failed MQTT_CLIENT_NO_PING_RESPONSE \<in> set (told ?m')"
    using assms(4) by (simp add: set_error_callback_def) (rule told_grows, simp add: tell_def)
  moreover have "\<not> xioHandle ?m'"
    using assms(5) has_status_cong [of ?m m] by (simp add: set_error_callback_def close_handle)
  ultimately show ?thesis by (rule that)
qed

lemma dowork_quiet:
  assumes "connected m" "keepAlive m > 0"
  shows "mqtt_client_dowork [] h (c, m) = cbind (keep_alive h m) (\<lambda>(h1, m1). Inr (h1, c, m1))"
  using assms by (simp add: mqtt_client_dowork_def connected_def Let_def)

text \<open>Losing the connection.\<close>

lemma client_connected_kept: "has_status MQTT_STATUS_CLIENT_CONNECTED (clear_status MQTT_STATUS_SOCKET_CONNECTED m) =
    has_status MQTT_STATUS_CLIENT_CONNECTED m"
proof -
  have "(NOT 2 :: 16 word) AND 1 = 1" by simp
  then have "(s AND NOT 2) AND 1 = s AND (1 :: 16 word)" for s by (simp add: and.assoc)
  then show ?thesis
    by (simp add: has_status_def clear_status_def MQTT_STATUS_CLIENT_CONNECTED_def MQTT_STATUS_SOCKET_CONNECTED_def)
qed

lemma closed_still_connected:
  "has_status MQTT_STATUS_CLIENT_CONNECTED (close_connection m) = has_status MQTT_STATUS_CLIENT_CONNECTED m"
proof -
  have closed: "has_status MQTT_STATUS_CLIENT_CONNECTED (on_connection_closed m') = has_status MQTT_STATUS_CLIENT_CONNECTED m'" for m'
    by (simp add: on_connection_closed_def Let_def client_connected_kept)
  obtain polls m1 where x: "xio_close m = (polls, m1)" by (cases "xio_close m")
  then have m1: "has_status MQTT_STATUS_CLIENT_CONNECTED m1 = has_status MQTT_STATUS_CLIENT_CONNECTED m"
    by (auto simp: xio_close_def has_status_def split: if_splits)
  have handle: "has_status f (m'\<lparr>xioHandle := b\<rparr>) = has_status f m'" for f m' b by (simp add: has_status_def)
  show ?thesis using x m1 closed client_connected_kept [of m]
    by (auto simp: close_connection_def Let_def handle split: option.split nat.split)
qed

lemma unsendable:
  assumes "\<not> xioHandle m"
  obtains m' where "sendPacketItem bs m = (MU_FAILURE, m')" "told m' = told m"
  using assms that by (cases "ticks m 0") (simp_all add: sendPacketItem_def tickcounter_get_current_ms_def xio_send_def)

lemma unsendable_disconnect:
  assumes "\<not> xioHandle m" "has_status MQTT_STATUS_CLIENT_CONNECTED m"
  shows "\<exists>h' m'. mqtt_client_disconnect cb h m = Inr (MU_FAILURE, h', m') \<and> told m' = told m"
proof -
  have clear: "told (clear_mqtt_options m') = told m'" for m' by (simp add: clear_mqtt_options_def)
  from disconnect_gives [of h] show ?thesis
  proof (cases rule: gives_cases)
    case (null h')
    with assms(2) show ?thesis by (simp add: mqtt_client_disconnect_def clear)
  next
    case (built pkt h')
    let ?m = "m\<lparr>disconnect_cb := cb, packetState := DISCONNECT_TYPE\<rparr>"
    obtain b where pkt: "pkt = Some b" using built(2) by blast
    from unsendable [of ?m "frame DISCONNECT_TYPE 0 []"] assms(1) obtain m' where
      "sendPacketItem (frame DISCONNECT_TYPE 0 []) ?m = (MU_FAILURE, m')" "told m' = told m" by auto
    with assms(2) built(1) pkt packet_bytes_contains [OF built(3)] show ?thesis
      by (simp add: mqtt_client_disconnect_def send_packet_def clear)
  qed
qed

section \<open>Properties\<close>

text \<open>
  Claim C9. A message makes its way from one MQTT client to another: a message of quality of
  service 0 without flags, or of quality 1 or 2 with a packet id and any flags, with a topic and a
  content that the receiving codec takes, is published as one packet; whatever pieces that packet
  arrives in, the receiving client hands its user a message with the same topic, content, quality
  and flags, and the packet id where the packet has one, and sends exactly the acknowledgement of
  that quality (none, PUBACK or PUBREC).
\<close>

theorem message_arrives:
  assumes "topic \<noteq> []" "length topic \<le> USHRT_MAX" "q \<noteq> DELIVER_FAILURE" "q = DELIVER_AT_MOST_ONCE \<longrightarrow> \<not> dup \<and> \<not> retain"
    "q \<noteq> DELIVER_AT_MOST_ONCE \<longrightarrow> i \<noteq> 0" "length (publish_body q i topic data) < MAX_3_DIGIT_PACKET_SIZE"
    "plenty h" "responsive m"
  shows "\<exists>h' m' bs. mqtt_client_publish (Some (own_message i topic q data dup retain)) h m = Inr (MU_OK, h', m') \<and>
    sent m' = bs # sent m \<and>
    answers bs (acknowledgement q i) [Message (received_message q i topic data dup retain)]"
proof -
  have "length (publish_body q i topic data) \<le> MAX_REMAINING"
    using assms(6) by (simp add: MAX_REMAINING_def MAX_3_DIGIT_PACKET_SIZE_def)
  from publish_sends [OF assms(2) this assms(7,8)] obtain h' m' where
    "mqtt_client_publish (Some (own_message i topic q data dup retain)) h m = Inr (MU_OK, h', m')"
    "sent m' = frame PUBLISH_TYPE (publish_flags q dup retain) (publish_body q i topic data) # sent m" by metis
  with publish_answers [OF assms(1-3) _ _ assms(6), of dup retain] assms(4,5) show ?thesis by blast
qed

text \<open>A client with a transport that is open.\<close>

definition open_client :: MQTT_CLIENT where
  "open_client = new_client\<lparr>xioHandle := True, keepAlive := 240,
     mqtt_status := MQTT_STATUS_CLIENT_CONNECTED OR MQTT_STATUS_SOCKET_CONNECTED\<rparr>"

lemma open_client_responsive: "responsive open_client"
  by (simp add: responsive_def open_client_def new_client_def)

lemma message_arrives_witness:
  "\<exists>h' m' bs. mqtt_client_publish (Some (own_message 7 [0x61, 0x2F, 0x62] DELIVER_AT_LEAST_ONCE [1, 2, 3] False True)) junk_mem open_client =
      Inr (MU_OK, h', m') \<and> sent m' = bs # sent open_client \<and>
    answers bs [frame PUBACK_TYPE 0 (be16 7)]
      [Message (received_message DELIVER_AT_LEAST_ONCE 7 [0x61, 0x2F, 0x62] [1, 2, 3] False True)]"
  using message_arrives [of "[0x61, 0x2F, 0x62]" DELIVER_AT_LEAST_ONCE False True 7 "[1, 2, 3]" junk_mem open_client]
    open_client_responsive
  by (simp add: USHRT_MAX_def MAX_3_DIGIT_PACKET_SIZE_def publish_body_def packet_id_def acknowledgement_def)

text \<open>
  Claim C32. Quality of service 2 between two clients is the handshake of MQTT: the PUBLISH packet is
  answered by a PUBREC, that by a PUBREL, that by a PUBCOMP with the same packet id, and the
  PUBCOMP by nothing; each arrival, in whatever pieces, calls back the user of that client once,
  and the message is handed over once.
\<close>

theorem exactly_once_handshake:
  assumes "topic \<noteq> []" "length topic \<le> USHRT_MAX" "i \<noteq> 0"
    "length (publish_body DELIVER_EXACTLY_ONCE i topic data) < MAX_3_DIGIT_PACKET_SIZE" "plenty h" "responsive m"
  shows "\<exists>h' m' publish pubrec pubrel pubcomp.
    mqtt_client_publish (Some (own_message i topic DELIVER_EXACTLY_ONCE data dup retain)) h m = Inr (MU_OK, h', m') \<and>
    sent m' = publish # sent m \<and>
    answers publish [pubrec] [Message (received_message DELIVER_EXACTLY_ONCE i topic data dup retain)] \<and>
    answers pubrec [pubrel] [Operation (MQTT_CLIENT_ON_PUBLISH_RECV i)] \<and>
    answers pubrel [pubcomp] [Operation (MQTT_CLIENT_ON_PUBLISH_REL i)] \<and>
    answers pubcomp [] [Operation (MQTT_CLIENT_ON_PUBLISH_COMP i)]"
proof -
  let ?q = DELIVER_EXACTLY_ONCE
  have "length (publish_body ?q i topic data) \<le> MAX_REMAINING"
    using assms(4) by (simp add: MAX_REMAINING_def MAX_3_DIGIT_PACKET_SIZE_def)
  from publish_sends [OF assms(2) this assms(5,6)] obtain h' m' where
    "mqtt_client_publish (Some (own_message i topic ?q data dup retain)) h m = Inr (MU_OK, h', m')"
    "sent m' = frame PUBLISH_TYPE (publish_flags ?q dup retain) (publish_body ?q i topic data) # sent m" by metis
  moreover have "answers (frame PUBLISH_TYPE (publish_flags ?q dup retain) (publish_body ?q i topic data))
      [frame PUBREC_TYPE 0 (be16 i)] [Message (received_message ?q i topic data dup retain)]"
    using publish_answers [OF assms(1,2) _ _ _ assms(4), of dup retain] assms(3) by (simp add: acknowledgement_def)
  ultimately show ?thesis using handshake_answers [of i] ack_answers(2) [of i] by blast
qed

lemma exactly_once_handshake_witness:
  "\<exists>h' m' publish pubrec pubrel pubcomp.
    mqtt_client_publish (Some (own_message 7 [0x61] DELIVER_EXACTLY_ONCE [1] False False)) junk_mem open_client = Inr (MU_OK, h', m') \<and>
    sent m' = publish # sent open_client \<and>
    answers publish [pubrec] [Message (received_message DELIVER_EXACTLY_ONCE 7 [0x61] [1] False False)] \<and>
    answers pubrec [pubrel] [Operation (MQTT_CLIENT_ON_PUBLISH_RECV 7)] \<and>
    answers pubrel [pubcomp] [Operation (MQTT_CLIENT_ON_PUBLISH_REL 7)] \<and>
    answers pubcomp [] [Operation (MQTT_CLIENT_ON_PUBLISH_COMP 7)]"
  by (rule exactly_once_handshake [OF _ _ _ _ plenty_junk open_client_responsive])
    (simp_all add: USHRT_MAX_def MAX_3_DIGIT_PACKET_SIZE_def publish_body_def packet_id_def)

text \<open>
  A retained message of quality of service 0 is misread: of the flags of the packet only
  \<open>flags == 0\<close> counts as quality 0, so that the receiving client takes the first two bytes of the
  content for a packet id, hands its user the rest as a message of quality 2, and answers with a
  PUBREC.
\<close>

theorem retained_message_misread:
  assumes "topic \<noteq> []" "length topic \<le> USHRT_MAX" "256 * ucast x + ucast y \<noteq> (0 :: 16 word)"
    "length (publish_body DELIVER_AT_MOST_ONCE i topic (x # y # data)) < MAX_3_DIGIT_PACKET_SIZE" "plenty h" "responsive m"
  shows "\<exists>h' m' bs. mqtt_client_publish (Some (own_message i topic DELIVER_AT_MOST_ONCE (x # y # data) False True)) h m = Inr (MU_OK, h', m') \<and>
    sent m' = bs # sent m \<and>
    answers bs [frame PUBREC_TYPE 0 [x, y]]
      [Message (received_message DELIVER_EXACTLY_ONCE (256 * ucast x + ucast y) topic data False True)]"
proof -
  let ?i = "256 * ucast x + ucast y :: 16 word" and ?q = DELIVER_EXACTLY_ONCE
  let ?body = "publish_body DELIVER_AT_MOST_ONCE i topic (x # y # data)"
  have body: "?body = publish_body ?q ?i topic data" by (simp add: publish_body_def packet_id_def be16_of_bytes)
  have flags: "publish_flags DELIVER_AT_MOST_ONCE False True = 1" "publish_qos 1 = ?q" "(1 :: byte) AND DUPLICATE_FLAG_MASK = 0"
    "(1 :: byte) AND RETAIN_FLAG_MASK \<noteq> 0"
    by (simp_all add: publish_flags_def PUBLISH_QOS_RETAIN_def publish_qos_def QOS_LEAST_ONCE_FLAG_MASK_def DUPLICATE_FLAG_MASK_def
        RETAIN_FLAG_MASK_def Let_def)
  have "length ?body \<le> MAX_REMAINING" using assms(4) by (simp add: MAX_REMAINING_def MAX_3_DIGIT_PACKET_SIZE_def)
  from publish_sends [OF assms(2) this assms(5,6)] obtain h' m' where
    "mqtt_client_publish (Some (own_message i topic DELIVER_AT_MOST_ONCE (x # y # data) False True)) h m = Inr (MU_OK, h', m')"
    "sent m' = frame PUBLISH_TYPE 1 ?body # sent m" using flags(1) by metis
  moreover have "answers (frame PUBLISH_TYPE 1 ?body) [frame PUBREC_TYPE 0 [x, y]] [Message (received_message ?q ?i topic data False True)]"
  proof (rule answersI)
    show "packet_ok PUBLISH_TYPE 1 ?body" using assms(4) by (simp add: packet_ok_def real_type_def valid_header_def)
  next
    fix h m assume h: "plenty h" "responsive m"
    have "?i \<noteq> 0" by (rule assms(3))
    from publish_read [OF assms(1,2) flags(2) [symmetric] this h, of data] flags(3,4) show
      "\<exists>h' m'. recvCompleteCallback PUBLISH_TYPE 1 (full ?body) h m = Inr (h', m') \<and> plenty h' \<and> responsive m' \<and>
        sent m' = [frame PUBREC_TYPE 0 [x, y]] @ sent m \<and> told m' = [Message (received_message ?q ?i topic data False True)] @ told m"
      by (simp add: recv_publish body acknowledgement_def be16_of_bytes)
  qed
  ultimately show ?thesis by blast
qed

lemma retained_message_misread_witness:
  "\<exists>h' m' bs. mqtt_client_publish (Some (own_message 0 [0x61] DELIVER_AT_MOST_ONCE [0x68, 0x69, 0x21] False True)) junk_mem open_client =
      Inr (MU_OK, h', m') \<and> sent m' = bs # sent open_client \<and>
    answers bs [frame PUBREC_TYPE 0 [0x68, 0x69]]
      [Message (received_message DELIVER_EXACTLY_ONCE 0x6869 [0x61] [0x21] False True)]"
  using retained_message_misread [of "[0x61]" "0x68" "0x69" 0 "[0x21]" junk_mem open_client] open_client_responsive
  by (simp add: USHRT_MAX_def MAX_3_DIGIT_PACKET_SIZE_def publish_body_def packet_id_def)

text \<open>
  Connecting sends one CONNECT packet, and it carries the options of the user: a client
  id, will, user name, password, keep-alive interval and flags as MQTT lays them out.  A text the
  options leave out is taken from an earlier connect, whose texts stay until the user disconnects:
  \<open>merged\<close>, which is the options themselves on a client without earlier texts.
\<close>

theorem connect_sends_options:
  assumes "connect_ok opts" "connect_ok (mqttOptions m) \<or> texts_gone (mqttOptions m)" "plenty h"
    "\<forall>i. ticks m i \<noteq> None" "\<forall>i. sends m i" "\<not> has_status MQTT_STATUS_SOCKET_CONNECTED m"
  shows "\<exists>h1 m1 h2 m2. mqtt_client_connect True (Some opts) True h m = (MU_OK, h1, m1) \<and> sent m1 = sent m \<and>
    xio_dowork [Open_complete IO_OPEN_OK] h1 (c, m1) = Inr (h2, c, m2) \<and>
    sent m2 = frame CONNECT_TYPE 0 (connect_body (merged opts (mqttOptions m))) # sent m \<and>
    has_status MQTT_STATUS_SOCKET_CONNECTED m2 \<and> told m2 = told m \<and>
    (texts_gone (mqttOptions m) \<longrightarrow> merged opts (mqttOptions m) = opts)"
proof -
  obtain h1 m1 where 1: "mqtt_client_connect True (Some opts) True h m = (MU_OK, h1, m1)" "plenty h1"
    "mqttOptions m1 = merged opts (mqttOptions m)" "xioHandle m1" "ticks m1 = ticks m" "sends m1 = sends m"
    "sent m1 = sent m" "told m1 = told m" "mqtt_status m1 = mqtt_status m"
    by (rule connect_copies [OF assms(1,3), of m]) blast
  have "connect_ok (mqttOptions m1)" using merged_ok [OF assms(1,2)] 1(3) by simp
  moreover have "responsive m1" using 1(4-6) assms(4,5) by (simp add: responsive_def)
  moreover have "\<not> has_status MQTT_STATUS_SOCKET_CONNECTED m1" using assms(6) has_status_cong [OF 1(9)] by simp
  ultimately obtain h2 m2 where "onOpenComplete IO_OPEN_OK h1 m1 = Inr (h2, m2)"
    "sent m2 = frame CONNECT_TYPE 0 (connect_body (mqttOptions m1)) # sent m1" "told m2 = told m1"
    "has_status MQTT_STATUS_SOCKET_CONNECTED m2" using open_sends [OF _ 1(2)] by metis
  with 1(1,3,7,8) merged_gone show ?thesis by simp
qed

text \<open>After a lost connection, the user name of before.\<close>

lemma connect_sends_options_witness:
  "\<exists>h1 m1 h2 m2. mqtt_client_connect True (Some (no_options\<lparr>clientId := Some [0x64]\<rparr>)) True junk_mem (new_client\<lparr>mqttOptions := device_options\<rparr>) =
      (MU_OK, h1, m1) \<and> xio_dowork [Open_complete IO_OPEN_OK] h1 (Some new_codec, m1) = Inr (h2, Some new_codec, m2) \<and>
    sent m2 = [frame CONNECT_TYPE 0 (connect_body (no_options\<lparr>clientId := Some [0x64], username := Some [0x68], password := Some [0x73]\<rparr>))]"
proof -
  let ?opts = "no_options\<lparr>clientId := Some [0x64]\<rparr>" and ?m = "new_client\<lparr>mqttOptions := device_options\<rparr>"
  have "connect_ok ?opts" by (simp add: no_options_def connect_ok_def fields_ok_def field_ok_def USHRT_MAX_def)
  moreover have "connect_ok (mqttOptions ?m) \<or> texts_gone (mqttOptions ?m)" by (simp add: device_options_ok)
  moreover have "\<forall>i. ticks ?m i \<noteq> None" "\<forall>i. sends ?m i" "\<not> has_status MQTT_STATUS_SOCKET_CONNECTED ?m"
    by (simp_all add: new_client_def has_status_def)
  ultimately have "\<exists>h1 m1 h2 m2. mqtt_client_connect True (Some ?opts) True junk_mem ?m = (MU_OK, h1, m1) \<and> sent m1 = sent ?m \<and>
      xio_dowork [Open_complete IO_OPEN_OK] h1 (Some new_codec, m1) = Inr (h2, Some new_codec, m2) \<and>
      sent m2 = frame CONNECT_TYPE 0 (connect_body (merged ?opts (mqttOptions ?m))) # sent ?m \<and>
      has_status MQTT_STATUS_SOCKET_CONNECTED m2 \<and> told m2 = told ?m \<and>
      (texts_gone (mqttOptions ?m) \<longrightarrow> merged ?opts (mqttOptions ?m) = ?opts)"
    by (rule connect_sends_options [OF _ _ plenty_junk])
  moreover have "merged ?opts (mqttOptions ?m) = no_options\<lparr>clientId := Some [0x64], username := Some [0x68], password := Some [0x73]\<rparr>"
    by (simp add: merged_def newer_def device_options_def no_options_def)
  moreover have "sent ?m = []" by (simp add: new_client_def)
  ultimately show ?thesis by auto
qed

text \<open>A ping, and what happens when it is not answered.\<close>

lemma ping_unanswered:
  assumes "connected m" "fnOnErrorCallBack m" "keepAlive m > 0" "timeSincePing m = 0" "sends m 0" "plenty h"
    and "ticks m 0 = Some now" "(now - packetSendTimeMs m) div 1000 \<ge> ucast (keepAlive m)"
    and "ticks m 1 = Some started" "ticks m 2 = Some pinged" "pinged > 0"
    and "ticks m 3 = Some later" "(later - pinged) div 1000 > ucast (maxPingRespTime m)"
  shows "\<exists>h1 m1 h2 m2. mqtt_client_dowork [] h (c, m) = Inr (h1, c, m1) \<and> sent m1 = frame PINGREQ_TYPE 0 [] # sent m \<and> told m1 = told m \<and>
    mqtt_client_dowork [] h1 (c, m1) = Inr (h2, c, m2) \<and> Failed MQTT_CLIENT_NO_PING_RESPONSE \<in> set (told m2) \<and> \<not> xioHandle m2"
proof -
  let ?m1 = "m\<lparr>ticks := \<lambda>i. ticks m (i + 3), packetSendTimeMs := started, sends := \<lambda>i. sends m (Suc i),
     sent := frame PINGREQ_TYPE 0 [] # sent m, timeSincePing := pinged\<rparr>"
  have x: "xioHandle m" "has_status MQTT_STATUS_SOCKET_CONNECTED m" using assms(1) by (simp_all add: connected_def)
  obtain h1 where 1: "keep_alive h m = Inr (h1, ?m1)"
    by (rule keep_alive_pings [OF assms(4,7,8,9,10,5) x(1) assms(6)])
  have status: "has_status f ?m1 = has_status f m" for f by (rule has_status_cong) simp
  have m1: "timeSincePing ?m1 > 0" "ticks ?m1 0 = Some later" "(later - timeSincePing ?m1) div 1000 > ucast (maxPingRespTime ?m1)"
    "fnOnErrorCallBack ?m1" "has_status MQTT_STATUS_SOCKET_CONNECTED ?m1" "connected ?m1" "keepAlive ?m1 > 0"
    using assms x(2) by (simp_all add: status connected_def)
  obtain m2 where "keep_alive h1 ?m1 = Inr (h1, m2)" "Failed MQTT_CLIENT_NO_PING_RESPONSE \<in> set (told m2)" "\<not> xioHandle m2"
    by (rule keep_alive_gives_up [OF m1(1-5)])
  with 1 dowork_quiet [OF assms(1,3), of h c] dowork_quiet [OF m1(6,7), of h1 c] show ?thesis by simp
qed

text \<open>
  A server that no longer answers is noticed: when a connected client with a keep-alive
  interval has sent nothing for that interval, the next \<open>mqtt_client_dowork\<close> sends a PINGREQ; when
  nothing arrives and \<open>mqtt_client_dowork\<close> is next called later than the time for a response, it
  tells the user that there was no response and gives up the transport.
\<close>

theorem dead_server_noticed:
  assumes "connected m" "fnOnErrorCallBack m" "keepAlive m > 0" "timeSincePing m = 0" "sends m 0" "plenty h"
    and "ticks m 0 = Some now" "(now - packetSendTimeMs m) div 1000 \<ge> ucast (keepAlive m)"
    and "ticks m 1 = Some started" "ticks m 2 = Some pinged" "pinged > 0"
    and "ticks m 3 = Some later" "(later - pinged) div 1000 > ucast (maxPingRespTime m)"
  shows "\<exists>h1 m1 h2 m2. mqtt_client_dowork [] h (c, m) = Inr (h1, c, m1) \<and> sent m1 = frame PINGREQ_TYPE 0 [] # sent m \<and> told m1 = told m \<and>
    mqtt_client_dowork [] h1 (c, m1) = Inr (h2, c, m2) \<and> Failed MQTT_CLIENT_NO_PING_RESPONSE \<in> set (told m2) \<and> \<not> xioHandle m2"
  using assms by (rule ping_unanswered)

definition waiting_client :: MQTT_CLIENT where
  "waiting_client = open_client\<lparr>ticks := \<lambda>i. Some (if i < 3 then 240000 else 480000)\<rparr>"

lemma dead_server_noticed_witness:
  "\<exists>h1 m1 h2 m2. mqtt_client_dowork [] junk_mem (Some new_codec, waiting_client) = Inr (h1, Some new_codec, m1) \<and>
    sent m1 = frame PINGREQ_TYPE 0 [] # sent waiting_client \<and> told m1 = told waiting_client \<and>
    mqtt_client_dowork [] h1 (Some new_codec, m1) = Inr (h2, Some new_codec, m2) \<and>
    Failed MQTT_CLIENT_NO_PING_RESPONSE \<in> set (told m2) \<and> \<not> xioHandle m2"
proof (rule dead_server_noticed [where now = 240000 and started = 240000 and pinged = 240000 and later = 480000, OF _ _ _ _ _ plenty_junk])
  show "connected waiting_client"
    by (simp add: waiting_client_def connected_def open_client_def has_status_def MQTT_STATUS_CLIENT_CONNECTED_def MQTT_STATUS_SOCKET_CONNECTED_def
        MQTT_STATUS_PENDING_CLOSE_def)
qed (simp_all add: waiting_client_def open_client_def new_client_def DEFAULT_MAX_PING_RESPONSE_TIME_def)

text \<open>
  A connection that is lost cannot be disconnected: the flag of a connected client is
  never cleared, so that after an error of the transport \<open>mqtt_client_disconnect\<close> tries to send a
  DISCONNECT packet through a transport that is gone; it fails, whatever the allocator and the clock
  do, and the callback that is to be called once the client is disconnected is not called.
\<close>

theorem lost_connection_not_disconnected:
  assumes "connected m"
  shows "\<exists>h' m'. mqtt_client_disconnect cb h (onIoError m) = Inr (MU_FAILURE, h', m') \<and> told m' = told (onIoError m)"
proof (rule unsendable_disconnect)
  show "\<not> xioHandle (onIoError m)"
    using assms by (simp add: onIoError_def set_error_callback_def connected_def close_handle)
  show "has_status MQTT_STATUS_CLIENT_CONNECTED (onIoError m)"
    using assms by (simp add: onIoError_def set_error_callback_def closed_still_connected connected_def)
qed

lemma open_client_connected: "connected open_client"
  by (simp add: connected_def open_client_def has_status_def MQTT_STATUS_CLIENT_CONNECTED_def MQTT_STATUS_SOCKET_CONNECTED_def
      MQTT_STATUS_PENDING_CLOSE_def)

lemma lost_connection_not_disconnected_witness:
  "\<exists>h' m'. mqtt_client_disconnect True junk_mem (onIoError open_client) = Inr (MU_FAILURE, h', m') \<and>
    told m' = told (onIoError open_client)"
  by (rule lost_connection_not_disconnected [OF open_client_connected])

text \<open>
  A message that a client hands to its user cannot be kept by cloning it: it was made in
  place, and \<open>mqttmessage_clone\<close> copies only the topic and content a message owns; the clone is NULL
  whatever the allocator does.  A message of the user's own is cloned to an equal one.
\<close>

theorem clones_of_messages:
  "mqttmessage_clone (Some (received_message q i topic data dup retain)) h = Inr (None, h) \<and>
   (plenty h \<longrightarrow> length topic \<le> USHRT_MAX \<longrightarrow> length data < 2 ^ 31 \<longrightarrow>
      (\<exists>h'. mqttmessage_clone (Some (own_message i topic q data dup retain)) h = Inr (Some (own_message i topic q data dup retain), h')))"
proof -
  have "\<exists>h'. mqttmessage_clone (Some (own_message i topic q data dup retain)) h = Inr (Some (own_message i topic q data dup retain), h')"
    if p: "plenty h" and len: "length topic \<le> USHRT_MAX" "length data < 2 ^ 31"
  proof -
    from p obtain g0 g1 g2 where "h 0 = Some g0" "h (Suc 0) = Some g1" "h (Suc (Suc 0)) = Some g2" unfolding plenty_def by blast
    with len show ?thesis
      by (auto simp: mqttmessage_clone_def mqttmessage_create_def create_msg_object_def mallocAndStrcpy_s_def malloc_def read_from_def
          own_message_def no_payload_def USHRT_MAX_def)
  qed
  then show ?thesis
    by (simp add: mqttmessage_clone_def received_message_def mqttmessage_create_def)
qed

lemma clones_of_messages_witness:
  "\<exists>h'. mqttmessage_clone (Some (own_message 7 [0x61] DELIVER_AT_LEAST_ONCE [1] False True)) junk_mem =
     Inr (Some (own_message 7 [0x61] DELIVER_AT_LEAST_ONCE [1] False True), h')"
  using clones_of_messages [of DELIVER_AT_LEAST_ONCE 7 "[0x61]" "[1]" False True junk_mem] by (simp add: USHRT_MAX_def)

text \<open>
  Packets too long for MQTT are not refused: the check of a PUBLISH packet admits contents
  up to \<open>0xFFFFFF7F\<close> bytes, and from 268435456 bytes on (when the storage for it is there) the digits
  of its length are written past the end of their array of four.
\<close>

theorem long_publish_overflows:
  assumes "length topic \<le> USHRT_MAX" "MAX_REMAINING < length (publish_body q i topic data)"
    "length (publish_body q i topic data) < 2 ^ 31" "plenty h"
  shows "mqtt_client_publish (Some (own_message i topic q data dup retain)) h m = Inl Buffer_overflow"
proof -
  have "data \<noteq> []" using assms(1,2) by (auto simp: publish_body_def packet_id_def MAX_REMAINING_def USHRT_MAX_def split: if_splits)
  with publish_too_long [OF assms, of dup retain] show ?thesis
    by (simp add: mqtt_client_publish_def send_built_def own_message_def mqttmessage_getApplicationMsg_def mqttmessage_getQosType_def
        mqttmessage_getIsDuplicateMsg_def mqttmessage_getIsRetained_def mqttmessage_getPacketId_def mqttmessage_getTopicName_def
        no_payload_def)
qed

lemma long_publish_overflows_witness:
  "mqtt_client_publish (Some (own_message 0 [0x61] DELIVER_AT_MOST_ONCE (replicate 268435456 0) False False)) junk_mem open_client =
    Inl Buffer_overflow"
  by (rule long_publish_overflows)
    (simp_all add: USHRT_MAX_def MAX_REMAINING_def publish_body_def packet_id_def)

text \<open>
  Connecting without a client id corrupts the heap: the two bytes of its length are
  written into the CONNECT packet but not counted, so that with a user name the packet is two bytes
  too short for what is written into it.
\<close>

theorem no_client_id_overflows:
  assumes "clientId (mqttOptions m) = None" "willTopic (mqttOptions m) = None" "willMessage (mqttOptions m) = None"
    "username (mqttOptions m) = Some u" "2 \<le> length u" "length u \<le> USHRT_MAX" "password (mqttOptions m) = None" "plenty h"
    "\<not> has_status MQTT_STATUS_SOCKET_CONNECTED m"
  shows "onOpenComplete IO_OPEN_OK h m = Inl Buffer_overflow"
  using connect_no_client_id [OF assms(1-8)] assms(9) by (simp add: onOpenComplete_def set_status_def)

lemma no_client_id_overflows_witness:
  "onOpenComplete IO_OPEN_OK junk_mem (new_client\<lparr>mqttOptions := no_options\<lparr>username := Some [0x68, 0x69]\<rparr>\<rparr>) = Inl Buffer_overflow"
  by (rule no_client_id_overflows [where u = "[0x68, 0x69]"]) (simp_all add: no_options_def new_client_def has_status_def USHRT_MAX_def)

end
