(* ===== verification/Socket_Data.thy ===== *)
theory Socket_Data
  imports Socket_Io Esp_Calls Mqtt_Exchange
begin

text \<open>
  What the transports do with the data: what has come in is handed on in order, what is queued is
  sent in order, and what happens to a transport that is closed while it is worked on.
\<close>

section \<open>A socket with data\<close>

lemma get_keeps_id: "ring_get k = Inr (Some (c, k')) \<Longrightarrow> conn_id k' = conn_id k"
  by (auto simp: ring_get_def split: if_splits rx_buffer.splits)

lemma read_loop_keeps_id: "read_loop k n = Inr (cs, k') \<Longrightarrow> conn_id k' = conn_id k"
  by (induction k n arbitrary: cs k' rule: read_loop.induct)
    (auto simp: cbind_Inr_iff get_keeps_id split: option.splits prod.splits)

text \<open>The driver is idle, and the socket is one of its five, with storage for its ring, and connected.\<close>

definition readable :: "nat \<Rightarrow> link \<Rightarrow> bool" where
  "readable sock l \<longleftrightarrow> idle (fst l) \<and> sock \<le> 4 \<and> live (conn sock l) \<and> conn_state (conn sock l) = conn_connected"

text \<open>The bytes that wait in the ring of a socket.\<close>

definition arrived :: "nat \<Rightarrow> link \<Rightarrow> byte list" where
  "arrived sock l = map byte_of (rx_contents (conn sock l))"

lemma receive_step:
  assumes "readable sock l"
  obtains l1 cs where "esp_at_socket_receive sock (int n) l = Inr (Some cs, l1)" "map byte_of cs = take n (arrived sock l)"
    "readable sock l1" "arrived sock l1 = drop n (arrived sock l)" "written (fst l1) = written (fst l)" "snd l1 = snd l"
proof -
  from assms have f: "idle (fst l)" "sock \<le> 4" "live (conn sock l)" "conn_state (conn sock l) = conn_connected"
    by (simp_all add: readable_def)
  obtain k where k: "connection_read_data (conn sock l) (int n) = Inr (take n (rx_contents (conn sock l)), k)" "live k"
    "rx_contents k = drop n (rx_contents (conn sock l))"
    by (rule read_data_contents [OF f(3), of "int n"]) simp
  have "conns_ok (connections (fst l))" using f(1) parser_invD(1) by (auto simp: idle_def data_ok_def)
  then have ks: "conns_ok ((connections (fst l))[sock := k])" and i: "sock < length (connections (fst l))"
    using k(1,2) read_loop_keeps_id f(2) conns_ok_length
    by (auto intro!: conns_ok_update simp: connection_read_data_def live_def)
  let ?l = "upd_conn sock (\<lambda>_. k) l"
  have fst_l: "fst ?l = (fst l)\<lparr>connections := (connections (fst l))[sock := k]\<rparr>" by (simp add: upd_conn_def)
  have "conn sock ?l = k" using i by (simp add: upd_conn_def)
  with k(2,3) f(2,4) idle_connections [OF f(1) ks] read_keeps_state [OF k(1)]
  have "readable sock ?l" "arrived sock ?l = drop n (arrived sock l)" by (simp_all add: readable_def arrived_def fst_l drop_map)
  moreover have "esp_at_socket_receive sock (int n) l = Inr (Some (take n (rx_contents (conn sock l))), ?l)"
    using k(1) f(4) by (simp add: esp_at_socket_receive_def)
  moreover have "written (fst ?l) = written (fst l)" "snd ?l = snd l" by (simp_all add: upd_conn_def)
  ultimately show ?thesis by (intro that [of "take n (rx_contents (conn sock l))" ?l]) (simp_all only: arrived_def take_map)
qed

text \<open>The pieces of at most \<open>n\<close> bytes that a sequence of bytes is read in.\<close>

function pieces :: "nat \<Rightarrow> 'a list \<Rightarrow> 'a list list" where
  "pieces n xs = (if n = 0 \<or> xs = [] then [] else take n xs # pieces n (drop n xs))"
  by pat_completeness auto
termination by (relation "measure (\<lambda>(n, xs). length xs)") auto

declare pieces.simps [simp del]

lemma pieces_Nil [simp]: "pieces n [] = []"
  by (simp add: pieces.simps)

lemma pieces_step: "0 < n \<Longrightarrow> xs \<noteq> [] \<Longrightarrow> pieces n xs = take n xs # pieces n (drop n xs)"
  by (subst pieces.simps) simp

lemma concat_pieces: "0 < n \<Longrightarrow> concat (pieces n xs) = xs"
  by (induction n xs rule: pieces.induct) (subst pieces.simps, simp)

lemma pieces_not_empty: "[] \<notin> set (pieces n xs)"
  by (induction n xs rule: pieces.induct) (subst pieces.simps, auto)

lemma pieces_bound: "p \<in> set (pieces n xs) \<Longrightarrow> length p \<le> n"
  by (induction n xs rule: pieces.induct) (subst (asm) (2) pieces.simps, auto split: if_splits)

section \<open>Handing on\<close>

text \<open>
  The callback gets the pieces one after the other.  Its calls leave the driver alone, and the
  transport keeps the socket and the callback it had.
\<close>

fun hands_on :: "'c io_user \<Rightarrow> nat \<Rightarrow> byte list list \<Rightarrow> SOCKET_IO_INSTANCE \<times> mem \<times> 'c \<Rightarrow> SOCKET_IO_INSTANCE \<times> mem \<times> 'c \<Rightarrow> bool" where
  "hands_on u sock [] w w' \<longleftrightarrow> w' = w \<and> tcp_socket_connection (fst w) = Some sock"
| "hands_on u sock (b # bs) w w' \<longleftrightarrow> tcp_socket_connection (fst w) = Some sock \<and> on_bytes_received (fst w) \<and>
     (\<exists>w1. (\<forall>k. bytes_received u b (fst w, k, snd w) = Inr (fst w1, k, snd w1)) \<and> hands_on u sock bs w1 w')"

lemma retrieve_pieces:
  assumes "readable sock l" "hands_on u sock (pieces ESP_AT_XIO_RECEIVE_BUFFER_SIZE (arrived sock l)) (s, hc) (s', hc')"
  shows "\<exists>l'. retrieve_loop u t (s, l, hc) = Some (Inr (t + int (length (arrived sock l)), s', l', hc')) \<and>
    readable sock l' \<and> arrived sock l' = [] \<and> written (fst l') = written (fst l) \<and> snd l' = snd l"
  using assms
proof (induction "length (arrived sock l)" arbitrary: l s hc t rule: less_induct)
  case less
  let ?n = ESP_AT_XIO_RECEIVE_BUFFER_SIZE
  obtain h c where hc: "hc = (h, c)" by (cases hc)
  have n: "0 < ?n" by (simp add: ESP_AT_XIO_RECEIVE_BUFFER_SIZE_def)
  obtain l1 cs where r: "esp_at_socket_receive sock (int ?n) l = Inr (Some cs, l1)" "map byte_of cs = take ?n (arrived sock l)"
    "readable sock l1" "arrived sock l1 = drop ?n (arrived sock l)" "written (fst l1) = written (fst l)" "snd l1 = snd l"
    by (rule receive_step [OF less.prems(1), of ?n])
  have len: "length cs = min (length (arrived sock l)) ?n" using arg_cong [OF r(2), of length] by simp
  show ?case
  proof (cases "arrived sock l = []")
    case True
    with less.prems(2) r len hc show ?thesis by (subst retrieve_loop.simps) auto
  next
    case False
    with n have p: "pieces ?n (arrived sock l) = take ?n (arrived sock l) # pieces ?n (arrived sock l1)"
      by (simp add: pieces_step r(4))
    with less.prems(2) obtain s1 hc1 where s: "tcp_socket_connection s = Some sock" "on_bytes_received s"
      "\<forall>k. bytes_received u (take ?n (arrived sock l)) (s, k, hc) = Inr (s1, k, hc1)"
      "hands_on u sock (pieces ?n (arrived sock l1)) (s1, hc1) (s', hc')" by auto
    from False n have less_l: "length (arrived sock l1) < length (arrived sock l)" "cs \<noteq> []"
      using len r(4) by (auto simp: length_greater_0_conv [symmetric] simp del: length_greater_0_conv)
    from less.hyps [OF less_l(1) r(3) s(4), of "t + int (length cs)"] obtain l' where
      l': "retrieve_loop u (t + int (length cs)) (s1, l1, hc1) = Some (Inr (t + int (length cs) + int (length (arrived sock l1)), s', l', hc'))"
      "readable sock l'" "arrived sock l' = []" "written (fst l') = written (fst l)" "snd l' = snd l"
      using r(5,6) by auto
    have total: "t + int (length cs) + int (length (arrived sock l1)) = t + int (length (arrived sock l))"
      using len r(4) by simp
    have "retrieve_loop u t (s, l, hc) = retrieve_loop u (t + int (length cs)) (s1, l1, hc1)"
      using s(1,2) s(3) [rule_format, of l1] r(1,2) less_l(2) hc by (subst retrieve_loop.simps) simp
    with l' total show ?thesis by auto
  qed
qed

section \<open>Sending what is queued\<close>

text \<open>A pending send as it was queued, and the two things it puts on the line, the later one first.\<close>

definition queued_ok :: "PENDING_SOCKET_IO \<Rightarrow> bool" where
  "queued_ok p \<longleftrightarrow> psize p = length (bytes p) \<and> 0 < psize p \<and> psize p < 2 ^ 31"

definition on_the_line :: "at_connection \<Rightarrow> PENDING_SOCKET_IO \<Rightarrow> string list" where
  "on_the_line k p = [map char_of_byte (bytes p), send_command k (int (psize p))]"

text \<open>The context after the reports of the sends that want one.\<close>

definition reported :: "('c \<Rightarrow> 'c) \<Rightarrow> PENDING_SOCKET_IO list \<Rightarrow> 'c \<Rightarrow> 'c" where
  "reported g ps c = fold (\<lambda>p. if on_send_complete p then g else (\<lambda>c. c)) ps c"

lemma send_queue:
  assumes "idle w" "conn_state (connections w ! sock) = conn_connected" "sock \<le> 4" "\<forall>ws t. 0 \<le> serial_wri env ws t"
    "tcp_socket_connection s = Some sock" "pending_io_list s = ps" "\<forall>p\<in>set ps. queued_ok p"
    "io_state s = IO_STATE_OPEN" "Q c"
    "\<And>s l h c. io_state s = IO_STATE_OPEN \<Longrightarrow> Q c \<Longrightarrow> send_complete u IO_SEND_OK (s, l, h, c) = Inr (s, l, h, g c) \<and> Q (g c)"
  shows "\<exists>w'. send_queued env u e t (s, (w, concat (map (\<lambda>_. send_answers) ps) @ cs), h, c) =
      Some (Inr (t + (\<Sum>p\<leftarrow>ps. int (psize p)), s\<lparr>pending_io_list := []\<rparr>, (w', cs), h, reported g ps c)) \<and>
    idle w' \<and> connections w' = connections w \<and>
    written w' = concat (map (on_the_line (connections w ! sock)) (rev ps)) @ written w"
  using assms(1,2,5-9)
proof (induction ps arbitrary: w s e t c)
  case Nil
  then have "s\<lparr>pending_io_list := []\<rparr> = s" by simp
  with Nil show ?case by (subst send_queued.simps) (simp add: reported_def)
next
  case (Cons p ps)
  let ?text = "map char_of_byte (bytes p)" let ?cs = "concat (map (\<lambda>_. send_answers) ps) @ cs"
  from Cons.prems(5) have p: "psize p = length (bytes p)" "0 < psize p" "psize p < 2 ^ 31" by (auto simp: queued_ok_def)
  have "conns_ok (connections w)" using Cons.prems(1) parser_invD(1) by (auto simp: idle_def data_ok_def)
  then have "conn_id (connections w ! sock) = int sock" by (rule conns_ok_id) (use assms(3) in simp)
  then have id: "0 \<le> conn_id (connections w ! sock)" "conn_id (connections w ! sock) \<le> 4" using assms(3) by simp_all
  from send_goes_through [OF Cons.prems(1,2) id _ assms(4), of ?text ?cs] p obtain w1 where
    w1: "esp_at_socket_send env sock ?text (w, send_answers @ ?cs) = Some (Inr (Some (int (psize p)), (w1, ?cs)))"
    "idle w1" "connections w1 = connections w" by auto
  from send_success(3) [OF w1(1)] p(1) have line: "written w1 = on_the_line (connections w ! sock) p @ written w"
    by (simp add: on_the_line_def)
  let ?s = "s\<lparr>pending_io_list := ps\<rparr>" let ?c = "if on_send_complete p then g c else c"
  have "\<exists>w'. send_queued env u 0 (t + int (psize p)) (?s, (w1, ?cs), h, ?c) =
      Some (Inr (t + int (psize p) + (\<Sum>p\<leftarrow>ps. int (psize p)), ?s\<lparr>pending_io_list := []\<rparr>, (w', cs), h, reported g ps ?c)) \<and>
    idle w' \<and> connections w' = connections w1 \<and>
    written w' = concat (map (on_the_line (connections w1 ! sock)) (rev ps)) @ written w1"
    by (rule Cons.IH) (use w1 Cons.prems assms(10) in simp_all)
  then obtain w' where w': "send_queued env u 0 (t + int (psize p)) (?s, (w1, ?cs), h, ?c) =
      Some (Inr (t + int (psize p) + (\<Sum>p\<leftarrow>ps. int (psize p)), s\<lparr>pending_io_list := []\<rparr>, (w', cs), h, reported g ps ?c))"
    "idle w'" "connections w' = connections w" "written w' = concat (map (on_the_line (connections w ! sock)) (rev ps)) @ written w1"
    using w1(3) by auto
  have "send_queued env u e t (s, (w, send_answers @ ?cs), h, c) = send_queued env u 0 (t + int (psize p)) (?s, (w1, ?cs), h, ?c)"
    using w1(1) Cons.prems(3,4,6,7) p assms(10) by (subst send_queued.simps) simp
  with w' line show ?case by (auto simp: reported_def)
qed

section \<open>Working on a transport\<close>

lemma readable_id:
  assumes "readable sock l"
  shows "conn_id (conn sock l) = int sock"
proof -
  have "conns_ok (connections (fst l))" using assms parser_invD(1) by (auto simp: readable_def idle_def data_ok_def)
  then show ?thesis using conns_ok_id assms by (simp add: readable_def)
qed

lemma on_the_line_id: "conn_id k = conn_id k' \<Longrightarrow> on_the_line k = on_the_line k'"
  by (simp add: on_the_line_def send_command_def fun_eq_iff)

lemma dowork_moves:
  assumes "readable sock l" "io_state s = IO_STATE_OPEN" "h 0 \<noteq> None"
    "hands_on u sock (pieces ESP_AT_XIO_RECEIVE_BUFFER_SIZE (arrived sock l)) (s, \<lambda>i. h (Suc i), c) (s1, h1, c1)"
    "io_state s1 = IO_STATE_OPEN" "\<forall>p\<in>set (pending_io_list s1). queued_ok p"
    "snd l = concat (map (\<lambda>_. send_answers) (pending_io_list s1)) @ cs" "\<forall>ws t. 0 \<le> serial_wri env ws t" "Q c1"
    "\<And>s l h c. io_state s = IO_STATE_OPEN \<Longrightarrow> Q c \<Longrightarrow> send_complete u IO_SEND_OK (s, l, h, c) = Inr (s, l, h, g c) \<and> Q (g c)"
  shows "\<exists>w1. esp_at_io_dowork env u (s, l, h, c) = Some (Inr (s1\<lparr>pending_io_list := []\<rparr>, (w1, cs), h1, reported g (pending_io_list s1) c1)) \<and>
    readable sock (w1, cs) \<and> arrived sock (w1, cs) = [] \<and>
    written w1 = concat (map (on_the_line (conn sock l)) (rev (pending_io_list s1))) @ written (fst l)"
proof -
  obtain l1 where l1: "retrieve_loop u 0 (s, l, \<lambda>i. h (Suc i), c) = Some (Inr (int (length (arrived sock l)), s1, l1, h1, c1))"
    "readable sock l1" "arrived sock l1 = []" "written (fst l1) = written (fst l)" "snd l1 = snd l"
    using retrieve_pieces [OF assms(1,4), of 0] by auto
  obtain w1 where w1: "l1 = (w1, concat (map (\<lambda>_. send_answers) (pending_io_list s1)) @ cs)"
    using l1(5) assms(7) by (metis prod.collapse)
  from assms(3) obtain q where q: "malloc ESP_AT_XIO_RECEIVE_BUFFER_SIZE h = (Some q, \<lambda>i. h (Suc i))"
    by (auto simp: malloc_def ESP_AT_XIO_RECEIVE_BUFFER_SIZE_def)
  have sock: "tcp_socket_connection s1 = Some sock"
  proof -
    have "hands_on u sock bs x y \<Longrightarrow> tcp_socket_connection (fst y) = Some sock" for bs x y
      by (induction bs arbitrary: x) auto
    from this [OF assms(4)] show ?thesis by simp
  qed
  have "\<exists>w2. send_queued env u 0 0 (s1, (w1, concat (map (\<lambda>_. send_answers) (pending_io_list s1)) @ cs), h1, c1) =
      Some (Inr (0 + (\<Sum>p\<leftarrow>pending_io_list s1. int (psize p)), s1\<lparr>pending_io_list := []\<rparr>, (w2, cs), h1,
        reported g (pending_io_list s1) c1)) \<and>
    idle w2 \<and> connections w2 = connections w1 \<and>
    written w2 = concat (map (on_the_line (connections w1 ! sock)) (rev (pending_io_list s1))) @ written w1"
    by (rule send_queue [where Q = Q, OF _ _ _ assms(8) sock refl assms(6,5,9,10)])
      (use l1(2) w1 in \<open>simp_all add: readable_def\<close>)
  then obtain w2 t where w2: "send_queued env u 0 0 (s1, l1, h1, c1) =
      Some (Inr (t, s1\<lparr>pending_io_list := []\<rparr>, (w2, cs), h1, reported g (pending_io_list s1) c1))"
    "idle w2" "connections w2 = connections w1"
    "written w2 = concat (map (on_the_line (connections w1 ! sock)) (rev (pending_io_list s1))) @ written w1"
    using w1 by blast
  have "on_the_line (connections w1 ! sock) = on_the_line (conn sock l)"
    by (rule on_the_line_id) (use readable_id [OF l1(2)] readable_id [OF assms(1)] w1 in simp)
  moreover have "readable sock (w2, cs)" "arrived sock (w2, cs) = []"
    using l1(2,3) w1 w2(2,3) by (simp_all add: readable_def arrived_def)
  ultimately show ?thesis using l1(1,4) q w1 w2 assms(2) by (simp add: esp_at_io_dowork_def retrieve_data_def)
qed

text \<open>Sends, one after the other.\<close>

fun queue_packets :: "byte list list \<Rightarrow> 'c io \<Rightarrow> 'c io outcome" where
  "queue_packets [] w = Inr w"
| "queue_packets (p # ps) w = cbind (esp_at_io_send (Some p) (length p) True w) (\<lambda>(_, w1). queue_packets ps w1)"

text \<open>A packet as it waits in the queue.\<close>

definition queued_send :: "byte list \<Rightarrow> PENDING_SOCKET_IO" where
  "queued_send p = \<lparr>bytes = p, psize = length p, on_send_complete = True\<rparr>"

definition sendable :: "byte list \<Rightarrow> bool" where
  "sendable p \<longleftrightarrow> p \<noteq> [] \<and> length p < 2 ^ 31"

lemma queue_packets_open:
  assumes "io_state s = IO_STATE_OPEN" "plenty h" "\<forall>p\<in>set ps. sendable p"
  shows "\<exists>h'. plenty h' \<and> (\<forall>(l :: link) (c :: 'c). queue_packets ps (s, l, h, c) = Inr (s\<lparr>pending_io_list := pending_io_list s @ map queued_send ps\<rparr>, l, h', c))"
  using assms
proof (induction ps arbitrary: s h)
  case Nil
  then show ?case by auto
next
  case (Cons p ps)
  let ?s = "s\<lparr>pending_io_list := pending_io_list s @ [queued_send p]\<rparr>" and ?h = "\<lambda>i. h (Suc (Suc (Suc i)))"
  have p: "p \<noteq> []" "length p < 2 ^ 31" using Cons.prems(3) by (auto simp: sendable_def)
  from Cons.prems(2) have pl: "h 0 \<noteq> None" "h 1 \<noteq> None" "h 2 \<noteq> None" "plenty ?h" by (simp_all add: plenty_def)
  then obtain g where "h 1 = Some g" by auto
  with pl p Cons.prems(1) have "esp_at_io_send (Some p) (length p) True (s, l, h, c) = Inr (MU_OK, ?s, l, ?h, c)" for l and c :: 'c
    by (simp add: esp_at_io_send_def add_pending_io_def malloc_def read_from_def queued_send_def numeral_2_eq_2)
  note this [simp]
  obtain h' where h': "plenty h'" "\<forall>l (c :: 'c). queue_packets ps (?s, l, ?h, c) = Inr (?s\<lparr>pending_io_list := pending_io_list ?s @ map queued_send ps\<rparr>, l, h', c)"
    using Cons.IH [of ?s ?h] Cons.prems pl(4) by auto
  have "queue_packets (p # ps) (s, l, h, c) = Inr (?s\<lparr>pending_io_list := pending_io_list ?s @ map queued_send ps\<rparr>, l, h', c)" for l and c :: 'c
    using h'(2) [rule_format, of l c] by simp
  with h'(1) show ?case by (intro exI [of _ h'] conjI allI) simp_all
qed

section \<open>Properties\<close>

text \<open>
  Claim C13. What is sent goes on the line in the order it was sent: any number of sends on an open
  transport, each of at least one byte, are accepted and queued; when a modem takes them, one
  round of work puts for each of them, oldest first, the command \<open>AT+CIPSEND\<close> with its length and
  then its bytes on the line, reports each of them once, and leaves the queue empty.
\<close>

theorem sends_reach_line:
  fixes h :: mem and g :: "'c \<Rightarrow> 'c"
  assumes "readable sock (w, concat (map (\<lambda>_. send_answers) ps) @ cs)" "arrived sock (w, concat (map (\<lambda>_. send_answers) ps) @ cs) = []"
    and "io_state s = IO_STATE_OPEN" "tcp_socket_connection s = Some sock" "pending_io_list s = []" "plenty h"
    and "\<forall>p\<in>set ps. sendable p" "\<forall>ws t. 0 \<le> serial_wri env ws t"
    and "\<forall>s l h c. send_complete u IO_SEND_OK (s, l, h, c) = Inr (s, l, h, g c)"
  shows "\<exists>d w2 h2. queue_packets ps (s, (w, concat (map (\<lambda>_. send_answers) ps) @ cs), h, c) = Inr d \<and>
    esp_at_io_dowork env u d = Some (Inr (s, (w2, cs), h2, (g ^^ length ps) c)) \<and>
    written w2 = concat (map (\<lambda>p. [map char_of_byte p, send_command (connections w ! sock) (int (length p))]) (rev ps)) @ written w"
proof -
  let ?l = "(w, concat (map (\<lambda>_. send_answers) ps) @ cs)" and ?s = "s\<lparr>pending_io_list := map queued_send ps\<rparr>"
  obtain h1 where h1: "plenty h1" "\<forall>l (c :: 'c). queue_packets ps (s, l, h, c) = Inr (s\<lparr>pending_io_list := pending_io_list s @ map queued_send ps\<rparr>, l, h1, c)"
    using queue_packets_open [OF assms(3,6,7)] by blast
  have q: "queue_packets ps (s, ?l, h, c) = Inr (?s, ?l, h1, c)" using h1(2) [rule_format, of ?l c] assms(5) by simp
  have "\<exists>w1. esp_at_io_dowork env u (?s, ?l, h1, c) =
      Some (Inr (?s\<lparr>pending_io_list := []\<rparr>, (w1, cs), \<lambda>i. h1 (Suc i), reported g (pending_io_list ?s) c)) \<and>
    readable sock (w1, cs) \<and> arrived sock (w1, cs) = [] \<and>
    written w1 = concat (map (on_the_line (conn sock ?l)) (rev (pending_io_list ?s))) @ written (fst ?l)"
  proof (rule dowork_moves [where Q = "\<lambda>_. True", OF assms(1)])
    show "h1 0 \<noteq> None" using h1(1) by (simp add: plenty_def)
    show "\<forall>p\<in>set (pending_io_list ?s). queued_ok p" using assms(7) by (auto simp: queued_ok_def queued_send_def sendable_def)
  qed (use assms(2-5,8) in \<open>simp_all add: comp_def assms(9) [rule_format]\<close>)
  then obtain w2 where w2: "esp_at_io_dowork env u (?s, ?l, h1, c) =
      Some (Inr (s, (w2, cs), \<lambda>i. h1 (Suc i), reported g (map queued_send ps) c))"
    "written w2 = concat (map (on_the_line (connections w ! sock)) (rev (map queued_send ps))) @ written w"
    using assms(5) by auto
  have rep: "reported g (map queued_send ps) c = (g ^^ length ps) c" for c
    by (induction ps arbitrary: c) (simp_all add: reported_def queued_send_def funpow_swap1)
  have "on_the_line (connections w ! sock) (queued_send p) = [map char_of_byte p, send_command (connections w ! sock) (int (length p))]" for p
    by (simp add: on_the_line_def queued_send_def)
  with q w2 rep show ?thesis by (simp add: rev_map comp_def)
qed

text \<open>A user that counts the sends that are reported.\<close>

definition counter :: "nat io_user" where
  "counter = \<lparr>bytes_received = \<lambda>bs w. Inr w, io_error = \<lambda>w. Inr w, send_complete = \<lambda>r (s, l, h, c). Inr (s, l, h, Suc c)\<rparr>"

text \<open>An open transport on the second socket.\<close>

definition open_transport :: SOCKET_IO_INSTANCE where
  "open_transport = \<lparr>tcp_socket_connection = Some 1, on_bytes_received = True, on_io_error = True, hostname = ''hub'', port = 8883,
     io_state = IO_STATE_OPEN, pending_io_list = []\<rparr>"

lemma open_transport_facts:
  "io_state open_transport = IO_STATE_OPEN" "tcp_socket_connection open_transport = Some 1" "on_bytes_received open_transport"
  "pending_io_list open_transport = []" "on_io_error open_transport"
  by (simp_all add: open_transport_def)

lemma one_connected_readable: "readable 1 (one_connected, cs)" "arrived 1 (one_connected, cs) = []"
  using one_connected_facts by (simp_all add: readable_def arrived_def)

lemma sends_reach_line_witness:
  "\<exists>d w2 h2. queue_packets [[1, 2], [3]] (open_transport, (one_connected, concat (map (\<lambda>_. send_answers) [[1, 2], [3 :: byte]]) @ []), junk_mem, 0) = Inr d \<and>
    esp_at_io_dowork plain_env counter d = Some (Inr (open_transport, (w2, []), h2, 2)) \<and>
    written w2 = concat (map (\<lambda>p. [map char_of_byte p, send_command (connections one_connected ! 1) (int (length p))]) [[3], [1, 2]]) @ written one_connected"
proof -
  let ?ps = "[[1, 2], [3 :: byte]]"
  have c: "\<forall>s l h c. send_complete counter IO_SEND_OK (s, l, h, c) = Inr (s, l, h, Suc c)" by (simp add: counter_def)
  have p: "\<forall>p\<in>set ?ps. sendable p" by (simp add: sendable_def)
  have n: "(Suc ^^ length ?ps) 0 = 2" "rev ?ps = [[3], [1, 2]]" by simp_all
  from sends_reach_line [OF one_connected_readable open_transport_facts(1,2,4) plenty_junk p plain_env_writes c, of "[]" 0]
  show ?thesis unfolding n .
qed

end
