(* ===== verification/Mqtt_Transport.thy ===== *)
theory Mqtt_Transport
  imports Socket_Data
begin

text \<open>
  The MQTT client on the transport: what the client's callbacks send and close goes to the transport
  that calls them, so that a packet makes its way from the serial line to the user of the
  client and the acknowledgement back.
\<close>

section \<open>What the client's callbacks keep\<close>

text \<open>A property of the client that each of its steps keeps is kept by all it does with what arrives.\<close>

locale client_property =
  fixes P :: "MQTT_CLIENT \<Rightarrow> bool"
  assumes told: "P m \<Longrightarrow> P (tell n m)"
    and status: "P m \<Longrightarrow> P (m\<lparr>mqtt_status := v\<rparr>)"
    and pinged: "P m \<Longrightarrow> P (m\<lparr>timeSincePing := t\<rparr>)"
    and ticked: "P m \<Longrightarrow> P (m\<lparr>ticks := k, packetSendTimeMs := t\<rparr>)"
    and tick_failed: "P m \<Longrightarrow> P (m\<lparr>ticks := k\<rparr>)"
    and gone: "P m \<Longrightarrow> P (m\<lparr>xioHandle := False\<rparr>)"
    and closing: "P m \<Longrightarrow> P (snd (xio_close m))"
    and sending: "P m \<Longrightarrow> P (snd (xio_send bs m))"
begin

definition keeps :: "(mem \<times> MQTT_CLIENT) outcome \<Rightarrow> bool" where
  "keeps x \<longleftrightarrow> (\<forall>h m. x = Inr (h, m) \<longrightarrow> P m)"

lemma keeps_simps [simp]:
  "keeps (Inl u)" "keeps (Inr (h, m)) \<longleftrightarrow> P m" "keeps (cbind x f) \<longleftrightarrow> (\<forall>y. x = Inr y \<longrightarrow> keeps (f y))"
  "keeps (if b then x1 else x2) \<longleftrightarrow> (b \<longrightarrow> keeps x1) \<and> (\<not> b \<longrightarrow> keeps x2)"
  by (auto simp: keeps_def cbind_Inr_iff)

lemma closed: "P m \<Longrightarrow> P (on_connection_closed m)"
  by (simp add: on_connection_closed_def clear_status_def status told Let_def)

lemma close:
  assumes "P m"
  shows "P (close_connection m)"
proof -
  obtain polls m1 where x: "xio_close m = (polls, m1)" by (cases "xio_close m")
  with closing [OF assms] have "P m1" by simp
  with x assms show ?thesis
    by (auto simp: close_connection_def Let_def gone closed status told clear_status_def split: option.split nat.split)
qed

lemma error: "P m \<Longrightarrow> P (set_error_callback e m)"
  by (simp add: set_error_callback_def close told)

lemma sent_item: "P m \<Longrightarrow> P (snd (sendPacketItem bs m))"
  by (auto simp: sendPacketItem_def tickcounter_get_current_ms_def tick_failed split: option.split)
    (rule sending, erule ticked)

lemma sent_packet: "P m \<Longrightarrow> send_packet pkt m = Inr (r, m') \<Longrightarrow> P m'"
  using sent_item [of m] by (auto simp: send_packet_def cbind_Inr_iff) (metis snd_conv)

lemma reply: "P m \<Longrightarrow> keeps (reply_with build h m)"
  by (auto simp: reply_with_def error dest: sent_packet)

lemma publish: "P m \<Longrightarrow> keeps (ProcessPublishMessage it n flags h m)"
  by (auto simp: ProcessPublishMessage_def Let_def error reply told split: prod.split option.split)

lemma callback: "P m \<Longrightarrow> keeps (recvCompleteCallback t flags d h m)"
  by (auto simp: recvCompleteCallback_def Let_def publish recv_connack_def recv_puback_def recv_suback_def recv_unsuback_def
      error reply told status pinged set_status_def split: prod.split option.split)

lemma completion:
  assumes "P m" "completePacketData (Some recvCompleteCallback) c h m = Inr (c', h', m')"
  shows "P m'"
  using assms(2) callback [OF assms(1), of "currPacket c" "headerFlags c" "headerData c" h]
  by (auto simp: completePacketData_def cbind_Inr_iff keeps_def)

lemma byte:
  assumes "P m" "receive_byte (Some recvCompleteCallback) c b h m = Inr (r, c', h', m')"
  shows "P m'"
  using assms
  by (auto simp: receive_byte_def receive_fixed_header_def receive_var_header_def completed_def packet_error_def cbind_Inr_iff Let_def
      split: CODEC_STATE_RESULT.splits if_splits prod.splits option.splits dest: completion)

lemma loop: "P m \<Longrightarrow> receive_loop (Some recvCompleteCallback) bs c h m = Inr (r, c', h', m') \<Longrightarrow> P m'"
  by (induction bs arbitrary: c h m) (auto simp: cbind_Inr_iff split: if_splits dest: byte)

lemma bytes: "P (snd cm) \<Longrightarrow> onBytesReceived bs h cm = Inr (h', cm') \<Longrightarrow> P (snd cm')"
  by (auto simp: onBytesReceived_def mqtt_codec_bytesReceived_def cbind_Inr_iff error split: option.splits if_splits dest: loop)

lemma chunks: "P (snd cm) \<Longrightarrow> xio_dowork (map Bytes_received bs) h cm = Inr (h', cm') \<Longrightarrow> P (snd cm')"
proof (induction bs arbitrary: h cm)
  case (Cons x xs)
  from Cons.prems(2) obtain h1 cm1 where x: "onBytesReceived x h cm = Inr (h1, cm1)"
    "xio_dowork (map Bytes_received xs) h1 cm1 = Inr (h', cm')" by (auto simp: cbind_Inr_iff)
  from Cons.IH [OF bytes [OF Cons.prems(1) x(1)] x(2)] show ?case .
qed auto

end

text \<open>A client that has given up its transport does not get it back.\<close>

interpretation shut: client_property "\<lambda>m. \<not> xioHandle m"
  by unfold_locales (auto simp: tell_def xio_close_def xio_send_def)

text \<open>The answers of a transport that is open and finds storage.\<close>

definition served :: "MQTT_CLIENT \<Rightarrow> bool" where
  "served m \<longleftrightarrow> (\<forall>i. sends m i) \<and> (\<forall>i. closes m i = Some 0)"

interpretation served: client_property served
  by unfold_locales (auto simp: served_def tell_def xio_close_def xio_send_def Let_def)

text \<open>What has been sent stays sent.\<close>

interpretation sent: client_property "\<lambda>m. \<exists>new. sent m = new @ old" for old
  by unfold_locales (auto simp: tell_def xio_close_def xio_send_def Let_def)

section \<open>The client on the transport\<close>

text \<open>
  A step of the client gets the answers of the transport as it is: a send is accepted when the
  transport is open, a close calls back at once unless the transport refuses it (\<open>esp_at_io_close\<close>).
  Then what the client has sent is queued in order, and if it has closed the transport, that is done;
  after a close it sends nothing more.  This is what happens as long as the
  transport finds storage for its queue; the theorems assume that.
\<close>

type_synonym device = "(mem \<times> mqtt) io"

definition wired :: "SOCKET_IO_INSTANCE \<Rightarrow> MQTT_CLIENT \<Rightarrow> MQTT_CLIENT" where
  "wired s m = m\<lparr>sends := \<lambda>_. io_state s = IO_STATE_OPEN,
     closes := \<lambda>_. if io_state s = IO_STATE_CLOSED \<or> io_state s = IO_STATE_ERROR then None else Some 0\<rparr>"

definition client_step :: "esp_env \<Rightarrow> (mem \<Rightarrow> mqtt \<Rightarrow> (mem \<times> mqtt) outcome) \<Rightarrow> device \<Rightarrow> device outcome" where
  "client_step env f w =
    (case w of (s, l, h, hm, cm) \<Rightarrow>
       cbind (f hm (fst cm, wired s (snd cm))) (\<lambda>(hm1, cm1).
         let new = rev (take (length (sent (snd cm1)) - length (sent (snd cm))) (sent (snd cm1)))
         in cbind (queue_packets new (s, l, h, hm1, cm1)) (\<lambda>w1.
            if xioHandle (snd cm) \<and> \<not> xioHandle (snd cm1) then cbind (esp_at_io_close env None w1) (\<lambda>(_, w2). Inr w2)
            else Inr w1)))"

definition mqtt_user :: "esp_env \<Rightarrow> (mem \<times> mqtt) io_user" where
  "mqtt_user env =
    \<lparr>bytes_received = \<lambda>bs. client_step env (handle_event (Bytes_received bs)),
     io_error = client_step env (handle_event Io_error),
     send_complete = \<lambda>r. client_step env (handle_event (Send_complete r))\<rparr>"

lemma wired_served: "io_state s = IO_STATE_OPEN \<Longrightarrow> served (wired s m)"
  by (simp add: served_def wired_def)

lemma served_wired: "io_state s = IO_STATE_OPEN \<Longrightarrow> served m \<Longrightarrow> wired s m = m"
proof -
  assume "io_state s = IO_STATE_OPEN" "served m"
  then have "sends m = (\<lambda>_. True)" "closes m = (\<lambda>_. Some 0)" by (auto simp: served_def)
  with \<open>io_state s = IO_STATE_OPEN\<close> show "wired s m = m" by (cases m) (simp add: wired_def)
qed

lemma wired_kept [simp]: "sent (wired s m) = sent m" "xioHandle (wired s m) = xioHandle m" "told (wired s m) = told m"
  by (simp_all add: wired_def)

text \<open>The pieces of a packet that keeps the client on its transport go through the callback one by one.\<close>

lemma client_hands_on:
  assumes "xio_dowork (map Bytes_received bs) hm (codec, m) = Inr (hm', cm')" "xioHandle (snd cm')" "served m"
    "io_state s = IO_STATE_OPEN" "tcp_socket_connection s = Some sock" "on_bytes_received s" "plenty h"
    "sent (snd cm') = rev new @ sent m" "\<forall>p\<in>set new. sendable p"
  shows "\<exists>h'. plenty h' \<and> hands_on (mqtt_user env) sock bs (s, h, hm, (codec, m))
    (s\<lparr>pending_io_list := pending_io_list s @ map queued_send new\<rparr>, h', hm', cm')"
  using assms
proof (induction bs arbitrary: s h hm codec m new)
  case Nil
  then show ?case by auto
next
  case (Cons b bs)
  from Cons.prems(1) obtain hm1 codec1 m1 where
    b: "onBytesReceived b hm (codec, m) = Inr (hm1, codec1, m1)" and
    bs: "xio_dowork (map Bytes_received bs) hm1 (codec1, m1) = Inr (hm', cm')"
    by (auto simp: cbind_Inr_iff)
  have alive: "xioHandle m1" using shut.chunks [OF _ bs] Cons.prems(2) by auto
  have m: "xioHandle m" using shut.bytes [of "(codec, m)" b hm hm1 "(codec1, m1)"] b alive by auto
  have sv: "served m1" using served.bytes [of "(codec, m)" b hm hm1 "(codec1, m1)"] b Cons.prems(3) by simp
  obtain n1 where n1: "sent m1 = n1 @ sent m" using sent.bytes [of "(codec, m)" "sent m" b hm hm1 "(codec1, m1)"] b by auto
  obtain n2 where n2: "sent (snd cm') = n2 @ sent m1" using sent.chunks [OF _ bs, of "sent m1"] by auto
  from n1 n2 Cons.prems(8) have new: "new = rev n1 @ rev n2" by (metis append.assoc append_same_eq rev_append rev_swap)
  have ok: "\<forall>p\<in>set (rev n1). sendable p" "\<forall>p\<in>set (rev n2). sendable p" using Cons.prems(9) new by simp_all
  let ?s = "s\<lparr>pending_io_list := pending_io_list s @ map queued_send (rev n1)\<rparr>"
  have w: "wired s m = m" by (rule served_wired [OF Cons.prems(4,3)])
  have new1: "rev (take (length (sent m1) - length (sent m)) (sent m1)) = rev n1" using n1 by simp
  obtain h1 where q: "plenty h1" "\<forall>l (c :: mem \<times> mqtt). queue_packets (rev n1) (s, l, h, c) = Inr (?s, l, h1, c)"
    using queue_packets_open [OF Cons.prems(4,7) ok(1)] by blast
  have "\<exists>h'. plenty h' \<and> hands_on (mqtt_user env) sock bs (?s, h1, hm1, (codec1, m1))
      (?s\<lparr>pending_io_list := pending_io_list ?s @ map queued_send (rev n2)\<rparr>, h', hm', cm')"
    by (rule Cons.IH [OF bs Cons.prems(2) sv _ _ _ q(1) _ ok(2)]) (use Cons.prems(4-6) n2 in simp_all)
  then obtain h' where h': "plenty h'" "hands_on (mqtt_user env) sock bs (?s, h1, hm1, (codec1, m1))
      (s\<lparr>pending_io_list := pending_io_list s @ map queued_send new\<rparr>, h', hm', cm')" using new by auto
  have "bytes_received (mqtt_user env) b (s, k, h, hm, (codec, m)) = Inr (?s, k, h1, hm1, (codec1, m1))" for k
    using b q(2) [rule_format, of k] w m alive new1 by (simp add: mqtt_user_def client_step_def)
  with h' Cons.prems(5,6) show ?case by auto
qed

text \<open>The answers a client has for its transport do not matter: those of the transport count.\<close>

lemma step_wired: "client_step env f (s, l, h, hm, (codec, wired s m)) = client_step env f (s, l, h, hm, (codec, m))"
  by (simp add: client_step_def) (simp add: wired_def)

lemma hands_on_wired:
  assumes "bs \<noteq> []" "hands_on (mqtt_user env) sock bs (s, h, hm, (codec, wired s m)) z"
  shows "hands_on (mqtt_user env) sock bs (s, h, hm, (codec, m)) z"
  using assms by (cases bs) (auto simp: mqtt_user_def step_wired simp del: split_paired_All split_paired_Ex)

interpretation asked: client_property "\<lambda>m. packetState m \<noteq> DISCONNECT_TYPE"
  by unfold_locales (auto simp: tell_def xio_close_def xio_send_def Let_def)

lemma reports_ignored:
  assumes "io_state s = IO_STATE_OPEN" "served m" "packetState m \<noteq> DISCONNECT_TYPE"
  shows "send_complete (mqtt_user env) IO_SEND_OK (s, l, h, hm, (codec, m)) = Inr (s, l, h, hm, (codec, m))"
proof -
  have "\<not> (xioHandle m \<and> \<not> xioHandle (sendComplete IO_SEND_OK m))" using assms(3) by (simp add: sendComplete_def)
  with assms(3) served_wired [OF assms(1,2)] show ?thesis by (simp add: mqtt_user_def client_step_def sendComplete_def)
qed

lemma reported_same [simp]: "reported (\<lambda>c. c) ps c = c"
  by (induction ps) (simp_all add: reported_def)

section \<open>From the line to the user\<close>

text \<open>What an announcement on the line leaves in an empty ring.\<close>

lemma announced_arrives:
  assumes "readable sock (w, cs)" "arrived sock (w, cs) = []" "bs \<noteq> []" "length bs \<le> rx_capacity" "sender < 65536"
  obtains w1 where "esp_at_rx_handler response_table env w
      (ipd_header sock (length bs) (address_text quoted a b c d) sender @ map char_of_byte bs) = Inr w1"
    "readable sock (w1, ds)" "arrived sock (w1, ds) = bs" "written w1 = written w"
proof -
  from assms(1,2) have f: "idle w" "sock \<le> 4" "live (connections w ! sock)" "conn_state (connections w ! sock) = conn_connected"
    "rx_contents (connections w ! sock) = []" by (simp_all add: readable_def arrived_def)
  have w: "parser_inv response_table w" "parse_state (serial w) = at_none" using f(1) by (simp_all add: idle_def)
  let ?pay = "map char_of_byte bs"
  have n: "?pay \<noteq> []" "length ?pay \<le> AT_CONNECTION_RX_BUFF_SIZE" using assms(3,4) by simp_all
  from payload_delivered [OF w f(2,3) n assms(5), of env quoted a b c d] obtain w1 where
    r: "esp_at_rx_handler response_table env w
      (ipd_header sock (length ?pay) (address_text quoted a b c d) sender @ ?pay) = Inr w1" and
    g: "parse_state (serial w1) = at_none" "rx_contents (connections w1 ! sock) = ?pay" "live (connections w1 ! sock)"
      "conn_state (connections w1 ! sock) = conn_connected" "response_kind (serial w1) = kind_no_set"
    by (elim exE conjE) (use f(4,5) assms(4) in simp)
  have "idle w1" using run_inv [OF w(1) r] g(1,5) by (simp add: idle_def)
  with g f(2) have "readable sock (w1, ds)" "arrived sock (w1, ds) = bs" by (simp_all add: readable_def arrived_def map_idI)
  with r quiet.handler_quiet [OF r] that show ?thesis by simp
qed

lemma wired_responsive: "io_state s = IO_STATE_OPEN \<Longrightarrow> xioHandle m \<Longrightarrow> \<forall>i. ticks m i \<noteq> None \<Longrightarrow> responsive (wired s m)"
  by (simp add: responsive_def wired_def)

text \<open>
  A packet that the client answers, on the line: work on the transport hands it over, and
  the answers are on the line when it returns.
\<close>

lemma packet_through:
  assumes "readable sock (w, chunks)" "arrived sock (w, chunks) = bs" "bs \<noteq> []" "answers bs rs ns" "\<forall>p\<in>set rs. sendable p"
    and "io_state s = IO_STATE_OPEN" "tcp_socket_connection s = Some sock" "on_bytes_received s" "pending_io_list s = []"
    and "codec_idle codec" "plenty h" "plenty hm" "xioHandle m" "\<forall>i. ticks m i \<noteq> None" "packetState m \<noteq> DISCONNECT_TYPE"
    and "chunks = concat (map (\<lambda>_. send_answers) rs) @ cs" "\<forall>ws t. 0 \<le> serial_wri env ws t"
  obtains w' h' hm' codec' m' where
    "esp_at_io_dowork env (mqtt_user env) (s, (w, chunks), h, hm, (Some codec, m)) =
       Some (Inr (s, (w', cs), h', hm', (Some codec', m')))"
    "sent m' = rs @ sent m" "told m' = ns @ told m" "written w' = concat (map (\<lambda>p. on_the_line (connections w ! sock) (queued_send p)) rs) @ written w"
    "codec_idle codec'" "xioHandle m'" "readable sock (w', cs)" "arrived sock (w', cs) = []"
proof -
  let ?n = ESP_AT_XIO_RECEIVE_BUFFER_SIZE and ?m = "wired s m"
  have n: "0 < ?n" by (simp add: ESP_AT_XIO_RECEIVE_BUFFER_SIZE_def)
  let ?bs = "pieces ?n bs"
  from assms(3) n have some: "?bs \<noteq> []" by (simp add: pieces_step)
  obtain hm' codec' m' where d: "xio_dowork (map Bytes_received ?bs) hm (Some codec, ?m) = Inr (hm', Some codec', m')"
    "codec_idle codec'" "responsive m'" "sent m' = rs @ sent m" "told m' = ns @ told m"
    using assms(4) [unfolded answers_def, rule_format, OF concat_pieces [OF n] pieces_not_empty assms(10,12)
      wired_responsive [OF assms(6,13,14)]] by auto
  have m': "xioHandle m'" using d(3) by (simp add: responsive_def)
  have sv: "served m'" using served.chunks [OF _ d(1)] wired_served [OF assms(6)] by simp
  have st: "packetState m' \<noteq> DISCONNECT_TYPE" using asked.chunks [OF _ d(1)] assms(15) by (simp add: wired_def)
  let ?s = "s\<lparr>pending_io_list := map queued_send (rev rs)\<rparr>"
  have "plenty (\<lambda>i. h (Suc i))" and h0: "h 0 \<noteq> None" using assms(11) by (simp_all add: plenty_def)
  from client_hands_on [OF d(1) _ wired_served [OF assms(6)] assms(6-8) this(1), of "rev rs" env] obtain h' where
    h': "hands_on (mqtt_user env) sock ?bs (s, \<lambda>i. h (Suc i), hm, (Some codec, ?m)) (?s, h', hm', (Some codec', m'))"
    using m' d(4) assms(5,9) by auto
  from hands_on_wired [OF some this] have h'':
    "hands_on (mqtt_user env) sock (pieces ?n (arrived sock (w, chunks))) (s, \<lambda>i. h (Suc i), hm, (Some codec, m)) (?s, h', hm', (Some codec', m'))"
    by (simp add: assms(2))
  let ?Q = "\<lambda>(hm, codec, m). served m \<and> packetState m \<noteq> DISCONNECT_TYPE"
  have "\<exists>w1. esp_at_io_dowork env (mqtt_user env) (s, (w, chunks), h, hm, (Some codec, m)) =
      Some (Inr (?s\<lparr>pending_io_list := []\<rparr>, (w1, cs), h', reported (\<lambda>c. c) (pending_io_list ?s) (hm', Some codec', m'))) \<and>
    readable sock (w1, cs) \<and> arrived sock (w1, cs) = [] \<and>
    written w1 = concat (map (on_the_line (conn sock (w, chunks))) (rev (pending_io_list ?s))) @ written (fst (w, chunks))"
  proof (rule dowork_moves [where Q = ?Q, OF assms(1,6) h0 h''])
    show "\<forall>p\<in>set (pending_io_list ?s). queued_ok p"
      using assms(5) by (auto simp: queued_ok_def queued_send_def sendable_def)
    show "snd (w, chunks) = concat (map (\<lambda>_. send_answers) (pending_io_list ?s)) @ cs"
      using assms(16) by (simp add: map_replicate_const)
  qed (use assms(6,17) sv st in \<open>auto simp: reports_ignored\<close>)
  moreover have "?s\<lparr>pending_io_list := []\<rparr> = s" using assms(9) by simp
  ultimately show ?thesis using d(2,4,5) m' that by (auto simp: rev_map [symmetric] comp_def)
qed

section \<open>Closing from a callback\<close>

text \<open>A modem that is asked to close and says nothing: the socket is gone all the same.\<close>

lemma close_silent:
  assumes "readable sock (w, [])" "\<forall>ws t. 0 \<le> serial_wri env ws t"
  obtains l1 l2 where "esp_at_socket_close env sock (w, []) = Inr l1" "esp_at_socket_destroy sock l1 = Inr l2"
proof -
  from assms(1) have f: "sock \<le> 4" "live (connections w ! sock)" "conn_state (connections w ! sock) = conn_connected"
    "conn_id (connections w ! sock) = int sock" using readable_id [OF assms(1)] by (simp_all add: readable_def)
  have "conns_ok (connections w)" using assms(1) parser_invD(1) by (auto simp: readable_def idle_def data_ok_def)
  then have i: "sock < length (connections w)" using conns_ok_length f(1) by fastforce
  from f(2) obtain xs where x: "rx_buff (connections w ! sock) = Rx_alloc xs" by (auto simp: live_def)
  have nn: "\<not> serial_wri env ws t < 0" for ws t using assms(2) by (simp add: not_less)
  have "length (dec_int (int sock)) \<le> 10" using dec_int_number_length [of "int sock"] f(1) by simp
  then show ?thesis using that f(3,4) i x nn
    by (simp add: esp_at_socket_close_def esp_at_socket_destroy_def sprintf_into_def strcpy_into_def esp_serial_write_def
        serial_wri_dat_def esp_serial_clear_def esp_serial_read_def take_kind_def upd_conn_def delete_connection_def Let_def)
qed

text \<open>A callback in which the client gives up its transport: the next read is from a socket that is NULL.\<close>

lemma closed_in_callback:
  assumes "readable sock (w, [])" "arrived sock (w, []) \<noteq> []" "\<forall>ws t. 0 \<le> serial_wri env ws t"
    "io_state s = IO_STATE_OPEN" "tcp_socket_connection s = Some sock" "on_bytes_received s" "plenty h" "xioHandle m"
    "onBytesReceived (take ESP_AT_XIO_RECEIVE_BUFFER_SIZE (arrived sock (w, []))) hm (codec, wired s m) = Inr (hm1, codec1, m1)"
    "\<not> xioHandle m1" "sent m1 = sent m"
  shows "esp_at_io_dowork env (mqtt_user env) (s, (w, []), h, hm, (codec, m)) = Some (Inl Null_pointer)"
proof -
  let ?n = ESP_AT_XIO_RECEIVE_BUFFER_SIZE
  obtain l1 cs where r: "esp_at_socket_receive sock (int ?n) (w, []) = Inr (Some cs, l1)"
    "map byte_of cs = take ?n (arrived sock (w, []))" "readable sock l1" "snd l1 = []"
    by (rule receive_step [OF assms(1), of ?n]) simp
  obtain w1 where w1: "l1 = (w1, [])" using r(4) by (cases l1) simp
  obtain l2 l3 where c: "esp_at_socket_close env sock l1 = Inr l2" "esp_at_socket_destroy sock l2 = Inr l3"
    using close_silent [OF r(3) [unfolded w1] assms(3)] w1 by blast
  have cs: "cs \<noteq> []" using r(2) assms(2) by (auto simp: ESP_AT_XIO_RECEIVE_BUFFER_SIZE_def)
  let ?s = "s\<lparr>tcp_socket_connection := None, io_state := IO_STATE_CLOSED\<rparr>"
  have "bytes_received (mqtt_user env) (map byte_of cs) (s, l1, h', hm, (codec, m)) = Inr (?s, l3, h', hm1, (codec1, m1))" for h'
    using assms(4,5,8-11) r(2) c by (simp add: mqtt_user_def client_step_def esp_at_io_close_def close_tcp_connection_def)
  then have "retrieve_loop (mqtt_user env) 0 (s, (w, []), h', hm, (codec, m)) = Some (Inl Null_pointer)" for h'
    using assms(5,6) r(1) cs by (subst retrieve_loop.simps, simp) (subst retrieve_loop.simps, simp)
  moreover obtain q where "malloc ?n h = (Some q, \<lambda>i. h (Suc i))"
    using assms(7) [unfolded plenty_def, rule_format, of 0] by (auto simp: malloc_def ESP_AT_XIO_RECEIVE_BUFFER_SIZE_def)
  ultimately show ?thesis using assms(4) by (simp add: esp_at_io_dowork_def retrieve_data_def)
qed

text \<open>A transport that fails: the callback is told, and the client's close is refused.\<close>

lemma failed_transport:
  assumes "conn_state (conn sock l) \<noteq> conn_connected" "io_state s = IO_STATE_OPEN" "tcp_socket_connection s = Some sock"
    "on_io_error s" "plenty h" "connected m"
  obtains m1 where "esp_at_io_dowork env (mqtt_user env) (s, l, h, hm, (codec, m)) =
      Some (Inr (s\<lparr>io_state := IO_STATE_ERROR\<rparr>, l, \<lambda>i. h (Suc i), hm, (codec, m1)))"
    "m1 = onIoError (wired (s\<lparr>io_state := IO_STATE_ERROR\<rparr>) m)" "\<not> xioHandle m1" "mqtt_status m1 = mqtt_status m" "sent m1 = sent m"
proof -
  let ?s = "s\<lparr>io_state := IO_STATE_ERROR\<rparr>"
  let ?m = "onIoError (wired ?s m)"
  from assms(6) have c: "xioHandle m" "has_status MQTT_STATUS_SOCKET_CONNECTED (wired ?s m)"
    by (simp_all add: connected_def has_status_def wired_def)
  have "\<not> xioHandle ?m" using c(2) by (simp add: onIoError_def set_error_callback_def close_handle)
  moreover have "mqtt_status ?m = mqtt_status m" "sent ?m = sent m"
    using c(1,2)
    by (auto simp: onIoError_def set_error_callback_def close_connection_def xio_close_def wired_def Let_def tell_def has_status_def)
  moreover from assms(5) [unfolded plenty_def, rule_format, of 0] obtain q where "malloc ESP_AT_XIO_RECEIVE_BUFFER_SIZE h = (Some q, \<lambda>i. h (Suc i))"
    by (auto simp: malloc_def ESP_AT_XIO_RECEIVE_BUFFER_SIZE_def)
  ultimately show ?thesis using assms(1-4) c(1) that [of ?m]
    by (simp add: esp_at_io_dowork_def retrieve_data_def retrieve_loop.simps esp_at_socket_receive_def indicate_error_def
        mqtt_user_def client_step_def esp_at_io_close_def)
qed

section \<open>Properties\<close>

text \<open>
  Claim C1. A message makes its way from the serial line to the user, and its acknowledgement
  back: when the module announces the packet of a published message (of any quality of service, at
  most 4095 bytes long) on a connected socket and the bytes of the packet follow, one round of work
  on the transport, which reads them in pieces of 128 bytes, hands the user of the client
  exactly that message, and has put on the line the acknowledgement of its quality, as the
  command \<open>AT+CIPSEND\<close> and the packet; driver, transport and client are then ready for the next one.
\<close>

theorem message_end_to_end:
  fixes h hm :: mem
  assumes "topic \<noteq> []" "length topic \<le> USHRT_MAX" "q \<noteq> DELIVER_FAILURE" "q = DELIVER_AT_MOST_ONCE \<longrightarrow> \<not> dup \<and> \<not> retain"
    "q \<noteq> DELIVER_AT_MOST_ONCE \<longrightarrow> i \<noteq> 0"
    and "bs = frame PUBLISH_TYPE (publish_flags q dup retain) (publish_body q i topic data)" "length bs \<le> rx_capacity"
    and "readable sock (w, [])" "arrived sock (w, []) = []" "sender < 65536" "\<forall>ws t. 0 \<le> serial_wri env ws t"
    and "io_state s = IO_STATE_OPEN" "tcp_socket_connection s = Some sock" "on_bytes_received s" "pending_io_list s = []"
    and "codec_idle codec" "plenty h" "plenty hm" "xioHandle m" "\<forall>n. ticks m n \<noteq> None" "packetState m \<noteq> DISCONNECT_TYPE"
  shows "\<exists>w1 w2 h' hm' codec' m'.
    esp_at_rx_handler response_table env w
      (ipd_header sock (length bs) (address_text quoted a b c d) sender @ map char_of_byte bs) = Inr w1 \<and>
    esp_at_io_dowork env (mqtt_user env)
      (s, (w1, concat (map (\<lambda>_. send_answers) (acknowledgement q i)) @ cs), h, hm, (Some codec, m)) =
      Some (Inr (s, (w2, cs), h', hm', (Some codec', m'))) \<and>
    told m' = Message (received_message q i topic data dup retain) # told m \<and>
    sent m' = acknowledgement q i @ sent m \<and>
    written w2 = concat (map (\<lambda>p. [map char_of_byte p, send_command (connections w ! sock) (int (length p))])
      (acknowledgement q i)) @ written w \<and>
    codec_idle codec' \<and> xioHandle m' \<and> readable sock (w2, cs) \<and> arrived sock (w2, cs) = []"
proof -
  let ?ds = "concat (map (\<lambda>_. send_answers) (acknowledgement q i)) @ cs"
  have "length (publish_body q i topic data) < MAX_3_DIGIT_PACKET_SIZE"
    using assms(6,7) by (simp add: frame_def MAX_3_DIGIT_PACKET_SIZE_def)
  then have ans: "answers bs (acknowledgement q i) [Message (received_message q i topic data dup retain)]"
    unfolding assms(6) using publish_answers assms(1-5) by blast
  have some: "bs \<noteq> []" using assms(6) by (simp add: frame_def)
  have ack: "\<forall>p\<in>set (acknowledgement q i). sendable p"
    by (simp add: acknowledgement_def sendable_def frame_two be16_def)
  obtain w1 where w1: "esp_at_rx_handler response_table env w
      (ipd_header sock (length bs) (address_text quoted a b c d) sender @ map char_of_byte bs) = Inr w1"
    "readable sock (w1, ?ds)" "arrived sock (w1, ?ds) = bs" "written w1 = written w"
    by (rule announced_arrives [OF assms(8,9) some assms(7,10), of env quoted a b c d ?ds])
  have line: "on_the_line (connections w1 ! sock) = on_the_line (connections w ! sock)"
    by (rule on_the_line_id) (use readable_id [OF w1(2)] readable_id [OF assms(8)] in simp)
  obtain w2 h' hm' codec' m' where r: "esp_at_io_dowork env (mqtt_user env) (s, (w1, ?ds), h, hm, (Some codec, m)) =
       Some (Inr (s, (w2, cs), h', hm', (Some codec', m')))"
    "sent m' = acknowledgement q i @ sent m" "told m' = [Message (received_message q i topic data dup retain)] @ told m"
    "written w2 = concat (map (\<lambda>p. on_the_line (connections w1 ! sock) (queued_send p)) (acknowledgement q i)) @ written w1"
    "codec_idle codec'" "xioHandle m'" "readable sock (w2, cs)" "arrived sock (w2, cs) = []"
    by (rule packet_through [OF w1(2,3) some ans ack assms(12-21) refl assms(11)])
  have "on_the_line (connections w ! sock) (queued_send p) = [map char_of_byte p, send_command (connections w ! sock) (int (length p))]" for p
    by (simp add: on_the_line_def queued_send_def)
  with r w1 line show ?thesis by (intro exI [of _ w1] exI [of _ w2] exI conjI) simp_all
qed

lemma open_client_facts: "xioHandle open_client" "\<forall>n. ticks open_client n \<noteq> None" "packetState open_client \<noteq> DISCONNECT_TYPE"
  by (simp_all add: open_client_def new_client_def)

lemma message_end_to_end_witness:
  "\<exists>bs w1 w2 h' hm' codec' m'.
    esp_at_rx_handler response_table plain_env one_connected
      (ipd_header 1 (length bs) (address_text True 192 168 0 7) 8883 @ map char_of_byte bs) = Inr w1 \<and>
    esp_at_io_dowork plain_env (mqtt_user plain_env) (open_transport, (w1, send_answers), junk_mem, junk_mem, (Some new_codec, open_client)) =
      Some (Inr (open_transport, (w2, []), h', hm', (Some codec', m'))) \<and>
    told m' = [Message (received_message DELIVER_AT_LEAST_ONCE 7 [0x61, 0x2F, 0x62] [1, 2, 3] False True)]"
proof -
  let ?bs = "frame PUBLISH_TYPE (publish_flags DELIVER_AT_LEAST_ONCE False True) (publish_body DELIVER_AT_LEAST_ONCE 7 [0x61, 0x2F, 0x62] [1, 2, 3])"
  have "length (publish_body DELIVER_AT_LEAST_ONCE 7 [0x61, 0x2F, 0x62] [1, 2, 3]) < 128"
    by (simp add: publish_body_def packet_id_def utf_def be16_def)
  then have n: "length ?bs \<le> rx_capacity" by (simp add: frame_def digits_1)
  have p: "(8883 :: nat) < 65536" by simp
  have c: "told open_client = []" by (simp add: open_client_def new_client_def)
  from message_end_to_end [of "[0x61, 0x2F, 0x62]" DELIVER_AT_LEAST_ONCE False True 7, OF _ _ _ _ _ refl n one_connected_readable p
      plain_env_writes open_transport_facts(1-4) new_codec_idle plenty_junk plenty_junk open_client_facts, of True 192 168 0 7 "[]"] c
  show ?thesis by (simp add: USHRT_MAX_def acknowledgement_def) blast
qed

text \<open>
  Claim C10. A bad packet from the server makes the device read through a NULL pointer: when the first
  byte that has arrived is not the beginning of a packet that MQTT has, the client reports the error
  and closes the transport from inside the callback, and the receiving loop of the transport
  goes on with the socket that has just been destroyed and set to NULL.
\<close>

theorem bad_packet_crashes:
  assumes "readable sock (w, [])" "arrived sock (w, []) = b # bs" "\<forall>ws t. 0 \<le> serial_wri env ws t"
    "io_state s = IO_STATE_OPEN" "tcp_socket_connection s = Some sock" "on_bytes_received s" "plenty h" "connected m"
    "codec_idle codec" "\<not> valid_header (fst (processControlPacketType b)) (snd (processControlPacketType b))"
  shows "esp_at_io_dowork env (mqtt_user env) (s, (w, []), h, hm, (Some codec, m)) = Some (Inl Null_pointer)"
proof -
  let ?n = ESP_AT_XIO_RECEIVE_BUFFER_SIZE and ?m = "wired s m"
  obtain t flags where t: "processControlPacketType b = (t, flags)" by (cases "processControlPacketType b")
  have piece: "take ?n (arrived sock (w, [])) = b # take 127 bs"
    using assms(2) by (simp add: ESP_AT_XIO_RECEIVE_BUFFER_SIZE_def)
  have "receive_loop (Some recvCompleteCallback) (b # take 127 bs) codec hm ?m =
      Inr (MU_FAILURE, codec\<lparr>currPacket := PACKET_TYPE_ERROR, headerFlags := flags\<rparr>, hm, ?m)"
    using assms(9,10) t by (simp add: receive_byte_def receive_fixed_header_def codec_idle_def packet_error_def)
  then obtain codec1 where r: "onBytesReceived (b # take 127 bs) hm (Some codec, ?m) = Inr (hm, codec1, set_error_callback MQTT_CLIENT_PARSE_ERROR ?m)"
    by (simp add: onBytesReceived_def mqtt_codec_bytesReceived_def)
  have c: "xioHandle m" "has_status MQTT_STATUS_SOCKET_CONNECTED ?m"
    using assms(8) by (simp_all add: connected_def has_status_def wired_def)
  have gone: "\<not> xioHandle (set_error_callback MQTT_CLIENT_PARSE_ERROR ?m)"
    using c(2) by (simp add: set_error_callback_def close_handle)
  show ?thesis
    by (rule closed_in_callback [OF assms(1) _ assms(3-7) c(1) r [folded piece] gone]) (use assms(2) in simp_all)
qed

text \<open>A socket in whose ring one byte has arrived.\<close>

lemma one_byte_arrived:
  obtains w where "readable 1 (w, [])" "arrived 1 (w, []) = [b]"
proof -
  have n: "[b] \<noteq> []" "length [b] \<le> rx_capacity" "(8883 :: nat) < 65536" by simp_all
  show ?thesis by (rule announced_arrives [OF one_connected_readable n, of plain_env True 192 168 0 7 "[]"]) (erule that)
qed

lemma bad_packet_crashes_witness:
  "\<exists>w. arrived 1 (w, []) = [0x00] \<and>
    esp_at_io_dowork plain_env (mqtt_user plain_env) (open_transport, (w, []), junk_mem, junk_mem, (Some new_codec, open_client)) =
      Some (Inl Null_pointer)"
proof -
  obtain w where w: "readable 1 (w, [])" "arrived 1 (w, []) = [0x00]" by (rule one_byte_arrived)
  have "\<not> valid_header (fst (processControlPacketType 0x00)) (snd (processControlPacketType 0x00))"
    by (simp add: processControlPacketType_def packet_type_values_def valid_header_def)
  from bad_packet_crashes [OF w plain_env_writes open_transport_facts(1-3) plenty_junk open_client_connected new_codec_idle this, of junk_mem] w(2)
  show ?thesis by blast
qed

lemma connect_keeps:
  assumes "mqtt_client_connect True (Some opts) True h m = (MU_OK, h', m')"
  shows "xioHandle m' \<and> mqtt_status m' = mqtt_status m \<and> sent m' = sent m"
proof -
  let ?half = "keepAliveInterval opts div 2"
  let ?m = "m\<lparr>xioHandle := True, packetState := UNKNOWN_TYPE, qosValue := qualityOfServiceValue opts, keepAlive := keepAliveInterval opts,
     maxPingRespTime := (if DEFAULT_MAX_PING_RESPONSE_TIME < ?half then DEFAULT_MAX_PING_RESPONSE_TIME else ?half)\<rparr>"
  show ?thesis by (cases rule: clone_cases [of opts h ?m]) (use assms in \<open>auto simp: mqtt_client_connect_def Let_def\<close>)
qed

lemma set_status_kept:
  "has_status MQTT_STATUS_PENDING_CLOSE (set_status MQTT_STATUS_PENDING_CLOSE m)"
  "has_status MQTT_STATUS_SOCKET_CONNECTED m \<Longrightarrow> has_status MQTT_STATUS_SOCKET_CONNECTED (set_status MQTT_STATUS_PENDING_CLOSE m)"
  by (simp_all add: has_status_def set_status_def MQTT_STATUS_PENDING_CLOSE_def MQTT_STATUS_SOCKET_CONNECTED_def word_ao_dist
      word_ao_absorbs)

text \<open>
  The first connection after a lost one is wasted: when the socket is no longer connected,
  the transport enters its error state, in which it refuses to be closed, and the client keeps
  the flag that says its socket is connected; after \<open>mqtt_client_connect\<close> with a new transport that
  opens, the client sends no CONNECT packet but marks itself to be closed, and the next
  \<open>mqtt_client_dowork\<close> closes the new transport.
\<close>

theorem first_reconnect_wasted:
  fixes h hm :: mem
  assumes "conn_state (conn sock l) \<noteq> conn_connected" "io_state s = IO_STATE_OPEN" "tcp_socket_connection s = Some sock"
    "on_io_error s" "plenty h" "connected m"
  shows "\<exists>s1 h1 m1. esp_at_io_dowork env (mqtt_user env) (s, l, h, hm, (codec, m)) = Some (Inr (s1, l, h1, hm, (codec, m1))) \<and>
    io_state s1 = IO_STATE_ERROR \<and> \<not> xioHandle m1 \<and>
    (\<forall>opts h2 h3 m2. mqtt_client_connect True (Some opts) True h2 m1 = (MU_OK, h3, m2) \<longrightarrow>
      (\<exists>m3 m4. onOpenComplete IO_OPEN_OK h3 m2 = Inr (h3, m3) \<and> sent m3 = sent m \<and>
        mqtt_client_dowork events h3 (codec, m3) = Inr (h3, codec, m4) \<and> \<not> xioHandle m4 \<and> sent m4 = sent m))"
proof -
  obtain m1 where m1: "esp_at_io_dowork env (mqtt_user env) (s, l, h, hm, (codec, m)) =
      Some (Inr (s\<lparr>io_state := IO_STATE_ERROR\<rparr>, l, \<lambda>i. h (Suc i), hm, (codec, m1)))"
    "\<not> xioHandle m1" "mqtt_status m1 = mqtt_status m" "sent m1 = sent m"
    by (rule failed_transport [OF assms, of env hm codec])
  show ?thesis
  proof (intro exI conjI allI impI)
    fix opts h2 h3 m2 assume c: "mqtt_client_connect True (Some opts) True h2 m1 = (MU_OK, h3, m2)"
    then have m2: "xioHandle m2" "mqtt_status m2 = mqtt_status m" "sent m2 = sent m"
      using m1(3,4) connect_keeps [OF c] by simp_all
    have on: "has_status MQTT_STATUS_SOCKET_CONNECTED m2" using m2(2) assms(6) by (simp add: connected_def has_status_def)
    let ?m3 = "set_status MQTT_STATUS_PENDING_CLOSE m2"
    have p: "has_status MQTT_STATUS_PENDING_CLOSE ?m3" "has_status MQTT_STATUS_SOCKET_CONNECTED ?m3"
      using on by (simp_all add: set_status_kept)
    show "onOpenComplete IO_OPEN_OK h3 m2 = Inr (h3, ?m3)" using on by (simp add: onOpenComplete_def)
    show "sent ?m3 = sent m" using m2(3) by (simp add: set_status_def)
    show "mqtt_client_dowork events h3 (codec, ?m3) =
        Inr (h3, codec, clear_status MQTT_STATUS_PENDING_CLOSE (close_connection ?m3))"
      using p(1) m2(1) by (simp add: mqtt_client_dowork_def set_status_def)
    show "\<not> xioHandle (clear_status MQTT_STATUS_PENDING_CLOSE (close_connection ?m3))"
      using close_handle [OF p(2)] by (simp add: clear_status_def)
    show "sent (clear_status MQTT_STATUS_PENDING_CLOSE (close_connection ?m3)) = sent m"
      using m2(3) by (simp add: clear_status_def set_status_def)
  qed (rule m1(1), simp, rule m1(2))
qed

lemma first_reconnect_wasted_witness:
  "\<exists>s1 h1 m1. esp_at_io_dowork plain_env (mqtt_user plain_env) (open_transport, (one_open, []), junk_mem, junk_mem, (Some new_codec, open_client)) =
      Some (Inr (s1, (one_open, []), h1, junk_mem, (Some new_codec, m1))) \<and>
    io_state s1 = IO_STATE_ERROR \<and> \<not> xioHandle m1 \<and>
    (\<forall>opts h2 h3 m2. mqtt_client_connect True (Some opts) True h2 m1 = (MU_OK, h3, m2) \<longrightarrow>
      (\<exists>m3 m4. onOpenComplete IO_OPEN_OK h3 m2 = Inr (h3, m3) \<and> sent m3 = sent open_client \<and>
        mqtt_client_dowork [] h3 (Some new_codec, m3) = Inr (h3, Some new_codec, m4) \<and> \<not> xioHandle m4 \<and> sent m4 = sent open_client))"
proof -
  have c: "conn_state (conn 1 (one_open, [])) \<noteq> conn_connected"
    by (simp add: one_open_def initial_connections_def fresh_connection_def initial_connection_def)
  show ?thesis by (rule first_reconnect_wasted [OF c open_transport_facts(1,2,5) plenty_junk open_client_connected])
qed

end
