(* ===== verification/At_Task.thy ===== *)
theory At_Task
  imports Esp_Calls
begin

text \<open>
  The main program's side of the AT driver (\<open>app_iothub_client/src/main.c\<close>): the task that moves what
  the serial port has received into a ring and from there to the driver's handler, and the
  shell commands that set its mode and send AT commands.
\<close>

section \<open>The receive queue\<close>

definition TX_BUF_SIZE :: nat where "TX_BUF_SIZE = 256"
definition RX_BUF_SIZE :: nat where "RX_BUF_SIZE = 1024"
definition MODE_NOECHO :: int where "MODE_NOECHO = 0"
definition MODE_ECHO_CHAR :: int where "MODE_ECHO_CHAR = 1"
definition MODE_ECHO_HEX :: int where "MODE_ECHO_HEX = 2"
definition MODE_DEFAULT :: int where "MODE_DEFAULT = MODE_NOECHO"

record queue_t =
  qsize :: nat
  clen :: nat
  qhead :: nat
  qtail :: nat
  pbuffer :: string

definition init_queue :: queue_t where
  "init_queue = \<lparr>qsize = RX_BUF_SIZE, clen = 0, qhead = 0, qtail = 0, pbuffer = replicate RX_BUF_SIZE NUL\<rparr>"

text \<open>
  The serial port is what it has received and not yet handed over; a read of no more than
  \<open>serial_ref_por\<close> has counted takes the first of it at once.
\<close>

definition serial_rea_dat :: "nat \<Rightarrow> string \<Rightarrow> string \<times> string" where
  "serial_rea_dat n port = (take n port, drop n port)"

definition put_chars :: "string \<Rightarrow> nat \<Rightarrow> string \<Rightarrow> string outcome" where
  "put_chars buf i cs = (if i + length cs \<le> length buf then Inr (take i buf @ cs @ drop (i + length cs) buf) else Inl Buffer_overflow)"

definition wrap_at :: "nat \<Rightarrow> nat \<Rightarrow> nat" where
  "wrap_at n i = (if i \<ge> n then i - n else i)"

text \<open>One read into the ring.\<close>

definition read_part :: "nat \<Rightarrow> queue_t \<Rightarrow> string \<Rightarrow> (nat \<times> queue_t \<times> string) outcome" where
  "read_part i q port =
    (let (cs, port1) = serial_rea_dat i port
     in cbind (put_chars (pbuffer q) (qhead q) cs) (\<lambda>b.
          Inr (length cs, q\<lparr>pbuffer := b, qhead := wrap_at (qsize q) (qhead q + length cs), clen := clen q + length cs\<rparr>, port1)))"

definition fill_queue :: "queue_t \<Rightarrow> string \<Rightarrow> (queue_t \<times> string) outcome" where
  "fill_queue q port =
    (let len = (if qsize q - clen q < length port then qsize q - clen q else length port)
     in if len > 0 then
          cbind (if qhead q \<ge> qtail q then
                   cbind (read_part (if qsize q - qhead q < len then qsize q - qhead q else len) q port)
                     (\<lambda>(j, q1, port1). Inr (len - j, q1, port1))
                 else Inr (len, q, port)) (\<lambda>(len1, q1, port1).
            if len1 > 0 then cbind (read_part len1 q1 port1) (\<lambda>(_, q2, port2). Inr (q2, port2)) else Inr (q1, port1))
        else Inr (q, port))"

text \<open>In the modes that print, the bytes are printed and gone; \<open>dlen\<close> counts them.\<close>

function echo_loop :: "queue_t \<Rightarrow> nat \<Rightarrow> queue_t \<times> nat" where
  "echo_loop q dlen =
    (if clen q > 0 then echo_loop (q\<lparr>clen := clen q - 1, qtail := wrap_at (qsize q) (qtail q + 1)\<rparr>) (dlen + 1) else (q, dlen))"
  by pat_completeness auto
termination by (relation "measure (\<lambda>(q, dlen). clen q)") auto

declare echo_loop.simps [simp del]

text \<open>One call of the driver's handler, which takes all it is given.\<close>

definition handle_part :: "esp_env \<Rightarrow> nat \<Rightarrow> queue_t \<Rightarrow> esp \<Rightarrow> (queue_t \<times> esp) outcome" where
  "handle_part env i q w =
    (if qtail q + i \<le> length (pbuffer q) then
       cbind (esp_at_rx_handler response_table env w (take i (drop (qtail q) (pbuffer q)))) (\<lambda>w1.
         Inr (q\<lparr>qtail := wrap_at (qsize q) (qtail q + i), clen := clen q - i\<rparr>, w1))
     else Inl Read_past_end)"

definition handle_queue :: "esp_env \<Rightarrow> queue_t \<Rightarrow> esp \<Rightarrow> (queue_t \<times> esp) outcome" where
  "handle_queue env q w =
    (let len = clen q
     in cbind (if qtail q \<ge> qhead q then
                 (let i = (if qsize q - qtail q < len then qsize q - qtail q else len)
                  in cbind (handle_part env i q w) (\<lambda>(q1, w1). Inr (len - i, q1, w1)))
               else Inr (len, q, w)) (\<lambda>(len1, q1, w1).
          if len1 > 0 then handle_part env len1 q1 w1 else Inr (q1, w1)))"

section \<open>The task\<close>

text \<open>The queue, the number of bytes printed, the driver, and the serial port.\<close>

type_synonym at_task = "queue_t \<times> nat \<times> esp \<times> string"

text \<open>A round of the task's loop, in which \<open>rx_mode\<close> does not change.\<close>

definition at_round :: "esp_env \<Rightarrow> int \<Rightarrow> at_task \<Rightarrow> at_task outcome" where
  "at_round env mode t =
    (case t of (q, dlen, w, port) \<Rightarrow>
       cbind (fill_queue q port) (\<lambda>(q1, port1).
         let (q2, dlen1) = (if mode \<noteq> MODE_NOECHO then echo_loop q1 dlen else (q1, dlen))
         in cbind (if clen q2 > 0 then handle_queue env q2 w else Inr (q2, w)) (\<lambda>(q3, w1). Inr (q3, dlen1, w1, port1))))"

text \<open>The rounds, each with what arrives at the port before it and the mode it finds.\<close>

fun at_rounds :: "esp_env \<Rightarrow> (string \<times> int) list \<Rightarrow> at_task \<Rightarrow> at_task outcome" where
  "at_rounds env [] t = Inr t"
| "at_rounds env ((a, mode) # rs) t =
    (case t of (q, dlen, w, port) \<Rightarrow>
       if dlen < 500000 then cbind (at_round env mode (q, dlen, w, port @ a)) (at_rounds env rs)
       else Inr (q, dlen, w, port @ concat (map fst ((a, mode) # rs))))"

definition esp_at_task :: "esp_env \<Rightarrow> rtc_regs \<Rightarrow> (string \<times> int) list \<Rightarrow> at_task outcome" where
  "esp_at_task env clock rs = at_rounds env rs (init_queue, 0, init_esp_at clock, [])"

section \<open>The shell commands\<close>

text \<open>\<open>a2i\<close>: an \<open>int\<close> that overflows is undefined.\<close>

fun a2i_loop :: "string \<Rightarrow> int \<Rightarrow> int outcome" where
  "a2i_loop [] num = Inr num"
| "a2i_loop (c # cs) num =
    (if isdigit c then
       (if int_ok (num * 10) \<and> int_ok (num * 10 + int (code c)) then a2i_loop cs (num * 10 + int (code c) - 48)
        else Inl Signed_overflow)
     else Inr num)"

definition a2i :: "string \<Rightarrow> int outcome" where
  "a2i s = a2i_loop s 0"

text \<open>The result, and \<open>rx_mode\<close>.\<close>

definition mode_func :: "string list \<Rightarrow> int \<Rightarrow> (int \<times> int) outcome" where
  "mode_func argv rx_mode =
    (if length argv \<ge> 2 then
       cbind (a2i (argv ! 1)) (\<lambda>mode.
         let m = (if mode < 0 \<or> mode > MODE_ECHO_HEX then MODE_DEFAULT else mode) in Inr (m, m))
     else Inr (rx_mode, rx_mode))"

definition count_func :: "queue_t \<Rightarrow> int" where
  "count_func q = int (clen q)"

definition BASE_CMD_LEN :: nat where "BASE_CMD_LEN = 4"

text \<open>An argument is copied in capitals, except between quotation marks.\<close>

fun copy_arg :: "bool \<Rightarrow> string \<Rightarrow> bool \<times> string" where
  "copy_arg caps [] = (caps, [])"
| "copy_arg caps (c # cs) =
    (let caps1 = (if c = DQUOTE then \<not> caps else caps);
         d = (if caps1 \<and> islower c then char_of (code c - 32) else c);
         (caps2, ds) = copy_arg caps1 cs
     in (caps2, d # ds))"

fun copy_args :: "bool \<Rightarrow> string list \<Rightarrow> string" where
  "copy_args caps [] = []"
| "copy_args caps (a # as) = (let (caps1, t) = copy_arg caps a in CHR ''+'' # t @ copy_args caps1 as)"

text \<open>The text goes into \<open>aTxBuffer\<close> with a NUL behind it, which nothing bounds; then to the port.\<close>

definition at_func :: "esp_env \<Rightarrow> string list \<Rightarrow> link \<Rightarrow> (nat \<times> int \<times> link) outcome" where
  "at_func env argv l =
    (let args = tl argv;
         arg_count = BASE_CMD_LEN + (\<Sum>a\<leftarrow>args. 1 + length a);
         text = ''AT'' @ (if arg_count > BASE_CMD_LEN then copy_args True args else []) @ CRLF
     in cbind (strcpy_into TX_BUF_SIZE text) (\<lambda>t.
          let (r, l1) = serial_wri_dat env l (take arg_count t) in Inr (arg_count, r, l1)))"

section \<open>The ring\<close>

definition queue_ok :: "queue_t \<Rightarrow> bool" where
  "queue_ok q \<longleftrightarrow> qsize q = RX_BUF_SIZE \<and> length (pbuffer q) = RX_BUF_SIZE \<and> qhead q < RX_BUF_SIZE \<and> qtail q < RX_BUF_SIZE \<and>
     clen q \<le> RX_BUF_SIZE \<and> qhead q = (qtail q + clen q) mod RX_BUF_SIZE"

definition queued :: "queue_t \<Rightarrow> string" where
  "queued q = ring_slice RX_BUF_SIZE (pbuffer q) (qtail q) (clen q)"

lemma queued_length [simp]: "length (queued q) = clen q"
  by (simp add: queued_def)

lemma wrap_at_mod: "i < 2 * n \<Longrightarrow> wrap_at n i = i mod n"
  by (auto simp: wrap_at_def mod_if)

lemma in_ring: "t < N \<Longrightarrow> k < N \<Longrightarrow> (t + k) mod N = (if t + k < N then t + k else t + k - (N :: nat))"
  by (simp add: mod_if)

lemma put_chars_nth:
  assumes "put_chars buf i cs = Inr b"
  shows "length b = length buf" "k < length buf \<Longrightarrow> b ! k = (if i \<le> k \<and> k < i + length cs then cs ! (k - i) else buf ! k)"
  using assms by (auto simp: put_chars_def nth_append split: if_splits)

text \<open>Bytes that fit between the head and the end of the array, and into the ring.\<close>

lemma read_part_spec:
  assumes "queue_ok q" "i \<le> length port" "qhead q + i \<le> RX_BUF_SIZE" "clen q + i \<le> RX_BUF_SIZE"
  obtains q1 where "read_part i q port = Inr (i, q1, drop i port)" "queue_ok q1" "queued q1 = queued q @ take i port"
    "clen q1 = clen q + i" "qhead q1 = (qhead q + i) mod RX_BUF_SIZE" "qtail q1 = qtail q"
proof -
  let ?N = RX_BUF_SIZE
  have q: "qsize q = ?N" "length (pbuffer q) = ?N" "qhead q < ?N" "qtail q < ?N" "qhead q = (qtail q + clen q) mod ?N"
    using assms(1) by (simp_all add: queue_ok_def)
  have len: "length (take i port) = i" using assms(2) by simp
  obtain b where b: "put_chars (pbuffer q) (qhead q) (take i port) = Inr b"
    using assms(3) q(2) len by (simp add: put_chars_def)
  let ?q = "q\<lparr>pbuffer := b, qhead := wrap_at ?N (qhead q + i), clen := clen q + i\<rparr>"
  have h: "wrap_at ?N (qhead q + i) = (qhead q + i) mod ?N" by (rule wrap_at_mod) (use assms(3) q(3) in simp)
  have r: "read_part i q port = Inr (i, ?q, drop i port)"
    using b q(1) len assms(2) by (simp add: read_part_def serial_rea_dat_def Let_def)
  have "(qhead q + i) mod ?N = (qtail q + (clen q + i)) mod ?N" using q(5) by (simp add: mod_simps add.assoc)
  then have ok: "queue_ok ?q" using assms(1,4) put_chars_nth(1) [OF b] h by (simp add: queue_ok_def RX_BUF_SIZE_def)
  have "queued ?q = queued q @ take i port"
  proof (rule nth_equalityI)
    show "length (queued ?q) = length (queued q @ take i port)" using len by simp
    fix k assume "k < length (queued ?q)"
    then have k: "k < clen q + i" "k < ?N" using assms(4) by simp_all
    have m: "(qtail q + k) mod ?N < ?N" by (simp add: RX_BUF_SIZE_def)
    have "queued ?q ! k = b ! ((qtail q + k) mod ?N)" using k by (simp add: queued_def ring_slice_def)
    also have "\<dots> = (queued q @ take i port) ! k"
    proof (cases "k < clen q")
      case True
      have "\<not> (qhead q \<le> (qtail q + k) mod ?N \<and> (qtail q + k) mod ?N < qhead q + i)"
        using q(3-5) k True assms(3,4) in_ring [OF q(4) k(2)] by (auto simp: mod_if split: if_splits)
      with put_chars_nth(2) [OF b, of "(qtail q + k) mod ?N"] q(2) m len True show ?thesis
        by (auto simp: nth_append queued_def ring_slice_def)
    next
      case False
      have "(qtail q + k) mod ?N = qhead q + (k - clen q)"
        using q(3-5) k False assms(3,4) by (auto simp: mod_if RX_BUF_SIZE_def split: if_splits)
      with put_chars_nth(2) [OF b, of "(qtail q + k) mod ?N"] q(2) m len k False show ?thesis
        by (auto simp: nth_append)
    qed
    finally show "queued ?q ! k = (queued q @ take i port) ! k" .
  qed
  with r ok h that show ?thesis by simp
qed

lemma fill_queue_spec:
  assumes "queue_ok q" "k = min (RX_BUF_SIZE - clen q) (length port)"
  obtains q1 where "fill_queue q port = Inr (q1, drop k port)" "queue_ok q1" "queued q1 = queued q @ take k port"
    "clen q1 = clen q + k"
proof -
  let ?N = RX_BUF_SIZE
  have q: "qsize q = ?N" "qhead q < ?N" "qtail q < ?N" "clen q \<le> ?N" "qhead q = (qtail q + clen q) mod ?N"
    using assms(1) by (simp_all add: queue_ok_def)
  have k: "k \<le> length port" "clen q + k \<le> ?N" using assms(2) q(4) by simp_all
  have len: "(if qsize q - clen q < length port then qsize q - clen q else length port) = k" using assms(2) q(1) by simp
  show ?thesis
  proof (cases "k = 0")
    case True
    then have "fill_queue q port = Inr (q, drop k port)" unfolding fill_queue_def len by simp
    with True assms(1) that show ?thesis by simp
  next
    case k0: False
    show ?thesis
    proof (cases "qhead q \<ge> qtail q")
      case False
      then have fit: "qhead q + k \<le> ?N" using q k(2) by (auto simp: mod_if split: if_splits)
      obtain q1 where q1: "read_part k q port = Inr (k, q1, drop k port)" "queue_ok q1" "queued q1 = queued q @ take k port"
        "clen q1 = clen q + k" by (rule read_part_spec [OF assms(1) k(1) fit k(2)])
      with False k0 have "fill_queue q port = Inr (q1, drop k port)" unfolding fill_queue_def len by simp
      with q1 that show ?thesis by simp
    next
      case True
      let ?i = "if qsize q - qhead q < k then qsize q - qhead q else k"
      have i: "?i \<le> length port" "qhead q + ?i \<le> ?N" "clen q + ?i \<le> ?N" using q(1,2,4) k by auto
      obtain q1 where q1: "read_part ?i q port = Inr (?i, q1, drop ?i port)" "queue_ok q1" "queued q1 = queued q @ take ?i port"
        "clen q1 = clen q + ?i" "qhead q1 = (qhead q + ?i) mod ?N" by (rule read_part_spec [OF assms(1) i])
      show ?thesis
      proof (cases "qsize q - qhead q < k")
        case False
        with q1 have "fill_queue q port = Inr (q1, drop k port)" using True k0 unfolding fill_queue_def len by simp
        with q1 False that show ?thesis by simp
      next
        case wrap: True
        then have h: "qhead q1 = 0" using q1(5) q(1,2) by simp
        have j: "k - ?i \<le> length (drop ?i port)" "qhead q1 + (k - ?i) \<le> ?N" "clen q1 + (k - ?i) \<le> ?N"
          using wrap k q1(4) h by auto
        obtain q2 where q2: "read_part (k - ?i) q1 (drop ?i port) = Inr (k - ?i, q2, drop (k - ?i) (drop ?i port))" "queue_ok q2"
          "queued q2 = queued q1 @ take (k - ?i) (drop ?i port)" "clen q2 = clen q1 + (k - ?i)"
          by (rule read_part_spec [OF q1(2) j])
        have ik: "k - ?i + ?i = k" "k - ?i > 0" using wrap by auto
        have "fill_queue q port = Inr (q2, drop (k - ?i) (drop ?i port))"
          using True k0 q1(1) q2(1) ik(2) unfolding fill_queue_def len by (simp add: split del: if_split)
        moreover have "drop (k - ?i) (drop ?i port) = drop k port" unfolding drop_drop ik(1) ..
        moreover have "queued q2 = queued q @ take k port"
          using q2(3) q1(3) take_add [of ?i "k - ?i" port] ik(1) by (simp add: add.commute split del: if_split)
        moreover have "clen q2 = clen q + k" using q2(4) q1(4) ik(1) by (simp split del: if_split)
        ultimately show ?thesis using q2(2) that by simp
      qed
    qed
  qed
qed

text \<open>What is handed over is the beginning of the queue.\<close>

lemma handle_part_spec:
  assumes "queue_ok q" "i \<le> clen q" "qtail q + i \<le> RX_BUF_SIZE"
  obtains q1 where "\<And>w. handle_part env i q w = cbind (esp_at_rx_handler response_table env w (take i (queued q))) (\<lambda>w1. Inr (q1, w1))"
    "queue_ok q1" "queued q1 = drop i (queued q)" "clen q1 = clen q - i" "qtail q1 = (qtail q + i) mod RX_BUF_SIZE" "qhead q1 = qhead q"
proof -
  let ?N = RX_BUF_SIZE
  let ?q = "q\<lparr>qtail := wrap_at ?N (qtail q + i), clen := clen q - i\<rparr>"
  have q: "qsize q = ?N" "length (pbuffer q) = ?N" "qtail q < ?N" "clen q \<le> ?N" "qhead q = (qtail q + clen q) mod ?N"
    using assms(1) by (simp_all add: queue_ok_def)
  have t: "wrap_at ?N (qtail q + i) = (qtail q + i) mod ?N" by (rule wrap_at_mod) (use assms(3) q(3) in simp)
  have "((qtail q + i) mod ?N + (clen q - i)) mod ?N = (qtail q + i + (clen q - i)) mod ?N" by (rule mod_add_left_eq)
  also have "\<dots> = (qtail q + clen q) mod ?N" using assms(2) by simp
  finally have "((qtail q + i) mod ?N + (clen q - i)) mod ?N = (qtail q + clen q) mod ?N" .
  then have ok: "queue_ok ?q" using t q assms(1) by (simp add: queue_ok_def)
  have bytes: "take i (drop (qtail q) (pbuffer q)) = take i (queued q)"
    by (rule nth_equalityI) (use assms(2,3) q in \<open>auto simp: queued_def ring_slice_def\<close>)
  have "queued ?q = drop i (queued q)"
    by (rule nth_equalityI) (use assms(2) in \<open>auto simp: queued_def ring_slice_def t mod_simps add.assoc\<close>)
  moreover have "handle_part env i q w = cbind (esp_at_rx_handler response_table env w (take i (queued q))) (\<lambda>w1. Inr (?q, w1))" for w
    using assms(3) q(1,2) by (simp add: handle_part_def bytes)
  ultimately show ?thesis using ok t that by auto
qed

lemma handle_queue_spec:
  assumes "queue_ok q" "clen q > 0"
  obtains q1 where "handle_queue env q w = cbind (esp_at_rx_handler response_table env w (queued q)) (\<lambda>w1. Inr (q1, w1))"
    "queue_ok q1" "clen q1 = 0"
proof -
  let ?N = RX_BUF_SIZE
  have q: "qsize q = ?N" "qtail q < ?N" "clen q \<le> ?N" "qhead q = (qtail q + clen q) mod ?N"
    using assms(1) by (simp_all add: queue_ok_def)
  show ?thesis
  proof (cases "qtail q \<ge> qhead q")
    case False
    then have fit: "qtail q + clen q \<le> ?N" using q by (auto simp: mod_if split: if_splits)
    obtain q1 where q1: "\<And>w. handle_part env (clen q) q w = cbind (esp_at_rx_handler response_table env w (take (clen q) (queued q))) (\<lambda>w1. Inr (q1, w1))"
      "queue_ok q1" "clen q1 = clen q - clen q" by (rule handle_part_spec [where env = env, OF assms(1) order_refl fit]) (erule that, assumption+)
    with False assms(2) that show ?thesis by (simp add: handle_queue_def)
  next
    case True
    let ?i = "if qsize q - qtail q < clen q then qsize q - qtail q else clen q"
    have i: "?i \<le> clen q" "qtail q + ?i \<le> ?N" using q(1,2) by auto
    obtain q1 where q1: "\<And>w. handle_part env ?i q w = cbind (esp_at_rx_handler response_table env w (take ?i (queued q))) (\<lambda>w1. Inr (q1, w1))"
      "queue_ok q1" "queued q1 = drop ?i (queued q)" "clen q1 = clen q - ?i" "qtail q1 = (qtail q + ?i) mod ?N"
      by (rule handle_part_spec [where env = env, OF assms(1) i]) (erule that, assumption+)
    show ?thesis
    proof (cases "qsize q - qtail q < clen q")
      case False
      have "handle_queue env q w = cbind (esp_at_rx_handler response_table env w (queued q)) (\<lambda>w1. Inr (q1, w1))"
        using True False q1(1) [of w]
        by (cases "esp_at_rx_handler response_table env w (queued q)") (simp_all add: handle_queue_def)
      with False q1(2,4) that show ?thesis by simp
    next
      case wrap: True
      then have j: "clen q - ?i \<le> clen q1" "qtail q1 + (clen q - ?i) \<le> ?N" "clen q - ?i > 0"
        using q1(4,5) q(1-3) by auto
      obtain q2 where q2: "\<And>w1. handle_part env (clen q - ?i) q1 w1 =
          cbind (esp_at_rx_handler response_table env w1 (take (clen q - ?i) (queued q1))) (\<lambda>w1. Inr (q2, w1))"
        "queue_ok q2" "clen q2 = clen q1 - (clen q - ?i)" by (rule handle_part_spec [where env = env, OF q1(2) j(1,2)]) (erule that, assumption+)
      have rest: "take (clen q - ?i) (queued q1) = drop ?i (queued q)" using q1(3) by simp
      have "handle_queue env q w = cbind (esp_at_rx_handler response_table env w (take ?i (queued q) @ drop ?i (queued q))) (\<lambda>w1. Inr (q2, w1))"
        using True j(3) q1(1) [of w] q2(1) rest unfolding handle_queue_def rx_handler_append Let_def
        by (cases "esp_at_rx_handler response_table env w (take ?i (queued q))") (simp_all split del: if_split)
      moreover have "clen q2 = 0" using q2(3) q1(4) by simp
      ultimately show ?thesis using q2(2) that by (simp split del: if_split)
    qed
  qed
qed

section \<open>Rounds\<close>

lemma echo_loop_spec:
  assumes "queue_ok q"
  shows "\<exists>q1. echo_loop q dlen = (q1, dlen + clen q) \<and> queue_ok q1 \<and> clen q1 = 0"
  using assms
proof (induction q dlen rule: echo_loop.induct)
  case (1 q dlen)
  show ?case
  proof (cases "clen q > 0")
    case False
    with 1(2) show ?thesis by (subst echo_loop.simps) simp
  next
    case True
    let ?N = RX_BUF_SIZE
    let ?q = "q\<lparr>clen := clen q - 1, qtail := wrap_at (qsize q) (qtail q + 1)\<rparr>"
    have q: "qsize q = ?N" "qtail q < ?N" "qhead q = (qtail q + clen q) mod ?N" using 1(2) by (simp_all add: queue_ok_def)
    have t: "wrap_at ?N (qtail q + 1) = (qtail q + 1) mod ?N" by (rule wrap_at_mod) (use q(2) in simp)
    have "((qtail q + 1) mod ?N + (clen q - 1)) mod ?N = (qtail q + 1 + (clen q - 1)) mod ?N" by (rule mod_add_left_eq)
    also have "\<dots> = qhead q" using q(3) True by simp
    finally have "((qtail q + 1) mod ?N + (clen q - 1)) mod ?N = qhead q" .
    moreover have "clen q - 1 \<le> ?N" "(qtail q + 1) mod ?N < ?N" using 1(2) by (auto simp: queue_ok_def RX_BUF_SIZE_def)
    ultimately have "queue_ok ?q" using t q(1) 1(2) unfolding queue_ok_def by simp
    with 1(1) True show ?thesis by (subst echo_loop.simps) fastforce
  qed
qed

lemma round_spec:
  assumes "queue_ok q" "clen q = 0"
  obtains q1 where "at_round env mode (q, dlen, w, port) =
      cbind (esp_at_rx_handler response_table env w (if mode = MODE_NOECHO then take RX_BUF_SIZE port else [])) (\<lambda>w1.
        Inr (q1, if mode = MODE_NOECHO then dlen else dlen + min RX_BUF_SIZE (length port), w1, drop RX_BUF_SIZE port))"
    "queue_ok q1" "clen q1 = 0"
proof -
  let ?k = "min (RX_BUF_SIZE - clen q) (length port)"
  obtain q1 where q1: "fill_queue q port = Inr (q1, drop ?k port)" "queue_ok q1" "queued q1 = queued q @ take ?k port" "clen q1 = clen q + ?k"
    by (rule fill_queue_spec [OF assms(1) refl])
  have none: "queued q = []" using assms(2) by (simp add: queued_def)
  have k: "drop ?k port = drop RX_BUF_SIZE port" "take ?k port = take RX_BUF_SIZE port" using assms(2) by (simp_all add: min_def)
  have c: "clen q1 = min RX_BUF_SIZE (length port)" using q1(4) assms(2) by simp
  show ?thesis
  proof (cases "mode = MODE_NOECHO")
    case False
    obtain q2 where q2: "echo_loop q1 dlen = (q2, dlen + clen q1)" "queue_ok q2" "clen q2 = 0" using echo_loop_spec [OF q1(2)] by blast
    with False q1(1) k c that show ?thesis by (simp add: at_round_def)
  next
    case True
    show ?thesis
    proof (cases "clen q1 > 0")
      case True
      obtain q2 where q2: "handle_queue env q1 w = cbind (esp_at_rx_handler response_table env w (queued q1)) (\<lambda>w1. Inr (q2, w1))"
        "queue_ok q2" "clen q2 = 0" by (rule handle_queue_spec [OF q1(2) True])
      have "at_round env mode (q, dlen, w, port) = cbind (esp_at_rx_handler response_table env w (take RX_BUF_SIZE port))
          (\<lambda>w1. Inr (q2, dlen, w1, drop RX_BUF_SIZE port))"
        using \<open>mode = MODE_NOECHO\<close> True q1(1,3) q2(1) k none
        by (cases "esp_at_rx_handler response_table env w (queued q1)") (simp_all add: at_round_def)
      with q2(2,3) \<open>mode = MODE_NOECHO\<close> that show ?thesis by simp
    next
      case empty: False
      then have "port = []" using c by (simp add: RX_BUF_SIZE_def)
      with True q1 empty that k show ?thesis by (simp add: at_round_def)
    qed
  qed
qed

text \<open>What the rounds hand to the driver, and what is left at the port.\<close>

fun passed_on :: "(string \<times> int) list \<Rightarrow> string \<Rightarrow> string" where
  "passed_on [] port = []"
| "passed_on ((a, mode) # rs) port =
    (if mode = MODE_NOECHO then take RX_BUF_SIZE (port @ a) else []) @ passed_on rs (drop RX_BUF_SIZE (port @ a))"

fun left_at_port :: "(string \<times> int) list \<Rightarrow> string \<Rightarrow> string" where
  "left_at_port [] port = port"
| "left_at_port ((a, mode) # rs) port = left_at_port rs (drop RX_BUF_SIZE (port @ a))"

fun echoed :: "(string \<times> int) list \<Rightarrow> string \<Rightarrow> nat" where
  "echoed [] port = 0"
| "echoed ((a, mode) # rs) port =
    (if mode = MODE_NOECHO then 0 else min RX_BUF_SIZE (length (port @ a))) + echoed rs (drop RX_BUF_SIZE (port @ a))"

lemma rounds_spec:
  assumes "queue_ok q" "clen q = 0" "dlen + echoed rs port < 500000"
  shows "\<exists>q1. at_rounds env rs (q, dlen, w, port) = cbind (esp_at_rx_handler response_table env w (passed_on rs port)) (\<lambda>w1.
      Inr (q1, dlen + echoed rs port, w1, left_at_port rs port)) \<and> queue_ok q1 \<and> clen q1 = 0"
  using assms
proof (induction rs arbitrary: q dlen w port)
  case Nil
  then show ?case by auto
next
  case (Cons r rs)
  obtain a mode where r: "r = (a, mode)" by (cases r)
  let ?d = "if mode = MODE_NOECHO then dlen else dlen + min RX_BUF_SIZE (length (port @ a))"
  let ?out = "if mode = MODE_NOECHO then take RX_BUF_SIZE (port @ a) else []"
  obtain q1 where q1: "at_round env mode (q, dlen, w, port @ a) = cbind (esp_at_rx_handler response_table env w ?out) (\<lambda>w1.
      Inr (q1, ?d, w1, drop RX_BUF_SIZE (port @ a)))" "queue_ok q1" "clen q1 = 0"
    by (rule round_spec [OF Cons.prems(1,2)])
  let ?p = "drop RX_BUF_SIZE (port @ a)"
  have lim: "dlen < 500000" "?d + echoed rs ?p < 500000" "?d + echoed rs ?p = dlen + echoed (r # rs) port"
    using Cons.prems(3) r by auto
  show ?case
  proof (cases "esp_at_rx_handler response_table env w ?out")
    case (Inl u)
    then show ?thesis using q1 lim(1) r by (intro exI [of _ q1]) (simp add: rx_handler_append split del: if_split)
  next
    case (Inr w1)
    from Cons.IH [OF q1(2,3) lim(2), of w1] obtain q2 where
      "at_rounds env rs (q1, ?d, w1, ?p) = cbind (esp_at_rx_handler response_table env w1 (passed_on rs ?p)) (\<lambda>w2.
          Inr (q2, dlen + echoed (r # rs) port, w2, left_at_port rs ?p))" "queue_ok q2" "clen q2 = 0" unfolding lim(3) by blast
    with Inr q1(1) lim(1) r show ?thesis
      by (intro exI [of _ q2]) (simp add: rx_handler_append del: echoed.simps split del: if_split)
  qed
qed

lemma left_nothing: "\<forall>(a, mode)\<in>set rs. length a \<le> RX_BUF_SIZE \<Longrightarrow> left_at_port rs [] = []"
  by (induction rs) auto

lemma passed_everything:
  "\<forall>(a, mode)\<in>set rs. mode = MODE_NOECHO \<Longrightarrow> passed_on rs port @ left_at_port rs port = port @ concat (map fst rs)"
proof (induction rs arbitrary: port)
  case (Cons r rs)
  obtain a mode where r: "r = (a, mode)" by (cases r)
  have "passed_on rs (drop RX_BUF_SIZE (port @ a)) @ left_at_port rs (drop RX_BUF_SIZE (port @ a)) =
      drop RX_BUF_SIZE (port @ a) @ concat (map fst rs)" by (rule Cons.IH) (use Cons.prems in simp)
  moreover have "mode = MODE_NOECHO" using Cons.prems r by simp
  ultimately have "passed_on (r # rs) port @ left_at_port (r # rs) port =
      take RX_BUF_SIZE (port @ a) @ drop RX_BUF_SIZE (port @ a) @ concat (map fst rs)"
    by (simp only: r passed_on.simps left_at_port.simps if_True simp_thms append_assoc)
  then show ?case unfolding append_assoc [symmetric] append_take_drop_id by (simp only: r append_assoc list.map fst_conv concat.simps)
qed simp

lemma echoed_nothing: "\<forall>(a, mode)\<in>set rs. mode = MODE_NOECHO \<Longrightarrow> echoed rs port = 0"
  by (induction rs arbitrary: port) auto

lemma init_queue_ok: "queue_ok init_queue" "clen init_queue = 0"
  by (simp_all add: queue_ok_def init_queue_def RX_BUF_SIZE_def)

text \<open>
  Claim C14. With the echo off, what the serial port receives reaches the driver's handler byte for byte and in the
  order it came, whatever the pieces and wherever the ring wraps, one round handing over at most one ring of it; the
  rest waits at the port, and nothing is left there if no piece is longer than the ring.
\<close>

theorem serial_bytes_reach_driver:
  assumes "\<forall>(a, mode)\<in>set rs. mode = MODE_NOECHO"
  shows "\<exists>q given rest. esp_at_task env clock rs =
      cbind (esp_at_rx_handler response_table env (init_esp_at clock) given) (\<lambda>w. Inr (q, 0, w, rest)) \<and>
    given @ rest = concat (map fst rs) \<and> queue_ok q \<and> count_func q = 0 \<and>
    ((\<forall>(a, mode)\<in>set rs. length a \<le> RX_BUF_SIZE) \<longrightarrow> rest = [])"
proof -
  have none: "echoed rs [] = 0" by (rule echoed_nothing [OF assms])
  obtain q where "at_rounds env rs (init_queue, 0, init_esp_at clock, []) =
      cbind (esp_at_rx_handler response_table env (init_esp_at clock) (passed_on rs [])) (\<lambda>w. Inr (q, 0, w, left_at_port rs []))"
    "queue_ok q" "clen q = 0" using rounds_spec [OF init_queue_ok, of 0 rs "[]" env "init_esp_at clock"] none by auto
  then show ?thesis using passed_everything [OF assms, of "[]"] left_nothing [of rs]
    by (intro exI [of _ q] exI [of _ "passed_on rs []"] exI [of _ "left_at_port rs []"]) (simp add: esp_at_task_def count_func_def)
qed

theorem serial_bytes_reach_driver_witness:
  "\<exists>q given rest. esp_at_task plain_env clock_stopped [(''re'', MODE_NOECHO), ([], MODE_NOECHO), (''ady'' @ CRLF, MODE_NOECHO)] =
      cbind (esp_at_rx_handler response_table plain_env (init_esp_at clock_stopped) given) (\<lambda>w. Inr (q, 0, w, rest)) \<and>
    given @ rest = ''ready'' @ CRLF \<and> queue_ok q \<and> count_func q = 0 \<and> rest = []"
  using serial_bytes_reach_driver [of "[(''re'', MODE_NOECHO), ([], MODE_NOECHO), (''ady'' @ CRLF, MODE_NOECHO)]" plain_env clock_stopped]
  by (simp add: RX_BUF_SIZE_def)

text \<open>A round in an echo mode prints what came and hands nothing to the driver.\<close>

lemma echo_rounds:
  assumes "queue_ok q" "clen q = 0" "\<forall>(a, mode)\<in>set rs. mode \<noteq> MODE_NOECHO \<and> length a \<le> RX_BUF_SIZE"
    "dlen + length (concat (map fst rs)) \<ge> 500000"
  shows "\<exists>q1 d rest. at_rounds env (rs @ later) (q, dlen, w, []) = Inr (q1, d, w, rest)"
  using assms
proof (induction rs arbitrary: q dlen)
  case Nil
  then show ?case by (cases later) auto
next
  case (Cons r rs)
  obtain a mode where r: "r = (a, mode)" by (cases r)
  then have a: "mode \<noteq> MODE_NOECHO" "length a \<le> RX_BUF_SIZE" using Cons.prems(3) by simp_all
  show ?case
  proof (cases "dlen < 500000")
    case False
    with r show ?thesis by simp
  next
    case True
    obtain q1 where q1: "at_round env mode (q, dlen, w, [] @ a) = cbind (esp_at_rx_handler response_table env w [])
        (\<lambda>w1. Inr (q1, dlen + length a, w1, []))" "queue_ok q1" "clen q1 = 0"
      by (rule round_spec [OF Cons.prems(1,2), where mode = mode and port = "[] @ a" and env = env and dlen = dlen and w = w])
        (use a in simp)
    have "\<exists>q2 d rest. at_rounds env (rs @ later) (q1, dlen + length a, w, []) = Inr (q2, d, w, rest)"
      by (rule Cons.IH [OF q1(2,3)]) (use Cons.prems(3,4) r in simp_all)
    with True q1(1) r show ?thesis by simp
  qed
qed

text \<open>
  An echo mode takes the driver's input away: the bytes are printed and the handler never sees them, and once
  500,000 of them have been printed the task's loop is over, so that nothing that arrives later reaches the driver,
  in whatever mode.
\<close>

theorem echo_ends_task:
  assumes "\<forall>(a, mode)\<in>set rs. mode \<noteq> MODE_NOECHO \<and> length a \<le> RX_BUF_SIZE" "500000 \<le> length (concat (map fst rs))"
  shows "\<exists>q d rest. esp_at_task env clock (rs @ later) = Inr (q, d, init_esp_at clock, rest)"
  using echo_rounds [OF init_queue_ok assms(1), of 0] assms(2) unfolding esp_at_task_def by simp

theorem echo_ends_task_witness:
  "\<exists>q d rest. esp_at_task plain_env clock_stopped (replicate 500 (replicate 1000 (CHR ''x''), MODE_ECHO_CHAR) @ [(''ready'' @ CRLF, MODE_NOECHO)])
    = Inr (q, d, init_esp_at clock_stopped, rest)"
  by (rule echo_ends_task)
    (simp_all add: MODE_ECHO_CHAR_def MODE_NOECHO_def RX_BUF_SIZE_def length_concat map_replicate_const sum_list_replicate)

section \<open>The AT command\<close>

definition capital :: "char \<Rightarrow> char" where
  "capital c = (if islower c then char_of (code c - 32) else c)"

text \<open>The characters of a text, in capitals where an even number of quotation marks is behind them.\<close>

definition capitals :: "bool \<Rightarrow> string \<Rightarrow> string" where
  "capitals caps s = map (\<lambda>k. if caps = even (length (filter ((=) DQUOTE) (take (Suc k) s))) then capital (s ! k) else s ! k) [0..<length s]"

lemma capitals_Nil [simp]: "capitals caps [] = []"
  by (simp add: capitals_def)

lemma capitals_Cons:
  "capitals caps (c # s) = (let caps1 = (if c = DQUOTE then \<not> caps else caps) in (if caps1 then capital c else c) # capitals caps1 s)"
  by (simp add: capitals_def upt_conv_Cons map_Suc_upt [symmetric] del: upt_Suc)

lemma copy_arg_capitals:
  "copy_arg caps a = (caps = even (length (filter ((=) DQUOTE) a)), capitals caps a)"
  by (induction caps a rule: copy_arg.induct) (auto simp: Let_def capitals_Cons capital_def)

lemma capitals_append:
  "capitals caps (a @ b) = capitals caps a @ capitals (caps = even (length (filter ((=) DQUOTE) a))) b"
proof -
  have "((\<not> x) = y) = (x = (\<not> y))" for x y by auto
  then show ?thesis by (induction a arbitrary: caps) (auto simp: capitals_Cons Let_def)
qed

lemma copy_args_capitals: "copy_args caps args = capitals caps (concat (map ((#) (CHR ''+'')) args))"
  by (induction caps args rule: copy_args.induct)
    (simp_all add: copy_arg_capitals capitals_append capitals_Cons capital_def islower_def code_def)

text \<open>
  The AT command of the shell: the arguments, each behind a plus sign, in capitals except between quotation
  marks (which may span arguments), after \<open>AT\<close> and before CR LF, are written to the serial port in one
  piece; a text that does not fit into \<open>aTxBuffer\<close> with its NUL is written over the end of it.
\<close>

theorem at_command_sent:
  "at_func env (cmd # args) l =
    (let joined = concat (map ((#) (CHR ''+'')) args)
     in if length joined + 4 < TX_BUF_SIZE then
          (let (r, l1) = serial_wri_dat env l (''AT'' @ capitals True joined @ CRLF) in Inr (length joined + 4, r, l1))
        else Inl Buffer_overflow)"
proof -
  let ?joined = "concat (map ((#) (CHR ''+'')) args)"
  have len: "(\<Sum>a\<leftarrow>args. 1 + length a) = length ?joined" by (induction args) auto
  have caps: "(if BASE_CMD_LEN + length ?joined > BASE_CMD_LEN then copy_args True args else []) = capitals True ?joined"
    by (cases args) (simp_all add: copy_args_capitals)
  have "length (capitals True ?joined) = length ?joined" by (simp add: capitals_def)
  then show ?thesis unfolding at_func_def list.sel len Let_def caps by (simp add: strcpy_into_def BASE_CMD_LEN_def add.commute)
qed

end
