(* ===== verification/Env_Cmd.thy ===== *)
theory Env_Cmd
  imports At_Task
begin

text \<open>
  The shell commands that set the proxy, the connection string and the access point
  (\<open>app_iothub_client/src/envcmd.c\<close>).  A pointer into the text of the proxy is an offset; the four
  strings of the proxy options lie in one block of storage, and a pointer to one is its offset there.
\<close>

section \<open>Reading the proxy's text\<close>

datatype proxy_parse_state_t =
    proxy_parse_state_schema | proxy_parse_state_colonslash | proxy_parse_state_colonslashslash
  | proxy_parse_state_username | proxy_parse_state_password | proxy_parse_state_address
  | proxy_parse_state_port | proxy_parse_state_error

type_synonym piece = "nat option \<times> int"

record proxy_parse =
  pp_state :: proxy_parse_state_t
  p_schema :: piece
  p_username :: piece
  p_password :: piece
  p_address :: piece
  p_port :: piece

text \<open>\<open>(int)pos - (int)start\<close>; a start of NULL would be address 0, but never is one.\<close>

definition ended :: "nat \<Rightarrow> piece \<Rightarrow> piece" where
  "ended pos x = (fst x, int pos - (case fst x of Some s \<Rightarrow> int s | None \<Rightarrow> 0))"

abbreviation nothing :: piece where "nothing \<equiv> (None, 0)"
abbreviation from_here :: "nat \<Rightarrow> piece" where "from_here s \<equiv> (Some s, 0)"

definition in_password :: "nat \<Rightarrow> char \<Rightarrow> proxy_parse \<Rightarrow> proxy_parse" where
  "in_password pos c p =
    (if c = CHR ''@'' then
       p\<lparr>p_password := ended pos (p_password p), p_address := from_here (pos + 1), pp_state := proxy_parse_state_address\<rparr>
     else p)"

definition parse_char :: "nat \<Rightarrow> char \<Rightarrow> proxy_parse \<Rightarrow> proxy_parse" where
  "parse_char pos c p =
    (case pp_state p of
      proxy_parse_state_schema \<Rightarrow>
        (if c = CHR '':'' then
           p\<lparr>p_schema := ended pos (p_schema p), p_username := (Some (pos + 3), snd (p_username p)),
             pp_state := proxy_parse_state_colonslash\<rparr>
         else p)
    | proxy_parse_state_colonslash \<Rightarrow>
        (if c = CHR ''/'' then p\<lparr>pp_state := proxy_parse_state_colonslashslash\<rparr>
         else in_password pos c
           (p\<lparr>p_username := p_schema p, p_schema := nothing, p_password := (Some pos, snd (p_password p)),
             pp_state := proxy_parse_state_password\<rparr>))
    | proxy_parse_state_colonslashslash \<Rightarrow>
        (if c = CHR ''/'' then p\<lparr>pp_state := proxy_parse_state_username\<rparr>
         else p\<lparr>pp_state := proxy_parse_state_error\<rparr>)
    | proxy_parse_state_username \<Rightarrow>
        (if c = CHR '':'' then
           p\<lparr>p_username := ended pos (p_username p), p_password := (Some (pos + 1), snd (p_password p)),
             pp_state := proxy_parse_state_password\<rparr>
         else if c = CHR ''@'' then
           p\<lparr>p_username := ended pos (p_username p), p_address := (Some (pos + 1), snd (p_address p)),
             pp_state := proxy_parse_state_address\<rparr>
         else p)
    | proxy_parse_state_password \<Rightarrow> in_password pos c p
    | proxy_parse_state_address \<Rightarrow>
        (if c = CHR '':'' then
           p\<lparr>p_address := ended pos (p_address p), p_port := (Some (pos + 1), snd (p_port p)),
             pp_state := proxy_parse_state_port\<rparr>
         else p)
    | proxy_parse_state_port \<Rightarrow>
        (if code c < code (CHR ''0'') \<and> code c > code (CHR ''9'') then p\<lparr>pp_state := proxy_parse_state_error\<rparr> else p)
    | proxy_parse_state_error \<Rightarrow> p)"

fun parse_loop :: "nat \<Rightarrow> string \<Rightarrow> proxy_parse \<Rightarrow> nat \<times> proxy_parse" where
  "parse_loop pos [] p = (pos, p)"
| "parse_loop pos (c # cs) p =
    (let p1 = parse_char pos c p
     in if pp_state p1 = proxy_parse_state_error then (pos, p1) else parse_loop (pos + 1) cs p1)"

text \<open>What the end of the text means in each state; None is \<open>goto error\<close>.\<close>

definition parse_end :: "nat \<Rightarrow> proxy_parse \<Rightarrow> proxy_parse option" where
  "parse_end pos p =
    (case pp_state p of
      proxy_parse_state_username \<Rightarrow>
        (let u = ended pos (p_username p) in Some (p\<lparr>p_address := u, p_username := nothing\<rparr>))
    | proxy_parse_state_password \<Rightarrow>
        (let w = ended pos (p_password p)
         in Some (p\<lparr>p_address := p_username p, p_username := nothing, p_port := w, p_password := nothing\<rparr>))
    | proxy_parse_state_address \<Rightarrow> Some (p\<lparr>p_address := ended pos (p_address p)\<rparr>)
    | proxy_parse_state_port \<Rightarrow> Some (p\<lparr>p_port := ended pos (p_port p)\<rparr>)
    | _ \<Rightarrow> None)"

definition parse_start :: proxy_parse where
  "parse_start = \<lparr>pp_state = proxy_parse_state_schema, p_schema = from_here 0, p_username = nothing, p_password = nothing,
    p_address = nothing, p_port = nothing\<rparr>"

definition parse_proxy :: "string \<Rightarrow> proxy_parse option" where
  "parse_proxy input = (let (pos, p) = parse_loop 0 input parse_start in parse_end pos p)"

section \<open>Setting the proxy\<close>

record HTTP_PROXY_OPTIONS =
  storage :: string
  proxy_host_address :: "nat option"
  proxy_port :: int
  proxy_username :: "nat option"
  proxy_password :: "nat option"

definition no_proxy :: HTTP_PROXY_OPTIONS where
  "no_proxy = \<lparr>storage = [], proxy_host_address = None, proxy_port = 0, proxy_username = None, proxy_password = None\<rparr>"

text \<open>A C string that starts at an offset of a block.\<close>

definition string_at :: "string \<Rightarrow> nat \<Rightarrow> string outcome" where
  "string_at b i = (if NUL \<in> set (drop i b) then Inr (takeWhile (\<lambda>c. c \<noteq> NUL) (drop i b)) else Inl Unterminated_string)"

text \<open>\<open>strncmp(a, b, n) == 0\<close>\<close>

fun strncmp_eq :: "nat \<Rightarrow> string \<Rightarrow> string \<Rightarrow> bool" where
  "strncmp_eq 0 a b = True"
| "strncmp_eq (Suc n) (c # a) (d # b) = (c = d \<and> strncmp_eq n a b)"
| "strncmp_eq (Suc n) a b = (a = [] \<and> b = [])"

text \<open>\<open>atoi\<close>: a value that is no \<open>int\<close> is undefined.\<close>

definition atoi :: "string \<Rightarrow> int outcome" where
  "atoi s =
    (let s1 = dropWhile isspace s;
         (neg, s2) = (case s1 of [] \<Rightarrow> (False, [])
           | c # r \<Rightarrow> (if c = CHR ''-'' then (True, r) else if c = CHR ''+'' then (False, r) else (False, s1)));
         v = scan_digits 0 (takeWhile isdigit s2);
         n = (if neg then - v else v)
     in if int_ok n then Inr n else Inl Signed_overflow)"

text \<open>A piece of the text is copied into the block, with a NUL behind it.\<close>

definition put_piece :: "string \<Rightarrow> piece \<Rightarrow> int \<Rightarrow> string \<Rightarrow> string outcome" where
  "put_piece input x i b =
    (if snd x = 0 then put_chars b (nat i) [NUL]
     else case fst x of
       None \<Rightarrow> Inl Null_pointer
     | Some s \<Rightarrow>
         (if snd x < 0 \<or> int s + snd x > int (length input) + 1 then Inl Read_past_end
          else put_chars b (nat i) (take (nat (snd x)) (drop s input) @ [NUL])))"

text \<open>The answer of \<open>malloc\<close>: whether there is storage, and what is in it.\<close>

type_synonym fresh = "bool \<times> (nat \<Rightarrow> char)"

definition set_proxy :: "fresh \<Rightarrow> string \<Rightarrow> HTTP_PROXY_OPTIONS \<Rightarrow> (int \<times> HTTP_PROXY_OPTIONS) outcome" where
  "set_proxy m input opts =
    (case parse_proxy input of
      None \<Rightarrow> Inr (- 1, opts)
    | Some p \<Rightarrow>
        (let (address, address_len) = p_address p; port_len = snd (p_port p);
             username_len = snd (p_username p); password_len = snd (p_password p)
         in if snd (p_schema p) > 0 \<and> \<not> strncmp_eq (nat (snd (p_schema p))) (drop (the (fst (p_schema p))) input) ''http'' then Inr (- 1, opts)
            else if address_len = 0 then Inr (- 1, opts)
            else if \<not> fst m then Inr (- 1, opts)
            else
              (let b = map (snd m) [0..<nat (address_len + port_len + username_len + password_len + 4)];
                   port_at = address_len + 1; username_at = port_at + port_len + 1; password_at = username_at + username_len + 1
               in cbind (put_piece input (p_address p) 0 b) (\<lambda>b1.
                  cbind (put_piece input (p_port p) port_at b1) (\<lambda>b2.
                  cbind (if port_len = 0 then Inr 8080 else cbind (string_at b2 (nat port_at)) atoi) (\<lambda>port.
                  cbind (put_piece input (p_username p) username_at b2) (\<lambda>b3.
                  cbind (put_piece input (p_password p) password_at b3) (\<lambda>b4.
                    let anyone = (\<lambda>i. if username_len = 0 \<and> password_len = 0 then None else Some (nat i))
                    in Inr (0, \<lparr>storage = b4, proxy_host_address = Some 0, proxy_port = port,
                         proxy_username = anyone username_at, proxy_password = anyone password_at\<rparr>)))))))))"

section \<open>The commands\<close>

record env_vars =
  g_use_proxy :: bool
  g_proxy_options :: HTTP_PROXY_OPTIONS
  connectionString :: "string option"

text \<open>What \<open>%s\<close> prints of a pointer into the block.\<close>

definition field_text :: "HTTP_PROXY_OPTIONS \<Rightarrow> nat option \<Rightarrow> string outcome" where
  "field_text opts x = (case x of None \<Rightarrow> Inl Null_pointer | Some i \<Rightarrow> string_at (storage opts) i)"

definition show_proxy :: "HTTP_PROXY_OPTIONS \<Rightarrow> string outcome" where
  "show_proxy opts =
    (if proxy_username opts \<noteq> None then
       cbind (field_text opts (proxy_username opts)) (\<lambda>u.
       cbind (field_text opts (proxy_password opts)) (\<lambda>w.
       cbind (field_text opts (proxy_host_address opts)) (\<lambda>h.
         Inr (''HTTP_PROXY=http://'' @ u @ '':'' @ w @ ''@'' @ h @ '':'' @ dec_int (proxy_port opts) @ [LF]))))
     else if proxy_host_address opts \<noteq> None then
       cbind (field_text opts (proxy_host_address opts)) (\<lambda>h.
         Inr (''HTTP_PROXY=http://'' @ h @ '':'' @ dec_int (proxy_port opts) @ [LF]))
     else Inr (''HTTP_PROXY='' @ [LF]))"

text \<open>The commands give what they print about their subject and the variables.\<close>

definition set_proxy_main :: "fresh \<Rightarrow> string list \<Rightarrow> env_vars \<Rightarrow> (string \<times> env_vars) outcome" where
  "set_proxy_main m argv v =
    (if length argv < 2 then cbind (show_proxy (g_proxy_options v)) (\<lambda>out. Inr (out, v))
     else cbind (set_proxy m (argv ! 1) (g_proxy_options v)) (\<lambda>(result, opts).
       Inr ([], v\<lparr>g_proxy_options := opts, g_use_proxy := (result = 0)\<rparr>)))"

definition clear_proxy_main :: "env_vars \<Rightarrow> env_vars" where
  "clear_proxy_main v = v\<lparr>g_proxy_options := no_proxy, g_use_proxy := False\<rparr>"

definition set_cs_main :: "bool \<Rightarrow> string list \<Rightarrow> env_vars \<Rightarrow> int \<times> env_vars" where
  "set_cs_main has_memory argv v =
    (if length argv < 2 then (0, v)
     else if length (argv ! 1) < 70 then (0, v)
     else if \<not> has_memory then (1, v)
     else (0, v\<lparr>connectionString := Some (argv ! 1)\<rparr>))"

text \<open>\<open>set_ssid_pwd\<close> copies both names; a copy may fail.\<close>

definition set_wifi_main :: "esp_env \<Rightarrow> bool \<times> bool \<Rightarrow> string list \<Rightarrow> link \<Rightarrow> (int \<times> link) outcome option" where
  "set_wifi_main env dup argv l =
    (if length argv < 3 then Some (Inr (0, l))
     else case prepare_esp_at env (set_ssid_pwd (if fst dup then Some (argv ! 1) else None)
         (if snd dup then Some (argv ! 2) else None) (fst l), snd l) of
       None \<Rightarrow> None
     | Some (Inl u) \<Rightarrow> Some (Inl u)
     | Some (Inr (ok, w, cs)) \<Rightarrow> Some (Inr (0, w\<lparr>use_wifi := if ok then 1 else 0\<rparr>, cs)))"

section \<open>Pieces of the text\<close>

definition piece_ok :: "nat \<Rightarrow> piece \<Rightarrow> bool" where
  "piece_ok n x \<longleftrightarrow> (case fst x of None \<Rightarrow> snd x = 0 | Some s \<Rightarrow> 0 \<le> snd x \<and> (snd x = 0 \<or> int s + snd x \<le> int n))"

definition piece_text :: "string \<Rightarrow> piece \<Rightarrow> string" where
  "piece_text input x = (case fst x of None \<Rightarrow> [] | Some s \<Rightarrow> take (nat (snd x)) (drop s input))"

lemma piece_text_length: "piece_ok (length input) x \<Longrightarrow> int (length (piece_text input x)) = snd x"
  by (auto simp: piece_ok_def piece_text_def split: option.splits)

lemma put_piece_spec:
  assumes "piece_ok (length input) x" "length (piece_text input x) < length junk" "i = int (length pre)"
  shows "put_piece input x i (pre @ junk) = Inr ((pre @ piece_text input x @ [NUL]) @ drop (Suc (length (piece_text input x))) junk)"
proof (cases "snd x = 0")
  case True
  then have "piece_text input x = []" by (simp add: piece_text_def split: option.splits)
  with True assms(2,3) show ?thesis by (cases junk) (simp_all add: put_piece_def put_chars_def)
next
  case False
  then obtain s where s: "fst x = Some s" "0 < snd x" "int s + snd x \<le> int (length input)"
    using assms(1) by (auto simp: piece_ok_def split: option.splits)
  then have t: "piece_text input x = take (nat (snd x)) (drop s input)" by (simp add: piece_text_def)
  have "put_piece input x i (pre @ junk) = put_chars (pre @ junk) (length pre) (piece_text input x @ [NUL])"
    using s False assms(3) t by (simp add: put_piece_def)
  also have "\<dots> = Inr ((pre @ piece_text input x @ [NUL]) @ drop (Suc (length (piece_text input x))) junk)"
    using assms(2) by (simp add: put_chars_def)
  finally show ?thesis .
qed

lemma string_at_text: "NUL \<notin> set t \<Longrightarrow> i = length pre \<Longrightarrow> string_at (pre @ t @ [NUL] @ rest) i = Inr t"
  by (simp add: string_at_def takeWhile_neq_append)

text \<open>The block that \<open>set_proxy\<close> builds.\<close>

definition proxy_block :: "string \<Rightarrow> proxy_parse \<Rightarrow> string" where
  "proxy_block input p = piece_text input (p_address p) @ [NUL] @ piece_text input (p_port p) @ [NUL] @
    piece_text input (p_username p) @ [NUL] @ piece_text input (p_password p) @ [NUL]"

definition port_value :: "string \<Rightarrow> int outcome" where
  "port_value t = (if t = [] then Inr 8080 else atoi t)"

definition built :: "string \<Rightarrow> proxy_parse \<Rightarrow> int \<Rightarrow> HTTP_PROXY_OPTIONS" where
  "built input p port =
    (let ha = length (piece_text input (p_address p)); hp = length (piece_text input (p_port p));
         hu = length (piece_text input (p_username p)); hw = length (piece_text input (p_password p));
         anyone = (\<lambda>i. if hu = 0 \<and> hw = 0 then None else Some i)
     in \<lparr>storage = proxy_block input p, proxy_host_address = Some 0, proxy_port = port,
          proxy_username = anyone (ha + hp + 2), proxy_password = anyone (ha + hp + hu + 3)\<rparr>)"

definition pieces_ok :: "nat \<Rightarrow> proxy_parse \<Rightarrow> bool" where
  "pieces_ok n p \<longleftrightarrow> piece_ok n (p_schema p) \<and> piece_ok n (p_address p) \<and> piece_ok n (p_port p) \<and> piece_ok n (p_username p) \<and>
    piece_ok n (p_password p)"

text \<open>\<open>http\<close> or a beginning of it\<close>

definition schema_ok :: "string \<Rightarrow> proxy_parse \<Rightarrow> bool" where
  "schema_ok input p \<longleftrightarrow>
    (snd (p_schema p) > 0 \<longrightarrow> strncmp_eq (nat (snd (p_schema p))) (drop (the (fst (p_schema p))) input) ''http'')"

lemma set_proxy_spec:
  assumes "parse_proxy input = Some p" "pieces_ok (length input) p" "NUL \<notin> set input"
  shows "set_proxy m input opts =
    (if schema_ok input p \<and> piece_text input (p_address p) \<noteq> [] \<and> fst m then
       cbind (port_value (piece_text input (p_port p))) (\<lambda>n. Inr (0, built input p n))
     else Inr (- 1, opts))"
proof -
  let ?A = "piece_text input (p_address p)" and ?P = "piece_text input (p_port p)"
  let ?U = "piece_text input (p_username p)" and ?W = "piece_text input (p_password p)"
  have ok: "piece_ok (length input) (p_address p)" "piece_ok (length input) (p_port p)" "piece_ok (length input) (p_username p)"
    "piece_ok (length input) (p_password p)" using assms(2) by (simp_all add: pieces_ok_def)
  note len = ok [THEN piece_text_length, symmetric]
  let ?n = "length ?A + length ?P + length ?U + length ?W + 4"
  let ?b = "map (snd m) [0..<?n]"
  have b: "length ?b = ?n" by simp
  define j1 j2 j3 where "j1 = drop (Suc (length ?A)) ?b" and "j2 = drop (Suc (length ?P)) j1" and "j3 = drop (Suc (length ?U)) j2"
  have jl: "length j1 = length ?P + length ?U + length ?W + 3" "length j2 = length ?U + length ?W + 2" "length j3 = length ?W + 1"
    by (simp_all add: j1_def j2_def j3_def)
  have p1: "put_piece input (p_address p) 0 ?b = Inr ((?A @ [NUL]) @ j1)"
    using put_piece_spec [OF ok(1), of ?b 0 "[]"] b by (simp add: j1_def)
  have p2: "put_piece input (p_port p) (int (length ?A) + 1) ((?A @ [NUL]) @ j1) = Inr ((?A @ [NUL] @ ?P @ [NUL]) @ j2)"
    using put_piece_spec [OF ok(2), of j1 "int (length ?A) + 1" "?A @ [NUL]"] jl by (simp add: j2_def)
  have p3: "put_piece input (p_username p) (int (length ?A) + 1 + int (length ?P) + 1) ((?A @ [NUL] @ ?P @ [NUL]) @ j2) =
      Inr ((?A @ [NUL] @ ?P @ [NUL] @ ?U @ [NUL]) @ j3)"
    using put_piece_spec [OF ok(3), of j2 "int (length ?A) + 1 + int (length ?P) + 1" "?A @ [NUL] @ ?P @ [NUL]"] jl by (simp add: j3_def)
  have p4: "put_piece input (p_password p) (int (length ?A) + 1 + int (length ?P) + 1 + int (length ?U) + 1)
      ((?A @ [NUL] @ ?P @ [NUL] @ ?U @ [NUL]) @ j3) = Inr (proxy_block input p)"
    using put_piece_spec [OF ok(4), of j3 "int (length ?A) + 1 + int (length ?P) + 1 + int (length ?U) + 1" "?A @ [NUL] @ ?P @ [NUL] @ ?U @ [NUL]"] jl
    by (simp add: proxy_block_def)
  have "NUL \<notin> set ?P"
    using assms(3) set_take_subset set_drop_subset by (fastforce simp: piece_text_def split: option.splits)
  then have port: "string_at ((?A @ [NUL] @ ?P @ [NUL]) @ j2) (nat (int (length ?A) + 1)) = Inr ?P"
    using string_at_text [of ?P "nat (int (length ?A) + 1)" "?A @ [NUL]" j2] by (simp add: nat_add_distrib)
  have n: "nat (int (length ?A) + int (length ?P) + int (length ?U) + int (length ?W) + 4) = ?n" by simp
  show ?thesis
  proof (cases "schema_ok input p \<and> ?A \<noteq> [] \<and> fst m")
    case False
    then show ?thesis using assms(1) len(1) by (auto simp: set_proxy_def schema_ok_def case_prod_unfold Let_def)
  next
    case True
    then have g: "\<not> (snd (p_schema p) > 0 \<and> \<not> strncmp_eq (nat (snd (p_schema p))) (drop (the (fst (p_schema p))) input) ''http'')"
      "int (length ?A) \<noteq> 0" "fst m" by (auto simp: schema_ok_def)
    have at: "nat (int (length ?A) + 1 + int (length ?P) + 1) = length ?A + length ?P + 2"
      "nat (int (length ?A) + 1 + int (length ?P) + 1 + int (length ?U) + 1) = length ?A + length ?P + length ?U + 3" by simp_all
    have "set_proxy m input opts = cbind (if int (length ?P) = 0 then Inr 8080 else atoi ?P) (\<lambda>n. Inr (0, built input p n))"
      unfolding set_proxy_def assms(1)
      by (simp only: option.case Let_def case_prod_unfold len n p1 p2 p3 p4 port at g cbind_simps if_True if_False simp_thms)
        (simp add: built_def Let_def)
    with True show ?thesis by (simp add: port_value_def)
  qed
qed

section \<open>The parser stays inside the text\<close>

definition started :: "nat \<Rightarrow> piece \<Rightarrow> bool" where
  "started k x \<longleftrightarrow> (\<exists>s. fst x = Some s \<and> s \<le> k)"

definition parse_ok :: "nat \<Rightarrow> proxy_parse \<Rightarrow> bool" where
  "parse_ok k p \<longleftrightarrow> pieces_ok k p \<and>
    (case pp_state p of
      proxy_parse_state_schema \<Rightarrow> started k (p_schema p) \<and> snd (p_username p) = 0 \<and> snd (p_password p) = 0 \<and> snd (p_address p) = 0 \<and> snd (p_port p) = 0
    | proxy_parse_state_colonslash \<Rightarrow> started (k + 2) (p_username p) \<and> snd (p_password p) = 0 \<and> snd (p_address p) = 0 \<and> snd (p_port p) = 0
    | proxy_parse_state_colonslashslash \<Rightarrow> started (k + 1) (p_username p) \<and> snd (p_password p) = 0 \<and> snd (p_address p) = 0 \<and> snd (p_port p) = 0
    | proxy_parse_state_username \<Rightarrow> started k (p_username p) \<and> snd (p_password p) = 0 \<and> snd (p_address p) = 0 \<and> snd (p_port p) = 0
    | proxy_parse_state_password \<Rightarrow> started k (p_password p) \<and> snd (p_address p) = 0 \<and> snd (p_port p) = 0
    | proxy_parse_state_address \<Rightarrow> started k (p_address p) \<and> snd (p_port p) = 0
    | proxy_parse_state_port \<Rightarrow> started k (p_port p)
    | proxy_parse_state_error \<Rightarrow> True)"

lemma piece_ok_mono: "piece_ok k x \<Longrightarrow> k \<le> n \<Longrightarrow> piece_ok n x"
  by (auto simp: piece_ok_def split: option.splits)

lemma started_mono: "started k x \<Longrightarrow> k \<le> n \<Longrightarrow> started n x"
  by (auto simp: started_def)

lemma ended_ok: "started k x \<Longrightarrow> piece_ok (Suc k) (ended k x)" "started k x \<Longrightarrow> piece_ok k (ended k x)"
  by (auto simp: started_def ended_def piece_ok_def)

lemma new_piece [simp]: "piece_ok k (Some s, 0)" "piece_ok k nothing" "started k (Some s, n) \<longleftrightarrow> s \<le> k"
  by (auto simp: piece_ok_def started_def)

lemma in_password_ok:
  assumes "parse_ok k p" "pp_state p = proxy_parse_state_password"
  shows "parse_ok (Suc k) (in_password k c p)"
  using assms piece_ok_mono [of k _ "Suc k"] started_mono [of k _ "Suc k"] ended_ok
  by (auto simp: parse_ok_def pieces_ok_def in_password_def)

lemma parse_char_ok:
  assumes "parse_ok k p"
  shows "parse_ok (Suc k) (parse_char k c p)"
proof (cases "pp_state p")
  case proxy_parse_state_colonslash
  show ?thesis
  proof (cases "c = CHR ''/''")
    case True
    with assms proxy_parse_state_colonslash show ?thesis using piece_ok_mono [of k _ "Suc k"]
      by (auto simp: parse_ok_def pieces_ok_def parse_char_def started_def)
  next
    case False
    let ?p = "p\<lparr>p_username := p_schema p, p_schema := nothing, p_password := (Some k, snd (p_password p)), pp_state := proxy_parse_state_password\<rparr>"
    have "parse_ok k ?p" using assms proxy_parse_state_colonslash by (auto simp: parse_ok_def pieces_ok_def)
    then have "parse_ok (Suc k) (in_password k c ?p)" by (rule in_password_ok) simp
    with False proxy_parse_state_colonslash show ?thesis by (simp add: parse_char_def)
  qed
next
  case proxy_parse_state_password
  with in_password_ok [OF assms this] show ?thesis by (simp add: parse_char_def)
qed (use assms piece_ok_mono [of k _ "Suc k"] started_mono [of k _ "Suc k"] ended_ok in
  \<open>auto simp: parse_ok_def pieces_ok_def parse_char_def started_def\<close>)

lemma parse_loop_ok: "parse_ok k p \<Longrightarrow> parse_loop k cs p = (n, p1) \<Longrightarrow> parse_ok n p1 \<or> pp_state p1 = proxy_parse_state_error"
proof (induction k cs p arbitrary: n p1 rule: parse_loop.induct)
  case (2 pos c cs p)
  then show ?case using parse_char_ok [OF 2(2), of c] by (auto simp: Let_def split: if_splits)
qed simp

lemma parse_loop_pos: "parse_loop k cs p = (n, p1) \<Longrightarrow> n \<le> k + length cs"
proof (induction k cs p arbitrary: n p1 rule: parse_loop.induct)
  case (2 pos c cs p)
  show ?case
  proof (cases "pp_state (parse_char pos c p) = proxy_parse_state_error")
    case False
    with 2(2) have "parse_loop (pos + 1) cs (parse_char pos c p) = (n, p1)" by (simp add: Let_def)
    from 2(1) [OF refl False this] show ?thesis by simp
  qed (use 2(2) in \<open>simp add: Let_def\<close>)
qed simp

lemma parse_proxy_ok:
  assumes "parse_proxy input = Some p"
  shows "pieces_ok (length input) p"
proof -
  obtain n p1 where p1: "parse_loop 0 input parse_start = (n, p1)" "parse_end n p1 = Some p"
    using assms by (auto simp: parse_proxy_def split: prod.splits)
  have "parse_ok 0 parse_start" by (simp add: parse_ok_def pieces_ok_def parse_start_def)
  from parse_loop_ok [OF this p1(1)] p1(2) have "pieces_ok n p"
    by (auto simp: parse_end_def parse_ok_def pieces_ok_def Let_def intro: ended_ok(2) split: proxy_parse_state_t.splits)
  moreover have "n \<le> length input" using parse_loop_pos [OF p1(1)] by simp
  ultimately show ?thesis by (auto simp: pieces_ok_def intro: piece_ok_mono)
qed

text \<open>
  Claim C21. Whatever text a shell user gives, \<open>set_proxy\<close> reads only inside it and writes only inside the block it
  allocates; the one thing that can go wrong is a port number that is no \<open>int\<close>.  A refusal changes nothing.
\<close>

theorem set_proxy_safe:
  assumes "NUL \<notin> set input"
  shows "case set_proxy m input opts of Inl u \<Rightarrow> u = Signed_overflow | Inr (r, opts') \<Rightarrow> r = 0 \<or> r = - 1 \<and> opts' = opts"
proof (cases "parse_proxy input")
  case None
  then show ?thesis by (simp add: set_proxy_def)
next
  case (Some p)
  have "port_value t = Inl u \<Longrightarrow> u = Signed_overflow" for t u
    by (auto simp: port_value_def atoi_def Let_def split: if_splits prod.splits)
  then show ?thesis unfolding set_proxy_spec [OF Some parse_proxy_ok [OF Some] assms]
    by (cases "port_value (piece_text input (p_port p))") auto
qed

theorem set_proxy_safe_witness:
  "case set_proxy (True, \<lambda>_. CHR ''x'') ''http://a:b:c@:@x:99999999999'' no_proxy of
     Inl u \<Rightarrow> u = Signed_overflow | Inr (r, opts') \<Rightarrow> r = 0 \<or> r = - 1 \<and> opts' = no_proxy"
  by (rule set_proxy_safe) simp

section \<open>The text of the options\<close>

definition proxy_text :: "(string \<times> string) option \<Rightarrow> string \<Rightarrow> int \<Rightarrow> string" where
  "proxy_text user h n = ''http://'' @ (case user of Some (u, w) \<Rightarrow> u @ '':'' @ w @ ''@'' | None \<Rightarrow> []) @ h @ '':'' @ dec_int n"

lemma loop_still:
  assumes "\<forall>c\<in>set a. \<forall>k. parse_char k c p = p" "pp_state p \<noteq> proxy_parse_state_error"
  shows "parse_loop k (a @ b) p = parse_loop (k + length a) b p"
  using assms(1) by (induction a arbitrary: k) (simp_all add: assms(2))

lemma loop_skips:
  "pp_state p = proxy_parse_state_schema \<Longrightarrow> CHR '':'' \<notin> set a \<Longrightarrow> parse_loop k (a @ b) p = parse_loop (k + length a) b p"
  "pp_state p = proxy_parse_state_username \<Longrightarrow> CHR '':'' \<notin> set a \<Longrightarrow> CHR ''@'' \<notin> set a \<Longrightarrow>
    parse_loop k (a @ b) p = parse_loop (k + length a) b p"
  "pp_state p = proxy_parse_state_password \<Longrightarrow> CHR ''@'' \<notin> set a \<Longrightarrow> parse_loop k (a @ b) p = parse_loop (k + length a) b p"
  "pp_state p = proxy_parse_state_address \<Longrightarrow> CHR '':'' \<notin> set a \<Longrightarrow> parse_loop k (a @ b) p = parse_loop (k + length a) b p"
  by (rule loop_still; force simp: parse_char_def in_password_def)+

lemma loop_ends:
  "pp_state p = proxy_parse_state_port \<Longrightarrow> parse_loop k a p = (k + length a, p)"
  "pp_state p = proxy_parse_state_password \<Longrightarrow> CHR ''@'' \<notin> set a \<Longrightarrow> parse_loop k a p = (k + length a, p)"
  using loop_still [of a p k "[]"] by (force simp: parse_char_def in_password_def code_def)+

lemma parse_start_http: "parse_loop 0 (''http://'' @ r) parse_start =
    parse_loop 7 r (parse_start\<lparr>p_schema := (Some 0, 4), p_username := (Some 7, 0), pp_state := proxy_parse_state_username\<rparr>)"
  by (simp add: parse_start_def parse_char_def ended_def eval_nat_numeral)

lemma parse_with_user:
  assumes "CHR '':'' \<notin> set u" "CHR ''@'' \<notin> set u" "CHR ''@'' \<notin> set w" "CHR '':'' \<notin> set h"
  shows "parse_proxy (''http://'' @ u @ '':'' @ w @ ''@'' @ h @ '':'' @ d) = Some
    \<lparr>pp_state = proxy_parse_state_port, p_schema = (Some 0, 4), p_username = (Some 7, int (length u)),
      p_password = (Some (8 + length u), int (length w)), p_address = (Some (9 + length u + length w), int (length h)),
      p_port = (Some (10 + length u + length w + length h), int (length d))\<rparr>"
  unfolding parse_proxy_def parse_start_http
  using assms by (simp add: loop_skips loop_ends parse_char_def in_password_def ended_def parse_end_def parse_start_def)

lemma parse_without_user:
  assumes "CHR '':'' \<notin> set h" "CHR ''@'' \<notin> set h" "CHR ''@'' \<notin> set d"
  shows "parse_proxy (''http://'' @ h @ '':'' @ d) = Some
    \<lparr>pp_state = proxy_parse_state_password, p_schema = (Some 0, 4), p_username = nothing, p_password = nothing,
      p_address = (Some 7, int (length h)), p_port = (Some (8 + length h), int (length d))\<rparr>"
  unfolding parse_proxy_def parse_start_http
  using assms by (simp add: loop_skips loop_ends parse_char_def in_password_def ended_def parse_end_def parse_start_def)

lemma piece_in: "s = length a \<Longrightarrow> n = int (length x) \<Longrightarrow> piece_text (a @ x @ b) (Some s, n) = x"
  by (simp add: piece_text_def)

lemma show_built:
  assumes "piece_text input (p_address p) = h" "piece_text input (p_port p) = d" "piece_text input (p_username p) = u"
    "piece_text input (p_password p) = w" "NUL \<notin> set h" "NUL \<notin> set u" "NUL \<notin> set w"
  shows "show_proxy (built input p n) = Inr (if u = [] \<and> w = [] then ''HTTP_PROXY=http://'' @ h @ '':'' @ dec_int n @ [LF]
    else ''HTTP_PROXY=http://'' @ u @ '':'' @ w @ ''@'' @ h @ '':'' @ dec_int n @ [LF])"
proof -
  let ?b = "h @ [NUL] @ d @ [NUL] @ u @ [NUL] @ w @ [NUL]"
  have b: "proxy_block input p = ?b" by (simp add: proxy_block_def assms(1-4))
  have at: "string_at ?b 0 = Inr h" "string_at ?b (length h + length d + 2) = Inr u"
    "string_at ?b (length h + length d + length u + 3) = Inr w"
    using string_at_text [OF assms(5), of 0 "[]" "d @ [NUL] @ u @ [NUL] @ w @ [NUL]"]
      string_at_text [OF assms(6), of _ "h @ [NUL] @ d @ [NUL]" "w @ [NUL]"]
      string_at_text [OF assms(7), of "length h + length d + length u + 3" "h @ [NUL] @ d @ [NUL] @ u @ [NUL]" "[]"] by simp_all
  show ?thesis unfolding show_proxy_def built_def field_text_def by (simp add: assms(1-4) b at [simplified] Let_def)
qed

lemma atoi_dec_int:
  assumes "int_ok n"
  shows "atoi (dec_int n) = Inr n"
proof -
  let ?s = "dec_nat (nat \<bar>n\<bar>)"
  obtain c r where c: "?s = c # r" "isdigit c" using dec_nat_nonempty [of "nat \<bar>n\<bar>"] dec_nat_digits [of "nat \<bar>n\<bar>"]
    by (cases ?s) auto
  have d: "takeWhile isdigit ?s = ?s" using dec_nat_digits [of "nat \<bar>n\<bar>"] by simp
  have plain: "\<not> isspace c" "c \<noteq> CHR ''-''" "c \<noteq> CHR ''+''" using c(2) by (auto simp: isdigit_def isspace_def code_def)
  have v: "scan_digits 0 ?s = \<bar>n\<bar>" by (simp add: scan_dec_nat)
  show ?thesis
  proof (cases "n < 0")
    case True
    then have "dec_int n = CHR ''-'' # ?s" by (simp add: dec_int_def)
    moreover have "\<not> isspace (CHR ''-'')" by (simp add: isspace_def code_def)
    ultimately show ?thesis using d v True assms by (simp add: atoi_def Let_def del: takeWhile_eq_all_conv)
  next
    case False
    then have "dec_int n = c # r" using c(1) by (simp add: dec_int_def)
    then show ?thesis using d v False assms c(1) plain by (simp add: atoi_def del: takeWhile_eq_all_conv)
  qed
qed

lemma dec_int_chars: "c \<in> set (dec_int n) \<Longrightarrow> isdigit c \<or> c = CHR ''-''"
  using dec_nat_digits by (auto simp: dec_int_def split: if_splits)

lemma dec_int_plain: "CHR ''@'' \<notin> set (dec_int n)" "NUL \<notin> set (dec_int n)" "dec_int n \<noteq> []"
  using dec_int_chars [of "CHR ''@''" n] dec_int_chars [of NUL n] by (auto simp: isdigit_def code_def dec_int_def)

definition user_fits :: "(string \<times> string) option \<Rightarrow> string \<Rightarrow> bool" where
  "user_fits user h \<longleftrightarrow> (case user of
      None \<Rightarrow> CHR ''@'' \<notin> set h
    | Some (u, w) \<Rightarrow> CHR '':'' \<notin> set u \<and> CHR ''@'' \<notin> set u \<and> CHR ''@'' \<notin> set w \<and> NUL \<notin> set (u @ w) \<and> u @ w \<noteq> [])"

lemma set_proxy_text:
  assumes "user_fits user h" "CHR '':'' \<notin> set h" "NUL \<notin> set h" "h \<noteq> []" "int_ok n"
  obtains p where "set_proxy (True, junk) (proxy_text user h n) opts = Inr (0, built (proxy_text user h n) p n)"
    "show_proxy (built (proxy_text user h n) p n) = Inr (''HTTP_PROXY='' @ proxy_text user h n @ [LF])"
proof -
  let ?t = "proxy_text user h n"
  let ?u = "case user of None \<Rightarrow> [] | Some (u, w) \<Rightarrow> u" and ?w = "case user of None \<Rightarrow> [] | Some (u, w) \<Rightarrow> w"
  have "\<exists>p. parse_proxy ?t = Some p \<and> p_schema p = (Some 0, 4) \<and> piece_text ?t (p_address p) = h \<and>
      piece_text ?t (p_port p) = dec_int n \<and> piece_text ?t (p_username p) = ?u \<and> piece_text ?t (p_password p) = ?w"
  proof (cases user)
    case None
    then have t: "?t = ''http://'' @ h @ '':'' @ dec_int n" by (simp add: proxy_text_def)
    have "piece_text ?t (Some 7, int (length h)) = h" "piece_text ?t (Some (8 + length h), int (length (dec_int n))) = dec_int n"
      unfolding t using piece_in [of 7 "''http://''" _ h "'':'' @ dec_int n"]
        piece_in [of "8 + length h" "''http://'' @ h @ '':''" _ "dec_int n" "[]"] by simp_all
    moreover have "parse_proxy ?t = Some \<lparr>pp_state = proxy_parse_state_password, p_schema = (Some 0, 4), p_username = nothing,
        p_password = nothing, p_address = (Some 7, int (length h)), p_port = (Some (8 + length h), int (length (dec_int n)))\<rparr>"
      unfolding t by (rule parse_without_user) (use assms(1,2) None dec_int_plain in \<open>simp_all add: user_fits_def\<close>)
    ultimately show ?thesis using None by (simp add: piece_text_def)
  next
    case (Some uw)
    obtain u w where uw: "uw = (u, w)" by (cases uw)
    with Some have t: "?t = ''http://'' @ u @ '':'' @ w @ ''@'' @ h @ '':'' @ dec_int n" by (simp add: proxy_text_def)
    have "piece_text ?t (Some 7, int (length u)) = u" "piece_text ?t (Some (8 + length u), int (length w)) = w"
      "piece_text ?t (Some (9 + length u + length w), int (length h)) = h"
      "piece_text ?t (Some (10 + length u + length w + length h), int (length (dec_int n))) = dec_int n"
      unfolding t using piece_in [of 7 "''http://''" _ u "'':'' @ w @ ''@'' @ h @ '':'' @ dec_int n"]
        piece_in [of "8 + length u" "''http://'' @ u @ '':''" _ w "''@'' @ h @ '':'' @ dec_int n"]
        piece_in [of "9 + length u + length w" "''http://'' @ u @ '':'' @ w @ ''@''" _ h "'':'' @ dec_int n"]
        piece_in [of "10 + length u + length w + length h" "''http://'' @ u @ '':'' @ w @ ''@'' @ h @ '':''" _ "dec_int n" "[]"] by simp_all
    moreover have "parse_proxy ?t = Some \<lparr>pp_state = proxy_parse_state_port, p_schema = (Some 0, 4), p_username = (Some 7, int (length u)),
        p_password = (Some (8 + length u), int (length w)), p_address = (Some (9 + length u + length w), int (length h)),
        p_port = (Some (10 + length u + length w + length h), int (length (dec_int n)))\<rparr>"
      unfolding t by (rule parse_with_user) (use assms(1,2) Some uw in \<open>simp_all add: user_fits_def\<close>)
    ultimately show ?thesis using Some uw by simp
  qed
  then obtain p where p: "parse_proxy ?t = Some p" "p_schema p = (Some 0, 4)" "piece_text ?t (p_address p) = h"
      "piece_text ?t (p_port p) = dec_int n" "piece_text ?t (p_username p) = ?u" "piece_text ?t (p_password p) = ?w" by blast
  have free: "NUL \<notin> set ?u" "NUL \<notin> set ?w" using assms(1) by (auto simp: user_fits_def split: option.splits)
  then have "NUL \<notin> set ?t" using assms(3) dec_int_plain by (auto simp: proxy_text_def split: option.splits)
  note set_proxy_spec [OF p(1) parse_proxy_ok [OF p(1)] this, of "(True, junk)" opts]
  moreover have "schema_ok ?t p" using p(2) by (simp add: schema_ok_def proxy_text_def eval_nat_numeral)
  moreover have "port_value (dec_int n) = Inr n" using atoi_dec_int [OF assms(5)] dec_int_plain by (simp add: port_value_def)
  ultimately have "set_proxy (True, junk) ?t opts = Inr (0, built ?t p n)" using p(3,4) assms(4) by simp
  moreover have "show_proxy (built ?t p n) = Inr (''HTTP_PROXY='' @ ?t @ [LF])"
    unfolding show_built [OF p(3-6) assms(3) free] using assms(1) by (auto simp: proxy_text_def user_fits_def split: option.splits)
  ultimately show ?thesis by (rule that)
qed

text \<open>
  Claim C27. The proxy commands make a round trip: after \<open>set_proxy\<close> with the text of a host, a port and perhaps a user
  and password that the notation can tell apart, \<open>set_proxy\<close> without an argument prints that very text,
  and the proxy is in use.
\<close>

theorem proxy_roundtrip:
  assumes "user_fits user h" "CHR '':'' \<notin> set h" "NUL \<notin> set h" "h \<noteq> []" "int_ok n"
  shows "\<exists>v1. set_proxy_main (True, junk) [cmd, proxy_text user h n] v = Inr ([], v1) \<and> g_use_proxy v1 \<and>
    set_proxy_main m [cmd] v1 = Inr (''HTTP_PROXY='' @ proxy_text user h n @ [LF], v1)"
  by (rule set_proxy_text [OF assms, of junk "g_proxy_options v"]) (simp add: set_proxy_main_def)

theorem proxy_roundtrip_witness:
  "\<exists>v1. set_proxy_main (True, \<lambda>_. NUL) [''set_proxy'', proxy_text (Some (''me'', ''a:b'')) ''proxy.example'' 3128]
      \<lparr>g_use_proxy = False, g_proxy_options = no_proxy, connectionString = None\<rparr> = Inr ([], v1) \<and> g_use_proxy v1 \<and>
    set_proxy_main (False, \<lambda>_. NUL) [''set_proxy''] v1 =
      Inr (''HTTP_PROXY='' @ proxy_text (Some (''me'', ''a:b'')) ''proxy.example'' 3128 @ [LF], v1)"
  by (rule proxy_roundtrip) (simp_all add: user_fits_def int_ok_def)

lemma parse_no_scheme:
  assumes "CHR '':'' \<notin> set a" "CHR ''@'' \<notin> set d" "d = c # r" "c \<noteq> CHR ''/''"
  shows "parse_proxy (a @ '':'' @ d) = Some
    \<lparr>pp_state = proxy_parse_state_password, p_schema = nothing, p_username = nothing, p_password = nothing,
      p_address = (Some 0, int (length a)), p_port = (Some (length a + 1), int (length d))\<rparr>"
  using assms assms(2) [unfolded assms(3), simplified, THEN conjunct1, symmetric]
  by (simp add: parse_proxy_def loop_skips loop_ends parse_char_def in_password_def ended_def parse_end_def parse_start_def)

text \<open>
  Without \<open>http://\<close> the parser takes everything before the first colon for the host: of \<open>user@host:port\<close> the
  user is not split off, but becomes part of the host's name, and the proxy is used without a user.
\<close>

theorem user_without_scheme:
  assumes "CHR '':'' \<notin> set (u @ h)" "NUL \<notin> set (u @ h)" "0 \<le> n" "int_ok n"
  shows "\<exists>v1. set_proxy_main (True, junk) [cmd, u @ ''@'' @ h @ '':'' @ dec_int n] v = Inr ([], v1) \<and> g_use_proxy v1 \<and>
    proxy_username (g_proxy_options v1) = None \<and> proxy_port (g_proxy_options v1) = n \<and>
    field_text (g_proxy_options v1) (proxy_host_address (g_proxy_options v1)) = Inr (u @ ''@'' @ h)"
proof -
  let ?a = "u @ ''@'' @ h" and ?d = "dec_int n"
  let ?t = "?a @ '':'' @ ?d"
  let ?p = "\<lparr>pp_state = proxy_parse_state_password, p_schema = nothing, p_username = nothing, p_password = nothing,
      p_address = (Some 0, int (length ?a)), p_port = (Some (length ?a + 1), int (length ?d))\<rparr>"
  obtain c r where c: "?d = c # r" using dec_int_plain(3) [of n] by (cases ?d) auto
  have "isdigit c" using assms(3) c dec_nat_digits [of "nat n"] by (simp add: dec_int_def)
  then have "c \<noteq> CHR ''/''" by (auto simp: isdigit_def code_def)
  then have p: "parse_proxy ?t = Some ?p" by (intro parse_no_scheme [OF _ dec_int_plain(1) c]) (use assms(1) in simp_all)
  have parts: "piece_text ?t (p_address ?p) = ?a" "piece_text ?t (p_port ?p) = ?d" "piece_text ?t (p_username ?p) = []"
    "piece_text ?t (p_password ?p) = []"
    using piece_in [of 0 "[]" _ ?a "'':'' @ ?d"] piece_in [of "length ?a + 1" "?a @ '':''" _ ?d "[]"] by (simp_all add: piece_text_def)
  have "NUL \<notin> set ?t" using assms(2) dec_int_plain(2) by simp
  note set_proxy_spec [OF p parse_proxy_ok [OF p] this, of "(True, junk)" "g_proxy_options v"]
  then have s: "set_proxy (True, junk) ?t (g_proxy_options v) = Inr (0, built ?t ?p n)"
    using parts atoi_dec_int [OF assms(4)] dec_int_plain(3) by (simp add: schema_ok_def port_value_def)
  have "string_at (proxy_block ?t ?p) 0 = Inr ?a"
    using string_at_text [of ?a 0 "[]"] assms(2) unfolding proxy_block_def parts by simp
  with s parts show ?thesis by (simp add: set_proxy_main_def built_def field_text_def Let_def)
qed

theorem user_without_scheme_witness:
  "\<exists>v1. set_proxy_main (True, \<lambda>_. NUL) [''set_proxy'', ''me'' @ ''@'' @ ''proxy.example'' @ '':'' @ dec_int 3128]
      \<lparr>g_use_proxy = False, g_proxy_options = no_proxy, connectionString = None\<rparr> = Inr ([], v1) \<and> g_use_proxy v1 \<and>
    proxy_username (g_proxy_options v1) = None \<and> proxy_port (g_proxy_options v1) = 3128 \<and>
    field_text (g_proxy_options v1) (proxy_host_address (g_proxy_options v1)) = Inr (''me'' @ ''@'' @ ''proxy.example'')"
  by (rule user_without_scheme) (simp_all add: int_ok_def)

section \<open>The access point\<close>

text \<open>
  Once the modem has joined an access point and the clock is set, \<open>set_wifi\<close> keeps the new name and password and
  reports success, but writes nothing to the modem: it stays at the old access point.
\<close>

theorem second_wifi_ignored:
  assumes "wifi_state (cur w) = wifi_got_ip" "serial_state (serial w) = esp_done" "time_now w = Inr now"
    "now \<le> date_time (cur w) + 3600"
  shows "\<exists>w1. set_wifi_main env (True, True) [cmd, name, pass] (w, cs) = Some (Inr (0, (w1, cs))) \<and> written w1 = written w \<and>
    use_wifi w1 = 1 \<and> wifi_state (cur w1) = wifi_got_ip \<and> ap_name (serial w1) = Some name \<and> ap_pwd (serial w1) = Some pass"
  using assms
  by (simp add: set_wifi_main_def set_ssid_pwd_def prepare_esp_at_def prepare_loop.simps prepare_round_def prepare_case_def
      case_done_def esp_serial_clear_def esp_upd time_now_def Let_def)

theorem second_wifi_ignored_witness:
  "\<exists>w1. set_wifi_main plain_env (True, True) [''set_wifi'', ''other'', ''secret''] (modem_up, []) = Some (Inr (0, (w1, []))) \<and>
    written w1 = written modem_up \<and> use_wifi w1 = 1 \<and> wifi_state (cur w1) = wifi_got_ip \<and>
    ap_name (serial w1) = Some ''other'' \<and> ap_pwd (serial w1) = Some ''secret''"
  by (rule second_wifi_ignored [where now = "calendar_secs (rtc_get_time clock_stopped zero_tm)"])
    (simp_all add: modem_up_def esp_upd one_open_def init_esp_at_def time_now_def tm_to_secs_eq)

end
