(* ===== verification/Kernel_Clock.thy ===== *)
theory Kernel_Clock
  imports Kernel_Sync
begin

text \<open>
  The system time (\<open>hrp3_wo_tecs/kernel/time_manage.c\<close>), the handler of the timer interrupt
  (\<open>signal_time\<close> of \<open>time_event.c\<close>), and the hardware counter behind them
  (\<open>target/gr_rose_gcc/target_timer.h\<close>, \<open>arch/rx_gcc/rx65n/prc_timer.h\<close>).
\<close>

section \<open>The hardware counter\<close>

text \<open>The counter runs at 7.5 MHz through all 32-bit values.\<close>

definition CMWCNT_TO_HRTCNT :: "32 word \<Rightarrow> 32 word" where
  "CMWCNT_TO_HRTCNT cmwcnt = (((cmwcnt div 3) * 2) div 5)"

definition target_hrt_get_current :: "32 word \<Rightarrow> 32 word" where
  "target_hrt_get_current cnt = (if cnt = 0xFFFFFFFF then TCYC_HRTCNT - 1 else CMWCNT_TO_HRTCNT cnt)"

section \<open>The service calls\<close>

definition TMIN_ADJTIM :: int where "TMIN_ADJTIM = - 1000000"
definition TMAX_ADJTIM :: int where "TMAX_ADJTIM = 1000000"

definition check_adjtim :: "int \<Rightarrow> time \<Rightarrow> bool" where
  "check_adjtim adjtim t =
    (if adjtim > 0 then
       p_last t tmevt_heap_kernel \<ge> 1 \<and>
       EVTTIM_LE t (top_evttim tmevt_heap_kernel t + word_of_int TMAX_ADJTIM) (current_evttim t)
     else if adjtim < 0 then monotonic_evttim t - current_evttim t \<ge> word_of_int (- TMIN_ADJTIM)
     else False)"

definition on_time :: "(time \<Rightarrow> time) \<Rightarrow> kernel \<Rightarrow> kernel" where
  "on_time f k = k\<lparr>tm := f (tm k)\<rparr>"

text \<open>\<open>sysstat\<close> is the access pattern of the system state (\<open>sysstat_acvct\<close>), \<open>wr\<close> whether the caller may write to its pointer.\<close>

definition set_tim :: "(nat \<Rightarrow> 32 word) \<Rightarrow> 64 word \<Rightarrow> kernel \<Rightarrow> reply \<times> kernel" where
  "set_tim sysstat systim k =
    (if \<not> CHECK_TSKCTX_UNL k then (Returns E_CTX, k)
     else if VIOLATE_ACPTN (sysstat 3) k then (Returns E_OACV, k)
     else (Returns E_OK, on_time (\<lambda>t. let t1 = update_current_evttim t
                                  in t1\<lparr>systim_offset := systim - ucast (monotonic_evttim t1)\<rparr>) k))"

definition get_tim :: "(nat \<Rightarrow> 32 word) \<Rightarrow> bool \<Rightarrow> kernel \<Rightarrow> reply \<times> 64 word option \<times> kernel" where
  "get_tim sysstat wr k =
    (if \<not> CHECK_TSKCTX_UNL k then (Returns E_CTX, None, k)
     else if \<not> wr then (Returns E_MACV, None, k)
     else if VIOLATE_ACPTN (sysstat 4) k then (Returns E_OACV, None, k)
     else (let k1 = on_time update_current_evttim k
           in (Returns E_OK, Some (systim_offset (tm k1) + ucast (monotonic_evttim (tm k1))), k1)))"

text \<open>What \<open>adj_tim\<close> does to the times once the adjustment is accepted.\<close>

definition adjust :: "int \<Rightarrow> time \<Rightarrow> time" where
  "adjust adjtim t =
    (let previous = current_evttim t;
         cur = previous + word_of_int adjtim;
         t1 = t\<lparr>current_evttim := cur, boundary_evttim := cur - BOUNDARY_MARGIN\<rparr>;
         t2 = (if adjtim > 0 \<and> monotonic_evttim t - previous < word_of_int adjtim then
                 t1\<lparr>systim_offset := systim_offset t + (if cur < monotonic_evttim t then 2 ^ 32 else 0), monotonic_evttim := cur\<rparr>
               else t1)
     in if \<not> in_signal_time t2 then set_hrt_event t2 else t2)"

definition adj_tim :: "(nat \<Rightarrow> 32 word) \<Rightarrow> int \<Rightarrow> kernel \<Rightarrow> reply \<times> kernel" where
  "adj_tim sysstat adjtim k =
    (if \<not> CHECK_UNL k then (Returns E_CTX, k)
     else if \<not> (TMIN_ADJTIM \<le> adjtim \<and> adjtim \<le> TMAX_ADJTIM) then (Returns E_PAR, k)
     else if VIOLATE_ACPTN (sysstat 3) k then (Returns E_OACV, k)
     else (let k1 = on_time update_current_evttim k
           in if check_adjtim adjtim (tm k1) then (Returns E_OBJ, k1) else (Returns E_OK, on_time (adjust adjtim) k1)))"

definition fch_hrt :: "kernel \<Rightarrow> 32 word \<times> kernel" where
  "fch_hrt k = (let (h, t) = hrt_get_current (tm k) in (h, k\<lparr>tm := t\<rparr>))"

section \<open>The timer interrupt\<close>

text \<open>\<open>callback\<close> is what the callback function of a time event block does.  The inner loop gives \<open>callflag\<close>.\<close>

partial_function (option) call_due :: "(nat \<Rightarrow> kernel \<Rightarrow> kernel) \<Rightarrow> bool \<Rightarrow> kernel \<Rightarrow> (bool \<times> kernel) option" where
  "call_due callback callflag k =
    (if p_last (tm k) tmevt_heap_kernel \<ge> 1 \<and> EVTTIM_LE (tm k) (top_evttim tmevt_heap_kernel (tm k)) (current_evttim (tm k)) then
       (let (x, t) = tmevtb_delete_top tmevt_heap_kernel (tm k) in call_due callback True (callback x (k\<lparr>tm := t\<rparr>)))
     else Some (callflag, k))"

partial_function (option) signal_loop :: "(nat \<Rightarrow> kernel \<Rightarrow> kernel) \<Rightarrow> kernel \<Rightarrow> kernel option" where
  "signal_loop callback k =
    (case call_due callback False (on_time update_current_evttim k) of
       None \<Rightarrow> None
     | Some (callflag, k1) \<Rightarrow> if callflag then signal_loop callback k1 else Some k1)"

definition signal_time :: "(nat \<Rightarrow> kernel \<Rightarrow> kernel) \<Rightarrow> kernel \<Rightarrow> kernel option" where
  "signal_time callback k =
    (case signal_loop callback (on_time (\<lambda>t. t\<lparr>in_signal_time := True\<rparr>) k) of
       None \<Rightarrow> None
     | Some k1 \<Rightarrow> Some (on_time (\<lambda>t. (set_hrt_event t)\<lparr>in_signal_time := False\<rparr>) k1))"

section \<open>The system time as a 64-bit number\<close>

definition systim_of :: "time \<Rightarrow> 64 word" where
  "systim_of t = systim_offset t + ucast (monotonic_evttim t)"

text \<open>How far a step of the event time goes beyond the most advanced time.\<close>

definition beyond :: "32 word \<Rightarrow> time \<Rightarrow> 32 word" where
  "beyond d t = (if monotonic_evttim t - current_evttim t < d then d - (monotonic_evttim t - current_evttim t) else 0)"

lemma ucast_diff: "(ucast (x - y) :: 64 word) = ucast x - ucast y + (if x < y then 2 ^ 32 else 0)" for x y :: "32 word"
proof -
  have x: "unat x < 2 ^ 32" "unat y < 2 ^ 32" by (rule order_less_le_trans [OF unsigned_less], simp)+
  have u: "(ucast w :: 64 word) = of_nat (unat w)" for w :: "32 word" by simp
  show ?thesis
  proof (cases "x < y")
    case True
    then have "unat (x - y) = unat x + 2 ^ 32 - unat y" "unat y \<le> unat x + 2 ^ 32"
      using x unat_sub_if_size [of x y] by (simp_all add: word_less_nat_alt word_size)
    then have "(of_nat (unat (x - y)) :: 64 word) = of_nat (unat x + 2 ^ 32) - of_nat (unat y)" by (metis of_nat_diff)
    with True show ?thesis unfolding u by simp
  next
    case False
    then have "unat (x - y) = unat x - unat y" "unat y \<le> unat x"
      by (simp_all add: unat_sub not_less word_le_nat_alt)
    then have "(of_nat (unat (x - y)) :: 64 word) = of_nat (unat x) - of_nat (unat y)" by (metis of_nat_diff)
    with False show ?thesis unfolding u by simp
  qed
qed

lemma beyond_step:
  fixes m p d :: "32 word"
  assumes "m - p < d"
  shows "off + (if p + d < m then 2 ^ 32 else 0) + ucast (p + d) = off + ucast m + (ucast (d - (m - p)) :: 64 word)"
proof -
  have "d - (m - p) = p + d - m" by simp
  then have "(ucast (d - (m - p)) :: 64 word) = ucast (p + d) - ucast m + (if p + d < m then 2 ^ 32 else 0)"
    by (simp only: ucast_diff)
  then show ?thesis by simp
qed

lemma update_systim:
  "systim_offset (update_current_evttim t) = systim_offset t +
    (if monotonic_evttim t - current_evttim t < elapsed t \<and> current_evttim t + elapsed t < monotonic_evttim t then 2 ^ 32 else 0)"
  "monotonic_evttim (update_current_evttim t) =
    (if monotonic_evttim t - current_evttim t < elapsed t then current_evttim t + elapsed t else monotonic_evttim t)"
  by (simp_all add: update_current_evttim_def hrt_get_current_def elapsed_def Let_def)

lemma systim_update: "systim_of (update_current_evttim t) = systim_of t + ucast (beyond (elapsed t) t)"
  using beyond_step [of "monotonic_evttim t" "current_evttim t" "elapsed t" "systim_offset t"]
  by (auto simp: systim_of_def beyond_def update_systim)

lemma hrt_event_keeps [simp]:
  "systim_offset (set_hrt_event t) = systim_offset t" "monotonic_evttim (set_hrt_event t) = monotonic_evttim t"
  "current_evttim (set_hrt_event t) = current_evttim t" "boundary_evttim (set_hrt_event t) = boundary_evttim t"
  "node (set_hrt_event t) = node t" "p_last (set_hrt_event t) = p_last t" "evttim (set_hrt_event t) = evttim t"
  "tmevtn (set_hrt_event t) = tmevtn t"
  by (simp_all add: set_hrt_event_def Let_def)

lemma adjust_fields:
  "current_evttim (adjust a t) = current_evttim t + word_of_int a"
  "systim_offset (adjust a t) = systim_offset t + (if a > 0 \<and> monotonic_evttim t - current_evttim t < word_of_int a \<and>
     current_evttim t + word_of_int a < monotonic_evttim t then 2 ^ 32 else 0)"
  "monotonic_evttim (adjust a t) =
    (if a > 0 \<and> monotonic_evttim t - current_evttim t < word_of_int a then current_evttim t + word_of_int a else monotonic_evttim t)"
  by (auto simp: adjust_def Let_def)

lemma systim_adjust: "systim_of (adjust a t) = systim_of t + (if a > 0 then ucast (beyond (word_of_int a) t) else 0)"
  using beyond_step [of "monotonic_evttim t" "current_evttim t" "word_of_int a" "systim_offset t"]
  by (auto simp: systim_of_def beyond_def adjust_fields)

text \<open>How far the system time is ahead of the event time after it was put back, and the time without that.\<close>

definition ahead :: "time \<Rightarrow> 32 word" where
  "ahead t = monotonic_evttim t - current_evttim t"

definition base_time :: "time \<Rightarrow> 64 word" where
  "base_time t = systim_of t - ucast (ahead t)"

lemma ahead_update: "ahead (update_current_evttim t) = (if ahead t < elapsed t then 0 else ahead t - elapsed t)"
  by (simp add: ahead_def update_systim update_fields)

lemma ahead_adjust: "ahead (adjust a t) = (if a > 0 \<and> ahead t < word_of_int a then 0 else ahead t - word_of_int a)"
  by (auto simp: ahead_def adjust_fields)

lemma base_update: "base_time (update_current_evttim t) = base_time t + ucast (elapsed t)"
  unfolding base_time_def systim_update ahead_update
  by (auto simp: beyond_def ahead_def [symmetric] ucast_diff not_less dest: less_imp_le)

lemma ucast_word_of_int: "0 \<le> n \<Longrightarrow> n < 2 ^ 32 \<Longrightarrow> (ucast (word_of_int n :: 32 word) :: 64 word) = word_of_int n"
  by (simp add: unsigned_of_int take_bit_int_eq_self)

lemma base_adjust:
  assumes "- 1000000 \<le> a" "a \<le> 1000000" "a \<le> 0 \<longrightarrow> unat (ahead t) < 2 ^ 31"
  shows "base_time (adjust a t) = base_time t + word_of_int a"
proof (cases "a > 0")
  case True
  have w: "(ucast (word_of_int a :: 32 word) :: 64 word) = word_of_int a" by (rule ucast_word_of_int) (use True assms(2) in simp_all)
  show ?thesis unfolding base_time_def systim_adjust ahead_adjust using True
    by (auto simp: beyond_def ahead_def [symmetric] ucast_diff not_less w dest: less_imp_le)
next
  case False
  let ?w = "word_of_int (- a) :: 32 word"
  have w: "(ucast ?w :: 64 word) = word_of_int (- a)" by (rule ucast_word_of_int) (use False assms(1) in simp_all)
  have "unat ?w = nat (- a)" using False assms(1) by (simp only: unsigned_of_int) (simp add: take_bit_int_eq_self)
  then have "unat ?w \<le> 1000000" using assms(1) by simp
  then have "unat (ahead t + ?w) = unat (ahead t) + unat ?w" using assms(3) False by (subst unat_add_lem [THEN iffD1]) simp_all
  then have "\<not> ahead t + ?w < ?w" by (simp add: word_less_nat_alt)
  then have "(ucast (ahead t) :: 64 word) = ucast (ahead t + ?w) - ucast ?w" using ucast_diff [of "ahead t + ?w" ?w] by simp
  then show ?thesis unfolding base_time_def systim_adjust ahead_adjust using False w by simp
qed

text \<open>
  What \<open>set_tim\<close> sets is what \<open>get_tim\<close> tells, plus what the event time has moved on in between.
\<close>

theorem set_then_get:
  assumes "CHECK_TSKCTX_UNL k" "\<not> VIOLATE_ACPTN (sysstat 3) k" "\<not> VIOLATE_ACPTN (sysstat 4) k"
  shows "\<exists>k1 k2. set_tim sysstat s k = (Returns E_OK, k1) \<and>
    get_tim sysstat True k1 = (Returns E_OK, Some (s + ucast (beyond (elapsed (tm k1)) (tm k1))), k2)"
proof -
  let ?t = "update_current_evttim (tm k)"
  let ?k = "k\<lparr>tm := ?t\<lparr>systim_offset := s - ucast (monotonic_evttim ?t)\<rparr>\<rparr>"
  have k: "set_tim sysstat s k = (Returns E_OK, ?k)" using assms by (simp add: set_tim_def on_time_def Let_def)
  have s: "systim_of (tm ?k) = s" by (simp add: systim_of_def)
  have g: "get_tim sysstat True ?k = (Returns E_OK, Some (systim_of (update_current_evttim (tm ?k))), on_time update_current_evttim ?k)"
    using assms by (simp add: get_tim_def systim_of_def on_time_def Let_def CHECK_TSKCTX_UNL_def VIOLATE_ACPTN_def)
  show ?thesis by (intro exI conjI) (rule k, rule g [unfolded systim_update s])
qed

lemma unat_ahead_update: "unat (ahead (update_current_evttim t)) \<le> unat (ahead t)"
  by (simp add: ahead_update unat_sub not_less)

lemma adj_tim_result:
  assumes "adj_tim sysstat a k = (r, k1)"
  shows "r \<noteq> Returns E_OK \<and> (k1 = k \<or> tm k1 = update_current_evttim (tm k)) \<or>
    r = Returns E_OK \<and> tm k1 = adjust a (update_current_evttim (tm k)) \<and> - 1000000 \<le> a \<and> a \<le> 1000000 \<and>
    \<not> check_adjtim a (update_current_evttim (tm k))"
  using assms by (simp add: adj_tim_def on_time_def Let_def TMIN_ADJTIM_def TMAX_ADJTIM_def split: if_splits) (clarsimp+)?

theorem set_then_get_witness:
  "\<exists>k1 k2. set_tim (\<lambda>_. 0) 1600000000000000 demo = (Returns E_OK, k1) \<and>
    get_tim (\<lambda>_. 0) True k1 = (Returns E_OK, Some (1600000000000000 + ucast (beyond (elapsed (tm k1)) (tm k1))), k2)"
  by (rule set_then_get) (simp_all add: CHECK_defs demo_facts VIOLATE_ACPTN_def TACP_KERNEL_def)

text \<open>
  Adjusting the clock: \<open>adj_tim\<close> moves the base of the system time by exactly the time that has passed and the
  adjustment, an adjustment that is refused moves it by the time alone or not at all; the system time itself never goes back,
  and never stays ahead of its base by 2 seconds or more.
\<close>

theorem adj_tim_clock:
  assumes "adj_tim sysstat a k = (r, k1)" "unat (ahead (tm k)) < 2000000"
  shows "(r = Returns E_OK \<longrightarrow> base_time (tm k1) = base_time (tm k) + ucast (elapsed (tm k)) + word_of_int a) \<and>
    (r \<noteq> Returns E_OK \<longrightarrow> base_time (tm k1) = base_time (tm k) \<or> base_time (tm k1) = base_time (tm k) + ucast (elapsed (tm k))) \<and>
    (\<exists>n < 2 ^ 33. systim_of (tm k1) = systim_of (tm k) + of_nat n) \<and> unat (ahead (tm k1)) < 2000000"
proof -
  let ?t = "update_current_evttim (tm k)"
  let ?b = "beyond (elapsed (tm k)) (tm k)"
  have lt: "unat (w :: 32 word) < 2 ^ 32" for w by (rule order_less_le_trans [OF unsigned_less]) simp
  have s: "systim_of ?t = systim_of (tm k) + of_nat (unat ?b)" by (simp add: systim_update)
  have a1: "unat (ahead ?t) < 2000000" using unat_ahead_update [of "tm k"] assms(2) by simp
  consider (refused) "r \<noteq> Returns E_OK" "k1 = k" | (late) "r \<noteq> Returns E_OK" "tm k1 = ?t"
    | (accepted) "r = Returns E_OK" "tm k1 = adjust a ?t" "- 1000000 \<le> a" "a \<le> 1000000" "\<not> check_adjtim a ?t"
    using adj_tim_result [OF assms(1)] by blast
  then show ?thesis
  proof cases
    case refused
    have "\<exists>n < 2 ^ 33. systim_of (tm k1) = systim_of (tm k) + of_nat n" by (rule exI [of _ 0]) (simp add: refused)
    then show ?thesis using refused assms(2) by simp
  next
    case late
    have "\<exists>n < 2 ^ 33. systim_of (tm k1) = systim_of (tm k) + of_nat n"
      by (rule exI [of _ "unat ?b"]) (use lt [of ?b] s late in simp)
    with late a1 show ?thesis by (simp add: base_update)
  next
    case accepted
    let ?b2 = "if a > 0 then beyond (word_of_int a) ?t else 0"
    have "systim_of (tm k1) = systim_of (tm k) + of_nat (unat ?b + unat ?b2)" unfolding accepted(2) systim_adjust s by simp
    moreover have "unat ?b + unat ?b2 < 2 ^ 33" using lt [of ?b] lt [of ?b2] by simp
    moreover have "unat (ahead (adjust a ?t)) < 2000000"
    proof (cases "a < 0")
      case True
      let ?w = "word_of_int (- a) :: 32 word"
      have "ahead ?t < 1000000" using accepted(5) True by (auto simp: check_adjtim_def ahead_def TMIN_ADJTIM_def not_le)
      then have u: "unat (ahead ?t) < 1000000" by (simp add: word_less_nat_alt)
      have w: "unat ?w = nat (- a)" using True accepted(3) by (simp only: unsigned_of_int) (simp add: take_bit_int_eq_self)
      then have "unat (ahead ?t + ?w) = unat (ahead ?t) + nat (- a)" using u accepted(3) by (subst unat_add_lem [THEN iffD1]) simp_all
      moreover have "ahead (adjust a ?t) = ahead ?t + ?w" using True by (simp add: ahead_adjust)
      ultimately show ?thesis using u accepted(3) by simp
    next
      case False
      then have "ahead (adjust a ?t) \<le> ahead ?t" by (cases "a = 0") (auto simp: ahead_adjust not_less intro: word_sub_le)
      then show ?thesis using a1 by (simp add: word_le_nat_alt)
    qed
    moreover have "base_time (tm k1) = base_time (tm k) + ucast (elapsed (tm k)) + word_of_int a"
      unfolding accepted(2) using base_adjust [OF accepted(3,4), of ?t] a1 by (simp add: base_update)
    ultimately show ?thesis using accepted(1,2) by metis
  qed
qed

definition put_back :: kernel where
  "put_back = demo\<lparr>tm := (tm demo)\<lparr>current_evttim := 5000, monotonic_evttim := 600000\<rparr>\<rparr>"

theorem adj_tim_clock_witness:
  "let (r, k1) = adj_tim (\<lambda>_. 0) (- 1000000) put_back
   in (r = Returns E_OK \<longrightarrow> base_time (tm k1) = base_time (tm put_back) + ucast (elapsed (tm put_back)) + word_of_int (- 1000000)) \<and>
    (r \<noteq> Returns E_OK \<longrightarrow> base_time (tm k1) = base_time (tm put_back) \<or> base_time (tm k1) = base_time (tm put_back) + ucast (elapsed (tm put_back))) \<and>
    (\<exists>n < 2 ^ 33. systim_of (tm k1) = systim_of (tm put_back) + of_nat n) \<and> unat (ahead (tm k1)) < 2000000"
proof -
  obtain r k1 where a: "adj_tim (\<lambda>_. 0) (- 1000000) put_back = (r, k1)" by fastforce
  have "unat (ahead (tm put_back)) < 2000000" by (simp add: put_back_def ahead_def)
  from adj_tim_clock [OF a this] a show ?thesis by simp
qed

section \<open>The rate of the counter\<close>

text \<open>What the counter has moved on from one reading to the next.\<close>

definition hrt_gap :: "32 word \<Rightarrow> 32 word \<Rightarrow> 32 word" where
  "hrt_gap a b = b - a + (if b < a then TCYC_HRTCNT else 0)"

lemma elapsed_gap: "elapsed t = hrt_gap (current_hrtcnt t) (hrt t (hrt_reads t))"
  by (simp add: elapsed_def hrt_gap_def)

lemma update_clock:
  "hrt (update_current_evttim t) = hrt t" "hrt_reads (update_current_evttim t) = Suc (hrt_reads t)"
  "current_hrtcnt (update_current_evttim t) = hrt t (hrt_reads t)"
  by (simp_all add: update_current_evttim_def hrt_get_current_def Let_def)

lemma unat_hrt: "unat (target_hrt_get_current cnt) = min (unat cnt div 3 * 2 div 5) 572662305"
proof -
  have lt: "unat cnt < 2 ^ 32" by (rule order_less_le_trans [OF unsigned_less]) simp
  show ?thesis
  proof (cases "cnt = 0xFFFFFFFF")
    case True
    then show ?thesis by (simp add: target_hrt_get_current_def TCYC_HRTCNT_def)
  next
    case False
    then have "unat cnt \<noteq> unat (0xFFFFFFFF :: 32 word)" by (metis word_unat_eq_iff)
    then have c: "unat cnt \<le> 4294967294" using lt by simp
    have d: "unat (cnt div 3) = unat cnt div 3" by (simp add: unat_div)
    have "unat (cnt div 3 * 2) = unat cnt div 3 * 2" using c d by (subst unat_mult_lem [THEN iffD1]) auto
    then have "unat (target_hrt_get_current cnt) = unat cnt div 3 * 2 div 5"
      using False by (simp add: target_hrt_get_current_def CMWCNT_TO_HRTCNT_def unat_div)
    then show ?thesis using c by linarith
  qed
qed

text \<open>The counter shows microseconds: two of them for 15 periods of 7.5 MHz, to within two.\<close>

lemma hrt_rate:
  "15 * unat (target_hrt_get_current cnt) \<le> 2 * unat cnt" "2 * unat cnt \<le> 15 * unat (target_hrt_get_current cnt) + 16"
  "unat (target_hrt_get_current cnt) < 572662306"
proof -
  have "unat cnt < 2 ^ 32" by (rule order_less_le_trans [OF unsigned_less]) simp
  then have "unat cnt \<le> 4294967295" by simp
  then show "15 * unat (target_hrt_get_current cnt) \<le> 2 * unat cnt" "2 * unat cnt \<le> 15 * unat (target_hrt_get_current cnt) + 16"
    "unat (target_hrt_get_current cnt) < 572662306" unfolding unat_hrt by linarith+
qed

lemma hrt_mono: "unat a \<le> unat b \<Longrightarrow> unat (target_hrt_get_current a) \<le> unat (target_hrt_get_current b)"
  unfolding unat_hrt by (intro min.mono div_le_mono mult_le_mono1 order_refl)

lemma gap_rate:
  assumes "unat (b - a) < 2 ^ 31"
  shows "15 * unat (hrt_gap (target_hrt_get_current a) (target_hrt_get_current b)) \<le> 2 * unat (b - a) + 18 \<and>
    2 * unat (b - a) \<le> 15 * unat (hrt_gap (target_hrt_get_current a) (target_hrt_get_current b)) + 18"
proof -
  let ?x = "target_hrt_get_current a" and ?y = "target_hrt_get_current b"
  have "unat a < 2 ^ 32" "unat b < 2 ^ 32" by (rule order_less_le_trans [OF unsigned_less], simp)+
  then have lt: "unat a < 4294967296" "unat b < 4294967296" by simp_all
  show ?thesis
  proof (cases "unat a \<le> unat b")
    case True
    then have "unat (b - a) = unat b - unat a" by (simp add: unat_sub word_le_nat_alt)
    moreover have "unat (hrt_gap ?x ?y) = unat ?y - unat ?x"
      using hrt_mono [OF True] by (simp add: hrt_gap_def word_less_nat_alt unat_sub word_le_nat_alt)
    ultimately show ?thesis using hrt_rate [of a] hrt_rate [of b] True hrt_mono [OF True] by (intro conjI) linarith+
  next
    case False
    then have d: "unat (b - a) = unat b + 4294967296 - unat a" using unat_sub_if_size [of b a] by (simp add: word_size)
    moreover have "unat (b - a) < 2147483648" using assms by simp
    ultimately have "unat ?y < unat ?x" using hrt_rate [of a] hrt_rate [of b] lt by linarith
    then have g: "hrt_gap ?x ?y = ?y + (TCYC_HRTCNT - ?x)" by (simp add: hrt_gap_def word_less_nat_alt)
    have t: "unat (TCYC_HRTCNT - ?x) = 572662306 - unat ?x"
      using hrt_rate(3) [of a] by (subst unat_sub) (simp_all add: word_le_nat_alt TCYC_HRTCNT_def)
    have "unat ?y + unat (TCYC_HRTCNT - ?x) < 2 ^ 32" unfolding t using hrt_rate(3) [of b] by simp
    then have "unat (hrt_gap ?x ?y) = unat ?y + (572662306 - unat ?x)"
      unfolding g by (subst unat_add_lem [THEN iffD1]) (simp_all add: t)
    then show ?thesis using d hrt_rate [of a] hrt_rate [of b] False lt by (intro conjI) linarith+
  qed
qed

end
