(* ===== verification/Kernel_Timer.thy ===== *)
theory Kernel_Timer
  imports Kernel_Run Kernel_Clock
begin

text \<open>
  The timer interrupt: \<open>signal_time\<close> with the time-outs of tasks as the callbacks of the time events.
  It ends, has called back exactly the events that are due at its last reading of the clock, and
  keeps the kernel's invariant.
\<close>

section \<open>Time-outs as callbacks\<close>

text \<open>The block of a task has the callback that the call it waits in has given to it.\<close>

definition timeout_callback :: "kconf \<Rightarrow> nat \<Rightarrow> kernel \<Rightarrow> kernel" where
  "timeout_callback c t k =
    (if tstat (tcbs k t) AND NOT TS_SUSPENDED = TS_WAITING_DLY then wait_tmout_ok t k else wait_tmout c t k)"

definition timeout_code :: "tstat_t \<Rightarrow> ER" where
  "timeout_code s = (if s AND NOT TS_SUSPENDED = TS_WAITING_DLY then E_OK else E_TMOUT)"

section \<open>What the loops do\<close>

definition same_clock :: "time \<Rightarrow> time \<Rightarrow> bool" where
  "same_clock t t' \<longleftrightarrow> current_evttim t' = current_evttim t \<and> boundary_evttim t' = boundary_evttim t \<and> evttim t' = evttim t \<and>
    hrt t' = hrt t \<and> hrt_reads t' = hrt_reads t \<and> current_hrtcnt t' = current_hrtcnt t"

lemma same_clock_trans: "same_clock t u \<Longrightarrow> same_clock u v \<Longrightarrow> same_clock t v"
  by (simp add: same_clock_def)

definition due :: "time \<Rightarrow> nat \<Rightarrow> bool" where
  "due t y \<longleftrightarrow> EVTTIM_LE t (evttim t y) (current_evttim t)"

lemma same_clock_due: "same_clock t t' \<Longrightarrow> due t' y = due t y"
  by (simp add: same_clock_def due_def EVTTIM_LE_def EVTTIM_ADVANCE_def)

lemma delete_top_facts:
  assumes "heap_ok t h" "1 \<le> p_last t h"
  obtains x t1 where "tmevtb_delete_top h t = (x, t1)" "x \<in> registered t h" "x = node t h 1" "heap_ok t1 h"
    "registered t1 h = registered t h - {x}" "p_last t1 h = p_last t h - 1" "same_clock t t1"
proof -
  let ?x = "node t h 1"
  let ?t1 = "tmevtb_delete ?x h t"
  note s = tmevtb_delete_spec [OF assms(1) top_in [OF assms(2)]]
  have "same_clock t ?t1" using s(3) unfolding heap_frame_def by (auto simp: same_clock_def)
  with s heap_frame_fields(2) [OF s(3)] top_in [OF assms(2)] tmevtb_delete_top_eq [OF assms] show ?thesis
    by (intro that [of ?x ?t1]) simp_all
qed

lemma none_due:
  assumes "heap_ok t h" "\<not> (1 \<le> p_last t h \<and> due t (node t h 1))" "y \<in> registered t h"
  shows "\<not> due t y"
  using assms top_least [OF assms(1)] by (fastforce simp: due_def registered_def EVTTIM_LE_def)

text \<open>
  The contract of the callbacks: of the blocks \<open>S\<close> in the heap one is served, and the time events are left alone.
\<close>

locale event_callbacks =
  fixes callback :: "nat \<Rightarrow> kernel \<Rightarrow> kernel" and served :: "nat set \<Rightarrow> kernel \<Rightarrow> bool"
  assumes callback_tm: "served S k \<Longrightarrow> x \<in> S \<Longrightarrow> tm (callback x k) = tm k"
    and callback_served: "served S k \<Longrightarrow> x \<in> S \<Longrightarrow> served (S - {x}) (callback x k)"
    and served_tm: "served S k \<Longrightarrow> served S (k\<lparr>tm := t\<rparr>)"
begin

lemma call_due_spec:
  assumes "heap_ok (tm k) tmevt_heap_kernel" "served (registered (tm k) tmevt_heap_kernel) k"
  shows "\<exists>b k1. call_due callback f k = Some (b, k1) \<and> heap_ok (tm k1) tmevt_heap_kernel \<and>
    served (registered (tm k1) tmevt_heap_kernel) k1 \<and>
    registered (tm k1) tmevt_heap_kernel = {y \<in> registered (tm k) tmevt_heap_kernel. \<not> due (tm k) y} \<and> same_clock (tm k) (tm k1) \<and>
    p_last (tm k1) tmevt_heap_kernel \<le> p_last (tm k) tmevt_heap_kernel \<and>
    (b \<longrightarrow> f \<or> p_last (tm k1) tmevt_heap_kernel < p_last (tm k) tmevt_heap_kernel)"
  using assms
proof (induction "p_last (tm k) tmevt_heap_kernel" arbitrary: k f rule: less_induct)
  case less
  let ?h = tmevt_heap_kernel and ?t = "tm k"
  show ?case
  proof (cases "1 \<le> p_last ?t ?h \<and> due ?t (node ?t ?h 1)")
    case False
    then have "call_due callback f k = Some (f, k)"
      by (subst call_due.simps) (auto simp: due_def top_evttim_def)
    moreover have "{y \<in> registered ?t ?h. \<not> due ?t y} = registered ?t ?h" using none_due [OF less.prems(1) False] by auto
    ultimately show ?thesis using less.prems by (simp add: same_clock_def)
  next
    case True
    obtain x t1 where x: "tmevtb_delete_top ?h ?t = (x, t1)" "x \<in> registered ?t ?h" "x = node ?t ?h 1" "heap_ok t1 ?h"
      "registered t1 ?h = registered ?t ?h - {x}" "p_last t1 ?h = p_last ?t ?h - 1" "same_clock ?t t1"
      by (rule delete_top_facts [OF less.prems(1)]) (use True in simp)
    let ?k = "callback x (k\<lparr>tm := t1\<rparr>)"
    have c: "call_due callback f k = call_due callback True ?k"
      using True x(1) by (subst call_due.simps) (simp add: due_def top_evttim_def)
    have t: "tm ?k = t1" using callback_tm [OF served_tm [OF less.prems(2)] x(2)] by simp
    have s: "served (registered (tm ?k) ?h) ?k" using callback_served [OF served_tm [OF less.prems(2)] x(2)] t x(5) by simp
    have less: "p_last (tm ?k) ?h < p_last ?t ?h" using True x(6) t by simp
    obtain b k1 where k1: "call_due callback True ?k = Some (b, k1)" "heap_ok (tm k1) ?h" "served (registered (tm k1) ?h) k1"
      "registered (tm k1) ?h = {y \<in> registered (tm ?k) ?h. \<not> due (tm ?k) y}" "same_clock (tm ?k) (tm k1)"
      "p_last (tm k1) ?h \<le> p_last (tm ?k) ?h"
      using less.hyps [OF less _ s, of True] x(4) t by auto
    have "registered (tm k1) ?h = {y \<in> registered ?t ?h. \<not> due ?t y}"
      using k1(4) t x(3,5) True same_clock_due [OF x(7)] by auto
    with k1 c same_clock_trans [OF x(7)] t less show ?thesis by auto
  qed
qed

end

section \<open>Time as the interrupt sees it\<close>

text \<open>No two readings of the counter are more than 200 seconds apart.\<close>

definition prompt :: "time \<Rightarrow> bool" where
  "prompt t \<longleftrightarrow> (\<forall>n. hrt_gap (hrt t n) (hrt t (Suc n)) \<le> BOUNDARY_MARGIN)"

lemma next_elapsed: "prompt t \<Longrightarrow> elapsed (update_current_evttim t) \<le> BOUNDARY_MARGIN"
  by (simp add: elapsed_gap update_clock prompt_def)

lemma age_update:
  assumes "boundary_evttim t = current_evttim t - BOUNDARY_MARGIN" "elapsed t \<le> EVTTIM_ADVANCE t (evttim t y)"
  shows "unat (EVTTIM_ADVANCE (update_current_evttim t) (evttim t y)) + unat (elapsed t) = unat (EVTTIM_ADVANCE t (evttim t y))"
proof -
  have "EVTTIM_ADVANCE (update_current_evttim t) (evttim t y) = EVTTIM_ADVANCE t (evttim t y) - elapsed t"
    using assms(1) by (simp add: EVTTIM_ADVANCE_def update_fields)
  with assms(2) show ?thesis by (simp add: unat_sub word_le_nat_alt)
qed

lemma due_age:
  assumes "boundary_evttim t = current_evttim t - BOUNDARY_MARGIN"
  shows "due t y \<longleftrightarrow> unat (EVTTIM_ADVANCE t (evttim t y)) \<le> unat BOUNDARY_MARGIN"
  using assms by (simp add: due_def EVTTIM_LE_def EVTTIM_ADVANCE_def word_le_nat_alt)

context event_callbacks
begin

lemma signal_loop_spec:
  assumes "heap_ok (tm k) tmevt_heap_kernel" "served (registered (tm k) tmevt_heap_kernel) k"
    "boundary_evttim (tm k) = current_evttim (tm k) - BOUNDARY_MARGIN" "prompt (tm k)"
    "\<forall>y\<in>registered (tm k) tmevt_heap_kernel. elapsed (tm k) \<le> EVTTIM_ADVANCE (tm k) (evttim (tm k) y)"
  shows "\<exists>k1 T. signal_loop callback k = Some k1 \<and> heap_ok (tm k1) tmevt_heap_kernel \<and>
    served (registered (tm k1) tmevt_heap_kernel) k1 \<and> evttim (tm k1) = evttim (tm k) \<and>
    current_evttim (tm k1) = current_evttim (tm k) + of_nat T \<and> boundary_evttim (tm k1) = current_evttim (tm k1) - BOUNDARY_MARGIN \<and>
    registered (tm k1) tmevt_heap_kernel = {y \<in> registered (tm k) tmevt_heap_kernel.
      unat BOUNDARY_MARGIN + T < unat (EVTTIM_ADVANCE (tm k) (evttim (tm k) y))}"
  using assms
proof (induction "p_last (tm k) tmevt_heap_kernel" arbitrary: k rule: less_induct)
  case less
  let ?h = tmevt_heap_kernel and ?t = "tm k" and ?u = "update_current_evttim (tm k)"
  let ?k = "on_time update_current_evttim k"
  have u: "tm ?k = ?u" "heap_ok ?u ?h" "served (registered ?u ?h) ?k" "boundary_evttim ?u = current_evttim ?u - BOUNDARY_MARGIN"
    using heap_ok_later [OF less.prems(1,3,5)] served_tm [OF less.prems(2)] by (simp_all add: on_time_def update_fields)
  obtain b k1 where k1: "call_due callback False ?k = Some (b, k1)" "heap_ok (tm k1) ?h" "served (registered (tm k1) ?h) k1"
    "registered (tm k1) ?h = {y \<in> registered ?u ?h. \<not> due ?u y}" "same_clock ?u (tm k1)" "b \<longrightarrow> p_last (tm k1) ?h < p_last ?t ?h"
    using call_due_spec [of ?k False] u(1-3) by (auto simp: update_fields)
  let ?age = "\<lambda>t y. unat (EVTTIM_ADVANCE t (evttim t y))"
  have age: "?age ?u y + unat (elapsed ?t) = ?age ?t y" if "y \<in> registered ?t ?h" for y
    using age_update [OF less.prems(3)] less.prems(5) that by (simp add: update_fields)
  have left: "registered (tm k1) ?h = {y \<in> registered ?t ?h. unat BOUNDARY_MARGIN + unat (elapsed ?t) < ?age ?t y}"
    unfolding k1(4) registered_update due_age [OF u(4)] using age by fastforce
  have e: "evttim (tm k1) = evttim ?t" "current_evttim (tm k1) = current_evttim ?t + elapsed ?t"
    "boundary_evttim (tm k1) = current_evttim (tm k1) - BOUNDARY_MARGIN" "hrt (tm k1) = hrt ?t"
    using k1(5) u(4) by (simp_all add: same_clock_def update_fields update_clock)
  show ?case
  proof (cases b)
    case False
    then have "signal_loop callback k = Some k1" using k1(1) by (subst signal_loop.simps) simp
    with k1(2,3) e left show ?thesis by (intro exI [of _ k1] exI [of _ "unat (elapsed ?t)"]) simp
  next
    case True
    have p: "prompt (tm k1)" using less.prems(4) e(4) by (simp add: prompt_def)
    have el: "elapsed (tm k1) \<le> BOUNDARY_MARGIN"
      using next_elapsed [OF less.prems(4)] k1(5) by (simp add: same_clock_def elapsed_gap)
    have ages: "?age (tm k1) y = ?age ?u y" for y using k1(5) by (simp add: same_clock_def EVTTIM_ADVANCE_def)
    have "elapsed (tm k1) \<le> EVTTIM_ADVANCE (tm k1) (evttim (tm k1) y)" if "y \<in> registered (tm k1) ?h" for y
    proof -
      from that have "unat BOUNDARY_MARGIN < ?age ?u y" unfolding k1(4) due_age [OF u(4)] by (simp add: update_fields)
      then show ?thesis using el ages [of y] by (simp add: word_le_nat_alt)
    qed
    with less.hyps [OF _ k1(2,3) e(3) p] k1(6) True obtain k2 T where k2: "signal_loop callback k1 = Some k2"
      "heap_ok (tm k2) ?h" "served (registered (tm k2) ?h) k2" "evttim (tm k2) = evttim (tm k1)"
      "current_evttim (tm k2) = current_evttim (tm k1) + of_nat T" "boundary_evttim (tm k2) = current_evttim (tm k2) - BOUNDARY_MARGIN"
      "registered (tm k2) ?h = {y \<in> registered (tm k1) ?h. unat BOUNDARY_MARGIN + T < ?age (tm k1) y}" by auto
    have "signal_loop callback k = Some k2" using k1(1) k2(1) True by (subst signal_loop.simps) simp
    moreover have "registered (tm k2) ?h = {y \<in> registered ?t ?h. unat BOUNDARY_MARGIN + (unat (elapsed ?t) + T) < ?age ?t y}"
      unfolding k2(7) left ages using age by fastforce
    ultimately show ?thesis using k2 e by (intro exI [of _ k2] exI [of _ "unat (elapsed ?t) + T"]) simp
  qed
qed

end

section \<open>The tasks that have waited long enough\<close>

definition tasks_served :: "kconf \<Rightarrow> kernel \<Rightarrow> nat set \<Rightarrow> kernel \<Rightarrow> bool" where
  "tasks_served c k0 S k \<longleftrightarrow>
    (let S0 = registered (tm k0) tmevt_heap_kernel
     in all_ok c k \<and> S \<subseteq> S0 \<and> (\<forall>t\<in>S. TSTAT_WAITING (tstat (tcbs k0 t))) \<and>
        (\<forall>t. t \<notin> S0 \<or> t \<in> S \<longrightarrow> tcbs k t = tcbs k0 t) \<and>
        (\<forall>t\<in>S0 - S. tstat (tcbs k t) = released (tstat (tcbs k0 t)) \<and> wercd t k = Some (timeout_code (tstat (tcbs k0 t)))))"

lemma release_keeps_tm: "tm (make_non_wait t (set_wercd t e (delete_task t k))) = tm k"
  by (simp add: make_non_wait_def set_wercd_def delete_task_def upd_tcb_def make_runnable_def primap_set_def set_queue_def
      set_predtsk_def update_if_dsp_def update_schedtsk_def Let_def split: option.split)

lemma timeout_callback_eq:
  assumes "all_ok c k" "TSTAT_WAITING (tstat (tcbs k t))"
  shows "timeout_callback c t k = make_non_wait t (set_wercd t (timeout_code (tstat (tcbs k t))) (delete_task t k))"
proof -
  have g: "kernel_ok k" using assms(1) by (simp add: all_ok_def good_def)
  have nr: "\<not> TSTAT_RUNNABLE (tstat (tcbs k t))" by (rule waiting_not_runnable [OF ok_legal [OF g] assms(2)])
  show ?thesis
  proof (cases "tstat (tcbs k t) AND NOT TS_SUSPENDED = TS_WAITING_DLY")
    case True
    have "place (tcbs k t) = None" using nr dly_no_wobj [OF True] assms(2) by (simp add: place_def)
    from not_queued [OF g this] True show ?thesis
      by (simp add: timeout_callback_def timeout_code_def wait_tmout_ok_def Let_def request_dispatch_retint_def)
  next
    case False
    then show ?thesis
      by (simp add: timeout_callback_def timeout_code_def wait_tmout_def Let_def request_dispatch_retint_def wait_dequeue_wobj_eq [OF g nr])
  qed
qed

lemma timeout_callback_ok:
  assumes "all_ok c k" "TSTAT_WAITING (tstat (tcbs k t))"
  shows "all_ok c (timeout_callback c t k)"
proof -
  have g: "good k" by (rule all_okD(1) [OF assms(1)])
  show ?thesis unfolding timeout_callback_def
    using task_change_ok [OF assms(1) timeout_change [OF g assms(2)]]
      task_change_ok [OF assms(1) timeout_ok_change [OF g assms(2) dly_no_wobj]] by simp
qed

lemma tasks_served_step:
  assumes "tasks_served c k0 S k" "x \<in> S"
  shows "tm (timeout_callback c x k) = tm k" "tasks_served c k0 (S - {x}) (timeout_callback c x k)"
proof -
  have s: "all_ok c k" "x \<in> registered (tm k0) tmevt_heap_kernel" "tcbs k x = tcbs k0 x" "TSTAT_WAITING (tstat (tcbs k x))"
    using assms by (auto simp: tasks_served_def Let_def)
  note e = timeout_callback_eq [OF s(1,4)]
  show "tm (timeout_callback c x k) = tm k" unfolding e by (rule release_keeps_tm)
  have t: "tcbs (timeout_callback c x k) = (tcbs k)(x := (tcbs k x)\<lparr>winfo := (winfo (tcbs k x))\<lparr>wi_union := Wercd (timeout_code (tstat (tcbs k x)))\<rparr>,
      tstat := released (tstat (tcbs k x))\<rparr>)"
    unfolding e by (simp add: delete_task_def)
  then have o: "tcbs (timeout_callback c x k) u = tcbs k u" "wercd u (timeout_callback c x k) = wercd u k" if "u \<noteq> x" for u
    using that by (simp_all add: wercd_def)
  have x: "tstat (tcbs (timeout_callback c x k) x) = released (tstat (tcbs k0 x))"
    "wercd x (timeout_callback c x k) = Some (timeout_code (tstat (tcbs k0 x)))" using t s(3) by (simp_all add: wercd_def)
  show "tasks_served c k0 (S - {x}) (timeout_callback c x k)"
    unfolding tasks_served_def Let_def
  proof (intro conjI ballI allI impI)
    fix u
    show "tcbs (timeout_callback c x k) u = tcbs k0 u" if "u \<notin> registered (tm k0) tmevt_heap_kernel \<or> u \<in> S - {x}"
      using o(1) [of u] that assms(1) s(2) by (cases "u = x") (auto simp: tasks_served_def Let_def)
    show "tstat (tcbs (timeout_callback c x k) u) = released (tstat (tcbs k0 u))"
      "wercd u (timeout_callback c x k) = Some (timeout_code (tstat (tcbs k0 u)))"
      if "u \<in> registered (tm k0) tmevt_heap_kernel - (S - {x})"
      using o [of u] x that assms(1) by (cases "u = x"; auto simp: tasks_served_def Let_def)+
  qed (use timeout_callback_ok [OF s(1,4)] assms(1) in \<open>auto simp: tasks_served_def Let_def\<close>)
qed

interpretation timeouts: event_callbacks "timeout_callback c" "tasks_served c k0" for c k0
proof
  fix S k t
  assume a: "tasks_served c k0 S k"
  then have "all_ok c k" by (simp add: tasks_served_def Let_def)
  then have "all_ok c (k\<lparr>tm := t\<rparr>)" using all_ok_same [of c k "k\<lparr>tm := t\<rparr>"] by (simp add: all_ok_def)
  with a show "tasks_served c k0 S (k\<lparr>tm := t\<rparr>)" unfolding tasks_served_def Let_def wercd_def by simp
qed (rule tasks_served_step, assumption+)+


text \<open>A task that sleeps until the event time 100, at 50; the next reading of the counter shows 120.\<close>

definition one_sleeper :: time where
  "one_sleeper = \<lparr>evttim = \<lambda>_. 100, tmevtn = \<lambda>_. 1, node = \<lambda>_ _. 2, p_last = \<lambda>h. if h = tmevt_heap_kernel then 1 else 0,
     boundary_evttim = 50 - BOUNDARY_MARGIN, current_evttim = 50, monotonic_evttim = 50, current_hrtcnt = 50, systim_offset = 0,
     in_signal_time = False, hrt = \<lambda>_. 120, hrt_reads = 0, hrt_event = Hrt_none\<rparr>"

definition sleeping :: kernel where
  "sleeping = (snd (tslp_tsk 50 demo))\<lparr>tm := one_sleeper\<rparr>"

lemma sleeping_facts: "all_ok demo_conf sleeping" "tstat (tcbs sleeping 2) = TS_WAITING_SLP" "tm sleeping = one_sleeper"
proof -
  have "all_ok demo_conf demo"
    using demo_good demo_dtq by (simp add: all_ok_def sem_inv_def flg_inv_def demo_facts demo_conf_def)
  from service_ok [OF this demo_conf_ok, of "Svc_tslp_tsk 50"] have "all_ok demo_conf (snd (tslp_tsk 50 demo))"
    by (simp add: caller_def demo_facts)
  then show "all_ok demo_conf sleeping" using all_ok_same [of demo_conf "snd (tslp_tsk 50 demo)" sleeping]
    by (simp add: sleeping_def all_ok_def)
  have r: "TSTAT_RUNNABLE (tstat (tcbs demo (self demo)))" using good_self [OF demo_good] by (simp add: demo_facts)
  have w: "\<not> wupque (tcbs demo 2)"
    by (simp add: demo_def dispatch_def make_active_def make_runnable_keeps idle_kernel_def)
  have "snd (tslp_tsk 50 demo) = dispatch (make_wait_tmout TS_WAITING_SLP fresh_winfo 50 demo)"
    using w by (simp add: tslp_tsk_def CHECK_defs demo_facts VALID_TMOUT_def TMAX_RELTIM_def TMO_POL_def self_def)
  then show "tstat (tcbs sleeping 2) = TS_WAITING_SLP" using make_wait_effect(4) [OF goodD [OF demo_good] r]
    by (simp add: sleeping_def dispatch_def self_def demo_facts)
qed (simp add: sleeping_def)


end
