(* ===== verification/Tick_Counter.thy ===== *)
theory Tick_Counter
  imports Kernel_Clock Mqtt_Exchange
begin

text \<open>
  The tick counter of the Azure SDK on the kernel (\<open>c-utility/adapters/tickcounter_toppers.c\<close>,
  \<open>ThreadAPI_Sleep\<close> of \<open>threadapi_toppers.c\<close>), and the MQTT client's keep-alive with it.
\<close>

section \<open>The adapter\<close>

record tick_counter =
  last_clock_value :: "64 word"
  current_ms :: "64 word"

text \<open>A result of NULL is None; \<open>storage\<close> tells whether \<open>malloc\<close> succeeds, which the code does not test.\<close>

definition tickcounter_create :: "(nat \<Rightarrow> 32 word) \<Rightarrow> bool \<Rightarrow> kernel \<Rightarrow> (tick_counter option \<times> kernel) outcome" where
  "tickcounter_create sysstat storage k =
    (case get_tim sysstat True k of
       (Returns E_OK, Some now, k1) \<Rightarrow>
         if storage then Inr (Some \<lparr>last_clock_value = now, current_ms = 0\<rparr>, k1) else Inl Null_pointer
     | (_, _, k1) \<Rightarrow> Inr (None, k1))"

text \<open>The value, None for \<open>MU_FAILURE\<close>.\<close>

definition tick_current_ms :: "(nat \<Rightarrow> 32 word) \<Rightarrow> tick_counter option \<Rightarrow> kernel \<Rightarrow> 64 word option \<times> tick_counter option \<times> kernel" where
  "tick_current_ms sysstat handle k =
    (case handle of
       None \<Rightarrow> (None, handle, k)
     | Some c \<Rightarrow>
         (case get_tim sysstat True k of
            (Returns E_OK, Some now, k1) \<Rightarrow>
              (let ms = current_ms c + (now - last_clock_value c)
               in (Some ms, Some \<lparr>last_clock_value = now, current_ms = ms\<rparr>, k1))
          | (_, _, k1) \<Rightarrow> (None, handle, k1)))"

definition ThreadAPI_Sleep :: "32 word \<Rightarrow> kernel \<Rightarrow> kernel" where
  "ThreadAPI_Sleep milliseconds k = snd (dly_tsk (milliseconds * 1000) k)"

text \<open>The answers the counter gives to the calls to come.\<close>

fun tick_answers :: "(nat \<Rightarrow> 32 word) \<Rightarrow> tick_counter option \<Rightarrow> kernel \<Rightarrow> nat \<Rightarrow> 64 word option" where
  "tick_answers sysstat handle k 0 = fst (tick_current_ms sysstat handle k)"
| "tick_answers sysstat handle k (Suc n) =
    (case tick_current_ms sysstat handle k of (_, handle1, k1) \<Rightarrow> tick_answers sysstat handle1 k1 n)"

section \<open>The unit\<close>

text \<open>The state in which the counter can be read: a task of the kernel, the clock not put back, the counter in step with it.\<close>

definition in_step :: "(nat \<Rightarrow> 32 word) \<Rightarrow> tick_counter \<Rightarrow> kernel \<Rightarrow> bool" where
  "in_step sysstat c k \<longleftrightarrow> CHECK_TSKCTX_UNL k \<and> \<not> VIOLATE_ACPTN (sysstat 4) k \<and> ahead (tm k) = 0 \<and>
    last_clock_value c = systim_of (tm k)"

lemma get_tim_ok:
  assumes "CHECK_TSKCTX_UNL k" "\<not> VIOLATE_ACPTN (sysstat 4) k"
  shows "get_tim sysstat True k = (Returns E_OK, Some (systim_of (update_current_evttim (tm k))), on_time update_current_evttim k)"
  using assms by (simp add: get_tim_def systim_of_def on_time_def Let_def)

lemma no_lead: "ahead t = 0 \<Longrightarrow> beyond d t = d"
  by (cases "d = 0") (simp_all add: beyond_def ahead_def word_gt_0)

lemma ahead_stays: "ahead t = 0 \<Longrightarrow> ahead (update_current_evttim t) = 0"
  by (cases "elapsed t = 0") (simp_all add: ahead_update word_gt_0)

lemma tick_step:
  assumes "in_step sysstat c k"
  obtains c1 k1 where "tick_current_ms sysstat (Some c) k = (Some (current_ms c1), Some c1, k1)" "in_step sysstat c1 k1"
    "current_ms c1 = current_ms c + ucast (elapsed (tm k))" "tm k1 = update_current_evttim (tm k)"
proof -
  let ?k1 = "on_time update_current_evttim k" and ?t = "update_current_evttim (tm k)"
  have a: "CHECK_TSKCTX_UNL k" "\<not> VIOLATE_ACPTN (sysstat 4) k" "ahead (tm k) = 0" "last_clock_value c = systim_of (tm k)"
    using assms by (simp_all add: in_step_def)
  have b: "beyond (elapsed (tm k)) (tm k) = elapsed (tm k)"
    by (rule no_lead [OF a(3)])
  have s: "systim_of ?t - last_clock_value c = ucast (elapsed (tm k))" unfolding systim_update a(4) b by simp
  let ?c1 = "\<lparr>last_clock_value = systim_of ?t, current_ms = current_ms c + ucast (elapsed (tm k))\<rparr>"
  have "tick_current_ms sysstat (Some c) k = (Some (current_ms ?c1), Some ?c1, ?k1)"
    by (simp add: tick_current_ms_def get_tim_ok [where sysstat = sysstat, OF a(1,2)] s Let_def)
  moreover have "in_step sysstat ?c1 ?k1"
    using a by (simp add: in_step_def on_time_def ahead_stays CHECK_TSKCTX_UNL_def VIOLATE_ACPTN_def)
  ultimately show ?thesis by (rule that) (simp_all add: on_time_def)
qed

section \<open>The answers to come\<close>

definition reading :: "time \<Rightarrow> nat \<Rightarrow> 32 word" where
  "reading t i = (case i of 0 \<Rightarrow> current_hrtcnt t | Suc j \<Rightarrow> hrt t (hrt_reads t + j))"

definition step_of :: "time \<Rightarrow> nat \<Rightarrow> 32 word" where
  "step_of t i = hrt_gap (reading t i) (reading t (Suc i))"

lemma step_of_update: "step_of (update_current_evttim t) i = step_of t (Suc i)"
  by (simp add: step_of_def reading_def update_clock split: nat.split)

lemma answers_sum:
  assumes "in_step sysstat c k"
  shows "tick_answers sysstat (Some c) k n = Some (current_ms c + (\<Sum>i\<le>n. ucast (step_of (tm k) i)))"
  using assms
proof (induction n arbitrary: c k)
  case 0
  obtain c1 k1 where "tick_current_ms sysstat (Some c) k = (Some (current_ms c1), Some c1, k1)"
    "current_ms c1 = current_ms c + ucast (elapsed (tm k))" by (rule tick_step [OF 0])
  then show ?case by (simp add: elapsed_gap step_of_def reading_def)
next
  case (Suc n)
  obtain c1 k1 where c1: "tick_current_ms sysstat (Some c) k = (Some (current_ms c1), Some c1, k1)" "in_step sysstat c1 k1"
    "current_ms c1 = current_ms c + ucast (elapsed (tm k))" "tm k1 = update_current_evttim (tm k)" by (rule tick_step [OF Suc.prems])
  have "elapsed (tm k) = step_of (tm k) 0" by (simp add: elapsed_gap step_of_def reading_def)
  with c1 Suc.IH [OF c1(2)] show ?case
    by (simp add: step_of_update sum.atMost_Suc_shift add.assoc del: sum.atMost_Suc)
qed

text \<open>
  The tick counter counts microseconds where it is to count milliseconds: between two readings of it, at any two states of the
  7.5 MHz counter less than 286 seconds apart, its value moves on by the microseconds in between, to within two.
\<close>

theorem ticks_are_microseconds:
  assumes "in_step sysstat c k" "hrt (tm k) = (\<lambda>i. target_hrt_get_current (cmw i))"
    "current_hrtcnt (tm k) = target_hrt_get_current start" "unat (cmw (hrt_reads (tm k)) - start) < 2 ^ 31"
  shows "\<exists>n c1 k1. tick_current_ms sysstat (Some c) k = (Some (current_ms c + of_nat n), Some c1, k1) \<and>
    15 * n \<le> 2 * unat (cmw (hrt_reads (tm k)) - start) + 18 \<and> 2 * unat (cmw (hrt_reads (tm k)) - start) \<le> 15 * n + 18"
proof -
  obtain c1 k1 where "tick_current_ms sysstat (Some c) k = (Some (current_ms c1), Some c1, k1)"
    "current_ms c1 = current_ms c + ucast (elapsed (tm k))" by (rule tick_step [OF assms(1)])
  with gap_rate [OF assms(4)] show ?thesis
    by (intro exI [of _ "unat (elapsed (tm k))"] exI [of _ c1] exI [of _ k1]) (simp add: elapsed_gap assms(2,3))
qed

lemma step_rate:
  assumes "reading t i = target_hrt_get_current a" "reading t (Suc i) = target_hrt_get_current b" "unat (b - a) < 2 ^ 31"
    "7500 * n + 9 \<le> unat (b - a)"
  shows "1000 * n \<le> unat (step_of t i)"
  using gap_rate [OF assms(3)] assms(4) unfolding step_of_def assms(1,2) by linarith

lemma seconds_passed:
  fixes n :: "16 word" and s :: "32 word"
  shows "1000 * unat n \<le> unat s \<Longrightarrow> (ucast n :: 64 word) \<le> ucast s div 1000"
    "1000 * (unat n + 1) \<le> unat s \<Longrightarrow> (ucast n :: 64 word) < ucast s div 1000"
proof -
  have "unat n < 2 ^ 16" "unat s < 2 ^ 32" by (rule order_less_le_trans [OF unsigned_less], simp)+
  then have u: "unat (ucast n :: 64 word) = unat n" "unat (ucast s :: 64 word) = unat s"
    by (simp_all add: unsigned_ucast_eq take_bit_nat_eq_self)
  show "(ucast n :: 64 word) \<le> ucast s div 1000" if "1000 * unat n \<le> unat s"
    using that u by (simp add: word_le_nat_alt unat_div less_eq_div_iff_mult_less_eq)
  show "(ucast n :: 64 word) < ucast s div 1000" if "1000 * (unat n + 1) \<le> unat s"
  proof -
    have "unat n + 1 \<le> unat s div 1000" using that by (simp add: less_eq_div_iff_mult_less_eq)
    with u show ?thesis by (simp add: word_less_nat_alt unat_div)
  qed
qed

lemma sum_positive:
  fixes p :: "64 word" and a b d :: "32 word"
  assumes "unat p < 2 ^ 63" "0 < unat a"
  shows "0 < p + (ucast a + ucast b + ucast d)"
proof -
  have lt: "unat w < 2 ^ 32" for w :: "32 word" by (rule order_less_le_trans [OF unsigned_less]) simp
  have e: "p + (ucast a + ucast b + ucast d) = of_nat (unat p + (unat a + unat b + unat d))" by simp
  have "unat p + (unat a + unat b + unat d) < 2 ^ 64" using assms(1) lt [of a] lt [of b] lt [of d] by simp
  then have "unat (p + (ucast a + ucast b + ucast d)) = unat p + (unat a + unat b + unat d)"
    unfolding e unsigned_of_nat by (simp add: take_bit_nat_eq_self)
  with assms(2) show ?thesis by (simp add: word_less_nat_alt)
qed

text \<open>
  Claim C15. With this counter the MQTT client's seconds are milliseconds: a connected client whose keep-alive interval is K seconds
  sends a PINGREQ once it has sent nothing for K milliseconds (of 7500 periods of the counter each), and if
  nothing has arrived when it is next run, more than the response time R in milliseconds after that, it reports that
  there is no response and gives the connection up.
\<close>

theorem keep_alive_in_milliseconds:
  assumes "connected m" "fnOnErrorCallBack m" "keepAlive m > 0" "timeSincePing m = 0" "sends m 0" "plenty h"
    and "ticks m = tick_answers sysstat (Some c) k" "packetSendTimeMs m = current_ms c" "unat (current_ms c) < 2 ^ 63"
    and "in_step sysstat c k" "hrt (tm k) = (\<lambda>i. target_hrt_get_current (cmw i))" "hrt_reads (tm k) = 0"
    and "current_hrtcnt (tm k) = target_hrt_get_current sent_at"
    and "7500 * unat (keepAlive m) + 9 \<le> unat (cmw 0 - sent_at)" "unat (cmw 0 - sent_at) < 2 ^ 31"
    and "7500 * (unat (maxPingRespTime m) + 1) + 9 \<le> unat (cmw 3 - cmw 2)" "unat (cmw 3 - cmw 2) < 2 ^ 31"
  shows "\<exists>h1 m1 h2 m2. mqtt_client_dowork [] h (cd, m) = Inr (h1, cd, m1) \<and> sent m1 = frame PINGREQ_TYPE 0 [] # sent m \<and> told m1 = told m \<and>
    mqtt_client_dowork [] h1 (cd, m1) = Inr (h2, cd, m2) \<and> Failed MQTT_CLIENT_NO_PING_RESPONSE \<in> set (told m2) \<and> \<not> xioHandle m2"
proof -
  let ?s = "step_of (tm k)"
  have s0: "1000 * unat (keepAlive m) \<le> unat (?s 0)"
    by (rule step_rate [OF _ _ assms(15,14)]) (simp_all add: reading_def assms(11,12,13))
  have s3: "1000 * (unat (maxPingRespTime m) + 1) \<le> unat (?s 3)"
    by (rule step_rate [OF _ _ assms(17,16)]) (simp_all add: reading_def assms(11,12) eval_nat_numeral)
  have a: "ticks m n = Some (current_ms c + (\<Sum>i\<le>n. ucast (?s i)))" for n
    unfolding assms(7) by (rule answers_sum [OF assms(10)])
  have t: "ticks m 0 = Some (current_ms c + ucast (?s 0))" "ticks m 1 = Some (current_ms c + (ucast (?s 0) + ucast (?s 1)))"
    "ticks m 2 = Some (current_ms c + (ucast (?s 0) + ucast (?s 1) + ucast (?s 2)))"
    "ticks m 3 = Some (current_ms c + (ucast (?s 0) + ucast (?s 1) + ucast (?s 2) + ucast (?s 3)))"
    using a [of 0] a [of 1] a [of 2] a [of 3] by (simp_all add: eval_nat_numeral)
  have "0 < unat (keepAlive m)" using assms(3) by (simp add: word_less_nat_alt)
  then have p: "0 < current_ms c + (ucast (?s 0) + ucast (?s 1) + ucast (?s 2))" using s0 by (intro sum_positive [OF assms(9)]) simp
  show ?thesis
    by (rule ping_unanswered [OF assms(1-6) t(1) _ t(2,3) p t(4)]) (use seconds_passed s0 s3 assms(8) in simp_all)
qed

text \<open>240 milliseconds without a packet, and 81 without an answer.\<close>

definition hardware :: "nat \<Rightarrow> 32 word" where
  "hardware i = (if i < 3 then 1800009 else 2407518)"

definition new_ticks :: tick_counter where
  "new_ticks = \<lparr>last_clock_value = 0, current_ms = 0\<rparr>"

definition ticking :: kernel where
  "ticking = demo\<lparr>tm := \<lparr>evttim = \<lambda>_. 0, tmevtn = \<lambda>_. 0, node = \<lambda>_ _. 0, p_last = \<lambda>_. 0, boundary_evttim = 0, current_evttim = 0,
     monotonic_evttim = 0, current_hrtcnt = target_hrt_get_current 0, systim_offset = 0, in_signal_time = False,
     hrt = \<lambda>i. target_hrt_get_current (hardware i), hrt_reads = 0, hrt_event = Hrt_none\<rparr>\<rparr>"

lemma ticking_in_step: "in_step (\<lambda>_. 0) new_ticks ticking"
  by (simp add: in_step_def ticking_def new_ticks_def CHECK_defs demo_facts VIOLATE_ACPTN_def TACP_KERNEL_def ahead_def systim_of_def)

lemma ticks_are_microseconds_witness:
  "\<exists>n c1 k1. tick_current_ms (\<lambda>_. 0) (Some new_ticks) ticking = (Some (current_ms new_ticks + of_nat n), Some c1, k1) \<and>
    15 * n \<le> 2 * unat (hardware (hrt_reads (tm ticking)) - 0) + 18 \<and> 2 * unat (hardware (hrt_reads (tm ticking)) - 0) \<le> 15 * n + 18"
  by (rule ticks_are_microseconds [OF ticking_in_step]) (simp_all add: ticking_def hardware_def)

definition ticking_client :: MQTT_CLIENT where
  "ticking_client = open_client\<lparr>ticks := tick_answers (\<lambda>_. 0) (Some new_ticks) ticking\<rparr>"

lemma keep_alive_in_milliseconds_witness:
  "\<exists>h1 m1 h2 m2. mqtt_client_dowork [] junk_mem (Some new_codec, ticking_client) = Inr (h1, Some new_codec, m1) \<and>
    sent m1 = frame PINGREQ_TYPE 0 [] # sent ticking_client \<and> told m1 = told ticking_client \<and>
    mqtt_client_dowork [] h1 (Some new_codec, m1) = Inr (h2, Some new_codec, m2) \<and>
    Failed MQTT_CLIENT_NO_PING_RESPONSE \<in> set (told m2) \<and> \<not> xioHandle m2"
proof (rule keep_alive_in_milliseconds [where sysstat = "\<lambda>_. 0" and c = new_ticks and k = ticking and cmw = hardware and sent_at = 0,
    OF _ _ _ _ _ plenty_junk])
  show "connected ticking_client"
    by (simp add: ticking_client_def connected_def open_client_def has_status_def MQTT_STATUS_CLIENT_CONNECTED_def
        MQTT_STATUS_SOCKET_CONNECTED_def MQTT_STATUS_PENDING_CLOSE_def)
  show "in_step (\<lambda>_. 0) new_ticks ticking" by (rule ticking_in_step)
qed (simp_all add: ticking_client_def open_client_def new_client_def DEFAULT_MAX_PING_RESPONSE_TIME_def
    ticking_def hardware_def new_ticks_def)

end
