(* ===== verification/Azure_Strings.thy ===== *)
theory Azure_Strings
  imports Azure_Buffer
begin

text \<open>
  The strings of the Azure SDK (\<open>azure_iot_sdk/c-utility/src/strings.c\<close>): the operations on
  terminated storage that comes from the allocator, and that they are the operations on texts.
\<close>

section \<open>Storage of characters\<close>

text \<open>
  A \<open>const char *\<close> is the storage it points to, or NULL.
\<close>

type_synonym char_ptr = "string option"

definition malloc_chars :: "nat \<Rightarrow> mem \<Rightarrow> char_ptr \<times> mem" where
  "malloc_chars n h = (case malloc n h of (q, h1) \<Rightarrow> (map_option (map char_of_byte) q, h1))"

definition realloc_chars :: "string \<Rightarrow> nat \<Rightarrow> mem \<Rightarrow> char_ptr \<times> mem" where
  "realloc_chars old n h =
    (case malloc_chars n h of (q, h1) \<Rightarrow> (map_option (\<lambda>xs. take n old @ drop (length old) xs) q, h1))"

definition string_of :: "char_ptr \<Rightarrow> string outcome" where
  "string_of p = (case p of None \<Rightarrow> Inl Null_pointer | Some b \<Rightarrow> c_string b)"

record STRING =
  chars :: string

type_synonym STRING_HANDLE = "STRING option"

section \<open>The operations\<close>

text \<open>The structure of a string is allocated, then the rest is done; without storage the result is NULL.\<close>

definition new_struct :: "mem \<Rightarrow> (mem \<Rightarrow> (STRING_HANDLE \<times> mem) outcome) \<Rightarrow> (STRING_HANDLE \<times> mem) outcome" where
  "new_struct h rest = (if h 0 = None then Inr (None, \<lambda>i. h (Suc i)) else rest (\<lambda>i. h (Suc i)))"

text \<open>New storage of \<open>n\<close> bytes for a new string, and what is written to its start.\<close>

definition new_storage :: "nat \<Rightarrow> string \<Rightarrow> mem \<Rightarrow> (STRING_HANDLE \<times> mem) outcome" where
  "new_storage n t h =
    (case malloc_chars n h of
       (None, h1) \<Rightarrow> Inr (None, h1)
     | (Some q, h1) \<Rightarrow> cbind (write_at q 0 t) (\<lambda>q1. Inr (Some \<lparr>chars = q1\<rparr>, h1)))"

definition STRING_new :: "mem \<Rightarrow> (STRING_HANDLE \<times> mem) outcome" where
  "STRING_new h = new_struct h (new_storage 1 [NUL])"

definition STRING_clone :: "STRING_HANDLE \<Rightarrow> mem \<Rightarrow> (STRING_HANDLE \<times> mem) outcome" where
  "STRING_clone handle h =
    (case handle of None \<Rightarrow> Inr (None, h)
     | Some src \<Rightarrow>
         new_struct h (\<lambda>h1. cbind (c_string (chars src)) (\<lambda>t. new_storage (size_add (length t) 1) (t @ [NUL]) h1)))"

definition STRING_construct :: "char_ptr \<Rightarrow> mem \<Rightarrow> (STRING_HANDLE \<times> mem) outcome" where
  "STRING_construct psz h =
    (if psz = None then Inr (None, h)
     else new_struct h (\<lambda>h1. cbind (string_of psz) (\<lambda>t. new_storage (size_add (length t) 1) (t @ [NUL]) h1)))"

definition STRING_new_with_memory :: "char_ptr \<Rightarrow> mem \<Rightarrow> STRING_HANDLE \<times> mem" where
  "STRING_new_with_memory memory h =
    (case memory of None \<Rightarrow> (None, h)
     | Some m \<Rightarrow> (if h 0 = None then None else Some \<lparr>chars = m\<rparr>, \<lambda>i. h (Suc i)))"

definition STRING_new_quoted :: "char_ptr \<Rightarrow> mem \<Rightarrow> (STRING_HANDLE \<times> mem) outcome" where
  "STRING_new_quoted source h =
    (if source = None then Inr (None, h)
     else new_struct h (\<lambda>h1. cbind (string_of source) (\<lambda>t.
       new_storage (size_add (length t) 3) (DQUOTE # t @ [DQUOTE, NUL]) h1)))"

text \<open>
  \<open>STRING_new_JSON\<close>: control characters become \<open>\u00xx\<close>, and quotation marks, backslashes and slashes
  are escaped; the storage is counted before and filled byte by byte.
\<close>

definition hexToASCII :: string where
  "hexToASCII = ''0123456789ABCDEF''"

definition control_char :: "char \<Rightarrow> bool" where
  "control_char c = (code c \<le> 0x1F)"

definition escape_char :: "char \<Rightarrow> bool" where
  "escape_char c = (c = DQUOTE \<or> c = BACKSLASH \<or> c = CHR ''/'')"

definition json_piece :: "char \<Rightarrow> string" where
  "json_piece c =
    (if control_char c then [BACKSLASH, CHR ''u'', CHR ''0'', CHR ''0'', hexToASCII ! (code c div 16), hexToASCII ! (code c mod 16)]
     else if escape_char c then [BACKSLASH, c]
     else [c])"

fun json_loop :: "string \<Rightarrow> nat \<Rightarrow> string \<Rightarrow> (nat \<times> string) outcome" where
  "json_loop [] pos q = Inr (pos, q)"
| "json_loop (c # cs) pos q = cbind (write_at q pos (json_piece c)) (json_loop cs (pos + length (json_piece c)))"

definition json_size :: "string \<Rightarrow> nat" where
  "json_size t = length t + 5 * length (filter control_char t) +
     length (filter (\<lambda>c. \<not> control_char c \<and> escape_char c) t) + 3"

definition STRING_new_JSON :: "char_ptr \<Rightarrow> mem \<Rightarrow> (STRING_HANDLE \<times> mem) outcome" where
  "STRING_new_JSON source h =
    (if source = None then Inr (None, h)
     else cbind (string_of source) (\<lambda>t.
       if \<exists>c\<in>set t. code c \<ge> 128 then Inr (None, h)
       else new_struct h (\<lambda>h1.
         (case malloc_chars (json_size t mod 2 ^ 32) h1 of
                 (None, h2) \<Rightarrow> Inr (None, h2)
               | (Some q, h2) \<Rightarrow>
                   cbind (write_at q 0 [DQUOTE]) (\<lambda>q1.
                   cbind (json_loop t 1 q1) (\<lambda>(pos, q2).
                   cbind (write_at q2 pos [DQUOTE, NUL]) (\<lambda>q3. Inr (Some \<lparr>chars = q3\<rparr>, h2))))))))"

text \<open>The storage of a string is made larger or smaller, and written from an offset on.\<close>

definition restore :: "STRING \<Rightarrow> nat \<Rightarrow> nat \<Rightarrow> string \<Rightarrow> mem \<Rightarrow> (mu \<times> STRING_HANDLE \<times> mem) outcome" where
  "restore s1 n pos t h =
    (case realloc_chars (chars s1) n h of
       (None, h1) \<Rightarrow> Inr (MU_FAILURE, Some s1, h1)
     | (Some temp, h1) \<Rightarrow> cbind (write_at temp pos t) (\<lambda>q. Inr (MU_OK, Some \<lparr>chars = q\<rparr>, h1)))"

definition STRING_concat :: "STRING_HANDLE \<Rightarrow> char_ptr \<Rightarrow> mem \<Rightarrow> (mu \<times> STRING_HANDLE \<times> mem) outcome" where
  "STRING_concat handle s2 h =
    (case handle of None \<Rightarrow> Inr (MU_FAILURE, handle, h)
     | Some s1 \<Rightarrow>
         if s2 = None then Inr (MU_FAILURE, handle, h)
         else cbind (c_string (chars s1)) (\<lambda>t1. cbind (string_of s2) (\<lambda>t2.
           restore s1 (size_add (size_add (length t1) (length t2)) 1) (length t1) (t2 @ [NUL]) h)))"

definition STRING_concat_with_STRING :: "STRING_HANDLE \<Rightarrow> STRING_HANDLE \<Rightarrow> mem \<Rightarrow> (mu \<times> STRING_HANDLE \<times> mem) outcome" where
  "STRING_concat_with_STRING s1 s2 h =
    (case (s1, s2) of
       (Some dest, Some src) \<Rightarrow>
         cbind (c_string (chars dest)) (\<lambda>t1. cbind (c_string (chars src)) (\<lambda>t2.
           restore dest (size_add (size_add (length t1) (length t2)) 1) (length t1) (t2 @ [NUL]) h))
     | _ \<Rightarrow> Inr (MU_FAILURE, s1, h))"

text \<open>\<open>same\<close>: the source is the string's own storage.\<close>

definition STRING_copy :: "bool \<Rightarrow> STRING_HANDLE \<Rightarrow> char_ptr \<Rightarrow> mem \<Rightarrow> (mu \<times> STRING_HANDLE \<times> mem) outcome" where
  "STRING_copy same handle s2 h =
    (case handle of None \<Rightarrow> Inr (MU_FAILURE, handle, h)
     | Some s1 \<Rightarrow>
         if s2 = None then Inr (MU_FAILURE, handle, h)
         else if same then Inr (MU_OK, handle, h)
         else cbind (string_of s2) (\<lambda>t. restore s1 (size_add (length t) 1) 0 (t @ [NUL]) h))"

definition STRING_copy_n :: "STRING_HANDLE \<Rightarrow> char_ptr \<Rightarrow> nat \<Rightarrow> mem \<Rightarrow> (mu \<times> STRING_HANDLE \<times> mem) outcome" where
  "STRING_copy_n handle s2 n h =
    (case handle of None \<Rightarrow> Inr (MU_FAILURE, handle, h)
     | Some s1 \<Rightarrow>
         if s2 = None then Inr (MU_FAILURE, handle, h)
         else cbind (string_of s2) (\<lambda>t.
           let s2Length = (if length t > n then n else length t)
           in restore s1 (size_add s2Length 1) 0 (take s2Length t @ [NUL]) h))"

definition STRING_quote :: "STRING_HANDLE \<Rightarrow> mem \<Rightarrow> (mu \<times> STRING_HANDLE \<times> mem) outcome" where
  "STRING_quote handle h =
    (case handle of None \<Rightarrow> Inr (MU_FAILURE, handle, h)
     | Some s1 \<Rightarrow>
         cbind (c_string (chars s1)) (\<lambda>t. restore s1 (size_add (length t) 3) 0 (DQUOTE # t @ [DQUOTE, NUL]) h))"

definition STRING_empty :: "STRING_HANDLE \<Rightarrow> mem \<Rightarrow> (mu \<times> STRING_HANDLE \<times> mem) outcome" where
  "STRING_empty handle h =
    (case handle of None \<Rightarrow> Inr (MU_FAILURE, handle, h) | Some s1 \<Rightarrow> restore s1 1 0 [NUL] h)"

definition STRING_c_str :: "STRING_HANDLE \<Rightarrow> char_ptr" where
  "STRING_c_str handle = map_option chars handle"

definition STRING_length :: "STRING_HANDLE \<Rightarrow> nat outcome" where
  "STRING_length handle = (case handle of None \<Rightarrow> Inr 0 | Some v \<Rightarrow> cbind (c_string (chars v)) (\<lambda>t. Inr (length t)))"

definition STRING_construct_n :: "char_ptr \<Rightarrow> nat \<Rightarrow> mem \<Rightarrow> (STRING_HANDLE \<times> mem) outcome" where
  "STRING_construct_n psz n h =
    (if psz = None then Inr (None, h)
     else cbind (string_of psz) (\<lambda>t.
       if n > length t then Inr (None, h)
       else new_struct h (new_storage (size_add (length t) 1) (take n t @ [NUL]))))"

text \<open>\<open>strcmp\<close>: the sign of the first difference, as unsigned characters.\<close>

fun strcmp :: "string \<Rightarrow> string \<Rightarrow> int" where
  "strcmp [] [] = 0"
| "strcmp [] (d # b) = -1"
| "strcmp (c # a) [] = 1"
| "strcmp (c # a) (d # b) = (if c = d then strcmp a b else if code c < code d then -1 else 1)"

definition STRING_compare :: "STRING_HANDLE \<Rightarrow> STRING_HANDLE \<Rightarrow> int outcome" where
  "STRING_compare s1 s2 =
    (case (s1, s2) of
       (None, None) \<Rightarrow> Inr 0
     | (None, Some _) \<Rightarrow> Inr 1
     | (Some _, None) \<Rightarrow> Inr (-1)
     | (Some v1, Some v2) \<Rightarrow>
         cbind (c_string (chars v1)) (\<lambda>t1. cbind (c_string (chars v2)) (\<lambda>t2. Inr (strcmp t1 t2))))"

definition STRING_from_byte_array :: "byte list option \<Rightarrow> nat \<Rightarrow> mem \<Rightarrow> (STRING_HANDLE \<times> mem) outcome" where
  "STRING_from_byte_array source n h =
    (if source = None \<and> n > 0 then Inr (None, h)
     else new_struct h (\<lambda>h1.
       (case malloc_chars (size_add n 1) h1 of
               (None, h2) \<Rightarrow> Inr (None, h2)
             | (Some q, h2) \<Rightarrow>
                 cbind (read_from source n) (\<lambda>bs.
                 cbind (write_at q 0 (map char_of_byte bs @ [NUL])) (\<lambda>q1. Inr (Some \<lparr>chars = q1\<rparr>, h2))))))"

definition STRING_replace :: "STRING_HANDLE \<Rightarrow> char \<Rightarrow> char \<Rightarrow> (mu \<times> STRING_HANDLE) outcome" where
  "STRING_replace handle target repl =
    (case handle of None \<Rightarrow> Inr (MU_FAILURE, handle)
     | Some v \<Rightarrow>
         if target = repl then Inr (MU_OK, handle)
         else cbind (c_string (chars v)) (\<lambda>t.
           Inr (MU_OK, Some (v\<lparr>chars := map (\<lambda>c. if c = target then repl else c) t @ drop (length t) (chars v)\<rparr>))))"

section \<open>Texts\<close>

text \<open>
  What a pointer points to is a text when it ends in its storage, which is no larger than half the
  address space.  A run that makes a string of size \<open>n\<close> gives NULL or the text, and the text when
  requests for storage that can be served are served.
\<close>

definition is_text :: "char_ptr \<Rightarrow> string \<Rightarrow> bool" where
  "is_text p t \<longleftrightarrow> (\<exists>b. p = Some b \<and> c_string b = Inr t \<and> length b < 2 ^ 31)"

definition str_is :: "STRING_HANDLE \<Rightarrow> string \<Rightarrow> bool" where
  "str_is s t \<longleftrightarrow> is_text (STRING_c_str s) t"

definition yields :: "nat \<Rightarrow> mem \<Rightarrow> (STRING_HANDLE \<times> mem) outcome \<Rightarrow> string \<Rightarrow> bool" where
  "yields n h m t \<longleftrightarrow> (\<exists>s h'. m = Inr (s, h') \<and> (s = None \<or> str_is s t) \<and>
     (plenty h \<and> n < 2 ^ 31 \<longrightarrow> s \<noteq> None \<and> plenty h'))"

definition updates :: "nat \<Rightarrow> mem \<Rightarrow> STRING_HANDLE \<Rightarrow> (mu \<times> STRING_HANDLE \<times> mem) outcome \<Rightarrow> string \<Rightarrow> bool" where
  "updates n h s m t \<longleftrightarrow> (\<exists>r s' h'. m = Inr (r, s', h') \<and> (if r = MU_OK then str_is s' t else s' = s) \<and>
     (plenty h \<and> n < 2 ^ 31 \<longrightarrow> r = MU_OK \<and> plenty h'))"

lemma is_text_Some: "is_text p t \<Longrightarrow> p \<noteq> None"
  by (auto simp: is_text_def)

lemma is_text_string_of: "is_text p t \<Longrightarrow> string_of p = Inr t"
  by (auto simp: is_text_def string_of_def)

lemma is_text_short: "is_text p t \<Longrightarrow> length t < 2 ^ 31 - 1"
  by (auto simp: is_text_def dest!: c_string_length)

lemma is_text_no_NUL: "is_text p t \<Longrightarrow> NUL \<notin> set t"
  by (auto simp: is_text_def dest: c_string_no_NUL)

lemma str_is_cases:
  assumes "str_is s t"
  obtains v where "s = Some v" "c_string (chars v) = Inr t" "length t < 2 ^ 31 - 1" "NUL \<notin> set t"
  using assms is_text_short [of "STRING_c_str s" t] is_text_no_NUL [of "STRING_c_str s" t]
  by (auto simp: str_is_def is_text_def STRING_c_str_def)

lemma is_text_cases:
  assumes "is_text p t"
  obtains b where "p = Some b" "string_of (Some b) = Inr t" "length t < 2 ^ 31 - 1" "NUL \<notin> set t"
  using assms is_text_string_of [OF assms] is_text_short [OF assms] is_text_no_NUL [OF assms] by (auto simp: is_text_def)

lemma str_isI: "NUL \<notin> set t \<Longrightarrow> length t + length rest + 1 < 2 ^ 31 \<Longrightarrow> str_is (Some \<lparr>chars = t @ NUL # rest\<rparr>) t"
  by (auto simp: str_is_def is_text_def STRING_c_str_def c_string_terminated)

lemma write_at_ok: "p + length bs \<le> length xs \<Longrightarrow> write_at xs p bs = Inr (take p xs @ bs @ drop (p + length bs) xs)"
  by (simp add: write_at_def)

lemma malloc_chars_cases:
  obtains (none) "malloc_chars n h = (None, \<lambda>i. h (Suc i))" "\<not> (plenty h \<and> n < 2 ^ 31)"
  | (some) q where "malloc_chars n h = (Some q, \<lambda>i. h (Suc i))" "length q = n" "n < 2 ^ 31"
proof (cases "h 0 = None \<or> \<not> n < 2 ^ 31")
  case True
  then show ?thesis by (intro none) (auto simp: malloc_chars_def malloc_def plenty_def)
next
  case False
  then show ?thesis by (auto simp: malloc_chars_def malloc_def intro: some)
qed

lemma new_storage_yields:
  assumes "NUL \<notin> set t" "length t < n"
  shows "yields n h (new_storage n (t @ [NUL]) h) t"
proof (cases rule: malloc_chars_cases [of n h])
  case none
  then show ?thesis by (auto simp: new_storage_def yields_def)
next
  case (some q)
  with assms have "str_is (Some \<lparr>chars = t @ NUL # drop (Suc (length t)) q\<rparr>) t" by (intro str_isI) auto
  with some assms show ?thesis by (simp add: new_storage_def yields_def write_at_ok)
qed

text \<open>A structure is allocated before the storage.\<close>

lemma new_struct_yields:
  assumes "\<And>h. yields n h (f h) t" shows "yields n h (new_struct h f) t"
  using assms [of "\<lambda>i. h (Suc i)"] by (auto simp: new_struct_def yields_def) (metis option.distinct(1) plenty_def)

lemma restore_updates:
  assumes "NUL \<notin> set t" "length t < n" "take pos (chars s1) = take pos t" "pos \<le> length t"
    "pos \<le> length (chars s1)" "u = drop pos t @ [NUL]"
  shows "updates n h (Some s1) (restore s1 n pos u h) t"
proof (cases rule: malloc_chars_cases [of n h])
  case none
  then show ?thesis by (auto simp: restore_def realloc_chars_def updates_def)
next
  case (some q)
  let ?temp = "take n (chars s1) @ drop (length (chars s1)) q"
  have "length ?temp = n" using some(2) by simp
  moreover have "take pos ?temp = take pos t" using assms by (simp add: min_def)
  moreover have "length u = Suc (length t) - pos" using assms by simp
  ultimately have "write_at ?temp pos u = Inr (take pos t @ u @ drop (Suc (length t)) ?temp)"
    using assms(2,4) by (simp only: write_at_def) simp
  then have "write_at ?temp pos u = Inr (t @ NUL # drop (Suc (length t)) ?temp)"
    using assms(6) append_take_drop_id [of pos t] by (metis append.assoc append_Cons append_Nil)
  moreover have "str_is (Some \<lparr>chars = t @ NUL # drop (Suc (length t)) ?temp\<rparr>) t"
    using assms some by (intro str_isI) auto
  ultimately show ?thesis using some by (simp add: restore_def realloc_chars_def updates_def)
qed

lemmas string_op_defs =
  STRING_new_def STRING_clone_def STRING_construct_def STRING_new_with_memory_def STRING_new_quoted_def
  STRING_concat_def STRING_concat_with_STRING_def STRING_copy_def STRING_copy_n_def STRING_quote_def
  STRING_empty_def STRING_length_def STRING_construct_n_def STRING_compare_def STRING_replace_def

lemma c_string_prefix: "c_string b = Inr t \<Longrightarrow> \<exists>rest. b = t @ NUL # rest"
  by (induction b arbitrary: t) (auto simp: c_string_def split: if_splits)

section \<open>The operations on texts\<close>

lemma STRING_new_yields: "yields 1 h (STRING_new h) []"
  unfolding STRING_new_def using new_storage_yields [of "[]" 1] by (intro new_struct_yields) simp

lemma size_text [simp]: "length t < 2 ^ 31 - 1 \<Longrightarrow> size_add (length t) 1 = length t + 1"
  "length t < 2 ^ 31 - 1 \<Longrightarrow> size_add (length t) (Suc 0) = Suc (length t)"
  "length t < 2 ^ 31 - 1 \<Longrightarrow> size_add (length t) 3 = length t + 3"
  by (simp_all add: size_add_def)

lemma STRING_construct_yields:
  assumes "is_text p t" shows "yields (length t + 1) h (STRING_construct p h) t"
  using assms
proof (rule is_text_cases)
  fix b assume b: "p = Some b" "string_of (Some b) = Inr t" "length t < 2 ^ 31 - 1" "NUL \<notin> set t"
  then have "yields (length t + 1) h (new_storage (length t + 1) (t @ [NUL]) h) t" for h by (intro new_storage_yields) simp_all
  then have "yields (length t + 1) h (new_struct h (new_storage (length t + 1) (t @ [NUL]))) t" by (rule new_struct_yields)
  with b show ?thesis by (simp add: STRING_construct_def)
qed

lemma STRING_clone_yields:
  assumes "str_is s t" shows "yields (length t + 1) h (STRING_clone s h) t"
proof -
  obtain v where v: "s = Some v" "c_string (chars v) = Inr t" using assms by (rule str_is_cases)
  then have "STRING_clone s h = STRING_construct (STRING_c_str s) h"
    by (simp add: STRING_clone_def STRING_construct_def STRING_c_str_def string_of_def)
  with STRING_construct_yields [of "STRING_c_str s" t h] assms show ?thesis by (simp add: str_is_def)
qed

lemma STRING_new_quoted_yields:
  assumes "is_text p t" shows "yields (length t + 3) h (STRING_new_quoted p h) (DQUOTE # t @ [DQUOTE])"
proof -
  have "yields (length t + 3) h (new_storage (length t + 3) ((DQUOTE # t @ [DQUOTE]) @ [NUL]) h) (DQUOTE # t @ [DQUOTE])" for h
    by (rule new_storage_yields) (use is_text_no_NUL [OF assms] in simp_all)
  then have "yields (length t + 3) h (new_struct h (new_storage (length t + 3) (DQUOTE # t @ [DQUOTE, NUL]))) (DQUOTE # t @ [DQUOTE])"
    by (intro new_struct_yields) simp
  then show ?thesis using assms by (auto elim!: is_text_cases simp: STRING_new_quoted_def)
qed

lemma STRING_construct_n_yields:
  assumes "is_text p t" "n \<le> length t" shows "yields (length t + 1) h (STRING_construct_n p n h) (take n t)"
  using assms(1)
proof (rule is_text_cases)
  fix b assume b: "p = Some b" "string_of (Some b) = Inr t" "length t < 2 ^ 31 - 1" "NUL \<notin> set t"
  then have "yields (length t + 1) h (new_storage (length t + 1) (take n t @ [NUL]) h) (take n t)" for h
    using assms(2) by (intro new_storage_yields) (auto dest: in_set_takeD)
  then have "yields (length t + 1) h (new_struct h (new_storage (length t + 1) (take n t @ [NUL]))) (take n t)" by (rule new_struct_yields)
  with b assms(2) show ?thesis by (simp add: STRING_construct_n_def)
qed

lemma STRING_new_with_memory_yields:
  assumes "is_text p t" shows "yields 0 h (Inr (STRING_new_with_memory p h)) t"
  using assms by (auto simp: STRING_new_with_memory_def yields_def str_is_def is_text_def STRING_c_str_def) (metis option.distinct(1) plenty_def)

lemma STRING_from_byte_array_yields:
  assumes "n \<le> length bs" "n < 2 ^ 32 - 1" "0 \<notin> set (take n bs)"
  shows "yields (n + 1) h (STRING_from_byte_array (Some bs) n h) (map char_of_byte (take n bs))"
proof -
  have nul: "NUL \<notin> set (map char_of_byte (take n bs))"
  proof
    assume "NUL \<in> set (map char_of_byte (take n bs))"
    then obtain b where "b \<in> set (take n bs)" "NUL = char_of_byte b" by auto
    then have "b = byte_of NUL" by simp
    then have "b = 0" by (simp add: byte_of_def)
    with \<open>b \<in> set (take n bs)\<close> assms(3) show False by simp
  qed
  have "(case malloc_chars (size_add n 1) h1 of (None, h2) \<Rightarrow> Inr (None, h2)
      | (Some q, h2) \<Rightarrow> cbind (read_from (Some bs) n) (\<lambda>bs. cbind (write_at q 0 (map char_of_byte bs @ [NUL])) (\<lambda>q1. Inr (Some \<lparr>chars = q1\<rparr>, h2))))
    = new_storage (n + 1) (map char_of_byte (take n bs) @ [NUL]) h1" for h1
    using assms(1,2) by (simp add: new_storage_def size_add_def read_from_def split: option.splits prod.splits)
  moreover have "yields (n + 1) h (new_storage (n + 1) (map char_of_byte (take n bs) @ [NUL]) h) (map char_of_byte (take n bs))" for h
    by (rule new_storage_yields [OF nul]) (use assms in simp)
  ultimately show ?thesis unfolding STRING_from_byte_array_def by simp (intro new_struct_yields; simp)
qed

lemma STRING_concat_updates:
  assumes "str_is s t1" "is_text p t2"
  shows "updates (length t1 + length t2 + 1) h s (STRING_concat s p h) (t1 @ t2)"
  using assms(1)
proof (rule str_is_cases)
  fix v assume v: "s = Some v" "c_string (chars v) = Inr t1" "length t1 < 2 ^ 31 - 1" "NUL \<notin> set t1"
  obtain rest where rest: "chars v = t1 @ NUL # rest" using c_string_prefix [OF v(2)] by blast
  have "updates (length t1 + length t2 + 1) h (Some v)
    (restore v (length t1 + length t2 + 1) (length t1) (t2 @ [NUL]) h) (t1 @ t2)"
    by (rule restore_updates) (use v rest is_text_no_NUL [OF assms(2)] in auto)
  with v assms(2) show ?thesis by (auto elim!: is_text_cases simp: STRING_concat_def size_add_def)
qed

lemma STRING_concat_with_STRING_updates:
  assumes "str_is s t1" "str_is s2 t2"
  shows "updates (length t1 + length t2 + 1) h s (STRING_concat_with_STRING s s2 h) (t1 @ t2)"
proof -
  obtain v where v: "s2 = Some v" "c_string (chars v) = Inr t2" using assms(2) by (rule str_is_cases)
  have "STRING_concat_with_STRING s s2 h = STRING_concat s (STRING_c_str s2) h"
    using v by (simp add: STRING_concat_with_STRING_def STRING_concat_def STRING_c_str_def string_of_def split: option.splits)
  with STRING_concat_updates [OF assms(1), of "STRING_c_str s2" t2] assms(2) show ?thesis by (simp add: str_is_def)
qed

lemma STRING_copy_updates:
  assumes "str_is s t1" "is_text p t2" shows "updates (length t2 + 1) h s (STRING_copy False s p h) t2"
  using assms(1)
proof (rule str_is_cases)
  fix v assume v: "s = Some v"
  have "updates (length t2 + 1) h (Some v) (restore v (length t2 + 1) 0 (t2 @ [NUL]) h) t2"
    by (rule restore_updates) (use is_text_no_NUL [OF assms(2)] in auto)
  with v assms(2) show ?thesis by (auto elim!: is_text_cases simp: STRING_copy_def)
qed

lemma STRING_copy_n_updates:
  assumes "str_is s t1" "is_text p t2" shows "updates (min n (length t2) + 1) h s (STRING_copy_n s p n h) (take n t2)"
  using assms(1)
proof (rule str_is_cases)
  fix v assume v: "s = Some v"
  have len: "(if length t2 > n then n else length t2) = min n (length t2)" by simp
  have tk: "take (min n (length t2)) t2 = take n t2" by (simp add: min_def)
  have sz: "size_add (min n (length t2)) 1 = min n (length t2) + 1" using is_text_short [OF assms(2)] by (simp add: size_add_def)
  have "updates (min n (length t2) + 1) h (Some v) (restore v (min n (length t2) + 1) 0 (take n t2 @ [NUL]) h) (take n t2)"
    by (rule restore_updates) (use is_text_no_NUL [OF assms(2)] in \<open>auto dest: in_set_takeD\<close>)
  then show ?thesis
    using v is_text_Some [OF assms(2)] is_text_string_of [OF assms(2)]
    by (simp only: STRING_copy_n_def option.case if_False cbind_simps Let_def len tk sz)
qed

lemma STRING_quote_updates:
  assumes "str_is s t" shows "updates (length t + 3) h s (STRING_quote s h) (DQUOTE # t @ [DQUOTE])"
  using assms
proof (rule str_is_cases)
  fix v assume v: "s = Some v" "c_string (chars v) = Inr t" "length t < 2 ^ 31 - 1" "NUL \<notin> set t"
  have "updates (length t + 3) h (Some v) (restore v (length t + 3) 0 (DQUOTE # t @ [DQUOTE, NUL]) h) (DQUOTE # t @ [DQUOTE])"
    by (rule restore_updates) (use v in auto)
  then show ?thesis using v by (simp add: STRING_quote_def)
qed

lemma STRING_empty_updates:
  assumes "str_is s t" shows "updates 1 h s (STRING_empty s h) []"
  using assms
proof (rule str_is_cases)
  fix v assume v: "s = Some v"
  have "updates 1 h (Some v) (restore v 1 0 [NUL] h) []" by (rule restore_updates) auto
  then show ?thesis using v by (simp add: STRING_empty_def)
qed

lemma STRING_length_is: "str_is s t \<Longrightarrow> STRING_length s = Inr (length t)"
  by (erule str_is_cases) (simp add: STRING_length_def)

section \<open>JSON texts\<close>

lemma hex_no_NUL: "k < 16 \<Longrightarrow> hexToASCII ! k \<noteq> NUL"
  using nth_mem [of k hexToASCII] by (auto simp: hexToASCII_def)

lemma json_piece_no_NUL:
  assumes "c \<noteq> NUL" shows "NUL \<notin> set (json_piece c)"
proof (cases "control_char c")
  case True
  then have "code c div 16 < 16" by (simp add: control_char_def)
  then have "hexToASCII ! (code c div 16) \<noteq> NUL" "hexToASCII ! (code c mod 16) \<noteq> NUL" by (simp_all add: hex_no_NUL)
  with True show ?thesis by (simp add: json_piece_def not_sym)
next
  case False
  with assms show ?thesis by (auto simp: json_piece_def)
qed

lemma json_size_pieces: "json_size t = length (concat (map json_piece t)) + 3"
  by (induction t) (auto simp: json_size_def json_piece_def)

lemma json_loop_fills:
  assumes "pos + length (concat (map json_piece cs)) \<le> length q"
  shows "json_loop cs pos q = Inr (pos + length (concat (map json_piece cs)),
    take pos q @ concat (map json_piece cs) @ drop (pos + length (concat (map json_piece cs))) q)"
  using assms
proof (induction cs arbitrary: pos q)
  case Nil
  then show ?case by simp
next
  case (Cons c cs)
  let ?q = "take pos q @ json_piece c @ drop (pos + length (json_piece c)) q"
  have "json_loop (c # cs) pos q = json_loop cs (pos + length (json_piece c)) ?q"
    using Cons.prems by (simp add: write_at_ok)
  also have "\<dots> = Inr (pos + length (json_piece c) + length (concat (map json_piece cs)),
      take (pos + length (json_piece c)) ?q @ concat (map json_piece cs) @
      drop (pos + length (json_piece c) + length (concat (map json_piece cs))) ?q)"
    by (rule Cons.IH) (use Cons.prems in simp)
  also have "take (pos + length (json_piece c)) ?q = take pos q @ json_piece c" using Cons.prems by simp
  also have "drop (pos + length (json_piece c) + length (concat (map json_piece cs))) ?q =
      drop (pos + length (concat (map json_piece (c # cs)))) q" using Cons.prems by (simp add: ac_simps)
  finally show ?case by (simp add: add.assoc)
qed

text \<open>The text \<open>STRING_new_JSON\<close> is to give, and a reader of such texts.\<close>

definition json_text :: "string \<Rightarrow> string" where
  "json_text t = DQUOTE # concat (map json_piece t) @ [DQUOTE]"

lemma STRING_new_JSON_yields:
  assumes "is_text p t" "\<forall>c\<in>set t. code c < 128" "json_size t < 2 ^ 32"
  shows "yields (json_size t) h (STRING_new_JSON p h) (json_text t)"
  using assms(1)
proof (rule is_text_cases)
  fix b assume b: "p = Some b" "string_of (Some b) = Inr t" "length t < 2 ^ 31 - 1" "NUL \<notin> set t"
  let ?u = "concat (map json_piece t)"
  have "NUL \<notin> set ?u" using b(4) by (induction t) (auto simp: json_piece_no_NUL)
  then have nul: "NUL \<notin> set (json_text t)" by (simp add: json_text_def)
  have filled: "cbind (write_at q 0 [DQUOTE]) (\<lambda>q1. cbind (json_loop t 1 q1) (\<lambda>(pos, q2).
      cbind (write_at q2 pos [DQUOTE, NUL]) (\<lambda>q3. Inr (Some \<lparr>chars = q3\<rparr>, h2)))) = Inr (Some \<lparr>chars = json_text t @ NUL # []\<rparr>, h2)"
    if "length q = json_size t" for q h2
  proof -
    have q: "length q = length ?u + 3" using that by (simp add: json_size_pieces)
    then have "write_at q 0 [DQUOTE] = Inr (DQUOTE # drop 1 q)" by (simp add: write_at_ok)
    moreover have "json_loop t 1 (DQUOTE # drop 1 q) = Inr (1 + length ?u, DQUOTE # ?u @ drop (1 + length ?u) q)"
      using q by (subst json_loop_fills) simp_all
    moreover have "write_at (DQUOTE # ?u @ drop (1 + length ?u) q) (1 + length ?u) [DQUOTE, NUL] = Inr (DQUOTE # ?u @ [DQUOTE, NUL])"
      using q by (simp add: write_at_ok)
    ultimately show ?thesis by (simp add: json_text_def)
  qed
  have "yields (json_size t) h1 (case malloc_chars (json_size t mod 2 ^ 32) h1 of (None, h2) \<Rightarrow> Inr (None, h2)
      | (Some q, h2) \<Rightarrow> cbind (write_at q 0 [DQUOTE]) (\<lambda>q1. cbind (json_loop t 1 q1) (\<lambda>(pos, q2).
          cbind (write_at q2 pos [DQUOTE, NUL]) (\<lambda>q3. Inr (Some \<lparr>chars = q3\<rparr>, h2))))) (json_text t)" for h1
  proof (cases rule: malloc_chars_cases [of "json_size t" h1])
    case none
    then show ?thesis using assms(3) by (auto simp: yields_def)
  next
    case (some q)
    have "str_is (Some \<lparr>chars = json_text t @ NUL # []\<rparr>) (json_text t)"
      using nul some(3) by (intro str_isI) (simp_all add: json_size_pieces json_text_def)
    then show ?thesis using some assms(3) filled [OF some(2), of "\<lambda>i. h1 (Suc i)"] by (simp add: yields_def)
  qed
  then have "yields (json_size t) h (new_struct h (\<lambda>h1. case malloc_chars (json_size t mod 2 ^ 32) h1 of (None, h2) \<Rightarrow> Inr (None, h2)
      | (Some q, h2) \<Rightarrow> cbind (write_at q 0 [DQUOTE]) (\<lambda>q1. cbind (json_loop t 1 q1) (\<lambda>(pos, q2).
          cbind (write_at q2 pos [DQUOTE, NUL]) (\<lambda>q3. Inr (Some \<lparr>chars = q3\<rparr>, h2)))))) (json_text t)"
    by (rule new_struct_yields)
  moreover have "\<not> (\<exists>c\<in>set t. code c \<ge> 128)" using assms(2) by (meson not_less)
  ultimately show ?thesis unfolding STRING_new_JSON_def b(1) b(2) by simp
qed

definition hex_value :: "char \<Rightarrow> nat" where
  "hex_value c = (if isdigit c then code c - 48 else code c - 55)"

fun json_read :: "string \<Rightarrow> string option" where
  "json_read [] = None"
| "json_read (c # cs) =
    (if c = DQUOTE then if cs = [] then Some [] else None
     else if c = BACKSLASH then
       (case cs of
          x # a # b # d # e # r \<Rightarrow>
            if x = CHR ''u'' then map_option (Cons (char_of (16 * hex_value d + hex_value e))) (json_read r)
            else map_option (Cons x) (json_read (a # b # d # e # r))
        | x # r \<Rightarrow> map_option (Cons x) (json_read r)
        | [] \<Rightarrow> None)
     else map_option (Cons c) (json_read cs))"

lemma hex_value_hex: "k < 16 \<Longrightarrow> hex_value (hexToASCII ! k) = k"
proof -
  have "\<forall>k\<in>set [0..<16]. hex_value (hexToASCII ! k) = k" by code_simp
  then show "k < 16 \<Longrightarrow> hex_value (hexToASCII ! k) = k" by simp
qed

lemma json_read_piece: "json_read (json_piece c @ r) = map_option (Cons c) (json_read r)"
proof (cases "control_char c")
  case True
  then have "code c div 16 < 16" by (simp add: control_char_def)
  then have "char_of (16 * hex_value (hexToASCII ! (code c div 16)) + hex_value (hexToASCII ! (code c mod 16))) = c"
    by (simp add: hex_value_hex code_def)
  with True show ?thesis by (simp add: json_piece_def)
next
  case False
  have esc: "json_read (BACKSLASH # c # r) = map_option (Cons c) (json_read r)" if "c \<noteq> CHR ''u''"
    using that by (subst json_read.simps(2)) (simp del: json_read.simps split: list.splits)
  show ?thesis
  proof (cases "escape_char c")
    case True
    then have "c \<noteq> CHR ''u''" by (auto simp: escape_char_def)
    from esc [OF this] True False show ?thesis by (simp add: json_piece_def del: json_read.simps)
  next
    case False2: False
    with False show ?thesis by (simp add: json_piece_def escape_char_def)
  qed
qed

lemma json_read_text: "json_read (concat (map json_piece t) @ [DQUOTE]) = Some t"
  by (induction t) (simp_all add: json_read_piece del: json_read.simps(2), simp)

end
