(* ===== verification/Azure_Base64.thy ===== *)
theory Azure_Base64
  imports Azure_Strings
begin

text \<open>
  Base 64 (\<open>azure_iot_sdk/c-utility/src/azure_base64.c\<close>): the encoder, that it gives the text of
  RFC 4648, the decoder, that it undoes the encoder and never leaves its buffer, and what it leaves
  unwritten.
\<close>

unbundle bit_operations_syntax

section \<open>Characters\<close>

definition base64char :: "byte \<Rightarrow> char" where
  "base64char val =
    (if val < 26 then char_of (code (CHR ''A'') + unat val)
     else if val < 52 then char_of (code (CHR ''a'') + (unat val - 26))
     else if val < 62 then char_of (code (CHR ''0'') + (unat val - 52))
     else if val = 62 then CHR ''+''
     else CHR ''/'')"

definition joinChars :: "char \<Rightarrow> char \<Rightarrow> char \<Rightarrow> char \<Rightarrow> 32 word" where
  "joinChars a b c d =
    of_nat (code a) + push_bit 8 (of_nat (code b)) + push_bit 16 (of_nat (code c)) + push_bit 24 (of_nat (code d))"

definition splitInt :: "32 word \<Rightarrow> nat \<Rightarrow> char" where
  "splitInt v bytePos = char_of (unat (drop_bit (8 * bytePos) v AND 0xFF))"

definition base64b16values :: "32 word list" where
  "base64b16values =
    [joinChars (CHR ''A'') (CHR ''E'') (CHR ''I'') (CHR ''M''),
     joinChars (CHR ''Q'') (CHR ''U'') (CHR ''Y'') (CHR ''c''),
     joinChars (CHR ''g'') (CHR ''k'') (CHR ''o'') (CHR ''s''),
     joinChars (CHR ''w'') (CHR ''0'') (CHR ''4'') (CHR ''8'')]"

definition base64b16 :: "byte \<Rightarrow> char" where
  "base64b16 val = splitInt (base64b16values ! unat (drop_bit 2 val)) (unat (val AND 0x03))"

definition base64b8 :: "byte \<Rightarrow> char" where
  "base64b8 val = splitInt (joinChars (CHR ''A'') (CHR ''Q'') (CHR ''g'') (CHR ''w'')) (unat val)"

text \<open>The result, and the value stored: 0 for a character that is none of base 64.\<close>

definition base64toValue :: "char \<Rightarrow> int \<times> byte" where
  "base64toValue c =
    (if code (CHR ''A'') \<le> code c \<and> code c \<le> code (CHR ''Z'') then (0, of_nat (code c - code (CHR ''A'')))
     else if code (CHR ''a'') \<le> code c \<and> code c \<le> code (CHR ''z'') then (0, of_nat (26 + (code c - code (CHR ''a''))))
     else if code (CHR ''0'') \<le> code c \<and> code c \<le> code (CHR ''9'') then (0, of_nat (52 + (code c - code (CHR ''0''))))
     else if c = CHR ''+'' then (0, 62)
     else if c = CHR ''/'' then (0, 63)
     else (-1, 0))"

section \<open>Encoding\<close>

definition enc1 :: "byte \<Rightarrow> byte" where "enc1 b0 = drop_bit 2 b0"
definition enc2 :: "byte \<Rightarrow> byte \<Rightarrow> byte" where "enc2 b0 b1 = push_bit 4 (b0 AND 3) OR drop_bit 4 b1"
definition enc3 :: "byte \<Rightarrow> byte \<Rightarrow> byte" where "enc3 b1 b2 = push_bit 2 (b1 AND 0x0F) OR (drop_bit 6 b2 AND 3)"
definition enc4 :: "byte \<Rightarrow> byte" where "enc4 b2 = b2 AND 0x3F"

text \<open>The characters for three bytes or the last two or one, one group after the other.\<close>

fun encode_loop :: "byte list \<Rightarrow> nat \<Rightarrow> string \<Rightarrow> (nat \<times> string) outcome" where
  "encode_loop (b0 # b1 # b2 # bs) pos q =
     cbind (write_at q pos [base64char (enc1 b0), base64char (enc2 b0 b1), base64char (enc3 b1 b2), base64char (enc4 b2)])
       (encode_loop bs (pos + 4))"
| "encode_loop [b0, b1] pos q =
     cbind (write_at q pos [base64char (enc1 b0), base64char (enc2 b0 b1), base64b16 (b1 AND 0x0F), CHR ''=''])
       (\<lambda>q1. Inr (pos + 4, q1))"
| "encode_loop [b0] pos q =
     cbind (write_at q pos [base64char (enc1 b0), base64b8 (b0 AND 0x03), CHR ''='', CHR ''=''])
       (\<lambda>q1. Inr (pos + 4, q1))"
| "encode_loop [] pos q = Inr (pos, q)"

definition Base64_Encode_Internal :: "byte list option \<Rightarrow> nat \<Rightarrow> mem \<Rightarrow> (STRING_HANDLE \<times> mem) outcome" where
  "Base64_Encode_Internal source n h =
    (let neededSize = ((if n = 0 then 0 else ((n - 1) div 3 + 1) * 4) + 1) mod 2 ^ 32
     in case malloc_chars neededSize h of
          (None, h1) \<Rightarrow> Inr (None, h1)
        | (Some encoded, h1) \<Rightarrow>
            cbind (read_from source n) (\<lambda>bs.
            cbind (encode_loop bs 0 encoded) (\<lambda>(destinationPosition, q).
            cbind (write_at q destinationPosition [NUL]) (\<lambda>q1. Inr (STRING_new_with_memory (Some q1) h1)))))"

definition Azure_Base64_Encode_Bytes :: "byte list option \<Rightarrow> nat \<Rightarrow> mem \<Rightarrow> (STRING_HANDLE \<times> mem) outcome" where
  "Azure_Base64_Encode_Bytes source n h =
    (if source = None then Inr (None, h)
     else if n = 0 then STRING_new h
     else Base64_Encode_Internal source n h)"

definition Azure_Base64_Encode :: "BUFFER_HANDLE \<Rightarrow> mem \<Rightarrow> (STRING_HANDLE \<times> mem) outcome" where
  "Azure_Base64_Encode input h =
    (if input = None then Inr (None, h)
     else case (BUFFER_content input, BUFFER_size input) of
       ((MU_OK, inputBinary), (MU_OK, Some inputSize)) \<Rightarrow> Base64_Encode_Internal inputBinary inputSize h
     | _ \<Rightarrow> Inr (None, h))"

section \<open>Decoding\<close>

text \<open>The characters before the first that is none of base 64; the NUL at the end is none.\<close>

definition numberOfBase64Characters :: "string \<Rightarrow> nat" where
  "numberOfBase64Characters t = length (takeWhile (\<lambda>c. fst (base64toValue c) \<noteq> -1) t)"

definition Base64decode_len :: "string \<Rightarrow> nat outcome" where
  "Base64decode_len t =
    (let sourceLength = length t
     in if sourceLength = 0 then Inr 0
        else let result = sourceLength div 4 * 3
             in if t ! (sourceLength - 1) = CHR ''='' then
                  if sourceLength < 2 then Inl Read_past_end
                  else Inr (if t ! (sourceLength - 2) = CHR ''='' then result - 2 else result - 1)
                else Inr result)"

definition value_of :: "char \<Rightarrow> byte" where "value_of c = snd (base64toValue c)"

definition dec1 :: "char \<Rightarrow> char \<Rightarrow> byte" where "dec1 x y = push_bit 2 (value_of x) OR drop_bit 4 (value_of y)"
definition dec2 :: "char \<Rightarrow> char \<Rightarrow> byte" where "dec2 y z = push_bit 4 (value_of y AND 0x0f) OR drop_bit 2 (value_of z)"
definition dec3 :: "char \<Rightarrow> char \<Rightarrow> byte" where "dec3 z w = push_bit 6 (value_of z AND 0x03) OR value_of w"

text \<open>\<open>Base64decode\<close> on its valid characters: four at a time, then the last two or three.\<close>

fun decode_loop :: "string \<Rightarrow> nat \<Rightarrow> BUFFER \<Rightarrow> BUFFER outcome" where
  "decode_loop (x # y # z # w # cs) pos b =
     cbind (store_in b pos [dec1 x y, dec2 y z, dec3 z w]) (decode_loop cs (pos + 3))"
| "decode_loop [x, y, z] pos b = store_in b pos [dec1 x y, dec2 y z]"
| "decode_loop [x, y] pos b = store_in b pos [dec1 x y]"
| "decode_loop [x] pos b = Inr b"
| "decode_loop [] pos b = Inr b"

definition Base64decode :: "BUFFER \<Rightarrow> string \<Rightarrow> BUFFER outcome" where
  "Base64decode b t = decode_loop (take (numberOfBase64Characters t) t) 0 b"

definition Azure_Base64_Decode :: "char_ptr \<Rightarrow> mem \<Rightarrow> (BUFFER_HANDLE \<times> mem) outcome" where
  "Azure_Base64_Decode source h =
    (if source = None then Inr (None, h)
     else cbind (string_of source) (\<lambda>t.
       if length t mod 4 \<noteq> 0 then Inr (None, h)
       else case BUFFER_new h of
         (None, h1) \<Rightarrow> Inr (None, h1)
       | (Some b, h1) \<Rightarrow>
           cbind (Base64decode_len t) (\<lambda>sizeOfOutputBuffer.
             if sizeOfOutputBuffer > 0 then
               (case BUFFER_pre_build (Some b) sizeOfOutputBuffer h1 of
                  (MU_OK, Some b1, h2) \<Rightarrow>
                    (case BUFFER_u_char (Some b1) of
                       None \<Rightarrow> Inl Null_pointer
                     | Some _ \<Rightarrow> cbind (Base64decode b1 t) (\<lambda>b2. Inr (Some b2, h2)))
                | (_, _, h2) \<Rightarrow> Inr (None, h2))
             else Inr (Some b, h1))))"

section \<open>The alphabet\<close>

lemma code_char_of: "n < 256 \<Longrightarrow> code (char_of n) = n"
  by (simp add: code_def)

lemma value_base64char:
  assumes "v < 64" shows "base64toValue (base64char v) = (0, v)"
proof -
  define n where "n = unat v"
  have v: "v = of_nat n" by (simp add: n_def)
  have n: "n < 64" using assms by (simp add: n_def word_less_nat_alt)
  have small: "(v < 26) = (n < 26)" "(v < 52) = (n < 52)" "(v < 62) = (n < 62)"
    by (simp_all add: n_def word_less_nat_alt)
  have codes: "code (CHR ''A'') = 65" "code (CHR ''Z'') = 90" "code (CHR ''a'') = 97" "code (CHR ''z'') = 122"
    "code (CHR ''0'') = 48" "code (CHR ''9'') = 57" "code (CHR ''+'') = 43" "code (CHR ''/'') = 47" by (simp_all add: code_def)
  consider "n < 26" | "26 \<le> n" "n < 52" | "52 \<le> n" "n < 62" | "n = 62" | "n = 63" using n by linarith
  then show ?thesis
  proof cases
    case 1
    then have "base64char v = char_of (65 + n)" by (simp add: base64char_def small codes flip: n_def)
    with 1 show ?thesis by (simp add: base64toValue_def codes code_char_of) (simp add: v)
  next
    case 2
    then have "base64char v = char_of (97 + (n - 26))" by (simp add: base64char_def small codes flip: n_def)
    with 2 show ?thesis by (simp add: base64toValue_def codes code_char_of) (simp add: v)
  next
    case 3
    then have "base64char v = char_of (n - 4)" by (simp add: base64char_def small codes flip: n_def)
    moreover have "48 \<le> n - 4" "n - 4 \<le> 57" "n - 4 < 256" "52 + (n - 4 - 48) = n" using 3 by simp_all
    ultimately show ?thesis by (simp add: base64toValue_def codes code_char_of v)
  next
    case 4
    then have "v = 62" by (simp add: v)
    then show ?thesis by (simp add: base64char_def base64toValue_def codes)
  next
    case 5
    then have "v = 63" by (simp add: v)
    then show ?thesis by (simp add: base64char_def base64toValue_def codes)
  qed
qed

lemma base64b16_char: "v < 16 \<Longrightarrow> base64b16 v = base64char (push_bit 2 v)"
proof -
  have "\<forall>n\<in>set [0..<16]. base64b16 (of_nat n) = base64char (push_bit 2 (of_nat n))" by code_simp
  moreover assume "v < 16"
  then have "unat v \<in> set [0..<16]" by (simp add: word_less_nat_alt)
  ultimately show ?thesis by (metis ucast_id of_nat_unat)
qed

lemma base64b8_char: "v < 4 \<Longrightarrow> base64b8 v = base64char (push_bit 4 v)"
proof -
  have "\<forall>n\<in>set [0..<4]. base64b8 (of_nat n) = base64char (push_bit 4 (of_nat n))" by code_simp
  moreover assume "v < 4"
  then have "unat v \<in> set [0..<4]" by (simp add: word_less_nat_alt)
  ultimately show ?thesis by (metis ucast_id of_nat_unat)
qed


section \<open>Groups of bytes\<close>

text \<open>Facts about bytes, bit by bit.\<close>

lemma byte_bits:
  fixes v w :: byte
  shows "v = w \<longleftrightarrow> (\<forall>n\<in>{0,1,2,3,4,5,6,7}. bit v n = bit w n)"
proof
  assume eq: "\<forall>n\<in>{0,1,2,3,4,5,6,7}. bit v n = bit w n"
  show "v = w"
  proof (rule bit_word_eqI)
    fix n assume "n < LENGTH(8)"
    then have "n \<in> {0,1,2,3,4,5,6,7}" by auto
    with eq show "bit v n = bit w n" by blast
  qed
qed simp

lemma high_bit: "8 \<le> n \<Longrightarrow> \<not> bit (w :: byte) n"
  using bit_imp_le_length [of w n] by auto

lemmas byte_bitwise = byte_bits bit_simps high_bit numeral_2_eq_2 [symmetric]

lemma byte_small:
  fixes w :: byte
  assumes "take_bit k w = w" shows "unat w < 2 ^ k"
proof -
  have "unat w = take_bit k (unat w)" using assms by (metis unsigned_take_bit_eq)
  then show ?thesis by (metis take_bit_nat_less_exp)
qed

lemma enc_small: "enc1 b0 < 64" "enc2 b0 b1 < 64" "enc3 b1 b2 < 64" "enc4 b2 < 64"
proof -
  have "take_bit 6 (enc1 b0) = enc1 b0" "take_bit 6 (enc2 b0 b1) = enc2 b0 b1" "take_bit 6 (enc3 b1 b2) = enc3 b1 b2"
    "take_bit 6 (enc4 b2) = enc4 b2"
    by (simp_all add: byte_bitwise enc1_def enc2_def enc3_def enc4_def)
  from this [THEN byte_small] show "enc1 b0 < 64" "enc2 b0 b1 < 64" "enc3 b1 b2 < 64" "enc4 b2 < 64"
    by (simp_all add: word_less_nat_alt)
qed

lemma dec_enc:
  "push_bit 2 (enc1 b0) OR drop_bit 4 (enc2 b0 b1) = b0"
  "push_bit 4 (enc2 b0 b1 AND 0x0f) OR drop_bit 2 (enc3 b1 b2) = b1"
  "push_bit 6 (enc3 b1 b2 AND 0x03) OR enc4 b2 = b2"
  by (simp_all add: byte_bitwise enc1_def enc2_def enc3_def enc4_def)

section \<open>The text of RFC 4648\<close>

text \<open>
  The bits of the bytes, the most significant first, are cut into groups of six, the last filled up
  with zeros; each group is a character of the alphabet, and \<open>=\<close> fills the last four characters.
\<close>

definition alphabet :: string where
  "alphabet = ''ABCDEFGHIJKLMNOPQRSTUVWXYZabcdefghijklmnopqrstuvwxyz0123456789+/''"

definition bits_of :: "byte \<Rightarrow> bool list" where
  "bits_of b = map (bit b) [7, 6, 5, 4, 3, 2, 1, 0]"

fun sextets :: "bool list \<Rightarrow> bool list list" where
  "sextets [] = []"
| "sextets (x # xs) = (take 6 (x # xs) @ replicate (5 - length xs) False) # sextets (drop 5 xs)"

definition sextet_value :: "bool list \<Rightarrow> nat" where
  "sextet_value s = horner_sum of_bool 2 (rev s)"

definition padding :: "nat \<Rightarrow> string" where
  "padding n = (if n mod 3 = 1 then ''=='' else if n mod 3 = 2 then ''='' else '''')"

definition rfc4648 :: "byte list \<Rightarrow> string" where
  "rfc4648 bs = map (\<lambda>s. alphabet ! sextet_value s) (sextets (concat (map bits_of bs))) @ padding (length bs)"

lemma alphabet_map: "alphabet = map (\<lambda>n. base64char (of_nat n)) [0..<64]"
  by (simp add: upt_rec base64char_def alphabet_def code_def char_of_def bit_0)

lemma alphabet_char: "v < 64 \<Longrightarrow> alphabet ! unat v = base64char v"
  by (simp add: alphabet_map word_less_nat_alt)

text \<open>The value of six bits is that of the byte they are the low bits of.\<close>

lemma sextet_char:
  assumes "v < 64"
  shows "alphabet ! sextet_value [bit v 5, bit v 4, bit v 3, bit v 2, bit v 1, bit v 0] = base64char v"
proof -
  have "[bit v 0, bit v 1, bit v 2, bit v 3, bit v 4, bit v 5] = map (bit (unat v)) [0..<6]"
    by (simp add: upt_rec bit_simps numeral_eq_Suc)
  then have "sextet_value [bit v 5, bit v 4, bit v 3, bit v 2, bit v 1, bit v 0] = take_bit 6 (unat v)"
    using horner_sum_bit_eq_take_bit [of "unat v" 6] by (simp add: sextet_value_def)
  also have "\<dots> = unat v" using assms by (simp add: take_bit_nat_eq_self_iff word_less_nat_alt)
  finally show ?thesis using alphabet_char [OF assms] by simp
qed

lemma sextet_chars:
  "alphabet ! sextet_value [bit b0 7, bit b0 6, bit b0 5, bit b0 4, bit b0 3, bit b0 2] = base64char (enc1 b0)"
  "alphabet ! sextet_value [bit b0 1, bit b0 0, bit b1 7, bit b1 6, bit b1 5, bit b1 4] = base64char (enc2 b0 b1)"
  "alphabet ! sextet_value [bit b1 3, bit b1 2, bit b1 1, bit b1 0, bit b2 7, bit b2 6] = base64char (enc3 b1 b2)"
  "alphabet ! sextet_value [bit b2 5, bit b2 4, bit b2 3, bit b2 2, bit b2 1, bit b2 0] = base64char (enc4 b2)"
proof -
  have "[bit b0 7, bit b0 6, bit b0 5, bit b0 4, bit b0 3, bit b0 2] = map (bit (enc1 b0)) [5, 4, 3, 2, 1, 0]"
    "[bit b0 1, bit b0 0, bit b1 7, bit b1 6, bit b1 5, bit b1 4] = map (bit (enc2 b0 b1)) [5, 4, 3, 2, 1, 0]"
    "[bit b1 3, bit b1 2, bit b1 1, bit b1 0, bit b2 7, bit b2 6] = map (bit (enc3 b1 b2)) [5, 4, 3, 2, 1, 0]"
    "[bit b2 5, bit b2 4, bit b2 3, bit b2 2, bit b2 1, bit b2 0] = map (bit (enc4 b2)) [5, 4, 3, 2, 1, 0]"
    by (simp_all add: enc1_def enc2_def enc3_def enc4_def bit_simps high_bit numeral_2_eq_2 [symmetric])
  then show "alphabet ! sextet_value [bit b0 7, bit b0 6, bit b0 5, bit b0 4, bit b0 3, bit b0 2] = base64char (enc1 b0)"
    "alphabet ! sextet_value [bit b0 1, bit b0 0, bit b1 7, bit b1 6, bit b1 5, bit b1 4] = base64char (enc2 b0 b1)"
    "alphabet ! sextet_value [bit b1 3, bit b1 2, bit b1 1, bit b1 0, bit b2 7, bit b2 6] = base64char (enc3 b1 b2)"
    "alphabet ! sextet_value [bit b2 5, bit b2 4, bit b2 3, bit b2 2, bit b2 1, bit b2 0] = base64char (enc4 b2)"
    using sextet_char [OF enc_small(1), of b0] sextet_char [OF enc_small(2), of b0 b1]
      sextet_char [OF enc_small(3), of b1 b2] sextet_char [OF enc_small(4), of b2]
    by (simp_all only: list.map)
qed

section \<open>What the encoder writes\<close>

text \<open>The valid characters of the text; those of the last group are as if zeros followed.\<close>

fun enc_chars :: "byte list \<Rightarrow> string" where
  "enc_chars (b0 # b1 # b2 # bs) =
     [base64char (enc1 b0), base64char (enc2 b0 b1), base64char (enc3 b1 b2), base64char (enc4 b2)] @ enc_chars bs"
| "enc_chars [b0, b1] = [base64char (enc1 b0), base64char (enc2 b0 b1), base64char (enc3 b1 0)]"
| "enc_chars [b0] = [base64char (enc1 b0), base64char (enc2 b0 0)]"
| "enc_chars [] = []"

lemma enc_chars_rfc: "rfc4648 bs = enc_chars bs @ padding (length bs)"
proof -
  have z: "bit (0 :: byte) n = False" for n by simp
  have "map (\<lambda>s. alphabet ! sextet_value s) (sextets (concat (map bits_of bs))) = enc_chars bs"
  proof (induction bs rule: enc_chars.induct)
    case (1 b0 b1 b2 bs)
    then show ?case by (simp add: bits_of_def sextet_chars del: One_nat_def)
  next
    case (2 b0 b1)
    then show ?case using sextet_chars(1) [of b0] sextet_chars(2) [of b0 b1] sextet_chars(3) [of b1 0] by (simp add: bits_of_def sextet_chars numeral_eq_Suc)
  next
    case (3 b0)
    then show ?case using sextet_chars(1) [of b0] sextet_chars(2) [of b0 0] by (simp add: bits_of_def sextet_chars numeral_eq_Suc)
  qed simp
  then show ?thesis by (simp add: rfc4648_def)
qed

lemma last_chars:
  "base64b16 (b1 AND 0x0F) = base64char (enc3 b1 0)" "base64b8 (b0 AND 0x03) = base64char (enc2 b0 0)"
proof -
  have "take_bit 4 (b1 AND 0x0F) = b1 AND 0x0F" "take_bit 2 (b0 AND 0x03) = b0 AND 0x03"
    by (simp_all add: byte_bitwise)
  from this [THEN byte_small] have "b1 AND 0x0F < 16" "b0 AND 0x03 < 4" by (simp_all add: word_less_nat_alt)
  moreover have "push_bit 2 (b1 AND 0x0F) = enc3 b1 0" "push_bit 4 (b0 AND 0x03) = enc2 b0 0"
    by (simp_all add: enc3_def enc2_def)
  ultimately show "base64b16 (b1 AND 0x0F) = base64char (enc3 b1 0)" "base64b8 (b0 AND 0x03) = base64char (enc2 b0 0)"
    by (simp_all add: base64b16_char base64b8_char)
qed

lemma rfc_rec: "rfc4648 (b0 # b1 # b2 # bs) =
  [base64char (enc1 b0), base64char (enc2 b0 b1), base64char (enc3 b1 b2), base64char (enc4 b2)] @ rfc4648 bs"
  by (simp add: enc_chars_rfc padding_def)

lemma rfc_length: "length (rfc4648 bs) = 4 * ((length bs + 2) div 3)"
proof (induction bs rule: enc_chars.induct)
  case (1 b0 b1 b2 bs)
  have "length (rfc4648 (b0 # b1 # b2 # bs)) = 4 + length (rfc4648 bs)" by (simp add: rfc_rec)
  moreover have "length (b0 # b1 # b2 # bs) + 2 = (length bs + 2) + 3" by simp
  then have "(length (b0 # b1 # b2 # bs) + 2) div 3 = (length bs + 2) div 3 + 1" by (simp only: div_add_self2)
  ultimately show ?case using 1 by linarith
qed (simp_all add: enc_chars_rfc padding_def)

lemma encode_loop_writes:
  assumes "pos + length (rfc4648 bs) \<le> length q"
  shows "encode_loop bs pos q = Inr (pos + length (rfc4648 bs), take pos q @ rfc4648 bs @ drop (pos + length (rfc4648 bs)) q)"
  using assms
proof (induction bs arbitrary: pos q rule: enc_chars.induct)
  case (1 b0 b1 b2 bs)
  let ?g = "[base64char (enc1 b0), base64char (enc2 b0 b1), base64char (enc3 b1 b2), base64char (enc4 b2)]"
  let ?q = "take pos q @ ?g @ drop (pos + 4) q"
  have len: "pos + 4 + length (rfc4648 bs) \<le> length q" using "1.prems" by (simp add: rfc_rec)
  then have "encode_loop (b0 # b1 # b2 # bs) pos q = encode_loop bs (pos + 4) ?q"
    by (simp add: write_at_def numeral_eq_Suc)
  also have "\<dots> = Inr (pos + 4 + length (rfc4648 bs), take (pos + 4) ?q @ rfc4648 bs @ drop (pos + 4 + length (rfc4648 bs)) ?q)"
    by (rule "1.IH") (use len in simp)
  also have "take (pos + 4) ?q = take pos q @ ?g" using len by simp
  also have "drop (pos + 4 + length (rfc4648 bs)) ?q = drop (pos + 4 + length (rfc4648 bs)) q"
    using len by (simp add: numeral_eq_Suc add.commute)
  finally show ?case by (simp add: rfc_rec numeral_eq_Suc)
next
  case (2 b0 b1)
  then show ?case by (simp add: enc_chars_rfc padding_def write_at_def last_chars)
next
  case (3 b0)
  then show ?case by (simp add: enc_chars_rfc padding_def write_at_def last_chars)
qed (simp add: enc_chars_rfc padding_def)


lemma base64char_no_NUL: "v < 64 \<Longrightarrow> base64char v \<noteq> NUL"
  using value_base64char [of v] by (auto simp: base64toValue_def code_def)

lemma rfc_no_NUL: "NUL \<notin> set (rfc4648 bs)"
proof -
  have "NUL \<notin> set (enc_chars bs)"
    by (induction bs rule: enc_chars.induct) (simp_all add: base64char_no_NUL enc_small not_sym)
  then show ?thesis by (simp add: enc_chars_rfc padding_def)
qed

lemma encode_internal_yields:
  assumes "length bs < 2 ^ 31" "read_from p (length bs) = Inr bs"
  shows "yields (length (rfc4648 bs) + 1) h (Base64_Encode_Internal p (length bs) h) (rfc4648 bs)"
proof -
  let ?t = "rfc4648 bs"
  have "(if length bs = 0 then 0 else ((length bs - 1) div 3 + 1) * 4) = 4 * ((length bs + 2) div 3)"
  proof (cases "length bs")
    case (Suc n)
    then have "length bs + 2 = n + 3" by simp
    then have "(length bs + 2) div 3 = n div 3 + 1" by (simp only: div_add_self2)
    with Suc show ?thesis by simp
  qed simp
  then have size: "((if length bs = 0 then 0 else ((length bs - 1) div 3 + 1) * 4) + 1) mod 2 ^ 32 = length ?t + 1"
    using assms(1) by (simp add: rfc_length)
  show ?thesis
  proof (cases rule: malloc_chars_cases [of "length ?t + 1" h])
    case none
    then show ?thesis unfolding Base64_Encode_Internal_def Let_def size by (auto simp: yields_def)
  next
    case (some q)
    then have "encode_loop bs 0 q = Inr (length ?t, ?t @ drop (length ?t) q)"
      by (subst encode_loop_writes) simp_all
    moreover have "write_at (?t @ drop (length ?t) q) (length ?t) [NUL] = Inr (?t @ [NUL])"
      using some by (simp add: write_at_def)
    moreover have "is_text (Some (?t @ [NUL])) ?t"
      using some(3) c_string_terminated [OF rfc_no_NUL, of bs "[]"] by (simp add: is_text_def)
    ultimately show ?thesis using some assms(2) STRING_new_with_memory_yields [of "Some (?t @ [NUL])" ?t "\<lambda>i. h (Suc i)"]
      unfolding Base64_Encode_Internal_def Let_def size by (auto simp: yields_def)
  qed
qed

section \<open>What the decoder writes\<close>

fun decoded :: "string \<Rightarrow> byte list" where
  "decoded (x # y # z # w # cs) = [dec1 x y, dec2 y z, dec3 z w] @ decoded cs"
| "decoded [x, y, z] = [dec1 x y, dec2 y z]"
| "decoded [x, y] = [dec1 x y]"
| "decoded [x] = []"
| "decoded [] = []"

lemma decoded_length: "length (decoded cs) = length cs div 4 * 3 + (length cs mod 4 - 1)"
proof (induction cs rule: decoded.induct)
  case (1 x y z w cs)
  then show ?case by (simp add: div_add_self1)
qed simp_all

lemma decode_loop_writes:
  assumes "buffer b = Some ys" "pos + length (decoded cs) \<le> length ys"
  shows "decode_loop cs pos b = Inr (b\<lparr>buffer := Some (take pos ys @ decoded cs @ drop (pos + length (decoded cs)) ys)\<rparr>)"
  using assms
proof (induction cs arbitrary: pos b ys rule: decoded.induct)
  case (1 x y z w cs)
  let ?g = "[dec1 x y, dec2 y z, dec3 z w]"
  let ?ys = "take pos ys @ ?g @ drop (pos + 3) ys"
  let ?b = "b\<lparr>buffer := Some ?ys\<rparr>"
  have len: "pos + 3 + length (decoded cs) \<le> length ys" using "1.prems" by simp
  then have "store_in b pos ?g = Inr ?b" using "1.prems" by (simp add: store_in_def write_at_def numeral_eq_Suc)
  then have "decode_loop (x # y # z # w # cs) pos b = decode_loop cs (pos + 3) ?b" by simp
  also have "\<dots> = Inr (?b\<lparr>buffer := Some (take (pos + 3) ?ys @ decoded cs @ drop (pos + 3 + length (decoded cs)) ?ys)\<rparr>)"
    by (rule "1.IH") (use len in simp_all)
  also have "take (pos + 3) ?ys = take pos ys @ ?g" using len by simp
  also have "drop (pos + 3 + length (decoded cs)) ?ys = drop (pos + 3 + length (decoded cs)) ys"
    using len by (simp add: numeral_eq_Suc add.commute)
  finally show ?case by (simp add: numeral_eq_Suc)
qed (auto simp: store_in_def write_at_def)

lemma value_of_char: "v < 64 \<Longrightarrow> value_of (base64char v) = v"
  by (simp add: value_of_def value_base64char)

lemma decoded_enc_chars: "decoded (enc_chars bs) = bs"
  using dec_enc enc_small
  by (induction bs rule: enc_chars.induct) (simp_all add: dec1_def dec2_def dec3_def value_of_char)


section \<open>Decoding any text\<close>

abbreviation valid_chars :: "string \<Rightarrow> string" where
  "valid_chars t \<equiv> takeWhile (\<lambda>c. fst (base64toValue c) \<noteq> -1) t"

lemma valid_prefix: "take (numberOfBase64Characters t) t = valid_chars t"
  by (simp add: numberOfBase64Characters_def takeWhile_eq_take [symmetric])

text \<open>An invalid character ends the valid ones.\<close>

lemma valid_chars_end:
  assumes "fst (base64toValue (t ! i)) = -1" shows "length (valid_chars t) \<le> i"
proof (rule ccontr)
  assume "\<not> length (valid_chars t) \<le> i"
  then have i: "i < length (valid_chars t)" by simp
  then have "t ! i \<in> set (valid_chars t)" using takeWhile_nth [OF i] nth_mem [OF i] by simp
  then have "fst (base64toValue (t ! i)) \<noteq> -1" by (rule set_takeWhileD [THEN conjunct2])
  with assms show False by simp
qed

lemma equals_invalid: "fst (base64toValue (CHR ''='')) = -1"
  by (simp add: base64toValue_def code_def)

text \<open>The decoder has room for what it writes, whatever the text.\<close>

lemma decoded_fits:
  assumes "Base64decode_len t = Inr n" "length t mod 4 = 0"
  shows "length (decoded (valid_chars t)) \<le> n" "n \<le> length t div 4 * 3"
proof -
  obtain k where k: "length t = 4 * k" using assms(2) by auto
  let ?v = "length (valid_chars t)"
  have v: "?v \<le> 4 * k" using k by (metis length_takeWhile_le)
  have l: "length (decoded (valid_chars t)) = ?v div 4 * 3 + (?v mod 4 - 1)" by (rule decoded_length)
  have bound: "?v div 4 * 3 + (?v mod 4 - 1) \<le> 3 * k - d" if "?v + d \<le> 4 * k" "d \<le> 2" for d
  proof -
    have "?v = 4 * (?v div 4) + ?v mod 4" "?v mod 4 < 4" by simp_all
    with that show ?thesis by linarith
  qed
  show "length (decoded (valid_chars t)) \<le> n"
  proof (cases "k = 0")
    case True
    with k l v show ?thesis by simp
  next
    case False
    consider "t ! (4 * k - 1) \<noteq> CHR ''=''" "n = 3 * k"
      | "t ! (4 * k - 1) = CHR ''=''" "t ! (4 * k - 2) \<noteq> CHR ''=''" "n = 3 * k - 1"
      | "t ! (4 * k - 2) = CHR ''=''" "n = 3 * k - 2"
      using assms(1) k False by (auto simp: Base64decode_len_def Let_def split: if_splits)
    then show ?thesis
    proof cases
      case 1
      then show ?thesis using bound [of 0] v l by simp
    next
      case 2
      have "?v \<le> 4 * k - 1" using 2 equals_invalid by (intro valid_chars_end) simp_all
      with 2 show ?thesis using bound [of 1] l False by simp
    next
      case 3
      have "?v \<le> 4 * k - 2" using 3 equals_invalid by (intro valid_chars_end) simp_all
      with 3 show ?thesis using bound [of 2] l False by simp
    qed
  qed
  show "n \<le> length t div 4 * 3" using assms(1) by (auto simp: Base64decode_len_def Let_def split: if_splits)
qed

lemma decode_len_returns: "length t mod 4 = 0 \<Longrightarrow> \<exists>n. Base64decode_len t = Inr n"
  by (cases "length t") (auto simp: Base64decode_len_def Let_def)

lemma decode_runs:
  assumes "is_text p t" "length t mod 4 = 0" "Base64decode_len t = Inr n"
  shows "Azure_Base64_Decode p h =
    (if h 0 = None then Inr (None, \<lambda>i. h (Suc i))
     else if n = 0 then Inr (Some \<lparr>buffer = None, bsize = 0\<rparr>, \<lambda>i. h (Suc i))
     else case h 1 of None \<Rightarrow> Inr (None, \<lambda>i. h (Suc (Suc i)))
     | Some g \<Rightarrow>
         let d = decoded (valid_chars t)
         in Inr (Some \<lparr>buffer = Some (d @ map g [length d..<n]), bsize = n\<rparr>, \<lambda>i. h (Suc (Suc i))))"
  using assms(1)
proof (rule is_text_cases)
  fix b assume b: "p = Some b" "string_of (Some b) = Inr t" "length t < 2 ^ 31 - 1"
  note fits = decoded_fits [OF assms(3,2)]
  have n: "n < 2 ^ 31" using fits(2) b(3) by linarith
  have rest: "drop (length d) (map g [0..<n]) = map g [length d..<n]" for d :: "byte list" and g :: "nat \<Rightarrow> byte"
    by (simp add: drop_map drop_upt)
  have run: "Base64decode \<lparr>buffer = Some (map g [0..<n]), bsize = n\<rparr> t =
      Inr \<lparr>buffer = Some (decoded (valid_chars t) @ map g [length (decoded (valid_chars t))..<n]), bsize = n\<rparr>" for g
    unfolding Base64decode_def valid_prefix
    using decode_loop_writes [of "\<lparr>buffer = Some (map g [0..<n]), bsize = n\<rparr>" "map g [0..<n]" 0 "valid_chars t"] fits(1)
    by (simp add: rest)
  show ?thesis
    using b assms(2,3) n run
    by (simp add: Azure_Base64_Decode_def BUFFER_new_def BUFFER_pre_build_def BUFFER_u_char_def malloc_def Let_def
        split: option.splits)
qed

text \<open>
  Claim C19. The decoder of base 64 never leaves its buffer, but it may return heap contents: for any text whose
  length is a multiple of four, the buffer has the size that the length and the two last characters
  tell, the bytes of the characters before the first invalid one come first, there is room for
  them, and what is left of the buffer is as the allocator gave it; only an error of storage
  gives NULL, an invalid character never does.
\<close>

theorem base64_decode_any:
  assumes "is_text p t" "length t mod 4 = 0"
  shows "\<exists>n pkt h'. Base64decode_len t = Inr n \<and> Azure_Base64_Decode p h = Inr (pkt, h') \<and>
    length (decoded (valid_chars t)) \<le> n \<and>
    (h 0 \<noteq> None \<and> (n = 0 \<or> h 1 \<noteq> None) \<longrightarrow> (\<exists>b. pkt = Some b \<and> bsize b = n)) \<and>
    (\<forall>b g. pkt = Some b \<and> n > 0 \<and> h 1 = Some g \<longrightarrow>
       buffer b = Some (decoded (valid_chars t) @ map g [length (decoded (valid_chars t))..<n]))"
proof -
  obtain n where n: "Base64decode_len t = Inr n" using decode_len_returns [OF assms(2)] by blast
  show ?thesis
    using decode_runs [OF assms n, of h] n decoded_fits(1) [OF n assms(2)]
    by (auto simp: Let_def split: option.splits if_splits)
qed


section \<open>The round trip\<close>

lemma enc_chars_valid: "c \<in> set (enc_chars bs) \<Longrightarrow> fst (base64toValue c) = 0"
  by (induction bs rule: enc_chars.induct) (auto simp: value_base64char enc_small)

lemma valid_chars_rfc: "valid_chars (rfc4648 bs) = enc_chars bs"
proof -
  have "\<forall>c\<in>set (enc_chars bs). fst (base64toValue c) \<noteq> -1" using enc_chars_valid by fastforce
  then show ?thesis using equals_invalid by (simp add: enc_chars_rfc padding_def)
qed

lemma enc_chars_length: "length (enc_chars bs) + length (padding (length bs)) = 4 * ((length bs + 2) div 3)"
  using rfc_length [of bs] by (simp add: enc_chars_rfc)

lemma decode_len_rfc: "Base64decode_len (rfc4648 bs) = Inr (length bs)"
proof (cases "bs = []")
  case True
  then show ?thesis by (simp add: enc_chars_rfc padding_def Base64decode_len_def)
next
  case False
  let ?v = "enc_chars bs" and ?n = "length bs" and ?k = "(length bs + 2) div 3"
  have len: "length (rfc4648 bs) = 4 * ?k" by (rule rfc_length)
  have "3 * 1 \<le> length bs + 2" using False by (cases bs) simp_all
  then have "1 \<le> ?k" by (metis div_le_mono nonzero_mult_div_cancel_left zero_neq_numeral)
  then obtain m where m: "?k = Suc m" by (cases ?k) auto
  have k: "0 < ?k" "4 * ?k - 1 = 4 * m + 3" "4 * ?k - 2 = 4 * m + 2" using m by simp_all
  have ne: "?v ! i \<noteq> CHR ''=''" if "i < length ?v" for i
    using enc_chars_valid [OF nth_mem [OF that]] equals_invalid by auto
  note nth = enc_chars_rfc nth_append
  consider "?n mod 3 = 0" | "?n mod 3 = 1" | "?n mod 3 = 2" by linarith
  then show ?thesis
  proof cases
    case 1
    then have "?n = 3 * ?k" by presburger
    moreover have v: "length ?v = 4 * m + 4" using enc_chars_length [of bs] 1 m by (simp add: padding_def)
    then have "rfc4648 bs ! (4 * ?k - 1) \<noteq> CHR ''=''" using ne [of "4 * m + 3"] unfolding k(2) nth by simp
    ultimately show ?thesis unfolding Base64decode_len_def Let_def len using k by simp
  next
    case 2
    then have n: "?n = 3 * ?k - 2" by presburger
    have v: "length ?v = 4 * m + 2" using enc_chars_length [of bs] 2 m by (simp add: padding_def)
    then have "rfc4648 bs ! (4 * ?k - 1) = CHR ''=''" "rfc4648 bs ! (4 * ?k - 2) = CHR ''=''"
      using 2 unfolding v k(2,3) nth m by (simp_all add: padding_def)
    then show ?thesis unfolding Base64decode_len_def Let_def len using k n by simp
  next
    case 3
    then have n: "?n = 3 * ?k - 1" by presburger
    have v: "length ?v = 4 * m + 3" using enc_chars_length [of bs] 3 m by (simp add: padding_def)
    then have "rfc4648 bs ! (4 * ?k - 1) = CHR ''=''" "rfc4648 bs ! (4 * ?k - 2) \<noteq> CHR ''=''"
      using 3 ne [of "4 * m + 2"] v unfolding k(2,3) nth by (simp_all add: padding_def)
    then show ?thesis unfolding Base64decode_len_def Let_def len using k n by simp
  qed
qed

lemma decode_rfc_gives:
  assumes "is_text p (rfc4648 bs)"
  shows "gives h (Azure_Base64_Decode p h) bs"
proof -
  have "length (rfc4648 bs) mod 4 = 0" by (simp add: rfc_length)
  from decode_runs [OF assms this decode_len_rfc, of h] show ?thesis
    by (auto simp: valid_chars_rfc decoded_enc_chars Let_def gives_def contains_def plenty_def split: option.splits)
qed

lemma contains_read: "contains pkt bs \<Longrightarrow> \<exists>b. pkt = Some b \<and> bsize b = length bs \<and> read_from (buffer b) (length bs) = Inr bs"
  by (auto simp: contains_def read_from_def)

text \<open>
  Claim C18. Base 64 makes a round trip over RFC 4648: encoding a buffer or an array of bytes gives the text the RFC
  prescribes, and decoding that text gives the bytes back; neither does anything undefined, and
  NULL is given only when storage is short.
\<close>

theorem base64_roundtrip:
  assumes "contains pkt bs" "length bs < 2 ^ 31" "is_text p (rfc4648 bs)"
  shows "yields (length (rfc4648 bs) + 1) h (Azure_Base64_Encode pkt h) (rfc4648 bs) \<and>
    yields (length (rfc4648 bs) + 1) h (Azure_Base64_Encode_Bytes (Some bs) (length bs) h) (rfc4648 bs) \<and>
    gives h (Azure_Base64_Decode p h) bs"
proof (intro conjI)
  obtain b where b: "pkt = Some b" "bsize b = length bs" "read_from (buffer b) (length bs) = Inr bs"
    using contains_read [OF assms(1)] by blast
  show "yields (length (rfc4648 bs) + 1) h (Azure_Base64_Encode pkt h) (rfc4648 bs)"
    using encode_internal_yields [OF assms(2) b(3), of h] b(1,2)
    by (simp add: Azure_Base64_Encode_def BUFFER_content_def BUFFER_size_def)
  show "yields (length (rfc4648 bs) + 1) h (Azure_Base64_Encode_Bytes (Some bs) (length bs) h) (rfc4648 bs)"
  proof (cases "bs = []")
    case True
    then show ?thesis using STRING_new_yields [of h] by (simp add: Azure_Base64_Encode_Bytes_def enc_chars_rfc padding_def)
  next
    case False
    then show ?thesis using encode_internal_yields [OF assms(2), of "Some bs" h]
      by (simp add: Azure_Base64_Encode_Bytes_def read_from_def)
  qed
  show "gives h (Azure_Base64_Decode p h) bs" by (rule decode_rfc_gives [OF assms(3)])
qed

lemma base64_roundtrip_witness:
  "yields 9 junk_mem (Azure_Base64_Encode (Some \<lparr>buffer = Some [77, 97, 110, 77], bsize = 4\<rparr>) junk_mem) ''TWFuTQ=='' \<and>
   gives junk_mem (Azure_Base64_Decode (Some (''TWFuTQ=='' @ [NUL])) junk_mem) [77, 97, 110, 77]"
proof -
  have enc: "rfc4648 [77, 97, 110, 77] = ''TWFuTQ==''" by code_simp
  have len: "length ''TWFuTQ=='' + 1 = 9" by simp
  have 1: "contains (Some \<lparr>buffer = Some [77, 97, 110, 77], bsize = 4\<rparr>) [77, 97, 110, 77]" by (simp add: contains_def)
  have 2: "length [77 :: byte, 97, 110, 77] < 2 ^ 31" by simp
  have 3: "is_text (Some (''TWFuTQ=='' @ [NUL])) (rfc4648 [77, 97, 110, 77])"
    unfolding enc by (simp add: is_text_def c_string_def)
  show ?thesis using base64_roundtrip [OF 1 2 3, of junk_mem] unfolding enc len by blast
qed

lemma base64_decode_any_witness:
  "\<exists>b. fst (projr (Azure_Base64_Decode (Some (''TW!u'' @ [NUL])) junk_mem)) = Some b \<and> buffer b = Some [0x4D, 0xAA, 0xAA]"
proof -
  have "is_text (Some (''TW!u'' @ [NUL])) ''TW!u''" by (simp add: is_text_def c_string_def)
  moreover have "decoded (valid_chars ''TW!u'') = [0x4D]" by code_simp
  moreover have "Base64decode_len ''TW!u'' = Inr 3" by code_simp
  ultimately show ?thesis
    using base64_decode_any [of "Some (''TW!u'' @ [NUL])" "''TW!u''" junk_mem]
    by (auto simp: junk_mem_def upt_rec)
qed

end
