(* ===== verification/Azure_Url.thy ===== *)
theory Azure_Url
  imports Azure_Strings
begin

text \<open>
  URL encoding (\<open>azure_iot_sdk/c-utility/src/urlencode.c\<close>): the encoder counts, then writes; the
  decoder checks and counts, then writes.  Texts of ASCII make the round trip; what the encoder
  makes of other bytes the decoder refuses.
\<close>

section \<open>Characters\<close>

definition IS_HEXDIGIT :: "char \<Rightarrow> bool" where
  "IS_HEXDIGIT c = (
    code (CHR ''0'') \<le> code c \<and> code c \<le> code (CHR ''9'') \<or>
    code (CHR ''A'') \<le> code c \<and> code c \<le> code (CHR ''F'') \<or>
    code (CHR ''a'') \<le> code c \<and> code c \<le> code (CHR ''f''))"

definition IS_PRINTABLE :: "char \<Rightarrow> bool" where
  "IS_PRINTABLE c = (
    c = NUL \<or> c = CHR ''!'' \<or> c = CHR ''('' \<or> c = CHR '')'' \<or> c = CHR ''*'' \<or> c = CHR ''-'' \<or> c = CHR ''.'' \<or>
    code (CHR ''0'') \<le> code c \<and> code c \<le> code (CHR ''9'') \<or>
    code (CHR ''A'') \<le> code c \<and> code c \<le> code (CHR ''Z'') \<or>
    c = CHR ''_'' \<or>
    code (CHR ''a'') \<le> code c \<and> code c \<le> code (CHR ''z''))"

definition IS_IN_ASCII_RANGE :: "char \<Rightarrow> bool" where
  "IS_IN_ASCII_RANGE c = (code (CHR ''0'') \<le> code c \<and> code c \<le> code (CHR ''7''))"

definition NIBBLE_TO_STRING :: "nat \<Rightarrow> char" where
  "NIBBLE_TO_STRING n = char_of (if n < 10 then n + code (CHR ''0'') else n - 10 + code (CHR ''a''))"

text \<open>\<open>ISDIGIT(c) ? c - '0' : TOUPPER(c) + 10 - 'A'\<close>, as an \<open>unsigned char\<close>\<close>

definition NIBBLE_FROM_STRING :: "char \<Rightarrow> byte" where
  "NIBBLE_FROM_STRING c =
    (if isdigit c then byte_of c - 48
     else (if islower c then byte_of c - 97 + 65 else byte_of c) + 10 - 65)"

section \<open>Encoding\<close>

definition URL_PrintableChar :: "char \<Rightarrow> string" where
  "URL_PrintableChar c =
    (if IS_PRINTABLE c then [c]
     else
       let charVal = code c; v = charVal div 16; bigNibbleVal = (if v \<ge> 12 then v - 4 else v);
           bigNibbleStr = NIBBLE_TO_STRING bigNibbleVal; littleNibbleStr = NIBBLE_TO_STRING (charVal mod 16)
       in if charVal < 0x80 then [CHR ''%'', bigNibbleStr, littleNibbleStr]
          else [CHR ''%'', CHR ''c'', if charVal < 0xC0 then CHR ''2'' else CHR ''3'', CHR ''%'', bigNibbleStr, littleNibbleStr])"

definition URL_PrintableCharSize :: "char \<Rightarrow> nat" where
  "URL_PrintableCharSize c = (if IS_PRINTABLE c then 1 else if code c < 0x80 then 3 else 6)"

fun url_loop :: "string \<Rightarrow> nat \<Rightarrow> string \<Rightarrow> string outcome" where
  "url_loop [] pos q = Inr q"
| "url_loop (c # cs) pos q =
     cbind (write_at q pos (URL_PrintableChar c)) (url_loop cs (pos + length (URL_PrintableChar c)))"

definition encode_url_data :: "char_ptr \<Rightarrow> mem \<Rightarrow> (STRING_HANDLE \<times> mem) outcome" where
  "encode_url_data p h =
    cbind (string_of p) (\<lambda>t.
      let lengthOfResult = sum_list (map URL_PrintableCharSize (t @ [NUL])) mod 2 ^ 32
      in case malloc_chars lengthOfResult h of
           (None, h1) \<Rightarrow> Inr (None, h1)
         | (Some encodedURL, h1) \<Rightarrow>
             cbind (url_loop (t @ [NUL]) 0 encodedURL) (\<lambda>q. Inr (STRING_new_with_memory (Some q) h1)))"

definition URL_EncodeString :: "char_ptr \<Rightarrow> mem \<Rightarrow> (STRING_HANDLE \<times> mem) outcome" where
  "URL_EncodeString textEncode h = (if textEncode = None then Inr (None, h) else encode_url_data textEncode h)"

definition URL_Encode :: "STRING_HANDLE \<Rightarrow> mem \<Rightarrow> (STRING_HANDLE \<times> mem) outcome" where
  "URL_Encode input h = (if input = None then Inr (None, h) else encode_url_data (STRING_c_str input) h)"

section \<open>Decoding\<close>

text \<open>The number of characters a text decodes to; None for the \<open>break\<close> of an error.\<close>

fun size_loop :: "string \<Rightarrow> nat \<Rightarrow> nat option" where
  "size_loop [] decodedSize = Some decodedSize"
| "size_loop (c # cs) decodedSize =
    (if c = CHR ''%'' then
       (case cs of
          a # b # r \<Rightarrow>
            if \<not> IS_HEXDIGIT a \<or> \<not> IS_HEXDIGIT b then None
            else if \<not> IS_IN_ASCII_RANGE a then None
            else size_loop r (decodedSize + 1)
        | _ \<Rightarrow> None)
     else if \<not> IS_PRINTABLE c then None
     else size_loop cs (decodedSize + 1))"

definition calculateDecodedStringSize :: "string \<Rightarrow> nat" where
  "calculateDecodedStringSize t =
    (if t = [] then 1 else case size_loop t 0 of None \<Rightarrow> 0 | Some n \<Rightarrow> n + 1)"

definition charFromNibbles :: "char \<Rightarrow> char \<Rightarrow> char" where
  "charFromNibbles bigNibbleStr littleNibbleStr =
    char_of_byte (or (push_bit 4 (NIBBLE_FROM_STRING bigNibbleStr)) (NIBBLE_FROM_STRING littleNibbleStr))"

text \<open>The input is the text with its NUL, which is copied too.\<close>

fun createDecodedString :: "string \<Rightarrow> nat \<Rightarrow> string \<Rightarrow> string outcome" where
  "createDecodedString [] pos q = Inr q"
| "createDecodedString (c # cs) pos q =
    (if c \<noteq> CHR ''%'' then cbind (write_at q pos [c]) (createDecodedString cs (pos + 1))
     else case cs of
       a # b # r \<Rightarrow> cbind (write_at q pos [charFromNibbles a b]) (createDecodedString r (pos + 1))
     | _ \<Rightarrow> Inl Read_past_end)"

definition URL_Decode :: "STRING_HANDLE \<Rightarrow> mem \<Rightarrow> (STRING_HANDLE \<times> mem) outcome" where
  "URL_Decode input h =
    (if input = None then Inr (None, h)
     else cbind (string_of (STRING_c_str input)) (\<lambda>t.
       let decodedStringSize = calculateDecodedStringSize t
       in if decodedStringSize = 0 then Inr (None, h)
          else case malloc_chars decodedStringSize h of
            (None, h1) \<Rightarrow> Inr (None, h1)
          | (Some decodedString, h1) \<Rightarrow>
              cbind (createDecodedString (t @ [NUL]) 0 decodedString) (\<lambda>q. Inr (STRING_new_with_memory (Some q) h1))))"

definition URL_DecodeString :: "char_ptr \<Rightarrow> mem \<Rightarrow> (STRING_HANDLE \<times> mem) outcome" where
  "URL_DecodeString textDecode h =
    (if textDecode = None then Inr (None, h)
     else cbind (STRING_construct textDecode h) (\<lambda>(tempString, h1).
       if tempString = None then Inr (None, h1) else URL_Decode tempString h1))"

section \<open>What the encoder writes\<close>

definition url_text :: "string \<Rightarrow> string" where
  "url_text t = concat (map URL_PrintableChar t)"

lemma url_text_simps [simp]: "url_text [] = []" "url_text (c # cs) = URL_PrintableChar c @ url_text cs"
  by (simp_all add: url_text_def)

lemma piece_size: "length (URL_PrintableChar c) = URL_PrintableCharSize c"
  by (simp add: URL_PrintableChar_def URL_PrintableCharSize_def Let_def)

lemma NUL_piece [simp]: "URL_PrintableChar NUL = [NUL]"
  by (simp add: URL_PrintableChar_def IS_PRINTABLE_def)

lemma url_loop_writes:
  assumes "pos + length (url_text cs) \<le> length q"
  shows "url_loop cs pos q = Inr (take pos q @ url_text cs @ drop (pos + length (url_text cs)) q)"
  using assms
proof (induction cs arbitrary: pos q)
  case (Cons c cs)
  let ?p = "URL_PrintableChar c"
  let ?q = "take pos q @ ?p @ drop (pos + length ?p) q"
  have len: "pos + length ?p + length (url_text cs) \<le> length q" using Cons.prems by simp
  then have "url_loop (c # cs) pos q = url_loop cs (pos + length ?p) ?q" by (simp add: write_at_ok)
  also have "\<dots> = Inr (take (pos + length ?p) ?q @ url_text cs @ drop (pos + length ?p + length (url_text cs)) ?q)"
    by (rule Cons.IH) (use len in simp)
  also have "take (pos + length ?p) ?q = take pos q @ ?p" using len by simp
  also have "drop (pos + length ?p + length (url_text cs)) ?q = drop (pos + length ?p + length (url_text cs)) q"
    using len by (simp add: ac_simps)
  finally show ?case by (simp add: ac_simps)
qed simp

lemma nibble_no_NUL: "n < 16 \<Longrightarrow> NIBBLE_TO_STRING n \<noteq> NUL"
proof -
  assume n: "n < 16"
  have "code (NIBBLE_TO_STRING n) \<noteq> 0" using n by (simp add: NIBBLE_TO_STRING_def code_def)
  then show ?thesis by (auto simp: code_def)
qed

lemma code_less: "code c < 256"
  using of_char_mod_256 [of c, where 'a = nat] by (metis code_def mod_less_divisor zero_less_numeral)

lemma piece_no_NUL:
  assumes "c \<noteq> NUL" shows "NUL \<notin> set (URL_PrintableChar c)"
proof -
  have "code c div 16 < 16" using code_less [of c] by (simp add: less_mult_imp_div_less)
  then have "NIBBLE_TO_STRING (code c div 16) \<noteq> NUL" "NIBBLE_TO_STRING (code c div 16 - 4) \<noteq> NUL" by (simp_all add: nibble_no_NUL)
  moreover have "NIBBLE_TO_STRING (code c mod 16) \<noteq> NUL" by (simp add: nibble_no_NUL)
  ultimately show ?thesis using assms by (auto simp: URL_PrintableChar_def Let_def)
qed

lemma encode_url_yields:
  assumes "is_text p t" "length (url_text t) + 1 < 2 ^ 32"
  shows "yields (length (url_text t) + 1) h (encode_url_data p h) (url_text t)"
proof -
  let ?u = "url_text t"
  have sum: "sum_list (map URL_PrintableCharSize t) = length ?u"
    by (simp add: url_text_def length_concat comp_def piece_size)
  have "sum_list (map URL_PrintableCharSize (t @ [NUL])) = length ?u + 1"
    using piece_size [of NUL] sum by simp
  then have size: "sum_list (map URL_PrintableCharSize (t @ [NUL])) mod 2 ^ 32 = length ?u + 1" using assms(2) by simp
  have nul: "NUL \<notin> set ?u" using is_text_no_NUL [OF assms(1)] by (induction t) (auto simp: piece_no_NUL)
  have "url_text (t @ [NUL]) = ?u @ [NUL]" by (induction t) simp_all
  then have run: "url_loop (t @ [NUL]) 0 q = Inr (?u @ [NUL])" if "length q = length ?u + 1" for q
    using url_loop_writes [of 0 "t @ [NUL]" q] that by simp
  show ?thesis
  proof (cases rule: malloc_chars_cases [of "length ?u + 1" h])
    case none
    then show ?thesis unfolding encode_url_data_def is_text_string_of [OF assms(1)] Let_def cbind_simps size
      by (auto simp: yields_def)
  next
    case (some q)
    have "is_text (Some (?u @ [NUL])) ?u"
      using some(3) c_string_terminated [OF nul, of "[]"] by (simp add: is_text_def)
    with some STRING_new_with_memory_yields [of "Some (?u @ [NUL])" ?u "\<lambda>i. h (Suc i)"] run [OF some(2)] show ?thesis
      unfolding encode_url_data_def is_text_string_of [OF assms(1)] Let_def cbind_simps size
      by (auto simp: yields_def)
  qed
qed

section \<open>What the decoder writes\<close>

fun url_decoded :: "string \<Rightarrow> string" where
  "url_decoded (c # cs) =
    (if c \<noteq> CHR ''%'' then c # url_decoded cs
     else case cs of a # b # r \<Rightarrow> charFromNibbles a b # url_decoded r | _ \<Rightarrow> [])"
| "url_decoded [] = []"

lemma size_loop_decoded: "size_loop t n = Some m \<Longrightarrow> m = n + length (url_decoded t)"
  by (induction t n rule: size_loop.induct) (auto split: if_splits list.splits)

lemma create_writes:
  assumes "size_loop t n = Some m" "pos + length (url_decoded t) + 1 \<le> length q"
  shows "createDecodedString (t @ [NUL]) pos q =
    Inr (take pos q @ url_decoded t @ NUL # drop (pos + length (url_decoded t) + 1) q)"
  using assms
proof (induction t n arbitrary: pos q rule: size_loop.induct)
  case (1 n)
  then show ?case by (simp add: write_at_ok)
next
  case (2 c cs n)
  have step: "cbind (write_at q pos [d]) (createDecodedString (r @ [NUL]) (pos + 1)) =
      Inr (take pos q @ (d # url_decoded r) @ NUL # drop (pos + length (d # url_decoded r) + 1) q)"
    if "\<And>pos q. pos + length (url_decoded r) + 1 \<le> length q \<Longrightarrow> createDecodedString (r @ [NUL]) pos q =
        Inr (take pos q @ url_decoded r @ NUL # drop (pos + length (url_decoded r) + 1) q)"
      "pos + length (d # url_decoded r) + 1 \<le> length q" for d r
    using that(2) that(1) [of "pos + 1" "take pos q @ [d] @ drop (pos + 1) q"]
    by (simp add: write_at_ok min_def add.commute)
  show ?case
  proof (cases "c = CHR ''%''")
    case True
    with "2.prems"(1) obtain a b r where r: "cs = a # b # r" "IS_HEXDIGIT a" "IS_HEXDIGIT b" "IS_IN_ASCII_RANGE a"
      "size_loop r (n + 1) = Some m" by (auto split: list.splits if_splits)
    from "2.IH"(1) [OF True r(1) refl] r have "pos + length (url_decoded r) + 1 \<le> length q \<Longrightarrow> createDecodedString (r @ [NUL]) pos q =
        Inr (take pos q @ url_decoded r @ NUL # drop (pos + length (url_decoded r) + 1) q)" for pos q by simp
    from step [OF this, of "charFromNibbles a b"] True r "2.prems"(2) show ?thesis by simp
  next
    case False
    with "2.prems"(1) have r: "IS_PRINTABLE c" "size_loop cs (n + 1) = Some m" by (auto split: if_splits)
    from "2.IH"(2) [OF False] r have "pos + length (url_decoded cs) + 1 \<le> length q \<Longrightarrow> createDecodedString (cs @ [NUL]) pos q =
        Inr (take pos q @ url_decoded cs @ NUL # drop (pos + length (url_decoded cs) + 1) q)" for pos q by simp
    from step [OF this, of c] False "2.prems"(2) show ?thesis by simp
  qed
qed

section \<open>Encoded characters, decoded\<close>

lemma nibble_back:
  assumes "n < 16" shows "NIBBLE_FROM_STRING (NIBBLE_TO_STRING n) = of_nat n \<and> IS_HEXDIGIT (NIBBLE_TO_STRING n)"
proof (cases "n < 10")
  case True
  then have "NIBBLE_TO_STRING n = char_of (n + 48)" by (simp add: NIBBLE_TO_STRING_def code_def)
  with True show ?thesis
    by (simp add: NIBBLE_FROM_STRING_def IS_HEXDIGIT_def isdigit_def byte_of_def code_def)
next
  case False
  then obtain k where k: "n = 10 + k" "k < 6" using assms by (intro that [of "n - 10"]) simp_all
  then have "NIBBLE_TO_STRING n = char_of (k + 97)" by (simp add: NIBBLE_TO_STRING_def code_def add.commute)
  with k show ?thesis
    by (simp add: NIBBLE_FROM_STRING_def IS_HEXDIGIT_def isdigit_def islower_def byte_of_def code_def)
qed

lemma join_nibbles:
  assumes "l < 16" shows "or (push_bit 4 (of_nat h :: byte)) (of_nat l) = of_nat (16 * h + l)"
proof -
  have "\<not> bit l n" if "4 \<le> n" for n
  proof -
    have "l < 2 ^ n" using assms power_increasing [OF that, of "2::nat"] by simp
    then show ?thesis by (simp add: bit_iff_odd)
  qed
  then have "push_bit 4 (of_nat h :: byte) + of_nat l = or (push_bit 4 (of_nat h)) (of_nat l)"
    by (intro disjunctive_add) (auto simp: bit_simps)
  then show ?thesis by (simp add: push_bit_eq_mult mult.commute)
qed

lemma nibbles_back:
  assumes "code c < 128"
  shows "charFromNibbles (NIBBLE_TO_STRING (code c div 16)) (NIBBLE_TO_STRING (code c mod 16)) = c"
proof -
  have "code c div 16 < 16" using assms by (simp add: less_mult_imp_div_less)
  then have "charFromNibbles (NIBBLE_TO_STRING (code c div 16)) (NIBBLE_TO_STRING (code c mod 16)) =
      char_of_byte (of_nat (code c))"
    by (simp add: charFromNibbles_def nibble_back join_nibbles)
  also have "of_nat (code c) = byte_of c" by (simp add: byte_of_def code_def)
  finally show ?thesis by simp
qed

lemma percent_not_printable: "\<not> IS_PRINTABLE (CHR ''%'')"
  by (simp add: IS_PRINTABLE_def code_def)

lemma ascii_nibble: "n < 8 \<Longrightarrow> IS_IN_ASCII_RANGE (NIBBLE_TO_STRING n)"
  by (simp add: IS_IN_ASCII_RANGE_def NIBBLE_TO_STRING_def code_def)

text \<open>One ASCII character is written and read back; any other ends the decoding.\<close>

lemma ascii_piece:
  assumes "code c < 128"
  shows "size_loop (URL_PrintableChar c @ r) n = size_loop r (n + 1)" "url_decoded (URL_PrintableChar c @ r) = c # url_decoded r"
proof -
  have d: "code c div 16 < 8" using assms by (simp add: less_mult_imp_div_less)
  have d16: "code c div 16 < 16" using d by simp
  have p: "c = CHR ''%'' \<Longrightarrow> \<not> IS_PRINTABLE c" by (simp add: percent_not_printable)
  show "size_loop (URL_PrintableChar c @ r) n = size_loop r (n + 1)"
    using assms d d16 p by (auto simp: URL_PrintableChar_def Let_def nibble_back ascii_nibble)
  show "url_decoded (URL_PrintableChar c @ r) = c # url_decoded r"
    using assms d p nibbles_back [OF assms] by (auto simp: URL_PrintableChar_def Let_def)
qed

lemma other_piece: "128 \<le> code c \<Longrightarrow> size_loop (URL_PrintableChar c @ r) n = None"
proof -
  assume c: "128 \<le> code c"
  then have "\<not> IS_PRINTABLE c" by (auto simp: IS_PRINTABLE_def code_def)
  moreover have "\<not> IS_IN_ASCII_RANGE (CHR ''c'')" by (simp add: IS_IN_ASCII_RANGE_def code_def)
  ultimately show ?thesis using c by (simp add: URL_PrintableChar_def Let_def)
qed

lemma ascii_text: "\<forall>c\<in>set t. code c < 128 \<Longrightarrow> size_loop (url_text t) n = Some (n + length t) \<and> url_decoded (url_text t) = t"
  by (induction t arbitrary: n) (simp_all add: ascii_piece)

lemma other_text: "\<exists>c\<in>set t. 128 \<le> code c \<Longrightarrow> size_loop (url_text t) n = None"
proof (induction t arbitrary: n)
  case (Cons c t)
  then show ?case by (cases "128 \<le> code c") (auto simp: other_piece ascii_piece)
qed simp

section \<open>Decoding any text\<close>

lemma size_zero: "calculateDecodedStringSize t = 0 \<longleftrightarrow> size_loop t 0 = None"
  by (auto simp: calculateDecodedStringSize_def split: option.splits)

lemma decode_refuses: "str_is s t \<Longrightarrow> size_loop t 0 = None \<Longrightarrow> URL_Decode s h = Inr (None, h)"
  using size_zero [of t] by (auto simp: URL_Decode_def str_is_def is_text_Some is_text_string_of STRING_c_str_def dest: is_text_Some)

lemma decode_yields:
  assumes "str_is s t" "size_loop t 0 = Some m"
  shows "yields (m + 1) h (URL_Decode s h) (takeWhile (\<lambda>c. c \<noteq> NUL) (url_decoded t))"
proof -
  let ?d = "url_decoded t"
  have s: "s \<noteq> None" "string_of (STRING_c_str s) = Inr t"
    using assms(1) by (auto simp: str_is_def STRING_c_str_def is_text_string_of dest: is_text_Some)
  have m: "m = length ?d" using size_loop_decoded [OF assms(2)] by simp
  have size: "calculateDecodedStringSize t = m + 1" using assms(2) by (auto simp: calculateDecodedStringSize_def)
  show ?thesis
  proof (cases rule: malloc_chars_cases [of "m + 1" h])
    case none
    then show ?thesis using s size by (auto simp: URL_Decode_def yields_def)
  next
    case (some q)
    have run: "createDecodedString (t @ [NUL]) 0 q = Inr (?d @ [NUL])"
      using create_writes [OF assms(2), of 0 q] some(2) m by simp
    have it: "is_text (Some (?d @ [NUL])) (takeWhile (\<lambda>c. c \<noteq> NUL) ?d)"
    proof (cases "NUL \<in> set ?d")
      case True
      then have "takeWhile (\<lambda>c. c \<noteq> NUL) (?d @ [NUL]) = takeWhile (\<lambda>c. c \<noteq> NUL) ?d" by (simp add: takeWhile_append1)
      with some(3) m show ?thesis by (simp add: is_text_def c_string_def)
    next
      case False
      then have "takeWhile (\<lambda>c. c \<noteq> NUL) ?d = ?d" by (subst takeWhile_eq_all_conv) auto
      moreover have "is_text (Some (?d @ [NUL])) ?d"
        using some(3) m c_string_terminated [OF False, of "[]"] by (simp add: is_text_def)
      ultimately show ?thesis by (simp only:)
    qed
    with some run s size STRING_new_with_memory_yields [OF it, of "\<lambda>i. h (Suc i)"] show ?thesis
      by (auto simp: URL_Decode_def yields_def)
  qed
qed

lemma decode_string_any:
  assumes "is_text p t"
  shows "if size_loop t 0 = None then \<exists>h'. URL_DecodeString p h = Inr (None, h')
    else yields (length t + 1) h (URL_DecodeString p h) (takeWhile (\<lambda>c. c \<noteq> NUL) (url_decoded t))"
proof -
  obtain s h1 where c: "STRING_construct p h = Inr (s, h1)" "s = None \<or> str_is s t"
    "plenty h \<and> length t + 1 < 2 ^ 31 \<Longrightarrow> s \<noteq> None \<and> plenty h1"
    using STRING_construct_yields [OF assms, of h] by (auto simp: yields_def)
  have shorter: "size_loop t n = Some m \<Longrightarrow> m \<le> n + length t" for n m
    by (induction t n rule: size_loop.induct) (auto split: if_splits list.splits)
  obtain b where p: "p = Some b" using assms by (auto simp: is_text_def)
  show ?thesis
  proof (cases "s = None")
    case True
    with c p show ?thesis by (auto simp: URL_DecodeString_def yields_def)
  next
    case False
    with c have s: "str_is s t" by simp
    show ?thesis
    proof (cases "size_loop t 0")
      case None
      with decode_refuses [OF s None, of h1] c False p show ?thesis by (simp add: URL_DecodeString_def)
    next
      case (Some m)
      with decode_yields [OF s Some, of h1] c False p shorter [OF Some] show ?thesis
        by (auto simp: URL_DecodeString_def yields_def)
    qed
  qed
qed

text \<open>
  Claim C20. URL encoding and decoding: the encoder gives the percent encoding of any text, for which it counted the
  storage; decoding that gives the text back when it is ASCII, and is refused when any byte of the text is above 127,
  although the encoder wrote it: two bytes of UTF-8 of which the decoder accepts none.
\<close>

theorem url_roundtrip:
  assumes "is_text p t" "is_text p2 (url_text t)" "length (url_text t) + 1 < 2 ^ 32"
  shows "yields (length (url_text t) + 1) h (URL_EncodeString p h) (url_text t) \<and>
    (if \<forall>c\<in>set t. code c < 128 then yields (length (url_text t) + 1) h (URL_DecodeString p2 h) t
     else \<exists>h'. URL_DecodeString p2 h = Inr (None, h'))"
proof
  show "yields (length (url_text t) + 1) h (URL_EncodeString p h) (url_text t)"
    using encode_url_yields [OF assms(1,3), of h] assms(1) by (auto simp: URL_EncodeString_def is_text_def)
  show "if \<forall>c\<in>set t. code c < 128 then yields (length (url_text t) + 1) h (URL_DecodeString p2 h) t
     else \<exists>h'. URL_DecodeString p2 h = Inr (None, h')"
  proof (cases "\<forall>c\<in>set t. code c < 128")
    case True
    have "takeWhile (\<lambda>c. c \<noteq> NUL) t = t" using is_text_no_NUL [OF assms(1)] by (subst takeWhile_eq_all_conv) auto
    with ascii_text [OF True, of 0] decode_string_any [OF assms(2), of h]
    have "yields (length (url_text t) + 1) h (URL_DecodeString p2 h) t" by (simp only: option.distinct if_False simp_thms)
    then show ?thesis by (rule if_P [OF True, THEN iffD2])
  next
    case False
    then have "size_loop (url_text t) 0 = None" by (intro other_text) (meson not_less)
    with decode_string_any [OF assms(2), of h] have "\<exists>h'. URL_DecodeString p2 h = Inr (None, h')"
      by (simp only: if_True simp_thms)
    then show ?thesis by (rule if_not_P [OF False, THEN iffD2])
  qed
qed

lemma url_roundtrip_witness:
  "yields 8 junk_mem (URL_EncodeString (Some ([CHR ''a'', CHR '' '', CHR ''/''] @ [NUL])) junk_mem) ''a%20%2f'' \<and>
   yields 8 junk_mem (URL_DecodeString (Some (''a%20%2f'' @ [NUL])) junk_mem) ''a /''"
proof -
  have enc: "url_text ''a /'' = ''a%20%2f''" by code_simp
  have len: "length ''a%20%2f'' + 1 = 8" by simp
  have ascii: "\<forall>c\<in>set ''a /''. code c < 128" by (simp add: code_def)
  have 1: "is_text (Some (''a /'' @ [NUL])) ''a /''" by (simp add: is_text_def c_string_def)
  have 2: "is_text (Some (''a%20%2f'' @ [NUL])) (url_text ''a /'')" unfolding enc by (simp add: is_text_def c_string_def)
  have 3: "length (url_text ''a /'') + 1 < 2 ^ 32" unfolding enc by simp
  show ?thesis using url_roundtrip [OF 1 2 3, of junk_mem] unfolding enc len if_P [OF ascii] by simp
qed

end
