(* ===== verification/Azure_Map.thy ===== *)
theory Azure_Map
  imports Azure_Strings
begin

text \<open>
  The maps of the Azure SDK (\<open>azure_iot_sdk/c-utility/src/map.c\<close>): two arrays of texts that grow by
  one, and that the operations on them are those on finite maps, whatever the allocator answers.
\<close>

section \<open>State\<close>

datatype MAP_RESULT = MAP_OK | MAP_ERROR | MAP_INVALIDARG | MAP_KEYEXISTS | MAP_KEYNOTFOUND | MAP_FILTER_REJECT

text \<open>
  An entry of an array is a pointer: NULL or the text it points to, which the map owns.  The array
  itself is NULL when it is empty; it may be longer than the count.  A filter tells whether a pair
  is rejected.
\<close>

record MAP_HANDLE_DATA =
  keys_of :: "string option list"
  values_of :: "string option list"
  count :: nat
  mapFilterCallback :: "(string \<Rightarrow> string \<Rightarrow> int) option"

type_synonym MAP_HANDLE = "MAP_HANDLE_DATA option"

definition Map_Create :: "(string \<Rightarrow> string \<Rightarrow> int) option \<Rightarrow> mem \<Rightarrow> MAP_HANDLE \<times> mem" where
  "Map_Create mapFilterFunc h =
    (if h 0 = None then None
     else Some \<lparr>keys_of = [], values_of = [], count = 0, mapFilterCallback = mapFilterFunc\<rparr>, \<lambda>i. h (Suc i))"

text \<open>\<open>mallocAndStrcpy_s\<close> of \<open>crt_abstractions.c\<close>: the copy, or None when there is no storage.\<close>

definition mallocAndStrcpy_s :: "string \<Rightarrow> mem \<Rightarrow> string option \<times> mem" where
  "mallocAndStrcpy_s t h =
    (case malloc_chars (size_add (length t) 1) h of (q, h1) \<Rightarrow> (if q = None then None else Some t, h1))"

section \<open>Storage\<close>

text \<open>The arrays grow by an entry that is NULL; when the second cannot, the first is made smaller again.\<close>

definition Map_IncreaseStorageKeysValues :: "MAP_HANDLE_DATA \<Rightarrow> mem \<Rightarrow> mu \<times> MAP_HANDLE_DATA \<times> mem" where
  "Map_IncreaseStorageKeysValues m h =
    (if h 0 = None then (MU_FAILURE, m, \<lambda>i. h (Suc i))
     else
       let m1 = m\<lparr>keys_of := take (count m) (keys_of m) @ [None]\<rparr>
       in if h 1 = None then
            (if count m = 0 then (MU_FAILURE, m1\<lparr>keys_of := []\<rparr>, \<lambda>i. h (i + 2))
             else if h 2 = None then (MU_FAILURE, m1, \<lambda>i. h (i + 3))
             else (MU_FAILURE, m1\<lparr>keys_of := take (count m) (keys_of m1)\<rparr>, \<lambda>i. h (i + 3)))
          else (MU_OK, m1\<lparr>values_of := take (count m) (values_of m) @ [None], count := count m + 1\<rparr>, \<lambda>i. h (i + 2)))"

definition Map_DecreaseStorageKeysValues :: "MAP_HANDLE_DATA \<Rightarrow> mem \<Rightarrow> MAP_HANDLE_DATA \<times> mem" where
  "Map_DecreaseStorageKeysValues m h =
    (if count m = 1 then (\<lparr>keys_of = [], values_of = [], count = 0, mapFilterCallback = None\<rparr>, h)
     else
       let m1 = (if h 0 = None then m else m\<lparr>keys_of := take (count m - 1) (keys_of m)\<rparr>);
           m2 = (if h 1 = None then m1 else m1\<lparr>values_of := take (count m - 1) (values_of m)\<rparr>)
       in (m2\<lparr>count := count m - 1\<rparr>, \<lambda>i. h (i + 2)))"

text \<open>The index of the first entry that is the text; \<open>strcmp\<close> does not accept NULL.\<close>

fun find_entry :: "string option list \<Rightarrow> nat \<Rightarrow> nat \<Rightarrow> string \<Rightarrow> nat option outcome" where
  "find_entry xs i 0 t = Inr None"
| "find_entry [] i (Suc n) t = Inl Read_past_end"
| "find_entry (x # xs) i (Suc n) t =
    (case x of None \<Rightarrow> Inl Null_pointer
     | Some k \<Rightarrow> if k = t then Inr (Some i) else find_entry xs (i + 1) n t)"

definition findKey :: "MAP_HANDLE_DATA \<Rightarrow> string \<Rightarrow> nat option outcome" where
  "findKey m key = (if keys_of m = [] then Inr None else find_entry (keys_of m) 0 (count m) key)"

definition findValue :: "MAP_HANDLE_DATA \<Rightarrow> string \<Rightarrow> nat option outcome" where
  "findValue m v = (if values_of m = [] then Inr None else find_entry (values_of m) 0 (count m) v)"

text \<open>An entry of the arrays is set.\<close>

definition set_entry :: "string option list \<Rightarrow> nat \<Rightarrow> string option \<Rightarrow> string option list outcome" where
  "set_entry xs i x = (if i < length xs then Inr (xs[i := x]) else Inl Buffer_overflow)"

definition insertNewKeyValue :: "MAP_HANDLE_DATA \<Rightarrow> string \<Rightarrow> string \<Rightarrow> mem \<Rightarrow> (mu \<times> MAP_HANDLE_DATA \<times> mem) outcome" where
  "insertNewKeyValue m key v h =
    (case Map_IncreaseStorageKeysValues m h of
       (MU_FAILURE, m1, h1) \<Rightarrow> Inr (MU_FAILURE, m1, h1)
     | (MU_OK, m1, h1) \<Rightarrow>
         (case mallocAndStrcpy_s key h1 of
            (None, h2) \<Rightarrow> Inr (case Map_DecreaseStorageKeysValues m1 h2 of (m2, h3) \<Rightarrow> (MU_FAILURE, m2, h3))
          | (Some k, h2) \<Rightarrow>
              cbind (set_entry (keys_of m1) (count m1 - 1) (Some k)) (\<lambda>ks.
                let m2 = m1\<lparr>keys_of := ks\<rparr>
                in case mallocAndStrcpy_s v h2 of
                     (None, h3) \<Rightarrow> Inr (case Map_DecreaseStorageKeysValues m2 h3 of (m3, h4) \<Rightarrow> (MU_FAILURE, m3, h4))
                   | (Some x, h3) \<Rightarrow>
                       cbind (set_entry (values_of m2) (count m2 - 1) (Some x)) (\<lambda>vs.
                         Inr (MU_OK, m2\<lparr>values_of := vs\<rparr>, h3)))))"

section \<open>The operations\<close>

text \<open>The texts of the arguments, or None for NULL.\<close>

definition rejected :: "MAP_HANDLE_DATA \<Rightarrow> string \<Rightarrow> string \<Rightarrow> bool" where
  "rejected m key v = (case mapFilterCallback m of None \<Rightarrow> False | Some f \<Rightarrow> f key v \<noteq> 0)"

definition Map_Add :: "MAP_HANDLE \<Rightarrow> string option \<Rightarrow> string option \<Rightarrow> mem \<Rightarrow> (MAP_RESULT \<times> MAP_HANDLE \<times> mem) outcome" where
  "Map_Add handle key v h =
    (case (handle, key, v) of
       (Some m, Some k, Some x) \<Rightarrow>
         cbind (findKey m k) (\<lambda>f.
           if f \<noteq> None then Inr (MAP_KEYEXISTS, handle, h)
           else if rejected m k x then Inr (MAP_FILTER_REJECT, handle, h)
           else cbind (insertNewKeyValue m k x h) (\<lambda>(r, m1, h1).
             Inr (if r = MU_OK then MAP_OK else MAP_ERROR, Some m1, h1)))
     | _ \<Rightarrow> Inr (MAP_INVALIDARG, handle, h))"

definition Map_AddOrUpdate :: "MAP_HANDLE \<Rightarrow> string option \<Rightarrow> string option \<Rightarrow> mem \<Rightarrow> (MAP_RESULT \<times> MAP_HANDLE \<times> mem) outcome" where
  "Map_AddOrUpdate handle key v h =
    (case (handle, key, v) of
       (Some m, Some k, Some x) \<Rightarrow>
         if rejected m k x then Inr (MAP_FILTER_REJECT, handle, h)
         else cbind (findKey m k) (\<lambda>f.
           case f of
             None \<Rightarrow> cbind (insertNewKeyValue m k x h) (\<lambda>(r, m1, h1).
               Inr (if r = MU_OK then MAP_OK else MAP_ERROR, Some m1, h1))
           | Some index \<Rightarrow>
               (case malloc_chars (size_add (length x) 1) h of
                  (None, h1) \<Rightarrow> Inr (MAP_ERROR, handle, h1)
                | (Some _, h1) \<Rightarrow>
                    cbind (set_entry (values_of m) index (Some x)) (\<lambda>vs. Inr (MAP_OK, Some (m\<lparr>values_of := vs\<rparr>), h1))))
     | _ \<Rightarrow> Inr (MAP_INVALIDARG, handle, h))"

text \<open>The entries behind the index move down by one: \<open>memmove\<close> of the \<open>count - index - 1\<close> of them.\<close>

definition move_down :: "string option list \<Rightarrow> nat \<Rightarrow> nat \<Rightarrow> string option list" where
  "move_down xs index n = take index xs @ take (n - index - 1) (drop (index + 1) xs) @ drop (n - 1) xs"

definition Map_Delete :: "MAP_HANDLE \<Rightarrow> string option \<Rightarrow> mem \<Rightarrow> (MAP_RESULT \<times> MAP_HANDLE \<times> mem) outcome" where
  "Map_Delete handle key h =
    (case (handle, key) of
       (Some m, Some k) \<Rightarrow>
         cbind (findKey m k) (\<lambda>f.
           case f of
             None \<Rightarrow> Inr (MAP_KEYNOTFOUND, handle, h)
           | Some index \<Rightarrow>
               (case Map_DecreaseStorageKeysValues
                  (m\<lparr>keys_of := move_down (keys_of m) index (count m), values_of := move_down (values_of m) index (count m)\<rparr>) h of
                  (m1, h1) \<Rightarrow> Inr (MAP_OK, Some m1, h1)))
     | _ \<Rightarrow> Inr (MAP_INVALIDARG, handle, h))"

definition Map_ContainsKey :: "MAP_HANDLE \<Rightarrow> string option \<Rightarrow> (MAP_RESULT \<times> bool option) outcome" where
  "Map_ContainsKey handle key =
    (case (handle, key) of
       (Some m, Some k) \<Rightarrow> cbind (findKey m k) (\<lambda>f. Inr (MAP_OK, Some (f \<noteq> None)))
     | _ \<Rightarrow> Inr (MAP_INVALIDARG, None))"

definition Map_ContainsValue :: "MAP_HANDLE \<Rightarrow> string option \<Rightarrow> (MAP_RESULT \<times> bool option) outcome" where
  "Map_ContainsValue handle v =
    (case (handle, v) of
       (Some m, Some x) \<Rightarrow> cbind (findValue m x) (\<lambda>f. Inr (MAP_OK, Some (f \<noteq> None)))
     | _ \<Rightarrow> Inr (MAP_INVALIDARG, None))"

definition Map_GetValueFromKey :: "MAP_HANDLE \<Rightarrow> string option \<Rightarrow> string option outcome" where
  "Map_GetValueFromKey handle key =
    (case (handle, key) of
       (Some m, Some k) \<Rightarrow>
         cbind (findKey m k) (\<lambda>f. case f of None \<Rightarrow> Inr None
           | Some index \<Rightarrow> if index < length (values_of m) then Inr (values_of m ! index) else Inl Read_past_end)
     | _ \<Rightarrow> Inr None)"

definition Map_GetInternals :: "MAP_HANDLE \<Rightarrow> MAP_RESULT \<times> (string option list \<times> string option list \<times> nat) option" where
  "Map_GetInternals handle =
    (case handle of None \<Rightarrow> (MAP_INVALIDARG, None) | Some m \<Rightarrow> (MAP_OK, Some (keys_of m, values_of m, count m)))"

text \<open>The entries are copied one by one; when one cannot, the copies are freed.\<close>

fun clone_entries :: "string option list \<Rightarrow> nat \<Rightarrow> mem \<Rightarrow> (string option list option \<times> mem) outcome" where
  "clone_entries xs 0 h = Inr (Some [], h)"
| "clone_entries [] (Suc n) h = Inl Read_past_end"
| "clone_entries (x # xs) (Suc n) h =
    (case x of None \<Rightarrow> Inr (None, h)
     | Some t \<Rightarrow>
         (case mallocAndStrcpy_s t h of
            (None, h1) \<Rightarrow> Inr (None, h1)
          | (Some c, h1) \<Rightarrow> cbind (clone_entries xs n h1) (\<lambda>(r, h2). Inr (map_option (Cons (Some c)) r, h2))))"

definition Map_CloneVector :: "string option list \<Rightarrow> nat \<Rightarrow> mem \<Rightarrow> (string option list option \<times> mem) outcome" where
  "Map_CloneVector source n h = (if h 0 = None then Inr (None, \<lambda>i. h (Suc i)) else clone_entries source n (\<lambda>i. h (Suc i)))"

definition Map_Clone :: "MAP_HANDLE \<Rightarrow> mem \<Rightarrow> (MAP_HANDLE \<times> mem) outcome" where
  "Map_Clone handle h =
    (case handle of None \<Rightarrow> Inr (None, h)
     | Some m \<Rightarrow>
         if h 0 = None then Inr (None, \<lambda>i. h (Suc i))
         else if count m = 0 then
           Inr (Some \<lparr>keys_of = [], values_of = [], count = 0, mapFilterCallback = None\<rparr>, \<lambda>i. h (Suc i))
         else
           cbind (Map_CloneVector (keys_of m) (count m) (\<lambda>i. h (Suc i))) (\<lambda>(ks, h1).
             case ks of None \<Rightarrow> Inr (None, h1)
             | Some ks \<Rightarrow>
                 cbind (Map_CloneVector (values_of m) (count m) h1) (\<lambda>(vs, h2).
                   case vs of None \<Rightarrow> Inr (None, h2)
                   | Some vs \<Rightarrow>
                       Inr (Some \<lparr>keys_of = ks, values_of = vs, count = count m, mapFilterCallback = mapFilterCallback m\<rparr>, h2))))"

text \<open>\<open>Map_ToJSON\<close>: one pair of the object is appended.\<close>

definition json_pair :: "STRING_HANDLE \<Rightarrow> bool \<Rightarrow> string option \<Rightarrow> string option \<Rightarrow> mem \<Rightarrow> (STRING_HANDLE \<times> mem) outcome" where
  "json_pair result later k v h =
    cbind (STRING_new_JSON (map_option (\<lambda>t. t @ [NUL]) k) h) (\<lambda>(key, h1).
      if key = None then Inr (None, h1)
      else cbind (STRING_new_JSON (map_option (\<lambda>t. t @ [NUL]) v) h1) (\<lambda>(x, h2).
        if x = None then Inr (None, h2)
        else cbind (if later then STRING_concat result (Some ('','' @ [NUL])) h2 else Inr (MU_OK, result, h2)) (\<lambda>(r1, s1, h3).
          if r1 \<noteq> MU_OK then Inr (None, h3)
          else cbind (STRING_concat_with_STRING s1 key h3) (\<lambda>(r2, s2, h4).
            if r2 \<noteq> MU_OK then Inr (None, h4)
            else cbind (STRING_concat s2 (Some ('':'' @ [NUL])) h4) (\<lambda>(r3, s3, h5).
              if r3 \<noteq> MU_OK then Inr (None, h5)
              else cbind (STRING_concat_with_STRING s3 x h5) (\<lambda>(r4, s4, h6).
                if r4 \<noteq> MU_OK then Inr (None, h6) else Inr (s4, h6)))))))"

fun json_pairs :: "string option list \<Rightarrow> string option list \<Rightarrow> nat \<Rightarrow> bool \<Rightarrow> STRING_HANDLE \<Rightarrow> mem \<Rightarrow> (STRING_HANDLE \<times> mem) outcome" where
  "json_pairs ks vs 0 later result h = Inr (result, h)"
| "json_pairs (k # ks) (v # vs) (Suc n) later result h =
    cbind (json_pair result later k v h) (\<lambda>(s, h1).
      if s = None then Inr (None, h1) else json_pairs ks vs n True s h1)"
| "json_pairs ks vs (Suc n) later result h = Inl Read_past_end"

definition Map_ToJSON :: "MAP_HANDLE \<Rightarrow> mem \<Rightarrow> (STRING_HANDLE \<times> mem) outcome" where
  "Map_ToJSON handle h =
    (case handle of None \<Rightarrow> Inr (None, h)
     | Some m \<Rightarrow>
         cbind (STRING_construct (Some (''{'' @ [NUL])) h) (\<lambda>(result, h1).
           if result = None then Inr (None, h1)
           else cbind (json_pairs (keys_of m) (values_of m) (count m) False result h1) (\<lambda>(s, h2).
             if s = None then Inr (None, h2)
             else cbind (STRING_concat s (Some (''}'' @ [NUL])) h2) (\<lambda>(r, s1, h3).
               Inr (if r = MU_OK then s1 else None, h3)))))"

section \<open>The pairs of a map\<close>

definition has_pairs :: "MAP_HANDLE_DATA \<Rightarrow> (string \<times> string) list \<Rightarrow> bool" where
  "has_pairs m ps \<longleftrightarrow> length ps = count m \<and> distinct (map fst ps) \<and>
     take (count m) (keys_of m) = map (\<lambda>p. Some (fst p)) ps \<and> take (count m) (values_of m) = map (\<lambda>p. Some (snd p)) ps"

lemma has_pairs_lengths: "has_pairs m ps \<Longrightarrow> count m \<le> length (keys_of m) \<and> count m \<le> length (values_of m)"
  unfolding has_pairs_def by (metis length_map length_take min.absorb_iff2 min.commute nat_le_linear take_all)

lemma find_entry_run:
  assumes "take n xs = map Some ts" "length ts = n"
  shows "find_entry xs i n t = Inr (if t \<in> set ts then Some (i + length (takeWhile (\<lambda>u. u \<noteq> t) ts)) else None)"
  using assms
proof (induction ts arbitrary: xs i n)
  case (Cons u ts)
  then obtain y ys k where "xs = y # ys" "n = Suc k" by (cases xs; cases n) auto
  with Cons show ?case by auto
qed simp

lemma findKey_run:
  assumes "has_pairs m ps"
  shows "findKey m k = Inr (if k \<in> fst ` set ps then Some (length (takeWhile (\<lambda>u. u \<noteq> k) (map fst ps))) else None)"
proof (cases "keys_of m = []")
  case True
  with assms have "ps = []" by (auto simp: has_pairs_def)
  with True show ?thesis by (simp add: findKey_def)
next
  case False
  have "take (count m) (keys_of m) = map Some (map fst ps)" using assms by (simp add: has_pairs_def comp_def)
  from find_entry_run [OF this, of 0 k] False assms show ?thesis by (simp add: findKey_def has_pairs_def)
qed

lemma index_less: "t \<in> set ts \<Longrightarrow> length (takeWhile (\<lambda>u. u \<noteq> t) ts) < length ts"
  by (induction ts) auto

lemma findKey_cases:
  assumes "has_pairs m ps"
  obtains (absent) "findKey m k = Inr None" "k \<notin> fst ` set ps"
  | (found) j where "findKey m k = Inr (Some j)" "j < count m" "j < length ps" "fst (ps ! j) = k"
proof (cases "k \<in> fst ` set ps")
  case False
  with findKey_run [OF assms, of k] absent show ?thesis by simp
next
  case True
  let ?j = "length (takeWhile (\<lambda>u. u \<noteq> k) (map fst ps))"
  have k: "k \<in> set (map fst ps)" using True by simp
  then have j: "?j < length (map fst ps)" by (rule index_less)
  then have "\<not> (map fst ps ! ?j \<noteq> k)" by (rule nth_length_takeWhile)
  with j findKey_run [OF assms, of k] True assms found [of ?j] show ?thesis by (simp add: has_pairs_def)
qed

lemma copy_cases:
  obtains (none) "mallocAndStrcpy_s t h = (None, \<lambda>i. h (Suc i))" "\<not> (plenty h \<and> length t < 2 ^ 31 - 1)"
  | (some) "mallocAndStrcpy_s t h = (Some t, \<lambda>i. h (Suc i))"
proof (cases rule: malloc_chars_cases [of "size_add (length t) 1" h])
  case none
  then show ?thesis by (intro that(1)) (auto simp: mallocAndStrcpy_s_def)
next
  case (some q)
  then show ?thesis by (intro that(2)) (simp add: mallocAndStrcpy_s_def)
qed

section \<open>Storage keeps the pairs\<close>

lemma plenty_two [simp]: "plenty h \<Longrightarrow> plenty (\<lambda>i. h (Suc (Suc i)))"
  by (simp add: plenty_def)

lemma increase_pairs:
  assumes "has_pairs m ps" "Map_IncreaseStorageKeysValues m h = (r, m1, h1)"
  shows "mapFilterCallback m1 = mapFilterCallback m \<and> (plenty h \<longrightarrow> r = MU_OK \<and> plenty h1) \<and>
    (if r = MU_OK then count m1 = count m + 1 \<and> keys_of m1 = map (\<lambda>p. Some (fst p)) ps @ [None] \<and>
        values_of m1 = map (\<lambda>p. Some (snd p)) ps @ [None]
     else has_pairs m1 ps)"
proof -
  have len: "length ps = count m" "take (count m) (keys_of m) = map (\<lambda>p. Some (fst p)) ps"
    "take (count m) (values_of m) = map (\<lambda>p. Some (snd p)) ps" "distinct (map fst ps)"
    using assms(1) by (simp_all add: has_pairs_def)
  have p: "plenty h \<Longrightarrow> h n \<noteq> None" for n by (simp add: plenty_def)
  show ?thesis using assms(2) len p [of 0] p [of 1]
    by (auto simp: Map_IncreaseStorageKeysValues_def has_pairs_def Let_def split: if_splits)
qed

text \<open>Taking the last entry away leaves the others; taking the only one away drops the filter too.\<close>

lemma decrease_pairs:
  assumes "length ps + 1 = count m" "take (length ps) (keys_of m) = map (\<lambda>p. Some (fst p)) ps"
    "take (length ps) (values_of m) = map (\<lambda>p. Some (snd p)) ps" "distinct (map fst ps)"
    "Map_DecreaseStorageKeysValues m h = (m1, h1)"
  shows "has_pairs m1 ps \<and> mapFilterCallback m1 = (if ps = [] then None else mapFilterCallback m) \<and> (plenty h \<longrightarrow> plenty h1)"
proof (cases "ps = []")
  case True
  with assms show ?thesis by (auto simp: Map_DecreaseStorageKeysValues_def has_pairs_def)
next
  case False
  then have "count m \<noteq> 1" "count m - 1 = length ps" using assms(1) by auto
  with assms(2-5) False show ?thesis
    by (auto simp: Map_DecreaseStorageKeysValues_def has_pairs_def Let_def min_def)
qed

section \<open>The operations keep the pairs\<close>

lemma insert_pairs:
  assumes "has_pairs m ps" "k \<notin> fst ` set ps"
  obtains r m1 h1 where "insertNewKeyValue m k v h = Inr (r, m1, h1)"
    "if r = MU_OK then has_pairs m1 (ps @ [(k, v)]) \<and> mapFilterCallback m1 = mapFilterCallback m
     else has_pairs m1 ps \<and> (mapFilterCallback m1 = mapFilterCallback m \<or> ps = [] \<and> mapFilterCallback m1 = None)"
    "plenty h \<and> length k < 2 ^ 31 - 1 \<and> length v < 2 ^ 31 - 1 \<longrightarrow> r = MU_OK \<and> plenty h1"
proof -
  obtain r m1 h1 where inc: "Map_IncreaseStorageKeysValues m h = (r, m1, h1)" by (metis prod_cases3)
  note i = increase_pairs [OF assms(1) inc]
  have n: "length ps = count m" and d: "distinct (map fst ps)" using assms(1) by (simp_all add: has_pairs_def)
  let ?ks = "map (\<lambda>p. Some (fst p)) ps" and ?vs = "map (\<lambda>p. Some (snd p)) ps"
  show ?thesis
  proof (cases r)
    case MU_FAILURE
    with i inc that [of MU_FAILURE m1 h1] show ?thesis by (simp add: insertNewKeyValue_def)
  next
    case MU_OK
    with i have m1: "count m1 = count m + 1" "keys_of m1 = ?ks @ [None]" "values_of m1 = ?vs @ [None]"
      "mapFilterCallback m1 = mapFilterCallback m" "plenty h \<Longrightarrow> plenty h1" by simp_all
    show ?thesis
    proof (cases rule: copy_cases [of k h1])
      case none
      obtain m2 h3 where dec: "Map_DecreaseStorageKeysValues m1 (\<lambda>i. h1 (Suc i)) = (m2, h3)" by (metis surj_pair)
      have "has_pairs m2 ps \<and> mapFilterCallback m2 = (if ps = [] then None else mapFilterCallback m1)"
        using decrease_pairs [OF _ _ _ d dec] m1 n by simp
      moreover have "insertNewKeyValue m k v h = Inr (MU_FAILURE, m2, h3)"
        using inc MU_OK none dec by (simp add: insertNewKeyValue_def)
      moreover have "\<not> (plenty h \<and> length k < 2 ^ 31 - 1 \<and> length v < 2 ^ 31 - 1)" using none(2) m1(5) by blast
      ultimately show ?thesis using that [of MU_FAILURE m2 h3] m1(4) by (auto split: if_splits)
    next
      case some
      let ?m2 = "m1\<lparr>keys_of := ?ks @ [Some k]\<rparr>" and ?h2 = "\<lambda>i. h1 (Suc i)"
      have put: "set_entry (keys_of m1) (count m1 - 1) (Some k) = Inr (?ks @ [Some k])"
        using m1 n by (simp add: set_entry_def list_update_append)
      show ?thesis
      proof (cases rule: copy_cases [of v ?h2])
        case none2: none
        obtain m3 h4 where dec: "Map_DecreaseStorageKeysValues ?m2 (\<lambda>i. ?h2 (Suc i)) = (m3, h4)" by (metis surj_pair)
        have "has_pairs m3 ps \<and> mapFilterCallback m3 = (if ps = [] then None else mapFilterCallback m1)"
          using decrease_pairs [OF _ _ _ d dec] m1 n by simp
        moreover have "insertNewKeyValue m k v h = Inr (MU_FAILURE, m3, h4)"
          using inc MU_OK some put none2 dec by (simp add: insertNewKeyValue_def)
        moreover have "\<not> (plenty h \<and> length k < 2 ^ 31 - 1 \<and> length v < 2 ^ 31 - 1)"
          using none2(2) m1(5) plenty_next [of h1] by blast
        ultimately show ?thesis using that [of MU_FAILURE m3 h4] m1(4) by (auto split: if_splits)
      next
        case some2: some
        have put2: "set_entry (values_of ?m2) (count ?m2 - 1) (Some v) = Inr (?vs @ [Some v])"
          using m1 n by (simp add: set_entry_def list_update_append)
        have "has_pairs (?m2\<lparr>values_of := ?vs @ [Some v]\<rparr>) (ps @ [(k, v)])"
          using m1 n d assms(2) by (simp add: has_pairs_def)
        with that [of MU_OK "?m2\<lparr>values_of := ?vs @ [Some v]\<rparr>" "\<lambda>i. ?h2 (Suc i)"] m1 inc MU_OK some put some2 put2 show ?thesis
          by (simp add: insertNewKeyValue_def)
      qed
    qed
  qed
qed

text \<open>The finite map that a map stands for.\<close>

definition represents :: "MAP_HANDLE_DATA \<Rightarrow> (string \<Rightarrow> string option) \<Rightarrow> bool" where
  "represents m f \<longleftrightarrow> (\<exists>ps. has_pairs m ps \<and> map_of ps = f)"

lemma split_pair:
  assumes "j < length ps" "fst (ps ! j) = k" "distinct (map fst ps)"
  obtains xs w ys where "ps = xs @ (k, w) # ys" "length xs = j" "k \<notin> fst ` set xs" "k \<notin> fst ` set ys"
proof -
  have e: "ps = take j ps @ (k, snd (ps ! j)) # drop (Suc j) ps" using assms(1,2) by (metis id_take_nth_drop prod.collapse)
  then have "distinct (map fst (take j ps @ (k, snd (ps ! j)) # drop (Suc j) ps))" using assms(3) by simp
  then have "k \<notin> fst ` set (take j ps)" "k \<notin> fst ` set (drop (Suc j) ps)" by auto
  with that [OF e] assms(1) show ?thesis by simp
qed

lemma map_of_replace:
  "k \<notin> fst ` set xs \<Longrightarrow> map_of (xs @ (k, v) # ys) = (map_of (xs @ (k, w) # ys))(k \<mapsto> v)"
  by (induction xs) (auto simp: fun_upd_twist)

lemma map_of_remove:
  "k \<notin> fst ` set xs \<Longrightarrow> k \<notin> fst ` set ys \<Longrightarrow> map_of (xs @ ys) = (map_of (xs @ (k, w) # ys))(k := None)"
  by (induction xs) (auto simp: fun_upd_twist fun_upd_idem_iff map_of_eq_None_iff)

lemma map_of_add: "k \<notin> fst ` set ps \<Longrightarrow> map_of (ps @ [(k, v)]) = (map_of ps)(k \<mapsto> v)"
  by (induction ps) (auto simp: fun_upd_twist)

lemma insert_represents:
  assumes "has_pairs m ps" "k \<notin> fst ` set ps"
  obtains r m1 h1 where "insertNewKeyValue m k v h = Inr (r, m1, h1)"
    "represents m1 (if r = MU_OK then (map_of ps)(k \<mapsto> v) else map_of ps)"
    "plenty h \<and> length k < 2 ^ 31 - 1 \<and> length v < 2 ^ 31 - 1 \<longrightarrow> r = MU_OK \<and> plenty h1"
proof (rule insert_pairs [OF assms, of v h])
  fix r m1 h1
  assume a: "insertNewKeyValue m k v h = Inr (r, m1, h1)"
    "if r = MU_OK then has_pairs m1 (ps @ [(k, v)]) \<and> mapFilterCallback m1 = mapFilterCallback m
     else has_pairs m1 ps \<and> (mapFilterCallback m1 = mapFilterCallback m \<or> ps = [] \<and> mapFilterCallback m1 = None)"
    "plenty h \<and> length k < 2 ^ 31 - 1 \<and> length v < 2 ^ 31 - 1 \<longrightarrow> r = MU_OK \<and> plenty h1"
  then have "represents m1 (if r = MU_OK then (map_of ps)(k \<mapsto> v) else map_of ps)"
    using map_of_add [OF assms(2)] by (auto simp: represents_def split: if_splits)
  with a that show ?thesis by blast
qed

lemma update_represents:
  assumes "has_pairs m ps" "j < length ps" "fst (ps ! j) = k"
  shows "\<exists>vs. set_entry (values_of m) j (Some v) = Inr vs \<and> represents (m\<lparr>values_of := vs\<rparr>) ((map_of ps)(k \<mapsto> v))"
proof -
  have d: "distinct (map fst ps)" and n: "length ps = count m" using assms(1) by (simp_all add: has_pairs_def)
  obtain xs w ys where e: "ps = xs @ (k, w) # ys" "length xs = j" "k \<notin> fst ` set xs" "k \<notin> fst ` set ys"
    using split_pair [OF assms(2,3) d] by blast
  have len: "j < length (values_of m)" using has_pairs_lengths [OF assms(1)] assms(2) n by simp
  have "take (count m) ((values_of m)[j := Some v]) = (map (\<lambda>p. Some (snd p)) ps)[j := Some v]"
    using assms(1) by (simp add: has_pairs_def take_update_swap)
  also have "\<dots> = map (\<lambda>p. Some (snd p)) (xs @ (k, v) # ys)" using e by (simp add: list_update_append)
  finally have "has_pairs (m\<lparr>values_of := (values_of m)[j := Some v]\<rparr>) (xs @ (k, v) # ys)"
    using assms(1) e by (simp add: has_pairs_def)
  with len map_of_replace [OF e(3), of v ys w] e(1) show ?thesis by (auto simp: set_entry_def represents_def)
qed

lemma delete_represents:
  assumes "has_pairs m ps" "j < length ps" "fst (ps ! j) = k"
    "Map_DecreaseStorageKeysValues (m\<lparr>keys_of := move_down (keys_of m) j (count m),
       values_of := move_down (values_of m) j (count m)\<rparr>) h = (m1, h1)"
  shows "represents m1 ((map_of ps)(k := None)) \<and> (length ps = 1 \<longrightarrow> mapFilterCallback m1 = None)"
proof -
  have d: "distinct (map fst ps)" and n: "length ps = count m" using assms(1) by (simp_all add: has_pairs_def)
  obtain xs w ys where e: "ps = xs @ (k, w) # ys" "length xs = j" "k \<notin> fst ` set xs" "k \<notin> fst ` set ys"
    using split_pair [OF assms(2,3) d] by blast
  have moved: "take (length (xs @ ys)) (move_down zs j (count m)) = map f (xs @ ys)"
    if "take (count m) zs = map f ps" for zs :: "string option list" and f
  proof -
    have c: "count m = length xs + 1 + length ys" using n e by simp
    have "length zs \<ge> count m" using that c e(1) by (metis length_map length_take min.cobounded1 n)
    then obtain a b where z: "zs = a @ b" "length a = count m" by (metis append_take_drop_id length_take min.absorb2)
    with that have a: "a = map f xs @ f (k, w) # map f ys" using e(1) by simp
    then have "take j a = map f xs" "drop (j + 1) a = map f ys" using e(2) by simp_all
    then show ?thesis using z c e(2) a by (simp add: move_down_def)
  qed
  have "has_pairs m1 (xs @ ys) \<and> mapFilterCallback m1 = (if xs @ ys = [] then None else mapFilterCallback m) \<and> (plenty h \<longrightarrow> plenty h1)"
    using decrease_pairs [OF _ _ _ _ assms(4), of "xs @ ys"] moved [of "keys_of m" "\<lambda>p. Some (fst p)"]
      moved [of "values_of m" "\<lambda>p. Some (snd p)"] assms(1) e n d by (simp add: has_pairs_def)
  with map_of_remove [OF e(3,4), of w] e(1) show ?thesis by (auto simp: represents_def)
qed

section \<open>The operations are those of finite maps\<close>

lemma absent_iff: "has_pairs m ps \<Longrightarrow> k \<notin> fst ` set ps \<longleftrightarrow> map_of ps k = None"
  by (simp add: map_of_eq_None_iff)

lemma found_value: "has_pairs m ps \<Longrightarrow> j < length ps \<Longrightarrow> map_of ps (fst (ps ! j)) = Some (snd (ps ! j))"
  by (simp add: has_pairs_def)

lemma value_entry: "has_pairs m ps \<Longrightarrow> j < length ps \<Longrightarrow> j < length (values_of m) \<and> values_of m ! j = Some (snd (ps ! j))"
  using has_pairs_lengths [of m ps] unfolding has_pairs_def by (metis (no_types, lifting) nth_map nth_take order_less_le_trans)

lemma Map_Add_refines:
  assumes "has_pairs m ps"
  shows "\<exists>r m1 h1. Map_Add (Some m) (Some k) (Some v) h = Inr (r, Some m1, h1) \<and>
    (if map_of ps k \<noteq> None then r = MAP_KEYEXISTS \<and> m1 = m
     else if rejected m k v then r = MAP_FILTER_REJECT \<and> m1 = m
     else (r = MAP_OK \<and> represents m1 ((map_of ps)(k \<mapsto> v)) \<or> r = MAP_ERROR \<and> represents m1 (map_of ps)) \<and>
       (plenty h \<and> length k < 2 ^ 31 - 1 \<and> length v < 2 ^ 31 - 1 \<longrightarrow> r = MAP_OK \<and> plenty h1))"
  using assms
proof (cases rule: findKey_cases [where k = k])
  case absent
  obtain r m1 h1 where ins: "insertNewKeyValue m k v h = Inr (r, m1, h1)"
    "represents m1 (if r = MU_OK then (map_of ps)(k \<mapsto> v) else map_of ps)"
    "plenty h \<and> length k < 2 ^ 31 - 1 \<and> length v < 2 ^ 31 - 1 \<longrightarrow> r = MU_OK \<and> plenty h1"
    by (rule insert_represents [OF assms absent(2), of v h])
  have "map_of ps k = None" using absent absent_iff [OF assms] by simp
  with absent(1) ins show ?thesis
    by (cases "rejected m k v"; cases r) (auto simp: Map_Add_def)
next
  case (found j)
  with found_value [OF assms, of j] show ?thesis by (auto simp: Map_Add_def)
qed

lemma Map_AddOrUpdate_refines:
  assumes "has_pairs m ps"
  shows "\<exists>r m1 h1. Map_AddOrUpdate (Some m) (Some k) (Some v) h = Inr (r, Some m1, h1) \<and>
    (if rejected m k v then r = MAP_FILTER_REJECT \<and> m1 = m
     else (r = MAP_OK \<and> represents m1 ((map_of ps)(k \<mapsto> v)) \<or> r = MAP_ERROR \<and> represents m1 (map_of ps)) \<and>
       (plenty h \<and> length k < 2 ^ 31 - 1 \<and> length v < 2 ^ 31 - 1 \<longrightarrow> r = MAP_OK \<and> plenty h1))"
  using assms
proof (cases rule: findKey_cases [where k = k])
  case absent
  obtain r m1 h1 where ins: "insertNewKeyValue m k v h = Inr (r, m1, h1)"
    "represents m1 (if r = MU_OK then (map_of ps)(k \<mapsto> v) else map_of ps)"
    "plenty h \<and> length k < 2 ^ 31 - 1 \<and> length v < 2 ^ 31 - 1 \<longrightarrow> r = MU_OK \<and> plenty h1"
    by (rule insert_represents [OF assms absent(2), of v h])
  with absent(1) ins show ?thesis
    by (cases "rejected m k v"; cases r) (auto simp: Map_AddOrUpdate_def)
next
  case (found j)
  obtain vs where vs: "set_entry (values_of m) j (Some v) = Inr vs" "represents (m\<lparr>values_of := vs\<rparr>) ((map_of ps)(k \<mapsto> v))"
    using update_represents [OF assms found(3,4)] by blast
  have m: "represents m (map_of ps)" using assms by (auto simp: represents_def)
  show ?thesis
    by (cases rule: malloc_chars_cases [of "size_add (length v) 1" h]) (use found vs m in \<open>auto simp: Map_AddOrUpdate_def\<close>)
qed

lemma Map_Delete_refines:
  assumes "has_pairs m ps"
  shows "\<exists>r m1 h1. Map_Delete (Some m) (Some k) h = Inr (r, Some m1, h1) \<and>
    (if map_of ps k = None then r = MAP_KEYNOTFOUND \<and> m1 = m
     else r = MAP_OK \<and> represents m1 ((map_of ps)(k := None)) \<and> (length ps = 1 \<longrightarrow> mapFilterCallback m1 = None))"
  using assms
proof (cases rule: findKey_cases [where k = k])
  case absent
  with absent_iff [OF assms] show ?thesis by (simp add: Map_Delete_def)
next
  case (found j)
  obtain m1 h1 where dec: "Map_DecreaseStorageKeysValues (m\<lparr>keys_of := move_down (keys_of m) j (count m),
       values_of := move_down (values_of m) j (count m)\<rparr>) h = (m1, h1)" by (metis surj_pair)
  from delete_represents [OF assms found(3,4) dec] found found_value [OF assms found(3)] dec show ?thesis
    by (auto simp: Map_Delete_def)
qed

lemma Map_get_refines:
  assumes "has_pairs m ps"
  shows "Map_GetValueFromKey (Some m) (Some k) = Inr (map_of ps k)" "Map_ContainsKey (Some m) (Some k) = Inr (MAP_OK, Some (map_of ps k \<noteq> None))"
proof -
  show "Map_GetValueFromKey (Some m) (Some k) = Inr (map_of ps k)"
    using assms
  proof (cases rule: findKey_cases [where k = k])
    case absent
    with absent_iff [OF assms] show ?thesis by (simp add: Map_GetValueFromKey_def)
  next
    case (found j)
    with value_entry [OF assms found(3)] found_value [OF assms found(3)] show ?thesis by (simp add: Map_GetValueFromKey_def)
  qed
  show "Map_ContainsKey (Some m) (Some k) = Inr (MAP_OK, Some (map_of ps k \<noteq> None))"
    using findKey_run [OF assms, of k] absent_iff [OF assms, of k]
    by (cases "k \<in> fst ` set ps") (simp_all add: Map_ContainsKey_def)
qed

lemma Map_ContainsValue_refines:
  assumes "has_pairs m ps"
  shows "Map_ContainsValue (Some m) (Some v) = Inr (MAP_OK, Some (v \<in> ran (map_of ps)))"
proof -
  have d: "distinct (map fst ps)" using assms by (simp add: has_pairs_def)
  have "ran (map_of ps) = snd ` set ps" using ran_distinct [OF d] .
  moreover have "take (count m) (values_of m) = map Some (map snd ps)" using assms by (simp add: has_pairs_def comp_def)
  ultimately show ?thesis using find_entry_run [of "count m" "values_of m" "map snd ps" 0 v] assms
    by (cases "values_of m = []") (auto simp: Map_ContainsValue_def findValue_def has_pairs_def)
qed

lemma clone_entries_run:
  "take n xs = map Some ts \<Longrightarrow> length ts = n \<Longrightarrow>
    \<exists>r h1. clone_entries xs n h = Inr (r, h1) \<and> (r = None \<or> r = Some (map Some ts))"
proof (induction n arbitrary: xs ts h)
  case (Suc n)
  then obtain t us y ys where e: "ts = t # us" "xs = y # ys" by (cases ts; cases xs) auto
  with Suc.prems have y: "y = Some t" "take n ys = map Some us" "length us = n" by simp_all
  show ?case
  proof (cases rule: copy_cases [of t h])
    case none
    with e y show ?thesis by simp
  next
    case some
    with e y Suc.IH [OF y(2,3), of "\<lambda>i. h (Suc i)"] show ?thesis by auto
  qed
qed simp

lemma Map_Clone_refines:
  assumes "has_pairs m ps"
  shows "\<exists>c h1. Map_Clone (Some m) h = Inr (c, h1) \<and>
    (\<forall>m1. c = Some m1 \<longrightarrow> represents m1 (map_of ps) \<and> mapFilterCallback m1 = (if ps = [] then None else mapFilterCallback m))"
proof (cases "h 0 = None \<or> count m = 0")
  case True
  with assms show ?thesis by (auto simp: Map_Clone_def represents_def has_pairs_def)
next
  case False
  have n: "length ps = count m" and ks: "take (count m) (keys_of m) = map Some (map fst ps)"
    and vs: "take (count m) (values_of m) = map Some (map snd ps)" using assms by (simp_all add: has_pairs_def comp_def)
  have vec: "\<exists>r h1. Map_CloneVector xs (count m) h = Inr (r, h1) \<and> (r = None \<or> r = Some (map Some ts))"
    if "take (count m) xs = map Some ts" "length ts = count m" for xs ts h
    using clone_entries_run [OF that, of "\<lambda>i. h (Suc i)"] by (auto simp: Map_CloneVector_def)
  obtain r h1 where 1: "Map_CloneVector (keys_of m) (count m) (\<lambda>i. h (Suc i)) = Inr (r, h1)" "r = None \<or> r = Some (map Some (map fst ps))"
    using vec [OF ks] n by fastforce
  obtain r2 h2 where 2: "Map_CloneVector (values_of m) (count m) h1 = Inr (r2, h2)" "r2 = None \<or> r2 = Some (map Some (map snd ps))"
    using vec [OF vs] n by fastforce
  have "has_pairs \<lparr>keys_of = map Some (map fst ps), values_of = map Some (map snd ps), count = count m, mapFilterCallback = mapFilterCallback m\<rparr> ps"
    using assms by (simp add: has_pairs_def comp_def)
  with 1 2 False n show ?thesis by (auto simp: Map_Clone_def represents_def)
qed


definition one_pair :: MAP_HANDLE_DATA where
  "one_pair = \<lparr>keys_of = [Some ''a''], values_of = [Some ''1''], count = 1, mapFilterCallback = Some (\<lambda>k v. 1)\<rparr>"


end
