(* ===== verification/Conn_String.thy ===== *)
theory Conn_String
  imports Azure_Map
begin

text \<open>
  Tokens and connection strings (\<open>azure_iot_sdk/c-utility/src/string_tokenizer.c\<close> and
  \<open>connection_string_parser.c\<close>): the tokenizer, the parser that puts the pairs of a connection string
  into a map, that it finds what was written, and what it makes of an empty value.
\<close>

section \<open>The tokenizer\<close>

record STRING_TOKEN =
  inputString :: string
  currentPos :: nat

type_synonym STRING_TOKENIZER_HANDLE = "STRING_TOKEN option"

definition STRING_TOKENIZER_create_from_char :: "char_ptr \<Rightarrow> mem \<Rightarrow> (STRING_TOKENIZER_HANDLE \<times> mem) outcome" where
  "STRING_TOKENIZER_create_from_char input h =
    (if input = None then Inr (None, h)
     else if h 0 = None then Inr (None, \<lambda>i. h (Suc i))
     else cbind (string_of input) (\<lambda>t.
       case mallocAndStrcpy_s t (\<lambda>i. h (Suc i)) of
         (None, h1) \<Rightarrow> Inr (None, h1)
       | (Some c, h1) \<Rightarrow> Inr (Some \<lparr>inputString = c, currentPos = 0\<rparr>, h1)))"

definition STRING_TOKENIZER_create :: "STRING_HANDLE \<Rightarrow> mem \<Rightarrow> (STRING_TOKENIZER_HANDLE \<times> mem) outcome" where
  "STRING_TOKENIZER_create handle h =
    (if handle = None then Inr (None, h) else STRING_TOKENIZER_create_from_char (STRING_c_str handle) h)"

text \<open>The first delimiter, in the order of the delimiters, that is in the text: how far it is.\<close>

fun end_of_token :: "string \<Rightarrow> string \<Rightarrow> nat option" where
  "end_of_token [] r = None"
| "end_of_token (d # ds) r = (if d \<in> set r then Some (length (takeWhile (\<lambda>c. c \<noteq> d) r)) else end_of_token ds r)"

definition STRING_TOKENIZER_get_next_token :: "STRING_TOKENIZER_HANDLE \<Rightarrow> STRING_HANDLE \<Rightarrow> string option \<Rightarrow> mem \<Rightarrow>
    (mu \<times> STRING_TOKENIZER_HANDLE \<times> STRING_HANDLE \<times> mem) outcome" where
  "STRING_TOKENIZER_get_next_token tokenizer out delimiters h =
    (case (tokenizer, delimiters) of
       (Some token, Some ds) \<Rightarrow>
         if out = None then Inr (MU_FAILURE, tokenizer, out, h)
         else
           let rest = drop (currentPos token) (inputString token)
           in if rest = [] then Inr (MU_FAILURE, tokenizer, out, h)
              else if ds = [] then Inr (MU_FAILURE, tokenizer, out, h)
              else
                let i = length (takeWhile (\<lambda>c. c \<in> set ds) rest);
                    token1 = token\<lparr>currentPos := currentPos token + i\<rparr>;
                    rest1 = drop i rest
                in if rest1 = [] then Inr (MU_FAILURE, Some token1, out, h)
                   else
                     let endOfToken = end_of_token ds rest1;
                         amount = (case endOfToken of None \<Rightarrow> length rest1 | Some n \<Rightarrow> n)
                     in cbind (STRING_copy_n out (Some (rest1 @ [NUL])) amount h) (\<lambda>(r, out1, h1).
                       if r \<noteq> MU_OK then Inr (MU_FAILURE, Some token1, out1, h1)
                       else Inr (MU_OK, Some (token1\<lparr>currentPos := currentPos token1 + amount +
                         (if endOfToken = None then 0 else 1)\<rparr>), out1, h1))
     | _ \<Rightarrow> Inr (MU_FAILURE, tokenizer, out, h))"

lemma get_next_token_advances:
  assumes "STRING_TOKENIZER_get_next_token (Some token) out (Some ds) h = Inr (MU_OK, t1, out1, h1)"
  obtains token1 where "t1 = Some token1" "inputString token1 = inputString token"
    "length (inputString token1) - currentPos token1 < length (inputString token) - currentPos token"
proof -
  let ?rest = "drop (currentPos token) (inputString token)"
  let ?i = "length (takeWhile (\<lambda>c. c \<in> set ds) ?rest)"
  let ?r1 = "drop ?i ?rest"
  from assms have ne: "?rest \<noteq> []" "ds \<noteq> []" "?r1 \<noteq> []" "out \<noteq> None"
    by (auto simp: STRING_TOKENIZER_get_next_token_def Let_def split: if_splits)
  have hd: "hd ?r1 \<notin> set ds" using ne(3) by (metis dropWhile_eq_drop hd_dropWhile)
  have "0 < (case end_of_token ds ?r1 of None \<Rightarrow> length ?r1 | Some n \<Rightarrow> n)"
  proof (cases "end_of_token ds ?r1")
    case None
    with ne(3) show ?thesis by simp
  next
    case (Some n)
    have "end_of_token es ?r1 = Some n \<Longrightarrow> set es \<subseteq> set ds \<Longrightarrow> 0 < n" for es
    proof (induction es)
      case (Cons e es)
      with hd ne(3) show ?case by (cases ?r1) (auto split: if_splits)
    qed simp
    with Some show ?thesis by simp
  qed
  moreover have "?i < length ?rest" using ne(3) by (metis drop_eq_Nil not_le)
  ultimately show ?thesis using assms ne that
    by (auto simp: STRING_TOKENIZER_get_next_token_def Let_def c_outcome split: if_splits option.splits)
qed

lemma two_tokens:
  assumes "STRING_TOKENIZER_get_next_token (Some token) key (Some ds) h = Inr (MU_OK, t1, key1, h1)"
    "STRING_TOKENIZER_get_next_token t1 val (Some es) h1 = Inr (MU_OK, Some token2, val1, h2)"
  shows "length (inputString token2) - currentPos token2 < length (inputString token) - currentPos token"
proof -
  obtain token1 where t1: "t1 = Some token1"
    "length (inputString token1) - currentPos token1 < length (inputString token) - currentPos token"
    by (rule get_next_token_advances [OF assms(1)])
  obtain token3 where "Some token2 = Some token3"
    "length (inputString token3) - currentPos token3 < length (inputString token1) - currentPos token1"
    by (rule get_next_token_advances [OF assms(2) [unfolded t1(1)]])
  with t1 show ?thesis by simp
qed

section \<open>The parser of connection strings\<close>

text \<open>The loop ends when no key is left; an error gives NULL.\<close>

function parse_pairs :: "STRING_TOKEN \<Rightarrow> STRING_HANDLE \<Rightarrow> STRING_HANDLE \<Rightarrow> MAP_HANDLE_DATA \<Rightarrow> mem \<Rightarrow> (MAP_HANDLE \<times> mem) outcome" where
  "parse_pairs token key val m h =
    cbind (STRING_TOKENIZER_get_next_token (Some token) key (Some ''='') h) (\<lambda>(r1, t1, key1, h1).
      if r1 \<noteq> MU_OK then Inr (Some m, h1)
      else cbind (STRING_TOKENIZER_get_next_token t1 val (Some '';'') h1) (\<lambda>(r2, t2, val1, h2).
        if r2 \<noteq> MU_OK then Inr (None, h2)
        else cbind (string_of (STRING_c_str key1)) (\<lambda>k.
          if k = [] then Inr (None, h2)
          else cbind (string_of (STRING_c_str val1)) (\<lambda>v.
            cbind (Map_Add (Some m) (Some k) (Some v) h2) (\<lambda>(r3, m1, h3).
              if r3 \<noteq> MAP_OK then Inr (None, h3)
              else case (t2, m1) of
                (Some token2, Some m2) \<Rightarrow> parse_pairs token2 key1 val1 m2 h3
              | _ \<Rightarrow> Inr (None, h3))))))"
  by pat_completeness auto
termination
  by (relation "measure (\<lambda>(token, _). length (inputString token) - currentPos token)") (auto elim: two_tokens)

declare parse_pairs.simps [simp del]

definition connectionstringparser_parse :: "STRING_HANDLE \<Rightarrow> mem \<Rightarrow> (MAP_HANDLE \<times> mem) outcome" where
  "connectionstringparser_parse connection_string h =
    (if connection_string = None then Inr (None, h)
     else cbind (STRING_TOKENIZER_create connection_string h) (\<lambda>(tokenizer, h1).
       case tokenizer of None \<Rightarrow> Inr (None, h1)
       | Some token \<Rightarrow>
           cbind (STRING_new h1) (\<lambda>(key, h2).
             if key = None then Inr (None, h2)
             else cbind (STRING_new h2) (\<lambda>(val, h3).
               if val = None then Inr (None, h3)
               else case Map_Create None h3 of
                 (None, h4) \<Rightarrow> Inr (None, h4)
               | (Some m, h4) \<Rightarrow> parse_pairs token key val m h4))))"

definition connectionstringparser_parse_from_char :: "char_ptr \<Rightarrow> mem \<Rightarrow> (MAP_HANDLE \<times> mem) outcome" where
  "connectionstringparser_parse_from_char connection_string h =
    cbind (STRING_construct connection_string h) (\<lambda>(connString, h1).
      if connString = None then Inr (None, h1) else connectionstringparser_parse connString h1)"

text \<open>The first dot splits a host name; both parts may not be empty.\<close>

definition connectionstringparser_splitHostName_from_char :: "char_ptr \<Rightarrow> STRING_HANDLE \<Rightarrow> STRING_HANDLE \<Rightarrow> mem \<Rightarrow>
    (mu \<times> STRING_HANDLE \<times> STRING_HANDLE \<times> mem) outcome" where
  "connectionstringparser_splitHostName_from_char hostName nameString suffixString h =
    (if hostName = None then Inr (MU_FAILURE, nameString, suffixString, h)
     else cbind (string_of hostName) (\<lambda>t.
       if t = [] \<or> hd t = CHR ''.'' \<or> nameString = None \<or> suffixString = None then Inr (MU_FAILURE, nameString, suffixString, h)
       else
         let n = length (takeWhile (\<lambda>c. c \<noteq> CHR ''.'') t)
         in if drop (n + 1) t = [] then Inr (MU_FAILURE, nameString, suffixString, h)
            else cbind (STRING_copy_n nameString hostName n h) (\<lambda>(r1, name1, h1).
              if r1 \<noteq> MU_OK then Inr (MU_FAILURE, name1, suffixString, h1)
              else cbind (STRING_copy False suffixString (Some (drop (n + 1) t @ [NUL])) h1) (\<lambda>(r2, suffix1, h2).
                if r2 \<noteq> MU_OK then Inr (MU_FAILURE, name1, suffix1, h2) else Inr (MU_OK, name1, suffix1, h2)))))"

definition connectionstringparser_splitHostName :: "STRING_HANDLE \<Rightarrow> STRING_HANDLE \<Rightarrow> STRING_HANDLE \<Rightarrow> mem \<Rightarrow>
    (mu \<times> STRING_HANDLE \<times> STRING_HANDLE \<times> mem) outcome" where
  "connectionstringparser_splitHostName hostNameString nameString suffixString h =
    (if hostNameString = None then Inr (MU_FAILURE, nameString, suffixString, h)
     else connectionstringparser_splitHostName_from_char (STRING_c_str hostNameString) nameString suffixString h)"

section \<open>One token\<close>

lemma is_text_terminated: "NUL \<notin> set t \<Longrightarrow> length t < 2 ^ 31 - 1 \<Longrightarrow> is_text (Some (t @ [NUL])) t"
  using c_string_terminated [of t "[]"] by (simp add: is_text_def)

definition rest_of :: "STRING_TOKEN \<Rightarrow> string" where
  "rest_of token = drop (currentPos token) (inputString token)"

text \<open>Delimiters, a word without one, then a delimiter or the end.\<close>

lemma skip_delimiters: "c \<noteq> d \<Longrightarrow> takeWhile (\<lambda>x. x = d) (replicate k d @ c # cs) = replicate k d"
  by (induction k) simp_all

lemma get_next_token_run:
  assumes "rest_of token = replicate k d @ w @ tail" "w \<noteq> []" "d \<notin> set w" "tail = [] \<or> hd tail = d"
    "NUL \<notin> set (rest_of token)" "length (rest_of token) < 2 ^ 31 - 1" "str_is out u" "plenty h"
  shows "\<exists>token1 out1 h1. STRING_TOKENIZER_get_next_token (Some token) out (Some [d]) h = Inr (MU_OK, Some token1, out1, h1) \<and>
    rest_of token1 = tl tail \<and> str_is out1 w \<and> plenty h1"
proof -
  let ?rest = "rest_of token" and ?r = "w @ tail"
  have out: "out \<noteq> None" using assms(7) by (auto elim: str_is_cases)
  have hd: "hd w \<noteq> d" using assms(2,3) by (cases w) auto
  then have skip: "takeWhile (\<lambda>c. c \<in> set [d]) ?rest = replicate k d"
    using assms(1,2) by (cases w) (simp_all add: skip_delimiters)
  have i: "length (takeWhile (\<lambda>c. c \<in> set [d]) ?rest) = k" using skip by (simp only: length_replicate)
  have r: "drop k ?rest = ?r" using assms(1) by simp
  have ne: "?rest \<noteq> []" "?r \<noteq> []" using assms(1,2) by simp_all
  have w: "takeWhile (\<lambda>c. c \<noteq> d) ?r = w" if "tail \<noteq> []"
    using that assms(3,4) by (cases tail) (auto simp: takeWhile_neq_append)
  define e where "e = end_of_token [d] ?r"
  have e: "e = (if tail = [] then None else Some (length w))"
    using assms(3,4) w unfolding e_def by (cases tail) auto
  have amount: "(case e of None \<Rightarrow> length ?r | Some n \<Rightarrow> n) = length w" using e by simp
  have text1: "is_text (Some (?r @ [NUL])) ?r"
    using assms(1,5,6) c_string_terminated [of ?r "[]"] by (simp add: is_text_def)
  obtain out1 h1 where copy: "STRING_copy_n out (Some (?r @ [NUL])) (length w) h = Inr (MU_OK, out1, h1)" "str_is out1 w" "plenty h1"
    using STRING_copy_n_updates [OF assms(7) text1, of "length w" h] assms(1,6,8) by (auto simp: updates_def split: if_splits)
  let ?t1 = "token\<lparr>currentPos := currentPos token + k + length w + (if e = None then 0 else 1)\<rparr>"
  have "STRING_TOKENIZER_get_next_token (Some token) out (Some [d]) h = Inr (MU_OK, Some ?t1, out1, h1)"
    unfolding STRING_TOKENIZER_get_next_token_def rest_of_def [symmetric] Let_def
    by (simp only: option.case prod.case i r ne out if_False e_def [symmetric] amount copy(1) cbind_simps list.distinct)
      simp
  moreover have "rest_of ?t1 = drop (k + length w + (if e = None then 0 else 1)) ?rest"
    by (simp add: rest_of_def add.commute add.left_commute)
  then have "rest_of ?t1 = tl tail" using assms(1) e by (cases tail) simp_all
  ultimately show ?thesis using copy by blast
qed

lemma get_next_token_end:
  assumes "rest_of token = replicate k d"
  shows "\<exists>token1. STRING_TOKENIZER_get_next_token (Some token) out (Some [d]) h = Inr (MU_FAILURE, Some token1, out, h)"
proof -
  have "takeWhile (\<lambda>c. c \<in> set [d]) (replicate k d) = replicate k d" by (simp add: takeWhile_replicate)
  with assms show ?thesis unfolding STRING_TOKENIZER_get_next_token_def rest_of_def [symmetric] Let_def by auto
qed

lemma STRING_TOKENIZER_create_run:
  assumes "str_is s t" "plenty h"
  shows "\<exists>h1. STRING_TOKENIZER_create s h = Inr (Some \<lparr>inputString = t, currentPos = 0\<rparr>, h1) \<and> plenty h1"
proof -
  obtain v where v: "s = Some v" "c_string (chars v) = Inr t" "length t < 2 ^ 31 - 1" using assms(1) by (rule str_is_cases)
  have p: "plenty (\<lambda>i. h (Suc i))" "plenty (\<lambda>i. h (Suc (Suc i)))" and ok: "h 0 \<noteq> None"
    using assms(2) by (simp_all add: plenty_def)
  have "mallocAndStrcpy_s t (\<lambda>i. h (Suc i)) = (Some t, \<lambda>i. h (Suc (Suc i)))"
    by (cases rule: copy_cases [of t "\<lambda>i. h (Suc i)"]) (use p v(3) in auto)
  with v(1,2) ok p show ?thesis
    by (simp add: STRING_TOKENIZER_create_def STRING_TOKENIZER_create_from_char_def STRING_c_str_def string_of_def)
qed

section \<open>All the tokens\<close>

text \<open>
  The text of a list of pairs, each with the number of semicolons in front of its value, and when its
  parts are what the tokenizer takes for a key and a value.
\<close>

fun text_of_pairs :: "(string \<times> nat \<times> string) list \<Rightarrow> string" where
  "text_of_pairs [] = []"
| "text_of_pairs ((k, n, v) # ps) =
    k @ ''='' @ replicate n (CHR '';'') @ v @ (if ps = [] then [] else CHR '';'' # text_of_pairs ps)"

definition is_pair :: "string \<times> nat \<times> string \<Rightarrow> bool" where
  "is_pair p = (case p of (k, n, v) \<Rightarrow> k \<noteq> [] \<and> CHR ''='' \<notin> set k \<and> v \<noteq> [] \<and> CHR '';'' \<notin> set v)"

definition pair_of :: "string \<times> nat \<times> string \<Rightarrow> string \<times> string" where
  "pair_of p = (case p of (k, n, v) \<Rightarrow> (k, v))"

text \<open>The tokenizer asked for a key and a value.\<close>

lemma next_pair_run:
  assumes "rest_of token = text_of_pairs ((k, n, v) # ps)" "is_pair (k, n, v)" "str_is key u1" "str_is val u2" "plenty h"
    "NUL \<notin> set (text_of_pairs ((k, n, v) # ps))" "length (text_of_pairs ((k, n, v) # ps)) < 2 ^ 31 - 1"
  shows "\<exists>token1 key1 h1 token2 val1 h2.
    STRING_TOKENIZER_get_next_token (Some token) key (Some ''='') h = Inr (MU_OK, Some token1, key1, h1) \<and> str_is key1 k \<and>
    STRING_TOKENIZER_get_next_token (Some token1) val (Some '';'') h1 = Inr (MU_OK, Some token2, val1, h2) \<and> str_is val1 v \<and>
    rest_of token2 = text_of_pairs ps \<and> plenty h2"
proof -
  let ?T = "if ps = [] then [] else CHR '';'' # text_of_pairs ps"
  have good: "k \<noteq> []" "CHR ''='' \<notin> set k" "v \<noteq> []" "CHR '';'' \<notin> set v" using assms(2) by (simp_all add: is_pair_def)
  have rest: "rest_of token = k @ CHR ''='' # replicate n (CHR '';'') @ v @ ?T" using assms(1) by simp
  have small: "length (rest_of token) < 2 ^ 31 - 1" "NUL \<notin> set (rest_of token)" using assms(1,6,7) by simp_all
  from get_next_token_run [of token 0 "CHR ''=''" k "CHR ''='' # replicate n (CHR '';'') @ v @ ?T" key u1 h]
  obtain token1 key1 h1 where 1: "STRING_TOKENIZER_get_next_token (Some token) key (Some ''='') h = Inr (MU_OK, Some token1, key1, h1)"
    "rest_of token1 = replicate n (CHR '';'') @ v @ ?T" "str_is key1 k" "plenty h1"
    using good(1,2) rest small assms(3,5) by auto
  have small1: "length (rest_of token1) < 2 ^ 31 - 1" "NUL \<notin> set (rest_of token1)" using small rest unfolding 1(2) by auto
  have T: "?T = [] \<or> hd ?T = CHR '';''" by simp
  from get_next_token_run [OF 1(2) good(3,4) T small1(2,1) assms(4) 1(4)]
  obtain token2 val1 h2 where 2: "STRING_TOKENIZER_get_next_token (Some token1) val (Some '';'') h1 = Inr (MU_OK, Some token2, val1, h2)"
    "rest_of token2 = tl ?T" "str_is val1 v" "plenty h2" by auto
  have "tl ?T = text_of_pairs ps" by simp
  with 1 2 show ?thesis by metis
qed

lemma pair_of_simp [simp]: "pair_of (k, n, v) = (k, v)"
  by (simp add: pair_of_def)

lemma Map_Add_appends:
  assumes "has_pairs m ps" "mapFilterCallback m = None" "k \<notin> fst ` set ps" "plenty h" "length k < 2 ^ 31 - 1" "length v < 2 ^ 31 - 1"
  shows "\<exists>m1 h1. Map_Add (Some m) (Some k) (Some v) h = Inr (MAP_OK, Some m1, h1) \<and> has_pairs m1 (ps @ [(k, v)]) \<and>
    mapFilterCallback m1 = None \<and> plenty h1"
proof (rule insert_pairs [OF assms(1,3), of v h])
  fix r m1 h1
  assume a: "insertNewKeyValue m k v h = Inr (r, m1, h1)"
    "if r = MU_OK then has_pairs m1 (ps @ [(k, v)]) \<and> mapFilterCallback m1 = mapFilterCallback m
     else has_pairs m1 ps \<and> (mapFilterCallback m1 = mapFilterCallback m \<or> ps = [] \<and> mapFilterCallback m1 = None)"
    "plenty h \<and> length k < 2 ^ 31 - 1 \<and> length v < 2 ^ 31 - 1 \<longrightarrow> r = MU_OK \<and> plenty h1"
  then have "r = MU_OK" "plenty h1" using assms by simp_all
  with a assms findKey_run [OF assms(1), of k] show ?thesis by (auto simp: Map_Add_def rejected_def)
qed

lemma parse_pairs_run:
  assumes "rest_of token = text_of_pairs ps" "\<forall>p\<in>set ps. is_pair p" "distinct (map fst (qs @ map pair_of ps))"
    "has_pairs m qs" "mapFilterCallback m = None" "str_is key u1" "str_is val u2" "plenty h"
    "NUL \<notin> set (text_of_pairs ps)" "length (text_of_pairs ps) < 2 ^ 31 - 1"
  shows "\<exists>m1 h1. parse_pairs token key val m h = Inr (Some m1, h1) \<and> has_pairs m1 (qs @ map pair_of ps) \<and> plenty h1"
  using assms
proof (induction ps arbitrary: token qs m key u1 val u2 h)
  case Nil
  then show ?case using get_next_token_end [of token 0 "CHR ''=''" key h] by (auto simp: parse_pairs.simps [of token])
next
  case (Cons p ps)
  obtain k n v where p: "p = (k, n, v)" by (cases p)
  have good: "k \<noteq> []" using Cons.prems(2) p by (simp add: is_pair_def)
  obtain token1 key1 h1 token2 val1 h2 where
    1: "STRING_TOKENIZER_get_next_token (Some token) key (Some ''='') h = Inr (MU_OK, Some token1, key1, h1)" "str_is key1 k" and
    2: "STRING_TOKENIZER_get_next_token (Some token1) val (Some '';'') h1 = Inr (MU_OK, Some token2, val1, h2)" "str_is val1 v"
      "rest_of token2 = text_of_pairs ps" "plenty h2"
    using next_pair_run [of token k n v ps key u1 val u2 h] Cons.prems p by auto
  have k: "string_of (STRING_c_str key1) = Inr k" and v: "string_of (STRING_c_str val1) = Inr v"
    using 1(2) 2(2) by (simp_all add: str_is_def is_text_string_of)
  have len: "length k < 2 ^ 31 - 1" "length v < 2 ^ 31 - 1" using Cons.prems(10) p by simp_all
  have new: "k \<notin> fst ` set qs" using Cons.prems(3) p by (auto simp: pair_of_def)
  obtain m1 h3 where 3: "Map_Add (Some m) (Some k) (Some v) h2 = Inr (MAP_OK, Some m1, h3)" "has_pairs m1 (qs @ [(k, v)])"
    "mapFilterCallback m1 = None" "plenty h3"
    using Map_Add_appends [OF Cons.prems(4,5) new 2(4) len] by blast
  have step: "parse_pairs token key val m h = parse_pairs token2 key1 val1 m1 h3"
    using 1(1) 2(1) k v 3(1) good by (subst parse_pairs.simps) simp
  have "\<exists>m2 h4. parse_pairs token2 key1 val1 m1 h3 = Inr (Some m2, h4) \<and> has_pairs m2 ((qs @ [(k, v)]) @ map pair_of ps) \<and> plenty h4"
    by (rule Cons.IH [OF 2(3) _ _ 3(2,3) 1(2) 2(2) 3(4)])
      (use Cons.prems p in \<open>auto simp: pair_of_def split: if_splits\<close>)
  moreover have "map pair_of (p # ps) = (k, v) # map pair_of ps" using p by (simp add: pair_of_def)
  ultimately show ?case using step by simp
qed

lemma parse_text:
  assumes "is_text p (text_of_pairs ps)" "\<forall>q\<in>set ps. is_pair q" "distinct (map (fst \<circ> pair_of) ps)" "plenty h"
  shows "\<exists>m h1. connectionstringparser_parse_from_char p h = Inr (Some m, h1) \<and> has_pairs m (map pair_of ps) \<and> plenty h1"
proof -
  let ?t = "text_of_pairs ps"
  have len: "length ?t < 2 ^ 31 - 1" and nul: "NUL \<notin> set ?t" using is_text_short [OF assms(1)] is_text_no_NUL [OF assms(1)] .
  obtain s h1 where s: "STRING_construct p h = Inr (s, h1)" "str_is s ?t" "s \<noteq> None" "plenty h1"
    using STRING_construct_yields [OF assms(1), of h] assms(4) len by (auto simp: yields_def)
  let ?token = "\<lparr>inputString = ?t, currentPos = 0\<rparr>"
  have ok: "h' 0 \<noteq> None" if "plenty h'" for h' using that by (simp add: plenty_def)
  obtain h2 where tok: "STRING_TOKENIZER_create s h1 = Inr (Some ?token, h2)" "plenty h2"
    using STRING_TOKENIZER_create_run [OF s(2,4)] by blast
  obtain key h3 where key: "STRING_new h2 = Inr (key, h3)" "str_is key []" "key \<noteq> None" "plenty h3"
    using STRING_new_yields [of h2] tok(2) by (auto simp: yields_def)
  obtain val h4 where val: "STRING_new h3 = Inr (val, h4)" "str_is val []" "val \<noteq> None" "plenty h4"
    using STRING_new_yields [of h3] key(4) by (auto simp: yields_def)
  let ?m = "\<lparr>keys_of = [], values_of = [], count = 0, mapFilterCallback = None\<rparr>" and ?h5 = "\<lambda>i. h4 (Suc i)"
  have m: "Map_Create None h4 = (Some ?m, ?h5)" using ok [OF val(4)] by (simp add: Map_Create_def)
  have "\<exists>m1 h6. parse_pairs ?token key val ?m ?h5 = Inr (Some m1, h6) \<and> has_pairs m1 ([] @ map pair_of ps) \<and> plenty h6"
    by (rule parse_pairs_run [OF _ assms(2) _ _ _ key(2) val(2) _ nul len])
      (use assms(3) val(4) in \<open>simp_all add: rest_of_def has_pairs_def\<close>)
  then show ?thesis
    using s(1,3) tok(1) key(1,3) val(1,3) m
    by (simp add: connectionstringparser_parse_from_char_def connectionstringparser_parse_def)
qed

section \<open>What is found\<close>

lemma pairs_found: "has_pairs m ps \<Longrightarrow> Map_GetValueFromKey (Some m) (Some k) = Inr (map_of ps k)"
  using Map_get_refines by blast

text \<open>
  Claim C12. A connection string is parsed into the pairs it was written from: when every key and value
  is nonempty, no key has an equals sign, no value a semicolon and no two keys are equal, the map the
  parser returns has for every key the value written for it, and nothing for any other key, while the
  allocator has storage.
\<close>

theorem connection_string_roundtrip:
  assumes "is_text p (text_of_pairs (map (\<lambda>(k, v). (k, 0, v)) ps))"
    "\<forall>(k, v)\<in>set ps. k \<noteq> [] \<and> CHR ''='' \<notin> set k \<and> v \<noteq> [] \<and> CHR '';'' \<notin> set v" "distinct (map fst ps)" "plenty h"
  shows "\<exists>m h1. connectionstringparser_parse_from_char p h = Inr (Some m, h1) \<and>
    (\<forall>k. Map_GetValueFromKey (Some m) (Some k) = Inr (map_of ps k)) \<and> count m = length ps"
proof -
  let ?qs = "map (\<lambda>(k, v). (k, 0, v)) ps"
  have pairs: "map pair_of ?qs = ps" by (induction ps) (auto simp: pair_of_def)
  have keys: "map (fst \<circ> pair_of) ?qs = map fst ps" by (simp add: pair_of_def comp_def split_def)
  have good: "\<forall>q\<in>set ?qs. is_pair q" using assms(2) by (auto simp: is_pair_def)
  have "distinct (map (fst \<circ> pair_of) ?qs)" unfolding keys by (rule assms(3))
  from parse_text [OF assms(1) good this assms(4)]
  obtain m h1 where m: "connectionstringparser_parse_from_char p h = Inr (Some m, h1)" "has_pairs m ps"
    unfolding pairs by blast
  have "count m = length ps" using m(2) by (simp add: has_pairs_def)
  with m(1) pairs_found [OF m(2)] show ?thesis by blast
qed

text \<open>
  Claim C1. An empty value takes the next pair for its value: of a connection string in which a
  semicolon follows the equals sign of the first key, the parser gives the first key the whole next
  pair, its key, equals sign and value, reports no error, and does not have the next key.
\<close>

theorem empty_value_swallows:
  assumes "is_text p (k1 @ ''=;'' @ k2 @ ''='' @ v2)" "k1 \<noteq> []" "CHR ''='' \<notin> set k1" "k2 \<noteq> []" "CHR '';'' \<notin> set k2"
    "CHR '';'' \<notin> set v2" "k2 \<noteq> k1" "plenty h"
  shows "\<exists>m h1. connectionstringparser_parse_from_char p h = Inr (Some m, h1) \<and>
    Map_GetValueFromKey (Some m) (Some k1) = Inr (Some (k2 @ ''='' @ v2)) \<and> Map_GetValueFromKey (Some m) (Some k2) = Inr None"
proof -
  let ?ps = "[(k1, 1, k2 @ ''='' @ v2)]"
  have "k1 @ ''=;'' @ k2 @ ''='' @ v2 = text_of_pairs ?ps" by simp
  then have "\<exists>m h1. connectionstringparser_parse_from_char p h = Inr (Some m, h1) \<and> has_pairs m (map pair_of ?ps) \<and> plenty h1"
    by (intro parse_text) (use assms in \<open>auto simp: is_pair_def\<close>)
  then obtain m h1 where m: "connectionstringparser_parse_from_char p h = Inr (Some m, h1)" "has_pairs m [(k1, k2 @ ''='' @ v2)]"
    by (auto simp: pair_of_def)
  with pairs_found [OF m(2)] assms(7) show ?thesis by simp
qed

lemma connection_string_roundtrip_witness:
  "\<exists>m h1. connectionstringparser_parse_from_char (Some (''HostName=a.b;Key=c=d'' @ [NUL])) junk_mem = Inr (Some m, h1) \<and>
    Map_GetValueFromKey (Some m) (Some ''Key'') = Inr (Some ''c=d'')"
proof -
  let ?ps = "[(''HostName'', ''a.b''), (''Key'', ''c=d'')]"
  have t: "text_of_pairs (map (\<lambda>(k, v). (k, 0, v)) ?ps) = ''HostName=a.b;Key=c=d''" by simp
  have p: "is_text (Some (''HostName=a.b;Key=c=d'' @ [NUL])) (text_of_pairs (map (\<lambda>(k, v). (k, 0, v)) ?ps))"
    unfolding t by (rule is_text_terminated) simp_all
  have v: "map_of ?ps ''Key'' = Some ''c=d''" by simp
  from connection_string_roundtrip [OF p _ _ plenty_junk] v show ?thesis by fastforce
qed

lemma empty_value_swallows_witness:
  "\<exists>m h1. connectionstringparser_parse_from_char (Some (''a=;b=c'' @ [NUL])) junk_mem = Inr (Some m, h1) \<and>
    Map_GetValueFromKey (Some m) (Some ''a'') = Inr (Some ''b=c'')"
proof -
  have p: "is_text (Some (''a=;b=c'' @ [NUL])) (''a'' @ ''=;'' @ ''b'' @ ''='' @ ''c'')"
    using is_text_terminated [of "''a=;b=c''"] by simp
  from empty_value_swallows [OF p _ _ _ _ _ _ plenty_junk] show ?thesis by fastforce
qed

end
