(* ===== verification/Iothub_Config.thy ===== *)
theory Iothub_Config
  imports Conn_String
begin

text \<open>
  How the client reads its connection string
  (\<open>IoTHubClientCore_LL_CreateFromConnectionString\<close> in
  \<open>azure_iot_sdk/iothub_client/src/iothub_client_core_ll.c\<close>), up to the call of
  \<open>initialize_iothub_client\<close> it ends in: the pairs it understands, what each changes, what it
  accepts, and what a pair it refuses does to the pairs after it.
\<close>

section \<open>Reading the pairs\<close>

text \<open>The transport is the protocol function the client was given.\<close>

datatype IOTHUB_CLIENT_TRANSPORT_PROVIDER = HTTP_Protocol | MQTT_Protocol | MQTT_WebSocket_Protocol

record IOTHUB_CLIENT_CONFIG =
  protocol :: IOTHUB_CLIENT_TRANSPORT_PROVIDER
  deviceId :: char_ptr
  deviceKey :: char_ptr
  deviceSasToken :: char_ptr
  iotHubName :: char_ptr
  iotHubSuffix :: char_ptr
  protocolGatewayHostName :: char_ptr

text \<open>The local variables of the function.\<close>

record reading =
  config :: IOTHUB_CLIENT_CONFIG
  tokenString :: STRING_HANDLE
  valueString :: STRING_HANDLE
  hostNameString :: STRING_HANDLE
  hostSuffixString :: STRING_HANDLE
  moduleId :: STRING_HANDLE
  isx509found :: bool
  use_provisioning :: bool

text \<open>Each pair yields whether the loop goes on; \<open>break\<close> is \<open>False\<close>.\<close>

definition read_host_name :: "reading \<Rightarrow> mem \<Rightarrow> (bool \<times> reading \<times> mem) outcome" where
  "read_host_name r h =
    cbind (STRING_TOKENIZER_create (valueString r) h) (\<lambda>(tokenizer2, h1).
      if tokenizer2 = None then Inr (False, r, h1)
      else cbind (STRING_TOKENIZER_get_next_token tokenizer2 (hostNameString r) (Some ''.'') h1) (\<lambda>(r1, t1, name1, h2).
        if r1 \<noteq> MU_OK then Inr (False, r\<lparr>hostNameString := name1\<rparr>, h2)
        else
          let ra = r\<lparr>hostNameString := name1, config := (config r)\<lparr>iotHubName := STRING_c_str name1\<rparr>\<rparr>
          in cbind (STRING_TOKENIZER_get_next_token t1 (hostSuffixString ra) (Some '';'') h2) (\<lambda>(r2, t2, suffix1, h3).
            if r2 \<noteq> MU_OK then Inr (False, ra\<lparr>hostSuffixString := suffix1\<rparr>, h3)
            else Inr (True, ra\<lparr>hostSuffixString := suffix1, config := (config ra)\<lparr>iotHubSuffix := STRING_c_str suffix1\<rparr>\<rparr>, h3))))"

text \<open>A value is cloned and the configuration is given the clone.\<close>

definition clone_value :: "reading \<Rightarrow> (STRING_HANDLE \<Rightarrow> reading) \<Rightarrow> mem \<Rightarrow> (bool \<times> reading \<times> mem) outcome" where
  "clone_value r setting h =
    cbind (STRING_clone (valueString r) h) (\<lambda>(s, h1). if s = None then Inr (False, r, h1) else Inr (True, setting s, h1))"

definition read_pair :: "reading \<Rightarrow> mem \<Rightarrow> (bool \<times> reading \<times> mem) outcome" where
  "read_pair r h =
    cbind (string_of (STRING_c_str (tokenString r))) (\<lambda>s_token.
      if s_token = ''HostName'' then read_host_name r h
      else if s_token = ''DeviceId'' then
        clone_value r (\<lambda>s. r\<lparr>config := (config r)\<lparr>deviceId := STRING_c_str s\<rparr>\<rparr>) h
      else if s_token = ''SharedAccessKey'' then
        clone_value r (\<lambda>s. r\<lparr>config := (config r)\<lparr>deviceKey := STRING_c_str s\<rparr>\<rparr>) h
      else if s_token = ''SharedAccessSignature'' then
        clone_value r (\<lambda>s. r\<lparr>config := (config r)\<lparr>deviceSasToken := STRING_c_str s\<rparr>\<rparr>) h
      else if s_token = ''x509'' then
        cbind (string_of (STRING_c_str (valueString r))) (\<lambda>v.
          if v \<noteq> ''true'' then Inr (False, r, h) else Inr (True, r\<lparr>isx509found := True\<rparr>, h))
      else if s_token = ''UseProvisioning'' then
        cbind (string_of (STRING_c_str (valueString r))) (\<lambda>v.
          if v \<noteq> ''true'' then Inr (False, r, h) else Inr (True, r\<lparr>use_provisioning := True\<rparr>, h))
      else if s_token = ''GatewayHostName'' then
        clone_value r (\<lambda>s. r\<lparr>config := (config r)\<lparr>protocolGatewayHostName := STRING_c_str s\<rparr>\<rparr>) h
      else if s_token = ''ModuleId'' then
        cbind (STRING_clone (valueString r) h) (\<lambda>(s, h1). Inr (s \<noteq> None, r\<lparr>moduleId := s\<rparr>, h1))
      else Inr (True, r, h))"

function read_pairs :: "STRING_TOKEN \<Rightarrow> reading \<Rightarrow> mem \<Rightarrow> (reading \<times> mem) outcome" where
  "read_pairs tokenizer1 r h =
    cbind (STRING_TOKENIZER_get_next_token (Some tokenizer1) (tokenString r) (Some ''='') h) (\<lambda>(r1, t1, key1, h1).
      if r1 \<noteq> MU_OK then Inr (r\<lparr>tokenString := key1\<rparr>, h1)
      else cbind (STRING_TOKENIZER_get_next_token t1 (valueString r) (Some '';'') h1) (\<lambda>(r2, t2, val1, h2).
        if r2 \<noteq> MU_OK then Inr (r\<lparr>tokenString := key1, valueString := val1\<rparr>, h2)
        else if key1 = None then
          (case t2 of None \<Rightarrow> Inr (r, h2) | Some token2 \<Rightarrow> read_pairs token2 (r\<lparr>tokenString := key1, valueString := val1\<rparr>) h2)
        else cbind (read_pair (r\<lparr>tokenString := key1, valueString := val1\<rparr>) h2) (\<lambda>(go_on, ra, h3).
          if \<not> go_on then Inr (ra, h3)
          else case t2 of None \<Rightarrow> Inr (ra, h3) | Some token2 \<Rightarrow> read_pairs token2 ra h3)))"
  by pat_completeness auto
termination
  by (relation "measure (\<lambda>(token, _). length (inputString token) - currentPos token)") (auto elim: two_tokens)

declare read_pairs.simps [simp del]

section \<open>Creating a client\<close>

text \<open>
  What is judged after the loop, and the arguments of the call of \<open>initialize_iothub_client\<close> that is
  made; NULL is returned without that call otherwise.
\<close>

definition judge :: "reading \<Rightarrow> (IOTHUB_CLIENT_CONFIG \<times> bool \<times> char_ptr) option" where
  "judge r =
    (let c = config r; other = (use_provisioning r \<or> isx509found r)
     in if iotHubName c = None then None
        else if iotHubSuffix c = None then None
        else if deviceId c = None then None
        else if \<not> (\<not> other \<and> ((deviceSasToken c = None) \<noteq> (deviceKey c = None)) \<or>
                    other \<and> deviceSasToken c = None \<and> deviceKey c = None) then None
        else Some (c, use_provisioning r, STRING_c_str (moduleId r)))"

text \<open>Four new strings, or none.\<close>

definition new_strings :: "mem \<Rightarrow> ((STRING_HANDLE \<times> STRING_HANDLE \<times> STRING_HANDLE \<times> STRING_HANDLE) option \<times> mem) outcome" where
  "new_strings h =
    cbind (STRING_new h) (\<lambda>(a, h1). if a = None then Inr (None, h1)
    else cbind (STRING_new h1) (\<lambda>(b, h2). if b = None then Inr (None, h2)
    else cbind (STRING_new h2) (\<lambda>(c, h3). if c = None then Inr (None, h3)
    else cbind (STRING_new h3) (\<lambda>(d, h4). if d = None then Inr (None, h4)
    else Inr (Some (a, b, c, d), h4)))))"

definition IoTHubClientCore_LL_CreateFromConnectionString ::
    "char_ptr \<Rightarrow> IOTHUB_CLIENT_TRANSPORT_PROVIDER option \<Rightarrow> mem \<Rightarrow> ((IOTHUB_CLIENT_CONFIG \<times> bool \<times> char_ptr) option \<times> mem) outcome" where
  "IoTHubClientCore_LL_CreateFromConnectionString connectionString protocol1 h =
    (case (connectionString, protocol1) of
       (Some cs, Some prot) \<Rightarrow>
         if h 0 = None then Inr (None, \<lambda>i. h (Suc i))
         else cbind (STRING_construct connectionString (\<lambda>i. h (Suc i))) (\<lambda>(connString, h1).
           if connString = None then Inr (None, h1)
           else cbind (STRING_TOKENIZER_create connString h1) (\<lambda>(tokenizer1, h2).
             case tokenizer1 of None \<Rightarrow> Inr (None, h2)
             | Some token \<Rightarrow> cbind (new_strings h2) (\<lambda>(strings, h3).
                 case strings of None \<Rightarrow> Inr (None, h3)
                 | Some (a, b, c, d) \<Rightarrow>
                     cbind (read_pairs token \<lparr>config = \<lparr>protocol = prot, deviceId = None, deviceKey = None, deviceSasToken = None,
                         iotHubName = None, iotHubSuffix = None, protocolGatewayHostName = None\<rparr>,
                       tokenString = a, valueString = b, hostNameString = c, hostSuffixString = d, moduleId = None,
                       isx509found = False, use_provisioning = False\<rparr> h3) (\<lambda>(r, h4). Inr (judge r, h4)))))
     | _ \<Rightarrow> Inr (None, h))"

section \<open>What a connection string means\<close>

text \<open>
  The settings the pairs give, as texts: every pair changes its setting, and \<open>False\<close> ends the reading.
  A host name is split at its first dot, dots in front of it not counted.
\<close>

record settings =
  transport :: IOTHUB_CLIENT_TRANSPORT_PROVIDER
  name_of :: "string option"
  suffix_of :: "string option"
  device :: "string option"
  key_of :: "string option"
  sas :: "string option"
  gateway :: "string option"
  modul :: "string option"
  x509 :: bool
  provisioning :: bool

definition no_settings :: "IOTHUB_CLIENT_TRANSPORT_PROVIDER \<Rightarrow> settings" where
  "no_settings t = \<lparr>transport = t, name_of = None, suffix_of = None, device = None, key_of = None, sas = None, gateway = None, modul = None,
    x509 = False, provisioning = False\<rparr>"

definition split_host :: "string \<Rightarrow> settings \<Rightarrow> bool \<times> settings" where
  "split_host v s =
    (let w = dropWhile (\<lambda>c. c = CHR ''.'') v; name = takeWhile (\<lambda>c. c \<noteq> CHR ''.'') w; suffix = drop (length name + 1) w
     in if w = [] then (False, s)
        else if suffix = [] then (False, s\<lparr>name_of := Some name\<rparr>)
        else (True, s\<lparr>name_of := Some name, suffix_of := Some suffix\<rparr>))"

definition take_pair :: "string \<times> string \<Rightarrow> settings \<Rightarrow> bool \<times> settings" where
  "take_pair p s =
    (case p of (k, v) \<Rightarrow>
      if k = ''HostName'' then split_host v s
      else if k = ''DeviceId'' then (True, s\<lparr>device := Some v\<rparr>)
      else if k = ''SharedAccessKey'' then (True, s\<lparr>key_of := Some v\<rparr>)
      else if k = ''SharedAccessSignature'' then (True, s\<lparr>sas := Some v\<rparr>)
      else if k = ''x509'' then (if v = ''true'' then (True, s\<lparr>x509 := True\<rparr>) else (False, s))
      else if k = ''UseProvisioning'' then (if v = ''true'' then (True, s\<lparr>provisioning := True\<rparr>) else (False, s))
      else if k = ''GatewayHostName'' then (True, s\<lparr>gateway := Some v\<rparr>)
      else if k = ''ModuleId'' then (True, s\<lparr>modul := Some v\<rparr>)
      else (True, s))"

fun understood :: "(string \<times> string) list \<Rightarrow> settings \<Rightarrow> settings" where
  "understood [] s = s"
| "understood (p # ps) s = (if fst (take_pair p s) then understood ps (snd (take_pair p s)) else snd (take_pair p s))"

definition acceptable :: "settings \<Rightarrow> bool" where
  "acceptable s \<longleftrightarrow> name_of s \<noteq> None \<and> suffix_of s \<noteq> None \<and> device s \<noteq> None \<and>
    (if provisioning s \<or> x509 s then sas s = None \<and> key_of s = None else (sas s = None) \<noteq> (key_of s = None))"

text \<open>A pointer is the text of a setting, or NULL for none.\<close>

definition points_to :: "char_ptr \<Rightarrow> string option \<Rightarrow> bool" where
  "points_to p t = (case t of None \<Rightarrow> p = None | Some u \<Rightarrow> is_text p u)"

lemma points_to_simps [simp]: "points_to None None" "points_to p None \<longleftrightarrow> p = None" "points_to p (Some u) \<longleftrightarrow> is_text p u"
  by (auto simp: points_to_def)

lemma points_to_None: "points_to p t \<Longrightarrow> p = None \<longleftrightarrow> t = None"
  by (cases t) (auto simp: is_text_def)

text \<open>The arguments of the call stand for the settings.\<close>

definition configures :: "IOTHUB_CLIENT_CONFIG \<Rightarrow> settings \<Rightarrow> bool" where
  "configures c s \<longleftrightarrow> protocol c = transport s \<and> points_to (iotHubName c) (name_of s) \<and> points_to (iotHubSuffix c) (suffix_of s) \<and>
    points_to (deviceId c) (device s) \<and> points_to (deviceKey c) (key_of s) \<and> points_to (deviceSasToken c) (sas s) \<and>
    points_to (protocolGatewayHostName c) (gateway s)"

definition reads :: "reading \<Rightarrow> settings \<Rightarrow> bool" where
  "reads r s \<longleftrightarrow> configures (config r) s \<and> points_to (STRING_c_str (moduleId r)) (modul s) \<and>
    isx509found r = x509 s \<and> use_provisioning r = provisioning s \<and>
    (\<exists>t. str_is (hostNameString r) t) \<and> (\<exists>t. str_is (hostSuffixString r) t)"

lemmas reads_defs = reads_def configures_def

section \<open>One pair\<close>

text \<open>The two tokens of a host name, and where one is missing.\<close>

lemma dots: "\<exists>k. v = replicate k d @ dropWhile (\<lambda>c. c = d) v"
proof (induction v)
  case (Cons c v)
  then obtain k where "v = replicate k d @ dropWhile (\<lambda>c. c = d) v" ..
  then have step: "c # v = replicate (Suc k) c @ dropWhile (\<lambda>c. c = d) v" if "c = d" using that by simp
  show ?case
  proof (cases "c = d")
    case True
    then have "dropWhile (\<lambda>c. c = d) (c # v) = dropWhile (\<lambda>c. c = d) v" by simp
    with step [OF True] True show ?thesis by metis
  next
    case False
    then have "c # v = replicate 0 d @ dropWhile (\<lambda>c. c = d) (c # v)" by simp
    then show ?thesis ..
  qed
qed simp

lemma read_host_name_run:
  assumes "reads r s" "str_is (valueString r) v" "v \<noteq> []" "CHR '';'' \<notin> set v" "plenty h"
  shows "\<exists>r1 h1. read_host_name r h = Inr (fst (split_host v s), r1, h1) \<and> reads r1 (snd (split_host v s)) \<and>
    tokenString r1 = tokenString r \<and> valueString r1 = valueString r \<and> plenty h1"
proof -
  let ?d = "CHR ''.''"
  define w where "w = dropWhile (\<lambda>c. c = ?d) v"
  define name where "name = takeWhile (\<lambda>c. c \<noteq> ?d) w"
  define rest where "rest = drop (length name) w"
  obtain k where v: "v = replicate k ?d @ w" using dots [of v ?d] by (auto simp: w_def)
  obtain h1 where tok: "STRING_TOKENIZER_create (valueString r) h = Inr (Some \<lparr>inputString = v, currentPos = 0\<rparr>, h1)" "plenty h1"
    using STRING_TOKENIZER_create_run [OF assms(2,5)] by blast
  let ?t = "\<lparr>inputString = v, currentPos = 0\<rparr>"
  have rest_t: "rest_of ?t = v" by (simp add: rest_of_def)
  have len: "length v < 2 ^ 31 - 1" "NUL \<notin> set v" using assms(2) by (auto elim: str_is_cases)
  obtain u1 u2 where u: "str_is (hostNameString r) u1" "str_is (hostSuffixString r) u2" using assms(1) by (auto simp: reads_def)
  have restd: "rest = dropWhile (\<lambda>c. c \<noteq> ?d) w" unfolding rest_def name_def by (simp only: dropWhile_eq_drop)
  have w: "w = name @ rest" unfolding restd name_def by (simp only: takeWhile_dropWhile_id)
  have suffix: "drop (length name + 1) w = tl rest" by (simp add: rest_def drop_Suc tl_drop)
  have split: "split_host v s =
      (if w = [] then (False, s) else if tl rest = [] then (False, s\<lparr>name_of := Some name\<rparr>)
       else (True, s\<lparr>name_of := Some name, suffix_of := Some (tl rest)\<rparr>))"
    unfolding split_host_def Let_def w_def [symmetric] name_def [symmetric] suffix ..
  show ?thesis
  proof (cases "w = []")
    case True
    then obtain t1 where "STRING_TOKENIZER_get_next_token (Some ?t) (hostNameString r) (Some ''.'') h1 = Inr (MU_FAILURE, Some t1, hostNameString r, h1)"
      using get_next_token_end [of ?t k ?d] v rest_t by auto
    moreover have "split_host v s = (False, s)" using True split by simp
    ultimately show ?thesis using tok assms(1) by (simp add: read_host_name_def)
  next
    case False
    have "hd w \<noteq> ?d" using False unfolding w_def by (rule hd_dropWhile)
    then have name: "name \<noteq> []" "?d \<notin> set name" using False unfolding name_def by (cases w; auto dest: set_takeWhileD)+
    have r: "rest = [] \<or> hd rest = ?d" using hd_dropWhile [of "\<lambda>c. c \<noteq> ?d" w] by (auto simp: restd)
    obtain t1 name1 h2 where 1: "STRING_TOKENIZER_get_next_token (Some ?t) (hostNameString r) (Some ''.'') h1 = Inr (MU_OK, Some t1, name1, h2)"
      "rest_of t1 = tl rest" "str_is name1 name" "plenty h2"
      using get_next_token_run [of ?t k ?d name rest "hostNameString r" u1 h1] v w rest_t name r u(1) len tok(2) by auto
    show ?thesis
    proof (cases "tl rest = []")
      case True
      then obtain t2 where "STRING_TOKENIZER_get_next_token (Some t1) (hostSuffixString r) (Some '';'') h2 = Inr (MU_FAILURE, Some t2, hostSuffixString r, h2)"
        using get_next_token_end [of t1 0 "CHR '';''"] 1(2) by auto
      moreover have "split_host v s = (False, s\<lparr>name_of := Some name\<rparr>)"
        using True False split by simp
      ultimately show ?thesis using tok 1 assms(1) by (auto simp: read_host_name_def reads_defs str_is_def)
    next
      case suf: False
      have tl: "CHR '';'' \<notin> set (tl rest)" "NUL \<notin> set (tl rest)" "length (tl rest) < 2 ^ 31 - 1"
        using assms(4) len v w by (auto dest: list.set_sel(2) [of rest] intro: ccontr; cases rest; auto)+
      obtain t2 suffix1 h3 where 2: "STRING_TOKENIZER_get_next_token (Some t1) (hostSuffixString r) (Some '';'') h2 = Inr (MU_OK, Some t2, suffix1, h3)"
        "str_is suffix1 (tl rest)" "plenty h3"
        using get_next_token_run [of t1 0 "CHR '';''" "tl rest" "[]" "hostSuffixString r" u2 h2] suf tl u(2) 1(2,4) by auto
      have "split_host v s = (True, s\<lparr>name_of := Some name, suffix_of := Some (tl rest)\<rparr>)"
        using suf False split by simp
      then show ?thesis using tok 1 2 assms(1) by (auto simp: read_host_name_def reads_defs str_is_def)
    qed
  qed
qed

lemma read_pair_run:
  assumes "reads r s" "str_is (tokenString r) k" "str_is (valueString r) v" "v \<noteq> []" "CHR '';'' \<notin> set v" "plenty h"
  shows "\<exists>r1 h1. read_pair r h = Inr (fst (take_pair (k, v) s), r1, h1) \<and> reads r1 (snd (take_pair (k, v) s)) \<and>
    tokenString r1 = tokenString r \<and> valueString r1 = valueString r \<and> plenty h1"
proof -
  have k: "string_of (STRING_c_str (tokenString r)) = Inr k" and v: "string_of (STRING_c_str (valueString r)) = Inr v"
    using assms(2,3) by (simp_all add: str_is_def is_text_string_of)
  show ?thesis
  proof (cases "k = ''HostName''")
    case True
    then show ?thesis using read_host_name_run [OF assms(1,3,4,5,6)] k by (simp add: read_pair_def take_pair_def)
  next
    case False
    obtain c h1 where c: "STRING_clone (valueString r) h = Inr (c, h1)" "c \<noteq> None" "str_is c v" "plenty h1"
      using STRING_clone_yields [OF assms(3), of h] assms(6) str_is_cases [OF assms(3)] by (auto simp: yields_def)
    then have ct: "is_text (STRING_c_str c) v" by (simp add: str_is_def)
    show ?thesis using False k v c ct assms(1,6)
      by (auto simp: read_pair_def take_pair_def clone_value_def reads_defs)
  qed
qed

section \<open>All the pairs\<close>

lemma read_pairs_run:
  assumes "rest_of token = text_of_pairs ps" "\<forall>p\<in>set ps. is_pair p" "reads r s"
    "str_is (tokenString r) u1" "str_is (valueString r) u2" "plenty h"
    "NUL \<notin> set (text_of_pairs ps)" "length (text_of_pairs ps) < 2 ^ 31 - 1"
  shows "\<exists>r1 h1. read_pairs token r h = Inr (r1, h1) \<and> reads r1 (understood (map pair_of ps) s)"
  using assms
proof (induction ps arbitrary: token r s u1 u2 h)
  case Nil
  then obtain token1 where "STRING_TOKENIZER_get_next_token (Some token) (tokenString r) (Some ''='') h = Inr (MU_FAILURE, Some token1, tokenString r, h)"
    using get_next_token_end [of token 0 "CHR ''=''" "tokenString r" h] by auto
  then show ?case using Nil by (simp add: read_pairs.simps [of token] reads_defs)
next
  case (Cons p ps)
  obtain k n v where p: "p = (k, n, v)" by (cases p)
  have good: "v \<noteq> []" "CHR '';'' \<notin> set v" using Cons.prems(2) p by (simp_all add: is_pair_def)
  obtain t1 key1 h1 token2 val1 h2 where
    1: "STRING_TOKENIZER_get_next_token (Some token) (tokenString r) (Some ''='') h = Inr (MU_OK, Some t1, key1, h1)" "str_is key1 k" and
    2: "STRING_TOKENIZER_get_next_token (Some t1) (valueString r) (Some '';'') h1 = Inr (MU_OK, Some token2, val1, h2)" "str_is val1 v"
      "rest_of token2 = text_of_pairs ps" "plenty h2"
    using next_pair_run [of token k n v ps "tokenString r" u1 "valueString r" u2 h] Cons.prems p by auto
  let ?r = "r\<lparr>tokenString := key1, valueString := val1\<rparr>"
  have reads: "reads ?r s" using Cons.prems(3) by (simp add: reads_defs)
  obtain r1 h3 where 3: "read_pair ?r h2 = Inr (fst (take_pair (k, v) s), r1, h3)" "reads r1 (snd (take_pair (k, v) s))"
    "tokenString r1 = key1" "valueString r1 = val1" "plenty h3"
    using read_pair_run [OF reads _ _ good 2(4), of k] 1(2) 2(2) by auto
  have key: "key1 \<noteq> None" using 1(2) by (auto elim: str_is_cases)
  have step: "read_pairs token r h = (if fst (take_pair (k, v) s) then read_pairs token2 r1 h3 else Inr (r1, h3))"
    using 1(1) 2(1) 3(1) key by (subst read_pairs.simps) auto
  show ?case
  proof (cases "fst (take_pair (k, v) s)")
    case True
    have "\<exists>r2 h4. read_pairs token2 r1 h3 = Inr (r2, h4) \<and> reads r2 (understood (map pair_of ps) (snd (take_pair (k, v) s)))"
      by (rule Cons.IH [OF 2(3) _ 3(2) _ _ 3(5)]) (use Cons.prems p 1(2) 2(2) 3(3,4) in \<open>auto split: if_splits\<close>)
    with True step p show ?thesis by simp
  next
    case False
    with 3(2) step p show ?thesis by simp
  qed
qed

section \<open>What is accepted\<close>

lemma judge_run:
  assumes "reads r s"
  shows "if acceptable s then \<exists>c m. judge r = Some (c, provisioning s, m) \<and> configures c s \<and> points_to m (modul s) else judge r = None"
proof -
  have "iotHubName (config r) = None \<longleftrightarrow> name_of s = None" "iotHubSuffix (config r) = None \<longleftrightarrow> suffix_of s = None"
    "deviceId (config r) = None \<longleftrightarrow> device s = None" "deviceKey (config r) = None \<longleftrightarrow> key_of s = None"
    "deviceSasToken (config r) = None \<longleftrightarrow> sas s = None"
    using assms by (simp_all add: reads_defs points_to_None)
  then show ?thesis using assms by (simp add: judge_def acceptable_def reads_def Let_def del: not_None_eq)
qed

lemma new_strings_run:
  assumes "plenty h"
  shows "\<exists>a b c d h1. new_strings h = Inr (Some (a, b, c, d), h1) \<and> str_is a [] \<and> str_is b [] \<and> str_is c [] \<and> str_is d [] \<and> plenty h1"
proof -
  have new: "\<exists>a h1. STRING_new h = Inr (Some a, h1) \<and> str_is (Some a) [] \<and> plenty h1" if "plenty h" for h
    using STRING_new_yields [of h] that by (auto simp: yields_def)
  obtain a h1 where 1: "STRING_new h = Inr (Some a, h1)" "str_is (Some a) []" "plenty h1" using new [OF assms] by blast
  obtain b h2 where 2: "STRING_new h1 = Inr (Some b, h2)" "str_is (Some b) []" "plenty h2" using new [OF 1(3)] by blast
  obtain c h3 where 3: "STRING_new h2 = Inr (Some c, h3)" "str_is (Some c) []" "plenty h3" using new [OF 2(3)] by blast
  obtain d h4 where 4: "STRING_new h3 = Inr (Some d, h4)" "str_is (Some d) []" "plenty h4" using new [OF 3(3)] by blast
  from 1 2 3 4 show ?thesis by (simp add: new_strings_def)
qed

lemma create_run:
  assumes "is_text p (text_of_pairs ps)" "\<forall>q\<in>set ps. is_pair q" "plenty h"
  shows "\<exists>r h1. IoTHubClientCore_LL_CreateFromConnectionString p (Some prot) h = Inr (judge r, h1) \<and>
    reads r (understood (map pair_of ps) (no_settings prot))"
proof -
  let ?t = "text_of_pairs ps"
  have len: "length ?t < 2 ^ 31 - 1" and nul: "NUL \<notin> set ?t" using is_text_short [OF assms(1)] is_text_no_NUL [OF assms(1)] .
  have ok: "h 0 \<noteq> None" and p1: "plenty (\<lambda>i. h (Suc i))" using assms(3) by (simp_all add: plenty_def)
  obtain s h1 where s: "STRING_construct p (\<lambda>i. h (Suc i)) = Inr (s, h1)" "str_is s ?t" "s \<noteq> None" "plenty h1"
    using STRING_construct_yields [OF assms(1), of "\<lambda>i. h (Suc i)"] p1 len by (auto simp: yields_def)
  let ?token = "\<lparr>inputString = ?t, currentPos = 0\<rparr>"
  obtain h2 where tok: "STRING_TOKENIZER_create s h1 = Inr (Some ?token, h2)" "plenty h2"
    using STRING_TOKENIZER_create_run [OF s(2,4)] by blast
  obtain a b c d h3 where st: "new_strings h2 = Inr (Some (a, b, c, d), h3)" "str_is a []" "str_is b []" "str_is c []" "str_is d []" "plenty h3"
    using new_strings_run [OF tok(2)] by blast
  let ?r = "\<lparr>config = \<lparr>protocol = prot, deviceId = None, deviceKey = None, deviceSasToken = None,
      iotHubName = None, iotHubSuffix = None, protocolGatewayHostName = None\<rparr>,
    tokenString = a, valueString = b, hostNameString = c, hostSuffixString = d, moduleId = None,
    isx509found = False, use_provisioning = False\<rparr>"
  have start: "reads ?r (no_settings prot)" using st(4,5) by (auto simp: reads_defs no_settings_def STRING_c_str_def)
  have "rest_of ?token = ?t" by (simp add: rest_of_def)
  then obtain r h4 where r: "read_pairs ?token ?r h3 = Inr (r, h4)" "reads r (understood (map pair_of ps) (no_settings prot))"
    using read_pairs_run [of ?token ps ?r "no_settings prot" "[]" "[]" h3] assms(2) start st nul len by auto
  obtain t where t: "p = Some t" using assms(1) by (auto simp: is_text_def)
  show ?thesis
    using ok s(1,3) tok(1) st(1) r t by (auto simp: IoTHubClientCore_LL_CreateFromConnectionString_def)
qed

text \<open>
  Claim C8. Creating a client from a connection string refines reading its pairs from left to right
  until one is refused: while the allocator has storage, the configuration the client is initialized
  with points to the texts the pairs give, the last of a repeated key, the host name split at its first
  dot; and no client is initialized exactly when the name, the suffix or the device is missing or the
  credentials are not a key or a signature alone, or neither with a certificate or provisioning.
\<close>

theorem connection_string_understood:
  assumes "is_text p (text_of_pairs ps)" "\<forall>q\<in>set ps. is_pair q" "plenty h"
  shows "\<exists>client h1. IoTHubClientCore_LL_CreateFromConnectionString p (Some prot) h = Inr (client, h1) \<and>
    (let s = understood (map pair_of ps) (no_settings prot)
     in if acceptable s then \<exists>c m. client = Some (c, provisioning s, m) \<and> configures c s \<and> points_to m (modul s) else client = None)"
  using create_run [OF assms, of prot] judge_run unfolding Let_def by blast

lemma understood_refused:
  assumes "\<And>s. take_pair p s = (False, s)"
  shows "understood (ps @ p # qs) s = understood ps s"
  by (induction ps arbitrary: s) (simp_all add: assms)

text \<open>
  Claim C26. A refused pair does not make a connection string fail: when the pairs before it are
  acceptable, an \<open>x509\<close> or \<open>UseProvisioning\<close> that is not \<open>true\<close> ends the reading with an error, and
  the client is initialized from the pairs before it, whatever pairs follow.
\<close>

theorem refused_pair_accepted:
  assumes "is_text p (text_of_pairs (ps @ (k, n, v) # qs))" "\<forall>q\<in>set (ps @ (k, n, v) # qs). is_pair q" "plenty h"
    "k = ''x509'' \<or> k = ''UseProvisioning''" "v \<noteq> ''true''" "acceptable (understood (map pair_of ps) (no_settings prot))"
  shows "\<exists>c m h1. IoTHubClientCore_LL_CreateFromConnectionString p (Some prot) h =
      Inr (Some (c, provisioning (understood (map pair_of ps) (no_settings prot)), m), h1) \<and>
    configures c (understood (map pair_of ps) (no_settings prot))"
proof -
  have "take_pair (k, v) s = (False, s)" for s
    using assms(4) by (elim disjE) (simp_all add: take_pair_def assms(5))
  then have s: "understood (map pair_of (ps @ (k, n, v) # qs)) (no_settings prot) = understood (map pair_of ps) (no_settings prot)"
    by (simp add: understood_refused)
  obtain r h1 where r: "IoTHubClientCore_LL_CreateFromConnectionString p (Some prot) h = Inr (judge r, h1)"
    "reads r (understood (map pair_of ps) (no_settings prot))"
    using create_run [OF assms(1,2,3), of prot] unfolding s by blast
  have "\<exists>c m. judge r = Some (c, provisioning (understood (map pair_of ps) (no_settings prot)), m) \<and>
      configures c (understood (map pair_of ps) (no_settings prot))"
    using judge_run [OF r(2)] assms(6) by (simp only: if_True) blast
  with r(1) show ?thesis by auto
qed

lemma connection_string_understood_witness:
  "\<exists>c m h1. IoTHubClientCore_LL_CreateFromConnectionString (Some (''HostName=h.s.n;DeviceId=d;SharedAccessKey=k'' @ [NUL]))
      (Some MQTT_Protocol) junk_mem = Inr (Some (c, False, m), h1) \<and>
    is_text (iotHubName c) ''h'' \<and> is_text (iotHubSuffix c) ''s.n'' \<and> is_text (deviceKey c) ''k'' \<and> deviceSasToken c = None"
proof -
  let ?t = "''HostName=h.s.n;DeviceId=d;SharedAccessKey=k''"
    and ?ps = "[(''HostName'', 0, ''h.s.n''), (''DeviceId'', 0, ''d''), (''SharedAccessKey'', 0, ''k'')]"
  have p: "is_text (Some (?t @ [NUL])) (text_of_pairs ?ps)" using is_text_terminated [of ?t] by simp
  have good: "\<forall>q\<in>set ?ps. is_pair q" by (simp add: is_pair_def)
  have s: "understood (map pair_of ?ps) (no_settings MQTT_Protocol) =
      (no_settings MQTT_Protocol)\<lparr>name_of := Some ''h'', suffix_of := Some ''s.n'', device := Some ''d'', key_of := Some ''k''\<rparr>"
    by (simp add: no_settings_def take_pair_def split_host_def)
  from connection_string_understood [OF p good plenty_junk, of MQTT_Protocol] show ?thesis
    unfolding s by (auto simp: Let_def acceptable_def configures_def no_settings_def)
qed

text \<open>A key and a signature together are refused, but not after a pair that is refused.\<close>

lemma refused_pair_accepted_witness:
  "\<exists>c m h1. IoTHubClientCore_LL_CreateFromConnectionString
      (Some (''HostName=h.s;DeviceId=d;SharedAccessKey=k;x509=no;SharedAccessSignature=t'' @ [NUL])) (Some MQTT_Protocol) junk_mem =
        Inr (Some (c, False, m), h1) \<and> is_text (deviceKey c) ''k'' \<and> deviceSasToken c = None"
proof -
  let ?t = "''HostName=h.s;DeviceId=d;SharedAccessKey=k;x509=no;SharedAccessSignature=t''"
    and ?ps = "[(''HostName'', 0, ''h.s''), (''DeviceId'', 0, ''d''), (''SharedAccessKey'', 0, ''k'')]"
    and ?qs = "[(''SharedAccessSignature'', 0, ''t'')]"
  have p: "is_text (Some (?t @ [NUL])) (text_of_pairs (?ps @ (''x509'', 0, ''no'') # ?qs))" using is_text_terminated [of ?t] by simp
  have good: "\<forall>q\<in>set (?ps @ (''x509'', 0, ''no'') # ?qs). is_pair q" by (simp add: is_pair_def)
  have s: "understood (map pair_of ?ps) (no_settings MQTT_Protocol) =
      (no_settings MQTT_Protocol)\<lparr>name_of := Some ''h'', suffix_of := Some ''s'', device := Some ''d'', key_of := Some ''k''\<rparr>"
    by (simp add: no_settings_def take_pair_def split_host_def)
  from refused_pair_accepted [OF p good plenty_junk, of MQTT_Protocol] show ?thesis
    unfolding s by (auto simp: acceptable_def configures_def no_settings_def)
qed

end
