(* ===== verification/Provisioning.thy ===== *)
theory Provisioning
  imports Iothub_Config
begin

text \<open>
  The command that registers the device and makes its connection string
  (\<open>app_iothub_client/src/code.c\<close>): the callbacks, the loop that waits for the registration, and that the
  string it makes is one the client is initialized from.
\<close>

section \<open>The callbacks\<close>

datatype PROV_DEVICE_RESULT =
    PROV_DEVICE_RESULT_OK | PROV_DEVICE_RESULT_INVALID_ARG | PROV_DEVICE_RESULT_SUCCESS | PROV_DEVICE_RESULT_MEMORY
  | PROV_DEVICE_RESULT_PARSING | PROV_DEVICE_RESULT_TRANSPORT | PROV_DEVICE_RESULT_INVALID_STATE
  | PROV_DEVICE_RESULT_DEV_AUTH_ERROR | PROV_DEVICE_RESULT_TIMEOUT | PROV_DEVICE_RESULT_KEY_ERROR
  | PROV_DEVICE_RESULT_ERROR | PROV_DEVICE_RESULT_HUB_NOT_SPECIFIED | PROV_DEVICE_RESULT_UNAUTHORIZED | PROV_DEVICE_RESULT_DISABLED

record CLIENT_SAMPLE_INFO =
  sleep_time :: nat
  timeout :: nat
  iothub_uri :: "string option"
  access_key_name :: "string option"
  device_key :: "string option"
  device_id :: "string option"
  registration_complete :: nat

text \<open>What the command changes: its context, the client's connection string, and the allocator.\<close>

record csgen_state =
  user_ctx :: CLIENT_SAMPLE_INFO
  conn_str :: char_ptr
  heap :: mem

record IOTHUB_CLIENT_SAMPLE_INFO =
  connected :: nat
  stop_running :: nat

definition iothub_connection_status :: "bool \<Rightarrow> IOTHUB_CLIENT_SAMPLE_INFO option \<Rightarrow> IOTHUB_CLIENT_SAMPLE_INFO option" where
  "iothub_connection_status authenticated user_context =
    map_option (\<lambda>i. if authenticated then i\<lparr>connected := 1\<rparr> else i\<lparr>connected := 0, stop_running := 1\<rparr>) user_context"

definition receive_msg_callback :: "IOTHUB_CLIENT_SAMPLE_INFO \<Rightarrow> IOTHUB_CLIENT_SAMPLE_INFO" where
  "receive_msg_callback i = i\<lparr>stop_running := 1\<rparr>"

text \<open>\<open>"HostName=%s;DeviceId=%s;SharedAccessKey=%s"\<close>\<close>

definition device_string :: "string \<Rightarrow> string \<Rightarrow> string \<Rightarrow> string" where
  "device_string uri dev key = ''HostName='' @ uri @ '';DeviceId='' @ dev @ '';SharedAccessKey='' @ key"

text \<open>
  The result is None when the program exits for want of storage.  \<open>snprintf\<close> writes the text and its
  end into storage of that size.
\<close>

definition register_device_callback :: "char_ptr \<Rightarrow> PROV_DEVICE_RESULT \<Rightarrow> char_ptr \<Rightarrow> char_ptr \<Rightarrow> csgen_state \<Rightarrow> csgen_state option outcome" where
  "register_device_callback g_access_key register_result uri dev s =
    (if register_result = PROV_DEVICE_RESULT_OK then
       cbind (string_of uri) (\<lambda>u. cbind (string_of dev) (\<lambda>d. cbind (string_of g_access_key) (\<lambda>k.
         case mallocAndStrcpy_s u (heap s) of (uri1, h1) \<Rightarrow>
         case mallocAndStrcpy_s d h1 of (dev1, h2) \<Rightarrow>
         let ctx = (user_ctx s)\<lparr>iothub_uri := uri1, device_id := dev1, registration_complete := 1\<rparr>;
             t = device_string u d k
         in case malloc_chars (length t + 1) h2 of
              (None, h3) \<Rightarrow> Inr None
            | (Some q, h3) \<Rightarrow>
                cbind (write_at q 0 (t @ [NUL])) (\<lambda>q1. Inr (Some (s\<lparr>user_ctx := ctx, conn_str := Some q1, heap := h3\<rparr>))))))
     else Inr (Some (s\<lparr>user_ctx := (user_ctx s)\<lparr>registration_complete := 2\<rparr>\<rparr>)))"

section \<open>Waiting for the registration\<close>

text \<open>
  A call of \<open>Prov_Device_LL_DoWork\<close> is what the provisioning client makes of the allocator and the
  answers it gives to the callback: a parameter.
\<close>

type_synonym answer = "PROV_DEVICE_RESULT \<times> char_ptr \<times> char_ptr"
type_synonym prov_work = "nat \<Rightarrow> mem \<Rightarrow> answer list \<times> mem"

fun give_answers :: "char_ptr \<Rightarrow> answer list \<Rightarrow> csgen_state \<Rightarrow> csgen_state option outcome" where
  "give_answers key [] s = Inr (Some s)"
| "give_answers key ((r, uri, dev) # as) s =
    cbind (register_device_callback key r uri dev s) (\<lambda>s1. case s1 of None \<Rightarrow> Inr None | Some s2 \<Rightarrow> give_answers key as s2)"

definition Prov_Device_LL_DoWork :: "prov_work \<Rightarrow> char_ptr \<Rightarrow> nat \<Rightarrow> csgen_state \<Rightarrow> csgen_state option outcome" where
  "Prov_Device_LL_DoWork work key n s =
    (case work n (heap s) of (as, h1) \<Rightarrow> give_answers key as (s\<lparr>heap := h1\<rparr>))"

function registration_loop :: "prov_work \<Rightarrow> char_ptr \<Rightarrow> nat \<Rightarrow> nat \<Rightarrow> csgen_state \<Rightarrow> (nat \<times> csgen_state option) outcome" where
  "registration_loop work key limit n s =
    (if n > limit then Inr (n, Some s)
     else cbind (Prov_Device_LL_DoWork work key n s) (\<lambda>s1.
       case s1 of None \<Rightarrow> Inr (n + 1, None)
       | Some s2 \<Rightarrow> if registration_complete (user_ctx s2) = 0 then registration_loop work key limit (n + 1) s2 else Inr (n + 1, Some s2)))"
  by pat_completeness auto
termination by (relation "measure (\<lambda>(_, _, limit, n, _). limit + 1 - n)") auto

declare registration_loop.simps [simp del]

text \<open>The transport of the first argument; another word than the three is MQTT.\<close>

definition transport_of :: "string \<Rightarrow> IOTHUB_CLIENT_TRANSPORT_PROVIDER" where
  "transport_of a = (if a = ''http'' then HTTP_Protocol else if a = ''mqtt'' then MQTT_Protocol
     else if a = ''mqttows'' then MQTT_WebSocket_Protocol else MQTT_Protocol)"

text \<open>
  The command: what it was told to register with, whether the provisioning client was created and took
  the registration, its work, and what was there before.  The result is whether a device client is
  then made and with which transport, the number of calls, and the state; the
  context's texts are freed at the end.
\<close>

definition dps_csgen_main :: "string list \<Rightarrow> bool \<Rightarrow> bool \<Rightarrow> prov_work \<Rightarrow> char_ptr \<Rightarrow> mem \<Rightarrow>
    (IOTHUB_CLIENT_TRANSPORT_PROVIDER option \<times> nat \<times> csgen_state option) outcome" where
  "dps_csgen_main argv created registers work connectionString h =
    (let ctx = \<lparr>sleep_time = 10, timeout = 1000, iothub_uri = None, access_key_name = None, device_key = None,
                device_id = None, registration_complete = 0\<rparr>;
         s = \<lparr>user_ctx = ctx, conn_str = connectionString, heap = h\<rparr>
     in if length argv < 5 then Inr (None, 0, Some s)
        else cbind (if created \<and> registers then registration_loop work (Some (argv ! 4 @ [NUL])) (timeout ctx) 0 s
                    else Inr (0, Some s)) (\<lambda>(n, s1).
          case s1 of None \<Rightarrow> Inr (None, n, None)
          | Some s2 \<Rightarrow> Inr (if registration_complete (user_ctx s2) \<noteq> 1 then None else Some (transport_of (argv ! 1)), n,
              Some (s2\<lparr>user_ctx := (user_ctx s2)\<lparr>iothub_uri := None, device_id := None\<rparr>\<rparr>))))"

section \<open>The string it makes\<close>

lemma malloc_plenty:
  assumes "plenty h" "n < 2 ^ 31"
  shows "\<exists>q. malloc_chars n h = (Some q, \<lambda>i. h (Suc i)) \<and> length q = n \<and> plenty (\<lambda>i. h (Suc i))"
  using assms by (cases rule: malloc_chars_cases [of n h]) auto

lemma callback_run:
  assumes "is_text uri u" "is_text dev d" "is_text key k" "length (device_string u d k) < 2 ^ 31 - 1" "plenty (heap s)"
  shows "\<exists>s1. register_device_callback key PROV_DEVICE_RESULT_OK uri dev s = Inr (Some s1) \<and>
    is_text (conn_str s1) (device_string u d k) \<and> registration_complete (user_ctx s1) = 1 \<and> plenty (heap s1)"
proof -
  let ?t = "device_string u d k"
  have "NUL \<notin> set u" "NUL \<notin> set d" "NUL \<notin> set k" using assms(1-3) by (auto dest: is_text_no_NUL)
  then have nul: "NUL \<notin> set ?t" by (simp add: device_string_def)
  have short: "length u < 2 ^ 31 - 1" "length d < 2 ^ 31 - 1" using assms(4) by (simp_all add: device_string_def)
  obtain uri1 h1 where 1: "mallocAndStrcpy_s u (heap s) = (uri1, h1)" "plenty h1"
    by (cases rule: copy_cases [of u "heap s"]) (use assms(5) short in auto)
  obtain dev1 h2 where 2: "mallocAndStrcpy_s d h1 = (dev1, h2)" "plenty h2"
    by (cases rule: copy_cases [of d h1]) (use 1(2) short in auto)
  obtain q where q: "malloc_chars (length ?t + 1) h2 = (Some q, \<lambda>i. h2 (Suc i))" "length q = length ?t + 1" "plenty (\<lambda>i. h2 (Suc i))"
    using malloc_plenty [OF 2(2), of "length ?t + 1"] assms(4) by auto
  have w: "write_at q 0 (?t @ [NUL]) = Inr (?t @ [NUL])" using q(2) by (simp add: write_at_ok)
  show ?thesis using 1(1) 2(1) q w is_text_terminated [OF nul assms(4)] assms(1-3)
    by (simp add: register_device_callback_def is_text_string_of Let_def)
qed

text \<open>The parts of a connection string that the client reads as they were written.\<close>

definition device_parts :: "string \<Rightarrow> string \<Rightarrow> string \<Rightarrow> string \<Rightarrow> bool" where
  "device_parts n x d k \<longleftrightarrow> n \<noteq> [] \<and> CHR ''.'' \<notin> set n \<and> x \<noteq> [] \<and> d \<noteq> [] \<and> k \<noteq> [] \<and> CHR '';'' \<notin> set n \<union> set x \<union> set d \<union> set k"

lemma split_host_name:
  assumes "n \<noteq> []" "CHR ''.'' \<notin> set n" "x \<noteq> []"
  shows "split_host (n @ CHR ''.'' # x) s = (True, s\<lparr>name_of := Some n, suffix_of := Some x\<rparr>)"
proof -
  have w: "dropWhile (\<lambda>c. c = CHR ''.'') (n @ CHR ''.'' # x) = n @ CHR ''.'' # x" using assms(1,2) by (cases n) auto
  show ?thesis using assms unfolding split_host_def Let_def w by (simp add: takeWhile_neq_append)
qed

lemma device_string_client:
  assumes "is_text p (device_string (n @ CHR ''.'' # x) d k)" "device_parts n x d k" "plenty h"
  shows "\<exists>c m h1. IoTHubClientCore_LL_CreateFromConnectionString p (Some prot) h = Inr (Some (c, False, m), h1) \<and>
    protocol c = prot \<and> is_text (iotHubName c) n \<and> is_text (iotHubSuffix c) x \<and> is_text (deviceId c) d \<and>
    is_text (deviceKey c) k \<and> deviceSasToken c = None"
proof -
  let ?ps = "[(''HostName'', 0, n @ CHR ''.'' # x), (''DeviceId'', 0, d), (''SharedAccessKey'', 0, k)]"
  have t: "device_string (n @ CHR ''.'' # x) d k = text_of_pairs ?ps" by (simp add: device_string_def)
  have good: "\<forall>q\<in>set ?ps. is_pair q" using assms(2) by (simp add: is_pair_def device_parts_def)
  have s: "understood (map pair_of ?ps) (no_settings prot) =
      (no_settings prot)\<lparr>name_of := Some n, suffix_of := Some x, device := Some d, key_of := Some k\<rparr>"
    using assms(2) by (simp add: take_pair_def split_host_name device_parts_def)
  obtain r h1 where r: "IoTHubClientCore_LL_CreateFromConnectionString p (Some prot) h = Inr (judge r, h1)"
    "reads r (understood (map pair_of ?ps) (no_settings prot))"
    using create_run [OF assms(1) [unfolded t] good assms(3), of prot] by blast
  from judge_run [OF r(2)] show ?thesis unfolding s r(1)
    by (auto simp: acceptable_def configures_def no_settings_def)
qed

section \<open>The loop\<close>

text \<open>Calls in which the callback is not called; \<open>P\<close> is what the calls keep of the allocator.\<close>

lemma loop_waits:
  assumes "\<forall>i h. n \<le> i \<and> i < m \<longrightarrow> fst (work i h) = []" "\<forall>i h. P h \<longrightarrow> P (snd (work i h))"
    "registration_complete (user_ctx s) = 0" "n \<le> m" "m \<le> limit + 1" "P (heap s)"
  shows "\<exists>s1. registration_loop work key limit n s = registration_loop work key limit m s1 \<and>
    user_ctx s1 = user_ctx s \<and> conn_str s1 = conn_str s \<and> P (heap s1)"
  using assms
proof (induction "m - n" arbitrary: n s)
  case (Suc l)
  obtain h1 where w: "work n (heap s) = ([], h1)" "P h1"
    using Suc.prems(1,2,6) Suc.hyps(2) by (metis le_refl prod.collapse zero_less_Suc zero_less_diff)
  let ?s = "s\<lparr>heap := h1\<rparr>"
  have n: "\<not> limit < n" using Suc.prems(5) Suc.hyps(2) by simp
  have "registration_loop work key limit n s = registration_loop work key limit (n + 1) ?s"
    using w n Suc.prems(3) by (subst registration_loop.simps) (simp add: Prov_Device_LL_DoWork_def)
  moreover have "\<exists>s1. registration_loop work key limit (n + 1) ?s = registration_loop work key limit m s1 \<and>
      user_ctx s1 = user_ctx ?s \<and> conn_str s1 = conn_str ?s \<and> P (heap s1)"
    by (rule Suc.hyps(1)) (use Suc.prems Suc.hyps(2) w in auto)
  ultimately show ?case by simp
qed auto

lemma loop_answered:
  assumes "fst (work n (heap s)) = [(PROV_DEVICE_RESULT_OK, uri, dev)]" "plenty (snd (work n (heap s)))" "n \<le> limit"
    "is_text uri u" "is_text dev d" "is_text key k" "length (device_string u d k) < 2 ^ 31 - 1"
  shows "\<exists>s1. registration_loop work key limit n s = Inr (n + 1, Some s1) \<and>
    is_text (conn_str s1) (device_string u d k) \<and> registration_complete (user_ctx s1) = 1 \<and> plenty (heap s1)"
proof -
  obtain h1 where w: "work n (heap s) = ([(PROV_DEVICE_RESULT_OK, uri, dev)], h1)" "plenty h1"
    using assms(1,2) by (metis prod.collapse)
  obtain s1 where "register_device_callback key PROV_DEVICE_RESULT_OK uri dev (s\<lparr>heap := h1\<rparr>) = Inr (Some s1)"
    "is_text (conn_str s1) (device_string u d k)" "registration_complete (user_ctx s1) = 1" "plenty (heap s1)"
    using callback_run [OF assms(4-7), of "s\<lparr>heap := h1\<rparr>"] w(2) by auto
  then show ?thesis using w assms(3) by (subst registration_loop.simps) (simp add: Prov_Device_LL_DoWork_def)
qed

lemma loop_bounded: "registration_loop work key limit n s = Inr (m, s1) \<Longrightarrow> n \<le> limit + 1 \<Longrightarrow> m \<le> limit + 1"
proof (induction work key limit n s rule: registration_loop.induct)
  case (1 work key limit n s)
  then show ?case by (subst (asm) registration_loop.simps) (auto simp: c_outcome split: if_splits option.splits)
qed

abbreviation no_ctx :: CLIENT_SAMPLE_INFO where
  "no_ctx \<equiv> \<lparr>sleep_time = 10, timeout = 1000, iothub_uri = None, access_key_name = None, device_key = None,
    device_id = None, registration_complete = 0\<rparr>"

text \<open>
  Claim C2. A registered device can connect: when the provisioning service answers within a thousand
  and one calls, with a host name and a device that a connection string can hold, the command makes
  the client's connection string in the call that answers, and creating a client from that string
  succeeds with exactly the name, suffix and device the service gave and the key of the command.
\<close>

theorem provisioned_client_accepted:
  assumes "5 \<le> length argv" "\<forall>i h. i < j \<longrightarrow> fst (work i h) = []" "\<forall>h. fst (work j h) = [(PROV_DEVICE_RESULT_OK, uri, dev)]"
    "j \<le> 1000" "\<forall>i h. plenty h \<longrightarrow> plenty (snd (work i h))" "plenty h"
    "is_text uri (n @ CHR ''.'' # x)" "is_text dev d" "NUL \<notin> set (argv ! 4)" "device_parts n x d (argv ! 4)"
    "length (device_string (n @ CHR ''.'' # x) d (argv ! 4)) < 2 ^ 31 - 1"
  shows "\<exists>s c m h1. dps_csgen_main argv True True work connectionString h = Inr (Some (transport_of (argv ! 1)), j + 1, Some s) \<and>
    IoTHubClientCore_LL_CreateFromConnectionString (conn_str s) (Some prot) (heap s) = Inr (Some (c, False, m), h1) \<and>
    protocol c = prot \<and> is_text (iotHubName c) n \<and> is_text (iotHubSuffix c) x \<and> is_text (deviceId c) d \<and>
    is_text (deviceKey c) (argv ! 4) \<and> deviceSasToken c = None"
proof -
  let ?k = "argv ! 4" and ?s = "\<lparr>user_ctx = no_ctx, conn_str = connectionString, heap = h\<rparr>" and ?key = "Some (argv ! 4 @ [NUL])"
  have key: "is_text ?key ?k" using is_text_terminated [OF assms(9)] assms(11) by (simp add: device_string_def)
  obtain s1 where 1: "registration_loop work ?key 1000 0 ?s = registration_loop work ?key 1000 j s1" "plenty (heap s1)"
    using loop_waits [of 0 j work plenty ?s 1000 ?key] assms(2,4,5,6) by auto
  obtain s2 where 2: "registration_loop work ?key 1000 j s1 = Inr (j + 1, Some s2)"
    "is_text (conn_str s2) (device_string (n @ CHR ''.'' # x) d ?k)" "registration_complete (user_ctx s2) = 1" "plenty (heap s2)"
    using loop_answered [OF _ _ assms(4,7,8) key assms(11)] assms(3,5) 1(2) by metis
  let ?s2 = "s2\<lparr>user_ctx := (user_ctx s2)\<lparr>iothub_uri := None, device_id := None\<rparr>\<rparr>"
  have "dps_csgen_main argv True True work connectionString h = Inr (Some (transport_of (argv ! 1)), j + 1, Some ?s2)"
    using assms(1) 1(1) 2(1,3) by (simp add: dps_csgen_main_def)
  moreover obtain c m h1 where "IoTHubClientCore_LL_CreateFromConnectionString (conn_str ?s2) (Some prot) (heap ?s2) = Inr (Some (c, False, m), h1)"
    "protocol c = prot \<and> is_text (iotHubName c) n \<and> is_text (iotHubSuffix c) x \<and> is_text (deviceId c) d \<and>
     is_text (deviceKey c) ?k \<and> deviceSasToken c = None"
    using device_string_client [of "conn_str ?s2" n x d ?k "heap ?s2" prot] 2(2,4) assms(10) by auto
  ultimately show ?thesis by blast
qed

definition third_call :: prov_work where
  "third_call i h = (if i = 2 then [(PROV_DEVICE_RESULT_OK, Some (''hub.net'' @ [NUL]), Some (''dev'' @ [NUL]))] else [], h)"

lemma provisioned_client_accepted_witness:
  "\<exists>s c m h1. dps_csgen_main [''dps_csgen'', ''mqtt'', ''scope'', ''dev'', ''a2V5''] True True third_call None junk_mem =
      Inr (Some MQTT_Protocol, 3, Some s) \<and>
    IoTHubClientCore_LL_CreateFromConnectionString (conn_str s) (Some HTTP_Protocol) (heap s) = Inr (Some (c, False, m), h1) \<and>
    is_text (deviceKey c) ''a2V5''"
proof -
  let ?argv = "[''dps_csgen'', ''mqtt'', ''scope'', ''dev'', ''a2V5'']"
  have uri: "is_text (Some (''hub.net'' @ [NUL])) (''hub'' @ CHR ''.'' # ''net'')" and dev: "is_text (Some (''dev'' @ [NUL])) ''dev''"
    using is_text_terminated [of "''hub.net''"] is_text_terminated [of "''dev''"] by simp_all
  have t: "transport_of (?argv ! 1) = MQTT_Protocol" by (simp add: transport_of_def)
  have l: "length (device_string (''hub'' @ CHR ''.'' # ''net'') ''dev'' (?argv ! 4)) < 2 ^ 31 - 1" by (simp add: device_string_def)
  have p: "device_parts ''hub'' ''net'' ''dev'' (?argv ! 4)" by (simp add: device_parts_def)
  have "\<exists>s c m h1. dps_csgen_main ?argv True True third_call None junk_mem = Inr (Some (transport_of (?argv ! 1)), 2 + 1, Some s) \<and>
    IoTHubClientCore_LL_CreateFromConnectionString (conn_str s) (Some HTTP_Protocol) (heap s) = Inr (Some (c, False, m), h1) \<and>
    protocol c = HTTP_Protocol \<and> is_text (iotHubName c) ''hub'' \<and> is_text (iotHubSuffix c) ''net'' \<and> is_text (deviceId c) ''dev'' \<and>
    is_text (deviceKey c) (?argv ! 4) \<and> deviceSasToken c = None"
    by (rule provisioned_client_accepted [OF _ _ _ _ _ plenty_junk uri dev _ p l]) (simp_all add: third_call_def)
  then show ?thesis unfolding t by simp blast
qed

text \<open>
  Claim C23. The wait for the registration ends: without an answer the command gives up after exactly
  1001 calls of the provisioning client, registers nothing and leaves the connection string
  as it was, and no run of the loop makes more calls.
\<close>

theorem registration_wait_bounded:
  assumes "5 \<le> length argv"
  shows "(\<forall>r n s. dps_csgen_main argv created registers work connectionString h = Inr (r, n, s) \<longrightarrow> n \<le> 1001) \<and>
    ((\<forall>i h. fst (work i h) = []) \<longrightarrow>
      (\<exists>s. dps_csgen_main argv True True work connectionString h = Inr (None, 1001, Some s) \<and> conn_str s = connectionString))"
proof (intro conjI allI impI)
  fix r n s
  assume "dps_csgen_main argv created registers work connectionString h = Inr (r, n, s)"
  then show "n \<le> 1001"
    using assms by (auto simp: dps_csgen_main_def Let_def c_outcome split: if_splits option.splits dest!: loop_bounded)
next
  let ?s = "\<lparr>user_ctx = no_ctx, conn_str = connectionString, heap = h\<rparr>" and ?key = "Some (argv ! 4 @ [NUL])"
  assume "\<forall>i h. fst (work i h) = []"
  then obtain s1 where 1: "registration_loop work ?key 1000 0 ?s = registration_loop work ?key 1000 1001 s1"
    "user_ctx s1 = no_ctx" "conn_str s1 = connectionString"
    using loop_waits [of 0 1001 work "\<lambda>_. True" ?s 1000 ?key] by auto
  have "registration_loop work ?key 1000 1001 s1 = Inr (1001, Some s1)" by (subst registration_loop.simps) simp
  with 1 assms show "\<exists>s. dps_csgen_main argv True True work connectionString h = Inr (None, 1001, Some s) \<and> conn_str s = connectionString"
    by (simp add: dps_csgen_main_def)
qed

lemma registration_wait_bounded_witness:
  "\<exists>s. dps_csgen_main [''dps_csgen'', ''mqtt'', ''scope'', ''dev'', ''a2V5''] True True (\<lambda>_ h. ([], h)) None junk_mem = Inr (None, 1001, Some s) \<and>
    conn_str s = None"
  using registration_wait_bounded [of "[''dps_csgen'', ''mqtt'', ''scope'', ''dev'', ''a2V5'']" False False "\<lambda>_ h. ([], h)" None junk_mem]
  by simp

end
