(* ===== verification/Iothub_Message.thy ===== *)
theory Iothub_Message
  imports Azure_Map
begin

text \<open>
  The messages of the IoT Hub client (\<open>azure_iot_sdk/iothub_client/src/iothub_message.c\<close>): making, copying,
  their properties and their system properties; that a copy has what the message has, but for the
  filter of its properties.
\<close>

section \<open>Messages\<close>

datatype IOTHUB_MESSAGE_RESULT = IOTHUB_MESSAGE_OK | IOTHUB_MESSAGE_INVALID_ARG | IOTHUB_MESSAGE_INVALID_TYPE | IOTHUB_MESSAGE_ERROR

datatype IOTHUBMESSAGE_CONTENT_TYPE = IOTHUBMESSAGE_BYTEARRAY | IOTHUBMESSAGE_STRING | IOTHUBMESSAGE_UNKNOWN

text \<open>The union and its tag \<open>contentType\<close>; \<open>string\<close> and \<open>value\<close> are Isabelle's.\<close>

datatype message_value = Byte_array BUFFER_HANDLE | Text_string STRING_HANDLE

record IOTHUB_MESSAGE_DIAGNOSTIC_PROPERTY_DATA =
  diagnosticId :: "string option"
  diagnosticCreationTimeUtc :: "string option"

record IOTHUB_MESSAGE_HANDLE_DATA =
  msg_value :: message_value
  properties :: MAP_HANDLE
  messageId :: "string option"
  correlationId :: "string option"
  userDefinedContentType :: "string option"
  contentEncoding :: "string option"
  outputName :: "string option"
  inputName :: "string option"
  connectionModuleId :: "string option"
  connectionDeviceId :: "string option"
  diagnosticData :: "IOTHUB_MESSAGE_DIAGNOSTIC_PROPERTY_DATA option"
  is_security_message :: bool
  creationTimeUtc :: "string option"
  userId :: "string option"

type_synonym IOTHUB_MESSAGE_HANDLE = "IOTHUB_MESSAGE_HANDLE_DATA option"

definition ContainsValidUsAscii :: "string \<Rightarrow> bool" where
  "ContainsValidUsAscii t = (\<forall>c\<in>set t. 32 \<le> code c \<and> code c \<le> 126)"

definition ValidateAsciiCharactersFilter :: "string \<Rightarrow> string \<Rightarrow> int" where
  "ValidateAsciiCharactersFilter mapKey mapValue =
    (if \<not> ContainsValidUsAscii mapKey \<or> \<not> ContainsValidUsAscii mapValue then 1 else 0)"

text \<open>A message whose storage is zero but for its value.\<close>

definition blank_message :: "message_value \<Rightarrow> IOTHUB_MESSAGE_HANDLE_DATA" where
  "blank_message v = \<lparr>msg_value = v, properties = None, messageId = None, correlationId = None, userDefinedContentType = None,
     contentEncoding = None, outputName = None, inputName = None, connectionModuleId = None, connectionDeviceId = None,
     diagnosticData = None, is_security_message = False, creationTimeUtc = None, userId = None\<rparr>"

definition IoTHubMessage_CreateFromByteArray :: "byte list option \<Rightarrow> nat \<Rightarrow> mem \<Rightarrow> (IOTHUB_MESSAGE_HANDLE \<times> mem) outcome" where
  "IoTHubMessage_CreateFromByteArray byteArray n h =
    (if byteArray = None \<and> n \<noteq> 0 then Inr (None, h)
     else if h 0 = None then Inr (None, \<lambda>i. h (Suc i))
     else cbind (BUFFER_create (if n \<noteq> 0 then byteArray else Some [0]) n (\<lambda>i. h (Suc i))) (\<lambda>(b, h1).
       if b = None then Inr (None, h1)
       else case Map_Create (Some ValidateAsciiCharactersFilter) h1 of
         (None, h2) \<Rightarrow> Inr (None, h2)
       | (Some m, h2) \<Rightarrow> Inr (Some ((blank_message (Byte_array b))\<lparr>properties := Some m\<rparr>), h2)))"

definition IoTHubMessage_CreateFromString :: "char_ptr \<Rightarrow> mem \<Rightarrow> (IOTHUB_MESSAGE_HANDLE \<times> mem) outcome" where
  "IoTHubMessage_CreateFromString source h =
    (if source = None then Inr (None, h)
     else if h 0 = None then Inr (None, \<lambda>i. h (Suc i))
     else cbind (STRING_construct source (\<lambda>i. h (Suc i))) (\<lambda>(s, h1).
       if s = None then Inr (None, h1)
       else case Map_Create (Some ValidateAsciiCharactersFilter) h1 of
         (None, h2) \<Rightarrow> Inr (None, h2)
       | (Some m, h2) \<Rightarrow> Inr (Some ((blank_message (Text_string s))\<lparr>properties := Some m\<rparr>), h2)))"

section \<open>Copying\<close>

text \<open>
  \<open>source != NULL && mallocAndStrcpy_s(...) != 0\<close>, for one field after the other: None when a
  copy fails, else the copies.
\<close>

fun copy_fields :: "string option list \<Rightarrow> mem \<Rightarrow> string option list option \<times> mem" where
  "copy_fields [] h = (Some [], h)"
| "copy_fields (None # xs) h = (case copy_fields xs h of (r, h1) \<Rightarrow> (map_option (Cons None) r, h1))"
| "copy_fields (Some t # xs) h =
    (case mallocAndStrcpy_s t h of
       (None, h1) \<Rightarrow> (None, h1)
     | (Some c, h1) \<Rightarrow> (case copy_fields xs h1 of (r, h2) \<Rightarrow> (map_option (Cons (Some c)) r, h2)))"

definition CloneDiagnosticPropertyData :: "IOTHUB_MESSAGE_DIAGNOSTIC_PROPERTY_DATA option \<Rightarrow> mem \<Rightarrow>
    IOTHUB_MESSAGE_DIAGNOSTIC_PROPERTY_DATA option \<times> mem" where
  "CloneDiagnosticPropertyData source h =
    (case source of None \<Rightarrow> (None, h)
     | Some d \<Rightarrow>
         if h 0 = None then (None, \<lambda>i. h (Suc i))
         else case copy_fields [diagnosticCreationTimeUtc d, diagnosticId d] (\<lambda>i. h (Suc i)) of
           (Some [t, i], h1) \<Rightarrow> (Some \<lparr>diagnosticId = i, diagnosticCreationTimeUtc = t\<rparr>, h1)
         | (_, h1) \<Rightarrow> (None, h1))"

definition clone_message_value :: "message_value \<Rightarrow> mem \<Rightarrow> (message_value option \<times> mem) outcome" where
  "clone_message_value v h =
    (case v of
       Byte_array b \<Rightarrow> cbind (BUFFER_clone b h) (\<lambda>(c, h1). Inr (if c = None then None else Some (Byte_array c), h1))
     | Text_string s \<Rightarrow> cbind (STRING_clone s h) (\<lambda>(c, h1). Inr (if c = None then None else Some (Text_string c), h1)))"

definition IoTHubMessage_Clone :: "IOTHUB_MESSAGE_HANDLE \<Rightarrow> mem \<Rightarrow> (IOTHUB_MESSAGE_HANDLE \<times> mem) outcome" where
  "IoTHubMessage_Clone handle h =
    (case handle of None \<Rightarrow> Inr (None, h)
     | Some s \<Rightarrow>
         if h 0 = None then Inr (None, \<lambda>i. h (Suc i))
         else case copy_fields [messageId s, correlationId s, userDefinedContentType s, contentEncoding s] (\<lambda>i. h (Suc i)) of
           (Some [mid, cid, ct, ce], h1) \<Rightarrow>
             (case (if diagnosticData s = None then (None, h1) else CloneDiagnosticPropertyData (diagnosticData s) h1) of (dd, h2) \<Rightarrow>
                if diagnosticData s \<noteq> None \<and> dd = None then Inr (None, h2)
                else case copy_fields [outputName s, inputName s, creationTimeUtc s, userId s, connectionModuleId s, connectionDeviceId s] h2 of
                  (Some [oname, iname, ctime, uid, cm, cd], h3) \<Rightarrow>
                    cbind (clone_message_value (msg_value s) h3) (\<lambda>(v, h4).
                      case v of None \<Rightarrow> Inr (None, h4)
                      | Some v1 \<Rightarrow>
                          cbind (Map_Clone (properties s) h4) (\<lambda>(m, h5).
                            if m = None then Inr (None, h5)
                            else Inr (Some \<lparr>msg_value = v1, properties = m, messageId = mid, correlationId = cid,
                                userDefinedContentType = ct, contentEncoding = ce, outputName = oname, inputName = iname,
                                connectionModuleId = cm, connectionDeviceId = cd, diagnosticData = dd,
                                is_security_message = is_security_message s, creationTimeUtc = ctime, userId = uid\<rparr>, h5)))
                | (_, h3) \<Rightarrow> Inr (None, h3))
         | (_, h1) \<Rightarrow> Inr (None, h1))"

section \<open>Reading a message\<close>

definition IoTHubMessage_GetByteArray :: "IOTHUB_MESSAGE_HANDLE \<Rightarrow> IOTHUB_MESSAGE_RESULT \<times> (byte list option \<times> nat) option" where
  "IoTHubMessage_GetByteArray handle =
    (case handle of None \<Rightarrow> (IOTHUB_MESSAGE_INVALID_ARG, None)
     | Some d \<Rightarrow> (case msg_value d of
          Text_string _ \<Rightarrow> (IOTHUB_MESSAGE_INVALID_ARG, None)
        | Byte_array b \<Rightarrow> (IOTHUB_MESSAGE_OK, Some (if BUFFER_u_char b = None then None else Option.bind b buffer, BUFFER_length b))))"

definition IoTHubMessage_GetString :: "IOTHUB_MESSAGE_HANDLE \<Rightarrow> char_ptr" where
  "IoTHubMessage_GetString handle =
    (case handle of None \<Rightarrow> None | Some d \<Rightarrow> (case msg_value d of Byte_array _ \<Rightarrow> None | Text_string s \<Rightarrow> STRING_c_str s))"

definition IoTHubMessage_GetContentType :: "IOTHUB_MESSAGE_HANDLE \<Rightarrow> IOTHUBMESSAGE_CONTENT_TYPE" where
  "IoTHubMessage_GetContentType handle =
    (case handle of None \<Rightarrow> IOTHUBMESSAGE_UNKNOWN
     | Some d \<Rightarrow> (case msg_value d of Byte_array _ \<Rightarrow> IOTHUBMESSAGE_BYTEARRAY | Text_string _ \<Rightarrow> IOTHUBMESSAGE_STRING))"

definition IoTHubMessage_Properties :: "IOTHUB_MESSAGE_HANDLE \<Rightarrow> MAP_HANDLE" where
  "IoTHubMessage_Properties handle = Option.bind handle properties"

definition IoTHubMessage_GetCorrelationId :: "IOTHUB_MESSAGE_HANDLE \<Rightarrow> string option" where
  "IoTHubMessage_GetCorrelationId handle = Option.bind handle correlationId"
definition IoTHubMessage_GetMessageId :: "IOTHUB_MESSAGE_HANDLE \<Rightarrow> string option" where
  "IoTHubMessage_GetMessageId handle = Option.bind handle messageId"
definition IoTHubMessage_GetContentTypeSystemProperty :: "IOTHUB_MESSAGE_HANDLE \<Rightarrow> string option" where
  "IoTHubMessage_GetContentTypeSystemProperty handle = Option.bind handle userDefinedContentType"
definition IoTHubMessage_GetContentEncodingSystemProperty :: "IOTHUB_MESSAGE_HANDLE \<Rightarrow> string option" where
  "IoTHubMessage_GetContentEncodingSystemProperty handle = Option.bind handle contentEncoding"
definition IoTHubMessage_GetMessageCreationTimeUtcSystemProperty :: "IOTHUB_MESSAGE_HANDLE \<Rightarrow> string option" where
  "IoTHubMessage_GetMessageCreationTimeUtcSystemProperty handle = Option.bind handle creationTimeUtc"
definition IoTHubMessage_GetMessageUserIdSystemProperty :: "IOTHUB_MESSAGE_HANDLE \<Rightarrow> string option" where
  "IoTHubMessage_GetMessageUserIdSystemProperty handle = Option.bind handle userId"
definition IoTHubMessage_GetDiagnosticPropertyData :: "IOTHUB_MESSAGE_HANDLE \<Rightarrow> IOTHUB_MESSAGE_DIAGNOSTIC_PROPERTY_DATA option" where
  "IoTHubMessage_GetDiagnosticPropertyData handle = Option.bind handle diagnosticData"
definition IoTHubMessage_GetOutputName :: "IOTHUB_MESSAGE_HANDLE \<Rightarrow> string option" where
  "IoTHubMessage_GetOutputName handle = Option.bind handle outputName"
definition IoTHubMessage_GetInputName :: "IOTHUB_MESSAGE_HANDLE \<Rightarrow> string option" where
  "IoTHubMessage_GetInputName handle = Option.bind handle inputName"
definition IoTHubMessage_GetConnectionModuleId :: "IOTHUB_MESSAGE_HANDLE \<Rightarrow> string option" where
  "IoTHubMessage_GetConnectionModuleId handle = Option.bind handle connectionModuleId"
definition IoTHubMessage_GetConnectionDeviceId :: "IOTHUB_MESSAGE_HANDLE \<Rightarrow> string option" where
  "IoTHubMessage_GetConnectionDeviceId handle = Option.bind handle connectionDeviceId"

definition IoTHubMessage_IsSecurityMessage :: "IOTHUB_MESSAGE_HANDLE \<Rightarrow> bool" where
  "IoTHubMessage_IsSecurityMessage handle = (case handle of None \<Rightarrow> False | Some d \<Rightarrow> is_security_message d)"

section \<open>Changing a message\<close>

definition IoTHubMessage_SetProperty :: "IOTHUB_MESSAGE_HANDLE \<Rightarrow> string option \<Rightarrow> string option \<Rightarrow> mem \<Rightarrow>
    (IOTHUB_MESSAGE_RESULT \<times> IOTHUB_MESSAGE_HANDLE \<times> mem) outcome" where
  "IoTHubMessage_SetProperty handle key v h =
    (case handle of None \<Rightarrow> Inr (IOTHUB_MESSAGE_INVALID_ARG, handle, h)
     | Some d \<Rightarrow>
         if key = None \<or> v = None then Inr (IOTHUB_MESSAGE_INVALID_ARG, handle, h)
         else cbind (Map_AddOrUpdate (properties d) key v h) (\<lambda>(r, m, h1).
           Inr (if r = MAP_FILTER_REJECT then IOTHUB_MESSAGE_INVALID_TYPE else if r \<noteq> MAP_OK then IOTHUB_MESSAGE_ERROR
                else IOTHUB_MESSAGE_OK, Some (d\<lparr>properties := m\<rparr>), h1)))"

definition IoTHubMessage_GetProperty :: "IOTHUB_MESSAGE_HANDLE \<Rightarrow> string option \<Rightarrow> string option outcome" where
  "IoTHubMessage_GetProperty handle key =
    (case handle of None \<Rightarrow> Inr None
     | Some d \<Rightarrow>
         if key = None then Inr None
         else cbind (Map_ContainsKey (properties d) key) (\<lambda>(r, key_exists).
           if r = MAP_OK \<and> key_exists = Some True then Map_GetValueFromKey (properties d) key else Inr None))"

text \<open>
  A text of the message is freed and set to NULL, then copied: \<open>put\<close> is the field.  The text given is
  not the field itself.
\<close>

definition set_text :: "(string option \<Rightarrow> IOTHUB_MESSAGE_HANDLE_DATA \<Rightarrow> IOTHUB_MESSAGE_HANDLE_DATA) \<Rightarrow> IOTHUB_MESSAGE_HANDLE \<Rightarrow>
    string option \<Rightarrow> mem \<Rightarrow> IOTHUB_MESSAGE_RESULT \<times> IOTHUB_MESSAGE_HANDLE \<times> mem" where
  "set_text put handle v h =
    (case (handle, v) of
       (Some d, Some t) \<Rightarrow>
         (case mallocAndStrcpy_s t h of
            (None, h1) \<Rightarrow> (IOTHUB_MESSAGE_ERROR, Some (put None d), h1)
          | (Some c, h1) \<Rightarrow> (IOTHUB_MESSAGE_OK, Some (put (Some c) d), h1))
     | _ \<Rightarrow> (IOTHUB_MESSAGE_INVALID_ARG, handle, h))"

definition IoTHubMessage_SetCorrelationId where
  "IoTHubMessage_SetCorrelationId = set_text (\<lambda>t d. d\<lparr>correlationId := t\<rparr>)"
definition IoTHubMessage_SetMessageId where
  "IoTHubMessage_SetMessageId = set_text (\<lambda>t d. d\<lparr>messageId := t\<rparr>)"
definition IoTHubMessage_SetContentTypeSystemProperty where
  "IoTHubMessage_SetContentTypeSystemProperty = set_text (\<lambda>t d. d\<lparr>userDefinedContentType := t\<rparr>)"
definition IoTHubMessage_SetMessageCreationTimeUtcSystemProperty where
  "IoTHubMessage_SetMessageCreationTimeUtcSystemProperty = set_text (\<lambda>t d. d\<lparr>creationTimeUtc := t\<rparr>)"
definition IoTHubMessage_SetMessageUserIdSystemProperty where
  "IoTHubMessage_SetMessageUserIdSystemProperty = set_text (\<lambda>t d. d\<lparr>userId := t\<rparr>)"
definition IoTHubMessage_SetOutputName where
  "IoTHubMessage_SetOutputName = set_text (\<lambda>t d. d\<lparr>outputName := t\<rparr>)"
definition IoTHubMessage_SetInputName where
  "IoTHubMessage_SetInputName = set_text (\<lambda>t d. d\<lparr>inputName := t\<rparr>)"
definition IoTHubMessage_SetConnectionModuleId where
  "IoTHubMessage_SetConnectionModuleId = set_text (\<lambda>t d. d\<lparr>connectionModuleId := t\<rparr>)"
definition IoTHubMessage_SetConnectionDeviceId where
  "IoTHubMessage_SetConnectionDeviceId = set_text (\<lambda>t d. d\<lparr>connectionDeviceId := t\<rparr>)"

text \<open>The content encoding is copied first, and kept when it cannot be.\<close>

definition set_content_encoding :: "IOTHUB_MESSAGE_HANDLE_DATA \<Rightarrow> string \<Rightarrow> mem \<Rightarrow> mu \<times> IOTHUB_MESSAGE_HANDLE_DATA \<times> mem" where
  "set_content_encoding d encoding h =
    (case mallocAndStrcpy_s encoding h of
       (None, h1) \<Rightarrow> (MU_FAILURE, d, h1) | (Some c, h1) \<Rightarrow> (MU_OK, d\<lparr>contentEncoding := Some c\<rparr>, h1))"

definition IoTHubMessage_SetContentEncodingSystemProperty :: "IOTHUB_MESSAGE_HANDLE \<Rightarrow> string option \<Rightarrow> mem \<Rightarrow>
    IOTHUB_MESSAGE_RESULT \<times> IOTHUB_MESSAGE_HANDLE \<times> mem" where
  "IoTHubMessage_SetContentEncodingSystemProperty handle v h =
    (case (handle, v) of
       (Some d, Some t) \<Rightarrow> (case set_content_encoding d t h of (r, d1, h1) \<Rightarrow>
          (if r = MU_OK then IOTHUB_MESSAGE_OK else IOTHUB_MESSAGE_ERROR, Some d1, h1))
     | _ \<Rightarrow> (IOTHUB_MESSAGE_INVALID_ARG, handle, h))"

definition IoTHubMessage_SetAsSecurityMessage :: "IOTHUB_MESSAGE_HANDLE \<Rightarrow> mem \<Rightarrow> IOTHUB_MESSAGE_RESULT \<times> IOTHUB_MESSAGE_HANDLE \<times> mem" where
  "IoTHubMessage_SetAsSecurityMessage handle h =
    (case handle of None \<Rightarrow> (IOTHUB_MESSAGE_INVALID_ARG, handle, h)
     | Some d \<Rightarrow> (case set_content_encoding d ''application/json'' h of (r, d1, h1) \<Rightarrow>
          if r = MU_OK then (IOTHUB_MESSAGE_OK, Some (d1\<lparr>is_security_message := True\<rparr>), h1) else (IOTHUB_MESSAGE_ERROR, Some d1, h1)))"

definition IoTHubMessage_SetDiagnosticPropertyData :: "IOTHUB_MESSAGE_HANDLE \<Rightarrow> IOTHUB_MESSAGE_DIAGNOSTIC_PROPERTY_DATA option \<Rightarrow> mem \<Rightarrow>
    IOTHUB_MESSAGE_RESULT \<times> IOTHUB_MESSAGE_HANDLE \<times> mem" where
  "IoTHubMessage_SetDiagnosticPropertyData handle diag h =
    (case (handle, diag) of
       (Some d, Some x) \<Rightarrow>
         if diagnosticCreationTimeUtc x = None \<or> diagnosticId x = None then (IOTHUB_MESSAGE_INVALID_ARG, handle, h)
         else (case CloneDiagnosticPropertyData diag h of (dd, h1) \<Rightarrow>
           (if dd = None then IOTHUB_MESSAGE_ERROR else IOTHUB_MESSAGE_OK, Some (d\<lparr>diagnosticData := dd\<rparr>), h1))
     | _ \<Rightarrow> (IOTHUB_MESSAGE_INVALID_ARG, handle, h))"

section \<open>A copy\<close>

lemma copy_fields_run:
  "\<exists>r h1. copy_fields xs h = (r, h1) \<and> (r = None \<or> r = Some xs) \<and>
    (plenty h \<and> (\<forall>t. Some t \<in> set xs \<longrightarrow> length t < 2 ^ 31 - 1) \<longrightarrow> r = Some xs \<and> plenty h1)"
proof (induction xs h rule: copy_fields.induct)
  case (3 t xs h)
  show ?case
  proof (cases rule: copy_cases [of t h])
    case none
    then show ?thesis by auto
  next
    case some
    with "3.IH" [OF some [symmetric] refl] show ?thesis by auto
  qed
qed auto

text \<open>Four and six fields, as the copy takes them.\<close>

lemma copy_fields_cases:
  obtains (none) h1 where "copy_fields xs h = (None, h1)" "\<not> (plenty h \<and> (\<forall>t. Some t \<in> set xs \<longrightarrow> length t < 2 ^ 31 - 1))"
  | (copied) h1 where "copy_fields xs h = (Some xs, h1)" "plenty h \<and> (\<forall>t. Some t \<in> set xs \<longrightarrow> length t < 2 ^ 31 - 1) \<longrightarrow> plenty h1"
  using copy_fields_run [of xs h] by blast

definition short_diag :: "IOTHUB_MESSAGE_DIAGNOSTIC_PROPERTY_DATA \<Rightarrow> bool" where
  "short_diag x \<longleftrightarrow> (\<forall>t. Some t \<in> {diagnosticCreationTimeUtc x, diagnosticId x} \<longrightarrow> length t < 2 ^ 31 - 1)"

lemma clone_diag_cases:
  obtains (none) h1 where "CloneDiagnosticPropertyData (Some x) h = (None, h1)" "\<not> (plenty h \<and> short_diag x)"
  | (copied) h1 where "CloneDiagnosticPropertyData (Some x) h = (Some x, h1)" "plenty h \<and> short_diag x \<longrightarrow> plenty h1"
proof (cases "h 0 = None")
  case True
  then show ?thesis by (intro none) (auto simp: CloneDiagnosticPropertyData_def plenty_def)
next
  case False
  show ?thesis
  proof (cases rule: copy_fields_cases [of "[diagnosticCreationTimeUtc x, diagnosticId x]" "\<lambda>i. h (Suc i)"])
    case (none h1)
    with False show ?thesis by (intro that(1) [of h1]) (auto simp: CloneDiagnosticPropertyData_def short_diag_def)
  next
    case (copied h1)
    with False show ?thesis by (intro that(2) [of h1]) (auto simp: CloneDiagnosticPropertyData_def short_diag_def)
  qed
qed

text \<open>What a message holds: bytes or a text.\<close>

definition holds_bytes :: "BUFFER_HANDLE \<Rightarrow> byte list \<Rightarrow> bool" where
  "holds_bytes b bs \<longleftrightarrow> (\<exists>c. b = Some c \<and> bsize c = length bs \<and> (bs \<noteq> [] \<longrightarrow> buffer c = Some bs)) \<and> length bs < 2 ^ 31"

fun has_content :: "message_value \<Rightarrow> byte list + string \<Rightarrow> bool" where
  "has_content (Byte_array b) (Inl bs) = holds_bytes b bs"
| "has_content (Text_string s) (Inr t) = str_is s t"
| "has_content _ _ = False"

lemma BUFFER_clone_run:
  assumes "holds_bytes b bs"
  shows "\<exists>r h1. BUFFER_clone b h = Inr (r, h1) \<and> (r = None \<or> holds_bytes r bs) \<and> (plenty h \<longrightarrow> r \<noteq> None \<and> plenty h1)"
proof -
  obtain s where s: "b = Some s" "bsize s = length bs" "bs \<noteq> [] \<longrightarrow> buffer s = Some bs" and n: "length bs < 2 ^ 31"
    using assms by (auto simp: holds_bytes_def)
  then have rd: "read_from (buffer s) (length bs) = Inr bs" by (cases "bs = []") (auto simp: read_from_def split: option.split)
  show ?thesis
  proof (cases rule: new_cases [of h])
    case none
    with s show ?thesis by (simp add: BUFFER_clone_def)
  next
    case (some b0)
    let ?n = "if length bs = 0 then 1 else length bs"
    have n1: "?n < 2 ^ 31" using n by simp
    show ?thesis
    proof (cases rule: malloc_cases [OF n1, of "\<lambda>i. h (Suc i)"])
      case 1
      then have "\<not> plenty h" by auto
      with 1 some s show ?thesis by (auto simp: BUFFER_clone_def BUFFER_safemalloc_def)
    next
      case (2 xs)
      have "write_at xs 0 bs = Inr (bs @ drop (length bs) xs)" using 2(2) by (cases bs) (auto simp: write_at_ok)
      moreover have "drop (length bs) xs = []" if "bs \<noteq> []" using that 2(2) by simp
      ultimately show ?thesis using 2 some s rd n
        by (auto simp: BUFFER_clone_def BUFFER_safemalloc_def store_in_def holds_bytes_def)
    qed
  qed
qed

lemma clone_value_run:
  assumes "has_content v x"
  shows "\<exists>r h1. clone_message_value v h = Inr (r, h1) \<and> (r = None \<or> has_content (the r) x) \<and> (plenty h \<longrightarrow> r \<noteq> None \<and> plenty h1)"
proof (cases v)
  case (Byte_array b)
  with assms obtain bs where "x = Inl bs" "holds_bytes b bs" by (cases x) auto
  with BUFFER_clone_run [OF this(2), of h] Byte_array show ?thesis by (auto simp: clone_message_value_def)
next
  case (Text_string s)
  with assms obtain t where t: "x = Inr t" "str_is s t" by (cases x) auto
  have "length t < 2 ^ 31 - 1" using t(2) by (rule str_is_cases)
  with STRING_clone_yields [OF t(2), of h] t(1) Text_string show ?thesis
    by (auto simp: clone_message_value_def yields_def)
qed

text \<open>The properties of a copy; without pairs the filter is not copied.\<close>

lemma clone_entries_plenty:
  "take n xs = map Some ts \<Longrightarrow> length ts = n \<Longrightarrow> \<forall>t\<in>set ts. length t < 2 ^ 31 - 1 \<Longrightarrow> plenty h \<Longrightarrow>
    \<exists>h1. clone_entries xs n h = Inr (Some (map Some ts), h1) \<and> plenty h1"
proof (induction n arbitrary: xs ts h)
  case (Suc n)
  then obtain t us y ys where e: "ts = t # us" "xs = y # ys" by (cases ts; cases xs) auto
  with Suc.prems have y: "y = Some t" "take n ys = map Some us" "length us = n" "\<forall>t\<in>set us. length t < 2 ^ 31 - 1" by simp_all
  show ?case
  proof (cases rule: copy_cases [of t h])
    case none
    with e Suc.prems show ?thesis by auto
  next
    case some
    have p: "plenty (\<lambda>i. h (Suc i))" using Suc.prems(4) by simp
    from Suc.IH [OF y(2,3,4) p] e y some show ?thesis by auto
  qed
qed simp

definition short_pairs :: "(string \<times> string) list \<Rightarrow> bool" where
  "short_pairs ps \<longleftrightarrow> (\<forall>(k, v)\<in>set ps. length k < 2 ^ 31 - 1 \<and> length v < 2 ^ 31 - 1)"

lemma Map_Clone_run:
  assumes "has_pairs m ps"
  shows "\<exists>c h1. Map_Clone (Some m) h = Inr (c, h1) \<and>
    (\<forall>m1. c = Some m1 \<longrightarrow> represents m1 (map_of ps) \<and> mapFilterCallback m1 = (if ps = [] then None else mapFilterCallback m)) \<and>
    (plenty h \<and> short_pairs ps \<longrightarrow> c \<noteq> None \<and> plenty h1)"
proof (cases "plenty h \<and> short_pairs ps")
  case False
  with Map_Clone_refines [OF assms, of h] show ?thesis by blast
next
  case True
  have n: "length ps = count m" and ks: "take (count m) (keys_of m) = map Some (map fst ps)"
    and vs: "take (count m) (values_of m) = map Some (map snd ps)" using assms by (simp_all add: has_pairs_def comp_def)
  have len: "\<forall>t\<in>set (map fst ps). length t < 2 ^ 31 - 1" "\<forall>t\<in>set (map snd ps). length t < 2 ^ 31 - 1"
    using True by (auto simp: short_pairs_def)
  have c: "\<exists>h1. Map_CloneVector xs (count m) h = Inr (Some (map Some ts), h1) \<and> plenty h1"
    if "take (count m) xs = map Some ts" "length ts = count m" "\<forall>t\<in>set ts. length t < 2 ^ 31 - 1" "plenty h" for xs ts h
  proof -
    have "plenty (\<lambda>i. h (Suc i))" and "h 0 \<noteq> None" using that(4) by (simp_all add: plenty_def)
    then show ?thesis using clone_entries_plenty [OF that(1-3)] by (simp add: Map_CloneVector_def)
  qed
  have p: "plenty (\<lambda>i. h (Suc i))" and h0: "h 0 \<noteq> None" using True by (simp_all add: plenty_def)
  have "\<exists>c h1. Map_Clone (Some m) h = Inr (Some c, h1) \<and> plenty h1"
  proof (cases "count m = 0")
    case False
    obtain h1 where 1: "Map_CloneVector (keys_of m) (count m) (\<lambda>i. h (Suc i)) = Inr (Some (map Some (map fst ps)), h1)" "plenty h1"
      using c [OF ks _ len(1) p] n by auto
    obtain h2 where 2: "Map_CloneVector (values_of m) (count m) h1 = Inr (Some (map Some (map snd ps)), h2)" "plenty h2"
      using c [OF vs _ len(2) 1(2)] n by auto
    with 1 h0 False show ?thesis by (simp add: Map_Clone_def)
  qed (use h0 p in \<open>simp add: Map_Clone_def\<close>)
  with Map_Clone_refines [OF assms, of h] show ?thesis by fastforce
qed

text \<open>The texts of a message.\<close>

definition short_message :: "IOTHUB_MESSAGE_HANDLE_DATA \<Rightarrow> bool" where
  "short_message d \<longleftrightarrow> (\<forall>t. Some t \<in> {messageId d, correlationId d, userDefinedContentType d, contentEncoding d, outputName d,
     inputName d, creationTimeUtc d, userId d, connectionModuleId d, connectionDeviceId d} \<longrightarrow> length t < 2 ^ 31 - 1) \<and>
     (\<forall>x. diagnosticData d = Some x \<longrightarrow> short_diag x)"

lemma optional_diag_cases:
  obtains (none) h1 where "diagnosticData d \<noteq> None" "CloneDiagnosticPropertyData (diagnosticData d) h = (None, h1)" "\<not> (plenty h \<and> short_message d)"
  | (copied) h1 where "(if diagnosticData d = None then (None, h) else CloneDiagnosticPropertyData (diagnosticData d) h) = (diagnosticData d, h1)"
      "plenty h \<and> short_message d \<longrightarrow> plenty h1"
proof (cases "diagnosticData d")
  case (Some x)
  then have x: "short_message d \<longrightarrow> short_diag x" by (simp add: short_message_def)
  show ?thesis
  proof (cases rule: clone_diag_cases [of x h])
    case (none h1)
    with Some x show ?thesis by (intro that(1)) auto
  next
    case (copied h1)
    with Some x show ?thesis by (intro that(2)) auto
  qed
qed (use that(2) in auto)

lemma IoTHubMessage_Clone_run:
  assumes "has_content (msg_value d) x" "properties d = Some m" "has_pairs m ps"
  shows "\<exists>c h1. IoTHubMessage_Clone (Some d) h = Inr (c, h1) \<and>
    (\<forall>d1. c = Some d1 \<longrightarrow> has_content (msg_value d1) x \<and> d1\<lparr>msg_value := msg_value d, properties := properties d\<rparr> = d \<and>
      (\<exists>m1. properties d1 = Some m1 \<and> represents m1 (map_of ps) \<and>
        mapFilterCallback m1 = (if ps = [] then None else mapFilterCallback m))) \<and>
    (plenty h \<and> short_message d \<and> short_pairs ps \<longrightarrow> c \<noteq> None \<and> plenty h1)"
proof (cases "h 0 = None")
  case True
  then show ?thesis by (auto simp: IoTHubMessage_Clone_def plenty_def)
next
  case h0: False
  show ?thesis
  proof (cases rule: copy_fields_cases [of "[messageId d, correlationId d, userDefinedContentType d, contentEncoding d]" "\<lambda>i. h (Suc i)"])
    case (none h1)
    with h0 show ?thesis by (auto simp: IoTHubMessage_Clone_def short_message_def)
  next
    case 1: (copied h1)
    then have p1: "plenty h \<and> short_message d \<longrightarrow> plenty h1" by (auto simp: short_message_def)
    show ?thesis
    proof (cases rule: optional_diag_cases [of d h1])
      case (none h2)
      with h0 1(1) p1 show ?thesis by (auto simp: IoTHubMessage_Clone_def)
    next
      case 2: (copied h2)
      have diag: "(diagnosticData d \<noteq> None \<and> diagnosticData d = None) = False" by blast
      have six: "short_message d \<longrightarrow>
          (\<forall>t. Some t \<in> set [outputName d, inputName d, creationTimeUtc d, userId d, connectionModuleId d, connectionDeviceId d] \<longrightarrow> length t < 2 ^ 31 - 1)"
        by (auto simp: short_message_def)
      show ?thesis
      proof (cases rule: copy_fields_cases [of "[outputName d, inputName d, creationTimeUtc d, userId d, connectionModuleId d, connectionDeviceId d]" h2])
        case (none h3)
        have "IoTHubMessage_Clone (Some d) h = Inr (None, h3)"
          unfolding IoTHubMessage_Clone_def
          by (simp only: option.case list.case prod.case h0 if_False 1(1) 2(1) none(1) diag)
        moreover have "\<not> (plenty h \<and> short_message d)" using none(2) p1 2(2) six by blast
        ultimately show ?thesis by auto
      next
        case 3: (copied h3)
        have p3: "plenty h \<and> short_message d \<longrightarrow> plenty h3" using 3(2) p1 2(2) six by blast
        obtain v h4 where 4: "clone_message_value (msg_value d) h3 = Inr (v, h4)" "v = None \<or> has_content (the v) x"
          "plenty h3 \<longrightarrow> v \<noteq> None \<and> plenty h4" using clone_value_run [OF assms(1), of h3] by blast
        obtain c h5 where 5: "Map_Clone (Some m) h4 = Inr (c, h5)"
          "\<forall>m1. c = Some m1 \<longrightarrow> represents m1 (map_of ps) \<and> mapFilterCallback m1 = (if ps = [] then None else mapFilterCallback m)"
          "plenty h4 \<and> short_pairs ps \<longrightarrow> c \<noteq> None \<and> plenty h5" using Map_Clone_run [OF assms(3), of h4] by blast
        have run: "IoTHubMessage_Clone (Some d) h =
            (case v of None \<Rightarrow> Inr (None, h4)
             | Some v1 \<Rightarrow> if c = None then Inr (None, h5) else Inr (Some (d\<lparr>msg_value := v1, properties := c\<rparr>), h5))"
          unfolding IoTHubMessage_Clone_def
          by (simp only: option.case list.case prod.case h0 if_False 1(1) 2(1) 3(1) 4(1) 5(1) assms(2) cbind_simps diag) (cases v; simp)
        show ?thesis
        proof (cases "v = None \<or> c = None")
          case True
          with run p3 4(3) 5(3) show ?thesis by (auto split: option.split)
        next
          case False
          then obtain v1 m1 where vc: "v = Some v1" "c = Some m1" by auto
          with run have "IoTHubMessage_Clone (Some d) h = Inr (Some (d\<lparr>msg_value := v1, properties := Some m1\<rparr>), h5)" by simp
          with vc p3 4(2,3) 5(2,3) show ?thesis by auto
        qed
      qed
    qed
  qed
qed

text \<open>
  Claim C24. A copy of a message has its content, its system properties and its properties, whatever
  the allocator answers, or is NULL; it is not NULL while the allocator has storage.  But
  the copy of a message without properties has lost the filter that keeps its properties to printable ASCII.
\<close>

theorem message_clone_copies:
  assumes "has_content (msg_value d) x" "properties d = Some m" "has_pairs m ps"
  shows "\<exists>c h1. IoTHubMessage_Clone (Some d) h = Inr (c, h1) \<and>
    (\<forall>d1. c = Some d1 \<longrightarrow> has_content (msg_value d1) x \<and> d1\<lparr>msg_value := msg_value d, properties := properties d\<rparr> = d \<and>
      (\<exists>m1. properties d1 = Some m1 \<and> represents m1 (map_of ps) \<and>
        mapFilterCallback m1 = (if ps = [] then None else mapFilterCallback m))) \<and>
    (plenty h \<and> short_message d \<and> short_pairs ps \<longrightarrow> c \<noteq> None \<and> plenty h1)"
  by (rule IoTHubMessage_Clone_run [OF assms])

section \<open>Properties\<close>

lemma GetProperty_run:
  assumes "properties d = Some m" "represents m f"
  shows "IoTHubMessage_GetProperty (Some d) (Some k) = Inr (f k)"
proof -
  obtain ps where ps: "has_pairs m ps" "map_of ps = f" using assms(2) by (auto simp: represents_def)
  show ?thesis using Map_get_refines [OF ps(1), of k] assms(1) ps(2) by (simp add: IoTHubMessage_GetProperty_def)
qed

lemma SetProperty_run:
  assumes "properties d = Some m" "represents m f" "plenty h" "length k < 2 ^ 31 - 1" "length v < 2 ^ 31 - 1"
  shows "\<exists>d1 h1. IoTHubMessage_SetProperty (Some d) (Some k) (Some v) h =
      Inr (if rejected m k v then IOTHUB_MESSAGE_INVALID_TYPE else IOTHUB_MESSAGE_OK, Some d1, h1) \<and>
    (if rejected m k v then d1 = d else \<exists>m1. properties d1 = Some m1 \<and> represents m1 (f(k \<mapsto> v)))"
proof -
  obtain ps where ps: "has_pairs m ps" "map_of ps = f" using assms(2) by (auto simp: represents_def)
  obtain r m1 h1 where r: "Map_AddOrUpdate (Some m) (Some k) (Some v) h = Inr (r, Some m1, h1)"
    "if rejected m k v then r = MAP_FILTER_REJECT \<and> m1 = m else r = MAP_OK \<and> represents m1 (f(k \<mapsto> v))"
    using Map_AddOrUpdate_refines [OF ps(1), of k v h] ps(2) assms(3-5) by (auto split: if_splits)
  have d: "d\<lparr>properties := Some m\<rparr> = d" using assms(1) by simp
  show ?thesis using r assms(1) d by (cases "rejected m k v") (auto simp: IoTHubMessage_SetProperty_def)
qed

lemma short_pairs_map_of:
  assumes "has_pairs m ps" "\<forall>k v. map_of ps k = Some v \<longrightarrow> length k < 2 ^ 31 - 1 \<and> length v < 2 ^ 31 - 1"
  shows "short_pairs ps"
  using assms map_of_eq_Some_iff [of ps] by (auto simp: short_pairs_def has_pairs_def)

lemma rejected_ascii:
  "mapFilterCallback m = Some ValidateAsciiCharactersFilter \<Longrightarrow> rejected m k v \<longleftrightarrow> \<not> (ContainsValidUsAscii k \<and> ContainsValidUsAscii v)"
  by (simp add: rejected_def ValidateAsciiCharactersFilter_def)

text \<open>
  Claim C25. A property that was set is read back: setting a property of a message with the filter
  refuses a name or value that is not printable ASCII and changes nothing; otherwise,
  while the allocator has storage, the value is what reading the name returns from then on, and every
  other name reads as before.
\<close>

theorem message_property_roundtrip:
  assumes "properties d = Some m" "represents m f" "mapFilterCallback m = Some ValidateAsciiCharactersFilter" "plenty h"
    "length k < 2 ^ 31 - 1" "length v < 2 ^ 31 - 1"
  shows "\<exists>r d1 h1. IoTHubMessage_SetProperty (Some d) (Some k) (Some v) h = Inr (r, Some d1, h1) \<and>
    (if ContainsValidUsAscii k \<and> ContainsValidUsAscii v
     then r = IOTHUB_MESSAGE_OK \<and> (\<forall>k1. IoTHubMessage_GetProperty (Some d1) (Some k1) = Inr (if k1 = k then Some v else f k1))
     else r = IOTHUB_MESSAGE_INVALID_TYPE \<and> d1 = d)"
proof (cases "ContainsValidUsAscii k \<and> ContainsValidUsAscii v")
  case True
  then obtain d1 h1 m1 where "IoTHubMessage_SetProperty (Some d) (Some k) (Some v) h = Inr (IOTHUB_MESSAGE_OK, Some d1, h1)"
    "properties d1 = Some m1" "represents m1 (f(k \<mapsto> v))"
    using SetProperty_run [OF assms(1,2,4,5,6)] rejected_ascii [OF assms(3), of k v] by auto
  with True GetProperty_run [OF this(2,3)] show ?thesis by auto
next
  case False
  with SetProperty_run [OF assms(1,2,4,5,6)] rejected_ascii [OF assms(3), of k v] show ?thesis by auto
qed

abbreviation no_pairs :: MAP_HANDLE_DATA where
  "no_pairs \<equiv> \<lparr>keys_of = [], values_of = [], count = 0, mapFilterCallback = Some ValidateAsciiCharactersFilter\<rparr>"

lemma BUFFER_create_run:
  assumes "p \<noteq> None" "bs \<noteq> [] \<longrightarrow> p = Some bs"
  shows "\<exists>r h1. BUFFER_create p (length bs) h = Inr (r, h1) \<and> (r = None \<or> holds_bytes r bs) \<and>
    (plenty h \<and> length bs < 2 ^ 31 \<longrightarrow> r \<noteq> None \<and> plenty h1)"
proof (cases rule: new_cases [of h])
  case none
  with assms show ?thesis by (simp add: BUFFER_create_def)
next
  case (some b0)
  let ?n = "if length bs = 0 then 1 else length bs"
  show ?thesis
  proof (cases "length bs < 2 ^ 31")
    case False
    then have "malloc ?n (\<lambda>i. h (Suc i)) = (None, \<lambda>i. h (Suc (Suc i)))" by (auto simp: malloc_def)
    with False some assms show ?thesis by (simp add: BUFFER_create_def BUFFER_safemalloc_def)
  next
    case True
    then have n: "?n < 2 ^ 31" by simp
    show ?thesis
    proof (cases rule: malloc_cases [OF n, of "\<lambda>i. h (Suc i)"])
      case 1
      then have "\<not> plenty h" by auto
      with 1 some assms show ?thesis by (auto simp: BUFFER_create_def BUFFER_safemalloc_def)
    next
      case (2 xs)
      have "write_at xs 0 bs = Inr (bs @ drop (length bs) xs)" using 2(2) by (cases bs) (auto simp: write_at_ok)
      then show ?thesis using 2 some True assms
        by (auto simp: BUFFER_create_def BUFFER_safemalloc_def read_from_def store_in_def holds_bytes_def)
    qed
  qed
qed

lemma CreateFromByteArray_run:
  "\<exists>r h1. IoTHubMessage_CreateFromByteArray (Some bs) (length bs) h = Inr (r, h1) \<and>
    (r = None \<or> (\<exists>b. r = Some ((blank_message (Byte_array b))\<lparr>properties := Some no_pairs\<rparr>) \<and> holds_bytes b bs)) \<and>
    (plenty h \<and> length bs < 2 ^ 31 \<longrightarrow> r \<noteq> None \<and> plenty h1)"
proof (cases "h 0 = None")
  case True
  then show ?thesis by (auto simp: IoTHubMessage_CreateFromByteArray_def plenty_def)
next
  case ok: False
  let ?p = "if length bs \<noteq> 0 then Some bs else Some [0]"
  have p: "?p \<noteq> None" "bs \<noteq> [] \<longrightarrow> ?p = Some bs" by simp_all
  obtain b h1 where b: "BUFFER_create ?p (length bs) (\<lambda>i. h (Suc i)) = Inr (b, h1)" "b = None \<or> holds_bytes b bs"
    "plenty h \<and> length bs < 2 ^ 31 \<longrightarrow> b \<noteq> None \<and> plenty h1"
    using BUFFER_create_run [OF p, of "\<lambda>i. h (Suc i)"] plenty_next [of h] by blast
  have c: "IoTHubMessage_CreateFromByteArray (Some bs) (length bs) h =
      (if b = None then Inr (None, h1)
       else Inr (if h1 0 = None then None else Some ((blank_message (Byte_array b))\<lparr>properties := Some no_pairs\<rparr>), \<lambda>i. h1 (Suc i)))"
    unfolding IoTHubMessage_CreateFromByteArray_def by (simp only: b(1) cbind_simps prod.case ok if_False option.distinct)
      (simp add: Map_Create_def split: option.split)
  show ?thesis
  proof (cases "b = None \<or> h1 0 = None")
    case True
    moreover have "h1 0 \<noteq> None" if "plenty h1" using that by (simp add: plenty_def)
    ultimately have "\<not> (plenty h \<and> length bs < 2 ^ 31)" using b(3) by blast
    with True show ?thesis unfolding c by auto
  next
    case False
    with b show ?thesis unfolding c by auto
  qed
qed

lemma no_pairs_represents: "has_pairs no_pairs []" "represents no_pairs Map.empty"
proof -
  show 1: "has_pairs no_pairs []" by (simp add: has_pairs_def)
  then show "represents no_pairs Map.empty" unfolding represents_def by (intro exI [of _ "[]"]) simp
qed

definition with_property :: "string \<Rightarrow> string \<Rightarrow> IOTHUB_MESSAGE_HANDLE_DATA" where
  "with_property k v = (blank_message (Byte_array (Some \<lparr>buffer = Some [1], bsize = 1\<rparr>)))\<lparr>
    properties := Some \<lparr>keys_of = [Some k], values_of = [Some v], count = 1, mapFilterCallback = Some ValidateAsciiCharactersFilter\<rparr>\<rparr>"

lemma message_clone_copies_witness:
  "\<exists>d1 h1. IoTHubMessage_Clone (Some (with_property ''a'' ''b'')) junk_mem = Inr (Some d1, h1) \<and> has_content (msg_value d1) (Inl [1])"
proof -
  let ?d = "with_property ''a'' ''b''"
  have v: "has_content (msg_value ?d) (Inl [1])" by (simp add: with_property_def blank_message_def holds_bytes_def)
  have m: "properties ?d = Some \<lparr>keys_of = [Some ''a''], values_of = [Some ''b''], count = 1, mapFilterCallback = Some ValidateAsciiCharactersFilter\<rparr>"
    by (simp add: with_property_def)
  have p: "has_pairs \<lparr>keys_of = [Some ''a''], values_of = [Some ''b''], count = 1, mapFilterCallback = Some ValidateAsciiCharactersFilter\<rparr> [(''a'', ''b'')]"
    by (simp add: has_pairs_def)
  have "short_message ?d" "short_pairs [(''a'', ''b'')]" by (simp_all add: short_message_def with_property_def blank_message_def short_pairs_def)
  with message_clone_copies [OF v m p, of junk_mem] show ?thesis by auto
qed

lemma message_property_roundtrip_witness:
  "\<exists>d1 h1. IoTHubMessage_SetProperty (Some (with_property ''a'' ''b'')) (Some ''c'') (Some ''d'') junk_mem = Inr (IOTHUB_MESSAGE_OK, Some d1, h1) \<and>
    IoTHubMessage_GetProperty (Some d1) (Some ''a'') = Inr (Some ''b'')"
proof -
  let ?d = "with_property ''a'' ''b''" and ?m = "\<lparr>keys_of = [Some ''a''], values_of = [Some ''b''], count = 1, mapFilterCallback = Some ValidateAsciiCharactersFilter\<rparr>"
  have m: "properties ?d = Some ?m" by (simp add: with_property_def)
  have "has_pairs ?m [(''a'', ''b'')]" by (simp add: has_pairs_def)
  then have p: "represents ?m [''a'' \<mapsto> ''b'']" unfolding represents_def by (intro exI [of _ "[(''a'', ''b'')]"]) simp
  have ascii: "ContainsValidUsAscii ''c'' \<and> ContainsValidUsAscii ''d''" by (simp add: ContainsValidUsAscii_def code_def)
  show ?thesis using message_property_roundtrip [OF m p _ plenty_junk, of "''c''" "''d''"] ascii by auto
qed

section \<open>A copy without the filter\<close>

text \<open>
  Claim C1. The copy of a message without properties takes any property: a new message refuses a
  property that is not printable ASCII, but the copy made of it, with the same content, stores it and
  returns it.
\<close>

theorem clone_takes_any_property:
  assumes "plenty h" "\<not> (ContainsValidUsAscii k \<and> ContainsValidUsAscii v)" "length k < 2 ^ 31 - 1" "length v < 2 ^ 31 - 1"
  shows "\<exists>d c d1 h1 h2 h3 h4. IoTHubMessage_CreateFromByteArray (Some []) 0 h = Inr (Some d, h1) \<and>
    IoTHubMessage_SetProperty (Some d) (Some k) (Some v) h = Inr (IOTHUB_MESSAGE_INVALID_TYPE, Some d, h2) \<and>
    IoTHubMessage_Clone (Some d) h = Inr (Some c, h3) \<and> IoTHubMessage_GetByteArray (Some c) = IoTHubMessage_GetByteArray (Some d) \<and>
    IoTHubMessage_SetProperty (Some c) (Some k) (Some v) h = Inr (IOTHUB_MESSAGE_OK, Some d1, h4) \<and>
    IoTHubMessage_GetProperty (Some d1) (Some k) = Inr (Some v)"
proof -
  let ?m = no_pairs
  obtain b h1 where d: "IoTHubMessage_CreateFromByteArray (Some []) 0 h = Inr (Some ((blank_message (Byte_array b))\<lparr>properties := Some ?m\<rparr>), h1)"
    "holds_bytes b []" using CreateFromByteArray_run [of "[]" h] assms(1) by auto
  let ?d = "(blank_message (Byte_array b))\<lparr>properties := Some ?m\<rparr>"
  have m: "properties ?d = Some ?m" "has_pairs ?m []" and rep: "represents ?m Map.empty" using no_pairs_represents by simp_all
  obtain h2 where refused: "IoTHubMessage_SetProperty (Some ?d) (Some k) (Some v) h = Inr (IOTHUB_MESSAGE_INVALID_TYPE, Some ?d, h2)"
    using SetProperty_run [OF m(1) rep assms(1,3,4)] rejected_ascii [of ?m k v] assms(2) by auto
  have v: "has_content (msg_value ?d) (Inl [])" using d(2) by (simp add: blank_message_def)
  have "short_message ?d" "short_pairs []" by (simp_all add: short_message_def blank_message_def short_pairs_def)
  with IoTHubMessage_Clone_run [OF v m, of h] assms(1)
  obtain c m1 h3 where c: "IoTHubMessage_Clone (Some ?d) h = Inr (Some c, h3)" "has_content (msg_value c) (Inl [])"
    "properties c = Some m1" "represents m1 Map.empty" "mapFilterCallback m1 = None" by auto
  then obtain d1 h4 m2 where set: "IoTHubMessage_SetProperty (Some c) (Some k) (Some v) h = Inr (IOTHUB_MESSAGE_OK, Some d1, h4)"
    "properties d1 = Some m2" "represents m2 [k \<mapsto> v]"
    using SetProperty_run [OF c(3,4) assms(1,3,4)] by (auto simp: rejected_def)
  have "IoTHubMessage_GetByteArray (Some c) = IoTHubMessage_GetByteArray (Some ?d)"
    using c(2) v by (cases "msg_value c"; cases "msg_value ?d")
      (auto simp: IoTHubMessage_GetByteArray_def holds_bytes_def BUFFER_u_char_def BUFFER_length_def)
  with d(1) refused c(1) set(1) GetProperty_run [OF set(2,3), of k] show ?thesis by auto
qed

lemma clone_takes_any_property_witness:
  "\<exists>d c d1 h3 h4. IoTHubMessage_Clone (Some d) junk_mem = Inr (Some c, h3) \<and>
    IoTHubMessage_SetProperty (Some c) (Some ''k'') (Some [LF]) junk_mem = Inr (IOTHUB_MESSAGE_OK, Some d1, h4)"
  using clone_takes_any_property [OF plenty_junk, of "''k''" "[LF]"] by (auto simp: ContainsValidUsAscii_def code_def)

end
