(* ===== verification/Telemetry.thy ===== *)
theory Telemetry
  imports Provisioning Iothub_Message
begin

text \<open>
  The telemetry client (\<open>app_iothub_client/src/client.c\<close>): its callbacks, the loop that sends the
  mouse's telemetry, and the queue it hands its messages to (\<open>IoTHubClientCore_LL_SendEventAsync\<close>).
  When messages are sent, what ends the loop, and what becomes of the five slots in which the program
  remembers the messages it has not heard of yet.
\<close>

section \<open>State\<close>

record EVENT_INSTANCE =
  messageHandle :: "nat option"
  messageTrackingId :: nat

text \<open>\<open>'d\<close> is \<open>double\<close>; the program copies and compares its values, nothing else.\<close>

record 'd telemetry_t =
  distance :: 'd
  rotation :: 'd
  clickCount :: int

text \<open>What the client is told while it works: the index of a message it was sent, in its queue, ...\<close>

datatype 'd event =
    Confirmed nat
  | Received IOTHUB_MESSAGE_HANDLE_DATA
  | Called string "byte list"
  | Desired_threshold 'd

text \<open>
  What lies outside: the comparison of numbers, the serializer, whether it finds a method, the values
  another task leaves in \<open>telemetry\<close>, and what each call of \<open>IoTHubClient_LL_DoWork\<close> delivers.
\<close>

record 'd world =
  greater :: "'d \<Rightarrow> 'd \<Rightarrow> bool"
  serialize :: "'d telemetry_t \<Rightarrow> mem \<Rightarrow> byte list option \<times> mem"
  finds_method :: "string \<Rightarrow> byte list \<Rightarrow> bool"
  sensors :: "nat \<Rightarrow> 'd telemetry_t"
  incoming :: "nat \<Rightarrow> 'd event list"

text \<open>
  A message handle is a number, and \<open>store\<close> holds the messages that are not destroyed.  The queue
  holds the copies of the messages and the slots that are given to the confirmation.
\<close>

record 'd app =
  g_continueRunning :: bool
  g_twinReport :: bool
  callbackCounter :: nat
  receiveContext :: nat
  messages :: "EVENT_INSTANCE list"
  msg_id :: nat
  iterator :: nat
  ledOn :: nat
  myMouse :: "'d telemetry_t option"
  mouseSettings :: "'d option"
  mouseState :: "('d \<times> string) option"
  reports :: "'d list"
  store :: "nat \<Rightarrow> IOTHUB_MESSAGE_HANDLE"
  next_handle :: nat
  waitingToSend :: "(IOTHUB_MESSAGE_HANDLE_DATA \<times> nat) list"
  app_heap :: mem

section \<open>Callbacks\<close>

definition IoTHubMessage_Destroy :: "nat option \<Rightarrow> 'd app \<Rightarrow> 'd app outcome" where
  "IoTHubMessage_Destroy handle s =
    (case handle of None \<Rightarrow> Inr s
     | Some m \<Rightarrow> if store s m = None then Inl Freed_pointer else Inr (s\<lparr>store := (store s)(m := None)\<rparr>))"

definition SendConfirmationCallback :: "nat \<Rightarrow> 'd app \<Rightarrow> 'd app outcome" where
  "SendConfirmationCallback slot s =
    IoTHubMessage_Destroy (messageHandle (messages s ! slot)) (s\<lparr>callbackCounter := callbackCounter s + 1\<rparr>)"

definition ReceiveMessageCallback :: "IOTHUB_MESSAGE_HANDLE_DATA \<Rightarrow> 'd app \<Rightarrow> 'd app" where
  "ReceiveMessageCallback message s =
    (let s1 = (case IoTHubMessage_GetByteArray (Some message) of
           (IOTHUB_MESSAGE_OK, Some (Some buf, n)) \<Rightarrow>
             if n = 4 \<and> take n buf = map byte_of ''quit'' then s\<lparr>g_continueRunning := False\<rparr> else s
         | _ \<Rightarrow> s)
     in s1\<lparr>receiveContext := receiveContext s1 + 1\<rparr>)"

definition onDesiredThreshold :: "'d app \<Rightarrow> 'd app" where
  "onDesiredThreshold s = s\<lparr>g_twinReport := True\<rparr>"

text \<open>\<open>MethodReturn_Create\<close> of a text that is JSON.\<close>

definition MethodReturn_Create :: "nat \<Rightarrow> string \<Rightarrow> mem \<Rightarrow> (nat \<times> string) option \<times> mem" where
  "MethodReturn_Create statusCode jsonValue h =
    (if h 0 = None then (None, \<lambda>i. h (Suc i))
     else case mallocAndStrcpy_s jsonValue (\<lambda>i. h (Suc i)) of
       (None, h1) \<Rightarrow> (None, h1) | (Some j, h1) \<Rightarrow> (Some (statusCode, j), h1))"

definition quit :: "'d app \<Rightarrow> (nat \<times> string) option \<times> 'd app" where
  "quit s = (case MethodReturn_Create 0 ''{\"Message\":\"quit with Method\"}'' (app_heap s) of
     (r, h1) \<Rightarrow> (r, s\<lparr>g_continueRunning := False, app_heap := h1\<rparr>))"

definition turnLedOn :: "'d app \<Rightarrow> (nat \<times> string) option \<times> 'd app" where
  "turnLedOn s = (case MethodReturn_Create 1 ''{\"Message\":\"Turning fan on with Method\"}'' (app_heap s) of
     (r, h1) \<Rightarrow> (r, s\<lparr>ledOn := 1, app_heap := h1\<rparr>))"

definition turnLedOff :: "'d app \<Rightarrow> (nat \<times> string) option \<times> 'd app" where
  "turnLedOff s = (case MethodReturn_Create 0 ''{\"Message\":\"Turning fan off with Method\"}'' (app_heap s) of
     (r, h1) \<Rightarrow> (r, s\<lparr>ledOn := 0, app_heap := h1\<rparr>))"

text \<open>\<open>EXECUTE_METHOD\<close> on the model the program declares.\<close>

definition execute_method :: "'d world \<Rightarrow> string \<Rightarrow> byte list \<Rightarrow> 'd app \<Rightarrow> (nat \<times> string) option \<times> 'd app" where
  "execute_method w name payload s =
    (if \<not> finds_method w name payload then (None, s)
     else if name = ''quit'' then quit s
     else if name = ''turnLedOn'' then turnLedOn s
     else if name = ''turnLedOff'' then turnLedOff s
     else (None, s))"

text \<open>The status, the response and its size; the storage of the response is not checked.\<close>

definition ReceiveDeviceMethodCallback :: "'d world \<Rightarrow> string \<Rightarrow> byte list \<Rightarrow> 'd app \<Rightarrow> (int \<times> byte list option \<times> 'd app) outcome" where
  "ReceiveDeviceMethodCallback w name payload s =
    (case malloc_chars (size_add (length payload) 1) (app_heap s) of
       (None, h1) \<Rightarrow> Inr (-1, None, s\<lparr>app_heap := h1\<rparr>)
     | (Some q, h1) \<Rightarrow>
         (case execute_method w name payload (s\<lparr>app_heap := h1\<rparr>) of
            (None, s1) \<Rightarrow> Inr (-1, None, s1)
          | (Some (statusCode, jsonValue), s1) \<Rightarrow>
              (case malloc (length jsonValue) (app_heap s1) of
                 (None, h2) \<Rightarrow> Inl Null_pointer
               | (Some r, h2) \<Rightarrow>
                   cbind (write_at r 0 (map byte_of jsonValue)) (\<lambda>r1. Inr (int statusCode, Some r1, s1\<lparr>app_heap := h2\<rparr>)))))"

section \<open>Sending\<close>

text \<open>
  The message is copied into the queue of the client.  No timeout and no sampling are set, as in a new client.
\<close>

definition IoTHubClientCore_LL_SendEventAsync :: "IOTHUB_MESSAGE_HANDLE_DATA \<Rightarrow> nat \<Rightarrow> 'd app \<Rightarrow> (bool \<times> 'd app) outcome" where
  "IoTHubClientCore_LL_SendEventAsync message context s =
    (if app_heap s 0 = None then Inr (False, s\<lparr>app_heap := (\<lambda>i. app_heap s (Suc i))\<rparr>)
     else cbind (IoTHubMessage_Clone (Some message) (\<lambda>i. app_heap s (Suc i))) (\<lambda>(c, h1).
       case c of None \<Rightarrow> Inr (False, s\<lparr>app_heap := h1\<rparr>)
       | Some copy \<Rightarrow> Inr (True, s\<lparr>waitingToSend := waitingToSend s @ [(copy, context)], app_heap := h1\<rparr>)))"

text \<open>The content type and encoding, which only HTTP is told.\<close>

definition for_protocol :: "nat \<Rightarrow> IOTHUB_MESSAGE_HANDLE_DATA \<Rightarrow> mem \<Rightarrow> IOTHUB_MESSAGE_HANDLE_DATA \<times> mem" where
  "for_protocol proto d h =
    (if proto = 0 then
       (case IoTHubMessage_SetContentTypeSystemProperty (Some d) (Some ''application/json'') h of (_, d1, h1) \<Rightarrow>
        case IoTHubMessage_SetContentEncodingSystemProperty d1 (Some ''utf-8'') h1 of (_, d2, h2) \<Rightarrow> (the d2, h2))
     else (d, h))"

definition send_telemetry :: "'d world \<Rightarrow> nat \<Rightarrow> nat \<Rightarrow> 'd app \<Rightarrow> 'd app outcome" where
  "send_telemetry w proto k s0 =
    (let s = s0\<lparr>iterator := 0\<rparr>; msgPos = msg_id s mod 5; t = sensors w k
     in if myMouse s = None then Inl Null_pointer
        else
          let s1 = s\<lparr>myMouse := Some t\<rparr>
          in case serialize w t (app_heap s1) of
               (None, h1) \<Rightarrow> Inr (s1\<lparr>app_heap := h1\<rparr>)
             | (Some msgText, h1) \<Rightarrow>
                 cbind (IoTHubMessage_CreateFromByteArray (Some msgText) (length msgText) h1) (\<lambda>(m, h2).
                   case m of
                     None \<Rightarrow> Inr (s1\<lparr>messages := (messages s1)[msgPos := (messages s1 ! msgPos)\<lparr>messageHandle := None\<rparr>], app_heap := h2\<rparr>)
                   | Some d \<Rightarrow>
                       let handle = next_handle s1;
                           s2 = s1\<lparr>messages := (messages s1)[msgPos := \<lparr>messageHandle = Some handle, messageTrackingId = msg_id s1\<rparr>],
                             next_handle := handle + 1\<rparr>
                       in case mouseSettings s2 of None \<Rightarrow> Inl Null_pointer
                          | Some threshold \<Rightarrow>
                              let propText = (if greater w (rotation t) threshold then ''true'' else ''false'')
                              in cbind (Map_AddOrUpdate (properties d) (Some ''rotationAlert'') (Some propText) h2) (\<lambda>(r, m1, h3).
                                   case for_protocol proto (d\<lparr>properties := m1\<rparr>) h3 of (d1, h4) \<Rightarrow>
                                   cbind (IoTHubClientCore_LL_SendEventAsync d1 msgPos (s2\<lparr>store := (store s2)(handle := Some d1), app_heap := h4\<rparr>))
                                     (\<lambda>(accepted, s3). Inr (s3\<lparr>msg_id := msg_id s3 + 1\<rparr>)))))"

definition report_twin :: "'d app \<Rightarrow> 'd app outcome" where
  "report_twin s =
    (case (mouseState s, mouseSettings s) of
       (Some st, Some v) \<Rightarrow> Inr (s\<lparr>g_twinReport := False, mouseState := Some (v, ''success''), reports := reports s @ [v]\<rparr>)
     | _ \<Rightarrow> Inl Null_pointer)"

section \<open>The loop\<close>

definition deliver :: "'d world \<Rightarrow> 'd event \<Rightarrow> 'd app \<Rightarrow> 'd app outcome" where
  "deliver w e s =
    (case e of
       Confirmed i \<Rightarrow>
         if i < length (waitingToSend s) then
           SendConfirmationCallback (snd (waitingToSend s ! i)) (s\<lparr>waitingToSend := take i (waitingToSend s) @ drop (i + 1) (waitingToSend s)\<rparr>)
         else Inr s
     | Received m \<Rightarrow> Inr (ReceiveMessageCallback m s)
     | Called name payload \<Rightarrow> cbind (ReceiveDeviceMethodCallback w name payload s) (\<lambda>(_, _, s1). Inr s1)
     | Desired_threshold v \<Rightarrow>
         if mouseSettings s = None then Inr s else Inr (onDesiredThreshold (s\<lparr>mouseSettings := Some v\<rparr>)))"

fun deliver_all :: "'d world \<Rightarrow> 'd event list \<Rightarrow> 'd app \<Rightarrow> 'd app outcome" where
  "deliver_all w [] s = Inr s"
| "deliver_all w (e # es) s = cbind (deliver w e s) (deliver_all w es)"

text \<open>One round of the loop; its number is the number of the call of \<open>IoTHubClient_LL_DoWork\<close>.\<close>

definition send_part :: "'d world \<Rightarrow> nat \<Rightarrow> nat \<Rightarrow> 'd app \<Rightarrow> 'd app outcome" where
  "send_part w proto k s =
    (if iterator s \<ge> 5000 then send_telemetry w proto k s
     else if g_twinReport s then report_twin s
     else Inr s)"

definition round_of_loop :: "'d world \<Rightarrow> nat \<Rightarrow> nat \<Rightarrow> 'd app \<Rightarrow> 'd app outcome" where
  "round_of_loop w proto k s =
    cbind (send_part w proto k s) (\<lambda>s1. deliver_all w (incoming w k) (s1\<lparr>iterator := iterator s1 + 1\<rparr>))"

text \<open>
  The loop may never end: \<open>n\<close> bounds the rounds that are followed.  The result is the number of the
  next round, whether the loop has ended, and the state.
\<close>

fun telemetry_loop :: "nat \<Rightarrow> 'd world \<Rightarrow> nat \<Rightarrow> nat \<Rightarrow> 'd app \<Rightarrow> (nat \<times> bool \<times> 'd app) outcome" where
  "telemetry_loop 0 w proto k s = Inr (k, False, s)"
| "telemetry_loop (Suc n) w proto k s =
    cbind (round_of_loop w proto k s) (\<lambda>s1.
      if g_continueRunning s1 then telemetry_loop n w proto (k + 1) s1 else Inr (k + 1, True, s1))"

text \<open>After the loop the client works three more times.\<close>

definition finish_sending :: "'d world \<Rightarrow> nat \<Rightarrow> 'd app \<Rightarrow> 'd app outcome" where
  "finish_sending w k s =
    cbind (deliver_all w (incoming w k) s) (\<lambda>s1.
    cbind (deliver_all w (incoming w (k + 1)) s1) (deliver_all w (incoming w (k + 2))))"

text \<open>
  The state the loop begins with: the flag of the twin and the light are the program's, the objects
  of the model are what the serializer made, or NULL.
\<close>

definition start_app :: "bool \<Rightarrow> nat \<Rightarrow> 'd telemetry_t option \<Rightarrow> 'd option \<Rightarrow> ('d \<times> string) option \<Rightarrow> mem \<Rightarrow> 'd app" where
  "start_app twin led mouse settings st h =
    \<lparr>g_continueRunning = True, g_twinReport = twin, callbackCounter = 0, receiveContext = 0,
     messages = replicate 5 \<lparr>messageHandle = None, messageTrackingId = 0\<rparr>, msg_id = 0, iterator = 4000, ledOn = led,
     myMouse = mouse, mouseSettings = settings, mouseState = st, reports = [], store = (\<lambda>_. None), next_handle = 0,
     waitingToSend = [], app_heap = h\<rparr>"

definition transport_number :: "nat \<Rightarrow> IOTHUB_CLIENT_TRANSPORT_PROVIDER option" where
  "transport_number proto =
    (if proto = 0 then Some HTTP_Protocol else if proto = 1 then Some MQTT_Protocol
     else if proto = 2 then Some MQTT_WebSocket_Protocol else None)"

text \<open>
  \<open>ready\<close> is whether the platform and the serializer start, \<open>initialize\<close> whether the client is
  initialized, \<open>start\<close> what the loop then begins with; None when the loop is not begun, else whether
  it has ended within \<open>n\<close> rounds, and the state.
\<close>

definition iothub_client_run :: "nat \<Rightarrow> 'd world \<Rightarrow> bool \<Rightarrow> (IOTHUB_CLIENT_CONFIG \<times> bool \<times> char_ptr \<Rightarrow> bool) \<Rightarrow>
    (mem \<Rightarrow> 'd app) \<Rightarrow> char_ptr \<Rightarrow> nat \<Rightarrow> mem \<Rightarrow> (bool \<times> 'd app) option outcome" where
  "iothub_client_run n w ready initialize start connectionString proto h =
    (if \<not> ready then Inr None
     else if transport_number proto = None then Inr None
     else cbind (IoTHubClientCore_LL_CreateFromConnectionString connectionString (transport_number proto) h) (\<lambda>(client, h1).
       case client of None \<Rightarrow> Inr None
       | Some arguments \<Rightarrow>
           if \<not> initialize arguments then Inr None
           else cbind (telemetry_loop n w proto 0 (start h1)) (\<lambda>(k, ended, s).
             if \<not> ended then Inr (Some (False, s))
             else cbind (finish_sending w k s) (\<lambda>s1. Inr (Some (True, s1))))))"

text \<open>The transport the arguments of the command choose; None when nothing is run.\<close>

definition iothub_client_main :: "string list \<Rightarrow> char_ptr \<Rightarrow> nat option" where
  "iothub_client_main argv connectionString =
    (if connectionString = None then None
     else if length argv < 2 then Some 1
     else if argv ! 1 = ''http'' then Some 0
     else if argv ! 1 = ''mqtt'' then Some 1
     else if argv ! 1 = ''mqttows'' then Some 2
     else None)"

section \<open>What sending does\<close>

lemma for_protocol_run:
  "\<exists>d1 h1. for_protocol proto d h = (d1, h1) \<and> msg_value d1 = msg_value d \<and> properties d1 = properties d \<and>
    (plenty h \<and> short_message d \<longrightarrow> plenty h1 \<and> short_message d1)"
proof (cases "proto = 0")
  case True
  obtain r1 t h1 where 1: "IoTHubMessage_SetContentTypeSystemProperty (Some d) (Some ''application/json'') h =
      (r1, Some (d\<lparr>userDefinedContentType := t\<rparr>), h1)" "t \<in> {None, Some ''application/json''}" "plenty h \<longrightarrow> plenty h1"
    by (cases rule: copy_cases [of "''application/json''" h]) (auto simp: IoTHubMessage_SetContentTypeSystemProperty_def set_text_def)
  let ?d = "d\<lparr>userDefinedContentType := t\<rparr>"
  obtain r2 e h2 where 2: "IoTHubMessage_SetContentEncodingSystemProperty (Some ?d) (Some ''utf-8'') h1 =
      (r2, Some (?d\<lparr>contentEncoding := e\<rparr>), h2)" "e \<in> {contentEncoding d, Some ''utf-8''}" "plenty h1 \<longrightarrow> plenty h2"
  proof (cases rule: copy_cases [of "''utf-8''" h1])
    case none
    then show ?thesis by (intro that [of _ "contentEncoding d"])
      (simp_all add: IoTHubMessage_SetContentEncodingSystemProperty_def set_content_encoding_def)
  next
    case some
    then show ?thesis by (intro that [of _ "Some ''utf-8''"])
      (auto simp: IoTHubMessage_SetContentEncodingSystemProperty_def set_content_encoding_def)
  qed
  have "for_protocol proto d h = (?d\<lparr>contentEncoding := e\<rparr>, h2)" using True 1(1) 2(1) by (simp add: for_protocol_def)
  moreover have "short_message d \<longrightarrow> short_message (?d\<lparr>contentEncoding := e\<rparr>)"
    using 1(2) 2(2) by (auto simp: short_message_def)
  ultimately show ?thesis using 1(3) 2(3) by auto
qed (simp add: for_protocol_def)

lemma enqueue_run:
  assumes "has_content (msg_value d) x" "properties d = Some m" "has_pairs m ps"
  shows "\<exists>accepted q h1. IoTHubClientCore_LL_SendEventAsync d slot s =
      Inr (accepted, s\<lparr>waitingToSend := waitingToSend s @ q, app_heap := h1\<rparr>) \<and>
    (if accepted then \<exists>c. q = [(c, slot)] else q = []) \<and>
    (plenty (app_heap s) \<and> short_message d \<and> short_pairs ps \<longrightarrow> accepted \<and> plenty h1)"
    (is "\<exists>accepted q h1. ?P accepted q h1")
proof (cases "app_heap s 0 = None")
  case True
  then have "?P False [] (\<lambda>i. app_heap s (Suc i))" by (auto simp: IoTHubClientCore_LL_SendEventAsync_def plenty_def)
  then show ?thesis by (intro exI)
next
  case False
  obtain c h1 where c: "IoTHubMessage_Clone (Some d) (\<lambda>i. app_heap s (Suc i)) = Inr (c, h1)"
    "plenty (\<lambda>i. app_heap s (Suc i)) \<and> short_message d \<and> short_pairs ps \<longrightarrow> c \<noteq> None \<and> plenty h1"
    using IoTHubMessage_Clone_run [OF assms, of "\<lambda>i. app_heap s (Suc i)"] by blast
  show ?thesis
  proof (cases c)
    case None
    with c have "\<not> (plenty (app_heap s) \<and> short_message d \<and> short_pairs ps)" by auto
    with None False c(1) have "?P False [] h1" by (auto simp: IoTHubClientCore_LL_SendEventAsync_def)
    then show ?thesis by (intro exI)
  next
    case (Some copy)
    with False c have "?P True [(copy, slot)] h1" by (simp add: IoTHubClientCore_LL_SendEventAsync_def)
    then show ?thesis by (intro exI)
  qed
qed

text \<open>
  What an attempt to send leaves: the loop's own variables as they were; and either no message, or a
  message in its slot that the client has queued (\<open>q\<close>) or refused.
\<close>

definition keeps :: "'d app \<Rightarrow> 'd app \<Rightarrow> bool" where
  "keeps s s1 \<longleftrightarrow> iterator s1 = 0 \<and> g_continueRunning s1 = g_continueRunning s \<and> g_twinReport s1 = g_twinReport s \<and>
    (myMouse s1 = None \<longleftrightarrow> myMouse s = None) \<and> mouseSettings s1 = mouseSettings s \<and> mouseState s1 = mouseState s"

definition not_sent :: "'d app \<Rightarrow> 'd app \<Rightarrow> bool" where
  "not_sent s s1 \<longleftrightarrow> msg_id s1 = msg_id s \<and> store s1 = store s \<and> waitingToSend s1 = waitingToSend s \<and> next_handle s1 = next_handle s \<and>
    (messages s1 = messages s \<or> messages s1 = (messages s)[msg_id s mod 5 := (messages s ! (msg_id s mod 5))\<lparr>messageHandle := None\<rparr>])"

definition sent :: "(IOTHUB_MESSAGE_HANDLE_DATA \<times> nat) list \<Rightarrow> 'd app \<Rightarrow> 'd app \<Rightarrow> bool" where
  "sent q s s1 \<longleftrightarrow> msg_id s1 = msg_id s + 1 \<and> (\<exists>d. store s1 = (store s)(next_handle s := Some d)) \<and> waitingToSend s1 = waitingToSend s @ q \<and>
    next_handle s1 = next_handle s + 1 \<and>
    messages s1 = (messages s)[msg_id s mod 5 := \<lparr>messageHandle = Some (next_handle s), messageTrackingId = msg_id s\<rparr>] \<and>
    (q = [] \<or> (\<exists>c. q = [(c, msg_id s mod 5)]))"

text \<open>The serializer makes a text, and leaves storage.\<close>

definition serializes :: "'d world \<Rightarrow> bool" where
  "serializes w \<longleftrightarrow> (\<forall>t h. plenty h \<longrightarrow> (\<exists>x h1. serialize w t h = (Some x, h1) \<and> length x < 2 ^ 31 \<and> plenty h1))"

lemma alert_run:
  assumes "propText \<in> {''true'', ''false''}"
  shows "\<exists>r m1 h1 ps. Map_AddOrUpdate (Some no_pairs) (Some ''rotationAlert'') (Some propText) h = Inr (r, Some m1, h1) \<and>
    has_pairs m1 ps \<and> short_pairs ps \<and> (plenty h \<longrightarrow> plenty h1)"
proof -
  have len: "length propText < 2 ^ 31 - 1" "length ''rotationAlert'' < 2 ^ 31 - 1" using assms by auto
  have "ContainsValidUsAscii ''rotationAlert''" "ContainsValidUsAscii propText" using assms by (auto simp: ContainsValidUsAscii_def code_def)
  then have "\<not> rejected no_pairs ''rotationAlert'' propText" by (simp add: rejected_def ValidateAsciiCharactersFilter_def)
  with Map_AddOrUpdate_refines [OF no_pairs_represents(1), of "''rotationAlert''" propText h]
  obtain r m1 h1 where r: "Map_AddOrUpdate (Some no_pairs) (Some ''rotationAlert'') (Some propText) h = Inr (r, Some m1, h1)"
    "represents m1 [''rotationAlert'' \<mapsto> propText] \<or> represents m1 Map.empty"
    "plenty h \<and> length ''rotationAlert'' < 2 ^ 31 - 1 \<and> length propText < 2 ^ 31 - 1 \<longrightarrow> plenty h1"
    by (auto simp del: list.size)
  from r(2) obtain ps where ps: "has_pairs m1 ps" "map_of ps = [''rotationAlert'' \<mapsto> propText] \<or> map_of ps = Map.empty"
    by (auto simp: represents_def)
  have "short_pairs ps" by (rule short_pairs_map_of [OF ps(1)]) (use ps(2) len in \<open>auto split: if_splits\<close>)
  with r ps(1) len show ?thesis by blast
qed

lemma send_run:
  assumes "myMouse s \<noteq> None" "mouseSettings s \<noteq> None"
  shows "\<exists>s1. send_telemetry w proto k s = Inr s1 \<and> keeps s s1 \<and>
    (not_sent s s1 \<or> (\<exists>q. sent q s s1)) \<and>
    (plenty (app_heap s) \<and> serializes w \<longrightarrow> (\<exists>q. sent q s s1 \<and> q \<noteq> []) \<and> plenty (app_heap s1))"
proof -
  let ?t = "sensors w k" and ?s1 = "s\<lparr>iterator := 0, myMouse := Some (sensors w k)\<rparr>" and ?pos = "msg_id s mod 5"
  obtain th where th: "mouseSettings s = Some th" using assms(2) by auto
  define propText where "propText = (if greater w (rotation ?t) th then ''true'' else ''false'')"
  have pt: "propText \<in> {''true'', ''false''}" by (simp add: propText_def)
  show ?thesis
  proof (cases "fst (serialize w ?t (app_heap s))")
    case None
    then obtain h1 where "serialize w ?t (app_heap s) = (None, h1)" by (metis prod.collapse)
    moreover from this have "\<not> (plenty (app_heap s) \<and> serializes w)" by (auto simp: serializes_def) (metis option.distinct(1) prod.inject)
    ultimately show ?thesis using assms(1) by (auto simp: send_telemetry_def Let_def keeps_def not_sent_def)
  next
    case (Some x)
    then obtain h1 where ser: "serialize w ?t (app_heap s) = (Some x, h1)" by (metis prod.collapse)
    have good: "plenty h1 \<and> length x < 2 ^ 31" if "plenty (app_heap s) \<and> serializes w"
      using that ser by (auto simp: serializes_def) (metis option.inject prod.inject)+
    obtain m h2 where m: "IoTHubMessage_CreateFromByteArray (Some x) (length x) h1 = Inr (m, h2)"
      "m = None \<or> (\<exists>b. m = Some ((blank_message (Byte_array b))\<lparr>properties := Some no_pairs\<rparr>) \<and> holds_bytes b x)"
      "plenty h1 \<and> length x < 2 ^ 31 \<longrightarrow> m \<noteq> None \<and> plenty h2" using CreateFromByteArray_run [of x h1] by blast
    show ?thesis
    proof (cases m)
      case None
      have "send_telemetry w proto k s =
          Inr (?s1\<lparr>messages := (messages s)[?pos := (messages s ! ?pos)\<lparr>messageHandle := None\<rparr>], app_heap := h2\<rparr>)"
        using assms(1) ser m(1) None by (simp add: send_telemetry_def Let_def)
      then show ?thesis using None good m(3) assms(1) by (auto simp: keeps_def not_sent_def)
    next
      case (Some d)
      with m(2) obtain b where b: "m = Some ((blank_message (Byte_array b))\<lparr>properties := Some no_pairs\<rparr>)" "holds_bytes b x" by auto
      let ?d = "(blank_message (Byte_array b))\<lparr>properties := Some no_pairs\<rparr>"
      obtain r m1 h3 ps where add: "Map_AddOrUpdate (Some no_pairs) (Some ''rotationAlert'') (Some propText) h2 = Inr (r, Some m1, h3)"
        "has_pairs m1 ps" "short_pairs ps" "plenty h2 \<longrightarrow> plenty h3" using alert_run [OF pt, of h2] by blast
      obtain d1 h4 where pr: "for_protocol proto (?d\<lparr>properties := Some m1\<rparr>) h3 = (d1, h4)" "msg_value d1 = Byte_array b"
        "properties d1 = Some m1" "plenty h3 \<longrightarrow> plenty h4 \<and> short_message d1"
        using for_protocol_run [of proto "?d\<lparr>properties := Some m1\<rparr>" h3] by (auto simp: blank_message_def short_message_def)
      let ?s2 = "?s1\<lparr>messages := (messages s)[?pos := \<lparr>messageHandle = Some (next_handle s), messageTrackingId = msg_id s\<rparr>],
        next_handle := next_handle s + 1, store := (store s)(next_handle s := Some d1), app_heap := h4\<rparr>"
      have v: "has_content (msg_value d1) (Inl x)" using pr(2) b(2) by simp
      obtain accepted q h5 where q: "IoTHubClientCore_LL_SendEventAsync d1 ?pos ?s2 = Inr (accepted, ?s2\<lparr>waitingToSend := waitingToSend ?s2 @ q, app_heap := h5\<rparr>)"
        "if accepted then \<exists>c. q = [(c, ?pos)] else q = []" "plenty h4 \<and> short_message d1 \<and> short_pairs ps \<longrightarrow> accepted \<and> plenty h5"
        using enqueue_run [OF v pr(3) add(2), of ?pos ?s2] by auto
      let ?s3 = "?s2\<lparr>waitingToSend := waitingToSend ?s2 @ q, app_heap := h5, msg_id := msg_id s + 1\<rparr>"
      have "send_telemetry w proto k s = Inr ?s3"
        using assms(1) th ser m(1) b(1) add(1) pr(1) q(1) by (simp add: send_telemetry_def Let_def propText_def)
      moreover have "keeps s ?s3" using assms(1) by (simp add: keeps_def)
      moreover have "sent q s ?s3" using q(2) by (auto simp: sent_def split: if_splits)
      moreover have "plenty (app_heap s) \<and> serializes w \<longrightarrow> q \<noteq> [] \<and> plenty h5" using good m(3) add(3,4) pr(4) q(2,3) by auto
      ultimately show ?thesis by (intro exI [of _ ?s3]) auto
    qed
  qed
qed

section \<open>What is delivered\<close>

text \<open>The callbacks leave the loop's variables alone, and only end the loop.\<close>

definition same_loop :: "'d app \<Rightarrow> 'd app \<Rightarrow> bool" where
  "same_loop s s1 \<longleftrightarrow> iterator s1 = iterator s \<and> msg_id s1 = msg_id s \<and> messages s1 = messages s \<and> next_handle s1 = next_handle s \<and>
    (g_continueRunning s1 \<longrightarrow> g_continueRunning s)"

lemma same_loop_refl: "same_loop s s" by (simp add: same_loop_def)

lemma same_loop_trans: "same_loop s s1 \<Longrightarrow> same_loop s1 s2 \<Longrightarrow> same_loop s s2" by (auto simp: same_loop_def)

lemma execute_method_same: "execute_method w name payload s = (r, s1) \<Longrightarrow>
    same_loop s s1 \<and> store s1 = store s \<and> waitingToSend s1 = waitingToSend s"
  by (auto simp: execute_method_def quit_def turnLedOn_def turnLedOff_def same_loop_def split: if_splits prod.splits)

lemma method_same: "ReceiveDeviceMethodCallback w name payload s = Inr (r, resp, s1) \<Longrightarrow>
    same_loop s s1 \<and> store s1 = store s \<and> waitingToSend s1 = waitingToSend s"
  by (auto simp: ReceiveDeviceMethodCallback_def c_outcome same_loop_def split: prod.splits option.splits
      dest!: execute_method_same)

lemma received_same: "same_loop s (ReceiveMessageCallback m s) \<and> store (ReceiveMessageCallback m s) = store s \<and>
    waitingToSend (ReceiveMessageCallback m s) = waitingToSend s"
  by (simp add: ReceiveMessageCallback_def same_loop_def Let_def split: prod.split option.split IOTHUB_MESSAGE_RESULT.split)

lemma deliver_same:
  assumes "deliver w e s = Inr s1"
  shows "same_loop s s1"
proof (cases e)
  case (Confirmed i)
  with assms show ?thesis
    by (auto simp: deliver_def SendConfirmationCallback_def IoTHubMessage_Destroy_def same_loop_def split: if_splits option.splits)
next
  case (Received m)
  with assms received_same [of s m] show ?thesis by (simp add: deliver_def)
next
  case (Called name payload)
  with assms show ?thesis by (auto simp: deliver_def c_outcome dest!: method_same)
next
  case (Desired_threshold v)
  with assms show ?thesis by (auto simp: deliver_def onDesiredThreshold_def same_loop_def split: if_splits)
qed

lemma deliver_all_same: "deliver_all w es s = Inr s1 \<Longrightarrow> same_loop s s1"
proof (induction es arbitrary: s)
  case (Cons e es)
  then obtain s2 where "deliver w e s = Inr s2" "deliver_all w es s2 = Inr s1" by (auto simp: c_outcome)
  with Cons.IH deliver_same same_loop_trans show ?case by blast
qed (simp add: same_loop_refl)

section \<open>When messages are sent\<close>

text \<open>The state before a round; the loop ends only after one.\<close>

inductive reaches :: "'d world \<Rightarrow> nat \<Rightarrow> 'd app \<Rightarrow> nat \<Rightarrow> 'd app \<Rightarrow> bool" for w proto s0 where
  start: "reaches w proto s0 0 s0"
| round: "reaches w proto s0 k s \<Longrightarrow> g_continueRunning s \<Longrightarrow> round_of_loop w proto k s = Inr s1 \<Longrightarrow> reaches w proto s0 (k + 1) s1"

definition iterator_at :: "nat \<Rightarrow> nat" where
  "iterator_at k = (if k \<le> 1000 then 4000 + k else (k - 1001) mod 5000 + 1)"

lemma iterator_at_late: "iterator_at (j + 1001) = j mod 5000 + 1"
  by (simp add: iterator_at_def)

lemma late: "\<not> k \<le> 1000 \<Longrightarrow> \<exists>j. k = j + 1001" for k :: nat
  by (rule exI [of _ "k - 1001"]) simp

lemma iterator_at_next: "iterator_at (k + 1) = (if iterator_at k \<ge> 5000 then 1 else iterator_at k + 1)"
proof (cases "k \<le> 1000")
  case True
  then show ?thesis by (cases "k = 1000") (simp_all add: iterator_at_def)
next
  case False
  then obtain j where j: "k = j + 1001" using late by blast
  have "k + 1 = (j + 1) + 1001" using j by simp
  then have "iterator_at (k + 1) = (j + 1) mod 5000 + 1" by (simp only: iterator_at_late)
  also have "(j + 1) mod 5000 = (if j mod 5000 = 4999 then 0 else j mod 5000 + 1)" using mod_Suc [of j 5000] by simp
  moreover have "j mod 5000 < 5000" by simp
  ultimately show ?thesis unfolding j iterator_at_late by (auto split: if_splits)
qed

lemma sends_at: "iterator_at k \<ge> 5000 \<longleftrightarrow> k mod 5000 = 1000"
proof (cases "k \<le> 1000")
  case True
  then have "k mod 5000 = k" by simp
  then show ?thesis using True by (auto simp: iterator_at_def)
next
  case False
  then obtain j where j: "k = j + 1001" using late by blast
  define r where "r = j mod 5000"
  have r: "r < 5000" by (simp add: r_def)
  have "(j + 1001) mod 5000 = (r + 1001) mod 5000" unfolding r_def by (rule mod_add_left_eq [symmetric])
  also have "\<dots> = (if r + 1001 < 5000 then r + 1001 else r + 1001 - 5000)" using r by (simp add: mod_if)
  finally show ?thesis using r unfolding j iterator_at_late r_def [symmetric] by auto
qed

lemma attempts: "(k + 1 + 3999) div 5000 = (k + 3999) div 5000 + (if k mod 5000 = 1000 then 1 else 0)" for k :: nat
proof -
  define q r where "q = k div 5000" and "r = k mod 5000"
  have k: "k = r + q * 5000" and r: "r < 5000" by (simp_all add: q_def r_def)
  have "(r + q * 5000 + c) div 5000 = q + (if r + c < 5000 then 0 else 1)" if "c \<le> 5000" for c
  proof -
    have "(r + q * 5000 + c) div 5000 = (r + c + q * 5000) div 5000" by (simp only: ac_simps)
    also have "\<dots> = q + (r + c) div 5000" by (rule div_mult_self1) simp
    also have "(r + c) div 5000 = (if r + c < 5000 then 0 else 1)"
    proof -
      have "r + c - 5000 < 5000" using r that by linarith
      then show ?thesis by (simp add: div_if)
    qed
    finally show ?thesis .
  qed
  from this [of 4000] this [of 3999] r show ?thesis unfolding r_def [symmetric] by (subst (1 2) k) (auto simp: add.assoc)
qed

lemma report_twin_run: "report_twin s = Inr s1 \<Longrightarrow> iterator s1 = iterator s \<and> g_continueRunning s1 = g_continueRunning s \<and>
    msg_id s1 = msg_id s \<and> messages s1 = messages s \<and> store s1 = store s \<and> next_handle s1 = next_handle s \<and> waitingToSend s1 = waitingToSend s"
  by (auto simp: report_twin_def split: option.splits)

lemma send_without:
  assumes "myMouse s = None \<or> mouseSettings s = None"
  shows "send_telemetry w proto k s = Inl Null_pointer \<or> (\<exists>s1. send_telemetry w proto k s = Inr s1 \<and> keeps s s1 \<and> not_sent s s1)"
proof (cases "myMouse s")
  case None
  then show ?thesis by (simp add: send_telemetry_def Let_def)
next
  case (Some mouse)
  with assms have n: "mouseSettings s = None" by simp
  obtain x h1 where ser: "serialize w (sensors w k) (app_heap s) = (x, h1)" by fastforce
  show ?thesis
  proof (cases x)
    case None
    with Some ser show ?thesis by (simp add: send_telemetry_def Let_def keeps_def not_sent_def)
  next
    case t: (Some t)
    obtain r h2 where r: "IoTHubMessage_CreateFromByteArray (Some t) (length t) h1 = Inr (r, h2)" using CreateFromByteArray_run [of t h1] by blast
    then show ?thesis using Some n ser t by (cases r) (simp_all add: send_telemetry_def Let_def keeps_def not_sent_def)
  qed
qed

lemma send_cases:
  "send_telemetry w proto k s = Inl Null_pointer \<or> (\<exists>s1. send_telemetry w proto k s = Inr s1 \<and> keeps s s1 \<and> (not_sent s s1 \<or> (\<exists>q. sent q s s1)))"
  using send_without [of s w proto k] send_run [of s w proto k] by blast

lemma send_effect: "send_telemetry w proto k s = Inr s1 \<Longrightarrow> keeps s s1 \<and> (not_sent s s1 \<or> (\<exists>q. sent q s s1))"
  using send_cases [of w proto k s] by auto

lemma send_part_run:
  assumes "send_part w proto k s = Inr s1"
  shows "iterator s1 = (if iterator s \<ge> 5000 then 0 else iterator s) \<and> g_continueRunning s1 = g_continueRunning s \<and>
    (msg_id s1 = msg_id s \<or> iterator s \<ge> 5000 \<and> msg_id s1 = msg_id s + 1)"
proof (cases "iterator s \<ge> 5000")
  case True
  with assms send_effect [of w proto k s s1] show ?thesis by (auto simp: send_part_def keeps_def not_sent_def sent_def)
next
  case False
  with assms report_twin_run [of s s1] show ?thesis by (auto simp: send_part_def split: if_splits)
qed

lemma round_run:
  assumes "round_of_loop w proto k s = Inr s1"
  shows "iterator s1 = (if iterator s \<ge> 5000 then 1 else iterator s + 1) \<and>
    (msg_id s1 = msg_id s \<or> iterator s \<ge> 5000 \<and> msg_id s1 = msg_id s + 1)"
proof -
  obtain s2 where s2: "send_part w proto k s = Inr s2" "deliver_all w (incoming w k) (s2\<lparr>iterator := iterator s2 + 1\<rparr>) = Inr s1"
    using assms by (auto simp: round_of_loop_def c_outcome)
  from send_part_run [OF s2(1)] deliver_all_same [OF s2(2)] show ?thesis by (auto simp: same_loop_def)
qed

lemma reached_round:
  assumes "reaches w proto s0 k s" "iterator s0 = 4000"
  shows "iterator s = iterator_at k \<and> msg_id s \<le> msg_id s0 + (k + 3999) div 5000"
  using assms
proof (induction rule: reaches.induct)
  case start
  then show ?case by (simp add: iterator_at_def)
next
  case (round k s s1)
  then have it: "iterator s = iterator_at k" and id: "msg_id s \<le> msg_id s0 + (k + 3999) div 5000" by simp_all
  from round_run [OF round.hyps(3)] it have it1: "iterator s1 = iterator_at (k + 1)" unfolding iterator_at_next by simp
  have "msg_id s1 \<le> msg_id s + (if k mod 5000 = 1000 then 1 else 0)"
    using round_run [OF round.hyps(3)] it sends_at [of k] by auto
  then show ?case using it1 id unfolding attempts by simp
qed

text \<open>
  Claim C22. Telemetry is sent at a fixed rate: whatever is delivered and whatever fails, the loop attempts to send
  in exactly the rounds 1000, 6000, 11000, ..., so that no more messages than one
  for each 5000 rounds, the first after 1000, have been made when a round begins.
\<close>

theorem telemetry_rate:
  assumes "reaches w proto s0 k s" "iterator s0 = 4000"
  shows "(send_part w proto k s = (if k mod 5000 = 1000 then send_telemetry w proto k s else if g_twinReport s then report_twin s else Inr s)) \<and>
    msg_id s \<le> msg_id s0 + (k + 3999) div 5000"
  using reached_round [OF assms] sends_at [of k] by (auto simp: send_part_def)

section \<open>What ends the loop\<close>

lemma quit_received:
  assumes "deliver_all w es s = Inr s1" "Received m \<in> set es" "IoTHubMessage_GetByteArray (Some m) = (IOTHUB_MESSAGE_OK, Some (Some (map byte_of ''quit''), 4))"
  shows "\<not> g_continueRunning s1"
  using assms(1,2)
proof (induction es arbitrary: s)
  case (Cons e es)
  then obtain s2 where s2: "deliver w e s = Inr s2" "deliver_all w es s2 = Inr s1" by (auto simp: c_outcome)
  show ?case
  proof (cases "e = Received m")
    case True
    then have "\<not> g_continueRunning s2" using s2(1) assms(3) by (auto simp: deliver_def ReceiveMessageCallback_def Let_def)
    then show ?thesis using deliver_all_same [OF s2(2)] by (auto simp: same_loop_def)
  next
    case False
    with Cons s2(2) show ?thesis by auto
  qed
qed simp

text \<open>
  Claim C17. The message quit ends the program's loop in the round that delivers it: after a round in
  which a message is received whose content is the four bytes of quit, the loop does not begin another
  round, whatever else was delivered in that round before or after it.
\<close>

theorem quit_message_ends:
  assumes "round_of_loop w proto k s = Inr s1" "Received m \<in> set (incoming w k)"
    "IoTHubMessage_GetByteArray (Some m) = (IOTHUB_MESSAGE_OK, Some (Some (map byte_of ''quit''), 4))"
  shows "telemetry_loop (Suc n) w proto k s = Inr (k + 1, True, s1)"
proof -
  obtain s2 where "deliver_all w (incoming w k) (s2\<lparr>iterator := iterator s2 + 1\<rparr>) = Inr s1"
    using assms(1) by (auto simp: round_of_loop_def c_outcome)
  from quit_received [OF this assms(2,3)] assms(1) show ?thesis by simp
qed

section \<open>The slots\<close>

text \<open>
  Every message the client still has was given a slot of its own, and its handle is in its slot and alive.
\<close>

definition in_flight :: "'d app \<Rightarrow> nat list" where
  "in_flight s = map snd (waitingToSend s)"

definition handle_in :: "'d app \<Rightarrow> nat \<Rightarrow> nat option" where
  "handle_in s slot = messageHandle (messages s ! slot)"

definition slots_ok :: "'d app \<Rightarrow> bool" where
  "slots_ok s \<longleftrightarrow> length (messages s) = 5 \<and> distinct (in_flight s) \<and>
    (\<forall>slot\<in>set (in_flight s). slot < 5 \<and> (\<exists>m. handle_in s slot = Some m \<and> store s m \<noteq> None \<and> m < next_handle s)) \<and>
    (\<forall>a\<in>set (in_flight s). \<forall>b\<in>set (in_flight s). handle_in s a = handle_in s b \<longrightarrow> a = b)"

lemma slots_okD:
  assumes "slots_ok s" "a \<in> set (in_flight s)"
  shows "a < 5" "\<exists>m. handle_in s a = Some m \<and> store s m \<noteq> None \<and> m < next_handle s"
    "b \<in> set (in_flight s) \<Longrightarrow> handle_in s a = handle_in s b \<Longrightarrow> a = b"
  using assms by (simp_all add: slots_ok_def)

lemma slots_same:
  assumes "slots_ok s" "messages s1 = messages s" "store s1 = store s" "waitingToSend s1 = waitingToSend s" "next_handle s1 = next_handle s"
  shows "slots_ok s1"
  using assms by (simp add: slots_ok_def in_flight_def handle_in_def)

text \<open>A confirmation finds its message alive.\<close>

lemma confirmed_slots:
  assumes "slots_ok s" "i < length (waitingToSend s)"
  shows "\<exists>s1. deliver w (Confirmed i) s = Inr s1 \<and> slots_ok s1"
proof -
  let ?q = "waitingToSend s" and ?slot = "snd (waitingToSend s ! i)"
  let ?q1 = "take i ?q @ drop (i + 1) ?q"
  have split: "?q = take i ?q @ ?q ! i # drop (i + 1) ?q" using assms(2) by (simp add: id_take_nth_drop)
  have slot: "?slot \<in> set (in_flight s)" using assms(2) by (simp add: in_flight_def)
  then obtain m where m: "handle_in s ?slot = Some m" "store s m \<noteq> None" using assms(1) by (auto simp: slots_ok_def)
  have fl: "in_flight s = map snd (take i ?q) @ ?slot # map snd (drop (i + 1) ?q)"
    unfolding in_flight_def by (subst split) simp
  let ?s1 = "s\<lparr>waitingToSend := ?q1, callbackCounter := callbackCounter s + 1, store := (store s)(m := None)\<rparr>"
  have run: "deliver w (Confirmed i) s = Inr ?s1"
    using m assms(2) by (auto simp: deliver_def SendConfirmationCallback_def IoTHubMessage_Destroy_def handle_in_def)
  have fl1: "in_flight ?s1 = map snd (take i ?q) @ map snd (drop (i + 1) ?q)" by (simp add: in_flight_def)
  have dist: "distinct (in_flight s)" using assms(1) by (simp add: slots_ok_def)
  have d: "distinct (in_flight ?s1)" "?slot \<notin> set (in_flight ?s1)" using dist unfolding fl fl1 by auto
  have d3: "set (in_flight ?s1) \<subseteq> set (in_flight s)" unfolding fl fl1 by auto
  have h: "handle_in ?s1 = handle_in s" by (simp add: handle_in_def fun_eq_iff)
  have other: "handle_in s a \<noteq> Some m" if "a \<in> set (in_flight ?s1)" for a
  proof
    have a: "a \<in> set (in_flight s)" using that d3 by (rule subsetD [rotated])
    assume "handle_in s a = Some m"
    then have "handle_in s a = handle_in s ?slot" using m(1) by simp
    then have "a = ?slot" by (rule slots_okD(3) [OF assms(1) a slot])
    with that d(2) show False by simp
  qed
  have old: "a \<in> set (in_flight s)" if "a \<in> set (in_flight ?s1)" for a using that d3 by (rule subsetD [rotated])
  have "slots_ok ?s1" unfolding slots_ok_def h
  proof (intro conjI ballI impI)
    show "length (messages ?s1) = 5" "distinct (in_flight ?s1)" using assms(1) d(1) by (simp_all add: slots_ok_def)
    fix a assume a: "a \<in> set (in_flight ?s1)"
    show "a < 5" by (rule slots_okD(1) [OF assms(1) old [OF a]])
    obtain n where "handle_in s a = Some n" "store s n \<noteq> None" "n < next_handle s" using slots_okD(2) [OF assms(1) old [OF a]] by blast
    with other [OF a] show "\<exists>n. handle_in s a = Some n \<and> store ?s1 n \<noteq> None \<and> n < next_handle ?s1" by auto
    fix b assume b: "b \<in> set (in_flight ?s1)" "handle_in s a = handle_in s b"
    show "a = b" by (rule slots_okD(3) [OF assms(1) old [OF a] old [OF b(1)] b(2)])
  qed
  with run show ?thesis by blast
qed

lemma deliver_slots:
  assumes "slots_ok s"
  shows "(\<forall>s1. deliver w e s = Inr s1 \<longrightarrow> slots_ok s1) \<and> deliver w e s \<noteq> Inl Freed_pointer"
proof (cases e)
  case (Confirmed i)
  then show ?thesis using confirmed_slots [OF assms, of i w] assms
    by (cases "i < length (waitingToSend s)") (auto simp: deliver_def)
next
  case (Received m)
  then show ?thesis using slots_same [OF assms, of "ReceiveMessageCallback m s"] received_same [of s m]
    by (simp add: deliver_def same_loop_def)
next
  case (Called name payload)
  have "deliver w e s \<noteq> Inl Freed_pointer"
    by (auto simp: Called deliver_def c_outcome ReceiveDeviceMethodCallback_def write_at_def split: prod.splits option.splits if_splits)
  then show ?thesis using slots_same [OF assms] Called by (auto simp: deliver_def c_outcome same_loop_def dest!: method_same)
next
  case (Desired_threshold v)
  then show ?thesis using slots_same [OF assms, of "s\<lparr>mouseSettings := Some v, g_twinReport := True\<rparr>"] assms
    by (simp add: deliver_def onDesiredThreshold_def)
qed

lemma deliver_all_slots:
  "slots_ok s \<Longrightarrow> (\<forall>s1. deliver_all w es s = Inr s1 \<longrightarrow> slots_ok s1) \<and> deliver_all w es s \<noteq> Inl Freed_pointer"
proof (induction es arbitrary: s)
  case (Cons e es)
  show ?case
  proof (cases "deliver w e s")
    case (Inl u)
    with deliver_slots [OF Cons.prems, of w e] show ?thesis by simp
  next
    case (Inr s1)
    with deliver_slots [OF Cons.prems, of w e] Cons.IH [of s1] show ?thesis by simp
  qed
qed simp

text \<open>Sending into a slot that no message of the client has.\<close>

lemma sent_slots:
  assumes "slots_ok s" "sent q s s1" "msg_id s mod 5 \<notin> set (in_flight s)"
  shows "slots_ok s1"
proof -
  let ?pos = "msg_id s mod 5"
  obtain d where st: "store s1 = (store s)(next_handle s := Some d)" and nx: "next_handle s1 = next_handle s + 1"
    and m: "messages s1 = (messages s)[?pos := \<lparr>messageHandle = Some (next_handle s), messageTrackingId = msg_id s\<rparr>]"
    and w: "waitingToSend s1 = waitingToSend s @ q" "q = [] \<or> (\<exists>c. q = [(c, ?pos)])"
    using assms(2) by (auto simp: sent_def)
  have len: "length (messages s) = 5" using assms(1) by (simp add: slots_ok_def)
  have h: "handle_in s1 a = (if a = ?pos then Some (next_handle s) else handle_in s a)" for a
    using len by (simp add: handle_in_def m nth_list_update)
  have fl: "in_flight s1 = in_flight s \<or> in_flight s1 = in_flight s @ [?pos]" using w by (auto simp: in_flight_def)
  have old: "a \<noteq> ?pos" "a < 5" "\<exists>n. handle_in s a = Some n \<and> store s n \<noteq> None \<and> n < next_handle s" if "a \<in> set (in_flight s)" for a
    using that assms(1,3) by (auto simp: slots_ok_def)
  have inj: "a = b" if "a \<in> set (in_flight s)" "b \<in> set (in_flight s)" "handle_in s a = handle_in s b" for a b
    using that assms(1) by (simp add: slots_ok_def)
  have sub: "set (in_flight s1) \<subseteq> insert ?pos (set (in_flight s))" using fl by auto
  show ?thesis unfolding slots_ok_def
  proof (intro conjI ballI impI)
    show "length (messages s1) = 5" using len m by simp
    show "distinct (in_flight s1)" using fl assms(1,3) by (auto simp: slots_ok_def)
    fix a assume a: "a \<in> set (in_flight s1)"
    show "a < 5" using a sub old(2) by auto
    show "\<exists>n. handle_in s1 a = Some n \<and> store s1 n \<noteq> None \<and> n < next_handle s1"
    proof (cases "a = ?pos")
      case False
      with a sub have "a \<in> set (in_flight s)" by auto
      from old(3) [OF this] obtain n where "handle_in s a = Some n" "store s n \<noteq> None" "n < next_handle s" by blast
      with False show ?thesis by (intro exI [of _ n]) (simp add: h st nx)
    qed (simp add: h st nx)
    fix b assume b: "b \<in> set (in_flight s1)" "handle_in s1 a = handle_in s1 b"
    have fresh: "handle_in s c \<noteq> Some (next_handle s)" if "c \<in> set (in_flight s)" for c using old(3) [OF that] by auto
    show "a = b" using a b sub h fresh inj by (auto split: if_splits) (metis insertE subsetD)+
  qed
qed

lemma not_sent_slots:
  assumes "slots_ok s" "not_sent s s1" "msg_id s mod 5 \<notin> set (in_flight s)"
  shows "slots_ok s1"
proof -
  have len: "length (messages s) = 5" and fl: "in_flight s1 = in_flight s" using assms(1,2) by (simp_all add: slots_ok_def not_sent_def in_flight_def)
  have "handle_in s1 a = handle_in s a" if "a \<in> set (in_flight s)" for a
  proof -
    have "a \<noteq> msg_id s mod 5" using that assms(3) by auto
    then show ?thesis using assms(2) by (auto simp: not_sent_def handle_in_def)
  qed
  then show ?thesis using assms(1,2) fl len by (auto simp: slots_ok_def not_sent_def)
qed

lemma send_part_slots:
  assumes "slots_ok s" "iterator s \<ge> 5000 \<longrightarrow> msg_id s mod 5 \<notin> set (in_flight s)"
  shows "(\<forall>s1. send_part w proto k s = Inr s1 \<longrightarrow> slots_ok s1) \<and> send_part w proto k s \<noteq> Inl Freed_pointer"
proof (cases "iterator s \<ge> 5000")
  case True
  have "send_telemetry w proto k s \<noteq> Inl Freed_pointer" using send_cases [of w proto k s] by auto
  then show ?thesis using True send_effect [of w proto k s] sent_slots [OF assms(1)] not_sent_slots [OF assms(1)] assms(2)
    by (auto simp: send_part_def)
next
  case False
  have "report_twin s \<noteq> Inl Freed_pointer" by (simp add: report_twin_def split: option.split)
  then show ?thesis using False slots_same [OF assms(1)] report_twin_run [of s] assms(1) by (auto simp: send_part_def)
qed

lemma round_slots:
  assumes "slots_ok s" "iterator s \<ge> 5000 \<longrightarrow> msg_id s mod 5 \<notin> set (in_flight s)"
  shows "(\<forall>s1. round_of_loop w proto k s = Inr s1 \<longrightarrow> slots_ok s1) \<and> round_of_loop w proto k s \<noteq> Inl Freed_pointer"
proof (cases "send_part w proto k s")
  case (Inl u)
  with send_part_slots [OF assms, of w proto k] show ?thesis by (simp add: round_of_loop_def)
next
  case (Inr s1)
  with send_part_slots [OF assms, of w proto k] have "slots_ok s1" by simp
  then have "slots_ok (s1\<lparr>iterator := iterator s1 + 1\<rparr>)" by (rule slots_same) simp_all
  from deliver_all_slots [OF this, of w "incoming w k"] Inr show ?thesis by (simp add: round_of_loop_def)
qed

text \<open>
  Claim C5. While no slot is given to a second message before the first is confirmed, the program never destroys a message twice: if
  in every round that sends, the slot of the next message belongs to no message the client still has,
  no round reaches freed storage, whatever is delivered in whatever order; and every
  message that is in the client's hands has a slot of its own that holds its live handle.
\<close>

theorem confirmed_once:
  assumes "reaches w proto s0 k s" "slots_ok s0" "iterator s0 = 4000"
    "\<forall>j t. reaches w proto s0 j t \<and> j mod 5000 = 1000 \<longrightarrow> msg_id t mod 5 \<notin> set (in_flight t)"
  shows "slots_ok s \<and> round_of_loop w proto k s \<noteq> Inl Freed_pointer"
proof -
  have free: "iterator t \<ge> 5000 \<longrightarrow> msg_id t mod 5 \<notin> set (in_flight t)" if "reaches w proto s0 j t" for j t
    using assms(4) that reached_round [OF that assms(3)] sends_at [of j] by auto
  have "slots_ok s" using assms(1)
  proof (induction rule: reaches.induct)
    case start
    show ?case by (rule assms(2))
  next
    case (round k s s1)
    with round_slots [OF round.IH free [OF round.hyps(1)], of w proto k] show ?case by blast
  qed
  with round_slots [OF this free [OF assms(1)], of w proto k] show ?thesis by blast
qed

section \<open>A slot given twice\<close>

text \<open>The state when nothing has been delivered: message \<open>i\<close> is in slot \<open>i mod 5\<close>, the last one alive.\<close>

definition quiet_state :: "nat \<Rightarrow> 'd app \<Rightarrow> bool" where
  "quiet_state k s \<longleftrightarrow> iterator s = iterator_at k \<and> msg_id s = (k + 3999) div 5000 \<and> next_handle s = msg_id s \<and>
    in_flight s = map (\<lambda>i. i mod 5) [0..<msg_id s] \<and> length (messages s) = 5 \<and>
    (0 < msg_id s \<longrightarrow> handle_in s ((msg_id s - 1) mod 5) = Some (msg_id s - 1) \<and> store s (msg_id s - 1) \<noteq> None) \<and>
    plenty (app_heap s) \<and> myMouse s \<noteq> None \<and> mouseSettings s \<noteq> None \<and> g_continueRunning s \<and> \<not> g_twinReport s"

lemma quiet_round:
  assumes "quiet_state k s" "serializes w" "incoming w k = []"
  shows "\<exists>s1. round_of_loop w proto k s = Inr s1 \<and> quiet_state (k + 1) s1"
proof (cases "k mod 5000 = 1000")
  case True
  then have it: "iterator s \<ge> 5000" using assms(1) sends_at [of k] by (simp add: quiet_state_def)
  obtain s1 q where s1: "send_telemetry w proto k s = Inr s1" "keeps s s1" "sent q s s1" "q \<noteq> []" "plenty (app_heap s1)"
    using send_run [of s w proto k] assms(1,2) unfolding quiet_state_def by blast
  let ?s = "s1\<lparr>iterator := iterator s1 + 1\<rparr>"
  have run: "round_of_loop w proto k s = Inr ?s" using it s1(1) assms(3) by (simp add: round_of_loop_def send_part_def)
  have id: "msg_id s1 = msg_id s + 1" "next_handle s1 = msg_id s1" "msg_id s1 = (k + 1 + 3999) div 5000"
    using s1(3) assms(1) True unfolding attempts by (auto simp: sent_def quiet_state_def)
  have fl: "in_flight ?s = map (\<lambda>i. i mod 5) [0..<msg_id s1]"
    using s1(3,4) assms(1) by (auto simp: sent_def quiet_state_def in_flight_def)
  have len: "length (messages s1) = 5" using s1(3) assms(1) by (simp add: sent_def quiet_state_def)
  have last: "handle_in ?s ((msg_id ?s - 1) mod 5) = Some (msg_id ?s - 1)" "store ?s (msg_id ?s - 1) \<noteq> None"
    using s1(3) assms(1) by (auto simp: sent_def quiet_state_def handle_in_def)
  have "iterator ?s = (if iterator_at k \<ge> 5000 then 1 else iterator_at k + 1)" using s1(2) it assms(1) by (simp add: keeps_def quiet_state_def)
  then have i: "iterator ?s = iterator_at (k + 1)" unfolding iterator_at_next .
  have rest: "plenty (app_heap ?s)" "myMouse ?s \<noteq> None" "mouseSettings ?s \<noteq> None" "g_continueRunning ?s" "\<not> g_twinReport ?s"
    "length (messages ?s) = 5" "next_handle ?s = msg_id ?s" "msg_id ?s = (k + 1 + 3999) div 5000" "in_flight ?s = map (\<lambda>i. i mod 5) [0..<msg_id ?s]"
    using s1(2,5) len id(2,3) fl assms(1) by (simp_all add: keeps_def quiet_state_def)
  have "quiet_state (k + 1) ?s" unfolding quiet_state_def by (intro conjI impI) (rule i last rest)+
  with run show ?thesis by blast
next
  case False
  then have it: "\<not> iterator s \<ge> 5000" using assms(1) sends_at [of k] by (simp add: quiet_state_def)
  let ?s = "s\<lparr>iterator := iterator s + 1\<rparr>"
  have run: "round_of_loop w proto k s = Inr ?s" using it assms(1,3) by (simp add: round_of_loop_def send_part_def quiet_state_def)
  have i: "iterator ?s = iterator_at (k + 1)" using it assms(1) unfolding iterator_at_next by (simp add: quiet_state_def)
  have id: "msg_id ?s = (k + 1 + 3999) div 5000" using False assms(1) unfolding attempts by (simp add: quiet_state_def)
  have same: "handle_in ?s = handle_in s" "in_flight ?s = in_flight s" by (simp_all add: handle_in_def in_flight_def fun_eq_iff)
  have rest: "next_handle ?s = msg_id ?s" "in_flight ?s = map (\<lambda>i. i mod 5) [0..<msg_id ?s]" "length (messages ?s) = 5"
    "0 < msg_id ?s \<Longrightarrow> handle_in ?s ((msg_id ?s - 1) mod 5) = Some (msg_id ?s - 1)" "0 < msg_id ?s \<Longrightarrow> store ?s (msg_id ?s - 1) \<noteq> None"
    "plenty (app_heap ?s)" "myMouse ?s \<noteq> None" "mouseSettings ?s \<noteq> None" "g_continueRunning ?s" "\<not> g_twinReport ?s"
    using assms(1) unfolding quiet_state_def same by auto
  have "quiet_state (k + 1) ?s" unfolding quiet_state_def by (intro conjI impI) (rule i id rest | assumption)+
  with run show ?thesis by blast
qed

lemma quiet_loop:
  assumes "quiet_state 0 s0" "serializes w" "\<forall>j<k. incoming w j = []"
  shows "\<exists>s. quiet_state k s \<and> (\<forall>n. telemetry_loop (k + n) w proto 0 s0 = telemetry_loop n w proto k s)"
  using assms(3)
proof (induction k)
  case 0
  with assms(1) show ?case by auto
next
  case (Suc k)
  then obtain s where s: "quiet_state k s" "\<forall>n. telemetry_loop (k + n) w proto 0 s0 = telemetry_loop n w proto k s" by auto
  obtain s1 where s1: "round_of_loop w proto k s = Inr s1" "quiet_state (k + 1) s1" using quiet_round [OF s(1) assms(2)] Suc.prems by blast
  have "telemetry_loop (Suc k + n) w proto 0 s0 = telemetry_loop n w proto (k + 1) s1" for n
  proof -
    have "telemetry_loop (Suc k + n) w proto 0 s0 = telemetry_loop (Suc n) w proto k s" using s(2) [rule_format, of "Suc n"] by simp
    then show ?thesis using s1 by (simp add: quiet_state_def)
  qed
  with s1(2) show ?case by auto
qed

text \<open>Two messages of the client that have the same slot.\<close>

lemma destroyed_twice:
  assumes "waitingToSend s ! 0 = (c, slot)" "waitingToSend s ! Suc i = (d, slot)" "Suc i < length (waitingToSend s)" "handle_in s slot = Some m"
  shows "deliver_all w [Confirmed 0, Confirmed i] s = Inl Freed_pointer"
proof (cases "store s m")
  case None
  with assms show ?thesis
    by (auto simp: deliver_def SendConfirmationCallback_def IoTHubMessage_Destroy_def handle_in_def)
next
  case (Some x)
  let ?s1 = "s\<lparr>waitingToSend := drop 1 (waitingToSend s), callbackCounter := callbackCounter s + 1, store := (store s)(m := None)\<rparr>"
  have "deliver w (Confirmed 0) s = Inr ?s1"
    using assms Some by (auto simp: deliver_def SendConfirmationCallback_def IoTHubMessage_Destroy_def handle_in_def)
  moreover have "deliver w (Confirmed i) ?s1 = Inl Freed_pointer"
    using assms by (auto simp: deliver_def SendConfirmationCallback_def IoTHubMessage_Destroy_def handle_in_def)
  ultimately show ?thesis by simp
qed

text \<open>
  Claim C6. The sixth unconfirmed message makes the program destroy a message twice: when everything works but
  the hub confirms nothing for 26001 rounds and then confirms the first and the sixth message, the
  first confirmation destroys the sixth message, whose slot is that of the first, and the second
  destroys it again: the loop runs into freed storage, and the first message is never destroyed.
\<close>

theorem sixth_message_destroyed_twice:
  assumes "serializes w" "\<forall>k<26001. incoming w k = []" "incoming w 26001 = [Confirmed 0, Confirmed 4]" "plenty h" "26002 \<le> n"
  shows "telemetry_loop n w proto 0 (start_app False led (Some mouse) (Some threshold) st h) = Inl Freed_pointer"
proof -
  let ?s0 = "start_app False led (Some mouse) (Some threshold) st h"
  have "quiet_state 0 ?s0" using assms(4) by (simp add: quiet_state_def start_app_def iterator_at_def in_flight_def)
  from quiet_loop [OF this assms(1,2)]
  obtain s where s: "quiet_state 26001 s" "\<forall>n. telemetry_loop (26001 + n) w proto 0 ?s0 = telemetry_loop n w proto 26001 s" by blast
  have six: "msg_id s = 6" and it: "iterator s = 1" "\<not> g_twinReport s" using s(1) by (simp_all add: quiet_state_def iterator_at_def)
  have "map snd (waitingToSend s) = [0, 1, 2, 3, 4, 0]" using s(1) six by (simp add: quiet_state_def in_flight_def upt_rec)
  then obtain c0 c1 c2 c3 c4 c5 where q: "waitingToSend s = [(c0, 0), (c1, 1), (c2, 2), (c3, 3), (c4, 4), (c5, 0)]" by auto
  have m: "handle_in s 0 = Some 5" using s(1) six by (simp add: quiet_state_def)
  have n: "n = 26001 + Suc (n - 26002)" using assms(5) by simp
  have "deliver_all w (incoming w 26001) (s\<lparr>iterator := iterator s + 1\<rparr>) = Inl Freed_pointer"
    unfolding assms(3) by (rule destroyed_twice [of _ c0 0 4 c5 5]) (use q m in \<open>simp_all add: handle_in_def\<close>)
  then have "round_of_loop w proto 26001 s = Inl Freed_pointer" using it by (simp add: round_of_loop_def send_part_def)
  then have "telemetry_loop (Suc (n - 26002)) w proto 26001 s = Inl Freed_pointer" by simp
  then show ?thesis using s(2) n by metis
qed

section \<open>Examples\<close>

definition example_world :: "(nat \<Rightarrow> nat event list) \<Rightarrow> nat world" where
  "example_world delivered = \<lparr>greater = (\<lambda>a b. b < a), serialize = (\<lambda>t h. (Some [1], h)), finds_method = (\<lambda>_ _. True),
    sensors = (\<lambda>k. \<lparr>distance = k, rotation = 2, clickCount = 0\<rparr>), incoming = delivered\<rparr>"

abbreviation example_app :: "nat app" where
  "example_app \<equiv> start_app False 0 (Some \<lparr>distance = 0, rotation = 0, clickCount = 0\<rparr>) (Some 1) None junk_mem"

lemma example_serializes: "serializes (example_world delivered)"
  by (simp add: serializes_def example_world_def)

definition quit_message :: IOTHUB_MESSAGE_HANDLE_DATA where
  "quit_message = blank_message (Byte_array (Some \<lparr>buffer = Some (map byte_of ''quit''), bsize = 4\<rparr>))"

lemma quit_message_bytes: "IoTHubMessage_GetByteArray (Some quit_message) = (IOTHUB_MESSAGE_OK, Some (Some (map byte_of ''quit''), 4))"
  by (simp add: quit_message_def blank_message_def IoTHubMessage_GetByteArray_def BUFFER_u_char_def BUFFER_length_def)

lemma quit_message_ends_witness:
  "\<exists>s1. telemetry_loop 7 (example_world (\<lambda>_. [Received quit_message])) 1 0 example_app = Inr (1, True, s1)"
proof -
  let ?w = "example_world (\<lambda>_. [Received quit_message])"
  have "\<exists>s1. round_of_loop ?w 1 0 example_app = Inr s1"
    by (simp add: round_of_loop_def send_part_def start_app_def example_world_def deliver_def)
  then obtain s1 where "round_of_loop ?w 1 0 example_app = Inr s1" ..
  from quit_message_ends [OF this _ quit_message_bytes, of 6] show ?thesis by (simp add: example_world_def)
qed

lemma telemetry_rate_witness:
  "\<exists>s. reaches (example_world (\<lambda>_. [])) 1 example_app 1 s \<and> msg_id s = 0"
proof -
  let ?w = "example_world (\<lambda>_. [])"
  have c: "g_continueRunning example_app" "iterator example_app = 4000" "msg_id example_app = 0" by (simp_all add: start_app_def)
  have "\<exists>s1. round_of_loop ?w 1 0 example_app = Inr s1" by (simp add: round_of_loop_def send_part_def start_app_def example_world_def)
  then obtain s1 where "round_of_loop ?w 1 0 example_app = Inr s1" ..
  from reaches.round [OF reaches.start c(1) this] have r: "reaches ?w 1 example_app 1 s1" by simp
  have "msg_id s1 \<le> msg_id example_app + (1 + 3999) div 5000" using telemetry_rate [OF r c(2)] by blast
  with r c(3) show ?thesis by auto
qed

lemma sixth_message_destroyed_twice_witness:
  "telemetry_loop 30000 (example_world (\<lambda>k. if k = 26001 then [Confirmed 0, Confirmed 4] else [])) 1 0 example_app = Inl Freed_pointer"
  by (rule sixth_message_destroyed_twice [OF example_serializes _ _ plenty_junk]) (simp_all add: example_world_def)

text \<open>Every message is confirmed in the round that sends it.\<close>

lemma prompt_empty:
  assumes "reaches (example_world (\<lambda>_. [Confirmed 0])) proto example_app k s"
  shows "waitingToSend s = []"
  using assms
proof (induction rule: reaches.induct)
  case start
  show ?case by (simp add: start_app_def)
next
  case (round k s s1)
  let ?w = "example_world (\<lambda>_. [Confirmed 0])"
  obtain s2 where s2: "send_part ?w proto k s = Inr s2" "deliver ?w (Confirmed 0) (s2\<lparr>iterator := iterator s2 + 1\<rparr>) = Inr s1"
    using round.hyps(3) by (auto simp: round_of_loop_def c_outcome example_world_def)
  have "length (waitingToSend s2) \<le> 1"
  proof (cases "iterator s \<ge> 5000")
    case True
    with s2(1) send_effect [of ?w proto k s s2] round.IH show ?thesis by (auto simp: send_part_def not_sent_def sent_def)
  next
    case False
    with s2(1) report_twin_run [of s s2] round.IH show ?thesis by (auto simp: send_part_def split: if_splits)
  qed
  with s2(2) show ?case
    by (cases "waitingToSend s2") (auto simp: deliver_def SendConfirmationCallback_def IoTHubMessage_Destroy_def split: option.splits if_splits)
qed

lemma confirmed_once_witness:
  "slots_ok example_app \<and> round_of_loop (example_world (\<lambda>_. [Confirmed 0])) 1 0 example_app \<noteq> Inl Freed_pointer"
proof (rule confirmed_once [OF reaches.start])
  show "slots_ok example_app" by (simp add: slots_ok_def in_flight_def start_app_def)
  show "iterator example_app = 4000" by (simp add: start_app_def)
  show "\<forall>j t. reaches (example_world (\<lambda>_. [Confirmed 0])) 1 example_app j t \<and> j mod 5000 = 1000 \<longrightarrow> msg_id t mod 5 \<notin> set (in_flight t)"
    using prompt_empty by (auto simp: in_flight_def)
qed

end
